(* ===== verification/Prelude.thy ===== *)
theory Prelude
  imports Main "HOL-Library.Word" "HOL-Library.Monad_Syntax" "HOL-Library.Multiset"
begin

text \<open>
  Shared vocabulary of the development: C pointers and the object store, doubly linked
  chains of store cells, C integers of fixed width, and the collections of rewrite rules
  the component theories fill.
  A memory fault (a NULL, freed or never allocated pointer is dereferenced) is \<open>None\<close>
  in the option monad: C gives such a program no meaning, so the model gives it no result.
\<close>

section \<open>Collections of rules\<close>

named_theorems store_simps \<open>reading and writing the object store\<close>
named_theorems inv_simps \<open>unfolding the representation invariants\<close>

section \<open>Pointers and the object store\<close>

type_synonym ptr = nat

abbreviation NULL :: ptr where
  "NULL \<equiv> 0"

type_synonym 'a store = "ptr \<rightharpoonup> 'a"

text \<open>\<open>*p\<close>: a fault unless \<open>p\<close> points to a live object.\<close>

definition deref :: "'a store \<Rightarrow> ptr \<Rightarrow> 'a option" where
  "deref h p = (if p = NULL then None else h p)"

text \<open>\<open>p->field = v\<close>: the object at \<open>p\<close> is rewritten by \<open>f\<close>.\<close>

definition update_at :: "'a store \<Rightarrow> ptr \<Rightarrow> ('a \<Rightarrow> 'a) \<Rightarrow> 'a store option" where
  "update_at h p f = (case deref h p of None \<Rightarrow> None | Some c \<Rightarrow> Some (h(p \<mapsto> f c)))"

text \<open>\<open>free(p)\<close> and \<open>delete p\<close>: nothing for NULL, a fault for a pointer that is not live.\<close>

definition release :: "'a store \<Rightarrow> ptr \<Rightarrow> 'a store option" where
  "release h p = (if p = NULL then Some h
                  else case h p of None \<Rightarrow> None | Some _ \<Rightarrow> Some (h(p := None)))"

lemma deref_NULL [simp]: "deref h NULL = None"
  by (simp add: deref_def)

lemma deref_live [store_simps]: "p \<noteq> NULL \<Longrightarrow> deref h p = h p"
  by (simp add: deref_def)

lemma deref_Some_iff: "deref h p = Some c \<longleftrightarrow> p \<noteq> NULL \<and> h p = Some c"
  by (auto simp: deref_def)

lemma update_at_live [store_simps]:
  "p \<noteq> NULL \<Longrightarrow> h p = Some c \<Longrightarrow> update_at h p f = Some (h(p \<mapsto> f c))"
  by (simp add: update_at_def deref_def)

lemma release_live [store_simps]:
  "p \<noteq> NULL \<Longrightarrow> h p = Some c \<Longrightarrow> release h p = Some (h(p := None))"
  by (simp add: release_def)

lemma release_dead [store_simps]: "p \<noteq> NULL \<Longrightarrow> h p = None \<Longrightarrow> release h p = None"
  by (simp add: release_def)

text \<open>A store without the objects at the addresses \<open>A\<close>.\<close>

definition wipe :: "ptr set \<Rightarrow> 'a store \<Rightarrow> 'a store" where
  "wipe A h = (\<lambda>p. if p \<in> A then None else h p)"

lemma wipe_apply: "wipe A h p = (if p \<in> A then None else h p)"
  by (simp add: wipe_def)

lemma wipe_outside [simp]: "p \<notin> A \<Longrightarrow> wipe A h p = h p"
  by (simp add: wipe_def)

lemma wipe_inside [simp]: "p \<in> A \<Longrightarrow> wipe A h p = None"
  by (simp add: wipe_def)

lemma wipe_empty [simp]: "wipe {} h = h"
  by (simp add: wipe_def)

lemma wipe_upd [store_simps]:
  "h(p := None) = wipe {p} h" "wipe A (wipe B h) = wipe (A \<union> B) h"
  by (auto simp: wipe_def fun_eq_iff)

section \<open>Doubly linked chains\<close>

text \<open>
  A chain is described by the addresses of its cells. \<open>firstp xs n\<close> is the pointer a
  predecessor holds to the chain \<open>xs\<close> that is followed by \<open>n\<close>; \<open>lastp pv xs\<close> is the
  pointer a successor holds to the chain that is preceded by \<open>pv\<close>. For a NULL-terminated
  list both ends are NULL, for a ring both are the sentinel.
\<close>

fun firstp :: "ptr list \<Rightarrow> ptr \<Rightarrow> ptr" where
  "firstp [] n = n"
| "firstp (x # xs) n = x"

fun lastp :: "ptr \<Rightarrow> ptr list \<Rightarrow> ptr" where
  "lastp pv [] = pv"
| "lastp pv (x # xs) = lastp x xs"

fun dchain :: "(ptr \<rightharpoonup> ptr) \<Rightarrow> (ptr \<rightharpoonup> ptr) \<Rightarrow> ptr \<Rightarrow> ptr list \<Rightarrow> ptr \<Rightarrow> bool" where
  "dchain nx pr pv [] n = True"
| "dchain nx pr pv (x # xs) n =
     (x \<noteq> NULL \<and> pr x = Some pv \<and> nx x = Some (firstp xs n) \<and> dchain nx pr x xs n)"

lemma firstp_append [simp]: "firstp (xs @ ys) n = firstp xs (firstp ys n)"
  by (cases xs) auto

lemma lastp_append [simp]: "lastp pv (xs @ ys) = lastp (lastp pv xs) ys"
  by (induction xs arbitrary: pv) auto

lemma lastp_in: "lastp pv xs = pv \<or> lastp pv xs \<in> set xs"
  by (induction xs arbitrary: pv) auto

lemma lastp_last: "xs \<noteq> [] \<Longrightarrow> lastp pv xs = last xs"
  by (induction xs arbitrary: pv) auto

lemma firstp_in: "firstp xs n = n \<or> firstp xs n \<in> set xs"
  by (cases xs) auto

lemma dchain_append [simp]:
  "dchain nx pr pv (xs @ ys) n \<longleftrightarrow>
     dchain nx pr pv xs (firstp ys n) \<and> dchain nx pr (lastp pv xs) ys n"
  by (induction xs arbitrary: pv) auto

lemma dchain_cong:
  "(\<And>x. x \<in> set xs \<Longrightarrow> nx' x = nx x \<and> pr' x = pr x) \<Longrightarrow>
     dchain nx' pr' pv xs n = dchain nx pr pv xs n"
  by (induction xs arbitrary: pv) auto

lemma dchain_upd_nx [simp]: "a \<notin> set xs \<Longrightarrow> dchain (nx(a := v)) pr pv xs n = dchain nx pr pv xs n"
  by (rule dchain_cong) auto

lemma dchain_upd_pr [simp]: "a \<notin> set xs \<Longrightarrow> dchain nx (pr(a := v)) pv xs n = dchain nx pr pv xs n"
  by (rule dchain_cong) auto

lemma dchain_not_NULL: "dchain nx pr pv xs n \<Longrightarrow> x \<in> set xs \<Longrightarrow> x \<noteq> NULL"
  by (induction xs arbitrary: pv) auto

lemma dchain_NULL_notin: "dchain nx pr pv xs n \<Longrightarrow> NULL \<notin> set xs"
  using dchain_not_NULL by blast

lemma dchain_firstp_NULL: "dchain nx pr pv xs n \<Longrightarrow> firstp xs NULL = NULL \<longleftrightarrow> xs = []"
  by (cases xs) auto

lemma lastp_snoc: "xs = [] \<or> (\<exists>ys. xs = ys @ [lastp pv xs])"
  by (cases xs rule: rev_cases) auto

lemma dchain_lastp_NULL: "dchain nx pr NULL xs n \<Longrightarrow> lastp NULL xs = NULL \<longleftrightarrow> xs = []"
  by (cases xs rule: rev_cases) auto

text \<open>Retargeting the two ends of a chain.\<close>

lemma dchain_new_next:
  assumes "dchain nx pr pv xs n" "distinct xs" "xs \<noteq> []"
  shows "dchain (nx(lastp pv xs := Some n')) pr pv xs n'"
  using assms by (cases xs rule: rev_cases) auto

lemma dchain_new_prev:
  assumes "dchain nx pr pv xs n" "distinct xs" "xs \<noteq> []"
  shows "dchain nx (pr(firstp xs n := Some pv')) pv' xs n"
  using assms by (cases xs) auto

section \<open>C integers\<close>

text \<open>
  Conversion of an integer to the 32-bit signed type \<open>int\<close> (the value modulo
  \<open>2 ^ 32\<close> in two's complement, which is what the compilers of this platform do).
\<close>

definition to_int32 :: "int \<Rightarrow> int" where
  "to_int32 x = (x + 2 ^ 31) mod 2 ^ 32 - 2 ^ 31"

lemma to_int32_id: "- (2 ^ 31) \<le> x \<Longrightarrow> x < 2 ^ 31 \<Longrightarrow> to_int32 x = x"
  by (simp add: to_int32_def)

lemma to_int32_bounds: "- (2 ^ 31) \<le> to_int32 x \<and> to_int32 x < 2 ^ 31"
  unfolding to_int32_def by auto

end
