(* ===== verification/LinkedList.thy ===== *)
theory LinkedList
  imports Prelude
begin

text \<open>
  \<open>gps/utils/linked_list.c\<close>: the doubly linked list behind the message queues.
  The model keeps the cells in an explicit store, so that the pointer surgery of
  \<open>linked_list_add\<close>, \<open>linked_list_remove\<close> and \<open>linked_list_search\<close> is the code's own,
  with every dereference checked; the lemmas relate a well formed store to the list of
  its (address, data, deallocator) entries, head first.
  The address \<open>malloc\<close>/\<open>calloc\<close> returns is an argument (NULL when it fails). A
  deallocator is an opaque function pointer; calling it is recorded in \<open>dealloc_calls\<close>.
\<close>

section \<open>Data\<close>

datatype linked_list_err_type =
    eLINKED_LIST_SUCCESS
  | eLINKED_LIST_FAILURE_GENERAL
  | eLINKED_LIST_INVALID_PARAMETER
  | eLINKED_LIST_INVALID_HANDLE
  | eLINKED_LIST_UNAVAILABLE_RESOURCE
  | eLINKED_LIST_INSUFFICIENT_BUFFER

fun ll_err_code :: "linked_list_err_type \<Rightarrow> int" where
  "ll_err_code eLINKED_LIST_SUCCESS = 0"
| "ll_err_code eLINKED_LIST_FAILURE_GENERAL = -1"
| "ll_err_code eLINKED_LIST_INVALID_PARAMETER = -2"
| "ll_err_code eLINKED_LIST_INVALID_HANDLE = -3"
| "ll_err_code eLINKED_LIST_UNAVAILABLE_RESOURCE = -4"
| "ll_err_code eLINKED_LIST_INSUFFICIENT_BUFFER = -5"

record list_element =
  nxt :: ptr
  prv :: ptr
  data_ptr :: ptr
  dealloc_func :: ptr

record list_state =
  p_head :: ptr
  p_tail :: ptr

record ll_heap =
  elems :: "list_element store"
  lists :: "list_state store"
  dealloc_calls :: "(ptr \<times> ptr) list"

section \<open>Operations\<close>

text \<open>
  An output parameter \<open>void **p\<close> is a Boolean argument (is \<open>p\<close> non-NULL?) and an optional
  result (what was written to \<open>*p\<close>, \<open>None\<close> when nothing was).
\<close>

definition linked_list_init ::
  "bool \<Rightarrow> ptr \<Rightarrow> ll_heap \<Rightarrow> linked_list_err_type \<times> ptr option \<times> ll_heap" where
  "linked_list_init list_data m h =
     (if \<not> list_data then (eLINKED_LIST_INVALID_PARAMETER, None, h)
      else if m = NULL then (eLINKED_LIST_FAILURE_GENERAL, None, h)
      else (eLINKED_LIST_SUCCESS, Some m,
            h\<lparr>lists := (lists h)(m \<mapsto> \<lparr>p_head = NULL, p_tail = NULL\<rparr>)\<rparr>))"

definition linked_list_add ::
  "ptr \<Rightarrow> ptr \<Rightarrow> ptr \<Rightarrow> ptr \<Rightarrow> ll_heap \<Rightarrow> (linked_list_err_type \<times> ll_heap) option" where
  "linked_list_add list_data data_obj dealloc m h =
     (if list_data = NULL then Some (eLINKED_LIST_INVALID_HANDLE, h)
      else if data_obj = NULL then Some (eLINKED_LIST_INVALID_PARAMETER, h)
      else if m = NULL then Some (eLINKED_LIST_FAILURE_GENERAL, h)
      else do {
        p_list \<leftarrow> deref (lists h) list_data;
        let tmp = p_head p_list;
        let es = (elems h)(m \<mapsto> \<lparr>nxt = NULL, prv = NULL, data_ptr = data_obj,
                                 dealloc_func = dealloc\<rparr>);
        let p_list = p_list\<lparr>p_head := m\<rparr>;
        es \<leftarrow> update_at es (p_head p_list) (\<lambda>c. c\<lparr>nxt := tmp\<rparr>);
        (es, p_list) \<leftarrow>
          (if tmp \<noteq> NULL then do {
             es \<leftarrow> update_at es tmp (\<lambda>c. c\<lparr>prv := p_head p_list\<rparr>);
             Some (es, p_list) }
           else Some (es, p_list\<lparr>p_tail := p_head p_list\<rparr>));
        Some (eLINKED_LIST_SUCCESS,
              h\<lparr>elems := es, lists := (lists h)(list_data \<mapsto> p_list)\<rparr>)
      })"

definition linked_list_remove ::
  "ptr \<Rightarrow> bool \<Rightarrow> ll_heap \<Rightarrow> (linked_list_err_type \<times> ptr option \<times> ll_heap) option" where
  "linked_list_remove list_data data_obj h =
     (if list_data = NULL then Some (eLINKED_LIST_INVALID_HANDLE, None, h)
      else if \<not> data_obj then Some (eLINKED_LIST_INVALID_PARAMETER, None, h)
      else do {
        p_list \<leftarrow> deref (lists h) list_data;
        if p_tail p_list = NULL then Some (eLINKED_LIST_UNAVAILABLE_RESOURCE, None, h)
        else do {
          let tmp = p_tail p_list;
          tmp_c \<leftarrow> deref (elems h) tmp;
          let p_list = p_list\<lparr>p_tail := prv tmp_c\<rparr>;
          (es, p_list) \<leftarrow>
            (if p_tail p_list \<noteq> NULL then do {
               es \<leftarrow> update_at (elems h) (p_tail p_list) (\<lambda>c. c\<lparr>nxt := NULL\<rparr>);
               Some (es, p_list) }
             else Some (elems h, p_list\<lparr>p_head := p_tail p_list\<rparr>));
          tmp_c \<leftarrow> deref es tmp;
          es \<leftarrow> release es tmp;
          Some (eLINKED_LIST_SUCCESS, Some (data_ptr tmp_c),
                h\<lparr>elems := es, lists := (lists h)(list_data \<mapsto> p_list)\<rparr>)
        }
      })"

definition linked_list_empty :: "ptr \<Rightarrow> ll_heap \<Rightarrow> int option" where
  "linked_list_empty list_data h =
     (if list_data = NULL then Some (ll_err_code eLINKED_LIST_INVALID_HANDLE)
      else do {
        p_list \<leftarrow> deref (lists h) list_data;
        Some (if p_head p_list = NULL then 1 else 0)
      })"

text \<open>The loop of \<open>linked_list_flush\<close>; the state is \<open>p_list->p_head\<close> and the store.\<close>

partial_function (option) flush_loop ::
  "ptr \<Rightarrow> list_element store \<Rightarrow> (ptr \<times> ptr) list \<Rightarrow>
     (list_element store \<times> (ptr \<times> ptr) list) option" where
  "flush_loop head es calls =
     (if head \<noteq> NULL then do {
        c \<leftarrow> deref es head;
        let tmp = nxt c;
        let calls = (if dealloc_func c \<noteq> NULL
                     then calls @ [(dealloc_func c, data_ptr c)] else calls);
        es \<leftarrow> release es head;
        flush_loop tmp es calls
      }
      else Some (es, calls))"

definition linked_list_flush ::
  "ptr \<Rightarrow> ll_heap \<Rightarrow> (linked_list_err_type \<times> ll_heap) option" where
  "linked_list_flush list_data h =
     (if list_data = NULL then Some (eLINKED_LIST_INVALID_HANDLE, h)
      else do {
        p_list \<leftarrow> deref (lists h) list_data;
        (es, calls) \<leftarrow> flush_loop (p_head p_list) (elems h) (dealloc_calls h);
        Some (eLINKED_LIST_SUCCESS,
              h\<lparr>elems := es, dealloc_calls := calls,
                lists := (lists h)(list_data \<mapsto> \<lparr>p_head = NULL, p_tail = NULL\<rparr>)\<rparr>)
      })"

text \<open>
  \<open>linked_list_destroy\<close> takes the address of the handle: \<open>None\<close> is a NULL address,
  \<open>Some v\<close> a variable that holds \<open>v\<close>; the result carries the variable's new value.
\<close>

definition linked_list_destroy ::
  "ptr option \<Rightarrow> ll_heap \<Rightarrow> (linked_list_err_type \<times> ptr option \<times> ll_heap) option" where
  "linked_list_destroy list_data h =
     (case list_data of
        None \<Rightarrow> Some (eLINKED_LIST_INVALID_HANDLE, None, h)
      | Some p_list \<Rightarrow> do {
          (_, h) \<leftarrow> linked_list_flush p_list h;
          ls \<leftarrow> release (lists h) p_list;
          Some (eLINKED_LIST_SUCCESS, Some NULL, h\<lparr>lists := ls\<rparr>)
        })"

text \<open>The branch of \<open>linked_list_search\<close> taken when \<open>equal\<close> accepts the cell at \<open>tmp\<close>.\<close>

definition search_hit ::
  "bool \<Rightarrow> bool \<Rightarrow> ptr \<Rightarrow> ptr \<Rightarrow> list_element \<Rightarrow> ptr option \<Rightarrow> ll_heap \<Rightarrow>
     (ptr option \<times> ll_heap) option" where
  "search_hit data_p rm_if_found list_data tmp c out h = do {
     let out = (if data_p then Some (data_ptr c) else out);
     if rm_if_found then do {
       p_list \<leftarrow> deref (lists h) list_data;
       (es, p_list) \<leftarrow>
         (if prv c = NULL then Some (elems h, p_list\<lparr>p_head := nxt c\<rparr>)
          else do {
            es \<leftarrow> update_at (elems h) (prv c) (\<lambda>e. e\<lparr>nxt := nxt c\<rparr>);
            Some (es, p_list) });
       c \<leftarrow> deref es tmp;
       (es, p_list) \<leftarrow>
         (if nxt c = NULL then Some (es, p_list\<lparr>p_tail := prv c\<rparr>)
          else do {
            es \<leftarrow> update_at es (nxt c) (\<lambda>e. e\<lparr>prv := prv c\<rparr>);
            Some (es, p_list) });
       es \<leftarrow> update_at es tmp (\<lambda>e. e\<lparr>prv := NULL, nxt := NULL\<rparr>);
       let calls = (if \<not> data_p \<and> dealloc_func c \<noteq> NULL
                    then dealloc_calls h @ [(dealloc_func c, data_ptr c)]
                    else dealloc_calls h);
       es \<leftarrow> release es tmp;
       Some (out, h\<lparr>elems := es, lists := (lists h)(list_data \<mapsto> p_list),
                    dealloc_calls := calls\<rparr>)
     }
     else Some (out, h)
   }"

partial_function (option) search_loop ::
  "(ptr \<Rightarrow> ptr \<Rightarrow> bool) \<Rightarrow> ptr \<Rightarrow> bool \<Rightarrow> bool \<Rightarrow> ptr \<Rightarrow> ptr \<Rightarrow> ptr option \<Rightarrow> ll_heap \<Rightarrow>
     (ptr option \<times> ll_heap) option" where
  "search_loop eq data_0 data_p rm_if_found list_data tmp out h =
     (if tmp = NULL then Some (out, h)
      else do {
        c \<leftarrow> deref (elems h) tmp;
        if eq data_0 (data_ptr c) then search_hit data_p rm_if_found list_data tmp c out h
        else search_loop eq data_0 data_p rm_if_found list_data (nxt c) out h
      })"

text \<open>\<open>equal\<close> is \<open>None\<close> for a NULL function pointer.\<close>

definition linked_list_search ::
  "ptr \<Rightarrow> bool \<Rightarrow> (ptr \<Rightarrow> ptr \<Rightarrow> bool) option \<Rightarrow> ptr \<Rightarrow> bool \<Rightarrow> ll_heap \<Rightarrow>
     (linked_list_err_type \<times> ptr option \<times> ll_heap) option" where
  "linked_list_search list_data data_p equal data_0 rm_if_found h =
     (case equal of
        None \<Rightarrow> Some (eLINKED_LIST_INVALID_HANDLE, None, h)
      | Some eq \<Rightarrow>
          if list_data = NULL then Some (eLINKED_LIST_INVALID_HANDLE, None, h)
          else do {
            p_list \<leftarrow> deref (lists h) list_data;
            if p_tail p_list = NULL then Some (eLINKED_LIST_UNAVAILABLE_RESOURCE, None, h)
            else do {
              (out, h) \<leftarrow> search_loop eq data_0 data_p rm_if_found list_data (p_head p_list)
                            (if data_p then Some NULL else None) h;
              Some (eLINKED_LIST_SUCCESS, out, h)
            }
          })"

section \<open>Representation\<close>

type_synonym entry = "ptr \<times> ptr \<times> ptr"

abbreviation addr :: "entry \<Rightarrow> ptr" where
  "addr \<equiv> fst"

definition link_nxt :: "list_element store \<Rightarrow> ptr \<rightharpoonup> ptr" where
  "link_nxt es a = map_option nxt (es a)"

definition link_prv :: "list_element store \<Rightarrow> ptr \<rightharpoonup> ptr" where
  "link_prv es a = map_option prv (es a)"

definition payload :: "list_element store \<Rightarrow> ptr \<rightharpoonup> ptr \<times> ptr" where
  "payload es a = map_option (\<lambda>c. (data_ptr c, dealloc_func c)) (es a)"

fun payloads :: "(ptr \<rightharpoonup> ptr \<times> ptr) \<Rightarrow> entry list \<Rightarrow> bool" where
  "payloads p [] = True"
| "payloads p (x # xs) = (p (addr x) = Some (snd x) \<and> payloads p xs)"

definition ll_inv :: "ll_heap \<Rightarrow> ptr \<Rightarrow> entry list \<Rightarrow> bool" where
  "ll_inv h ld xs \<longleftrightarrow>
     ld \<noteq> NULL \<and>
     lists h ld = Some \<lparr>p_head = firstp (map addr xs) NULL, p_tail = lastp NULL (map addr xs)\<rparr> \<and>
     dchain (link_nxt (elems h)) (link_prv (elems h)) NULL (map addr xs) NULL \<and>
     distinct (map addr xs) \<and>
     payloads (payload (elems h)) xs"

lemma link_upd [simp]:
  "link_nxt (es(a \<mapsto> c)) = (link_nxt es)(a \<mapsto> nxt c)"
  "link_prv (es(a \<mapsto> c)) = (link_prv es)(a \<mapsto> prv c)"
  "link_nxt (es(a := None)) = (link_nxt es)(a := None)"
  "link_prv (es(a := None)) = (link_prv es)(a := None)"
  by (auto simp: link_nxt_def link_prv_def)

lemma payload_upd [simp]:
  "payload (es(a \<mapsto> c)) = (payload es)(a \<mapsto> (data_ptr c, dealloc_func c))"
  "payload (es(a := None)) = (payload es)(a := None)"
  by (auto simp: payload_def)

lemma payloads_upd [simp]: "a \<notin> set (map addr xs) \<Longrightarrow> payloads (p(a := v)) xs = payloads p xs"
  by (induction xs) auto

lemma payloads_append [simp]: "payloads p (xs @ ys) \<longleftrightarrow> payloads p xs \<and> payloads p ys"
  by (induction xs) auto

lemma payloads_iff: "payloads p xs \<longleftrightarrow> (\<forall>(a, d) \<in> set xs. p a = Some d)"
  by (induction xs) auto

lemma link_Some_elem: "link_nxt es a = Some n \<Longrightarrow> \<exists>c. es a = Some c \<and> nxt c = n"
  by (auto simp: link_nxt_def)

lemma ll_live: "ll_inv h ld xs \<Longrightarrow> a \<in> set (map addr xs) \<Longrightarrow> \<exists>c. elems h a = Some c \<and> a \<noteq> NULL"
  by (fastforce simp: ll_inv_def payloads_iff payload_def dest: dchain_not_NULL)

lemma ll_invD:
  assumes "ll_inv h ld xs"
  shows "ld \<noteq> NULL"
    and "lists h ld = Some \<lparr>p_head = firstp (map addr xs) NULL, p_tail = lastp NULL (map addr xs)\<rparr>"
    and "dchain (link_nxt (elems h)) (link_prv (elems h)) NULL (map addr xs) NULL"
    and "distinct (map addr xs)"
    and "payloads (payload (elems h)) xs"
  using assms by (auto simp: ll_inv_def)

text \<open>What an operation on the list \<open>ld\<close> leaves alone: every cell outside \<open>S\<close>, every other list.\<close>

definition ll_frame :: "ll_heap \<Rightarrow> ll_heap \<Rightarrow> ptr \<Rightarrow> ptr set \<Rightarrow> bool" where
  "ll_frame h h' ld S \<longleftrightarrow>
     (\<forall>a. a \<notin> S \<longrightarrow> elems h' a = elems h a) \<and> (\<forall>l. l \<noteq> ld \<longrightarrow> lists h' l = lists h l)"

lemma ll_inv_frame:
  assumes "ll_inv h ld' ys" "ll_frame h h' ld S" "ld' \<noteq> ld" "S \<inter> set (map addr ys) = {}"
  shows "ll_inv h' ld' ys"
proof -
  have same: "elems h' a = elems h a" if "a \<in> set (map addr ys)" for a
    using that assms(2,4) by (auto simp: ll_frame_def)
  have "dchain (link_nxt (elems h')) (link_prv (elems h')) NULL (map addr ys) NULL"
    using assms(1) same
    by (subst dchain_cong [where nx = "link_nxt (elems h)" and pr = "link_prv (elems h)"])
      (auto simp: link_nxt_def link_prv_def ll_inv_def)
  moreover have "payloads (payload (elems h')) ys"
    using assms(1) same by (fastforce simp: payloads_iff payload_def ll_inv_def)
  moreover have "lists h' ld' = lists h ld'"
    using assms(2,3) by (simp add: ll_frame_def)
  ultimately show ?thesis using assms(1) by (simp add: ll_inv_def)
qed

section \<open>Refinement\<close>

lemma linked_list_init_ok:
  "m \<noteq> NULL \<Longrightarrow> linked_list_init True m h = (e, out, h') \<Longrightarrow>
     e = eLINKED_LIST_SUCCESS \<and> out = Some m \<and> ll_inv h' m [] \<and> ll_frame h h' m {}"
  by (auto simp: linked_list_init_def ll_inv_def ll_frame_def)

lemma linked_list_add_ok:
  assumes inv: "ll_inv h ld xs" and fresh: "m \<noteq> NULL" "elems h m = None" and "d \<noteq> NULL"
  shows "\<exists>h'. linked_list_add ld d f m h = Some (eLINKED_LIST_SUCCESS, h') \<and>
           ll_inv h' ld ((m, d, f) # xs) \<and> dealloc_calls h' = dealloc_calls h \<and>
           ll_frame h h' ld (insert m (set (map addr xs)))"
proof (cases xs)
  case Nil
  then show ?thesis
    using ll_invD [OF inv] fresh \<open>d \<noteq> NULL\<close>
    by (simp add: linked_list_add_def deref_live update_at_live ll_inv_def ll_frame_def)
next
  case (Cons x ys)
  obtain a da fa where x: "x = (a, da, fa)" by (cases x) auto
  obtain c where c: "elems h a = Some c" and "a \<noteq> NULL"
    using ll_live [OF inv, of a] Cons x by auto
  have "a \<noteq> m" using c fresh by auto
  moreover have "m \<notin> set (map addr xs)"
    using ll_live [OF inv, of m] fresh by auto
  moreover have "nxt c = firstp (map addr ys) NULL" "data_ptr c = da" "dealloc_func c = fa"
    using ll_invD(3,5) [OF inv] Cons x c by (auto simp: link_nxt_def payload_def)
  ultimately show ?thesis
    using ll_invD [OF inv] fresh \<open>d \<noteq> NULL\<close> Cons x c \<open>a \<noteq> NULL\<close>
    by (auto simp: linked_list_add_def deref_live update_at_def ll_inv_def ll_frame_def)
qed

lemma linked_list_remove_ok:
  assumes inv: "ll_inv h ld (xs @ [(a, d, f)])"
  shows "\<exists>h'. linked_list_remove ld True h = Some (eLINKED_LIST_SUCCESS, Some d, h') \<and>
           ll_inv h' ld xs \<and> elems h' a = None \<and> dealloc_calls h' = dealloc_calls h \<and>
           ll_frame h h' ld (insert a (set (map addr xs)))"
proof (cases xs rule: rev_cases)
  case Nil
  obtain c where c: "elems h a = Some c" "a \<noteq> NULL"
    using ll_live [OF inv, of a] by auto
  then have "prv c = NULL" "data_ptr c = d"
    using ll_invD(3,5) [OF inv] Nil by (auto simp: link_prv_def payload_def)
  then show ?thesis
    using ll_invD [OF inv] Nil c
    by (simp add: linked_list_remove_def deref_live release_live ll_inv_def ll_frame_def)
next
  case (snoc ys y)
  obtain b db fb where y: "y = (b, db, fb)" by (cases y) auto
  obtain c where c: "elems h a = Some c" "a \<noteq> NULL"
    using ll_live [OF inv, of a] by auto
  obtain cb where cb: "elems h b = Some cb" "b \<noteq> NULL"
    using ll_live [OF inv, of b] snoc y by auto
  have "a \<noteq> b" using ll_invD(4) [OF inv] snoc y by auto
  moreover have "prv c = b" "data_ptr c = d"
    "prv cb = lastp NULL (map addr ys)" "data_ptr cb = db" "dealloc_func cb = fb"
    using ll_invD(3,5) [OF inv] snoc y c cb by (auto simp: link_prv_def payload_def)
  ultimately show ?thesis
    using ll_invD [OF inv] snoc y c cb
    by (auto simp: linked_list_remove_def deref_live update_at_def release_def ll_inv_def ll_frame_def)
qed

lemma linked_list_remove_empty:
  "ll_inv h ld [] \<Longrightarrow>
     linked_list_remove ld True h = Some (eLINKED_LIST_UNAVAILABLE_RESOURCE, None, h)"
  by (simp add: linked_list_remove_def ll_inv_def deref_live)

lemma linked_list_empty_ok:
  "ll_inv h ld xs \<Longrightarrow> linked_list_empty ld h = Some (if xs = [] then 1 else 0)"
  using dchain_firstp_NULL [of _ _ _ "map addr xs"]
  by (auto simp: linked_list_empty_def ll_inv_def deref_live)

text \<open>Flushing: every deallocator is called once, head first, and every cell is freed.\<close>

definition dealloc_log :: "entry list \<Rightarrow> (ptr \<times> ptr) list" where
  "dealloc_log xs = map (\<lambda>(a, d, f). (f, d)) (filter (\<lambda>(a, d, f). f \<noteq> NULL) xs)"

lemma dealloc_log_simps [simp]:
  "dealloc_log [] = []"
  "dealloc_log ((a, d, f) # xs) = (if f \<noteq> NULL then [(f, d)] else []) @ dealloc_log xs"
  by (auto simp: dealloc_log_def)

lemma wipe_insert: "wipe S (es(a := None)) = wipe (insert a S) es"
  by (auto simp: wipe_def)

lemma flush_loop_ok:
  assumes "dchain (link_nxt es) (link_prv es) pv (map addr xs) NULL" "distinct (map addr xs)"
    "payloads (payload es) xs"
  shows "flush_loop (firstp (map addr xs) NULL) es calls =
           Some (wipe (set (map addr xs)) es, calls @ dealloc_log xs)"
  using assms
proof (induction xs arbitrary: es calls pv)
  case Nil
  then show ?case by (simp add: flush_loop.simps)
next
  case (Cons x xs)
  obtain a d f where x: "x = (a, d, f)" by (cases x) auto
  obtain c where c: "es a = Some c" "nxt c = firstp (map addr xs) NULL" "a \<noteq> NULL"
      "data_ptr c = d" "dealloc_func c = f"
    using Cons.prems x by (auto simp: link_nxt_def payload_def)
  have "flush_loop (firstp (map addr xs) NULL) (es(a := None)) cs =
      Some (wipe (set (map addr xs)) (es(a := None)), cs @ dealloc_log xs)" for cs
  proof (rule Cons.IH [where pv = a])
    show "dchain (link_nxt (es(a := None))) (link_prv (es(a := None))) a (map addr xs) NULL"
      using Cons.prems x by simp
    show "distinct (map addr xs)" using Cons.prems by simp
    show "payloads (payload (es(a := None))) xs" using Cons.prems x by simp
  qed
  then show ?case
    using c x by (simp add: flush_loop.simps [of a] deref_live release_live wipe_insert)
qed

lemma linked_list_flush_ok:
  assumes inv: "ll_inv h ld xs"
  shows "\<exists>h'. linked_list_flush ld h = Some (eLINKED_LIST_SUCCESS, h') \<and> ll_inv h' ld [] \<and>
           dealloc_calls h' = dealloc_calls h @ dealloc_log xs \<and>
           (\<forall>a \<in> set (map addr xs). elems h' a = None) \<and>
           ll_frame h h' ld (set (map addr xs))"
  using ll_invD [OF inv] flush_loop_ok [OF ll_invD(3,4,5) [OF inv], of "dealloc_calls h"]
  by (auto simp: linked_list_flush_def deref_live ll_inv_def ll_frame_def wipe_def)

lemma linked_list_destroy_ok:
  assumes inv: "ll_inv h ld xs"
  shows "\<exists>h'. linked_list_destroy (Some ld) h = Some (eLINKED_LIST_SUCCESS, Some NULL, h') \<and>
           lists h' ld = None \<and> dealloc_calls h' = dealloc_calls h @ dealloc_log xs \<and>
           (\<forall>a \<in> set (map addr xs). elems h' a = None) \<and>
           ll_frame h h' ld (set (map addr xs))"
proof -
  obtain h1 where h1: "linked_list_flush ld h = Some (eLINKED_LIST_SUCCESS, h1)" "ll_inv h1 ld []"
      "dealloc_calls h1 = dealloc_calls h @ dealloc_log xs"
      "\<forall>a \<in> set (map addr xs). elems h1 a = None" "ll_frame h h1 ld (set (map addr xs))"
    using linked_list_flush_ok [OF inv] by auto
  then show ?thesis
    using ll_invD(1,2) [OF h1(2)]
    by (auto simp: linked_list_destroy_def release_live ll_frame_def)
qed

text \<open>Searching: the cells before the first match are passed over, the match is unlinked.\<close>

lemma search_loop_skip:
  assumes "dchain (link_nxt (elems h)) (link_prv (elems h)) pv (map addr (ys @ zs)) NULL"
    and "payloads (payload (elems h)) ys" and "list_all (\<lambda>(a, d, f). \<not> eq d0 d) ys"
  shows "search_loop eq d0 dp rm ld (firstp (map addr (ys @ zs)) NULL) out h =
         search_loop eq d0 dp rm ld (firstp (map addr zs) NULL) out h"
  using assms
proof (induction ys arbitrary: pv)
  case Nil
  then show ?case by simp
next
  case (Cons y ys)
  obtain a d f where y: "y = (a, d, f)" by (cases y) auto
  obtain c where "elems h a = Some c" "nxt c = firstp (map addr (ys @ zs)) NULL" "a \<noteq> NULL"
      "data_ptr c = d"
    using Cons.prems y by (auto simp: link_nxt_def payload_def)
  then show ?case
    using Cons.IH [of a] Cons.prems y by (simp add: search_loop.simps [of _ _ _ _ _ a] deref_live)
qed

lemma search_hit_ok:
  assumes inv: "ll_inv h ld (ys @ (a, d, f) # zs)" and c: "elems h a = Some c"
  shows "\<exists>h'. search_hit dp True ld a c out h = Some (if dp then Some d else out, h') \<and>
           ll_inv h' ld (ys @ zs) \<and> elems h' a = None \<and>
           dealloc_calls h' = dealloc_calls h @ (if \<not> dp \<and> f \<noteq> NULL then [(f, d)] else []) \<and>
           ll_frame h h' ld (insert a (set (map addr (ys @ zs))))"
proof -
  have c': "prv c = lastp NULL (map addr ys)" "nxt c = firstp (map addr zs) NULL" "a \<noteq> NULL"
      "data_ptr c = d" "dealloc_func c = f"
    using ll_invD(3,5) [OF inv] c by (auto simp: link_prv_def link_nxt_def payload_def)
  have before: "\<exists>cb. elems h b = Some cb \<and> b \<noteq> NULL \<and> b \<noteq> a \<and> data_ptr cb = db \<and> dealloc_func cb = fb \<and>
      prv cb = lastp NULL (map addr ys')"
    if "ys = ys' @ [(b, db, fb)]" for ys' b db fb
    using that ll_live [OF inv, of b] ll_invD(3,4,5) [OF inv]
    by (auto simp: link_prv_def payload_def)
  have after: "\<exists>cb. elems h b = Some cb \<and> b \<noteq> NULL \<and> b \<noteq> a \<and> data_ptr cb = db \<and> dealloc_func cb = fb \<and>
      nxt cb = firstp (map addr zs') NULL"
    if "zs = (b, db, fb) # zs'" for zs' b db fb
    using that ll_live [OF inv, of b] ll_invD(3,4,5) [OF inv]
    by (auto simp: link_nxt_def payload_def)
  note rw = search_hit_def deref_live update_at_def release_def ll_inv_def ll_frame_def
  show ?thesis
  proof (cases ys rule: rev_cases)
    case Nil
    show ?thesis
    proof (cases zs)
      case Nil
      then show ?thesis using \<open>ys = []\<close> ll_invD [OF inv] c c' by (auto simp: rw)
    next
      case (Cons z zs')
      obtain b db fb where z: "z = (b, db, fb)" by (cases z) auto
      then show ?thesis
        using \<open>ys = []\<close> Cons ll_invD [OF inv] c c' after [of b db fb zs'] by (auto simp: rw)
    qed
  next
    case (snoc ys' y)
    obtain b db fb where y: "y = (b, db, fb)" by (cases y) auto
    show ?thesis
    proof (cases zs)
      case Nil
      then show ?thesis
        using snoc y ll_invD [OF inv] c c' before [of ys' b db fb] by (auto simp: rw)
    next
      case (Cons z zs')
      obtain b2 db2 fb2 where z: "z = (b2, db2, fb2)" by (cases z) auto
      have "b \<noteq> b2" using ll_invD(4) [OF inv] snoc y Cons z by auto
      then show ?thesis
        using snoc y Cons z ll_invD [OF inv] c c' before [of ys' b db fb] after [of b2 db2 fb2 zs']
        by (auto simp: rw)
    qed
  qed
qed

lemma linked_list_search_hit:
  assumes inv: "ll_inv h ld (ys @ (a, d, f) # zs)"
    and "list_all (\<lambda>(a, d, f). \<not> eq d0 d) ys" and "eq d0 d"
  shows "\<exists>h'. linked_list_search ld dp (Some eq) d0 True h =
             Some (eLINKED_LIST_SUCCESS, if dp then Some d else None, h') \<and>
           ll_inv h' ld (ys @ zs) \<and> elems h' a = None \<and>
           dealloc_calls h' = dealloc_calls h @ (if \<not> dp \<and> f \<noteq> NULL then [(f, d)] else []) \<and>
           ll_frame h h' ld (insert a (set (map addr (ys @ zs))))"
proof -
  let ?out = "if dp then Some NULL else None"
  obtain c where c: "elems h a = Some c" "a \<noteq> NULL" using ll_live [OF inv, of a] by auto
  have d: "data_ptr c = d" using ll_invD(5) [OF inv] c by (auto simp: payload_def)
  obtain h' where h': "search_hit dp True ld a c ?out h = Some (if dp then Some d else ?out, h')"
      "ll_inv h' ld (ys @ zs)" "elems h' a = None"
      "dealloc_calls h' = dealloc_calls h @ (if \<not> dp \<and> f \<noteq> NULL then [(f, d)] else [])"
      "ll_frame h h' ld (insert a (set (map addr (ys @ zs))))"
    using search_hit_ok [OF inv c(1), of dp ?out] by auto
  have "search_loop eq d0 dp True ld (firstp (map addr (ys @ (a, d, f) # zs)) NULL) ?out h =
      search_loop eq d0 dp True ld a ?out h"
    using search_loop_skip [of h NULL ys "(a, d, f) # zs"] ll_invD(3,5) [OF inv] assms(2) by simp
  also have "\<dots> = Some (if dp then Some d else ?out, h')"
    using h'(1) assms(3) c d by (simp add: search_loop.simps [of _ _ _ _ _ a] deref_live)
  finally have loop: "search_loop eq d0 dp True ld (firstp (map addr (ys @ (a, d, f) # zs)) NULL) ?out h =
      Some (if dp then Some d else ?out, h')" .
  have "lastp NULL (map addr (ys @ (a, d, f) # zs)) \<noteq> NULL"
    using ll_invD(3) [OF inv] dchain_lastp_NULL by blast
  then show ?thesis
    using ll_invD(1,2) [OF inv] loop h'(2-5) by (auto simp: linked_list_search_def deref_live)
qed

lemma linked_list_search_miss:
  assumes inv: "ll_inv h ld xs" and "xs \<noteq> []" and "list_all (\<lambda>(a, d, f). \<not> eq d0 d) xs"
  shows "linked_list_search ld dp (Some eq) d0 rm h =
           Some (eLINKED_LIST_SUCCESS, if dp then Some NULL else None, h)"
proof -
  have "search_loop eq d0 dp rm ld (firstp (map addr (xs @ [])) NULL) out h =
      search_loop eq d0 dp rm ld (firstp (map addr []) NULL) out h" for out
    by (rule search_loop_skip) (use ll_invD(3,5) [OF inv] assms(3) in auto)
  moreover have "lastp NULL (map addr xs) \<noteq> NULL"
    using ll_invD(3) [OF inv] \<open>xs \<noteq> []\<close> dchain_lastp_NULL by blast
  ultimately show ?thesis
    using ll_invD(1,2) [OF inv]
    by (simp add: linked_list_search_def deref_live search_loop.simps [of _ _ _ _ _ NULL])
qed

section \<open>Properties\<close>

text \<open>A list at address 1 with two cells, for the witnesses.\<close>

definition ll_example :: ll_heap where
  "ll_example =
     \<lparr>elems = [10 \<mapsto> \<lparr>nxt = 20, prv = NULL, data_ptr = 100, dealloc_func = 7\<rparr>,
               20 \<mapsto> \<lparr>nxt = NULL, prv = 10, data_ptr = 200, dealloc_func = NULL\<rparr>],
      lists = [1 \<mapsto> \<lparr>p_head = 10, p_tail = 20\<rparr>], dealloc_calls = []\<rparr>"

lemma ll_example_inv: "ll_inv ll_example 1 [(10, 100, 7), (20, 200, NULL)]"
  by (simp add: ll_example_def ll_inv_def link_nxt_def link_prv_def payload_def)

text \<open>
  C27: \<open>linked_list_add\<close> on a well formed list with a fresh cell succeeds and puts the element
  at the head; \<open>linked_list_remove\<close> then takes the element at the tail, frees its cell and
  leaves a well formed list of the others. Neither faults, and any other well formed list
  whose cells are disjoint is untouched by both.
\<close>

theorem linked_list_add_remove_refine:
  assumes "ll_inv h ld xs" "m \<noteq> NULL" "elems h m = None" "d \<noteq> NULL"
  shows "\<exists>h1 h2 ys a d' f'.
    linked_list_add ld d f m h = Some (eLINKED_LIST_SUCCESS, h1) \<and>
    ll_inv h1 ld ((m, d, f) # xs) \<and> (m, d, f) # xs = ys @ [(a, d', f')] \<and>
    linked_list_remove ld True h1 = Some (eLINKED_LIST_SUCCESS, Some d', h2) \<and>
    ll_inv h2 ld ys \<and> elems h2 a = None \<and>
    (\<forall>ld' zs. ld' \<noteq> ld \<and> ll_inv h ld' zs \<and> set (map addr zs) \<inter> set (map addr xs) = {} \<longrightarrow>
       ll_inv h1 ld' zs \<and> ll_inv h2 ld' zs)"
proof -
  obtain h1 where h1: "linked_list_add ld d f m h = Some (eLINKED_LIST_SUCCESS, h1)"
    "ll_inv h1 ld ((m, d, f) # xs)" "ll_frame h h1 ld (insert m (set (map addr xs)))"
    using linked_list_add_ok [OF assms] by blast
  obtain ys z where ys: "(m, d, f) # xs = ys @ [z]" by (metis append_butlast_last_id list.distinct(1))
  obtain a d' f' where z: "z = (a, d', f')" by (cases z) auto
  have inv: "ll_inv h1 ld (ys @ [(a, d', f')])" using h1(2) ys z by simp
  obtain h2 where h2: "linked_list_remove ld True h1 = Some (eLINKED_LIST_SUCCESS, Some d', h2)"
    "ll_inv h2 ld ys" "elems h2 a = None" "ll_frame h1 h2 ld (insert a (set (map addr ys)))"
    using linked_list_remove_ok [OF inv] by blast
  have cells: "insert a (set (map addr ys)) = insert m (set (map addr xs))"
    using arg_cong [OF ys, of "\<lambda>l. set (map addr l)"] z by auto
  have "ll_inv h1 ld' zs \<and> ll_inv h2 ld' zs"
    if other: "ld' \<noteq> ld" "ll_inv h ld' zs" "set (map addr zs) \<inter> set (map addr xs) = {}" for ld' zs
  proof -
    have "m \<notin> set (map addr zs)" using ll_live [OF other(2), of m] assms(3) by auto
    then have disj: "insert m (set (map addr xs)) \<inter> set (map addr zs) = {}" using other(3) by auto
    have "ll_inv h1 ld' zs" by (rule ll_inv_frame [OF other(2) h1(3) other(1) disj])
    then show ?thesis
      using ll_inv_frame [OF _ h2(4) other(1)] disj unfolding cells by blast
  qed
  then show ?thesis using h1 h2 ys z by blast
qed

theorem linked_list_add_remove_refine_witness:
  "\<exists>h1 h2 ys a d' f'.
    linked_list_add 1 300 7 30 ll_example = Some (eLINKED_LIST_SUCCESS, h1) \<and>
    ll_inv h1 1 [(30, 300, 7), (10, 100, 7), (20, 200, NULL)] \<and>
    [(30, 300, 7), (10, 100, 7), (20, 200, NULL)] = ys @ [(a, d', f')] \<and>
    linked_list_remove 1 True h1 = Some (eLINKED_LIST_SUCCESS, Some d', h2) \<and>
    ll_inv h2 1 ys \<and> elems h2 a = None"
  using linked_list_add_remove_refine [OF ll_example_inv, of 30 300 7]
  by (simp add: ll_example_def) blast

text \<open>
  \<open>linked_list_search\<close> with removal finds the first element the predicate accepts,
  unlinks exactly that cell wherever it stands in the list (both neighbours, the head and the
  tail are patched) and frees it; its deallocator runs exactly when the data is not handed out.
\<close>

theorem linked_list_search_removes_first:
  assumes "ll_inv h ld (ys @ (a, d, f) # zs)"
    and "list_all (\<lambda>(a, d, f). \<not> eq d0 d) ys" and "eq d0 d"
  shows "\<exists>h'. linked_list_search ld dp (Some eq) d0 True h =
             Some (eLINKED_LIST_SUCCESS, if dp then Some d else None, h') \<and>
           ll_inv h' ld (ys @ zs) \<and> elems h' a = None \<and>
           dealloc_calls h' = dealloc_calls h @ (if \<not> dp \<and> f \<noteq> NULL then [(f, d)] else [])"
  using linked_list_search_hit [OF assms(1), of eq d0 dp] assms(2,3) by blast

theorem linked_list_search_removes_first_witness:
  "\<exists>h'. linked_list_search 1 False (Some (=)) 100 True ll_example =
             Some (eLINKED_LIST_SUCCESS, None, h') \<and>
           ll_inv h' 1 [(20, 200, NULL)] \<and> elems h' 10 = None \<and> dealloc_calls h' = [(7, 100)]"
  using linked_list_search_removes_first
    [of ll_example 1 "[]" 10 100 7 "[(20, 200, NULL)]" "(=)" 100 False] ll_example_inv
  by (simp add: ll_example_def)

text \<open>
  C28: \<open>linked_list_destroy\<close> terminates on every well formed list without a fault: each
  deallocator is called exactly once on its data, from head to tail, every cell and the list
  header are freed, and the caller's handle becomes NULL.
\<close>

theorem linked_list_destroy_frees_all:
  assumes "ll_inv h ld xs"
  shows "\<exists>h'. linked_list_destroy (Some ld) h = Some (eLINKED_LIST_SUCCESS, Some NULL, h') \<and>
           lists h' ld = None \<and> dealloc_calls h' = dealloc_calls h @ dealloc_log xs \<and>
           (\<forall>a \<in> set (map addr xs). elems h' a = None)"
  using linked_list_destroy_ok [OF assms] by blast

theorem linked_list_destroy_frees_all_witness:
  "\<exists>h'. linked_list_destroy (Some 1) ll_example = Some (eLINKED_LIST_SUCCESS, Some NULL, h') \<and>
     lists h' 1 = None \<and> dealloc_calls h' = [(7, 100)] \<and> elems h' 10 = None \<and> elems h' 20 = None"
  using linked_list_destroy_frees_all [OF ll_example_inv] by (auto simp: ll_example_def)

end
