(* ===== verification/MsgQueue.thy ===== *)
theory MsgQueue
  imports LinkedList
begin

text \<open>
  \<open>gps/utils/msg_q.c\<close>: the blocking message queue on top of the linked list.
  The queue's mutex makes each critical section one atomic step. A receive that finds the
  queue empty releases the mutex inside \<open>pthread_cond_wait\<close>: it is split at that point into
  the entry (\<open>msg_q_rcv\<close>) and the loop (\<open>msg_q_rcv_loop\<close>), which the thread evaluates again
  after it is woken. \<open>mq_step\<close> interleaves any number of threads doing this.
\<close>

section \<open>Data\<close>

datatype msq_q_err_type =
    eMSG_Q_SUCCESS
  | eMSG_Q_FAILURE_GENERAL
  | eMSG_Q_INVALID_PARAMETER
  | eMSG_Q_INVALID_HANDLE
  | eMSG_Q_UNAVAILABLE_RESOURCE
  | eMSG_Q_INSUFFICIENT_BUFFER

fun convert_linked_list_err_type :: "linked_list_err_type \<Rightarrow> msq_q_err_type" where
  "convert_linked_list_err_type eLINKED_LIST_SUCCESS = eMSG_Q_SUCCESS"
| "convert_linked_list_err_type eLINKED_LIST_INVALID_PARAMETER = eMSG_Q_INVALID_PARAMETER"
| "convert_linked_list_err_type eLINKED_LIST_INVALID_HANDLE = eMSG_Q_INVALID_HANDLE"
| "convert_linked_list_err_type eLINKED_LIST_UNAVAILABLE_RESOURCE = eMSG_Q_UNAVAILABLE_RESOURCE"
| "convert_linked_list_err_type eLINKED_LIST_INSUFFICIENT_BUFFER = eMSG_Q_INSUFFICIENT_BUFFER"
| "convert_linked_list_err_type eLINKED_LIST_FAILURE_GENERAL = eMSG_Q_FAILURE_GENERAL"

record msg_q =
  msg_list :: ptr
  unblocked :: int

record mq_world =
  heap :: ll_heap
  queues :: "msg_q store"

text \<open>What a critical section does to the waiters on \<open>list_cond\<close>.\<close>

datatype wakeup = NoWake | Signal | Broadcast

datatype rcv_outcome =
    RcvWait
  | RcvDone msq_q_err_type "ptr option"

section \<open>Operations\<close>

text \<open>
  \<open>msg_q_init\<close>: \<open>mq\<close> and \<open>ml\<close> are the answers of the two allocations, \<open>mutex_rc\<close> and
  \<open>cond_rc\<close> the results of \<open>pthread_mutex_init\<close> and \<open>pthread_cond_init\<close>.
\<close>

definition msg_q_init ::
  "bool \<Rightarrow> ptr \<Rightarrow> ptr \<Rightarrow> int \<Rightarrow> int \<Rightarrow> mq_world \<Rightarrow>
     (msq_q_err_type \<times> ptr option \<times> mq_world) option" where
  "msg_q_init msg_q_data mq ml mutex_rc cond_rc w =
     (if \<not> msg_q_data then Some (eMSG_Q_INVALID_PARAMETER, None, w)
      else if mq = NULL then Some (eMSG_Q_FAILURE_GENERAL, None, w)
      else do {
        let (e, out, h) = linked_list_init True ml (heap w);
        let field = (case out of None \<Rightarrow> NULL | Some p \<Rightarrow> p);
        if ll_err_code e \<noteq> 0 then Some (eMSG_Q_FAILURE_GENERAL, None, w\<lparr>heap := h\<rparr>)
        else if mutex_rc \<noteq> 0 then do {
          (_, _, h) \<leftarrow> linked_list_destroy (Some field) h;
          Some (eMSG_Q_FAILURE_GENERAL, None, w\<lparr>heap := h\<rparr>) }
        else if cond_rc \<noteq> 0 then do {
          (_, _, h) \<leftarrow> linked_list_destroy (Some field) h;
          Some (eMSG_Q_FAILURE_GENERAL, None, w\<lparr>heap := h\<rparr>) }
        else Some (eMSG_Q_SUCCESS, Some mq,
               w\<lparr>heap := h, queues := (queues w)(mq \<mapsto> \<lparr>msg_list = field, unblocked = 0\<rparr>)\<rparr>)
      })"

definition msg_q_init2 :: "ptr \<Rightarrow> ptr \<Rightarrow> int \<Rightarrow> int \<Rightarrow> mq_world \<Rightarrow> (ptr \<times> mq_world) option" where
  "msg_q_init2 mq ml mutex_rc cond_rc w = do {
     (e, out, w) \<leftarrow> msg_q_init True mq ml mutex_rc cond_rc w;
     let q = (case out of None \<Rightarrow> NULL | Some p \<Rightarrow> p);
     Some (if e \<noteq> eMSG_Q_SUCCESS then NULL else q, w)
   }"

definition msg_q_destroy ::
  "ptr option \<Rightarrow> mq_world \<Rightarrow> (msq_q_err_type \<times> ptr option \<times> mq_world) option" where
  "msg_q_destroy msg_q_data w =
     (case msg_q_data of
        None \<Rightarrow> Some (eMSG_Q_INVALID_HANDLE, None, w)
      | Some q \<Rightarrow> do {
          p_msg_q \<leftarrow> deref (queues w) q;
          (_, lst, h) \<leftarrow> linked_list_destroy (Some (msg_list p_msg_q)) (heap w);
          qs \<leftarrow> update_at (queues w) q (\<lambda>r. r\<lparr>msg_list := (case lst of None \<Rightarrow> NULL | Some p \<Rightarrow> p),
                                              unblocked := 0\<rparr>);
          qs \<leftarrow> release qs q;
          Some (eMSG_Q_SUCCESS, Some NULL, w\<lparr>heap := h, queues := qs\<rparr>)
        })"

definition msg_q_snd ::
  "ptr \<Rightarrow> ptr \<Rightarrow> ptr \<Rightarrow> ptr \<Rightarrow> mq_world \<Rightarrow> (msq_q_err_type \<times> wakeup \<times> mq_world) option" where
  "msg_q_snd msg_q_data msg_obj dealloc m w =
     (if msg_q_data = NULL then Some (eMSG_Q_INVALID_HANDLE, NoWake, w)
      else if msg_obj = NULL then Some (eMSG_Q_INVALID_PARAMETER, NoWake, w)
      else do {
        p_msg_q \<leftarrow> deref (queues w) msg_q_data;
        if unblocked p_msg_q \<noteq> 0 then Some (eMSG_Q_UNAVAILABLE_RESOURCE, NoWake, w)
        else do {
          (e, h) \<leftarrow> linked_list_add (msg_list p_msg_q) msg_obj dealloc m (heap w);
          Some (convert_linked_list_err_type e, Signal, w\<lparr>heap := h\<rparr>)
        }
      })"

definition msg_q_rcv_loop :: "ptr \<Rightarrow> mq_world \<Rightarrow> (rcv_outcome \<times> mq_world) option" where
  "msg_q_rcv_loop msg_q_data w = do {
     p_msg_q \<leftarrow> deref (queues w) msg_q_data;
     empty \<leftarrow> linked_list_empty (msg_list p_msg_q) (heap w);
     if empty \<noteq> 0 \<and> unblocked p_msg_q = 0 then Some (RcvWait, w)
     else do {
       (e, out, h) \<leftarrow> linked_list_remove (msg_list p_msg_q) True (heap w);
       Some (RcvDone (convert_linked_list_err_type e) out, w\<lparr>heap := h\<rparr>)
     }
   }"

definition msg_q_rcv :: "ptr \<Rightarrow> bool \<Rightarrow> mq_world \<Rightarrow> (rcv_outcome \<times> mq_world) option" where
  "msg_q_rcv msg_q_data msg_obj w =
     (if msg_q_data = NULL then Some (RcvDone eMSG_Q_INVALID_HANDLE None, w)
      else if \<not> msg_obj then Some (RcvDone eMSG_Q_INVALID_PARAMETER None, w)
      else do {
        p_msg_q \<leftarrow> deref (queues w) msg_q_data;
        if unblocked p_msg_q \<noteq> 0 then Some (RcvDone eMSG_Q_UNAVAILABLE_RESOURCE None, w)
        else msg_q_rcv_loop msg_q_data w
      })"

definition msg_q_flush :: "ptr \<Rightarrow> mq_world \<Rightarrow> (msq_q_err_type \<times> mq_world) option" where
  "msg_q_flush msg_q_data w =
     (if msg_q_data = NULL then Some (eMSG_Q_INVALID_HANDLE, w)
      else do {
        p_msg_q \<leftarrow> deref (queues w) msg_q_data;
        (e, h) \<leftarrow> linked_list_flush (msg_list p_msg_q) (heap w);
        Some (convert_linked_list_err_type e, w\<lparr>heap := h\<rparr>)
      })"

definition msg_q_unblock :: "ptr \<Rightarrow> mq_world \<Rightarrow> (msq_q_err_type \<times> wakeup \<times> mq_world) option" where
  "msg_q_unblock msg_q_data w =
     (if msg_q_data = NULL then Some (eMSG_Q_INVALID_HANDLE, NoWake, w)
      else do {
        p_msg_q \<leftarrow> deref (queues w) msg_q_data;
        if unblocked p_msg_q \<noteq> 0 then Some (eMSG_Q_UNAVAILABLE_RESOURCE, NoWake, w)
        else Some (eMSG_Q_SUCCESS, Broadcast,
               w\<lparr>queues := (queues w)(msg_q_data \<mapsto> p_msg_q\<lparr>unblocked := 1\<rparr>)\<rparr>)
      })"

section \<open>Representation\<close>

text \<open>
  \<open>mq_inv q w u xs\<close>: \<open>q\<close> is a live queue, \<open>u\<close> tells whether it was unblocked, and \<open>xs\<close> are
  its entries, the oldest first (the reverse of the list, which grows at its head).
\<close>

definition mq_inv :: "ptr \<Rightarrow> mq_world \<Rightarrow> bool \<Rightarrow> entry list \<Rightarrow> bool" where
  "mq_inv q w u xs \<longleftrightarrow> q \<noteq> NULL \<and>
     (\<exists>r. queues w q = Some r \<and> (unblocked r \<noteq> 0 \<longleftrightarrow> u) \<and> ll_inv (heap w) (msg_list r) (rev xs))"

text \<open>An answer of \<open>malloc\<close> that is not NULL points to no live cell.\<close>

definition mq_fresh :: "mq_world \<Rightarrow> ptr \<Rightarrow> bool" where
  "mq_fresh w m \<longleftrightarrow> m \<noteq> NULL \<and> elems (heap w) m = None"

lemma msg_q_init_ok:
  assumes "mq \<noteq> NULL" "ml \<noteq> NULL"
  shows "\<exists>w'. msg_q_init True mq ml 0 0 w = Some (eMSG_Q_SUCCESS, Some mq, w') \<and> mq_inv mq w' False []"
  using assms by (auto simp: msg_q_init_def linked_list_init_def mq_inv_def ll_inv_def)

lemma msg_q_init_fail:
  assumes "mq \<noteq> NULL" "ml \<noteq> NULL" "mutex_rc \<noteq> 0 \<or> cond_rc \<noteq> 0"
  shows "\<exists>w'. msg_q_init True mq ml mutex_rc cond_rc w = Some (eMSG_Q_FAILURE_GENERAL, None, w') \<and>
           queues w' = queues w \<and> lists (heap w') ml = None"
proof -
  define h where "h = (heap w)\<lparr>lists := (lists (heap w))(ml \<mapsto> \<lparr>p_head = NULL, p_tail = NULL\<rparr>)\<rparr>"
  have h: "linked_list_init True ml (heap w) = (eLINKED_LIST_SUCCESS, Some ml, h)" "ll_inv h ml []"
    using assms(2) by (simp_all add: linked_list_init_def h_def ll_inv_def)
  obtain h' where "linked_list_destroy (Some ml) h = Some (eLINKED_LIST_SUCCESS, Some NULL, h')"
    "lists h' ml = None"
    using linked_list_destroy_ok [OF h(2)] by auto
  then show ?thesis
    using assms h(1) by (cases "mutex_rc = 0") (simp_all add: msg_q_init_def)
qed

lemma msg_q_snd_ok:
  assumes "mq_inv q w False xs" "mq_fresh w m" "d \<noteq> NULL"
  shows "\<exists>w'. msg_q_snd q d f m w = Some (eMSG_Q_SUCCESS, Signal, w') \<and> mq_inv q w' False (xs @ [(m, d, f)])"
proof -
  obtain r where r: "q \<noteq> NULL" "queues w q = Some r" "unblocked r = 0"
    "ll_inv (heap w) (msg_list r) (rev xs)"
    using assms(1) by (auto simp: mq_inv_def)
  obtain h where "linked_list_add (msg_list r) d f m (heap w) = Some (eLINKED_LIST_SUCCESS, h)"
    "ll_inv h (msg_list r) ((m, d, f) # rev xs)"
    using linked_list_add_ok [OF r(4), of m d f] assms(2,3) by (auto simp: mq_fresh_def)
  then show ?thesis
    using r assms(3) by (auto simp: msg_q_snd_def deref_live mq_inv_def)
qed

lemma msg_q_snd_no_memory:
  "mq_inv q w False xs \<Longrightarrow> d \<noteq> NULL \<Longrightarrow>
     msg_q_snd q d f NULL w = Some (eMSG_Q_FAILURE_GENERAL, Signal, w)"
  by (auto simp: msg_q_snd_def mq_inv_def deref_live linked_list_add_def ll_inv_def)

lemma msg_q_snd_unblocked:
  "mq_inv q w True xs \<Longrightarrow> d \<noteq> NULL \<Longrightarrow>
     msg_q_snd q d f m w = Some (eMSG_Q_UNAVAILABLE_RESOURCE, NoWake, w)"
  by (auto simp: msg_q_snd_def mq_inv_def deref_live)

lemma msg_q_rcv_loop_ok:
  assumes "mq_inv q w u ((a, d, f) # xs)"
  shows "\<exists>w'. msg_q_rcv_loop q w = Some (RcvDone eMSG_Q_SUCCESS (Some d), w') \<and> mq_inv q w' u xs"
proof -
  obtain r where r: "q \<noteq> NULL" "queues w q = Some r" "unblocked r \<noteq> 0 \<longleftrightarrow> u"
    "ll_inv (heap w) (msg_list r) (rev xs @ [(a, d, f)])"
    using assms by (auto simp: mq_inv_def)
  obtain h where "linked_list_remove (msg_list r) True (heap w) =
      Some (eLINKED_LIST_SUCCESS, Some d, h)" "ll_inv h (msg_list r) (rev xs)"
    using linked_list_remove_ok [OF r(4)] by auto
  then show ?thesis
    using r linked_list_empty_ok [OF r(4)] by (auto simp: msg_q_rcv_loop_def deref_live mq_inv_def)
qed

lemma msg_q_rcv_loop_empty:
  "mq_inv q w u [] \<Longrightarrow> msg_q_rcv_loop q w =
     Some (if u then RcvDone eMSG_Q_UNAVAILABLE_RESOURCE None else RcvWait, w)"
  by (auto simp: msg_q_rcv_loop_def mq_inv_def deref_live linked_list_empty_ok linked_list_remove_empty)

lemma msg_q_rcv_blocked_entry:
  "mq_inv q w False xs \<Longrightarrow> msg_q_rcv q True w = msg_q_rcv_loop q w"
  by (auto simp: msg_q_rcv_def mq_inv_def deref_live)

lemma msg_q_rcv_unblocked:
  "mq_inv q w True xs \<Longrightarrow> msg_q_rcv q True w = Some (RcvDone eMSG_Q_UNAVAILABLE_RESOURCE None, w)"
  by (auto simp: msg_q_rcv_def mq_inv_def deref_live)

lemma msg_q_flush_ok:
  assumes "mq_inv q w u xs"
  shows "\<exists>w'. msg_q_flush q w = Some (eMSG_Q_SUCCESS, w') \<and> mq_inv q w' u [] \<and>
           dealloc_calls (heap w') = dealloc_calls (heap w) @ dealloc_log (rev xs)"
proof -
  obtain r where r: "q \<noteq> NULL" "queues w q = Some r" "unblocked r \<noteq> 0 \<longleftrightarrow> u"
    "ll_inv (heap w) (msg_list r) (rev xs)"
    using assms by (auto simp: mq_inv_def)
  obtain h where "linked_list_flush (msg_list r) (heap w) = Some (eLINKED_LIST_SUCCESS, h)"
    "ll_inv h (msg_list r) []" "dealloc_calls h = dealloc_calls (heap w) @ dealloc_log (rev xs)"
    using linked_list_flush_ok [OF r(4)] by auto
  then show ?thesis
    using r by (auto simp: msg_q_flush_def deref_live mq_inv_def)
qed

lemma msg_q_unblock_ok:
  "mq_inv q w False xs \<Longrightarrow>
     \<exists>w'. msg_q_unblock q w = Some (eMSG_Q_SUCCESS, Broadcast, w') \<and> mq_inv q w' True xs"
  by (auto simp: msg_q_unblock_def mq_inv_def deref_live)

lemma msg_q_unblock_again:
  "mq_inv q w True xs \<Longrightarrow> msg_q_unblock q w = Some (eMSG_Q_UNAVAILABLE_RESOURCE, NoWake, w)"
  by (auto simp: msg_q_unblock_def mq_inv_def deref_live)

lemma msg_q_destroy_ok:
  assumes "mq_inv q w u xs"
  shows "\<exists>w'. msg_q_destroy (Some q) w = Some (eMSG_Q_SUCCESS, Some NULL, w') \<and> queues w' q = None \<and>
           (\<forall>a \<in> addr ` set xs. elems (heap w') a = None) \<and>
           dealloc_calls (heap w') = dealloc_calls (heap w) @ dealloc_log (rev xs)"
proof -
  obtain r where r: "q \<noteq> NULL" "queues w q = Some r" "ll_inv (heap w) (msg_list r) (rev xs)"
    using assms by (auto simp: mq_inv_def)
  obtain h where "linked_list_destroy (Some (msg_list r)) (heap w) =
      Some (eLINKED_LIST_SUCCESS, Some NULL, h)"
    "\<forall>a \<in> set (map addr (rev xs)). elems h a = None"
    "dealloc_calls h = dealloc_calls (heap w) @ dealloc_log (rev xs)"
    using linked_list_destroy_ok [OF r(3)] by auto
  then show ?thesis
    using r by (auto simp: msg_q_destroy_def deref_live update_at_live release_def)
qed

section \<open>The interface of a first-in first-out queue\<close>

text \<open>
  What \<open>MsgTask\<close> relies on: a send appends, a receive takes the oldest message. Sending and
  receiving in bulk is proved once, from these laws.
\<close>

locale fifo =
  fixes Inv :: "'w \<Rightarrow> 'm list \<Rightarrow> bool"
    and put :: "'a \<Rightarrow> 'm \<Rightarrow> 'w \<Rightarrow> 'w option"
    and fresh :: "'w \<Rightarrow> 'a \<Rightarrow> bool"
    and get :: "'w \<Rightarrow> ('m \<times> 'w) option"
    and ok :: "'m \<Rightarrow> bool"
  assumes put_law: "Inv w xs \<Longrightarrow> fresh w a \<Longrightarrow> ok x \<Longrightarrow> \<exists>w'. put a x w = Some w' \<and> Inv w' (xs @ [x])"
    and get_law: "Inv w (x # xs) \<Longrightarrow> \<exists>w'. get w = Some (x, w') \<and> Inv w' xs"
begin

fun get_all :: "nat \<Rightarrow> 'w \<Rightarrow> ('m list \<times> 'w) option" where
  "get_all 0 w = Some ([], w)"
| "get_all (Suc n) w = do {
     (x, w) \<leftarrow> get w;
     (xs, w) \<leftarrow> get_all n w;
     Some (x # xs, w) }"

lemma get_all_in_order:
  "Inv w (xs @ ys) \<Longrightarrow> \<exists>w'. get_all (length xs) w = Some (xs, w') \<and> Inv w' ys"
proof (induction xs arbitrary: w)
  case Nil
  then show ?case by simp
next
  case (Cons x xs)
  then obtain w1 where "get w = Some (x, w1)" "Inv w1 (xs @ ys)"
    using get_law by fastforce
  then show ?case using Cons.IH [of w1] by auto
qed

text \<open>A message put behind \<open>xs\<close> comes out after exactly those.\<close>

lemma put_then_get_all:
  assumes "Inv w xs" "fresh w a" "ok x"
  shows "\<exists>w1 w2. put a x w = Some w1 \<and> get_all (Suc (length xs)) w1 = Some (xs @ [x], w2) \<and> Inv w2 []"
proof -
  obtain w1 where "put a x w = Some w1" "Inv w1 ((xs @ [x]) @ [])"
    using put_law [OF assms] by auto
  moreover from get_all_in_order [OF this(2)] obtain w2
    where "get_all (length (xs @ [x])) w1 = Some (xs @ [x], w2)" "Inv w2 []" by auto
  ultimately show ?thesis by auto
qed

end

text \<open>\<open>msg_q_snd\<close> and \<open>msg_q_rcv\<close> on a queue that is not unblocked provide it.\<close>

definition mq_holds :: "ptr \<Rightarrow> mq_world \<Rightarrow> ptr list \<Rightarrow> bool" where
  "mq_holds q w ms \<longleftrightarrow> (\<exists>xs. mq_inv q w False xs \<and> map (fst \<circ> snd) xs = ms)"

definition mq_put :: "ptr \<Rightarrow> ptr \<Rightarrow> ptr \<Rightarrow> ptr \<Rightarrow> mq_world \<Rightarrow> mq_world option" where
  "mq_put q f m d w = (case msg_q_snd q d f m w of
     Some (eMSG_Q_SUCCESS, _, w') \<Rightarrow> Some w' | _ \<Rightarrow> None)"

definition mq_get :: "ptr \<Rightarrow> mq_world \<Rightarrow> (ptr \<times> mq_world) option" where
  "mq_get q w = (case msg_q_rcv q True w of
     Some (RcvDone eMSG_Q_SUCCESS (Some d), w') \<Rightarrow> Some (d, w') | _ \<Rightarrow> None)"

interpretation mqf: fifo "mq_holds q" "mq_put q f" mq_fresh "mq_get q" "\<lambda>d. d \<noteq> NULL"
proof unfold_locales
  fix w xs m d
  assume "mq_holds q w xs" "mq_fresh w m" "d \<noteq> NULL"
  then obtain es where es: "mq_inv q w False es" "map (fst \<circ> snd) es = xs"
    by (auto simp: mq_holds_def)
  then obtain w' where "msg_q_snd q d f m w = Some (eMSG_Q_SUCCESS, Signal, w')"
    "mq_inv q w' False (es @ [(m, d, f)])"
    using msg_q_snd_ok \<open>mq_fresh w m\<close> \<open>d \<noteq> NULL\<close> by blast
  then show "\<exists>w'. mq_put q f m d w = Some w' \<and> mq_holds q w' (xs @ [d])"
    using es(2) by (force simp: mq_put_def mq_holds_def)
next
  fix w d xs
  assume "mq_holds q w (d # xs)"
  then obtain a f' es where es: "mq_inv q w False ((a, d, f') # es)" "map (fst \<circ> snd) es = xs"
    by (auto simp: mq_holds_def)
  then obtain w' where "msg_q_rcv q True w = Some (RcvDone eMSG_Q_SUCCESS (Some d), w')"
    "mq_inv q w' False es"
    using msg_q_rcv_loop_ok msg_q_rcv_blocked_entry by metis
  then show "\<exists>w'. mq_get q w = Some (d, w') \<and> mq_holds q w' xs"
    using es(2) by (auto simp: mq_get_def mq_holds_def)
qed

section \<open>Threads\<close>

text \<open>
  Any number of threads use the queue \<open>q\<close>. A thread is asleep (waiting on \<open>list_cond\<close>), woken
  (signalled, about to take the mutex again and evaluate its loop), or elsewhere. A signal
  wakes one sleeper if there is one; \<open>pthread\<close> also allows a sleeper to wake up for no reason.
  \<open>results\<close> records what the finished receives returned.
\<close>

record mq_sys =
  world :: mq_world
  asleep :: "nat list"
  woken :: "nat list"
  results :: "(nat \<times> msq_q_err_type \<times> ptr option) list"

inductive wakes :: "wakeup \<Rightarrow> nat list \<Rightarrow> nat list \<Rightarrow> nat list \<Rightarrow> nat list \<Rightarrow> bool" where
  no_wake: "wakes NoWake sl wo sl wo"
| signal_none: "wakes Signal [] wo [] wo"
| signal_one: "t \<in> set sl \<Longrightarrow> wakes Signal sl wo (remove1 t sl) (t # wo)"
| broadcast: "wakes Broadcast sl wo [] (sl @ wo)"

inductive mq_step :: "ptr \<Rightarrow> mq_sys \<Rightarrow> mq_sys \<Rightarrow> bool" for q where
  send: "msg_q_snd q d f m (world s) = Some (e, wk, w') \<Longrightarrow> m = NULL \<or> mq_fresh (world s) m \<Longrightarrow>
     wakes wk (asleep s) (woken s) sl wo \<Longrightarrow>
     mq_step q s (s\<lparr>world := w', asleep := sl, woken := wo\<rparr>)"
| unblock: "msg_q_unblock q (world s) = Some (e, wk, w') \<Longrightarrow>
     wakes wk (asleep s) (woken s) sl wo \<Longrightarrow>
     mq_step q s (s\<lparr>world := w', asleep := sl, woken := wo\<rparr>)"
| flush: "msg_q_flush q (world s) = Some (e, w') \<Longrightarrow> mq_step q s (s\<lparr>world := w'\<rparr>)"
| rcv_wait: "t \<notin> set (asleep s) \<union> set (woken s) \<Longrightarrow>
     msg_q_rcv q b (world s) = Some (RcvWait, w') \<Longrightarrow>
     mq_step q s (s\<lparr>world := w', asleep := t # asleep s\<rparr>)"
| rcv_done: "t \<notin> set (asleep s) \<union> set (woken s) \<Longrightarrow>
     msg_q_rcv q b (world s) = Some (RcvDone e out, w') \<Longrightarrow>
     mq_step q s (s\<lparr>world := w', results := results s @ [(t, e, out)]\<rparr>)"
| spurious: "t \<in> set (asleep s) \<Longrightarrow>
     mq_step q s (s\<lparr>asleep := remove1 t (asleep s), woken := t # woken s\<rparr>)"
| resume_wait: "t \<in> set (woken s) \<Longrightarrow> msg_q_rcv_loop q (world s) = Some (RcvWait, w') \<Longrightarrow>
     mq_step q s (s\<lparr>world := w', asleep := t # asleep s, woken := remove1 t (woken s)\<rparr>)"
| resume_done: "t \<in> set (woken s) \<Longrightarrow> msg_q_rcv_loop q (world s) = Some (RcvDone e out, w') \<Longrightarrow>
     mq_step q s (s\<lparr>world := w', woken := remove1 t (woken s),
                    results := results s @ [(t, e, out)]\<rparr>)"

inductive mq_reach :: "ptr \<Rightarrow> mq_sys \<Rightarrow> mq_sys \<Rightarrow> bool" for q where
  start: "mq_reach q s s"
| step: "mq_reach q s s' \<Longrightarrow> mq_step q s' s'' \<Longrightarrow> mq_reach q s s''"

inductive_cases wakes_noE: "wakes NoWake sl wo sl' wo'"
inductive_cases wakes_signalE: "wakes Signal sl wo sl' wo'"
inductive_cases wakes_broadcastE: "wakes Broadcast sl wo sl' wo'"

text \<open>
  No lost wake-up: while a thread sleeps, the queue is not unblocked, and every message in it
  has a woken thread that is on its way to take it.
\<close>

definition mq_sys_inv :: "ptr \<Rightarrow> mq_sys \<Rightarrow> bool" where
  "mq_sys_inv q s \<longleftrightarrow>
     (\<exists>u xs. mq_inv q (world s) u xs \<and> distinct (asleep s @ woken s) \<and>
             (asleep s \<noteq> [] \<longrightarrow> \<not> u \<and> length xs \<le> length (woken s)))"

lemma mq_sys_invI:
  "mq_inv q (world s) u xs \<Longrightarrow> distinct (asleep s @ woken s) \<Longrightarrow>
     (asleep s \<noteq> [] \<Longrightarrow> \<not> u \<and> length xs \<le> length (woken s)) \<Longrightarrow> mq_sys_inv q s"
  by (auto simp: mq_sys_inv_def)

lemma mq_sys_inv_send:
  assumes "mq_sys_inv q s" "msg_q_snd q d f m (world s) = Some (e, wk, w')"
    "m = NULL \<or> mq_fresh (world s) m" "wakes wk (asleep s) (woken s) sl wo"
  shows "mq_sys_inv q (s\<lparr>world := w', asleep := sl, woken := wo\<rparr>)"
proof -
  obtain u xs where inv: "mq_inv q (world s) u xs" "distinct (asleep s @ woken s)"
    "asleep s \<noteq> [] \<longrightarrow> \<not> u \<and> length xs \<le> length (woken s)"
    using assms(1) by (auto simp: mq_sys_inv_def)
  show ?thesis
  proof (cases "d = NULL \<or> u")
    case True
    then have "wk = NoWake \<and> w' = world s"
      using assms(2) inv(1) msg_q_snd_unblocked [of q "world s" xs d f m]
      by (cases "d = NULL") (auto simp: msg_q_snd_def mq_inv_def)
    then show ?thesis using assms(4) inv by (auto simp: mq_sys_inv_def elim!: wakes_noE)
  next
    case False
    then obtain ys where ys: "mq_inv q w' False ys" "length ys \<le> Suc (length xs)" "wk = Signal"
      using assms(2,3) inv(1) msg_q_snd_ok [of q "world s" xs m d f]
        msg_q_snd_no_memory [of q "world s" xs d f]
      by (cases "m = NULL") auto
    have "wakes Signal (asleep s) (woken s) sl wo" using assms(4) ys(3) by simp
    then show ?thesis
    proof (cases rule: wakes.cases)
      case signal_none
      then show ?thesis using inv ys by (auto simp: mq_sys_inv_def)
    next
      case (signal_one t)
      then have "asleep s \<noteq> []" by auto
      then show ?thesis
        using signal_one inv ys False by (intro mq_sys_invI [of q _ False ys]) auto
    qed
  qed
qed

lemma mq_sys_inv_unblock:
  assumes "mq_sys_inv q s" "msg_q_unblock q (world s) = Some (e, wk, w')"
    "wakes wk (asleep s) (woken s) sl wo"
  shows "mq_sys_inv q (s\<lparr>world := w', asleep := sl, woken := wo\<rparr>)"
proof -
  obtain u xs where inv: "mq_inv q (world s) u xs" "distinct (asleep s @ woken s)"
    "asleep s \<noteq> [] \<longrightarrow> \<not> u \<and> length xs \<le> length (woken s)"
    using assms(1) by (auto simp: mq_sys_inv_def)
  show ?thesis
  proof (cases u)
    case True
    then have "wk = NoWake" "w' = world s" using assms(2) inv(1) msg_q_unblock_again by auto
    then show ?thesis using assms(3) inv by (auto simp: mq_sys_inv_def elim!: wakes_noE)
  next
    case False
    then have "wk = Broadcast" "mq_inv q w' True xs"
      using assms(2) inv(1) msg_q_unblock_ok [of q "world s" xs] by auto
    then show ?thesis
      using assms(3) inv by (intro mq_sys_invI [of q _ True xs]) (auto elim!: wakes_broadcastE)
  qed
qed

lemma mq_sys_inv_rcv_wait:
  assumes "mq_sys_inv q s" "t \<notin> set (asleep s) \<union> set (woken s)"
    "msg_q_rcv q b (world s) = Some (RcvWait, w')"
  shows "mq_sys_inv q (s\<lparr>world := w', asleep := t # asleep s\<rparr>)"
proof -
  obtain u xs where inv: "mq_inv q (world s) u xs" "distinct (asleep s @ woken s)"
    using assms(1) by (auto simp: mq_sys_inv_def)
  have b: "b" using assms(3) inv(1) by (auto simp: msg_q_rcv_def mq_inv_def split: if_splits)
  have u: "\<not> u" using assms(3) inv(1) b msg_q_rcv_unblocked [of q "world s" xs] by auto
  then have "msg_q_rcv_loop q (world s) = Some (RcvWait, w')"
    using assms(3) inv(1) b msg_q_rcv_blocked_entry by auto
  then have "xs = [] \<and> w' = world s"
    using inv(1) u msg_q_rcv_loop_ok [of q "world s" u] msg_q_rcv_loop_empty [of q "world s" u]
    by (cases xs) fastforce+
  then show ?thesis using inv u assms(2) by (intro mq_sys_invI [of q _ False "[]"]) auto
qed

lemma msg_q_rcv_done_inv:
  assumes "mq_inv q w u xs" "msg_q_rcv q b w = Some (RcvDone e out, w') \<or> msg_q_rcv_loop q w = Some (RcvDone e out, w')"
  shows "\<exists>ys. mq_inv q w' u ys \<and> length ys \<le> length xs"
proof (cases "msg_q_rcv_loop q w = Some (RcvDone e out, w')")
  case True
  then show ?thesis
    using assms(1) msg_q_rcv_loop_ok [of q w u] msg_q_rcv_loop_empty [of q w u]
    by (cases xs) (fastforce split: if_splits)+
next
  case False
  then have "w' = w"
    using assms by (auto simp: msg_q_rcv_def mq_inv_def deref_live split: if_splits)
  then show ?thesis using assms(1) by auto
qed

lemma mq_sys_inv_resume_done:
  assumes "mq_sys_inv q s" "t \<in> set (woken s)"
    "msg_q_rcv_loop q (world s) = Some (RcvDone e out, w')"
  shows "mq_sys_inv q (s\<lparr>world := w', woken := remove1 t (woken s), results := rs\<rparr>)"
proof -
  obtain u xs where inv: "mq_inv q (world s) u xs" "distinct (asleep s @ woken s)"
    "asleep s \<noteq> [] \<longrightarrow> \<not> u \<and> length xs \<le> length (woken s)"
    using assms(1) by (auto simp: mq_sys_inv_def)
  have len: "length (remove1 t (woken s)) = length (woken s) - 1" "woken s \<noteq> []"
    using assms(2) by (auto simp: length_remove1)
  show ?thesis
  proof (cases xs)
    case Nil
    then have "w' = world s" using assms(3) inv(1) msg_q_rcv_loop_empty by (auto split: if_splits)
    then show ?thesis
      using inv Nil len by (intro mq_sys_invI [of q _ u "[]"]) auto
  next
    case (Cons x ys)
    obtain a d f where "x = (a, d, f)" by (cases x) auto
    then have "mq_inv q w' u ys"
      using Cons assms(3) inv(1) msg_q_rcv_loop_ok [of q "world s" u a d f ys] by auto
    then show ?thesis
      using inv Cons len by (intro mq_sys_invI [of q _ u ys]) auto
  qed
qed

lemma mq_sys_inv_resume_wait:
  assumes "mq_sys_inv q s" "t \<in> set (woken s)" "msg_q_rcv_loop q (world s) = Some (RcvWait, w')"
  shows "mq_sys_inv q (s\<lparr>world := w', asleep := t # asleep s, woken := remove1 t (woken s)\<rparr>)"
proof -
  obtain u xs where inv: "mq_inv q (world s) u xs" "distinct (asleep s @ woken s)"
    using assms(1) by (auto simp: mq_sys_inv_def)
  have "xs = [] \<and> w' = world s \<and> \<not> u"
    using assms(3) inv(1) msg_q_rcv_loop_ok [of q "world s" u] msg_q_rcv_loop_empty [of q "world s" u]
    by (cases xs) (fastforce split: if_splits)+
  then show ?thesis
    using inv assms(2) by (intro mq_sys_invI [of q _ u "[]"]) auto
qed

lemma mq_step_inv: "mq_step q s s' \<Longrightarrow> mq_sys_inv q s \<Longrightarrow> mq_sys_inv q s'"
proof (induction rule: mq_step.induct)
  case (send d f m s e wk w' sl wo)
  then show ?case using mq_sys_inv_send by blast
next
  case (unblock s e wk w' sl wo)
  then show ?case using mq_sys_inv_unblock by blast
next
  case (flush s e w')
  then obtain u xs where inv: "mq_inv q (world s) u xs" "distinct (asleep s @ woken s)"
    "asleep s \<noteq> [] \<longrightarrow> \<not> u \<and> length xs \<le> length (woken s)"
    by (auto simp: mq_sys_inv_def)
  then have "mq_inv q w' u []" using flush(1) msg_q_flush_ok by fastforce
  then show ?case using inv by (intro mq_sys_invI [of q _ u "[]"]) auto
next
  case (rcv_wait t s b w')
  then show ?case using mq_sys_inv_rcv_wait by blast
next
  case (rcv_done t s b e out w')
  then obtain u xs where inv: "mq_inv q (world s) u xs" "distinct (asleep s @ woken s)"
    "asleep s \<noteq> [] \<longrightarrow> \<not> u \<and> length xs \<le> length (woken s)"
    by (auto simp: mq_sys_inv_def)
  then obtain ys where "mq_inv q w' u ys" "length ys \<le> length xs"
    using msg_q_rcv_done_inv rcv_done(2) by blast
  then show ?case
    using inv by (intro mq_sys_invI [of q _ u ys]) auto
next
  case (spurious t s)
  then show ?case
    unfolding mq_sys_inv_def by (fastforce simp: set_remove1_eq)
next
  case (resume_wait t s w')
  then show ?case using mq_sys_inv_resume_wait by blast
next
  case (resume_done t s e out w')
  then show ?case using mq_sys_inv_resume_done by blast
qed

lemma mq_reach_inv: "mq_reach q s s' \<Longrightarrow> mq_sys_inv q s \<Longrightarrow> mq_sys_inv q s'"
  by (induction rule: mq_reach.induct) (auto intro: mq_step_inv)

section \<open>Properties\<close>

text \<open>A queue at address 2 that holds one message, for the witnesses.\<close>

definition mq_example :: mq_world where
  "mq_example =
     \<lparr>heap = \<lparr>elems = [10 \<mapsto> \<lparr>nxt = NULL, prv = NULL, data_ptr = 100, dealloc_func = 7\<rparr>],
              lists = [1 \<mapsto> \<lparr>p_head = 10, p_tail = 10\<rparr>], dealloc_calls = []\<rparr>,
      queues = [2 \<mapsto> \<lparr>msg_list = 1, unblocked = 0\<rparr>]\<rparr>"

lemma mq_example_inv: "mq_inv 2 mq_example False [(10, 100, 7)]"
  by (simp add: mq_example_def mq_inv_def ll_inv_def link_nxt_def link_prv_def payload_def)

lemma mq_example_holds: "mq_holds 2 mq_example [100]"
  using mq_example_inv by (auto simp: mq_holds_def)

text \<open>
  a message sent to a live queue is received after exactly the messages that were already
  in it, and in their order: the queue loses, duplicates and reorders nothing.
\<close>

theorem msg_q_fifo:
  assumes "mq_holds q w xs" "mq_fresh w m" "d \<noteq> NULL"
  shows "\<exists>w1 w2. mq_put q f m d w = Some w1 \<and>
           mqf.get_all q (Suc (length xs)) w1 = Some (xs @ [d], w2) \<and> mq_holds q w2 []"
  by (rule mqf.put_then_get_all [OF assms])

theorem msg_q_fifo_witness:
  "\<exists>w1 w2. mq_put 2 7 30 300 mq_example = Some w1 \<and>
     mqf.get_all 2 2 w1 = Some ([100, 300], w2) \<and> mq_holds 2 w2 []"
  using msg_q_fifo [OF mq_example_holds, of 30 300 7]
  by (simp add: mq_fresh_def mq_example_def numeral_2_eq_2)

text \<open>
  C29: no lost wake-up. Under every interleaving of senders, receivers, flushes, unblocks and
  spurious wake-ups of any number of threads, as long as some thread sleeps in
  \<open>msg_q_rcv\<close> the queue was not unblocked, and each message in it has a thread that is already
  woken to take it.
\<close>

theorem msg_q_no_lost_wakeup:
  assumes "mq_inv q w u []"
    and "mq_reach q \<lparr>world = w, asleep = [], woken = [], results = []\<rparr> s" and "asleep s \<noteq> []"
  shows "\<exists>xs. mq_inv q (world s) False xs \<and> length xs \<le> length (woken s)"
proof -
  have "mq_sys_inv q \<lparr>world = w, asleep = [], woken = [], results = []\<rparr>"
    using assms(1) by (auto simp: mq_sys_inv_def)
  then have "mq_sys_inv q s" by (rule mq_reach_inv [OF assms(2)])
  then show ?thesis using assms(3) by (auto simp: mq_sys_inv_def)
qed

definition mq_empty_example :: mq_world where
  "mq_empty_example =
     \<lparr>heap = \<lparr>elems = Map.empty, lists = [1 \<mapsto> \<lparr>p_head = NULL, p_tail = NULL\<rparr>], dealloc_calls = []\<rparr>,
      queues = [2 \<mapsto> \<lparr>msg_list = 1, unblocked = 0\<rparr>]\<rparr>"

lemma mq_empty_example_inv: "mq_inv 2 mq_empty_example False []"
  by (simp add: mq_empty_example_def mq_inv_def ll_inv_def)

theorem msg_q_no_lost_wakeup_witness:
  "\<exists>xs. mq_inv 2 mq_empty_example False xs \<and> length xs \<le> length ([] :: nat list)"
proof -
  let ?s0 = "\<lparr>world = mq_empty_example, asleep = [], woken = [], results = []\<rparr>"
  have "msg_q_rcv 2 True mq_empty_example = Some (RcvWait, mq_empty_example)"
    using msg_q_rcv_loop_empty [OF mq_empty_example_inv] msg_q_rcv_blocked_entry [OF mq_empty_example_inv]
    by simp
  then have "mq_step 2 ?s0 (?s0\<lparr>world := mq_empty_example, asleep := 5 # asleep ?s0\<rparr>)"
    by (intro mq_step.rcv_wait [where b = True]) auto
  then have "mq_reach 2 ?s0 \<lparr>world = mq_empty_example, asleep = [5], woken = [], results = []\<rparr>"
    using mq_reach.step [OF mq_reach.start] by fastforce
  from msg_q_no_lost_wakeup [OF mq_empty_example_inv this] show ?thesis by simp
qed

text \<open>
  after \<open>msg_q_unblock\<close> no thread is left asleep, every later send and receive is refused
  with \<open>eMSG_Q_UNAVAILABLE_RESOURCE\<close>, a woken receiver still takes the messages that were
  queued before, and returns \<open>eMSG_Q_UNAVAILABLE_RESOURCE\<close> once there are none.
\<close>

theorem msg_q_unblock_releases:
  assumes "mq_inv q w False xs" "msg_q_unblock q w = Some (e, wk, w')"
    and "wakes wk sl wo sl' wo'" and "d \<noteq> NULL"
  shows "sl' = [] \<and> set wo' = set sl \<union> set wo \<and>
    msg_q_snd q d f m w' = Some (eMSG_Q_UNAVAILABLE_RESOURCE, NoWake, w') \<and>
    msg_q_rcv q True w' = Some (RcvDone eMSG_Q_UNAVAILABLE_RESOURCE None, w') \<and>
    (case xs of
       [] \<Rightarrow> msg_q_rcv_loop q w' = Some (RcvDone eMSG_Q_UNAVAILABLE_RESOURCE None, w')
     | (_, d1, _) # ys \<Rightarrow> \<exists>w2. msg_q_rcv_loop q w' = Some (RcvDone eMSG_Q_SUCCESS (Some d1), w2) \<and>
                              mq_inv q w2 True ys)"
proof -
  have wk: "wk = Broadcast" and inv: "mq_inv q w' True xs"
    using msg_q_unblock_ok [OF assms(1)] assms(2) by auto
  have "sl' = []" "wo' = sl @ wo"
    using assms(3) wk by (auto elim: wakes_broadcastE)
  moreover have "case xs of
       [] \<Rightarrow> msg_q_rcv_loop q w' = Some (RcvDone eMSG_Q_UNAVAILABLE_RESOURCE None, w')
     | (_, d1, _) # ys \<Rightarrow> \<exists>w2. msg_q_rcv_loop q w' = Some (RcvDone eMSG_Q_SUCCESS (Some d1), w2) \<and>
                              mq_inv q w2 True ys"
    using inv msg_q_rcv_loop_ok msg_q_rcv_loop_empty by (auto split: list.splits)
  ultimately show ?thesis
    using msg_q_snd_unblocked [OF inv assms(4)] msg_q_rcv_unblocked [OF inv] by auto
qed

theorem msg_q_unblock_releases_witness:
  "\<exists>w2. msg_q_rcv_loop 2 (mq_example\<lparr>queues := [2 \<mapsto> \<lparr>msg_list = 1, unblocked = 1\<rparr>]\<rparr>) =
      Some (RcvDone eMSG_Q_SUCCESS (Some 100), w2) \<and> mq_inv 2 w2 True []"
proof -
  let ?w' = "mq_example\<lparr>queues := [2 \<mapsto> \<lparr>msg_list = 1, unblocked = 1\<rparr>]\<rparr>"
  have "msg_q_unblock 2 mq_example = Some (eMSG_Q_SUCCESS, Broadcast, ?w')"
    by (simp add: msg_q_unblock_def mq_example_def deref_live)
  from msg_q_unblock_releases [OF mq_example_inv this wakes.broadcast, of 300]
  show ?thesis by simp
qed

end
