(* ===== verification/Agps.thy ===== *)
theory Agps
  imports Prelude
begin

text \<open>
  \<open>gps/gnss/Agps.{h,cpp}\<close>: the assisted-GPS connection manager and its state machines.
  Subscribers are C++ objects shared by pointer between the machine's list, its
  \<open>mCurrentSubscriber\<close> and the callers' stack, so they live in a store; using a deleted
  subscriber is a fault (\<open>None\<close>). Everything a machine says to the outside world (the
  framework, the modem, the data-service client, the adapter's message queue) is appended to
  \<open>log\<close>. What the outside world answers within one call is in \<open>agps_env\<close>.
  The two virtual methods are arguments of the base-class code; \<open>DSStateMachine\<close> overrides
  both.
\<close>

section \<open>Data\<close>

datatype AgpsState =
    AGPS_STATE_INVALID | AGPS_STATE_RELEASED | AGPS_STATE_PENDING | AGPS_STATE_ACQUIRED
  | AGPS_STATE_RELEASING

datatype AgpsEvent =
    AGPS_EVENT_INVALID | AGPS_EVENT_SUBSCRIBE | AGPS_EVENT_UNSUBSCRIBE | AGPS_EVENT_GRANTED
  | AGPS_EVENT_RELEASED | AGPS_EVENT_DENIED

datatype AgpsNotificationType =
    AGPS_NOTIFICATION_TYPE_INVALID
  | AGPS_NOTIFICATION_TYPE_FOR_ALL_SUBSCRIBERS
  | AGPS_NOTIFICATION_TYPE_FOR_INACTIVE_SUBSCRIBERS
  | AGPS_NOTIFICATION_TYPE_FOR_ACTIVE_SUBSCRIBERS

abbreviation LOC_AGPS_TYPE_INVALID :: int where "LOC_AGPS_TYPE_INVALID \<equiv> -1"
abbreviation LOC_AGPS_TYPE_SUPL :: int where "LOC_AGPS_TYPE_SUPL \<equiv> 1"
abbreviation LOC_AGPS_TYPE_WWAN_ANY :: int where "LOC_AGPS_TYPE_WWAN_ANY \<equiv> 3"
abbreviation LOC_AGPS_TYPE_SUPL_ES :: int where "LOC_AGPS_TYPE_SUPL_ES \<equiv> 5"

abbreviation AGPS_APN_BEARER_INVALID :: int where "AGPS_APN_BEARER_INVALID \<equiv> 0"

abbreviation LOC_API_ADAPTER_ERR_SUCCESS :: int where "LOC_API_ADAPTER_ERR_SUCCESS \<equiv> 0"
abbreviation LOC_API_ADAPTER_ERR_UNSUPPORTED :: int where "LOC_API_ADAPTER_ERR_UNSUPPORTED \<equiv> 2"
abbreviation LOC_API_ADAPTER_ERR_ENGINE_BUSY :: int where "LOC_API_ADAPTER_ERR_ENGINE_BUSY \<equiv> 6"

record AgpsSubscriber =
  mConnHandle :: int
  mWaitForCloseComplete :: bool
  mIsInactive :: bool

record AgpsStateMachine =
  mSubscriberList :: "ptr list"
  mCurrentSubscriber :: ptr
  mState :: AgpsState
  mAgpsType :: int
  mAPN :: "string option"
  mAPNLen :: nat
  mBearer :: int
  mRetries :: int

datatype agps_out =
    FrameworkStatus int bool
  | AtlOpenStatus int int "string option" int int
  | AtlCloseStatus int int
  | DSClientInit bool
  | DSClientOpenAndStartDataCall
  | DSClientStopDataCall
  | DSClientCloseDataCall
  | DSClientRelease
  | SendRequestATL int int
  | LocTimerStart int

text \<open>The objects one machine can reach, and what it has said so far.\<close>

record agps_st =
  subs :: "AgpsSubscriber store"
  sm :: AgpsStateMachine
  log :: "agps_out list"

text \<open>
  The environment of one call: where \<open>new\<close> puts a clone and where the caller's stack object
  is; the data-service client functions (\<open>None\<close> when not registered, otherwise their
  result); what \<open>loc_timer_start\<close> returns (NULL when the timer could not be started).
\<close>

record agps_env =
  newSub :: ptr
  stackSub :: ptr
  dsInitFn :: "(bool \<Rightarrow> int) option"
  dsOpenFn :: "int option"
  dsStopFn :: bool
  timerHandle :: ptr

definition emit :: "agps_out \<Rightarrow> agps_st \<Rightarrow> agps_st" where
  "emit e st = st\<lparr>log := log st @ [e]\<rparr>"

definition equals :: "AgpsSubscriber \<Rightarrow> AgpsSubscriber \<Rightarrow> bool" where
  "equals a s \<longleftrightarrow> mConnHandle a = mConnHandle s"

definition clone :: "AgpsSubscriber \<Rightarrow> AgpsSubscriber" where
  "clone s = \<lparr>mConnHandle = mConnHandle s, mWaitForCloseComplete = mWaitForCloseComplete s,
              mIsInactive = mIsInactive s\<rparr>"

definition new_sm :: "int \<Rightarrow> AgpsStateMachine" where
  "new_sm agpsType = \<lparr>mSubscriberList = [], mCurrentSubscriber = NULL, mState = AGPS_STATE_RELEASED,
     mAgpsType = agpsType, mAPN = None, mAPNLen = 0, mBearer = AGPS_APN_BEARER_INVALID, mRetries = 0\<rparr>"

section \<open>The subscriber list\<close>

definition transitionState :: "AgpsState \<Rightarrow> agps_st \<Rightarrow> agps_st" where
  "transitionState newState st = st\<lparr>sm := (sm st)\<lparr>mState := newState\<rparr>\<rparr>"

fun already_in_list :: "AgpsSubscriber store \<Rightarrow> ptr \<Rightarrow> ptr list \<Rightarrow> bool option" where
  "already_in_list h p [] = Some False"
| "already_in_list h p (q # qs) = do {
     subscriber \<leftarrow> deref h q;
     toAdd \<leftarrow> deref h p;
     if equals subscriber toAdd then Some True else already_in_list h p qs }"

definition addSubscriber :: "agps_env \<Rightarrow> ptr \<Rightarrow> agps_st \<Rightarrow> agps_st option" where
  "addSubscriber env p st = do {
     present \<leftarrow> already_in_list (subs st) p (mSubscriberList (sm st));
     if present then Some st
     else do {
       toAdd \<leftarrow> deref (subs st) p;
       Some (st\<lparr>subs := (subs st)(newSub env \<mapsto> clone toAdd),
                sm := (sm st)\<lparr>mSubscriberList := mSubscriberList (sm st) @ [newSub env]\<rparr>\<rparr>) } }"

text \<open>
  The loop of \<open>deleteSubscriber\<close>: it goes on after an element was erased and deleted, and
  compares every later element with \<open>subscriberToDelete\<close>, whatever became of it.
\<close>

fun delete_loop :: "ptr \<Rightarrow> ptr list \<Rightarrow> AgpsSubscriber store \<Rightarrow> (ptr list \<times> AgpsSubscriber store) option" where
  "delete_loop p [] h = Some ([], h)"
| "delete_loop p (q # qs) h =
     (if q \<noteq> NULL then do {
        subscriber \<leftarrow> deref h q;
        toDelete \<leftarrow> deref h p;
        if equals subscriber toDelete then do {
          h \<leftarrow> release h q;
          delete_loop p qs h }
        else do {
          (qs, h) \<leftarrow> delete_loop p qs h;
          Some (q # qs, h) } }
      else do {
        (qs, h) \<leftarrow> delete_loop p qs h;
        Some (q # qs, h) })"

definition deleteSubscriber :: "ptr \<Rightarrow> agps_st \<Rightarrow> agps_st option" where
  "deleteSubscriber p st = do {
     (qs, h) \<leftarrow> delete_loop p (mSubscriberList (sm st)) (subs st);
     Some (st\<lparr>subs := h, sm := (sm st)\<lparr>mSubscriberList := qs\<rparr>\<rparr>) }"

fun any_active :: "AgpsSubscriber store \<Rightarrow> ptr list \<Rightarrow> bool option" where
  "any_active h [] = Some False"
| "any_active h (q # qs) = do {
     subscriber \<leftarrow> deref h q;
     if \<not> mIsInactive subscriber then Some True else any_active h qs }"

definition anyActiveSubscribers :: "agps_st \<Rightarrow> bool option" where
  "anyActiveSubscribers st = any_active (subs st) (mSubscriberList (sm st))"

fun find_handle :: "AgpsSubscriber store \<Rightarrow> int \<Rightarrow> ptr list \<Rightarrow> ptr option" where
  "find_handle h connHandle [] = Some NULL"
| "find_handle h connHandle (q # qs) = do {
     subscriber \<leftarrow> deref h q;
     if mConnHandle subscriber = connHandle then Some q else find_handle h connHandle qs }"

definition getSubscriber :: "AgpsSubscriber store \<Rightarrow> int \<Rightarrow> AgpsStateMachine \<Rightarrow> ptr option" where
  "getSubscriber h connHandle m = find_handle h connHandle (mSubscriberList m)"

fun find_first :: "AgpsSubscriber store \<Rightarrow> bool \<Rightarrow> ptr list \<Rightarrow> ptr option" where
  "find_first h isInactive [] = Some NULL"
| "find_first h isInactive (q # qs) = do {
     subscriber \<leftarrow> deref h q;
     if mIsInactive subscriber = isInactive then Some q else find_first h isInactive qs }"

definition getFirstSubscriber :: "bool \<Rightarrow> agps_st \<Rightarrow> ptr option" where
  "getFirstSubscriber isInactive st = find_first (subs st) isInactive (mSubscriberList (sm st))"

fun drop_all :: "ptr list \<Rightarrow> AgpsSubscriber store \<Rightarrow> AgpsSubscriber store option" where
  "drop_all [] h = Some h"
| "drop_all (q # qs) h = do { h \<leftarrow> release h q; drop_all qs h }"

definition dropAllSubscribers :: "agps_st \<Rightarrow> agps_st option" where
  "dropAllSubscribers st = do {
     h \<leftarrow> drop_all (mSubscriberList (sm st)) (subs st);
     Some (st\<lparr>subs := h, sm := (sm st)\<lparr>mSubscriberList := []\<rparr>\<rparr>) }"

text \<open>\<open>setAPN\<close>: \<open>len\<close> bytes are copied from \<open>apn\<close>, which must have them.\<close>

definition setAPN :: "string option \<Rightarrow> nat \<Rightarrow> AgpsStateMachine \<Rightarrow> AgpsStateMachine option" where
  "setAPN apn len m =
     (let m = (if apn = None \<or> len = 0 then m\<lparr>mAPN := None, mAPNLen := 0\<rparr> else m) in
      case apn of None \<Rightarrow> Some m
      | Some a \<Rightarrow> if len \<le> length a then Some (m\<lparr>mAPN := Some (take len a), mAPNLen := len\<rparr>) else None)"

section \<open>The two virtual methods\<close>

text \<open>
  The types of \<open>notifyEventToSubscriber(event, subscriber, delete)\<close> and
  \<open>requestOrReleaseDataConn(request)\<close>.
\<close>

type_synonym notify_fn = "AgpsEvent \<Rightarrow> ptr \<Rightarrow> bool \<Rightarrow> agps_st \<Rightarrow> agps_st option"
type_synonym dataconn_fn = "bool \<Rightarrow> agps_st \<Rightarrow> (int \<times> agps_st) option"

subsection \<open>\<open>AgpsStateMachine\<close>\<close>

definition notifyEventToSubscriber :: notify_fn where
  "notifyEventToSubscriber event p del st = do {
     st \<leftarrow> (case event of
        AGPS_EVENT_GRANTED \<Rightarrow> do {
          s \<leftarrow> deref (subs st) p;
          Some (emit (AtlOpenStatus (mConnHandle s) 1 (mAPN (sm st)) (mBearer (sm st)) (mAgpsType (sm st))) st) }
      | AGPS_EVENT_DENIED \<Rightarrow> do {
          s \<leftarrow> deref (subs st) p;
          Some (emit (AtlOpenStatus (mConnHandle s) 0 (mAPN (sm st)) (mBearer (sm st)) (mAgpsType (sm st))) st) }
      | AGPS_EVENT_UNSUBSCRIBE \<Rightarrow> do {
          s \<leftarrow> deref (subs st) p;
          Some (emit (AtlCloseStatus (mConnHandle s) 1) st) }
      | AGPS_EVENT_RELEASED \<Rightarrow> do {
          s \<leftarrow> deref (subs st) p;
          Some (emit (AtlCloseStatus (mConnHandle s) 1) st) }
      | _ \<Rightarrow> Some st);
     if del then deleteSubscriber p st else Some st }"

definition requestOrReleaseDataConn :: dataconn_fn where
  "requestOrReleaseDataConn request st =
     Some (0, emit (FrameworkStatus (mAgpsType (sm st)) request) st)"

subsection \<open>\<open>DSStateMachine\<close>\<close>

abbreviation MAX_START_DATA_CALL_RETRIES :: int where "MAX_START_DATA_CALL_RETRIES \<equiv> 4"
abbreviation DATA_CALL_RETRY_DELAY_MSEC :: int where "DATA_CALL_RETRY_DELAY_MSEC \<equiv> 500"

definition DS_notifyEventToSubscriber :: notify_fn where
  "DS_notifyEventToSubscriber event p del st = do {
     st \<leftarrow> (case event of
        AGPS_EVENT_GRANTED \<Rightarrow> do {
          s \<leftarrow> deref (subs st) p;
          Some (emit (AtlOpenStatus (mConnHandle s) 1 None AGPS_APN_BEARER_INVALID LOC_AGPS_TYPE_SUPL_ES) st) }
      | AGPS_EVENT_DENIED \<Rightarrow> do {
          s \<leftarrow> deref (subs st) p;
          Some (emit (SendRequestATL (mConnHandle s) LOC_AGPS_TYPE_SUPL)
                     (st\<lparr>sm := (sm st)\<lparr>mRetries := 0\<rparr>\<rparr>)) }
      | AGPS_EVENT_UNSUBSCRIBE \<Rightarrow> do {
          s \<leftarrow> deref (subs st) p;
          Some (emit (AtlCloseStatus (mConnHandle s) 1) st) }
      | AGPS_EVENT_RELEASED \<Rightarrow> do {
          s \<leftarrow> deref (subs st) p;
          Some (emit (AtlCloseStatus (mConnHandle s) 1) (emit DSClientCloseDataCall st)) }
      | _ \<Rightarrow> Some st);
     if del then deleteSubscriber p st else Some st }"

definition DS_requestOrReleaseDataConn :: "agps_env \<Rightarrow> dataconn_fn" where
  "DS_requestOrReleaseDataConn env request st =
     (if \<not> request \<and> dsStopFn env then Some (0, emit DSClientStopDataCall st)
      else do {
        p \<leftarrow> getFirstSubscriber False st;
        if p = NULL then Some (-1, st)
        else (case dsOpenFn env of
          None \<Rightarrow> do {
            st \<leftarrow> DS_notifyEventToSubscriber AGPS_EVENT_DENIED p False st;
            Some (-1, st) }
        | Some ret \<Rightarrow>
            let st = emit DSClientOpenAndStartDataCall st in
            if ret = LOC_API_ADAPTER_ERR_ENGINE_BUSY then
              let st = st\<lparr>sm := (sm st)\<lparr>mRetries := mRetries (sm st) + 1\<rparr>\<rparr> in
              if mRetries (sm st) > MAX_START_DATA_CALL_RETRIES then do {
                st \<leftarrow> DS_notifyEventToSubscriber AGPS_EVENT_DENIED p False st;
                Some (ret, st) }
              else let st = emit (LocTimerStart DATA_CALL_RETRY_DELAY_MSEC) st in
                if timerHandle env \<noteq> NULL then Some (-1, st) else Some (ret, st)
            else if ret = LOC_API_ADAPTER_ERR_UNSUPPORTED then do {
              st \<leftarrow> DS_notifyEventToSubscriber AGPS_EVENT_DENIED p False st;
              Some (ret, st) }
            else Some (ret, st))
      })"

text \<open>The timer callback of a failed call setup.\<close>

definition DS_retryCallback :: "agps_st \<Rightarrow> agps_st option" where
  "DS_retryCallback st = do {
     p \<leftarrow> getFirstSubscriber False st;
     if p = NULL then Some st
     else do {
       s \<leftarrow> deref (subs st) p;
       Some (emit (SendRequestATL (mConnHandle s) LOC_AGPS_TYPE_SUPL_ES) st) } }"

section \<open>Notifying and event processing\<close>

definition wants_notification :: "AgpsNotificationType \<Rightarrow> AgpsSubscriber \<Rightarrow> bool" where
  "wants_notification notificationType s \<longleftrightarrow>
     notificationType = AGPS_NOTIFICATION_TYPE_FOR_ALL_SUBSCRIBERS \<or>
     (notificationType = AGPS_NOTIFICATION_TYPE_FOR_INACTIVE_SUBSCRIBERS \<and> mIsInactive s) \<or>
     (notificationType = AGPS_NOTIFICATION_TYPE_FOR_ACTIVE_SUBSCRIBERS \<and> \<not> mIsInactive s)"

text \<open>
  The loop of \<open>notifyAllSubscribers\<close>; \<open>kept\<close> are the elements the iterator has passed, so
  that \<open>mSubscriberList\<close> is always \<open>kept\<close> followed by the rest.
\<close>

fun notify_loop ::
  "notify_fn \<Rightarrow> AgpsEvent \<Rightarrow> bool \<Rightarrow> AgpsNotificationType \<Rightarrow> ptr list \<Rightarrow> ptr list \<Rightarrow>
     agps_st \<Rightarrow> agps_st option" where
  "notify_loop nt event del ty kept [] st = Some st"
| "notify_loop nt event del ty kept (q # qs) st = do {
     subscriber \<leftarrow> deref (subs st) q;
     if wants_notification ty subscriber then do {
       st \<leftarrow> nt event q False st;
       if del then do {
         h \<leftarrow> release (subs st) q;
         notify_loop nt event del ty kept qs
           (st\<lparr>subs := h, sm := (sm st)\<lparr>mSubscriberList := kept @ qs\<rparr>\<rparr>) }
       else notify_loop nt event del ty (kept @ [q]) qs st }
     else notify_loop nt event del ty (kept @ [q]) qs st }"

definition notifyAllSubscribers ::
  "notify_fn \<Rightarrow> AgpsEvent \<Rightarrow> bool \<Rightarrow> AgpsNotificationType \<Rightarrow> agps_st \<Rightarrow> agps_st option" where
  "notifyAllSubscribers nt event del ty st =
     notify_loop nt event del ty [] (mSubscriberList (sm st)) st"

definition processAgpsEventSubscribe ::
  "notify_fn \<Rightarrow> dataconn_fn \<Rightarrow> agps_env \<Rightarrow> agps_st \<Rightarrow> agps_st option" where
  "processAgpsEventSubscribe nt rr env st =
     (case mState (sm st) of
        AGPS_STATE_RELEASED \<Rightarrow> do {
          st \<leftarrow> addSubscriber env (mCurrentSubscriber (sm st)) st;
          (r, st) \<leftarrow> rr True st;
          Some (if r = 0 then transitionState AGPS_STATE_PENDING st else st) }
      | AGPS_STATE_PENDING \<Rightarrow> addSubscriber env (mCurrentSubscriber (sm st)) st
      | AGPS_STATE_ACQUIRED \<Rightarrow> do {
          st \<leftarrow> nt AGPS_EVENT_GRANTED (mCurrentSubscriber (sm st)) False st;
          addSubscriber env (mCurrentSubscriber (sm st)) st }
      | AGPS_STATE_RELEASING \<Rightarrow> addSubscriber env (mCurrentSubscriber (sm st)) st
      | _ \<Rightarrow> Some st)"

text \<open>The part the PENDING, ACQUIRED and RELEASING cases of UNSUBSCRIBE share.\<close>

definition dropCurrent :: "notify_fn \<Rightarrow> agps_st \<Rightarrow> agps_st option" where
  "dropCurrent nt st = do {
     let cur = mCurrentSubscriber (sm st);
     s \<leftarrow> deref (subs st) cur;
     if mWaitForCloseComplete s then do {
       h \<leftarrow> update_at (subs st) cur (\<lambda>s. s\<lparr>mIsInactive := True\<rparr>);
       Some (st\<lparr>subs := h\<rparr>) }
     else nt AGPS_EVENT_UNSUBSCRIBE cur True st }"

definition processAgpsEventUnsubscribe ::
  "notify_fn \<Rightarrow> dataconn_fn \<Rightarrow> agps_st \<Rightarrow> agps_st option" where
  "processAgpsEventUnsubscribe nt rr st =
     (let pending_or_acquired = do {
        st \<leftarrow> dropCurrent nt st;
        if mSubscriberList (sm st) = [] then do {
          (_, st) \<leftarrow> rr False (transitionState AGPS_STATE_RELEASED st);
          Some st }
        else do {
          active \<leftarrow> anyActiveSubscribers st;
          if \<not> active then do {
            (_, st) \<leftarrow> rr False (transitionState AGPS_STATE_RELEASING st);
            Some st }
          else Some st } } in
      case mState (sm st) of
        AGPS_STATE_RELEASED \<Rightarrow> nt AGPS_EVENT_UNSUBSCRIBE (mCurrentSubscriber (sm st)) False st
      | AGPS_STATE_PENDING \<Rightarrow> pending_or_acquired
      | AGPS_STATE_ACQUIRED \<Rightarrow> pending_or_acquired
      | AGPS_STATE_RELEASING \<Rightarrow> do {
          st \<leftarrow> dropCurrent nt st;
          Some (if mSubscriberList (sm st) = [] then transitionState AGPS_STATE_RELEASED st else st) }
      | _ \<Rightarrow> Some st)"

definition processAgpsEventGranted :: "notify_fn \<Rightarrow> agps_st \<Rightarrow> agps_st option" where
  "processAgpsEventGranted nt st =
     (case mState (sm st) of
        AGPS_STATE_PENDING \<Rightarrow>
          notifyAllSubscribers nt AGPS_EVENT_GRANTED False AGPS_NOTIFICATION_TYPE_FOR_ACTIVE_SUBSCRIBERS
            (transitionState AGPS_STATE_ACQUIRED st)
      | _ \<Rightarrow> Some st)"

text \<open>What RELEASED and DENIED do in the RELEASING state.\<close>

definition connectionClosed :: "notify_fn \<Rightarrow> dataconn_fn \<Rightarrow> agps_st \<Rightarrow> agps_st option" where
  "connectionClosed nt rr st = do {
     st \<leftarrow> notifyAllSubscribers nt AGPS_EVENT_RELEASED True
            AGPS_NOTIFICATION_TYPE_FOR_INACTIVE_SUBSCRIBERS st;
     active \<leftarrow> anyActiveSubscribers st;
     if active then do {
       (_, st) \<leftarrow> rr True (transitionState AGPS_STATE_PENDING st);
       Some st }
     else Some (transitionState AGPS_STATE_RELEASED st) }"

definition processAgpsEventReleased ::
  "notify_fn \<Rightarrow> dataconn_fn \<Rightarrow> agps_st \<Rightarrow> agps_st option" where
  "processAgpsEventReleased nt rr st =
     (case mState (sm st) of
        AGPS_STATE_ACQUIRED \<Rightarrow>
          notifyAllSubscribers nt AGPS_EVENT_RELEASED True AGPS_NOTIFICATION_TYPE_FOR_ALL_SUBSCRIBERS
            (transitionState AGPS_STATE_RELEASED st)
      | AGPS_STATE_RELEASING \<Rightarrow> connectionClosed nt rr st
      | _ \<Rightarrow> Some st)"

definition processAgpsEventDenied ::
  "notify_fn \<Rightarrow> dataconn_fn \<Rightarrow> agps_st \<Rightarrow> agps_st option" where
  "processAgpsEventDenied nt rr st =
     (case mState (sm st) of
        AGPS_STATE_RELEASING \<Rightarrow> connectionClosed nt rr st
      | AGPS_STATE_PENDING \<Rightarrow>
          notifyAllSubscribers nt AGPS_EVENT_DENIED True AGPS_NOTIFICATION_TYPE_FOR_ALL_SUBSCRIBERS
            (transitionState AGPS_STATE_RELEASED st)
      | _ \<Rightarrow> Some st)"

definition processAgpsEvent ::
  "notify_fn \<Rightarrow> dataconn_fn \<Rightarrow> agps_env \<Rightarrow> AgpsEvent \<Rightarrow> agps_st \<Rightarrow> agps_st option" where
  "processAgpsEvent nt rr env event st =
     (case event of
        AGPS_EVENT_SUBSCRIBE \<Rightarrow> processAgpsEventSubscribe nt rr env st
      | AGPS_EVENT_UNSUBSCRIBE \<Rightarrow> processAgpsEventUnsubscribe nt rr st
      | AGPS_EVENT_GRANTED \<Rightarrow> processAgpsEventGranted nt st
      | AGPS_EVENT_RELEASED \<Rightarrow> processAgpsEventReleased nt rr st
      | AGPS_EVENT_DENIED \<Rightarrow> processAgpsEventDenied nt rr st
      | _ \<Rightarrow> Some st)"

text \<open>The two classes: the base class, and \<open>DSStateMachine\<close> with its override.\<close>

definition base_processAgpsEvent :: "agps_env \<Rightarrow> AgpsEvent \<Rightarrow> agps_st \<Rightarrow> agps_st option" where
  "base_processAgpsEvent = processAgpsEvent notifyEventToSubscriber requestOrReleaseDataConn"

definition DS_processAgpsEvent :: "agps_env \<Rightarrow> AgpsEvent \<Rightarrow> agps_st \<Rightarrow> agps_st option" where
  "DS_processAgpsEvent env event st =
     (let event = (if event = AGPS_EVENT_RELEASED \<and> mState (sm st) = AGPS_STATE_PENDING
                   then AGPS_EVENT_DENIED else event) in
      processAgpsEvent DS_notifyEventToSubscriber (DS_requestOrReleaseDataConn env) env event st)"

section \<open>The manager\<close>

datatype nif = AgnssNif | InternetNif | DsNif

record AgpsManager =
  mAgnssNif :: "AgpsStateMachine option"
  mInternetNif :: "AgpsStateMachine option"
  mDsNif :: "AgpsStateMachine option"
  mSubs :: "AgpsSubscriber store"
  mLog :: "agps_out list"

text \<open>The two fields of \<open>ContextBase::mGps_conf\<close> the manager reads.\<close>

record agps_conf =
  CAPABILITIES :: "32 word"
  USE_EMERGENCY_PDN :: bool

fun nif_of :: "nif \<Rightarrow> AgpsManager \<Rightarrow> AgpsStateMachine option" where
  "nif_of AgnssNif m = mAgnssNif m"
| "nif_of InternetNif m = mInternetNif m"
| "nif_of DsNif m = mDsNif m"

fun set_nif :: "nif \<Rightarrow> AgpsStateMachine \<Rightarrow> AgpsManager \<Rightarrow> AgpsManager" where
  "set_nif AgnssNif s m = m\<lparr>mAgnssNif := Some s\<rparr>"
| "set_nif InternetNif s m = m\<lparr>mInternetNif := Some s\<rparr>"
| "set_nif DsNif s m = m\<lparr>mDsNif := Some s\<rparr>"

text \<open>A method call on the machine \<open>n\<close>; a fault when the pointer is NULL.\<close>

definition on_nif :: "nif \<Rightarrow> (agps_st \<Rightarrow> agps_st option) \<Rightarrow> AgpsManager \<Rightarrow> AgpsManager option" where
  "on_nif n f m = do {
     s \<leftarrow> nif_of n m;
     st \<leftarrow> f \<lparr>subs = mSubs m, sm = s, log = mLog m\<rparr>;
     Some ((set_nif n (sm st) m)\<lparr>mSubs := subs st, mLog := log st\<rparr>) }"

text \<open>The virtual call \<open>sm->processAgpsEvent(event)\<close>.\<close>

definition nif_process :: "agps_env \<Rightarrow> AgpsEvent \<Rightarrow> nif \<Rightarrow> AgpsManager \<Rightarrow> AgpsManager option" where
  "nif_process env event n =
     on_nif n ((if n = DsNif then DS_processAgpsEvent else base_processAgpsEvent) env event)"

definition say :: "agps_out \<Rightarrow> AgpsManager \<Rightarrow> AgpsManager" where
  "say e m = m\<lparr>mLog := mLog m @ [e]\<rparr>"

definition createAgpsStateMachines :: "agps_conf \<Rightarrow> agps_env \<Rightarrow> AgpsManager \<Rightarrow> AgpsManager" where
  "createAgpsStateMachines conf env m =
     (let agpsCapable = (and (CAPABILITIES conf) 4 \<noteq> 0 \<or> and (CAPABILITIES conf) 2 \<noteq> 0);
          m = (if mInternetNif m = None then m\<lparr>mInternetNif := Some (new_sm LOC_AGPS_TYPE_WWAN_ANY)\<rparr> else m) in
      if agpsCapable then
        let m = (if mAgnssNif m = None then m\<lparr>mAgnssNif := Some (new_sm LOC_AGPS_TYPE_SUPL)\<rparr> else m) in
        if mDsNif m = None \<and> USE_EMERGENCY_PDN conf then
          (case dsInitFn env of
             None \<Rightarrow> m
           | Some f \<Rightarrow>
               let m = say (DSClientInit False) m in
               if f False \<noteq> 0 then m else m\<lparr>mDsNif := Some (new_sm LOC_AGPS_TYPE_SUPL_ES)\<rparr>)
        else m
      else m)"

text \<open>Which machine serves a type; it may create the machines on the way.\<close>

definition getAgpsStateMachine ::
  "agps_conf \<Rightarrow> agps_env \<Rightarrow> int \<Rightarrow> AgpsManager \<Rightarrow> nif \<times> AgpsManager" where
  "getAgpsStateMachine conf env agpsType m =
     (if agpsType = LOC_AGPS_TYPE_INVALID \<or> agpsType = LOC_AGPS_TYPE_SUPL then (AgnssNif, m)
      else if agpsType = LOC_AGPS_TYPE_SUPL_ES then
        (if USE_EMERGENCY_PDN conf then
           (DsNif, if mDsNif m = None then createAgpsStateMachines conf env m else m)
         else (AgnssNif, m))
      else (InternetNif, m))"

definition requestATL ::
  "agps_conf \<Rightarrow> agps_env \<Rightarrow> int \<Rightarrow> int \<Rightarrow> AgpsManager \<Rightarrow> AgpsManager option" where
  "requestATL conf env connHandle agpsType m =
     (let (n, m) = getAgpsStateMachine conf env agpsType m in
      case nif_of n m of
        None \<Rightarrow> Some (say (AtlOpenStatus connHandle 0 None AGPS_APN_BEARER_INVALID agpsType) m)
      | Some s \<Rightarrow>
          let subscriber = \<lparr>mConnHandle = connHandle, mWaitForCloseComplete = False, mIsInactive = False\<rparr>;
              s = s\<lparr>mCurrentSubscriber := stackSub env\<rparr>;
              subscriber = (if agpsType = LOC_AGPS_TYPE_SUPL_ES
                            then subscriber\<lparr>mWaitForCloseComplete := True\<rparr> else subscriber);
              m = (set_nif n s m)\<lparr>mSubs := (mSubs m)(stackSub env \<mapsto> subscriber)\<rparr>
          in do {
            m \<leftarrow> nif_process env AGPS_EVENT_SUBSCRIBE n m;
            Some (m\<lparr>mSubs := (mSubs m)(stackSub env := None)\<rparr>) })"

definition find_in_nif :: "int \<Rightarrow> nif \<Rightarrow> AgpsManager \<Rightarrow> ptr option" where
  "find_in_nif connHandle n m = (case nif_of n m of
     None \<Rightarrow> Some NULL | Some s \<Rightarrow> getSubscriber (mSubs m) connHandle s)"

definition releaseATL :: "agps_env \<Rightarrow> int \<Rightarrow> AgpsManager \<Rightarrow> AgpsManager option" where
  "releaseATL env connHandle m = do {
     pa \<leftarrow> find_in_nif connHandle AgnssNif m;
     pi \<leftarrow> (if pa \<noteq> NULL then Some NULL else find_in_nif connHandle InternetNif m);
     pd \<leftarrow> (if pa \<noteq> NULL \<or> pi \<noteq> NULL then Some NULL else find_in_nif connHandle DsNif m);
     let go = (\<lambda>n p. do {
       s \<leftarrow> nif_of n m;
       nif_process env AGPS_EVENT_UNSUBSCRIBE n (set_nif n (s\<lparr>mCurrentSubscriber := p\<rparr>) m) });
     if pa \<noteq> NULL then go AgnssNif pa
     else if pi \<noteq> NULL then go InternetNif pi
     else if pd \<noteq> NULL then go DsNif pd
     else Some (say (AtlCloseStatus connHandle 0) m) }"

definition reportDataCallOpened :: "agps_env \<Rightarrow> AgpsManager \<Rightarrow> AgpsManager option" where
  "reportDataCallOpened env m =
     (if mDsNif m \<noteq> None then nif_process env AGPS_EVENT_GRANTED DsNif m else Some m)"

definition reportDataCallClosed :: "agps_env \<Rightarrow> AgpsManager \<Rightarrow> AgpsManager option" where
  "reportDataCallClosed env m =
     (if mDsNif m \<noteq> None then nif_process env AGPS_EVENT_RELEASED DsNif m else Some m)"

definition reportAtlOpenSuccess ::
  "agps_conf \<Rightarrow> agps_env \<Rightarrow> int \<Rightarrow> string option \<Rightarrow> nat \<Rightarrow> int \<Rightarrow> AgpsManager \<Rightarrow> AgpsManager option" where
  "reportAtlOpenSuccess conf env agpsType apnName apnLen bearerType m =
     (let (n, m) = getAgpsStateMachine conf env agpsType m in do {
        s \<leftarrow> nif_of n m;
        s \<leftarrow> setAPN apnName apnLen (s\<lparr>mBearer := bearerType\<rparr>);
        nif_process env AGPS_EVENT_GRANTED n (set_nif n s m) })"

definition reportAtlOpenFailed ::
  "agps_conf \<Rightarrow> agps_env \<Rightarrow> int \<Rightarrow> AgpsManager \<Rightarrow> AgpsManager option" where
  "reportAtlOpenFailed conf env agpsType m =
     (let (n, m) = getAgpsStateMachine conf env agpsType m in nif_process env AGPS_EVENT_DENIED n m)"

definition reportAtlClosed ::
  "agps_conf \<Rightarrow> agps_env \<Rightarrow> int \<Rightarrow> AgpsManager \<Rightarrow> AgpsManager option" where
  "reportAtlClosed conf env agpsType m =
     (let (n, m) = getAgpsStateMachine conf env agpsType m in nif_process env AGPS_EVENT_RELEASED n m)"

definition drop_nif :: "nif \<Rightarrow> AgpsManager \<Rightarrow> AgpsManager option" where
  "drop_nif n m = (if nif_of n m \<noteq> None then on_nif n dropAllSubscribers m else Some m)"

text \<open>An unregistered \<open>std::function\<close> throws when it is called: no result.\<close>

definition handleModemSSR :: "agps_conf \<Rightarrow> agps_env \<Rightarrow> AgpsManager \<Rightarrow> AgpsManager option" where
  "handleModemSSR conf env m = do {
     m \<leftarrow> drop_nif AgnssNif m;
     m \<leftarrow> drop_nif InternetNif m;
     m \<leftarrow> drop_nif DsNif m;
     if USE_EMERGENCY_PDN conf then
       (if dsStopFn env \<and> dsInitFn env \<noteq> None
        then Some (say (DSClientInit True) (say DSClientRelease (say DSClientCloseDataCall (say DSClientStopDataCall m))))
        else None)
     else Some m }"

end
