(* ===== verification/AgpsProofs.thy ===== *)
theory AgpsProofs
  imports Agps
begin

text \<open>
  The AGPS machines refine an abstract machine over a list of subscriber values. The
  refinement is proved once for any pair of virtual methods that obey the laws of
  \<open>agps_class\<close>, and interpreted for \<open>AgpsStateMachine\<close> and for \<open>DSStateMachine\<close>.
\<close>

section \<open>The abstract machine\<close>

type_synonym agps_abs = "AgpsState \<times> AgpsSubscriber list"

definition abs_add :: "AgpsSubscriber \<Rightarrow> AgpsSubscriber list \<Rightarrow> AgpsSubscriber list" where
  "abs_add s xs = (if mConnHandle s \<in> mConnHandle ` set xs then xs else xs @ [s])"

definition abs_drop :: "AgpsSubscriber \<Rightarrow> AgpsSubscriber list \<Rightarrow> AgpsSubscriber list" where
  "abs_drop s xs =
     (if mWaitForCloseComplete s
      then map (\<lambda>x. if mConnHandle x = mConnHandle s then x\<lparr>mIsInactive := True\<rparr> else x) xs
      else filter (\<lambda>x. mConnHandle x \<noteq> mConnHandle s) xs)"

definition abs_active :: "AgpsSubscriber list \<Rightarrow> bool" where
  "abs_active xs \<longleftrightarrow> (\<exists>x \<in> set xs. \<not> mIsInactive x)"

definition abs_closed :: "AgpsSubscriber list \<Rightarrow> agps_abs" where
  "abs_closed xs = (let ys = filter (\<lambda>x. \<not> mIsInactive x) xs in
     (if ys \<noteq> [] then AGPS_STATE_PENDING else AGPS_STATE_RELEASED, ys))"

text \<open>\<open>acc\<close> is whether a data-connection request was accepted; \<open>s\<close> the current subscriber.\<close>

fun abs_step :: "bool \<Rightarrow> AgpsSubscriber \<Rightarrow> AgpsEvent \<Rightarrow> agps_abs \<Rightarrow> agps_abs" where
  "abs_step acc s AGPS_EVENT_SUBSCRIBE (q, xs) =
     (if q = AGPS_STATE_INVALID then (q, xs)
      else (if q = AGPS_STATE_RELEASED \<and> acc then AGPS_STATE_PENDING else q, abs_add s xs))"
| "abs_step acc s AGPS_EVENT_UNSUBSCRIBE (q, xs) =
     (if q = AGPS_STATE_PENDING \<or> q = AGPS_STATE_ACQUIRED then
        let ys = abs_drop s xs in
        (if ys = [] then AGPS_STATE_RELEASED
         else if \<not> abs_active ys then AGPS_STATE_RELEASING else q, ys)
      else if q = AGPS_STATE_RELEASING then
        let ys = abs_drop s xs in (if ys = [] then AGPS_STATE_RELEASED else q, ys)
      else (q, xs))"
| "abs_step acc s AGPS_EVENT_GRANTED (q, xs) =
     (if q = AGPS_STATE_PENDING then AGPS_STATE_ACQUIRED else q, xs)"
| "abs_step acc s AGPS_EVENT_RELEASED (q, xs) =
     (if q = AGPS_STATE_ACQUIRED then (AGPS_STATE_RELEASED, [])
      else if q = AGPS_STATE_RELEASING then abs_closed xs else (q, xs))"
| "abs_step acc s AGPS_EVENT_DENIED (q, xs) =
     (if q = AGPS_STATE_PENDING then (AGPS_STATE_RELEASED, [])
      else if q = AGPS_STATE_RELEASING then abs_closed xs else (q, xs))"
| "abs_step acc s AGPS_EVENT_INVALID (q, xs) = (q, xs)"

text \<open>
  The invariant of a machine whose requests are always accepted: no subscribers exactly in
  RELEASED, an active one in PENDING and ACQUIRED.
\<close>

definition abs_inv :: "agps_abs \<Rightarrow> bool" where
  "abs_inv a \<longleftrightarrow> (case a of (q, xs) \<Rightarrow>
     q \<noteq> AGPS_STATE_INVALID \<and> distinct (map mConnHandle xs) \<and>
     (q = AGPS_STATE_RELEASED \<longleftrightarrow> xs = []) \<and>
     (q = AGPS_STATE_PENDING \<or> q = AGPS_STATE_ACQUIRED \<longrightarrow> abs_active xs))"

lemma abs_active_filter: "filter (\<lambda>x. \<not> mIsInactive x) xs \<noteq> [] \<longleftrightarrow> abs_active xs"
  by (auto simp: abs_active_def filter_empty_conv)

lemma map_handle_set_inactive [simp]:
  "map (mConnHandle \<circ> (\<lambda>x. if P x then x\<lparr>mIsInactive := True\<rparr> else x)) xs = map mConnHandle xs"
  by (induction xs) auto

lemma abs_step_distinct:
  "distinct (map mConnHandle xs) \<Longrightarrow> distinct (map mConnHandle (snd (abs_step acc s e (q, xs))))"
  by (cases e) (auto simp: abs_add_def abs_drop_def abs_closed_def Let_def distinct_map_filter)

lemma abs_step_inv:
  assumes "abs_inv (q, xs)" and "\<not> mIsInactive s" and "e = AGPS_EVENT_UNSUBSCRIBE \<Longrightarrow> s \<in> set xs"
  shows "abs_inv (abs_step True s e (q, xs))"
proof -
  have d: "distinct (map mConnHandle (snd (abs_step True s e (q, xs))))"
    using assms(1) by (intro abs_step_distinct) (simp add: abs_inv_def)
  have act: "abs_active xs \<Longrightarrow> abs_active (abs_add s xs)" "abs_active [s]"
    using assms(2) by (auto simp: abs_active_def abs_add_def)
  show ?thesis
  proof (cases e)
    case AGPS_EVENT_SUBSCRIBE
    then show ?thesis
      using assms(1,2) d act by (auto simp: abs_inv_def abs_add_def)
  next
    case AGPS_EVENT_UNSUBSCRIBE
    then show ?thesis
      using assms(1) d by (auto simp: abs_inv_def Let_def)
  next
    case AGPS_EVENT_RELEASED
    then show ?thesis
      using assms(1) d abs_active_filter [of xs]
      by (auto simp: abs_inv_def abs_closed_def Let_def abs_active_def)
  next
    case AGPS_EVENT_DENIED
    then show ?thesis
      using assms(1) d abs_active_filter [of xs]
      by (auto simp: abs_inv_def abs_closed_def Let_def abs_active_def)
  qed (use assms(1) d in \<open>auto simp: abs_inv_def\<close>)
qed

lemma abs_step_unsubscribe_inv:
  assumes "abs_inv (q, xs)"
  shows "abs_inv (abs_step True s AGPS_EVENT_UNSUBSCRIBE (q, xs))"
proof -
  have "distinct (map mConnHandle (snd (abs_step True s AGPS_EVENT_UNSUBSCRIBE (q, xs))))"
    using assms by (intro abs_step_distinct) (simp add: abs_inv_def)
  then show ?thesis using assms by (auto simp: abs_inv_def Let_def)
qed

section \<open>Subscriber lists in the store\<close>

definition objs_at :: "AgpsSubscriber store \<Rightarrow> ptr list \<Rightarrow> AgpsSubscriber list" where
  "objs_at h ps = map (\<lambda>p. the (h p)) ps"

definition list_ok :: "AgpsSubscriber store \<Rightarrow> ptr list \<Rightarrow> bool" where
  "list_ok h ps \<longleftrightarrow> distinct ps \<and> (\<forall>p \<in> set ps. p \<noteq> NULL \<and> h p \<noteq> None) \<and>
     distinct (map mConnHandle (objs_at h ps))"

abbreviation lst :: "agps_st \<Rightarrow> ptr list" where
  "lst st \<equiv> mSubscriberList (sm st)"

abbreviation objs :: "agps_st \<Rightarrow> AgpsSubscriber list" where
  "objs st \<equiv> objs_at (subs st) (lst st)"

abbreviation st_ok :: "agps_st \<Rightarrow> bool" where
  "st_ok st \<equiv> list_ok (subs st) (lst st)"

definition abs_of :: "agps_st \<Rightarrow> agps_abs" where
  "abs_of st = (mState (sm st), objs st)"

lemma objs_at_simps [simp]:
  "objs_at h [] = []" "objs_at h (p # ps) = the (h p) # objs_at h ps"
  "objs_at h (ps @ qs) = objs_at h ps @ objs_at h qs"
  by (auto simp: objs_at_def)

lemma objs_at_nil: "objs_at h ps = [] \<longleftrightarrow> ps = []"
  by (simp add: objs_at_def)

lemma objs_at_upd [simp]: "p \<notin> set ps \<Longrightarrow> objs_at (h(p := v)) ps = objs_at h ps"
  by (auto simp: objs_at_def)

lemma objs_at_cong: "(\<And>p. p \<in> set ps \<Longrightarrow> h' p = h p) \<Longrightarrow> objs_at h' ps = objs_at h ps"
  by (auto simp: objs_at_def)

lemma list_ok_cong: "(\<And>p. p \<in> set ps \<Longrightarrow> h' p = h p) \<Longrightarrow> list_ok h' ps = list_ok h ps"
  using objs_at_cong [of ps h' h] by (auto simp: list_ok_def)

lemma list_ok_simps [simp]:
  "list_ok h []"
  "list_ok h (p # ps) \<longleftrightarrow> p \<noteq> NULL \<and> (\<exists>s. h p = Some s) \<and> p \<notin> set ps \<and>
     mConnHandle (the (h p)) \<notin> mConnHandle ` set (objs_at h ps) \<and> list_ok h ps"
  by (auto simp: list_ok_def)

lemma list_ok_upd [simp]: "p \<notin> set ps \<Longrightarrow> list_ok (h(p := v)) ps = list_ok h ps"
  by (rule list_ok_cong) auto

lemma list_ok_filter: "list_ok h ps \<Longrightarrow> list_ok h (filter P ps)"
  by (induction ps) (auto simp: objs_at_def)

lemma already_in_list_ok:
  "list_ok h ps \<Longrightarrow> deref h p = Some s \<Longrightarrow>
     already_in_list h p ps = Some (mConnHandle s \<in> mConnHandle ` set (objs_at h ps))"
  by (induction ps) (auto simp: deref_live equals_def)

lemma delete_loop_absent:
  "list_ok h ps \<Longrightarrow> deref h p = Some s \<Longrightarrow> mConnHandle s \<notin> mConnHandle ` set (objs_at h ps) \<Longrightarrow>
     delete_loop p ps h = Some (ps, h)"
  by (induction ps) (auto simp: deref_live equals_def)

lemma delete_loop_dangling: "h p = None \<Longrightarrow> list_ok h ps \<Longrightarrow> ps \<noteq> [] \<Longrightarrow> delete_loop p ps h = None"
  by (cases ps) (auto simp: deref_def)

text \<open>
  Deleting the element the pointer itself refers to works exactly when it is the last one:
  otherwise the next comparison reads the object that was just deleted.
\<close>

lemma delete_loop_self:
  "list_ok h (qs @ p # rs) \<Longrightarrow>
     delete_loop p (qs @ p # rs) h = (if rs = [] then Some (qs, h(p := None)) else None)"
proof (induction qs)
  case Nil
  then obtain s where s: "p \<noteq> NULL" "h p = Some s" "p \<notin> set rs" "list_ok h rs" by auto
  have "delete_loop p (p # rs) h = delete_loop p rs (h(p := None))"
    using s(1,2) by (simp add: deref_live equals_def release_live)
  moreover have "rs \<noteq> [] \<Longrightarrow> delete_loop p rs (h(p := None)) = None"
    using s by (intro delete_loop_dangling) simp_all
  ultimately show ?case by (cases rs) (simp_all only: append.simps delete_loop.simps(1) if_True if_False list.distinct simp_thms)
next
  case (Cons q qs)
  then obtain s t where "h q = Some s" "h p = Some t" "mConnHandle s \<noteq> mConnHandle t" "p \<noteq> NULL" "q \<noteq> NULL"
    by (auto simp: list_ok_def objs_at_def image_iff)
  then show ?case using Cons by (auto simp: deref_live equals_def)
qed

lemma any_active_ok: "list_ok h ps \<Longrightarrow> any_active h ps = Some (abs_active (objs_at h ps))"
  by (induction ps) (auto simp: deref_live abs_active_def)

lemma find_handle_absent:
  "list_ok h ps \<Longrightarrow> c \<notin> mConnHandle ` set (objs_at h ps) \<Longrightarrow> find_handle h c ps = Some NULL"
  by (induction ps) (auto simp: deref_live)

lemma find_handle_present:
  "list_ok h ps \<Longrightarrow> p \<in> set ps \<Longrightarrow> h p = Some s \<Longrightarrow> find_handle h (mConnHandle s) ps = Some p"
proof (induction ps)
  case (Cons q qs)
  then obtain t where t: "q \<noteq> NULL" "h q = Some t" by auto
  show ?case
  proof (cases "q = p")
    case True
    then show ?thesis using Cons.prems t by (simp add: deref_live)
  next
    case False
    then have "p \<in> set qs" using Cons.prems(2) by simp
    then have "mConnHandle t \<noteq> mConnHandle s"
      using Cons.prems(1,3) t by (auto simp: objs_at_def image_iff)
    then show ?thesis using Cons t \<open>p \<in> set qs\<close> by (simp add: deref_live)
  qed
qed simp

lemma find_first_runs: "list_ok h ps \<Longrightarrow> \<exists>p. find_first h b ps = Some p"
  by (induction ps) (auto simp: deref_live)

lemma find_first_found:
  "list_ok h ps \<Longrightarrow> find_first h b ps = Some p \<Longrightarrow> p \<noteq> NULL \<Longrightarrow>
     p \<in> set ps \<and> (\<exists>s. h p = Some s \<and> mIsInactive s = b)"
  by (induction ps) (auto simp: deref_live split: if_splits)

lemma drop_all_ok: "list_ok h ps \<Longrightarrow> drop_all ps h = Some (wipe (set ps) h)"
proof (induction ps arbitrary: h)
  case (Cons p ps)
  then obtain s where s: "p \<noteq> NULL" "h p = Some s" "p \<notin> set ps" "list_ok h ps" by auto
  then have "list_ok (wipe {p} h) ps" by (subst list_ok_cong [of _ _ h]) (auto simp: wipe_apply)
  then show ?case
    using Cons.IH [of "wipe {p} h"] s(1,2) by (simp add: release_live wipe_upd(1)) (simp add: wipe_def fun_eq_iff)
qed simp

lemma clone_id [simp]: "clone s = s"
  by (simp add: clone_def)

section \<open>The contract of the virtual methods\<close>

text \<open>
  A virtual method may talk to the outside and count retries; it leaves the subscribers and
  the rest of the machine alone.
\<close>

definition keeps :: "agps_st \<Rightarrow> agps_st \<Rightarrow> bool" where
  "keeps st st' \<longleftrightarrow> subs st' = subs st \<and> (\<exists>r. sm st' = (sm st)\<lparr>mRetries := r\<rparr>)"

definition conn :: "AgpsStateMachine \<Rightarrow> string option \<times> int \<times> int" where
  "conn m = (mAPN m, mBearer m, mAgpsType m)"

lemma conn_simps [simp]:
  "conn (m\<lparr>mSubscriberList := ps\<rparr>) = conn m" "conn (m\<lparr>mState := q\<rparr>) = conn m"
  "conn (m\<lparr>mRetries := r\<rparr>) = conn m" "conn (m\<lparr>mCurrentSubscriber := p\<rparr>) = conn m"
  by (simp_all add: conn_def)

lemma keeps_refl [simp]: "keeps st st"
  by (auto simp: keeps_def intro: exI [of _ "mRetries (sm st)"])

lemma keepsD:
  assumes "keeps st st'"
  shows "subs st' = subs st" "lst st' = lst st" "mState (sm st') = mState (sm st)"
    "mCurrentSubscriber (sm st') = mCurrentSubscriber (sm st)" "conn (sm st') = conn (sm st)"
  using assms by (auto simp: keeps_def)

locale agps_class =
  fixes nt :: notify_fn
    and rr :: dataconn_fn
    and msg :: "AgpsEvent \<Rightarrow> string option \<times> int \<times> int \<Rightarrow> AgpsSubscriber \<Rightarrow> agps_out list"
  assumes nt_runs: "deref (subs st) p = Some s \<Longrightarrow>
      \<exists>st'. nt e p False st = Some st' \<and> keeps st st' \<and> log st' = log st @ msg e (conn (sm st)) s"
    and nt_delete: "nt e p True st = Option.bind (nt e p False st) (deleteSubscriber p)"
    and rr_runs: "st_ok st \<Longrightarrow> \<exists>r st'. rr b st = Some (r, st') \<and> keeps st st'"

definition leavers :: "AgpsNotificationType \<Rightarrow> AgpsSubscriber store \<Rightarrow> ptr list \<Rightarrow> ptr set" where
  "leavers ty h ps = {p \<in> set ps. wants_notification ty (the (h p))}"

definition stayers :: "AgpsNotificationType \<Rightarrow> AgpsSubscriber store \<Rightarrow> ptr list \<Rightarrow> ptr list" where
  "stayers ty h ps = filter (\<lambda>p. \<not> wants_notification ty (the (h p))) ps"

lemma leavers_simps [simp]:
  "leavers ty h [] = {}"
  "leavers ty h (p # ps) =
     (if wants_notification ty (the (h p)) then insert p (leavers ty h ps) else leavers ty h ps)"
  by (auto simp: leavers_def)

lemma stayers_simps [simp]:
  "stayers ty h [] = []"
  "stayers ty h (p # ps) =
     (if wants_notification ty (the (h p)) then stayers ty h ps else p # stayers ty h ps)"
  by (auto simp: stayers_def)

lemma leavers_wipe: "p \<notin> set ps \<Longrightarrow> leavers ty (wipe {p} h) ps = leavers ty h ps"
  by (auto simp: leavers_def wipe_apply split: if_splits)

lemma stayers_wipe: "p \<notin> set ps \<Longrightarrow> stayers ty (wipe {p} h) ps = stayers ty h ps"
  unfolding stayers_def by (rule filter_cong) (auto simp: wipe_apply)

lemma objs_at_wipe: "A \<inter> set ps = {} \<Longrightarrow> objs_at (wipe A h) ps = objs_at h ps"
  by (rule objs_at_cong) (auto simp: wipe_apply)

lemma list_ok_wipe: "A \<inter> set ps = {} \<Longrightarrow> list_ok (wipe A h) ps = list_ok h ps"
  by (rule list_ok_cong) (auto simp: wipe_apply)

lemma objs_at_stayers:
  "objs_at h (stayers ty h ps) = filter (\<lambda>s. \<not> wants_notification ty s) (objs_at h ps)"
  by (induction ps) auto

lemma stayers_leavers: "set (stayers ty h ps) = set ps - leavers ty h ps"
  by (auto simp: stayers_def leavers_def)

definition relisted :: "agps_st \<Rightarrow> agps_st \<Rightarrow> ptr list \<Rightarrow> bool" where
  "relisted st st' ps \<longleftrightarrow> (\<exists>r. sm st' = (sm st)\<lparr>mRetries := r, mSubscriberList := ps\<rparr>)"

lemma relisted_refl: "lst st = ps \<Longrightarrow> relisted st st ps"
  by (auto simp: relisted_def intro: exI [of _ "mRetries (sm st)"])

context agps_class
begin

lemma notify_delete_loop:
  "list_ok (subs st) qs \<Longrightarrow> lst st = kept @ qs \<Longrightarrow>
   \<exists>st'. notify_loop nt e True ty kept qs st = Some st' \<and>
     subs st' = wipe (leavers ty (subs st) qs) (subs st) \<and>
     relisted st st' (kept @ stayers ty (subs st) qs) \<and>
     log st' = log st @ concat (map (msg e (conn (sm st)))
                                  (filter (wants_notification ty) (objs_at (subs st) qs)))"
proof (induction qs arbitrary: kept st)
  case Nil
  then show ?case by (auto intro: relisted_refl)
next
  case (Cons q qs)
  then obtain s where s: "q \<noteq> NULL" "subs st q = Some s" "q \<notin> set qs" "list_ok (subs st) qs" by auto
  show ?case
  proof (cases "wants_notification ty s")
    case False
    then show ?thesis using Cons.IH [OF s(4), of "kept @ [q]"] Cons.prems(2) s(1,2) by (simp add: deref_live)
  next
    case True
    obtain st1 where st1: "nt e q False st = Some st1" "keeps st st1"
        "log st1 = log st @ msg e (conn (sm st)) s"
      using nt_runs [of st q s e] s by (auto simp: deref_live)
    let ?st2 = "st1\<lparr>subs := wipe {q} (subs st), sm := (sm st1)\<lparr>mSubscriberList := kept @ qs\<rparr>\<rparr>"
    obtain r1 where r1: "sm st1 = (sm st)\<lparr>mRetries := r1\<rparr>" "subs st1 = subs st"
      using st1(2) by (auto simp: keeps_def)
    have "list_ok (subs ?st2) qs" "lst ?st2 = kept @ qs" using s(3,4) by (simp_all add: list_ok_wipe)
    from Cons.IH [OF this] obtain st' where
      st': "notify_loop nt e True ty kept qs ?st2 = Some st'"
        "subs st' = wipe (leavers ty (wipe {q} (subs st)) qs) (wipe {q} (subs st))"
        "relisted ?st2 st' (kept @ stayers ty (wipe {q} (subs st)) qs)"
        "log st' = log st1 @ concat (map (msg e (conn (sm ?st2)))
             (filter (wants_notification ty) (objs_at (wipe {q} (subs st)) qs)))"
      by auto
    have "notify_loop nt e True ty kept (q # qs) st = Some st'"
      using st1(1) s(1,2) True st'(1) r1(2) by (simp add: deref_live release_live wipe_upd(1))
    moreover have "relisted st st' (kept @ stayers ty (subs st) (q # qs))"
      using st'(3) s(2,3) True r1(1) by (auto simp: relisted_def stayers_wipe)
    ultimately show ?thesis
      using st'(2,4) s(2,3) True st1(3) r1
      by (auto simp: leavers_wipe objs_at_wipe wipe_upd(2) insert_commute Un_commute)
  qed
qed

lemma notify_keep_loop:
  "list_ok (subs st) qs \<Longrightarrow> \<exists>st'. notify_loop nt e False ty kept qs st = Some st' \<and> keeps st st' \<and>
     log st' = log st @ concat (map (msg e (conn (sm st)))
                                  (filter (wants_notification ty) (objs_at (subs st) qs)))"
proof (induction qs arbitrary: kept st)
  case (Cons q qs)
  then obtain s where s: "q \<noteq> NULL" "subs st q = Some s" "list_ok (subs st) qs" by auto
  show ?case
  proof (cases "wants_notification ty s")
    case False
    then show ?thesis using Cons.IH [OF s(3), of "kept @ [q]"] s(1,2) by (simp add: deref_live)
  next
    case True
    obtain st1 where st1: "nt e q False st = Some st1" "keeps st st1"
        "log st1 = log st @ msg e (conn (sm st)) s"
      using nt_runs [of st q s e] s by (auto simp: deref_live)
    have "list_ok (subs st1) qs" using s(3) keepsD(1) [OF st1(2)] by simp
    from Cons.IH [OF this, of "kept @ [q]"] obtain st' where
      st': "notify_loop nt e False ty (kept @ [q]) qs st1 = Some st'" "keeps st1 st'"
        "log st' = log st1 @ concat (map (msg e (conn (sm st1)))
             (filter (wants_notification ty) (objs_at (subs st1) qs)))"
      by auto
    have "keeps st st'" using st1(2) st'(2) by (auto simp: keeps_def)
    then show ?thesis
      using st' s(1,2) True st1 keepsD(1,5) [OF st1(2)] by (simp add: deref_live)
  qed
qed simp

end

section \<open>What one event does to the objects\<close>

text \<open>
  The list stays well formed; only the machine's own subscribers and the clone at \<open>n\<close> change;
  whatever left the list was deleted.
\<close>

definition evolves :: "ptr \<Rightarrow> agps_st \<Rightarrow> agps_st \<Rightarrow> bool" where
  "evolves n st st' \<longleftrightarrow> st_ok st' \<and> mCurrentSubscriber (sm st') = mCurrentSubscriber (sm st) \<and>
     set (lst st') \<subseteq> insert n (set (lst st)) \<and>
     (\<forall>p. p \<notin> insert n (set (lst st)) \<longrightarrow> subs st' p = subs st p) \<and>
     (\<forall>p \<in> insert n (set (lst st)). p \<notin> set (lst st') \<longrightarrow> subs st' p = None)"

lemma transitionState_simps [simp]:
  "subs (transitionState q st) = subs st" "lst (transitionState q st) = lst st"
  "mState (sm (transitionState q st)) = q"
  "mCurrentSubscriber (sm (transitionState q st)) = mCurrentSubscriber (sm st)"
  "log (transitionState q st) = log st" "conn (sm (transitionState q st)) = conn (sm st)"
  by (simp_all add: transitionState_def)

lemma evolves_same:
  assumes "evolves n st st1" "subs st2 = subs st1" "lst st2 = lst st1"
    "mCurrentSubscriber (sm st2) = mCurrentSubscriber (sm st1)"
  shows "evolves n st st2"
  using assms by (simp add: evolves_def)

lemma evolves_from_same:
  assumes "evolves n st1 st2" "subs st1 = subs st" "lst st1 = lst st"
    "mCurrentSubscriber (sm st1) = mCurrentSubscriber (sm st)"
  shows "evolves n st st2"
  using assms by (simp add: evolves_def)

lemma evolves_refl: "st_ok st \<Longrightarrow> subs st n = None \<Longrightarrow> evolves n st st"
  by (auto simp: evolves_def)

lemma addSubscriber_ok:
  assumes "st_ok st" "deref (subs st) p = Some s" "newSub env \<noteq> NULL" "subs st (newSub env) = None"
  shows "\<exists>st'. addSubscriber env p st = Some st' \<and> evolves (newSub env) st st' \<and>
           mState (sm st') = mState (sm st) \<and> objs st' = abs_add s (objs st) \<and> log st' = log st"
proof (cases "mConnHandle s \<in> mConnHandle ` set (objs st)")
  case True
  then show ?thesis
    using already_in_list_ok [OF assms(1,2)] evolves_refl [OF assms(1,4)]
    by (simp add: addSubscriber_def abs_add_def)
next
  case False
  let ?st = "st\<lparr>subs := (subs st)(newSub env \<mapsto> clone s),
                sm := (sm st)\<lparr>mSubscriberList := lst st @ [newSub env]\<rparr>\<rparr>"
  have new: "newSub env \<notin> set (lst st)" using assms(1,4) by (auto simp: list_ok_def)
  have add: "addSubscriber env p st = Some ?st"
    using False already_in_list_ok [OF assms(1,2)] assms(2) by (simp add: addSubscriber_def)
  have objs: "objs_at (subs ?st) (lst st) = objs st" using new by simp
  have "distinct (lst ?st)" using new assms(1) by (simp add: list_ok_def)
  moreover have "\<forall>p \<in> set (lst ?st). p \<noteq> NULL \<and> subs ?st p \<noteq> None"
    using assms(1,3) by (auto simp: list_ok_def)
  moreover have "distinct (map mConnHandle (objs ?st))"
    using False objs assms(1) by (simp add: list_ok_def)
  ultimately have "st_ok ?st" unfolding list_ok_def by blast
  then have "evolves (newSub env) st ?st" by (auto simp: evolves_def)
  moreover have "objs ?st = abs_add s (objs st)" using False objs by (simp add: abs_add_def)
  ultimately show ?thesis using add by simp
qed

lemma objs_at_set:
  assumes "list_ok h ps" "p \<in> set ps" "h p = Some s" "mConnHandle (f s) = mConnHandle s"
  shows "objs_at (h(p \<mapsto> f s)) ps =
           map (\<lambda>x. if mConnHandle x = mConnHandle s then f x else x) (objs_at h ps)"
    and "list_ok (h(p \<mapsto> f s)) ps"
proof -
  have inj: "q = p" if "q \<in> set ps" "mConnHandle (the (h q)) = mConnHandle s" for q
    using that assms(1-3) by (auto simp: list_ok_def objs_at_def distinct_map inj_on_def)
  show objs: "objs_at (h(p \<mapsto> f s)) ps =
           map (\<lambda>x. if mConnHandle x = mConnHandle s then f x else x) (objs_at h ps)"
    unfolding objs_at_def map_map
  proof (rule map_cong [OF refl])
    fix q assume q: "q \<in> set ps"
    show "the ((h(p \<mapsto> f s)) q) =
        ((\<lambda>x. if mConnHandle x = mConnHandle s then f x else x) \<circ> (\<lambda>p. the (h p))) q"
      using inj [OF q] assms(3) by (cases "q = p") auto
  qed
  have "map mConnHandle (objs_at (h(p \<mapsto> f s)) ps) = map mConnHandle (objs_at h ps)"
    using assms(3,4) by (simp add: objs_at_def)
  then show "list_ok (h(p \<mapsto> f s)) ps" using assms(1) by (simp add: list_ok_def)
qed

lemma list_ok_snoc:
  assumes "list_ok h (qs @ [p])" "h p = Some s"
  shows "p \<notin> set qs" "list_ok h qs" "\<forall>x \<in> set (objs_at h qs). mConnHandle x \<noteq> mConnHandle s"
proof -
  show "p \<notin> set qs" using assms(1) by (simp add: list_ok_def)
  show "list_ok h qs" using assms(1) by (simp add: list_ok_def)
  have "mConnHandle s \<notin> mConnHandle ` set (objs_at h qs)" using assms by (simp add: list_ok_def)
  then show "\<forall>x \<in> set (objs_at h qs). mConnHandle x \<noteq> mConnHandle s" by (metis imageI)
qed

context agps_class
begin

lemma dropCurrent_ok:
  assumes "st_ok st" "mCurrentSubscriber (sm st) \<in> set (lst st)"
    and s: "subs st (mCurrentSubscriber (sm st)) = Some s"
    and last: "mWaitForCloseComplete s \<or> mCurrentSubscriber (sm st) = last (lst st)"
    and n: "subs st n = None"
  shows "\<exists>st'. dropCurrent nt st = Some st' \<and> evolves n st st' \<and> mState (sm st') = mState (sm st) \<and>
           objs st' = abs_drop s (objs st)"
proof -
  let ?c = "mCurrentSubscriber (sm st)"
  have c: "?c \<noteq> NULL" using assms(1,2) by (auto simp: list_ok_def)
  show ?thesis
  proof (cases "mWaitForCloseComplete s")
    case True
    let ?f = "\<lambda>s. s\<lparr>mIsInactive := True\<rparr>"
    let ?st = "st\<lparr>subs := (subs st)(?c \<mapsto> ?f s)\<rparr>"
    have "dropCurrent nt st = Some ?st"
      using True c s by (simp add: dropCurrent_def deref_live update_at_live)
    moreover have "evolves n st ?st"
      using objs_at_set(2) [OF assms(1,2) s, of ?f] assms(2) n by (auto simp: evolves_def)
    moreover have "objs ?st = abs_drop s (objs st)"
      using objs_at_set(1) [OF assms(1,2) s, of ?f] True by (simp add: abs_drop_def)
    ultimately show ?thesis by simp
  next
    case False
    obtain qs where qs: "lst st = qs @ [?c]"
      using False last assms(2) by (metis append_butlast_last_id empty_iff empty_set)
    obtain st1 where st1: "nt AGPS_EVENT_UNSUBSCRIBE ?c False st = Some st1" "keeps st st1"
      using nt_runs [of st ?c s AGPS_EVENT_UNSUBSCRIBE] c s by (auto simp: deref_live)
    let ?st = "st1\<lparr>subs := wipe {?c} (subs st), sm := (sm st1)\<lparr>mSubscriberList := qs\<rparr>\<rparr>"
    have "delete_loop ?c (lst st) (subs st) = Some (qs, wipe {?c} (subs st))"
      using delete_loop_self [of "subs st" qs ?c "[]"] assms(1) qs by (simp add: wipe_upd(1))
    then have "dropCurrent nt st = Some ?st"
      using False c s st1 keepsD [OF st1(2)]
      by (simp add: dropCurrent_def deref_live nt_delete deleteSubscriber_def)
    moreover have dist: "?c \<notin> set qs" "list_ok (subs st) qs"
        "\<forall>x \<in> set (objs_at (subs st) qs). mConnHandle x \<noteq> mConnHandle s"
      using list_ok_snoc [of "subs st" qs ?c s] assms(1) qs s by simp_all
    moreover have "evolves n st ?st"
      using dist qs n keepsD(4) [OF st1(2)] list_ok_wipe [of "{?c}" qs "subs st"]
      by (auto simp: evolves_def wipe_apply)
    moreover have "objs ?st = abs_drop s (objs st)"
      using dist qs s False objs_at_wipe [of "{?c}" qs "subs st"]
      by (simp add: abs_drop_def filter_id_conv)
    ultimately show ?thesis using keepsD(3) [OF st1(2)] by simp
  qed
qed

lemma dropCurrent_fault:
  assumes "st_ok st" "mCurrentSubscriber (sm st) \<in> set (lst st)"
    and s: "subs st (mCurrentSubscriber (sm st)) = Some s"
    and "\<not> mWaitForCloseComplete s" "mCurrentSubscriber (sm st) \<noteq> last (lst st)"
  shows "dropCurrent nt st = None"
proof -
  let ?c = "mCurrentSubscriber (sm st)"
  have c: "?c \<noteq> NULL" using assms(1,2) by (auto simp: list_ok_def)
  obtain qs rs where qs: "lst st = qs @ ?c # rs" "rs \<noteq> []"
    using assms(2,5) by (metis split_list last_snoc)
  obtain st1 where st1: "nt AGPS_EVENT_UNSUBSCRIBE ?c False st = Some st1" "keeps st st1"
    using nt_runs [of st ?c s AGPS_EVENT_UNSUBSCRIBE] c s by (auto simp: deref_live)
  have "delete_loop ?c (lst st) (subs st) = None"
    using delete_loop_self [of "subs st" qs ?c rs] assms(1) qs by simp
  then show ?thesis
    using assms(4) c s st1 keepsD [OF st1(2)]
    by (simp add: dropCurrent_def deref_live nt_delete deleteSubscriber_def)
qed

end

section \<open>Every event refines the abstract machine\<close>

lemma wants_cases [simp]:
  "wants_notification AGPS_NOTIFICATION_TYPE_FOR_ALL_SUBSCRIBERS = (\<lambda>s. True)"
  "wants_notification AGPS_NOTIFICATION_TYPE_FOR_INACTIVE_SUBSCRIBERS = mIsInactive"
  "wants_notification AGPS_NOTIFICATION_TYPE_FOR_ACTIVE_SUBSCRIBERS = (\<lambda>s. \<not> mIsInactive s)"
  by (auto simp: wants_notification_def fun_eq_iff)

lemma filter_nothing [simp]: "filter (\<lambda>x. False) xs = []" "filter (\<lambda>x. True) xs = xs"
  by (induction xs) simp_all

lemma abs_drop_in: "s \<in> set xs \<Longrightarrow> mWaitForCloseComplete s \<Longrightarrow> abs_drop s xs \<noteq> []"
  by (auto simp: abs_drop_def)

context agps_class
begin

lemma notifyAll_delete:
  assumes "st_ok st" "subs st n = None"
  shows "\<exists>st'. notifyAllSubscribers nt e True ty st = Some st' \<and> evolves n st st' \<and>
     mState (sm st') = mState (sm st) \<and>
     objs st' = filter (\<lambda>s. \<not> wants_notification ty s) (objs st) \<and>
     log st' = log st @ concat (map (msg e (conn (sm st))) (filter (wants_notification ty) (objs st)))"
proof -
  obtain st' where st': "notify_loop nt e True ty [] (lst st) st = Some st'"
      "subs st' = wipe (leavers ty (subs st) (lst st)) (subs st)"
      "relisted st st' (stayers ty (subs st) (lst st))"
      "log st' = log st @ concat (map (msg e (conn (sm st))) (filter (wants_notification ty) (objs st)))"
    using notify_delete_loop [OF assms(1), of "[]" e ty] by auto
  let ?keep = "stayers ty (subs st) (lst st)"
  have l: "lst st' = ?keep" "mState (sm st') = mState (sm st)"
      "mCurrentSubscriber (sm st') = mCurrentSubscriber (sm st)"
    using st'(3) by (auto simp: relisted_def)
  have disj: "leavers ty (subs st) (lst st) \<inter> set ?keep = {}" by (simp add: stayers_leavers)
  have "st_ok st'"
    using list_ok_filter [OF assms(1)] list_ok_wipe [OF disj] l(1) st'(2) by (simp add: stayers_def)
  then have "evolves n st st'"
    using l st'(2) assms(2) by (auto simp: evolves_def stayers_leavers wipe_apply leavers_def)
  moreover have "objs st' = filter (\<lambda>s. \<not> wants_notification ty s) (objs st)"
    using l(1) st'(2) objs_at_wipe [OF disj] by (simp add: objs_at_stayers)
  ultimately show ?thesis using st'(1,4) l(2) by (simp add: notifyAllSubscribers_def)
qed

lemma notifyAll_keep:
  assumes "st_ok st"
  shows "\<exists>st'. notifyAllSubscribers nt e False ty st = Some st' \<and> keeps st st' \<and>
     log st' = log st @ concat (map (msg e (conn (sm st))) (filter (wants_notification ty) (objs st)))"
  using notify_keep_loop [OF assms] by (simp add: notifyAllSubscribers_def)

text \<open>A connection request after a step: nothing but retries and the log.\<close>

lemma rr_after:
  assumes "evolves n st st1"
  obtains r st2 where "rr b (transitionState q st1) = Some (r, st2)" "evolves n st st2"
    "mState (sm st2) = q" "objs st2 = objs st1"
proof -
  have "st_ok (transitionState q st1)" using assms by (simp add: evolves_def)
  from rr_runs [OF this] obtain r st2 where
    r: "rr b (transitionState q st1) = Some (r, st2)" "keeps (transitionState q st1) st2" by blast
  have "evolves n st st2"
    using keepsD [OF r(2)] by (intro evolves_same [OF assms]) simp_all
  then show ?thesis using that r keepsD [OF r(2)] by simp
qed

lemma subscribe_ok:
  assumes "st_ok st" "deref (subs st) (mCurrentSubscriber (sm st)) = Some s"
    "newSub env \<noteq> NULL" "subs st (newSub env) = None"
  shows "\<exists>st' acc. processAgpsEventSubscribe nt rr env st = Some st' \<and> evolves (newSub env) st st' \<and>
     abs_of st' = abs_step acc s AGPS_EVENT_SUBSCRIBE (abs_of st) \<and>
     (mState (sm st) = AGPS_STATE_RELEASED \<longrightarrow>
        (\<exists>st1 r st2. st_ok st1 \<and> rr True st1 = Some (r, st2) \<and> acc = (r = 0)))"
proof -
  obtain st1 where st1: "addSubscriber env (mCurrentSubscriber (sm st)) st = Some st1"
      "evolves (newSub env) st st1" "mState (sm st1) = mState (sm st)" "objs st1 = abs_add s (objs st)"
    using addSubscriber_ok [OF assms] by blast
  have ok1: "st_ok st1" using st1(2) by (simp add: evolves_def)
  show ?thesis
  proof (cases "mState (sm st)")
    case AGPS_STATE_RELEASED
    obtain r st2 where r: "rr True st1 = Some (r, st2)" "keeps st1 st2" using rr_runs [OF ok1] by blast
    have ev: "evolves (newSub env) st st2"
      using keepsD [OF r(2)] by (intro evolves_same [OF st1(2)]) simp_all
    have "evolves (newSub env) st (transitionState AGPS_STATE_PENDING st2)"
      by (rule evolves_same [OF ev]) simp_all
    then show ?thesis
      using AGPS_STATE_RELEASED st1 r ev keepsD [OF r(2)] ok1
      by (intro exI [of _ "if r = 0 then transitionState AGPS_STATE_PENDING st2 else st2"]
            exI [of _ "r = 0"]) (auto simp: processAgpsEventSubscribe_def abs_of_def)
  next
    case AGPS_STATE_ACQUIRED
    obtain st2 where st2: "nt AGPS_EVENT_GRANTED (mCurrentSubscriber (sm st)) False st = Some st2"
        "keeps st st2"
      using nt_runs [OF assms(2)] by blast
    note k = keepsD [OF st2(2)]
    obtain st3 where st3: "addSubscriber env (mCurrentSubscriber (sm st2)) st2 = Some st3"
        "evolves (newSub env) st2 st3" "mState (sm st3) = mState (sm st2)"
        "objs st3 = abs_add s (objs st2)"
      using addSubscriber_ok [of st2 _ s env] assms k by auto
    have "evolves (newSub env) st st3" by (rule evolves_from_same [OF st3(2)]) (simp_all add: k)
    then show ?thesis
      using AGPS_STATE_ACQUIRED st2 st3 k by (simp add: processAgpsEventSubscribe_def abs_of_def)
  qed (use st1 evolves_refl [OF assms(1,4)] in \<open>auto simp: processAgpsEventSubscribe_def abs_of_def\<close>)
qed

lemma unsubscribe_ok:
  assumes "st_ok st" "mCurrentSubscriber (sm st) \<in> set (lst st)"
    and s: "subs st (mCurrentSubscriber (sm st)) = Some s"
    and last: "mWaitForCloseComplete s \<or> mCurrentSubscriber (sm st) = last (lst st) \<or>
               mState (sm st) = AGPS_STATE_RELEASED"
    and n: "subs st n = None"
  shows "\<exists>st'. processAgpsEventUnsubscribe nt rr st = Some st' \<and> evolves n st st' \<and>
     abs_of st' = abs_step acc s AGPS_EVENT_UNSUBSCRIBE (abs_of st)"
proof (cases "mState (sm st) = AGPS_STATE_RELEASED \<or> mState (sm st) = AGPS_STATE_INVALID")
  case True
  have "mCurrentSubscriber (sm st) \<noteq> NULL" using assms(1,2) by (auto simp: list_ok_def)
  then obtain st1 where st1: "nt AGPS_EVENT_UNSUBSCRIBE (mCurrentSubscriber (sm st)) False st = Some st1"
      "keeps st st1"
    using nt_runs [of st "mCurrentSubscriber (sm st)" s AGPS_EVENT_UNSUBSCRIBE] s
    by (auto simp: deref_live)
  note k = keepsD [OF st1(2)]
  have "evolves n st st1" by (rule evolves_same [OF evolves_refl [OF assms(1) n]]) (simp_all add: k)
  then show ?thesis
    using True st1(1) k evolves_refl [OF assms(1) n]
    by (auto simp: processAgpsEventUnsubscribe_def abs_of_def)
next
  case False
  then obtain st1 where st1: "dropCurrent nt st = Some st1" "evolves n st st1"
      "mState (sm st1) = mState (sm st)" "objs st1 = abs_drop s (objs st)"
    using dropCurrent_ok [OF assms(1-3) _ n] last by blast
  have ok1: "st_ok st1" using st1(2) by (simp add: evolves_def)
  have act: "anyActiveSubscribers st1 = Some (abs_active (abs_drop s (objs st)))"
    using any_active_ok [OF ok1] st1(4) by (simp add: anyActiveSubscribers_def)
  have nil: "lst st1 = [] \<longleftrightarrow> abs_drop s (objs st) = []"
    using st1(4) objs_at_nil [of "subs st1" "lst st1"] by simp
  obtain r2 st2 where r2: "rr False (transitionState AGPS_STATE_RELEASED st1) = Some (r2, st2)"
      "evolves n st st2" "mState (sm st2) = AGPS_STATE_RELEASED" "objs st2 = objs st1"
    using rr_after [OF st1(2)] by metis
  obtain r3 st3 where r3: "rr False (transitionState AGPS_STATE_RELEASING st1) = Some (r3, st3)"
      "evolves n st st3" "mState (sm st3) = AGPS_STATE_RELEASING" "objs st3 = objs st1"
    using rr_after [OF st1(2)] by metis
  have tr: "evolves n st (transitionState q st1)" for q by (rule evolves_same [OF st1(2)]) simp_all
  show ?thesis
    using False st1 r2 r3 act nil tr
    by (cases "mState (sm st)") (simp_all add: processAgpsEventUnsubscribe_def abs_of_def Let_def)
qed

lemma unsubscribe_fault:
  assumes "st_ok st" "mCurrentSubscriber (sm st) \<in> set (lst st)"
    "subs st (mCurrentSubscriber (sm st)) = Some s"
    "\<not> mWaitForCloseComplete s" "mCurrentSubscriber (sm st) \<noteq> last (lst st)"
    "mState (sm st) \<notin> {AGPS_STATE_RELEASED, AGPS_STATE_INVALID}"
  shows "processAgpsEventUnsubscribe nt rr st = None"
  using dropCurrent_fault [OF assms(1-5)] assms(6)
  by (cases "mState (sm st)") (simp_all add: processAgpsEventUnsubscribe_def Let_def)

end

context agps_class
begin

lemma granted_ok:
  assumes "st_ok st" "subs st n = None"
  shows "\<exists>st'. processAgpsEventGranted nt st = Some st' \<and> evolves n st st' \<and>
     abs_of st' = abs_step acc s AGPS_EVENT_GRANTED (abs_of st) \<and>
     log st' = log st @ (if mState (sm st) = AGPS_STATE_PENDING
       then concat (map (msg AGPS_EVENT_GRANTED (conn (sm st))) (filter (\<lambda>s. \<not> mIsInactive s) (objs st)))
       else [])"
proof (cases "mState (sm st) = AGPS_STATE_PENDING")
  case True
  let ?st = "transitionState AGPS_STATE_ACQUIRED st"
  have ok: "st_ok ?st" using assms(1) by simp
  obtain st' where st': "notifyAllSubscribers nt AGPS_EVENT_GRANTED False
        AGPS_NOTIFICATION_TYPE_FOR_ACTIVE_SUBSCRIBERS ?st = Some st'" "keeps ?st st'"
      "log st' = log st @ concat (map (msg AGPS_EVENT_GRANTED (conn (sm st)))
                                    (filter (\<lambda>s. \<not> mIsInactive s) (objs st)))"
    using notifyAll_keep [OF ok, of AGPS_EVENT_GRANTED AGPS_NOTIFICATION_TYPE_FOR_ACTIVE_SUBSCRIBERS]
    by auto
  have "evolves n st st'"
    using keepsD [OF st'(2)] by (intro evolves_same [OF evolves_refl [OF assms]]) simp_all
  then show ?thesis
    using True st' keepsD [OF st'(2)] by (simp add: processAgpsEventGranted_def abs_of_def)
next
  case False
  then show ?thesis
    using evolves_refl [OF assms]
    by (cases "mState (sm st)") (simp_all add: processAgpsEventGranted_def abs_of_def)
qed

lemma closed_ok:
  assumes "st_ok st" "subs st n = None"
  shows "\<exists>st'. connectionClosed nt rr st = Some st' \<and> evolves n st st' \<and>
     abs_of st' = abs_closed (objs st)"
proof -
  obtain st1 where st1: "notifyAllSubscribers nt AGPS_EVENT_RELEASED True
        AGPS_NOTIFICATION_TYPE_FOR_INACTIVE_SUBSCRIBERS st = Some st1" "evolves n st st1"
      "objs st1 = filter (\<lambda>s. \<not> mIsInactive s) (objs st)"
    using notifyAll_delete [OF assms, of AGPS_EVENT_RELEASED
            AGPS_NOTIFICATION_TYPE_FOR_INACTIVE_SUBSCRIBERS] by auto
  have ok1: "st_ok st1" using st1(2) by (simp add: evolves_def)
  have "abs_active (objs st1) \<longleftrightarrow> objs st1 \<noteq> []"
    unfolding st1(3) abs_active_filter by (auto simp: abs_active_def)
  then have act: "anyActiveSubscribers st1 = Some (objs st1 \<noteq> [])"
    using any_active_ok [OF ok1] by (simp add: anyActiveSubscribers_def)
  obtain r st2 where st2: "rr True (transitionState AGPS_STATE_PENDING st1) = Some (r, st2)"
      "evolves n st st2" "mState (sm st2) = AGPS_STATE_PENDING" "objs st2 = objs st1"
    using rr_after [OF st1(2)] by metis
  have tr: "evolves n st (transitionState q st1)" for q by (rule evolves_same [OF st1(2)]) simp_all
  show ?thesis
    using st1(1) act st2 tr
    by (cases "objs st1 = []")
      (simp_all add: connectionClosed_def abs_of_def abs_closed_def Let_def flip: st1(3))
qed

text \<open>A lost or refused connection: everybody is told and forgotten.\<close>

lemma lost_ok:
  assumes "st_ok st" "subs st n = None"
  shows "\<exists>st'. notifyAllSubscribers nt e True AGPS_NOTIFICATION_TYPE_FOR_ALL_SUBSCRIBERS
       (transitionState AGPS_STATE_RELEASED st) = Some st' \<and> evolves n st st' \<and>
     abs_of st' = (AGPS_STATE_RELEASED, []) \<and>
     log st' = log st @ concat (map (msg e (conn (sm st))) (objs st))"
proof -
  let ?st = "transitionState AGPS_STATE_RELEASED st"
  have "st_ok ?st" "subs ?st n = None" using assms by simp_all
  from notifyAll_delete [OF this, of e AGPS_NOTIFICATION_TYPE_FOR_ALL_SUBSCRIBERS] obtain st' where
    st': "notifyAllSubscribers nt e True AGPS_NOTIFICATION_TYPE_FOR_ALL_SUBSCRIBERS ?st = Some st'"
      "evolves n ?st st'" "mState (sm st') = AGPS_STATE_RELEASED" "objs st' = []"
      "log st' = log st @ concat (map (msg e (conn (sm st))) (objs st))" by auto
  have "evolves n st st'" by (rule evolves_from_same [OF st'(2)]) simp_all
  then show ?thesis using st' by (simp add: abs_of_def)
qed

lemma released_ok:
  assumes "st_ok st" "subs st n = None"
  shows "\<exists>st'. processAgpsEventReleased nt rr st = Some st' \<and> evolves n st st' \<and>
     abs_of st' = abs_step acc s AGPS_EVENT_RELEASED (abs_of st)"
  using lost_ok [OF assms] closed_ok [OF assms] evolves_refl [OF assms]
  by (cases "mState (sm st)") (auto simp: processAgpsEventReleased_def abs_of_def)

lemma denied_ok:
  assumes "st_ok st" "subs st n = None"
  shows "\<exists>st'. processAgpsEventDenied nt rr st = Some st' \<and> evolves n st st' \<and>
     abs_of st' = abs_step acc s AGPS_EVENT_DENIED (abs_of st)"
  using lost_ok [OF assms] closed_ok [OF assms] evolves_refl [OF assms]
  by (cases "mState (sm st)") (auto simp: processAgpsEventDenied_def abs_of_def)

end

text \<open>When the machine's current subscriber allows the event \<open>e\<close>.\<close>

definition cur_ok :: "AgpsEvent \<Rightarrow> AgpsSubscriber \<Rightarrow> agps_st \<Rightarrow> bool" where
  "cur_ok e s st \<longleftrightarrow>
     (e = AGPS_EVENT_SUBSCRIBE \<longrightarrow> deref (subs st) (mCurrentSubscriber (sm st)) = Some s) \<and>
     (e = AGPS_EVENT_UNSUBSCRIBE \<longrightarrow>
        mCurrentSubscriber (sm st) \<in> set (lst st) \<and> subs st (mCurrentSubscriber (sm st)) = Some s \<and>
        (mWaitForCloseComplete s \<or> mCurrentSubscriber (sm st) = last (lst st) \<or>
         mState (sm st) = AGPS_STATE_RELEASED))"

context agps_class
begin

lemma process_refines:
  assumes "st_ok st" "newSub env \<noteq> NULL" "subs st (newSub env) = None" "cur_ok e s st"
  shows "\<exists>st' acc. processAgpsEvent nt rr env e st = Some st' \<and> evolves (newSub env) st st' \<and>
     abs_of st' = abs_step acc s e (abs_of st)"
proof (cases e)
  case AGPS_EVENT_SUBSCRIBE
  then show ?thesis
    using subscribe_ok [OF assms(1) _ assms(2,3)] assms(4)
    by (simp add: cur_ok_def processAgpsEvent_def) blast
next
  case AGPS_EVENT_UNSUBSCRIBE
  then have cur: "mCurrentSubscriber (sm st) \<in> set (lst st)"
      "subs st (mCurrentSubscriber (sm st)) = Some s"
      "mWaitForCloseComplete s \<or> mCurrentSubscriber (sm st) = last (lst st) \<or>
         mState (sm st) = AGPS_STATE_RELEASED"
    using assms(4) by (simp_all add: cur_ok_def)
  from unsubscribe_ok [OF assms(1) cur assms(3)] obtain st' where
    "processAgpsEventUnsubscribe nt rr st = Some st'" "evolves (newSub env) st st'"
    "abs_of st' = abs_step True s AGPS_EVENT_UNSUBSCRIBE (abs_of st)" by blast
  then show ?thesis using AGPS_EVENT_UNSUBSCRIBE by (auto simp: processAgpsEvent_def)
next
  case AGPS_EVENT_INVALID
  then show ?thesis using evolves_refl [OF assms(1,3)] by (simp add: processAgpsEvent_def abs_of_def)
qed (use granted_ok [OF assms(1,3)] released_ok [OF assms(1,3)] denied_ok [OF assms(1,3)] in
      \<open>(simp add: processAgpsEvent_def; blast)+\<close>)

end

text \<open>A class whose connection requests never fail.\<close>

locale agps_accepting = agps_class +
  assumes rr_accepts: "rr True st = Some (r, st') \<Longrightarrow> r = 0"
begin

lemma abs_step_acc: "(q = AGPS_STATE_RELEASED \<Longrightarrow> acc) \<Longrightarrow>
    abs_step acc s AGPS_EVENT_SUBSCRIBE (q, xs) = abs_step True s AGPS_EVENT_SUBSCRIBE (q, xs)"
  by auto

lemma process_accepts:
  assumes "st_ok st" "newSub env \<noteq> NULL" "subs st (newSub env) = None" "cur_ok e s st"
  shows "\<exists>st'. processAgpsEvent nt rr env e st = Some st' \<and> evolves (newSub env) st st' \<and>
     abs_of st' = abs_step True s e (abs_of st)"
proof (cases "e = AGPS_EVENT_SUBSCRIBE")
  case True
  then have "deref (subs st) (mCurrentSubscriber (sm st)) = Some s" using assms(4) by (simp add: cur_ok_def)
  from subscribe_ok [OF assms(1) this assms(2,3)] obtain st' acc where
    st': "processAgpsEventSubscribe nt rr env st = Some st'" "evolves (newSub env) st st'"
      "abs_of st' = abs_step acc s AGPS_EVENT_SUBSCRIBE (abs_of st)"
      "mState (sm st) = AGPS_STATE_RELEASED \<longrightarrow> (\<exists>st1 r st2. st_ok st1 \<and> rr True st1 = Some (r, st2) \<and> acc = (r = 0))"
    by blast
  have "acc" if rel: "mState (sm st) = AGPS_STATE_RELEASED"
  proof -
    obtain st1 r st2 where r: "rr True st1 = Some (r, st2)" "acc = (r = 0)" using st'(4) rel by metis
    then show ?thesis using rr_accepts [OF r(1)] by simp
  qed
  then have "abs_of st' = abs_step True s e (abs_of st)"
    using True st'(3) abs_step_acc [of "mState (sm st)" acc s "objs st"] unfolding abs_of_def by metis
  then show ?thesis using True st'(1,2) by (simp add: processAgpsEvent_def)
next
  case False
  then have "abs_step acc s e a = abs_step True s e a" for acc a by (cases e; cases a) auto
  then show ?thesis using process_refines [OF assms] by (metis (no_types, lifting))
qed

end

section \<open>The two classes obey the contract\<close>

fun base_msg :: "AgpsEvent \<Rightarrow> string option \<times> int \<times> int \<Rightarrow> AgpsSubscriber \<Rightarrow> agps_out list" where
  "base_msg AGPS_EVENT_GRANTED (apn, bearer, ty) s = [AtlOpenStatus (mConnHandle s) 1 apn bearer ty]"
| "base_msg AGPS_EVENT_DENIED (apn, bearer, ty) s = [AtlOpenStatus (mConnHandle s) 0 apn bearer ty]"
| "base_msg AGPS_EVENT_UNSUBSCRIBE c s = [AtlCloseStatus (mConnHandle s) 1]"
| "base_msg AGPS_EVENT_RELEASED c s = [AtlCloseStatus (mConnHandle s) 1]"
| "base_msg AGPS_EVENT_SUBSCRIBE c s = []"
| "base_msg AGPS_EVENT_INVALID c s = []"

fun DS_msg :: "AgpsEvent \<Rightarrow> string option \<times> int \<times> int \<Rightarrow> AgpsSubscriber \<Rightarrow> agps_out list" where
  "DS_msg AGPS_EVENT_GRANTED c s =
     [AtlOpenStatus (mConnHandle s) 1 None AGPS_APN_BEARER_INVALID LOC_AGPS_TYPE_SUPL_ES]"
| "DS_msg AGPS_EVENT_DENIED c s = [SendRequestATL (mConnHandle s) LOC_AGPS_TYPE_SUPL]"
| "DS_msg AGPS_EVENT_UNSUBSCRIBE c s = [AtlCloseStatus (mConnHandle s) 1]"
| "DS_msg AGPS_EVENT_RELEASED c s = [DSClientCloseDataCall, AtlCloseStatus (mConnHandle s) 1]"
| "DS_msg AGPS_EVENT_SUBSCRIBE c s = []"
| "DS_msg AGPS_EVENT_INVALID c s = []"

lemma keeps_emit [simp]: "keeps st (emit e st') = keeps st st'"
  by (simp add: keeps_def emit_def)

lemma emit_simps [simp]:
  "subs (emit e st) = subs st" "sm (emit e st) = sm st" "log (emit e st) = log st @ [e]"
  by (simp_all add: emit_def)

lemma keeps_retries [simp]: "keeps st (st'\<lparr>sm := (sm st')\<lparr>mRetries := r\<rparr>\<rparr>) = keeps st st'"
proof
  assume "keeps st st'"
  then show "keeps st (st'\<lparr>sm := (sm st')\<lparr>mRetries := r\<rparr>\<rparr>)" by (auto simp: keeps_def)
next
  assume k: "keeps st (st'\<lparr>sm := (sm st')\<lparr>mRetries := r\<rparr>\<rparr>)"
  then obtain r' where "(sm st')\<lparr>mRetries := r\<rparr> = (sm st)\<lparr>mRetries := r'\<rparr>" by (auto simp: keeps_def)
  then have "sm st' = (sm st)\<lparr>mRetries := mRetries (sm st')\<rparr>"
    by (cases "sm st"; cases "sm st'") simp
  then show "keeps st st'" using k unfolding keeps_def by auto
qed

lemma keeps_retry [simp]: "keeps st ((emit e st)\<lparr>sm := (sm st)\<lparr>mRetries := r\<rparr>\<rparr>)"
  by (auto simp: keeps_def emit_def)

lemma base_notify_runs:
  assumes "deref (subs st) p = Some s"
  shows "\<exists>st'. notifyEventToSubscriber e p False st = Some st' \<and> keeps st st' \<and>
      log st' = log st @ base_msg e (conn (sm st)) s"
  using assms by (cases e) (simp_all add: notifyEventToSubscriber_def conn_def)

lemma DS_notify_runs:
  assumes "deref (subs st) p = Some s"
  shows "\<exists>st'. DS_notifyEventToSubscriber e p False st = Some st' \<and> keeps st st' \<and>
      log st' = log st @ DS_msg e (conn (sm st)) s"
  using assms by (cases e) (simp_all add: DS_notifyEventToSubscriber_def)

interpretation base: agps_accepting notifyEventToSubscriber requestOrReleaseDataConn base_msg
proof unfold_locales
  show "notifyEventToSubscriber e p True st =
          Option.bind (notifyEventToSubscriber e p False st) (deleteSubscriber p)" for e p st
    by (simp add: notifyEventToSubscriber_def)
qed (simp_all add: base_notify_runs requestOrReleaseDataConn_def)

lemma DS_rr_runs:
  assumes "st_ok st"
  shows "\<exists>r st'. DS_requestOrReleaseDataConn env b st = Some (r, st') \<and> keeps st st'"
proof (cases "\<not> b \<and> dsStopFn env")
  case True
  then show ?thesis by (simp add: DS_requestOrReleaseDataConn_def)
next
  case False
  obtain p where p: "getFirstSubscriber False st = Some p"
    using find_first_runs [OF assms] by (auto simp: getFirstSubscriber_def)
  show ?thesis
  proof (cases "p = NULL")
    case True
    then show ?thesis using False p by (auto simp: DS_requestOrReleaseDataConn_def)
  next
    case p0: False
    then obtain s where s: "deref (subs st) p = Some s"
      using find_first_found [OF assms, of False p] p
      by (auto simp: getFirstSubscriber_def deref_live)
    have denied: "\<exists>st2. DS_notifyEventToSubscriber AGPS_EVENT_DENIED p False st1 = Some st2 \<and> keeps st st2"
      if sub: "subs st1 = subs st" and kp: "keeps st st1" for st1
    proof -
      obtain st2 where "DS_notifyEventToSubscriber AGPS_EVENT_DENIED p False st1 = Some st2" "keeps st1 st2"
        using DS_notify_runs [of st1 p s AGPS_EVENT_DENIED] s sub by auto
      then show ?thesis using kp by (auto simp: keeps_def)
    qed
    obtain a where a: "DS_notifyEventToSubscriber AGPS_EVENT_DENIED p False st = Some a" "keeps st a"
      using denied [of st] by auto
    let ?st1 = "emit DSClientOpenAndStartDataCall st"
    obtain b where b: "DS_notifyEventToSubscriber AGPS_EVENT_DENIED p False ?st1 = Some b" "keeps st b"
      using denied [of ?st1] by auto
    let ?st2 = "?st1\<lparr>sm := (sm ?st1)\<lparr>mRetries := mRetries (sm ?st1) + 1\<rparr>\<rparr>"
    obtain c where c: "DS_notifyEventToSubscriber AGPS_EVENT_DENIED p False ?st2 = Some c" "keeps st c"
      using denied [of ?st2] by auto
    show ?thesis
    proof (cases "dsOpenFn env")
      case None
      then show ?thesis using False p p0 a by (auto simp: DS_requestOrReleaseDataConn_def)
    next
      case (Some ret)
      then show ?thesis
        using False p p0 b c by (auto simp: DS_requestOrReleaseDataConn_def Let_def)
    qed
  qed
qed

interpretation ds: agps_class DS_notifyEventToSubscriber "DS_requestOrReleaseDataConn env" DS_msg for env
proof unfold_locales
  show "DS_notifyEventToSubscriber e p True st =
          Option.bind (DS_notifyEventToSubscriber e p False st) (deleteSubscriber p)" for e p st
    by (simp add: DS_notifyEventToSubscriber_def)
qed (simp_all add: DS_notify_runs DS_rr_runs)

end
