(* ===== verification/AgpsSafety.thy ===== *)
theory AgpsSafety
  imports AgpsProofs
begin

text \<open>
  What \<open>AgpsManager\<close> guarantees about its machines and their subscriber objects: who is told
  what, which histories keep the machine invariant, and that no operation leaks a subscriber
  or touches a deleted one, with the one exception that \<open>releaseATL\<close> has.
\<close>

section \<open>Histories of one machine\<close>

text \<open>
  How \<open>AgpsManager\<close> drives a machine: \<open>requestATL\<close> puts an active subscriber on its stack,
  \<open>releaseATL\<close> names one of the list, the reports need none, and a restart of the modem drops all
  subscribers. The flag says that a restart has dropped some. A step that faults ends the history.
\<close>

inductive agps_reach :: "int \<Rightarrow> bool \<Rightarrow> agps_st \<Rightarrow> bool" for ty :: int where
  start: "agps_reach ty False \<lparr>subs = h, sm = new_sm ty, log = l\<rparr>"
| request: "agps_reach ty b st \<Longrightarrow> stackSub env \<noteq> NULL \<Longrightarrow> newSub env \<noteq> NULL \<Longrightarrow>
    stackSub env \<noteq> newSub env \<Longrightarrow> subs st (stackSub env) = None \<Longrightarrow> subs st (newSub env) = None \<Longrightarrow>
    \<not> mIsInactive s \<Longrightarrow>
    base_processAgpsEvent env AGPS_EVENT_SUBSCRIBE
      (st\<lparr>subs := (subs st)(stackSub env \<mapsto> s), sm := (sm st)\<lparr>mCurrentSubscriber := stackSub env\<rparr>\<rparr>)
      = Some st' \<Longrightarrow>
    agps_reach ty b (st'\<lparr>subs := wipe {stackSub env} (subs st')\<rparr>)"
| releaseATL: "agps_reach ty b st \<Longrightarrow> p \<in> set (lst st) \<Longrightarrow> newSub env \<noteq> NULL \<Longrightarrow>
    subs st (newSub env) = None \<Longrightarrow>
    base_processAgpsEvent env AGPS_EVENT_UNSUBSCRIBE
      (st\<lparr>sm := (sm st)\<lparr>mCurrentSubscriber := p\<rparr>\<rparr>) = Some st' \<Longrightarrow>
    agps_reach ty b st'"
| report: "agps_reach ty b st \<Longrightarrow> e \<in> {AGPS_EVENT_GRANTED, AGPS_EVENT_RELEASED, AGPS_EVENT_DENIED} \<Longrightarrow>
    newSub env \<noteq> NULL \<Longrightarrow> subs st (newSub env) = None \<Longrightarrow>
    base_processAgpsEvent env e st = Some st' \<Longrightarrow> agps_reach ty b st'"
| restart: "agps_reach ty b st \<Longrightarrow> dropAllSubscribers st = Some st' \<Longrightarrow> agps_reach ty (b \<or> lst st \<noteq> []) st'"

text \<open>After a restart a machine can be left without subscribers in any state.\<close>

definition abs_inv_or_dropped :: "bool \<Rightarrow> agps_abs \<Rightarrow> bool" where
  "abs_inv_or_dropped b a \<longleftrightarrow> abs_inv a \<or> b \<and> fst a \<noteq> AGPS_STATE_INVALID \<and> snd a = []"

lemma abs_dropped_step:
  assumes "abs_inv_or_dropped b (q, xs)" "\<not> mIsInactive s" "e \<noteq> AGPS_EVENT_UNSUBSCRIBE"
  shows "abs_inv_or_dropped b (abs_step True s e (q, xs))"
proof (cases "abs_inv (q, xs)")
  case True
  then show ?thesis using abs_step_inv [OF True assms(2), of e] assms(3) by (simp add: abs_inv_or_dropped_def)
next
  case False
  then have "b" "q \<noteq> AGPS_STATE_INVALID" "xs = []" using assms(1) by (simp_all add: abs_inv_or_dropped_def)
  then show ?thesis using assms(2,3)
    by (cases e) (auto simp: abs_inv_or_dropped_def abs_inv_def abs_add_def abs_active_def abs_closed_def)
qed

lemma abs_dropped_mem: "abs_inv_or_dropped b (q, xs) \<Longrightarrow> xs \<noteq> [] \<Longrightarrow> abs_inv (q, xs)"
  by (simp add: abs_inv_or_dropped_def)

lemma abs_of_upd [simp]:
  "abs_of (st\<lparr>sm := (sm st)\<lparr>mCurrentSubscriber := p\<rparr>\<rparr>) = abs_of st"
  by (simp add: abs_of_def)

lemma base_event:
  assumes "st_ok st" "newSub env \<noteq> NULL" "subs st (newSub env) = None" "cur_ok e s st"
    "base_processAgpsEvent env e st = Some st'"
  shows "evolves (newSub env) st st' \<and> abs_of st' = abs_step True s e (abs_of st)"
  using base.process_accepts [OF assms(1-4)] assms(5) by (auto simp: base_processAgpsEvent_def)

lemma agps_reach_inv: "agps_reach ty b st \<Longrightarrow> st_ok st \<and> abs_inv_or_dropped b (abs_of st)"
proof (induction rule: agps_reach.induct)
  case (start h l)
  then show ?case by (simp add: new_sm_def abs_of_def abs_inv_def abs_inv_or_dropped_def)
next
  case (request b st env s st')
  let ?st = "st\<lparr>subs := (subs st)(stackSub env \<mapsto> s),
                sm := (sm st)\<lparr>mCurrentSubscriber := stackSub env\<rparr>\<rparr>"
  have notin: "stackSub env \<notin> set (lst st)" using request(5) request.IH by (auto simp: list_ok_def)
  have ok: "st_ok ?st" "objs ?st = objs st" using notin request.IH by simp_all
  have ev: "evolves (newSub env) ?st st'"
      "abs_of st' = abs_step True s AGPS_EVENT_SUBSCRIBE (abs_of ?st)"
    using base_event [OF ok(1) _ _ _ request(8)] request(2-7)
    by (simp_all add: cur_ok_def deref_live)
  have "abs_of ?st = abs_of st" using ok(2) by (simp add: abs_of_def)
  then have "abs_inv_or_dropped b (abs_of st')"
    using abs_dropped_step [of b "mState (sm st)" "objs st" s AGPS_EVENT_SUBSCRIBE] request.IH request(7) ev(2)
    by (simp add: abs_of_def)
  moreover have "stackSub env \<notin> set (lst st')"
    using ev(1) notin request(4) by (auto simp: evolves_def)
  moreover have "st_ok st'" using ev(1) by (simp add: evolves_def)
  ultimately show ?case by (simp add: abs_of_def list_ok_wipe objs_at_wipe)
next
  case (releaseATL b st p env st')
  let ?st = "st\<lparr>sm := (sm st)\<lparr>mCurrentSubscriber := p\<rparr>\<rparr>"
  have ok: "st_ok ?st" using releaseATL.IH by simp
  obtain s where s: "subs st p = Some s" using releaseATL(2) releaseATL.IH by (auto simp: list_ok_def)
  have mem: "s \<in> set (objs st)" using releaseATL(2) s by (force simp: objs_at_def)
  have ai: "abs_inv (abs_of st)"
    using releaseATL.IH mem abs_dropped_mem [of b "mState (sm st)" "objs st"] by (cases "objs st") (auto simp: abs_of_def)
  then have inv: "mState (sm st) \<noteq> AGPS_STATE_INVALID" by (simp add: abs_inv_def abs_of_def)
  have "cur_ok AGPS_EVENT_UNSUBSCRIBE s ?st"
  proof (rule ccontr)
    assume "\<not> cur_ok AGPS_EVENT_UNSUBSCRIBE s ?st"
    then have "processAgpsEventUnsubscribe notifyEventToSubscriber requestOrReleaseDataConn ?st = None"
      using base.unsubscribe_fault [OF ok, of s] releaseATL(2) s inv by (simp add: cur_ok_def)
    then show False using releaseATL(5) by (simp add: base_processAgpsEvent_def processAgpsEvent_def)
  qed
  then have ev: "evolves (newSub env) ?st st'"
      "abs_of st' = abs_step True s AGPS_EVENT_UNSUBSCRIBE (abs_of ?st)"
    using base_event [OF ok _ _ _ releaseATL(5)] releaseATL(3,4) by simp_all
  have active_or_not: "abs_inv (abs_step True s AGPS_EVENT_UNSUBSCRIBE (abs_of st))"
    using abs_step_unsubscribe_inv ai by (simp add: abs_of_def)
  then show ?case using ev by (simp add: evolves_def abs_inv_or_dropped_def)
next
  case (report b st e env st')
  define s :: AgpsSubscriber where "s = \<lparr>mConnHandle = 0, mWaitForCloseComplete = False, mIsInactive = False\<rparr>"
  have "cur_ok e s st" "e \<noteq> AGPS_EVENT_UNSUBSCRIBE" "\<not> mIsInactive s"
    using report(2) by (auto simp: cur_ok_def s_def)
  then show ?case
    using base_event [OF _ report(3,4) _ report(5), of s] report.IH abs_dropped_step [of b "mState (sm st)" "objs st" s e]
    by (auto simp: abs_of_def evolves_def)
next
  case (restart b st st')
  have "abs_inv_or_dropped (b \<or> lst st \<noteq> []) (mState (sm st), [])"
    using restart.IH by (cases "lst st = []") (auto simp: abs_inv_or_dropped_def abs_of_def abs_inv_def)
  moreover have "mState (sm st') = mState (sm st)" "lst st' = []"
    using restart.hyps(2) drop_all_ok [of "subs st" "lst st"] restart.IH by (auto simp: dropAllSubscribers_def)
  ultimately show ?case by (simp add: abs_of_def)
qed

section \<open>The manager's memory\<close>

definition mgr_list :: "AgpsManager \<Rightarrow> nif \<Rightarrow> ptr list" where
  "mgr_list m n = (case nif_of n m of None \<Rightarrow> [] | Some s \<Rightarrow> mSubscriberList s)"

text \<open>
  The live subscriber objects are exactly those in the lists of the machines, each in one
  list, and the callers' own objects \<open>X\<close>.
\<close>

definition mgr_mem :: "ptr set \<Rightarrow> AgpsManager \<Rightarrow> bool" where
  "mgr_mem X m \<longleftrightarrow> (\<forall>n. list_ok (mSubs m) (mgr_list m n)) \<and>
     (\<forall>n k. n \<noteq> k \<longrightarrow> set (mgr_list m n) \<inter> set (mgr_list m k) = {}) \<and>
     (\<forall>n. X \<inter> set (mgr_list m n) = {}) \<and>
     (\<forall>p. mSubs m p \<noteq> None \<longleftrightarrow> p \<in> X \<or> (\<exists>n. p \<in> set (mgr_list m n)))"

definition nif_st :: "AgpsStateMachine \<Rightarrow> AgpsManager \<Rightarrow> agps_st" where
  "nif_st s m = \<lparr>subs = mSubs m, sm = s, log = mLog m\<rparr>"

definition nif_put :: "nif \<Rightarrow> agps_st \<Rightarrow> AgpsManager \<Rightarrow> AgpsManager" where
  "nif_put n st m = (set_nif n (sm st) m)\<lparr>mSubs := subs st, mLog := log st\<rparr>"

lemma nif_of_set [simp]: "nif_of k (set_nif n s m) = (if k = n then Some s else nif_of k m)"
  by (cases k; cases n) auto

lemma nif_of_upd [simp]:
  "nif_of k (m\<lparr>mSubs := h\<rparr>) = nif_of k m" "nif_of k (m\<lparr>mLog := l\<rparr>) = nif_of k m"
  by (cases k; simp)+

lemma set_nif_simps [simp]:
  "mSubs (set_nif n s m) = mSubs m" "mLog (set_nif n s m) = mLog m"
  by (cases n; simp)+

lemma mgr_list_simps [simp]:
  "mgr_list (m\<lparr>mSubs := h\<rparr>) k = mgr_list m k" "mgr_list (m\<lparr>mLog := l\<rparr>) k = mgr_list m k"
  "mgr_list (set_nif n s m) k = (if k = n then mSubscriberList s else mgr_list m k)"
  by (auto simp: mgr_list_def)

lemma mgr_mem_say [simp]: "mgr_mem X (say e m) = mgr_mem X m"
  by (simp add: mgr_mem_def say_def)

lemma mgr_mem_cong: "mSubs m' = mSubs m \<Longrightarrow> mgr_list m' = mgr_list m \<Longrightarrow> mgr_mem X m' = mgr_mem X m"
  by (simp add: mgr_mem_def)

lemma mgr_mem_set:
  "mgr_mem X m \<Longrightarrow> nif_of n m = Some s \<Longrightarrow> mSubscriberList s' = mSubscriberList s \<Longrightarrow>
     mgr_mem X (set_nif n s' m)"
  by (subst mgr_mem_cong [of _ m]) (auto simp: mgr_list_def fun_eq_iff)

lemma mgr_mem_ok: "mgr_mem X m \<Longrightarrow> nif_of n m = Some s \<Longrightarrow> list_ok (mSubs m) (mSubscriberList s)"
  unfolding mgr_mem_def mgr_list_def by (metis option.simps(5))

lemma nif_put_simps [simp]:
  "mSubs (nif_put n st m) = subs st" "mLog (nif_put n st m) = log st"
  "nif_of k (nif_put n st m) = (if k = n then Some (sm st) else nif_of k m)"
  "mgr_list (nif_put n st m) k = (if k = n then lst st else mgr_list m k)"
  by (simp_all add: nif_put_def)

lemma nif_put_mem:
  assumes m: "mgr_mem X m" and n: "nif_of n m = Some s" and new: "mSubs m a = None"
    and ev: "evolves a (nif_st s m) st"
  shows "mgr_mem X (nif_put n st m)"
proof -
  have ln: "mgr_list m n = mSubscriberList s" using n by (simp add: mgr_list_def)
  have e: "st_ok st" "set (lst st) \<subseteq> insert a (set (mgr_list m n))"
      "\<And>p. p \<notin> insert a (set (mgr_list m n)) \<Longrightarrow> subs st p = mSubs m p"
      "\<And>p. p \<in> insert a (set (mgr_list m n)) \<Longrightarrow> p \<notin> set (lst st) \<Longrightarrow> subs st p = None"
    using ev ln by (auto simp: evolves_def nif_st_def)
  have dead: "a \<notin> set (mgr_list m k)" "a \<notin> X" for k
    using m new unfolding mgr_mem_def by blast+
  have disj: "k \<noteq> n \<Longrightarrow> set (mgr_list m k) \<inter> set (mgr_list m n) = {}" for k
    using m unfolding mgr_mem_def by blast
  have X: "X \<inter> set (mgr_list m k) = {}" for k using m unfolding mgr_mem_def by blast
  have other: "list_ok (subs st) (mgr_list m k)" if k: "k \<noteq> n" for k
  proof -
    have "list_ok (subs st) (mgr_list m k) = list_ok (mSubs m) (mgr_list m k)"
      using disj [OF k] dead(1) [of k] by (intro list_ok_cong e(3)) auto
    then show ?thesis using m unfolding mgr_mem_def by blast
  qed
  have off: "set (mgr_list m k) \<inter> set (lst st) = {}" if k: "k \<noteq> n" for k
    using disj [OF k] dead(1) [of k] e(2) by blast
  have live: "subs st p \<noteq> None \<longleftrightarrow> p \<in> X \<or> p \<in> set (lst st) \<or> (\<exists>k. k \<noteq> n \<and> p \<in> set (mgr_list m k))"
    (is "?l \<longleftrightarrow> ?r") for p
  proof (cases "p \<in> insert a (set (mgr_list m n))")
    case True
    then have "p \<notin> X" "\<not> (\<exists>k. k \<noteq> n \<and> p \<in> set (mgr_list m k))"
      using X [of n] dead disj by blast+
    moreover have "p \<in> set (lst st) \<Longrightarrow> subs st p \<noteq> None" using e(1) by (auto simp: list_ok_def)
    ultimately show ?thesis using e(4) [OF True] by (cases "p \<in> set (lst st)") simp_all
  next
    case False
    then have "p \<notin> set (lst st)" using e(2) by blast
    moreover have "mSubs m p \<noteq> None \<longleftrightarrow> p \<in> X \<or> (\<exists>k. p \<in> set (mgr_list m k))"
      using m unfolding mgr_mem_def by blast
    moreover have "(\<exists>k. p \<in> set (mgr_list m k)) \<longleftrightarrow> (\<exists>k. k \<noteq> n \<and> p \<in> set (mgr_list m k))"
      using False by auto
    ultimately show ?thesis using e(3) [OF False] by simp
  qed
  show ?thesis
    unfolding mgr_mem_def nif_put_simps
  proof (intro conjI allI impI)
    fix k show "list_ok (subs st) (if k = n then lst st else mgr_list m k)" using e(1) other by simp
  next
    fix i k :: nif assume "i \<noteq> k"
    then show "set (if i = n then lst st else mgr_list m i) \<inter> set (if k = n then lst st else mgr_list m k) = {}"
      using off [of i] off [of k] m unfolding mgr_mem_def by (cases "i = n"; cases "k = n") auto
  next
    fix k show "X \<inter> set (if k = n then lst st else mgr_list m k) = {}"
      using X [of k] X [of n] dead(2) e(2) by auto
  next
    fix p show "(subs st p \<noteq> None) = (p \<in> X \<or> (\<exists>k. p \<in> set (if k = n then lst st else mgr_list m k)))"
      unfolding live by (metis (full_types))
  qed
qed

text \<open>One event of one machine of the manager.\<close>

definition nif_event :: "agps_env \<Rightarrow> AgpsEvent \<Rightarrow> nif \<Rightarrow> agps_st \<Rightarrow> agps_st option" where
  "nif_event env e n = (if n = DsNif then DS_processAgpsEvent else base_processAgpsEvent) env e"

lemma nif_event_ok:
  assumes "st_ok st" "newSub env \<noteq> NULL" "subs st (newSub env) = None" "cur_ok e s st"
  shows "\<exists>st'. nif_event env e n st = Some st' \<and> evolves (newSub env) st st'"
proof (cases "n = DsNif")
  case True
  let ?e = "if e = AGPS_EVENT_RELEASED \<and> mState (sm st) = AGPS_STATE_PENDING then AGPS_EVENT_DENIED else e"
  have "cur_ok ?e s st" using assms(4) by (simp add: cur_ok_def)
  from ds.process_refines [OF assms(1-3) this] obtain st' where
    "processAgpsEvent DS_notifyEventToSubscriber (DS_requestOrReleaseDataConn env) env ?e st = Some st'"
    "evolves (newSub env) st st'" by blast
  then show ?thesis using True by (simp add: nif_event_def DS_processAgpsEvent_def Let_def)
next
  case False
  then show ?thesis
    using base.process_refines [OF assms] by (auto simp: nif_event_def base_processAgpsEvent_def)
qed

lemma nif_process_eq:
  "nif_process env e n m = (case nif_of n m of None \<Rightarrow> None
     | Some s \<Rightarrow> (case nif_event env e n (nif_st s m) of None \<Rightarrow> None | Some st \<Rightarrow> Some (nif_put n st m)))"
  by (simp add: nif_process_def on_nif_def nif_event_def nif_st_def nif_put_def
        split: option.split)

lemma nif_process_ok:
  assumes "mgr_mem X m" "nif_of n m = Some s" "newSub env \<noteq> NULL" "mSubs m (newSub env) = None"
    "cur_ok e c (nif_st s m)"
  shows "\<exists>m'. nif_process env e n m = Some m' \<and> mgr_mem X m'"
proof -
  have "st_ok (nif_st s m)" using mgr_mem_ok [OF assms(1,2)] by (simp add: nif_st_def)
  then obtain st where st: "nif_event env e n (nif_st s m) = Some st" "evolves (newSub env) (nif_st s m) st"
    using nif_event_ok [of "nif_st s m" env e c n] assms(3-5) by (auto simp: nif_st_def)
  then show ?thesis
    using nif_put_mem [OF assms(1,2,4) st(2)] assms(2) by (simp add: nif_process_eq)
qed

section \<open>Every operation of the manager\<close>

datatype agps_op =
    CreateAgps agps_env
  | RequestATL agps_env int int
  | ReleaseATL agps_env int
  | DataCallOpened agps_env
  | DataCallClosed agps_env
  | AtlOpenSuccess agps_env int "string option" nat int
  | AtlOpenFailed agps_env int
  | AtlClosed agps_env int
  | ModemSSR agps_env

fun op_env :: "agps_op \<Rightarrow> agps_env" where
  "op_env (CreateAgps env) = env"
| "op_env (RequestATL env c ty) = env"
| "op_env (ReleaseATL env c) = env"
| "op_env (DataCallOpened env) = env"
| "op_env (DataCallClosed env) = env"
| "op_env (AtlOpenSuccess env ty apn len b) = env"
| "op_env (AtlOpenFailed env ty) = env"
| "op_env (AtlClosed env ty) = env"
| "op_env (ModemSSR env) = env"

fun run_agps_op :: "agps_conf \<Rightarrow> agps_op \<Rightarrow> AgpsManager \<Rightarrow> AgpsManager option" where
  "run_agps_op conf (CreateAgps env) m = Some (createAgpsStateMachines conf env m)"
| "run_agps_op conf (RequestATL env c ty) m = requestATL conf env c ty m"
| "run_agps_op conf (ReleaseATL env c) m = releaseATL env c m"
| "run_agps_op conf (DataCallOpened env) m = reportDataCallOpened env m"
| "run_agps_op conf (DataCallClosed env) m = reportDataCallClosed env m"
| "run_agps_op conf (AtlOpenSuccess env ty apn len b) m = reportAtlOpenSuccess conf env ty apn len b m"
| "run_agps_op conf (AtlOpenFailed env ty) m = reportAtlOpenFailed conf env ty m"
| "run_agps_op conf (AtlClosed env ty) m = reportAtlClosed conf env ty m"
| "run_agps_op conf (ModemSSR env) m = handleModemSSR conf env m"

text \<open>What the allocator and the stack promise.\<close>

definition fresh_env :: "agps_env \<Rightarrow> AgpsManager \<Rightarrow> bool" where
  "fresh_env env m \<longleftrightarrow> newSub env \<noteq> NULL \<and> stackSub env \<noteq> NULL \<and> newSub env \<noteq> stackSub env \<and>
     mSubs m (newSub env) = None \<and> mSubs m (stackSub env) = None"

lemma create_list: "mgr_list (createAgpsStateMachines conf env m) = mgr_list m"
proof
  fix n
  show "mgr_list (createAgpsStateMachines conf env m) n = mgr_list m n"
    by (cases n) (simp_all add: createAgpsStateMachines_def mgr_list_def new_sm_def say_def Let_def
        split: option.split)
qed

lemma create_subs: "mSubs (createAgpsStateMachines conf env m) = mSubs m"
  by (simp add: createAgpsStateMachines_def say_def Let_def split: option.split)

lemma create_mem [simp]: "mgr_mem X (createAgpsStateMachines conf env m) = mgr_mem X m"
  by (rule mgr_mem_cong) (simp_all add: create_list create_subs)

lemma getAgps_cases: "snd (getAgpsStateMachine conf env ty m) \<in> {m, createAgpsStateMachines conf env m}"
  by (simp add: getAgpsStateMachine_def)

lemma getAgps_mem:
  assumes "getAgpsStateMachine conf env ty m = (n, m1)"
  shows "mgr_mem X m1 = mgr_mem X m" "mSubs m1 = mSubs m" "mgr_list m1 = mgr_list m"
  using getAgps_cases [of conf env ty m] assms by (auto simp: create_subs create_list)

lemma nif_process_mem:
  assumes "mgr_mem X m" "newSub env \<noteq> NULL" "mSubs m (newSub env) = None"
    and c: "\<And>s. nif_of n m = Some s \<Longrightarrow> cur_ok e c (nif_st s m)"
    and run: "nif_process env e n m = Some m'"
  shows "mgr_mem X m'"
proof -
  obtain s where s: "nif_of n m = Some s" using run by (auto simp: nif_process_eq split: option.splits)
  show ?thesis using nif_process_ok [OF assms(1) s assms(2,3) c [OF s]] run by auto
qed

lemma cur_ok_report [simp]:
  "cur_ok AGPS_EVENT_GRANTED c st" "cur_ok AGPS_EVENT_RELEASED c st" "cur_ok AGPS_EVENT_DENIED c st"
  by (simp_all add: cur_ok_def)

lemma requestATL_ok:
  assumes m: "mgr_mem {} m" and f: "fresh_env env m"
  shows "\<exists>m'. requestATL conf env c ty m = Some m' \<and> mgr_mem {} m'"
proof -
  obtain n m1 where g: "getAgpsStateMachine conf env ty m = (n, m1)" by fastforce
  have m1: "mgr_mem {} m1" "mSubs m1 = mSubs m" "mgr_list m1 = mgr_list m"
    using getAgps_mem [OF g] m by simp_all
  show ?thesis
  proof (cases "nif_of n m1")
    case None
    then show ?thesis using g m1 by (simp add: requestATL_def)
  next
    case (Some s)
    let ?a = "stackSub env"
    define sb :: AgpsSubscriber where
      "sb = \<lparr>mConnHandle = c, mWaitForCloseComplete = (ty = LOC_AGPS_TYPE_SUPL_ES), mIsInactive = False\<rparr>"
    define m2 where "m2 = (set_nif n (s\<lparr>mCurrentSubscriber := ?a\<rparr>) m1)\<lparr>mSubs := (mSubs m1)(?a \<mapsto> sb)\<rparr>"
    have req: "requestATL conf env c ty m =
        (case nif_process env AGPS_EVENT_SUBSCRIBE n m2 of None \<Rightarrow> None
         | Some m3 \<Rightarrow> Some (m3\<lparr>mSubs := (mSubs m3)(?a := None)\<rparr>))"
      using g Some by (simp add: requestATL_def m2_def sb_def Let_def split: option.split)
    have dead: "?a \<notin> set (mgr_list m k)" for k
      using m f unfolding mgr_mem_def fresh_env_def by blast
    have "mgr_list m1 n = mSubscriberList s" using Some by (simp add: mgr_list_def)
    then have l2: "mgr_list m2 = mgr_list m"
      using m1(3) by (auto simp: m2_def fun_eq_iff)
    have "mgr_mem {?a} m2"
      unfolding mgr_mem_def l2
    proof (intro conjI allI impI)
      fix k show "list_ok (mSubs m2) (mgr_list m k)"
        using dead m m1(2) by (simp add: m2_def mgr_mem_def)
    next
      fix k show "{?a} \<inter> set (mgr_list m k) = {}" using dead by simp
    next
      fix i k :: nif assume "i \<noteq> k"
      then show "set (mgr_list m i) \<inter> set (mgr_list m k) = {}" using m by (simp add: mgr_mem_def)
    next
      fix p show "(mSubs m2 p \<noteq> None) = (p \<in> {?a} \<or> (\<exists>k. p \<in> set (mgr_list m k)))"
        using m m1(2) by (auto simp: m2_def mgr_mem_def)
    qed
    moreover have n2: "nif_of n m2 = Some (s\<lparr>mCurrentSubscriber := ?a\<rparr>)" by (simp add: m2_def)
    moreover have "mSubs m2 (newSub env) = None" using f m1(2) by (simp add: m2_def fresh_env_def)
    moreover have "cur_ok AGPS_EVENT_SUBSCRIBE sb (nif_st (s\<lparr>mCurrentSubscriber := ?a\<rparr>) m2)"
      using f by (simp add: cur_ok_def nif_st_def m2_def deref_live fresh_env_def)
    moreover have "newSub env \<noteq> NULL" using f by (simp add: fresh_env_def)
    ultimately obtain m3 where m3: "nif_process env AGPS_EVENT_SUBSCRIBE n m2 = Some m3" "mgr_mem {?a} m3"
      using nif_process_ok by blast
    have dead3: "?a \<notin> set (mgr_list m3 k)" for k using m3(2) unfolding mgr_mem_def by blast
    have "mgr_mem {} (m3\<lparr>mSubs := wipe {?a} (mSubs m3)\<rparr>)"
      using m3(2) dead3 unfolding mgr_mem_def by (auto simp: list_ok_wipe wipe_apply)
    then show ?thesis using req m3(1) by (simp add: wipe_upd(1))
  qed
qed

lemma mgr_mem_list: "mgr_mem X m \<Longrightarrow> list_ok (mSubs m) (mgr_list m n)"
  by (simp add: mgr_mem_def)

lemma mgr_mem_dom: "mgr_mem {} m \<Longrightarrow> dom (mSubs m) = (\<Union>n. set (mgr_list m n))"
  unfolding mgr_mem_def by blast

lemma find_in_nif_absent:
  assumes "mgr_mem X m" "c \<notin> mConnHandle ` set (objs_at (mSubs m) (mgr_list m n))"
  shows "find_in_nif c n m = Some NULL"
  using find_handle_absent [of "mSubs m" "mgr_list m n" c] mgr_mem_list [OF assms(1), of n] assms(2)
  by (cases "nif_of n m") (simp_all add: find_in_nif_def getSubscriber_def mgr_list_def)

lemma find_in_nif_present:
  assumes "mgr_mem X m" "p \<in> set (mgr_list m n)" "mSubs m p = Some t"
  shows "find_in_nif (mConnHandle t) n m = Some p"
  using find_handle_present [of "mSubs m" "mgr_list m n" p t] mgr_mem_list [OF assms(1), of n] assms(2,3)
  by (cases "nif_of n m") (simp_all add: find_in_nif_def getSubscriber_def mgr_list_def)

text \<open>The machines \<open>releaseATL\<close> searches before \<open>n\<close>.\<close>

fun searched_before :: "nif \<Rightarrow> nif list" where
  "searched_before AgnssNif = []"
| "searched_before InternetNif = [AgnssNif]"
| "searched_before DsNif = [AgnssNif, InternetNif]"

definition holds_handle :: "AgpsManager \<Rightarrow> int \<Rightarrow> nif \<Rightarrow> bool" where
  "holds_handle m c n \<longleftrightarrow> c \<in> mConnHandle ` set (objs_at (mSubs m) (mgr_list m n))"

lemma releaseATL_found:
  assumes m: "mgr_mem {} m" and p: "p \<in> set (mgr_list m n)" "mSubs m p = Some t"
    and before: "\<forall>k \<in> set (searched_before n). \<not> holds_handle m (mConnHandle t) k"
  shows "releaseATL env (mConnHandle t) m = (case nif_of n m of None \<Rightarrow> None
     | Some s \<Rightarrow> nif_process env AGPS_EVENT_UNSUBSCRIBE n (set_nif n (s\<lparr>mCurrentSubscriber := p\<rparr>) m))"
proof -
  have "p \<noteq> NULL" using m p(1) unfolding mgr_mem_def list_ok_def by blast
  then show ?thesis
    using find_in_nif_present [OF m p] before find_in_nif_absent [OF m, of "mConnHandle t"]
    by (cases n) (simp_all add: releaseATL_def holds_handle_def split: option.split)
qed

lemma releaseATL_not_found:
  assumes m: "mgr_mem {} m" and none: "\<forall>n. \<not> holds_handle m c n"
  shows "releaseATL env c m = Some (say (AtlCloseStatus c 0) m)"
  using find_in_nif_absent [OF m, of c] none by (simp add: releaseATL_def holds_handle_def)

lemma holds_first:
  assumes "holds_handle m c k"
  shows "\<exists>n. holds_handle m c n \<and> (\<forall>i \<in> set (searched_before n). \<not> holds_handle m c i)"
proof (cases "holds_handle m c AgnssNif")
  case True
  then show ?thesis by (intro exI [of _ AgnssNif]) simp
next
  case False
  note a = this
  show ?thesis
  proof (cases "holds_handle m c InternetNif")
    case True
    then show ?thesis using a by (intro exI [of _ InternetNif]) simp
  next
    case False
    then show ?thesis using a assms by (cases k) (auto intro!: exI [of _ DsNif])
  qed
qed

lemma releaseATL_mem:
  assumes m: "mgr_mem {} m" and f: "fresh_env env m" and run: "releaseATL env c m = Some m'"
  shows "mgr_mem {} m'"
proof (cases "\<exists>n. holds_handle m c n")
  case False
  then show ?thesis using releaseATL_not_found [OF m, of c env] run m by simp
next
  case True
  then obtain n where n: "holds_handle m c n" "\<forall>i \<in> set (searched_before n). \<not> holds_handle m c i"
    using holds_first by blast
  then obtain p where p: "p \<in> set (mgr_list m n)" "mConnHandle (the (mSubs m p)) = c"
    by (auto simp: holds_handle_def objs_at_def)
  then obtain t where t: "mSubs m p = Some t" using mgr_mem_list [OF m, of n] by (auto simp: list_ok_def)
  obtain s where s: "nif_of n m = Some s" using p(1) by (cases "nif_of n m") (auto simp: mgr_list_def)
  let ?s = "s\<lparr>mCurrentSubscriber := p\<rparr>"
  let ?m = "set_nif n ?s m"
  have run2: "nif_process env AGPS_EVENT_UNSUBSCRIBE n ?m = Some m'"
    using releaseATL_found [OF m p(1) t, of env] n(2) p(2) t s run by simp
  have ln: "mSubscriberList s = mgr_list m n" using s by (simp add: mgr_list_def)
  have ok: "st_ok (nif_st ?s ?m)" using mgr_mem_ok [OF m s] by (simp add: nif_st_def)
  have m1: "mgr_mem {} ?m" by (rule mgr_mem_set [OF m s]) simp
  show ?thesis
  proof (cases "mState s = AGPS_STATE_INVALID")
    case True
    then have "nif_event env AGPS_EVENT_UNSUBSCRIBE n (nif_st ?s ?m) = Some (nif_st ?s ?m)"
      by (simp add: nif_event_def nif_st_def DS_processAgpsEvent_def base_processAgpsEvent_def
          processAgpsEvent_def processAgpsEventUnsubscribe_def)
    then have "m' = nif_put n (nif_st ?s ?m) ?m" using run2 by (simp add: nif_process_eq)
    moreover have "evolves (newSub env) (nif_st ?s ?m) (nif_st ?s ?m)"
      using evolves_refl [OF ok] f by (simp add: nif_st_def fresh_env_def)
    ultimately show ?thesis
      using nif_put_mem [OF m1, of n ?s "newSub env"] f by (simp add: fresh_env_def)
  next
    case valid: False
    have "cur_ok AGPS_EVENT_UNSUBSCRIBE t (nif_st ?s ?m)"
    proof (rule ccontr)
      assume "\<not> ?thesis"
      then have "\<not> mWaitForCloseComplete t" "p \<noteq> last (mSubscriberList s)" "mState s \<noteq> AGPS_STATE_RELEASED"
        using p(1) t ln by (auto simp: cur_ok_def nif_st_def)
      then have "nif_event env AGPS_EVENT_UNSUBSCRIBE n (nif_st ?s ?m) = None"
        using base.unsubscribe_fault [OF ok, of t] ds.unsubscribe_fault [OF ok, of t] p(1) t ln valid
        by (simp add: nif_event_def nif_st_def DS_processAgpsEvent_def base_processAgpsEvent_def
            processAgpsEvent_def)
      then show False using run2 by (simp add: nif_process_eq)
    qed
    then show ?thesis
      using nif_process_mem [OF m1 _ _ _ run2, of t] f by (simp add: fresh_env_def)
  qed
qed

lemma drop_nif_mem:
  assumes "mgr_mem {} m"
  shows "\<exists>m'. drop_nif n m = Some m' \<and> mgr_mem {} m' \<and> mgr_list m' = (mgr_list m)(n := []) \<and> mLog m' = mLog m"
proof (cases "nif_of n m")
  case None
  then show ?thesis using assms by (auto simp: drop_nif_def mgr_list_def fun_eq_iff)
next
  case (Some s)
  let ?h = "wipe (set (mSubscriberList s)) (mSubs m)"
  let ?st = "\<lparr>subs = ?h, sm = s\<lparr>mSubscriberList := []\<rparr>, log = mLog m\<rparr>"
  have ok: "list_ok (mSubs m) (mSubscriberList s)" by (rule mgr_mem_ok [OF assms Some])
  have run: "drop_nif n m = Some (nif_put n ?st m)"
    using Some drop_all_ok [OF ok]
    by (simp add: drop_nif_def on_nif_def dropAllSubscribers_def nif_put_def)
  have nil: "NULL \<notin> set (mgr_list m k)" for k using mgr_mem_list [OF assms] by (auto simp: list_ok_def)
  show ?thesis
  proof (cases "mSubs m NULL")
    case None
    have "evolves NULL (nif_st s m) ?st"
      using ok None by (auto simp: evolves_def nif_st_def wipe_apply)
    then show ?thesis
      using run nif_put_mem [OF assms Some None, of ?st] by (auto simp: fun_eq_iff)
  next
    case (Some x)
    then show ?thesis using assms nil unfolding mgr_mem_def by blast
  qed
qed

theorem agps_ops_mem:
  assumes m: "mgr_mem {} m" and f: "fresh_env (op_env op) m" and run: "run_agps_op conf op m = Some m'"
  shows "mgr_mem {} m'"
proof (cases op)
  case (CreateAgps env)
  then show ?thesis using m run by auto
next
  case (RequestATL env c ty)
  then show ?thesis using requestATL_ok [OF m, of env conf c ty] f run by auto
next
  case (ReleaseATL env c)
  then show ?thesis using releaseATL_mem [OF m, of env c m'] f run by simp
next
  case (DataCallOpened env)
  then show ?thesis
    using nif_process_mem [OF m, of env DsNif AGPS_EVENT_GRANTED _ m'] f run m
    by (simp add: reportDataCallOpened_def fresh_env_def split: if_splits)
next
  case (DataCallClosed env)
  then show ?thesis
    using nif_process_mem [OF m, of env DsNif AGPS_EVENT_RELEASED _ m'] f run m
    by (simp add: reportDataCallClosed_def fresh_env_def split: if_splits)
next
  case (AtlOpenSuccess env ty apn len b)
  obtain n m1 where g: "getAgpsStateMachine conf env ty m = (n, m1)" by fastforce
  note g1 = getAgps_mem [OF g]
  obtain s s' where s: "nif_of n m1 = Some s" "setAPN apn len (s\<lparr>mBearer := b\<rparr>) = Some s'"
      "nif_process env AGPS_EVENT_GRANTED n (set_nif n s' m1) = Some m'"
    using run AtlOpenSuccess g
    by (auto simp: reportAtlOpenSuccess_def bind_eq_Some_conv)
  have "mSubscriberList s' = mSubscriberList s"
    using s(2) by (auto simp: setAPN_def Let_def split: option.splits if_splits)
  then have "mgr_mem {} (set_nif n s' m1)" using mgr_mem_set [OF _ s(1)] g1 m by blast
  then show ?thesis
    using nif_process_mem [OF _ _ _ _ s(3)] f AtlOpenSuccess g1 by (simp add: fresh_env_def)
next
  case (AtlOpenFailed env ty)
  obtain n m1 where g: "getAgpsStateMachine conf env ty m = (n, m1)" by fastforce
  note g1 = getAgps_mem [OF g]
  have r: "nif_process env AGPS_EVENT_DENIED n m1 = Some m'"
    using run AtlOpenFailed g by (simp add: reportAtlOpenFailed_def)
  show ?thesis
    using nif_process_mem [OF _ _ _ _ r] f AtlOpenFailed g1 m by (simp add: fresh_env_def)
next
  case (AtlClosed env ty)
  obtain n m1 where g: "getAgpsStateMachine conf env ty m = (n, m1)" by fastforce
  note g1 = getAgps_mem [OF g]
  have r: "nif_process env AGPS_EVENT_RELEASED n m1 = Some m'"
    using run AtlClosed g by (simp add: reportAtlClosed_def)
  show ?thesis
    using nif_process_mem [OF _ _ _ _ r] f AtlClosed g1 m by (simp add: fresh_env_def)
next
  case (ModemSSR env)
  obtain m1 where m1: "drop_nif AgnssNif m = Some m1" "mgr_mem {} m1" using drop_nif_mem [OF m] by blast
  obtain m2 where m2: "drop_nif InternetNif m1 = Some m2" "mgr_mem {} m2" using drop_nif_mem [OF m1(2)] by blast
  obtain m3 where m3: "drop_nif DsNif m2 = Some m3" "mgr_mem {} m3" using drop_nif_mem [OF m2(2)] by blast
  show ?thesis
    using run ModemSSR m1(1) m2(1) m3 by (auto simp: handleModemSSR_def split: if_splits)
qed

inductive mgr_reach :: "agps_conf \<Rightarrow> AgpsManager \<Rightarrow> bool" for conf :: agps_conf where
  init: "mgr_reach conf \<lparr>mAgnssNif = None, mInternetNif = None, mDsNif = None, mSubs = Map.empty, mLog = []\<rparr>"
| oper: "mgr_reach conf m \<Longrightarrow> fresh_env (op_env op) m \<Longrightarrow> run_agps_op conf op m = Some m' \<Longrightarrow> mgr_reach conf m'"

lemma mgr_reach_mem: "mgr_reach conf m \<Longrightarrow> mgr_mem {} m"
proof (induction rule: mgr_reach.induct)
  case init
  have "mgr_list \<lparr>mAgnssNif = None, mInternetNif = None, mDsNif = None, mSubs = Map.empty, mLog = []\<rparr> n = []" for n
    by (cases n) (simp_all add: mgr_list_def)
  then show ?case by (simp add: mgr_mem_def)
next
  case (oper m op m')
  then show ?case using agps_ops_mem by blast
qed

lemma releaseATL_fault_iff:
  assumes m: "mgr_mem {} m" and f: "fresh_env env m" and s: "nif_of n m = Some s"
    and p: "p \<in> set (mSubscriberList s)" "mSubs m p = Some t"
    and before: "\<forall>k \<in> set (searched_before n). \<not> holds_handle m (mConnHandle t) k"
    and valid: "mState s \<noteq> AGPS_STATE_INVALID"
  shows "releaseATL env (mConnHandle t) m = None \<longleftrightarrow>
    \<not> mWaitForCloseComplete t \<and> p \<noteq> last (mSubscriberList s) \<and> mState s \<noteq> AGPS_STATE_RELEASED"
proof -
  let ?s = "s\<lparr>mCurrentSubscriber := p\<rparr>"
  let ?m = "set_nif n ?s m"
  have pl: "p \<in> set (mgr_list m n)" using p(1) s by (simp add: mgr_list_def)
  have ok: "st_ok (nif_st ?s ?m)" using mgr_mem_ok [OF m s] by (simp add: nif_st_def)
  have m1: "mgr_mem {} ?m" by (rule mgr_mem_set [OF m s]) simp
  have eq: "releaseATL env (mConnHandle t) m = nif_process env AGPS_EVENT_UNSUBSCRIBE n ?m"
    using releaseATL_found [OF m pl p(2) before] s by simp
  show ?thesis
  proof (cases "\<not> mWaitForCloseComplete t \<and> p \<noteq> last (mSubscriberList s) \<and> mState s \<noteq> AGPS_STATE_RELEASED")
    case True
    then have "nif_event env AGPS_EVENT_UNSUBSCRIBE n (nif_st ?s ?m) = None"
      using base.unsubscribe_fault [OF ok, of t] ds.unsubscribe_fault [OF ok, of t] p valid
      by (simp add: nif_event_def nif_st_def DS_processAgpsEvent_def base_processAgpsEvent_def
          processAgpsEvent_def)
    then show ?thesis using True eq by (simp add: nif_process_eq)
  next
    case False
    then have "cur_ok AGPS_EVENT_UNSUBSCRIBE t (nif_st ?s ?m)"
      using p by (auto simp: cur_ok_def nif_st_def)
    then have "nif_process env AGPS_EVENT_UNSUBSCRIBE n ?m \<noteq> None"
      using nif_process_ok [OF m1, of n ?s env AGPS_EVENT_UNSUBSCRIBE t] f by (auto simp: fresh_env_def)
    then show ?thesis using False eq by argo
  qed
qed

section \<open>Which operations fault\<close>

text \<open>
  \<open>releaseATL\<close> reads the subscriber it has just deleted; a report without its machine goes through
  a null pointer, and an APN longer than what was given is read past its end; a restart calls the
  data-service functions, which may not be registered.
\<close>

definition release_faults :: "int \<Rightarrow> AgpsManager \<Rightarrow> bool" where
  "release_faults c m \<longleftrightarrow> (\<exists>n s p t. nif_of n m = Some s \<and> p \<in> set (mSubscriberList s) \<and> mSubs m p = Some t \<and>
     mConnHandle t = c \<and> (\<forall>k \<in> set (searched_before n). \<not> holds_handle m c k) \<and>
     \<not> mWaitForCloseComplete t \<and> p \<noteq> last (mSubscriberList s) \<and> mState s \<notin> {AGPS_STATE_RELEASED, AGPS_STATE_INVALID})"

definition no_machine :: "agps_conf \<Rightarrow> agps_env \<Rightarrow> int \<Rightarrow> AgpsManager \<Rightarrow> bool" where
  "no_machine conf env ty m \<longleftrightarrow> (case getAgpsStateMachine conf env ty m of (n, m1) \<Rightarrow> nif_of n m1 = None)"

fun mgr_faults :: "agps_conf \<Rightarrow> agps_op \<Rightarrow> AgpsManager \<Rightarrow> bool" where
  "mgr_faults conf (ReleaseATL env c) m \<longleftrightarrow> release_faults c m"
| "mgr_faults conf (AtlOpenSuccess env ty apn len b) m \<longleftrightarrow>
     no_machine conf env ty m \<or> (\<exists>a. apn = Some a \<and> length a < len)"
| "mgr_faults conf (AtlOpenFailed env ty) m \<longleftrightarrow> no_machine conf env ty m"
| "mgr_faults conf (AtlClosed env ty) m \<longleftrightarrow> no_machine conf env ty m"
| "mgr_faults conf (ModemSSR env) m \<longleftrightarrow> USE_EMERGENCY_PDN conf \<and> \<not> (dsStopFn env \<and> dsInitFn env \<noteq> None)"
| "mgr_faults conf op m \<longleftrightarrow> False"

text \<open>The subscriber that has the handle in the first list that has one.\<close>

lemma holds_subscriber:
  assumes m: "mgr_mem {} m" and n: "holds_handle m c n"
  obtains p t s where "nif_of n m = Some s" "p \<in> set (mSubscriberList s)" "mSubs m p = Some t" "mConnHandle t = c"
proof -
  obtain p where p: "p \<in> set (mgr_list m n)" "mConnHandle (the (mSubs m p)) = c"
    using n by (auto simp: holds_handle_def objs_at_def)
  then obtain t where t: "mSubs m p = Some t" using mgr_mem_list [OF m, of n] by (auto simp: list_ok_def)
  obtain s where s: "nif_of n m = Some s" using p(1) by (cases "nif_of n m") (auto simp: mgr_list_def)
  show ?thesis using that [OF s _ t] p s t by (simp add: mgr_list_def)
qed

lemma subscriber_holds:
  "nif_of n m = Some s \<Longrightarrow> p \<in> set (mSubscriberList s) \<Longrightarrow> mSubs m p = Some t \<Longrightarrow> holds_handle m (mConnHandle t) n"
  by (force simp: holds_handle_def mgr_list_def objs_at_def)

lemma releaseATL_invalid:
  assumes m: "mgr_mem {} m" and s: "nif_of n m = Some s" and p: "p \<in> set (mSubscriberList s)" "mSubs m p = Some t"
    and before: "\<forall>k \<in> set (searched_before n). \<not> holds_handle m (mConnHandle t) k"
    and q: "mState s = AGPS_STATE_INVALID"
  shows "releaseATL env (mConnHandle t) m \<noteq> None"
proof -
  have "p \<in> set (mgr_list m n)" using p(1) s by (simp add: mgr_list_def)
  from releaseATL_found [OF m this p(2) before] s
  have "releaseATL env (mConnHandle t) m = nif_process env AGPS_EVENT_UNSUBSCRIBE n (set_nif n (s\<lparr>mCurrentSubscriber := p\<rparr>) m)"
    by simp
  then show ?thesis
    using q by (simp add: nif_process_eq nif_event_def nif_st_def DS_processAgpsEvent_def base_processAgpsEvent_def
        processAgpsEvent_def processAgpsEventUnsubscribe_def)
qed

lemma first_unique:
  assumes "holds_handle m c n" "\<forall>k \<in> set (searched_before n). \<not> holds_handle m c k"
    "holds_handle m c i" "\<forall>k \<in> set (searched_before i). \<not> holds_handle m c k"
  shows "i = n"
  using assms by (cases n; cases i) auto

lemma list_handle_unique:
  assumes "list_ok h ps" "p \<in> set ps" "q \<in> set ps" "h p = Some t" "h q = Some u" "mConnHandle t = mConnHandle u"
  shows "p = q"
  using find_handle_present [OF assms(1,2,4)] find_handle_present [OF assms(1,3,5)] assms(6) by simp

lemma releaseATL_faults:
  assumes m: "mgr_mem {} m" and f: "fresh_env env m"
  shows "releaseATL env c m = None \<longleftrightarrow> release_faults c m"
proof (cases "\<exists>n. holds_handle m c n")
  case False
  then have "\<not> release_faults c m" unfolding release_faults_def using subscriber_holds by blast
  then show ?thesis using releaseATL_not_found [OF m, of c env] False by simp
next
  case True
  then obtain n where n: "holds_handle m c n" "\<forall>k \<in> set (searched_before n). \<not> holds_handle m c k"
    using holds_first by blast
  obtain p t s where p: "nif_of n m = Some s" "p \<in> set (mSubscriberList s)" "mSubs m p = Some t" "mConnHandle t = c"
    by (rule holds_subscriber [OF m n(1)])
  let ?bad = "\<not> mWaitForCloseComplete t \<and> p \<noteq> last (mSubscriberList s) \<and> mState s \<notin> {AGPS_STATE_RELEASED, AGPS_STATE_INVALID}"
  have "release_faults c m \<longleftrightarrow> ?bad"
  proof
    assume "release_faults c m"
    then obtain i r q u where q: "nif_of i m = Some r" "q \<in> set (mSubscriberList r)" "mSubs m q = Some u" "mConnHandle u = c"
      "\<forall>k \<in> set (searched_before i). \<not> holds_handle m c k" "\<not> mWaitForCloseComplete u" "q \<noteq> last (mSubscriberList r)"
      "mState r \<notin> {AGPS_STATE_RELEASED, AGPS_STATE_INVALID}"
      unfolding release_faults_def by blast
    have "i = n" by (rule first_unique [OF n subscriber_holds [OF q(1-3), unfolded q(4)] q(5)])
    moreover from this have "r = s" using p(1) q(1) by simp
    moreover from this have "q = p"
      using list_handle_unique [OF mgr_mem_ok [OF m p(1)] p(2) _ p(3) q(3)] q(2,4) p(4) by simp
    ultimately show ?bad using q p(3) by simp
  next
    assume ?bad
    then show "release_faults c m" unfolding release_faults_def using p n(2) by blast
  qed
  moreover have "releaseATL env c m = None \<longleftrightarrow> ?bad"
  proof (cases "mState s = AGPS_STATE_INVALID")
    case True
    then show ?thesis using releaseATL_invalid [OF m p(1-3)] n(2) p(4) by simp
  next
    case False
    then show ?thesis using releaseATL_fault_iff [OF m f p(1-3) _ False] n(2) p(4) by simp
  qed
  ultimately show ?thesis by simp
qed

lemma report_runs:
  assumes "mgr_mem {} m" "fresh_env env m" "e \<in> {AGPS_EVENT_GRANTED, AGPS_EVENT_RELEASED, AGPS_EVENT_DENIED}"
  shows "nif_process env e n m = None \<longleftrightarrow> nif_of n m = None"
proof (cases "nif_of n m")
  case None
  then show ?thesis by (simp add: nif_process_eq)
next
  case (Some s)
  have c: "cur_ok e undefined (nif_st s m)" using assms(3) by auto
  show ?thesis using nif_process_ok [OF assms(1) Some _ _ c, of env] assms(2) Some by (auto simp: fresh_env_def)
qed

lemma getAgps_keeps:
  assumes "getAgpsStateMachine conf env ty m = (n, m1)" "mgr_mem {} m" "fresh_env env m"
  shows "mgr_mem {} m1" "fresh_env env m1"
  using getAgps_mem(1,2) [OF assms(1)] assms(2,3) by (simp_all add: fresh_env_def)

lemma setAPN_runs:
  "setAPN apn len s = None \<longleftrightarrow> (\<exists>a. apn = Some a \<and> length a < len)"
  "setAPN apn len s = Some s' \<Longrightarrow> mSubscriberList s' = mSubscriberList s"
  by (auto simp: setAPN_def Let_def split: option.splits if_splits)

lemma agps_op_faults:
  assumes m: "mgr_mem {} m" and f: "fresh_env (op_env op) m"
  shows "run_agps_op conf op m = None \<longleftrightarrow> mgr_faults conf op m"
proof (cases op)
  case (RequestATL env c ty)
  then show ?thesis using requestATL_ok [OF m, of env conf c ty] f by auto
next
  case (ReleaseATL env c)
  then show ?thesis using releaseATL_faults [OF m, of env c] f by simp
next
  case (DataCallOpened env)
  then show ?thesis using report_runs [OF m, of env AGPS_EVENT_GRANTED DsNif] f by (auto simp: reportDataCallOpened_def)
next
  case (DataCallClosed env)
  then show ?thesis using report_runs [OF m, of env AGPS_EVENT_RELEASED DsNif] f by (auto simp: reportDataCallClosed_def)
next
  case (AtlOpenSuccess env ty apn len b)
  obtain n m1 where g: "getAgpsStateMachine conf env ty m = (n, m1)" by fastforce
  have m1: "mgr_mem {} m1" "fresh_env env m1" using getAgps_keeps [OF g m] f AtlOpenSuccess by simp_all
  show ?thesis
  proof (cases "nif_of n m1")
    case None
    then show ?thesis using AtlOpenSuccess g by (simp add: reportAtlOpenSuccess_def no_machine_def)
  next
    case (Some s)
    have "nif_process env AGPS_EVENT_GRANTED n (set_nif n s' m1) \<noteq> None"
      if "setAPN apn len (s\<lparr>mBearer := b\<rparr>) = Some s'" for s'
    proof -
      have "mgr_mem {} (set_nif n s' m1)" using mgr_mem_set [OF m1(1) Some] setAPN_runs(2) [OF that] by simp
      then show ?thesis using report_runs [of "set_nif n s' m1" env] m1(2) by (simp add: fresh_env_def)
    qed
    then show ?thesis
      using AtlOpenSuccess g Some setAPN_runs(1) [of apn len "s\<lparr>mBearer := b\<rparr>"]
      by (cases "setAPN apn len (s\<lparr>mBearer := b\<rparr>)") (auto simp add: reportAtlOpenSuccess_def no_machine_def)
  qed
next
  case (AtlOpenFailed env ty)
  obtain n m1 where g: "getAgpsStateMachine conf env ty m = (n, m1)" by fastforce
  have "mgr_mem {} m1" "fresh_env env m1" using getAgps_keeps [OF g m] f AtlOpenFailed by simp_all
  then show ?thesis using AtlOpenFailed g report_runs [of m1 env AGPS_EVENT_DENIED n]
    by (simp add: reportAtlOpenFailed_def no_machine_def)
next
  case (AtlClosed env ty)
  obtain n m1 where g: "getAgpsStateMachine conf env ty m = (n, m1)" by fastforce
  have "mgr_mem {} m1" "fresh_env env m1" using getAgps_keeps [OF g m] f AtlClosed by simp_all
  then show ?thesis using AtlClosed g report_runs [of m1 env AGPS_EVENT_RELEASED n]
    by (simp add: reportAtlClosed_def no_machine_def)
next
  case (ModemSSR env)
  obtain m1 where m1: "drop_nif AgnssNif m = Some m1" "mgr_mem {} m1" using drop_nif_mem [OF m] by blast
  obtain m2 where m2: "drop_nif InternetNif m1 = Some m2" "mgr_mem {} m2" using drop_nif_mem [OF m1(2)] by blast
  obtain m3 where m3: "drop_nif DsNif m2 = Some m3" using drop_nif_mem [OF m2(2)] by blast
  show ?thesis using ModemSSR m1(1) m2(1) m3 by (auto simp: handleModemSSR_def)
qed simp

section \<open>The retry policy of the data-service client\<close>

primrec ds_attempts :: "agps_env \<Rightarrow> nat \<Rightarrow> agps_st \<Rightarrow> agps_st option" where
  "ds_attempts env 0 st = Some st"
| "ds_attempts env (Suc n) st = do {
     st \<leftarrow> ds_attempts env n st;
     (_, st) \<leftarrow> DS_requestOrReleaseDataConn env True st;
     Some st }"

lemma ds_busy_once:
  assumes "st_ok st" "getFirstSubscriber False st = Some p" "p \<noteq> NULL" "subs st p = Some s"
    "dsOpenFn env = Some LOC_API_ADAPTER_ERR_ENGINE_BUSY"
  shows "\<exists>r st'. DS_requestOrReleaseDataConn env True st = Some (r, st') \<and> subs st' = subs st \<and>
     (if mRetries (sm st) < MAX_START_DATA_CALL_RETRIES
      then sm st' = (sm st)\<lparr>mRetries := mRetries (sm st) + 1\<rparr> \<and>
           log st' = log st @ [DSClientOpenAndStartDataCall, LocTimerStart DATA_CALL_RETRY_DELAY_MSEC]
      else sm st' = (sm st)\<lparr>mRetries := 0\<rparr> \<and>
           log st' = log st @ [DSClientOpenAndStartDataCall, SendRequestATL (mConnHandle s) LOC_AGPS_TYPE_SUPL])"
  using assms
  by (simp add: DS_requestOrReleaseDataConn_def DS_notifyEventToSubscriber_def Let_def emit_def deref_live)

lemma ds_attempts_busy:
  assumes "st_ok st" "getFirstSubscriber False st = Some p" "p \<noteq> NULL" "subs st p = Some s"
    "dsOpenFn env = Some LOC_API_ADAPTER_ERR_ENGINE_BUSY" "mRetries (sm st) = 0" "n \<le> 4"
  shows "\<exists>st'. ds_attempts env n st = Some st' \<and> subs st' = subs st \<and>
     sm st' = (sm st)\<lparr>mRetries := int n\<rparr> \<and>
     log st' = log st @
       concat (replicate n [DSClientOpenAndStartDataCall, LocTimerStart DATA_CALL_RETRY_DELAY_MSEC])"
  using assms(7)
proof (induction n)
  case 0
  then show ?case using assms(6) by (cases "sm st") simp
next
  case (Suc n)
  then obtain st1 where st1: "ds_attempts env n st = Some st1" "subs st1 = subs st"
      "sm st1 = (sm st)\<lparr>mRetries := int n\<rparr>"
      "log st1 = log st @
       concat (replicate n [DSClientOpenAndStartDataCall, LocTimerStart DATA_CALL_RETRY_DELAY_MSEC])"
    by auto
  have "st_ok st1" "getFirstSubscriber False st1 = Some p" "subs st1 p = Some s"
    using st1(2,3) assms(1,2,4) by (simp_all add: getFirstSubscriber_def)
  from ds_busy_once [OF this(1,2) assms(3) this(3) assms(5)] obtain r st2 where
    "DS_requestOrReleaseDataConn env True st1 = Some (r, st2)" "subs st2 = subs st1"
    "sm st2 = (sm st1)\<lparr>mRetries := int n + 1\<rparr>"
    "log st2 = log st1 @ [DSClientOpenAndStartDataCall, LocTimerStart DATA_CALL_RETRY_DELAY_MSEC]"
    using st1(3) Suc.prems by auto
  moreover have "concat (replicate (Suc n) xs) = concat (replicate n xs) @ xs" for xs :: "agps_out list"
    by (induction n) simp_all
  ultimately show ?case using st1 by (auto simp del: replicate_Suc)
qed

section \<open>Sample objects for the witnesses\<close>

definition ex_env :: agps_env where
  "ex_env = \<lparr>newSub = 8, stackSub = 9, dsInitFn = Some (\<lambda>b. 0), dsOpenFn = Some 6, dsStopFn = True, timerHandle = 5\<rparr>"

definition ex_sub :: "int \<Rightarrow> AgpsSubscriber" where
  "ex_sub h = \<lparr>mConnHandle = h, mWaitForCloseComplete = False, mIsInactive = False\<rparr>"

text \<open>Two active subscribers, at 1 and 2, with handles 11 and 12.\<close>

definition ex_st :: "AgpsState \<Rightarrow> agps_st" where
  "ex_st q = \<lparr>subs = [1 \<mapsto> ex_sub 11, 2 \<mapsto> ex_sub 12],
     sm = (new_sm LOC_AGPS_TYPE_SUPL)\<lparr>mSubscriberList := [1, 2], mState := q\<rparr>, log = []\<rparr>"

definition ex_mgr :: "AgpsState \<Rightarrow> AgpsManager" where
  "ex_mgr q = \<lparr>mAgnssNif = Some (sm (ex_st q)), mInternetNif = None, mDsNif = None,
     mSubs = subs (ex_st q), mLog = []\<rparr>"

lemma ex_st_ok [simp]: "st_ok (ex_st q)" "subs (ex_st q) 8 = None" "mState (sm (ex_st q)) = q"
  "objs (ex_st q) = [ex_sub 11, ex_sub 12]"
  by (simp_all add: ex_st_def new_sm_def ex_sub_def)

lemma ex_env_simps [simp]: "newSub ex_env = 8" "stackSub ex_env = 9"
  by (simp_all add: ex_env_def)

lemma ex_mgr_mem: "mgr_mem {} (ex_mgr q)"
proof -
  have l: "mgr_list (ex_mgr q) n = (if n = AgnssNif then [1, 2] else [])" for n
    by (cases n) (simp_all add: mgr_list_def ex_mgr_def ex_st_def)
  show ?thesis
    unfolding mgr_mem_def l by (auto simp: ex_mgr_def ex_st_def ex_sub_def)
qed

section \<open>Properties\<close>

text \<open>C10: One event of \<open>AgpsStateMachine::processAgpsEvent\<close> with a live current subscriber (of the
  list, when it unsubscribes) either faults, exactly when the subscriber unsubscribes from a machine
  that is not RELEASED, does not wait for the close to complete and is not the last of the list (the
  deletion loop then compares with the deleted object); or it returns, changes the subscriber objects of
  this machine only, deletes whatever it takes off the list, and moves the machine to the state and the
  subscriber list that the abstract machine \<open>abs_step\<close> prescribes.\<close>
theorem agps_event_refines:
  assumes "st_ok st" "newSub env \<noteq> NULL" "subs st (newSub env) = None"
    "e \<in> {AGPS_EVENT_SUBSCRIBE, AGPS_EVENT_UNSUBSCRIBE} \<Longrightarrow> deref (subs st) (mCurrentSubscriber (sm st)) = Some s"
    "e = AGPS_EVENT_UNSUBSCRIBE \<Longrightarrow> mCurrentSubscriber (sm st) \<in> set (lst st)"
  shows "if e = AGPS_EVENT_UNSUBSCRIBE \<and> \<not> mWaitForCloseComplete s \<and> mCurrentSubscriber (sm st) \<noteq> last (lst st) \<and>
      mState (sm st) \<notin> {AGPS_STATE_RELEASED, AGPS_STATE_INVALID}
    then base_processAgpsEvent env e st = None
    else \<exists>st'. base_processAgpsEvent env e st = Some st' \<and> evolves (newSub env) st st' \<and>
      abs_of st' = abs_step True s e (abs_of st)"
proof (cases "cur_ok e s st")
  case True
  then show ?thesis using base.process_accepts [OF assms(1-3) True] by (auto simp: base_processAgpsEvent_def cur_ok_def)
next
  case False
  then have e: "e = AGPS_EVENT_UNSUBSCRIBE" and s: "subs st (mCurrentSubscriber (sm st)) = Some s"
      "\<not> mWaitForCloseComplete s" "mCurrentSubscriber (sm st) \<noteq> last (lst st)" "mState (sm st) \<noteq> AGPS_STATE_RELEASED"
    using assms(4,5) by (auto simp: cur_ok_def deref_def split: if_splits)
  show ?thesis
  proof (cases "mState (sm st) = AGPS_STATE_INVALID")
    case True
    then show ?thesis using e evolves_refl [OF assms(1,3)]
      by (simp add: base_processAgpsEvent_def processAgpsEvent_def processAgpsEventUnsubscribe_def abs_of_def)
  next
    case False
    then show ?thesis using base.unsubscribe_fault [OF assms(1), of s] e s assms(5)
      by (simp add: base_processAgpsEvent_def processAgpsEvent_def)
  qed
qed

theorem agps_event_refines_witness:
  "\<exists>st'. base_processAgpsEvent ex_env AGPS_EVENT_UNSUBSCRIBE
      ((ex_st AGPS_STATE_ACQUIRED)\<lparr>sm := (sm (ex_st AGPS_STATE_ACQUIRED))\<lparr>mCurrentSubscriber := 2\<rparr>\<rparr>) = Some st' \<and>
    abs_of st' = (AGPS_STATE_ACQUIRED, [ex_sub 11])"
proof -
  let ?st = "(ex_st AGPS_STATE_ACQUIRED)\<lparr>sm := (sm (ex_st AGPS_STATE_ACQUIRED))\<lparr>mCurrentSubscriber := 2\<rparr>\<rparr>"
  have ok: "st_ok ?st" "newSub ex_env \<noteq> NULL" "subs ?st (newSub ex_env) = None"
      "deref (subs ?st) (mCurrentSubscriber (sm ?st)) = Some (ex_sub 12)" "mCurrentSubscriber (sm ?st) \<in> set (lst ?st)"
      "mCurrentSubscriber (sm ?st) = last (lst ?st)"
    by (simp_all add: ex_st_def new_sm_def ex_sub_def deref_live)
  obtain st' where
    "base_processAgpsEvent ex_env AGPS_EVENT_UNSUBSCRIBE ?st = Some st'"
    "abs_of st' = abs_step True (ex_sub 12) AGPS_EVENT_UNSUBSCRIBE (abs_of ?st)"
    using agps_event_refines [OF ok(1-3), of AGPS_EVENT_UNSUBSCRIBE "ex_sub 12", OF ok(4,5)] ok(6) by auto
  then show ?thesis by (auto simp: abs_of_def abs_drop_def ex_sub_def abs_active_def Let_def)
qed

text \<open>C26: In every history that the manager can drive a machine of the base class through without a fault, restarts
  of the modem included, a RELEASED machine has no subscribers; a machine without subscribers is
  RELEASED, unless a restart dropped some; a machine that has subscribers has an active one whenever it
  is PENDING or ACQUIRED; its subscribers are live objects and no two of them have the same handle.\<close>
theorem agps_history_invariant:
  assumes "agps_reach ty b st"
  shows "(mState (sm st) = AGPS_STATE_RELEASED \<longrightarrow> mSubscriberList (sm st) = []) \<and>
    (mSubscriberList (sm st) = [] \<longrightarrow> mState (sm st) = AGPS_STATE_RELEASED \<or> b) \<and>
    (mState (sm st) \<in> {AGPS_STATE_PENDING, AGPS_STATE_ACQUIRED} \<and> mSubscriberList (sm st) \<noteq> [] \<longrightarrow>
      (\<exists>p \<in> set (mSubscriberList (sm st)). \<exists>s. subs st p = Some s \<and> \<not> mIsInactive s)) \<and>
    (\<forall>p \<in> set (mSubscriberList (sm st)). subs st p \<noteq> None) \<and>
    distinct (map (\<lambda>p. mConnHandle (the (subs st p))) (mSubscriberList (sm st)))"
proof -
  have ok: "st_ok st" "abs_inv_or_dropped b (abs_of st)" using agps_reach_inv [OF assms] by simp_all
  have inv: "abs_inv (abs_of st)" if "lst st \<noteq> []"
    using ok(2) that abs_dropped_mem [of b "mState (sm st)" "objs st"] by (simp add: abs_of_def objs_at_nil)
  have c1: "mState (sm st) = AGPS_STATE_RELEASED \<longrightarrow> mSubscriberList (sm st) = []"
    using inv by (auto simp: abs_inv_def abs_of_def objs_at_nil)
  have c0: "mSubscriberList (sm st) = [] \<longrightarrow> mState (sm st) = AGPS_STATE_RELEASED \<or> b"
    using ok(2) by (auto simp: abs_inv_or_dropped_def abs_inv_def abs_of_def objs_at_nil)
  have live: "\<forall>p \<in> set (mSubscriberList (sm st)). subs st p \<noteq> None"
    using ok(1) by (simp add: list_ok_def)
  have c4: "distinct (map (\<lambda>p. mConnHandle (the (subs st p))) (mSubscriberList (sm st)))"
    using ok(1) by (simp add: list_ok_def objs_at_def comp_def)
  have c2: "mState (sm st) \<in> {AGPS_STATE_PENDING, AGPS_STATE_ACQUIRED} \<and> mSubscriberList (sm st) \<noteq> [] \<longrightarrow>
      (\<exists>p \<in> set (mSubscriberList (sm st)). \<exists>s. subs st p = Some s \<and> \<not> mIsInactive s)"
  proof
    assume "mState (sm st) \<in> {AGPS_STATE_PENDING, AGPS_STATE_ACQUIRED} \<and> mSubscriberList (sm st) \<noteq> []"
    then have "abs_active (objs st)" using inv by (auto simp: abs_inv_def abs_of_def)
    then obtain p where "p \<in> set (lst st)" "\<not> mIsInactive (the (subs st p))"
      by (auto simp: abs_active_def objs_at_def)
    then show "\<exists>p \<in> set (mSubscriberList (sm st)). \<exists>s. subs st p = Some s \<and> \<not> mIsInactive s"
      using live by force
  qed
  show ?thesis using c0 c1 c2 live c4 by (intro conjI)
qed

lemma ex_request_reach:
  "\<exists>st. agps_reach 1 False st \<and> mState (sm st) = AGPS_STATE_PENDING"
proof -
  let ?s0 = "\<lparr>subs = Map.empty, sm = new_sm 1, log = []\<rparr>"
  let ?st = "?s0\<lparr>subs := (subs ?s0)(stackSub ex_env \<mapsto> ex_sub 7),
                sm := (sm ?s0)\<lparr>mCurrentSubscriber := stackSub ex_env\<rparr>\<rparr>"
  have "cur_ok AGPS_EVENT_SUBSCRIBE (ex_sub 7) ?st" by (simp add: cur_ok_def deref_live)
  then obtain st' where st': "base_processAgpsEvent ex_env AGPS_EVENT_SUBSCRIBE ?st = Some st'"
      "abs_of st' = abs_step True (ex_sub 7) AGPS_EVENT_SUBSCRIBE (abs_of ?st)"
    using base.process_accepts [of ?st ex_env AGPS_EVENT_SUBSCRIBE "ex_sub 7"]
    by (auto simp: base_processAgpsEvent_def new_sm_def)
  have "agps_reach 1 False (st'\<lparr>subs := wipe {stackSub ex_env} (subs st')\<rparr>)"
    using st'(1) by (intro agps_reach.request [of _ _ ?s0 _ "ex_sub 7"] agps_reach.start) (simp_all add: ex_sub_def)
  moreover have "mState (sm st') = AGPS_STATE_PENDING" using st'(2) by (simp add: abs_of_def new_sm_def)
  ultimately show ?thesis by (intro exI [of _ "st'\<lparr>subs := wipe {stackSub ex_env} (subs st')\<rparr>"]) simp
qed

theorem agps_history_invariant_witness:
  "\<exists>st. agps_reach 1 False st \<and> mState (sm st) = AGPS_STATE_PENDING \<and> mSubscriberList (sm st) \<noteq> []"
proof -
  obtain st where "agps_reach 1 False st" "mState (sm st) = AGPS_STATE_PENDING" using ex_request_reach by blast
  then show ?thesis using agps_history_invariant [of 1 False st] by auto
qed

text \<open>when a pending base machine is granted its connection it becomes ACQUIRED and every
  active subscriber, in list order, and nobody else, gets the status callback that carries its
  handle and the APN, bearer and type of the machine; no subscriber is changed.\<close>
theorem agps_granted_tells_active:
  assumes "st_ok st" "subs st a = None" "mState (sm st) = AGPS_STATE_PENDING"
  shows "\<exists>st'. base_processAgpsEvent env AGPS_EVENT_GRANTED st = Some st' \<and>
    abs_of st' = (AGPS_STATE_ACQUIRED, objs st) \<and>
    log st' = log st @
      map (\<lambda>s. AtlOpenStatus (mConnHandle s) 1 (mAPN (sm st)) (mBearer (sm st)) (mAgpsType (sm st)))
          (filter (\<lambda>s. \<not> mIsInactive s) (objs st))"
proof -
  have "concat (map (base_msg AGPS_EVENT_GRANTED (conn (sm st))) xs) =
      map (\<lambda>s. AtlOpenStatus (mConnHandle s) 1 (mAPN (sm st)) (mBearer (sm st)) (mAgpsType (sm st))) xs" for xs
    by (induction xs) (simp_all add: conn_def)
  then show ?thesis
    using base.granted_ok [OF assms(1,2), of True undefined] assms(3)
    by (simp add: base_processAgpsEvent_def processAgpsEvent_def abs_of_def) blast
qed

theorem agps_granted_tells_active_witness:
  "\<exists>st'. base_processAgpsEvent ex_env AGPS_EVENT_GRANTED (ex_st AGPS_STATE_PENDING) = Some st' \<and>
    log st' = [AtlOpenStatus 11 1 None 0 1, AtlOpenStatus 12 1 None 0 1]"
proof -
  from agps_granted_tells_active [of "ex_st AGPS_STATE_PENDING" 8 ex_env, OF _ _ _] obtain st' where
    "base_processAgpsEvent ex_env AGPS_EVENT_GRANTED (ex_st AGPS_STATE_PENDING) = Some st'"
    "log st' = log (ex_st AGPS_STATE_PENDING) @
      map (\<lambda>s. AtlOpenStatus (mConnHandle s) 1 (mAPN (sm (ex_st AGPS_STATE_PENDING)))
          (mBearer (sm (ex_st AGPS_STATE_PENDING))) (mAgpsType (sm (ex_st AGPS_STATE_PENDING))))
        [ex_sub 11, ex_sub 12]" by (auto simp: ex_sub_def)
  then show ?thesis by (simp add: ex_st_def new_sm_def ex_sub_def)
qed

text \<open>when the emergency data call of \<open>DSStateMachine\<close> is denied, or closed while it is
  still pending, the machine is RELEASED with no subscribers, a plain SUPL request is sent for
  every subscriber, in list order, and nothing else, and all its subscriber objects are deleted.\<close>
theorem ds_falls_back_to_supl:
  assumes "st_ok st" "subs st a = None" "mState (sm st) = AGPS_STATE_PENDING"
    "e \<in> {AGPS_EVENT_DENIED, AGPS_EVENT_RELEASED}"
  shows "\<exists>st'. DS_processAgpsEvent env e st = Some st' \<and> abs_of st' = (AGPS_STATE_RELEASED, []) \<and>
    log st' = log st @ map (\<lambda>s. SendRequestATL (mConnHandle s) LOC_AGPS_TYPE_SUPL) (objs st) \<and>
    (\<forall>p. subs st' p = (if p \<in> set (mSubscriberList (sm st)) then None else subs st p))"
proof -
  obtain st' where st': "notifyAllSubscribers DS_notifyEventToSubscriber AGPS_EVENT_DENIED True
       AGPS_NOTIFICATION_TYPE_FOR_ALL_SUBSCRIBERS (transitionState AGPS_STATE_RELEASED st) = Some st'"
     "evolves a st st'" "abs_of st' = (AGPS_STATE_RELEASED, [])"
     "log st' = log st @ concat (map (DS_msg AGPS_EVENT_DENIED (conn (sm st))) (objs st))"
    using ds.lost_ok [OF assms(1,2), of AGPS_EVENT_DENIED] by blast
  have "concat (map (DS_msg AGPS_EVENT_DENIED c) xs) =
      map (\<lambda>s. SendRequestATL (mConnHandle s) LOC_AGPS_TYPE_SUPL) xs" for c xs
    by (induction xs) simp_all
  moreover have "DS_processAgpsEvent env e st = Some st'"
    using st'(1) assms(3,4)
    by (auto simp: DS_processAgpsEvent_def processAgpsEvent_def processAgpsEventDenied_def)
  moreover have "lst st' = []" using st'(3) by (simp add: abs_of_def objs_at_nil)
  then have "subs st' p = (if p \<in> set (lst st) then None else subs st p)" for p
    using st'(2) assms(2) by (cases "p = a") (auto simp: evolves_def)
  ultimately show ?thesis using st'(3,4) by simp
qed

theorem ds_falls_back_to_supl_witness:
  "\<exists>st'. DS_processAgpsEvent ex_env AGPS_EVENT_RELEASED (ex_st AGPS_STATE_PENDING) = Some st' \<and>
    log st' = [SendRequestATL 11 1, SendRequestATL 12 1] \<and> subs st' 1 = None"
  using ds_falls_back_to_supl [of "ex_st AGPS_STATE_PENDING" 8 AGPS_EVENT_RELEASED ex_env]
  by (auto simp: ex_st_def new_sm_def ex_sub_def)

definition no_leak :: "AgpsManager \<Rightarrow> bool" where
  "no_leak m \<longleftrightarrow> dom (mSubs m) = (\<Union>n. set (mgr_list m n)) \<and> (\<forall>n. distinct (mgr_list m n)) \<and>
    (\<forall>n k. n \<noteq> k \<longrightarrow> set (mgr_list m n) \<inter> set (mgr_list m k) = {})"

lemma mgr_mem_no_leak: "mgr_mem {} m \<Longrightarrow> no_leak m"
  unfolding no_leak_def mgr_mem_def list_ok_def by blast

text \<open>C2: Every operation of \<open>AgpsManager\<close> (requests, releases, modem reports, machine creations and
  modem restarts), in every state that operations have led to, faults in exactly the cases
  \<open>mgr_faults\<close> lists: \<open>releaseATL\<close> of a subscriber that does not wait for the close to complete and is
  not the last of the first list that has its handle, in a machine that is not RELEASED; a report for
  a machine that was not created, or with an APN shorter than its length; a restart with the emergency
  PDN whose data-service functions are not registered. In all other cases it leaves a state in which
  the live subscriber objects are exactly those in the lists of the three machines, each in exactly one
  list once: nothing is leaked and no list holds a deleted object.\<close>
theorem mgr_no_leak:
  assumes "mgr_reach conf m" "fresh_env (op_env op) m"
  shows "no_leak m \<and>
    (if mgr_faults conf op m then run_agps_op conf op m = None
     else \<exists>m'. run_agps_op conf op m = Some m' \<and> no_leak m')"
proof -
  have m: "mgr_mem {} m" by (rule mgr_reach_mem [OF assms(1)])
  have "no_leak m'" if "run_agps_op conf op m = Some m'" for m'
    by (rule mgr_mem_no_leak [OF agps_ops_mem [OF m assms(2) that]])
  then show ?thesis using mgr_mem_no_leak [OF m] agps_op_faults [OF m assms(2), of conf]
    by (cases "run_agps_op conf op m") auto
qed

definition ex_mgr1 :: AgpsManager where
  "ex_mgr1 = \<lparr>mAgnssNif = Some (new_sm 1), mInternetNif = Some (new_sm 3), mDsNif = None,
     mSubs = Map.empty, mLog = []\<rparr>"

definition ex_conf :: agps_conf where
  "ex_conf = \<lparr>CAPABILITIES = 4, USE_EMERGENCY_PDN = False\<rparr>"

lemma ex_mgr_request: "\<exists>m. mgr_reach ex_conf m \<and> mSubs m 8 \<noteq> None"
proof -
  let ?m0 = "\<lparr>mAgnssNif = None, mInternetNif = None, mDsNif = None, mSubs = Map.empty, mLog = []\<rparr>"
  have "createAgpsStateMachines ex_conf ex_env ?m0 = ex_mgr1"
    by (simp add: createAgpsStateMachines_def ex_conf_def ex_mgr1_def)
  then have r1: "mgr_reach ex_conf ex_mgr1"
    using mgr_reach.oper [OF mgr_reach.init, of "CreateAgps ex_env" ex_conf ex_mgr1]
    by (simp add: fresh_env_def)
  have f: "fresh_env ex_env ex_mgr1" by (simp add: fresh_env_def ex_mgr1_def)
  let ?sub = "\<lparr>subs = [9 \<mapsto> ex_sub 7], sm = (new_sm 1)\<lparr>mCurrentSubscriber := 9\<rparr>, log = []\<rparr>"
  have sub_ok: "st_ok ?sub" "newSub ex_env \<noteq> NULL" "subs ?sub (newSub ex_env) = None"
      "cur_ok AGPS_EVENT_SUBSCRIBE (ex_sub 7) ?sub"
    by (simp_all add: cur_ok_def deref_live new_sm_def)
  obtain st where st: "base_processAgpsEvent ex_env AGPS_EVENT_SUBSCRIBE ?sub = Some st"
      "evolves 8 ?sub st" "abs_of st = abs_step True (ex_sub 7) AGPS_EVENT_SUBSCRIBE (abs_of ?sub)"
    using base.process_accepts [OF sub_ok] unfolding base_processAgpsEvent_def ex_env_simps by blast
  have "lst st \<noteq> []" "set (lst st) \<subseteq> {8}" "st_ok st"
    using st(2,3) by (auto simp: abs_of_def evolves_def new_sm_def abs_add_def)
  then have "subs st 8 \<noteq> None" by (cases "lst st") (auto simp: list_ok_def)
  then have "\<exists>m. requestATL ex_conf ex_env 7 1 ex_mgr1 = Some m \<and> mSubs m 8 \<noteq> None"
    using st(1) by (simp add: requestATL_def getAgpsStateMachine_def nif_process_def on_nif_def Let_def
        ex_mgr1_def ex_sub_def)
  then obtain m where m: "requestATL ex_conf ex_env 7 1 ex_mgr1 = Some m" "mSubs m 8 \<noteq> None" by blast
  have "mgr_reach ex_conf m"
    using mgr_reach.oper [OF r1, of "RequestATL ex_env 7 1" m] m(1) f by simp
  then show ?thesis using m(2) by blast
qed

theorem mgr_no_leak_witness:
  "\<exists>m. mgr_reach ex_conf m \<and> mSubs m 8 \<noteq> None \<and> no_leak m \<and>
     (\<exists>m'. handleModemSSR ex_conf ex_env m = Some m' \<and> no_leak m')"
proof -
  obtain m where m: "mgr_reach ex_conf m" "mSubs m 8 \<noteq> None"
    using ex_mgr_request by blast
  have "UNIV = {AgnssNif, InternetNif, DsNif}" using nif.exhaust by auto
  then have "finite (UNIV :: nif set)" by (metis finite.emptyI finite.insertI)
  then have fin: "finite (insert NULL (dom (mSubs m)))" using mgr_mem_dom [OF mgr_reach_mem [OF m(1)]] by simp
  obtain q where q: "q \<notin> insert NULL (dom (mSubs m))" using ex_new_if_finite [OF infinite_UNIV_nat fin] by blast
  obtain r where "r \<notin> insert q (insert NULL (dom (mSubs m)))"
    using ex_new_if_finite [OF infinite_UNIV_nat, of "insert q (insert NULL (dom (mSubs m)))"] fin by blast
  then have "fresh_env (ex_env\<lparr>newSub := q, stackSub := r\<rparr>) m" using q unfolding fresh_env_def by auto
  then show ?thesis
    using mgr_no_leak [OF m(1), of "ModemSSR (ex_env\<lparr>newSub := q, stackSub := r\<rparr>)"] m
    by (auto simp: ex_conf_def handleModemSSR_def)
qed

text \<open>\<open>requestATL\<close> always completes: no machine, configuration or list of subscribers makes
  it touch a deleted object or throw.\<close>
theorem requestATL_completes:
  assumes "mgr_reach conf m" "fresh_env env m"
  shows "\<exists>m'. requestATL conf env connHandle agpsType m = Some m' \<and> dom (mSubs m') = (\<Union>n. set (mgr_list m' n))"
proof -
  obtain m' where "requestATL conf env connHandle agpsType m = Some m'" "mgr_mem {} m'"
    using requestATL_ok [OF mgr_reach_mem [OF assms(1)] assms(2)] by blast
  moreover from this(2) have "dom (mSubs m') = (\<Union>n. set (mgr_list m' n))" by (rule mgr_mem_dom)
  ultimately show ?thesis by blast
qed

theorem requestATL_completes_witness:
  "\<exists>m'. requestATL \<lparr>CAPABILITIES = 4, USE_EMERGENCY_PDN = True\<rparr> ex_env 7 5
     \<lparr>mAgnssNif = None, mInternetNif = None, mDsNif = None, mSubs = Map.empty, mLog = []\<rparr> = Some m'"
  using requestATL_completes [OF mgr_reach.init, of ex_env "\<lparr>CAPABILITIES = 4, USE_EMERGENCY_PDN = True\<rparr>" 7 5]
  by (auto simp: fresh_env_def)

text \<open>\<open>releaseATL\<close> of a known connection uses a deleted subscriber (its call of
  \<open>deleteSubscriber\<close> compares the rest of the list with the subscriber just deleted) exactly
  when the machine is not RELEASED, the subscriber does not wait for the close to complete and
  it is not the last of its list.\<close>
theorem releaseATL_use_after_free:
  assumes "mgr_mem {} m" "fresh_env env m" "nif_of n m = Some s"
    "p \<in> set (mSubscriberList s)" "mSubs m p = Some t"
    "\<forall>k \<in> set (searched_before n). \<not> holds_handle m (mConnHandle t) k"
    "mState s \<noteq> AGPS_STATE_INVALID"
  shows "releaseATL env (mConnHandle t) m = None \<longleftrightarrow>
    \<not> mWaitForCloseComplete t \<and> p \<noteq> last (mSubscriberList s) \<and> mState s \<noteq> AGPS_STATE_RELEASED"
  by (rule releaseATL_fault_iff [OF assms])

theorem releaseATL_use_after_free_witness:
  "releaseATL ex_env 11 (ex_mgr AGPS_STATE_ACQUIRED) = None \<and>
   releaseATL ex_env 12 (ex_mgr AGPS_STATE_ACQUIRED) \<noteq> None"
proof -
  let ?m = "ex_mgr AGPS_STATE_ACQUIRED"
  have f: "fresh_env ex_env ?m" by (simp add: fresh_env_def ex_mgr_def) (simp add: ex_st_def)
  have n: "nif_of AgnssNif ?m = Some (sm (ex_st AGPS_STATE_ACQUIRED))" by (simp add: ex_mgr_def)
  have "releaseATL ex_env (mConnHandle (ex_sub 11)) ?m = None"
    by (subst releaseATL_use_after_free [OF ex_mgr_mem f n, of 1])
      (simp_all add: ex_mgr_def ex_st_def ex_sub_def)
  moreover have "releaseATL ex_env (mConnHandle (ex_sub 12)) ?m \<noteq> None"
    by (subst releaseATL_use_after_free [OF ex_mgr_mem f n, of 2])
      (simp_all add: ex_mgr_def ex_st_def ex_sub_def)
  ultimately show ?thesis by (simp add: ex_sub_def)
qed

text \<open>a busy data-service client is tried again four times, each after a 500 ms timer; the
  fifth busy answer sends the plain SUPL request for the first active subscriber and resets
  the counter. The subscribers are not touched.\<close>
theorem ds_busy_retries_then_supl:
  assumes "st_ok st" "getFirstSubscriber False st = Some p" "p \<noteq> NULL" "subs st p = Some s"
    "dsOpenFn env = Some LOC_API_ADAPTER_ERR_ENGINE_BUSY" "mRetries (sm st) = 0"
  shows "\<exists>st4 st5. ds_attempts env 4 st = Some st4 \<and>
    log st4 = log st @ concat (replicate 4
      [DSClientOpenAndStartDataCall, LocTimerStart DATA_CALL_RETRY_DELAY_MSEC]) \<and>
    ds_attempts env 5 st = Some st5 \<and> subs st5 = subs st \<and> mRetries (sm st5) = 0 \<and>
    log st5 = log st4 @ [DSClientOpenAndStartDataCall, SendRequestATL (mConnHandle s) LOC_AGPS_TYPE_SUPL]"
proof -
  obtain st4 where st4: "ds_attempts env 4 st = Some st4" "subs st4 = subs st"
      "sm st4 = (sm st)\<lparr>mRetries := 4\<rparr>"
      "log st4 = log st @ concat (replicate 4
        [DSClientOpenAndStartDataCall, LocTimerStart DATA_CALL_RETRY_DELAY_MSEC])"
    using ds_attempts_busy [OF assms, of 4] by auto
  have "st_ok st4" "getFirstSubscriber False st4 = Some p" "subs st4 p = Some s"
    using st4(2,3) assms(1,2,4) by (simp_all add: getFirstSubscriber_def)
  from ds_busy_once [OF this(1,2) assms(3) this(3) assms(5)] obtain r st5 where
    st5: "DS_requestOrReleaseDataConn env True st4 = Some (r, st5)" "subs st5 = subs st4"
    "sm st5 = (sm st4)\<lparr>mRetries := 0\<rparr>"
    "log st5 = log st4 @ [DSClientOpenAndStartDataCall, SendRequestATL (mConnHandle s) LOC_AGPS_TYPE_SUPL]"
    using st4(3) by auto
  have "ds_attempts env 5 st = Some st5"
    using ds_attempts.simps(2) [of env 4 st] st4(1) st5(1) by simp
  then show ?thesis using st4 st5 by (intro exI [of _ st4] exI [of _ st5]) simp
qed

lemma ex_retry:
  "(1 :: nat) \<noteq> NULL" "subs (ex_st q) 1 = Some (ex_sub 11)" "mRetries (sm (ex_st q)) = 0"
  "dsOpenFn ex_env = Some LOC_API_ADAPTER_ERR_ENGINE_BUSY"
  by (simp_all add: ex_st_def new_sm_def ex_env_def)

theorem ds_busy_retries_then_supl_witness:
  "\<exists>st5. ds_attempts ex_env 5 (ex_st AGPS_STATE_RELEASED) = Some st5 \<and>
     last (log st5) = SendRequestATL 11 1"
proof -
  have "getFirstSubscriber False (ex_st AGPS_STATE_RELEASED) = Some 1"
    by (simp add: getFirstSubscriber_def ex_st_def ex_sub_def deref_live)
  then obtain st4 st5 :: agps_st where "ds_attempts ex_env 5 (ex_st AGPS_STATE_RELEASED) = Some st5"
    "log st5 = log st4 @ [DSClientOpenAndStartDataCall, SendRequestATL (mConnHandle (ex_sub 11)) 1]"
    using ds_busy_retries_then_supl [OF ex_st_ok(1) _ ex_retry(1,2,4,3)] by blast
  then show ?thesis by (simp add: ex_sub_def del: ds_attempts.simps)
qed

end
