(* ===== verification/LocHeap.thy ===== *)
theory LocHeap
  imports Prelude
begin

text \<open>
  \<open>gps/utils/LocHeap.{h,cpp}\<close>: the size-balanced binary heap under the timers.
  A node owns its two subtrees, so the heap is a tree value; \<open>mData\<close> is the address of a
  client object and is compared for identity by \<open>remove\<close>. The client's virtual method
  \<open>ranks\<close> enters through \<open>outRanks\<close>. A dereference of a NULL node is \<open>None\<close>.
\<close>

section \<open>Data\<close>

datatype (set_node: 'a) LocHeapNode =
    Null
  | HNode int "'a LocHeapNode" 'a "'a LocHeapNode"

fun mSize :: "'a LocHeapNode \<Rightarrow> int" where
  "mSize Null = 0"
| "mSize (HNode n l d r) = n"

fun mData :: "'a LocHeapNode \<Rightarrow> 'a option" where
  "mData Null = None"
| "mData (HNode n l d r) = Some d"

text \<open>\<open>set_data\<close> is the half of \<open>LocHeapNode::swap\<close> that writes the other node.\<close>

fun set_data :: "'a \<Rightarrow> 'a LocHeapNode \<Rightarrow> 'a LocHeapNode" where
  "set_data x Null = Null"
| "set_data x (HNode n l d r) = HNode n l x r"

definition new_node :: "'a \<Rightarrow> 'a LocHeapNode" where
  "new_node x = HNode 1 Null x Null"

lemma size_set_data [simp]: "size (set_data x t) = size t"
  by (cases t) auto

section \<open>Operations of a node\<close>

text \<open>
  \<open>LocHeapNode::push\<close>; the incoming node is the fresh one \<open>LocHeap::push\<close> made for \<open>x\<close>,
  so it is given by its data.
\<close>

fun node_push :: "('a \<Rightarrow> 'a \<Rightarrow> bool) \<Rightarrow> 'a \<Rightarrow> 'a LocHeapNode \<Rightarrow> 'a LocHeapNode option" where
  "node_push outRanks x Null = None"
| "node_push outRanks x (HNode n l d r) =
     (let (d, x) = (if outRanks x d then (x, d) else (d, x)) in
      if l = Null then Some (HNode (n + 1) (new_node x) d r)
      else if r = Null then Some (HNode (n + 1) l d (new_node x))
      else if mSize l \<le> mSize r then do {
        l \<leftarrow> node_push outRanks x l;
        Some (HNode (n + 1) l d r) }
      else do {
        r \<leftarrow> node_push outRanks x r;
        Some (HNode (n + 1) l d r) })"

text \<open>Which child \<open>pop\<close> descends into: True for \<open>mLeft\<close>.\<close>

fun left_first :: "('a \<Rightarrow> 'a \<Rightarrow> bool) \<Rightarrow> 'a LocHeapNode \<Rightarrow> 'a LocHeapNode \<Rightarrow> bool" where
  "left_first outRanks Null r = False"
| "left_first outRanks l Null = True"
| "left_first outRanks (HNode _ _ a _) (HNode _ _ b _) = outRanks a b"

text \<open>The popped node (a former leaf that now carries the top's data), and the tree.\<close>

function node_pop ::
  "('a \<Rightarrow> 'a \<Rightarrow> bool) \<Rightarrow> 'a LocHeapNode \<Rightarrow> ('a LocHeapNode \<times> 'a LocHeapNode) option" where
  "node_pop outRanks Null = None"
| "node_pop outRanks (HNode n l d r) =
     (if l \<noteq> Null \<or> r \<noteq> Null then
        (if left_first outRanks l r then do {
           sub \<leftarrow> mData l;
           (p, l) \<leftarrow> node_pop outRanks (set_data d l);
           Some (p, HNode (n - 1) l sub r) }
         else do {
           sub \<leftarrow> mData r;
           (p, r) \<leftarrow> node_pop outRanks (set_data d r);
           Some (p, HNode (n - 1) l sub r) })
      else Some (HNode (n - 1) Null d Null, Null))"
  by pat_completeness auto
termination by (relation "measure (\<lambda>(_, t). size t)") auto

fun node_remove ::
  "('a \<Rightarrow> 'a \<Rightarrow> bool) \<Rightarrow> 'a \<Rightarrow> 'a LocHeapNode \<Rightarrow> ('a LocHeapNode option \<times> 'a LocHeapNode) option" where
  "node_remove outRanks x Null = None"
| "node_remove outRanks x (HNode n l d r) =
     (if x = d then do {
        (p, t) \<leftarrow> node_pop outRanks (HNode n l d r);
        Some (Some p, t) }
      else if \<not> outRanks x d then do {
        (removed, l) \<leftarrow> (if l \<noteq> Null then node_remove outRanks x l else Some (None, l));
        (removed, r) \<leftarrow> (if removed = None \<and> r \<noteq> Null then node_remove outRanks x r
                        else Some (removed, r));
        Some (removed, HNode (if removed \<noteq> None then n - 1 else n) l d r) }
      else Some (None, HNode n l d r))"

fun checkNodes :: "('a \<Rightarrow> 'a \<Rightarrow> bool) \<Rightarrow> 'a LocHeapNode \<Rightarrow> bool" where
  "checkNodes outRanks Null = True"
| "checkNodes outRanks (HNode n l d r) =
     ((case l of Null \<Rightarrow> True | HNode _ _ a _ \<Rightarrow> \<not> (outRanks a d \<or> \<not> checkNodes outRanks l)) \<and>
      (case r of Null \<Rightarrow> True | HNode _ _ b _ \<Rightarrow> \<not> (outRanks b d \<or> \<not> checkNodes outRanks r)) \<and>
      n - mSize l - mSize r = 1)"

section \<open>Operations of the heap\<close>

text \<open>The state of a \<open>LocHeap\<close> is \<open>mTree\<close>.\<close>

definition heap_push :: "('a \<Rightarrow> 'a \<Rightarrow> bool) \<Rightarrow> 'a \<Rightarrow> 'a LocHeapNode \<Rightarrow> 'a LocHeapNode option" where
  "heap_push outRanks x mTree =
     (if mTree = Null then Some (new_node x) else node_push outRanks x mTree)"

definition heap_peek :: "'a LocHeapNode \<Rightarrow> 'a option" where
  "heap_peek mTree = (if mTree \<noteq> Null then mData mTree else None)"

definition heap_pop ::
  "('a \<Rightarrow> 'a \<Rightarrow> bool) \<Rightarrow> 'a LocHeapNode \<Rightarrow> ('a option \<times> 'a LocHeapNode) option" where
  "heap_pop outRanks mTree =
     (if mTree \<noteq> Null then do {
        (p, t) \<leftarrow> node_pop outRanks mTree;
        Some (mData p, t) }
      else Some (None, mTree))"

definition heap_remove ::
  "('a \<Rightarrow> 'a \<Rightarrow> bool) \<Rightarrow> 'a \<Rightarrow> 'a LocHeapNode \<Rightarrow> ('a option \<times> 'a LocHeapNode) option" where
  "heap_remove outRanks x mTree =
     (if mTree \<noteq> Null then do {
        (p, t) \<leftarrow> node_remove outRanks x mTree;
        Some (case p of None \<Rightarrow> None | Some node \<Rightarrow> mData node, t) }
      else Some (None, mTree))"

section \<open>Invariant\<close>

fun mset_node :: "'a LocHeapNode \<Rightarrow> 'a multiset" where
  "mset_node Null = {#}"
| "mset_node (HNode n l d r) = add_mset d (mset_node l + mset_node r)"

lemma set_mset_node [simp]: "set_mset (mset_node t) = set_node t"
  by (induction t) auto

lemma set_node_add: "mset_node t = add_mset x (mset_node u) \<Longrightarrow> set_node t = insert x (set_node u)"
  by (metis set_mset_add_mset_insert set_mset_node)

lemma mset_node_empty_iff [simp]: "mset_node t = {#} \<longleftrightarrow> t = Null"
  by (cases t) auto

text \<open>Every node counts its subtree, itself included, and nothing below outranks it.\<close>

fun heap_inv :: "('a \<Rightarrow> 'a \<Rightarrow> bool) \<Rightarrow> 'a LocHeapNode \<Rightarrow> bool" where
  "heap_inv outRanks Null = True"
| "heap_inv outRanks (HNode n l d r) =
     (n = 1 + int (size (mset_node l)) + int (size (mset_node r)) \<and>
      (\<forall>x \<in> set_node l \<union> set_node r. \<not> outRanks x d) \<and>
      heap_inv outRanks l \<and> heap_inv outRanks r)"

lemma heap_inv_mSize: "heap_inv rk t \<Longrightarrow> mSize t = int (size (mset_node t))"
  by (cases t) auto

lemma mset_set_data: "mData t = Some d \<Longrightarrow> add_mset d (mset_node (set_data x t)) = add_mset x (mset_node t)"
  by (cases t) (auto simp: add_mset_commute)

lemma mData_set_data [simp]: "mData (set_data x t) = (if t = Null then None else Some x)"
  by (cases t) auto

lemma set_data_Null [simp]: "set_data x t = Null \<longleftrightarrow> t = Null"
  by (cases t) auto

lemma heap_inv_set_data:
  "heap_inv rk t \<Longrightarrow> (\<And>x. x \<in> set_node t \<Longrightarrow> \<not> rk x d) \<Longrightarrow> heap_inv rk (set_data d t)"
  by (cases t) auto

lemma mData_in: "mData t = Some d \<Longrightarrow> d \<in> set_node t"
  by (cases t) auto

lemma mData_None: "mData t = None \<longleftrightarrow> t = Null"
  by (cases t) auto

lemma heap_inv_top: "heap_inv rk t \<Longrightarrow> mData t = Some d \<Longrightarrow> (\<not> rk d d) \<Longrightarrow> x \<in> set_node t \<Longrightarrow> \<not> rk x d"
  by (cases t) auto

text \<open>One step of \<open>push\<close>, with the better ranked of the two data kept in the node.\<close>

lemma node_push_HNode:
  "node_push rk x (HNode n l d r) =
     (let hi = (if rk x d then x else d); lo = (if rk x d then d else x) in
      if l = Null then Some (HNode (n + 1) (new_node lo) hi r)
      else if r = Null then Some (HNode (n + 1) l hi (new_node lo))
      else if mSize l \<le> mSize r then map_option (\<lambda>l'. HNode (n + 1) l' hi r) (node_push rk lo l)
      else map_option (\<lambda>r'. HNode (n + 1) l hi r') (node_push rk lo r))"
  by (cases "node_push rk d l"; cases "node_push rk x l"; cases "node_push rk d r";
      cases "node_push rk x r") (simp_all add: Let_def)

declare node_push.simps(2) [simp del] node_pop.simps(2) [simp del] node_remove.simps(2) [simp del]

text \<open>
  The laws a client's ranking must obey on the objects it stores (\<open>ok\<close>): a strict weak
  order. The heap's lemmas are proved from them alone.
\<close>

locale rankable =
  fixes outRanks :: "'a \<Rightarrow> 'a \<Rightarrow> bool" and ok :: "'a \<Rightarrow> bool"
  assumes asym: "ok a \<Longrightarrow> ok b \<Longrightarrow> outRanks a b \<Longrightarrow> \<not> outRanks b a"
    and neg_trans: "ok a \<Longrightarrow> ok b \<Longrightarrow> ok c \<Longrightarrow> \<not> outRanks a b \<Longrightarrow> \<not> outRanks b c \<Longrightarrow> \<not> outRanks a c"
begin

abbreviation good :: "'a LocHeapNode \<Rightarrow> bool" where
  "good t \<equiv> heap_inv outRanks t \<and> (\<forall>x \<in> set_node t. ok x)"

lemma irrefl: "ok a \<Longrightarrow> \<not> outRanks a a"
  using asym by blast

lemma node_push_ok:
  assumes "good t" "ok x" "t \<noteq> Null"
  shows "\<exists>t'. node_push outRanks x t = Some t' \<and> t' \<noteq> Null \<and>
           mset_node t' = add_mset x (mset_node t) \<and> heap_inv outRanks t'"
  using assms
proof (induction t arbitrary: x)
  case Null
  then show ?case by simp
next
  case (HNode n l d r)
  define hi where "hi = (if outRanks x d then x else d)"
  define lo where "lo = (if outRanks x d then d else x)"
  have ok: "ok d" "ok x" "\<And>y. y \<in> set_node l \<union> set_node r \<Longrightarrow> ok y \<and> \<not> outRanks y d"
    using HNode.prems by auto
  have "\<not> outRanks lo hi"
    using asym [OF ok(2,1)] by (simp add: hi_def lo_def)
  moreover have "\<not> outRanks y hi" if "y \<in> set_node l \<union> set_node r" for y
    using ok(3) [OF that] neg_trans [of y d x] asym [OF ok(2,1)] ok(1,2) by (auto simp: hi_def)
  ultimately have b: "\<not> outRanks lo hi" "\<forall>y \<in> set_node l \<union> set_node r. \<not> outRanks y hi"
    by auto
  have "ok lo" using HNode.prems by (simp add: lo_def)
  have data: "add_mset hi (add_mset lo M) = add_mset x (add_mset d M)" for M
    by (simp add: hi_def lo_def add_mset_commute)
  have rec: "\<exists>u'. node_push outRanks lo u = Some u' \<and> mset_node u' = add_mset lo (mset_node u) \<and>
      heap_inv outRanks u' \<and> set_node u' = insert lo (set_node u)"
    if u: "u = l \<or> u = r" "u \<noteq> Null" for u
  proof -
    obtain u' where "node_push outRanks lo u = Some u'" "mset_node u' = add_mset lo (mset_node u)"
      "heap_inv outRanks u'"
      using u HNode.IH [of lo] HNode.prems \<open>ok lo\<close> by auto
    then show ?thesis using set_node_add by metis
  qed
  have eq: "node_push outRanks x (HNode n l d r) =
     (if l = Null then Some (HNode (n + 1) (new_node lo) hi r)
      else if r = Null then Some (HNode (n + 1) l hi (new_node lo))
      else if mSize l \<le> mSize r then map_option (\<lambda>l'. HNode (n + 1) l' hi r) (node_push outRanks lo l)
      else map_option (\<lambda>r'. HNode (n + 1) l hi r') (node_push outRanks lo r))"
    by (simp add: node_push_HNode Let_def hi_def lo_def)
  show ?case
  proof (cases "l = Null \<or> r = Null")
    case True
    then show ?thesis
      unfolding eq using HNode.prems(1) b data [of "mset_node l"] data [of "mset_node r"]
      by (cases "l = Null") (simp_all add: new_node_def)
  next
    case False
    then obtain l' r' where
      "node_push outRanks lo l = Some l'" "mset_node l' = add_mset lo (mset_node l)"
      "heap_inv outRanks l'" "set_node l' = insert lo (set_node l)"
      "node_push outRanks lo r = Some r'" "mset_node r' = add_mset lo (mset_node r)"
      "heap_inv outRanks r'" "set_node r' = insert lo (set_node r)"
      using rec [of l] rec [of r] by auto
    then show ?thesis
      unfolding eq using False HNode.prems(1) b data [of "mset_node l + mset_node r"] by simp
  qed
qed

lemma left_first_cases:
  assumes "left_first outRanks l r" "good l" "good r"
  obtains a where "mData l = Some a" "\<And>x. x \<in> set_node l \<union> set_node r \<Longrightarrow> \<not> outRanks x a"
proof -
  obtain n ll a lr where l: "l = HNode n ll a lr" using assms(1) by (cases l) auto
  have "\<not> outRanks x a" if "x \<in> set_node l" for x
    using that assms(2) l irrefl by auto
  moreover have "\<not> outRanks x a" if "x \<in> set_node r" for x
  proof -
    obtain m rl b rr where r: "r = HNode m rl b rr" using \<open>x \<in> set_node r\<close> by (cases r) auto
    have "\<not> outRanks b a" using assms l r asym by auto
    moreover have "\<not> outRanks x b" using that assms(3) r irrefl by auto
    ultimately show ?thesis using neg_trans [of x b a] that assms(2,3) l r by auto
  qed
  ultimately show thesis using that l by auto
qed

lemma right_first_cases:
  assumes "\<not> left_first outRanks l r" "good l" "good r" "l \<noteq> Null \<or> r \<noteq> Null"
  obtains b where "mData r = Some b" "\<And>x. x \<in> set_node l \<union> set_node r \<Longrightarrow> \<not> outRanks x b"
proof -
  obtain m rl b rr where r: "r = HNode m rl b rr"
    using assms(1,4) by (cases l; cases r) auto
  have "\<not> outRanks x b" if "x \<in> set_node r" for x
    using that assms(3) r irrefl by auto
  moreover have "\<not> outRanks x b" if "x \<in> set_node l" for x
  proof -
    obtain n ll a lr where l: "l = HNode n ll a lr" using \<open>x \<in> set_node l\<close> by (cases l) auto
    have "\<not> outRanks a b" using assms l r by auto
    moreover have "\<not> outRanks x a" using that assms(2) l irrefl by auto
    ultimately show ?thesis using neg_trans [of x a b] that assms(2,3) l r by auto
  qed
  ultimately show thesis using that r by auto
qed

lemma node_pop_ok:
  assumes "good t" "mData t = Some d"
  shows "\<exists>p t'. node_pop outRanks t = Some (p, t') \<and> mData p = Some d \<and>
           mset_node t = add_mset d (mset_node t') \<and> heap_inv outRanks t'"
  using assms
proof (induction t arbitrary: d rule: measure_induct_rule [where f = size])
  case (less t)
  obtain n l r where t: "t = HNode n l d r" using less.prems(2) by (cases t) auto
  have good: "good l" "good r" and "ok d" and n: "n = 1 + int (size (mset_node l)) + int (size (mset_node r))"
    and top: "\<And>x. x \<in> set_node l \<union> set_node r \<Longrightarrow> \<not> outRanks x d"
    using less.prems(1) t by auto
  have rec: "\<exists>p u'. node_pop outRanks (set_data d u) = Some (p, u') \<and> mData p = Some d \<and>
      mset_node u = add_mset e (mset_node u') \<and> heap_inv outRanks u'"
    if u: "u = l \<or> u = r" and e: "mData u = Some e" for u e
  proof -
    have "good (set_data d u)"
      using u good top \<open>ok d\<close> heap_inv_set_data [of outRanks u d] by (cases u) auto
    moreover have "mData (set_data d u) = Some d" using e by (cases u) auto
    moreover have "size (set_data d u) < size t" using u t by auto
    ultimately obtain p u' where "node_pop outRanks (set_data d u) = Some (p, u')" "mData p = Some d"
      "mset_node (set_data d u) = add_mset d (mset_node u')" "heap_inv outRanks u'"
      using less.IH by blast
    then show ?thesis using mset_set_data [OF e, of d] by (auto simp: add_mset_commute)
  qed
  show ?case
  proof (cases "l \<noteq> Null \<or> r \<noteq> Null")
    case False
    then show ?thesis using t by (simp add: node_pop.simps)
  next
    case some: True
    show ?thesis
    proof (cases "left_first outRanks l r")
      case True
      then obtain a where a: "mData l = Some a" "\<And>x. x \<in> set_node l \<union> set_node r \<Longrightarrow> \<not> outRanks x a"
        using left_first_cases good by blast
      obtain p u where pu: "node_pop outRanks (set_data d l) = Some (p, u)" "mData p = Some d"
        "mset_node l = add_mset a (mset_node u)" "heap_inv outRanks u"
        using rec a(1) by blast
      have "set_node u \<subseteq> set_node l" using set_node_add [OF pu(3)] by auto
      then have "heap_inv outRanks (HNode (n - 1) u a r)"
        using pu a(2) good n by auto
      then show ?thesis using t some True a(1) pu by (simp add: node_pop.simps add_mset_commute)
    next
      case False
      then obtain b where b: "mData r = Some b" "\<And>x. x \<in> set_node l \<union> set_node r \<Longrightarrow> \<not> outRanks x b"
        using right_first_cases good some by blast
      obtain p u where pu: "node_pop outRanks (set_data d r) = Some (p, u)" "mData p = Some d"
        "mset_node r = add_mset b (mset_node u)" "heap_inv outRanks u"
        using rec b(1) by blast
      have "set_node u \<subseteq> set_node r" using set_node_add [OF pu(3)] by auto
      then have "heap_inv outRanks (HNode (n - 1) l b u)"
        using pu b(2) good n by auto
      then show ?thesis using t some False b(1) pu by (simp add: node_pop.simps add_mset_commute)
    qed
  qed
qed

lemma node_remove_ok:
  assumes "good t" "t \<noteq> Null" "ok x"
  shows "\<exists>rm t'. node_remove outRanks x t = Some (rm, t') \<and> heap_inv outRanks t' \<and>
           (if x \<in> set_node t
            then (\<exists>p. rm = Some p \<and> mData p = Some x) \<and> mset_node t = add_mset x (mset_node t')
            else rm = None \<and> t' = t)"
  using assms
proof (induction t)
  case Null
  then show ?case by simp
next
  case (HNode n l d r)
  consider "x = d" | "x \<noteq> d" "outRanks x d" | "x \<noteq> d" "\<not> outRanks x d" by blast
  then show ?case
  proof cases
    case 1
    then show ?thesis using node_pop_ok [OF HNode.prems(1), of d] by (auto simp: node_remove.simps)
  next
    case 2
    then have "x \<notin> set_node (HNode n l d r)" using HNode.prems by auto
    then show ?thesis using 2 HNode.prems by (simp add: node_remove.simps)
  next
    case 3
    define L where "L = (if l \<noteq> Null then node_remove outRanks x l else Some (None, l))"
    have hyps: "good l" "good r" "ok x" using HNode.prems by auto
    obtain rl l' where L: "L = Some (rl, l')" "heap_inv outRanks l'"
      "if x \<in> set_node l then (\<exists>p. rl = Some p \<and> mData p = Some x) \<and> mset_node l = add_mset x (mset_node l')
       else rl = None \<and> l' = l"
    proof (cases "l = Null")
      case True
      then show thesis using that [of None Null] by (simp add: L_def)
    next
      case False
      then show thesis using HNode.IH(1) [OF hyps(1) False hyps(3)] that by (auto simp: L_def)
    qed
    define R where "R = (if rl = None \<and> r \<noteq> Null then node_remove outRanks x r else Some (rl, r))"
    obtain rr r' where R: "R = Some (rr, r')" "heap_inv outRanks r'"
      "if rl = None \<and> x \<in> set_node r
       then (\<exists>p. rr = Some p \<and> mData p = Some x) \<and> mset_node r = add_mset x (mset_node r')
       else rr = rl \<and> r' = r"
    proof (cases "rl = None \<and> r \<noteq> Null")
      case True
      then obtain rm t' where "node_remove outRanks x r = Some (rm, t')" "heap_inv outRanks t'"
        "if x \<in> set_node r then (\<exists>p. rm = Some p \<and> mData p = Some x) \<and> mset_node r = add_mset x (mset_node t')
         else rm = None \<and> t' = r"
        using HNode.IH(2) [OF hyps(2) _ hyps(3)] by blast
      then show thesis using that [of rm t'] True by (simp add: R_def)
    next
      case False
      then have "R = Some (rl, r)" "\<not> (rl = None \<and> x \<in> set_node r)" by (auto simp: R_def)
      then show thesis using that [of rl r] hyps(2) by simp
    qed
    have "node_remove outRanks x (HNode n l d r) = do {
        (removed, l) \<leftarrow> L;
        (removed, r) \<leftarrow> (if removed = None \<and> r \<noteq> Null then node_remove outRanks x r
                        else Some (removed, r));
        Some (removed, HNode (if removed \<noteq> None then n - 1 else n) l d r) }"
      using 3 unfolding L_def node_remove.simps by simp
    also have "\<dots> = do {
        (removed, r) \<leftarrow> R;
        Some (removed, HNode (if removed \<noteq> None then n - 1 else n) l' d r) }"
      unfolding L(1) R_def by simp
    also have "\<dots> = Some (rr, HNode (if rr \<noteq> None then n - 1 else n) l' d r')"
      unfolding R(1) by simp
    finally have eq: "node_remove outRanks x (HNode n l d r) =
        Some (rr, HNode (if rr \<noteq> None then n - 1 else n) l' d r')" .
    have sub: "set_node l' \<subseteq> set_node l" "set_node r' \<subseteq> set_node r"
      using L(3) R(3) by (auto dest: set_node_add split: if_splits)
    show ?thesis
    proof (cases "x \<in> set_node l")
      case True
      then show ?thesis using 3 L R sub eq HNode.prems by (auto simp: add_mset_commute)
    next
      case False
      then show ?thesis using 3 L R sub eq HNode.prems by (auto simp: add_mset_commute)
    qed
  qed
qed

lemma checkNodes_iff: "\<forall>x \<in> set_node t. ok x \<Longrightarrow> checkNodes outRanks t \<longleftrightarrow> heap_inv outRanks t"
proof (induction t)
  case Null
  then show ?case by simp
next
  case (HNode n l d r)
  have sub: "(case u of Null \<Rightarrow> True | HNode _ _ a _ \<Rightarrow> \<not> (outRanks a d \<or> \<not> checkNodes outRanks u)) \<longleftrightarrow>
      (\<forall>x \<in> set_node u. \<not> outRanks x d) \<and> heap_inv outRanks u"
    if "checkNodes outRanks u \<longleftrightarrow> heap_inv outRanks u" "\<forall>x \<in> set_node u. ok x" "ok d" for u
  proof (cases u)
    case (HNode m ul a ur)
    then show ?thesis
      using that neg_trans [of _ a d] heap_inv_top [of outRanks u a] irrefl by auto
  qed auto
  show ?case
    using sub [of l] sub [of r] HNode heap_inv_mSize [of outRanks l] heap_inv_mSize [of outRanks r]
    by auto
qed

end

section \<open>The interface of a ranked queue\<close>

text \<open>
  What the timer service uses: \<open>Inv q M\<close> says that the queue \<open>q\<close> is well formed and holds
  the multiset \<open>M\<close> of objects.
\<close>

locale rank_queue = rankable outRanks ok
  for outRanks :: "'a \<Rightarrow> 'a \<Rightarrow> bool" and ok :: "'a \<Rightarrow> bool" +
  fixes Inv :: "'q \<Rightarrow> 'a multiset \<Rightarrow> bool"
    and push :: "'a \<Rightarrow> 'q \<Rightarrow> 'q option"
    and peek :: "'q \<Rightarrow> 'a option"
    and pop :: "'q \<Rightarrow> ('a option \<times> 'q) option"
    and remove :: "'a \<Rightarrow> 'q \<Rightarrow> ('a option \<times> 'q) option"
  assumes Inv_ok: "Inv q M \<Longrightarrow> x \<in># M \<Longrightarrow> ok x"
    and push_law: "Inv q M \<Longrightarrow> ok x \<Longrightarrow> \<exists>q'. push x q = Some q' \<and> Inv q' (add_mset x M)"
    and peek_empty: "Inv q M \<Longrightarrow> peek q = None \<longleftrightarrow> M = {#}"
    and peek_top: "Inv q M \<Longrightarrow> peek q = Some x \<Longrightarrow> x \<in># M \<and> (\<forall>y \<in># M. \<not> outRanks y x)"
    and pop_law: "Inv q M \<Longrightarrow> peek q = Some x \<Longrightarrow> \<exists>q'. pop q = Some (Some x, q') \<and> Inv q' (M - {#x#})"
    and pop_none: "Inv q M \<Longrightarrow> peek q = None \<Longrightarrow> pop q = Some (None, q)"
    and remove_law: "Inv q M \<Longrightarrow> ok x \<Longrightarrow>
      \<exists>q'. remove x q = Some (if x \<in># M then Some x else None, q') \<and> Inv q' (M - {#x#})"
begin

text \<open>Popping from the top until it satisfies \<open>stop\<close>, with fuel for at most \<open>n\<close> pops.\<close>

fun drain :: "nat \<Rightarrow> ('a \<Rightarrow> bool) \<Rightarrow> 'q \<Rightarrow> ('a list \<times> 'q) option" where
  "drain 0 stop q = Some ([], q)"
| "drain (Suc n) stop q = (case peek q of
     None \<Rightarrow> Some ([], q)
   | Some x \<Rightarrow> if stop x then Some ([], q) else do {
       (_, q) \<leftarrow> pop q;
       (xs, q) \<leftarrow> drain n stop q;
       Some (x # xs, q) })"

lemma drain_ok:
  assumes "Inv q M" "size M \<le> n"
    and stop: "\<And>x y. ok x \<Longrightarrow> ok y \<Longrightarrow> stop x \<Longrightarrow> \<not> outRanks y x \<Longrightarrow> stop y"
  shows "\<exists>xs q'. drain n stop q = Some (xs, q') \<and> mset xs = filter_mset (\<lambda>x. \<not> stop x) M \<and>
           Inv q' (filter_mset stop M) \<and> sorted_wrt (\<lambda>a b. \<not> outRanks b a) xs"
  using assms(1,2)
proof (induction n arbitrary: q M)
  case 0
  then show ?case by auto
next
  case (Suc n)
  show ?case
  proof (cases "peek q")
    case None
    then show ?thesis using Suc.prems peek_empty [OF Suc.prems(1)] by auto
  next
    case (Some x)
    have x: "x \<in># M" "\<forall>y \<in># M. \<not> outRanks y x" "ok x"
      using peek_top [OF Suc.prems(1) Some] Inv_ok [OF Suc.prems(1)] by auto
    show ?thesis
    proof (cases "stop x")
      case True
      then have "\<forall>y \<in># M. stop y" using x stop Inv_ok [OF Suc.prems(1)] by blast
      then have "filter_mset (\<lambda>y. \<not> stop y) M = {#}" "filter_mset stop M = M"
        by (auto simp: filter_mset_eq_conv)
      then show ?thesis using Some True Suc.prems(1) by auto
    next
      case False
      obtain q1 where q1: "pop q = Some (Some x, q1)" "Inv q1 (M - {#x#})"
        using pop_law [OF Suc.prems(1) Some] by auto
      obtain M' where M': "M = add_mset x M'" using x(1) by (meson multi_member_split)
      obtain xs q' where d: "drain n stop q1 = Some (xs, q')"
        "mset xs = filter_mset (\<lambda>y. \<not> stop y) M'" "Inv q' (filter_mset stop M')"
        "sorted_wrt (\<lambda>a b. \<not> outRanks b a) xs"
        using Suc.IH [of q1 M'] q1(2) Suc.prems(2) M' by auto
      have "set xs \<subseteq> set_mset M" using arg_cong [OF d(2), of set_mset] M' by auto
      then show ?thesis using Some False q1(1) d x(2) M' by auto
    qed
  qed
qed

lemma push_remove:
  assumes "Inv q M" "ok x" "x \<notin># M"
  shows "\<exists>q1 q2. push x q = Some q1 \<and> remove x q1 = Some (Some x, q2) \<and> Inv q2 M"
  using push_law [OF assms(1,2)] remove_law [of _ "add_mset x M" x] assms(2) by fastforce

end

text \<open>\<open>LocHeap\<close> is such a queue for every ranking that is a strict weak order.\<close>

sublocale rankable \<subseteq> hq: rank_queue outRanks ok "\<lambda>t M. good t \<and> M = mset_node t"
  "heap_push outRanks" heap_peek "heap_pop outRanks" "heap_remove outRanks"
proof unfold_locales
  fix q M x
  assume q: "good q \<and> M = mset_node q"
  show "ok x" if "x \<in># M" using that q by auto
  show "heap_peek q = None \<longleftrightarrow> M = {#}"
    using q by (cases q) (auto simp: heap_peek_def)
  show "x \<in># M \<and> (\<forall>y \<in># M. \<not> outRanks y x)" if "heap_peek q = Some x"
    using that q mData_in [of q x] heap_inv_top [of outRanks q x] irrefl
    by (auto simp: heap_peek_def split: if_splits)
  show "\<exists>q'. heap_pop outRanks q = Some (Some x, q') \<and> good q' \<and> M - {#x#} = mset_node q'"
    if "heap_peek q = Some x"
  proof -
    have x: "q \<noteq> Null" "mData q = Some x" using that by (auto simp: heap_peek_def split: if_splits)
    then obtain p t where "node_pop outRanks q = Some (p, t)" "mData p = Some x"
      "mset_node q = add_mset x (mset_node t)" "heap_inv outRanks t"
      using node_pop_ok q by blast
    then show ?thesis using x q set_node_add [of q x t] by (auto simp: heap_pop_def)
  qed
  show "heap_pop outRanks q = Some (None, q)" if "heap_peek q = None"
    using that by (cases q) (auto simp: heap_peek_def heap_pop_def)
  assume okx: "ok x"
  show "\<exists>q'. heap_push outRanks x q = Some q' \<and> good q' \<and> add_mset x M = mset_node q'"
  proof (cases "q = Null")
    case True
    then show ?thesis using q okx by (auto simp: heap_push_def new_node_def)
  next
    case False
    then obtain t where "node_push outRanks x q = Some t" "mset_node t = add_mset x (mset_node q)"
      "heap_inv outRanks t"
      using node_push_ok q okx by blast
    then show ?thesis using False q okx set_node_add [of t x q] by (auto simp: heap_push_def)
  qed
  show "\<exists>q'. heap_remove outRanks x q = Some (if x \<in># M then Some x else None, q') \<and>
          good q' \<and> M - {#x#} = mset_node q'"
  proof (cases "q = Null")
    case True
    then show ?thesis using q by (auto simp: heap_remove_def)
  next
    case False
    then obtain rm t where rm: "node_remove outRanks x q = Some (rm, t)" "heap_inv outRanks t"
      "if x \<in> set_node q then (\<exists>p. rm = Some p \<and> mData p = Some x) \<and> mset_node q = add_mset x (mset_node t)
       else rm = None \<and> t = q"
      using node_remove_ok q okx by blast
    show ?thesis
    proof (cases "x \<in> set_node q")
      case True
      then obtain p where p: "rm = Some p" "mData p = Some x" "mset_node q = add_mset x (mset_node t)"
        using rm(3) by auto
      then have "heap_remove outRanks x q = Some (Some x, t)" "M - {#x#} = mset_node t" "x \<in># M"
        using rm(1) False q True by (simp_all add: heap_remove_def)
      moreover have "good t" using rm(2) q set_node_add [OF p(3)] by simp
      ultimately show ?thesis by simp
    next
      case notin: False
      then have "rm = None" "t = q" "x \<notin># M" using rm(3) q by auto
      then have "heap_remove outRanks x q = Some (None, q)" "M - {#x#} = M"
        using rm(1) False by (simp_all add: heap_remove_def diff_single_trivial)
      then show ?thesis using q \<open>x \<notin># M\<close> by simp
    qed
  qed
qed

context rankable
begin

lemma heap_rank_queue:
  "rank_queue outRanks ok (\<lambda>t M. good t \<and> M = mset_node t)
     (heap_push outRanks) heap_peek (heap_pop outRanks) (heap_remove outRanks)"
  by unfold_locales

end

section \<open>Balance\<close>

fun height :: "'a LocHeapNode \<Rightarrow> nat" where
  "height Null = 0"
| "height (HNode n l d r) = Suc (max (height l) (height r))"

text \<open>The left subtree has as many nodes as the right one, or one more.\<close>

fun balanced :: "'a LocHeapNode \<Rightarrow> bool" where
  "balanced Null = True"
| "balanced (HNode n l d r) =
     (size (mset_node r) \<le> size (mset_node l) \<and> size (mset_node l) \<le> Suc (size (mset_node r)) \<and>
      balanced l \<and> balanced r)"

fun sizes_ok :: "'a LocHeapNode \<Rightarrow> bool" where
  "sizes_ok Null = True"
| "sizes_ok (HNode n l d r) =
     (n = 1 + int (size (mset_node l)) + int (size (mset_node r)) \<and> sizes_ok l \<and> sizes_ok r)"

lemma sizes_ok_mSize: "sizes_ok t \<Longrightarrow> mSize t = int (size (mset_node t))"
  by (cases t) auto

lemma height_balanced: "balanced t \<Longrightarrow> 2 ^ height t \<le> 2 * size (mset_node t) \<or> t = Null"
proof (induction t)
  case Null
  then show ?case by simp
next
  case (HNode n l d r)
  define L R where "L = size (mset_node l)" and "R = size (mset_node r)"
  have bal: "R \<le> L" "L \<le> Suc R" using HNode.prems by (auto simp: L_def R_def)
  define A B where "A = (2::nat) ^ height l" and "B = (2::nat) ^ height r"
  have "l = Null \<Longrightarrow> A = 1" "r = Null \<Longrightarrow> B = 1" by (simp_all add: A_def B_def)
  then have "A \<le> 2 * L \<or> A = 1" "B \<le> 2 * R \<or> B = 1"
    using HNode unfolding L_def R_def A_def B_def by auto
  moreover define M where "M = (2::nat) ^ max (height l) (height r)"
  moreover have "M = A \<or> M = B"
    unfolding A_def B_def M_def by (cases "height l \<le> height r") (simp_all add: max_absorb1 max_absorb2)
  ultimately have "M \<le> Suc (L + R)"
    using bal by arith
  then show ?case by (simp add: L_def R_def M_def)
qed

lemma node_push_balanced:
  assumes "balanced t" "sizes_ok t" "node_push rk x t = Some t'"
  shows "balanced t' \<and> sizes_ok t' \<and> size (mset_node t') = Suc (size (mset_node t))"
  using assms
proof (induction t arbitrary: x t')
  case Null
  then show ?case by simp
next
  case (HNode n l d r)
  define hi where "hi = (if rk x d then x else d)"
  define lo where "lo = (if rk x d then d else x)"
  have eq: "node_push rk x (HNode n l d r) =
     (if l = Null then Some (HNode (n + 1) (new_node lo) hi r)
      else if r = Null then Some (HNode (n + 1) l hi (new_node lo))
      else if mSize l \<le> mSize r then map_option (\<lambda>l'. HNode (n + 1) l' hi r) (node_push rk lo l)
      else map_option (\<lambda>r'. HNode (n + 1) l hi r') (node_push rk lo r))"
    by (simp add: node_push_HNode Let_def hi_def lo_def)
  have sub: "balanced l" "balanced r" "sizes_ok l" "sizes_ok r"
    "size (mset_node r) \<le> size (mset_node l)" "size (mset_node l) \<le> Suc (size (mset_node r))"
    "n = 1 + int (size (mset_node l)) + int (size (mset_node r))"
    using HNode.prems(1,2) by auto
  have szl: "mSize l = int (size (mset_node l))" and szr: "mSize r = int (size (mset_node r))"
    using sizes_ok_mSize sub by auto
  consider "l = Null" | "l \<noteq> Null" "r = Null" | "l \<noteq> Null" "r \<noteq> Null" by blast
  then show ?case
  proof cases
    case 1
    then have "t' = HNode (n + 1) (new_node lo) hi r" using HNode.prems(3) unfolding eq by simp
    then show ?thesis using 1 sub by (simp add: new_node_def)
  next
    case 2
    then have "t' = HNode (n + 1) l hi (new_node lo)" using HNode.prems(3) unfolding eq by simp
    moreover have "size (mset_node l) = 1"
      using 2 sub(6) by (cases "mset_node l") auto
    ultimately show ?thesis using 2 sub by (simp add: new_node_def)
  next
    case 3
    show ?thesis
    proof (cases "mSize l \<le> mSize r")
      case True
      then obtain u where "node_push rk lo l = Some u" "t' = HNode (n + 1) u hi r"
        using HNode.prems(3) 3 by (auto simp: eq)
      then show ?thesis using HNode.IH(1) [OF sub(1,3)] sub True szl szr by simp
    next
      case False
      then obtain u where "node_push rk lo r = Some u" "t' = HNode (n + 1) l hi u"
        using HNode.prems(3) 3 by (auto simp: eq)
      then show ?thesis using HNode.IH(2) [OF sub(2,4)] sub False szl szr by simp
    qed
  qed
qed

text \<open>A heap after a sequence of pushes, and nothing else, from the empty heap.\<close>

fun push_all :: "('a \<Rightarrow> 'a \<Rightarrow> bool) \<Rightarrow> 'a list \<Rightarrow> 'a LocHeapNode \<Rightarrow> 'a LocHeapNode option" where
  "push_all rk [] t = Some t"
| "push_all rk (x # xs) t = (case heap_push rk x t of None \<Rightarrow> None | Some t' \<Rightarrow> push_all rk xs t')"

lemma heap_push_balanced:
  "balanced t \<Longrightarrow> sizes_ok t \<Longrightarrow> heap_push rk x t = Some t' \<Longrightarrow>
     balanced t' \<and> sizes_ok t' \<and> size (mset_node t') = Suc (size (mset_node t))"
  using node_push_balanced [of t rk x t']
  by (auto simp: heap_push_def new_node_def split: if_splits)

lemma node_push_defined: "t \<noteq> Null \<Longrightarrow> \<exists>t'. node_push rk x t = Some t'"
proof (induction t arbitrary: x)
  case Null
  then show ?case by simp
next
  case (HNode n l d r)
  then show ?case by (auto simp: node_push_HNode Let_def)
qed

lemma push_all_balanced:
  assumes "balanced t" "sizes_ok t"
  shows "\<exists>t'. push_all rk xs t = Some t' \<and> balanced t' \<and> sizes_ok t' \<and>
           size (mset_node t') = length xs + size (mset_node t)"
  using assms
proof (induction xs arbitrary: t)
  case Nil
  then show ?case by simp
next
  case (Cons x xs)
  obtain t1 where t1: "heap_push rk x t = Some t1"
    using node_push_defined [of t rk x] by (cases "t = Null") (auto simp: heap_push_def)
  then show ?case using Cons.IH [of t1] heap_push_balanced [OF Cons.prems t1] by auto
qed

section \<open>Properties\<close>

text \<open>
  for every ranking that is a strict weak order on the stored objects, pushing an object
  and then popping never faults, keeps the node counts and the rank order (the class's own
  \<open>checkNodes\<close> holds before and after), and the popped object is one that nothing in the
  heap outranks; the rest stay in the heap.
\<close>

theorem heap_push_pop:
  assumes "rankable rk ok" "checkNodes rk t" "\<forall>y \<in> set_node t. ok y" "ok x"
  shows "\<exists>t1 y t2. heap_push rk x t = Some t1 \<and> checkNodes rk t1 \<and>
           mset_node t1 = add_mset x (mset_node t) \<and>
           heap_pop rk t1 = Some (Some y, t2) \<and> heap_peek t1 = Some y \<and>
           (\<forall>z \<in># mset_node t1. \<not> rk z y) \<and> checkNodes rk t2 \<and>
           mset_node t1 = add_mset y (mset_node t2)"
proof -
  have inv: "rankable.good rk ok t \<and> mset_node t = mset_node t"
    using assms(2,3) rankable.checkNodes_iff [OF assms(1)] by blast
  obtain t1 where t1: "heap_push rk x t = Some t1" "heap_inv rk t1" "\<forall>y \<in> set_node t1. ok y"
    "mset_node t1 = add_mset x (mset_node t)"
    using rank_queue.push_law [OF rankable.heap_rank_queue [OF assms(1)] inv assms(4)] by auto
  have inv1: "(heap_inv rk t1 \<and> (\<forall>y \<in> set_node t1. ok y)) \<and> mset_node t1 = mset_node t1"
    using t1 by simp
  note rq = rankable.heap_rank_queue [OF assms(1)]
  obtain y where y: "heap_peek t1 = Some y"
    using rank_queue.peek_empty [OF rq inv1] t1(4) by (cases "heap_peek t1") auto
  moreover have "y \<in># mset_node t1" "\<forall>z \<in># mset_node t1. \<not> rk z y"
    using rank_queue.peek_top [OF rq inv1 y] by auto
  moreover obtain t2 where "heap_pop rk t1 = Some (Some y, t2)" "heap_inv rk t2"
    "\<forall>z \<in> set_node t2. ok z" "mset_node t1 - {#y#} = mset_node t2"
    using rank_queue.pop_law [OF rq inv1 y] by auto
  ultimately show ?thesis
    using t1 rankable.checkNodes_iff [OF assms(1)] by (metis insert_DiffM)
qed

lemma less_rankable: "rankable (\<lambda>(a::int) b. b < a) (\<lambda>_. True)"
  by unfold_locales auto

theorem heap_push_pop_witness:
  "\<exists>t1 y t2. heap_push (\<lambda>a b. b < a) 7 (HNode 2 (HNode 1 Null 3 Null) (5::int) Null) = Some t1 \<and>
     checkNodes (\<lambda>a b. b < a) t1 \<and> heap_pop (\<lambda>a b. b < a) t1 = Some (Some y, t2) \<and>
     mset_node t1 = {#7, 5, 3#} \<and> mset_node t1 = add_mset y (mset_node t2)"
  using heap_push_pop [OF less_rankable, of "HNode 2 (HNode 1 Null 3 Null) (5::int) Null" 7]
  by auto

text \<open>
  \<open>LocHeap::remove\<close> is exact: although it prunes its search by rank, it finds the given
  object whenever the heap holds it, hands back that object (by identity), removes it and
  nothing else, and keeps the tree consistent; otherwise it returns NULL and changes nothing.
\<close>

theorem heap_remove_exact:
  assumes "rankable rk ok" "checkNodes rk t" "\<forall>y \<in> set_node t. ok y" "ok x"
  shows "\<exists>t'. heap_remove rk x t = Some (if x \<in># mset_node t then Some x else None, t') \<and>
           checkNodes rk t' \<and> mset_node t' = mset_node t - {#x#}"
proof -
  have inv: "(heap_inv rk t \<and> (\<forall>y \<in> set_node t. ok y)) \<and> mset_node t = mset_node t"
    using assms(2,3) rankable.checkNodes_iff [OF assms(1)] by blast
  show ?thesis
    using rank_queue.remove_law [OF rankable.heap_rank_queue [OF assms(1)] inv assms(4)]
      rankable.checkNodes_iff [OF assms(1)] by metis
qed

theorem heap_remove_exact_witness:
  "\<exists>t'. heap_remove (\<lambda>a b. b < a) 3 (HNode 2 (HNode 1 Null 3 Null) (5::int) Null) = Some (Some 3, t') \<and>
     checkNodes (\<lambda>a b. b < a) t' \<and> mset_node t' = {#5#}"
  using heap_remove_exact [OF less_rankable, of "HNode 2 (HNode 1 Null 3 Null) (5::int) Null" 3]
  by auto

text \<open>
  a heap that has only been pushed to is balanced, whatever the ranking: every push
  returns, and with \<open>n\<close> objects the depth \<open>h\<close> of the recursion satisfies \<open>2 ^ h \<le> 2 n\<close>.
\<close>

theorem heap_pushes_balanced:
  assumes "xs \<noteq> []"
  shows "\<exists>t. push_all rk xs Null = Some t \<and> size (mset_node t) = length xs \<and>
           2 ^ height t \<le> 2 * length xs"
proof -
  obtain t where "push_all rk xs Null = Some t" "balanced t" "size (mset_node t) = length xs"
    using push_all_balanced [of Null rk xs] by auto
  moreover then have "t \<noteq> Null" using assms by auto
  ultimately show ?thesis using height_balanced [of t] by auto
qed

theorem heap_pushes_balanced_witness:
  "\<exists>t. push_all (\<lambda>a b. b < a) [1, 2, 3, 4, 5 :: int] Null = Some t \<and> size (mset_node t) = length [1, 2, 3, 4, 5 :: int] \<and>
     2 ^ height t \<le> 2 * length [1, 2, 3, 4, 5 :: int]"
  using heap_pushes_balanced [of "[1, 2, 3, 4, 5 :: int]" "\<lambda>a b. b < a"] by blast

end
