(* ===== verification/Timers.thy ===== *)
theory Timers
  imports LocHeap
begin

text \<open>
  \<open>gps/utils/LocTimer.{h,cpp}\<close> and \<open>LocSharedLock.h\<close>: timers for any number of clients, two
  heaps of running timers (one per wake-up class), one kernel timer per heap, a polling thread
  and a message task. Clients run in threads of their own; the shared lock makes
  \<open>LocTimer::start\<close> and \<open>stop\<close> atomic, the message task handles one message after the other,
  and the code between two lock regions of \<open>LocTimerDelegate::expire\<close>, and between two system
  calls of \<open>LocTimerContainer::expire\<close>, is a point where the other threads run.
  A heap holds pointers to delegates; the model's heap carries each pointer with the
  delegate's \<open>mFutureTime\<close>, which never changes while the delegate lives.
\<close>

section \<open>Data\<close>

text \<open>\<open>struct timespec\<close>: seconds and nanoseconds.\<close>

type_synonym timespec = "int \<times> int"

type_synonym tref = "ptr \<times> timespec"

record LocTimer =
  mTimer :: ptr
  mLock :: ptr
  isWrapper :: bool

record LocTimerDelegate =
  mClient :: ptr
  mSharedLock :: ptr
  mFutureTime :: timespec
  mContainer :: "bool option"

text \<open>A container: the heap, what the kernel timer is set to, whether its fd is polled.\<close>

record LocTimerContainer =
  mTree :: "tref LocHeapNode"
  mArmed :: "timespec option"
  mPolled :: bool

datatype timer_msg =
    MsgTimerPush bool ptr
  | MsgTimerRemove bool ptr
  | MsgTimerExpire bool

text \<open>
  Where the message task is: between messages; with a delegate just popped whose client it is
  about to read; about to call \<open>client->stop()\<close>; about to call \<open>client->timeOutCallback()\<close>.
\<close>

datatype task =
    TaskIdle
  | TaskPopped bool timespec ptr
  | TaskStopping bool timespec ptr
  | TaskFiring bool timespec ptr

text \<open>
  Where the polling thread is: in \<open>epoll_wait\<close>, or at one of the three calls of
  \<open>LocTimerContainer::expire\<close> for a container, with the other ready containers to follow.
\<close>

datatype poll =
    PollWait
  | PollFired bool "bool list"
  | PollDisarmed bool "bool list"
  | PollRemoved bool "bool list"

text \<open>The history the properties speak of.\<close>

datatype timer_event = Started ptr | Stopped ptr | Expired ptr

record timer_st =
  clients :: "LocTimer store"
  locks :: "int store"
  delegates :: "LocTimerDelegate store"
  containers :: "bool \<Rightarrow> LocTimerContainer option"
  msgq :: "timer_msg list"
  task :: task
  poll :: poll
  hist :: "timer_event list"

section \<open>\<open>LocSharedLock\<close>\<close>

definition lock_share :: "ptr \<Rightarrow> timer_st \<Rightarrow> timer_st option" where
  "lock_share l st = do {
     n \<leftarrow> deref (locks st) l;
     Some (st\<lparr>locks := (locks st)(l \<mapsto> n + 1)\<rparr>) }"

definition lock_drop :: "ptr \<Rightarrow> timer_st \<Rightarrow> timer_st option" where
  "lock_drop l st = do {
     n \<leftarrow> deref (locks st) l;
     Some (st\<lparr>locks := (if n = 1 then (locks st)(l := None) else (locks st)(l \<mapsto> n - 1))\<rparr>) }"

section \<open>Ranking\<close>

definition ranks :: "timespec \<Rightarrow> timespec \<Rightarrow> int" where
  "ranks mine theirs =
     (let rank = to_int32 (fst theirs - fst mine) in
      if rank = 0 then to_int32 (snd theirs - snd mine) else rank)"

definition outRanks :: "tref \<Rightarrow> tref \<Rightarrow> bool" where
  "outRanks a b \<longleftrightarrow> ranks (snd a) (snd b) > 0"

section \<open>\<open>LocTimerContainer\<close> and \<open>LocTimerPollTask\<close>\<close>

definition sendMsg :: "timer_msg \<Rightarrow> timer_st \<Rightarrow> timer_st" where
  "sendMsg m st = st\<lparr>msgq := msgq st @ [m]\<rparr>"

definition put_container :: "bool \<Rightarrow> LocTimerContainer \<Rightarrow> timer_st \<Rightarrow> timer_st" where
  "put_container w c st = st\<lparr>containers := (containers st)(w := Some c)\<rparr>"

text \<open>\<open>LocTimerContainer::get\<close>; \<open>fdOk\<close> is whether \<open>timerfd_create\<close> succeeds.\<close>

definition get_container :: "bool \<Rightarrow> bool \<Rightarrow> timer_st \<Rightarrow> timer_st" where
  "get_container wakeOnExpire fdOk st =
     (if containers st wakeOnExpire = None \<and> fdOk
      then put_container wakeOnExpire \<lparr>mTree = Null, mArmed = None, mPolled = False\<rparr> st else st)"

definition addPoll :: "LocTimerContainer \<Rightarrow> LocTimerContainer" where
  "addPoll c = c\<lparr>mPolled := True\<rparr>"

definition removePoll :: "LocTimerContainer \<Rightarrow> LocTimerContainer" where
  "removePoll c = c\<lparr>mPolled := False\<rparr>"

text \<open>\<open>timerfd_settime(fd, TFD_TIMER_ABSTIME, ...)\<close>: the zero time disarms.\<close>

definition settime :: "timespec \<Rightarrow> LocTimerContainer \<Rightarrow> LocTimerContainer" where
  "settime v c = c\<lparr>mArmed := (if v = (0, 0) then None else Some v)\<rparr>"

definition getSoonestTimer :: "LocTimerContainer \<Rightarrow> tref option" where
  "getSoonestTimer c = heap_peek (mTree c)"

definition updateSoonestTime :: "bool \<Rightarrow> tref option \<Rightarrow> timer_st \<Rightarrow> timer_st option" where
  "updateSoonestTime w priorTop st = do {
     c \<leftarrow> containers st w;
     let curTop = getSoonestTimer c;
     if map_option fst curTop \<noteq> map_option fst priorTop then
       (case curTop of
          None \<Rightarrow> Some (put_container w (settime (0, 0) (removePoll c)) st)
        | Some t \<Rightarrow>
            if priorTop = None \<or> outRanks t (the priorTop)
            then Some (put_container w (settime (snd t) (addPoll c)) st)
            else Some st)
     else Some st }"

definition MsgTimerPush_proc :: "bool \<Rightarrow> ptr \<Rightarrow> timer_st \<Rightarrow> timer_st option" where
  "MsgTimerPush_proc w d st = do {
     c \<leftarrow> containers st w;
     let priorTop = getSoonestTimer c;
     timer \<leftarrow> deref (delegates st) d;
     tree \<leftarrow> heap_push outRanks (d, mFutureTime timer) (mTree c);
     updateSoonestTime w priorTop (put_container w (c\<lparr>mTree := tree\<rparr>) st) }"

definition delete_delegate :: "ptr \<Rightarrow> timer_st \<Rightarrow> timer_st option" where
  "delete_delegate d st = do {
     timer \<leftarrow> deref (delegates st) d;
     st \<leftarrow> lock_drop (mSharedLock timer) st;
     Some (st\<lparr>delegates := (delegates st)(d := None)\<rparr>) }"

definition MsgTimerRemove_proc :: "bool \<Rightarrow> ptr \<Rightarrow> timer_st \<Rightarrow> timer_st option" where
  "MsgTimerRemove_proc w d st = do {
     c \<leftarrow> containers st w;
     let priorTop = getSoonestTimer c;
     timer \<leftarrow> deref (delegates st) d;
     (removed, tree) \<leftarrow> heap_remove outRanks (d, mFutureTime timer) (mTree c);
     let st = put_container w (c\<lparr>mTree := tree\<rparr>) st;
     st \<leftarrow> (if map_option fst priorTop = map_option fst removed
           then updateSoonestTime w None st else Some st);
     delete_delegate d st }"

text \<open>
  The loop of \<open>MsgTimerExpire\<close>, cut at the points where other threads run: the first
  \<open>pop\<close>, and what follows the \<open>expire()\<close> of one timer (\<open>popIfOutRanks\<close> and either the next
  round or the end of the loop).
\<close>

definition expire_begin :: "bool \<Rightarrow> timespec \<Rightarrow> timer_st \<Rightarrow> timer_st option" where
  "expire_begin w now st = do {
     c \<leftarrow> containers st w;
     (popped, tree) \<leftarrow> heap_pop outRanks (mTree c);
     let st = put_container w (c\<lparr>mTree := tree\<rparr>) st;
     case popped of
       Some t \<Rightarrow> Some (st\<lparr>task := TaskPopped w now (fst t)\<rparr>)
     | None \<Rightarrow> do {
         st \<leftarrow> updateSoonestTime w None st;
         Some (st\<lparr>task := TaskIdle\<rparr>) } }"

definition popIfOutRanks :: "timespec \<Rightarrow> LocTimerContainer \<Rightarrow> (tref option \<times> LocTimerContainer) option" where
  "popIfOutRanks now c =
     (if mTree c \<noteq> Null then do {
        top \<leftarrow> heap_peek (mTree c);
        if \<not> outRanks (NULL, now) top then do {
          (popped, tree) \<leftarrow> heap_pop outRanks (mTree c);
          Some (popped, c\<lparr>mTree := tree\<rparr>) }
        else Some (None, c) }
      else Some (None, c))"

definition expire_next :: "bool \<Rightarrow> timespec \<Rightarrow> timer_st \<Rightarrow> timer_st option" where
  "expire_next w now st = do {
     c \<leftarrow> containers st w;
     (popped, c) \<leftarrow> popIfOutRanks now c;
     let st = put_container w c st;
     case popped of
       Some t \<Rightarrow> Some (st\<lparr>task := TaskPopped w now (fst t)\<rparr>)
     | None \<Rightarrow> do {
         st \<leftarrow> updateSoonestTime w None st;
         Some (st\<lparr>task := TaskIdle\<rparr>) } }"

section \<open>\<open>LocTimerDelegate\<close> and \<open>LocTimer\<close>\<close>

definition new_LocTimerDelegate :: "ptr \<Rightarrow> ptr \<Rightarrow> timespec \<Rightarrow> bool \<Rightarrow> timer_st \<Rightarrow> timer_st option" where
  "new_LocTimerDelegate d client futureTime w st = do {
     c \<leftarrow> deref (clients st) client;
     st \<leftarrow> lock_share (mLock c) st;
     Some (sendMsg (MsgTimerPush w d)
       (st\<lparr>delegates := (delegates st)(d \<mapsto> \<lparr>mClient = client, mSharedLock = mLock c,
              mFutureTime = futureTime, mContainer = Some w\<rparr>)\<rparr>)) }"

definition destroyLocked :: "ptr \<Rightarrow> timer_st \<Rightarrow> timer_st option" where
  "destroyLocked d st = do {
     t \<leftarrow> deref (delegates st) d;
     case mContainer t of
       None \<Rightarrow> Some (st\<lparr>delegates := (delegates st)(d \<mapsto> t\<lparr>mClient := NULL\<rparr>)\<rparr>)
     | Some w \<Rightarrow> Some (sendMsg (MsgTimerRemove w d)
         (st\<lparr>delegates := (delegates st)(d \<mapsto> t\<lparr>mClient := NULL, mContainer := None\<rparr>)\<rparr>)) }"

text \<open>The absolute time \<open>LocTimer::start\<close> computes.\<close>

definition future_time :: "timespec \<Rightarrow> 32 word \<Rightarrow> timespec" where
  "future_time now timeOutInMs =
     (let sec = fst now + uint (timeOutInMs div 1000);
          nsec = snd now + uint ((timeOutInMs mod 1000) * 1000000)
      in if nsec \<ge> 1000000000 then (sec + nsec div 1000000000, nsec mod 1000000000) else (sec, nsec))"

record timer_env =
  nowBoot :: timespec
  newDelegate :: ptr
  fdOk :: bool

definition LocTimer_new :: "ptr \<Rightarrow> ptr \<Rightarrow> bool \<Rightarrow> timer_st \<Rightarrow> timer_st" where
  "LocTimer_new client lock wrapper st =
     st\<lparr>clients := (clients st)(client \<mapsto> \<lparr>mTimer = NULL, mLock = lock, isWrapper = wrapper\<rparr>),
        locks := (locks st)(lock \<mapsto> 1)\<rparr>"

definition LocTimer_start ::
  "timer_env \<Rightarrow> ptr \<Rightarrow> 32 word \<Rightarrow> bool \<Rightarrow> timer_st \<Rightarrow> (bool \<times> timer_st) option" where
  "LocTimer_start env client timeOutInMs wakeOnExpire st = do {
     c \<leftarrow> deref (clients st) client;
     _ \<leftarrow> deref (locks st) (mLock c);
     if mTimer c = NULL then
       let st = get_container wakeOnExpire (fdOk env) st in
       if containers st wakeOnExpire \<noteq> None then do {
         st \<leftarrow> new_LocTimerDelegate (newDelegate env) client
                (future_time (nowBoot env) timeOutInMs) wakeOnExpire st;
         Some (newDelegate env \<noteq> NULL,
               st\<lparr>clients := (clients st)(client \<mapsto> c\<lparr>mTimer := newDelegate env\<rparr>)\<rparr>) }
       else Some (False, st)
     else Some (False, st) }"

definition LocTimer_stop :: "ptr \<Rightarrow> timer_st \<Rightarrow> (bool \<times> timer_st) option" where
  "LocTimer_stop client st = do {
     c \<leftarrow> deref (clients st) client;
     _ \<leftarrow> deref (locks st) (mLock c);
     if mTimer c \<noteq> NULL then do {
       st \<leftarrow> destroyLocked (mTimer c) (st\<lparr>clients := (clients st)(client \<mapsto> c\<lparr>mTimer := NULL\<rparr>)\<rparr>);
       Some (True, st) }
     else Some (False, st) }"

text \<open>\<open>~LocTimer\<close> and the release of the object; the result is that of its \<open>stop()\<close>.\<close>

definition LocTimer_delete :: "ptr \<Rightarrow> timer_st \<Rightarrow> (bool \<times> timer_st) option" where
  "LocTimer_delete client st = do {
     (stopped, st) \<leftarrow> LocTimer_stop client st;
     c \<leftarrow> deref (clients st) client;
     st \<leftarrow> lock_drop (mLock c) st;
     Some (stopped, st\<lparr>clients := (clients st)(client := None)\<rparr>) }"

section \<open>\<open>LocTimerWrapper\<close> and the C interface\<close>

text \<open>\<open>destroy\<close> reads \<open>mCb\<close> and \<open>mMe\<close>, which are those of a wrapper until it is deleted.\<close>

definition wrapper_destroy :: "ptr \<Rightarrow> timer_st \<Rightarrow> (bool \<times> timer_st) option" where
  "wrapper_destroy this st = do {
     c \<leftarrow> deref (clients st) this;
     if isWrapper c then LocTimer_delete this st else Some (False, st) }"

definition loc_timer_start ::
  "timer_env \<Rightarrow> ptr \<Rightarrow> ptr \<Rightarrow> 64 word \<Rightarrow> bool \<Rightarrow> bool \<Rightarrow> timer_st \<Rightarrow> (ptr \<times> bool \<times> timer_st) option" where
  "loc_timer_start env newWrapper newLock msec cb_func wake_on_expire st =
     (if cb_func then do {
        (started, st) \<leftarrow> LocTimer_start env newWrapper (ucast msec) wake_on_expire
                            (LocTimer_new newWrapper newLock True st);
        Some (newWrapper, started, st) }
      else Some (NULL, False, st))"

definition loc_timer_stop :: "ptr \<Rightarrow> timer_st \<Rightarrow> (bool \<times> timer_st) option" where
  "loc_timer_stop handle st =
     (if handle \<noteq> NULL then wrapper_destroy handle st else Some (False, st))"

section \<open>The steps of the threads\<close>

datatype act =
    ANew ptr ptr
  | AStart timer_env ptr "32 word" bool
  | AStop ptr
  | ADelete ptr
  | AWrapperStart timer_env ptr ptr "64 word" bool
  | AWrapperStop ptr
  | ATask timespec
  | APoll "bool list"

definition record_if :: "bool \<Rightarrow> timer_event \<Rightarrow> timer_st \<Rightarrow> timer_st" where
  "record_if b e st = (if b then st\<lparr>hist := hist st @ [e]\<rparr> else st)"

fun msg_proc :: "timespec \<Rightarrow> timer_msg \<Rightarrow> timer_st \<Rightarrow> timer_st option" where
  "msg_proc now (MsgTimerPush w d) st = MsgTimerPush_proc w d st"
| "msg_proc now (MsgTimerRemove w d) st = MsgTimerRemove_proc w d st"
| "msg_proc now (MsgTimerExpire w) st = expire_begin w now st"

text \<open>
  One step of the message task: take a message; \<open>LocTimerDelegate::expire\<close> up to reading
  \<open>mClient\<close>; \<open>client->stop()\<close>; \<open>client->timeOutCallback()\<close> (a wrapper's own calls
  \<open>destroy\<close> afterwards).
\<close>

definition task_step :: "timespec \<Rightarrow> timer_st \<Rightarrow> timer_st option" where
  "task_step now st = (case task st of
     TaskIdle \<Rightarrow> (case msgq st of [] \<Rightarrow> Some st | m # ms \<Rightarrow> msg_proc now m (st\<lparr>msgq := ms\<rparr>))
   | TaskPopped w t d \<Rightarrow> do {
       timer \<leftarrow> deref (delegates st) d;
       if mClient timer \<noteq> NULL then Some (st\<lparr>task := TaskStopping w t (mClient timer)\<rparr>)
       else expire_next w t st }
   | TaskStopping w t client \<Rightarrow> do {
       (stopped, st) \<leftarrow> LocTimer_stop client st;
       if stopped then Some (record_if True (Expired client) (st\<lparr>task := TaskFiring w t client\<rparr>))
       else expire_next w t st }
   | TaskFiring w t client \<Rightarrow> do {
       c \<leftarrow> deref (clients st) client;
       (stopped, st) \<leftarrow> (if isWrapper c then wrapper_destroy client st else Some (False, st));
       expire_next w t (record_if stopped (Stopped client) st) })"

definition poll_next :: "bool list \<Rightarrow> poll" where
  "poll_next ws = (case ws of [] \<Rightarrow> PollWait | w # ws \<Rightarrow> PollFired w ws)"

text \<open>One step of the polling thread; \<open>ready\<close> is what \<open>epoll_wait\<close> reports.\<close>

definition poll_step :: "bool list \<Rightarrow> timer_st \<Rightarrow> timer_st option" where
  "poll_step ready st = (case poll st of
     PollWait \<Rightarrow> Some (st\<lparr>poll := poll_next ready\<rparr>)
   | PollFired w ws \<Rightarrow> do {
       c \<leftarrow> containers st w;
       Some ((put_container w (settime (0, 0) c) st)\<lparr>poll := PollDisarmed w ws\<rparr>) }
   | PollDisarmed w ws \<Rightarrow> do {
       c \<leftarrow> containers st w;
       Some ((put_container w (removePoll c) st)\<lparr>poll := PollRemoved w ws\<rparr>) }
   | PollRemoved w ws \<Rightarrow> Some ((sendMsg (MsgTimerExpire w) st)\<lparr>poll := poll_next ws\<rparr>))"

fun exec :: "act \<Rightarrow> timer_st \<Rightarrow> timer_st option" where
  "exec (ANew client lock) st = Some (LocTimer_new client lock False st)"
| "exec (AStart env client ms wake) st = do {
     (ok, st) \<leftarrow> LocTimer_start env client ms wake st;
     Some (record_if ok (Started client) st) }"
| "exec (AStop client) st = do {
     (ok, st) \<leftarrow> LocTimer_stop client st;
     Some (record_if ok (Stopped client) st) }"
| "exec (ADelete client) st = do {
     (ok, st) \<leftarrow> LocTimer_delete client st;
     Some (record_if ok (Stopped client) st) }"
| "exec (AWrapperStart env client lock ms wake) st = do {
     (h, ok, st) \<leftarrow> loc_timer_start env client lock ms True wake st;
     Some (record_if ok (Started client) st) }"
| "exec (AWrapperStop handle) st = do {
     (ok, st) \<leftarrow> loc_timer_stop handle st;
     Some (record_if ok (Stopped handle) st) }"
| "exec (ATask now) st = task_step now st"
| "exec (APoll ready) st = poll_step ready st"

end
