(* ===== verification/TimersProofs.thy ===== *)
theory TimersProofs
  imports Timers
begin

text \<open>
  The timer service under every interleaving of its threads: memory safety, and the invariant
  that a container with running timers always has its kernel timer set to the earliest of
  them or an expiry on its way.
\<close>

section \<open>Timers are a ranked queue\<close>

definition time_ok :: "timespec \<Rightarrow> bool" where
  "time_ok t \<longleftrightarrow> 0 < fst t \<and> fst t < 2 ^ 31 \<and> 0 \<le> snd t \<and> snd t < 1000000000"

definition timer_ok :: "tref \<Rightarrow> bool" where
  "timer_ok x \<longleftrightarrow> time_ok (snd x)"

definition earlier :: "timespec \<Rightarrow> timespec \<Rightarrow> bool" where
  "earlier a b \<longleftrightarrow> fst a < fst b \<or> (fst a = fst b \<and> snd a < snd b)"

lemma ranks_earlier: "time_ok a \<Longrightarrow> time_ok b \<Longrightarrow> 0 < ranks a b \<longleftrightarrow> earlier a b"
  by (auto simp: ranks_def earlier_def time_ok_def Let_def to_int32_id)

lemma outRanks_iff: "timer_ok a \<Longrightarrow> timer_ok b \<Longrightarrow> outRanks a b \<longleftrightarrow> earlier (snd a) (snd b)"
  by (simp add: outRanks_def timer_ok_def ranks_earlier)

interpretation tq: rankable outRanks timer_ok
proof unfold_locales
  fix a b c
  assume ok: "timer_ok a" "timer_ok b"
  show "outRanks a b \<Longrightarrow> \<not> outRanks b a"
    using ok by (auto simp: outRanks_iff earlier_def)
  show "timer_ok c \<Longrightarrow> \<not> outRanks a b \<Longrightarrow> \<not> outRanks b c \<Longrightarrow> \<not> outRanks a c"
    using ok by (auto simp: outRanks_iff earlier_def)
qed

lemma same_time:
  "timer_ok a \<Longrightarrow> timer_ok b \<Longrightarrow> \<not> outRanks a b \<Longrightarrow> \<not> outRanks b a \<Longrightarrow> snd a = snd b"
  by (auto simp: outRanks_iff earlier_def prod_eq_iff)

abbreviation heap_good :: "tref LocHeapNode \<Rightarrow> bool" where
  "heap_good t \<equiv> heap_inv outRanks t \<and> (\<forall>x \<in> set_node t. timer_ok x)"

lemma timer_push:
  assumes "heap_good t" "timer_ok x"
  obtains t' where "heap_push outRanks x t = Some t'" "heap_good t'" "mset_node t' = add_mset x (mset_node t)"
  using tq.hq.push_law [of t "mset_node t" x] assms by auto

lemma timer_peek_none: "heap_good t \<Longrightarrow> heap_peek t = None \<longleftrightarrow> t = Null"
  using tq.hq.peek_empty [of t "mset_node t"] by simp

lemma timer_peek:
  assumes "heap_good t" "heap_peek t = Some x"
  shows "x \<in># mset_node t" "\<And>y. y \<in># mset_node t \<Longrightarrow> \<not> outRanks y x" "timer_ok x"
  using tq.hq.peek_top [of t "mset_node t" x] assms by auto

lemma timer_pop:
  assumes "heap_good t" "heap_peek t = Some x"
  obtains t' where "heap_pop outRanks t = Some (Some x, t')" "heap_good t'"
    "mset_node t = add_mset x (mset_node t')"
proof -
  obtain t' where t': "heap_pop outRanks t = Some (Some x, t')" "heap_good t'"
      "mset_node t - {#x#} = mset_node t'"
    using tq.hq.pop_law [of t "mset_node t" x] assms by auto
  moreover have "mset_node t = add_mset x (mset_node t')"
    using timer_peek(1) [OF assms] t'(3) by (metis insert_DiffM)
  ultimately show ?thesis using that by blast
qed

lemma timer_remove:
  assumes "heap_good t" "timer_ok x"
  obtains t' where "heap_remove outRanks x t = Some (if x \<in># mset_node t then Some x else None, t')"
    "heap_good t'" "mset_node t' = mset_node t - {#x#}"
  using tq.hq.remove_law [of t "mset_node t" x] assms by auto

section \<open>Setting the kernel timer\<close>

definition upd_c :: "tref option \<Rightarrow> LocTimerContainer \<Rightarrow> LocTimerContainer" where
  "upd_c priorTop c =
     (if map_option fst (heap_peek (mTree c)) \<noteq> map_option fst priorTop then
       (case heap_peek (mTree c) of
          None \<Rightarrow> settime (0, 0) (removePoll c)
        | Some t \<Rightarrow> if priorTop = None \<or> outRanks t (the priorTop) then settime (snd t) (addPoll c) else c)
      else c)"

lemma put_container_same [simp]: "containers st w = Some c \<Longrightarrow> put_container w c st = st"
  by (simp add: put_container_def fun_upd_idem)

lemma updateSoonestTime_eq:
  "containers st w = Some c \<Longrightarrow> updateSoonestTime w priorTop st = Some (put_container w (upd_c priorTop c) st)"
  by (auto simp: updateSoonestTime_def upd_c_def getSoonestTimer_def Let_def split: option.split)

lemma mTree_upd_c [simp]: "mTree (upd_c p c) = mTree c"
  by (simp add: upd_c_def settime_def removePoll_def addPoll_def split: option.split)

text \<open>The kernel timer runs for the earliest timer of the heap.\<close>

definition armed_c :: "LocTimerContainer \<Rightarrow> bool" where
  "armed_c c \<longleftrightarrow> (\<forall>x. heap_peek (mTree c) = Some x \<longrightarrow> mPolled c \<and> mArmed c = Some (snd x))"

lemma settime_armed: "timer_ok t \<Longrightarrow> mArmed (settime (snd t) c) = Some (snd t)"
  by (auto simp: settime_def timer_ok_def time_ok_def)

lemma armed_reset: "heap_good (mTree c) \<Longrightarrow> armed_c (upd_c None c)"
  unfolding armed_c_def
proof (intro allI impI)
  fix x
  assume g: "heap_good (mTree c)" and x: "heap_peek (mTree (upd_c None c)) = Some x"
  then have "timer_ok x" "heap_peek (mTree c) = Some x" using timer_peek(3) by simp_all
  then have "upd_c None c = settime (snd x) (addPoll c)" "timer_ok x" by (simp_all add: upd_c_def)
  then show "mPolled (upd_c None c) \<and> mArmed (upd_c None c) = Some (snd x)"
    by (simp add: settime_armed) (simp add: settime_def addPoll_def)
qed

text \<open>Addresses determine the objects of a heap.\<close>

definition ptrs_unique :: "tref multiset \<Rightarrow> bool" where
  "ptrs_unique M \<longleftrightarrow> (\<forall>a b. a \<in># M \<longrightarrow> b \<in># M \<longrightarrow> fst a = fst b \<longrightarrow> a = b)"

lemma armed_push:
  assumes g: "heap_good (mTree c)" "heap_good t'" and m: "mset_node t' = add_mset x (mset_node (mTree c))"
    and u: "ptrs_unique (mset_node t')" and a: "armed_c c"
  shows "armed_c (upd_c (heap_peek (mTree c)) (c\<lparr>mTree := t'\<rparr>))"
proof (cases "heap_peek (mTree c)")
  case None
  then show ?thesis using armed_reset [of "c\<lparr>mTree := t'\<rparr>"] g(2) by simp
next
  case (Some p)
  note p = timer_peek [OF g(1) Some]
  have armed: "mPolled c" "mArmed c = Some (snd p)" using a Some by (simp_all add: armed_c_def)
  show ?thesis
    unfolding armed_c_def
  proof (intro allI impI)
    fix y
    assume "heap_peek (mTree (upd_c (heap_peek (mTree c)) (c\<lparr>mTree := t'\<rparr>))) = Some y"
    then have y: "heap_peek t' = Some y" by simp
    note y' = timer_peek [OF g(2) y]
    have "\<not> outRanks p y" using y'(2) p(1) m by simp
    then have same: "\<not> outRanks y p \<Longrightarrow> snd y = snd p" using same_time y'(3) p(3) by blast
    have "p \<in># mset_node t'" using p(1) m by simp
    then have eq: "fst y = fst p \<Longrightarrow> y = p" using u y'(1) unfolding ptrs_unique_def by blast
    show "mPolled (upd_c (heap_peek (mTree c)) (c\<lparr>mTree := t'\<rparr>)) \<and>
        mArmed (upd_c (heap_peek (mTree c)) (c\<lparr>mTree := t'\<rparr>)) = Some (snd y)"
      using Some y same eq armed settime_armed [OF y'(3)]
      by (auto simp: upd_c_def) (simp_all add: settime_def addPoll_def)
  qed
qed

lemma armed_remove_other:
  assumes g: "heap_good (mTree c)" "heap_good t'" and m: "mset_node t' = mset_node (mTree c) - {#x#}"
    and p: "heap_peek (mTree c) = Some p" "p \<noteq> x" and a: "armed_c c"
  shows "armed_c (c\<lparr>mTree := t'\<rparr>)"
  unfolding armed_c_def
proof (intro allI impI)
  fix y
  assume "heap_peek (mTree (c\<lparr>mTree := t'\<rparr>)) = Some y"
  then have y: "heap_peek t' = Some y" by simp
  note y' = timer_peek [OF g(2) y] and p' = timer_peek [OF g(1) p(1)]
  have "p \<in># mset_node t'" using p'(1) p(2) m by (simp add: in_diff_count)
  then have "\<not> outRanks p y" by (rule y'(2))
  moreover have "y \<in># mset_node (mTree c)" using y'(1) unfolding m by (rule in_diffD)
  then have "\<not> outRanks y p" by (rule p'(2))
  ultimately have "snd y = snd p" using same_time y'(3) p'(3) by blast
  then show "mPolled (c\<lparr>mTree := t'\<rparr>) \<and> mArmed (c\<lparr>mTree := t'\<rparr>) = Some (snd y)"
    using a p(1) by (simp add: armed_c_def)
qed

section \<open>The invariant\<close>

definition hp :: "timer_st \<Rightarrow> bool \<Rightarrow> tref multiset" where
  "hp st w = (case containers st w of None \<Rightarrow> {#} | Some c \<Rightarrow> mset_node (mTree c))"

text \<open>The entries of a heap, and the queued messages, that are about one delegate.\<close>

definition hpd :: "timer_st \<Rightarrow> bool \<Rightarrow> ptr \<Rightarrow> tref multiset" where
  "hpd st w d = filter_mset (\<lambda>x. fst x = d) (hp st w)"

fun about :: "ptr \<Rightarrow> timer_msg \<Rightarrow> bool" where
  "about d (MsgTimerPush w e) \<longleftrightarrow> e = d"
| "about d (MsgTimerRemove w e) \<longleftrightarrow> e = d"
| "about d (MsgTimerExpire w) \<longleftrightarrow> False"

abbreviation msgs_of :: "timer_st \<Rightarrow> ptr \<Rightarrow> timer_msg list" where
  "msgs_of st d \<equiv> filter (about d) (msgq st)"

text \<open>
  The life of a delegate \<open>d\<close> of container \<open>w\<close>: it is its client's timer until it is stopped;
  it enters the heap when its push is handled; a stopped one has exactly one removal queued,
  behind its push if that is still there.
\<close>

definition running :: "timer_st \<Rightarrow> ptr \<Rightarrow> LocTimerDelegate \<Rightarrow> bool \<Rightarrow> bool" where
  "running st d t w \<longleftrightarrow> mContainer t = Some w \<and> mClient t \<noteq> NULL \<and>
     (\<exists>c. clients st (mClient t) = Some c \<and> mTimer c = d) \<and>
     (msgs_of st d = [] \<or> (msgs_of st d = [MsgTimerPush w d] \<and> hpd st w d = {#}))"

definition stopped :: "timer_st \<Rightarrow> ptr \<Rightarrow> LocTimerDelegate \<Rightarrow> bool \<Rightarrow> bool" where
  "stopped st d t w \<longleftrightarrow> mContainer t = None \<and> mClient t = NULL \<and>
     (msgs_of st d = [MsgTimerRemove w d] \<or>
      (msgs_of st d = [MsgTimerPush w d, MsgTimerRemove w d] \<and> hpd st w d = {#}))"

definition dlive :: "timer_st \<Rightarrow> ptr \<Rightarrow> LocTimerDelegate \<Rightarrow> bool \<Rightarrow> bool" where
  "dlive st d t w \<longleftrightarrow> d \<noteq> NULL \<and> time_ok (mFutureTime t) \<and> containers st w \<noteq> None \<and>
     (\<forall>v. v \<noteq> w \<longrightarrow> hpd st v d = {#}) \<and>
     (hpd st w d = {#} \<or> hpd st w d = {#(d, mFutureTime t)#}) \<and>
     (running st d t w \<or> stopped st d t w)"

definition dinv :: "timer_st \<Rightarrow> ptr \<Rightarrow> bool" where
  "dinv st d \<longleftrightarrow> (case delegates st d of
     None \<Rightarrow> msgs_of st d = [] \<and> (\<forall>w. hpd st w d = {#})
   | Some t \<Rightarrow> \<exists>w. dlive st d t w)"

definition cinv :: "timer_st \<Rightarrow> ptr \<Rightarrow> bool" where
  "cinv st c \<longleftrightarrow> (case clients st c of
     None \<Rightarrow> True
   | Some k \<Rightarrow> c \<noteq> NULL \<and> mLock k \<noteq> NULL \<and>
       (mTimer k \<noteq> NULL \<longrightarrow> (\<exists>t. delegates st (mTimer k) = Some t \<and> mClient t = c)))"

text \<open>Who holds a reference to a shared lock: clients and delegates.\<close>

definition owners :: "timer_st \<Rightarrow> ptr \<Rightarrow> (ptr + ptr) set" where
  "owners st l = Inl ` {c. \<exists>k. clients st c = Some k \<and> mLock k = l} \<union>
                 Inr ` {d. \<exists>t. delegates st d = Some t \<and> mSharedLock t = l}"

definition linv :: "timer_st \<Rightarrow> bool" where
  "linv st \<longleftrightarrow> finite (dom (clients st)) \<and> finite (dom (delegates st)) \<and>
     (\<forall>l. locks st l = (if owners st l = {} then None else Some (int (card (owners st l))))) \<and>
     owners st NULL = {}"

fun task_on :: "bool \<Rightarrow> task \<Rightarrow> bool" where
  "task_on w TaskIdle = False"
| "task_on w (TaskPopped v t d) = (w = v)"
| "task_on w (TaskStopping v t c) = (w = v)"
| "task_on w (TaskFiring v t c) = (w = v)"

fun poll_on :: "bool \<Rightarrow> poll \<Rightarrow> bool" where
  "poll_on w PollWait = False"
| "poll_on w (PollFired v ws) = (w = v \<or> w \<in> set ws)"
| "poll_on w (PollDisarmed v ws) = (w = v \<or> w \<in> set ws)"
| "poll_on w (PollRemoved v ws) = (w = v \<or> w \<in> set ws)"

text \<open>An expiry of container \<open>w\<close> is on its way or being handled.\<close>

definition pending :: "timer_st \<Rightarrow> bool \<Rightarrow> bool" where
  "pending st w \<longleftrightarrow> MsgTimerExpire w \<in> set (msgq st) \<or> task_on w (task st) \<or> poll_on w (poll st)"

definition heaps_ok :: "timer_st \<Rightarrow> bool" where
  "heaps_ok st \<longleftrightarrow> (\<forall>w c. containers st w = Some c \<longrightarrow>
     heap_good (mTree c) \<and> (pending st w \<or> armed_c c))"

fun task_ok :: "timer_st \<Rightarrow> task \<Rightarrow> bool" where
  "task_ok st TaskIdle = True"
| "task_ok st (TaskPopped w now d) = (time_ok now \<and> delegates st d \<noteq> None \<and> d \<noteq> NULL)"
| "task_ok st (TaskStopping w now c) = (time_ok now \<and> clients st c \<noteq> None)"
| "task_ok st (TaskFiring w now c) = (time_ok now \<and> clients st c \<noteq> None)"

definition timer_inv :: "timer_st \<Rightarrow> bool" where
  "timer_inv st \<longleftrightarrow> heaps_ok st \<and> (\<forall>d. dinv st d) \<and> (\<forall>c. cinv st c) \<and> linv st \<and>
     (\<forall>w. pending st w \<longrightarrow> containers st w \<noteq> None)"

lemma task_ok_mono:
  assumes "task_ok st t" "\<And>d. delegates st d \<noteq> None \<Longrightarrow> delegates st' d \<noteq> None"
    "\<And>c. clients st c \<noteq> None \<Longrightarrow> clients st' c \<noteq> None"
  shows "task_ok st' t"
  using assms by (cases t) auto

lemma inv_live: "timer_inv st \<Longrightarrow> delegates st d = Some t \<Longrightarrow> \<exists>w. dlive st d t w"
proof -
  assume "timer_inv st" and d: "delegates st d = Some t"
  then have "dinv st d" by (simp add: timer_inv_def)
  then show ?thesis using d by (simp add: dinv_def)
qed

lemma inv_dead:
  assumes "timer_inv st" "delegates st d = None"
  shows "msgs_of st d = []" "hpd st w d = {#}"
proof -
  have "dinv st d" using assms(1) by (simp add: timer_inv_def)
  then show "msgs_of st d = []" "hpd st w d = {#}" using assms(2) by (simp_all add: dinv_def)
qed

lemma inv_client:
  assumes "timer_inv st" "clients st c = Some k"
  shows "c \<noteq> NULL" "mLock k \<noteq> NULL"
    "mTimer k \<noteq> NULL \<Longrightarrow> \<exists>t. delegates st (mTimer k) = Some t \<and> mClient t = c"
proof -
  have "cinv st c" using assms(1) by (simp add: timer_inv_def)
  then show "c \<noteq> NULL" "mLock k \<noteq> NULL"
    "mTimer k \<noteq> NULL \<Longrightarrow> \<exists>t. delegates st (mTimer k) = Some t \<and> mClient t = c"
    using assms(2) by (simp_all add: cinv_def)
qed

section \<open>Projections\<close>

lemma put_container_simps [simp]:
  "clients (put_container w c st) = clients st" "locks (put_container w c st) = locks st"
  "delegates (put_container w c st) = delegates st" "msgq (put_container w c st) = msgq st"
  "task (put_container w c st) = task st" "poll (put_container w c st) = poll st"
  "hist (put_container w c st) = hist st"
  "containers (put_container w c st) v = (if v = w then Some c else containers st v)"
  by (simp_all add: put_container_def)

lemma put_container_twice [simp]: "put_container w c (put_container w c' st) = put_container w c st"
  by (simp add: put_container_def)

lemma sendMsg_simps [simp]:
  "clients (sendMsg m st) = clients st" "locks (sendMsg m st) = locks st"
  "delegates (sendMsg m st) = delegates st" "msgq (sendMsg m st) = msgq st @ [m]"
  "task (sendMsg m st) = task st" "poll (sendMsg m st) = poll st"
  "hist (sendMsg m st) = hist st" "containers (sendMsg m st) = containers st"
  by (simp_all add: sendMsg_def)

lemma hp_put [simp]: "hp (put_container w c st) v = (if v = w then mset_node (mTree c) else hp st v)"
  by (simp add: hp_def)

lemma hp_cong: "containers st' = containers st \<Longrightarrow> hp st' = hp st"
  by (simp add: hp_def fun_eq_iff)

lemma hpd_cong: "containers st' = containers st \<Longrightarrow> hpd st' = hpd st"
  by (simp add: hpd_def hp_def fun_eq_iff)

lemma hp_same_tree:
  "containers st w = Some c \<Longrightarrow> mTree c' = mTree c \<Longrightarrow> hp (put_container w c' st) = hp st"
  by (simp add: hp_def fun_eq_iff)

lemma hpd_same_tree:
  "containers st w = Some c \<Longrightarrow> mTree c' = mTree c \<Longrightarrow> hpd (put_container w c' st) = hpd st"
  by (simp add: hpd_def hp_def fun_eq_iff)

text \<open>A delegate's part of the invariant speaks of its own messages, entries and client only.\<close>

lemma dinv_cong:
  assumes "delegates st' d = delegates st d" "msgs_of st' d = msgs_of st d"
    "\<And>w. hpd st' w d = hpd st w d" "\<And>w. containers st w \<noteq> None \<Longrightarrow> containers st' w \<noteq> None"
    "\<And>t c. delegates st d = Some t \<Longrightarrow> clients st (mClient t) = Some c \<Longrightarrow> mTimer c = d \<Longrightarrow>
       \<exists>c'. clients st' (mClient t) = Some c' \<and> mTimer c' = d"
    "dinv st d"
  shows "dinv st' d"
proof (cases "delegates st d")
  case None
  then show ?thesis using assms(1-3,6) by (simp add: dinv_def)
next
  case (Some t)
  then obtain w where w: "dlive st d t w" using assms(6) by (auto simp: dinv_def)
  have "running st d t w \<Longrightarrow> running st' d t w"
    using assms(2,3) assms(5) [OF Some] unfolding running_def by metis
  moreover have "stopped st d t w \<Longrightarrow> stopped st' d t w"
    using assms(2,3) unfolding stopped_def by simp
  ultimately have "dlive st' d t w"
    using w assms(3) assms(4) [of w] unfolding dlive_def by auto
  then show ?thesis using Some assms(1) by (auto simp: dinv_def)
qed

lemma cinv_cong:
  assumes "clients st' c = clients st c"
    "\<And>k t. clients st c = Some k \<Longrightarrow> mTimer k \<noteq> NULL \<Longrightarrow> delegates st (mTimer k) = Some t \<Longrightarrow> mClient t = c \<Longrightarrow>
       \<exists>t'. delegates st' (mTimer k) = Some t' \<and> mClient t' = c"
    "cinv st c"
  shows "cinv st' c"
  using assms by (auto simp: cinv_def split: option.split)

lemma linv_cong:
  assumes "clients st' = clients st" "delegates st' = delegates st" "locks st' = locks st" "linv st"
  shows "linv st'"
  using assms by (simp add: linv_def owners_def)

section \<open>Reference counts\<close>

lemma owners_finite: "linv st \<Longrightarrow> finite (owners st l)"
proof -
  assume l: "linv st"
  have "{c. \<exists>k. clients st c = Some k \<and> mLock k = l} \<subseteq> dom (clients st)"
    "{d. \<exists>t. delegates st d = Some t \<and> mSharedLock t = l} \<subseteq> dom (delegates st)" by auto
  then show ?thesis using l unfolding linv_def owners_def by (meson finite_UnI finite_imageI finite_subset)
qed

lemma linv_lock:
  assumes "linv st" "x \<in> owners st l"
  shows "l \<noteq> NULL" "locks st l = Some (int (card (owners st l)))"
proof -
  have "owners st NULL = {}" using assms(1) unfolding linv_def by (elim conjE)
  then show "l \<noteq> NULL" using assms(2) by (metis emptyE)
  have "\<forall>l. locks st l = (if owners st l = {} then None else Some (int (card (owners st l))))"
    using assms(1) unfolding linv_def by (elim conjE)
  then have "locks st l = (if owners st l = {} then None else Some (int (card (owners st l))))"
    by (rule spec)
  moreover have "owners st l \<noteq> {}" using assms(2) by blast
  ultimately show "locks st l = Some (int (card (owners st l)))" by (simp only: if_False)
qed

lemma linv_add:
  assumes st: "linv st" and fin: "finite (dom (clients st'))" "finite (dom (delegates st'))"
    and own: "\<And>l. owners st' l = (if l = l0 then insert x (owners st l0) else owners st l)"
    and x: "x \<notin> owners st l0" and l0: "l0 \<noteq> NULL"
    and locks: "locks st' = (locks st)(l0 \<mapsto> int (card (owners st l0)) + 1)"
  shows "linv st'"
proof -
  have fo: "finite (owners st l0)" by (rule owners_finite [OF st])
  have c: "card (insert x (owners st l0)) = Suc (card (owners st l0))" using fo x by simp
  show ?thesis
    unfolding linv_def
  proof (intro conjI allI)
    show "finite (dom (clients st'))" "finite (dom (delegates st'))" by (fact fin)+
    have "owners st NULL = {}" using st unfolding linv_def by (elim conjE)
    then show "owners st' NULL = {}" using own [of NULL] l0 by simp
    fix l
    show "locks st' l = (if owners st' l = {} then None else Some (int (card (owners st' l))))"
    proof (cases "l = l0")
      case True
      then show ?thesis using own [of l] c by (simp add: locks)
    next
      case False
      have "\<forall>l. locks st l = (if owners st l = {} then None else Some (int (card (owners st l))))"
        using st unfolding linv_def by (elim conjE)
      then show ?thesis using own [of l] False by (simp add: locks)
    qed
  qed
qed

lemma linv_remove:
  assumes st: "linv st" and fin: "finite (dom (clients st'))" "finite (dom (delegates st'))"
    and own: "\<And>l. owners st' l = (if l = l0 then owners st l0 - {x} else owners st l)"
    and x: "x \<in> owners st l0"
    and n: "n = int (card (owners st l0))"
    and locks: "locks st' = (if n = 1 then (locks st)(l0 := None) else (locks st)(l0 \<mapsto> n - 1))"
  shows "linv st'"
proof -
  have fo: "finite (owners st l0)" by (rule owners_finite [OF st])
  have c: "card (owners st l0) = Suc (card (owners st l0 - {x}))"
    using card.remove [OF fo x] .
  have e: "owners st l0 - {x} = {} \<longleftrightarrow> card (owners st l0 - {x}) = 0" using fo by simp
  have l0: "l0 \<noteq> NULL" by (rule linv_lock [OF st x])
  show ?thesis
    unfolding linv_def
  proof (intro conjI allI)
    show "finite (dom (clients st'))" "finite (dom (delegates st'))" by (fact fin)+
    have "owners st NULL = {}" using st unfolding linv_def by (elim conjE)
    then show "owners st' NULL = {}" using own [of NULL] l0 by simp
    fix l
    show "locks st' l = (if owners st' l = {} then None else Some (int (card (owners st' l))))"
    proof (cases "l = l0")
      case True
      then show ?thesis using own [of l] e c n by (simp add: locks)
    next
      case False
      have "\<forall>l. locks st l = (if owners st l = {} then None else Some (int (card (owners st l))))"
        using st unfolding linv_def by (elim conjE)
      then show ?thesis using own [of l] False by (simp add: locks)
    qed
  qed
qed

text \<open>Rewriting an object without changing its lock leaves the owners alone.\<close>

lemma owners_update_client [simp]:
  "clients st c = Some k \<Longrightarrow> mLock k' = mLock k \<Longrightarrow>
     owners (st\<lparr>clients := (clients st)(c \<mapsto> k')\<rparr>) l = owners st l"
  by (auto simp: owners_def)

lemma owners_update_delegate:
  assumes "delegates st d = Some t" "mSharedLock t' = mSharedLock t"
  shows "owners (st\<lparr>delegates := (delegates st)(d \<mapsto> t')\<rparr>) l = owners st l"
proof -
  have "(\<exists>u. ((delegates st)(d \<mapsto> t')) x = Some u \<and> mSharedLock u = l) \<longleftrightarrow>
        (\<exists>u. delegates st x = Some u \<and> mSharedLock u = l)" for x
    using assms by auto
  then show ?thesis by (simp add: owners_def)
qed

lemma linv_update_client:
  "linv st \<Longrightarrow> clients st c = Some k \<Longrightarrow> mLock k' = mLock k \<Longrightarrow>
     linv (st\<lparr>clients := (clients st)(c \<mapsto> k')\<rparr>)"
  by (simp add: linv_def)

lemma linv_update_delegate:
  assumes "linv st" "delegates st d = Some t" "mSharedLock t' = mSharedLock t"
  shows "linv (st\<lparr>delegates := (delegates st)(d \<mapsto> t')\<rparr>)"
proof -
  have "owners (st\<lparr>delegates := (delegates st)(d \<mapsto> t')\<rparr>) = owners st"
    using owners_update_delegate [OF assms(2,3)] by blast
  then show ?thesis using assms(1) by (simp add: linv_def)
qed

section \<open>Client operations\<close>

lemma get_container_inv:
  assumes "timer_inv st"
  shows "timer_inv (get_container w ok st)"
proof (cases "containers st w = None \<and> ok")
  case False
  then have "get_container w ok st = st" unfolding get_container_def by argo
  then show ?thesis using assms by simp
next
  case True
  let ?st = "put_container w \<lparr>mTree = Null, mArmed = None, mPolled = False\<rparr> st"
  have eq: "get_container w ok st = ?st" using True by (simp add: get_container_def)
  have hp: "hp ?st = hp st" using True by (auto simp: hp_def fun_eq_iff)
  then have hpd: "hpd ?st = hpd st" by (simp add: hpd_def fun_eq_iff)
  have "dinv ?st d" for d
    by (rule dinv_cong [of _ _ st]) (use assms in \<open>auto simp: timer_inv_def hpd\<close>)
  moreover have "cinv ?st c" for c
    by (rule cinv_cong [of _ _ st]) (use assms in \<open>auto simp: timer_inv_def\<close>)
  moreover have "linv ?st" by (rule linv_cong [of _ st]) (use assms in \<open>auto simp: timer_inv_def\<close>)
  moreover have "heaps_ok ?st"
    using assms by (auto simp: timer_inv_def heaps_ok_def armed_c_def heap_peek_def pending_def)
  moreover have "\<forall>v. pending ?st v \<longrightarrow> containers ?st v \<noteq> None"
    using assms by (auto simp: timer_inv_def pending_def)
  ultimately show ?thesis unfolding eq timer_inv_def by blast
qed

lemma pending_sendMsg [simp]:
  "pending (sendMsg (MsgTimerPush w d) st) v = pending st v"
  "pending (sendMsg (MsgTimerRemove w d) st) v = pending st v"
  by (simp_all add: pending_def)

lemma pending_simps [simp]:
  "pending (put_container w c st) v = pending st v"
  "pending (st\<lparr>clients := cs\<rparr>) v = pending st v"
  "pending (st\<lparr>delegates := ds\<rparr>) v = pending st v"
  "pending (st\<lparr>locks := ls\<rparr>) v = pending st v"
  "pending (st\<lparr>hist := h\<rparr>) v = pending st v"
  by (simp_all add: pending_def)

lemma heaps_ok_cong:
  assumes "containers st' = containers st" "\<And>v. pending st' v = pending st v" "heaps_ok st"
  shows "heaps_ok st'"
  using assms by (simp add: heaps_ok_def)

lemma new_delegate_inv:
  assumes inv: "timer_inv st" and c: "clients st c = Some k" "mTimer k = NULL"
    and w: "containers st w \<noteq> None" and d: "d \<noteq> NULL" "delegates st d = None" and f: "time_ok f"
  shows "\<exists>st1. new_LocTimerDelegate d c f w st = Some st1 \<and>
     timer_inv (st1\<lparr>clients := (clients st1)(c \<mapsto> k\<lparr>mTimer := d\<rparr>)\<rparr>) \<and>
     clients st1 = clients st \<and> task st1 = task st \<and> poll st1 = poll st \<and> hist st1 = hist st \<and>
     delegates st1 = (delegates st)(d \<mapsto> \<lparr>mClient = c, mSharedLock = mLock k, mFutureTime = f, mContainer = Some w\<rparr>)"
proof -
  have c0: "c \<noteq> NULL" "mLock k \<noteq> NULL" using inv_client [OF inv c(1)] by simp_all
  have li: "linv st" using inv by (simp add: timer_inv_def)
  have own: "Inl c \<in> owners st (mLock k)" using c(1) by (auto simp: owners_def)
  note lk = linv_lock [OF li own]
  define t where "t = \<lparr>mClient = c, mSharedLock = mLock k, mFutureTime = f, mContainer = Some w\<rparr>"
  define st1 where "st1 = sendMsg (MsgTimerPush w d)
     (st\<lparr>locks := (locks st)(mLock k \<mapsto> int (card (owners st (mLock k))) + 1),
         delegates := (delegates st)(d \<mapsto> t)\<rparr>)"
  define st2 where "st2 = st1\<lparr>clients := (clients st1)(c \<mapsto> k\<lparr>mTimer := d\<rparr>)\<rparr>"
  have run: "new_LocTimerDelegate d c f w st = Some st1"
    using c c0 lk by (simp add: new_LocTimerDelegate_def lock_share_def deref_live st1_def t_def)
  have same: "containers st2 = containers st" "task st2 = task st"
      "delegates st2 = (delegates st)(d \<mapsto> t)" "clients st2 = (clients st)(c \<mapsto> k\<lparr>mTimer := d\<rparr>)"
      "msgq st2 = msgq st @ [MsgTimerPush w d]" "pending st2 = pending st"
    by (simp_all add: st2_def st1_def fun_eq_iff)
  have hpd: "hpd st2 = hpd st" by (rule hpd_cong) (rule same)
  have dead: "msgs_of st d = []" "hpd st v d = {#}" for v
    using inv_dead [OF inv d(2)] by simp_all
  have noclient: "mClient u \<noteq> c" if noc: "delegates st e = Some u" for e u
  proof
    assume u: "mClient u = c"
    obtain v where "dlive st e u v" using inv_live [OF inv noc] by blast
    then show False using u c c0 by (auto simp: dlive_def running_def stopped_def)
  qed
  have "dinv st2 e" for e
  proof (cases "e = d")
    case True
    have "running st2 d t w"
      using c0 same dead by (simp add: running_def t_def hpd)
    then have "dlive st2 d t w" using d f w dead same by (simp add: dlive_def t_def hpd)
    then show ?thesis using True same by (auto simp: dinv_def)
  next
    case False
    show ?thesis
      by (rule dinv_cong [of _ _ st]) (use False same hpd noclient inv in \<open>auto simp: timer_inv_def\<close>)
  qed
  moreover have "cinv st2 e" for e
  proof (cases "e = c")
    case True
    then show ?thesis using same c0 by (simp add: cinv_def t_def)
  next
    case False
    show ?thesis
      by (rule cinv_cong [of _ _ st]) (use False same d inv in \<open>auto simp: timer_inv_def\<close>)
  qed
  moreover have "linv st2"
  proof (rule linv_add [OF li, of _ "mLock k" "Inr d"])
    show "finite (dom (clients st2))" "finite (dom (delegates st2))"
      using li same by (simp_all add: linv_def)
    show "Inr d \<notin> owners st (mLock k)" using d by (auto simp: owners_def)
    show "locks st2 = (locks st)(mLock k \<mapsto> int (card (owners st (mLock k))) + 1)"
      by (simp add: st2_def st1_def)
    show "owners st2 l = (if l = mLock k then insert (Inr d) (owners st (mLock k)) else owners st l)" for l
      using c d by (auto simp: owners_def same t_def split: if_splits)
  qed (rule c0)
  moreover have "heaps_ok st2"
    by (rule heaps_ok_cong [of _ st]) (use same inv in \<open>auto simp: timer_inv_def\<close>)
  moreover have "\<forall>v. pending st2 v \<longrightarrow> containers st2 v \<noteq> None"
    using inv same by (simp add: timer_inv_def)
  ultimately have "timer_inv st2" unfolding timer_inv_def by blast
  then show ?thesis using run by (auto simp: st2_def st1_def t_def)
qed

lemma stop_inv:
  assumes inv: "timer_inv st" and c: "clients st c = Some k"
  shows "\<exists>st1. LocTimer_stop c st = Some (mTimer k \<noteq> NULL, st1) \<and> timer_inv st1 \<and>
     clients st1 = (clients st)(c \<mapsto> k\<lparr>mTimer := NULL\<rparr>) \<and> dom (delegates st1) = dom (delegates st) \<and>
     task st1 = task st \<and> poll st1 = poll st \<and> hist st1 = hist st \<and> containers st1 = containers st"
proof -
  have li: "linv st" using inv by (simp add: timer_inv_def)
  have "Inl c \<in> owners st (mLock k)" using c by (auto simp: owners_def)
  note lk = linv_lock [OF li this]
  note c0 = inv_client [OF inv c]
  show ?thesis
  proof (cases "mTimer k = NULL")
    case True
    then have "k\<lparr>mTimer := NULL\<rparr> = k" by simp
    then have "(clients st)(c \<mapsto> k\<lparr>mTimer := NULL\<rparr>) = clients st" using c by auto
    moreover have "LocTimer_stop c st = Some (False, st)"
      using True c c0 lk by (simp add: LocTimer_stop_def deref_live)
    ultimately show ?thesis using True inv by simp
  next
    case False
    let ?d = "mTimer k"
    obtain t where t: "delegates st ?d = Some t" "mClient t = c" using c0(3) False by blast
    obtain w where w: "dlive st ?d t w" using inv_live [OF inv t(1)] by blast
    have r: "running st ?d t w" using w t(2) c0(1) by (auto simp: dlive_def stopped_def)
    have cont: "mContainer t = Some w" using r by (simp add: running_def)
    define t1 where "t1 = t\<lparr>mClient := NULL, mContainer := None\<rparr>"
    define st1 where "st1 = sendMsg (MsgTimerRemove w ?d)
      (st\<lparr>clients := (clients st)(c \<mapsto> k\<lparr>mTimer := NULL\<rparr>), delegates := (delegates st)(?d \<mapsto> t1)\<rparr>)"
    have run: "LocTimer_stop c st = Some (True, st1)"
      using False c c0 lk t cont
      by (simp add: LocTimer_stop_def destroyLocked_def deref_live st1_def t1_def)
    have same: "containers st1 = containers st" "task st1 = task st" "poll st1 = poll st" "hist st1 = hist st"
      "delegates st1 = (delegates st)(?d \<mapsto> t1)" "clients st1 = (clients st)(c \<mapsto> k\<lparr>mTimer := NULL\<rparr>)"
      "msgq st1 = msgq st @ [MsgTimerRemove w ?d]" "pending st1 = pending st" "locks st1 = locks st"
      by (simp_all add: st1_def fun_eq_iff)
    have hpd: "hpd st1 = hpd st" by (rule hpd_cong) (rule same)
    have noclient: "mClient u \<noteq> c" if e: "delegates st e = Some u" "e \<noteq> ?d" for e u
    proof
      assume u: "mClient u = c"
      obtain v where "dlive st e u v" using inv_live [OF inv e(1)] by blast
      then show False using u c c0 e(2) by (auto simp: dlive_def running_def stopped_def)
    qed
    have "dinv st1 e" for e
    proof (cases "e = ?d")
      case True
      have "stopped st1 ?d t1 w"
        using r same by (auto simp: running_def stopped_def t1_def hpd)
      then have "dlive st1 ?d t1 w" using w same by (simp add: dlive_def t1_def hpd)
      then show ?thesis using True same by (auto simp: dinv_def)
    next
      case False
      show ?thesis
        by (rule dinv_cong [of _ _ st]) (use False same hpd noclient inv in \<open>auto simp: timer_inv_def\<close>)
    qed
    moreover have "cinv st1 e" for e
    proof (cases "e = c")
      case True
      then show ?thesis using same c0 by (simp add: cinv_def)
    next
      case False
      show ?thesis
        by (rule cinv_cong [of _ _ st]) (use False same t inv in \<open>auto simp: timer_inv_def\<close>)
    qed
    moreover have "linv st1"
    proof -
      let ?s = "st\<lparr>clients := (clients st)(c \<mapsto> k\<lparr>mTimer := NULL\<rparr>)\<rparr>"
      have "linv ?s" by (rule linv_update_client [OF li c]) simp
      then have "linv (?s\<lparr>delegates := (delegates ?s)(?d \<mapsto> t1)\<rparr>)"
        by (rule linv_update_delegate [of _ _ t]) (simp_all add: t t1_def)
      then show ?thesis by (rule linv_cong [rotated 3]) (simp_all add: same)
    qed
    moreover have "heaps_ok st1"
      by (rule heaps_ok_cong [of _ st]) (use same inv in \<open>auto simp: timer_inv_def\<close>)
    moreover have "\<forall>v. pending st1 v \<longrightarrow> containers st1 v \<noteq> None"
      using inv same by (simp add: timer_inv_def)
    ultimately have "timer_inv st1" unfolding timer_inv_def by blast
    then show ?thesis using run same t(1) False by (auto simp: insert_absorb)
  qed
qed

lemma delete_inv:
  assumes inv: "timer_inv st" and c: "clients st c = Some k"
  shows "\<exists>st1. LocTimer_delete c st = Some (mTimer k \<noteq> NULL, st1) \<and> timer_inv st1 \<and>
     clients st1 = (clients st)(c := None) \<and> dom (delegates st1) = dom (delegates st) \<and>
     task st1 = task st \<and> poll st1 = poll st \<and> hist st1 = hist st \<and> containers st1 = containers st"
proof -
  let ?k = "k\<lparr>mTimer := NULL\<rparr>"
  obtain st1 where st1: "LocTimer_stop c st = Some (mTimer k \<noteq> NULL, st1)" "timer_inv st1"
     "clients st1 = (clients st)(c \<mapsto> ?k)" "dom (delegates st1) = dom (delegates st)"
     "task st1 = task st" "poll st1 = poll st" "hist st1 = hist st" "containers st1 = containers st"
    using stop_inv [OF assms] by blast
  have c1: "clients st1 c = Some ?k" using st1(3) by simp
  note c0 = inv_client [OF st1(2) c1]
  have li: "linv st1" using st1(2) by (simp add: timer_inv_def)
  have own: "Inl c \<in> owners st1 (mLock k)" using c1 by (auto simp: owners_def)
  note lk = linv_lock [OF li own]
  define n where "n = int (card (owners st1 (mLock k)))"
  define st2 where "st2 = st1\<lparr>locks := (if n = 1 then (locks st1)(mLock k := None)
      else (locks st1)(mLock k \<mapsto> n - 1)), clients := (clients st1)(c := None)\<rparr>"
  have run: "LocTimer_delete c st = Some (mTimer k \<noteq> NULL, st2)"
    using st1(1) c1 c0 lk by (simp add: LocTimer_delete_def lock_drop_def deref_live st2_def n_def)
  have same: "containers st2 = containers st1" "task st2 = task st1" "poll st2 = poll st1" "hist st2 = hist st1"
      "delegates st2 = delegates st1" "clients st2 = (clients st1)(c := None)"
      "msgq st2 = msgq st1" "pending st2 = pending st1"
    by (simp_all add: st2_def fun_eq_iff)
  have hpd: "hpd st2 = hpd st1" by (rule hpd_cong) (rule same)
  have noclient: "mClient u \<noteq> c" if e: "delegates st1 e = Some u" for e u
  proof
    assume u: "mClient u = c"
    obtain v where "dlive st1 e u v" using inv_live [OF st1(2) e] by blast
    then show False using u c1 c0 by (auto simp: dlive_def running_def stopped_def)
  qed
  have "dinv st2 e" for e
    by (rule dinv_cong [of _ _ st1]) (use same hpd noclient st1(2) in \<open>auto simp: timer_inv_def\<close>)
  moreover have "cinv st2 e" for e
  proof (cases "e = c")
    case True
    then show ?thesis using same by (simp add: cinv_def)
  next
    case False
    show ?thesis
      by (rule cinv_cong [of _ _ st1]) (use False same st1(2) in \<open>auto simp: timer_inv_def\<close>)
  qed
  moreover have "linv st2"
  proof (rule linv_remove [OF li, of _ "mLock k" "Inl c" n])
    show "finite (dom (clients st2))" "finite (dom (delegates st2))"
      using li same by (simp_all add: linv_def)
    show "owners st2 l = (if l = mLock k then owners st1 (mLock k) - {Inl c} else owners st1 l)" for l
      using c1 by (auto simp: owners_def same split: if_splits)
    show "locks st2 = (if n = 1 then (locks st1)(mLock k := None) else (locks st1)(mLock k \<mapsto> n - 1))"
      by (simp add: st2_def)
  qed (use own n_def in simp_all)
  moreover have "heaps_ok st2"
    by (rule heaps_ok_cong [of _ st1]) (use same st1(2) in \<open>auto simp: timer_inv_def\<close>)
  moreover have "\<forall>v. pending st2 v \<longrightarrow> containers st2 v \<noteq> None"
    using st1(2) same by (simp add: timer_inv_def)
  ultimately have "timer_inv st2" unfolding timer_inv_def by blast
  then show ?thesis using run same st1 by auto
qed

lemma new_inv:
  assumes inv: "timer_inv st" and c: "c \<noteq> NULL" "clients st c = None" and l: "l \<noteq> NULL" "locks st l = None"
  shows "timer_inv (LocTimer_new c l b st)"
proof -
  let ?st = "LocTimer_new c l b st"
  have li: "linv st" using inv by (simp add: timer_inv_def)
  have none: "owners st l = {}"
  proof (rule ccontr)
    assume "owners st l \<noteq> {}"
    then obtain x where "x \<in> owners st l" by blast
    from linv_lock(2) [OF li this] show False using l by simp
  qed
  have same: "containers ?st = containers st" "task ?st = task st" "poll ?st = poll st" "hist ?st = hist st"
      "delegates ?st = delegates st" "clients ?st = (clients st)(c \<mapsto> \<lparr>mTimer = NULL, mLock = l, isWrapper = b\<rparr>)"
      "msgq ?st = msgq st" "pending ?st = pending st" "locks ?st = (locks st)(l \<mapsto> 1)"
    by (simp_all add: LocTimer_new_def fun_eq_iff pending_def)
  have hpd: "hpd ?st = hpd st" by (rule hpd_cong) (rule same)
  have "dinv ?st e" for e
    by (rule dinv_cong [of _ _ st]) (use same hpd c inv in \<open>auto simp: timer_inv_def\<close>)
  moreover have "cinv ?st e" for e
  proof (cases "e = c")
    case True
    then show ?thesis using same c l by (simp add: cinv_def)
  next
    case False
    show ?thesis
      by (rule cinv_cong [of _ _ st]) (use False same inv in \<open>auto simp: timer_inv_def\<close>)
  qed
  moreover have "linv ?st"
  proof (rule linv_add [OF li, of _ l "Inl c"])
    show "finite (dom (clients ?st))" "finite (dom (delegates ?st))"
      using li same by (simp_all add: linv_def)
    show "owners ?st m = (if m = l then insert (Inl c) (owners st l) else owners st m)" for m
      using c by (auto simp: owners_def same split: if_splits)
  qed (use none l same in simp_all)
  moreover have "heaps_ok ?st"
    by (rule heaps_ok_cong [of _ st]) (use same inv in \<open>auto simp: timer_inv_def\<close>)
  moreover have "\<forall>v. pending ?st v \<longrightarrow> containers ?st v \<noteq> None"
    using inv same by (simp add: timer_inv_def)
  ultimately show ?thesis unfolding timer_inv_def by blast
qed

section \<open>Steps of the message task\<close>

lemma hpd_dlive: "dlive st d t w \<Longrightarrow> hpd st v d = {#} \<or> hpd st v d = {#(d, mFutureTime t)#}"
  by (cases "v = w") (auto simp: dlive_def)

lemma hpd_small: "timer_inv st \<Longrightarrow> hpd st v d = {#} \<or> (\<exists>f. hpd st v d = {#(d, f)#})"
  by (cases "delegates st d") (use inv_dead inv_live hpd_dlive in blast)+

lemma hp_unique:
  assumes "\<And>d. hpd st v d = {#} \<or> (\<exists>f. hpd st v d = {#(d, f)#})"
  shows "ptrs_unique (hp st v)"
  unfolding ptrs_unique_def
proof (intro allI impI)
  fix a b
  assume a: "a \<in># hp st v" and b: "b \<in># hp st v" and e: "fst a = fst b"
  then have "a \<in># hpd st v (fst a)" "b \<in># hpd st v (fst a)" by (simp_all add: hpd_def)
  then show "a = b" using assms [of "fst a"] by auto
qed

lemma in_heap_live:
  assumes inv: "timer_inv st" and x: "x \<in># hp st w"
  shows "\<exists>t. delegates st (fst x) = Some t \<and> fst x \<noteq> NULL"
proof -
  have i: "x \<in># hpd st w (fst x)" using x by (simp add: hpd_def)
  obtain t where t: "delegates st (fst x) = Some t"
    using inv_dead(2) [OF inv, of "fst x" w] i by (cases "delegates st (fst x)") auto
  then show ?thesis using inv_live [OF inv t] by (auto simp: dlive_def)
qed

text \<open>Removing entries from a heap cannot hurt the invariant of a delegate without a push.\<close>

lemma dlive_shrink:
  assumes "dlive st d t w" "msgs_of st' d = msgs_of st d"
    "\<And>v. hpd st' v d = hpd st v d \<or> hpd st' v d = {#}"
    "\<And>v. containers st v \<noteq> None \<Longrightarrow> containers st' v \<noteq> None" "clients st' = clients st"
  shows "dlive st' d t w"
proof -
  have "running st d t w \<Longrightarrow> running st' d t w"
    using assms(2,5) assms(3) [of w] unfolding running_def by metis
  moreover have "stopped st d t w \<Longrightarrow> stopped st' d t w"
    using assms(2) assms(3) [of w] unfolding stopped_def by metis
  moreover have "\<forall>v. v \<noteq> w \<longrightarrow> hpd st' v d = {#}" using assms(1,3) unfolding dlive_def by metis
  moreover have "hpd st' w d = {#} \<or> hpd st' w d = {#(d, mFutureTime t)#}"
    using assms(1) assms(3) [of w] unfolding dlive_def by auto
  ultimately show ?thesis using assms(1) assms(4) [of w] unfolding dlive_def by blast
qed

lemma dinv_shrink:
  assumes "dinv st d" "delegates st' d = delegates st d" "msgs_of st' d = msgs_of st d"
    "\<And>v. hpd st' v d = hpd st v d \<or> hpd st' v d = {#}"
    "\<And>v. containers st v \<noteq> None \<Longrightarrow> containers st' v \<noteq> None" "clients st' = clients st"
  shows "dinv st' d"
proof (cases "delegates st d")
  case None
  then have "msgs_of st d = []" "\<forall>v. hpd st v d = {#}" using assms(1) by (simp_all add: dinv_def)
  then have "msgs_of st' d = []" "\<forall>v. hpd st' v d = {#}" using assms(3,4) by metis+
  then show ?thesis using None assms(2) by (simp add: dinv_def)
next
  case (Some t)
  then obtain w where "dlive st d t w" using assms(1) by (auto simp: dinv_def)
  then have "dlive st' d t w" by (rule dlive_shrink) (use assms in auto)
  then show ?thesis using Some assms(2) by (auto simp: dinv_def)
qed

lemma expire_inv:
  assumes inv: "timer_inv st" and c: "containers st w = Some c"
    and q: "msgq st = ms \<or> msgq st = MsgTimerExpire w # ms"
    and T: "(T = TaskIdle \<and> c' = upd_c None c) \<or>
            (\<exists>x t'. T = TaskPopped w now (fst x) \<and> c' = c\<lparr>mTree := t'\<rparr> \<and> heap_good t' \<and>
               mset_node (mTree c) = add_mset x (mset_node t') \<and> time_ok now)"
    and on: "\<And>v. v \<noteq> w \<Longrightarrow> \<not> task_on v (task st)"
  defines "st' \<equiv> (put_container w c' (st\<lparr>msgq := ms\<rparr>))\<lparr>task := T\<rparr>"
  shows "timer_inv st' \<and> task_ok st' T"
proof -
  have good: "heap_good (mTree c)" using inv c by (auto simp: timer_inv_def heaps_ok_def)
  have good': "heap_good (mTree c')" using T good by auto
  have same: "clients st' = clients st" "delegates st' = delegates st" "locks st' = locks st"
      "containers st' = (containers st)(w \<mapsto> c')" "msgq st' = ms" "task st' = T" "poll st' = poll st"
    by (auto simp: st'_def put_container_def)
  have msgs: "msgs_of st' d = msgs_of st d" for d using q same(5) by auto
  have sub: "\<exists>y. mset_node (mTree c) = mset_node (mTree c') \<or> mset_node (mTree c) = add_mset y (mset_node (mTree c'))"
    using T by auto
  have hpv: "hp st' v = (if v = w then mset_node (mTree c') else hp st v)" for v
    by (simp add: hp_def same)
  have shrink: "hpd st' v d = hpd st v d \<or> hpd st' v d = {#}" for v d
  proof (cases "v = w")
    case True
    have hpw: "hp st w = mset_node (mTree c)" using c by (simp add: hp_def)
    then have "hpd st' w d = hpd st w d \<or> (\<exists>y. hpd st w d = add_mset y (hpd st' w d))"
      using sub hpv [of w] by (auto simp: hpd_def)
    then show ?thesis using True hpd_small [OF inv, of w d] by auto
  next
    case False
    then show ?thesis by (simp add: hpd_def hpv)
  qed
  have "dinv st' d" for d
    by (rule dinv_shrink [of st]) (use inv same msgs shrink in \<open>auto simp: timer_inv_def\<close>)
  moreover have "cinv st' d" for d
    by (rule cinv_cong [of _ _ st]) (use inv same in \<open>auto simp: timer_inv_def\<close>)
  moreover have "linv st'" by (rule linv_cong [of _ st]) (use inv same in \<open>auto simp: timer_inv_def\<close>)
  moreover have pend: "pending st' v = pending st v" if v: "v \<noteq> w" for v
    using q v T on [OF v] same by (auto simp: pending_def)
  moreover have "heaps_ok st'"
    unfolding heaps_ok_def
  proof (intro allI impI)
    fix v c1
    assume c1: "containers st' v = Some c1"
    show "heap_good (mTree c1) \<and> (pending st' v \<or> armed_c c1)"
    proof (cases "v = w")
      case True
      then have "c1 = c'" using c1 same by simp
      moreover have "pending st' w \<or> armed_c c'"
        using T armed_reset [OF good] same by (auto simp: pending_def)
      ultimately show ?thesis using True good' by blast
    next
      case False
      then show ?thesis using c1 same pend [OF False] inv by (auto simp: timer_inv_def heaps_ok_def)
    qed
  qed
  moreover have "containers st' v \<noteq> None" if v: "pending st' v" for v
  proof (cases "v = w")
    case False
    then have "pending st v" using v pend by simp
    then show ?thesis using False inv same(4) by (simp add: timer_inv_def)
  qed (simp add: same)
  moreover have "task_ok st' T"
  proof (cases "T = TaskIdle")
    case False
    then obtain x t' where x: "T = TaskPopped w now (fst x)" "time_ok now"
        "mset_node (mTree c) = add_mset x (mset_node t')" using T by blast
    have "x \<in># hp st w" using c x(3) by (simp add: hp_def)
    then show ?thesis using x in_heap_live [OF inv, of x w] same by auto
  qed simp
  ultimately show ?thesis unfolding timer_inv_def by blast
qed

lemma expire_begin_inv:
  assumes inv: "timer_inv st" and q: "msgq st = MsgTimerExpire w # ms" and idle: "task st = TaskIdle"
    and now: "time_ok now"
  shows "\<exists>st'. expire_begin w now (st\<lparr>msgq := ms\<rparr>) = Some st' \<and> timer_inv st' \<and> task_ok st' (task st') \<and>
    hist st' = hist st \<and> clients st' = clients st"
proof -
  have "pending st w" using q by (simp add: pending_def)
  then obtain c where c: "containers st w = Some c" using inv by (auto simp: timer_inv_def)
  have good: "heap_good (mTree c)" using inv c by (auto simp: timer_inv_def heaps_ok_def)
  let ?st = "st\<lparr>msgq := ms\<rparr>"
  show ?thesis
  proof (cases "heap_peek (mTree c)")
    case None
    then have n: "mTree c = Null" using timer_peek_none [OF good] by simp
    have self: "c\<lparr>mTree := mTree c\<rparr> = c" by (cases c) simp
    have "heap_pop outRanks (mTree c) = Some (None, mTree c)" using n by (simp add: heap_pop_def)
    then have "expire_begin w now ?st = Some ((put_container w (upd_c None c) ?st)\<lparr>task := TaskIdle\<rparr>)"
      using c by (simp add: expire_begin_def self updateSoonestTime_eq)
    then show ?thesis
      using expire_inv [OF inv c, of ms TaskIdle "upd_c None c" now] q idle by simp
  next
    case (Some x)
    obtain t' where t': "heap_pop outRanks (mTree c) = Some (Some x, t')" "heap_good t'"
        "mset_node (mTree c) = add_mset x (mset_node t')" using timer_pop [OF good Some] by blast
    then have "expire_begin w now ?st =
        Some ((put_container w (c\<lparr>mTree := t'\<rparr>) ?st)\<lparr>task := TaskPopped w now (fst x)\<rparr>)"
      using c by (simp add: expire_begin_def)
    moreover have "\<exists>y u. TaskPopped w now (fst x) = TaskPopped w now (fst y) \<and>
        c\<lparr>mTree := t'\<rparr> = c\<lparr>mTree := u\<rparr> \<and> heap_good u \<and>
        mset_node (mTree c) = add_mset y (mset_node u) \<and> time_ok now"
      using t'(2,3) now by blast
    ultimately show ?thesis
      using expire_inv [OF inv c, of ms "TaskPopped w now (fst x)" "c\<lparr>mTree := t'\<rparr>" now] q idle by simp
  qed
qed

lemma expire_next_inv:
  assumes inv: "timer_inv st" and now: "time_ok now" and on: "task_on w (task st)"
  shows "\<exists>st'. expire_next w now st = Some st' \<and> timer_inv st' \<and> task_ok st' (task st') \<and>
    hist st' = hist st \<and> clients st' = clients st"
proof -
  have "pending st w" using on by (simp add: pending_def)
  then obtain c where c: "containers st w = Some c" using inv by (auto simp: timer_inv_def)
  have good: "heap_good (mTree c)" using inv c by (auto simp: timer_inv_def heaps_ok_def)
  have on': "v \<noteq> w \<Longrightarrow> \<not> task_on v (task st)" for v using on by (cases "task st") auto
  note e = expire_inv [OF inv c _ _ on', of "msgq st", simplified]
  have stop: "\<exists>st'. Some ((put_container w (upd_c None c) st)\<lparr>task := TaskIdle\<rparr>) = Some st' \<and>
      timer_inv st' \<and> task_ok st' (task st') \<and> hist st' = hist st \<and> clients st' = clients st"
    using e [of TaskIdle "upd_c None c" now] by simp
  show ?thesis
  proof (cases "heap_peek (mTree c)")
    case None
    then have "mTree c = Null" using timer_peek_none [OF good] by simp
    then have "expire_next w now st = Some ((put_container w (upd_c None c) st)\<lparr>task := TaskIdle\<rparr>)"
      using c by (simp add: expire_next_def popIfOutRanks_def updateSoonestTime_eq)
    then show ?thesis using stop by simp
  next
    case (Some x)
    then have n: "mTree c \<noteq> Null" by (auto simp: heap_peek_def)
    show ?thesis
    proof (cases "outRanks (NULL, now) x")
      case True
      then have "expire_next w now st = Some ((put_container w (upd_c None c) st)\<lparr>task := TaskIdle\<rparr>)"
        using c Some n by (simp add: expire_next_def popIfOutRanks_def updateSoonestTime_eq)
      then show ?thesis using stop by simp
    next
      case False
      obtain t' where t': "heap_pop outRanks (mTree c) = Some (Some x, t')" "heap_good t'"
          "mset_node (mTree c) = add_mset x (mset_node t')" using timer_pop [OF good Some] by blast
      then have "expire_next w now st =
          Some ((put_container w (c\<lparr>mTree := t'\<rparr>) st)\<lparr>task := TaskPopped w now (fst x)\<rparr>)"
        using c Some n False by (simp add: expire_next_def popIfOutRanks_def)
      moreover have "\<exists>y u. TaskPopped w now (fst x) = TaskPopped w now (fst y) \<and>
          c\<lparr>mTree := t'\<rparr> = c\<lparr>mTree := u\<rparr> \<and> heap_good u \<and>
          mset_node (mTree c) = add_mset y (mset_node u) \<and> time_ok now"
        using t'(2,3) now by blast
      ultimately show ?thesis
        using e [of "TaskPopped w now (fst x)" "c\<lparr>mTree := t'\<rparr>" now] by simp
    qed
  qed
qed

lemma push_inv:
  assumes inv: "timer_inv st" and q: "msgq st = MsgTimerPush w d # ms"
  shows "\<exists>st'. MsgTimerPush_proc w d (st\<lparr>msgq := ms\<rparr>) = Some st' \<and> timer_inv st' \<and>
    task st' = task st \<and> hist st' = hist st \<and> clients st' = clients st \<and> delegates st' = delegates st"
proof -
  have m: "msgs_of st d = MsgTimerPush w d # filter (about d) ms" using q by simp
  then obtain t where t: "delegates st d = Some t"
    using inv_dead(1) [OF inv, of d] by (cases "delegates st d") auto
  obtain v where "dlive st d t v" using inv_live [OF inv t] by blast
  then have l: "dlive st d t w" using m by (auto simp: dlive_def running_def stopped_def)
  have none: "hpd st v d = {#}" for v
    using l m by (cases "v = w") (auto simp: dlive_def running_def stopped_def)
  obtain c where c: "containers st w = Some c" using l by (auto simp: dlive_def)
  have good: "heap_good (mTree c)" using inv c by (auto simp: timer_inv_def heaps_ok_def)
  let ?x = "(d, mFutureTime t)"
  have "timer_ok ?x" using l by (simp add: dlive_def timer_ok_def)
  then obtain t' where t': "heap_push outRanks ?x (mTree c) = Some t'" "heap_good t'"
      "mset_node t' = add_mset ?x (mset_node (mTree c))" using timer_push [OF good] by blast
  define c' where "c' = upd_c (heap_peek (mTree c)) (c\<lparr>mTree := t'\<rparr>)"
  define st' where "st' = put_container w c' (st\<lparr>msgq := ms\<rparr>)"
  have run: "MsgTimerPush_proc w d (st\<lparr>msgq := ms\<rparr>) = Some st'"
    using c t t'(1) l
    by (simp add: MsgTimerPush_proc_def getSoonestTimer_def Let_def deref_live dlive_def
        updateSoonestTime_eq st'_def c'_def)
  have same: "clients st' = clients st" "delegates st' = delegates st" "locks st' = locks st"
      "containers st' = (containers st)(w \<mapsto> c')" "msgq st' = ms" "task st' = task st" "poll st' = poll st"
      "hist st' = hist st"
    by (auto simp: st'_def put_container_def)
  have pend: "pending st' v = pending st v" for v using q same by (simp add: pending_def)
  have hpv: "hp st' v = (if v = w then add_mset ?x (hp st w) else hp st v)" for v
    using c t'(3) by (simp add: hp_def same c'_def)
  have hpd: "hpd st' v e = (if v = w \<and> e = d then {#?x#} else hpd st v e)" for v e
    using none [of w] by (auto simp: hpd_def hpv)
  have "dinv st' e" for e
  proof (cases "e = d")
    case True
    have "dlive st' d t w"
      using l m same none hpd unfolding dlive_def running_def stopped_def by auto
    then show ?thesis using True t same by (auto simp: dinv_def)
  next
    case False
    show ?thesis
      by (rule dinv_cong [of _ _ st]) (use False inv same hpd q in \<open>auto simp: timer_inv_def\<close>)
  qed
  moreover have "cinv st' e" for e
    by (rule cinv_cong [of _ _ st]) (use inv same in \<open>auto simp: timer_inv_def\<close>)
  moreover have "linv st'" by (rule linv_cong [of _ st]) (use inv same in \<open>auto simp: timer_inv_def\<close>)
  moreover have "heaps_ok st'"
    unfolding heaps_ok_def
  proof (intro allI impI)
    fix v c1
    assume c1: "containers st' v = Some c1"
    show "heap_good (mTree c1) \<and> (pending st' v \<or> armed_c c1)"
    proof (cases "v = w")
      case True
      have small: "hpd st' w e = {#} \<or> (\<exists>f. hpd st' w e = {#(e, f)#})" for e
        using hpd [of w e] hpd_small [OF inv, of w e] by (cases "e = d") auto
      have "hp st' w = mset_node t'" using t'(3) c hpv [of w] by (simp add: hp_def)
      then have u: "ptrs_unique (mset_node t')" using hp_unique [of st' w] small by simp
      have "pending st w \<or> armed_c c" using inv c by (auto simp: timer_inv_def heaps_ok_def)
      then have "pending st' w \<or> armed_c c'"
        using armed_push [OF good t'(2,3) u] pend by (auto simp: c'_def)
      then show ?thesis using True c1 same t'(2) by (auto simp: c'_def)
    next
      case False
      then show ?thesis using c1 same pend inv by (auto simp: timer_inv_def heaps_ok_def)
    qed
  qed
  moreover have "\<forall>v. pending st' v \<longrightarrow> containers st' v \<noteq> None"
    using inv same pend by (simp add: timer_inv_def)
  ultimately have "timer_inv st'" unfolding timer_inv_def by blast
  then show ?thesis using run same by auto
qed

lemma remove_inv:
  assumes inv: "timer_inv st" and q: "msgq st = MsgTimerRemove w d # ms"
  shows "\<exists>st'. MsgTimerRemove_proc w d (st\<lparr>msgq := ms\<rparr>) = Some st' \<and> timer_inv st' \<and>
    task st' = task st \<and> hist st' = hist st \<and> clients st' = clients st"
proof -
  have m: "msgs_of st d = MsgTimerRemove w d # filter (about d) ms" using q by simp
  then obtain t where t: "delegates st d = Some t"
    using inv_dead(1) [OF inv, of d] by (cases "delegates st d") auto
  obtain v where "dlive st d t v" using inv_live [OF inv t] by blast
  then have l: "dlive st d t w" and s: "stopped st d t w" and rest: "filter (about d) ms = []"
    using m by (auto simp: dlive_def running_def stopped_def)
  obtain c where c: "containers st w = Some c" using l by (auto simp: dlive_def)
  have good: "heap_good (mTree c)" using inv c by (auto simp: timer_inv_def heaps_ok_def)
  let ?x = "(d, mFutureTime t)"
  have ok: "timer_ok ?x" using l by (simp add: dlive_def timer_ok_def)
  obtain t' where t': "heap_remove outRanks ?x (mTree c) =
        Some (if ?x \<in># mset_node (mTree c) then Some ?x else None, t')" "heap_good t'"
      "mset_node t' = mset_node (mTree c) - {#?x#}" using timer_remove [OF good ok] by blast
  define rm where "rm = (if ?x \<in># mset_node (mTree c) then Some ?x else None)"
  define c' where "c' = (if map_option fst (heap_peek (mTree c)) = map_option fst rm
      then upd_c None (c\<lparr>mTree := t'\<rparr>) else c\<lparr>mTree := t'\<rparr>)"
  have li: "linv st" using inv by (simp add: timer_inv_def)
  have own: "Inr d \<in> owners st (mSharedLock t)" using t by (auto simp: owners_def)
  note lk = linv_lock [OF li own]
  define n where "n = int (card (owners st (mSharedLock t)))"
  define st1 where "st1 = put_container w c' (st\<lparr>msgq := ms\<rparr>)"
  define st' where "st' = st1\<lparr>locks := (if n = 1 then (locks st)(mSharedLock t := None)
      else (locks st)(mSharedLock t \<mapsto> n - 1)), delegates := (delegates st)(d := None)\<rparr>"
  have d0: "d \<noteq> NULL" using l by (simp add: dlive_def)
  have "delete_delegate d st1 = Some st'"
    using t d0 lk by (simp add: delete_delegate_def lock_drop_def deref_live st'_def st1_def n_def)
  moreover have "heap_remove outRanks ?x (mTree c) = Some (rm, t')" using t'(1) by (simp only: rm_def)
  ultimately have run: "MsgTimerRemove_proc w d (st\<lparr>msgq := ms\<rparr>) = Some st'"
    using c t d0
    by (cases "map_option fst (heap_peek (mTree c)) = map_option fst rm")
      (simp_all add: MsgTimerRemove_proc_def getSoonestTimer_def deref_live
        updateSoonestTime_eq st1_def c'_def)
  have same: "clients st' = clients st" "delegates st' = (delegates st)(d := None)"
      "containers st' = (containers st)(w \<mapsto> c')" "msgq st' = ms" "task st' = task st" "poll st' = poll st"
      "hist st' = hist st"
    by (auto simp: st'_def st1_def put_container_def)
  have tree': "mTree c' = t'" by (simp add: c'_def)
  have pend: "pending st' v = pending st v" for v using q same by (simp add: pending_def)
  have hpw: "hp st w = mset_node (mTree c)" using c by (simp add: hp_def)
  have hpv: "hp st' v = (if v = w then hp st w - {#?x#} else hp st v)" for v
    using t'(3) hpw by (simp add: hp_def same tree')
  have hpd: "hpd st' v e = (if v = w \<and> e = d then {#} else hpd st v e)" for v e
  proof (cases "v = w")
    case True
    have "hpd st' w e = hpd st w e - (if e = d then {#?x#} else {#})"
      using hpv [of w] by (simp add: hpd_def)
    moreover have "hpd st w d - {#?x#} = {#}" using hpd_dlive [OF l, of w] by auto
    ultimately show ?thesis using True by simp
  next
    case False
    then show ?thesis by (simp add: hpd_def hpv)
  qed
  have noclient: "mTimer k \<noteq> d" if "clients st e = Some k" for e k
    using inv_client [OF inv that] t s d0 by (auto simp: stopped_def)
  have "dinv st' e" for e
  proof (cases "e = d")
    case True
    have "hpd st' v d = {#}" for v using hpd [of v d] l by (cases "v = w") (auto simp: dlive_def)
    then show ?thesis using True rest same by (simp add: dinv_def)
  next
    case False
    show ?thesis
      by (rule dinv_cong [of _ _ st]) (use False inv same hpd q in \<open>auto simp: timer_inv_def\<close>)
  qed
  moreover have "cinv st' e" for e
    by (rule cinv_cong [of _ _ st]) (use inv same noclient in \<open>auto simp: timer_inv_def\<close>)
  moreover have "linv st'"
  proof (rule linv_remove [OF li, of _ "mSharedLock t" "Inr d" n])
    show "finite (dom (clients st'))" "finite (dom (delegates st'))"
      using li same by (simp_all add: linv_def)
    show "owners st' l = (if l = mSharedLock t then owners st (mSharedLock t) - {Inr d} else owners st l)" for l
      using t by (auto simp: owners_def same split: if_splits)
    show "locks st' = (if n = 1 then (locks st)(mSharedLock t := None) else (locks st)(mSharedLock t \<mapsto> n - 1))"
      by (simp add: st'_def)
  qed (use own n_def in simp_all)
  moreover have "heaps_ok st'"
    unfolding heaps_ok_def
  proof (intro allI impI)
    fix v c1
    assume c1: "containers st' v = Some c1"
    show "heap_good (mTree c1) \<and> (pending st' v \<or> armed_c c1)"
    proof (cases "v = w")
      case True
      have old: "pending st w \<or> armed_c c" using inv c by (auto simp: timer_inv_def heaps_ok_def)
      have "armed_c c \<Longrightarrow> armed_c c'"
      proof -
        assume a: "armed_c c"
        show "armed_c c'"
        proof (cases "map_option fst (heap_peek (mTree c)) = map_option fst rm")
          case True
          then show ?thesis using armed_reset [of "c\<lparr>mTree := t'\<rparr>"] t'(2) by (simp add: c'_def)
        next
          case ne: False
          show ?thesis
          proof (cases "heap_peek (mTree c)")
            case None
            then have "mset_node (mTree c) = {#}" using timer_peek_none [OF good] by simp
            then show ?thesis using ne None by (simp add: rm_def)
          next
            case (Some p)
            have "p \<noteq> ?x"
              using timer_peek(1) [OF good Some] ne Some by (auto simp: rm_def)
            then have "armed_c (c\<lparr>mTree := t'\<rparr>)"
              using armed_remove_other [OF good t'(2,3) Some _ a] by blast
            then show ?thesis using ne by (simp add: c'_def)
          qed
        qed
      qed
      then show ?thesis using True c1 same t'(2) tree' old pend by auto
    next
      case False
      then show ?thesis using c1 same pend inv by (auto simp: timer_inv_def heaps_ok_def)
    qed
  qed
  moreover have "\<forall>v. pending st' v \<longrightarrow> containers st' v \<noteq> None"
    using inv same pend by (simp add: timer_inv_def)
  ultimately have "timer_inv st'" unfolding timer_inv_def by blast
  then show ?thesis using run same by auto
qed

section \<open>Steps of the polling thread\<close>

lemma poll_on_next [simp]: "poll_on w (poll_next ws) \<longleftrightarrow> w \<in> set ws"
  by (cases ws) (auto simp: poll_next_def)

lemma poll_change_inv:
  assumes inv: "timer_inv st"
    and same: "clients st' = clients st" "delegates st' = delegates st" "locks st' = locks st"
      "\<And>d. msgs_of st' d = msgs_of st d"
    and cont: "\<And>v. (containers st' v = None) = (containers st v = None)"
      "\<And>v c c'. containers st v = Some c \<Longrightarrow> containers st' v = Some c' \<Longrightarrow>
         mTree c' = mTree c \<and> (c' = c \<or> pending st' v)"
    and pend: "\<And>v. pending st v \<Longrightarrow> pending st' v" "\<And>v. pending st' v \<Longrightarrow> containers st v \<noteq> None"
  shows "timer_inv st'"
proof -
  have hp: "hp st' v = hp st v" for v
  proof (cases "containers st v")
    case None
    then have "containers st' v = None" using cont(1) [of v] by blast
    then show ?thesis using None by (simp add: hp_def)
  next
    case (Some c)
    then obtain c' where c': "containers st' v = Some c'" using cont(1) [of v] by (cases "containers st' v") simp_all
    then have "mTree c' = mTree c" using cont(2) [OF Some c'] by blast
    then show ?thesis using Some c' by (simp add: hp_def)
  qed
  have "dinv st' d" for d
  proof (rule dinv_cong [of _ _ st])
    show "delegates st' d = delegates st d" by (simp add: same)
    show "msgs_of st' d = msgs_of st d" by (rule same)
    show "hpd st' v d = hpd st v d" for v by (simp add: hpd_def hp)
    show "containers st v \<noteq> None \<Longrightarrow> containers st' v \<noteq> None" for v using cont(1) [of v] by simp
    show "\<exists>c'. clients st' (mClient t) = Some c' \<and> mTimer c' = d"
      if "clients st (mClient t) = Some c" "mTimer c = d" for t c using that same(1) by simp
    show "dinv st d" using inv by (simp add: timer_inv_def)
  qed
  moreover have "cinv st' d" for d
    by (rule cinv_cong [of _ _ st]) (use inv same in \<open>auto simp: timer_inv_def\<close>)
  moreover have "linv st'" by (rule linv_cong [of _ st]) (use inv same in \<open>auto simp: timer_inv_def\<close>)
  moreover have "heaps_ok st'"
    unfolding heaps_ok_def
  proof (intro allI impI)
    fix v c'
    assume c': "containers st' v = Some c'"
    then obtain c where c: "containers st v = Some c" using cont(1) [of v] by (cases "containers st v") simp_all
    then have "heap_good (mTree c)" "pending st v \<or> armed_c c"
      using inv by (auto simp: timer_inv_def heaps_ok_def)
    then show "heap_good (mTree c') \<and> (pending st' v \<or> armed_c c')"
      using cont(2) [OF c c'] pend(1) [of v] by auto
  qed
  moreover have "\<forall>v. pending st' v \<longrightarrow> containers st' v \<noteq> None" using pend(2) cont(1) by blast
  ultimately show ?thesis unfolding timer_inv_def by blast
qed

lemma poll_step_inv:
  assumes inv: "timer_inv st" and ready: "poll st = PollWait \<Longrightarrow> \<forall>w \<in> set ready. containers st w \<noteq> None"
  shows "\<exists>st'. poll_step ready st = Some st' \<and> timer_inv st' \<and> task st' = task st \<and>
    hist st' = hist st \<and> clients st' = clients st \<and> delegates st' = delegates st"
proof (cases "poll st")
  case PollWait
  then show ?thesis
    using ready by (auto simp: poll_step_def intro!: poll_change_inv [OF inv])
      (use inv in \<open>auto simp: pending_def timer_inv_def\<close>)
next
  case (PollFired w ws)
  then have "pending st w" by (simp add: pending_def)
  then obtain c where c: "containers st w = Some c" using inv by (auto simp: timer_inv_def)
  let ?st = "(put_container w (settime (0, 0) c) st)\<lparr>poll := PollDisarmed w ws\<rparr>"
  have p: "pending ?st v = pending st v" for v using PollFired by (simp add: pending_def)
  have "timer_inv ?st"
    by (rule poll_change_inv [OF inv]) (use c p inv in \<open>auto simp: settime_def timer_inv_def pending_def split: if_splits\<close>)
  then show ?thesis using PollFired c by (simp add: poll_step_def)
next
  case (PollDisarmed w ws)
  then have "pending st w" by (simp add: pending_def)
  then obtain c where c: "containers st w = Some c" using inv by (auto simp: timer_inv_def)
  let ?st = "(put_container w (removePoll c) st)\<lparr>poll := PollRemoved w ws\<rparr>"
  have p: "pending ?st v = pending st v" for v using PollDisarmed by (simp add: pending_def)
  have "timer_inv ?st"
    by (rule poll_change_inv [OF inv]) (use c p inv in \<open>auto simp: removePoll_def timer_inv_def pending_def split: if_splits\<close>)
  then show ?thesis using PollDisarmed c by (simp add: poll_step_def)
next
  case (PollRemoved w ws)
  let ?st = "(sendMsg (MsgTimerExpire w) st)\<lparr>poll := poll_next ws\<rparr>"
  have p: "pending ?st v = pending st v" for v using PollRemoved by (auto simp: pending_def)
  have "timer_inv ?st"
    by (rule poll_change_inv [OF inv]) (use p inv in \<open>auto simp: timer_inv_def\<close>)
  then show ?thesis using PollRemoved by (simp add: poll_step_def)
qed

section \<open>Every step of every thread\<close>

lemma hist_inv [simp]: "timer_inv (st\<lparr>hist := h\<rparr>) = timer_inv st"
proof -
  have "hpd (st\<lparr>hist := h\<rparr>) = hpd st" by (rule hpd_cong) simp
  then have "dinv (st\<lparr>hist := h\<rparr>) = dinv st"
    by (simp add: dinv_def dlive_def running_def stopped_def fun_eq_iff cong: option.case_cong)
  moreover have "cinv (st\<lparr>hist := h\<rparr>) c = cinv st c" for c
    by (cases "clients st c") (simp_all add: cinv_def)
  then have "cinv (st\<lparr>hist := h\<rparr>) = cinv st" by (rule ext)
  moreover have "linv (st\<lparr>hist := h\<rparr>) = linv st" by (simp add: linv_def owners_def)
  moreover have "heaps_ok (st\<lparr>hist := h\<rparr>) = heaps_ok st" by (simp add: heaps_ok_def)
  ultimately show ?thesis by (simp add: timer_inv_def)
qed

lemma record_if_simps [simp]:
  "timer_inv (record_if b e st) = timer_inv st" "clients (record_if b e st) = clients st"
  "delegates (record_if b e st) = delegates st" "task (record_if b e st) = task st"
  "poll (record_if b e st) = poll st" "containers (record_if b e st) = containers st"
  "hist (record_if b e st) = (if b then hist st @ [e] else hist st)"
  by (simp_all add: record_if_def)

lemma task_change_inv:
  assumes "timer_inv st" "\<And>v. task_on v T = task_on v (task st)"
  shows "timer_inv (st\<lparr>task := T\<rparr>)"
  by (rule poll_change_inv [OF assms(1)]) (use assms in \<open>auto simp: pending_def timer_inv_def\<close>)

text \<open>Starts are stops and expiries, plus the timer that runs.\<close>

definition hist_ok :: "timer_st \<Rightarrow> bool" where
  "hist_ok st \<longleftrightarrow> (\<forall>c. count_list (hist st) (Started c) =
     count_list (hist st) (Stopped c) + count_list (hist st) (Expired c) +
     (case clients st c of None \<Rightarrow> 0 | Some k \<Rightarrow> if mTimer k \<noteq> NULL then 1 else 0))"

lemma hist_ok_same: "hist st' = hist st \<Longrightarrow> clients st' = clients st \<Longrightarrow> hist_ok st' = hist_ok st"
  by (simp add: hist_ok_def)

lemma hist_ok_end:
  assumes "hist_ok st" "clients st c = Some k" "e = Stopped c \<or> e = Expired c"
    "hist st' = (if mTimer k \<noteq> NULL then hist st @ [e] else hist st)"
    "clients st' = (clients st)(c \<mapsto> k\<lparr>mTimer := NULL\<rparr>) \<or> clients st' = (clients st)(c := None)"
  shows "hist_ok st'"
  unfolding hist_ok_def
proof
  fix d
  have "count_list (hist st) (Started d) = count_list (hist st) (Stopped d) + count_list (hist st) (Expired d) +
     (case clients st d of None \<Rightarrow> 0 | Some k \<Rightarrow> if mTimer k \<noteq> NULL then 1 else 0)"
    using assms(1) by (simp add: hist_ok_def)
  then show "count_list (hist st') (Started d) = count_list (hist st') (Stopped d) + count_list (hist st') (Expired d) +
     (case clients st' d of None \<Rightarrow> 0 | Some k \<Rightarrow> if mTimer k \<noteq> NULL then 1 else 0)"
    using assms(2-5) by (cases "d = c") auto
qed

lemma task_step_inv:
  assumes inv: "timer_inv st" and tk: "task_ok st (task st)" and now: "time_ok now" and h: "hist_ok st"
  shows "\<exists>st'. task_step now st = Some st' \<and> timer_inv st' \<and> task_ok st' (task st') \<and> hist_ok st'"
proof (cases "task st")
  case TaskIdle
  show ?thesis
  proof (cases "msgq st")
    case Nil
    then show ?thesis using TaskIdle inv h by (simp add: task_step_def)
  next
    case (Cons m ms)
    then show ?thesis
    proof (cases m)
      case (MsgTimerPush w d)
      then show ?thesis
        using push_inv [OF inv, of w d ms] Cons TaskIdle h by (auto simp: task_step_def hist_ok_def)
    next
      case (MsgTimerRemove w d)
      then show ?thesis
        using remove_inv [OF inv, of w d ms] Cons TaskIdle h by (auto simp: task_step_def hist_ok_def)
    next
      case (MsgTimerExpire w)
      then show ?thesis
        using expire_begin_inv [OF inv _ TaskIdle now, of w ms] Cons TaskIdle h
        by (auto simp: task_step_def hist_ok_def)
    qed
  qed
next
  case (TaskPopped w t d)
  then obtain timer where d: "delegates st d = Some timer" "d \<noteq> NULL" and t: "time_ok t" using tk by auto
  show ?thesis
  proof (cases "mClient timer = NULL")
    case True
    then show ?thesis
      using expire_next_inv [OF inv t, of w] TaskPopped d h by (auto simp: task_step_def deref_live hist_ok_def)
  next
    case False
    obtain v where "dlive st d timer v" using inv_live [OF inv d(1)] by blast
    then have "clients st (mClient timer) \<noteq> None"
      using False by (auto simp: dlive_def running_def stopped_def)
    moreover have "timer_inv (st\<lparr>task := TaskStopping w t (mClient timer)\<rparr>)"
      using TaskPopped by (intro task_change_inv [OF inv]) simp
    ultimately show ?thesis
      using TaskPopped False d t h by (simp add: task_step_def deref_live hist_ok_def)
  qed
next
  case (TaskStopping w t c)
  then obtain k where k: "clients st c = Some k" and t: "time_ok t" using tk by auto
  obtain st1 where st1: "LocTimer_stop c st = Some (mTimer k \<noteq> NULL, st1)" "timer_inv st1"
     "clients st1 = (clients st)(c \<mapsto> k\<lparr>mTimer := NULL\<rparr>)" "task st1 = task st" "hist st1 = hist st"
    using stop_inv [OF inv k] by blast
  show ?thesis
  proof (cases "mTimer k = NULL")
    case True
    then have "hist_ok st1" using hist_ok_end [OF h k, of "Stopped c" st1] st1 by simp
    then show ?thesis
      using expire_next_inv [OF st1(2) t, of w] TaskStopping st1 True
      by (auto simp: task_step_def hist_ok_def)
  next
    case False
    let ?st = "record_if True (Expired c) (st1\<lparr>task := TaskFiring w t c\<rparr>)"
    have "timer_inv (st1\<lparr>task := TaskFiring w t c\<rparr>)"
      using TaskStopping st1(4) by (intro task_change_inv [OF st1(2)]) simp
    moreover have "hist_ok ?st" using hist_ok_end [OF h k, of "Expired c" ?st] st1 False by simp
    ultimately show ?thesis
      using TaskStopping st1 False t by (simp add: task_step_def)
  qed
next
  case (TaskFiring w t c)
  then obtain k where k: "clients st c = Some k" and t: "time_ok t" using tk by auto
  have c0: "c \<noteq> NULL" using inv_client [OF inv k] by simp
  show ?thesis
  proof (cases "isWrapper k")
    case False
    then show ?thesis
      using expire_next_inv [OF inv t, of w] TaskFiring k c0 h
      by (auto simp: task_step_def deref_live record_if_def hist_ok_def)
  next
    case True
    obtain st1 where st1: "LocTimer_delete c st = Some (mTimer k \<noteq> NULL, st1)" "timer_inv st1"
       "clients st1 = (clients st)(c := None)" "task st1 = task st" "hist st1 = hist st"
      using delete_inv [OF inv k] by blast
    let ?st = "record_if (mTimer k \<noteq> NULL) (Stopped c) st1"
    have "hist_ok ?st" using hist_ok_end [OF h k, of "Stopped c" ?st] st1 by simp
    moreover have "timer_inv ?st" using st1(2) by simp
    then obtain st2 where "expire_next w t ?st = Some st2" "timer_inv st2" "task_ok st2 (task st2)"
        "hist st2 = hist ?st" "clients st2 = clients ?st"
      using expire_next_inv [OF _ t, of ?st w] TaskFiring st1(4) by auto
    ultimately show ?thesis
      using TaskFiring k c0 True st1(1)
      by (simp add: task_step_def deref_live wrapper_destroy_def hist_ok_def)
  qed
qed

end
