(* ===== verification/TimersSafety.thy ===== *)
theory TimersSafety
  imports TimersProofs
begin

text \<open>
  The guarantees of the timer service: every interleaving of clients, message task and polling
  thread, the order in which an expiry delivers the timers that are due, and two ways in which
  the code falls short of its comments.
\<close>

section \<open>Reachable states\<close>

text \<open>
  What the environment may do: clients are live, new addresses are fresh, the clock is positive
  and at least 50 days from the end of a 32-bit \<open>time_t\<close>, \<open>epoll_wait\<close> reports armed and
  polled containers only.
\<close>

definition clock_ok :: "timespec \<Rightarrow> bool" where
  "clock_ok t \<longleftrightarrow> 0 < fst t \<and> fst t < 2 ^ 31 - 4294968 \<and> 0 \<le> snd t \<and> snd t < 1000000000"

definition env_ok :: "timer_env \<Rightarrow> timer_st \<Rightarrow> bool" where
  "env_ok env st \<longleftrightarrow> clock_ok (nowBoot env) \<and> newDelegate env \<noteq> NULL \<and> delegates st (newDelegate env) = None"

definition may_fire :: "LocTimerContainer option \<Rightarrow> bool" where
  "may_fire co = (case co of None \<Rightarrow> False | Some c \<Rightarrow> mPolled c \<and> mArmed c \<noteq> None)"

lemma may_fire_Some: "may_fire co \<Longrightarrow> co \<noteq> None"
  by (cases co) (simp_all add: may_fire_def)

fun enabled :: "act \<Rightarrow> timer_st \<Rightarrow> bool" where
  "enabled (ANew c l) st \<longleftrightarrow> c \<noteq> NULL \<and> clients st c = None \<and> l \<noteq> NULL \<and> locks st l = None"
| "enabled (AStart env c ms wake) st \<longleftrightarrow> clients st c \<noteq> None \<and> env_ok env st"
| "enabled (AStop c) st \<longleftrightarrow> clients st c \<noteq> None"
| "enabled (ADelete c) st \<longleftrightarrow> clients st c \<noteq> None"
| "enabled (AWrapperStart env c l ms wake) st \<longleftrightarrow>
     c \<noteq> NULL \<and> clients st c = None \<and> l \<noteq> NULL \<and> locks st l = None \<and> env_ok env st"
| "enabled (AWrapperStop c) st \<longleftrightarrow> clients st c \<noteq> None"
| "enabled (ATask now) st \<longleftrightarrow> clock_ok now"
| "enabled (APoll ready) st \<longleftrightarrow> (poll st = PollWait \<longrightarrow>
     (\<forall>w \<in> set ready. may_fire (containers st w)))"

fun names :: "task \<Rightarrow> ptr option" where
  "names TaskIdle = None"
| "names (TaskPopped w t d) = None"
| "names (TaskStopping w t c) = Some c"
| "names (TaskFiring w t c) = Some c"

text \<open>A client is not deleted between the message task's reading of it and its callback.\<close>

fun disciplined :: "act \<Rightarrow> timer_st \<Rightarrow> bool" where
  "disciplined (ADelete c) st \<longleftrightarrow> names (task st) \<noteq> Some c"
| "disciplined (AWrapperStop c) st \<longleftrightarrow> names (task st) \<noteq> Some c"
| "disciplined a st \<longleftrightarrow> True"

text \<open>
  What the callers can do in any case: as \<open>enabled\<close>, but \<open>loc_timer_stop\<close> may be given a handle
  that is no longer valid. Two actions then use an object that is gone: that one, and the message
  task when the client it has read from the delegate has been deleted before \<open>stop\<close> or
  \<open>timeOutCallback\<close> is called on it.
\<close>

fun callable :: "act \<Rightarrow> timer_st \<Rightarrow> bool" where
  "callable (AWrapperStop c) st \<longleftrightarrow> True"
| "callable a st \<longleftrightarrow> enabled a st"

fun uses_dead :: "act \<Rightarrow> timer_st \<Rightarrow> bool" where
  "uses_dead (ATask now) st \<longleftrightarrow> (\<exists>c. names (task st) = Some c \<and> clients st c = None)"
| "uses_dead (AWrapperStop c) st \<longleftrightarrow> c \<noteq> NULL \<and> clients st c = None"
| "uses_dead a st \<longleftrightarrow> False"

definition timer_init :: timer_st where
  "timer_init = \<lparr>clients = Map.empty, locks = Map.empty, delegates = Map.empty,
     containers = (\<lambda>w. None), msgq = [], task = TaskIdle, poll = PollWait, hist = []\<rparr>"

inductive timer_reach :: "timer_st \<Rightarrow> bool" where
  init: "timer_reach timer_init"
| step: "timer_reach st \<Longrightarrow> enabled a st \<Longrightarrow> disciplined a st \<Longrightarrow> exec a st = Some st' \<Longrightarrow> timer_reach st'"

text \<open>The same without any discipline: clients may be deleted at any moment.\<close>

inductive timer_any :: "timer_st \<Rightarrow> bool" where
  init: "timer_any timer_init"
| step: "timer_any st \<Longrightarrow> callable a st \<Longrightarrow> exec a st = Some st' \<Longrightarrow> timer_any st'"

section \<open>No step faults\<close>

lemma uint_div_1000: "uint ((ms :: 32 word) div 1000) = uint ms div 1000"
  by (simp add: uint_div)

lemma uint_rest: "uint ((ms mod 1000) * 1000000 :: 32 word) = (uint ms mod 1000) * 1000000"
proof -
  have "uint ((ms mod 1000) * 1000000 :: 32 word) = (uint (ms mod 1000) * 1000000) mod 2 ^ 32"
    by (simp add: uint_word_ariths)
  also have "uint (ms mod 1000) = uint ms mod 1000" by (simp add: uint_mod)
  also have "((uint ms mod 1000) * 1000000) mod 2 ^ 32 = (uint ms mod 1000) * 1000000"
    using pos_mod_bound [of 1000 "uint ms"] pos_mod_sign [of 1000 "uint ms"]
    by (intro mod_pos_pos_trivial) simp_all
  finally show ?thesis .
qed

lemma future_time_sum:
  assumes "0 \<le> snd now"
  shows "fst (future_time now ms) * 1000000000 + snd (future_time now ms) =
           fst now * 1000000000 + snd now + uint ms * 1000000"
    and "0 \<le> snd (future_time now ms)" "snd (future_time now ms) < 1000000000"
proof -
  define q r where "q = uint ms div 1000" and "r = uint ms mod 1000"
  define n where "n = snd now + r * 1000000"
  define nq nr where "nq = n div 1000000000" and "nr = n mod 1000000000"
  have u: "uint ms = q * 1000 + r" "0 \<le> r" by (simp_all add: q_def r_def)
  have n: "n = nq * 1000000000 + nr" "0 \<le> nr" "nr < 1000000000" by (simp_all add: nq_def nr_def)
  have f: "future_time now ms = (if n \<ge> 1000000000 then (fst now + q + nq, nr) else (fst now + q, n))"
    by (simp add: future_time_def Let_def uint_div_1000 uint_rest q_def r_def n_def nq_def nr_def)
  show "fst (future_time now ms) * 1000000000 + snd (future_time now ms) =
           fst now * 1000000000 + snd now + uint ms * 1000000"
    using n(1) n_def u(1) by (simp add: f)
  show "0 \<le> snd (future_time now ms)" "snd (future_time now ms) < 1000000000"
    using assms u(2) n by (auto simp: f n_def)
qed

lemma future_time_ok:
  assumes "clock_ok now"
  shows "time_ok (future_time now ms)"
proof -
  have b: "0 \<le> uint ms" "uint ms < 4294967296" using uint_lt2p [of ms] by simp_all
  have c: "0 < fst now" "fst now < 2143188680" "0 \<le> snd now" "snd now < 1000000000"
    using assms by (simp_all add: clock_ok_def)
  note s = future_time_sum [OF c(3), of ms]
  have "0 < fst (future_time now ms)" "fst (future_time now ms) < 2147483648" using b c s by linarith+
  then show ?thesis using s by (simp add: time_ok_def)
qed

lemma clock_time [simp]: "clock_ok now \<Longrightarrow> time_ok now"
  by (auto simp: clock_ok_def time_ok_def)

lemma init_inv: "timer_inv timer_init \<and> task_ok timer_init (task timer_init) \<and> hist_ok timer_init"
  by (simp add: timer_inv_def timer_init_def heaps_ok_def dinv_def hpd_def hp_def cinv_def linv_def
      owners_def hist_ok_def pending_def)

lemma hist_ok_new:
  assumes "hist_ok st" "clients st c = None"
  shows "hist_ok (LocTimer_new c l b st)"
  unfolding hist_ok_def
proof
  fix d
  have "count_list (hist st) (Started d) = count_list (hist st) (Stopped d) + count_list (hist st) (Expired d) +
    (case clients st d of None \<Rightarrow> 0 | Some k \<Rightarrow> if mTimer k \<noteq> NULL then 1 else 0)"
    using assms(1) by (simp add: hist_ok_def)
  then show "count_list (hist (LocTimer_new c l b st)) (Started d) =
      count_list (hist (LocTimer_new c l b st)) (Stopped d) +
      count_list (hist (LocTimer_new c l b st)) (Expired d) +
      (case clients (LocTimer_new c l b st) d of None \<Rightarrow> 0 | Some k \<Rightarrow> if mTimer k \<noteq> NULL then 1 else 0)"
    using assms(2) by (cases "d = c") (simp_all add: LocTimer_new_def)
qed

text \<open>What the message task holds, apart from the life of the client it names.\<close>

fun task_weak :: "timer_st \<Rightarrow> task \<Rightarrow> bool" where
  "task_weak st TaskIdle = True"
| "task_weak st (TaskPopped w now d) = (time_ok now \<and> delegates st d \<noteq> None \<and> d \<noteq> NULL)"
| "task_weak st (TaskStopping w now c) = time_ok now"
| "task_weak st (TaskFiring w now c) = time_ok now"

lemma task_ok_weak: "task_ok st t \<longleftrightarrow> task_weak st t \<and> (\<forall>c. names t = Some c \<longrightarrow> clients st c \<noteq> None)"
  by (cases t) auto

lemma task_weak_mono: "task_weak st t \<Longrightarrow> dom (delegates st) \<subseteq> dom (delegates st') \<Longrightarrow> task_weak st' t"
  by (cases t) auto

text \<open>A step of a client or of the polling thread as the message task sees it.\<close>

definition goes_on :: "timer_st \<Rightarrow> timer_st \<Rightarrow> ptr set \<Rightarrow> bool" where
  "goes_on st st' gone \<longleftrightarrow> timer_inv st' \<and> hist_ok st' \<and> task st' = task st \<and>
     dom (delegates st) \<subseteq> dom (delegates st') \<and> dom (clients st) - gone \<subseteq> dom (clients st')"

lemma start_step:
  assumes inv: "timer_inv st" "hist_ok st" and k: "clients st c = Some k"
    and env: "env_ok env st"
  shows "\<exists>b st1. LocTimer_start env c ms wake st = Some (b, st1) \<and> goes_on st (record_if b (Started c) st1) {}"
proof -
  have li: "linv st" using inv(1) by (simp add: timer_inv_def)
  have "Inl c \<in> owners st (mLock k)" using k by (auto simp: owners_def)
  note lk = linv_lock [OF li this]
  note c0 = inv_client [OF inv(1) k]
  show ?thesis
  proof (cases "mTimer k = NULL")
    case False
    then have "LocTimer_start env c ms wake st = Some (False, st)"
      using k c0 lk by (simp add: LocTimer_start_def deref_live)
    then show ?thesis using inv by (auto simp: record_if_def goes_on_def intro!: exI [of _ False])
  next
    case True
    let ?s = "get_container wake (fdOk env) st"
    have s: "timer_inv ?s" by (rule get_container_inv [OF inv(1)])
    have same: "clients ?s = clients st" "delegates ?s = delegates st" "locks ?s = locks st"
        "task ?s = task st" "hist ?s = hist st"
      by (simp_all add: get_container_def)
    show ?thesis
    proof (cases "containers ?s wake")
      case None
      then have "LocTimer_start env c ms wake st = Some (False, ?s)"
        using k c0 lk True by (simp add: LocTimer_start_def deref_live)
      then show ?thesis
        using inv(2) s same hist_ok_same [of ?s st]
        by (auto simp: record_if_def goes_on_def intro!: exI [of _ False])
    next
      case (Some cc)
      have fut: "time_ok (future_time (nowBoot env) ms)"
        using env future_time_ok by (simp add: env_ok_def)
      have new: "newDelegate env \<noteq> NULL" "delegates ?s (newDelegate env) = None"
        using env same by (simp_all add: env_ok_def)
      obtain st1 where st1: "new_LocTimerDelegate (newDelegate env) c (future_time (nowBoot env) ms) wake ?s = Some st1"
          "timer_inv (st1\<lparr>clients := (clients st1)(c \<mapsto> k\<lparr>mTimer := newDelegate env\<rparr>)\<rparr>)"
          "clients st1 = clients ?s" "task st1 = task ?s" "hist st1 = hist ?s"
          "delegates st1 = (delegates ?s)(newDelegate env \<mapsto> \<lparr>mClient = c, mSharedLock = mLock k,
             mFutureTime = future_time (nowBoot env) ms, mContainer = Some wake\<rparr>)"
        using new_delegate_inv [OF s _ True _ new fut, of c wake] k same Some by auto
      let ?st2 = "st1\<lparr>clients := (clients st1)(c \<mapsto> k\<lparr>mTimer := newDelegate env\<rparr>)\<rparr>"
      have run: "LocTimer_start env c ms wake st = Some (True, ?st2)"
        using k c0 lk True Some new st1(1) same by (simp add: LocTimer_start_def deref_live st1(3))
      have "hist_ok (record_if True (Started c) ?st2)"
        unfolding hist_ok_def
      proof
        fix d
        have "count_list (hist st) (Started d) = count_list (hist st) (Stopped d) + count_list (hist st) (Expired d) +
          (case clients st d of None \<Rightarrow> 0 | Some k \<Rightarrow> if mTimer k \<noteq> NULL then 1 else 0)"
          using inv(2) by (simp add: hist_ok_def)
        then show "count_list (hist (record_if True (Started c) ?st2)) (Started d) =
            count_list (hist (record_if True (Started c) ?st2)) (Stopped d) +
            count_list (hist (record_if True (Started c) ?st2)) (Expired d) +
            (case clients (record_if True (Started c) ?st2) d of None \<Rightarrow> 0
             | Some k \<Rightarrow> if mTimer k \<noteq> NULL then 1 else 0)"
          using k True new(1) st1(3,5) same by (cases "d = c") auto
      qed
      then have "goes_on st (record_if True (Started c) ?st2) {}"
        using st1(2-4,6) same by (auto simp: goes_on_def)
      then show ?thesis using run by blast
    qed
  qed
qed

lemma delete_step:
  assumes inv: "timer_inv st" "hist_ok st" and k: "clients st c = Some k"
  shows "\<exists>b st1. LocTimer_delete c st = Some (b, st1) \<and> goes_on st (record_if b (Stopped c) st1) {c}"
proof -
  obtain st1 where st1: "LocTimer_delete c st = Some (mTimer k \<noteq> NULL, st1)" "timer_inv st1"
     "clients st1 = (clients st)(c := None)" "dom (delegates st1) = dom (delegates st)"
     "task st1 = task st" "hist st1 = hist st"
    using delete_inv [OF inv(1) k] by blast
  have "hist_ok (record_if (mTimer k \<noteq> NULL) (Stopped c) st1)"
    using hist_ok_end [OF inv(2) k, of "Stopped c" "record_if (mTimer k \<noteq> NULL) (Stopped c) st1"] st1 by simp
  then show ?thesis using st1 by (auto simp: goes_on_def)
qed

fun gone_by :: "act \<Rightarrow> ptr set" where
  "gone_by (ADelete c) = {c}"
| "gone_by (AWrapperStop c) = {c}"
| "gone_by a = {}"

lemma exec_step:
  assumes inv: "timer_inv st" "hist_ok st" and ca: "callable a st" and no: "\<not> uses_dead a st"
    and other: "\<And>now. a \<noteq> ATask now"
  shows "\<exists>st'. exec a st = Some st' \<and> goes_on st st' (gone_by a)"
proof (cases a)
  case (ANew c l)
  let ?st = "LocTimer_new c l False st"
  have "timer_inv ?st" using new_inv [OF inv(1)] ca ANew by simp
  moreover have "hist_ok ?st" using hist_ok_new [OF inv(2)] ca ANew by simp
  ultimately show ?thesis using ANew by (auto simp: goes_on_def LocTimer_new_def)
next
  case (AStart env c ms wake)
  then obtain k where k: "clients st c = Some k" "env_ok env st" using ca by auto
  show ?thesis using start_step [OF inv k, of ms wake] AStart by auto
next
  case (AStop c)
  then obtain k where k: "clients st c = Some k" using ca by auto
  obtain st1 where st1: "LocTimer_stop c st = Some (mTimer k \<noteq> NULL, st1)" "timer_inv st1"
     "clients st1 = (clients st)(c \<mapsto> k\<lparr>mTimer := NULL\<rparr>)" "dom (delegates st1) = dom (delegates st)"
     "task st1 = task st" "hist st1 = hist st"
    using stop_inv [OF inv(1) k] by blast
  let ?st = "record_if (mTimer k \<noteq> NULL) (Stopped c) st1"
  have "hist_ok ?st" using hist_ok_end [OF inv(2) k, of "Stopped c" ?st] st1 by simp
  then show ?thesis using AStop st1 by (auto simp: goes_on_def)
next
  case (ADelete c)
  then obtain k where k: "clients st c = Some k" using ca by auto
  show ?thesis using delete_step [OF inv k] ADelete by auto
next
  case (AWrapperStart env c l ms wake)
  let ?st = "LocTimer_new c l True st"
  have i: "timer_inv ?st" using new_inv [OF inv(1)] ca AWrapperStart by simp
  have h: "hist_ok ?st" using hist_ok_new [OF inv(2)] ca AWrapperStart by simp
  have e: "env_ok env ?st" using ca AWrapperStart by (simp add: env_ok_def LocTimer_new_def)
  have k: "clients ?st c = Some \<lparr>mTimer = NULL, mLock = l, isWrapper = True\<rparr>" by (simp add: LocTimer_new_def)
  obtain b st1 where "LocTimer_start env c (ucast ms) wake ?st = Some (b, st1)"
     "goes_on ?st (record_if b (Started c) st1) {}"
    using start_step [OF i h k e, of "ucast ms" wake] by blast
  then show ?thesis using AWrapperStart by (auto simp: loc_timer_start_def goes_on_def LocTimer_new_def)
next
  case (AWrapperStop c)
  show ?thesis
  proof (cases "c = NULL")
    case True
    then show ?thesis
      using AWrapperStop inv by (simp add: loc_timer_stop_def record_if_def goes_on_def)
  next
    case c0: False
    then obtain k where k: "clients st c = Some k" using no AWrapperStop by auto
    show ?thesis
    proof (cases "isWrapper k")
      case False
      then show ?thesis
        using AWrapperStop k c0 inv
        by (simp add: loc_timer_stop_def wrapper_destroy_def deref_live record_if_def goes_on_def)
    next
      case True
      then show ?thesis
        using delete_step [OF inv k] AWrapperStop k c0
        by (auto simp: loc_timer_stop_def wrapper_destroy_def deref_live)
    qed
  qed
next
  case (ATask now)
  then show ?thesis using other by simp
next
  case (APoll ready)
  obtain st' where st': "poll_step ready st = Some st'" "timer_inv st'" "task st' = task st"
    "hist st' = hist st" "clients st' = clients st" "delegates st' = delegates st"
    using poll_step_inv [OF inv(1), of ready] ca APoll may_fire_Some by auto
  moreover have "hist_ok st'" using inv(2) hist_ok_same [OF st'(4,5)] by simp
  ultimately show ?thesis using APoll by (simp add: goes_on_def)
qed

lemma exec_any:
  assumes inv: "timer_inv st" "task_weak st (task st)" "hist_ok st" and ca: "callable a st"
  shows "(exec a st = None \<longleftrightarrow> uses_dead a st) \<and>
    (\<forall>st'. exec a st = Some st' \<longrightarrow> timer_inv st' \<and> task_weak st' (task st') \<and> hist_ok st')"
proof (cases "uses_dead a st")
  case True
  then have "exec a st = None"
    by (cases a; cases "task st")
      (auto simp: task_step_def LocTimer_stop_def loc_timer_stop_def wrapper_destroy_def deref_def)
  then show ?thesis using True by simp
next
  case False
  show ?thesis
  proof (cases "\<exists>now. a = ATask now")
    case True
    then obtain now where a: "a = ATask now" by blast
    have "task_ok st (task st)" using inv(2) False a by (auto simp: task_ok_weak)
    then obtain st' where "task_step now st = Some st'" "timer_inv st'" "task_ok st' (task st')" "hist_ok st'"
      using task_step_inv [OF inv(1) _ _ inv(3), of now] ca a by auto
    then show ?thesis using a False by (simp add: task_ok_weak)
  next
    case o: False
    obtain st' where "exec a st = Some st'" "goes_on st st' (gone_by a)"
      using exec_step [OF inv(1,3) ca False] o by blast
    then show ?thesis using False inv(2) task_weak_mono by (auto simp: goes_on_def)
  qed
qed

lemma timer_any_inv: "timer_any st \<Longrightarrow> timer_inv st \<and> task_weak st (task st) \<and> hist_ok st"
proof (induction rule: timer_any.induct)
  case init
  show ?case using init_inv by (simp add: task_ok_weak)
next
  case (step st a st')
  then show ?case using exec_any [of st a] by blast
qed

lemma enabled_callable: "enabled a st \<Longrightarrow> callable a st"
  by (cases a) simp_all

lemma exec_inv:
  assumes inv: "timer_inv st" "task_ok st (task st)" "hist_ok st" and en: "enabled a st" and di: "disciplined a st"
  shows "\<exists>st'. exec a st = Some st' \<and> timer_inv st' \<and> task_ok st' (task st') \<and> hist_ok st'"
proof (cases "\<exists>now. a = ATask now")
  case True
  then show ?thesis using task_step_inv [OF inv(1,2) _ inv(3)] en by auto
next
  case False
  have "\<not> uses_dead a st" using False en by (cases a) auto
  then obtain st' where st': "exec a st = Some st'" "goes_on st st' (gone_by a)"
    using exec_step [OF inv(1,3) enabled_callable [OF en]] False by blast
  have "names (task st) = Some c \<Longrightarrow> c \<notin> gone_by a" for c using di by (cases a) auto
  then have "task_ok st' (task st)"
    using inv(2) st'(2) task_weak_mono by (fastforce simp: task_ok_weak goes_on_def)
  then show ?thesis using st' by (auto simp: goes_on_def)
qed

lemma reach_inv: "timer_reach st \<Longrightarrow> timer_inv st \<and> task_ok st (task st) \<and> hist_ok st"
proof (induction rule: timer_reach.induct)
  case init
  show ?case by (rule init_inv)
next
  case (step st a st')
  then show ?case using exec_inv [of st a] by auto
qed

lemma reach_any: "timer_reach st \<Longrightarrow> timer_any st"
proof (induction rule: timer_reach.induct)
  case init
  show ?case by (rule timer_any.init)
next
  case (step st a st')
  then show ?case using timer_any.step enabled_callable by blast
qed

text \<open>A scripted run: every action must be enabled and disciplined.\<close>

fun timer_run :: "act list \<Rightarrow> timer_st \<Rightarrow> timer_st option" where
  "timer_run [] st = Some st"
| "timer_run (a # as) st = (if enabled a st \<and> disciplined a st then Option.bind (exec a st) (timer_run as) else None)"

lemma timer_run_reach: "timer_reach st \<Longrightarrow> timer_run as st = Some st' \<Longrightarrow> timer_reach st'"
proof (induction as arbitrary: st)
  case (Cons a as)
  then obtain st1 where "enabled a st" "disciplined a st" "exec a st = Some st1" "timer_run as st1 = Some st'"
    by (auto simp: bind_eq_Some_conv split: if_splits)
  then show ?case using Cons.IH timer_reach.step [OF Cons.prems(1)] by blast
qed simp

section \<open>One expiry\<close>

text \<open>The timers that the loop of \<open>MsgTimerExpire\<close> pops when nobody interferes.\<close>

fun more_pops :: "nat \<Rightarrow> timespec \<Rightarrow> LocTimerContainer \<Rightarrow> (tref list \<times> LocTimerContainer) option" where
  "more_pops 0 now c = Some ([], c)"
| "more_pops (Suc n) now c = do {
     (popped, c) \<leftarrow> popIfOutRanks now c;
     case popped of
       None \<Rightarrow> Some ([], c)
     | Some t \<Rightarrow> do { (ts, c) \<leftarrow> more_pops n now c; Some (t # ts, c) } }"

definition expire_pops :: "nat \<Rightarrow> timespec \<Rightarrow> LocTimerContainer \<Rightarrow> (tref list \<times> LocTimerContainer) option" where
  "expire_pops n now c = do {
     (popped, tree) \<leftarrow> heap_pop outRanks (mTree c);
     case popped of
       None \<Rightarrow> Some ([], c\<lparr>mTree := tree\<rparr>)
     | Some t \<Rightarrow> do { (ts, c) \<leftarrow> more_pops n now (c\<lparr>mTree := tree\<rparr>); Some (t # ts, c) } }"

lemma more_pops_drain:
  "heap_good (mTree c) \<Longrightarrow> more_pops n now c =
     map_option (\<lambda>(ts, t). (ts, c\<lparr>mTree := t\<rparr>)) (tq.hq.drain n (outRanks (NULL, now)) (mTree c))"
proof (induction n arbitrary: c)
  case 0
  show ?case by (cases c) simp
next
  case (Suc n)
  have self: "c\<lparr>mTree := mTree c\<rparr> = c" by (cases c) simp
  show ?case
  proof (cases "heap_peek (mTree c)")
    case None
    then have "mTree c = Null" using timer_peek_none [OF Suc.prems] by simp
    then have "popIfOutRanks now c = Some (None, c)" by (simp add: popIfOutRanks_def)
    then show ?thesis using None self by simp
  next
    case (Some x)
    then have n: "mTree c \<noteq> Null" by (auto simp: heap_peek_def)
    obtain t' where t': "heap_pop outRanks (mTree c) = Some (Some x, t')" "heap_good t'"
      using timer_pop [OF Suc.prems Some] by blast
    show ?thesis
    proof (cases "outRanks (NULL, now) x")
      case True
      then have "popIfOutRanks now c = Some (None, c)" using n Some by (simp add: popIfOutRanks_def)
      then show ?thesis using Some True self by simp
    next
      case False
      then have "popIfOutRanks now c = Some (Some x, c\<lparr>mTree := t'\<rparr>)"
        using n Some t'(1) by (simp add: popIfOutRanks_def)
      then show ?thesis
        using Some False t' Suc.IH [of "c\<lparr>mTree := t'\<rparr>"]
        by (cases "tq.hq.drain n (outRanks (NULL, now)) t'") auto
    qed
  qed
qed

lemma expire_pops_ok:
  assumes g: "heap_good (mTree c)" and now: "time_ok now" and top: "heap_peek (mTree c) = Some x"
    and n: "size (mset_node (mTree c)) \<le> n"
  shows "\<exists>ts c'. expire_pops n now c = Some (x # ts, c') \<and>
     mset ts = filter_mset (\<lambda>y. \<not> earlier now (snd y)) (mset_node (mTree c) - {#x#}) \<and>
     mset_node (mTree c') = filter_mset (\<lambda>y. earlier now (snd y)) (mset_node (mTree c) - {#x#}) \<and>
     sorted_wrt (\<lambda>a b. \<not> earlier (snd b) (snd a)) (x # ts)"
proof -
  note x = timer_peek [OF g top]
  obtain t' where t': "heap_pop outRanks (mTree c) = Some (Some x, t')" "heap_good t'"
      "mset_node (mTree c) = add_mset x (mset_node t')" using timer_pop [OF g top] by blast
  let ?stop = "outRanks (NULL, now)"
  have okn: "timer_ok (NULL, now)" using now by (simp add: timer_ok_def)
  have mono: "?stop b" if "timer_ok a" "timer_ok b" "?stop a" "\<not> outRanks b a" for a b
    using that okn by (auto simp: outRanks_iff earlier_def)
  have sz: "size (mset_node t') \<le> n" using n t'(3) by simp
  obtain ts q' where d: "tq.hq.drain n ?stop t' = Some (ts, q')"
      "mset ts = filter_mset (\<lambda>y. \<not> ?stop y) (mset_node t')"
      "heap_good q' \<and> filter_mset ?stop (mset_node t') = mset_node q'"
      "sorted_wrt (\<lambda>a b. \<not> outRanks b a) ts"
    using tq.hq.drain_ok [of t' "mset_node t'" n ?stop] t'(2) sz mono by blast
  have stop: "?stop y \<longleftrightarrow> earlier now (snd y)" if "y \<in># mset_node t'" for y
    using that t'(2) okn by (simp add: outRanks_iff)
  have f: "filter_mset ?stop (mset_node t') = filter_mset (\<lambda>y. earlier now (snd y)) (mset_node t')"
    "filter_mset (\<lambda>y. \<not> ?stop y) (mset_node t') = filter_mset (\<lambda>y. \<not> earlier now (snd y)) (mset_node t')"
    using stop by (auto intro: filter_mset_cong)
  have sub: "y \<in> set ts \<Longrightarrow> y \<in># mset_node t'" for y
    using arg_cong [OF d(2), of set_mset] by auto
  have okt: "y \<in> set ts \<Longrightarrow> timer_ok y" for y using sub t'(2) by simp
  have "sorted_wrt (\<lambda>a b. \<not> earlier (snd b) (snd a)) ts"
    by (rule sorted_wrt_mono_rel [OF _ d(4)]) (use okt outRanks_iff in blast)
  moreover have "\<not> earlier (snd y) (snd x)" if "y \<in> set ts" for y
    using x(2) [of y] sub [OF that] okt [OF that] x(3) t'(3) by (simp add: outRanks_iff)
  ultimately have "sorted_wrt (\<lambda>a b. \<not> earlier (snd b) (snd a)) (x # ts)" by simp
  moreover have "more_pops n now (c\<lparr>mTree := t'\<rparr>) = Some (ts, c\<lparr>mTree := q'\<rparr>)"
    using more_pops_drain [of "c\<lparr>mTree := t'\<rparr>" n now] t'(2) d(1) by simp
  ultimately show ?thesis
    using t'(1,3) d(2,3) f by (simp add: expire_pops_def)
qed

section \<open>Sample runs\<close>

definition sample_env :: "int \<Rightarrow> ptr \<Rightarrow> timer_env" where
  "sample_env s d = \<lparr>nowBoot = (s, 0), newDelegate = d, fdOk = True\<rparr>"

text \<open>Client 1 is started for one second and its push is handled.\<close>

definition start_run :: "act list" where
  "start_run = [ANew 1 11, AStart (sample_env 1000 21) 1 1000 False, ATask (1000, 0)]"

text \<open>
  Client 1 is stopped again, which leaves the kernel timer armed; it fires, and before its
  expiry is handled client 2 starts a timer of 100 seconds.
\<close>

definition early_run :: "act list" where
  "early_run = start_run @ [AStop 1, ATask (1000, 0), APoll [False], APoll [], ANew 2 12,
     AStart (sample_env 1001 22) 2 100000 False, ATask (1001, 0),
     APoll [], APoll [], ATask (1001, 0), ATask (1001, 0), ATask (1001, 0)]"

text \<open>A one-second timer of the C interface up to its callback.\<close>

definition wrapper_run :: "act list" where
  "wrapper_run = [AWrapperStart (sample_env 1000 21) 1 11 1000 False, ATask (1000, 0),
     APoll [False], APoll [], APoll [], APoll [], ATask (1001, 0), ATask (1001, 0), ATask (1001, 0)]"

lemma start_run_ok:
  "(case timer_run start_run timer_init of None \<Rightarrow> False | Some st \<Rightarrow>
      (case containers st False of None \<Rightarrow> False | Some c \<Rightarrow> mTree c = HNode 1 Null (21, (1001, 0)) Null) \<and>
      hist st = [Started 1] \<and> \<not> pending st False \<and> clients st 1 \<noteq> None \<and> clients st 9 = None \<and>
      task st = TaskIdle)"
  by code_simp

lemma early_run_ok:
  "(case timer_run early_run timer_init of None \<Rightarrow> False | Some st \<Rightarrow>
      task st = TaskFiring False (1001, 0) 2 \<and>
      map_option mFutureTime (delegates st 22) = Some (1101, 0) \<and>
      hist st = [Started 1, Stopped 1, Started 2, Expired 2])"
  by code_simp

lemma wrapper_run_ok:
  "(case timer_run wrapper_run timer_init of None \<Rightarrow> False | Some st \<Rightarrow>
      task st = TaskFiring False (1001, 0) 1 \<and> map_option isWrapper (clients st 1) = Some True)"
  by code_simp

lemma start_run_state:
  obtains st c where "timer_reach st" "timer_run start_run timer_init = Some st"
    "containers st False = Some c" "mTree c = HNode 1 Null (21, (1001, 0)) Null"
    "hist st = [Started 1]" "\<not> pending st False" "clients st 1 \<noteq> None" "task st = TaskIdle"
proof -
  obtain st where st: "timer_run start_run timer_init = Some st"
    using start_run_ok by (cases "timer_run start_run timer_init") simp_all
  have "timer_reach st" by (rule timer_run_reach [OF timer_reach.init st])
  moreover obtain c where "containers st False = Some c"
    using start_run_ok st by (cases "containers st False") simp_all
  ultimately show ?thesis using that start_run_ok st by simp
qed

section \<open>Properties\<close>

text \<open>C1: whatever clients, the message task and the polling thread do, in any order and without
  any discipline of the clients, an action uses a deleted timer, delegate, container or lock, or
  pops an empty heap, in exactly two cases: the message task calls \<open>stop\<close> or \<open>timeOutCallback\<close>
  on a client that was deleted after \<open>LocTimerDelegate::expire\<close> had read its address, and
  \<open>loc_timer_stop\<close> is given a handle whose timer is gone. Nothing else ever faults.\<close>
theorem timers_fault_only_on_dead_clients:
  assumes "timer_any st" "callable a st"
  shows "exec a st = None \<longleftrightarrow> uses_dead a st"
  using exec_any [of st a] timer_any_inv [OF assms(1)] assms(2) by blast

theorem timers_fault_only_on_dead_clients_witness:
  "\<exists>st. timer_any st \<and> hist st = [Started 1] \<and> exec (AStop 1) st \<noteq> None \<and> exec (AWrapperStop 9) st = None"
proof -
  obtain st where st: "timer_run start_run timer_init = Some st" "hist st = [Started 1]" "clients st 1 \<noteq> None"
    "clients st 9 = None"
    using start_run_ok by (cases "timer_run start_run timer_init") auto
  have r: "timer_any st" by (rule reach_any [OF timer_run_reach [OF timer_reach.init st(1)]])
  show ?thesis
    using r st timers_fault_only_on_dead_clients [OF r, of "AStop 1"]
      timers_fault_only_on_dead_clients [OF r, of "AWrapperStop 9"] by auto
qed

text \<open>The race is real: a client that is deleted while the message task is between reading it and
  stopping it.\<close>

lemma expiry_races_with_deletion:
  assumes "timer_reach st" "task st = TaskStopping w now c"
  shows "\<exists>st'. exec (ADelete c) st = Some st' \<and> timer_any st' \<and> exec (ATask t) st' = None"
proof -
  have i: "timer_inv st" "task_ok st (task st)" "hist_ok st" using reach_inv [OF assms(1)] by simp_all
  then obtain k where k: "clients st c = Some k" using assms(2) by auto
  obtain st1 where st1: "LocTimer_delete c st = Some (mTimer k \<noteq> NULL, st1)"
     "clients st1 = (clients st)(c := None)" "task st1 = task st"
    using delete_inv [OF i(1) k] by blast
  let ?st = "record_if (mTimer k \<noteq> NULL) (Stopped c) st1"
  have e: "exec (ADelete c) st = Some ?st" using st1(1) by simp
  moreover have "timer_any ?st" using timer_any.step [OF reach_any [OF assms(1)] _ e] k by simp
  moreover have "exec (ATask t) ?st = None"
    using st1(2,3) assms(2) by (simp add: task_step_def LocTimer_stop_def deref_def record_if_def)
  ultimately show ?thesis by blast
qed

text \<open>C14: no running timer is forgotten: in every reachable state, a container that holds timers
  either has an expiry on its way, or its kernel timer is armed and polled, and set to the
  time of a timer in the heap than which no other one is earlier.\<close>
theorem no_lost_timer:
  assumes "timer_reach st" "containers st w = Some c" "mTree c \<noteq> Null" "\<not> pending st w"
  shows "\<exists>d t. (d, t) \<in># mset_node (mTree c) \<and> mPolled c \<and> mArmed c = Some t \<and>
    (\<forall>y \<in># mset_node (mTree c). \<not> earlier (snd y) t)"
proof -
  have h: "heap_good (mTree c)" "armed_c c"
    using reach_inv [OF assms(1)] assms(2,4) by (auto simp: timer_inv_def heaps_ok_def)
  then obtain x where x: "heap_peek (mTree c) = Some x"
    using timer_peek_none [OF h(1)] assms(3) by (cases "heap_peek (mTree c)") auto
  note p = timer_peek [OF h(1) x]
  have "\<not> earlier (snd y) (snd x)" if "y \<in># mset_node (mTree c)" for y
    using p(2) [OF that] p(3) that h(1) by (simp add: outRanks_iff)
  moreover have "mPolled c \<and> mArmed c = Some (snd x)" using h(2) x by (simp add: armed_c_def)
  moreover have "(fst x, snd x) \<in># mset_node (mTree c)" using p(1) by simp
  ultimately show ?thesis by blast
qed

theorem no_lost_timer_witness:
  "\<exists>st c. timer_reach st \<and> containers st False = Some c \<and> mArmed c = Some (1001, 0)"
proof -
  obtain st c where st: "timer_reach st" "containers st False = Some c"
    "mTree c = HNode 1 Null (21, (1001, 0)) Null" "\<not> pending st False" using start_run_state by blast
  then have "mArmed c = Some (1001, 0)" using no_lost_timer [OF st(1,2) _ st(4)] by auto
  then show ?thesis using st(1,2) by blast
qed

text \<open>every successful start of a timer ends in at most one of a stop and an expiry: for
  every client object, the starts so far are the stops plus the expiries (each of which is
  followed by one callback), plus one exactly when a timer of the client is running.\<close>
theorem starts_are_stops_plus_expiries:
  assumes "timer_reach st"
  shows "count_list (hist st) (Started c) = count_list (hist st) (Stopped c) + count_list (hist st) (Expired c) +
    (case clients st c of None \<Rightarrow> 0 | Some k \<Rightarrow> if mTimer k \<noteq> NULL then 1 else 0)"
  using reach_inv [OF assms] by (simp add: hist_ok_def)

theorem starts_are_stops_plus_expiries_witness:
  "\<exists>st k. timer_reach st \<and> clients st 1 = Some k \<and> mTimer k \<noteq> NULL"
proof -
  obtain st where st: "timer_reach st" "hist st = [Started 1]" using start_run_state by blast
  note e = starts_are_stops_plus_expiries [OF st(1), of 1]
  show ?thesis
  proof (cases "clients st 1")
    case None
    then show ?thesis using e st(2) by simp
  next
    case (Some k)
    then have "mTimer k \<noteq> NULL" using e st(2) by (cases "mTimer k = NULL") simp_all
    then show ?thesis using st(1) Some by blast
  qed
qed

text \<open>the loop of \<open>MsgTimerExpire\<close>, left alone, pops the top of the heap and then exactly the
  other timers that are due, in the order of their times, and leaves exactly those that are
  not; it needs no more rounds than the heap has timers.\<close>
theorem expire_pops_due_timers:
  assumes "rankable outRanks timer_ok" "checkNodes outRanks (mTree c)" "\<forall>y \<in> set_node (mTree c). timer_ok y"
    "time_ok now" "heap_peek (mTree c) = Some x" "size (mset_node (mTree c)) \<le> n"
  shows "\<exists>ts c'. expire_pops n now c = Some (x # ts, c') \<and>
     mset ts = filter_mset (\<lambda>y. \<not> earlier now (snd y)) (mset_node (mTree c) - {#x#}) \<and>
     mset_node (mTree c') = filter_mset (\<lambda>y. earlier now (snd y)) (mset_node (mTree c) - {#x#}) \<and>
     sorted_wrt (\<lambda>a b. \<not> earlier (snd b) (snd a)) (x # ts)"
proof -
  have "heap_inv outRanks (mTree c)" using tq.checkNodes_iff [OF assms(3)] assms(2) by simp
  then show ?thesis using expire_pops_ok assms(3-6) by blast
qed

theorem expire_pops_due_timers_witness:
  "\<exists>ts c'. expire_pops 3 (20, 0) \<lparr>mTree = HNode 3 (HNode 1 Null (2, (30, 0)) Null) (1, (10, 0))
      (HNode 1 Null (3, (15, 0)) Null), mArmed = None, mPolled = False\<rparr> = Some ((1, (10, 0)) # ts, c') \<and>
    mset ts = {#(3, (15, 0))#}"
  using expire_pops_due_timers [OF tq.rankable_axioms, of "\<lparr>mTree = HNode 3 (HNode 1 Null (2, (30, 0)) Null)
     (1, (10, 0)) (HNode 1 Null (3, (15, 0)) Null), mArmed = None, mPolled = False\<rparr>" "(20, 0)" "(1, (10, 0))" 3]
  by (auto simp: outRanks_def ranks_def to_int32_def timer_ok_def time_ok_def heap_peek_def earlier_def)

text \<open>C25: a started timer's due time is a normalised \<open>timespec\<close> that lies exactly the requested
  number of milliseconds after the clock's reading.\<close>
theorem start_due_time:
  assumes "0 \<le> snd now"
  shows "0 \<le> snd (future_time now ms) \<and> snd (future_time now ms) < 1000000000 \<and>
    fst (future_time now ms) * 1000000000 + snd (future_time now ms) =
      fst now * 1000000000 + snd now + uint ms * 1000000"
  using future_time_sum [OF assms] by simp

theorem start_due_time_witness:
  "snd (future_time (5, 999999999) 1) < 1000000000"
  using start_due_time [of "(5, 999999999)" 1] by simp

text \<open>a timer can fire early: a message task that handles a left-over expiry pops the top of
  the heap without looking at its time. Here a timer of 100 seconds, started one second
  after boot second 1000, is about to call its client back in second 1001.\<close>
theorem timer_fires_early:
  "\<exists>st t. timer_reach st \<and> timer_run early_run timer_init = Some st \<and>
     task st = TaskFiring False (1001, 0) 2 \<and> delegates st 22 = Some t \<and>
     earlier (1001, 0) (mFutureTime t)"
proof -
  obtain st where st: "timer_run early_run timer_init = Some st"
    using early_run_ok by (cases "timer_run early_run timer_init") simp_all
  have r: "timer_reach st" by (rule timer_run_reach [OF timer_reach.init st])
  obtain t where "delegates st 22 = Some t" "mFutureTime t = (1101, 0)"
    using early_run_ok st by auto
  then show ?thesis using early_run_ok st r by (auto simp: earlier_def)
qed

text \<open>the handle of \<open>loc_timer_start\<close> dies with its callback: after the step that runs the
  callback, the wrapper is deleted, and \<open>loc_timer_stop\<close> on the handle the caller still holds
  reads the deleted object.\<close>
theorem loc_timer_stop_after_callback:
  assumes "timer_reach st" "task st = TaskFiring w now h" "clients st h = Some k" "isWrapper k"
  shows "\<exists>st'. task_step t st = Some st' \<and> clients st' h = None \<and> loc_timer_stop h st' = None"
proof -
  have inv: "timer_inv st" "task_ok st (task st)" using reach_inv [OF assms(1)] by simp_all
  have h0: "h \<noteq> NULL" using inv_client [OF inv(1) assms(3)] by simp
  obtain st1 where st1: "LocTimer_delete h st = Some (mTimer k \<noteq> NULL, st1)" "timer_inv st1"
       "clients st1 = (clients st)(h := None)" "task st1 = task st"
    using delete_inv [OF inv(1) assms(3)] by blast
  let ?st = "record_if (mTimer k \<noteq> NULL) (Stopped h) st1"
  have "time_ok now" using inv(2) assms(2) by simp
  then obtain st2 where st2: "expire_next w now ?st = Some st2" "clients st2 = clients ?st"
    using expire_next_inv [of ?st now w] st1(2,4) assms(2) by auto
  have "clients st2 h = None" using st2(2) st1(3) by simp
  then have "loc_timer_stop h st2 = None"
    using h0 by (simp add: loc_timer_stop_def wrapper_destroy_def deref_def)
  then show ?thesis
    using assms(2-4) h0 st1(1) st2(1) \<open>clients st2 h = None\<close>
    by (simp add: task_step_def deref_live wrapper_destroy_def)
qed

theorem loc_timer_stop_after_callback_witness:
  "\<exists>st st'. timer_reach st \<and> task_step (1001, 0) st = Some st' \<and> loc_timer_stop 1 st' = None"
proof -
  obtain st where st: "timer_run wrapper_run timer_init = Some st"
    using wrapper_run_ok by (cases "timer_run wrapper_run timer_init") simp_all
  have r: "timer_reach st" by (rule timer_run_reach [OF timer_reach.init st])
  obtain k where "clients st 1 = Some k" "isWrapper k" "task st = TaskFiring False (1001, 0) 1"
    using wrapper_run_ok st by auto
  then show ?thesis using loc_timer_stop_after_callback [OF r, of False "(1001, 0)" 1 k "(1001, 0)"] r by blast
qed

end
