(* ===== verification/RilEvent.thy ===== *)
theory RilEvent
  imports Prelude
begin

text \<open>
  \<open>ril/libril/ril_event.cpp\<close>: the event loop of the radio daemon. Timers wait in a ring
  that is kept sorted by due time, file descriptors in a table of eight slots, and what has
  become due or readable in the pending ring until the loop calls it back.
  The rings are threaded through the events themselves (\<open>next\<close>, \<open>prev\<close>) with the two static
  events \<open>timer_list\<close> and \<open>pending_list\<close> as their heads, so the model keeps every event in a
  store and performs the pointer assignments of the code one by one.
  The public operations run under \<open>listMutex\<close> and are single steps; the clock reading of
  \<open>getNow\<close> and the answers of \<open>select\<close> are arguments. \<open>FD_SET\<close>, \<open>FD_CLR\<close> and
  \<open>FD_ISSET\<close> abort the process for a descriptor outside \<open>[0, FD_SETSIZE)\<close>, which is a
  fault (\<open>None\<close>) like a bad dereference.
\<close>

section \<open>Data\<close>

datatype timeval = Timeval (tv_sec: int) (tv_usec: int)

record ril_event =
  next_ev :: ptr
  prev_ev :: ptr
  fd :: int
  index :: int
  persist :: bool
  timeout :: timeval
  func :: ptr
  param :: ptr

definition MAX_FD_EVENTS :: nat where
  "MAX_FD_EVENTS = 8"

definition FD_SETSIZE :: int where
  "FD_SETSIZE = 1024"

text \<open>The addresses of the two static list heads.\<close>

definition timer_list :: ptr where
  "timer_list = 1"

definition pending_list :: ptr where
  "pending_list = 2"

text \<open>
  The static variables of the file, the events they point to, and the log of the callbacks
  made so far: function, descriptor and parameter of each.
\<close>

record ril_vars =
  events :: "ril_event store"
  watch_table :: "ptr list"
  readFds :: "int set"
  nfds :: int
  fired :: "(ptr \<times> int \<times> ptr) list"

section \<open>Time\<close>

definition timeradd :: "timeval \<Rightarrow> timeval \<Rightarrow> timeval" where
  "timeradd a b =
     (let sec = tv_sec a + tv_sec b; usec = tv_usec a + tv_usec b in
      if usec \<ge> 1000000 then Timeval (sec + 1) (usec - 1000000) else Timeval sec usec)"

definition timercmp :: "timeval \<Rightarrow> timeval \<Rightarrow> (int \<Rightarrow> int \<Rightarrow> bool) \<Rightarrow> bool" where
  "timercmp a b rel =
     (if tv_sec a = tv_sec b then rel (tv_usec a) (tv_usec b) else rel (tv_sec a) (tv_sec b))"

definition timersub :: "timeval \<Rightarrow> timeval \<Rightarrow> timeval" where
  "timersub a b =
     (let sec = tv_sec a - tv_sec b; usec = tv_usec a - tv_usec b in
      if usec < 0 then Timeval (sec - 1) (usec + 1000000) else Timeval sec usec)"

definition getNow :: "int \<times> int \<Rightarrow> timeval" where
  "getNow ts = (case ts of (sec, nsec) \<Rightarrow> Timeval sec (nsec div 1000))"

section \<open>Rings\<close>

definition zero_event :: ril_event where
  "zero_event = \<lparr>next_ev = NULL, prev_ev = NULL, fd = 0, index = 0, persist = False,
                 timeout = Timeval 0 0, func = NULL, param = NULL\<rparr>"

definition init_list :: "ptr \<Rightarrow> ril_event store \<Rightarrow> ril_event store option" where
  "init_list l es =
     update_at es l (\<lambda>_. zero_event\<lparr>next_ev := l, prev_ev := l, fd := -1\<rparr>)"

definition addToList :: "ptr \<Rightarrow> ptr \<Rightarrow> ril_event store \<Rightarrow> ril_event store option" where
  "addToList ev l es = do {
     es \<leftarrow> update_at es ev (\<lambda>e. e\<lparr>next_ev := l\<rparr>);
     le \<leftarrow> deref es l;
     es \<leftarrow> update_at es ev (\<lambda>e. e\<lparr>prev_ev := prev_ev le\<rparr>);
     e \<leftarrow> deref es ev;
     es \<leftarrow> update_at es (prev_ev e) (\<lambda>p. p\<lparr>next_ev := ev\<rparr>);
     update_at es l (\<lambda>le. le\<lparr>prev_ev := ev\<rparr>)
   }"

definition removeFromList :: "ptr \<Rightarrow> ril_event store \<Rightarrow> ril_event store option" where
  "removeFromList ev es = do {
     e \<leftarrow> deref es ev;
     es \<leftarrow> update_at es (next_ev e) (\<lambda>n. n\<lparr>prev_ev := prev_ev e\<rparr>);
     e \<leftarrow> deref es ev;
     es \<leftarrow> update_at es (prev_ev e) (\<lambda>p. p\<lparr>next_ev := next_ev e\<rparr>);
     es \<leftarrow> update_at es ev (\<lambda>e. e\<lparr>next_ev := NULL\<rparr>);
     update_at es ev (\<lambda>e. e\<lparr>prev_ev := NULL\<rparr>)
   }"

section \<open>File descriptors\<close>

definition FD_SET :: "int \<Rightarrow> int set \<Rightarrow> int set option" where
  "FD_SET d fds = (if 0 \<le> d \<and> d < FD_SETSIZE then Some (insert d fds) else None)"

definition FD_CLR :: "int \<Rightarrow> int set \<Rightarrow> int set option" where
  "FD_CLR d fds = (if 0 \<le> d \<and> d < FD_SETSIZE then Some (fds - {d}) else None)"

definition FD_ISSET :: "int \<Rightarrow> int set \<Rightarrow> bool option" where
  "FD_ISSET d fds = (if 0 \<le> d \<and> d < FD_SETSIZE then Some (d \<in> fds) else None)"

text \<open>The loop of \<open>removeWatch\<close> over the table, with \<open>n\<close> its running maximum.\<close>

fun watch_max :: "ril_event store \<Rightarrow> ptr list \<Rightarrow> int \<Rightarrow> int option" where
  "watch_max es [] n = Some n"
| "watch_max es (re # ws) n =
     (if re = NULL then watch_max es ws n
      else do {
        r \<leftarrow> deref es re;
        watch_max es ws (if fd r > n then fd r else n)
      })"

definition removeWatch :: "ptr \<Rightarrow> nat \<Rightarrow> ril_vars \<Rightarrow> ril_vars option" where
  "removeWatch ev i s =
     (if i < length (watch_table s) then do {
        let ws = (watch_table s)[i := NULL];
        es \<leftarrow> update_at (events s) ev (\<lambda>e. e\<lparr>index := -1\<rparr>);
        e \<leftarrow> deref es ev;
        fds \<leftarrow> FD_CLR (fd e) (readFds s);
        n \<leftarrow> (if fd e + 1 = nfds s
              then (case watch_max es ws 0 of None \<Rightarrow> None | Some n \<Rightarrow> Some (n + 1))
              else Some (nfds s));
        Some (s\<lparr>watch_table := ws, events := es, readFds := fds, nfds := n\<rparr>)
      }
      else None)"

section \<open>The loop's passes\<close>

text \<open>The loop of \<open>processTimeouts\<close>, from the timer \<open>tev\<close> on.\<close>

partial_function (option) expire_loop ::
  "timeval \<Rightarrow> ptr \<Rightarrow> ril_event store \<Rightarrow> ril_event store option" where
  "expire_loop now tev es =
     (if tev \<noteq> timer_list then do {
        t \<leftarrow> deref es tev;
        if timercmp now (timeout t) (>) then do {
          es \<leftarrow> removeFromList tev es;
          es \<leftarrow> addToList tev pending_list es;
          expire_loop now (next_ev t) es
        }
        else Some es
      }
      else Some es)"

definition processTimeouts :: "timeval \<Rightarrow> ril_vars \<Rightarrow> ril_vars option" where
  "processTimeouts now s = do {
     l \<leftarrow> deref (events s) timer_list;
     es \<leftarrow> expire_loop now (next_ev l) (events s);
     Some (s\<lparr>events := es\<rparr>)
   }"

text \<open>The loop of \<open>processReadReadies\<close> over the slots \<open>is\<close> still to be looked at.\<close>

fun ready_loop :: "int set \<Rightarrow> nat list \<Rightarrow> int \<Rightarrow> ril_vars \<Rightarrow> ril_vars option" where
  "ready_loop rfds [] n s = Some s"
| "ready_loop rfds (i # is) n s =
     (if n > 0 then do {
        let re = watch_table s ! i;
        if re = NULL then ready_loop rfds is n s
        else do {
          r \<leftarrow> deref (events s) re;
          b \<leftarrow> FD_ISSET (fd r) rfds;
          if b then do {
            es \<leftarrow> addToList re pending_list (events s);
            r \<leftarrow> deref es re;
            s \<leftarrow> (if \<not> persist r then removeWatch re i (s\<lparr>events := es\<rparr>)
                  else Some (s\<lparr>events := es\<rparr>));
            ready_loop rfds is (n - 1) s
          }
          else ready_loop rfds is n s
        }
      }
      else Some s)"

definition processReadReadies :: "int set \<Rightarrow> int \<Rightarrow> ril_vars \<Rightarrow> ril_vars option" where
  "processReadReadies rfds n s = ready_loop rfds [0..<MAX_FD_EVENTS] n s"

text \<open>
  A callback is arbitrary client code: it is called with its function pointer, descriptor and
  parameter and may change every variable and every event.
\<close>

type_synonym callback = "ptr \<Rightarrow> int \<Rightarrow> ptr \<Rightarrow> ril_vars \<Rightarrow> ril_vars option"

partial_function (option) fire_loop :: "callback \<Rightarrow> ptr \<Rightarrow> ril_vars \<Rightarrow> ril_vars option" where
  "fire_loop cb ev s =
     (if ev \<noteq> pending_list then do {
        e \<leftarrow> deref (events s) ev;
        let nxt = next_ev e;
        es \<leftarrow> removeFromList ev (events s);
        e \<leftarrow> deref es ev;
        s \<leftarrow> cb (func e) (fd e) (param e)
               (s\<lparr>events := es, fired := fired s @ [(func e, fd e, param e)]\<rparr>);
        fire_loop cb nxt s
      }
      else Some s)"

definition firePending :: "callback \<Rightarrow> ril_vars \<Rightarrow> ril_vars option" where
  "firePending cb s = do {
     l \<leftarrow> deref (events s) pending_list;
     fire_loop cb (next_ev l) s
   }"

text \<open>The result is the return value and what was written to \<open>*tv\<close>, if anything.\<close>

definition calcNextTimeout :: "timeval \<Rightarrow> ril_vars \<Rightarrow> (int \<times> timeval option) option" where
  "calcNextTimeout now s = do {
     l \<leftarrow> deref (events s) timer_list;
     let tev = next_ev l;
     if tev = timer_list then Some (-1, None)
     else do {
       t \<leftarrow> deref (events s) tev;
       Some (0, Some (if timercmp (timeout t) now (>) then timersub (timeout t) now
                      else Timeval 0 0))
     }
   }"

section \<open>The interface\<close>

definition ril_event_init :: "ril_vars \<Rightarrow> ril_vars option" where
  "ril_event_init s = do {
     es \<leftarrow> init_list timer_list (events s);
     es \<leftarrow> init_list pending_list es;
     Some (s\<lparr>readFds := {}, events := es, watch_table := replicate MAX_FD_EVENTS NULL\<rparr>)
   }"

definition ril_event_set ::
  "ptr \<Rightarrow> int \<Rightarrow> bool \<Rightarrow> ptr \<Rightarrow> ptr \<Rightarrow> ril_vars \<Rightarrow> ril_vars option" where
  "ril_event_set ev d p f pm s = do {
     es \<leftarrow> update_at (events s) ev
            (\<lambda>_. zero_event\<lparr>fd := d, index := -1, persist := p, func := f, param := pm\<rparr>);
     Some (s\<lparr>events := es\<rparr>)
   }"

text \<open>The loop of \<open>ril_event_add\<close>: the first free slot is taken.\<close>

fun add_loop :: "ptr \<Rightarrow> nat list \<Rightarrow> ril_vars \<Rightarrow> ril_vars option" where
  "add_loop ev [] s = Some s"
| "add_loop ev (i # is) s =
     (if watch_table s ! i = NULL then do {
        es \<leftarrow> update_at (events s) ev (\<lambda>e. e\<lparr>index := int i\<rparr>);
        e \<leftarrow> deref es ev;
        fds \<leftarrow> FD_SET (fd e) (readFds s);
        Some (s\<lparr>watch_table := (watch_table s)[i := ev], events := es, readFds := fds,
                nfds := (if fd e \<ge> nfds s then fd e + 1 else nfds s)\<rparr>)
      }
      else add_loop ev is s)"

definition ril_event_add :: "ptr \<Rightarrow> ril_vars \<Rightarrow> ril_vars option" where
  "ril_event_add ev s = add_loop ev [0..<MAX_FD_EVENTS] s"

text \<open>The loop of \<open>ril_timer_add\<close> that looks for the place of a timer due at \<open>due\<close>.\<close>

partial_function (option) place_loop :: "timeval \<Rightarrow> ptr \<Rightarrow> ril_event store \<Rightarrow> ptr option" where
  "place_loop due l es = do {
     e \<leftarrow> deref es l;
     if timercmp (timeout e) due (<) \<and> l \<noteq> timer_list then place_loop due (next_ev e) es
     else Some l
   }"

text \<open>\<open>tv\<close> is \<open>None\<close> for a NULL pointer.\<close>

definition ril_timer_add :: "ptr \<Rightarrow> timeval option \<Rightarrow> timeval \<Rightarrow> ril_vars \<Rightarrow> ril_vars option" where
  "ril_timer_add ev tv now s =
     (case tv of
        None \<Rightarrow> Some s
      | Some tv \<Rightarrow> do {
          h \<leftarrow> deref (events s) timer_list;
          let l = next_ev h;
          es \<leftarrow> update_at (events s) ev (\<lambda>e. e\<lparr>fd := -1\<rparr>);
          es \<leftarrow> update_at es ev (\<lambda>e. e\<lparr>timeout := timeradd now tv\<rparr>);
          e \<leftarrow> deref es ev;
          l \<leftarrow> place_loop (timeout e) l es;
          es \<leftarrow> addToList ev l es;
          Some (s\<lparr>events := es\<rparr>)
        })"

definition ril_event_del :: "ptr \<Rightarrow> ril_vars \<Rightarrow> ril_vars option" where
  "ril_event_del ev s = do {
     e \<leftarrow> deref (events s) ev;
     if index e < 0 \<or> index e \<ge> int MAX_FD_EVENTS then Some s
     else removeWatch ev (nat (index e)) s
   }"

text \<open>
  \<open>ril_event_loop\<close>: \<open>rounds\<close> lists, for each call of \<open>select\<close>, the clock before it, what
  it returned, the descriptor set it left, whether \<open>errno\<close> was \<open>EINTR\<close>, and the clock
  after it. The result says whether the loop has returned; the second component logs the
  arguments of the \<open>select\<close> calls.
\<close>

record select_result =
  clock_before :: timeval
  sel_n :: int
  sel_rfds :: "int set"
  sel_eintr :: bool
  clock_after :: timeval

type_synonym select_args = "int \<times> int set \<times> timeval option"

fun ril_event_loop ::
  "callback \<Rightarrow> select_result list \<Rightarrow> ril_vars \<Rightarrow> (bool \<times> select_args list \<times> ril_vars) option" where
  "ril_event_loop cb [] s = Some (False, [], s)"
| "ril_event_loop cb (r # rs) s = do {
     (ret, tv) \<leftarrow> calcNextTimeout (clock_before r) s;
     let args = (nfds s, readFds s, if ret = -1 then None else tv);
     let n = sel_n r;
     if n < 0 then
       (if sel_eintr r then do {
          (fin, as, s) \<leftarrow> ril_event_loop cb rs s;
          Some (fin, args # as, s)
        }
        else Some (True, [args], s))
     else do {
       s \<leftarrow> processTimeouts (clock_after r) s;
       s \<leftarrow> processReadReadies (sel_rfds r) n s;
       s \<leftarrow> firePending cb s;
       (fin, as, s) \<leftarrow> ril_event_loop cb rs s;
       Some (fin, args # as, s)
     }
   }"

section \<open>Order of times\<close>

instantiation timeval :: linorder
begin

definition less_eq_timeval :: "timeval \<Rightarrow> timeval \<Rightarrow> bool" where
  "less_eq_timeval a b \<longleftrightarrow> tv_sec a < tv_sec b \<or> tv_sec a = tv_sec b \<and> tv_usec a \<le> tv_usec b"

definition less_timeval :: "timeval \<Rightarrow> timeval \<Rightarrow> bool" where
  "less_timeval a b \<longleftrightarrow> tv_sec a < tv_sec b \<or> tv_sec a = tv_sec b \<and> tv_usec a < tv_usec b"

instance
  by standard (auto simp: less_eq_timeval_def less_timeval_def intro: timeval.expand)

end

lemma timercmp_less [simp]: "timercmp a b (<) \<longleftrightarrow> a < b"
  by (simp add: timercmp_def less_timeval_def)

lemma timercmp_greater [simp]: "timercmp a b (>) \<longleftrightarrow> b < a"
  by (auto simp: timercmp_def less_timeval_def)

section \<open>The ring representation\<close>

definition enx :: "ril_event store \<Rightarrow> ptr \<rightharpoonup> ptr" where
  "enx es p = map_option next_ev (es p)"

definition epr :: "ril_event store \<Rightarrow> ptr \<rightharpoonup> ptr" where
  "epr es p = map_option prev_ev (es p)"

text \<open>The ring with head \<open>h\<close> threads exactly the events \<open>xs\<close>, in this order.\<close>

definition ring :: "ril_event store \<Rightarrow> ptr \<Rightarrow> ptr list \<Rightarrow> bool" where
  "ring es h xs \<longleftrightarrow> h \<noteq> NULL \<and> distinct (h # xs) \<and> dchain (enx es) (epr es) h xs h \<and>
     enx es h = Some (firstp xs h) \<and> epr es h = Some (lastp h xs)"

text \<open>An event without its links: what the list operations leave alone.\<close>

definition core :: "ril_event \<Rightarrow> ril_event" where
  "core e = e\<lparr>next_ev := NULL, prev_ev := NULL\<rparr>"

definition links_only :: "ril_event store \<Rightarrow> ril_event store \<Rightarrow> ptr set \<Rightarrow> bool" where
  "links_only es es' A \<longleftrightarrow>
     (\<forall>p. map_option core (es' p) = map_option core (es p)) \<and> (\<forall>p. p \<notin> A \<longrightarrow> es' p = es p)"

lemma enx_upd [simp]: "enx (es(p \<mapsto> e)) = (enx es)(p \<mapsto> next_ev e)"
  by (auto simp: enx_def fun_eq_iff)

lemma epr_upd [simp]: "epr (es(p \<mapsto> e)) = (epr es)(p \<mapsto> prev_ev e)"
  by (auto simp: epr_def fun_eq_iff)

lemma core_simps [simp]:
  "core (e\<lparr>next_ev := a\<rparr>) = core e" "core (e\<lparr>prev_ev := a\<rparr>) = core e"
  by (simp_all add: core_def)

lemma core_fields:
  assumes "map_option core (es' p) = map_option core (es p)" "es p = Some e"
  obtains e' where "es' p = Some e'" "fd e' = fd e" "index e' = index e" "persist e' = persist e"
    "timeout e' = timeout e" "func e' = func e" "param e' = param e"
proof -
  obtain e' where e': "es' p = Some e'" "core e' = core e" using assms by (cases "es' p") auto
  have "fd (core e') = fd (core e)" "index (core e') = index (core e)"
    "persist (core e') = persist (core e)" "timeout (core e') = timeout (core e)"
    "func (core e') = func (core e)" "param (core e') = param (core e)"
    using e'(2) by simp_all
  then show ?thesis using that [OF e'(1)] by (simp add: core_def)
qed

lemma ring_cong: "(\<And>p. p \<in> set (h # xs) \<Longrightarrow> es' p = es p) \<Longrightarrow> ring es' h xs = ring es h xs"
  using dchain_cong [of xs "enx es'" "enx es" "epr es'" "epr es"]
  by (simp add: ring_def enx_def epr_def)

lemma ring_live: "ring es h xs \<Longrightarrow> p \<in> set (h # xs) \<Longrightarrow> p \<noteq> NULL \<and> (\<exists>e. es p = Some e)"
proof -
  have *: "dchain nx (epr es) pv xs n \<Longrightarrow> p \<in> set xs \<Longrightarrow> \<exists>e. es p = Some e" for nx pv n
    by (induction xs arbitrary: pv) (auto simp: epr_def)
  show "ring es h xs \<Longrightarrow> p \<in> set (h # xs) \<Longrightarrow> p \<noteq> NULL \<and> (\<exists>e. es p = Some e)"
    using * [of "enx es" h h] dchain_not_NULL [of "enx es" "epr es" h xs h p]
    by (auto simp: ring_def epr_def)
qed

lemma addToList_ring:
  assumes r: "ring es h (ys @ zs)" and new: "ev \<notin> set (h # ys @ zs)" "ev \<noteq> NULL" "es ev = Some e"
  shows "\<exists>es'. addToList ev (firstp zs h) es = Some es' \<and> ring es' h (ys @ ev # zs) \<and>
           links_only es es' (set (h # ys @ ev # zs))"
proof -
  note rw = addToList_def update_at_def deref_def ring_def links_only_def
  have live: "p \<noteq> NULL" "\<exists>c. es p = Some c" if "p \<in> set (h # ys @ zs)" for p
    using ring_live [OF r that] by auto
  show ?thesis
  proof (cases ys rule: rev_cases)
    case Nil
    show ?thesis
      using Nil r new live by (cases zs) (auto simp: rw enx_def epr_def)
  next
    case (snoc ys' y)
    show ?thesis
      using snoc r new live by (cases zs) (auto simp: rw enx_def epr_def)
  qed
qed

lemma removeFromList_ring:
  assumes r: "ring es h (ys @ ev # zs)"
  shows "\<exists>es'. removeFromList ev es = Some es' \<and> ring es' h (ys @ zs) \<and>
           links_only es es' (set (h # ys @ ev # zs))"
proof -
  note rw = removeFromList_def update_at_def deref_def ring_def links_only_def
  have live: "p \<noteq> NULL" "\<exists>c. es p = Some c" if "p \<in> set (h # ys @ ev # zs)" for p
    using ring_live [OF r that] by auto
  show ?thesis
  proof (cases ys rule: rev_cases)
    case Nil
    show ?thesis
      using Nil r live by (cases zs) (auto simp: rw enx_def epr_def)
  next
    case (snoc ys' y)
    show ?thesis
      using snoc r live by (cases zs) (auto simp: rw enx_def epr_def)
  qed
qed

end
