(* ===== verification/RilEventProofs.thy ===== *)
theory RilEventProofs
  imports RilEvent
begin

text \<open>
  The event loop of \<open>ril/libril/ril_event.cpp\<close>: its representation invariant, what each
  operation does to it, and the properties of a round and of the whole loop.
\<close>

section \<open>The invariant\<close>

text \<open>Both rings are intact and share no event; neither head is on the other's ring.\<close>

definition rings :: "ril_event store \<Rightarrow> ptr list \<Rightarrow> ptr list \<Rightarrow> bool" where
  "rings es ts ps \<longleftrightarrow> ring es timer_list ts \<and> ring es pending_list ps \<and>
     distinct (timer_list # pending_list # ts @ ps)"

abbreviation due :: "ril_event store \<Rightarrow> ptr \<Rightarrow> timeval" where
  "due es p \<equiv> timeout (the (es p))"

text \<open>
  The table: a used slot holds a live event that knows its slot and has a descriptor below
  \<open>nfds\<close>; \<open>readFds\<close> is exactly the set of those descriptors, no two slots share one, and an
  event that claims a slot is in it.
\<close>

definition watch_ok :: "ril_vars \<Rightarrow> bool" where
  "watch_ok s \<longleftrightarrow> length (watch_table s) = MAX_FD_EVENTS \<and>
     (\<forall>i < MAX_FD_EVENTS. watch_table s ! i \<noteq> NULL \<longrightarrow>
        (let w = watch_table s ! i; e = the (events s w) in
           events s w \<noteq> None \<and> index e = int i \<and> 0 \<le> fd e \<and> fd e < FD_SETSIZE \<and> fd e < nfds s \<and>
           fd e \<in> readFds s)) \<and>
     (\<forall>d \<in> readFds s. \<exists>i < MAX_FD_EVENTS. watch_table s ! i \<noteq> NULL \<and>
        fd (the (events s (watch_table s ! i))) = d) \<and>
     (\<forall>i < MAX_FD_EVENTS. \<forall>j < MAX_FD_EVENTS. watch_table s ! i \<noteq> NULL \<and> watch_table s ! j \<noteq> NULL \<and>
        fd (the (events s (watch_table s ! i))) = fd (the (events s (watch_table s ! j))) \<longrightarrow> i = j) \<and>
     (\<forall>p. p \<noteq> NULL \<and> p \<noteq> timer_list \<and> p \<noteq> pending_list \<and> events s p \<noteq> None \<and>
        0 \<le> index (the (events s p)) \<and> index (the (events s p)) < int MAX_FD_EVENTS \<longrightarrow>
        watch_table s ! nat (index (the (events s p))) = p)"

definition watched :: "ril_vars \<Rightarrow> ptr \<Rightarrow> bool" where
  "watched s p \<longleftrightarrow> p \<noteq> NULL \<and> p \<in> set (watch_table s)"

definition ril_inv :: "ril_vars \<Rightarrow> ptr list \<Rightarrow> ptr list \<Rightarrow> bool" where
  "ril_inv s ts ps \<longleftrightarrow> rings (events s) ts ps \<and> sorted (map (due (events s)) ts) \<and> watch_ok s \<and>
     (\<forall>p \<in> set (timer_list # pending_list # ts). \<not> watched s p)"

section \<open>What changes and what does not\<close>

lemma links_onlyD:
  assumes "links_only es es' A"
  shows "(es' p = None) = (es p = None)" "fd (the (es' p)) = fd (the (es p))"
    "index (the (es' p)) = index (the (es p))" "timeout (the (es' p)) = timeout (the (es p))"
    "persist (the (es' p)) = persist (the (es p))" "func (the (es' p)) = func (the (es p))"
    "param (the (es' p)) = param (the (es p))"
proof -
  have eq: "map_option core (es' p) = map_option core (es p)" using assms by (simp add: links_only_def)
  then show none: "(es' p = None) = (es p = None)" by (metis option.map_disc_iff)
  have "fd (the (es' p)) = fd (the (es p)) \<and> index (the (es' p)) = index (the (es p)) \<and>
    timeout (the (es' p)) = timeout (the (es p)) \<and> persist (the (es' p)) = persist (the (es p)) \<and>
    func (the (es' p)) = func (the (es p)) \<and> param (the (es' p)) = param (the (es p))"
  proof (cases "es p")
    case None
    then show ?thesis using none by simp
  next
    case (Some e)
    show ?thesis by (rule core_fields [of es' p es e]) (use eq Some in simp_all)
  qed
  then show "fd (the (es' p)) = fd (the (es p))" "index (the (es' p)) = index (the (es p))"
    "timeout (the (es' p)) = timeout (the (es p))" "persist (the (es' p)) = persist (the (es p))"
    "func (the (es' p)) = func (the (es p))" "param (the (es' p)) = param (the (es p))" by simp_all
qed

lemma links_only_refl [simp]: "links_only es es A"
  by (simp add: links_only_def)

lemma links_only_trans: "links_only es es1 A \<Longrightarrow> links_only es1 es2 B \<Longrightarrow> links_only es es2 (A \<union> B)"
  by (auto simp: links_only_def)

lemma links_only_mono: "links_only es es' A \<Longrightarrow> A \<subseteq> B \<Longrightarrow> links_only es es' B"
  by (auto simp: links_only_def)

lemma links_only_outside: "links_only es es' A \<Longrightarrow> p \<notin> A \<Longrightarrow> es' p = es p"
  by (auto simp: links_only_def)

lemma watch_ok_links: "links_only (events s) es' A \<Longrightarrow> watch_ok (s\<lparr>events := es'\<rparr>) = watch_ok s"
  by (simp add: watch_ok_def links_onlyD [of "events s" es' A] Let_def del: not_None_eq)

lemma watched_events [simp]: "watched (s\<lparr>events := es\<rparr>) p = watched s p"
  by (simp add: watched_def)

lemma due_links: "links_only es es' A \<Longrightarrow> map (due es') ts = map (due es) ts"
  by (simp add: links_onlyD [of es es' A])

lemma rings_live:
  "rings es ts ps \<Longrightarrow> p \<in> set (timer_list # pending_list # ts @ ps) \<Longrightarrow> p \<noteq> NULL \<and> (\<exists>e. es p = Some e)"
  using ring_live [of es timer_list ts p] ring_live [of es pending_list ps p] by (auto simp: rings_def)

lemma rings_cong:
  assumes "\<And>p. p \<in> set (timer_list # pending_list # ts @ ps) \<Longrightarrow> es' p = es p"
  shows "rings es' ts ps = rings es ts ps"
proof -
  have "ring es' timer_list ts = ring es timer_list ts" by (rule ring_cong) (use assms in auto)
  moreover have "ring es' pending_list ps = ring es pending_list ps" by (rule ring_cong) (use assms in auto)
  ultimately show ?thesis by (simp add: rings_def)
qed

text \<open>The ring operations seen on the pair of rings.\<close>

lemma rings_add_timer:
  assumes r: "rings es (ys @ zs) ps" and ev: "ev \<notin> set (timer_list # pending_list # ys @ zs @ ps)"
    "ev \<noteq> NULL" "es ev = Some e"
  shows "\<exists>es'. addToList ev (firstp zs timer_list) es = Some es' \<and> rings es' (ys @ ev # zs) ps \<and>
    links_only es es' (set (timer_list # ys @ ev # zs))"
proof -
  obtain es' where es': "addToList ev (firstp zs timer_list) es = Some es'" "ring es' timer_list (ys @ ev # zs)"
    "links_only es es' (set (timer_list # ys @ ev # zs))"
    using addToList_ring [of es timer_list ys zs ev e] r ev by (auto simp: rings_def)
  have "ring es' pending_list ps = ring es pending_list ps"
  proof (rule ring_cong)
    fix p assume "p \<in> set (pending_list # ps)"
    then have "p \<notin> set (timer_list # ys @ ev # zs)" using r ev by (auto simp: rings_def)
    then show "es' p = es p" by (rule links_only_outside [OF es'(3)])
  qed
  then have "rings es' (ys @ ev # zs) ps" using r ev es'(2) by (auto simp: rings_def)
  then show ?thesis using es' by blast
qed

lemma rings_add_pending:
  assumes r: "rings es ts ps" and ev: "ev \<notin> set (timer_list # pending_list # ts @ ps)"
    "ev \<noteq> NULL" "es ev = Some e"
  shows "\<exists>es'. addToList ev pending_list es = Some es' \<and> rings es' ts (ps @ [ev]) \<and>
    links_only es es' (set (pending_list # ps @ [ev]))"
proof -
  obtain es' where es': "addToList ev pending_list es = Some es'" "ring es' pending_list (ps @ [ev])"
    "links_only es es' (set (pending_list # ps @ [ev]))"
    using addToList_ring [of es pending_list ps "[]" ev e] r ev by (auto simp: rings_def)
  have "ring es' timer_list ts = ring es timer_list ts"
  proof (rule ring_cong)
    fix p assume "p \<in> set (timer_list # ts)"
    then have "p \<notin> set (pending_list # ps @ [ev])" using r ev by (auto simp: rings_def)
    then show "es' p = es p" by (rule links_only_outside [OF es'(3)])
  qed
  then have "rings es' ts (ps @ [ev])" using r ev es'(2) by (auto simp: rings_def)
  then show ?thesis using es' by blast
qed

lemma rings_remove_timer:
  assumes r: "rings es (ev # ts) ps"
  shows "\<exists>es'. removeFromList ev es = Some es' \<and> rings es' ts ps \<and>
    links_only es es' (set (timer_list # ev # ts))"
proof -
  obtain es' where es': "removeFromList ev es = Some es'" "ring es' timer_list ts"
    "links_only es es' (set (timer_list # ev # ts))"
    using removeFromList_ring [of es timer_list "[]" ev ts] r by (auto simp: rings_def)
  have "ring es' pending_list ps = ring es pending_list ps"
  proof (rule ring_cong)
    fix p assume "p \<in> set (pending_list # ps)"
    then have "p \<notin> set (timer_list # ev # ts)" using r by (auto simp: rings_def)
    then show "es' p = es p" by (rule links_only_outside [OF es'(3)])
  qed
  then have "rings es' ts ps" using r es'(2) by (auto simp: rings_def)
  then show ?thesis using es' by blast
qed

lemma rings_remove_pending:
  assumes r: "rings es ts (ev # ps)"
  shows "\<exists>es'. removeFromList ev es = Some es' \<and> rings es' ts ps \<and>
    links_only es es' (set (pending_list # ev # ps))"
proof -
  obtain es' where es': "removeFromList ev es = Some es'" "ring es' pending_list ps"
    "links_only es es' (set (pending_list # ev # ps))"
    using removeFromList_ring [of es pending_list "[]" ev ps] r by (auto simp: rings_def)
  have "ring es' timer_list ts = ring es timer_list ts"
  proof (rule ring_cong)
    fix p assume "p \<in> set (timer_list # ts)"
    then have "p \<notin> set (pending_list # ev # ps)" using r by (auto simp: rings_def)
    then show "es' p = es p" by (rule links_only_outside [OF es'(3)])
  qed
  then have "rings es' ts ps" using r es'(2) by (auto simp: rings_def)
  then show ?thesis using es' by blast
qed

lemma rings_heads: "rings es ts ps \<Longrightarrow> es timer_list \<noteq> None \<and> es pending_list \<noteq> None \<and>
    next_ev (the (es timer_list)) = firstp ts timer_list \<and>
    next_ev (the (es pending_list)) = firstp ps pending_list"
  by (auto simp: rings_def ring_def enx_def)

lemma rings_next:
  "rings es (t # ts) ps \<Longrightarrow> next_ev (the (es t)) = firstp ts timer_list \<and> es t \<noteq> None"
  "rings es ts (p # ps) \<Longrightarrow> next_ev (the (es p)) = firstp ps pending_list \<and> es p \<noteq> None"
  by (auto simp: rings_def ring_def enx_def)

lemma heads_neq [simp]: "timer_list \<noteq> NULL" "pending_list \<noteq> NULL" "timer_list \<noteq> pending_list"
    "pending_list \<noteq> timer_list"
  by (simp_all add: timer_list_def pending_list_def)

section \<open>Expiry\<close>

lemma expire_loop_ok:
  assumes "rings es ts ps"
  shows "\<exists>es'. expire_loop now (firstp ts timer_list) es = Some es' \<and>
    rings es' (dropWhile (\<lambda>t. due es t < now) ts) (ps @ takeWhile (\<lambda>t. due es t < now) ts) \<and>
    links_only es es' (set (timer_list # pending_list # ts @ ps))"
  using assms
proof (induction ts arbitrary: es ps)
  case Nil
  then show ?case by (simp add: expire_loop.simps)
next
  case (Cons t ts)
  have t: "t \<noteq> NULL" "t \<noteq> timer_list" "es t \<noteq> None" using rings_live [OF Cons.prems, of t] Cons.prems
    by (auto simp: rings_def)
  then obtain e where e: "es t = Some e" by auto
  show ?case
  proof (cases "due es t < now")
    case False
    then show ?thesis
      using t e Cons.prems by (simp add: expire_loop.simps deref_def)
  next
    case True
    obtain es1 where es1: "removeFromList t es = Some es1" "rings es1 ts ps"
      "links_only es es1 (set (timer_list # t # ts))"
      using rings_remove_timer [OF Cons.prems] by blast
    obtain e1 where e1: "es1 t = Some e1" using links_onlyD(1) [OF es1(3), of t] e by auto
    have new: "t \<notin> set (timer_list # pending_list # ts @ ps)" using Cons.prems by (auto simp: rings_def)
    obtain es2 where es2: "addToList t pending_list es1 = Some es2" "rings es2 ts (ps @ [t])"
      "links_only es1 es2 (set (pending_list # ps @ [t]))"
      using rings_add_pending [OF es1(2) new t(1) e1] by blast
    have l2: "links_only es es2 (set (timer_list # pending_list # (t # ts) @ ps))"
      by (rule links_only_mono [OF links_only_trans [OF es1(3) es2(3)]]) auto
    have dues: "due es2 p = due es p" for p by (simp add: links_onlyD [OF l2])
    obtain es3 where es3: "expire_loop now (firstp ts timer_list) es2 = Some es3"
      "rings es3 (dropWhile (\<lambda>t. due es t < now) ts) ((ps @ [t]) @ takeWhile (\<lambda>t. due es t < now) ts)"
      "links_only es2 es3 (set (timer_list # pending_list # ts @ (ps @ [t])))"
      using Cons.IH [OF es2(2)] by (auto simp: dues)
    have "links_only es es3 (set (timer_list # pending_list # (t # ts) @ ps))"
      by (rule links_only_mono [OF links_only_trans [OF l2 es3(3)]]) auto
    then show ?thesis
      using True t e es1(1) es2(1) es3(1,2) rings_next(1) [OF Cons.prems]
      by (simp add: expire_loop.simps [of _ t] deref_def)
  qed
qed

text \<open>On a sorted list the timers that stop the walk are the first of all that are not due.\<close>

lemma sorted_takeWhile_filter:
  "sorted (map f xs) \<Longrightarrow> takeWhile (\<lambda>x. f x < (k :: 'a :: linorder)) xs = filter (\<lambda>x. f x < k) xs"
proof (induction xs)
  case (Cons x xs)
  show ?case
  proof (cases "f x < k")
    case False
    then have "\<forall>y \<in> set xs. \<not> f y < k" using Cons.prems by (auto simp: not_less intro: order_trans)
    then show ?thesis using False by (simp add: filter_False)
  qed (use Cons in simp)
qed simp

lemma sorted_dropWhile_filter:
  "sorted (map f xs) \<Longrightarrow> dropWhile (\<lambda>x. f x < (k :: 'a :: linorder)) xs = filter (\<lambda>x. \<not> f x < k) xs"
proof (induction xs)
  case (Cons x xs)
  show ?case
  proof (cases "f x < k")
    case False
    then have "\<forall>y \<in> set xs. \<not> f y < k" using Cons.prems by (auto simp: not_less intro: order_trans)
    then show ?thesis using False by (simp add: filter_True)
  qed (use Cons in simp)
qed simp

lemma processTimeouts_ok:
  assumes inv: "ril_inv s ts ps"
  shows "\<exists>s'. processTimeouts now s = Some s' \<and>
    ril_inv s' (filter (\<lambda>t. \<not> due (events s) t < now) ts) (ps @ filter (\<lambda>t. due (events s) t < now) ts) \<and>
    (\<exists>es. s' = s\<lparr>events := es\<rparr> \<and> links_only (events s) es (set (timer_list # pending_list # ts @ ps)))"
proof -
  have r: "rings (events s) ts ps" and srt: "sorted (map (due (events s)) ts)"
    using inv by (auto simp: ril_inv_def)
  obtain es where es: "expire_loop now (firstp ts timer_list) (events s) = Some es"
    "rings es (dropWhile (\<lambda>t. due (events s) t < now) ts) (ps @ takeWhile (\<lambda>t. due (events s) t < now) ts)"
    "links_only (events s) es (set (timer_list # pending_list # ts @ ps))"
    using expire_loop_ok [OF r] by blast
  have "processTimeouts now s = Some (s\<lparr>events := es\<rparr>)"
    using es(1) rings_heads [OF r] by (auto simp: processTimeouts_def deref_def)
  moreover have "ril_inv (s\<lparr>events := es\<rparr>) (filter (\<lambda>t. \<not> due (events s) t < now) ts)
      (ps @ filter (\<lambda>t. due (events s) t < now) ts)"
    using inv es(2) srt sorted_filter [OF srt]
    by (simp add: ril_inv_def watch_ok_links [OF es(3)] links_onlyD [OF es(3)]
        sorted_takeWhile_filter sorted_dropWhile_filter)
  ultimately show ?thesis using es(3) by blast
qed

section \<open>Readable descriptors\<close>

text \<open>What a callback is called with, and what the passes never change of an event.\<close>

definition call_of :: "ril_event store \<Rightarrow> ptr \<Rightarrow> ptr \<times> int \<times> ptr" where
  "call_of es p = (let e = the (es p) in (func e, fd e, param e))"

definition same_events :: "ril_event store \<Rightarrow> ril_event store \<Rightarrow> bool" where
  "same_events es es' \<longleftrightarrow> (\<forall>p. (es' p = None) = (es p = None) \<and> call_of es' p = call_of es p \<and>
     persist (the (es' p)) = persist (the (es p)) \<and> timeout (the (es' p)) = timeout (the (es p)) \<and>
     fd (the (es' p)) = fd (the (es p)))"

lemma same_events_trans: "same_events es es1 \<Longrightarrow> same_events es1 es2 \<Longrightarrow> same_events es es2"
  by (simp add: same_events_def)

lemma same_events_refl [simp]: "same_events es es"
  by (simp add: same_events_def)

lemma same_events_links: "links_only es es' A \<Longrightarrow> same_events es es'"
  by (simp add: same_events_def call_of_def links_onlyD Let_def)

lemma same_events_index: "es p = Some e \<Longrightarrow> same_events es (es(p \<mapsto> e\<lparr>index := i\<rparr>))"
  by (simp add: same_events_def call_of_def)

lemma watch_slot:
  assumes "watch_ok s" "i < MAX_FD_EVENTS" "watch_table s ! i \<noteq> NULL"
  obtains e where "events s (watch_table s ! i) = Some e" "index e = int i" "0 \<le> fd e" "fd e < FD_SETSIZE"
    "fd e < nfds s" "fd e \<in> readFds s"
  using assms by (auto simp: watch_ok_def Let_def)

lemma watch_length: "watch_ok s \<Longrightarrow> length (watch_table s) = MAX_FD_EVENTS"
  by (simp add: watch_ok_def)

lemma watched_slot: "watch_ok s \<Longrightarrow> watched s p \<longleftrightarrow>
    p \<noteq> NULL \<and> (\<exists>i < MAX_FD_EVENTS. watch_table s ! i = p)"
  by (auto simp: watched_def watch_length in_set_conv_nth)

lemma watch_inj:
  assumes "watch_ok s" "i < MAX_FD_EVENTS" "j < MAX_FD_EVENTS" "watch_table s ! i \<noteq> NULL"
    "watch_table s ! i = watch_table s ! j"
  shows "i = j"
proof -
  obtain e where e: "events s (watch_table s ! i) = Some e" "index e = int i"
    using watch_slot [OF assms(1,2,4)] by blast
  obtain e' where "events s (watch_table s ! j) = Some e'" "index e' = int j"
    using watch_slot [OF assms(1,3)] assms(4,5) by metis
  then show ?thesis using e assms(5) by simp
qed

lemma watch_fd_inj:
  assumes "watch_ok s" "i < MAX_FD_EVENTS" "j < MAX_FD_EVENTS" "watch_table s ! i \<noteq> NULL" "watch_table s ! j \<noteq> NULL"
    "fd (the (events s (watch_table s ! i))) = fd (the (events s (watch_table s ! j)))"
  shows "i = j"
  using assms unfolding watch_ok_def by blast

lemma watch_max_ok:
  "(\<And>w. w \<in> set ws \<Longrightarrow> w \<noteq> NULL \<Longrightarrow> es w \<noteq> None) \<Longrightarrow>
    \<exists>m. watch_max es ws n = Some m \<and> n \<le> m \<and> (\<forall>w \<in> set ws. w \<noteq> NULL \<longrightarrow> fd (the (es w)) \<le> m)"
proof (induction ws arbitrary: n)
  case Nil
  then show ?case by simp
next
  case (Cons w ws)
  show ?case
  proof (cases "w = NULL")
    case True
    then show ?thesis using Cons by simp
  next
    case False
    then obtain e where e: "es w = Some e" using Cons.prems [of w] by auto
    obtain m where "watch_max es ws (if fd e > n then fd e else n) = Some m"
      "(if fd e > n then fd e else n) \<le> m" "\<forall>w \<in> set ws. w \<noteq> NULL \<longrightarrow> fd (the (es w)) \<le> m"
      using Cons.IH [of "if fd e > n then fd e else n"] Cons.prems by auto
    then show ?thesis using False e by (auto simp: deref_def split: if_splits)
  qed
qed

lemma removeWatch_ok:
  assumes ok: "watch_ok s" and i: "i < MAX_FD_EVENTS" "watch_table s ! i = w" "w \<noteq> NULL"
    and e: "events s w = Some e"
  shows "\<exists>n. removeWatch w i s = Some (s\<lparr>watch_table := (watch_table s)[i := NULL],
           events := (events s)(w \<mapsto> e\<lparr>index := -1\<rparr>), readFds := readFds s - {fd e}, nfds := n\<rparr>) \<and>
         watch_ok (s\<lparr>watch_table := (watch_table s)[i := NULL],
           events := (events s)(w \<mapsto> e\<lparr>index := -1\<rparr>), readFds := readFds s - {fd e}, nfds := n\<rparr>)"
proof -
  let ?ws = "(watch_table s)[i := NULL]" and ?es = "(events s)(w \<mapsto> e\<lparr>index := -1\<rparr>)"
  have fd: "0 \<le> fd e" "fd e < FD_SETSIZE" "index e = int i"
    using watch_slot [OF ok i(1)] i e by (metis option.inject)+
  have len: "length (watch_table s) = MAX_FD_EVENTS" using ok by (rule watch_length)
  have live: "?es v \<noteq> None" if v: "v \<in> set ?ws" "v \<noteq> NULL" for v
  proof -
    obtain j where j: "j < MAX_FD_EVENTS" "?ws ! j = v"
      using v(1) len by (auto simp: in_set_conv_nth)
    moreover from this have "j \<noteq> i" using v(2) len by auto
    ultimately have "watch_table s ! j = v" by simp
    then show ?thesis using watch_slot [OF ok j(1)] v(2) by (metis fun_upd_other fun_upd_same option.distinct(1))
  qed
  obtain m where m: "watch_max ?es ?ws 0 = Some m" "0 \<le> m" "\<forall>v \<in> set ?ws. v \<noteq> NULL \<longrightarrow> fd (the (?es v)) \<le> m"
    using watch_max_ok [of ?ws ?es 0, OF live] by blast
  define n where "n = (if fd e + 1 = nfds s then m + 1 else nfds s)"
  let ?s = "s\<lparr>watch_table := ?ws, events := ?es, readFds := readFds s - {fd e}, nfds := n\<rparr>"
  have run: "removeWatch w i s = Some ?s"
    using i e fd len m(1) by (simp add: removeWatch_def update_at_def deref_def FD_CLR_def n_def)
  have same: "watch_table s ! j \<noteq> w" if "j < MAX_FD_EVENTS" "j \<noteq> i" "watch_table s ! j \<noteq> NULL" for j
    using watch_inj [OF ok that(1) i(1) that(3)] that(2) i(2) by auto
  have slots: "?es (?ws ! j) \<noteq> None \<and> index (the (?es (?ws ! j))) = int j \<and> 0 \<le> fd (the (?es (?ws ! j))) \<and>
      fd (the (?es (?ws ! j))) < FD_SETSIZE \<and> fd (the (?es (?ws ! j))) < n \<and>
      fd (the (?es (?ws ! j))) \<in> readFds s - {fd e}"
    if j: "j < MAX_FD_EVENTS" "?ws ! j \<noteq> NULL" for j
  proof -
    have "j \<noteq> i" using j len i(1) by auto
    then have wj: "?ws ! j = watch_table s ! j" by simp
    have nw: "watch_table s ! j \<noteq> w" using same j \<open>j \<noteq> i\<close> wj by simp
    obtain c where c: "events s (watch_table s ! j) = Some c" "index c = int j" "0 \<le> fd c"
      "fd c < FD_SETSIZE" "fd c < nfds s" "fd c \<in> readFds s"
      using watch_slot [OF ok j(1)] j(2) wj by auto
    have "fd c \<noteq> fd e"
      using watch_fd_inj [OF ok j(1) i(1)] j i e c wj \<open>j \<noteq> i\<close> by auto
    moreover have "?ws ! j \<in> set ?ws" using j(1) len by (simp add: nth_mem del: nth_list_update)
    then have "fd c < n" using m(3) j(2) wj c nw by (auto simp: n_def)
    ultimately show ?thesis using c nw wj by simp
  qed
  have fds: "\<exists>j < MAX_FD_EVENTS. ?ws ! j \<noteq> NULL \<and> fd (the (?es (?ws ! j))) = d"
    if d: "d \<in> readFds s - {fd e}" for d
  proof -
    obtain j where j: "j < MAX_FD_EVENTS" "watch_table s ! j \<noteq> NULL"
      "fd (the (events s (watch_table s ! j))) = d"
      using ok d unfolding watch_ok_def by blast
    have "j \<noteq> i" using j i e d by auto
    then show ?thesis using j same [of j] by (intro exI [of _ j]) simp
  qed
  have inj: "j = k" if "j < MAX_FD_EVENTS" "k < MAX_FD_EVENTS" "?ws ! j \<noteq> NULL" "?ws ! k \<noteq> NULL"
      "fd (the (?es (?ws ! j))) = fd (the (?es (?ws ! k)))" for j k
  proof -
    have "j \<noteq> i" "k \<noteq> i" using that len i(1) by auto
    then show ?thesis
      using that same [of j] same [of k] by (intro watch_fd_inj [OF ok]) auto
  qed
  have claims: "?ws ! nat (index (the (?es p))) = p"
    if p: "p \<noteq> NULL" "p \<noteq> timer_list" "p \<noteq> pending_list" "?es p \<noteq> None"
      "0 \<le> index (the (?es p))" "index (the (?es p)) < int MAX_FD_EVENTS" for p
  proof -
    have "p \<noteq> w" using p(5) by auto
    then have wp: "watch_table s ! nat (index (the (events s p))) = p" using ok p unfolding watch_ok_def by simp
    then have "nat (index (the (events s p))) \<noteq> i" using i(2) \<open>p \<noteq> w\<close> by auto
    then show ?thesis using wp \<open>p \<noteq> w\<close> by simp
  qed
  have "watch_ok ?s"
    unfolding watch_ok_def Let_def using slots fds inj claims len by simp
  then show ?thesis using run by blast
qed

text \<open>The slots whose descriptor \<open>select\<close> reported, in table order.\<close>

definition ready_slots :: "ril_vars \<Rightarrow> int set \<Rightarrow> nat list \<Rightarrow> nat list" where
  "ready_slots s rfds is =
     filter (\<lambda>i. watch_table s ! i \<noteq> NULL \<and> fd (the (events s (watch_table s ! i))) \<in> rfds) is"

lemma ready_slots_cong:
  assumes "\<And>i. i \<in> set is \<Longrightarrow> watch_table s' ! i = watch_table s ! i"
    and "\<And>i. i \<in> set is \<Longrightarrow> fd (the (events s' (watch_table s ! i))) = fd (the (events s (watch_table s ! i)))"
  shows "ready_slots s' rfds is = ready_slots s rfds is"
  unfolding ready_slots_def by (rule filter_cong) (use assms in auto)

lemma removeWatch_inv:
  assumes inv: "ril_inv s ts ps" and i: "i < MAX_FD_EVENTS" "watch_table s ! i = w" "w \<noteq> NULL"
    and e: "events s w = Some e"
  shows "\<exists>s'. removeWatch w i s = Some s' \<and> ril_inv s' ts ps \<and> same_events (events s) (events s') \<and>
    fired s' = fired s \<and> watch_table s' = (watch_table s)[i := NULL] \<and> readFds s' = readFds s - {fd e} \<and>
    index (the (events s' w)) = -1"
proof -
  have ok: "watch_ok s" using inv by (simp add: ril_inv_def)
  obtain n where n: "removeWatch w i s = Some (s\<lparr>watch_table := (watch_table s)[i := NULL],
      events := (events s)(w \<mapsto> e\<lparr>index := -1\<rparr>), readFds := readFds s - {fd e}, nfds := n\<rparr>)"
    "watch_ok (s\<lparr>watch_table := (watch_table s)[i := NULL],
      events := (events s)(w \<mapsto> e\<lparr>index := -1\<rparr>), readFds := readFds s - {fd e}, nfds := n\<rparr>)"
    using removeWatch_ok [OF ok i e] by blast
  let ?es = "(events s)(w \<mapsto> e\<lparr>index := -1\<rparr>)"
  let ?s2 = "s\<lparr>watch_table := (watch_table s)[i := NULL], events := ?es, readFds := readFds s - {fd e}, nfds := n\<rparr>"
  have len: "length (watch_table s) = MAX_FD_EVENTS" using ok by (rule watch_length)
  have "watched s w" using watched_slot [OF ok] i by blast
  then have new: "w \<notin> set ts" using inv by (auto simp: ril_inv_def)
  have rg: "rings ?es ts ps"
    using inv e unfolding ril_inv_def rings_def ring_def by (simp add: fun_upd_idem enx_def epr_def)
  have "watched s p" if "watched ?s2 p" for p
    using that set_update_subset_insert [of "watch_table s" i NULL] by (auto simp: watched_def)
  then have nw: "\<forall>p \<in> set (timer_list # pending_list # ts). \<not> watched ?s2 p"
    using inv unfolding ril_inv_def by blast
  have srt: "sorted (map (due (events s)) ts)" using inv by (simp add: ril_inv_def)
  have "map (due ?es) ts = map (due (events s)) ts" by (rule map_cong) (use new in auto)
  then have "sorted (map (due ?es) ts)" by (simp only: srt)
  then have "ril_inv ?s2 ts ps"
    using rg n(2) nw unfolding ril_inv_def by (simp del: fun_upd_apply)
  moreover have "same_events (events s) (events ?s2)"
    using same_events_index [of "events s" w e] e by simp
  ultimately show ?thesis using n(1) by (intro exI [of _ ?s2]) simp
qed

text \<open>One readable slot: its event joins the pending ring and leaves the table unless it persists.\<close>

lemma ready_one:
  assumes inv: "ril_inv s ts ps" and i: "i < MAX_FD_EVENTS" "watch_table s ! i = w" "w \<noteq> NULL" "w \<notin> set ps"
  shows "\<exists>es s'. addToList w pending_list (events s) = Some es \<and>
    (if \<not> persist (the (es w)) then removeWatch w i (s\<lparr>events := es\<rparr>) else Some (s\<lparr>events := es\<rparr>)) = Some s' \<and>
    es w \<noteq> None \<and> ril_inv s' ts (ps @ [w]) \<and> same_events (events s) (events s') \<and> fired s' = fired s \<and>
    watch_table s' = (if persist (the (events s w)) then watch_table s else (watch_table s)[i := NULL])"
proof -
  have ok: "watch_ok s" and r: "rings (events s) ts ps" using inv by (auto simp: ril_inv_def)
  obtain e where e: "events s w = Some e" using watch_slot [OF ok i(1)] i by metis
  have "watched s w" using watched_slot [OF ok] i by blast
  then have new: "w \<notin> set (timer_list # pending_list # ts @ ps)"
    using inv i(4) by (auto simp: ril_inv_def)
  obtain es where es: "addToList w pending_list (events s) = Some es" "rings es ts (ps @ [w])"
    "links_only (events s) es (set (pending_list # ps @ [w]))"
    using rings_add_pending [OF r new i(3) e] by blast
  let ?s = "s\<lparr>events := es\<rparr>"
  have ok1: "watch_ok ?s" using watch_ok_links [OF es(3)] ok by simp
  have same1: "same_events (events s) es" by (rule same_events_links [OF es(3)])
  obtain e1 where e1: "es w = Some e1" using links_onlyD(1) [OF es(3), of w] e by auto
  have per: "persist e1 = persist (the (events s w))" using links_onlyD(5) [OF es(3), of w] e1 by simp
  have srt: "sorted (map (due es) ts)" using inv by (simp add: ril_inv_def links_onlyD [OF es(3)])
  have inv1: "ril_inv ?s ts (ps @ [w])"
    using inv es(2) ok1 srt by (simp add: ril_inv_def)
  show ?thesis
  proof (cases "persist e1")
    case True
    then show ?thesis using es(1) e1 inv1 per same1 by (intro exI [of _ es] exI [of _ ?s]) simp
  next
    case False
    obtain s2 where s2: "removeWatch w i ?s = Some s2" "ril_inv s2 ts (ps @ [w])"
      "same_events es (events s2)" "fired s2 = fired s" "watch_table s2 = (watch_table s)[i := NULL]"
      using removeWatch_inv [OF inv1 i(1), of w e1] i e1 by auto
    then show ?thesis
      using es(1) e1 False per same_events_trans [OF same1 s2(3)]
      by (intro exI [of _ es] exI [of _ s2]) simp
  qed
qed

lemma ready_loop_ok:
  assumes "ril_inv s ts ps" "distinct is"
    and "\<And>i. i \<in> set is \<Longrightarrow> i < MAX_FD_EVENTS \<and> (watch_table s ! i \<noteq> NULL \<longrightarrow> watch_table s ! i \<notin> set ps)"
  shows "\<exists>s'. ready_loop rfds is n s = Some s' \<and>
    ril_inv s' ts (ps @ map ((!) (watch_table s)) (take (nat n) (ready_slots s rfds is))) \<and>
    same_events (events s) (events s') \<and> fired s' = fired s"
  using assms
proof (induction "is" arbitrary: s ps n)
  case Nil
  then show ?case by (simp add: ready_slots_def)
next
  case (Cons i "is")
  have i: "i < MAX_FD_EVENTS" "i \<notin> set is" using Cons.prems(2,3) by auto
  have ok: "watch_ok s" using Cons.prems(1) by (simp add: ril_inv_def)
  show ?case
  proof (cases "n > 0 \<and> watch_table s ! i \<noteq> NULL")
    case False
    then show ?thesis
      using Cons.IH [OF Cons.prems(1), of n] Cons.prems by (auto simp: ready_slots_def)
  next
    case True
    let ?w = "watch_table s ! i"
    obtain e where e: "events s ?w = Some e" "0 \<le> fd e" "fd e < FD_SETSIZE"
      using watch_slot [OF ok i(1)] True by blast
    show ?thesis
    proof (cases "fd e \<in> rfds")
      case False
      then show ?thesis
        using Cons.IH [OF Cons.prems(1), of n] Cons.prems True e
        by (auto simp: ready_slots_def deref_def FD_ISSET_def)
    next
      case ready: True
      have "?w \<notin> set ps" using Cons.prems(3) True by simp
      then obtain es s1 where s1: "addToList ?w pending_list (events s) = Some es"
        "(if \<not> persist (the (es ?w)) then removeWatch ?w i (s\<lparr>events := es\<rparr>) else Some (s\<lparr>events := es\<rparr>)) = Some s1"
        "es ?w \<noteq> None" "ril_inv s1 ts (ps @ [?w])" "same_events (events s) (events s1)" "fired s1 = fired s"
        "watch_table s1 = (if persist (the (events s ?w)) then watch_table s else (watch_table s)[i := NULL])"
        using ready_one [OF Cons.prems(1) i(1), of ?w] True by blast
      have tab: "watch_table s1 ! j = watch_table s ! j" if "j \<in> set is" for j
        using that i(2) s1(7) by (cases "j = i") auto
      have slots: "j < MAX_FD_EVENTS \<and> (watch_table s1 ! j \<noteq> NULL \<longrightarrow> watch_table s1 ! j \<notin> set (ps @ [?w]))"
        if j: "j \<in> set is" for j
      proof -
        have "j < MAX_FD_EVENTS" "watch_table s ! j \<noteq> NULL \<longrightarrow> watch_table s ! j \<notin> set ps"
          using Cons.prems(3) [of j] j by auto
        moreover have "watch_table s ! j \<noteq> ?w"
        proof
          assume "watch_table s ! j = ?w"
          then have "i = j" using watch_inj [OF ok i(1) _ _ sym] True calculation(1) by blast
          then show False using i(2) j by simp
        qed
        ultimately show ?thesis using tab [OF j] by simp
      qed
      have rdy: "ready_slots s1 rfds is = ready_slots s rfds is"
        by (rule ready_slots_cong) (use tab s1(5) in \<open>auto simp: same_events_def\<close>)
      obtain s2 where s2: "ready_loop rfds is (n - 1) s1 = Some s2"
        "ril_inv s2 ts ((ps @ [?w]) @ map ((!) (watch_table s1)) (take (nat (n - 1)) (ready_slots s1 rfds is)))"
        "same_events (events s1) (events s2)" "fired s2 = fired s1"
        using Cons.IH [OF s1(4) _ slots, of "n - 1"] Cons.prems(2) by auto
      have sub: "set (take k (ready_slots s rfds is)) \<subseteq> set is" for k
        using set_take_subset [of k "ready_slots s rfds is"] by (auto simp: ready_slots_def)
      have tabs: "map ((!) (watch_table s1)) (take k (ready_slots s rfds is)) =
          map ((!) (watch_table s)) (take k (ready_slots s rfds is))" for k
        using sub tab by (intro map_cong) auto
      have hd: "ready_slots s rfds (i # is) = i # ready_slots s rfds is"
        using True ready e by (simp add: ready_slots_def)
      have "nat n = Suc (nat (n - 1))" using True by linarith
      then have "map ((!) (watch_table s)) (take (nat n) (ready_slots s rfds (i # is))) =
          ?w # map ((!) (watch_table s)) (take (nat (n - 1)) (ready_slots s rfds is))" by (simp only: hd take_Suc_Cons list.map)
      then have inv2: "ril_inv s2 ts (ps @ map ((!) (watch_table s)) (take (nat n) (ready_slots s rfds (i # is))))"
        using s2(2) by (simp only: rdy tabs append_assoc append_Cons append_Nil)
      obtain e1 where e1: "es ?w = Some e1" using s1(3) by auto
      have "ready_loop rfds (i # is) n s = ready_loop rfds is (n - 1) s1"
        using True e ready s1(1,2) e1 by (simp add: deref_def FD_ISSET_def Let_def split del: if_split)
      then show ?thesis
        using s2 inv2 same_events_trans [OF s1(5) s2(3)] s1(6) by simp
    qed
  qed
qed

end
