(* ===== verification/RilEventSafety.thy ===== *)
theory RilEventSafety
  imports RilEventProofs
begin

text \<open>
  The event loop of \<open>ril/libril/ril_event.cpp\<close> as a whole: the contract of a callback, a
  round of the loop, the interface used by clients, the states they reach together, and the
  properties.
\<close>

section \<open>Firing\<close>

text \<open>
  What the loop needs of a callback: started in a well formed state it returns one with the
  same pending ring (the events still to be fired keep their function, descriptor and
  parameter). It may add and remove timers and watches, and free its own event.
\<close>

definition callback_ok :: "callback \<Rightarrow> bool" where
  "callback_ok cb \<longleftrightarrow> (\<forall>f d pm s ts ps. ril_inv s ts ps \<longrightarrow>
     (\<exists>s' ts'. cb f d pm s = Some s' \<and> ril_inv s' ts' ps \<and> fired s' = fired s \<and>
        (\<forall>p \<in> set ps. call_of (events s') p = call_of (events s) p)))"

lemma callback_okE:
  assumes "callback_ok cb" "ril_inv s ts ps"
  obtains s' ts' where "cb f d pm s = Some s'" "ril_inv s' ts' ps" "fired s' = fired s"
    "\<And>p. p \<in> set ps \<Longrightarrow> call_of (events s') p = call_of (events s) p"
  using assms unfolding callback_ok_def by blast

lemma ril_inv_fired [simp]: "ril_inv (s\<lparr>fired := l\<rparr>) ts ps = ril_inv s ts ps"
  by (simp add: ril_inv_def watch_ok_def watched_def)

lemma ril_inv_links:
  assumes "ril_inv s ts ps" "links_only (events s) es A" "rings es ts ps'"
  shows "ril_inv (s\<lparr>events := es\<rparr>) ts ps'"
  using assms by (simp add: ril_inv_def watch_ok_links [OF assms(2)] links_onlyD [OF assms(2)])

lemma fire_loop_ok:
  assumes cb: "callback_ok cb"
  shows "ril_inv s ts ps \<Longrightarrow> \<exists>s' ts'. fire_loop cb (firstp ps pending_list) s = Some s' \<and>
    ril_inv s' ts' [] \<and> fired s' = fired s @ map (call_of (events s)) ps"
proof (induction ps arbitrary: s ts)
  case Nil
  then show ?case by (auto simp: fire_loop.simps)
next
  case (Cons p ps)
  have r: "rings (events s) ts (p # ps)" using Cons.prems by (simp add: ril_inv_def)
  obtain e where e: "events s p = Some e" "p \<noteq> NULL" using rings_live [OF r, of p] by auto
  have "p \<noteq> pending_list" using r by (auto simp: rings_def)
  obtain es where es: "removeFromList p (events s) = Some es" "rings es ts ps"
    "links_only (events s) es (set (pending_list # p # ps))"
    using rings_remove_pending [OF r] by blast
  obtain e1 where e1: "es p = Some e1" using links_onlyD(1) [OF es(3), of p] e by auto
  have call: "call_of es q = call_of (events s) q" for q
    using same_events_links [OF es(3)] by (simp add: same_events_def)
  let ?s = "s\<lparr>events := es, fired := fired s @ [(func e1, fd e1, param e1)]\<rparr>"
  have "ril_inv ?s ts ps" using ril_inv_links [OF Cons.prems es(3,2)] by simp
  then obtain s1 ts1 where s1: "cb (func e1) (fd e1) (param e1) ?s = Some s1" "ril_inv s1 ts1 ps"
    "fired s1 = fired ?s" "\<And>q. q \<in> set ps \<Longrightarrow> call_of (events s1) q = call_of (events ?s) q"
    using callback_okE [OF cb] by blast
  obtain s2 ts2 where s2: "fire_loop cb (firstp ps pending_list) s1 = Some s2" "ril_inv s2 ts2 []"
    "fired s2 = fired s1 @ map (call_of (events s1)) ps"
    using Cons.IH [OF s1(2)] by blast
  have "(func e1, fd e1, param e1) = call_of (events s) p"
    using call [of p] e1 by (simp add: call_of_def)
  moreover have "map (call_of (events s1)) ps = map (call_of (events s)) ps"
    using s1(4) call by simp
  ultimately have "fired s2 = fired s @ map (call_of (events s)) (p # ps)"
    using s2(3) s1(3) by simp
  moreover have "fire_loop cb (firstp (p # ps) pending_list) s = Some s2"
    using e \<open>p \<noteq> pending_list\<close> es(1) e1 s1(1) s2(1) rings_next(2) [OF r]
    by (simp add: fire_loop.simps [of _ p] deref_def Let_def)
  ultimately show ?case using s2(2) by blast
qed

lemma firePending_ok:
  assumes "callback_ok cb" "ril_inv s ts ps"
  shows "\<exists>s' ts'. firePending cb s = Some s' \<and> ril_inv s' ts' [] \<and>
    fired s' = fired s @ map (call_of (events s)) ps"
proof -
  have r: "rings (events s) ts ps" using assms(2) by (simp add: ril_inv_def)
  obtain l where "events s pending_list = Some l" "next_ev l = firstp ps pending_list"
    using rings_heads [OF r] by auto
  then show ?thesis using fire_loop_ok [OF assms] by (simp add: firePending_def deref_def)
qed

section \<open>A round of the loop\<close>

text \<open>The watched events whose descriptor is in \<open>rfds\<close>, in table order.\<close>

definition readable :: "ril_vars \<Rightarrow> int set \<Rightarrow> ptr list" where
  "readable s rfds = filter (\<lambda>w. w \<noteq> NULL \<and> fd (the (events s w)) \<in> rfds) (watch_table s)"

lemma readable_slots:
  assumes "length (watch_table s) = MAX_FD_EVENTS"
  shows "map ((!) (watch_table s)) (take k (ready_slots s rfds [0..<MAX_FD_EVENTS])) = take k (readable s rfds)"
proof -
  have "watch_table s = map ((!) (watch_table s)) [0..<MAX_FD_EVENTS]"
    using assms map_nth [of "watch_table s"] by simp
  then have "readable s rfds = map ((!) (watch_table s)) (ready_slots s rfds [0..<MAX_FD_EVENTS])"
    unfolding readable_def ready_slots_def by (metis (no_types, lifting) comp_apply filter_cong filter_map)
  then show ?thesis by (simp add: take_map)
qed

text \<open>What a round fires: the timers that were due, then the first \<open>n\<close> readable events.\<close>

definition round_calls :: "ril_vars \<Rightarrow> ptr list \<Rightarrow> timeval \<Rightarrow> int \<Rightarrow> int set \<Rightarrow> (ptr \<times> int \<times> ptr) list" where
  "round_calls s ts now n rfds = map (call_of (events s))
     (filter (\<lambda>t. due (events s) t < now) ts @ take (nat n) (readable s rfds))"

lemma round_ok:
  assumes cb: "callback_ok cb" and inv: "ril_inv s ts []"
  shows "\<exists>s1 s2 s3 ts'. processTimeouts now s = Some s1 \<and> processReadReadies rfds n s1 = Some s2 \<and>
    firePending cb s2 = Some s3 \<and> ril_inv s3 ts' [] \<and> fired s3 = fired s @ round_calls s ts now n rfds"
proof -
  let ?old = "filter (\<lambda>t. due (events s) t < now) ts" and ?ts = "filter (\<lambda>t. \<not> due (events s) t < now) ts"
  obtain s1 es where s1: "processTimeouts now s = Some s1" "ril_inv s1 ?ts ?old"
    "s1 = s\<lparr>events := es\<rparr>" "links_only (events s) es (set (timer_list # pending_list # ts @ []))"
    using processTimeouts_ok [OF inv, of now] by auto
  have nw: "\<not> watched s p" if "p \<in> set ts" for p using inv that by (simp add: ril_inv_def)
  have ok: "watch_ok s" using inv by (simp add: ril_inv_def)
  have slots: "i < MAX_FD_EVENTS \<and> (watch_table s1 ! i \<noteq> NULL \<longrightarrow> watch_table s1 ! i \<notin> set ?old)"
    if i: "i \<in> set [0..<MAX_FD_EVENTS]" for i
  proof -
    have tab: "watch_table s1 = watch_table s" unfolding s1(3) by simp
    have "watch_table s ! i \<noteq> NULL \<Longrightarrow> watched s (watch_table s ! i)"
      using watched_slot [OF ok, of "watch_table s ! i"] i by auto
    then have "watch_table s ! i \<noteq> NULL \<Longrightarrow> watch_table s ! i \<notin> set ts" using nw by blast
    then show ?thesis unfolding tab using i by simp
  qed
  obtain s2 where s2: "ready_loop rfds [0..<MAX_FD_EVENTS] n s1 = Some s2"
    "ril_inv s2 ?ts (?old @ map ((!) (watch_table s1)) (take (nat n) (ready_slots s1 rfds [0..<MAX_FD_EVENTS])))"
    "same_events (events s1) (events s2)" "fired s2 = fired s1"
    using ready_loop_ok [OF s1(2) distinct_upt slots] by blast
  have len: "length (watch_table s1) = MAX_FD_EVENTS" using watch_length [OF ok] s1(3) by simp
  have rd: "readable s1 rfds = readable s rfds"
    using s1(3) links_onlyD(2) [OF s1(4)] by (simp add: readable_def)
  obtain s3 ts' where s3: "firePending cb s2 = Some s3" "ril_inv s3 ts' []"
    "fired s3 = fired s2 @ map (call_of (events s2)) (?old @ take (nat n) (readable s rfds))"
    using firePending_ok [OF cb s2(2)] unfolding readable_slots [OF len] rd by blast
  have same: "same_events (events s) (events s2)"
    using same_events_trans [OF same_events_links [OF s1(4)]] s2(3) s1(3) by simp
  have "call_of (events s2) = call_of (events s)"
    by (rule ext) (use same in \<open>simp add: same_events_def\<close>)
  then have "fired s3 = fired s @ round_calls s ts now n rfds"
    using s3(3) s2(4) s1(3) unfolding round_calls_def by simp
  moreover have "processReadReadies rfds n s1 = Some s2"
    using s2(1) by (simp add: processReadReadies_def)
  ultimately show ?thesis using s1(1) s3(1,2) by blast
qed

section \<open>The interface\<close>

text \<open>An event the client may hand over: live, on no ring and in no slot.\<close>

definition idle :: "ril_vars \<Rightarrow> ptr \<Rightarrow> bool" where
  "idle s p \<longleftrightarrow> p \<noteq> NULL \<and> p \<noteq> timer_list \<and> p \<noteq> pending_list \<and>
     (case events s p of None \<Rightarrow> False | Some e \<Rightarrow> next_ev e = NULL \<and> index e = -1)"

lemma ring_next: "ring es h xs \<Longrightarrow> p \<in> set xs \<Longrightarrow> enx es p \<noteq> Some NULL"
proof -
  have *: "dchain nx pr pv xs n \<Longrightarrow> n \<noteq> NULL \<Longrightarrow> p \<in> set xs \<Longrightarrow> nx p \<noteq> Some NULL" for nx pr pv n
  proof (induction xs arbitrary: pv)
    case (Cons x xs)
    then show ?case by (cases xs) auto
  qed simp
  show "ring es h xs \<Longrightarrow> p \<in> set xs \<Longrightarrow> enx es p \<noteq> Some NULL"
    using * [of "enx es" "epr es" h h] by (auto simp: ring_def)
qed

lemma idle_new:
  assumes inv: "ril_inv s ts ps" and idle: "idle s p"
  shows "p \<notin> set (timer_list # pending_list # ts @ ps)" "\<not> watched s p"
proof -
  obtain e where e: "events s p = Some e" "next_ev e = NULL" "index e = -1" "p \<noteq> timer_list" "p \<noteq> pending_list"
    using idle by (auto simp: idle_def split: option.splits)
  have "enx (events s) p = Some NULL" using e by (simp add: enx_def)
  then show "p \<notin> set (timer_list # pending_list # ts @ ps)"
    using inv e ring_next [of "events s" timer_list ts p] ring_next [of "events s" pending_list ps p]
    by (auto simp: ril_inv_def rings_def)
  have ok: "watch_ok s" using inv by (simp add: ril_inv_def)
  show "\<not> watched s p"
  proof
    assume "watched s p"
    then obtain i where "i < MAX_FD_EVENTS" "watch_table s ! i = p" "p \<noteq> NULL"
      using watched_slot [OF ok] by blast
    then show False using watch_slot [OF ok, of i] e(1,3) by force
  qed
qed

text \<open>An event outside the rings and the table may change, appear or disappear.\<close>

lemma watch_ok_outside:
  assumes ok: "watch_ok s" and nw: "\<not> watched s p"
    and new: "\<And>e. c = Some e \<Longrightarrow> index e = -1"
  shows "watch_ok (s\<lparr>events := (events s)(p := c)\<rparr>)"
proof -
  have ne: "watch_table s ! i \<noteq> p" if "i < MAX_FD_EVENTS" "watch_table s ! i \<noteq> NULL" for i
    using that nw watched_slot [OF ok] by blast
  have idx: "\<not> (0 \<le> index (the c))" if "c \<noteq> None" using that new by auto
  show ?thesis
    unfolding watch_ok_def Let_def
  proof (intro conjI allI ballI impI; (elim conjE)?)
    show "length (watch_table (s\<lparr>events := (events s)(p := c)\<rparr>)) = MAX_FD_EVENTS"
      using watch_length [OF ok] by simp
  next
    fix d assume "d \<in> readFds (s\<lparr>events := (events s)(p := c)\<rparr>)"
    then have "\<exists>i < MAX_FD_EVENTS. watch_table s ! i \<noteq> NULL \<and> fd (the (events s (watch_table s ! i))) = d"
      using ok unfolding watch_ok_def by simp
    then show "\<exists>i < MAX_FD_EVENTS. watch_table (s\<lparr>events := (events s)(p := c)\<rparr>) ! i \<noteq> NULL \<and>
        fd (the (events (s\<lparr>events := (events s)(p := c)\<rparr>) (watch_table (s\<lparr>events := (events s)(p := c)\<rparr>) ! i))) = d"
      using ne by auto
  next
    fix i j assume "i < MAX_FD_EVENTS" "j < MAX_FD_EVENTS"
      "watch_table (s\<lparr>events := (events s)(p := c)\<rparr>) ! i \<noteq> NULL"
      "watch_table (s\<lparr>events := (events s)(p := c)\<rparr>) ! j \<noteq> NULL"
      "fd (the (events (s\<lparr>events := (events s)(p := c)\<rparr>) (watch_table (s\<lparr>events := (events s)(p := c)\<rparr>) ! i))) =
       fd (the (events (s\<lparr>events := (events s)(p := c)\<rparr>) (watch_table (s\<lparr>events := (events s)(p := c)\<rparr>) ! j)))"
    then show "i = j" using watch_fd_inj [OF ok, of i j] ne by simp
  next
    fix q assume "q \<noteq> NULL" "q \<noteq> timer_list" "q \<noteq> pending_list"
      "events (s\<lparr>events := (events s)(p := c)\<rparr>) q \<noteq> None"
      "0 \<le> index (the (events (s\<lparr>events := (events s)(p := c)\<rparr>) q))"
      "index (the (events (s\<lparr>events := (events s)(p := c)\<rparr>) q)) < int MAX_FD_EVENTS"
    then show "watch_table (s\<lparr>events := (events s)(p := c)\<rparr>) !
        nat (index (the (events (s\<lparr>events := (events s)(p := c)\<rparr>) q))) = q"
      using ok idx unfolding watch_ok_def by (cases "q = p") simp_all
  qed (use watch_slot [OF ok] ne in \<open>fastforce\<close>)+
qed

lemma ril_inv_outside:
  assumes inv: "ril_inv s ts ps" and p: "p \<notin> set (timer_list # pending_list # ts @ ps)" "\<not> watched s p"
    and new: "\<And>e. c = Some e \<Longrightarrow> index e = -1"
  shows "ril_inv (s\<lparr>events := (events s)(p := c)\<rparr>) ts ps"
proof -
  have "rings ((events s)(p := c)) ts ps"
    by (subst rings_cong [of ts ps "(events s)(p := c)" "events s"]) (use inv p in \<open>auto simp: ril_inv_def\<close>)
  moreover have "map (due ((events s)(p := c))) ts = map (due (events s)) ts"
    by (rule map_cong) (use p in auto)
  moreover have "watch_ok (s\<lparr>events := (events s)(p := c)\<rparr>)"
    by (rule watch_ok_outside) (use inv p new in \<open>auto simp: ril_inv_def\<close>)
  ultimately show ?thesis using inv unfolding ril_inv_def watched_events by (simp del: fun_upd_apply map_eq_conv)
qed

lemma ril_event_set_ok:
  assumes inv: "ril_inv s ts ps" and p: "p \<notin> set (timer_list # pending_list # ts @ ps)" "\<not> watched s p"
    "p \<noteq> NULL" "events s p \<noteq> None"
  shows "\<exists>s'. ril_event_set p d per f pm s = Some s' \<and> ril_inv s' ts ps \<and> idle s' p \<and>
    call_of (events s') p = (f, d, pm) \<and> (\<exists>c. s' = s\<lparr>events := (events s)(p \<mapsto> c)\<rparr> \<and> persist c = per)"
proof -
  let ?c = "zero_event\<lparr>fd := d, index := -1, persist := per, func := f, param := pm\<rparr>"
  have "ril_event_set p d per f pm s = Some (s\<lparr>events := (events s)(p \<mapsto> ?c)\<rparr>)"
    using p by (auto simp: ril_event_set_def update_at_def deref_def)
  moreover have "ril_inv (s\<lparr>events := (events s)(p \<mapsto> ?c)\<rparr>) ts ps"
    by (rule ril_inv_outside [OF inv p(1,2)]) auto
  moreover have "idle (s\<lparr>events := (events s)(p \<mapsto> ?c)\<rparr>) p"
    using p by (auto simp: idle_def zero_event_def)
  ultimately show ?thesis by (auto simp: call_of_def)
qed

lemma idle_live: "idle s p \<Longrightarrow> p \<noteq> NULL \<and> p \<noteq> timer_list \<and> p \<noteq> pending_list \<and>
    (\<exists>e. events s p = Some e \<and> next_ev e = NULL \<and> index e = -1)"
  by (auto simp: idle_def split: option.splits)

lemma add_loop_skip:
  "(\<And>i. i \<in> set is \<Longrightarrow> watch_table s ! i \<noteq> NULL) \<Longrightarrow> add_loop ev (is @ js) s = add_loop ev js s"
proof (induction "is")
  case (Cons i "is")
  have "watch_table s ! i \<noteq> NULL" using Cons.prems [of i] by simp
  moreover have "add_loop ev (is @ js) s = add_loop ev js s" by (rule Cons.IH) (use Cons.prems in simp)
  ultimately show ?case by simp
qed simp

text \<open>The first free slot of the table.\<close>

definition free_slot :: "ril_vars \<Rightarrow> nat \<Rightarrow> bool" where
  "free_slot s i \<longleftrightarrow> i < MAX_FD_EVENTS \<and> watch_table s ! i = NULL \<and> (\<forall>j < i. watch_table s ! j \<noteq> NULL)"

lemma free_slot_ex:
  assumes "i < MAX_FD_EVENTS" "watch_table s ! i = NULL"
  shows "\<exists>i. free_slot s i"
proof -
  obtain k where k: "watch_table s ! k = NULL" "\<forall>j < k. watch_table s ! j \<noteq> NULL"
    using exists_least_iff [of "\<lambda>i. watch_table s ! i = NULL"] assms(2) by blast
  have "k \<le> i" using k(2) assms(2) by (meson not_le)
  then show ?thesis using k assms(1) unfolding free_slot_def by (intro exI [of _ k]) simp
qed

lemma add_watch_inv:
  assumes inv: "ril_inv s ts ps" and p: "idle s p" and e: "events s p = Some e"
    and d: "0 \<le> fd e" "fd e < FD_SETSIZE" "fd e \<notin> readFds s" and i: "i < MAX_FD_EVENTS" "watch_table s ! i = NULL"
    and s': "s' = s\<lparr>watch_table := (watch_table s)[i := p], events := (events s)(p \<mapsto> e\<lparr>index := int i\<rparr>),
      readFds := insert (fd e) (readFds s), nfds := (if fd e \<ge> nfds s then fd e + 1 else nfds s)\<rparr>"
  shows "ril_inv s' ts ps"
proof -
  have ok: "watch_ok s" using inv by (simp add: ril_inv_def)
  note out = idle_new [OF inv p]
  let ?ws = "(watch_table s)[i := p]" and ?es = "(events s)(p \<mapsto> e\<lparr>index := int i\<rparr>)"
  have len: "length (watch_table s) = MAX_FD_EVENTS" using ok by (rule watch_length)
  have p0: "p \<noteq> NULL" using idle_live [OF p] by simp
  have ne: "watch_table s ! j \<noteq> p" if "j < MAX_FD_EVENTS" for j
    using that out(2) watched_slot [OF ok, of p] p0 by blast
  have fds: "fd (the (?es q)) = fd (the (events s q))" for q using e by simp
  have old: "?es (?ws ! j) \<noteq> None \<and> index (the (?es (?ws ! j))) = int j \<and> 0 \<le> fd (the (?es (?ws ! j))) \<and>
      fd (the (?es (?ws ! j))) < FD_SETSIZE \<and> fd (the (?es (?ws ! j))) < nfds s' \<and>
      fd (the (?es (?ws ! j))) \<in> insert (fd e) (readFds s)"
    if j: "j < MAX_FD_EVENTS" "?ws ! j \<noteq> NULL" for j
  proof (cases "j = i")
    case True
    then show ?thesis using d len i s' by simp
  next
    case False
    then have w: "?ws ! j = watch_table s ! j" "watch_table s ! j \<noteq> p" using ne j by auto
    obtain c where "events s (watch_table s ! j) = Some c" "index c = int j" "0 \<le> fd c"
      "fd c < FD_SETSIZE" "fd c < nfds s" "fd c \<in> readFds s"
      using watch_slot [OF ok j(1)] j(2) w by auto
    then show ?thesis using w s' by auto
  qed
  have used: "\<exists>j < MAX_FD_EVENTS. ?ws ! j \<noteq> NULL \<and> fd (the (?es (?ws ! j))) = x"
    if x: "x \<in> insert (fd e) (readFds s)" for x
  proof (cases "x = fd e")
    case True
    then show ?thesis using i len p0 by (intro exI [of _ i]) simp
  next
    case False
    then obtain j where j: "j < MAX_FD_EVENTS" "watch_table s ! j \<noteq> NULL"
      "fd (the (events s (watch_table s ! j))) = x"
      using x ok unfolding watch_ok_def by blast
    have "j \<noteq> i" using j i by auto
    then show ?thesis using j ne [OF j(1)] by (intro exI [of _ j]) simp
  qed
  have fdin: "fd (the (events s (watch_table s ! j))) \<noteq> fd e"
    if "j < MAX_FD_EVENTS" "watch_table s ! j \<noteq> NULL" for j
    by (rule watch_slot [OF ok that]) (use d(3) in auto)
  have inj: "j = k" if jk: "j < MAX_FD_EVENTS" "k < MAX_FD_EVENTS" "?ws ! j \<noteq> NULL" "?ws ! k \<noteq> NULL"
      "fd (the (?es (?ws ! j))) = fd (the (?es (?ws ! k)))" for j k
    using jk watch_fd_inj [OF ok jk(1,2)] fdin [OF jk(1)] fdin [OF jk(2)] e len i(1) unfolding fds
    by (cases "j = i"; cases "k = i") auto
  have claims: "?ws ! nat (index (the (?es q))) = q"
    if q: "q \<noteq> NULL" "q \<noteq> timer_list" "q \<noteq> pending_list" "?es q \<noteq> None"
      "0 \<le> index (the (?es q))" "index (the (?es q)) < int MAX_FD_EVENTS" for q
  proof (cases "q = p")
    case True
    then show ?thesis using len i by simp
  next
    case False
    then have "watch_table s ! nat (index (the (events s q))) = q" using ok q unfolding watch_ok_def by simp
    moreover from this have "nat (index (the (events s q))) \<noteq> i" using i(2) q(1) by auto
    ultimately show ?thesis using False by simp
  qed
  have "watch_ok s'"
    unfolding watch_ok_def Let_def using old used inj claims len s' by (simp del: fun_upd_apply)
  moreover have "rings (events s') ts ps"
    using inv e s' unfolding ril_inv_def rings_def ring_def by (simp add: fun_upd_idem enx_def epr_def)
  moreover have "map (due (events s')) ts = map (due (events s)) ts"
    by (rule map_cong) (use out(1) s' in auto)
  then have "sorted (map (due (events s')) ts)" using inv unfolding ril_inv_def by (simp only:)
  moreover have "\<not> watched s' q" if q: "q \<in> set (timer_list # pending_list # ts)" for q
  proof -
    have "\<not> watched s q" using inv q unfolding ril_inv_def by blast
    moreover have "q \<noteq> p" using q out(1) by auto
    ultimately show ?thesis
      using set_update_subset_insert [of "watch_table s" i p] s' by (auto simp: watched_def)
  qed
  ultimately show ?thesis unfolding ril_inv_def by blast
qed

lemma ril_event_add_ok:
  assumes inv: "ril_inv s ts ps" and p: "idle s p" and e: "events s p = Some e"
    and d: "0 \<le> fd e" "fd e < FD_SETSIZE" "fd e \<notin> readFds s"
  shows "\<exists>s'. ril_event_add p s = Some s' \<and> ril_inv s' ts ps \<and> fired s' = fired s \<and>
    same_events (events s) (events s') \<and>
    (\<forall>i. free_slot s i \<longrightarrow> watch_table s' = (watch_table s)[i := p] \<and> readFds s' = insert (fd e) (readFds s)) \<and>
    (NULL \<notin> set (watch_table s) \<longrightarrow> s' = s)"
proof -
  have ok: "watch_ok s" using inv by (simp add: ril_inv_def)
  have len: "length (watch_table s) = MAX_FD_EVENTS" using ok by (rule watch_length)
  show ?thesis
  proof (cases "\<exists>i < MAX_FD_EVENTS. watch_table s ! i = NULL")
    case False
    then have "add_loop p ([0..<MAX_FD_EVENTS] @ []) s = add_loop p [] s"
      by (intro add_loop_skip) auto
    then have "ril_event_add p s = Some s" by (simp add: ril_event_add_def)
    moreover have "\<not> free_slot s i" for i using False by (auto simp: free_slot_def)
    ultimately show ?thesis using inv by simp
  next
    case True
    then obtain i where i: "free_slot s i" using free_slot_ex by blast
    then have i': "i < MAX_FD_EVENTS" "watch_table s ! i = NULL" "\<forall>j < i. watch_table s ! j \<noteq> NULL"
      by (auto simp: free_slot_def)
    define s' where "s' = s\<lparr>watch_table := (watch_table s)[i := p], events := (events s)(p \<mapsto> e\<lparr>index := int i\<rparr>),
      readFds := insert (fd e) (readFds s), nfds := (if fd e \<ge> nfds s then fd e + 1 else nfds s)\<rparr>"
    have inv': "ril_inv s' ts ps" by (rule add_watch_inv [OF inv p e d i'(1,2) s'_def])
    have split: "[0..<MAX_FD_EVENTS] = [0..<i] @ i # [Suc i..<MAX_FD_EVENTS]"
      using i'(1) by (metis less_imp_le_nat upt_add_eq_append upt_conv_Cons le_add_diff_inverse le0 add_0)
    have "ril_event_add p s = add_loop p (i # [Suc i..<MAX_FD_EVENTS]) s"
      unfolding ril_event_add_def split by (rule add_loop_skip) (use i'(3) in auto)
    then have run: "ril_event_add p s = Some s'"
      using i'(2) e d idle_live [OF p] by (simp add: update_at_def deref_def FD_SET_def s'_def)
    have uniq: "j = i" if "free_slot s j" for j
      using that i unfolding free_slot_def by (meson nat_neq_iff)
    have "NULL \<in> set (watch_table s)" using i' len by (metis nth_mem)
    moreover have "same_events (events s) (events s')"
      using same_events_index [of "events s" p e, OF e] by (simp add: s'_def)
    ultimately show ?thesis
      using run inv' uniq by (intro exI [of _ s']) (auto simp: s'_def)
  qed
qed

lemma ril_event_del_ok:
  assumes inv: "ril_inv s ts ps" and p: "p \<noteq> NULL" "p \<noteq> timer_list" "p \<noteq> pending_list" and e: "events s p = Some e"
  shows "\<exists>s'. ril_event_del p s = Some s' \<and> ril_inv s' ts ps \<and> fired s' = fired s \<and>
    same_events (events s) (events s') \<and> \<not> watched s' p \<and>
    readFds s' = (if watched s p then readFds s - {fd e} else readFds s)"
proof -
  have ok: "watch_ok s" using inv by (simp add: ril_inv_def)
  have len: "length (watch_table s) = MAX_FD_EVENTS" using ok by (rule watch_length)
  show ?thesis
  proof (cases "index e < 0 \<or> index e \<ge> int MAX_FD_EVENTS")
    case True
    have "\<not> watched s p"
    proof
      assume "watched s p"
      then obtain i where i: "i < MAX_FD_EVENTS" "watch_table s ! i = p" using watched_slot [OF ok] by blast
      obtain c where "events s p = Some c" "index c = int i" using watch_slot [OF ok i(1)] i p by metis
      then show False using True e i(1) by auto
    qed
    then show ?thesis using True e p inv by (auto simp: ril_event_del_def deref_def)
  next
    case False
    let ?i = "nat (index e)"
    have i: "?i < MAX_FD_EVENTS" "watch_table s ! ?i = p"
      using False ok p e unfolding watch_ok_def by auto
    obtain s' where s': "removeWatch p ?i s = Some s'" "ril_inv s' ts ps" "same_events (events s) (events s')"
      "fired s' = fired s" "watch_table s' = (watch_table s)[?i := NULL]" "readFds s' = readFds s - {fd e}"
      using removeWatch_inv [OF inv i p(1) e] by blast
    have "watched s p" using watched_slot [OF ok] i p(1) by blast
    moreover have "\<not> watched s' p"
    proof
      assume "watched s' p"
      then obtain j where j: "j < MAX_FD_EVENTS" "watch_table s' ! j = p"
        using watched_slot [of s' p] s'(2) by (auto simp: ril_inv_def)
      then have "j \<noteq> ?i" using s'(5) len i(1) p(1) by auto
      then have "watch_table s ! j = p" using j s'(5) by simp
      then show False using watch_inj [OF ok i(1) j(1)] i(2) p(1) \<open>j \<noteq> ?i\<close> by auto
    qed
    ultimately show ?thesis using False e p(1) s' by (auto simp: ril_event_del_def deref_def)
  qed
qed

lemma place_loop_ok:
  assumes "dchain (enx es) (epr es) pv ts timer_list" "\<forall>t \<in> set ts. es t \<noteq> None" "timer_list \<notin> set ts"
    "es timer_list \<noteq> None"
  shows "place_loop d (firstp ts timer_list) es = Some (firstp (dropWhile (\<lambda>t. due es t < d) ts) timer_list)"
  using assms
proof (induction ts arbitrary: pv)
  case Nil
  then show ?case by (auto simp: place_loop.simps [of _ timer_list] deref_def)
next
  case (Cons t ts)
  obtain e where e: "es t = Some e" using Cons.prems(2) by auto
  have t: "t \<noteq> NULL" "t \<noteq> timer_list" "next_ev e = firstp ts timer_list"
    using Cons.prems(1,3) e by (auto simp: enx_def)
  have "place_loop d (firstp ts timer_list) es = Some (firstp (dropWhile (\<lambda>t. due es t < d) ts) timer_list)"
    using Cons.IH [of t] Cons.prems by simp
  then show ?case
    using e t by (simp add: place_loop.simps [of _ t] deref_def)
qed

lemma sorted_insert_place:
  "sorted (map f xs) \<Longrightarrow> sorted (map f (takeWhile (\<lambda>x. f x < (k :: 'a :: linorder)) xs) @ k #
     map f (dropWhile (\<lambda>x. f x < k) xs))"
  by (simp add: sorted_takeWhile_filter sorted_dropWhile_filter sorted_append sorted_filter not_less)
    (auto intro: order_trans)

lemma ril_timer_add_ok:
  assumes inv: "ril_inv s ts ps" and p: "idle s p" and d_def: "d = timeradd now tv"
  shows "\<exists>s'. ril_timer_add p (Some tv) now s = Some s' \<and>
    ril_inv s' (takeWhile (\<lambda>t. due (events s) t < d) ts @ p # dropWhile (\<lambda>t. due (events s) t < d) ts) ps \<and>
    due (events s') p = d \<and> (\<forall>t. t \<noteq> p \<longrightarrow> due (events s') t = due (events s) t) \<and>
    (\<exists>es. s' = s\<lparr>events := es\<rparr>)"
proof -
  obtain e where e: "p \<noteq> NULL" "p \<noteq> timer_list" "p \<noteq> pending_list" "events s p = Some e" "index e = -1"
    using idle_live [OF p] by blast
  note out = idle_new [OF inv p]
  let ?e = "e\<lparr>fd := -1, timeout := d\<rparr>"
  let ?es = "(events s)(p \<mapsto> ?e)"
  let ?ys = "takeWhile (\<lambda>t. due (events s) t < d) ts" and ?zs = "dropWhile (\<lambda>t. due (events s) t < d) ts"
  have inv1: "ril_inv (s\<lparr>events := ?es\<rparr>) ts ps"
    by (rule ril_inv_outside [OF inv out]) (use e in auto)
  then have r1: "rings ?es ts ps" by (simp add: ril_inv_def)
  have dues: "due ?es t = due (events s) t" if "t \<in> set ts" for t using that out(1) by auto
  have drop: "dropWhile (\<lambda>t. due ?es t < d) ts = ?zs" by (rule dropWhile_cong) (use dues in auto)
  obtain h where h: "events s timer_list = Some h" "next_ev h = firstp ts timer_list"
    using rings_heads [of "events s" ts ps] inv by (auto simp: ril_inv_def)
  have "place_loop d (firstp ts timer_list) ?es = Some (firstp (dropWhile (\<lambda>t. due ?es t < d) ts) timer_list)"
  proof (rule place_loop_ok)
    show "dchain (enx ?es) (epr ?es) timer_list ts timer_list" "timer_list \<notin> set ts"
      using r1 by (auto simp: rings_def ring_def simp del: enx_upd epr_upd)
    show "\<forall>t \<in> set ts. ?es t \<noteq> None" "?es timer_list \<noteq> None"
      using rings_live [OF r1] by fastforce+
  qed
  then have place: "place_loop d (firstp ts timer_list) ?es = Some (firstp ?zs timer_list)" unfolding drop .
  have new: "p \<notin> set (timer_list # pending_list # ?ys @ ?zs @ ps)"
    using out(1) set_takeWhileD [of p _ ts] set_dropWhileD [of p _ ts] by auto
  obtain es2 where es2: "addToList p (firstp ?zs timer_list) ?es = Some es2" "rings es2 (?ys @ p # ?zs) ps"
    "links_only ?es es2 (set (timer_list # ?ys @ p # ?zs))"
    using rings_add_timer [of ?es ?ys ?zs ps p ?e] r1 new e(1) by auto
  let ?s = "s\<lparr>events := es2\<rparr>"
  have run: "ril_timer_add p (Some tv) now s = Some ?s"
    using h e place es2(1) by (simp add: ril_timer_add_def update_at_def deref_def d_def Let_def)
  have due2: "due es2 t = (if t = p then d else due (events s) t)" for t
    using links_onlyD(4) [OF es2(3), of t] by simp
  have "map (due es2) (?ys @ p # ?zs) = map (due (events s)) ?ys @ d # map (due (events s)) ?zs"
    using new due2 by auto
  moreover have "sorted (map (due (events s)) ts)" using inv by (simp add: ril_inv_def)
  ultimately have srt: "sorted (map (due es2) (?ys @ p # ?zs))"
    using sorted_insert_place [of "due (events s)" ts d] by (simp only:)
  have "watch_ok (s\<lparr>events := ?es\<rparr>)" using inv1 by (simp add: ril_inv_def)
  then have ok: "watch_ok ?s" using watch_ok_links [of "s\<lparr>events := ?es\<rparr>" es2] es2(3) by simp
  have "set (?ys @ p # ?zs) = insert p (set ts)"
    using takeWhile_dropWhile_id [of "\<lambda>t. due (events s) t < d" ts] by (metis Un_insert_right list.simps(15) set_append)
  then have "\<forall>q \<in> set (timer_list # pending_list # ?ys @ p # ?zs). \<not> watched ?s q"
    using inv out(2) by (auto simp: ril_inv_def)
  then have "ril_inv ?s (?ys @ p # ?zs) ps" using es2(2) srt ok unfolding ril_inv_def by simp
  then show ?thesis using run due2 by (intro exI [of _ ?s]) auto
qed

section \<open>Reachable states\<close>

text \<open>The static variables before \<open>ril_event_init\<close>: zero memory with the two list heads.\<close>

definition ril_zero :: ril_vars where
  "ril_zero = \<lparr>events = [timer_list \<mapsto> zero_event, pending_list \<mapsto> zero_event],
     watch_table = replicate MAX_FD_EVENTS NULL, readFds = {}, nfds = 0, fired = []\<rparr>"

text \<open>
  The interleavings of clients that follow the interface (an event is set before it is
  handed over, handed over once, with a descriptor in range that no other slot watches) with
  the rounds of the loop.
\<close>

inductive ril_reach :: "callback \<Rightarrow> ril_vars \<Rightarrow> bool" for cb where
  init: "ril_event_init ril_zero = Some s \<Longrightarrow> ril_reach cb s"
| fresh: "ril_reach cb s \<Longrightarrow> p \<notin> {NULL, timer_list, pending_list} \<Longrightarrow> events s p = None \<Longrightarrow>
    ril_event_set p d per f pm (s\<lparr>events := (events s)(p \<mapsto> zero_event)\<rparr>) = Some s' \<Longrightarrow> ril_reach cb s'"
| reset: "ril_reach cb s \<Longrightarrow> idle s p \<Longrightarrow> ril_event_set p d per f pm s = Some s' \<Longrightarrow> ril_reach cb s'"
| add: "ril_reach cb s \<Longrightarrow> idle s p \<Longrightarrow> events s p = Some e \<Longrightarrow> 0 \<le> fd e \<Longrightarrow> fd e < FD_SETSIZE \<Longrightarrow>
    fd e \<notin> readFds s \<Longrightarrow> ril_event_add p s = Some s' \<Longrightarrow> ril_reach cb s'"
| timer: "ril_reach cb s \<Longrightarrow> idle s p \<Longrightarrow> ril_timer_add p tv now s = Some s' \<Longrightarrow> ril_reach cb s'"
| del: "ril_reach cb s \<Longrightarrow> p \<notin> {NULL, timer_list, pending_list} \<Longrightarrow> events s p = Some e \<Longrightarrow>
    ril_event_del p s = Some s' \<Longrightarrow> ril_reach cb s'"
| free: "ril_reach cb s \<Longrightarrow> idle s p \<Longrightarrow> ril_reach cb (s\<lparr>events := (events s)(p := None)\<rparr>)"
| round: "ril_reach cb s \<Longrightarrow> processTimeouts now s = Some s1 \<Longrightarrow> processReadReadies rfds n s1 = Some s2 \<Longrightarrow>
    firePending cb s2 = Some s3 \<Longrightarrow> ril_reach cb s3"

lemma watch_table_empty_ok:
  assumes "watch_table s = replicate MAX_FD_EVENTS NULL" "readFds s = {}"
    and "\<And>p. p \<noteq> timer_list \<Longrightarrow> p \<noteq> pending_list \<Longrightarrow> events s p = None"
  shows "watch_ok s"
proof -
  have none: "events s p = None \<or> p = timer_list \<or> p = pending_list" for p using assms(3) by blast
  have "watch_table s ! nat (index (the (events s p))) = p"
    if "p \<noteq> timer_list" "p \<noteq> pending_list" "events s p \<noteq> None" for p
    using none [of p] that by simp
  then show ?thesis unfolding watch_ok_def Let_def using assms(1,2) by simp
qed

lemma ril_event_init_inv: "ril_event_init ril_zero = Some s \<Longrightarrow> ril_inv s [] []"
  by (auto simp: ril_event_init_def init_list_def ril_zero_def update_at_def deref_def zero_event_def
      ril_inv_def rings_def ring_def enx_def epr_def watched_def MAX_FD_EVENTS_def
      intro!: watch_table_empty_ok)

lemma ril_reach_inv:
  assumes "callback_ok cb" "ril_reach cb s"
  shows "\<exists>ts. ril_inv s ts []"
  using assms(2)
proof (induction rule: ril_reach.induct)
  case (init s)
  then show ?case using ril_event_init_inv by blast
next
  case (fresh s p d per f pm s')
  then obtain ts where inv: "ril_inv s ts []" by blast
  have p: "p \<notin> set (timer_list # pending_list # ts @ [])"
    using fresh(2,3) rings_live [of "events s" ts "[]" p] inv by (auto simp: ril_inv_def)
  have nw: "\<not> watched s p"
  proof
    assume "watched s p"
    then obtain i where "i < MAX_FD_EVENTS" "watch_table s ! i = p" "p \<noteq> NULL"
      using watched_slot [of s p] inv by (auto simp: ril_inv_def)
    then show False using watch_slot [of s i] inv fresh(3) by (auto simp: ril_inv_def)
  qed
  let ?c = "zero_event\<lparr>fd := d, index := -1, persist := per, func := f, param := pm\<rparr>"
  have "s' = s\<lparr>events := (events s)(p \<mapsto> ?c)\<rparr>"
    using fresh(2,4) by (simp add: ril_event_set_def update_at_def deref_def)
  then show ?case using ril_inv_outside [OF inv p nw, of "Some ?c"] by auto
next
  case (reset s p d per f pm s')
  then obtain ts where inv: "ril_inv s ts []" by blast
  show ?case
    using ril_event_set_ok [OF inv idle_new [OF inv reset(2)], of d per f pm] idle_live [OF reset(2)] reset(3) by auto
next
  case (add s p e s')
  then obtain ts where inv: "ril_inv s ts []" by blast
  show ?case using ril_event_add_ok [OF inv add(2-6)] add(7) by auto
next
  case (timer s p tv now s')
  then obtain ts where inv: "ril_inv s ts []" by blast
  show ?case
  proof (cases tv)
    case None
    then show ?thesis using timer(3) inv by (auto simp: ril_timer_add_def)
  next
    case (Some t)
    then show ?thesis using ril_timer_add_ok [OF inv timer(2) refl, of t now] timer(3) by auto
  qed
next
  case (del s p e s')
  then obtain ts where inv: "ril_inv s ts []" by blast
  show ?case using ril_event_del_ok [OF inv _ _ _ del(3)] del(2,4) by auto
next
  case (free s p)
  then obtain ts where inv: "ril_inv s ts []" by blast
  show ?case using ril_inv_outside [OF inv idle_new [OF inv free(2)], of None] by auto
next
  case (round s now s1 rfds n s2 s3)
  then obtain ts where inv: "ril_inv s ts []" by blast
  show ?case using round_ok [OF assms(1) inv, of now rfds n] round(2-4) by auto
qed

section \<open>The wait before a timer\<close>

definition normal :: "timeval \<Rightarrow> bool" where
  "normal t \<longleftrightarrow> 0 \<le> tv_usec t \<and> tv_usec t < 1000000"

lemma timersub_add:
  assumes "normal a" "normal b" "b < a"
  shows "normal (timersub a b) \<and> Timeval 0 0 < timersub a b \<and> timeradd b (timersub a b) = a"
  using assms by (auto simp: timersub_def timeradd_def normal_def less_timeval_def Let_def intro: timeval.expand)

lemma timeradd_zero: "normal a \<Longrightarrow> timeradd a (Timeval 0 0) = a"
  by (simp add: timeradd_def normal_def)

lemma calcNextTimeout_eq:
  assumes "ril_inv s ts ps"
  shows "calcNextTimeout now s = Some (case ts of [] \<Rightarrow> (-1, None)
    | t # _ \<Rightarrow> (0, Some (if now < due (events s) t then timersub (due (events s) t) now else Timeval 0 0)))"
proof -
  have r: "rings (events s) ts ps" using assms by (simp add: ril_inv_def)
  obtain h where h: "events s timer_list = Some h" "next_ev h = firstp ts timer_list"
    using rings_heads [OF r] by auto
  show ?thesis
  proof (cases ts)
    case Nil
    then show ?thesis using h by (simp add: calcNextTimeout_def deref_def)
  next
    case (Cons t ts')
    then have "t \<noteq> timer_list" using r by (auto simp: rings_def)
    moreover obtain e where "t \<noteq> NULL" "events s t = Some e" using rings_live [OF r, of t] Cons by auto
    ultimately show ?thesis using h Cons by (simp add: calcNextTimeout_def deref_def Let_def)
  qed
qed

lemma ril_event_loop_ok:
  assumes cb: "callback_ok cb"
  shows "ril_inv s ts [] \<Longrightarrow> \<exists>fin as s' ts'. ril_event_loop cb rs s = Some (fin, as, s') \<and> ril_inv s' ts' [] \<and>
    (fin \<longleftrightarrow> (\<exists>r \<in> set rs. sel_n r < 0 \<and> \<not> sel_eintr r))"
proof (induction rs arbitrary: s ts)
  case Nil
  then show ?case by auto
next
  case (Cons r rs)
  obtain c where c: "calcNextTimeout (clock_before r) s = Some c"
    using calcNextTimeout_eq [OF Cons.prems, of "clock_before r"] by (rule that)
  obtain ret tv where "c = (ret, tv)" by (cases c)
  then have calc: "calcNextTimeout (clock_before r) s = Some (ret, tv)" using c by simp
  show ?case
  proof (cases "sel_n r < 0")
    case True
    show ?thesis
    proof (cases "sel_eintr r")
      case intr: True
      obtain fin as s' ts' where "ril_event_loop cb rs s = Some (fin, as, s')" "ril_inv s' ts' []"
        "fin \<longleftrightarrow> (\<exists>r \<in> set rs. sel_n r < 0 \<and> \<not> sel_eintr r)"
        using Cons.IH [OF Cons.prems] by blast
      then show ?thesis using calc True intr by (auto simp: Let_def)
    next
      case False
      have "ril_event_loop cb (r # rs) s =
          Some (True, [(nfds s, readFds s, if ret = -1 then None else tv)], s)"
        using calc True False by (simp add: Let_def)
      moreover have "\<exists>r' \<in> set (r # rs). sel_n r' < 0 \<and> \<not> sel_eintr r'" using True False by simp
      ultimately show ?thesis using Cons.prems by blast
    qed
  next
    case False
    obtain s1 s2 s3 ts' where s3: "processTimeouts (clock_after r) s = Some s1"
      "processReadReadies (sel_rfds r) (sel_n r) s1 = Some s2" "firePending cb s2 = Some s3" "ril_inv s3 ts' []"
      using round_ok [OF cb Cons.prems] by blast
    obtain fin as s' ts' where "ril_event_loop cb rs s3 = Some (fin, as, s')" "ril_inv s' ts' []"
      "fin \<longleftrightarrow> (\<exists>r \<in> set rs. sel_n r < 0 \<and> \<not> sel_eintr r)"
      using Cons.IH [OF s3(4)] by blast
    then show ?thesis using calc False s3(1-3) by (auto simp: Let_def)
  qed
qed

section \<open>Properties\<close>

text \<open>
  A client callback for the examples: it stops watching its own event, whose address it is
  given as its parameter, as the command callback does when its socket is closed.
\<close>

definition close_cb :: callback where
  "close_cb f d pm s =
     (if pm = NULL \<or> pm = timer_list \<or> pm = pending_list \<or> events s pm = None then Some s
      else ril_event_del pm s)"

lemma close_cb_ok: "callback_ok close_cb"
  unfolding callback_ok_def
proof (intro allI impI)
  fix f d pm s ts ps
  assume inv: "ril_inv s ts ps"
  show "\<exists>s' ts'. close_cb f d pm s = Some s' \<and> ril_inv s' ts' ps \<and> fired s' = fired s \<and>
      (\<forall>p \<in> set ps. call_of (events s') p = call_of (events s) p)"
  proof (cases "pm = NULL \<or> pm = timer_list \<or> pm = pending_list \<or> events s pm = None")
    case True
    then show ?thesis using inv by (auto simp: close_cb_def)
  next
    case False
    then obtain e where e: "events s pm = Some e" by auto
    obtain s' where "ril_event_del pm s = Some s'" "ril_inv s' ts ps" "fired s' = fired s"
      "same_events (events s) (events s')"
      using ril_event_del_ok [OF inv _ _ _ e] False by auto
    then show ?thesis using False by (auto simp: close_cb_def same_events_def)
  qed
qed

text \<open>A loop with a timer at address 20 due at 1 s, one at 30 due at 3 s and a watched socket, 10.\<close>

definition ex_event :: ril_event where
  "ex_event = zero_event\<lparr>fd := -1, index := -1, func := 7\<rparr>"

definition ex_ril :: ril_vars where
  "ex_ril = \<lparr>events =
     [timer_list \<mapsto> zero_event\<lparr>next_ev := 20, prev_ev := 30, fd := -1\<rparr>,
      pending_list \<mapsto> zero_event\<lparr>next_ev := pending_list, prev_ev := pending_list, fd := -1\<rparr>,
      10 \<mapsto> zero_event\<lparr>fd := 5, index := 0, func := 8, param := 10\<rparr>,
      20 \<mapsto> ex_event\<lparr>next_ev := 30, prev_ev := timer_list, timeout := Timeval 1 0\<rparr>,
      30 \<mapsto> ex_event\<lparr>next_ev := timer_list, prev_ev := 20, timeout := Timeval 3 0\<rparr>,
      40 \<mapsto> ex_event\<lparr>func := 9\<rparr>],
     watch_table = [10, NULL, NULL, NULL, NULL, NULL, NULL, NULL], readFds = {5}, nfds = 6, fired = []\<rparr>"

lemma all_slots: "(\<forall>i < MAX_FD_EVENTS. P i) = (\<forall>i \<in> set [0,1,2,3,4,5,6,7]. P i)"
  "(\<exists>i < MAX_FD_EVENTS. P i) = (\<exists>i \<in> set [0,1,2,3,4,5,6,7]. P i)"
proof -
  have "{i. i < MAX_FD_EVENTS} = set [0,1,2,3,4,5,6,7]" by (auto simp: MAX_FD_EVENTS_def)
  then show "(\<forall>i < MAX_FD_EVENTS. P i) = (\<forall>i \<in> set [0,1,2,3,4,5,6,7]. P i)"
    "(\<exists>i < MAX_FD_EVENTS. P i) = (\<exists>i \<in> set [0,1,2,3,4,5,6,7]. P i)" by blast+
qed

lemma ex_ril_inv: "ril_inv ex_ril [20, 30] []"
proof -
  have "watch_ok ex_ril"
    unfolding watch_ok_def all_slots
    by (simp add: ex_ril_def Let_def ex_event_def zero_event_def FD_SETSIZE_def MAX_FD_EVENTS_def
        timer_list_def pending_list_def)
  then show ?thesis
    by (simp add: ril_inv_def rings_def ring_def enx_def epr_def ex_ril_def watched_def timer_list_def
        pending_list_def ex_event_def zero_event_def less_eq_timeval_def)
qed

text \<open>
  C6: From \<open>ril_event_init\<close> on, whatever a client that follows the interface does between the
  rounds and whatever \<open>select\<close> answers, the loop never dereferences a bad pointer, never aborts
  in an \<open>FD_\<close> macro and never gets stuck in one of its walks: every finite run of rounds comes
  back, and it has left the loop exactly if \<open>select\<close> failed with something other than
  \<open>EINTR\<close>.
\<close>

theorem ril_event_loop_never_faults:
  assumes "callback_ok cb" "ril_reach cb s"
  shows "\<exists>fin as s'. ril_event_loop cb rs s = Some (fin, as, s') \<and>
    (fin \<longleftrightarrow> (\<exists>r \<in> set rs. sel_n r < 0 \<and> \<not> sel_eintr r))"
  using ril_reach_inv [OF assms] ril_event_loop_ok [OF assms(1)] by blast

definition ex_select :: "int \<Rightarrow> bool \<Rightarrow> select_result" where
  "ex_select n b = \<lparr>clock_before = Timeval 0 0, sel_n = n, sel_rfds = {5}, sel_eintr = b, clock_after = Timeval 2 0\<rparr>"

definition ex_started :: ril_vars where
  "ex_started = the (do {
     s \<leftarrow> ril_event_init ril_zero;
     s \<leftarrow> ril_event_set 10 5 False 8 10 (s\<lparr>events := (events s)(10 \<mapsto> zero_event)\<rparr>);
     ril_event_add 10 s })"

lemma ex_started_reach: "ril_reach close_cb ex_started"
proof -
  obtain s1 where s1: "ril_event_init ril_zero = Some s1" "events s1 10 = None" "readFds s1 = {}"
    by (simp add: ril_event_init_def init_list_def ril_zero_def update_at_def deref_def timer_list_def pending_list_def)
  obtain s2 where s2: "ril_event_set 10 5 False 8 10 (s1\<lparr>events := (events s1)(10 \<mapsto> zero_event)\<rparr>) = Some s2"
    "events s2 10 = Some (zero_event\<lparr>fd := 5, index := -1, persist := False, func := 8, param := 10\<rparr>)"
    "readFds s2 = {}"
    using s1(3) by (simp add: ril_event_set_def update_at_def deref_def)
  have r1: "ril_reach close_cb s1" by (rule ril_reach.init [OF s1(1)])
  have r2: "ril_reach close_cb s2"
    by (rule ril_reach.fresh [OF r1 _ s1(2) s2(1)]) (simp add: timer_list_def pending_list_def)
  have idle: "idle s2 10" using s2(2) by (simp add: idle_def zero_event_def timer_list_def pending_list_def)
  obtain ts where inv: "ril_inv s2 ts []" using ril_reach_inv [OF close_cb_ok r2] by blast
  obtain s3 where s3: "ril_event_add 10 s2 = Some s3"
    using ril_event_add_ok [OF inv idle s2(2)] s2(3) by (auto simp: FD_SETSIZE_def)
  have "ril_reach close_cb s3"
    by (rule ril_reach.add [OF r2 idle s2(2) _ _ _ s3]) (simp_all add: FD_SETSIZE_def s2(3))
  then show ?thesis using s1(1) s2(1) s3 by (simp add: ex_started_def)
qed

theorem ril_event_loop_never_faults_witness:
  "\<exists>fin as s'. ril_event_loop close_cb [ex_select 1 False, ex_select (-1) True, ex_select (-1) False] ex_started =
     Some (fin, as, s') \<and> fin"
  using ril_event_loop_never_faults [OF close_cb_ok ex_started_reach,
      of "[ex_select 1 False, ex_select (-1) True, ex_select (-1) False]"]
  by (simp add: ex_select_def del: ril_event_loop.simps)

text \<open>
  C12: One round calls back exactly the timers whose due time lies strictly before the time the round
  reads (in the order of their due times), then the first \<open>n\<close> watched events whose descriptor
  \<open>select\<close> reported (in table order), each once with its own descriptor and parameter, and leaves
  nothing pending. A timer that is due exactly at that time waits for the next round: the loop's test is
  \<open>now > timeout\<close>, although the comment above it says \<open>now >= ev->timeout\<close> and the log
  \<open>timers <= now\<close>.
\<close>

theorem ril_round_fires_exactly:
  assumes "callback_ok cb" "ril_inv s ts []" "0 \<le> sel_n r"
  shows "\<exists>as s' ts'. ril_event_loop cb [r] s = Some (False, as, s') \<and> ril_inv s' ts' [] \<and>
    fired s' = fired s @
      map (call_of (events s)) (filter (\<lambda>t. due (events s) t < clock_after r) ts) @
      map (call_of (events s)) (take (nat (sel_n r)) (readable s (sel_rfds r)))"
proof -
  obtain s1 s2 s3 ts' where s3: "processTimeouts (clock_after r) s = Some s1"
    "processReadReadies (sel_rfds r) (sel_n r) s1 = Some s2" "firePending cb s2 = Some s3" "ril_inv s3 ts' []"
    "fired s3 = fired s @ round_calls s ts (clock_after r) (sel_n r) (sel_rfds r)"
    using round_ok [OF assms(1,2)] by blast
  obtain c where c: "calcNextTimeout (clock_before r) s = Some c"
    using calcNextTimeout_eq [OF assms(2), of "clock_before r"] by (rule that)
  then show ?thesis
    using s3 assms(3) by (cases c) (auto simp: Let_def round_calls_def)
qed

theorem ril_round_fires_exactly_witness:
  "\<exists>as s' ts'. ril_event_loop close_cb [ex_select 1 False] ex_ril = Some (False, as, s') \<and>
    ril_inv s' ts' [] \<and> fired s' = [(7, -1, 0), (8, 5, 10)]"
proof -
  have "filter (\<lambda>t. due (events ex_ril) t < Timeval 2 0) [20, 30] = [20]"
    "readable ex_ril {5} = [10]" "call_of (events ex_ril) 20 = (7, -1, 0)" "call_of (events ex_ril) 10 = (8, 5, 10)"
    "fired ex_ril = []"
    by (simp_all add: ex_ril_def ex_event_def zero_event_def less_timeval_def readable_def call_of_def
        timer_list_def pending_list_def)
  then show ?thesis
    using ril_round_fires_exactly [OF close_cb_ok ex_ril_inv, of "ex_select 1 False"]
    by (simp add: ex_select_def del: ril_event_loop.simps filter.simps)
qed

text \<open>
  C16: \<open>ril_timer_add\<close> puts the event at now plus the given time, behind every timer that is
  due earlier and before every timer due at the same time or later, so the ring stays sorted;
  no other timer moves, and the watch table, the descriptors and the pending ring are untouched.
\<close>

theorem ril_timer_add_sorted:
  assumes "ril_inv s ts ps" "idle s p" "d = timeradd now tv"
  shows "\<exists>s'. ril_timer_add p (Some tv) now s = Some s' \<and>
    ril_inv s' (takeWhile (\<lambda>t. due (events s) t < d) ts @ p # dropWhile (\<lambda>t. due (events s) t < d) ts) ps \<and>
    due (events s') p = d \<and> (\<forall>t. t \<noteq> p \<longrightarrow> due (events s') t = due (events s) t) \<and>
    watch_table s' = watch_table s \<and> readFds s' = readFds s \<and> fired s' = fired s"
  using ril_timer_add_ok [OF assms] by auto

theorem ril_timer_add_sorted_witness:
  "\<exists>s'. ril_timer_add 40 (Some (Timeval 1 600000)) (Timeval 1 400000) ex_ril = Some s' \<and>
     ril_inv s' [20, 40, 30] [] \<and> due (events s') 40 = Timeval 3 0"
proof -
  have "idle ex_ril 40"
    by (simp add: idle_def ex_ril_def ex_event_def zero_event_def timer_list_def pending_list_def)
  moreover have d: "Timeval 3 0 = timeradd (Timeval 1 400000) (Timeval 1 600000)" by (simp add: timeradd_def)
  moreover have "takeWhile (\<lambda>t. due (events ex_ril) t < Timeval 3 0) [20, 30] = [20]"
    "dropWhile (\<lambda>t. due (events ex_ril) t < Timeval 3 0) [20, 30] = [30]"
    by (simp_all add: ex_ril_def ex_event_def zero_event_def less_timeval_def timer_list_def pending_list_def)
  ultimately show ?thesis
    using ril_timer_add_sorted [OF ex_ril_inv, of 40 "Timeval 3 0" "Timeval 1 400000" "Timeval 1 600000"]
    by (auto simp del: takeWhile.simps dropWhile.simps simp flip: d)
qed

text \<open>
  The time \<open>select\<close> may sleep ends exactly when the first timer is due: with no timer
  \<open>calcNextTimeout\<close> says so, otherwise it gives a normalised non-negative time that is zero
  if the timer is due already and reaches its due time when added to the clock if it is not.
\<close>

theorem calcNextTimeout_exact:
  assumes "ril_inv s ts ps" "normal now" "\<forall>t \<in> set ts. normal (due (events s) t)"
  shows "(ts = [] \<longrightarrow> calcNextTimeout now s = Some (-1, None)) \<and>
    (\<forall>t ts'. ts = t # ts' \<longrightarrow> (\<exists>w. calcNextTimeout now s = Some (0, Some w) \<and> normal w \<and>
       Timeval 0 0 \<le> w \<and> timeradd now w = max now (due (events s) t) \<and>
       (\<forall>u \<in> set ts. max now (due (events s) t) \<le> max now (due (events s) u))))"
proof (intro conjI impI allI)
  show "ts = [] \<Longrightarrow> calcNextTimeout now s = Some (-1, None)"
    using calcNextTimeout_eq [OF assms(1), of now] by simp
next
  fix t ts' assume ts: "ts = t # ts'"
  let ?d = "due (events s) t"
  have first: "\<forall>u \<in> set ts. max now ?d \<le> max now (due (events s) u)"
    using assms(1) ts by (auto simp: ril_inv_def max.coboundedI2)
  have calc: "calcNextTimeout now s = Some (0, Some (if now < ?d then timersub ?d now else Timeval 0 0))"
    using calcNextTimeout_eq [OF assms(1), of now] ts by simp
  have d: "normal ?d" using assms(3) ts by simp
  show "\<exists>w. calcNextTimeout now s = Some (0, Some w) \<and> normal w \<and> Timeval 0 0 \<le> w \<and>
      timeradd now w = max now ?d \<and> (\<forall>u \<in> set ts. max now ?d \<le> max now (due (events s) u))"
  proof (cases "now < ?d")
    case True
    then show ?thesis using calc first timersub_add [OF d assms(2) True]
      by (intro exI [of _ "timersub ?d now"]) (simp add: max_def less_imp_le)
  next
    case False
    then show ?thesis using calc first timeradd_zero [OF assms(2)]
      by (intro exI [of _ "Timeval 0 0"]) (auto simp: max_def normal_def)
  qed
qed

theorem calcNextTimeout_exact_witness:
  "\<exists>w. calcNextTimeout (Timeval 0 400000) ex_ril = Some (0, Some w) \<and> normal w \<and>
     timeradd (Timeval 0 400000) w = Timeval 1 0"
proof -
  have "due (events ex_ril) 20 = Timeval 1 0" "due (events ex_ril) 30 = Timeval 3 0"
    by (simp_all add: ex_ril_def ex_event_def zero_event_def timer_list_def pending_list_def)
  then show ?thesis
    using calcNextTimeout_exact [OF ex_ril_inv, of "Timeval 0 400000"]
    by (auto simp: normal_def max_def less_eq_timeval_def)
qed

text \<open>
  Two events may watch the same descriptor, but deleting one of them clears the descriptor
  for both: the other stays in the table and will never be reported again.
\<close>

theorem ril_event_del_drops_shared_fd:
  "case do {
      s \<leftarrow> ril_event_init ril_zero;
      s \<leftarrow> ril_event_set 10 5 True 8 10 (s\<lparr>events := (events s)(10 \<mapsto> zero_event)\<rparr>);
      s \<leftarrow> ril_event_set 20 5 True 9 20 (s\<lparr>events := (events s)(20 \<mapsto> zero_event)\<rparr>);
      s \<leftarrow> ril_event_add 10 s;
      s \<leftarrow> ril_event_add 20 s;
      ril_event_del 10 s } of
     None \<Rightarrow> False
   | Some s \<Rightarrow> watch_table s ! 1 = 20 \<and> readFds s = {} \<and> nfds s = 6"
  by (simp add: ril_event_init_def ril_event_set_def ril_event_add_def ril_event_del_def removeWatch_def
      init_list_def ril_zero_def update_at_def deref_def timer_list_def pending_list_def FD_SET_def FD_CLR_def
      FD_SETSIZE_def MAX_FD_EVENTS_def zero_event_def numeral_eq_Suc upt_conv_Cons)

text \<open>
  \<open>ril_event_add\<close> takes the first free slot and starts watching the descriptor; when all
  eight slots are taken it changes nothing at all, without telling its caller.
\<close>

theorem ril_event_add_first_free:
  assumes "ril_inv s ts ps" "idle s p" "events s p = Some e" "0 \<le> fd e" "fd e < FD_SETSIZE" "fd e \<notin> readFds s"
  shows "\<exists>s'. ril_event_add p s = Some s' \<and> ril_inv s' ts ps \<and>
    (\<forall>i. free_slot s i \<longrightarrow> watch_table s' = (watch_table s)[i := p] \<and> readFds s' = insert (fd e) (readFds s)) \<and>
    (NULL \<notin> set (watch_table s) \<longrightarrow> s' = s)"
  using ril_event_add_ok [OF assms] by blast

theorem ril_event_add_first_free_witness:
  "\<exists>s'. ril_event_add 50 (ex_ril\<lparr>events := (events ex_ril)(50 \<mapsto> ex_event\<lparr>fd := 9\<rparr>)\<rparr>) = Some s' \<and>
     watch_table s' = [10, 50, NULL, NULL, NULL, NULL, NULL, NULL] \<and> readFds s' = {9, 5}"
proof -
  let ?s = "ex_ril\<lparr>events := (events ex_ril)(50 \<mapsto> ex_event\<lparr>fd := 9\<rparr>)\<rparr>"
  have "ril_inv ?s [20, 30] []"
    by (rule ril_inv_outside [OF ex_ril_inv])
      (auto simp: watched_def ex_ril_def ex_event_def timer_list_def pending_list_def)
  moreover have "idle ?s 50" by (simp add: idle_def ex_event_def zero_event_def timer_list_def pending_list_def)
  moreover have "free_slot ?s 1" by (simp add: free_slot_def ex_ril_def MAX_FD_EVENTS_def)
  ultimately show ?thesis
    using ril_event_add_first_free [of ?s "[20, 30]" "[]" 50 "ex_event\<lparr>fd := 9\<rparr>"]
    by (auto simp: FD_SETSIZE_def ex_ril_def)
qed

end
