(* ===== verification/RilSap.thy ===== *)
theory RilSap
  imports Prelude
begin

text \<open>
  The SIM access profile path of the radio daemon: the request queue template of
  \<open>ril/libril/rilSocketQueue.h\<close> (an intrusive, singly linked list whose insertions and
  removals both happen at the front) and its user \<open>ril/libril/RilSapSocket.cpp\<close>, which keeps
  a request in the queue from its dispatch to the vendor library until its completion.
  Requests and message headers live in explicit stores, because completion frees both and the
  vendor library holds a pointer to the request as its token in between. Every queue operation
  holds the queue's mutex and is a single step.
\<close>

section \<open>Data\<close>

type_synonym bytes = "8 word list"

datatype MsgType = MsgType_UNKNOWN | MsgType_REQUEST | MsgType_RESPONSE | MsgType_UNSOL_RESPONSE

text \<open>The payload is \<open>None\<close> for a NULL pointer.\<close>

record MsgHeader =
  mh_token :: int
  mh_type :: MsgType
  mh_id :: int
  mh_error :: int
  mh_payload :: "bytes option"

record SapSocketRequest =
  rq_token :: int
  curr :: ptr
  p_next :: ptr
  rq_socketId :: nat

text \<open>
  A socket with its name, its identifier, whether it was given vendor functions, and the front of
  its \<open>pendingResponseQueue\<close>.
\<close>

record RilSapSocket =
  sock_name :: string
  sock_id :: nat
  uimFuncs :: bool
  front :: ptr

text \<open>Calls out of this file: the vendor's \<open>onRequest\<close>, and the two senders of \<open>sap_service\<close>.\<close>

datatype sap_call =
    OnRequest int bytes ptr nat
  | ProcessResponse int MsgType int int bytes nat
  | ProcessUnsol MsgType int int bytes nat

record sap_world =
  requests :: "SapSocketRequest store"
  headers :: "MsgHeader store"
  sockets :: "RilSapSocket list"
  calls_out :: "sap_call list"

section \<open>The queue\<close>

definition queue_empty :: "ptr \<Rightarrow> int" where
  "queue_empty fr = (if fr = NULL then 1 else 0)"

text \<open>The result is the new front and the store.\<close>

definition enqueue ::
  "ptr \<Rightarrow> ptr \<Rightarrow> SapSocketRequest store \<Rightarrow> (ptr \<times> SapSocketRequest store) option" where
  "enqueue request fr rs =
     (if fr = NULL then do {
        rs \<leftarrow> update_at rs request (\<lambda>r. r\<lparr>p_next := NULL\<rparr>);
        Some (request, rs)
      }
      else do {
        rs \<leftarrow> update_at rs request (\<lambda>r. r\<lparr>p_next := fr\<rparr>);
        Some (request, rs)
      })"

text \<open>\<open>Some (None, _)\<close>: the caller waits on the condition variable.\<close>

definition dequeue ::
  "ptr \<Rightarrow> SapSocketRequest store \<Rightarrow> (ptr option \<times> ptr) option" where
  "dequeue fr rs =
     (if queue_empty fr = 1 then Some (None, fr)
      else do {
        r \<leftarrow> deref rs fr;
        Some (Some fr, if p_next r \<noteq> NULL then p_next r else NULL)
      })"

text \<open>
  The loop of \<open>checkAndDequeue\<close>. \<open>ppCur\<close> is the address of \<open>front\<close> (\<open>None\<close>) or of the
  \<open>p_next\<close> field of a request (\<open>Some\<close> its address), \<open>cur\<close> its content.
\<close>

partial_function (option) check_loop ::
  "int \<Rightarrow> int \<Rightarrow> MsgHeader store \<Rightarrow> ptr option \<Rightarrow> ptr \<Rightarrow> ptr \<Rightarrow> SapSocketRequest store \<Rightarrow>
     (int \<times> ptr \<times> SapSocketRequest store) option" where
  "check_loop mid tok hs ppCur cur fr rs =
     (if cur \<noteq> NULL then do {
        r \<leftarrow> deref rs cur;
        hit \<leftarrow> (if tok = rq_token r then do { h \<leftarrow> deref hs (curr r); Some (mid = mh_id h) } else Some False);
        if hit then do {
          (fr, rs) \<leftarrow> (case ppCur of
              None \<Rightarrow> Some (p_next r, rs)
            | Some q \<Rightarrow> do { rs \<leftarrow> update_at rs q (\<lambda>x. x\<lparr>p_next := p_next r\<rparr>); Some (fr, rs) });
          rs \<leftarrow> release rs cur;
          Some (1, fr, rs)
        }
        else check_loop mid tok hs (Some cur) (p_next r) fr rs
      }
      else Some (0, fr, rs))"

definition checkAndDequeue ::
  "int \<Rightarrow> int \<Rightarrow> MsgHeader store \<Rightarrow> ptr \<Rightarrow> SapSocketRequest store \<Rightarrow>
     (int \<times> ptr \<times> SapSocketRequest store) option" where
  "checkAndDequeue mid tok hs fr rs = check_loop mid tok hs None fr fr rs"

section \<open>Sockets\<close>

text \<open>The socket list is only ever appended to; a socket is addressed by its position.\<close>

fun SocketExists :: "string \<Rightarrow> RilSapSocket list \<Rightarrow> bool" where
  "SocketExists nm [] = False"
| "SocketExists nm (c # cs) = (if sock_name c = nm then True else SocketExists nm cs)"

fun getSocketById :: "nat \<Rightarrow> RilSapSocket list \<Rightarrow> nat option" where
  "getSocketById i [] = None"
| "getSocketById i (c # cs) =
     (if i = sock_id c then Some 0
      else (case getSocketById i cs of None \<Rightarrow> None | Some k \<Rightarrow> Some (Suc k)))"

text \<open>\<open>mem\<close>: the allocation of the list cell succeeds.\<close>

definition addSocketToList :: "string \<Rightarrow> nat \<Rightarrow> bool \<Rightarrow> bool \<Rightarrow> sap_world \<Rightarrow> sap_world" where
  "addSocketToList nm i fns mem w =
     (if \<not> SocketExists nm (sockets w) then
        (if \<not> mem then w
         else w\<lparr>sockets := sockets w @ [\<lparr>sock_name = nm, sock_id = i, uimFuncs = fns, front = NULL\<rparr>]\<rparr>)
      else w)"

text \<open>The names of the four services and the socket each of them stands for.\<close>

definition service_sockets :: "(string \<times> nat) list" where
  "service_sockets = [(''slot1'', 0), (''slot2'', 1), (''slot3'', 2), (''slot4'', 3)]"

definition initSapSocket :: "nat \<Rightarrow> string \<Rightarrow> bool \<Rightarrow> bool \<Rightarrow> sap_world \<Rightarrow> sap_world" where
  "initSapSocket sim_count nm fns mem w =
     fold (\<lambda>(sv, i) w.
       if nm = sv then (if \<not> SocketExists nm (sockets w) then addSocketToList nm i fns mem w else w) else w)
       (take (max 1 sim_count) service_sockets) w"

text \<open>\<open>m\<close> is the address the request is allocated at, NULL when \<open>malloc\<close> fails.\<close>

definition dispatchRequest :: "nat \<Rightarrow> ptr \<Rightarrow> ptr \<Rightarrow> sap_world \<Rightarrow> sap_world option" where
  "dispatchRequest k req m w =
     (if m = NULL then do {
        hs \<leftarrow> release (headers w) req;
        Some (w\<lparr>headers := hs\<rparr>)
      }
      else do {
        h \<leftarrow> deref (headers w) req;
        let sk = sockets w ! k;
        let rs = (requests w)(m \<mapsto> \<lparr>rq_token = mh_token h, curr = req, p_next = NULL, rq_socketId = sock_id sk\<rparr>);
        (fr, rs) \<leftarrow> enqueue m (front sk) rs;
        let w = w\<lparr>requests := rs, sockets := (sockets w)[k := sk\<lparr>front := fr\<rparr>]\<rparr>;
        if uimFuncs sk then do {
          b \<leftarrow> mh_payload h;
          Some (w\<lparr>calls_out := calls_out w @ [OnRequest (mh_id h) b m (sock_id sk)]\<rparr>)
        }
        else Some w
      })"

text \<open>
  \<open>response\<close> is \<open>None\<close> for a NULL pointer; \<open>mem\<close>: the response buffer could be allocated.
\<close>

definition onRequestComplete ::
  "nat \<Rightarrow> ptr \<Rightarrow> int \<Rightarrow> bytes option \<Rightarrow> bool \<Rightarrow> sap_world \<Rightarrow> sap_world option" where
  "onRequestComplete k t e response mem w =
     (if t = NULL then Some w
      else do {
        request \<leftarrow> deref (requests w) t;
        if curr request = NULL then Some w
        else do {
          let hdr = curr request;
          h \<leftarrow> deref (headers w) hdr;
          let w = (if mem then
              w\<lparr>calls_out := calls_out w @
                [ProcessResponse (mh_token h) MsgType_RESPONSE (mh_id h) e
                   (case response of None \<Rightarrow> [] | Some b \<Rightarrow> b) k]\<rparr>
            else w);
          (_, fr, rs) \<leftarrow> checkAndDequeue (mh_id h) (mh_token h) (headers w) (front (sockets w ! k)) (requests w);
          hs \<leftarrow> release (headers w) hdr;
          Some (w\<lparr>requests := rs, headers := hs,
                  sockets := (sockets w)[k := (sockets w ! k)\<lparr>front := fr\<rparr>]\<rparr>)
        }
      })"

definition sOnRequestComplete ::
  "ptr \<Rightarrow> int \<Rightarrow> bytes option \<Rightarrow> bool \<Rightarrow> sap_world \<Rightarrow> sap_world option" where
  "sOnRequestComplete t e response mem w = do {
     request \<leftarrow> deref (requests w) t;
     case getSocketById (rq_socketId request) (sockets w) of
       Some k \<Rightarrow> onRequestComplete k t e response mem w
     | None \<Rightarrow> do {
         hs \<leftarrow> (if curr request \<noteq> NULL then release (headers w) (curr request) else Some (headers w));
         rs \<leftarrow> release (requests w) t;
         Some (w\<lparr>headers := hs, requests := rs\<rparr>)
       }
   }"

definition onUnsolicitedResponse :: "nat \<Rightarrow> int \<Rightarrow> bytes option \<Rightarrow> bool \<Rightarrow> sap_world \<Rightarrow> sap_world" where
  "onUnsolicitedResponse k uid data mem w =
     (case data of
        None \<Rightarrow> w
      | Some b \<Rightarrow>
          if length b > 0 then
            (if \<not> mem then w
             else w\<lparr>calls_out := calls_out w @ [ProcessUnsol MsgType_UNSOL_RESPONSE uid 0 b k]\<rparr>)
          else w)"

definition sOnUnsolicitedResponse :: "int \<Rightarrow> bytes option \<Rightarrow> nat \<Rightarrow> bool \<Rightarrow> sap_world \<Rightarrow> sap_world" where
  "sOnUnsolicitedResponse uid data i mem w =
     (case getSocketById i (sockets w) of
        Some k \<Rightarrow> onUnsolicitedResponse k uid data mem w
      | None \<Rightarrow> w)"

section \<open>The queue as a list\<close>

text \<open>From \<open>p\<close> the \<open>p_next\<close> pointers lead through exactly the requests \<open>xs\<close>.\<close>

fun queue :: "SapSocketRequest store \<Rightarrow> ptr \<Rightarrow> ptr list \<Rightarrow> bool" where
  "queue rs p [] \<longleftrightarrow> p = NULL"
| "queue rs p (x # xs) \<longleftrightarrow> p = x \<and> x \<noteq> NULL \<and>
     (case rs x of None \<Rightarrow> False | Some r \<Rightarrow> queue rs (p_next r) xs)"

lemma queue_cong: "(\<And>x. x \<in> set xs \<Longrightarrow> rs' x = rs x) \<Longrightarrow> queue rs' p xs = queue rs p xs"
  by (induction xs arbitrary: p) (auto split: option.splits)

lemma queue_upd [simp]: "a \<notin> set xs \<Longrightarrow> queue (rs(a := c)) p xs = queue rs p xs"
  by (rule queue_cong) auto

lemma queue_live: "queue rs p xs \<Longrightarrow> x \<in> set xs \<Longrightarrow> x \<noteq> NULL \<and> rs x \<noteq> None"
  by (induction xs arbitrary: p) (auto split: option.splits)

lemma queue_first: "queue rs p xs \<Longrightarrow> p = firstp xs NULL"
  by (cases xs) auto

lemma enqueue_ok:
  assumes "queue rs fr xs" "m \<notin> set xs" "m \<noteq> NULL" "rs m = Some r"
  shows "enqueue m fr rs = Some (m, rs(m \<mapsto> r\<lparr>p_next := fr\<rparr>)) \<and> queue (rs(m \<mapsto> r\<lparr>p_next := fr\<rparr>)) m (m # xs)"
  using assms by (auto simp: enqueue_def update_at_def deref_def)

lemma dequeue_ok:
  assumes "queue rs fr xs"
  shows "dequeue fr rs = Some (case xs of [] \<Rightarrow> (None, NULL) | x # xs' \<Rightarrow> (Some x, firstp xs' NULL))"
proof (cases xs)
  case Nil
  then show ?thesis using assms by (simp add: dequeue_def queue_empty_def)
next
  case (Cons x xs')
  then obtain r where r: "rs x = Some r" "fr = x" "x \<noteq> NULL" "queue rs (p_next r) xs'"
    using assms by (auto split: option.splits)
  then have "p_next r = firstp xs' NULL" using queue_first by blast
  then show ?thesis using r Cons by (simp add: dequeue_def queue_empty_def deref_def)
qed

text \<open>Which request a search finds: token and message identifier, the latter in its header.\<close>

definition is_hit :: "SapSocketRequest store \<Rightarrow> MsgHeader store \<Rightarrow> int \<Rightarrow> int \<Rightarrow> ptr \<Rightarrow> bool" where
  "is_hit rs hs mid tok x \<longleftrightarrow> rq_token (the (rs x)) = tok \<and> mh_id (the (hs (curr (the (rs x))))) = mid"

text \<open>Every queued request has a live header that carries its token, and no two share it.\<close>

definition queue_ok :: "SapSocketRequest store \<Rightarrow> MsgHeader store \<Rightarrow> ptr \<Rightarrow> ptr list \<Rightarrow> bool" where
  "queue_ok rs hs fr xs \<longleftrightarrow> queue rs fr xs \<and> distinct xs \<and> distinct (map (\<lambda>x. curr (the (rs x))) xs) \<and>
     (\<forall>x \<in> set xs. curr (the (rs x)) \<noteq> NULL \<and> hs (curr (the (rs x))) \<noteq> None \<and>
        mh_token (the (hs (curr (the (rs x))))) = rq_token (the (rs x)))"

lemma check_loop_skip:
  assumes "queue rs p (ys @ x # zs)" "\<forall>y \<in> set (ys @ [x]). hs (curr (the (rs y))) \<noteq> None \<and> curr (the (rs y)) \<noteq> NULL"
    "\<forall>y \<in> set ys. \<not> is_hit rs hs mid tok y"
  shows "check_loop mid tok hs pc p fr rs =
    check_loop mid tok hs (if ys = [] then pc else Some (last ys)) x fr rs"
  using assms
proof (induction ys arbitrary: p pc)
  case Nil
  then show ?case by simp
next
  case (Cons y ys)
  obtain r where r: "rs y = Some r" "p = y" "y \<noteq> NULL" "queue rs (p_next r) (ys @ x # zs)"
    using Cons.prems(1) by (auto split: option.splits)
  obtain h where h: "hs (curr r) = Some h" "curr r \<noteq> NULL" using Cons.prems(2) r(1) by fastforce
  have no: "\<not> (tok = rq_token r \<and> mid = mh_id h)" using Cons.prems(3) r(1) h(1) by (auto simp: is_hit_def)
  have "check_loop mid tok hs pc p fr rs = check_loop mid tok hs (Some y) (p_next r) fr rs"
    using r h no by (simp add: check_loop.simps [of _ _ _ _ y] deref_def)
  also have "\<dots> = check_loop mid tok hs (if ys = [] then Some y else Some (last ys)) x fr rs"
    by (rule Cons.IH) (use r(4) Cons.prems(2,3) in auto)
  finally show ?case by simp
qed

lemma queue_split:
  "queue rs p (ys @ zs) \<Longrightarrow> queue rs (if ys = [] then p else p_next (the (rs (last ys)))) zs"
  by (induction ys arbitrary: p) (auto split: option.splits if_splits)

lemma queue_unlink:
  assumes "queue rs p (ys @ x # zs)" "distinct (ys @ x # zs)" "rs x = Some r"
  shows "queue (case ys of [] \<Rightarrow> rs | _ # _ \<Rightarrow> rs(last ys \<mapsto> (the (rs (last ys)))\<lparr>p_next := p_next r\<rparr>))
    (if ys = [] then p_next r else p) (ys @ zs)"
  using assms
proof (induction ys arbitrary: p)
  case Nil
  then show ?case by simp
next
  case (Cons y ys)
  note IH = Cons.IH
  obtain c where c: "rs y = Some c" "p = y" "y \<noteq> NULL" "queue rs (p_next c) (ys @ x # zs)"
    using Cons.prems(1) by (auto split: option.splits)
  show ?case
  proof (cases ys)
    case Nil
    have "queue rs (p_next r) zs" using c(4) Nil Cons.prems(3) by simp
    then have "queue (rs(y \<mapsto> c\<lparr>p_next := p_next r\<rparr>)) (p_next r) zs"
      using Cons.prems(2) by (simp del: fun_upd_apply)
    then show ?thesis using Nil c by (simp add: fun_upd_same del: fun_upd_apply)
  next
    case (Cons z ws)
    let ?rs = "rs(last ys \<mapsto> (the (rs (last ys)))\<lparr>p_next := p_next r\<rparr>)"
    have d: "distinct (ys @ x # zs)" using Cons.prems(2) by simp
    have q1: "queue ?rs (p_next c) (ys @ zs)"
      using IH [OF c(4) d Cons.prems(3)] Cons by (simp del: queue.simps fun_upd_apply last.simps)
    have ne: "ys \<noteq> []" "last ys \<noteq> y" using Cons.prems(2) Cons last_in_set [of ys] by auto
    have "queue ?rs y (y # ys @ zs)" using q1 ne(2) c(1,3) by simp
    moreover have "last (y # ys) = last ys" using ne by simp
    ultimately show ?thesis using c(2) by (simp only: list.case list.distinct(2) if_False append_Cons)
  qed
qed

text \<open>The first request that matches is unlinked and freed; the rest of the store only changes its links.\<close>

lemma checkAndDequeue_ok:
  assumes ok: "queue_ok rs hs fr (ys @ x # zs)" and miss: "\<forall>y \<in> set ys. \<not> is_hit rs hs mid tok y"
    and hit: "is_hit rs hs mid tok x"
  shows "\<exists>fr' rs'. checkAndDequeue mid tok hs fr rs = Some (1, fr', rs') \<and> queue rs' fr' (ys @ zs) \<and> rs' x = None \<and>
    (\<forall>y. y \<noteq> x \<longrightarrow> (rs' y = None) = (rs y = None) \<and> curr (the (rs' y)) = curr (the (rs y)) \<and>
       rq_token (the (rs' y)) = rq_token (the (rs y)) \<and> rq_socketId (the (rs' y)) = rq_socketId (the (rs y))) \<and>
    (\<forall>y. y \<notin> set (ys @ x # zs) \<longrightarrow> rs' y = rs y)"
proof -
  have q: "queue rs fr (ys @ x # zs)" "distinct (ys @ x # zs)"
    and live: "\<forall>y \<in> set (ys @ [x]). hs (curr (the (rs y))) \<noteq> None \<and> curr (the (rs y)) \<noteq> NULL"
    using ok by (auto simp: queue_ok_def split: option.splits)
  obtain r where r: "rs x = Some r" "x \<noteq> NULL" using queue_live [OF q(1), of x] by auto
  obtain h where h: "hs (curr r) = Some h" "curr r \<noteq> NULL" using live r(1) by auto
  have key: "tok = rq_token r" "mid = mh_id h" using hit r h by (auto simp: is_hit_def)
  have skip: "checkAndDequeue mid tok hs fr rs = check_loop mid tok hs (if ys = [] then None else Some (last ys)) x fr rs"
    unfolding checkAndDequeue_def by (rule check_loop_skip [OF q(1) live miss])
  have un: "queue (case ys of [] \<Rightarrow> rs | _ # _ \<Rightarrow> rs(last ys \<mapsto> (the (rs (last ys)))\<lparr>p_next := p_next r\<rparr>))
      (if ys = [] then p_next r else fr) (ys @ zs)"
    by (rule queue_unlink [OF q r(1)])
  have x: "x \<notin> set (ys @ zs)" using q(2) by simp
  show ?thesis
  proof (cases ys)
    case Nil
    have "checkAndDequeue mid tok hs fr rs = Some (1, p_next r, rs(x := None))"
      using skip Nil r h key by (simp add: check_loop.simps [of _ _ _ _ x] deref_def release_def)
    then show ?thesis using Nil un x by simp
  next
    case (Cons y ws)
    let ?l = "last ys"
    have l: "?l \<in> set ys" "ys \<noteq> []" using Cons by auto
    obtain c where c: "rs ?l = Some c" "?l \<noteq> NULL" using queue_live [OF q(1), of ?l] l by auto
    have lx: "?l \<noteq> x" using l x by auto
    let ?rs = "(rs(?l \<mapsto> c\<lparr>p_next := p_next r\<rparr>))(x := None)"
    have "checkAndDequeue mid tok hs fr rs = Some (1, fr, ?rs)"
      using skip l(2) r h key c lx
      by (simp add: check_loop.simps [of _ _ _ _ x] deref_def release_def update_at_def)
    moreover have "queue (rs(?l \<mapsto> c\<lparr>p_next := p_next r\<rparr>)) fr (ys @ zs)"
      using un Cons c by (simp del: queue.simps fun_upd_apply last.simps)
    then have "queue ?rs fr (ys @ zs)" by (simp only: queue_upd [OF x])
    ultimately show ?thesis using c lx l by auto
  qed
qed

lemma getSocketById_Some: "getSocketById i cs = Some k \<Longrightarrow> k < length cs \<and> sock_id (cs ! k) = i"
  by (induction cs arbitrary: k) (auto split: if_splits option.splits)

section \<open>Dispatch and completion\<close>

text \<open>Socket \<open>k\<close> of the world holds the pending requests \<open>xs\<close>, most recent first.\<close>

definition sap_ok :: "sap_world \<Rightarrow> nat \<Rightarrow> ptr list \<Rightarrow> bool" where
  "sap_ok w k xs \<longleftrightarrow> k < length (sockets w) \<and> getSocketById (sock_id (sockets w ! k)) (sockets w) = Some k \<and>
     queue_ok (requests w) (headers w) (front (sockets w ! k)) xs \<and>
     (\<forall>x \<in> set xs. rq_socketId (the (requests w x)) = sock_id (sockets w ! k))"

lemma sap_okD:
  assumes "sap_ok w k xs" "x \<in> set xs"
  obtains r h where "requests w x = Some r" "x \<noteq> NULL" "curr r \<noteq> NULL" "headers w (curr r) = Some h"
    "mh_token h = rq_token r" "rq_socketId r = sock_id (sockets w ! k)"
proof -
  have q: "queue_ok (requests w) (headers w) (front (sockets w ! k)) xs" using assms(1) by (simp add: sap_ok_def)
  then obtain r where r: "requests w x = Some r" "x \<noteq> NULL"
    using queue_live [of "requests w" _ xs x] assms(2) by (auto simp: queue_ok_def)
  have "curr r \<noteq> NULL \<and> headers w (curr r) \<noteq> None \<and> mh_token (the (headers w (curr r))) = rq_token r"
    using q assms(2) r unfolding queue_ok_def by (metis option.sel)
  then show ?thesis using that r assms by (auto simp: sap_ok_def split: option.splits)
qed

lemma getSocketById_front:
  "k < length cs \<Longrightarrow> getSocketById i (cs[k := (cs ! k)\<lparr>front := f\<rparr>]) = getSocketById i cs"
  by (induction cs arbitrary: k) (auto simp: nth_Cons split: nat.splits)

text \<open>
  Completion of \<open>x\<close> in general: the response is \<open>x\<close>'s, its header is freed, but the request
  that is unlinked and freed is the first one \<open>y\<close> with \<open>x\<close>'s token and message identifier.
\<close>

lemma onRequestComplete_ok:
  assumes ok: "sap_ok w k (ys @ y # zs)" and x: "x \<in> set (ys @ y # zs)"
    and r: "requests w x = Some r" and h: "headers w (curr r) = Some h"
    and miss: "\<forall>z \<in> set ys. \<not> is_hit (requests w) (headers w) (mh_id h) (mh_token h) z"
    and hit: "is_hit (requests w) (headers w) (mh_id h) (mh_token h) y"
  shows "\<exists>w'. sOnRequestComplete x e resp mem w = Some w' \<and>
    calls_out w' = calls_out w @ (if mem then [ProcessResponse (mh_token h) MsgType_RESPONSE (mh_id h) e
      (case resp of None \<Rightarrow> [] | Some b \<Rightarrow> b) k] else []) \<and>
    headers w' = (headers w)(curr r := None) \<and> requests w' y = None \<and>
    queue (requests w') (front (sockets w' ! k)) (ys @ zs) \<and>
    (\<forall>z. z \<noteq> y \<longrightarrow> (requests w' z = None) = (requests w z = None) \<and> curr (the (requests w' z)) = curr (the (requests w z)) \<and>
       rq_token (the (requests w' z)) = rq_token (the (requests w z)) \<and>
       rq_socketId (the (requests w' z)) = rq_socketId (the (requests w z))) \<and>
    (\<exists>f. sockets w' = (sockets w)[k := (sockets w ! k)\<lparr>front := f\<rparr>])"
proof -
  have k: "k < length (sockets w)" "getSocketById (sock_id (sockets w ! k)) (sockets w) = Some k"
    and q: "queue_ok (requests w) (headers w) (front (sockets w ! k)) (ys @ y # zs)"
    using ok by (auto simp: sap_ok_def)
  have r': "x \<noteq> NULL" "curr r \<noteq> NULL" "rq_socketId r = sock_id (sockets w ! k)"
    using sap_okD [OF ok x] r by auto
  obtain fr' rs' where c: "checkAndDequeue (mh_id h) (mh_token h) (headers w) (front (sockets w ! k)) (requests w) =
      Some (1, fr', rs')" "queue rs' fr' (ys @ zs)" "rs' y = None"
    "\<forall>z. z \<noteq> y \<longrightarrow> (rs' z = None) = (requests w z = None) \<and> curr (the (rs' z)) = curr (the (requests w z)) \<and>
       rq_token (the (rs' z)) = rq_token (the (requests w z)) \<and> rq_socketId (the (rs' z)) = rq_socketId (the (requests w z))"
    using checkAndDequeue_ok [OF q miss hit] by blast
  let ?w = "w\<lparr>calls_out := calls_out w @ (if mem then [ProcessResponse (mh_token h) MsgType_RESPONSE (mh_id h) e
      (case resp of None \<Rightarrow> [] | Some b \<Rightarrow> b) k] else []), requests := rs', headers := (headers w)(curr r := None),
      sockets := (sockets w)[k := (sockets w ! k)\<lparr>front := fr'\<rparr>]\<rparr>"
  have "sOnRequestComplete x e resp mem w = Some ?w"
    using r r' h k c(1)
    by (cases mem) (simp_all add: sOnRequestComplete_def onRequestComplete_def deref_def release_def Let_def)
  then show ?thesis using c k(1) by (intro exI [of _ ?w]) auto
qed

lemma sap_ok_shrink:
  assumes ok: "sap_ok w k (ys @ x # zs)" and r: "requests w x = Some r"
    and hs: "headers w' = (headers w)(curr r := None)"
    and q: "queue (requests w') (front (sockets w' ! k)) (ys @ zs)"
    and same: "\<forall>z. z \<noteq> x \<longrightarrow> curr (the (requests w' z)) = curr (the (requests w z)) \<and>
       rq_token (the (requests w' z)) = rq_token (the (requests w z)) \<and>
       rq_socketId (the (requests w' z)) = rq_socketId (the (requests w z))"
    and s: "sockets w' = (sockets w)[k := (sockets w ! k)\<lparr>front := f\<rparr>]"
  shows "sap_ok w' k (ys @ zs)"
proof -
  have k: "k < length (sockets w)" "getSocketById (sock_id (sockets w ! k)) (sockets w) = Some k"
    and d: "distinct (ys @ x # zs)" "distinct (map (\<lambda>x. curr (the (requests w x))) (ys @ x # zs))"
    using ok by (auto simp: sap_ok_def queue_ok_def)
  have ne: "z \<noteq> x" "curr (the (requests w z)) \<noteq> curr r" if "z \<in> set (ys @ zs)" for z
    using that d r by (auto simp: image_iff)
  have mp: "map (\<lambda>x. curr (the (requests w' x))) (ys @ zs) = map (\<lambda>x. curr (the (requests w x))) (ys @ zs)"
    by (rule map_cong) (use ne(1) same in auto)
  have "distinct (map (\<lambda>x. curr (the (requests w' x))) (ys @ zs))"
    unfolding mp using d(2) by auto
  moreover have "curr (the (requests w' z)) \<noteq> NULL \<and> headers w' (curr (the (requests w' z))) \<noteq> None \<and>
      mh_token (the (headers w' (curr (the (requests w' z))))) = rq_token (the (requests w' z)) \<and>
      rq_socketId (the (requests w' z)) = sock_id (sockets w ! k)" if z: "z \<in> set (ys @ zs)" for z
    using ne [OF z] same ok z hs by (auto simp: sap_ok_def queue_ok_def)
  ultimately show ?thesis
    using q d(1) k s getSocketById_front [OF k(1)] by (simp add: sap_ok_def queue_ok_def)
qed

section \<open>Properties\<close>

text \<open>A world with one socket and two pending requests: 20 (token 2) before 10 (token 1).\<close>

definition ex_header :: "int \<Rightarrow> MsgHeader" where
  "ex_header tok = \<lparr>mh_token = tok, mh_type = MsgType_REQUEST, mh_id = 3, mh_error = 0, mh_payload = Some [7]\<rparr>"

definition ex_sap :: "int \<Rightarrow> int \<Rightarrow> sap_world" where
  "ex_sap t1 t2 = \<lparr>requests =
       [10 \<mapsto> \<lparr>rq_token = t1, curr = 11, p_next = NULL, rq_socketId = 0\<rparr>,
        20 \<mapsto> \<lparr>rq_token = t2, curr = 21, p_next = 10, rq_socketId = 0\<rparr>],
     headers = [11 \<mapsto> ex_header t1, 21 \<mapsto> ex_header t2, 31 \<mapsto> ex_header 9],
     sockets = [\<lparr>sock_name = ''slot1'', sock_id = 0, uimFuncs = True, front = 20\<rparr>], calls_out = []\<rparr>"

lemma ex_sap_ok: "sap_ok (ex_sap t1 t2) 0 [20, 10]"
  by (simp add: sap_ok_def queue_ok_def ex_sap_def ex_header_def)

text \<open>
  C15: A request dispatched to the vendor library and completed by it comes back to the client
  unchanged: the library is called with the message's identifier, its bytes and the request as
  token; completing that token sends one response with the message's own token and identifier,
  and afterwards the queue and the store are as before the dispatch, with the message freed.
\<close>

theorem sap_dispatch_complete_roundtrip:
  assumes "sap_ok w k xs" "uimFuncs (sockets w ! k)" "headers w req = Some h" "req \<noteq> NULL" "mh_payload h = Some b"
    "\<forall>x \<in> set xs. curr (the (requests w x)) \<noteq> req" "m \<noteq> NULL" "requests w m = None"
  shows "\<exists>w1 w2. dispatchRequest k req m w = Some w1 \<and> sap_ok w1 k (m # xs) \<and>
    calls_out w1 = calls_out w @ [OnRequest (mh_id h) b m (sock_id (sockets w ! k))] \<and>
    sOnRequestComplete m e (Some resp) True w1 = Some w2 \<and>
    calls_out w2 = calls_out w1 @ [ProcessResponse (mh_token h) MsgType_RESPONSE (mh_id h) e resp k] \<and>
    sap_ok w2 k xs \<and> headers w2 = (headers w)(req := None) \<and> requests w2 m = None"
proof -
  have k: "k < length (sockets w)" "getSocketById (sock_id (sockets w ! k)) (sockets w) = Some k"
    and q: "queue (requests w) (front (sockets w ! k)) xs" "distinct xs"
    using assms(1) by (auto simp: sap_ok_def queue_ok_def)
  have m: "m \<notin> set xs" using queue_live [OF q(1), of m] assms(8) by auto
  let ?sk = "sockets w ! k"
  let ?r = "\<lparr>rq_token = mh_token h, curr = req, p_next = front ?sk, rq_socketId = sock_id ?sk\<rparr>"
  let ?w1 = "w\<lparr>requests := (requests w)(m \<mapsto> ?r), sockets := (sockets w)[k := ?sk\<lparr>front := m\<rparr>],
    calls_out := calls_out w @ [OnRequest (mh_id h) b m (sock_id ?sk)]\<rparr>"
  have run: "dispatchRequest k req m w = Some ?w1"
    using assms(2-5,7) enqueue_ok [of "(requests w)(m \<mapsto> \<lparr>rq_token = mh_token h, curr = req, p_next = NULL, rq_socketId = sock_id ?sk\<rparr>)"
        "front ?sk" xs m] q(1) m
    by (simp add: dispatchRequest_def deref_def Let_def)
  have mp: "map (\<lambda>x. curr (the (((requests w)(m \<mapsto> ?r)) x))) xs = map (\<lambda>x. curr (the (requests w x))) xs"
    by (rule map_cong) (use m in auto)
  have "queue ((requests w)(m \<mapsto> ?r)) m (m # xs)" using q(1) m assms(7) by simp
  moreover have "distinct (map (\<lambda>x. curr (the (((requests w)(m \<mapsto> ?r)) x))) (m # xs))"
    using assms(1,6) by (simp only: list.map mp distinct.simps) (auto simp: sap_ok_def queue_ok_def)
  moreover have "\<forall>x \<in> set (m # xs). curr (the (((requests w)(m \<mapsto> ?r)) x)) \<noteq> NULL \<and>
      headers w (curr (the (((requests w)(m \<mapsto> ?r)) x))) \<noteq> None \<and>
      mh_token (the (headers w (curr (the (((requests w)(m \<mapsto> ?r)) x))))) = rq_token (the (((requests w)(m \<mapsto> ?r)) x)) \<and>
      rq_socketId (the (((requests w)(m \<mapsto> ?r)) x)) = sock_id ?sk"
    using assms(1,3,4) m by (auto simp: sap_ok_def queue_ok_def)
  ultimately have ok1: "sap_ok ?w1 k (m # xs)"
    using k q(2) m getSocketById_front [OF k(1)] by (simp add: sap_ok_def queue_ok_def del: fun_upd_apply queue.simps list.map)
  have hit: "is_hit (requests ?w1) (headers ?w1) (mh_id h) (mh_token h) m" using assms(3) by (simp add: is_hit_def)
  obtain w2 where w2: "sOnRequestComplete m e (Some resp) True ?w1 = Some w2"
    "calls_out w2 = calls_out ?w1 @ [ProcessResponse (mh_token h) MsgType_RESPONSE (mh_id h) e resp k]"
    "headers w2 = (headers w)(req := None)" "requests w2 m = None" "queue (requests w2) (front (sockets w2 ! k)) xs"
    "\<forall>z. z \<noteq> m \<longrightarrow> curr (the (requests w2 z)) = curr (the (requests ?w1 z)) \<and>
       rq_token (the (requests w2 z)) = rq_token (the (requests ?w1 z)) \<and>
       rq_socketId (the (requests w2 z)) = rq_socketId (the (requests ?w1 z))"
    "\<exists>f. sockets w2 = (sockets ?w1)[k := (sockets ?w1 ! k)\<lparr>front := f\<rparr>]"
    using onRequestComplete_ok [of ?w1 k "[]" m xs m ?r h e "Some resp" True] ok1 hit assms(3) by auto
  obtain f where f: "sockets w2 = (sockets ?w1)[k := (sockets ?w1 ! k)\<lparr>front := f\<rparr>]" using w2(7) by blast
  have "sap_ok w2 k ([] @ xs)"
    by (rule sap_ok_shrink [of ?w1 k "[]" m xs ?r w2 f]) (use ok1 w2 f in auto)
  then show ?thesis using run ok1 w2(1-4) by (intro exI [of _ ?w1] exI [of _ w2]) simp
qed

theorem sap_dispatch_complete_roundtrip_witness:
  "\<exists>w1 w2. dispatchRequest 0 31 30 (ex_sap 1 2) = Some w1 \<and> calls_out w1 = [OnRequest 3 [7] 30 0] \<and>
     sOnRequestComplete 30 0 (Some [5, 6]) True w1 = Some w2 \<and>
     calls_out w2 = [OnRequest 3 [7] 30 0, ProcessResponse 9 MsgType_RESPONSE 3 0 [5, 6] 0] \<and> sap_ok w2 0 [20, 10]"
  using sap_dispatch_complete_roundtrip [OF ex_sap_ok [of 1 2], of 31 "ex_header 9" "[7]" 30 0 "[5, 6]"]
  by (force simp: ex_sap_def ex_header_def)

text \<open>
  Requests may be completed in any order: if no other pending request carries the same
  token and message identifier, completing one answers it, unlinks and frees exactly that request
  and its header, and leaves the other requests pending in their order.
\<close>

theorem sap_complete_any_order:
  assumes "sap_ok w k (ys @ x # zs)" "requests w x = Some r" "headers w (curr r) = Some h"
    "\<forall>y \<in> set ys. \<not> is_hit (requests w) (headers w) (mh_id h) (mh_token h) y"
  shows "\<exists>w'. sOnRequestComplete x e resp True w = Some w' \<and> sap_ok w' k (ys @ zs) \<and>
    calls_out w' = calls_out w @ [ProcessResponse (mh_token h) MsgType_RESPONSE (mh_id h) e
      (case resp of None \<Rightarrow> [] | Some b \<Rightarrow> b) k] \<and>
    requests w' x = None \<and> headers w' = (headers w)(curr r := None)"
proof -
  have "mh_token h = rq_token r"
    by (rule sap_okD [OF assms(1), of x]) (use assms(2,3) in auto)
  then have hit: "is_hit (requests w) (headers w) (mh_id h) (mh_token h) x"
    using assms(2,3) by (simp add: is_hit_def)
  obtain w' f where w': "sOnRequestComplete x e resp True w = Some w'"
    "calls_out w' = calls_out w @ [ProcessResponse (mh_token h) MsgType_RESPONSE (mh_id h) e
      (case resp of None \<Rightarrow> [] | Some b \<Rightarrow> b) k]"
    "headers w' = (headers w)(curr r := None)" "requests w' x = None"
    "queue (requests w') (front (sockets w' ! k)) (ys @ zs)"
    "\<forall>z. z \<noteq> x \<longrightarrow> curr (the (requests w' z)) = curr (the (requests w z)) \<and>
       rq_token (the (requests w' z)) = rq_token (the (requests w z)) \<and>
       rq_socketId (the (requests w' z)) = rq_socketId (the (requests w z))"
    "sockets w' = (sockets w)[k := (sockets w ! k)\<lparr>front := f\<rparr>]"
    using onRequestComplete_ok [OF assms(1) _ assms(2,3,4) hit, of e resp True] by auto
  have "sap_ok w' k (ys @ zs)" by (rule sap_ok_shrink [OF assms(1,2) w'(3,5,6,7)])
  then show ?thesis using w' by blast
qed

theorem sap_complete_any_order_witness:
  "\<exists>w'. sOnRequestComplete 10 4 None True (ex_sap 1 2) = Some w' \<and> sap_ok w' 0 [20] \<and>
     calls_out w' = [ProcessResponse 1 MsgType_RESPONSE 3 4 [] 0] \<and> requests w' 10 = None \<and> headers w' 11 = None"
  using sap_complete_any_order [of "ex_sap 1 2" 0 "[20]" 10 "[]" "\<lparr>rq_token = 1, curr = 11, p_next = NULL, rq_socketId = 0\<rparr>"
      "ex_header 1" 4 None] ex_sap_ok [of 1 2]
  by (force simp: ex_sap_def ex_header_def is_hit_def)

text \<open>
  The queue is searched by token and message identifier, not by the request being
  completed. If a newer pending request \<open>y\<close> carries the same pair as \<open>x\<close>, completing \<open>x\<close>
  frees \<open>y\<close> and leaves \<open>x\<close> queued with its header freed; the vendor's later completion of
  \<open>y\<close> reads freed memory.
\<close>

theorem sap_duplicate_token_use_after_free:
  assumes "sap_ok w k (y # ys @ x # zs)" "requests w x = Some r" "headers w (curr r) = Some h"
    "is_hit (requests w) (headers w) (mh_id h) (mh_token h) y"
  shows "\<exists>w'. sOnRequestComplete x e resp mem w = Some w' \<and> requests w' y = None \<and>
    queue (requests w') (front (sockets w' ! k)) (ys @ x # zs) \<and> headers w' (curr (the (requests w' x))) = None \<and>
    sOnRequestComplete y e' resp' mem' w' = None"
proof -
  have "x \<noteq> y" using assms(1) by (auto simp: sap_ok_def queue_ok_def)
  obtain w' where w': "sOnRequestComplete x e resp mem w = Some w'" "headers w' = (headers w)(curr r := None)"
    "requests w' y = None" "queue (requests w') (front (sockets w' ! k)) (ys @ x # zs)"
    "curr (the (requests w' x)) = curr (the (requests w x))"
    using onRequestComplete_ok [of w k "[]" y "ys @ x # zs" x r h e resp mem] assms \<open>x \<noteq> y\<close> by auto
  have "sOnRequestComplete y e' resp' mem' w' = None"
    using w'(3) by (simp add: sOnRequestComplete_def deref_def)
  then show ?thesis using w' assms(2) by auto
qed

theorem sap_duplicate_token_use_after_free_witness:
  "\<exists>w'. sOnRequestComplete 10 0 None True (ex_sap 5 5) = Some w' \<and> requests w' 20 = None \<and>
     sOnRequestComplete 20 0 None True w' = None"
  using sap_duplicate_token_use_after_free [of "ex_sap 5 5" 0 20 "[]" 10 "[]"
      "\<lparr>rq_token = 5, curr = 11, p_next = NULL, rq_socketId = 0\<rparr>" "ex_header 5" 0 None True 0 None True] ex_sap_ok [of 5 5]
  by (force simp: ex_sap_def ex_header_def is_hit_def)

text \<open>
  The queue gives back the requests in the reverse order of their insertion: what was
  enqueued last is dequeued first, and an empty queue makes the caller wait.
\<close>

theorem ril_queue_is_a_stack:
  assumes "queue rs fr xs" "m \<notin> set xs" "m \<noteq> NULL" "rs m = Some r"
  shows "\<exists>rs'. enqueue m fr rs = Some (m, rs') \<and> queue rs' m (m # xs) \<and>
    dequeue m rs' = Some (Some m, fr) \<and> queue rs' fr xs \<and> dequeue NULL rs = Some (None, NULL)"
  using enqueue_ok [OF assms] dequeue_ok [of "rs(m \<mapsto> r\<lparr>p_next := fr\<rparr>)" m "m # xs"] assms queue_first [OF assms(1)]
  by (auto simp: dequeue_def queue_empty_def)

theorem ril_queue_is_a_stack_witness:
  "\<exists>rs'. enqueue 30 20 ((requests (ex_sap 1 2))(30 \<mapsto> \<lparr>rq_token = 9, curr = 31, p_next = NULL, rq_socketId = 0\<rparr>)) = Some (30, rs') \<and>
     queue rs' 30 [30, 20, 10] \<and> dequeue 30 rs' = Some (Some 30, 20)"
  using ril_queue_is_a_stack [of "(requests (ex_sap 1 2))(30 \<mapsto> \<lparr>rq_token = 9, curr = 31, p_next = NULL, rq_socketId = 0\<rparr>)"
      20 "[20, 10]" 30 "\<lparr>rq_token = 9, curr = 31, p_next = NULL, rq_socketId = 0\<rparr>"]
  by (force simp: ex_sap_def)

end
