(* ===== verification/LocClient.thy ===== *)
theory LocClient
  imports Prelude
begin

text \<open>
  \<open>gps/location/LocationAPIClientBase.{h,cpp}\<close>: the client side of the location API. It
  gives each client identifier a session of the API (a two-way dictionary), remembers which
  request each answer of the API belongs to (request queues) and translates session identifiers
  back before it calls the client.
  The API object below it is an interface: every call on it is recorded in \<open>api_calls\<close>, and
  what it returns (a new session, an array of sessions or NULL) is an argument of the operation
  that makes the call. The virtual callbacks of the client are recorded in \<open>cb_calls\<close>.
  Every operation holds the object's mutex, so it is one step; an answer arrives as a later step.
  Options, locations and configurations that are only passed on are opaque numbers.
\<close>

unbundle bit_operations_syntax

section \<open>Data\<close>

type_synonym uint32 = "32 word"
type_synonym mask = "16 word"
type_synonym opaque = nat

datatype LocationError =
    LOCATION_ERROR_SUCCESS
  | LOCATION_ERROR_GENERAL_FAILURE
  | LOCATION_ERROR_CALLBACK_MISSING
  | LOCATION_ERROR_INVALID_PARAMETER
  | LOCATION_ERROR_ID_EXISTS
  | LOCATION_ERROR_ID_UNKNOWN
  | LOCATION_ERROR_ALREADY_STARTED
  | LOCATION_ERROR_GEOFENCES_AT_MAX
  | LOCATION_ERROR_NOT_SUPPORTED

datatype BatchingMode = BATCHING_MODE_ROUTINE | BATCHING_MODE_TRIP | BATCHING_MODE_NO_AUTO_REPORT

datatype GeofenceBreachType =
    GEOFENCE_BREACH_ENTER
  | GEOFENCE_BREACH_EXIT
  | GEOFENCE_BREACH_DWELL_IN
  | GEOFENCE_BREACH_DWELL_OUT
  | GEOFENCE_BREACH_UNKNOWN

text \<open>\<open>sessionMode\<close> is passed around as a \<open>uint32_t\<close>; these are the values of the enumeration.\<close>

definition SESSION_MODE_NONE :: uint32 where "SESSION_MODE_NONE = 0"
definition SESSION_MODE_ON_FULL :: uint32 where "SESSION_MODE_ON_FULL = 1"
definition SESSION_MODE_ON_FIX :: uint32 where "SESSION_MODE_ON_FIX = 2"
definition SESSION_MODE_ON_TRIP_COMPLETED :: uint32 where "SESSION_MODE_ON_TRIP_COMPLETED = 3"

definition GEOFENCE_BREACH_ENTER_BIT :: mask where "GEOFENCE_BREACH_ENTER_BIT = 1"
definition GEOFENCE_BREACH_EXIT_BIT :: mask where "GEOFENCE_BREACH_EXIT_BIT = 2"

definition GEOFENCE_SESSION_ID :: uint32 where "GEOFENCE_SESSION_ID = 0xFFFFFFFF"
definition CONFIG_SESSION_ID :: uint32 where "CONFIG_SESSION_ID = 0xFFFFFFFF"

record GeofenceOption =
  breachTypeMask :: mask
  otherOptions :: opaque

section \<open>The two-way dictionary\<close>

record 'e BiDict =
  mForwardMap :: "uint32 \<rightharpoonup> uint32"
  mBackwardMap :: "uint32 \<rightharpoonup> uint32"
  mExtMap :: "uint32 \<rightharpoonup> 'e"

definition new_BiDict :: "'e BiDict" where
  "new_BiDict = \<lparr>mForwardMap = Map.empty, mBackwardMap = Map.empty, mExtMap = Map.empty\<rparr>"

text \<open>\<open>m[k]\<close> of \<open>std::map\<close>: a missing key is inserted with value 0.\<close>

definition map_at :: "(uint32 \<rightharpoonup> uint32) \<Rightarrow> uint32 \<Rightarrow> uint32 \<times> (uint32 \<rightharpoonup> uint32)" where
  "map_at m k = (case m k of None \<Rightarrow> (0, m(k \<mapsto> 0)) | Some v \<Rightarrow> (v, m))"

definition map_erase :: "(uint32 \<rightharpoonup> 'v) \<Rightarrow> uint32 \<Rightarrow> (uint32 \<rightharpoonup> 'v)" where
  "map_erase m k = m(k := None)"

definition hasId :: "'e BiDict \<Rightarrow> uint32 \<Rightarrow> bool" where
  "hasId d i \<longleftrightarrow> mForwardMap d i \<noteq> None"

definition hasSession :: "'e BiDict \<Rightarrow> uint32 \<Rightarrow> bool" where
  "hasSession d s \<longleftrightarrow> mBackwardMap d s \<noteq> None"

definition bd_set :: "uint32 \<Rightarrow> uint32 \<Rightarrow> 'e \<Rightarrow> 'e BiDict \<Rightarrow> 'e BiDict" where
  "bd_set i s ext d = d\<lparr>mForwardMap := (mForwardMap d)(i \<mapsto> s), mBackwardMap := (mBackwardMap d)(s \<mapsto> i),
     mExtMap := (mExtMap d)(s \<mapsto> ext)\<rparr>"

definition bd_clear :: "'e BiDict \<Rightarrow> 'e BiDict" where
  "bd_clear d = d\<lparr>mForwardMap := Map.empty, mBackwardMap := Map.empty, mExtMap := Map.empty\<rparr>"

definition rmById :: "uint32 \<Rightarrow> 'e BiDict \<Rightarrow> 'e BiDict" where
  "rmById i d =
     (let (s, fwd) = map_at (mForwardMap d) i;
          bwd = map_erase (mBackwardMap d) s;
          (s', fwd) = map_at fwd i;
          ext = map_erase (mExtMap d) s' in
      d\<lparr>mForwardMap := map_erase fwd i, mBackwardMap := bwd, mExtMap := ext\<rparr>)"

definition rmBySession :: "uint32 \<Rightarrow> 'e BiDict \<Rightarrow> 'e BiDict" where
  "rmBySession s d =
     (let (i, bwd) = map_at (mBackwardMap d) s in
      d\<lparr>mForwardMap := map_erase (mForwardMap d) i, mBackwardMap := map_erase bwd s,
        mExtMap := map_erase (mExtMap d) s\<rparr>)"

definition getId :: "'e BiDict \<Rightarrow> uint32 \<Rightarrow> uint32" where
  "getId d s = (case mBackwardMap d s of None \<Rightarrow> 0 | Some i \<Rightarrow> i)"

definition getSession :: "'e BiDict \<Rightarrow> uint32 \<Rightarrow> uint32" where
  "getSession d i = (case mForwardMap d i of None \<Rightarrow> 0 | Some s \<Rightarrow> s)"

text \<open>The functions that return an \<open>ext\<close> start from one filled with zero bytes, \<open>z\<close>.\<close>

definition getExtById :: "'e \<Rightarrow> uint32 \<Rightarrow> 'e BiDict \<Rightarrow> 'e \<times> 'e BiDict" where
  "getExtById z i d =
     (let (s, fwd) = map_at (mForwardMap d) i in
      (if s > 0 then (case mExtMap d s of None \<Rightarrow> z | Some e \<Rightarrow> e) else z, d\<lparr>mForwardMap := fwd\<rparr>))"

definition getExtBySession :: "'e \<Rightarrow> 'e BiDict \<Rightarrow> uint32 \<Rightarrow> 'e" where
  "getExtBySession z d s = (case mExtMap d s of None \<Rightarrow> z | Some e \<Rightarrow> e)"

definition getAllSessions :: "'e BiDict \<Rightarrow> uint32 list" where
  "getAllSessions d = sorted_list_of_set (dom (mBackwardMap d))"

section \<open>Requests\<close>

datatype LocationAPIRequest =
    StartTrackingRequest
  | StopTrackingRequest
  | UpdateTrackingOptionsRequest
  | StartBatchingRequest
  | StopBatchingRequest
  | UpdateBatchingOptionsRequest
  | GetBatchedLocationsRequest
  | AddGeofencesRequest
  | RemoveGeofencesRequest "mask BiDict"
  | ModifyGeofencesRequest
  | PauseGeofencesRequest
  | ResumeGeofencesRequest
  | GnssNiResponseRequest

datatype REQUEST_TYPE = REQUEST_TRACKING | REQUEST_SESSION | REQUEST_GEOFENCE | REQUEST_NIRESPONSE

text \<open>The queue owns its requests; deleting one drops it from the list.\<close>

record 'r RequestQueue =
  mSession :: uint32
  mQueue :: "'r list"

definition setSession :: "uint32 \<Rightarrow> 'r RequestQueue \<Rightarrow> 'r RequestQueue" where
  "setSession s q = q\<lparr>mSession := s\<rparr>"

definition rq_reset :: "uint32 \<Rightarrow> 'r RequestQueue \<Rightarrow> 'r RequestQueue" where
  "rq_reset s q = q\<lparr>mQueue := [], mSession := s\<rparr>"

definition rq_push :: "'r \<Rightarrow> 'r RequestQueue \<Rightarrow> 'r RequestQueue" where
  "rq_push r q = q\<lparr>mQueue := mQueue q @ [r]\<rparr>"

definition rq_pop :: "'r RequestQueue \<Rightarrow> 'r option \<times> 'r RequestQueue" where
  "rq_pop q = (case mQueue q of [] \<Rightarrow> (None, q) | r # rs \<Rightarrow> (Some r, q\<lparr>mQueue := rs\<rparr>))"

section \<open>The client object\<close>

record SessionEntity =
  se_id :: uint32
  trackingSession :: uint32
  batchingSession :: uint32
  se_sessionMode :: uint32

definition zero_entity :: SessionEntity where
  "zero_entity = \<lparr>se_id = 0, trackingSession = 0, batchingSession = 0, se_sessionMode = 0\<rparr>"

datatype api_call =
    A_createInstance | A_updateCallbacks | A_destroy
  | A_startTracking opaque
  | A_stopTracking uint32
  | A_updateTrackingOptions uint32 opaque
  | A_startBatching opaque BatchingMode
  | A_stopBatching uint32
  | A_updateBatchingOptions uint32 opaque BatchingMode
  | A_getBatchedLocations uint32 nat
  | A_addGeofences "GeofenceOption list" "opaque list"
  | A_removeGeofences "uint32 list"
  | A_modifyGeofences "uint32 list" "GeofenceOption list"
  | A_pauseGeofences "uint32 list"
  | A_resumeGeofences "uint32 list"
  | A_gnssNiResponse uint32 opaque

datatype client_cb =
    onStartTrackingCb LocationError
  | onStopTrackingCb LocationError
  | onUpdateTrackingOptionsCb LocationError
  | onStartBatchingCb LocationError
  | onStopBatchingCb LocationError
  | onUpdateBatchingOptionsCb LocationError
  | onGetBatchedLocationsCb LocationError
  | onAddGeofencesCb "LocationError list" "uint32 list"
  | onRemoveGeofencesCb "LocationError list" "uint32 list"
  | onModifyGeofencesCb "LocationError list" "uint32 list"
  | onPauseGeofencesCb "LocationError list" "uint32 list"
  | onResumeGeofencesCb "LocationError list" "uint32 list"
  | onGnssNiResponseCb LocationError
  | onGeofenceBreachCb "uint32 list" GeofenceBreachType
  | onBatchingStatusCb bool "uint32 list"

record loc_client =
  mGeofenceBreachCallback :: bool
  mBatchingStatusCallback :: bool
  mLocationAPI :: bool
  mRequestQueues :: "REQUEST_TYPE \<Rightarrow> LocationAPIRequest RequestQueue"
  mGeofenceBiDict :: "mask BiDict"
  mSessionBiDict :: "SessionEntity BiDict"
  mBatchSize :: int
  mTracking :: bool
  api_calls :: "api_call list"
  cb_calls :: "client_cb list"

definition on_queue ::
  "REQUEST_TYPE \<Rightarrow> (LocationAPIRequest RequestQueue \<Rightarrow> LocationAPIRequest RequestQueue) \<Rightarrow> loc_client \<Rightarrow> loc_client" where
  "on_queue t f c = c\<lparr>mRequestQueues := (mRequestQueues c)(t := f (mRequestQueues c t))\<rparr>"

definition api :: "api_call \<Rightarrow> loc_client \<Rightarrow> loc_client" where
  "api a c = c\<lparr>api_calls := api_calls c @ [a]\<rparr>"

definition callback :: "client_cb \<Rightarrow> loc_client \<Rightarrow> loc_client" where
  "callback b c = c\<lparr>cb_calls := cb_calls c @ [b]\<rparr>"

text \<open>The queues exist, empty, before the constructor's body resets them.\<close>

definition LocationAPIClientBase :: loc_client where
  "LocationAPIClientBase =
     \<lparr>mGeofenceBreachCallback = False, mBatchingStatusCallback = False, mLocationAPI = False,
      mRequestQueues = (\<lambda>_. rq_reset 0 \<lparr>mSession = 0, mQueue = []\<rparr>),
      mGeofenceBiDict = new_BiDict, mSessionBiDict = new_BiDict, mBatchSize = -1, mTracking = False,
      api_calls = [], cb_calls = []\<rparr>"

text \<open>\<open>created\<close>: \<open>createInstance\<close> returns an object.\<close>

definition locAPISetCallbacks :: "bool \<Rightarrow> bool \<Rightarrow> bool \<Rightarrow> loc_client \<Rightarrow> loc_client" where
  "locAPISetCallbacks geofenceBreachCb batchingStatusCb created c =
     (let c = (if geofenceBreachCb then c\<lparr>mGeofenceBreachCallback := True\<rparr> else c);
          c = (if batchingStatusCb then c\<lparr>mBatchingStatusCallback := True\<rparr> else c) in
      if \<not> mLocationAPI c then (api A_createInstance c)\<lparr>mLocationAPI := created\<rparr>
      else api A_updateCallbacks c)"

definition LocationAPIClientBase_destroy :: "loc_client \<Rightarrow> loc_client" where
  "LocationAPIClientBase_destroy c =
     (let c = c\<lparr>mGeofenceBreachCallback := False\<rparr>;
          c = (if mLocationAPI c then (api A_destroy c)\<lparr>mLocationAPI := False\<rparr> else c) in
      c\<lparr>mRequestQueues := (\<lambda>t. rq_reset 0 (mRequestQueues c t))\<rparr>)"

section \<open>Tracking\<close>

definition locAPIStartTracking :: "opaque \<Rightarrow> uint32 \<Rightarrow> loc_client \<Rightarrow> LocationError \<times> loc_client" where
  "locAPIStartTracking options ret c =
     (if mLocationAPI c then
        (LOCATION_ERROR_SUCCESS,
         if mTracking c then c
         else (on_queue REQUEST_TRACKING (rq_push StartTrackingRequest \<circ> rq_reset ret)
                (api (A_startTracking options) c))\<lparr>mTracking := True\<rparr>)
      else (LOCATION_ERROR_GENERAL_FAILURE, c))"

definition locAPIStopTracking :: "loc_client \<Rightarrow> loc_client" where
  "locAPIStopTracking c =
     (if mLocationAPI c then
        (let session = mSession (mRequestQueues c REQUEST_TRACKING) in
         if session > 0 then
           (api (A_stopTracking session) (on_queue REQUEST_TRACKING (rq_push StopTrackingRequest) c))\<lparr>mTracking := False\<rparr>
         else c)
      else c)"

definition locAPIUpdateTrackingOptions :: "opaque \<Rightarrow> loc_client \<Rightarrow> loc_client" where
  "locAPIUpdateTrackingOptions options c =
     (if mLocationAPI c then
        (let session = mSession (mRequestQueues c REQUEST_TRACKING) in
         if session > 0 then
           api (A_updateTrackingOptions session options)
             (on_queue REQUEST_TRACKING (rq_push UpdateTrackingOptionsRequest) c)
         else c)
      else c)"

section \<open>Sessions\<close>

text \<open>\<open>conf\<close>: the value of \<open>BATCH_SIZE\<close> in the configuration file, if it has one.\<close>

definition locAPIGetBatchSize :: "int option \<Rightarrow> loc_client \<Rightarrow> int \<times> loc_client" where
  "locAPIGetBatchSize conf c =
     (let c = (if mBatchSize c = -1 then
                 (let n = (case conf of None \<Rightarrow> mBatchSize c | Some n \<Rightarrow> n) in
                  c\<lparr>mBatchSize := (if n < 0 then 0 else n)\<rparr>)
               else c) in
      (mBatchSize c, c))"

definition batching_mode :: "uint32 \<Rightarrow> BatchingMode" where
  "batching_mode sessionMode =
     (if sessionMode = SESSION_MODE_ON_FULL then BATCHING_MODE_ROUTINE
      else if sessionMode = SESSION_MODE_ON_TRIP_COMPLETED then BATCHING_MODE_TRIP
      else BATCHING_MODE_NO_AUTO_REPORT)"

definition locAPIStartSession ::
  "uint32 \<Rightarrow> uint32 \<Rightarrow> opaque \<Rightarrow> uint32 \<Rightarrow> loc_client \<Rightarrow> LocationError \<times> loc_client" where
  "locAPIStartSession i sessionMode options ret c =
     (if mLocationAPI c then
        (if hasId (mSessionBiDict c) i then (LOCATION_ERROR_ALREADY_STARTED, c)
         else
           (let (tracking, batching, c) =
              (if sessionMode = SESSION_MODE_ON_FIX then
                 (ret, 0, on_queue REQUEST_SESSION (rq_push StartTrackingRequest) (api (A_startTracking options) c))
               else
                 (0, ret, on_queue REQUEST_SESSION (rq_push StartBatchingRequest \<circ> setSession ret)
                            (api (A_startBatching options (batching_mode sessionMode)) c)));
                session = (if sessionMode \<noteq> SESSION_MODE_ON_FIX then batching else tracking);
                entity = \<lparr>se_id = i, trackingSession = tracking, batchingSession = batching,
                          se_sessionMode = sessionMode\<rparr> in
            (LOCATION_ERROR_SUCCESS, c\<lparr>mSessionBiDict := bd_set i session entity (mSessionBiDict c)\<rparr>)))
      else (LOCATION_ERROR_GENERAL_FAILURE, c))"

definition locAPIStopSession :: "uint32 \<Rightarrow> loc_client \<Rightarrow> LocationError \<times> loc_client" where
  "locAPIStopSession i c =
     (if mLocationAPI c then
        (if hasId (mSessionBiDict c) i then
           (let (entity, d) = getExtById zero_entity i (mSessionBiDict c);
                c = c\<lparr>mSessionBiDict := d\<rparr> in
            (LOCATION_ERROR_SUCCESS,
             if se_sessionMode entity = SESSION_MODE_ON_FIX then
               api (A_stopTracking (trackingSession entity)) (on_queue REQUEST_SESSION (rq_push StopTrackingRequest) c)
             else
               api (A_stopBatching (batchingSession entity)) (on_queue REQUEST_SESSION (rq_push StopBatchingRequest) c)))
         else (LOCATION_ERROR_ID_UNKNOWN, c))
      else (LOCATION_ERROR_GENERAL_FAILURE, c))"

text \<open>\<open>ret\<close>: the session a start made by the change of mode returns.\<close>

definition locAPIUpdateSessionOptions ::
  "uint32 \<Rightarrow> uint32 \<Rightarrow> opaque \<Rightarrow> uint32 \<Rightarrow> loc_client \<Rightarrow> LocationError \<times> loc_client" where
  "locAPIUpdateSessionOptions i sessionMode options ret c =
     (if mLocationAPI c then
        (if hasId (mSessionBiDict c) i then
           (let (entity, d) = getExtById zero_entity i (mSessionBiDict c);
                c = c\<lparr>mSessionBiDict := d\<rparr>;
                tracking = trackingSession entity;
                batching = batchingSession entity;
                sMode = se_sessionMode entity;
                (tracking, batching, c) =
                  (if sessionMode = SESSION_MODE_ON_FIX then
                     (let c = on_queue REQUEST_SESSION (rq_push UpdateTrackingOptionsRequest) c in
                      if sMode = SESSION_MODE_ON_FIX then
                        (tracking, batching, api (A_updateTrackingOptions tracking options) c)
                      else
                        (ret, 0, api (A_startTracking options)
                                   (on_queue REQUEST_SESSION (setSession 0) (api (A_stopBatching batching) c))))
                   else
                     (let c = on_queue REQUEST_SESSION (rq_push UpdateBatchingOptionsRequest) c;
                          mode = batching_mode sessionMode in
                      if sMode = SESSION_MODE_ON_FIX then
                        (0, ret, on_queue REQUEST_SESSION (setSession ret)
                                   (api (A_startBatching options mode) (api (A_stopTracking tracking) c)))
                      else
                        (tracking, batching, api (A_updateBatchingOptions batching options mode) c)));
                session = (if sessionMode \<noteq> SESSION_MODE_ON_FIX then batching else tracking);
                entity = entity\<lparr>trackingSession := tracking, batchingSession := batching,
                                se_sessionMode := sessionMode\<rparr> in
            (LOCATION_ERROR_SUCCESS,
             c\<lparr>mSessionBiDict := bd_set i session entity (rmById i (mSessionBiDict c))\<rparr>))
         else (LOCATION_ERROR_ID_UNKNOWN, c))
      else (LOCATION_ERROR_GENERAL_FAILURE, c))"

definition locAPIGetBatchedLocations :: "uint32 \<Rightarrow> nat \<Rightarrow> loc_client \<Rightarrow> LocationError \<times> loc_client" where
  "locAPIGetBatchedLocations i n c =
     (if mLocationAPI c then
        (if hasId (mSessionBiDict c) i then
           (let (entity, d) = getExtById zero_entity i (mSessionBiDict c);
                c = c\<lparr>mSessionBiDict := d\<rparr> in
            if se_sessionMode entity \<noteq> SESSION_MODE_ON_FIX then
              (LOCATION_ERROR_SUCCESS,
               api (A_getBatchedLocations (batchingSession entity) n)
                 (on_queue REQUEST_SESSION (rq_push GetBatchedLocationsRequest) c))
            else (LOCATION_ERROR_NOT_SUPPORTED, c))
         else (LOCATION_ERROR_ID_UNKNOWN, c))
      else (LOCATION_ERROR_GENERAL_FAILURE, c))"

section \<open>Geofences\<close>

text \<open>The loop of \<open>locAPIAddGeofences\<close> over the arrays \<open>ids\<close>, \<open>sessions\<close> and \<open>options\<close>.\<close>

fun add_geofences :: "(uint32 \<times> uint32 \<times> GeofenceOption) list \<Rightarrow> mask BiDict \<Rightarrow> mask BiDict" where
  "add_geofences [] d = d"
| "add_geofences ((i, s, opt) # xs) d = add_geofences xs (bd_set i s (breachTypeMask opt) d)"

text \<open>\<open>sessions\<close> is the array the API returns, \<open>None\<close> for NULL.\<close>

definition locAPIAddGeofences ::
  "uint32 list \<Rightarrow> GeofenceOption list \<Rightarrow> opaque list \<Rightarrow> uint32 list option \<Rightarrow> loc_client \<Rightarrow>
     LocationError \<times> loc_client" where
  "locAPIAddGeofences ids options data sessions c =
     (if mLocationAPI c then
        (let c = (if mSession (mRequestQueues c REQUEST_GEOFENCE) \<noteq> GEOFENCE_SESSION_ID
                  then on_queue REQUEST_GEOFENCE (rq_reset GEOFENCE_SESSION_ID) c else c);
             c = api (A_addGeofences options data) c in
         case sessions of
           None \<Rightarrow> (LOCATION_ERROR_GENERAL_FAILURE, c)
         | Some ss \<Rightarrow>
             (let c = on_queue REQUEST_GEOFENCE (rq_push AddGeofencesRequest) c in
              (LOCATION_ERROR_SUCCESS,
               c\<lparr>mGeofenceBiDict := add_geofences (zip ids (zip ss options)) (mGeofenceBiDict c)\<rparr>)))
      else (LOCATION_ERROR_GENERAL_FAILURE, c))"

text \<open>
  The loops that translate client identifiers. Their result is the array \<open>sessions\<close> up to the
  final \<open>j\<close> and the changed dictionaries; an unknown identifier is overwritten by the next one.
\<close>

fun remove_geofences ::
  "uint32 list \<Rightarrow> mask BiDict \<Rightarrow> mask BiDict \<Rightarrow> uint32 list \<times> mask BiDict \<times> mask BiDict" where
  "remove_geofences [] d removed = ([], d, removed)"
| "remove_geofences (i # is) d removed =
     (let s = getSession d i in
      if s > 0 then
        (let type = getExtBySession 0 d s;
             (ss, d', removed') = remove_geofences is (rmBySession s d) (bd_set i s type removed) in
         (s # ss, d', removed'))
      else remove_geofences is d removed)"

text \<open>\<open>mem\<close>: the array \<open>sessions\<close> could be allocated.\<close>

definition locAPIRemoveGeofences :: "bool \<Rightarrow> uint32 list \<Rightarrow> loc_client \<Rightarrow> loc_client" where
  "locAPIRemoveGeofences mem ids c =
     (if mLocationAPI c then
        (if \<not> mem then c
         else if mSession (mRequestQueues c REQUEST_GEOFENCE) = GEOFENCE_SESSION_ID then
           (let (ss, d, removed) = remove_geofences ids (mGeofenceBiDict c) new_BiDict;
                c = c\<lparr>mGeofenceBiDict := d\<rparr> in
            if ss \<noteq> [] then
              api (A_removeGeofences ss) (on_queue REQUEST_GEOFENCE (rq_push (RemoveGeofencesRequest removed)) c)
            else c)
         else c)
      else c)"

fun modify_geofences ::
  "(uint32 \<times> GeofenceOption) list \<Rightarrow> mask BiDict \<Rightarrow> uint32 list \<times> mask BiDict" where
  "modify_geofences [] d = ([], d)"
| "modify_geofences ((i, opt) # xs) d =
     (let s = getSession d i in
      if s > 0 then
        (let (ss, d') = modify_geofences xs (bd_set i s (breachTypeMask opt) d) in (s # ss, d'))
      else modify_geofences xs d)"

text \<open>The API reads as many entries of the caller's \<open>options\<close> as it is given sessions.\<close>

definition locAPIModifyGeofences :: "bool \<Rightarrow> uint32 list \<Rightarrow> GeofenceOption list \<Rightarrow> loc_client \<Rightarrow> loc_client" where
  "locAPIModifyGeofences mem ids options c =
     (if mLocationAPI c then
        (if \<not> mem then c
         else if mSession (mRequestQueues c REQUEST_GEOFENCE) = GEOFENCE_SESSION_ID then
           (let (ss, d) = modify_geofences (zip ids options) (mGeofenceBiDict c);
                c = c\<lparr>mGeofenceBiDict := d\<rparr> in
            if ss \<noteq> [] then
              api (A_modifyGeofences ss (take (length ss) options))
                (on_queue REQUEST_GEOFENCE (rq_push ModifyGeofencesRequest) c)
            else c)
         else c)
      else c)"

fun known_sessions :: "uint32 list \<Rightarrow> mask BiDict \<Rightarrow> uint32 list" where
  "known_sessions [] d = []"
| "known_sessions (i # is) d =
     (let s = getSession d i in if s > 0 then s # known_sessions is d else known_sessions is d)"

definition locAPIPauseGeofences :: "bool \<Rightarrow> uint32 list \<Rightarrow> loc_client \<Rightarrow> loc_client" where
  "locAPIPauseGeofences mem ids c =
     (if mLocationAPI c then
        (if \<not> mem then c
         else if mSession (mRequestQueues c REQUEST_GEOFENCE) = GEOFENCE_SESSION_ID then
           (let ss = known_sessions ids (mGeofenceBiDict c) in
            if ss \<noteq> [] then
              api (A_pauseGeofences ss) (on_queue REQUEST_GEOFENCE (rq_push PauseGeofencesRequest) c)
            else c)
         else c)
      else c)"

text \<open>\<open>mask\<close> may be NULL.\<close>

fun resume_geofences ::
  "uint32 list \<Rightarrow> mask list option \<Rightarrow> mask BiDict \<Rightarrow> uint32 list \<times> mask BiDict" where
  "resume_geofences [] ms d = ([], d)"
| "resume_geofences (i # is) ms d =
     (let s = getSession d i; ms' = (case ms of None \<Rightarrow> None | Some l \<Rightarrow> Some (tl l)) in
      if s > 0 then
        (let d' = (case ms of None \<Rightarrow> d | Some l \<Rightarrow> bd_set i s (hd l) d);
             (ss, d'') = resume_geofences is ms' d' in
         (s # ss, d''))
      else resume_geofences is ms' d)"

definition locAPIResumeGeofences :: "bool \<Rightarrow> uint32 list \<Rightarrow> mask list option \<Rightarrow> loc_client \<Rightarrow> loc_client" where
  "locAPIResumeGeofences mem ids ms c =
     (if mLocationAPI c then
        (if \<not> mem then c
         else if mSession (mRequestQueues c REQUEST_GEOFENCE) = GEOFENCE_SESSION_ID then
           (let (ss, d) = resume_geofences ids ms (mGeofenceBiDict c);
                c = c\<lparr>mGeofenceBiDict := d\<rparr> in
            if ss \<noteq> [] then
              api (A_resumeGeofences ss) (on_queue REQUEST_GEOFENCE (rq_push ResumeGeofencesRequest) c)
            else c)
         else c)
      else c)"

definition locAPIRemoveAllGeofences :: "bool \<Rightarrow> loc_client \<Rightarrow> loc_client" where
  "locAPIRemoveAllGeofences mem c =
     (let sessionsVec = getAllSessions (mGeofenceBiDict c) in locAPIRemoveGeofences mem sessionsVec c)"

definition locAPIGnssNiResponse :: "uint32 \<Rightarrow> opaque \<Rightarrow> loc_client \<Rightarrow> loc_client" where
  "locAPIGnssNiResponse i response c =
     (if mLocationAPI c then
        on_queue REQUEST_NIRESPONSE (rq_push GnssNiResponseRequest \<circ> rq_reset i)
          (api (A_gnssNiResponse i response) c)
      else c)"

section \<open>Events of the API\<close>

text \<open>The loop of \<open>beforeGeofenceBreachCb\<close>: the client identifiers that asked for this breach.\<close>

fun breached_ids :: "GeofenceBreachType \<Rightarrow> mask BiDict \<Rightarrow> uint32 list \<Rightarrow> uint32 list" where
  "breached_ids type d [] = []"
| "breached_ids type d (s # ss) =
     (let i = getId d s; m = getExtBySession 0 d s in
      if type = GEOFENCE_BREACH_ENTER \<and> m AND GEOFENCE_BREACH_ENTER_BIT \<noteq> 0 \<or>
         type = GEOFENCE_BREACH_EXIT \<and> m AND GEOFENCE_BREACH_EXIT_BIT \<noteq> 0
      then i # breached_ids type d ss
      else breached_ids type d ss)"

definition beforeGeofenceBreachCb :: "bool \<Rightarrow> uint32 list \<Rightarrow> GeofenceBreachType \<Rightarrow> loc_client \<Rightarrow> loc_client" where
  "beforeGeofenceBreachCb mem ids type c =
     (if \<not> mem then c
      else if mGeofenceBreachCallback c then
        callback (onGeofenceBreachCb (breached_ids type (mGeofenceBiDict c) ids) type) c
      else c)"

fun completed_trips :: "uint32 list \<Rightarrow> SessionEntity BiDict \<Rightarrow> uint32 list \<times> SessionEntity BiDict" where
  "completed_trips [] d = ([], d)"
| "completed_trips (s # ss) d =
     (if hasSession d s then
        (let e = getExtBySession zero_entity d s in
         if se_sessionMode e = SESSION_MODE_ON_TRIP_COMPLETED then
           (let (is, d') = completed_trips ss (rmBySession s d) in (se_id e # is, d'))
         else completed_trips ss d)
      else completed_trips ss d)"

text \<open>
  \<open>trip\<close>: the status is \<open>BATCHING_STATUS_TRIP_COMPLETED\<close>. Calling a callback that was never
  set is a fault.
\<close>

definition beforeBatchingStatusCb :: "bool \<Rightarrow> uint32 list \<Rightarrow> loc_client \<Rightarrow> loc_client option" where
  "beforeBatchingStatusCb trip trips c =
     (let (is, c) = (if trip then
            (let (is, d) = completed_trips trips (mSessionBiDict c) in (is, c\<lparr>mSessionBiDict := d\<rparr>))
          else ([], c)) in
      if mBatchingStatusCallback c then Some (callback (onBatchingStatusCb trip is) c) else None)"

definition removeSession :: "uint32 \<Rightarrow> loc_client \<Rightarrow> loc_client" where
  "removeSession s c =
     (if hasSession (mSessionBiDict c) s then c\<lparr>mSessionBiDict := rmBySession s (mSessionBiDict c)\<rparr> else c)"

definition onResponse :: "LocationAPIRequest \<Rightarrow> LocationError \<Rightarrow> uint32 \<Rightarrow> loc_client \<Rightarrow> loc_client" where
  "onResponse r err i c =
     (case r of
        StartTrackingRequest \<Rightarrow>
          callback (onStartTrackingCb err) (if err \<noteq> LOCATION_ERROR_SUCCESS then removeSession i c else c)
      | StopTrackingRequest \<Rightarrow>
          (let c = callback (onStopTrackingCb err) c in
           if err = LOCATION_ERROR_SUCCESS then removeSession i c else c)
      | UpdateTrackingOptionsRequest \<Rightarrow> callback (onUpdateTrackingOptionsCb err) c
      | StartBatchingRequest \<Rightarrow>
          callback (onStartBatchingCb err) (if err \<noteq> LOCATION_ERROR_SUCCESS then removeSession i c else c)
      | StopBatchingRequest \<Rightarrow>
          (let c = callback (onStopBatchingCb err) c in
           if err = LOCATION_ERROR_SUCCESS then removeSession i c else c)
      | UpdateBatchingOptionsRequest \<Rightarrow> callback (onUpdateBatchingOptionsCb err) c
      | GetBatchedLocationsRequest \<Rightarrow> callback (onGetBatchedLocationsCb err) c
      | GnssNiResponseRequest \<Rightarrow> callback (onGnssNiResponseCb err) c
      | _ \<Rightarrow> c)"

definition onCollectiveResponse ::
  "LocationAPIRequest \<Rightarrow> LocationError list \<Rightarrow> uint32 list \<Rightarrow> loc_client \<Rightarrow> loc_client" where
  "onCollectiveResponse r errors sessions c =
     (case r of
        AddGeofencesRequest \<Rightarrow> callback (onAddGeofencesCb errors (map (getId (mGeofenceBiDict c)) sessions)) c
      | RemoveGeofencesRequest removed \<Rightarrow> callback (onRemoveGeofencesCb errors (map (getId removed) sessions)) c
      | ModifyGeofencesRequest \<Rightarrow> callback (onModifyGeofencesCb errors (map (getId (mGeofenceBiDict c)) sessions)) c
      | PauseGeofencesRequest \<Rightarrow> callback (onPauseGeofencesCb errors (map (getId (mGeofenceBiDict c)) sessions)) c
      | ResumeGeofencesRequest \<Rightarrow> callback (onResumeGeofencesCb errors (map (getId (mGeofenceBiDict c)) sessions)) c
      | _ \<Rightarrow> c)"

definition pop_queue :: "REQUEST_TYPE \<Rightarrow> loc_client \<Rightarrow> LocationAPIRequest option \<times> loc_client" where
  "pop_queue t c =
     (let (r, q) = rq_pop (mRequestQueues c t) in (r, c\<lparr>mRequestQueues := (mRequestQueues c)(t := q)\<rparr>))"

definition getRequestBySession :: "uint32 \<Rightarrow> loc_client \<Rightarrow> LocationAPIRequest option \<times> loc_client" where
  "getRequestBySession session c =
     (let (request, c) =
        (if mSession (mRequestQueues c REQUEST_TRACKING) = session then pop_queue REQUEST_TRACKING c
         else if mSession (mRequestQueues c REQUEST_NIRESPONSE) = session then pop_queue REQUEST_NIRESPONSE c
         else (None, c)) in
      if request = None then
        (if hasSession (mSessionBiDict c) session then pop_queue REQUEST_SESSION c else (request, c))
      else (request, c))"

definition onResponseCb :: "LocationError \<Rightarrow> uint32 \<Rightarrow> loc_client \<Rightarrow> loc_client" where
  "onResponseCb err i c =
     (let (request, c) = getRequestBySession i c in
      case request of None \<Rightarrow> c | Some r \<Rightarrow> onResponse r err i c)"

definition onCollectiveResponseCb :: "LocationError list \<Rightarrow> uint32 list \<Rightarrow> loc_client \<Rightarrow> loc_client" where
  "onCollectiveResponseCb errors ids c =
     (let (request, c) =
        (if mSession (mRequestQueues c REQUEST_GEOFENCE) = GEOFENCE_SESSION_ID
         then pop_queue REQUEST_GEOFENCE c else (None, c)) in
      case request of None \<Rightarrow> c | Some r \<Rightarrow> onCollectiveResponse r errors ids c)"

section \<open>The control client\<close>

datatype CtrlRequest = GnssDeleteAidingDataRequest | EnableRequest | DisableRequest | GnssUpdateConfigRequest

datatype CTRL_REQUEST_TYPE = CTRL_REQUEST_DELETEAIDINGDATA | CTRL_REQUEST_CONTROL | CTRL_REQUEST_CONFIG

datatype ctrl_call =
    C_createInstance | C_destroy | C_gnssDeleteAidingData opaque | C_enable opaque | C_disable uint32
  | C_gnssUpdateConfig opaque

datatype ctrl_cb =
    onGnssDeleteAidingDataCb LocationError
  | onEnableCb LocationError
  | onDisableCb LocationError
  | onGnssUpdateConfigCb "LocationError list" "uint32 list"

text \<open>A \<open>GnssConfig\<close> is an opaque number, 0 for one filled with zero bytes.\<close>

record ctrl_client =
  mLocationControlAPI :: bool
  mCtrlQueues :: "CTRL_REQUEST_TYPE \<Rightarrow> CtrlRequest RequestQueue"
  mEnabled :: bool
  mConfig :: opaque
  ctrl_calls :: "ctrl_call list"
  ctrl_cbs :: "ctrl_cb list"

definition on_ctrl_queue ::
  "CTRL_REQUEST_TYPE \<Rightarrow> (CtrlRequest RequestQueue \<Rightarrow> CtrlRequest RequestQueue) \<Rightarrow> ctrl_client \<Rightarrow> ctrl_client" where
  "on_ctrl_queue t f c = c\<lparr>mCtrlQueues := (mCtrlQueues c)(t := f (mCtrlQueues c t))\<rparr>"

definition ctrl :: "ctrl_call \<Rightarrow> ctrl_client \<Rightarrow> ctrl_client" where
  "ctrl a c = c\<lparr>ctrl_calls := ctrl_calls c @ [a]\<rparr>"

definition ctrl_callback :: "ctrl_cb \<Rightarrow> ctrl_client \<Rightarrow> ctrl_client" where
  "ctrl_callback b c = c\<lparr>ctrl_cbs := ctrl_cbs c @ [b]\<rparr>"

definition LocationAPIControlClient :: "bool \<Rightarrow> ctrl_client" where
  "LocationAPIControlClient created =
     \<lparr>mLocationControlAPI = created, mCtrlQueues = (\<lambda>_. rq_reset 0 \<lparr>mSession = 0, mQueue = []\<rparr>),
      mEnabled = False, mConfig = 0, ctrl_calls = [C_createInstance], ctrl_cbs = []\<rparr>"

definition LocationAPIControlClient_destroy :: "ctrl_client \<Rightarrow> ctrl_client" where
  "LocationAPIControlClient_destroy c =
     (let c = (if mLocationControlAPI c then (ctrl C_destroy c)\<lparr>mLocationControlAPI := False\<rparr> else c) in
      c\<lparr>mCtrlQueues := (\<lambda>t. rq_reset 0 (mCtrlQueues c t))\<rparr>)"

definition locAPIGnssDeleteAidingData :: "opaque \<Rightarrow> uint32 \<Rightarrow> ctrl_client \<Rightarrow> LocationError \<times> ctrl_client" where
  "locAPIGnssDeleteAidingData data ret c =
     (if mLocationControlAPI c then
        (LOCATION_ERROR_SUCCESS,
         on_ctrl_queue CTRL_REQUEST_DELETEAIDINGDATA (rq_push GnssDeleteAidingDataRequest \<circ> rq_reset ret)
           (ctrl (C_gnssDeleteAidingData data) c))
      else (LOCATION_ERROR_GENERAL_FAILURE, c))"

definition locAPIEnable :: "opaque \<Rightarrow> uint32 \<Rightarrow> ctrl_client \<Rightarrow> LocationError \<times> ctrl_client" where
  "locAPIEnable techType ret c =
     (if mEnabled c then (LOCATION_ERROR_SUCCESS, c)
      else if mLocationControlAPI c then
        (LOCATION_ERROR_SUCCESS,
         (on_ctrl_queue CTRL_REQUEST_CONTROL (rq_push EnableRequest \<circ> rq_reset ret)
           (ctrl (C_enable techType) c))\<lparr>mEnabled := True\<rparr>)
      else (LOCATION_ERROR_GENERAL_FAILURE, c))"

definition locAPIDisable :: "ctrl_client \<Rightarrow> ctrl_client" where
  "locAPIDisable c =
     (if mEnabled c \<and> mLocationControlAPI c then
        (let session = mSession (mCtrlQueues c CTRL_REQUEST_CONTROL) in
         if session > 0 then
           (ctrl (C_disable session) (on_ctrl_queue CTRL_REQUEST_CONTROL (rq_push DisableRequest) c))\<lparr>mEnabled := False\<rparr>
         else c)
      else c)"

text \<open>\<open>idArray\<close>: \<open>gnssUpdateConfig\<close> returns an array.\<close>

definition locAPIGnssUpdateConfig :: "opaque \<Rightarrow> bool \<Rightarrow> ctrl_client \<Rightarrow> LocationError \<times> ctrl_client" where
  "locAPIGnssUpdateConfig config idArray c =
     (if mConfig c = config then (LOCATION_ERROR_SUCCESS, c)
      else if mLocationControlAPI c then
        (let c = ctrl (C_gnssUpdateConfig config) (c\<lparr>mConfig := config\<rparr>) in
         if idArray then
           (let c = (if mSession (mCtrlQueues c CTRL_REQUEST_CONFIG) \<noteq> CONFIG_SESSION_ID
                     then on_ctrl_queue CTRL_REQUEST_CONFIG (rq_reset CONFIG_SESSION_ID) c else c) in
            (LOCATION_ERROR_SUCCESS, on_ctrl_queue CTRL_REQUEST_CONFIG (rq_push GnssUpdateConfigRequest) c))
         else (LOCATION_ERROR_GENERAL_FAILURE, c))
      else (LOCATION_ERROR_GENERAL_FAILURE, c))"

definition ctrl_pop :: "CTRL_REQUEST_TYPE \<Rightarrow> ctrl_client \<Rightarrow> CtrlRequest option \<times> ctrl_client" where
  "ctrl_pop t c = (let (r, q) = rq_pop (mCtrlQueues c t) in (r, c\<lparr>mCtrlQueues := (mCtrlQueues c)(t := q)\<rparr>))"

definition ctrl_getRequestBySession :: "uint32 \<Rightarrow> ctrl_client \<Rightarrow> CtrlRequest option \<times> ctrl_client" where
  "ctrl_getRequestBySession session c =
     (if mSession (mCtrlQueues c CTRL_REQUEST_DELETEAIDINGDATA) = session then ctrl_pop CTRL_REQUEST_DELETEAIDINGDATA c
      else if mSession (mCtrlQueues c CTRL_REQUEST_CONTROL) = session then ctrl_pop CTRL_REQUEST_CONTROL c
      else (None, c))"

definition ctrl_onResponse :: "CtrlRequest \<Rightarrow> LocationError \<Rightarrow> ctrl_client \<Rightarrow> ctrl_client" where
  "ctrl_onResponse r err c =
     (case r of
        GnssDeleteAidingDataRequest \<Rightarrow> ctrl_callback (onGnssDeleteAidingDataCb err) c
      | EnableRequest \<Rightarrow> ctrl_callback (onEnableCb err) c
      | DisableRequest \<Rightarrow> ctrl_callback (onDisableCb err) c
      | GnssUpdateConfigRequest \<Rightarrow> c)"

definition onCtrlResponseCb :: "LocationError \<Rightarrow> uint32 \<Rightarrow> ctrl_client \<Rightarrow> ctrl_client" where
  "onCtrlResponseCb err i c =
     (let (request, c) = ctrl_getRequestBySession i c in
      case request of None \<Rightarrow> c | Some r \<Rightarrow> ctrl_onResponse r err c)"

definition onCtrlCollectiveResponseCb :: "LocationError list \<Rightarrow> uint32 list \<Rightarrow> ctrl_client \<Rightarrow> ctrl_client" where
  "onCtrlCollectiveResponseCb errors ids c =
     (let (request, c) =
        (if mSession (mCtrlQueues c CTRL_REQUEST_CONFIG) = CONFIG_SESSION_ID
         then ctrl_pop CTRL_REQUEST_CONFIG c else (None, c)) in
      case request of
        Some GnssUpdateConfigRequest \<Rightarrow> ctrl_callback (onGnssUpdateConfigCb errors ids) c
      | _ \<Rightarrow> c)"

end
