(* ===== verification/LocClientProofs.thy ===== *)
theory LocClientProofs
  imports LocClient
begin

text \<open>
  The client side of the location API (\<open>gps/location/LocationAPIClientBase.{h,cpp}\<close>): its
  dictionaries are bijections, the session table of every reachable client matches the sessions
  the API was asked for, geofences go out and come back under the client's identifiers, and
  what the code does in the places where it deviates from that.
\<close>

section \<open>The dictionary\<close>

text \<open>Forward and backward map are inverse, every session has an entry, and 0 is no session.\<close>

definition bd_ok :: "'e BiDict \<Rightarrow> bool" where
  "bd_ok d \<longleftrightarrow> (\<forall>i s. mForwardMap d i = Some s \<longleftrightarrow> mBackwardMap d s = Some i) \<and>
     dom (mExtMap d) = dom (mBackwardMap d) \<and> mBackwardMap d 0 = None"

named_theorems bidict_simps \<open>the dictionary operations\<close>

lemma bd_okD:
  assumes "bd_ok d" "mForwardMap d i = Some s"
  shows "mBackwardMap d s = Some i" "s \<noteq> 0" "\<exists>e. mExtMap d s = Some e"
proof -
  show b: "mBackwardMap d s = Some i" using assms by (auto simp: bd_ok_def)
  then show "s \<noteq> 0" using assms(1) by (auto simp: bd_ok_def)
  have "s \<in> dom (mExtMap d)" using b assms(1) by (auto simp: bd_ok_def)
  then show "\<exists>e. mExtMap d s = Some e" by auto
qed

lemma bd_ok_back: "bd_ok d \<Longrightarrow> mBackwardMap d s = Some i \<Longrightarrow> mForwardMap d i = Some s"
  by (auto simp: bd_ok_def)

lemma bd_ok_iff: "bd_ok d \<Longrightarrow> mForwardMap d i = Some s \<longleftrightarrow> mBackwardMap d s = Some i"
  by (auto simp: bd_ok_def)

lemma bd_okI:
  assumes "\<And>i s. mForwardMap d i = Some s \<longleftrightarrow> mBackwardMap d s = Some i"
    "dom (mExtMap d) = dom (mBackwardMap d)" "mBackwardMap d 0 = None"
  shows "bd_ok d"
  using assms by (simp add: bd_ok_def)

lemma bd_ok_new [simp]: "bd_ok new_BiDict"
  by (simp add: bd_ok_def new_BiDict_def)

lemma bd_ok_set:
  assumes "bd_ok d" "s \<noteq> 0" "mForwardMap d i = None" "mBackwardMap d s = None"
  shows "bd_ok (bd_set i s e d)"
proof (rule bd_okI)
  show "mForwardMap (bd_set i s e d) j = Some t \<longleftrightarrow> mBackwardMap (bd_set i s e d) t = Some j" for j t
    using bd_ok_iff [OF assms(1), of j t] bd_ok_iff [OF assms(1), of i t] bd_ok_iff [OF assms(1), of j s] assms(3,4)
    by (cases "j = i"; cases "t = s") (auto simp: bd_set_def)
qed (use assms in \<open>auto simp: bd_set_def bd_ok_def\<close>)

lemma bd_ok_set_same:
  assumes "bd_ok d" "mForwardMap d i = Some s"
  shows "bd_ok (bd_set i s e d)"
proof (rule bd_okI)
  show "mForwardMap (bd_set i s e d) j = Some t \<longleftrightarrow> mBackwardMap (bd_set i s e d) t = Some j" for j t
    using bd_ok_iff [OF assms(1), of j t] bd_ok_iff [OF assms(1), of i t] bd_ok_iff [OF assms(1), of j s] assms(2)
      bd_okD(1) [OF assms]
    by (cases "j = i"; cases "t = s") (auto simp: bd_set_def)
qed (use assms bd_okD [OF assms] in \<open>auto simp: bd_set_def bd_ok_def\<close>)

lemma rmBySession_eq [bidict_simps]:
  assumes "mBackwardMap d s = Some i"
  shows "rmBySession s d = d\<lparr>mForwardMap := (mForwardMap d)(i := None),
    mBackwardMap := (mBackwardMap d)(s := None), mExtMap := (mExtMap d)(s := None)\<rparr>"
  using assms by (simp add: rmBySession_def map_at_def map_erase_def)

lemma rmById_eq [bidict_simps]:
  assumes "mForwardMap d i = Some s"
  shows "rmById i d = d\<lparr>mForwardMap := (mForwardMap d)(i := None),
    mBackwardMap := (mBackwardMap d)(s := None), mExtMap := (mExtMap d)(s := None)\<rparr>"
  using assms by (simp add: rmById_def map_at_def map_erase_def)

lemma bd_ok_remove:
  assumes "bd_ok d" "mForwardMap d i = Some s"
  shows "bd_ok (d\<lparr>mForwardMap := (mForwardMap d)(i := None),
    mBackwardMap := (mBackwardMap d)(s := None), mExtMap := (mExtMap d)(s := None)\<rparr>)"
proof (rule bd_okI, goal_cases)
  case (1 j t)
  then show ?case
    using bd_ok_iff [OF assms(1), of j t] bd_ok_iff [OF assms(1), of i t] bd_ok_iff [OF assms(1), of j s] assms(2)
      bd_okD(1) [OF assms]
    by (cases "j = i"; cases "t = s") auto
qed (use assms in \<open>auto simp: bd_ok_def\<close>)

lemma getExtById_eq [bidict_simps]:
  assumes "bd_ok d" "mForwardMap d i = Some s"
  shows "getExtById z i d = (the (mExtMap d s), d)"
  using bd_okD [OF assms] assms(2) by (auto simp: getExtById_def map_at_def word_gt_0)

section \<open>The session table\<close>

text \<open>
  The entry of a session carries, depending on its mode, the session as its tracking or as its
  batching session. The API answers 0 when it has no provider, and 0 is then entered like a session:
  any number of client identifiers map to it, and it maps back to the last of them at most.
\<close>

definition entity_ok :: "uint32 \<Rightarrow> uint32 \<Rightarrow> SessionEntity \<Rightarrow> bool" where
  "entity_ok i s e \<longleftrightarrow> se_id e \<in> {i, 0} \<and>
     (if se_sessionMode e = SESSION_MODE_ON_FIX then trackingSession e = s \<and> batchingSession e = 0
      else batchingSession e = s \<and> trackingSession e = 0)"

definition sess_ok :: "SessionEntity BiDict \<Rightarrow> bool" where
  "sess_ok d \<longleftrightarrow> (\<forall>i s. s \<noteq> 0 \<longrightarrow> (mForwardMap d i = Some s \<longleftrightarrow> mBackwardMap d s = Some i)) \<and>
     (\<forall>i. mBackwardMap d 0 = Some i \<longrightarrow> mForwardMap d i = Some 0) \<and> dom (mExtMap d) = dom (mBackwardMap d) \<and>
     (\<forall>s i e. s \<noteq> 0 \<and> mBackwardMap d s = Some i \<and> mExtMap d s = Some e \<longrightarrow> entity_ok i s e)"

lemma sess_ok_iff: "sess_ok d \<Longrightarrow> s \<noteq> 0 \<Longrightarrow> mForwardMap d i = Some s \<longleftrightarrow> mBackwardMap d s = Some i"
  by (simp add: sess_ok_def)

lemma sess_ok_back: "sess_ok d \<Longrightarrow> mBackwardMap d s = Some i \<Longrightarrow> mForwardMap d i = Some s"
  by (cases "s = 0") (auto simp: sess_ok_def)

lemma sess_okD:
  assumes "sess_ok d" "mForwardMap d i = Some s" "s \<noteq> 0"
  obtains e where "mBackwardMap d s = Some i" "mExtMap d s = Some e" "entity_ok i s e"
proof -
  have b: "mBackwardMap d s = Some i" using assms by (simp add: sess_ok_def)
  then have "s \<in> dom (mExtMap d)" using assms(1) by (auto simp: sess_ok_def)
  then obtain e where "mExtMap d s = Some e" by auto
  then show ?thesis using that b assms(1,3) by (simp add: sess_ok_def)
qed

lemma sess_okI:
  assumes "\<And>i s. s \<noteq> 0 \<Longrightarrow> mForwardMap d i = Some s \<longleftrightarrow> mBackwardMap d s = Some i"
    "\<And>i. mBackwardMap d 0 = Some i \<Longrightarrow> mForwardMap d i = Some 0" "dom (mExtMap d) = dom (mBackwardMap d)"
    "\<And>s i e. s \<noteq> 0 \<Longrightarrow> mBackwardMap d s = Some i \<Longrightarrow> mExtMap d s = Some e \<Longrightarrow> entity_ok i s e"
  shows "sess_ok d"
  using assms by (simp add: sess_ok_def)

lemma sess_ok_set:
  assumes "sess_ok d" "s = 0 \<or> mBackwardMap d s = None" "mForwardMap d i = None" "entity_ok i s e"
  shows "sess_ok (bd_set i s e d)"
proof (rule sess_okI)
  show "mForwardMap (bd_set i s e d) j = Some t \<longleftrightarrow> mBackwardMap (bd_set i s e d) t = Some j" if "t \<noteq> 0" for j t
    using sess_ok_iff [OF assms(1) that, of j] sess_ok_iff [OF assms(1) that, of i] assms(2,3) that
    by (cases "j = i"; cases "t = s") (auto simp: bd_set_def)
  show "mForwardMap (bd_set i s e d) j = Some 0" if "mBackwardMap (bd_set i s e d) 0 = Some j" for j
    using sess_ok_back [OF assms(1), of 0 j] assms(3) that by (auto simp: bd_set_def split: if_splits)
  show "dom (mExtMap (bd_set i s e d)) = dom (mBackwardMap (bd_set i s e d))"
    using assms(1) by (simp add: sess_ok_def bd_set_def)
  show "entity_ok j t f" if "t \<noteq> 0" "mBackwardMap (bd_set i s e d) t = Some j" "mExtMap (bd_set i s e d) t = Some f" for t j f
    using that assms(1,4) by (auto simp: sess_ok_def bd_set_def split: if_splits)
qed

lemma sess_ok_remove:
  assumes "sess_ok d" "mForwardMap d i = Some s"
  shows "sess_ok (d\<lparr>mForwardMap := (mForwardMap d)(i := None),
    mBackwardMap := (mBackwardMap d)(s := None), mExtMap := (mExtMap d)(s := None)\<rparr>)" (is "sess_ok ?d")
proof (rule sess_okI)
  show "mForwardMap ?d j = Some t \<longleftrightarrow> mBackwardMap ?d t = Some j" if "t \<noteq> 0" for j t
    using sess_ok_iff [OF assms(1) that, of j] sess_ok_iff [OF assms(1) that, of i] assms(2)
    by (cases "j = i"; cases "t = s") auto
  show "mForwardMap ?d j = Some 0" if "mBackwardMap ?d 0 = Some j" for j
    using sess_ok_back [OF assms(1), of 0 j] assms(2) that by (auto split: if_splits)
  show "dom (mExtMap ?d) = dom (mBackwardMap ?d)" using assms(1) by (simp add: sess_ok_def)
  show "entity_ok j t f" if "t \<noteq> 0" "mBackwardMap ?d t = Some j" "mExtMap ?d t = Some f" for t j f
    using that assms(1) by (auto simp: sess_ok_def split: if_splits)
qed

lemma sess_ok_rmBySession: "sess_ok d \<Longrightarrow> hasSession d s \<Longrightarrow> sess_ok (rmBySession s d)"
  using sess_ok_remove [of d _ s] sess_ok_back [of d s] by (auto simp: hasSession_def rmBySession_eq)

lemma completed_trips_ok: "sess_ok d \<Longrightarrow> sess_ok (snd (completed_trips ss d))"
proof (induction ss arbitrary: d)
  case (Cons s ss)
  show ?case
  proof (cases "hasSession d s \<and> se_sessionMode (getExtBySession zero_entity d s) = SESSION_MODE_ON_TRIP_COMPLETED")
    case True
    then show ?thesis
      using Cons.IH [OF sess_ok_rmBySession [OF Cons.prems, of s]] by (auto simp: Let_def split: prod.split)
  next
    case False
    then show ?thesis using Cons.IH [OF Cons.prems] by (auto simp: Let_def)
  qed
qed simp

lemma client_simps [simp]:
  "mSessionBiDict (on_queue t f c) = mSessionBiDict c" "mSessionBiDict (api a c) = mSessionBiDict c"
  "mSessionBiDict (callback b c) = mSessionBiDict c" "mLocationAPI (on_queue t f c) = mLocationAPI c"
  "mLocationAPI (api a c) = mLocationAPI c" "mLocationAPI (callback b c) = mLocationAPI c"
  "mGeofenceBiDict (on_queue t f c) = mGeofenceBiDict c" "mGeofenceBiDict (api a c) = mGeofenceBiDict c"
  "mGeofenceBiDict (callback b c) = mGeofenceBiDict c"
  "api_calls (on_queue t f c) = api_calls c" "api_calls (api a c) = api_calls c @ [a]"
  "api_calls (callback b c) = api_calls c" "cb_calls (on_queue t f c) = cb_calls c"
  "cb_calls (api a c) = cb_calls c" "cb_calls (callback b c) = cb_calls c @ [b]"
  "mTracking (on_queue t f c) = mTracking c" "mTracking (api a c) = mTracking c"
  "mTracking (callback b c) = mTracking c"
  "mRequestQueues (on_queue t f c) = (mRequestQueues c)(t := f (mRequestQueues c t))"
  "mRequestQueues (api a c) = mRequestQueues c" "mRequestQueues (callback b c) = mRequestQueues c"
  by (simp_all add: on_queue_def api_def callback_def)

lemma pop_session [simp]: "mSessionBiDict (snd (pop_queue t c)) = mSessionBiDict c"
  by (simp add: pop_queue_def split: prod.split)

lemma getRequest_session: "mSessionBiDict (snd (getRequestBySession s c)) = mSessionBiDict c"
  by (auto simp: getRequestBySession_def pop_queue_def Let_def split: prod.splits)

lemma removeSession_ok: "sess_ok (mSessionBiDict c) \<Longrightarrow> sess_ok (mSessionBiDict (removeSession s c))"
  by (simp add: removeSession_def sess_ok_rmBySession)

lemma onResponse_ok: "sess_ok (mSessionBiDict c) \<Longrightarrow> sess_ok (mSessionBiDict (onResponse r err i c))"
  by (cases r) (simp_all add: onResponse_def removeSession_ok Let_def)

lemma onResponseCb_ok:
  assumes "sess_ok (mSessionBiDict c)"
  shows "sess_ok (mSessionBiDict (onResponseCb err i c))"
proof -
  obtain r c' where r: "getRequestBySession i c = (r, c')" by (cases "getRequestBySession i c")
  then have "sess_ok (mSessionBiDict c')" using assms getRequest_session [of i c] by simp
  then show ?thesis using r by (cases r) (simp_all add: onResponseCb_def onResponse_ok)
qed

text \<open>What the API returns for a start: 0, or a session that is not in use.\<close>

definition fresh_session :: "uint32 \<Rightarrow> loc_client \<Rightarrow> bool" where
  "fresh_session ret c \<longleftrightarrow> ret = 0 \<or> \<not> hasSession (mSessionBiDict c) ret"

lemma startSession_ok:
  assumes "sess_ok (mSessionBiDict c)" "fresh_session ret c"
  shows "sess_ok (mSessionBiDict (snd (locAPIStartSession i m opt ret c)))"
  using assms
  by (auto simp: locAPIStartSession_def Let_def hasId_def hasSession_def entity_ok_def fresh_session_def intro!: sess_ok_set)

lemma session_entry:
  assumes "sess_ok (mSessionBiDict c)" "hasId (mSessionBiDict c) i"
  obtains s e where "mForwardMap (mSessionBiDict c) i = Some s" "entity_ok i s e"
    "getExtById zero_entity i (mSessionBiDict c) = (e, mSessionBiDict c)"
    "if s = 0 then e = zero_entity else mBackwardMap (mSessionBiDict c) s = Some i \<and> mExtMap (mSessionBiDict c) s = Some e"
proof -
  obtain s where s: "mForwardMap (mSessionBiDict c) i = Some s" using assms(2) by (auto simp: hasId_def)
  show ?thesis
  proof (cases "s = 0")
    case True
    then show ?thesis using that [of 0 zero_entity] s
      by (simp add: getExtById_def map_at_def entity_ok_def zero_entity_def SESSION_MODE_ON_FIX_def)
  next
    case False
    obtain e where e: "mBackwardMap (mSessionBiDict c) s = Some i" "mExtMap (mSessionBiDict c) s = Some e"
      "entity_ok i s e"
      using sess_okD [OF assms(1) s False] by blast
    have "getExtById zero_entity i (mSessionBiDict c) = (e, mSessionBiDict c)"
      using s e(2) False by (simp add: getExtById_def map_at_def word_gt_0)
    then show ?thesis using that s e False by simp
  qed
qed

lemma session_entry_of:
  assumes "sess_ok (mSessionBiDict c)" "mForwardMap (mSessionBiDict c) i = Some s" "s \<noteq> 0"
  obtains e where "entity_ok i s e" "getExtById zero_entity i (mSessionBiDict c) = (e, mSessionBiDict c)"
    "mBackwardMap (mSessionBiDict c) s = Some i" "mExtMap (mSessionBiDict c) s = Some e"
proof -
  have "hasId (mSessionBiDict c) i" using assms(2) by (simp add: hasId_def)
  from session_entry [OF assms(1) this] obtain t e where "mForwardMap (mSessionBiDict c) i = Some t" "entity_ok i t e"
    "getExtById zero_entity i (mSessionBiDict c) = (e, mSessionBiDict c)"
    "if t = 0 then e = zero_entity else mBackwardMap (mSessionBiDict c) t = Some i \<and> mExtMap (mSessionBiDict c) t = Some e"
    by blast
  then show ?thesis using that assms(2,3) by simp
qed

text \<open>What changing the options of a session does, in the four combinations of modes.\<close>

lemma updateSession_eq:
  assumes m: "mLocationAPI c" and s: "mForwardMap (mSessionBiDict c) i = Some s" and ent: "entity_ok i s e"
    and get: "getExtById zero_entity i (mSessionBiDict c) = (e, mSessionBiDict c)"
  defines "fix \<equiv> SESSION_MODE_ON_FIX"
  shows "\<exists>c'. locAPIUpdateSessionOptions i mode opt ret c = (LOCATION_ERROR_SUCCESS, c') \<and>
    mSessionBiDict c' =
      (let s' = (if (mode = fix) = (se_sessionMode e = fix) then s else ret) in
       bd_set i s' (e\<lparr>trackingSession := if mode = fix then s' else 0, batchingSession := if mode = fix then 0 else s',
                      se_sessionMode := mode\<rparr>) (rmById i (mSessionBiDict c))) \<and>
    api_calls c' = api_calls c @
      (if mode = fix then (if se_sessionMode e = fix then [A_updateTrackingOptions s opt]
                           else [A_stopBatching s, A_startTracking opt])
       else (if se_sessionMode e = fix then [A_stopTracking s, A_startBatching opt (batching_mode mode)]
             else [A_updateBatchingOptions s opt (batching_mode mode)])) \<and>
    mRequestQueues c' REQUEST_TRACKING = mRequestQueues c REQUEST_TRACKING \<and>
    mRequestQueues c' REQUEST_NIRESPONSE = mRequestQueues c REQUEST_NIRESPONSE"
proof -
  have has: "hasId (mSessionBiDict c) i" using s by (simp add: hasId_def)
  show ?thesis
  proof (cases "mode = fix")
    case True
    then show ?thesis using m has get ent
      by (cases "se_sessionMode e = fix")
        (simp_all add: locAPIUpdateSessionOptions_def Let_def entity_ok_def fix_def)
  next
    case False
    then show ?thesis using m has get ent
      by (cases "se_sessionMode e = fix")
        (simp_all add: locAPIUpdateSessionOptions_def Let_def entity_ok_def fix_def)
  qed
qed

lemma sess_ok_replace:
  assumes ok: "sess_ok d" and s: "mForwardMap d i = Some s" and s': "s' = s \<or> s' = 0 \<or> mBackwardMap d s' = None"
    and e: "entity_ok i s' e"
  shows "sess_ok (bd_set i s' e (rmById i d))"
  unfolding rmById_eq [OF s] by (intro sess_ok_set sess_ok_remove [OF ok s] e) (use s' in auto)

lemma updateSession_ok:
  assumes ok: "sess_ok (mSessionBiDict c)" and ret: "fresh_session ret c"
  shows "sess_ok (mSessionBiDict (snd (locAPIUpdateSessionOptions i mode opt ret c)))"
proof (cases "mLocationAPI c \<and> hasId (mSessionBiDict c) i")
  case False
  then show ?thesis using ok by (auto simp: locAPIUpdateSessionOptions_def)
next
  case True
  obtain s e where s: "mForwardMap (mSessionBiDict c) i = Some s" "entity_ok i s e"
    "getExtById zero_entity i (mSessionBiDict c) = (e, mSessionBiDict c)"
    using session_entry [OF ok, of i] True by blast
  obtain c' where c': "locAPIUpdateSessionOptions i mode opt ret c = (LOCATION_ERROR_SUCCESS, c')"
    "mSessionBiDict c' =
      (let s' = (if (mode = SESSION_MODE_ON_FIX) = (se_sessionMode e = SESSION_MODE_ON_FIX) then s else ret) in
       bd_set i s' (e\<lparr>trackingSession := if mode = SESSION_MODE_ON_FIX then s' else 0,
          batchingSession := if mode = SESSION_MODE_ON_FIX then 0 else s', se_sessionMode := mode\<rparr>) (rmById i (mSessionBiDict c)))"
    using updateSession_eq [OF _ s, of mode opt ret] True by blast
  have "sess_ok (mSessionBiDict c')"
    unfolding c'(2) Let_def
    by (intro sess_ok_replace [OF ok s(1)]) (use s(2) ret in \<open>auto simp: entity_ok_def fresh_session_def hasSession_def\<close>)
  then show ?thesis by (simp add: c'(1))
qed

lemma stopSession_same: "sess_ok (mSessionBiDict c) \<Longrightarrow> mSessionBiDict (snd (locAPIStopSession i c)) = mSessionBiDict c"
proof (cases "mLocationAPI c \<and> hasId (mSessionBiDict c) i")
  case True
  assume ok: "sess_ok (mSessionBiDict c)"
  obtain e where "getExtById zero_entity i (mSessionBiDict c) = (e, mSessionBiDict c)"
    using session_entry [OF ok, of i] True by blast
  then show ?thesis using True by (simp add: locAPIStopSession_def)
qed (auto simp: locAPIStopSession_def)

lemma getBatched_same:
  "sess_ok (mSessionBiDict c) \<Longrightarrow> mSessionBiDict (snd (locAPIGetBatchedLocations i n c)) = mSessionBiDict c"
proof (cases "mLocationAPI c \<and> hasId (mSessionBiDict c) i")
  case True
  assume ok: "sess_ok (mSessionBiDict c)"
  obtain e where "getExtById zero_entity i (mSessionBiDict c) = (e, mSessionBiDict c)"
    using session_entry [OF ok, of i] True by blast
  then show ?thesis using True by (simp add: locAPIGetBatchedLocations_def)
qed (auto simp: locAPIGetBatchedLocations_def)

section \<open>Reachable clients\<close>

text \<open>
  Every history of calls by the client and answers and events of the API, in which the API
  hands out a session that is not in use, or 0 for lack of a provider, whenever it is asked for one.
\<close>

inductive lc_reach :: "loc_client \<Rightarrow> bool" where
  new: "lc_reach LocationAPIClientBase"
| callbacks: "lc_reach c \<Longrightarrow> lc_reach (locAPISetCallbacks g b created c)"
| start: "lc_reach c \<Longrightarrow> fresh_session ret c \<Longrightarrow>
    lc_reach (snd (locAPIStartSession i m opt ret c))"
| stop: "lc_reach c \<Longrightarrow> lc_reach (snd (locAPIStopSession i c))"
| update: "lc_reach c \<Longrightarrow> fresh_session ret c \<Longrightarrow>
    lc_reach (snd (locAPIUpdateSessionOptions i m opt ret c))"
| batched: "lc_reach c \<Longrightarrow> lc_reach (snd (locAPIGetBatchedLocations i n c))"
| track: "lc_reach c \<Longrightarrow> lc_reach (snd (locAPIStartTracking opt ret c))"
| untrack: "lc_reach c \<Longrightarrow> lc_reach (locAPIStopTracking c)"
| retrack: "lc_reach c \<Longrightarrow> lc_reach (locAPIUpdateTrackingOptions opt c)"
| add: "lc_reach c \<Longrightarrow> lc_reach (snd (locAPIAddGeofences ids opts dat ss c))"
| remove: "lc_reach c \<Longrightarrow> lc_reach (locAPIRemoveGeofences mem ids c)"
| modify: "lc_reach c \<Longrightarrow> lc_reach (locAPIModifyGeofences mem ids opts c)"
| pause: "lc_reach c \<Longrightarrow> lc_reach (locAPIPauseGeofences mem ids c)"
| resume: "lc_reach c \<Longrightarrow> lc_reach (locAPIResumeGeofences mem ids ms c)"
| ni: "lc_reach c \<Longrightarrow> lc_reach (locAPIGnssNiResponse i opt c)"
| response: "lc_reach c \<Longrightarrow> lc_reach (onResponseCb err i c)"
| collective: "lc_reach c \<Longrightarrow> lc_reach (onCollectiveResponseCb errs ids c)"
| breach: "lc_reach c \<Longrightarrow> lc_reach (beforeGeofenceBreachCb mem ids t c)"
| trips: "lc_reach c \<Longrightarrow> beforeBatchingStatusCb trip ids c = Some c' \<Longrightarrow> lc_reach c'"

lemma onCollective_session [simp]: "mSessionBiDict (onCollectiveResponse r errs ss c) = mSessionBiDict c"
  by (cases r) (simp_all add: onCollectiveResponse_def)

lemma geofence_session [simp]:
  "mSessionBiDict (snd (locAPIAddGeofences ids opts dat ss c)) = mSessionBiDict c"
  "mSessionBiDict (locAPIRemoveGeofences mem ids c) = mSessionBiDict c"
  "mSessionBiDict (locAPIModifyGeofences mem ids opts c) = mSessionBiDict c"
  "mSessionBiDict (locAPIPauseGeofences mem ids c) = mSessionBiDict c"
  "mSessionBiDict (locAPIResumeGeofences mem ids ms c) = mSessionBiDict c"
  "mSessionBiDict (beforeGeofenceBreachCb mem ids t c) = mSessionBiDict c"
  "mSessionBiDict (locAPIGnssNiResponse i opt c) = mSessionBiDict c"
  by (auto simp: locAPIAddGeofences_def locAPIRemoveGeofences_def locAPIModifyGeofences_def
      locAPIPauseGeofences_def locAPIResumeGeofences_def beforeGeofenceBreachCb_def locAPIGnssNiResponse_def
      Let_def split: option.splits prod.splits)

lemma tracking_session [simp]:
  "mSessionBiDict (snd (locAPIStartTracking opt ret c)) = mSessionBiDict c"
  "mSessionBiDict (locAPIStopTracking c) = mSessionBiDict c"
  "mSessionBiDict (locAPIUpdateTrackingOptions opt c) = mSessionBiDict c"
  "mSessionBiDict (locAPISetCallbacks g b created c) = mSessionBiDict c"
  by (auto simp: locAPIStartTracking_def locAPIStopTracking_def locAPIUpdateTrackingOptions_def
      locAPISetCallbacks_def Let_def)

lemma collective_session [simp]: "mSessionBiDict (onCollectiveResponseCb errs ids c) = mSessionBiDict c"
proof -
  obtain r c' where "pop_queue REQUEST_GEOFENCE c = (r, c')" by (cases "pop_queue REQUEST_GEOFENCE c")
  moreover from this have "mSessionBiDict c' = mSessionBiDict c" using pop_session [of REQUEST_GEOFENCE c] by simp
  ultimately show ?thesis by (auto simp: onCollectiveResponseCb_def split: option.splits)
qed

lemma trips_ok:
  "sess_ok (mSessionBiDict c) \<Longrightarrow> beforeBatchingStatusCb trip ids c = Some c' \<Longrightarrow> sess_ok (mSessionBiDict c')"
  using completed_trips_ok [of "mSessionBiDict c" ids]
  by (auto simp: beforeBatchingStatusCb_def Let_def split: prod.splits if_splits)

lemma lc_reach_ok: "lc_reach c \<Longrightarrow> sess_ok (mSessionBiDict c)"
proof (induction rule: lc_reach.induct)
  case new
  then show ?case by (simp add: LocationAPIClientBase_def sess_ok_def new_BiDict_def)
qed (simp_all add: startSession_ok stopSession_same updateSession_ok getBatched_same onResponseCb_ok trips_ok)

section \<open>Geofences out and back\<close>

lemma bd_set_twist:
  "i \<noteq> j \<Longrightarrow> s \<noteq> t \<Longrightarrow> bd_set i s a (bd_set j t b d) = bd_set j t b (bd_set i s a d)"
  by (simp add: bd_set_def fun_upd_twist)

lemma add_geofences_twist:
  "i \<notin> fst ` set xs \<Longrightarrow> s \<notin> (fst \<circ> snd) ` set xs \<Longrightarrow>
     add_geofences xs (bd_set i s e d) = bd_set i s e (add_geofences xs d)"
proof (induction xs arbitrary: d)
  case (Cons x xs)
  obtain j t opt where x: "x = (j, t, opt)" by (cases x) auto
  have "bd_set j t (breachTypeMask opt) (bd_set i s e d) = bd_set i s e (bd_set j t (breachTypeMask opt) d)"
    by (rule bd_set_twist) (use Cons.prems x in auto)
  then show ?case using Cons x by simp
qed simp

lemma add_geofences_absent:
  "i \<notin> fst ` set xs \<Longrightarrow> mForwardMap (add_geofences xs d) i = mForwardMap d i"
  "s \<notin> (fst \<circ> snd) ` set xs \<Longrightarrow> mBackwardMap (add_geofences xs d) s = mBackwardMap d s"
  "s \<notin> (fst \<circ> snd) ` set xs \<Longrightarrow> mExtMap (add_geofences xs d) s = mExtMap d s"
  by (induction xs d rule: add_geofences.induct) (auto simp: bd_set_def)

lemma rm_set:
  "mForwardMap d i = None \<Longrightarrow> mBackwardMap d s = None \<Longrightarrow> mExtMap d s = None \<Longrightarrow>
     rmBySession s (bd_set i s e d) = d"
  by (auto simp: rmBySession_def bd_set_def map_at_def map_erase_def fun_upd_idem)

lemma remove_added:
  assumes "distinct (map fst xs)" "distinct (map (fst \<circ> snd) xs)" "0 \<notin> (fst \<circ> snd) ` set xs"
    and "\<And>i s opt. (i, s, opt) \<in> set xs \<Longrightarrow> mForwardMap d i = None \<and> mBackwardMap d s = None \<and> mExtMap d s = None"
  shows "remove_geofences (map fst xs) (add_geofences xs d) rem = (map (fst \<circ> snd) xs, d, add_geofences xs rem)"
  using assms
proof (induction xs arbitrary: rem)
  case (Cons x xs)
  obtain i s opt where x: "x = (i, s, opt)" by (cases x) auto
  have ni: "i \<notin> fst ` set xs" "s \<notin> (fst \<circ> snd) ` set xs" "s \<noteq> 0" using Cons.prems x by auto
  have none: "mForwardMap d i = None" "mBackwardMap d s = None" "mExtMap d s = None"
    using Cons.prems(4) [of i s opt] x by auto
  let ?D = "add_geofences xs d"
  have D: "add_geofences (x # xs) d = bd_set i s (breachTypeMask opt) ?D"
    using x add_geofences_twist [OF ni(1,2)] by simp
  have sess: "getSession (bd_set i s (breachTypeMask opt) ?D) i = s"
    "getExtBySession 0 (bd_set i s (breachTypeMask opt) ?D) s = breachTypeMask opt"
    by (simp_all add: getSession_def getExtBySession_def bd_set_def)
  have rm: "rmBySession s (bd_set i s (breachTypeMask opt) ?D) = ?D"
    by (rule rm_set) (use none add_geofences_absent ni in auto)
  have "remove_geofences (map fst xs) ?D (bd_set i s (breachTypeMask opt) rem) =
      (map (fst \<circ> snd) xs, d, add_geofences xs (bd_set i s (breachTypeMask opt) rem))"
    by (rule Cons.IH) (use Cons.prems in auto)
  then show ?case
    using D sess rm ni(3) x by (simp add: Let_def word_gt_0)
qed simp

lemma getId_added:
  "distinct (map (fst \<circ> snd) xs) \<Longrightarrow> map (getId (add_geofences xs d)) (map (fst \<circ> snd) xs) = map fst xs"
proof (induction xs arbitrary: d)
  case (Cons x xs)
  obtain i s opt where x: "x = (i, s, opt)" by (cases x) auto
  have "getId (add_geofences xs (bd_set i s (breachTypeMask opt) d)) s = i"
    using Cons.prems x add_geofences_absent(2) [of s xs] by (simp add: getId_def bd_set_def)
  then show ?case using Cons x by simp
qed simp

lemma remove_unknown:
  "(\<And>i. i \<in> set is \<Longrightarrow> mForwardMap d i = None) \<Longrightarrow> remove_geofences is d rem = ([], d, rem)"
  by (induction "is") (auto simp: getSession_def)

section \<open>Properties\<close>

text \<open>A client with an API object, and the same with one batching session, number 7, for id 1.\<close>

definition ex_client :: loc_client where
  "ex_client = locAPISetCallbacks True True True LocationAPIClientBase"

definition ex_session :: loc_client where
  "ex_session = snd (locAPIStartSession 1 SESSION_MODE_ON_FULL 0 7 ex_client)"

lemma ex_client_reach: "lc_reach ex_client"
  unfolding ex_client_def by (intro lc_reach.intros)

lemma ex_client_simps: "mLocationAPI ex_client" "mSessionBiDict ex_client = new_BiDict"
  "mGeofenceBiDict ex_client = new_BiDict" "\<not> mTracking ex_client"
  "mQueue (mRequestQueues ex_client t) = []" "mSession (mRequestQueues ex_client t) = 0"
  "api_calls ex_client = [A_createInstance]" "cb_calls ex_client = []"
  by (simp_all add: ex_client_def locAPISetCallbacks_def LocationAPIClientBase_def api_def rq_reset_def)

lemma ex_session_reach: "lc_reach ex_session"
  unfolding ex_session_def
  by (rule lc_reach.start [OF ex_client_reach])
    (simp_all add: ex_client_simps fresh_session_def hasSession_def new_BiDict_def)

lemma ex_session_simps: "mLocationAPI ex_session" "mForwardMap (mSessionBiDict ex_session) 1 = Some 7"
  "mExtMap (mSessionBiDict ex_session) 7 = Some \<lparr>se_id = 1, trackingSession = 0, batchingSession = 7, se_sessionMode = 1\<rparr>"
  "mBackwardMap (mSessionBiDict ex_session) = [7 \<mapsto> 1]"
  "api_calls ex_session = [A_createInstance, A_startBatching 0 BATCHING_MODE_ROUTINE]"
  "mSession (mRequestQueues ex_session REQUEST_TRACKING) = 0" "mSession (mRequestQueues ex_session REQUEST_NIRESPONSE) = 0"
  by (simp_all add: ex_session_def locAPIStartSession_def ex_client_simps hasId_def new_BiDict_def bd_set_def
      SESSION_MODE_ON_FULL_def SESSION_MODE_ON_FIX_def batching_mode_def)

text \<open>
  C7: Whatever the client calls and the API answers, where the API returns a session that is not in use
  or, without a provider, 0 for a start: a client identifier with a session maps to that session and
  back, no other identifier maps to it, and stopping it asks the API to stop that very session, as
  tracking or as batching according to the mode it is in now, and keeps it until the answer. A client
  identifier whose start was answered with 0 is kept too, and stopping it asks the API to stop batching
  session 0, also if it was tracking.
\<close>

theorem loc_client_stops_its_session:
  assumes "lc_reach c" "mLocationAPI c" "hasId (mSessionBiDict c) i"
  shows "\<exists>s c'. mForwardMap (mSessionBiDict c) i = Some s \<and> locAPIStopSession i c = (LOCATION_ERROR_SUCCESS, c') \<and>
    mSessionBiDict c' = mSessionBiDict c \<and>
    (if s = 0 then api_calls c' = api_calls c @ [A_stopBatching 0]
     else getId (mSessionBiDict c) s = i \<and> (\<forall>j. getSession (mSessionBiDict c) j = s \<longrightarrow> j = i) \<and>
       (\<exists>e. mExtMap (mSessionBiDict c) s = Some e \<and>
          api_calls c' = api_calls c @ [if se_sessionMode e = SESSION_MODE_ON_FIX then A_stopTracking s else A_stopBatching s]))"
proof -
  have ok: "sess_ok (mSessionBiDict c)" by (rule lc_reach_ok [OF assms(1)])
  obtain s e where s: "mForwardMap (mSessionBiDict c) i = Some s" "entity_ok i s e"
    "getExtById zero_entity i (mSessionBiDict c) = (e, mSessionBiDict c)"
    "if s = 0 then e = zero_entity else mBackwardMap (mSessionBiDict c) s = Some i \<and> mExtMap (mSessionBiDict c) s = Some e"
    using session_entry [OF ok assms(3)] by blast
  let ?c' = "snd (locAPIStopSession i c)"
  have stop: "locAPIStopSession i c = (LOCATION_ERROR_SUCCESS, ?c')"
    "api_calls ?c' = api_calls c @ [if se_sessionMode e = SESSION_MODE_ON_FIX then A_stopTracking s else A_stopBatching s]"
    using assms(2,3) s(2,3) by (simp_all add: locAPIStopSession_def entity_ok_def split: if_splits)
  show ?thesis
  proof (cases "s = 0")
    case True
    then have "api_calls ?c' = api_calls c @ [A_stopBatching 0]"
      using s(4) stop(2) by (simp add: zero_entity_def SESSION_MODE_ON_FIX_def)
    then show ?thesis using True s(1) stop(1) stopSession_same [OF ok, of i] by (intro exI [of _ 0] exI [of _ ?c']) simp
  next
    case False
    have "j = i" if "getSession (mSessionBiDict c) j = s" for j
      using that s(4) False sess_ok_iff [OF ok False, of j] by (auto simp: getSession_def split: option.splits)
    then show ?thesis using False s stop stopSession_same [OF ok, of i]
      by (intro exI [of _ s] exI [of _ ?c']) (simp add: getId_def)
  qed
qed

theorem loc_client_stops_its_session_witness:
  "\<exists>c'. locAPIStopSession 1 ex_session = (LOCATION_ERROR_SUCCESS, c') \<and>
     api_calls c' = [A_createInstance, A_startBatching 0 BATCHING_MODE_ROUTINE, A_stopBatching 7]"
  using loc_client_stops_its_session [OF ex_session_reach, of 1] ex_session_simps
  by (auto simp: hasId_def SESSION_MODE_ON_FIX_def)

text \<open>
  Changing the mode of a session between single fixes and batching stops the old session of
  the API, starts a new one of the other kind, and moves the client's identifier over to it; an
  answer that still comes for the old session is dropped without touching the client's state.
\<close>

theorem loc_client_mode_switch:
  assumes "lc_reach c" "mLocationAPI c" "mForwardMap (mSessionBiDict c) i = Some s"
    "mExtMap (mSessionBiDict c) s = Some e" "(mode = SESSION_MODE_ON_FIX) \<noteq> (se_sessionMode e = SESSION_MODE_ON_FIX)"
    "ret \<noteq> 0" "\<not> hasSession (mSessionBiDict c) ret"
    "mSession (mRequestQueues c REQUEST_TRACKING) \<noteq> s" "mSession (mRequestQueues c REQUEST_NIRESPONSE) \<noteq> s" "s \<noteq> 0"
  shows "\<exists>c'. locAPIUpdateSessionOptions i mode opt ret c = (LOCATION_ERROR_SUCCESS, c') \<and>
    api_calls c' = api_calls c @
      [if mode = SESSION_MODE_ON_FIX then A_stopBatching s else A_stopTracking s,
       if mode = SESSION_MODE_ON_FIX then A_startTracking opt else A_startBatching opt (batching_mode mode)] \<and>
    getSession (mSessionBiDict c') i = ret \<and> getId (mSessionBiDict c') ret = i \<and>
    sess_ok (mSessionBiDict c') \<and> (\<forall>err. onResponseCb err s c' = c')"
proof -
  have ok: "sess_ok (mSessionBiDict c)" by (rule lc_reach_ok [OF assms(1)])
  have fresh: "fresh_session ret c" using assms(7) by (simp add: fresh_session_def)
  obtain e' where e': "entity_ok i s e'" "getExtById zero_entity i (mSessionBiDict c) = (e', mSessionBiDict c)"
    "mBackwardMap (mSessionBiDict c) s = Some i" "mExtMap (mSessionBiDict c) s = Some e'"
    using session_entry_of [OF ok assms(3,10)] by blast
  have ent: "entity_ok i s e" "getExtById zero_entity i (mSessionBiDict c) = (e, mSessionBiDict c)"
    using e' assms(4) by simp_all
  obtain c' where c': "locAPIUpdateSessionOptions i mode opt ret c = (LOCATION_ERROR_SUCCESS, c')"
    "mSessionBiDict c' =
      (let s' = (if (mode = SESSION_MODE_ON_FIX) = (se_sessionMode e = SESSION_MODE_ON_FIX) then s else ret) in
       bd_set i s' (e\<lparr>trackingSession := if mode = SESSION_MODE_ON_FIX then s' else 0,
          batchingSession := if mode = SESSION_MODE_ON_FIX then 0 else s', se_sessionMode := mode\<rparr>) (rmById i (mSessionBiDict c)))"
    "api_calls c' = api_calls c @
      (if mode = SESSION_MODE_ON_FIX then (if se_sessionMode e = SESSION_MODE_ON_FIX then [A_updateTrackingOptions s opt]
                           else [A_stopBatching s, A_startTracking opt])
       else (if se_sessionMode e = SESSION_MODE_ON_FIX then [A_stopTracking s, A_startBatching opt (batching_mode mode)]
             else [A_updateBatchingOptions s opt (batching_mode mode)]))"
    "mRequestQueues c' REQUEST_TRACKING = mRequestQueues c REQUEST_TRACKING"
    "mRequestQueues c' REQUEST_NIRESPONSE = mRequestQueues c REQUEST_NIRESPONSE"
    using updateSession_eq [OF assms(2,3) ent, of mode opt ret] by blast
  have d: "mSessionBiDict c' = bd_set i ret (e\<lparr>trackingSession := if mode = SESSION_MODE_ON_FIX then ret else 0,
          batchingSession := if mode = SESSION_MODE_ON_FIX then 0 else ret, se_sessionMode := mode\<rparr>) (rmById i (mSessionBiDict c))"
    using c'(2) assms(5) by (simp add: Let_def)
  have "s \<noteq> ret" using assms(7) e'(3) by (auto simp: hasSession_def)
  then have gone: "\<not> hasSession (mSessionBiDict c') s"
    unfolding d rmById_eq [OF assms(3)] by (simp add: hasSession_def bd_set_def)
  have none: "getRequestBySession s c' = (None, c')"
    using gone assms(8,9) c'(4,5) by (simp add: getRequestBySession_def)
  have "onResponseCb err s c' = c'" for err using none by (simp add: onResponseCb_def)
  moreover have "sess_ok (mSessionBiDict c')"
    using updateSession_ok [OF ok fresh, of i mode opt] c'(1) by simp
  moreover have "getSession (mSessionBiDict c') i = ret" "getId (mSessionBiDict c') ret = i"
    unfolding d by (simp_all add: getSession_def getId_def bd_set_def)
  ultimately show ?thesis using c'(1,3) assms(5) by (intro exI [of _ c']) auto
qed

theorem loc_client_mode_switch_witness:
  "\<exists>c'. locAPIUpdateSessionOptions 1 SESSION_MODE_ON_FIX 5 8 ex_session = (LOCATION_ERROR_SUCCESS, c') \<and>
     api_calls c' = [A_createInstance, A_startBatching 0 BATCHING_MODE_ROUTINE, A_stopBatching 7, A_startTracking 5] \<and>
     getSession (mSessionBiDict c') 1 = 8 \<and> onResponseCb LOCATION_ERROR_SUCCESS 7 c' = c'"
  using loc_client_mode_switch [OF ex_session_reach, of 1 7 _ SESSION_MODE_ON_FIX 8 5] ex_session_simps
  by (auto simp: hasSession_def SESSION_MODE_ON_FIX_def)

text \<open>
  C13: Geofences come back under the client's own identifiers: adding them, hearing that they were
  added, removing them by the same identifiers and hearing that they were removed reports the
  client's identifiers both times, hands the API exactly its own sessions to remove, and leaves
  the dictionary as it was before.
\<close>

theorem loc_client_geofence_roundtrip:
  assumes "mLocationAPI c" "mQueue (mRequestQueues c REQUEST_GEOFENCE) = []"
    "length ids = length ss" "length ids = length opts" "ids \<noteq> []" "distinct ids" "distinct ss" "0 \<notin> set ss"
    "\<forall>i \<in> set ids. mForwardMap (mGeofenceBiDict c) i = None"
    "\<forall>s \<in> set ss. mBackwardMap (mGeofenceBiDict c) s = None \<and> mExtMap (mGeofenceBiDict c) s = None"
  shows "\<exists>c1 c4. locAPIAddGeofences ids opts dat (Some ss) c = (LOCATION_ERROR_SUCCESS, c1) \<and>
    c4 = onCollectiveResponseCb errs' ss (locAPIRemoveGeofences True ids (onCollectiveResponseCb errs ss c1)) \<and>
    api_calls c4 = api_calls c @ [A_addGeofences opts dat, A_removeGeofences ss] \<and>
    cb_calls c4 = cb_calls c @ [onAddGeofencesCb errs ids, onRemoveGeofencesCb errs' ids] \<and>
    mGeofenceBiDict c4 = mGeofenceBiDict c"
proof -
  let ?xs = "zip ids (zip ss opts)" and ?d = "mGeofenceBiDict c"
  have xs: "map fst ?xs = ids" "map (fst \<circ> snd) ?xs = ss"
    using assms(3,4) by (simp_all flip: map_map)
  have sub: "i \<in> set ids \<and> s \<in> set ss" if "(i, s, opt) \<in> set ?xs" for i s opt
    using that by (auto dest: set_zip_leftD set_zip_rightD)
  have rem: "remove_geofences ids (add_geofences ?xs ?d) new_BiDict = (ss, ?d, add_geofences ?xs new_BiDict)"
    using remove_added [of ?xs ?d new_BiDict] sub assms(6-10) unfolding xs set_map [symmetric] by blast
  have ids: "map (getId (add_geofences ?xs d)) ss = ids" for d :: "mask BiDict"
    using getId_added [of ?xs d] assms(7) unfolding xs by simp
  have "ss \<noteq> []" using assms(3,5) by auto
  let ?c1 = "snd (locAPIAddGeofences ids opts dat (Some ss) c)"
  have q1: "mSession (mRequestQueues ?c1 REQUEST_GEOFENCE) = GEOFENCE_SESSION_ID"
    "mQueue (mRequestQueues ?c1 REQUEST_GEOFENCE) = [AddGeofencesRequest]"
    using assms(1,2) by (auto simp: locAPIAddGeofences_def Let_def rq_push_def rq_reset_def)
  have add: "locAPIAddGeofences ids opts dat (Some ss) c = (LOCATION_ERROR_SUCCESS, ?c1)"
    "mGeofenceBiDict ?c1 = add_geofences ?xs ?d" "api_calls ?c1 = api_calls c @ [A_addGeofences opts dat]"
    "cb_calls ?c1 = cb_calls c" "mLocationAPI ?c1"
    using assms(1) by (simp_all add: locAPIAddGeofences_def Let_def)
  let ?c2 = "onCollectiveResponseCb errs ss ?c1"
  have c2: "mSession (mRequestQueues ?c2 REQUEST_GEOFENCE) = GEOFENCE_SESSION_ID"
    "mQueue (mRequestQueues ?c2 REQUEST_GEOFENCE) = []" "mGeofenceBiDict ?c2 = add_geofences ?xs ?d"
    "api_calls ?c2 = api_calls c @ [A_addGeofences opts dat]" "cb_calls ?c2 = cb_calls c @ [onAddGeofencesCb errs ids]"
    "mLocationAPI ?c2"
    using q1 add(2-5) ids [of ?d]
    by (simp_all add: onCollectiveResponseCb_def pop_queue_def rq_pop_def onCollectiveResponse_def)
  let ?c3 = "locAPIRemoveGeofences True ids ?c2"
  have c3: "mSession (mRequestQueues ?c3 REQUEST_GEOFENCE) = GEOFENCE_SESSION_ID"
    "mQueue (mRequestQueues ?c3 REQUEST_GEOFENCE) = [RemoveGeofencesRequest (add_geofences ?xs new_BiDict)]"
    "mGeofenceBiDict ?c3 = ?d" "api_calls ?c3 = api_calls c @ [A_addGeofences opts dat, A_removeGeofences ss]"
    "cb_calls ?c3 = cb_calls c @ [onAddGeofencesCb errs ids]"
    using c2 rem \<open>ss \<noteq> []\<close> by (simp_all add: locAPIRemoveGeofences_def rq_push_def)
  let ?c4 = "onCollectiveResponseCb errs' ss ?c3"
  have "api_calls ?c4 = api_calls ?c3" "cb_calls ?c4 = cb_calls ?c3 @ [onRemoveGeofencesCb errs' ids]"
    "mGeofenceBiDict ?c4 = ?d"
    using c3 ids [of new_BiDict]
    by (simp_all add: onCollectiveResponseCb_def pop_queue_def rq_pop_def onCollectiveResponse_def)
  then show ?thesis using add(1) c3(4,5) by (intro exI [of _ ?c1] exI [of _ ?c4]) simp
qed

definition ex_option :: "mask \<Rightarrow> GeofenceOption" where
  "ex_option m = \<lparr>breachTypeMask = m, otherOptions = 0\<rparr>"

theorem loc_client_geofence_roundtrip_witness:
  "\<exists>c1. locAPIAddGeofences [1, 2] [ex_option 1, ex_option 3] [0, 0] (Some [70, 80]) ex_client = (LOCATION_ERROR_SUCCESS, c1) \<and>
     cb_calls (onCollectiveResponseCb [LOCATION_ERROR_SUCCESS, LOCATION_ERROR_SUCCESS] [70, 80]
       (locAPIRemoveGeofences True [1, 2] (onCollectiveResponseCb [LOCATION_ERROR_SUCCESS, LOCATION_ERROR_SUCCESS] [70, 80] c1))) =
       [onAddGeofencesCb [LOCATION_ERROR_SUCCESS, LOCATION_ERROR_SUCCESS] [1, 2],
        onRemoveGeofencesCb [LOCATION_ERROR_SUCCESS, LOCATION_ERROR_SUCCESS] [1, 2]]"
  using loc_client_geofence_roundtrip [of ex_client "[1, 2]" "[70, 80]" "[ex_option 1, ex_option 3]" "[0, 0]"
      "[LOCATION_ERROR_SUCCESS, LOCATION_ERROR_SUCCESS]" "[LOCATION_ERROR_SUCCESS, LOCATION_ERROR_SUCCESS]"]
  by (auto simp: ex_client_simps new_BiDict_def)

text \<open>
  \<open>locAPIRemoveAllGeofences\<close> passes the sessions of all geofences to a function that expects
  client identifiers: unless some session happens to equal a client identifier it does nothing
  at all, and every geofence stays.
\<close>

theorem removeAllGeofences_does_nothing:
  assumes "\<forall>s \<in> dom (mBackwardMap (mGeofenceBiDict c)). mForwardMap (mGeofenceBiDict c) s = None"
    "finite (dom (mBackwardMap (mGeofenceBiDict c)))"
  shows "locAPIRemoveAllGeofences mem c = c"
proof -
  have "remove_geofences (getAllSessions (mGeofenceBiDict c)) (mGeofenceBiDict c) new_BiDict =
      ([], mGeofenceBiDict c, new_BiDict)"
    by (rule remove_unknown) (use assms in \<open>auto simp: getAllSessions_def\<close>)
  then show ?thesis by (simp add: locAPIRemoveAllGeofences_def locAPIRemoveGeofences_def)
qed

theorem removeAllGeofences_does_nothing_witness:
  "locAPIRemoveAllGeofences True (snd (locAPIAddGeofences [1, 2] [ex_option 1, ex_option 3] [0, 0] (Some [70, 80]) ex_client)) =
     snd (locAPIAddGeofences [1, 2] [ex_option 1, ex_option 3] [0, 0] (Some [70, 80]) ex_client)"
  by (rule removeAllGeofences_does_nothing)
    (simp_all add: locAPIAddGeofences_def ex_client_simps new_BiDict_def bd_set_def Let_def)

text \<open>
  \<open>locAPIModifyGeofences\<close> compacts the sessions of the known identifiers but not their
  options: after an unknown identifier the API changes the next geofence to the options meant
  for the unknown one, while the client's dictionary records the options meant for it.
\<close>

theorem modifyGeofences_shifts_options:
  assumes "mLocationAPI c" "mSession (mRequestQueues c REQUEST_GEOFENCE) = GEOFENCE_SESSION_ID"
    "mForwardMap (mGeofenceBiDict c) a = None" "mForwardMap (mGeofenceBiDict c) b = Some s" "s \<noteq> 0"
  shows "\<exists>c'. locAPIModifyGeofences True [a, b] [opt_a, opt_b] c = c' \<and>
    api_calls c' = api_calls c @ [A_modifyGeofences [s] [opt_a]] \<and>
    mExtMap (mGeofenceBiDict c') s = Some (breachTypeMask opt_b)"
  using assms by (simp add: locAPIModifyGeofences_def getSession_def Let_def bd_set_def word_gt_0)

theorem modifyGeofences_shifts_options_witness:
  "\<exists>c'. locAPIModifyGeofences True [9, 1] [ex_option 3, ex_option 1]
       (snd (locAPIAddGeofences [1] [ex_option 2] [0] (Some [70]) ex_client)) = c' \<and>
     api_calls c' = [A_createInstance, A_addGeofences [ex_option 2] [0], A_modifyGeofences [70] [ex_option 3]] \<and>
     mExtMap (mGeofenceBiDict c') 70 = Some 1"
  using modifyGeofences_shifts_options
    [of "snd (locAPIAddGeofences [1] [ex_option 2] [0] (Some [70]) ex_client)" 9 1 70 "ex_option 3" "ex_option 1"]
  by (simp add: locAPIAddGeofences_def ex_client_simps new_BiDict_def bd_set_def Let_def rq_push_def rq_reset_def
      GEOFENCE_SESSION_ID_def ex_option_def)

text \<open>
  If the API refuses to start tracking, the client is told so, but the object still believes
  it is tracking: every later start returns success without asking the API and without any
  callback, until the client stops the tracking that never began.
\<close>

theorem failed_tracking_start_sticks:
  assumes "mLocationAPI c" "\<not> mTracking c" "err \<noteq> LOCATION_ERROR_SUCCESS"
  shows "\<exists>c1 c2. locAPIStartTracking opt ret c = (LOCATION_ERROR_SUCCESS, c1) \<and> c2 = onResponseCb err ret c1 \<and>
    api_calls c2 = api_calls c @ [A_startTracking opt] \<and> cb_calls c2 = cb_calls c @ [onStartTrackingCb err] \<and>
    (\<forall>opt' ret'. locAPIStartTracking opt' ret' c2 = (LOCATION_ERROR_SUCCESS, c2))"
proof -
  let ?c1 = "snd (locAPIStartTracking opt ret c)"
  have c1: "locAPIStartTracking opt ret c = (LOCATION_ERROR_SUCCESS, ?c1)" "mTracking ?c1" "mLocationAPI ?c1"
    "mSession (mRequestQueues ?c1 REQUEST_TRACKING) = ret"
    "mQueue (mRequestQueues ?c1 REQUEST_TRACKING) = [StartTrackingRequest]"
    "api_calls ?c1 = api_calls c @ [A_startTracking opt]" "cb_calls ?c1 = cb_calls c"
    using assms(1,2) by (simp_all add: locAPIStartTracking_def rq_push_def rq_reset_def)
  let ?c2 = "onResponseCb err ret ?c1"
  have c2: "api_calls ?c2 = api_calls ?c1" "cb_calls ?c2 = cb_calls ?c1 @ [onStartTrackingCb err]"
    "mTracking ?c2" "mLocationAPI ?c2"
    using c1 assms(3)
    by (simp_all add: onResponseCb_def getRequestBySession_def pop_queue_def rq_pop_def onResponse_def removeSession_def)
  have "locAPIStartTracking opt' ret' ?c2 = (LOCATION_ERROR_SUCCESS, ?c2)" for opt' ret'
    using c2(3,4) by (simp add: locAPIStartTracking_def)
  then show ?thesis using c1 c2 by (intro exI [of _ ?c1] exI [of _ ?c2]) simp
qed

theorem failed_tracking_start_sticks_witness:
  "\<exists>c1 c2. locAPIStartTracking 4 7 ex_client = (LOCATION_ERROR_SUCCESS, c1) \<and>
     c2 = onResponseCb LOCATION_ERROR_CALLBACK_MISSING 7 c1 \<and>
     cb_calls c2 = [onStartTrackingCb LOCATION_ERROR_CALLBACK_MISSING] \<and>
     locAPIStartTracking 5 8 c2 = (LOCATION_ERROR_SUCCESS, c2)"
  using failed_tracking_start_sticks [of ex_client LOCATION_ERROR_CALLBACK_MISSING 4 7]
  by (auto simp: ex_client_simps)

end
