(* ===== verification/SetMap.thy ===== *)
theory SetMap
  imports Prelude
begin

text \<open>
  \<open>gps/utils/LocUnorderedSetMap.h\<close>: a map from keys to sets of values that keeps no empty
  sets. Sets are HOL sets; where the code iterates over one, the model takes the elements as a
  list, in the order of that iteration.
  Two of the functions go on using an iterator after erasing its element. The C++ library gives
  this no meaning; whether the freed node can still be read is a property of the allocator, so it
  is an argument \<open>stale\<close> of the model: if it holds the node still has its old content, otherwise
  the access is a fault (\<open>None\<close>).
\<close>

type_synonym ('k, 'v) setmap = "'k \<rightharpoonup> 'v set"

section \<open>Sets\<close>

text \<open>\<open>goneVals\<close> is \<open>None\<close> for a NULL pointer.\<close>

fun trimSet :: "'v set \<Rightarrow> 'v list \<Rightarrow> 'v set option \<Rightarrow> 'v set \<times> 'v set option" where
  "trimSet fromSet [] gone = (fromSet, gone)"
| "trimSet fromSet (v # rVals) gone =
     (if v \<in> fromSet \<and> gone \<noteq> None
      then trimSet (fromSet - {v}) rVals (map_option (insert v) gone)
      else trimSet (fromSet - {v}) rVals gone)"

text \<open>
  The loop walks over \<open>s2\<close>. After a common element has been erased from \<open>s2\<close> its iterator is
  advanced.
\<close>

fun removeAndReturnInterset ::
  "bool \<Rightarrow> 'v set \<Rightarrow> 'v list \<Rightarrow> 'v set \<Rightarrow> ('v set \<times> 'v set \<times> 'v set) option" where
  "removeAndReturnInterset stale s1 [] s2 = Some ({}, s1, s2)"
| "removeAndReturnInterset stale s1 (b # bs) s2 =
     (if b \<in> s1 then
        (if stale then do {
           (common, s1, s2) \<leftarrow> removeAndReturnInterset stale (s1 - {b}) bs (s2 - {b});
           Some (insert b common, s1, s2)
         }
         else None)
      else removeAndReturnInterset stale s1 bs s2)"

section \<open>The map\<close>

definition getValSet :: "('k, 'v) setmap \<Rightarrow> 'k \<Rightarrow> 'v set" where
  "getValSet m key = (case m key of None \<Rightarrow> {} | Some s \<Rightarrow> s)"

definition getKeys :: "('k, 'v) setmap \<Rightarrow> 'k set" where
  "getKeys m = dom m"

definition sm_empty :: "('k, 'v) setmap \<Rightarrow> bool" where
  "sm_empty m \<longleftrightarrow> m = Map.empty"

definition sm_remove :: "'k \<Rightarrow> ('k, 'v) setmap \<Rightarrow> bool \<times> ('k, 'v) setmap" where
  "sm_remove key m = (m key \<noteq> None, m(key := None))"

text \<open>The private \<open>trimOrRemove\<close> of one entry.\<close>

definition trimEntry ::
  "'k \<Rightarrow> 'v set \<Rightarrow> 'v list \<Rightarrow> 'v set option \<Rightarrow> ('k, 'v) setmap \<Rightarrow> bool \<times> 'v set option \<times> ('k, 'v) setmap" where
  "trimEntry key s rVals gone m =
     (let (s, gone) = trimSet s rVals gone in
      if s = {} then (True, gone, m(key := None)) else (False, gone, m(key \<mapsto> s)))"

text \<open>\<open>goneKeys\<close> and \<open>goneVals\<close> are \<open>None\<close> for NULL pointers.\<close>

fun trimOrRemove ::
  "bool \<Rightarrow> 'k list \<Rightarrow> 'v list \<Rightarrow> 'k set option \<Rightarrow> 'v set option \<Rightarrow> ('k, 'v) setmap \<Rightarrow>
     ('k set option \<times> 'v set option \<times> ('k, 'v) setmap) option" where
  "trimOrRemove stale [] rVals goneKeys goneVals m = Some (goneKeys, goneVals, m)"
| "trimOrRemove stale (key # keys) rVals goneKeys goneVals m =
     (case m key of
        None \<Rightarrow> trimOrRemove stale keys rVals goneKeys goneVals m
      | Some s \<Rightarrow>
          (let (removed, goneVals, m) = trimEntry key s rVals goneVals m in
           if removed \<and> goneKeys \<noteq> None then
             (if stale then trimOrRemove stale keys rVals (map_option (insert key) goneKeys) goneVals m
              else None)
           else trimOrRemove stale keys rVals goneKeys goneVals m))"

definition addOne :: "'k \<Rightarrow> 'v set \<Rightarrow> ('k, 'v) setmap \<Rightarrow> bool \<times> ('k, 'v) setmap" where
  "addOne key newVals m =
     (if newVals \<noteq> {} then
        (case m key of
           Some s \<Rightarrow> (False, m(key \<mapsto> s \<union> newVals))
         | None \<Rightarrow> (True, m(key \<mapsto> newVals)))
      else (False, m))"

fun addAll ::
  "'k list \<Rightarrow> 'v set \<Rightarrow> 'k set option \<Rightarrow> ('k, 'v) setmap \<Rightarrow> 'k set option \<times> ('k, 'v) setmap" where
  "addAll [] newVals newKeys m = (newKeys, m)"
| "addAll (key # keys) newVals newKeys m =
     (let (added, m) = addOne key newVals m in
      addAll keys newVals (if added then map_option (insert key) newKeys else newKeys) m)"

text \<open>\<open>vals\<close> enumerates \<open>newVals\<close>. The result is \<open>goneVals\<close>, the new \<open>newVals\<close> and the map.\<close>

definition sm_update ::
  "bool \<Rightarrow> 'k \<Rightarrow> 'v list \<Rightarrow> 'v set \<Rightarrow> ('k, 'v) setmap \<Rightarrow> ('v set \<times> 'v set \<times> ('k, 'v) setmap) option" where
  "sm_update stale key vals newVals m =
     (if newVals = {} then Some ({}, newVals, m(key := None))
      else do {
        let curVals = getValSet m key;
        let m = m(key \<mapsto> newVals);
        (goneVals, _, newVals) \<leftarrow> removeAndReturnInterset stale curVals vals newVals;
        Some (goneVals, newVals, m)
      })"

section \<open>What the functions compute\<close>

named_theorems setmap_simps \<open>the set map's operations\<close>

lemma trimSet_eq [setmap_simps]:
  "trimSet s vs gone = (s - set vs, map_option (\<lambda>g. g \<union> (s \<inter> set vs)) gone)"
  by (induction s vs gone rule: trimSet.induct) (auto simp: option.map_comp comp_def option.map_ident intro!: option.map_cong)

lemma trimEntry_eq [setmap_simps]:
  "trimEntry key s vs gone m = (s \<subseteq> set vs, map_option (\<lambda>g. g \<union> (s \<inter> set vs)) gone,
     if s \<subseteq> set vs then m(key := None) else m(key \<mapsto> s - set vs))"
  by (simp add: trimEntry_def trimSet_eq)

lemma interset_ok:
  "removeAndReturnInterset True s1 bs s2 = Some (s1 \<inter> set bs, s1 - set bs, s2 - (s1 \<inter> set bs))"
proof (induction bs arbitrary: s1 s2)
  case (Cons b bs)
  then show ?case by (cases "b \<in> s1") auto
qed simp

lemma interset_fault:
  "removeAndReturnInterset False s1 bs s2 = (if s1 \<inter> set bs = {} then Some ({}, s1, s2) else None)"
  by (induction bs arbitrary: s1 s2) auto

text \<open>The map after \<open>trimOrRemove\<close>, and the keys and values it reports.\<close>

definition trimmed :: "'k set \<Rightarrow> 'v set \<Rightarrow> ('k, 'v) setmap \<Rightarrow> ('k, 'v) setmap" where
  "trimmed ks vs m = (\<lambda>k. if k \<in> ks then (case m k of None \<Rightarrow> None
     | Some s \<Rightarrow> if s \<subseteq> vs then None else Some (s - vs)) else m k)"

definition emptied :: "'k set \<Rightarrow> 'v set \<Rightarrow> ('k, 'v) setmap \<Rightarrow> 'k set" where
  "emptied ks vs m = {k \<in> ks. \<exists>s. m k = Some s \<and> s \<subseteq> vs}"

definition dropped :: "'k set \<Rightarrow> 'v set \<Rightarrow> ('k, 'v) setmap \<Rightarrow> 'v set" where
  "dropped ks vs m = (\<Union>k \<in> ks. getValSet m k) \<inter> vs"

lemma trimmed_Nil: "trimmed {} vs m = m" "emptied {} vs m = {}" "dropped {} vs m = {}"
  by (auto simp: trimmed_def emptied_def dropped_def)

lemma trimOrRemove_ok:
  "stale \<or> goneKeys = None \<or> emptied (set keys) (set vs) m = {} \<Longrightarrow> distinct keys \<Longrightarrow>
    trimOrRemove stale keys vs goneKeys goneVals m =
      Some (map_option (\<lambda>g. g \<union> emptied (set keys) (set vs) m) goneKeys,
            map_option (\<lambda>g. g \<union> dropped (set keys) (set vs) m) goneVals, trimmed (set keys) (set vs) m)"
proof (induction keys arbitrary: goneKeys goneVals m)
  case Nil
  then show ?case by (cases goneKeys; cases goneVals) (simp_all add: trimmed_Nil)
next
  case (Cons key keys)
  have new: "key \<notin> set keys" "distinct keys" using Cons.prems by auto
  show ?case
  proof (cases "m key")
    case None
    have "emptied (set (key # keys)) (set vs) m = emptied (set keys) (set vs) m"
      "dropped (set (key # keys)) (set vs) m = dropped (set keys) (set vs) m"
      "trimmed (set (key # keys)) (set vs) m = trimmed (set keys) (set vs) m"
      using None by (auto simp: emptied_def dropped_def trimmed_def getValSet_def fun_eq_iff)
    then show ?thesis using Cons.IH [of goneKeys m goneVals] Cons.prems None by simp
  next
    case (Some s)
    let ?m = "if s \<subseteq> set vs then m(key := None) else m(key \<mapsto> s - set vs)"
    let ?gv = "map_option (\<lambda>g. g \<union> (s \<inter> set vs)) goneVals"
    let ?gk = "if s \<subseteq> set vs then map_option (insert key) goneKeys else goneKeys"
    have e: "emptied (set (key # keys)) (set vs) m = (if s \<subseteq> set vs then {key} else {}) \<union> emptied (set keys) (set vs) ?m"
      using new Some by (auto simp: emptied_def)
    have d: "dropped (set (key # keys)) (set vs) m = (s \<inter> set vs) \<union> dropped (set keys) (set vs) ?m"
    proof -
      have "(\<Union>k \<in> set keys. getValSet ?m k) = (\<Union>k \<in> set keys. getValSet m k)"
        by (rule SUP_cong) (use new in \<open>auto simp: getValSet_def\<close>)
      then show ?thesis using Some by (auto simp: dropped_def getValSet_def)
    qed
    have t: "trimmed (set (key # keys)) (set vs) m = trimmed (set keys) (set vs) ?m"
      using new Some by (auto simp: trimmed_def fun_eq_iff)
    have pre: "stale \<or> ?gk = None \<or> emptied (set keys) (set vs) ?m = {}"
      using Cons.prems(1) e by (auto split: if_splits)
    have run: "trimOrRemove stale (key # keys) vs goneKeys goneVals m = trimOrRemove stale keys vs ?gk ?gv ?m"
      using Some Cons.prems(1) e by (auto simp: trimEntry_eq)
    show ?thesis
      unfolding run e d t Cons.IH [OF pre new(2)]
      by (cases goneKeys; cases goneVals) auto
  qed
qed

lemma trimOrRemove_fault:
  "distinct keys \<Longrightarrow> trimOrRemove False keys vs (Some g) goneVals m = None \<longleftrightarrow> emptied (set keys) (set vs) m \<noteq> {}"
proof (induction keys arbitrary: g goneVals m)
  case Nil
  then show ?case by (simp add: trimmed_Nil)
next
  case (Cons key keys)
  show ?case
  proof (cases "m key")
    case None
    have "emptied (set (key # keys)) (set vs) m = emptied (set keys) (set vs) m"
      using None by (auto simp: emptied_def)
    then show ?thesis using Cons None by simp
  next
    case (Some s)
    have "emptied (set keys) (set vs) (m(key \<mapsto> s - set vs)) = emptied (set keys) (set vs) m"
      using Cons.prems by (auto simp: emptied_def)
    moreover have "emptied (set (key # keys)) (set vs) m =
        (if s \<subseteq> set vs then {key} else {}) \<union> emptied (set keys) (set vs) m"
      using Some by (auto simp: emptied_def)
    ultimately show ?thesis using Cons Some by (simp add: trimEntry_eq)
  qed
qed

lemma addAll_eq:
  "vals \<noteq> {} \<Longrightarrow> distinct keys \<Longrightarrow>
    addAll keys vals newKeys m = (map_option (\<lambda>g. g \<union> (set keys - dom m)) newKeys,
      \<lambda>k. if k \<in> set keys then Some (getValSet m k \<union> vals) else m k)"
proof (induction keys arbitrary: newKeys m)
  case Nil
  then show ?case by (cases newKeys) (auto simp: fun_eq_iff)
next
  case (Cons key keys)
  have IH: "addAll keys vals nk m' = (map_option (\<lambda>g. g \<union> (set keys - dom m')) nk,
      \<lambda>k. if k \<in> set keys then Some (getValSet m' k \<union> vals) else m' k)" for nk m'
    using Cons by simp
  show ?case
  proof (cases "m key")
    case None
    then show ?thesis
      using Cons.prems by (cases newKeys) (auto simp: addOne_def IH fun_eq_iff getValSet_def)
  next
    case (Some s)
    then show ?thesis
      using Cons.prems by (cases newKeys) (auto simp: addOne_def IH fun_eq_iff getValSet_def)
  qed
qed

lemma getValSet_trimmed [setmap_simps]:
  "getValSet (trimmed ks vs m) k = (if k \<in> ks then getValSet m k - vs else getValSet m k)"
  by (auto simp: getValSet_def trimmed_def split: option.splits)

text \<open>No entry is ever left with an empty set.\<close>

definition no_empty :: "('k, 'v) setmap \<Rightarrow> bool" where
  "no_empty m \<longleftrightarrow> (\<forall>k. m k \<noteq> Some {})"

lemma no_empty_trimmed: "no_empty m \<Longrightarrow> no_empty (trimmed ks vs m)"
  by (auto simp: no_empty_def trimmed_def split: option.splits)

lemma no_empty_iff: "no_empty m \<Longrightarrow> m k = None \<longleftrightarrow> getValSet m k = {}"
  by (auto simp: no_empty_def getValSet_def split: option.splits)

section \<open>The interface\<close>

text \<open>The map after values were added under every key of a set.\<close>

definition added :: "'k set \<Rightarrow> 'v set \<Rightarrow> ('k, 'v) setmap \<Rightarrow> ('k, 'v) setmap" where
  "added ks vs m = (\<lambda>k. if k \<in> ks then Some (getValSet m k \<union> vs) else m k)"

text \<open>
  What a user of a set map relies on: the values under each key after adding and after trimming,
  and that entries without values do not exist.
\<close>

locale set_map =
  fixes vals :: "'m \<Rightarrow> 'k \<Rightarrow> 'v set"
    and ks_of :: "'m \<Rightarrow> 'k set"
    and good :: "'m \<Rightarrow> bool"
    and add :: "'k set \<Rightarrow> 'v set \<Rightarrow> 'm \<Rightarrow> 'm"
    and trim :: "'k set \<Rightarrow> 'v set \<Rightarrow> 'm \<Rightarrow> 'm"
  assumes vals_add: "vals (add ks vs m) k = (if k \<in> ks then vals m k \<union> vs else vals m k)"
    and vals_trim: "vals (trim ks vs m) k = (if k \<in> ks then vals m k - vs else vals m k)"
    and good_add: "good m \<Longrightarrow> vs \<noteq> {} \<Longrightarrow> good (add ks vs m)"
    and good_trim: "good m \<Longrightarrow> good (trim ks vs m)"
    and ks_of: "good m \<Longrightarrow> ks_of m = {k. vals m k \<noteq> {}}"
begin

lemma keys_add: "good m \<Longrightarrow> vs \<noteq> {} \<Longrightarrow> ks_of (add ks vs m) = ks_of m \<union> ks"
  by (auto simp: ks_of good_add vals_add)

lemma keys_trim: "good m \<Longrightarrow> ks_of (trim ks vs m) = ks_of m - {k \<in> ks. vals m k \<subseteq> vs}"
  by (auto simp: ks_of good_trim vals_trim)

end

text \<open>
  A relation kept twice, as a map from its left to its right elements and as one back: adding
  pairs to both and removing pairs from both keeps them the same relation.
\<close>

locale two_way = l: set_map lvals lkeys lgood ladd ltrim + r: set_map rvals rkeys rgood radd rtrim
  for lvals :: "'m \<Rightarrow> 'a \<Rightarrow> 'b set" and lkeys and lgood and ladd and ltrim
    and rvals :: "'n \<Rightarrow> 'b \<Rightarrow> 'a set" and rkeys and rgood and radd and rtrim
begin

lemma link:
  "(\<And>a b. b \<in> lvals m a \<longleftrightarrow> a \<in> rvals n b) \<Longrightarrow>
     b \<in> lvals (ladd {x} S m) a \<longleftrightarrow> a \<in> rvals (radd S {x} n) b"
  by (auto simp: l.vals_add r.vals_add)

lemma unlink:
  "(\<And>a b. b \<in> lvals m a \<longleftrightarrow> a \<in> rvals n b) \<Longrightarrow> lvals m x \<inter> S \<subseteq> T \<Longrightarrow> T \<subseteq> S \<Longrightarrow>
     b \<in> lvals (ltrim {x} S m) a \<longleftrightarrow> a \<in> rvals (rtrim T {x} n) b"
  by (auto simp: l.vals_trim r.vals_trim)

end

lemma set_map_laws: "set_map getValSet dom no_empty added trimmed"
proof
  show "getValSet (added ks vs m) k = (if k \<in> ks then getValSet m k \<union> vs else getValSet m k)"
    for ks vs and m :: "('a, 'b) setmap" and k by (simp add: getValSet_def added_def)
  show "getValSet (trimmed ks vs m) k = (if k \<in> ks then getValSet m k - vs else getValSet m k)"
    for ks vs and m :: "('a, 'b) setmap" and k by (rule getValSet_trimmed)
  show "no_empty m \<Longrightarrow> vs \<noteq> {} \<Longrightarrow> no_empty (added ks vs m)" for ks vs and m :: "('a, 'b) setmap"
    by (auto simp: no_empty_def added_def)
  show "no_empty m \<Longrightarrow> no_empty (trimmed ks vs m)" for ks vs and m :: "('a, 'b) setmap" by (rule no_empty_trimmed)
  show "no_empty m \<Longrightarrow> dom m = {k. getValSet m k \<noteq> {}}" for m :: "('a, 'b) setmap"
    by (auto simp: no_empty_def getValSet_def split: option.splits)
qed

interpretation sm: set_map getValSet dom no_empty added trimmed
  by (rule set_map_laws)

interpretation tw: two_way getValSet dom no_empty added trimmed getValSet dom no_empty added trimmed
  by (intro two_way.intro set_map_laws)

lemma addAll_added [setmap_simps]:
  "vals \<noteq> {} \<Longrightarrow> distinct keys \<Longrightarrow>
    addAll keys vals newKeys m = (map_option (\<lambda>g. g \<union> (set keys - dom m)) newKeys, added (set keys) vals m)"
  by (simp add: addAll_eq added_def)

lemma addOne_added [setmap_simps]: "vals \<noteq> {} \<Longrightarrow> snd (addOne key vals m) = added {key} vals m"
  by (auto simp: addOne_def added_def getValSet_def fun_eq_iff split: option.splits)

end
