(* ===== verification/OsObserver.thy ===== *)
theory OsObserver
  imports SetMap
begin

text \<open>
  \<open>gps/core/SystemStatusOsObserver.{h,cpp}\<close>: the broker between the clients of operating-system
  data items and the framework that delivers them. The public functions post a message and the
  message task runs its \<open>proc\<close>; both are steps of the model, so every interleaving of clients
  with the task is a history of steps.
  Clients, data items and their contents are numbers. The data item library (\<open>os_env\<close>) is an
  argument: which items it can create, how it copies one over another and whether that changed
  it, and whether the system status handles an item. So is \<open>stale_ok\<close>: the code reads nodes of its hash
  tables after it has erased them, which is undefined; the model has no result for such a read, unless
  \<open>stale_ok\<close> says that the freed memory still has its old content. Calls on the framework and notifications of
  clients are recorded, containers passed to them as sets, since their order is that of a hash
  table. The parts under \<open>USE_GLIB\<close> are not compiled on this platform.
\<close>

section \<open>Data\<close>

type_synonym client = ptr
type_synonym item = nat
type_synonym content = nat

record os_env =
  stale_ok :: bool
  eventDataItemNotify :: "item \<Rightarrow> content \<Rightarrow> bool"
  createNewDataItem :: "item \<Rightarrow> bool"
  copy :: "content \<Rightarrow> content \<Rightarrow> content \<times> bool"

datatype os_msg =
    SetSubsObj
  | HandleSubscribeReq "item list" client bool
  | HandleUpdateSubscriptionReq "item list" client
  | HandleUnsubscribeReq "item list" client
  | HandleUnsubscribeAllReq client
  | HandleNotify "(item \<times> content) list"
  | HandleTurnOnMsg item int
  | HandleTurnOffMsg item

datatype fw_call =
    F_subscribe "item set"
  | F_requestData "item set"
  | F_unsubscribe "item set"
  | F_turnOn item int
  | F_turnOff item

record os_observer =
  mSubscriptionObj :: bool
  mFrameworkActionReqObj :: bool
  mClientToDataItems :: "(client, item) setmap"
  mDataItemToClients :: "(item, client) setmap"
  mDataItemCache :: "item \<rightharpoonup> content"
  mActiveRequestCount :: "item \<rightharpoonup> int"
  mMsgTask :: "os_msg list"
  fw_calls :: "fw_call list"
  notified :: "(client \<times> (item \<times> content) set) list"

definition new_observer :: os_observer where
  "new_observer =
     \<lparr>mSubscriptionObj = False, mFrameworkActionReqObj = False, mClientToDataItems = Map.empty,
      mDataItemToClients = Map.empty, mDataItemCache = Map.empty, mActiveRequestCount = Map.empty,
      mMsgTask = [], fw_calls = [], notified = []\<rparr>"

definition sendMsg :: "os_msg \<Rightarrow> os_observer \<Rightarrow> os_observer" where
  "sendMsg m st = st\<lparr>mMsgTask := mMsgTask st @ [m]\<rparr>"

definition framework :: "fw_call \<Rightarrow> os_observer \<Rightarrow> os_observer" where
  "framework f st = st\<lparr>fw_calls := fw_calls st @ [f]\<rparr>"

section \<open>Helpers\<close>

definition cached_items :: "(item \<rightharpoonup> content) \<Rightarrow> item set \<Rightarrow> (item \<times> content) set" where
  "cached_items cache s = (\<lambda>d. (d, the (cache d))) ` {d \<in> s. cache d \<noteq> None}"

definition sendCachedDataItems :: "item set \<Rightarrow> client \<Rightarrow> os_observer \<Rightarrow> os_observer" where
  "sendCachedDataItems s to st =
     (if to = NULL then st
      else (let dataItems = cached_items (mDataItemCache st) s in
        if dataItems = {} then st else st\<lparr>notified := notified st @ [(to, dataItems)]\<rparr>))"

definition updateCache :: "os_env \<Rightarrow> item \<times> content \<Rightarrow> os_observer \<Rightarrow> bool \<times> os_observer" where
  "updateCache env dc st =
     (case dc of (d, c) \<Rightarrow>
        if eventDataItemNotify env d c then
          (case mDataItemCache st d of
             None \<Rightarrow> (if createNewDataItem env d
                      then (True, st\<lparr>mDataItemCache := (mDataItemCache st)(d \<mapsto> c)\<rparr>) else (False, st))
           | Some old \<Rightarrow> (let (c', updated) = copy env old c in
                          (updated, st\<lparr>mDataItemCache := (mDataItemCache st)(d \<mapsto> c')\<rparr>)))
        else (False, st))"

section \<open>Messages\<close>

definition proc_SetSubsObj :: "os_observer \<Rightarrow> os_observer" where
  "proc_SetSubsObj st =
     (let st = st\<lparr>mSubscriptionObj := True\<rparr> in
      if \<not> sm_empty (mDataItemToClients st) then
        (let dis = getKeys (mDataItemToClients st) in framework (F_requestData dis) (framework (F_subscribe dis) st))
      else st)"

definition proc_Subscribe :: "item list \<Rightarrow> client \<Rightarrow> bool \<Rightarrow> os_observer \<Rightarrow> os_observer" where
  "proc_Subscribe l client toRequestData st =
     (let (toSubscribe, d2c) = addAll l {client} (Some {}) (mDataItemToClients st);
          st = st\<lparr>mDataItemToClients := d2c\<rparr>;
          st = st\<lparr>mClientToDataItems := snd (addOne client (set l) (mClientToDataItems st))\<rparr>;
          st = sendCachedDataItems (set l) client st in
      if mSubscriptionObj st \<and> the toSubscribe \<noteq> {} then
        framework (if toRequestData then F_requestData (the toSubscribe) else F_subscribe (the toSubscribe)) st
      else st)"

definition proc_UpdateSubscription :: "bool \<Rightarrow> item list \<Rightarrow> client \<Rightarrow> os_observer \<Rightarrow> os_observer option" where
  "proc_UpdateSubscription stale l client st = do {
     (unused, dataItemSet, c2d) \<leftarrow> sm_update stale client l (set l) (mClientToDataItems st);
     let st = st\<lparr>mClientToDataItems := c2d\<rparr>;
     (toUnsubscribe, _, d2c) \<leftarrow>
       trimOrRemove stale (filter (\<lambda>d. d \<in> unused) l) [client] (Some {}) None (mDataItemToClients st);
     let (toSubscribe, d2c) = addAll (filter (\<lambda>d. d \<in> dataItemSet) l) {client} (Some {}) d2c;
     let st = sendCachedDataItems dataItemSet client (st\<lparr>mDataItemToClients := d2c\<rparr>);
     Some (if mSubscriptionObj st then
             (let st = (if the toSubscribe \<noteq> {} then framework (F_subscribe (the toSubscribe)) st else st) in
              if the toUnsubscribe \<noteq> {} then framework (F_unsubscribe (the toUnsubscribe)) st else st)
           else st)
   }"

definition proc_Unsubscribe :: "bool \<Rightarrow> item list \<Rightarrow> client \<Rightarrow> os_observer \<Rightarrow> os_observer option" where
  "proc_Unsubscribe stale l client st = do {
     (_, unused, c2d) \<leftarrow> trimOrRemove stale [client] l (Some {}) (Some {}) (mClientToDataItems st);
     (toUnsubscribe, _, d2c) \<leftarrow>
       trimOrRemove stale (filter (\<lambda>d. d \<in> the unused) l) [client] (Some {}) None (mDataItemToClients st);
     let st = st\<lparr>mClientToDataItems := c2d, mDataItemToClients := d2c\<rparr>;
     Some (if mSubscriptionObj st \<and> the toUnsubscribe \<noteq> {}
           then framework (F_unsubscribe (the toUnsubscribe)) st else st)
   }"

definition proc_UnsubscribeAll :: "bool \<Rightarrow> client \<Rightarrow> os_observer \<Rightarrow> os_observer option" where
  "proc_UnsubscribeAll stale client st =
     (let diByClient = getValSet (mClientToDataItems st) client in
      if diByClient \<noteq> {} then do {
        let c2d = snd (sm_remove client (mClientToDataItems st));
        (toUnsubscribe, _, d2c) \<leftarrow>
          trimOrRemove stale (sorted_list_of_set diByClient) [client] (Some {}) None (mDataItemToClients st);
        let st = st\<lparr>mClientToDataItems := c2d, mDataItemToClients := d2c\<rparr>;
        Some (if the toUnsubscribe \<noteq> {} \<and> mSubscriptionObj st
              then framework (F_unsubscribe (the toUnsubscribe)) st else st)
      }
      else Some st)"

text \<open>The first loop of \<open>HandleNotify\<close>: the identifiers of the items that changed the cache.\<close>

fun update_items :: "os_env \<Rightarrow> (item \<times> content) list \<Rightarrow> os_observer \<Rightarrow> item set \<times> os_observer" where
  "update_items env [] st = ({}, st)"
| "update_items env (dc # dcs) st =
     (let (updated, st) = updateCache env dc st;
          (ids, st) = update_items env dcs st in
      (if updated then insert (fst dc) ids else ids, st))"

text \<open>The last loop: each client gets those of its items that are to be sent.\<close>

fun send_items :: "item set \<Rightarrow> client list \<Rightarrow> os_observer \<Rightarrow> os_observer" where
  "send_items ids [] st = st"
| "send_items ids (c # cs) st =
     send_items ids cs (sendCachedDataItems (getValSet (mClientToDataItems st) c \<inter> ids) c st)"

definition proc_Notify :: "os_env \<Rightarrow> (item \<times> content) list \<Rightarrow> os_observer \<Rightarrow> os_observer" where
  "proc_Notify env mDiVec st =
     (let (ids, st) = update_items env mDiVec st;
          clientSet = (\<Union>d \<in> ids. getValSet (mDataItemToClients st) d) in
      send_items ids (sorted_list_of_set clientSet) st)"

section \<open>The interface\<close>

text \<open>An argument of a client: a NULL pointer stands for a missing one.\<close>

definition setSubscriptionObj :: "bool \<Rightarrow> os_observer \<Rightarrow> os_observer" where
  "setSubscriptionObj obj st = (if \<not> obj then st else sendMsg SetSubsObj st)"

definition setFrameworkActionReqObj :: "bool \<Rightarrow> os_observer \<Rightarrow> os_observer" where
  "setFrameworkActionReqObj obj st = st\<lparr>mFrameworkActionReqObj := obj\<rparr>"

definition subscribe :: "item list \<Rightarrow> client \<Rightarrow> bool \<Rightarrow> os_observer \<Rightarrow> os_observer" where
  "subscribe l client toRequestData st =
     (if l = [] \<or> client = NULL then st else sendMsg (HandleSubscribeReq (remdups l) client toRequestData) st)"

definition updateSubscription :: "item list \<Rightarrow> client \<Rightarrow> os_observer \<Rightarrow> os_observer" where
  "updateSubscription l client st =
     (if l = [] \<or> client = NULL then st else sendMsg (HandleUpdateSubscriptionReq (remdups l) client) st)"

definition unsubscribe :: "item list \<Rightarrow> client \<Rightarrow> os_observer \<Rightarrow> os_observer" where
  "unsubscribe l client st =
     (if l = [] \<or> client = NULL then st else sendMsg (HandleUnsubscribeReq (remdups l) client) st)"

definition unsubscribeAll :: "client \<Rightarrow> os_observer \<Rightarrow> os_observer" where
  "unsubscribeAll client st = (if client = NULL then st else sendMsg (HandleUnsubscribeAllReq client) st)"

text \<open>
  The vector starts with one null pointer for every item of the list; \<open>updateCache\<close> skips
  them, so only the copies that follow them are kept here.
\<close>

definition os_notify :: "os_env \<Rightarrow> (item \<times> content) list \<Rightarrow> os_observer \<Rightarrow> os_observer" where
  "os_notify env dlist st =
     (if dlist = [] then st
      else sendMsg (HandleNotify (filter (\<lambda>(d, c). createNewDataItem env d) dlist)) st)"

definition turnOn :: "item \<Rightarrow> int \<Rightarrow> os_observer \<Rightarrow> os_observer" where
  "turnOn dit timeOut st =
     (if \<not> mFrameworkActionReqObj st then st
      else (case mActiveRequestCount st dit of
        None \<Rightarrow> sendMsg (HandleTurnOnMsg dit timeOut) (st\<lparr>mActiveRequestCount := (mActiveRequestCount st)(dit \<mapsto> 1)\<rparr>)
      | Some n \<Rightarrow> st\<lparr>mActiveRequestCount := (mActiveRequestCount st)(dit \<mapsto> n + 1)\<rparr>))"

definition turnOff :: "item \<Rightarrow> os_observer \<Rightarrow> os_observer" where
  "turnOff dit st =
     (if \<not> mFrameworkActionReqObj st then st
      else (case mActiveRequestCount st dit of
        None \<Rightarrow> st
      | Some n \<Rightarrow>
          if n - 1 = 0 then
            sendMsg (HandleTurnOffMsg dit) (st\<lparr>mActiveRequestCount := (mActiveRequestCount st)(dit := None)\<rparr>)
          else st\<lparr>mActiveRequestCount := (mActiveRequestCount st)(dit \<mapsto> n - 1)\<rparr>))"

text \<open>
  The message of \<open>turnOn\<close> is made with \<open>this\<close>, the observer itself, as the framework to
  turn the item on.
\<close>

definition proc_msg :: "os_env \<Rightarrow> os_msg \<Rightarrow> os_observer \<Rightarrow> os_observer option" where
  "proc_msg env m st =
     (case m of
        SetSubsObj \<Rightarrow> Some (proc_SetSubsObj st)
      | HandleSubscribeReq l client toRequestData \<Rightarrow> Some (proc_Subscribe l client toRequestData st)
      | HandleUpdateSubscriptionReq l client \<Rightarrow> proc_UpdateSubscription (stale_ok env) l client st
      | HandleUnsubscribeReq l client \<Rightarrow> proc_Unsubscribe (stale_ok env) l client st
      | HandleUnsubscribeAllReq client \<Rightarrow> proc_UnsubscribeAll (stale_ok env) client st
      | HandleNotify v \<Rightarrow> Some (proc_Notify env v st)
      | HandleTurnOnMsg dit timeOut \<Rightarrow> Some (turnOn dit timeOut st)
      | HandleTurnOffMsg dit \<Rightarrow> Some (framework (F_turnOff dit) st))"

text \<open>One turn of the message task.\<close>

definition run_msg :: "os_env \<Rightarrow> os_observer \<Rightarrow> os_observer option" where
  "run_msg env st =
     (case mMsgTask st of [] \<Rightarrow> Some st | m # ms \<Rightarrow> proc_msg env m (st\<lparr>mMsgTask := ms\<rparr>))"

end
