(* ===== verification/OsObserverProofs.thy ===== *)
theory OsObserverProofs
  imports OsObserver
begin

text \<open>
  The broker of data items (\<open>gps/core/SystemStatusOsObserver.cpp\<close>) against its contract: a
  relation between clients and items, kept twice, of which the framework knows exactly the items
  somebody wants; and the places where the code breaks it.
\<close>

section \<open>The invariant\<close>

abbreviation items_of :: "os_observer \<Rightarrow> client \<Rightarrow> item set" where
  "items_of st c \<equiv> getValSet (mClientToDataItems st) c"

abbreviation clients_of :: "os_observer \<Rightarrow> item \<Rightarrow> client set" where
  "clients_of st d \<equiv> getValSet (mDataItemToClients st) d"

text \<open>What the framework has been asked for, according to the calls made on it.\<close>

fun asked :: "fw_call list \<Rightarrow> item set" where
  "asked [] = {}"
| "asked (f # fs) = (case f of
     F_subscribe S \<Rightarrow> S \<union> asked fs | F_requestData S \<Rightarrow> S \<union> asked fs | F_unsubscribe S \<Rightarrow> asked fs - S | _ \<Rightarrow> asked fs)"

text \<open>The log is read backwards: the last call counts last.\<close>

definition fw_items :: "fw_call list \<Rightarrow> item set" where
  "fw_items fs = asked (rev fs)"

lemma fw_items_simps [simp]:
  "fw_items [] = {}" "fw_items (fs @ [F_subscribe S]) = S \<union> fw_items fs"
  "fw_items (fs @ [F_requestData S]) = S \<union> fw_items fs" "fw_items (fs @ [F_unsubscribe S]) = fw_items fs - S"
  "fw_items (fs @ [F_subscribe S, F_requestData T]) = T \<union> (S \<union> fw_items fs)"
  "fw_items (fs @ [F_turnOff d]) = fw_items fs" "fw_items (fs @ [F_turnOn d t]) = fw_items fs"
  by (simp_all add: fw_items_def)

definition os_ok :: "os_observer \<Rightarrow> bool" where
  "os_ok st \<longleftrightarrow> (\<forall>c d. d \<in> items_of st c \<longleftrightarrow> c \<in> clients_of st d) \<and>
     no_empty (mClientToDataItems st) \<and> no_empty (mDataItemToClients st) \<and>
     (\<forall>c. finite (items_of st c)) \<and> (\<forall>d. finite (clients_of st d)) \<and> (\<forall>c. items_of st c \<noteq> {} \<longrightarrow> c \<noteq> NULL) \<and>
     (mSubscriptionObj st \<longrightarrow> fw_items (fw_calls st) = dom (mDataItemToClients st)) \<and>
     (\<not> mSubscriptionObj st \<longrightarrow> fw_items (fw_calls st) = {})"

lemma os_okD:
  assumes "os_ok st"
  shows "d \<in> items_of st c \<longleftrightarrow> c \<in> clients_of st d" "no_empty (mClientToDataItems st)"
    "no_empty (mDataItemToClients st)" "finite (items_of st c)" "finite (clients_of st d)"
    "mSubscriptionObj st \<Longrightarrow> fw_items (fw_calls st) = dom (mDataItemToClients st)"
    "\<not> mSubscriptionObj st \<Longrightarrow> fw_items (fw_calls st) = {}"
  using assms by (auto simp: os_ok_def)

lemma os_ok_client: "os_ok st \<Longrightarrow> d \<in> items_of st c \<Longrightarrow> c \<noteq> NULL"
  unfolding os_ok_def by blast

text \<open>Steps that leave the two maps, the subscription object and the item calls alone.\<close>

lemma os_ok_cong:
  assumes "mClientToDataItems st' = mClientToDataItems st" "mDataItemToClients st' = mDataItemToClients st"
    "mSubscriptionObj st' = mSubscriptionObj st" "fw_items (fw_calls st') = fw_items (fw_calls st)"
  shows "os_ok st' = os_ok st"
  by (simp add: os_ok_def assms)

lemma os_simps [simp]:
  "mClientToDataItems (sendMsg m st) = mClientToDataItems st" "mDataItemToClients (sendMsg m st) = mDataItemToClients st"
  "mSubscriptionObj (sendMsg m st) = mSubscriptionObj st" "fw_calls (sendMsg m st) = fw_calls st"
  "mClientToDataItems (framework f st) = mClientToDataItems st" "mDataItemToClients (framework f st) = mDataItemToClients st"
  "mSubscriptionObj (framework f st) = mSubscriptionObj st" "fw_calls (framework f st) = fw_calls st @ [f]"
  "mDataItemCache (framework f st) = mDataItemCache st" "notified (framework f st) = notified st"
  "mMsgTask (framework f st) = mMsgTask st" "mMsgTask (sendMsg m st) = mMsgTask st @ [m]"
  "notified (sendMsg m st) = notified st" "mActiveRequestCount (framework f st) = mActiveRequestCount st"
  "mActiveRequestCount (sendMsg m st) = mActiveRequestCount st"
  "mFrameworkActionReqObj (sendMsg m st) = mFrameworkActionReqObj st"
  "mFrameworkActionReqObj (framework f st) = mFrameworkActionReqObj st"
  by (simp_all add: sendMsg_def framework_def)

lemma send_simps [simp]:
  "mClientToDataItems (sendCachedDataItems s c st) = mClientToDataItems st"
  "mDataItemToClients (sendCachedDataItems s c st) = mDataItemToClients st"
  "mSubscriptionObj (sendCachedDataItems s c st) = mSubscriptionObj st"
  "fw_calls (sendCachedDataItems s c st) = fw_calls st"
  "mDataItemCache (sendCachedDataItems s c st) = mDataItemCache st"
  by (simp_all add: sendCachedDataItems_def Let_def)

lemma os_ok_send [simp]: "os_ok (sendCachedDataItems s c st) = os_ok st" "os_ok (sendMsg m st) = os_ok st"
  by (rule os_ok_cong; simp)+

section \<open>The messages\<close>

text \<open>The relation between clients and items, as a function of the message.\<close>

definition pairs :: "os_observer \<Rightarrow> (client \<times> item) set" where
  "pairs st = {(c, d). d \<in> items_of st c}"


lemma proc_Subscribe_ok:
  assumes ok: "os_ok st" and l: "distinct l" "l \<noteq> []" and c: "c \<noteq> NULL"
  shows "os_ok (proc_Subscribe l c b st) \<and> pairs (proc_Subscribe l c b st) = pairs st \<union> {c} \<times> set l"
proof -
  let ?c2d = "added {c} (set l) (mClientToDataItems st)" and ?d2c = "added (set l) {c} (mDataItemToClients st)"
  let ?new = "set l - dom (mDataItemToClients st)"
  let ?st = "proc_Subscribe l c b st"
  have ne: "set l \<noteq> {}" using l(2) by simp
  have maps: "mClientToDataItems ?st = ?c2d" "mDataItemToClients ?st = ?d2c" "mSubscriptionObj ?st = mSubscriptionObj st"
    using l ne by (simp_all add: proc_Subscribe_def addAll_added addOne_added Let_def)
  have calls: "fw_calls ?st = fw_calls st @ (if mSubscriptionObj st \<and> ?new \<noteq> {}
      then [if b then F_requestData ?new else F_subscribe ?new] else [])"
    using l ne by (auto simp: proc_Subscribe_def addAll_added addOne_added Let_def)
  have dom: "dom ?d2c = dom (mDataItemToClients st) \<union> set l"
    by (rule sm.keys_add) (simp_all add: os_okD(3) [OF ok])
  have fw: "fw_items (fw_calls ?st) = (if mSubscriptionObj st then dom ?d2c else {})"
    unfolding calls dom using os_okD(6,7) [OF ok] by auto
  have link: "d \<in> getValSet ?c2d a \<longleftrightarrow> a \<in> getValSet ?d2c d" for a d
    by (rule tw.link) (rule os_okD(1) [OF ok])
  have "os_ok ?st"
    unfolding os_ok_def maps
  proof (intro conjI allI impI)
    show "no_empty ?c2d" "no_empty ?d2c" using sm.good_add os_okD(2,3) [OF ok] ne by blast+
    show "finite (getValSet ?c2d a)" "finite (getValSet ?d2c d)" for a d
      using os_okD(4,5) [OF ok] by (simp_all add: sm.vals_add)
    show "getValSet ?c2d a \<noteq> {} \<Longrightarrow> a \<noteq> NULL" for a
      using ok c by (auto simp: sm.vals_add os_ok_def split: if_splits)
  qed (use fw link in \<open>auto\<close>)
  moreover have "pairs ?st = pairs st \<union> {c} \<times> set l"
    by (auto simp: pairs_def maps sm.vals_add split: if_splits)
  ultimately show ?thesis by simp
qed


lemma dropped_one: "dropped {c} S m = getValSet m c \<inter> S"
  by (auto simp: dropped_def)




lemma emptied_items:
  assumes "os_ok st" "T \<subseteq> items_of st c"
  shows "emptied T {c} (mDataItemToClients st) \<noteq> {} \<longleftrightarrow> (\<exists>d \<in> T. clients_of st d = {c})"
proof -
  have "(\<exists>s. mDataItemToClients st d = Some s \<and> s \<subseteq> {c}) \<longleftrightarrow> clients_of st d = {c}" if "d \<in> T" for d
  proof -
    have "d \<in> items_of st c" using that assms(2) by blast
    then show ?thesis using os_okD(1,3) [OF assms(1)] by (auto simp: getValSet_def no_empty_def split: option.splits)
  qed
  then show ?thesis unfolding emptied_def by blast
qed





lemma updateCache_maps:
  "mClientToDataItems (snd (updateCache env dc st)) = mClientToDataItems st"
  "mDataItemToClients (snd (updateCache env dc st)) = mDataItemToClients st"
  "mSubscriptionObj (snd (updateCache env dc st)) = mSubscriptionObj st"
  "fw_calls (snd (updateCache env dc st)) = fw_calls st" "notified (snd (updateCache env dc st)) = notified st"
  by (auto simp: updateCache_def Let_def split: prod.splits option.splits)

lemma update_items_frame:
  "mClientToDataItems (snd (update_items env dcs st)) = mClientToDataItems st \<and>
   mDataItemToClients (snd (update_items env dcs st)) = mDataItemToClients st \<and>
   mSubscriptionObj (snd (update_items env dcs st)) = mSubscriptionObj st \<and>
   fw_calls (snd (update_items env dcs st)) = fw_calls st \<and> notified (snd (update_items env dcs st)) = notified st"
proof (induction dcs arbitrary: st)
  case (Cons dc dcs)
  show ?case using Cons [of "snd (updateCache env dc st)"] updateCache_maps [of env dc st]
    by (simp add: Let_def case_prod_beta)
qed simp

lemmas update_items_maps = update_items_frame [THEN conjunct1] update_items_frame [THEN conjunct2, THEN conjunct1]
  update_items_frame [THEN conjunct2, THEN conjunct2, THEN conjunct1]
  update_items_frame [THEN conjunct2, THEN conjunct2, THEN conjunct2, THEN conjunct1]
  update_items_frame [THEN conjunct2, THEN conjunct2, THEN conjunct2, THEN conjunct2]

lemma update_items_ids: "fst (update_items env dcs st) \<subseteq> fst ` set dcs"
proof (induction dcs arbitrary: st)
  case (Cons dc dcs)
  show ?case using Cons [of "snd (updateCache env dc st)"] by (auto simp: Let_def case_prod_beta)
qed simp

text \<open>What one client is sent: nothing, or one notification with the cached contents.\<close>

definition sent_to :: "(item \<rightharpoonup> content) \<Rightarrow> item set \<Rightarrow> client \<Rightarrow> (client \<times> (item \<times> content) set) list" where
  "sent_to cache S c = (if c = NULL \<or> cached_items cache S = {} then [] else [(c, cached_items cache S)])"

lemma send_items_eq:
  "notified (send_items ids cs st) =
     notified st @ concat (map (\<lambda>c. sent_to (mDataItemCache st) (items_of st c \<inter> ids) c) cs) \<and>
   mClientToDataItems (send_items ids cs st) = mClientToDataItems st \<and>
   mDataItemToClients (send_items ids cs st) = mDataItemToClients st \<and>
   mSubscriptionObj (send_items ids cs st) = mSubscriptionObj st \<and> fw_calls (send_items ids cs st) = fw_calls st \<and>
   mDataItemCache (send_items ids cs st) = mDataItemCache st"
proof (induction cs arbitrary: st)
  case (Cons c cs)
  have "notified (sendCachedDataItems (items_of st c \<inter> ids) c st) = notified st @ sent_to (mDataItemCache st) (items_of st c \<inter> ids) c"
    by (simp add: sendCachedDataItems_def sent_to_def Let_def)
  then show ?case using Cons [of "sendCachedDataItems (items_of st c \<inter> ids) c st"] by simp
qed simp

lemma proc_Notify_maps:
  "mClientToDataItems (proc_Notify env v st) = mClientToDataItems st"
  "mDataItemToClients (proc_Notify env v st) = mDataItemToClients st"
  "mSubscriptionObj (proc_Notify env v st) = mSubscriptionObj st" "fw_calls (proc_Notify env v st) = fw_calls st"
  using update_items_maps [of env v st] send_items_eq
  by (simp_all add: proc_Notify_def Let_def case_prod_beta)

lemma turn_maps [simp]:
  "mClientToDataItems (turnOn d t st) = mClientToDataItems st" "mDataItemToClients (turnOn d t st) = mDataItemToClients st"
  "mSubscriptionObj (turnOn d t st) = mSubscriptionObj st" "fw_calls (turnOn d t st) = fw_calls st"
  "mClientToDataItems (turnOff d st) = mClientToDataItems st" "mDataItemToClients (turnOff d st) = mDataItemToClients st"
  "mSubscriptionObj (turnOff d st) = mSubscriptionObj st" "fw_calls (turnOff d st) = fw_calls st"
  by (auto simp: turnOn_def turnOff_def split: option.splits)

lemma proc_Unsubscribe_fault:
  assumes "os_ok st" "distinct l"
  shows "proc_Unsubscribe False l c st = None \<longleftrightarrow>
    (items_of st c \<noteq> {} \<and> items_of st c \<subseteq> set l) \<or> (\<exists>d \<in> items_of st c \<inter> set l. clients_of st d = {c})"
proof -
  let ?T = "items_of st c \<inter> set l"
  have e1: "set (filter (\<lambda>d. d \<in> ?T) l) = ?T" "distinct (filter (\<lambda>d. d \<in> ?T) l)" using assms by auto
  have n1: "emptied {c} (set l) (mClientToDataItems st) = {} \<longleftrightarrow> \<not> (items_of st c \<noteq> {} \<and> items_of st c \<subseteq> set l)"
    using os_okD(2) [OF assms(1)] by (auto simp: emptied_def getValSet_def no_empty_def split: option.splits)
  have n2: "emptied ?T {c} (mDataItemToClients st) = {} \<longleftrightarrow> \<not> (\<exists>d \<in> ?T. clients_of st d = {c})"
    using emptied_items [OF assms(1), of ?T c] by blast
  have t2: "trimOrRemove False (filter (\<lambda>d. d \<in> ?T) l) [c] (Some {}) None (mDataItemToClients st) = None \<longleftrightarrow>
      emptied ?T {c} (mDataItemToClients st) \<noteq> {}"
    using trimOrRemove_fault [of "filter (\<lambda>d. d \<in> ?T) l" "[c]" "{}" None "mDataItemToClients st"] e1 by simp
  show ?thesis
  proof (cases "emptied {c} (set l) (mClientToDataItems st) = {}")
    case False
    then have "trimOrRemove False [c] l (Some {}) (Some {}) (mClientToDataItems st) = None"
      using trimOrRemove_fault [of "[c]" l "{}" "Some {}" "mClientToDataItems st"] by simp
    then show ?thesis using False n1 by (simp add: proc_Unsubscribe_def)
  next
    case True
    then have t1: "trimOrRemove False [c] l (Some {}) (Some {}) (mClientToDataItems st) =
        Some (Some {}, Some ?T, trimmed {c} (set l) (mClientToDataItems st))"
      using trimOrRemove_ok [of False "Some {}" "[c]" l "mClientToDataItems st" "Some {}"] by (simp add: dropped_one)
    have iff: "proc_Unsubscribe False l c st = None \<longleftrightarrow>
        trimOrRemove False (filter (\<lambda>d. d \<in> ?T) l) [c] (Some {}) None (mDataItemToClients st) = None"
      unfolding proc_Unsubscribe_def t1 by (auto simp: Let_def split: bind_splits)
    have "\<not> (items_of st c \<noteq> {} \<and> items_of st c \<subseteq> set l)" using True n1 by simp
    then show ?thesis by (simp only: iff t2 n2 simp_thms)
  qed
qed



text \<open>The messages clients can post, apart from the change of a subscription.\<close>

definition msg_ok :: "os_msg \<Rightarrow> bool" where
  "msg_ok m \<longleftrightarrow> (case m of
     HandleSubscribeReq l c _ \<Rightarrow> distinct l \<and> l \<noteq> [] \<and> c \<noteq> NULL
   | HandleUpdateSubscriptionReq l c \<Rightarrow> False
   | HandleUnsubscribeReq l c \<Rightarrow> distinct l
   | _ \<Rightarrow> True)"


section \<open>Histories\<close>

datatype os_act =
    Act_setSubscriptionObj bool
  | Act_setFrameworkActionReqObj bool
  | Act_subscribe "item list" client bool
  | Act_unsubscribe "item list" client
  | Act_unsubscribeAll client
  | Act_notify "(item \<times> content) list"
  | Act_turnOn item int
  | Act_turnOff item
  | Act_task

text \<open>A history of calls (any but \<open>updateSubscription\<close>) and turns of the message task.\<close>

fun os_run :: "os_env \<Rightarrow> os_act list \<Rightarrow> os_observer \<Rightarrow> os_observer option" where
  "os_run env [] st = Some st"
| "os_run env (a # as) st = do {
     st \<leftarrow> (case a of
       Act_setSubscriptionObj b \<Rightarrow> Some (setSubscriptionObj b st)
     | Act_setFrameworkActionReqObj b \<Rightarrow> Some (setFrameworkActionReqObj b st)
     | Act_subscribe l c b \<Rightarrow> Some (subscribe l c b st)
     | Act_unsubscribe l c \<Rightarrow> Some (unsubscribe l c st)
     | Act_unsubscribeAll c \<Rightarrow> Some (unsubscribeAll c st)
     | Act_notify dl \<Rightarrow> Some (os_notify env dl st)
     | Act_turnOn d t \<Rightarrow> Some (turnOn d t st)
     | Act_turnOff d \<Rightarrow> Some (turnOff d st)
     | Act_task \<Rightarrow> run_msg env st);
     os_run env as st
   }"

definition hist_ok :: "os_observer \<Rightarrow> bool" where
  "hist_ok st \<longleftrightarrow> os_ok st \<and> (\<forall>m \<in> set (mMsgTask st). msg_ok m)"


lemma os_ok_msgs [simp]: "os_ok (st\<lparr>mMsgTask := ms\<rparr>) = os_ok st"
  "os_ok (st\<lparr>mActiveRequestCount := n\<rparr>) = os_ok st" "os_ok (st\<lparr>mFrameworkActionReqObj := b\<rparr>) = os_ok st"
  by (rule os_ok_cong; simp)+


text \<open>No message posts another one, except that of \<open>turnOn\<close>, which posts another of its kind.\<close>

lemma send_msgs [simp]: "mMsgTask (sendCachedDataItems s c st) = mMsgTask st"
  by (simp add: sendCachedDataItems_def Let_def)










lemma new_observer_ok: "hist_ok new_observer"
  by (simp add: hist_ok_def new_observer_def os_ok_def getValSet_def no_empty_def)

section \<open>What the observer promises\<close>


definition env_ok :: os_env where
  "env_ok = \<lparr>stale_ok = True, eventDataItemNotify = (\<lambda>d c. True), createNewDataItem = (\<lambda>d. True),
     copy = (\<lambda>old c. (c, c \<noteq> old))\<rparr>"




lemma update_items_cached:
  "d \<in> fst (update_items env dcs st) \<or> mDataItemCache st d \<noteq> None \<Longrightarrow>
     mDataItemCache (snd (update_items env dcs st)) d \<noteq> None"
proof (induction dcs arbitrary: st)
  case (Cons dc dcs)
  have "(fst (updateCache env dc st) \<and> d = fst dc) \<or> mDataItemCache st d \<noteq> None \<Longrightarrow>
      mDataItemCache (snd (updateCache env dc st)) d \<noteq> None"
    by (cases dc) (auto simp: updateCache_def Let_def split: prod.splits option.splits if_splits)
  then show ?case using Cons.prems Cons.IH [of "snd (updateCache env dc st)"]
    by (auto simp: Let_def case_prod_beta split: if_splits)
qed simp

lemma concat_singletons: "\<forall>x \<in> set xs. f x = [g x] \<Longrightarrow> concat (map f xs) = map g xs"
  by (induction xs) auto

text \<open>A notification from the framework reaches exactly the clients that want one of the items it
  changed, each of them once, with all of those items and their new contents.\<close>

theorem os_notify_reaches_subscribers:
  assumes ok: "os_ok st"
  shows "let ids = fst (update_items env v st); cache = mDataItemCache (proc_Notify env v st) in
    \<exists>new. notified (proc_Notify env v st) = notified st @ new \<and> distinct (map fst new) \<and>
      set new = {(c, X). X = {(d, x). (c, d) \<in> pairs st \<and> d \<in> ids \<and> cache d = Some x} \<and> X \<noteq> {}}"
proof -
  let ?ids = "fst (update_items env v st)" and ?st1 = "snd (update_items env v st)"
  let ?cs = "\<Union>d \<in> ?ids. clients_of st d" and ?g = "\<lambda>c. (c, cached_items (mDataItemCache ?st1) (items_of st c \<inter> ?ids))"
  have st1: "mClientToDataItems ?st1 = mClientToDataItems st" "mDataItemToClients ?st1 = mDataItemToClients st"
    "notified ?st1 = notified st" using update_items_frame by blast+
  have fin: "finite ?cs"
    using os_okD(5) [OF ok] finite_subset [OF update_items_ids [of env v st]] by auto
  have run: "proc_Notify env v st = send_items ?ids (sorted_list_of_set ?cs) ?st1"
    by (simp add: proc_Notify_def st1 Let_def case_prod_beta)
  have X: "cached_items (mDataItemCache ?st1) (items_of st c \<inter> ?ids) =
      {(d, x). (c, d) \<in> pairs st \<and> d \<in> ?ids \<and> mDataItemCache ?st1 d = Some x}" for c
    by (auto simp: cached_items_def pairs_def)
  have some: "c \<noteq> NULL \<and> cached_items (mDataItemCache ?st1) (items_of st c \<inter> ?ids) \<noteq> {}" if c: "c \<in> ?cs" for c
  proof -
    obtain d where d: "d \<in> ?ids" "d \<in> items_of st c" using c os_okD(1) [OF ok] by auto
    have "c \<noteq> NULL" by (rule os_ok_client [OF ok d(2)])
    then show ?thesis using d update_items_cached [of d env v st] by (auto simp: X pairs_def)
  qed
  have "notified (proc_Notify env v st) = notified st @ map ?g (sorted_list_of_set ?cs)"
  proof -
    have "concat (map (\<lambda>c. sent_to (mDataItemCache ?st1) (items_of st c \<inter> ?ids) c) (sorted_list_of_set ?cs)) =
        map ?g (sorted_list_of_set ?cs)"
    proof (rule concat_singletons, rule ballI)
      fix c
      assume "c \<in> set (sorted_list_of_set ?cs)"
      then have "c \<in> ?cs" using fin by simp
      from some [OF this] show "sent_to (mDataItemCache ?st1) (items_of st c \<inter> ?ids) c = [?g c]" by (simp add: sent_to_def)
    qed
    then show ?thesis using send_items_eq [of ?ids "sorted_list_of_set ?cs" ?st1] by (simp only: run st1)
  qed
  moreover have "mDataItemCache (proc_Notify env v st) = mDataItemCache ?st1"
    using send_items_eq by (simp add: run)
  moreover have "set (map ?g (sorted_list_of_set ?cs)) = {(c, X). X =
      {(d, x). (c, d) \<in> pairs st \<and> d \<in> ?ids \<and> mDataItemCache ?st1 d = Some x} \<and> X \<noteq> {}}"
  proof (intro subset_antisym subsetI)
    fix p
    assume "p \<in> set (map ?g (sorted_list_of_set ?cs))"
    then obtain c where c: "c \<in> ?cs" "p = ?g c" using fin by auto
    then show "p \<in> {(c, X). X =
        {(d, x). (c, d) \<in> pairs st \<and> d \<in> ?ids \<and> mDataItemCache ?st1 d = Some x} \<and> X \<noteq> {}}"
      using some [OF c(1)] by (simp only: X mem_Collect_eq case_prod_conv simp_thms)
  next
    fix p
    assume "p \<in> {(c, X). X =
        {(d, x). (c, d) \<in> pairs st \<and> d \<in> ?ids \<and> mDataItemCache ?st1 d = Some x} \<and> X \<noteq> {}}"
    then obtain c d where p: "p = ?g c" "(c, d) \<in> pairs st" "d \<in> ?ids" by (auto simp: X)
    then have "c \<in> ?cs" using os_okD(1) [OF ok] by (auto simp: pairs_def)
    then show "p \<in> set (map ?g (sorted_list_of_set ?cs))" using p(1) fin by simp
  qed
  ultimately show ?thesis using fin by (auto simp: Let_def comp_def)
qed

theorem os_notify_reaches_subscribers_witness:
  "let st = proc_Subscribe [5] 1 False new_observer; v = [(5, 8)];
       ids = fst (update_items env_ok v st); cache = mDataItemCache (proc_Notify env_ok v st) in
    \<exists>new. notified (proc_Notify env_ok v st) = notified st @ new \<and> distinct (map fst new) \<and>
      set new = {(c, X). X = {(d, x). (c, d) \<in> pairs st \<and> d \<in> ids \<and> cache d = Some x} \<and> X \<noteq> {}}"
proof -
  have "os_ok (proc_Subscribe [5] 1 False new_observer)"
    using proc_Subscribe_ok [of new_observer "[5]" 1 False] new_observer_ok by (simp add: hist_ok_def)
  from os_notify_reaches_subscribers [OF this, of env_ok "[(5, 8)]"] show ?thesis by (simp only: Let_def)
qed

section \<open>Where the code breaks the promise\<close>

lemma proc_Update_eq:
  assumes "distinct l" "l \<noteq> []"
  shows "\<exists>st'. proc_UpdateSubscription True l c st = Some st' \<and>
    mClientToDataItems st' = (mClientToDataItems st)(c \<mapsto> set l) \<and>
    mDataItemToClients st' =
      added (set l - items_of st c) {c} (trimmed (items_of st c \<inter> set l) {c} (mDataItemToClients st))"
proof -
  let ?T = "items_of st c \<inter> set l"
  have e1: "set (filter (\<lambda>d. d \<in> ?T) l) = ?T" "distinct (filter (\<lambda>d. d \<in> ?T) l)" using assms by auto
  have e2: "set (filter (\<lambda>d. d \<in> set l - ?T) l) = set l - items_of st c" "distinct (filter (\<lambda>d. d \<in> set l - ?T) l)"
    using assms by auto
  have t1: "sm_update True c l (set l) (mClientToDataItems st) =
      Some (?T, set l - ?T, (mClientToDataItems st)(c \<mapsto> set l))"
    using assms(2) by (simp add: sm_update_def interset_ok Let_def)
  have t2: "trimOrRemove True (filter (\<lambda>d. d \<in> ?T) l) [c] (Some {}) None (mDataItemToClients st) =
      Some (Some (emptied ?T {c} (mDataItemToClients st)), None, trimmed ?T {c} (mDataItemToClients st))"
    using trimOrRemove_ok [of True "Some {}" "filter (\<lambda>d. d \<in> ?T) l" "[c]" "mDataItemToClients st" None] e1 by simp
  have t3: "addAll (filter (\<lambda>d. d \<in> set l - ?T) l) {c} (Some {}) m =
      (Some (set l - items_of st c - dom m), added (set l - items_of st c) {c} m)" for m
    using addAll_added [of "{c}" "filter (\<lambda>d. d \<in> set l - ?T) l" "Some {}" m] e2 by simp
  have frame: "mDataItemToClients (st\<lparr>mClientToDataItems := m\<rparr>) = mDataItemToClients st" for m by simp
  show ?thesis
    unfolding proc_UpdateSubscription_def t1 Let_def
    by (simp only: Option.bind_lunit case_prod_conv frame t2 t3) (auto simp: Let_def)
qed

text \<open>\<open>updateSubscription\<close> leaves the two maps inconsistent: the client's own entry becomes the new
  list, but among the items' entries the client is then listed under exactly those items that are
  in one of the old and the new list and not in both. It is dropped from the items it keeps, and
  still notified of the ones it gave up.\<close>

theorem os_update_keeps_the_wrong_items:
  assumes "os_ok st" "distinct l" "l \<noteq> []"
  shows "\<exists>st'. proc_UpdateSubscription True l c st = Some st' \<and> items_of st' c = set l \<and>
    (\<forall>d. c \<in> clients_of st' d \<longleftrightarrow> (d \<in> items_of st c) \<noteq> (d \<in> set l))"
proof -
  obtain st' where st': "proc_UpdateSubscription True l c st = Some st'"
    "mClientToDataItems st' = (mClientToDataItems st)(c \<mapsto> set l)"
    "mDataItemToClients st' = added (set l - items_of st c) {c} (trimmed (items_of st c \<inter> set l) {c} (mDataItemToClients st))"
    using proc_Update_eq [OF assms(2,3)] by blast
  have "c \<in> clients_of st' d \<longleftrightarrow> (d \<in> items_of st c) \<noteq> (d \<in> set l)" for d
    using os_okD(1) [OF assms(1)] by (auto simp: st'(3) sm.vals_add sm.vals_trim)
  moreover have "items_of st' c = set l" by (simp add: st'(2) getValSet_def)
  ultimately show ?thesis using st'(1) by blast
qed

theorem os_update_keeps_the_wrong_items_witness:
  "\<exists>st'. proc_UpdateSubscription True [5, 7] 1 new_observer = Some st' \<and> items_of st' 1 = set [5, 7] \<and>
    (\<forall>d. 1 \<in> clients_of st' d \<longleftrightarrow> (d \<in> items_of new_observer 1) \<noteq> (d \<in> set [5, 7]))"
  by (rule os_update_keeps_the_wrong_items) (use new_observer_ok in \<open>auto simp: hist_ok_def\<close>)

text \<open>\<open>unsubscribe\<close> reads a map node it has just erased whenever the client gives up its last item,
  or gives up an item nobody else wants: if the node's memory is not left intact, exactly these
  calls have no defined result.\<close>

theorem os_unsubscribe_reads_erased_node:
  assumes "os_ok st" "distinct l"
  shows "proc_Unsubscribe False l c st = None \<longleftrightarrow>
    (items_of st c \<noteq> {} \<and> items_of st c \<subseteq> set l) \<or> (\<exists>d \<in> items_of st c \<inter> set l. clients_of st d = {c})"
  by (rule proc_Unsubscribe_fault [OF assms])

theorem os_unsubscribe_reads_erased_node_witness:
  "proc_Unsubscribe False [5] 1 new_observer = None \<longleftrightarrow>
    (items_of new_observer 1 \<noteq> {} \<and> items_of new_observer 1 \<subseteq> set [5]) \<or>
    (\<exists>d \<in> items_of new_observer 1 \<inter> set [5]. clients_of new_observer d = {1})"
  by (rule os_unsubscribe_reads_erased_node) (use new_observer_ok in \<open>auto simp: hist_ok_def\<close>)

lemma proc_msg_turns_on:
  assumes "proc_msg env m st = Some st'" "F_turnOn d t \<in> set (fw_calls st')"
  shows "F_turnOn d t \<in> set (fw_calls st)"
proof (cases m)
  case (HandleNotify v)
  then have "st' = proc_Notify env v st" using assms(1) by (simp add: proc_msg_def)
  then show ?thesis using assms(2) by (simp only: proc_Notify_maps)
next
  case (HandleTurnOnMsg d' t')
  then have "st' = turnOn d' t' st" using assms(1) by (simp add: proc_msg_def)
  then show ?thesis using assms(2) by (simp only: turn_maps)
qed (use assms in \<open>auto simp: proc_msg_def proc_SetSubsObj_def proc_Subscribe_def proc_UpdateSubscription_def
    proc_Unsubscribe_def proc_UnsubscribeAll_def Let_def split: prod.splits if_splits bind_splits\<close>)

lemma os_act_calls: "os_run env [a] st = Some st' \<Longrightarrow> a \<noteq> Act_task \<Longrightarrow> fw_calls st' = fw_calls st"
  by (cases a) (auto simp: setSubscriptionObj_def setFrameworkActionReqObj_def subscribe_def unsubscribe_def
      unsubscribeAll_def os_notify_def split: if_splits)

lemma os_run_turns_on: "os_run env as st = Some st' \<Longrightarrow> F_turnOn d t \<in> set (fw_calls st') \<Longrightarrow> F_turnOn d t \<in> set (fw_calls st)"
proof (induction as arbitrary: st)
  case (Cons a as)
  obtain st1 where st1: "os_run env [a] st = Some st1" "os_run env as st1 = Some st'"
    using Cons.prems(1) by (auto split: bind_splits)
  have on: "F_turnOn d t \<in> set (fw_calls st1)" using Cons.IH [OF st1(2) Cons.prems(2)] .
  show ?case
  proof (cases "a = Act_task")
    case Act_task: True
    show ?thesis
    proof (cases "mMsgTask st")
      case Nil
      then show ?thesis using st1(1) on Act_task by (simp add: run_msg_def)
    next
      case (Cons m ms)
      then have "proc_msg env m (st\<lparr>mMsgTask := ms\<rparr>) = Some st1" using st1(1) Act_task by (auto simp: run_msg_def split: bind_splits)
      from proc_msg_turns_on [OF this on] show ?thesis by simp
    qed
  next
    case False
    then have "fw_calls st1 = fw_calls st" using os_act_calls st1(1) by blast
    then show ?thesis using on by simp
  qed
qed simp

text \<open>The request to turn a data item on never reaches the framework, in any history: its message
  calls the observer again, which only counts a second request.\<close>

theorem os_turn_on_never_sent:
  assumes "os_run env as new_observer = Some st"
  shows "F_turnOn d t \<notin> set (fw_calls st)"
  using os_run_turns_on [OF assms] by (auto simp: new_observer_def)

theorem os_turn_on_never_sent_witness:
  "F_turnOn 5 9 \<notin> set (fw_calls (the (os_run env_ok
     [Act_setFrameworkActionReqObj True, Act_turnOn 5 9, Act_task] new_observer)))"
  by (rule os_turn_on_never_sent [of env_ok "[Act_setFrameworkActionReqObj True, Act_turnOn 5 9, Act_task]"])
    (simp add: setFrameworkActionReqObj_def new_observer_def turnOn_def sendMsg_def run_msg_def proc_msg_def)

end
