(* ===== verification/StdMap.thy ===== *)
theory StdMap
  imports Prelude "HOL-Library.Product_Lexorder"
begin

text \<open>
  \<open>std::map\<close> where the code iterates over it: an association list in the order of its keys, which
  is the order of the iteration. The interface is that of a finite map; the lemmas of the locale
  are what a loop over the entries needs.
\<close>

type_synonym ('k, 'v) std_map = "('k \<times> 'v) list"

fun sm_put :: "'k::linorder \<Rightarrow> 'v \<Rightarrow> ('k, 'v) std_map \<Rightarrow> ('k, 'v) std_map" where
  "sm_put k v [] = [(k, v)]"
| "sm_put k v ((a, b) # m) =
     (if k < a then (k, v) # (a, b) # m else if k = a then (k, v) # m else (a, b) # sm_put k v m)"

fun sm_erase :: "'k \<Rightarrow> ('k, 'v) std_map \<Rightarrow> ('k, 'v) std_map" where
  "sm_erase k [] = []"
| "sm_erase k ((a, b) # m) = (if k = a then m else (a, b) # sm_erase k m)"

abbreviation sm_find :: "('k, 'v) std_map \<Rightarrow> 'k \<Rightarrow> 'v option" where
  "sm_find \<equiv> map_of"

definition sm_ok :: "('k::linorder, 'v) std_map \<Rightarrow> bool" where
  "sm_ok m \<longleftrightarrow> sorted_wrt (<) (map fst m)"

section \<open>The laws of a map that can be iterated\<close>

locale iter_map =
  fixes lookup :: "'m \<Rightarrow> 'k \<Rightarrow> 'v option"
    and entries :: "'m \<Rightarrow> ('k \<times> 'v) list"
    and ok :: "'m \<Rightarrow> bool"
    and put :: "'k \<Rightarrow> 'v \<Rightarrow> 'm \<Rightarrow> 'm"
    and erase :: "'k \<Rightarrow> 'm \<Rightarrow> 'm"
  assumes lookup_put: "lookup (put k v m) = (lookup m)(k \<mapsto> v)"
    and lookup_erase: "ok m \<Longrightarrow> lookup (erase k m) = (lookup m)(k := None)"
    and ok_put: "ok m \<Longrightarrow> ok (put k v m)"
    and ok_erase: "ok m \<Longrightarrow> ok (erase k m)"
    and entries: "ok m \<Longrightarrow> (k, v) \<in> set (entries m) \<longleftrightarrow> lookup m k = Some v"
begin

lemma entries_put:
  "ok m \<Longrightarrow> set (entries (put k v m)) = insert (k, v) {e \<in> set (entries m). fst e \<noteq> k}"
  by (auto simp: entries ok_put lookup_put split: if_splits)

lemma entries_erase: "ok m \<Longrightarrow> set (entries (erase k m)) = {e \<in> set (entries m). fst e \<noteq> k}"
  by (auto simp: entries ok_erase lookup_erase split: if_splits)

end

lemma sm_find_put [simp]: "sm_find (sm_put k v m) = (sm_find m)(k \<mapsto> v)"
  by (induction m) auto

lemma sm_keys_put: "set (map fst (sm_put k v m)) = insert k (set (map fst m))"
  by (induction k v m rule: sm_put.induct) (simp_all add: insert_commute)

lemma sm_keys_erase: "set (map fst (sm_erase k m)) \<subseteq> set (map fst m)"
  by (induction k m rule: sm_erase.induct) (simp_all add: subset_insertI2 subset_insertI)

lemma sm_ok_Nil [simp]: "sm_ok []" by (simp add: sm_ok_def)

lemma sm_ok_Cons: "sm_ok ((a, b) # m) \<longleftrightarrow> sm_ok m \<and> (\<forall>k \<in> set (map fst m). a < k)"
  by (auto simp: sm_ok_def)

lemma sm_ok_put: "sm_ok m \<Longrightarrow> sm_ok (sm_put k v m)"
proof (induction m)
  case (Cons e m)
  obtain a b where e: "e = (a, b)" by fastforce
  have "sm_ok (sm_put k v m)" "\<forall>x \<in> set (map fst m). a < x" using Cons e by (simp_all add: sm_ok_Cons)
  then show ?case using Cons.prems e sm_keys_put [of k v m] by (auto simp: sm_ok_Cons)
qed (simp add: sm_ok_Cons)

lemma sm_ok_erase: "sm_ok m \<Longrightarrow> sm_ok (sm_erase k m)"
proof (induction m)
  case (Cons e m)
  obtain a b where e: "e = (a, b)" by fastforce
  have "\<forall>x \<in> set (map fst (sm_erase k m)). a < x" using Cons.prems e sm_keys_erase [of k m] by (simp only: sm_ok_Cons) blast
  then show ?case using Cons e by (simp add: sm_ok_Cons)
qed simp

lemma sm_distinct: "sm_ok m \<Longrightarrow> distinct (map fst m)"
  by (simp add: sm_ok_def strict_sorted_iff)

lemma sm_find_erase: "sm_ok m \<Longrightarrow> sm_find (sm_erase k m) = (sm_find m)(k := None)"
proof (induction m)
  case (Cons e m)
  obtain a b where e: "e = (a, b)" by fastforce
  have "a \<notin> set (map fst m)" using Cons.prems e by (auto simp: sm_ok_Cons)
  then have "sm_find m a = None" by (simp add: map_of_eq_None_iff)
  then show ?case using Cons e by (auto simp: sm_ok_Cons fun_eq_iff)
qed auto

lemma sm_erase_filter: "sm_ok m \<Longrightarrow> sm_erase k m = filter (\<lambda>e. fst e \<noteq> k) m"
proof (induction m)
  case (Cons e m)
  obtain a b where e: "e = (a, b)" by fastforce
  have "a \<notin> set (map fst m)" using Cons.prems e by (auto simp: sm_ok_Cons)
  then have "filter (\<lambda>e. fst e \<noteq> a) m = m" by (auto simp: filter_id_conv)
  then show ?case using Cons e by (auto simp: sm_ok_Cons)
qed simp

interpretation smi: iter_map map_of "\<lambda>m. m" sm_ok sm_put sm_erase
proof
  show "(k, v) \<in> set m \<longleftrightarrow> sm_find m k = Some v" if "sm_ok m" for m and k :: "'a::linorder" and v :: 'b
    using that sm_distinct [OF that] by (simp add: map_of_eq_Some_iff)
qed (simp_all add: sm_find_erase sm_ok_put sm_ok_erase)

end
