(* ===== verification/GnssAdapter.thy ===== *)
theory GnssAdapter
  imports StdMap LocClient
begin

text \<open>
  \<open>gps/gnss/GnssAdapter.{h,cpp}\<close>, the adapter between the location API and the GNSS engine: its
  clients and their callbacks, the multiplexing of their tracking sessions onto the one session
  of the engine, the power vote, requests for on-demand positions (ODCPI) and position reports.
  A command called from another thread posts a message; the message task runs its \<open>proc\<close>. The
  user-location proxy and the engine answer a call with a boolean; what they answer is an argument
  (\<open>gnss_env\<close>), indexed by the number of calls made before, so that all patterns of success and
  failure are covered. Calls and callbacks are recorded, with their answers, in \<open>gnss_log\<close>.
  A callback is only known to be set or not. Calling the ODCPI callback while it is empty throws
  an exception nobody catches, which is a fault (\<open>None\<close>).
\<close>

section \<open>Data\<close>

type_synonym client = ptr

datatype GnssSuplMode = GNSS_SUPL_MODE_STANDALONE | GNSS_SUPL_MODE_MSB | GNSS_SUPL_MODE_MSA

record LocationOptions =
  opt_size :: nat
  minInterval :: uint32
  opt_mode :: GnssSuplMode

definition zero_options :: LocationOptions where
  "zero_options = \<lparr>opt_size = 0, minInterval = 0, opt_mode = GNSS_SUPL_MODE_STANDALONE\<rparr>"

datatype LocPositionMode =
    LOC_POSITION_MODE_INVALID
  | LOC_POSITION_MODE_STANDALONE
  | LOC_POSITION_MODE_MS_BASED
  | LOC_POSITION_MODE_MS_ASSISTED

text \<open>\<open>pm_rest\<close> stands for the fields that are only compared; 0 is their default.\<close>

record LocPosMode =
  pos_mode :: LocPositionMode
  min_interval :: uint32
  share_position :: bool
  pm_rest :: opaque

definition new_LocPosMode :: LocPosMode where
  "new_LocPosMode = \<lparr>pos_mode = LOC_POSITION_MODE_MS_BASED, min_interval = 1000, share_position = True, pm_rest = 0\<rparr>"

definition mode_equals :: "LocPosMode \<Rightarrow> LocPosMode \<Rightarrow> bool" where
  "mode_equals m another \<longleftrightarrow> pos_mode another = pos_mode m \<and> min_interval another = min_interval m \<and>
     pm_rest another = pm_rest m"

record LocationCallbacks =
  trackingCb :: bool
  gnssLocationInfoCb :: bool
  gnssNiCb :: bool
  gnssSvCb :: bool
  gnssNmeaCb :: bool
  gnssMeasurementsCb :: bool
  responseCb :: bool
  capabilitiesCb :: bool

definition no_callbacks :: LocationCallbacks where
  "no_callbacks = \<lparr>trackingCb = False, gnssLocationInfoCb = False, gnssNiCb = False, gnssSvCb = False,
     gnssNmeaCb = False, gnssMeasurementsCb = False, responseCb = False, capabilitiesCb = False\<rparr>"

text \<open>A session key is ordered by its identifier first.\<close>

type_synonym session_key = "uint32 \<times> client"

datatype OdcpiRequestType = ODCPI_REQUEST_TYPE_START | ODCPI_REQUEST_TYPE_STOP

record OdcpiRequestInfo =
  od_type :: OdcpiRequestType
  tbfMillis :: uint32
  isEmergencyMode :: bool

datatype loc_sess_status = LOC_SESS_SUCCESS | LOC_SESS_INTERMEDIATE | LOC_SESS_FAILURE

text \<open>What the code looks at in a position; coordinates and accuracy are floating point.\<close>

record position =
  loc_flags :: "16 word"
  accuracy :: opaque
  lat_long_zero :: bool
  reliability_not_set :: bool
  extended_flags :: uint32
  rawData :: ptr

datatype gnss_msg =
    MsgAddClient client LocationCallbacks
  | MsgRemoveClient client
  | MsgRequestCapabilities client
  | MsgStartTracking client uint32 LocationOptions
  | MsgUpdateTracking client uint32 LocationOptions
  | MsgStopTracking client uint32
  | MsgRestartSessions
  | MsgSetPositionMode LocPosMode
  | MsgUlpStartTracking
  | MsgUlpStopTracking
  | MsgEnableGnss uint32 bool
  | MsgDisableGnss uint32
  | MsgReportPosition position loc_sess_status uint32
  | MsgReportOdcpiRequest OdcpiRequestInfo
  | MsgInitOdcpi bool
  | MsgOdcpiTimerExpire

datatype gnss_out =
    Ulp_sendFixMode LocPosMode
  | Ulp_sendStartFix bool
  | Ulp_sendStopFix bool
  | Api_startFix LocPosMode bool
  | Api_stopFix bool
  | Api_setPositionMode LocPosMode
  | Api_setGpsLock uint32
  | Api_updateEvtMask
  | Modem_powerVote bool
  | Xtra_updateLockStatus uint32
  | Cb_response client LocationError uint32
  | Cb_control_response LocationError uint32
  | Cb_capabilities client uint32
  | Cb_tracking client position
  | Cb_location_info client position
  | Nmea_generate bool
  | Delete_raw ptr
  | Sys_eventPosition position
  | Cb_odcpi OdcpiRequestInfo
  | Timer_start
  | Timer_stop

text \<open>The outside world: answers of the engine and the proxy, and the configuration.\<close>

record gnss_env =
  ulp_takes_start :: "nat \<Rightarrow> bool"
  ulp_takes_stop :: "nat \<Rightarrow> bool"
  api_start_ok :: "nat \<Rightarrow> bool"
  api_stop_ok :: "nat \<Rightarrow> bool"
  ulp_takes_position :: "position \<Rightarrow> bool"
  has_context :: bool
  nmea_mask :: bool
  external_dr :: bool
  agps_status_cb :: bool
  carrier_caps :: uint32
  api_supports :: "nat \<Rightarrow> bool"
  gnss_constellation :: bool
  debug_nmea :: bool
  conf_gps_lock :: uint32
  accepts_intermediate :: bool
  accuracy_thres :: uint32
  accuracy_gt :: "opaque \<Rightarrow> uint32 \<Rightarrow> bool"
  nmea_provider_ap :: bool
  has_system_status :: bool

record gnss_adapter =
  mClientData :: "(client, LocationCallbacks) std_map"
  mTrackingSessions :: "(session_key, LocationOptions) std_map"
  mUlpPositionMode :: LocPosMode
  mGnssSvIdUsedInPosAvail :: bool
  mPowerVoteId :: uint32
  mSessionIdCounter :: uint32
  mEvtMask :: "64 word"
  control_responseCb :: bool
  mOdcpiRequestCb :: bool
  mOdcpiRequestActive :: bool
  mOdcpiTimer_active :: bool
  mOdcpiRequest :: OdcpiRequestInfo
  gnss_queue :: "gnss_msg list"
  gnss_log :: "gnss_out list"

definition GnssAdapter :: gnss_adapter where
  "GnssAdapter = \<lparr>mClientData = [], mTrackingSessions = [],
     mUlpPositionMode = new_LocPosMode\<lparr>pos_mode := LOC_POSITION_MODE_INVALID\<rparr>,
     mGnssSvIdUsedInPosAvail = False, mPowerVoteId = 0, mSessionIdCounter = 1, mEvtMask = 0,
     control_responseCb = False, mOdcpiRequestCb = False, mOdcpiRequestActive = False, mOdcpiTimer_active = False,
     mOdcpiRequest = \<lparr>od_type = ODCPI_REQUEST_TYPE_START, tbfMillis = 0, isEmergencyMode = False\<rparr>,
     gnss_queue = [], gnss_log = []\<rparr>"

definition out :: "gnss_out \<Rightarrow> gnss_adapter \<Rightarrow> gnss_adapter" where
  "out x a = a\<lparr>gnss_log := gnss_log a @ [x]\<rparr>"

definition post :: "gnss_msg \<Rightarrow> gnss_adapter \<Rightarrow> gnss_adapter" where
  "post m a = a\<lparr>gnss_queue := gnss_queue a @ [m]\<rparr>"

text \<open>The number of the next call, which selects its answer.\<close>

abbreviation now :: "gnss_adapter \<Rightarrow> nat" where
  "now a \<equiv> length (gnss_log a)"

section \<open>Identifiers and clients\<close>

definition generateSessionId :: "gnss_adapter \<Rightarrow> uint32 \<times> gnss_adapter" where
  "generateSessionId a =
     (let c = mSessionIdCounter a + 1; c = (if c = 0xFFFFFFFF then 1 else c) in (c, a\<lparr>mSessionIdCounter := c\<rparr>))"

definition LOC_API_ADAPTER_BIT_PARSED_POSITION_REPORT :: "64 word" where "LOC_API_ADAPTER_BIT_PARSED_POSITION_REPORT = 1"
definition LOC_API_ADAPTER_BIT_SATELLITE_REPORT :: "64 word" where "LOC_API_ADAPTER_BIT_SATELLITE_REPORT = 2"
definition LOC_API_ADAPTER_BIT_NMEA_1HZ_REPORT :: "64 word" where "LOC_API_ADAPTER_BIT_NMEA_1HZ_REPORT = 4"
definition LOC_API_ADAPTER_BIT_NI_NOTIFY_VERIFY_REQUEST :: "64 word" where "LOC_API_ADAPTER_BIT_NI_NOTIFY_VERIFY_REQUEST = 0x10"
definition LOC_API_ADAPTER_BIT_LOCATION_SERVER_REQUEST :: "64 word" where "LOC_API_ADAPTER_BIT_LOCATION_SERVER_REQUEST = 0x40"
definition LOC_API_ADAPTER_BIT_REQUEST_WIFI :: "64 word" where "LOC_API_ADAPTER_BIT_REQUEST_WIFI = 0x200"
definition LOC_API_ADAPTER_BIT_GNSS_SV_POLYNOMIAL_REPORT :: "64 word" where "LOC_API_ADAPTER_BIT_GNSS_SV_POLYNOMIAL_REPORT = 0x800000"
definition LOC_API_ADAPTER_BIT_GNSS_MEASUREMENT :: "64 word" where "LOC_API_ADAPTER_BIT_GNSS_MEASUREMENT = 0x4000000"

lemmas event_bits = LOC_API_ADAPTER_BIT_PARSED_POSITION_REPORT_def LOC_API_ADAPTER_BIT_SATELLITE_REPORT_def
  LOC_API_ADAPTER_BIT_NMEA_1HZ_REPORT_def LOC_API_ADAPTER_BIT_NI_NOTIFY_VERIFY_REQUEST_def
  LOC_API_ADAPTER_BIT_LOCATION_SERVER_REQUEST_def LOC_API_ADAPTER_BIT_REQUEST_WIFI_def
  LOC_API_ADAPTER_BIT_GNSS_SV_POLYNOMIAL_REPORT_def LOC_API_ADAPTER_BIT_GNSS_MEASUREMENT_def

definition client_mask :: "gnss_env \<Rightarrow> LocationCallbacks \<Rightarrow> 64 word \<Rightarrow> 64 word" where
  "client_mask env cb bits =
     (let bits = (if trackingCb cb then bits OR LOC_API_ADAPTER_BIT_PARSED_POSITION_REPORT else bits);
          bits = (if gnssNiCb cb then bits OR LOC_API_ADAPTER_BIT_NI_NOTIFY_VERIFY_REQUEST else bits);
          bits = (if gnssSvCb cb then bits OR LOC_API_ADAPTER_BIT_SATELLITE_REPORT else bits);
          bits = (if gnssNmeaCb cb \<and> nmea_mask env then bits OR LOC_API_ADAPTER_BIT_NMEA_1HZ_REPORT else bits) in
      if gnssMeasurementsCb cb then bits OR LOC_API_ADAPTER_BIT_GNSS_MEASUREMENT else bits)"

definition updateEvtMask :: "64 word \<Rightarrow> gnss_adapter \<Rightarrow> gnss_adapter" where
  "updateEvtMask event a = out Api_updateEvtMask (a\<lparr>mEvtMask := event\<rparr>)"

definition updateClientsEventMask :: "gnss_env \<Rightarrow> gnss_adapter \<Rightarrow> gnss_adapter" where
  "updateClientsEventMask env a =
     (let bits = fold (\<lambda>e. client_mask env (snd e)) (mClientData a) 0;
          bits = (if external_dr env then bits OR LOC_API_ADAPTER_BIT_GNSS_MEASUREMENT
                    OR LOC_API_ADAPTER_BIT_GNSS_SV_POLYNOMIAL_REPORT else bits);
          bits = (if agps_status_cb env then bits OR LOC_API_ADAPTER_BIT_LOCATION_SERVER_REQUEST else bits);
          bits = (if mOdcpiRequestCb a then bits OR LOC_API_ADAPTER_BIT_REQUEST_WIFI else bits) in
      updateEvtMask bits a)"

definition getClientCallbacks :: "client \<Rightarrow> gnss_adapter \<Rightarrow> LocationCallbacks" where
  "getClientCallbacks c a = (case sm_find (mClientData a) c of Some cb \<Rightarrow> cb | None \<Rightarrow> no_callbacks)"

definition saveClient :: "gnss_env \<Rightarrow> client \<Rightarrow> LocationCallbacks \<Rightarrow> gnss_adapter \<Rightarrow> gnss_adapter" where
  "saveClient env c cb a = updateClientsEventMask env (a\<lparr>mClientData := sm_put c cb (mClientData a)\<rparr>)"

definition eraseClient :: "gnss_env \<Rightarrow> client \<Rightarrow> gnss_adapter \<Rightarrow> gnss_adapter" where
  "eraseClient env c a = updateClientsEventMask env (a\<lparr>mClientData := sm_erase c (mClientData a)\<rparr>)"

definition hasTrackingCallback :: "client \<Rightarrow> gnss_adapter \<Rightarrow> bool" where
  "hasTrackingCallback c a \<longleftrightarrow> (case sm_find (mClientData a) c of Some cb \<Rightarrow> trackingCb cb | None \<Rightarrow> False)"

definition hasMeasurementsCallback :: "client \<Rightarrow> gnss_adapter \<Rightarrow> bool" where
  "hasMeasurementsCallback c a \<longleftrightarrow> (case sm_find (mClientData a) c of Some cb \<Rightarrow> gnssMeasurementsCb cb | None \<Rightarrow> False)"

definition reportResponse :: "client \<Rightarrow> LocationError \<Rightarrow> uint32 \<Rightarrow> gnss_adapter \<Rightarrow> gnss_adapter" where
  "reportResponse c err i a =
     (case sm_find (mClientData a) c of
        Some cb \<Rightarrow> if responseCb cb then out (Cb_response c err i) a else a
      | None \<Rightarrow> a)"

definition control_reportResponse :: "LocationError \<Rightarrow> uint32 \<Rightarrow> gnss_adapter \<Rightarrow> gnss_adapter" where
  "control_reportResponse err i a = (if control_responseCb a then out (Cb_control_response err i) a else a)"

text \<open>\<open>api_supports\<close> is asked for distance based batching (0), tracking (1) and outdoor trips (2).\<close>

definition getCapabilities :: "gnss_env \<Rightarrow> uint32" where
  "getCapabilities env =
     (let bits = 0x1 OR 0x10;
          bits = (if carrier_caps env AND 2 \<noteq> 0 then bits OR 0x40 else bits);
          bits = (if 4 AND carrier_caps env \<noteq> 0 then bits OR 0x80 else bits);
          bits = (if api_supports env 0 then bits OR (0x2 OR 0x8) else bits);
          bits = (if api_supports env 1 then bits OR 0x4 else bits);
          bits = (if api_supports env 2 then bits OR 0x200 else bits);
          bits = (if gnss_constellation env then bits OR 0x20 else bits) in
      if debug_nmea env then bits OR 0x100 else bits)"

section \<open>Tracking sessions\<close>

definition isTrackingSession :: "client \<Rightarrow> uint32 \<Rightarrow> gnss_adapter \<Rightarrow> bool" where
  "isTrackingSession c i a \<longleftrightarrow> sm_find (mTrackingSessions a) (i, c) \<noteq> None"

definition saveTrackingSession :: "client \<Rightarrow> uint32 \<Rightarrow> LocationOptions \<Rightarrow> gnss_adapter \<Rightarrow> gnss_adapter" where
  "saveTrackingSession c i opts a = a\<lparr>mTrackingSessions := sm_put (i, c) opts (mTrackingSessions a)\<rparr>"

definition eraseTrackingSession :: "client \<Rightarrow> uint32 \<Rightarrow> gnss_adapter \<Rightarrow> gnss_adapter" where
  "eraseTrackingSession c i a = a\<lparr>mTrackingSessions := sm_erase (i, c) (mTrackingSessions a)\<rparr>"

definition isInSession :: "gnss_adapter \<Rightarrow> bool" where
  "isInSession a \<longleftrightarrow> mTrackingSessions a \<noteq> []"

definition convertOptions :: "LocPosMode \<Rightarrow> LocationOptions \<Rightarrow> LocPosMode" where
  "convertOptions m opts = m\<lparr>
     pos_mode := (case opt_mode opts of
         GNSS_SUPL_MODE_MSB \<Rightarrow> LOC_POSITION_MODE_MS_BASED
       | GNSS_SUPL_MODE_MSA \<Rightarrow> LOC_POSITION_MODE_MS_ASSISTED
       | GNSS_SUPL_MODE_STANDALONE \<Rightarrow> LOC_POSITION_MODE_STANDALONE),
     share_position := True, min_interval := minInterval opts\<rparr>"

definition startTracking :: "gnss_env \<Rightarrow> LocationOptions \<Rightarrow> gnss_adapter \<Rightarrow> LocationError \<times> gnss_adapter" where
  "startTracking env opts a =
     (let mode = convertOptions new_LocPosMode opts;
          a = out (Ulp_sendFixMode mode) a;
          taken = ulp_takes_start env (now a);
          a = out (Ulp_sendStartFix taken) a in
      if \<not> taken then
        (let ok = api_start_ok env (now a); a = out (Api_startFix mode ok) a in
         (if ok then LOCATION_ERROR_SUCCESS else LOCATION_ERROR_GENERAL_FAILURE, a))
      else (LOCATION_ERROR_SUCCESS, a))"

definition stopTracking :: "gnss_env \<Rightarrow> gnss_adapter \<Rightarrow> LocationError \<times> gnss_adapter" where
  "stopTracking env a =
     (let taken = ulp_takes_stop env (now a); a = out (Ulp_sendStopFix taken) a in
      if \<not> taken then
        (let ok = api_stop_ok env (now a); a = out (Api_stopFix ok) a in
         (if ok then LOCATION_ERROR_SUCCESS else LOCATION_ERROR_GENERAL_FAILURE, a))
      else (LOCATION_ERROR_SUCCESS, a))"

text \<open>The loops that look for the options of the smallest interval; size 0 means none yet.\<close>

fun smallest :: "(session_key \<Rightarrow> bool) \<Rightarrow> (session_key, LocationOptions) std_map \<Rightarrow> LocationOptions \<Rightarrow> LocationOptions" where
  "smallest P [] best = best"
| "smallest P ((k, opts) # m) best =
     smallest P m (if P k \<and> (opt_size best = 0 \<or> minInterval opts < minInterval best) then opts else best)"

definition startTrackingMultiplex :: "gnss_env \<Rightarrow> LocationOptions \<Rightarrow> gnss_adapter \<Rightarrow> LocationError \<times> gnss_adapter" where
  "startTrackingMultiplex env opts a =
     (if mTrackingSessions a = [] then startTracking env opts a
      else (let best = smallest (\<lambda>k. True) (mTrackingSessions a) zero_options in
            if minInterval opts < minInterval best then startTracking env opts a
            else (LOCATION_ERROR_SUCCESS, a)))"

definition updateTrackingMultiplex ::
  "gnss_env \<Rightarrow> client \<Rightarrow> uint32 \<Rightarrow> LocationOptions \<Rightarrow> gnss_adapter \<Rightarrow> LocationError \<times> gnss_adapter" where
  "updateTrackingMultiplex env c i opts a =
     (if length (mTrackingSessions a) = 1 then startTracking env opts a
      else (case sm_find (mTrackingSessions a) (i, c) of
              None \<Rightarrow> (LOCATION_ERROR_SUCCESS, a)
            | Some old \<Rightarrow>
                (let best = smallest (\<lambda>k. k \<noteq> (i, c)) (mTrackingSessions a) zero_options in
                 if minInterval opts < minInterval best then startTracking env opts a
                 else if minInterval old < minInterval best then startTracking env best a
                 else (LOCATION_ERROR_SUCCESS, a))))"

definition stopTrackingMultiplex ::
  "gnss_env \<Rightarrow> client \<Rightarrow> uint32 \<Rightarrow> gnss_adapter \<Rightarrow> LocationError \<times> gnss_adapter" where
  "stopTrackingMultiplex env c i a =
     (if length (mTrackingSessions a) = 1 then stopTracking env a
      else (case sm_find (mTrackingSessions a) (i, c) of
              None \<Rightarrow> (LOCATION_ERROR_SUCCESS, a)
            | Some old \<Rightarrow>
                (let best = smallest (\<lambda>k. k \<noteq> (i, c)) (mTrackingSessions a) zero_options in
                 if minInterval old < minInterval best then startTracking env best a
                 else (LOCATION_ERROR_SUCCESS, a))))"

text \<open>
  The loop runs over the sessions and erases from them; the list holds the keys from the
  iterator's position on.
\<close>

fun stop_loop :: "gnss_env \<Rightarrow> client \<Rightarrow> session_key list \<Rightarrow> gnss_adapter \<Rightarrow> gnss_adapter" where
  "stop_loop env c [] a = a"
| "stop_loop env c (k # ks) a =
     (if c = snd k then
        (case stopTrackingMultiplex env (snd k) (fst k) a of
           (err, a) \<Rightarrow>
             if err = LOCATION_ERROR_SUCCESS then stop_loop env c ks (eraseTrackingSession (snd k) (fst k) a)
             else stop_loop env c ks a)
      else stop_loop env c ks a)"

definition stopClientSessions :: "gnss_env \<Rightarrow> client \<Rightarrow> gnss_adapter \<Rightarrow> gnss_adapter" where
  "stopClientSessions env c a = stop_loop env c (map fst (mTrackingSessions a)) a"

definition restartSessions :: "gnss_env \<Rightarrow> gnss_adapter \<Rightarrow> gnss_adapter" where
  "restartSessions env a =
     (let a = a\<lparr>mOdcpiRequestActive := False\<rparr> in
      if mTrackingSessions a = [] then a
      else (let best = smallest (\<lambda>k. True) (mTrackingSessions a) zero_options;
                mode = convertOptions new_LocPosMode best in
            out (Api_startFix mode (api_start_ok env (now a))) a))"

section \<open>Messages of the tracking sessions\<close>

definition proc_StartTracking :: "gnss_env \<Rightarrow> client \<Rightarrow> uint32 \<Rightarrow> LocationOptions \<Rightarrow> gnss_adapter \<Rightarrow> gnss_adapter" where
  "proc_StartTracking env c i opts a =
     (if \<not> hasTrackingCallback c a \<and> \<not> hasMeasurementsCallback c a then
        reportResponse c LOCATION_ERROR_CALLBACK_MISSING i a
      else if opt_size opts = 0 then reportResponse c LOCATION_ERROR_INVALID_PARAMETER i a
      else (let (err, a) = startTrackingMultiplex env opts a;
                a = (if err = LOCATION_ERROR_SUCCESS then saveTrackingSession c i opts a else a) in
            reportResponse c err i a))"

definition proc_UpdateTracking :: "gnss_env \<Rightarrow> client \<Rightarrow> uint32 \<Rightarrow> LocationOptions \<Rightarrow> gnss_adapter \<Rightarrow> gnss_adapter" where
  "proc_UpdateTracking env c i opts a =
     (if isTrackingSession c i a then
        (if opt_size opts = 0 then reportResponse c LOCATION_ERROR_INVALID_PARAMETER i a
         else (let (err, a) = updateTrackingMultiplex env c i opts a;
                   a = (if err = LOCATION_ERROR_SUCCESS then saveTrackingSession c i opts a else a) in
               reportResponse c err i a))
      else a)"

definition proc_StopTracking :: "gnss_env \<Rightarrow> client \<Rightarrow> uint32 \<Rightarrow> gnss_adapter \<Rightarrow> gnss_adapter" where
  "proc_StopTracking env c i a =
     (if isTrackingSession c i a then
        (let (err, a) = stopTrackingMultiplex env c i a;
             a = (if err = LOCATION_ERROR_SUCCESS then eraseTrackingSession c i a else a) in
         reportResponse c err i a)
      else a)"

text \<open>The messages of the user-location proxy do not multiplex.\<close>

definition setUlpPositionMode :: "LocPosMode \<Rightarrow> gnss_adapter \<Rightarrow> bool \<times> gnss_adapter" where
  "setUlpPositionMode mode a =
     (if \<not> mode_equals (mUlpPositionMode a) mode then (True, a\<lparr>mUlpPositionMode := mode\<rparr>) else (False, a))"

definition proc_SetPositionMode :: "LocPosMode \<Rightarrow> gnss_adapter \<Rightarrow> gnss_adapter" where
  "proc_SetPositionMode mode a =
     (let (changed, a) = setUlpPositionMode mode a in if changed then out (Api_setPositionMode mode) a else a)"

definition proc_UlpStartTracking :: "gnss_env \<Rightarrow> gnss_adapter \<Rightarrow> gnss_adapter" where
  "proc_UlpStartTracking env a =
     (if \<not> isInSession a then out (Api_startFix (mUlpPositionMode a) (api_start_ok env (now a))) a else a)"

definition proc_UlpStopTracking :: "gnss_env \<Rightarrow> gnss_adapter \<Rightarrow> gnss_adapter" where
  "proc_UlpStopTracking env a =
     (let a = snd (setUlpPositionMode (new_LocPosMode\<lparr>pos_mode := LOC_POSITION_MODE_INVALID\<rparr>) a) in
      out (Api_stopFix (api_stop_ok env (now a))) a)"

definition proc_RequestCapabilities :: "gnss_env \<Rightarrow> client \<Rightarrow> gnss_adapter \<Rightarrow> gnss_adapter" where
  "proc_RequestCapabilities env c a =
     (if \<not> capabilitiesCb (getClientCallbacks c a) then a else out (Cb_capabilities c (getCapabilities env)) a)"

section \<open>The power vote\<close>

text \<open>The values of \<open>GnssConfigGpsLock\<close> and of the modem are the same numbers.\<close>

datatype GnssConfigGpsLock =
    GNSS_CONFIG_GPS_LOCK_NONE | GNSS_CONFIG_GPS_LOCK_MO | GNSS_CONFIG_GPS_LOCK_NI | GNSS_CONFIG_GPS_LOCK_MO_AND_NI

fun gps_lock_value :: "GnssConfigGpsLock \<Rightarrow> uint32" where
  "gps_lock_value GNSS_CONFIG_GPS_LOCK_NONE = 0"
| "gps_lock_value GNSS_CONFIG_GPS_LOCK_MO = 1"
| "gps_lock_value GNSS_CONFIG_GPS_LOCK_NI = 2"
| "gps_lock_value GNSS_CONFIG_GPS_LOCK_MO_AND_NI = 3"

fun convertGpsLock :: "GnssConfigGpsLock \<Rightarrow> uint32" where
  "convertGpsLock GNSS_CONFIG_GPS_LOCK_MO = 1"
| "convertGpsLock GNSS_CONFIG_GPS_LOCK_NI = 2"
| "convertGpsLock GNSS_CONFIG_GPS_LOCK_MO_AND_NI = 3"
| "convertGpsLock GNSS_CONFIG_GPS_LOCK_NONE = 0"

definition convertGpsLock_from :: "uint32 \<Rightarrow> GnssConfigGpsLock" where
  "convertGpsLock_from n = (if n = 1 then GNSS_CONFIG_GPS_LOCK_MO else if n = 2 then GNSS_CONFIG_GPS_LOCK_NI
     else if n = 3 then GNSS_CONFIG_GPS_LOCK_MO_AND_NI else GNSS_CONFIG_GPS_LOCK_NONE)"

definition proc_EnableGnss :: "uint32 \<Rightarrow> bool \<Rightarrow> gnss_adapter \<Rightarrow> gnss_adapter" where
  "proc_EnableGnss i is_gnss a =
     (let vote = mPowerVoteId a in
      if \<not> is_gnss then control_reportResponse LOCATION_ERROR_INVALID_PARAMETER i a
      else if vote > 0 then control_reportResponse LOCATION_ERROR_ALREADY_STARTED i a
      else (let a = out (Modem_powerVote True) a;
                a = a\<lparr>mPowerVoteId := i\<rparr>;
                a = out (Api_setGpsLock (gps_lock_value GNSS_CONFIG_GPS_LOCK_NONE)) a;
                a = out (Xtra_updateLockStatus (convertGpsLock GNSS_CONFIG_GPS_LOCK_NONE)) a in
            control_reportResponse LOCATION_ERROR_SUCCESS i a))"

text \<open>The overload for \<open>uint32_t\<close> turns the configured lock into the enumeration.\<close>

definition proc_DisableGnss :: "gnss_env \<Rightarrow> uint32 \<Rightarrow> gnss_adapter \<Rightarrow> gnss_adapter" where
  "proc_DisableGnss env i a =
     (if mPowerVoteId a \<noteq> i then control_reportResponse LOCATION_ERROR_ID_UNKNOWN i a
      else (let a = out (Modem_powerVote False) a;
                a = a\<lparr>mPowerVoteId := 0\<rparr>;
                lock = gps_lock_value (convertGpsLock_from (conf_gps_lock env));
                a = out (Api_setGpsLock lock) a;
                a = out (Xtra_updateLockStatus lock) a in
            control_reportResponse LOCATION_ERROR_SUCCESS i a))"

section \<open>Position reports\<close>

definition needReport :: "gnss_env \<Rightarrow> position \<Rightarrow> loc_sess_status \<Rightarrow> uint32 \<Rightarrow> bool" where
  "needReport env p status tech =
     (if status = LOC_SESS_SUCCESS then (0x1 OR 0x8 OR 0x80) AND tech \<noteq> 0
      else if status = LOC_SESS_INTERMEDIATE \<and> accepts_intermediate env then
        \<not> (loc_flags p AND 0x10 \<noteq> 0 \<and> accuracy_thres env \<noteq> 0 \<and> accuracy_gt env (accuracy p) (accuracy_thres env))
      else False)"

fun report_clients :: "position \<Rightarrow> (client, LocationCallbacks) std_map \<Rightarrow> gnss_adapter \<Rightarrow> gnss_adapter" where
  "report_clients p [] a = a"
| "report_clients p ((c, cb) # m) a =
     (let a = (if trackingCb cb then out (Cb_tracking c p) a else a);
          a = (if gnssLocationInfoCb cb then out (Cb_location_info c p) a else a) in
      report_clients p m a)"

definition reportPosition :: "gnss_env \<Rightarrow> position \<Rightarrow> loc_sess_status \<Rightarrow> uint32 \<Rightarrow> gnss_adapter \<Rightarrow> gnss_adapter" where
  "reportPosition env p status tech a =
     (let reported = needReport env p status tech;
          a = (if reported then
                 (let a = (if extended_flags p AND 0x1000 \<noteq> 0 then a\<lparr>mGnssSvIdUsedInPosAvail := True\<rparr> else a) in
                  report_clients p (mClientData a) a)
               else a);
          a = (if nmea_provider_ap env \<and> mTrackingSessions a \<noteq> [] then
                 (let blank_fix = lat_long_zero p \<and> reliability_not_set p in
                  out (Nmea_generate (reported \<and> status \<noteq> LOC_SESS_FAILURE \<and> \<not> blank_fix)) a)
               else a) in
      if rawData p \<noteq> NULL then out (Delete_raw (rawData p)) a else a)"

definition proc_ReportPosition :: "gnss_env \<Rightarrow> position \<Rightarrow> loc_sess_status \<Rightarrow> uint32 \<Rightarrow> gnss_adapter \<Rightarrow> gnss_adapter" where
  "proc_ReportPosition env p status tech a =
     (let a = (if has_system_status env \<and> (status = LOC_SESS_SUCCESS \<or> status = LOC_SESS_INTERMEDIATE)
               then out (Sys_eventPosition p) a else a) in
      reportPosition env p status tech a)"

section \<open>On-demand positions\<close>

definition OdcpiTimer_start :: "gnss_adapter \<Rightarrow> gnss_adapter" where
  "OdcpiTimer_start a = out Timer_start (a\<lparr>mOdcpiTimer_active := True\<rparr>)"

definition OdcpiTimer_stop :: "gnss_adapter \<Rightarrow> gnss_adapter" where
  "OdcpiTimer_stop a = out Timer_stop (a\<lparr>mOdcpiTimer_active := False\<rparr>)"

definition OdcpiTimer_restart :: "gnss_adapter \<Rightarrow> gnss_adapter" where
  "OdcpiTimer_restart a = OdcpiTimer_start (OdcpiTimer_stop a)"

definition reportOdcpiRequest :: "OdcpiRequestInfo \<Rightarrow> gnss_adapter \<Rightarrow> gnss_adapter" where
  "reportOdcpiRequest req a =
     (if mOdcpiRequestCb a then
        (if od_type req = ODCPI_REQUEST_TYPE_START then
           (let a = (if \<not> mOdcpiRequestActive a \<and> \<not> mOdcpiTimer_active a then
                       OdcpiTimer_start ((out (Cb_odcpi req) a)\<lparr>mOdcpiRequestActive := True\<rparr>)
                     else if \<not> isEmergencyMode (mOdcpiRequest a) \<and> isEmergencyMode req then
                       (let a = (out (Cb_odcpi req) a)\<lparr>mOdcpiRequestActive := True\<rparr> in
                        if mOdcpiTimer_active a then OdcpiTimer_restart a else OdcpiTimer_start a)
                     else if \<not> mOdcpiRequestActive a \<and> mOdcpiTimer_active a then a\<lparr>mOdcpiRequestActive := True\<rparr>
                     else a) in
            a\<lparr>mOdcpiRequest := req\<rparr>)
         else a\<lparr>mOdcpiRequestActive := False\<rparr>)
      else a)"

definition initOdcpi :: "bool \<Rightarrow> gnss_adapter \<Rightarrow> gnss_adapter" where
  "initOdcpi cb_set a =
     (let a = a\<lparr>mOdcpiRequestCb := cb_set\<rparr> in
      out Api_updateEvtMask (a\<lparr>mEvtMask := mEvtMask a OR LOC_API_ADAPTER_BIT_REQUEST_WIFI\<rparr>))"

definition odcpiTimerExpire :: "gnss_adapter \<Rightarrow> gnss_adapter option" where
  "odcpiTimerExpire a =
     (if mOdcpiRequestActive a then
        (if mOdcpiRequestCb a then Some (OdcpiTimer_restart (out (Cb_odcpi (mOdcpiRequest a)) a)) else None)
      else Some (OdcpiTimer_stop a))"

section \<open>The message task and the commands\<close>

definition gnss_proc :: "gnss_env \<Rightarrow> gnss_msg \<Rightarrow> gnss_adapter \<Rightarrow> gnss_adapter option" where
  "gnss_proc env m a =
     (case m of
        MsgAddClient c cb \<Rightarrow> Some (saveClient env c cb a)
      | MsgRemoveClient c \<Rightarrow> Some (eraseClient env c (stopClientSessions env c a))
      | MsgRequestCapabilities c \<Rightarrow> Some (proc_RequestCapabilities env c a)
      | MsgStartTracking c i opts \<Rightarrow> Some (proc_StartTracking env c i opts a)
      | MsgUpdateTracking c i opts \<Rightarrow> Some (proc_UpdateTracking env c i opts a)
      | MsgStopTracking c i \<Rightarrow> Some (proc_StopTracking env c i a)
      | MsgRestartSessions \<Rightarrow> Some (restartSessions env a)
      | MsgSetPositionMode mode \<Rightarrow> Some (proc_SetPositionMode mode a)
      | MsgUlpStartTracking \<Rightarrow> Some (proc_UlpStartTracking env a)
      | MsgUlpStopTracking \<Rightarrow> Some (proc_UlpStopTracking env a)
      | MsgEnableGnss i is_gnss \<Rightarrow> Some (proc_EnableGnss i is_gnss a)
      | MsgDisableGnss i \<Rightarrow> Some (proc_DisableGnss env i a)
      | MsgReportPosition p status tech \<Rightarrow> Some (proc_ReportPosition env p status tech a)
      | MsgReportOdcpiRequest req \<Rightarrow> Some (reportOdcpiRequest req a)
      | MsgInitOdcpi cb_set \<Rightarrow> Some (initOdcpi cb_set a)
      | MsgOdcpiTimerExpire \<Rightarrow> odcpiTimerExpire a)"

definition gnss_run :: "gnss_env \<Rightarrow> gnss_adapter \<Rightarrow> gnss_adapter option" where
  "gnss_run env a = (case gnss_queue a of [] \<Rightarrow> Some a | m # ms \<Rightarrow> gnss_proc env m (a\<lparr>gnss_queue := ms\<rparr>))"

definition addClientCommand :: "client \<Rightarrow> LocationCallbacks \<Rightarrow> gnss_adapter \<Rightarrow> gnss_adapter" where
  "addClientCommand c cb a = post (MsgAddClient c cb) a"

definition removeClientCommand :: "client \<Rightarrow> gnss_adapter \<Rightarrow> gnss_adapter" where
  "removeClientCommand c a = post (MsgRemoveClient c) a"

definition requestCapabilitiesCommand :: "client \<Rightarrow> gnss_adapter \<Rightarrow> gnss_adapter" where
  "requestCapabilitiesCommand c a = post (MsgRequestCapabilities c) a"

definition startTrackingCommand :: "client \<Rightarrow> LocationOptions \<Rightarrow> gnss_adapter \<Rightarrow> uint32 \<times> gnss_adapter" where
  "startTrackingCommand c opts a =
     (let (i, a) = generateSessionId a in (i, post (MsgStartTracking c i opts) a))"

definition updateTrackingOptionsCommand :: "client \<Rightarrow> uint32 \<Rightarrow> LocationOptions \<Rightarrow> gnss_adapter \<Rightarrow> gnss_adapter" where
  "updateTrackingOptionsCommand c i opts a = post (MsgUpdateTracking c i opts) a"

definition stopTrackingCommand :: "client \<Rightarrow> uint32 \<Rightarrow> gnss_adapter \<Rightarrow> gnss_adapter" where
  "stopTrackingCommand c i a = post (MsgStopTracking c i) a"

definition setPositionModeCommand :: "LocPosMode \<Rightarrow> gnss_adapter \<Rightarrow> gnss_adapter" where
  "setPositionModeCommand mode a = post (MsgSetPositionMode mode) a"

definition ulp_startTrackingCommand :: "gnss_adapter \<Rightarrow> gnss_adapter" where
  "ulp_startTrackingCommand a = post MsgUlpStartTracking a"

definition ulp_stopTrackingCommand :: "gnss_adapter \<Rightarrow> gnss_adapter" where
  "ulp_stopTrackingCommand a = post MsgUlpStopTracking a"

definition enableCommand :: "gnss_env \<Rightarrow> bool \<Rightarrow> gnss_adapter \<Rightarrow> uint32 \<times> gnss_adapter" where
  "enableCommand env is_gnss a =
     (let (i, a) = generateSessionId a in (i, if has_context env then post (MsgEnableGnss i is_gnss) a else a))"

definition disableCommand :: "gnss_env \<Rightarrow> uint32 \<Rightarrow> gnss_adapter \<Rightarrow> gnss_adapter" where
  "disableCommand env i a = (if has_context env then post (MsgDisableGnss i) a else a)"

definition reportPositionEvent ::
  "gnss_env \<Rightarrow> position \<Rightarrow> loc_sess_status \<Rightarrow> uint32 \<Rightarrow> bool \<Rightarrow> gnss_adapter \<Rightarrow> gnss_adapter" where
  "reportPositionEvent env p status tech fromUlp a =
     (if \<not> fromUlp \<and> ulp_takes_position env p then a else post (MsgReportPosition p status tech) a)"

definition reportOdcpiRequestEvent :: "OdcpiRequestInfo \<Rightarrow> gnss_adapter \<Rightarrow> gnss_adapter" where
  "reportOdcpiRequestEvent req a = post (MsgReportOdcpiRequest req) a"

definition initOdcpiCommand :: "bool \<Rightarrow> gnss_adapter \<Rightarrow> gnss_adapter" where
  "initOdcpiCommand cb_set a = post (MsgInitOdcpi cb_set) a"

definition odcpiTimerExpireEvent :: "gnss_adapter \<Rightarrow> gnss_adapter" where
  "odcpiTimerExpireEvent a = post MsgOdcpiTimerExpire a"

text \<open>The other half of \<open>handleEngineUpEvent\<close> reads the configuration again.\<close>

definition handleEngineUpEvent :: "gnss_adapter \<Rightarrow> gnss_adapter" where
  "handleEngineUpEvent a = post MsgRestartSessions a"

end
