(* ===== verification/GnssAdapterProofs.thy ===== *)
theory GnssAdapterProofs
  imports GnssAdapter
begin

text \<open>
  The adapter of the GNSS engine (\<open>gps/gnss/GnssAdapter.cpp\<close>): whatever its clients do and the
  engine answers, the engine's one session is the one the clients' sessions call for.
\<close>

section \<open>What the engine is doing\<close>

text \<open>
  The engine's session according to the calls made and their answers: a start that is taken or
  succeeds replaces the running session, a stop that is taken or succeeds ends it, a call that
  fails changes nothing. The proxy starts with the mode it was last sent. For its clients' sessions
  the adapter first offers the call to the proxy and turns to the engine when the proxy declines;
  the proxy's own commands and a restart of the engine go to the engine directly. With \<open>D\<close> the direct
  calls count; without, only what was asked for on behalf of the clients' sessions does.
\<close>

fun engine_step :: "bool \<Rightarrow> LocPosMode option \<times> bool \<times> LocPosMode option \<Rightarrow> gnss_out \<Rightarrow>
    LocPosMode option \<times> bool \<times> LocPosMode option" where
  "engine_step D (sent, declined, running) x = (case x of
     Ulp_sendFixMode m \<Rightarrow> (Some m, False, running)
   | Ulp_sendStartFix taken \<Rightarrow> (sent, \<not> taken, if taken then sent else running)
   | Api_startFix m ok \<Rightarrow> (sent, False, if ok \<and> (declined \<or> D) then Some m else running)
   | Ulp_sendStopFix taken \<Rightarrow> (sent, \<not> taken, if taken then None else running)
   | Api_stopFix ok \<Rightarrow> (sent, False, if ok \<and> (declined \<or> D) then None else running)
   | _ \<Rightarrow> (sent, declined, running))"

definition engine :: "bool \<Rightarrow> gnss_out list \<Rightarrow> LocPosMode option" where
  "engine D xs = snd (snd (foldl (engine_step D) (None, False, None) xs))"

text \<open>What is in force for the sessions, and what the engine (or the proxy for it) does.\<close>

abbreviation session_fix :: "gnss_out list \<Rightarrow> LocPosMode option" where
  "session_fix \<equiv> engine False"

abbreviation engine_fix :: "gnss_out list \<Rightarrow> LocPosMode option" where
  "engine_fix \<equiv> engine True"

abbreviation fix_mode :: "LocationOptions \<Rightarrow> LocPosMode" where
  "fix_mode opts \<equiv> convertOptions new_LocPosMode opts"

definition silent :: "gnss_out \<Rightarrow> bool" where
  "silent x \<longleftrightarrow> (case x of Ulp_sendFixMode _ \<Rightarrow> False | Ulp_sendStartFix _ \<Rightarrow> False | Api_startFix _ _ \<Rightarrow> False
     | Ulp_sendStopFix _ \<Rightarrow> False | Api_stopFix _ \<Rightarrow> False | _ \<Rightarrow> True)"

lemma engine_silent: "silent x \<Longrightarrow> engine D (xs @ [x]) = engine D xs"
  by (cases "foldl (engine_step D) (None, False, None) xs") (auto simp: engine_def silent_def split: gnss_out.splits)

lemma engine_Nil [simp]: "engine D [] = None" by (simp add: engine_def)

lemma engine_start:
  "engine D (xs @ [Ulp_sendFixMode m, Ulp_sendStartFix True]) = Some m"
  "engine D (xs @ [Ulp_sendFixMode m, Ulp_sendStartFix False, Api_startFix m ok]) = (if ok then Some m else engine D xs)"
  by (cases "foldl (engine_step D) (None, False, None) xs"; simp add: engine_def)+

lemma engine_stop:
  "engine D (xs @ [Ulp_sendStopFix True]) = None"
  "engine D (xs @ [Ulp_sendStopFix False, Api_stopFix ok]) = (if ok then None else engine D xs)"
  by (cases "foldl (engine_step D) (None, False, None) xs"; simp add: engine_def)+

text \<open>No offer that the proxy has just declined is left without its call of the engine.\<close>

definition no_offer :: "gnss_out list \<Rightarrow> bool" where
  "no_offer xs \<longleftrightarrow> (\<forall>D. \<not> fst (snd (foldl (engine_step D) (None, False, None) xs)))"

lemma no_offer_Nil [simp]: "no_offer []" by (simp add: no_offer_def)

lemma no_offer_silent: "silent x \<Longrightarrow> no_offer (xs @ [x]) = no_offer xs"
proof -
  assume "silent x"
  then have "fst (snd (engine_step D s x)) = fst (snd s)" for D s
    by (cases s) (auto simp: silent_def split: gnss_out.splits)
  then show ?thesis by (simp add: no_offer_def)
qed

lemma no_offer_calls:
  "no_offer (xs @ [Ulp_sendFixMode m, Ulp_sendStartFix True])"
  "no_offer (xs @ [Ulp_sendFixMode m, Ulp_sendStartFix False, Api_startFix m ok])"
  "no_offer (xs @ [Ulp_sendStopFix True])" "no_offer (xs @ [Ulp_sendStopFix False, Api_stopFix ok])"
  "no_offer (xs @ [Api_startFix m ok])" "no_offer (xs @ [Api_stopFix ok])"
  unfolding no_offer_def by (intro allI, case_tac "foldl (engine_step D) (None, False, None) xs", simp)+

text \<open>Direct calls change what the engine does, not what is in force for the sessions.\<close>

lemma direct_calls:
  assumes "no_offer xs" "x = Api_startFix m ok \<or> x = Api_stopFix ok"
  shows "engine False (xs @ [x]) = engine False xs"
proof -
  obtain s d r where "foldl (engine_step False) (None, False, None) xs = (s, d, r)" by (metis prod_cases3)
  then show ?thesis using assms by (auto simp: engine_def no_offer_def dest: spec [of _ False])
qed

text \<open>Everything but the log is left alone.\<close>

definition only_log :: "gnss_adapter \<Rightarrow> gnss_adapter \<Rightarrow> bool" where
  "only_log a a' \<longleftrightarrow> (\<exists>xs. a' = a\<lparr>gnss_log := gnss_log a @ xs\<rparr>)"

lemma only_log_fields:
  "only_log a a' \<Longrightarrow> mTrackingSessions a' = mTrackingSessions a \<and> mClientData a' = mClientData a \<and>
     gnss_queue a' = gnss_queue a \<and> mSessionIdCounter a' = mSessionIdCounter a \<and> mPowerVoteId a' = mPowerVoteId a \<and>
     mOdcpiRequestActive a' = mOdcpiRequestActive a \<and> mOdcpiTimer_active a' = mOdcpiTimer_active a \<and>
     mOdcpiRequestCb a' = mOdcpiRequestCb a"
  by (auto simp: only_log_def)

lemma only_log_refl [simp]: "only_log a a"
  by (auto simp: only_log_def intro!: exI [of _ "[]"])

lemma out_simps [simp]:
  "mTrackingSessions (out x a) = mTrackingSessions a" "mClientData (out x a) = mClientData a"
  "gnss_queue (out x a) = gnss_queue a" "mSessionIdCounter (out x a) = mSessionIdCounter a"
  "mPowerVoteId (out x a) = mPowerVoteId a" "mOdcpiRequestActive (out x a) = mOdcpiRequestActive a"
  "mOdcpiTimer_active (out x a) = mOdcpiTimer_active a" "mOdcpiRequestCb (out x a) = mOdcpiRequestCb a"
  "gnss_log (out x a) = gnss_log a @ [x]" "mOdcpiRequest (out x a) = mOdcpiRequest a"
  "mEvtMask (out x a) = mEvtMask a" "control_responseCb (out x a) = control_responseCb a"
  by (simp_all add: out_def)

abbreviation votes :: "gnss_adapter \<Rightarrow> bool list" where
  "votes a \<equiv> concat (map (\<lambda>x. case x of Modem_powerVote b \<Rightarrow> [b] | _ \<Rightarrow> []) (gnss_log a))"

lemma startTracking_eq:
  "startTracking env opts a =
     (let taken = ulp_takes_start env (Suc (now a)); ok = api_start_ok env (Suc (Suc (now a))); m = fix_mode opts in
      (if taken \<or> ok then LOCATION_ERROR_SUCCESS else LOCATION_ERROR_GENERAL_FAILURE,
       a\<lparr>gnss_log := gnss_log a @ (if taken then [Ulp_sendFixMode m, Ulp_sendStartFix True]
          else [Ulp_sendFixMode m, Ulp_sendStartFix False, Api_startFix m ok])\<rparr>))"
  by (cases "ulp_takes_start env (Suc (now a))"; cases "api_start_ok env (Suc (Suc (now a)))")
    (simp_all add: startTracking_def out_def Let_def)

lemma startTracking_ok:
  assumes "startTracking env opts a = (err, a')"
  shows "only_log a a' \<and> votes a' = votes a \<and> no_offer (gnss_log a') \<and>
    engine D (gnss_log a') = (if err = LOCATION_ERROR_SUCCESS then Some (fix_mode opts) else engine D (gnss_log a))"
proof -
  have "only_log a (snd (startTracking env opts a)) \<and> votes (snd (startTracking env opts a)) = votes a \<and>
      no_offer (gnss_log (snd (startTracking env opts a))) \<and> engine D (gnss_log (snd (startTracking env opts a))) =
        (if fst (startTracking env opts a) = LOCATION_ERROR_SUCCESS then Some (fix_mode opts) else engine D (gnss_log a))"
    unfolding startTracking_eq Let_def fst_conv snd_conv only_log_def
    by (cases "ulp_takes_start env (Suc (now a))"; cases "api_start_ok env (Suc (Suc (now a)))")
      (simp_all add: engine_start no_offer_calls; blast)+
  then show ?thesis using assms by simp
qed

lemma stopTracking_eq:
  "stopTracking env a =
     (let taken = ulp_takes_stop env (now a); ok = api_stop_ok env (Suc (now a)) in
      (if taken \<or> ok then LOCATION_ERROR_SUCCESS else LOCATION_ERROR_GENERAL_FAILURE,
       a\<lparr>gnss_log := gnss_log a @ (if taken then [Ulp_sendStopFix True]
          else [Ulp_sendStopFix False, Api_stopFix ok])\<rparr>))"
  by (cases "ulp_takes_stop env (now a)"; cases "api_stop_ok env (Suc (now a))")
    (simp_all add: stopTracking_def out_def Let_def)

lemma stopTracking_ok:
  assumes "stopTracking env a = (err, a')"
  shows "only_log a a' \<and> votes a' = votes a \<and> no_offer (gnss_log a') \<and>
    engine D (gnss_log a') = (if err = LOCATION_ERROR_SUCCESS then None else engine D (gnss_log a))"
proof -
  have "only_log a (snd (stopTracking env a)) \<and> votes (snd (stopTracking env a)) = votes a \<and>
      no_offer (gnss_log (snd (stopTracking env a))) \<and> engine D (gnss_log (snd (stopTracking env a))) =
        (if fst (stopTracking env a) = LOCATION_ERROR_SUCCESS then None else engine D (gnss_log a))"
    unfolding stopTracking_eq Let_def fst_conv snd_conv only_log_def
    by (cases "ulp_takes_stop env (now a)"; cases "api_stop_ok env (Suc (now a))")
      (simp_all add: engine_stop no_offer_calls; blast)+
  then show ?thesis using assms by simp
qed

section \<open>The smallest interval\<close>

type_synonym sessions = "(session_key, LocationOptions) std_map"

lemma smallest_ok:
  assumes "\<forall>e \<in> set m. opt_size (snd e) \<noteq> 0"
  shows "(smallest P m best = best \<or> (\<exists>k. P k \<and> (k, smallest P m best) \<in> set m)) \<and>
    (opt_size best \<noteq> 0 \<longrightarrow> opt_size (smallest P m best) \<noteq> 0 \<and> minInterval (smallest P m best) \<le> minInterval best) \<and>
    (\<forall>e \<in> set m. P (fst e) \<longrightarrow> minInterval (smallest P m best) \<le> minInterval (snd e)) \<and>
    ((\<exists>e \<in> set m. P (fst e)) \<longrightarrow> opt_size (smallest P m best) \<noteq> 0)"
  using assms
proof (induction P m best rule: smallest.induct)
  case (2 P k opts m best)
  let ?b = "if P k \<and> (opt_size best = 0 \<or> minInterval opts < minInterval best) then opts else best"
  let ?r = "smallest P m ?b"
  have IH: "?r = ?b \<or> (\<exists>k. P k \<and> (k, ?r) \<in> set m)"
    "opt_size ?b \<noteq> 0 \<longrightarrow> opt_size ?r \<noteq> 0 \<and> minInterval ?r \<le> minInterval ?b"
    "\<forall>e \<in> set m. P (fst e) \<longrightarrow> minInterval ?r \<le> minInterval (snd e)"
    "(\<exists>e \<in> set m. P (fst e)) \<longrightarrow> opt_size ?r \<noteq> 0"
    using 2 by simp_all
  have r: "smallest P ((k, opts) # m) best = ?r" by simp
  have sz: "opt_size opts \<noteq> 0" using 2(2) by simp
  have b: "?b = opts \<and> P k \<or> ?b = best" by simp
  have bP: "P k \<Longrightarrow> opt_size ?b \<noteq> 0 \<and> minInterval ?b \<le> minInterval opts" using sz by auto
  have bb: "opt_size best \<noteq> 0 \<Longrightarrow> opt_size ?b \<noteq> 0 \<and> minInterval ?b \<le> minInterval best" using sz by auto
  show ?case unfolding r
  proof (intro conjI impI ballI)
    show "?r = best \<or> (\<exists>k'. P k' \<and> (k', ?r) \<in> set ((k, opts) # m))"
      using IH(1) b by (metis list.set_intros)
    show "opt_size ?r \<noteq> 0" "minInterval ?r \<le> minInterval best" if "opt_size best \<noteq> 0"
      using IH(2) bb [OF that] order_trans by blast+
    show "minInterval ?r \<le> minInterval (snd e)" if e: "e \<in> set ((k, opts) # m)" "P (fst e)" for e
    proof (cases "e = (k, opts)")
      case True
      then show ?thesis using IH(2) bP e(2) order_trans by fastforce
    next
      case False
      then show ?thesis using IH(3) e by auto
    qed
    show "opt_size ?r \<noteq> 0" if "\<exists>e \<in> set ((k, opts) # m). P (fst e)"
    proof (cases "P k")
      case True
      then show ?thesis using IH(2) bP by blast
    next
      case False
      then show ?thesis using IH(4) that by auto
    qed
  qed
qed simp

lemma smallest_found:
  assumes "\<forall>e \<in> set m. opt_size (snd e) \<noteq> 0" "\<exists>e \<in> set m. P (fst e)"
  shows "\<exists>k. P k \<and> (k, smallest P m zero_options) \<in> set m"
    "\<forall>e \<in> set m. P (fst e) \<longrightarrow> minInterval (smallest P m zero_options) \<le> minInterval (snd e)"
  using smallest_ok [OF assms(1), of P zero_options] assms(2) by (auto simp: zero_options_def)

text \<open>The engine runs with the smallest interval of the sessions, and only if there are any.\<close>

definition follows :: "sessions \<Rightarrow> LocPosMode option \<Rightarrow> bool" where
  "follows m eng \<longleftrightarrow> (if m = [] then eng = None else
     (\<exists>p. eng = Some p \<and> (\<exists>e \<in> set m. min_interval p = minInterval (snd e)) \<and>
        (\<forall>e \<in> set m. min_interval p \<le> minInterval (snd e))))"

lemma follows_ne:
  assumes "follows m eng" "m \<noteq> []"
  obtains p where "eng = Some p" "\<exists>e \<in> set m. min_interval p = minInterval (snd e)"
    "\<forall>e \<in> set m. min_interval p \<le> minInterval (snd e)"
  using assms by (auto simp: follows_def)

lemma fix_mode_interval [simp]: "min_interval (fix_mode opts) = minInterval opts"
  by (simp add: convertOptions_def)

definition sess_ok :: "sessions \<Rightarrow> bool" where
  "sess_ok m \<longleftrightarrow> sm_ok m \<and> (\<forall>e \<in> set m. opt_size (snd e) \<noteq> 0)"

lemma sess_ok_put: "sess_ok m \<Longrightarrow> opt_size opts \<noteq> 0 \<Longrightarrow> sess_ok (sm_put k opts m)"
  by (auto simp: sess_ok_def sm_ok_put smi.entries_put)

lemma sess_ok_erase: "sess_ok m \<Longrightarrow> sess_ok (sm_erase k m)"
  by (auto simp: sess_ok_def sm_ok_erase smi.entries_erase)

lemma sm_put_ne [simp]: "sm_put k v m \<noteq> []"
  by (induction k v m rule: sm_put.induct) auto

lemma followsI:
  "e \<in> set m \<Longrightarrow> min_interval p = minInterval (snd e) \<Longrightarrow> (\<And>e. e \<in> set m \<Longrightarrow> min_interval p \<le> minInterval (snd e)) \<Longrightarrow>
     follows m (Some p)"
  by (cases m) (auto simp: follows_def)

lemma sess_entries:
  assumes "sess_ok m"
  shows "set (sm_put k opts m) = insert (k, opts) {e \<in> set m. fst e \<noteq> k}" "set (sm_erase k m) = {e \<in> set m. fst e \<noteq> k}"
  using assms by (simp_all add: sess_ok_def smi.entries_put smi.entries_erase)

text \<open>The session under a key, and the best of the others.\<close>

lemma sess_single:
  assumes "sess_ok m" "sm_find m k = Some old" "length m = 1"
  shows "m = [(k, old)]"
  using assms by (cases m) (auto split: if_splits)

lemma sess_others:
  assumes ok: "sess_ok m" and k: "sm_find m k = Some old" and n: "length m \<noteq> 1"
  shows "\<exists>kb. kb \<noteq> k \<and> (kb, smallest (\<lambda>x. x \<noteq> k) m zero_options) \<in> set m"
    "\<forall>e \<in> set m. fst e \<noteq> k \<longrightarrow> minInterval (smallest (\<lambda>x. x \<noteq> k) m zero_options) \<le> minInterval (snd e)"
proof -
  have sz: "\<forall>e \<in> set m. opt_size (snd e) \<noteq> 0" and d: "distinct (map fst m)"
    using ok sm_distinct by (auto simp: sess_ok_def)
  have "\<exists>e \<in> set m. fst e \<noteq> k"
  proof (rule ccontr)
    assume "\<not> ?thesis"
    then have "set (map fst m) \<subseteq> {k}" by auto
    then have "card (set (map fst m)) \<le> 1" using card_mono [of "{k}"] by fastforce
    moreover have "card (set (map fst m)) = length m" using distinct_card [OF d] by simp
    moreover have "m \<noteq> []" using k by auto
    ultimately show False using n by (cases m) auto
  qed
  from smallest_found [OF sz, of "\<lambda>x. x \<noteq> k", OF this]
  show "\<exists>kb. kb \<noteq> k \<and> (kb, smallest (\<lambda>x. x \<noteq> k) m zero_options) \<in> set m"
    "\<forall>e \<in> set m. fst e \<noteq> k \<longrightarrow> minInterval (smallest (\<lambda>x. x \<noteq> k) m zero_options) \<le> minInterval (snd e)"
    by blast+
qed

text \<open>A running mode that fits all sessions, and not only one that is at least as slow as another, fits without it.\<close>

lemma follows_without:
  assumes f: "follows m (Some p)" and old: "(k, old) \<in> set m" and ok: "sess_ok m"
    and b: "(kb, best) \<in> set m" "kb \<noteq> k" and le: "\<not> minInterval old < minInterval best"
  shows "\<exists>e \<in> set m. fst e \<noteq> k \<and> min_interval p = minInterval (snd e)"
proof -
  have "m \<noteq> []" using old by auto
  then obtain e where e: "e \<in> set m" "min_interval p = minInterval (snd e)" and all: "\<forall>e \<in> set m. min_interval p \<le> minInterval (snd e)"
    using f by (auto simp: follows_def)
  show ?thesis
  proof (cases "fst e = k")
    case False
    then show ?thesis using e by blast
  next
    case True
    have "e = (k, old)"
      using True e(1) old ok smi.entries [of m k] by (cases e) (simp add: sess_ok_def)
    then have "min_interval p = minInterval old" using e(2) by simp
    moreover have "min_interval p \<le> minInterval best" using all b(1) by fastforce
    ultimately have "min_interval p = minInterval best" using le by simp
    with b show ?thesis by (intro bexI [of _ "(kb, best)"]) simp_all
  qed
qed

section \<open>The multiplexer\<close>

lemma startMultiplex_ok:
  assumes f: "follows (mTrackingSessions a) (engine D (gnss_log a))" and ok: "sess_ok (mTrackingSessions a)"
    and k: "sm_find (mTrackingSessions a) k = None"
    and run: "startTrackingMultiplex env opts a = (err, a')"
  shows "only_log a a' \<and> votes a' = votes a \<and> (no_offer (gnss_log a) \<longrightarrow> no_offer (gnss_log a')) \<and>
    (if err = LOCATION_ERROR_SUCCESS then follows (sm_put k opts (mTrackingSessions a)) (engine D (gnss_log a'))
     else engine D (gnss_log a') = engine D (gnss_log a))"
proof -
  let ?m = "mTrackingSessions a"
  have keys: "k \<notin> fst ` set ?m" using k by (simp add: map_of_eq_None_iff)
  have set: "set (sm_put k opts ?m) = insert (k, opts) (set ?m)"
    using keys by (auto simp: sess_entries [OF ok])
  have start: ?thesis if s: "startTracking env opts a = (err, a')" and le: "\<forall>e \<in> set ?m. minInterval opts \<le> minInterval (snd e)"
  proof -
    have "follows (sm_put k opts ?m) (Some (fix_mode opts))"
      by (rule followsI [of "(k, opts)"]) (use le in \<open>auto simp: set\<close>)
    then show ?thesis using startTracking_ok [OF s] by simp
  qed
  show ?thesis
  proof (cases "?m = []")
    case True
    then have s: "startTracking env opts a = (err, a')" using run by (simp add: startTrackingMultiplex_def)
    show ?thesis by (rule start [OF s]) (simp add: True)
  next
    case False
    let ?best = "smallest (\<lambda>k. True) ?m zero_options"
    have sz: "\<forall>e \<in> set ?m. opt_size (snd e) \<noteq> 0" using ok by (simp add: sess_ok_def)
    have "\<exists>e \<in> set ?m. True" using False by (cases ?m) auto
    from smallest_found [OF sz, of "\<lambda>k. True", OF this] obtain kb where best: "(kb, ?best) \<in> set ?m"
      "\<forall>e \<in> set ?m. minInterval ?best \<le> minInterval (snd e)" by blast
    show ?thesis
    proof (cases "minInterval opts < minInterval ?best")
      case True
      then have le: "\<forall>e \<in> set ?m. minInterval opts \<le> minInterval (snd e)" using best(2) by fastforce
      have s: "startTracking env opts a = (err, a')" using run True False by (simp add: startTrackingMultiplex_def)
      show ?thesis by (rule start [OF s le])
    next
      case skip: False
      have eq: "err = LOCATION_ERROR_SUCCESS" "a' = a" using run skip False by (auto simp: startTrackingMultiplex_def)
      obtain p e where p: "engine D (gnss_log a) = Some p" "e \<in> set ?m" "min_interval p = minInterval (snd e)"
        and all: "\<forall>e \<in> set ?m. min_interval p \<le> minInterval (snd e)"
        using follows_ne [OF f False] by blast
      have "min_interval p \<le> minInterval opts" using all best(1) skip by fastforce
      then have "follows (sm_put k opts ?m) (Some p)"
        by (intro followsI [of e]) (use p all in \<open>auto simp: set\<close>)
      then show ?thesis using eq p by simp
    qed
  qed
qed

lemma updateMultiplex_ok:
  assumes f: "follows (mTrackingSessions a) (engine D (gnss_log a))" and ok: "sess_ok (mTrackingSessions a)"
    and k: "sm_find (mTrackingSessions a) (i, c) = Some old"
    and run: "updateTrackingMultiplex env c i opts a = (err, a')"
  shows "only_log a a' \<and> votes a' = votes a \<and> (no_offer (gnss_log a) \<longrightarrow> no_offer (gnss_log a')) \<and>
    (if err = LOCATION_ERROR_SUCCESS then follows (sm_put (i, c) opts (mTrackingSessions a)) (engine D (gnss_log a'))
     else engine D (gnss_log a') = engine D (gnss_log a))"
proof -
  let ?m = "mTrackingSessions a" and ?k = "(i, c)"
  note set = sess_entries(1) [OF ok, of ?k opts]
  have start: ?thesis if s: "startTracking env o' a = (err, a')" and o': "follows (sm_put ?k opts ?m) (Some (fix_mode o'))" for o'
    using startTracking_ok [OF s] o' by simp
  have old: "(?k, old) \<in> set ?m" using k by (simp add: map_of_SomeD)
  show ?thesis
  proof (cases "length ?m = 1")
    case True
    have fo: "follows (sm_put ?k opts ?m) (Some (fix_mode opts))"
      by (rule followsI [of "(?k, opts)"]) (use sess_single [OF ok k True] in \<open>auto simp: set\<close>)
    have s: "startTracking env opts a = (err, a')" using run True by (simp add: updateTrackingMultiplex_def)
    show ?thesis by (rule start [OF s fo])
  next
    case False
    let ?best = "smallest (\<lambda>x. x \<noteq> ?k) ?m zero_options"
    obtain kb where best: "kb \<noteq> ?k" "(kb, ?best) \<in> set ?m"
      and least: "\<forall>e \<in> set ?m. fst e \<noteq> ?k \<longrightarrow> minInterval ?best \<le> minInterval (snd e)"
      using sess_others [OF ok k False] by blast
    consider "minInterval opts < minInterval ?best"
      | "\<not> minInterval opts < minInterval ?best" "minInterval old < minInterval ?best"
      | "\<not> minInterval opts < minInterval ?best" "\<not> minInterval old < minInterval ?best" by blast
    then show ?thesis
    proof cases
      case 1
      have fo: "follows (sm_put ?k opts ?m) (Some (fix_mode opts))"
        by (rule followsI [of "(?k, opts)"]) (use 1 least in \<open>fastforce simp: set\<close>)+
      have s: "startTracking env opts a = (err, a')" using run 1 False k by (simp add: updateTrackingMultiplex_def)
      show ?thesis by (rule start [OF s fo])
    next
      case 2
      have fo: "follows (sm_put ?k opts ?m) (Some (fix_mode ?best))"
        by (rule followsI [of "(kb, ?best)"]) (use 2 least best in \<open>auto simp: set not_less\<close>)
      have s: "startTracking env ?best a = (err, a')" using run 2 False k by (simp add: updateTrackingMultiplex_def)
      show ?thesis by (rule start [OF s fo])
    next
      case 3
      have eq: "err = LOCATION_ERROR_SUCCESS" "a' = a" using run 3 False k by (auto simp: updateTrackingMultiplex_def)
      have "?m \<noteq> []" using old by auto
      then obtain p where p: "engine D (gnss_log a) = Some p" and all: "\<forall>e \<in> set ?m. min_interval p \<le> minInterval (snd e)"
        using follows_ne [OF f] by blast
      obtain e where e: "e \<in> set ?m" "fst e \<noteq> ?k" "min_interval p = minInterval (snd e)"
        using follows_without [OF f [unfolded p] old ok best(2,1) 3(2)] by blast
      have "min_interval p \<le> minInterval opts" using all best(2) 3(1) by fastforce
      then have "follows (sm_put ?k opts ?m) (Some p)"
        by (intro followsI [of e]) (use e all in \<open>auto simp: set\<close>)
      then show ?thesis using eq p by simp
    qed
  qed
qed

lemma stopMultiplex_ok:
  assumes f: "follows (mTrackingSessions a) (engine D (gnss_log a))" and ok: "sess_ok (mTrackingSessions a)"
    and k: "sm_find (mTrackingSessions a) (i, c) = Some old"
    and run: "stopTrackingMultiplex env c i a = (err, a')"
  shows "only_log a a' \<and> votes a' = votes a \<and> (no_offer (gnss_log a) \<longrightarrow> no_offer (gnss_log a')) \<and>
    (if err = LOCATION_ERROR_SUCCESS then follows (sm_erase (i, c) (mTrackingSessions a)) (engine D (gnss_log a'))
     else engine D (gnss_log a') = engine D (gnss_log a))"
proof -
  let ?m = "mTrackingSessions a" and ?k = "(i, c)"
  note set = sess_entries(2) [OF ok, of ?k]
  have old: "(?k, old) \<in> set ?m" using k by (simp add: map_of_SomeD)
  show ?thesis
  proof (cases "length ?m = 1")
    case True
    have "sm_erase ?k ?m = []" using sess_single [OF ok k True] by simp
    then have "follows (sm_erase ?k ?m) None" by (simp add: follows_def)
    then show ?thesis using stopTracking_ok run True by (simp add: stopTrackingMultiplex_def)
  next
    case False
    let ?best = "smallest (\<lambda>x. x \<noteq> ?k) ?m zero_options"
    obtain kb where best: "kb \<noteq> ?k" "(kb, ?best) \<in> set ?m"
      and least: "\<forall>e \<in> set ?m. fst e \<noteq> ?k \<longrightarrow> minInterval ?best \<le> minInterval (snd e)"
      using sess_others [OF ok k False] by blast
    show ?thesis
    proof (cases "minInterval old < minInterval ?best")
      case True
      have "follows (sm_erase ?k ?m) (Some (fix_mode ?best))"
        by (rule followsI [of "(kb, ?best)"]) (use least best in \<open>auto simp: set\<close>)
      then show ?thesis using startTracking_ok run True False k by (simp add: stopTrackingMultiplex_def)
    next
      case skip: False
      have eq: "err = LOCATION_ERROR_SUCCESS" "a' = a" using run skip False k by (auto simp: stopTrackingMultiplex_def)
      have "?m \<noteq> []" using old by auto
      then obtain p where p: "engine D (gnss_log a) = Some p" and all: "\<forall>e \<in> set ?m. min_interval p \<le> minInterval (snd e)"
        using follows_ne [OF f] by blast
      obtain e where e: "e \<in> set ?m" "fst e \<noteq> ?k" "min_interval p = minInterval (snd e)"
        using follows_without [OF f [unfolded p] old ok best(2,1) skip] by blast
      have "follows (sm_erase ?k ?m) (Some p)"
        by (intro followsI [of e]) (use e all in \<open>auto simp: set\<close>)
      then show ?thesis using eq p by simp
    qed
  qed
qed

end
