(* ===== verification/GnssAdapterSafety.thy ===== *)
theory GnssAdapterSafety
  imports GnssAdapterProofs
begin

text \<open>
  Histories of the GNSS adapter: any interleaving of commands of its clients, of events from the
  modem and of turns of the message task. The messages of the user-location proxy, which bypass
  the multiplexer, and the restart of the modem are kept apart.
\<close>

section \<open>Steps that only report\<close>

definition quiet :: "gnss_adapter \<Rightarrow> gnss_adapter \<Rightarrow> bool" where
  "quiet a a' \<longleftrightarrow> only_log a a' \<and> no_offer (gnss_log a') = no_offer (gnss_log a) \<and> (\<forall>D. engine D (gnss_log a') = engine D (gnss_log a)) \<and> votes a' = votes a"

lemma quiet_refl [simp]: "quiet a a" by (simp add: quiet_def)

lemma only_log_trans: "only_log a b \<Longrightarrow> only_log b c \<Longrightarrow> only_log a c"
  by (auto simp: only_log_def)

lemma quiet_trans: "quiet a b \<Longrightarrow> quiet b c \<Longrightarrow> quiet a c"
  by (auto simp: quiet_def intro: only_log_trans)

definition no_vote :: "gnss_out \<Rightarrow> bool" where
  "no_vote x \<longleftrightarrow> (case x of Modem_powerVote _ \<Rightarrow> False | _ \<Rightarrow> True)"

lemma only_log_out: "only_log a (out x a)"
  by (auto simp: only_log_def out_def)

lemma quiet_out: "silent x \<Longrightarrow> no_vote x \<Longrightarrow> quiet a (out x a)"
  unfolding quiet_def using only_log_out [of a x] engine_silent [of x _ "gnss_log a"] no_offer_silent [of x "gnss_log a"]
  by (cases x) (simp_all add: no_vote_def)

lemma quiet_response: "quiet a (reportResponse c err i a)" "quiet a (control_reportResponse err i a)"
  by (auto simp: reportResponse_def control_reportResponse_def silent_def no_vote_def intro!: quiet_out split: option.splits)

lemma quiet_report_clients: "quiet a (report_clients p m a)"
proof (induction p m a rule: report_clients.induct)
  case (2 p c cb m a)
  let ?a1 = "if trackingCb cb then out (Cb_tracking c p) a else a"
  let ?a2 = "if gnssLocationInfoCb cb then out (Cb_location_info c p) ?a1 else ?a1"
  have "quiet a ?a1" "quiet ?a1 ?a2" by (simp_all add: quiet_out silent_def no_vote_def)
  then have "quiet a ?a2" by (rule quiet_trans)
  moreover have "quiet ?a2 (report_clients p m ?a2)" by (rule 2) simp_all
  ultimately have "quiet a (report_clients p m ?a2)" by (rule quiet_trans)
  then show ?case by (simp only: report_clients.simps Let_def)
qed simp

section \<open>The invariant\<close>

definition track_ok :: "bool \<Rightarrow> gnss_adapter \<Rightarrow> bool" where
  "track_ok D a \<longleftrightarrow> sess_ok (mTrackingSessions a) \<and> follows (mTrackingSessions a) (engine D (gnss_log a)) \<and> no_offer (gnss_log a)"

text \<open>The votes alternate, beginning with one for the modem; \<open>b\<close> tells whether the last one stands.\<close>

definition alternating :: "bool list \<Rightarrow> bool \<Rightarrow> bool" where
  "alternating vs b \<longleftrightarrow> (\<forall>j < length vs. vs ! j = even j) \<and> b = odd (length vs)"

lemma alternating_snoc:
  "alternating vs False \<Longrightarrow> alternating (vs @ [True]) True" "alternating vs True \<Longrightarrow> alternating (vs @ [False]) False"
  by (auto simp: alternating_def nth_append less_Suc_eq)

definition power_ok :: "gnss_adapter \<Rightarrow> bool" where
  "power_ok a \<longleftrightarrow> alternating (votes a) (mPowerVoteId a \<noteq> 0)"

definition odcpi_ok :: "gnss_adapter \<Rightarrow> bool" where
  "odcpi_ok a \<longleftrightarrow> (mOdcpiRequestActive a \<longrightarrow> mOdcpiTimer_active a \<and> mOdcpiRequestCb a)"

definition start_ids :: "gnss_msg list \<Rightarrow> uint32 list" where
  "start_ids ms = concat (map (\<lambda>m. case m of MsgStartTracking c i opts \<Rightarrow> [i] | _ \<Rightarrow> []) ms)"

abbreviation session_ids :: "gnss_adapter \<Rightarrow> uint32 set" where
  "session_ids a \<equiv> (fst \<circ> fst) ` set (mTrackingSessions a)"

text \<open>After \<open>n\<close> identifiers: those in use are among them, and those waiting in the queue are unused.\<close>

definition ids_ok :: "nat \<Rightarrow> gnss_adapter \<Rightarrow> bool" where
  "ids_ok n a \<longleftrightarrow> unat (mSessionIdCounter a) = n + 1 \<and> n + 1 < 0xFFFFFFFF \<and> distinct (start_ids (gnss_queue a)) \<and>
     (\<forall>i \<in> set (start_ids (gnss_queue a)) \<union> session_ids a. unat i \<le> n + 1) \<and>
     set (start_ids (gnss_queue a)) \<inter> session_ids a = {}"

text \<open>\<open>D\<close>: no direct calls of the engine; \<open>Z\<close>: nobody disables with identifier 0.\<close>

definition allowed :: "bool \<Rightarrow> bool \<Rightarrow> gnss_msg \<Rightarrow> bool" where
  "allowed D Z m \<longleftrightarrow> (case m of
     MsgRestartSessions \<Rightarrow> \<not> D | MsgUlpStartTracking \<Rightarrow> \<not> D | MsgUlpStopTracking \<Rightarrow> \<not> D
   | MsgEnableGnss i _ \<Rightarrow> i \<noteq> 0 | MsgDisableGnss i \<Rightarrow> Z \<longrightarrow> i \<noteq> 0 | MsgInitOdcpi b \<Rightarrow> b | _ \<Rightarrow> True)"

definition gnss_inv :: "bool \<Rightarrow> bool \<Rightarrow> nat \<Rightarrow> gnss_adapter \<Rightarrow> bool" where
  "gnss_inv D Z n a \<longleftrightarrow> track_ok D a \<and> (Z \<longrightarrow> power_ok a) \<and> odcpi_ok a \<and> ids_ok n a \<and> (\<forall>m \<in> set (gnss_queue a). allowed D Z m)"

lemma start_ids_simps [simp]:
  "start_ids [] = []" "start_ids (ms @ ms') = start_ids ms @ start_ids ms'"
  "start_ids (m # ms) = (case m of MsgStartTracking c i opts \<Rightarrow> [i] | _ \<Rightarrow> []) @ start_ids ms"
  by (simp_all add: start_ids_def)

lemma quiet_fields:
  assumes "quiet a a'"
  shows "mTrackingSessions a' = mTrackingSessions a" "mClientData a' = mClientData a" "gnss_queue a' = gnss_queue a"
    "mSessionIdCounter a' = mSessionIdCounter a" "mPowerVoteId a' = mPowerVoteId a"
    "mOdcpiRequestActive a' = mOdcpiRequestActive a" "mOdcpiTimer_active a' = mOdcpiTimer_active a"
    "mOdcpiRequestCb a' = mOdcpiRequestCb a" "engine D (gnss_log a') = engine D (gnss_log a)" "votes a' = votes a"
    "no_offer (gnss_log a') = no_offer (gnss_log a)"
  using assms only_log_fields [of a a'] by (auto simp: quiet_def)

text \<open>The invariant looks at few fields.\<close>

lemma gnss_inv_cong:
  assumes "mTrackingSessions a' = mTrackingSessions a" "gnss_queue a' = gnss_queue a"
    "mSessionIdCounter a' = mSessionIdCounter a" "mPowerVoteId a' = mPowerVoteId a" "odcpi_ok a' = odcpi_ok a"
    "engine D (gnss_log a') = engine D (gnss_log a)" "votes a' = votes a"
    "no_offer (gnss_log a') = no_offer (gnss_log a)"
  shows "gnss_inv D Z n a' = gnss_inv D Z n a"
  using assms by (simp add: gnss_inv_def track_ok_def power_ok_def ids_ok_def)

lemma gnss_inv_quiet: "quiet a a' \<Longrightarrow> gnss_inv D Z n a' = gnss_inv D Z n a"
  by (rule gnss_inv_cong) (auto simp: quiet_fields odcpi_ok_def)

lemma gnss_invD:
  assumes "gnss_inv D Z n a"
  shows "sess_ok (mTrackingSessions a)" "follows (mTrackingSessions a) (engine D (gnss_log a))"
  using assms by (simp_all add: gnss_inv_def track_ok_def)

text \<open>What the multiplexer may change: the log and, then, the sessions.\<close>

lemma gnss_inv_sessions:
  assumes inv: "gnss_inv D Z n a" and log: "only_log a a'" "votes a' = votes a"
    and o: "no_offer (gnss_log a) \<longrightarrow> no_offer (gnss_log a')"
    and m: "sess_ok m" "follows m (engine D (gnss_log a'))" "(fst \<circ> fst) ` set m \<subseteq> insert i (session_ids a)"
    and i: "i \<notin> set (start_ids (gnss_queue a))" "unat i \<le> n + 1"
  shows "gnss_inv D Z n (a'\<lparr>mTrackingSessions := m\<rparr>)"
  using inv only_log_fields [OF log(1)] log(2) o m i
  by (auto simp: gnss_inv_def track_ok_def power_ok_def odcpi_ok_def ids_ok_def)

lemma gnss_inv_log:
  assumes inv: "gnss_inv D Z n a" and log: "only_log a a'" "votes a' = votes a" "engine D (gnss_log a') = engine D (gnss_log a)"
    "no_offer (gnss_log a) \<longrightarrow> no_offer (gnss_log a')"
  shows "gnss_inv D Z n a'"
  using inv log only_log_fields [OF log(1)]
  by (simp add: gnss_inv_def track_ok_def power_ok_def odcpi_ok_def ids_ok_def)

section \<open>Every message keeps the invariant\<close>

lemma find_None_id: "i \<notin> session_ids a \<Longrightarrow> sm_find (mTrackingSessions a) (i, c) = None"
  by (force simp: map_of_eq_None_iff)

lemma find_Some_id: "sm_find (mTrackingSessions a) (i, c) = Some old \<Longrightarrow> i \<in> session_ids a"
  by (drule map_of_SomeD) force

lemma ids_put: "sess_ok (mTrackingSessions a) \<Longrightarrow>
    (fst \<circ> fst) ` set (sm_put (i, c) opts (mTrackingSessions a)) \<subseteq> insert i (session_ids a)"
  by (auto simp: sess_entries)

lemma ids_erase: "sess_ok (mTrackingSessions a) \<Longrightarrow>
    (fst \<circ> fst) ` set (sm_erase k (mTrackingSessions a)) \<subseteq> session_ids a"
  by (auto simp: sess_entries)

lemma ids_old:
  assumes "gnss_inv D Z n a" "i \<in> session_ids a"
  shows "i \<notin> set (start_ids (gnss_queue a))" "unat i \<le> n + 1"
  using assms unfolding gnss_inv_def ids_ok_def by blast+

lemma proc_Start_inv:
  assumes inv: "gnss_inv D Z n a" and i: "i \<notin> session_ids a" "i \<notin> set (start_ids (gnss_queue a))" "unat i \<le> n + 1"
  shows "gnss_inv D Z n (proc_StartTracking env c i opts a)"
proof -
  note D = gnss_invD [OF inv]
  have report: "gnss_inv D Z n (reportResponse c err i b) = gnss_inv D Z n b" for err b
    by (rule gnss_inv_quiet) (rule quiet_response)
  obtain err a' where run: "startTrackingMultiplex env opts a = (err, a')" by fastforce
  note M = startMultiplex_ok [OF D(2,1) find_None_id [OF i(1), of c] run]
  have "gnss_inv D Z n (if err = LOCATION_ERROR_SUCCESS then saveTrackingSession c i opts a' else a')" if "opt_size opts \<noteq> 0"
  proof (cases "err = LOCATION_ERROR_SUCCESS")
    case True
    have eq: "mTrackingSessions a' = mTrackingSessions a" using M only_log_fields by blast
    have "gnss_inv D Z n (a'\<lparr>mTrackingSessions := sm_put (i, c) opts (mTrackingSessions a)\<rparr>)"
      by (rule gnss_inv_sessions [OF inv _ _ _ sess_ok_put [OF D(1) that] _ ids_put [OF D(1)] i(2,3)]) (use M True in auto)
    then show ?thesis using True eq by (simp add: saveTrackingSession_def)
  next
    case False
    then show ?thesis using gnss_inv_log [OF inv, of a'] M by simp
  qed
  then show ?thesis using inv by (simp add: proc_StartTracking_def report run Let_def)
qed

lemma proc_Update_inv:
  assumes inv: "gnss_inv D Z n a"
  shows "gnss_inv D Z n (proc_UpdateTracking env c i opts a)"
proof (cases "sm_find (mTrackingSessions a) (i, c)")
  case None
  then show ?thesis using inv by (simp add: proc_UpdateTracking_def isTrackingSession_def)
next
  case (Some old)
  note D = gnss_invD [OF inv]
  have report: "gnss_inv D Z n (reportResponse c err i b) = gnss_inv D Z n b" for err b
    by (rule gnss_inv_quiet) (rule quiet_response)
  obtain err a' where run: "updateTrackingMultiplex env c i opts a = (err, a')" by fastforce
  note M = updateMultiplex_ok [OF D(2,1) Some run]
  have "gnss_inv D Z n (if err = LOCATION_ERROR_SUCCESS then saveTrackingSession c i opts a' else a')" if "opt_size opts \<noteq> 0"
  proof (cases "err = LOCATION_ERROR_SUCCESS")
    case True
    have eq: "mTrackingSessions a' = mTrackingSessions a" using M only_log_fields by blast
    have "gnss_inv D Z n (a'\<lparr>mTrackingSessions := sm_put (i, c) opts (mTrackingSessions a)\<rparr>)"
      by (rule gnss_inv_sessions [OF inv _ _ _ sess_ok_put [OF D(1) that] _ ids_put [OF D(1)] ids_old [OF inv find_Some_id [OF Some]]])
        (use M True in auto)
    then show ?thesis using True eq by (simp add: saveTrackingSession_def)
  next
    case False
    then show ?thesis using gnss_inv_log [OF inv, of a'] M by simp
  qed
  then show ?thesis using inv Some by (simp add: proc_UpdateTracking_def isTrackingSession_def report run Let_def)
qed

text \<open>Stopping one session, in a message or in the loop over a client's sessions.\<close>

lemma stop_one_inv:
  assumes inv: "gnss_inv D Z n a" and k: "sm_find (mTrackingSessions a) (i, c) = Some old"
    and run: "stopTrackingMultiplex env c i a = (err, a')"
  shows "gnss_inv D Z n (if err = LOCATION_ERROR_SUCCESS then eraseTrackingSession c i a' else a') \<and>
    mTrackingSessions a' = mTrackingSessions a"
proof -
  note D = gnss_invD [OF inv]
  note M = stopMultiplex_ok [OF D(2,1) k run]
  have eq: "mTrackingSessions a' = mTrackingSessions a" using M only_log_fields by blast
  show ?thesis
  proof (cases "err = LOCATION_ERROR_SUCCESS")
    case True
    have "gnss_inv D Z n (a'\<lparr>mTrackingSessions := sm_erase (i, c) (mTrackingSessions a)\<rparr>)"
      by (rule gnss_inv_sessions [OF inv _ _ _ sess_ok_erase [OF D(1)] _ subset_insertI2 [OF ids_erase [OF D(1)]]
            ids_old [OF inv find_Some_id [OF k]]])
        (use M True in auto)
    then show ?thesis using True eq by (simp add: eraseTrackingSession_def)
  next
    case False
    then show ?thesis using gnss_inv_log [OF inv, of a'] M eq by simp
  qed
qed

lemma proc_Stop_inv:
  assumes inv: "gnss_inv D Z n a"
  shows "gnss_inv D Z n (proc_StopTracking env c i a)"
proof (cases "sm_find (mTrackingSessions a) (i, c)")
  case None
  then show ?thesis using inv by (simp add: proc_StopTracking_def isTrackingSession_def)
next
  case (Some old)
  have report: "gnss_inv D Z n (reportResponse c err i b) = gnss_inv D Z n b" for err b
    by (rule gnss_inv_quiet) (rule quiet_response)
  obtain err a' where run: "stopTrackingMultiplex env c i a = (err, a')" by fastforce
  show ?thesis using stop_one_inv [OF inv Some run] Some
    by (simp add: proc_StopTracking_def isTrackingSession_def report run Let_def)
qed

lemma stop_loop_inv:
  "gnss_inv D Z n a \<Longrightarrow> distinct ks \<Longrightarrow> \<forall>k \<in> set ks. sm_find (mTrackingSessions a) k \<noteq> None \<Longrightarrow>
     gnss_inv D Z n (stop_loop env c ks a)"
proof (induction ks arbitrary: a)
  case (Cons k ks)
  show ?case
  proof (cases "c = snd k")
    case False
    then show ?thesis using Cons by simp
  next
    case c: True
    obtain i where k: "k = (i, c)" using c by (cases k) simp
    obtain old where old: "sm_find (mTrackingSessions a) (i, c) = Some old" using Cons.prems(3) k by fastforce
    obtain err a' where run: "stopTrackingMultiplex env c i a = (err, a')" by fastforce
    note S = stop_one_inv [OF Cons.prems(1) old run]
    have ok: "sm_ok (mTrackingSessions a)" using gnss_invD(1) [OF Cons.prems(1)] by (simp add: sess_ok_def)
    show ?thesis
    proof (cases "err = LOCATION_ERROR_SUCCESS")
      case True
      have "\<forall>x \<in> set ks. sm_find (mTrackingSessions (eraseTrackingSession c i a')) x \<noteq> None"
        using Cons.prems(2,3) S k by (auto simp: eraseTrackingSession_def smi.lookup_erase [OF ok])
      then show ?thesis using Cons.IH Cons.prems(2) S True run k by simp
    next
      case False
      then show ?thesis using Cons.IH Cons.prems S run k by simp
    qed
  qed
qed simp

lemma stopClientSessions_inv:
  assumes "gnss_inv D Z n a"
  shows "gnss_inv D Z n (stopClientSessions env c a)"
proof -
  have "distinct (map fst (mTrackingSessions a))"
    using gnss_invD(1) [OF assms] sm_distinct by (auto simp: sess_ok_def)
  then show ?thesis unfolding stopClientSessions_def
    by (rule stop_loop_inv [OF assms]) (auto simp: map_of_eq_None_iff)
qed

lemma client_steps_inv:
  assumes "gnss_inv D Z n a"
  shows "gnss_inv D Z n (saveClient env c cb a)" "gnss_inv D Z n (eraseClient env c a)"
proof -
  have mask: "gnss_inv D Z n (updateClientsEventMask env b)" if "gnss_inv D Z n b" for b
  proof -
    have "quiet (b\<lparr>mEvtMask := w\<rparr>) (out Api_updateEvtMask (b\<lparr>mEvtMask := w\<rparr>))" for w
      by (rule quiet_out) (simp_all add: silent_def no_vote_def)
    then have "gnss_inv D Z n (out Api_updateEvtMask (b\<lparr>mEvtMask := w\<rparr>)) = gnss_inv D Z n (b\<lparr>mEvtMask := w\<rparr>)" for w
      by (rule gnss_inv_quiet)
    moreover have "gnss_inv D Z n (b\<lparr>mEvtMask := w\<rparr>) = gnss_inv D Z n b" for w
      by (rule gnss_inv_cong) (simp_all add: odcpi_ok_def)
    ultimately show ?thesis using that by (simp add: updateClientsEventMask_def updateEvtMask_def Let_def)
  qed
  have data: "gnss_inv D Z n (a\<lparr>mClientData := m\<rparr>)" for m
    using assms gnss_inv_cong [of "a\<lparr>mClientData := m\<rparr>" a D Z n] by (simp add: odcpi_ok_def)
  show "gnss_inv D Z n (saveClient env c cb a)" "gnss_inv D Z n (eraseClient env c a)"
    by (simp_all add: saveClient_def eraseClient_def mask data)
qed

lemma proc_SetPositionMode_inv:
  assumes "gnss_inv D Z n a"
  shows "gnss_inv D Z n (proc_SetPositionMode mode a)"
proof -
  have "gnss_inv D Z n (a\<lparr>mUlpPositionMode := mode\<rparr>) = gnss_inv D Z n a"
    by (rule gnss_inv_cong) (simp_all add: odcpi_ok_def)
  moreover have "gnss_inv D Z n (out (Api_setPositionMode mode) b) = gnss_inv D Z n b" for b
    by (rule gnss_inv_quiet, rule quiet_out) (simp_all add: silent_def no_vote_def)
  ultimately show ?thesis using assms by (simp add: proc_SetPositionMode_def setUlpPositionMode_def)
qed

lemma power_frame:
  assumes inv: "gnss_inv D Z n a" and a': "mTrackingSessions a' = mTrackingSessions a" "gnss_queue a' = gnss_queue a"
    "mSessionIdCounter a' = mSessionIdCounter a" "odcpi_ok a' = odcpi_ok a" "engine D (gnss_log a') = engine D (gnss_log a)"
    "no_offer (gnss_log a') = no_offer (gnss_log a)"
    and p: "Z \<Longrightarrow> power_ok a'"
  shows "gnss_inv D Z n a'"
  using assms by (simp add: gnss_inv_def track_ok_def ids_ok_def)

lemma engine_silents: "list_all silent ys \<Longrightarrow> engine D (xs @ ys) = engine D xs \<and> no_offer (xs @ ys) = no_offer xs"
proof (induction ys rule: rev_induct)
  case (snoc y ys)
  then show ?case using engine_silent [of y D "xs @ ys"] no_offer_silent [of y "xs @ ys"] by simp
qed simp

lemma proc_Enable_inv:
  assumes inv: "gnss_inv D Z n a" and i: "i \<noteq> 0"
  shows "gnss_inv D Z n (proc_EnableGnss i is_gnss a)"
proof -
  have report: "gnss_inv D Z n (control_reportResponse err i b) = gnss_inv D Z n b" for err b
    by (rule gnss_inv_quiet) (rule quiet_response)
  let ?a = "out (Xtra_updateLockStatus (convertGpsLock GNSS_CONFIG_GPS_LOCK_NONE))
    (out (Api_setGpsLock (gps_lock_value GNSS_CONFIG_GPS_LOCK_NONE)) ((out (Modem_powerVote True) a)\<lparr>mPowerVoteId := i\<rparr>))"
  have "gnss_inv D Z n ?a" if "mPowerVoteId a = 0"
  proof (rule power_frame [OF inv])
    show "engine D (gnss_log ?a) = engine D (gnss_log a)" "no_offer (gnss_log ?a) = no_offer (gnss_log a)"
      using engine_silents [of "[Modem_powerVote True, Api_setGpsLock 0, Xtra_updateLockStatus 0]" D "gnss_log a"]
      by (simp_all add: silent_def)
    show "power_ok ?a" if "Z"
      using that inv \<open>mPowerVoteId a = 0\<close> i alternating_snoc(1) by (simp add: power_ok_def gnss_inv_def)
  qed (simp_all add: odcpi_ok_def)
  then show ?thesis using inv by (simp add: proc_EnableGnss_def report Let_def word_gt_0)
qed

lemma proc_Disable_inv:
  assumes inv: "gnss_inv D Z n a" and i: "Z \<Longrightarrow> i \<noteq> 0"
  shows "gnss_inv D Z n (proc_DisableGnss env i a)"
proof -
  have report: "gnss_inv D Z n (control_reportResponse err i b) = gnss_inv D Z n b" for err b
    by (rule gnss_inv_quiet) (rule quiet_response)
  let ?l = "gps_lock_value (convertGpsLock_from (conf_gps_lock env))"
  let ?a = "out (Xtra_updateLockStatus ?l) (out (Api_setGpsLock ?l) ((out (Modem_powerVote False) a)\<lparr>mPowerVoteId := 0\<rparr>))"
  have "gnss_inv D Z n ?a" if "mPowerVoteId a = i"
  proof (rule power_frame [OF inv])
    show "engine D (gnss_log ?a) = engine D (gnss_log a)" "no_offer (gnss_log ?a) = no_offer (gnss_log a)"
      using engine_silents [of "[Modem_powerVote False, Api_setGpsLock ?l, Xtra_updateLockStatus ?l]" D "gnss_log a"]
      by (simp_all add: silent_def)
    show "power_ok ?a" if "Z"
      using that inv \<open>mPowerVoteId a = i\<close> i alternating_snoc(2) by (simp add: power_ok_def gnss_inv_def)
  qed (simp_all add: odcpi_ok_def)
  then show ?thesis using inv by (simp add: proc_DisableGnss_def report Let_def)
qed

lemma proc_ReportPosition_inv:
  assumes "gnss_inv D Z n a"
  shows "gnss_inv D Z n (proc_ReportPosition env p status tech a)"
proof -
  have q: "gnss_inv D Z n (out x b) = gnss_inv D Z n b" if "silent x" "no_vote x" for x b
    by (rule gnss_inv_quiet) (rule quiet_out [OF that])
  have r: "gnss_inv D Z n (report_clients p m b) = gnss_inv D Z n b" for m b
    by (rule gnss_inv_quiet) (rule quiet_report_clients)
  have avail: "gnss_inv D Z n (b\<lparr>mGnssSvIdUsedInPosAvail := True\<rparr>) = gnss_inv D Z n b" for b
    by (rule gnss_inv_cong) (simp_all add: odcpi_ok_def)
  show ?thesis using assms
    by (simp add: proc_ReportPosition_def reportPosition_def Let_def q r avail silent_def no_vote_def)
qed

text \<open>The request for on-demand positions changes only its own fields.\<close>

lemma odcpi_frame:
  assumes inv: "gnss_inv D Z n a" and a': "mTrackingSessions a' = mTrackingSessions a" "gnss_queue a' = gnss_queue a"
    "mSessionIdCounter a' = mSessionIdCounter a" "mPowerVoteId a' = mPowerVoteId a"
    "engine D (gnss_log a') = engine D (gnss_log a)" "votes a' = votes a"
    "no_offer (gnss_log a') = no_offer (gnss_log a)" and ok: "odcpi_ok a'"
  shows "gnss_inv D Z n a'"
  using assms by (simp add: gnss_inv_def track_ok_def ids_ok_def power_ok_def)

definition odcpi_only :: "gnss_adapter \<Rightarrow> gnss_adapter \<Rightarrow> bool" where
  "odcpi_only a a' \<longleftrightarrow> mTrackingSessions a' = mTrackingSessions a \<and> gnss_queue a' = gnss_queue a \<and>
     mSessionIdCounter a' = mSessionIdCounter a \<and> mPowerVoteId a' = mPowerVoteId a \<and>
     (\<forall>D. engine D (gnss_log a') = engine D (gnss_log a)) \<and> votes a' = votes a \<and>
     no_offer (gnss_log a') = no_offer (gnss_log a)"

lemmas odcpi_defs = reportOdcpiRequest_def odcpiTimerExpire_def initOdcpi_def OdcpiTimer_start_def OdcpiTimer_stop_def
  OdcpiTimer_restart_def

lemma odcpi_only_log:
  "list_all (\<lambda>x. silent x \<and> no_vote x) ys \<Longrightarrow> gnss_log a' = gnss_log a @ ys \<Longrightarrow>
     mTrackingSessions a' = mTrackingSessions a \<Longrightarrow> gnss_queue a' = gnss_queue a \<Longrightarrow>
     mSessionIdCounter a' = mSessionIdCounter a \<Longrightarrow> mPowerVoteId a' = mPowerVoteId a \<Longrightarrow> odcpi_only a a'"
proof -
  assume ys: "list_all (\<lambda>x. silent x \<and> no_vote x) ys" and log: "gnss_log a' = gnss_log a @ ys"
    and rest: "mTrackingSessions a' = mTrackingSessions a" "gnss_queue a' = gnss_queue a"
      "mSessionIdCounter a' = mSessionIdCounter a" "mPowerVoteId a' = mPowerVoteId a"
  have "list_all silent ys" using ys by (simp add: list_all_iff)
  moreover have "concat (map (\<lambda>x. case x of Modem_powerVote b \<Rightarrow> [b] | _ \<Rightarrow> []) ys) = []"
    using ys by (auto simp: list_all_iff no_vote_def split: gnss_out.splits)
  ultimately show ?thesis using rest log engine_silents by (simp add: odcpi_only_def)
qed

definition odcpi_asks :: "OdcpiRequestInfo \<Rightarrow> gnss_adapter \<Rightarrow> bool" where
  "odcpi_asks req a \<longleftrightarrow> mOdcpiRequestCb a \<and> od_type req = ODCPI_REQUEST_TYPE_START \<and>
     (\<not> mOdcpiRequestActive a \<and> \<not> mOdcpiTimer_active a \<or> \<not> isEmergencyMode (mOdcpiRequest a) \<and> isEmergencyMode req)"

lemma reportOdcpi_log:
  "gnss_log (reportOdcpiRequest req a) = gnss_log a @
     (if odcpi_asks req a then Cb_odcpi req # (if mOdcpiTimer_active a then [Timer_stop, Timer_start] else [Timer_start]) else [])"
  by (auto simp: odcpi_defs odcpi_asks_def Let_def)

lemma reportOdcpi_only: "odcpi_only a (reportOdcpiRequest req a)"
  by (rule odcpi_only_log [OF _ reportOdcpi_log]) (simp_all add: silent_def no_vote_def odcpi_defs Let_def)

lemma reportOdcpi_ok: "odcpi_ok a \<Longrightarrow> odcpi_ok (reportOdcpiRequest req a)"
  by (auto simp: odcpi_ok_def odcpi_defs Let_def)

text \<open>The messages that reach the engine directly.\<close>

lemma direct_inv:
  assumes inv: "gnss_inv False Z n a" and x: "x = Api_startFix m ok \<or> x = Api_stopFix ok"
  shows "gnss_inv False Z n (out x a)"
proof -
  have "no_offer (gnss_log a)" using inv by (simp add: gnss_inv_def track_ok_def)
  from direct_calls [OF this x] have "engine False (gnss_log (out x a)) = engine False (gnss_log a)" by simp
  moreover have "no_offer (gnss_log (out x a))" using x no_offer_calls(5,6) [of "gnss_log a"] by auto
  moreover have "votes (out x a) = votes a" using x by auto
  ultimately show ?thesis using inv by (simp add: gnss_inv_def track_ok_def power_ok_def odcpi_ok_def ids_ok_def)
qed

lemma direct_procs_inv:
  assumes inv: "gnss_inv False Z n a"
  shows "gnss_inv False Z n (restartSessions env a)" "gnss_inv False Z n (proc_UlpStartTracking env a)"
    "gnss_inv False Z n (proc_UlpStopTracking env a)"
proof -
  have "gnss_inv False Z n (a\<lparr>mOdcpiRequestActive := False\<rparr>)"
    using inv by (simp add: gnss_inv_def track_ok_def power_ok_def odcpi_ok_def ids_ok_def)
  then show "gnss_inv False Z n (restartSessions env a)" using direct_inv by (simp add: restartSessions_def Let_def)
  show "gnss_inv False Z n (proc_UlpStartTracking env a)" using inv direct_inv by (simp add: proc_UlpStartTracking_def)
  have "gnss_inv False Z n (a\<lparr>mUlpPositionMode := p\<rparr>) = gnss_inv False Z n a" for p
    by (rule gnss_inv_cong) (simp_all add: odcpi_ok_def)
  then show "gnss_inv False Z n (proc_UlpStopTracking env a)"
    using inv direct_inv by (simp add: proc_UlpStopTracking_def setUlpPositionMode_def Let_def)
qed

lemma odcpi_steps_inv:
  assumes inv: "gnss_inv D Z n a"
  shows "gnss_inv D Z n (reportOdcpiRequest req a)" "gnss_inv D Z n (initOdcpi True a)"
    "\<exists>a'. odcpiTimerExpire a = Some a' \<and> gnss_inv D Z n a'"
proof -
  have ok: "odcpi_ok a" using inv by (simp add: gnss_inv_def)
  have frame: "gnss_inv D Z n a'" if "odcpi_only a a'" "odcpi_ok a'" for a'
    using odcpi_frame [OF inv, of a'] that by (simp add: odcpi_only_def)
  show "gnss_inv D Z n (reportOdcpiRequest req a)" by (rule frame [OF reportOdcpi_only reportOdcpi_ok [OF ok]])
  have "odcpi_only a (initOdcpi True a)"
    by (rule odcpi_only_log [of "[Api_updateEvtMask]"]) (simp_all add: silent_def no_vote_def initOdcpi_def)
  then show "gnss_inv D Z n (initOdcpi True a)"
    by (rule frame) (use ok in \<open>simp add: odcpi_ok_def initOdcpi_def\<close>)
  show "\<exists>a'. odcpiTimerExpire a = Some a' \<and> gnss_inv D Z n a'"
  proof (cases "mOdcpiRequestActive a")
    case True
    let ?a = "OdcpiTimer_restart (out (Cb_odcpi (mOdcpiRequest a)) a)"
    have "odcpi_only a ?a"
      by (rule odcpi_only_log [of "[Cb_odcpi (mOdcpiRequest a), Timer_stop, Timer_start]"])
        (simp_all add: silent_def no_vote_def odcpi_defs)
    moreover have "odcpi_ok ?a" using ok True by (simp add: odcpi_ok_def odcpi_defs)
    ultimately show ?thesis using frame ok True by (simp add: odcpiTimerExpire_def odcpi_ok_def)
  next
    case False
    have "odcpi_only a (OdcpiTimer_stop a)"
      by (rule odcpi_only_log [of "[Timer_stop]"]) (simp_all add: silent_def no_vote_def odcpi_defs)
    moreover have "odcpi_ok (OdcpiTimer_stop a)" using False by (simp add: odcpi_ok_def odcpi_defs)
    ultimately show ?thesis using frame False by (simp add: odcpiTimerExpire_def)
  qed
qed

lemma proc_RequestCapabilities_inv:
  assumes "gnss_inv D Z n a"
  shows "gnss_inv D Z n (proc_RequestCapabilities env c a)"
proof -
  have "gnss_inv D Z n (out (Cb_capabilities c x) a) = gnss_inv D Z n a" for x
    by (rule gnss_inv_quiet, rule quiet_out) (simp_all add: silent_def no_vote_def)
  then show ?thesis using assms by (simp add: proc_RequestCapabilities_def)
qed

lemma gnss_proc_inv:
  assumes inv: "gnss_inv D Z n a" and m: "allowed D Z m"
    and fresh: "\<And>c i opts. m = MsgStartTracking c i opts \<Longrightarrow>
      i \<notin> session_ids a \<and> i \<notin> set (start_ids (gnss_queue a)) \<and> unat i \<le> n + 1"
  shows "\<exists>a'. gnss_proc env m a = Some a' \<and> gnss_inv D Z n a'"
proof (cases m)
  case (MsgStartTracking c i opts)
  then show ?thesis using proc_Start_inv [OF inv, of i env c opts] fresh by (simp add: gnss_proc_def)
next
  case MsgOdcpiTimerExpire
  then show ?thesis using odcpi_steps_inv(3) [OF inv] by (simp add: gnss_proc_def)
next
  case (MsgInitOdcpi b)
  then show ?thesis using odcpi_steps_inv(2) [OF inv] m by (simp add: gnss_proc_def allowed_def)
next
  case (MsgRemoveClient c)
  then show ?thesis using client_steps_inv(2) [OF stopClientSessions_inv [OF inv]] by (simp add: gnss_proc_def)
next
  case (MsgDisableGnss i)
  then show ?thesis using proc_Disable_inv [OF inv] m by (simp add: gnss_proc_def allowed_def)
next
  case MsgRestartSessions
  then have "gnss_inv False Z n a" using inv m by (simp add: allowed_def)
  from direct_procs_inv(1) [OF this] show ?thesis using MsgRestartSessions m by (simp add: gnss_proc_def allowed_def)
next
  case MsgUlpStartTracking
  then have "gnss_inv False Z n a" using inv m by (simp add: allowed_def)
  from direct_procs_inv(2) [OF this] show ?thesis using MsgUlpStartTracking m by (simp add: gnss_proc_def allowed_def)
next
  case MsgUlpStopTracking
  then have "gnss_inv False Z n a" using inv m by (simp add: allowed_def)
  from direct_procs_inv(3) [OF this] show ?thesis using MsgUlpStopTracking m by (simp add: gnss_proc_def allowed_def)
next
  case (MsgEnableGnss i g)
  then show ?thesis using proc_Enable_inv [OF inv] m by (simp add: gnss_proc_def allowed_def)
qed (use m client_steps_inv(1) [OF inv] proc_Update_inv [OF inv] proc_Stop_inv [OF inv] proc_SetPositionMode_inv [OF inv]
      proc_ReportPosition_inv [OF inv] odcpi_steps_inv(1) [OF inv] proc_RequestCapabilities_inv [OF inv]
      in \<open>simp_all add: gnss_proc_def allowed_def\<close>)

lemma gnss_run_inv:
  assumes inv: "gnss_inv D Z n a"
  shows "\<exists>a'. gnss_run env a = Some a' \<and> gnss_inv D Z n a'"
proof (cases "gnss_queue a")
  case Nil
  then show ?thesis using inv by (simp add: gnss_run_def)
next
  case (Cons m ms)
  let ?a = "a\<lparr>gnss_queue := ms\<rparr>"
  have m: "allowed D Z m" using inv Cons by (simp add: gnss_inv_def)
  have inv': "gnss_inv D Z n ?a"
    using inv Cons by (auto simp: gnss_inv_def track_ok_def power_ok_def odcpi_ok_def ids_ok_def)
  have "i \<notin> session_ids ?a \<and> i \<notin> set (start_ids (gnss_queue ?a)) \<and> unat i \<le> n + 1"
    if "m = MsgStartTracking c i opts" for c i opts
    using inv Cons that unfolding gnss_inv_def ids_ok_def by simp
  from gnss_proc_inv [OF inv' m this] show ?thesis using Cons by (simp add: gnss_run_def)
qed

section \<open>Histories\<close>

datatype gnss_act =
    G_addClient client LocationCallbacks
  | G_removeClient client
  | G_requestCapabilities client
  | G_startTracking client LocationOptions
  | G_updateTrackingOptions client uint32 LocationOptions
  | G_stopTracking client uint32
  | G_setPositionMode LocPosMode
  | G_enable bool
  | G_disable uint32
  | G_reportPosition position loc_sess_status uint32 bool
  | G_reportOdcpiRequest OdcpiRequestInfo
  | G_initOdcpi
  | G_odcpiTimerExpire
  | G_ulpStartTracking
  | G_ulpStopTracking
  | G_engineUp
  | G_task

definition gnss_act :: "gnss_env \<Rightarrow> gnss_act \<Rightarrow> gnss_adapter \<Rightarrow> gnss_adapter option" where
  "gnss_act env act a = (case act of
     G_addClient c cb \<Rightarrow> Some (addClientCommand c cb a)
   | G_removeClient c \<Rightarrow> Some (removeClientCommand c a)
   | G_requestCapabilities c \<Rightarrow> Some (requestCapabilitiesCommand c a)
   | G_startTracking c opts \<Rightarrow> Some (snd (startTrackingCommand c opts a))
   | G_updateTrackingOptions c i opts \<Rightarrow> Some (updateTrackingOptionsCommand c i opts a)
   | G_stopTracking c i \<Rightarrow> Some (stopTrackingCommand c i a)
   | G_setPositionMode mode \<Rightarrow> Some (setPositionModeCommand mode a)
   | G_enable g \<Rightarrow> Some (snd (enableCommand env g a))
   | G_disable i \<Rightarrow> Some (disableCommand env i a)
   | G_reportPosition p status tech fromUlp \<Rightarrow> Some (reportPositionEvent env p status tech fromUlp a)
   | G_reportOdcpiRequest req \<Rightarrow> Some (reportOdcpiRequestEvent req a)
   | G_initOdcpi \<Rightarrow> Some (initOdcpiCommand True a)
   | G_odcpiTimerExpire \<Rightarrow> Some (odcpiTimerExpireEvent a)
   | G_ulpStartTracking \<Rightarrow> Some (ulp_startTrackingCommand a)
   | G_ulpStopTracking \<Rightarrow> Some (ulp_stopTrackingCommand a)
   | G_engineUp \<Rightarrow> Some (handleEngineUpEvent a)
   | G_task \<Rightarrow> gnss_run env a)"

fun gnss_history :: "gnss_env \<Rightarrow> gnss_act list \<Rightarrow> gnss_adapter \<Rightarrow> gnss_adapter option" where
  "gnss_history env [] a = Some a"
| "gnss_history env (x # xs) a = (case gnss_act env x a of None \<Rightarrow> None | Some a \<Rightarrow> gnss_history env xs a)"

text \<open>Nobody disables the engine with identifier 0, which no command ever returns.\<close>

definition disables_ok :: "gnss_act list \<Rightarrow> bool" where
  "disables_ok xs \<longleftrightarrow> G_disable 0 \<notin> set xs"

text \<open>What reaches the engine without the multiplexer: the proxy's own commands and a restarted engine.\<close>

definition direct_act :: "gnss_act \<Rightarrow> bool" where
  "direct_act x \<longleftrightarrow> x \<in> {G_ulpStartTracking, G_ulpStopTracking, G_engineUp}"

lemma post_inv:
  assumes inv: "gnss_inv D Z n a" and m: "allowed D Z m" "start_ids [m] = []"
  shows "gnss_inv D Z n (post m a)"
proof -
  have ids: "start_ids (gnss_queue (post m a)) = start_ids (gnss_queue a)" using m(2) by (simp add: post_def)
  show ?thesis using inv m(1) unfolding gnss_inv_def ids_ok_def ids
    by (auto simp: post_def track_ok_def power_ok_def odcpi_ok_def)
qed

lemma generate_eq:
  assumes "ids_ok n a" "n + 2 < 0xFFFFFFFF"
  shows "generateSessionId a = (mSessionIdCounter a + 1, a\<lparr>mSessionIdCounter := mSessionIdCounter a + 1\<rparr>)"
    "unat (mSessionIdCounter a + 1) = n + 2"
proof -
  have u: "unat (mSessionIdCounter a) = n + 1" using assms(1) by (simp add: ids_ok_def)
  have nz: "mSessionIdCounter a + 1 \<noteq> 0"
  proof
    assume "mSessionIdCounter a + 1 = 0"
    then have "mSessionIdCounter a = - 1" by (metis add_eq_0_iff2)
    then have "n + 1 = unat (- 1 :: 32 word)" using u by (simp only:)
    then have "n + 1 = 0xFFFFFFFF" by (simp add: unsigned_minus_1_eq_mask mask_eq_exp_minus_1)
    then show False using assms(2) by simp
  qed
  then show u2: "unat (mSessionIdCounter a + 1) = n + 2" using u unatSuc [of "mSessionIdCounter a"] by (simp add: add.commute)
  have "mSessionIdCounter a + 1 \<noteq> 0xFFFFFFFF"
  proof
    assume "mSessionIdCounter a + 1 = 0xFFFFFFFF"
    then have "n + 2 = 0xFFFFFFFF" using u2 by simp
    then show False using assms(2) by simp
  qed
  then show "generateSessionId a = (mSessionIdCounter a + 1, a\<lparr>mSessionIdCounter := mSessionIdCounter a + 1\<rparr>)"
    by (simp add: generateSessionId_def Let_def)
qed

lemma generate_inv:
  assumes inv: "gnss_inv D Z n a" and n: "n + 2 < 0xFFFFFFFF" and m: "allowed D Z m"
    "set (start_ids [m]) \<subseteq> {mSessionIdCounter a + 1}" "distinct (start_ids [m])"
  shows "gnss_inv D Z (n + 1) (post m (a\<lparr>mSessionIdCounter := mSessionIdCounter a + 1\<rparr>))"
proof -
  let ?i = "mSessionIdCounter a + 1"
  have ids: "ids_ok n a" using inv by (simp add: gnss_inv_def)
  note g = generate_eq(2) [OF ids n]
  have new: "?i \<notin> set (start_ids (gnss_queue a))" "?i \<notin> session_ids a"
  proof -
    have "unat i \<le> n + 1" if "i \<in> set (start_ids (gnss_queue a)) \<union> session_ids a" for i
      using ids that unfolding ids_ok_def by blast
    then show "?i \<notin> set (start_ids (gnss_queue a))" "?i \<notin> session_ids a" using g by fastforce+
  qed
  have T: "mTrackingSessions (post m (a\<lparr>mSessionIdCounter := ?i\<rparr>)) = mTrackingSessions a"
    and Q: "start_ids (gnss_queue (post m (a\<lparr>mSessionIdCounter := ?i\<rparr>))) = start_ids (gnss_queue a) @ start_ids [m]"
    by (simp_all add: post_def)
  have "ids_ok (n + 1) (post m (a\<lparr>mSessionIdCounter := ?i\<rparr>))"
    unfolding ids_ok_def T Q set_append distinct_append
  proof (intro conjI ballI)
    have old: "distinct (start_ids (gnss_queue a))" using ids unfolding ids_ok_def by (elim conjE)
    have old2: "set (start_ids (gnss_queue a)) \<inter> session_ids a = {}" using ids unfolding ids_ok_def by (elim conjE)
    have gen: "A \<inter> S = {} \<Longrightarrow> B \<subseteq> {x} \<Longrightarrow> x \<notin> S \<Longrightarrow> (A \<union> B) \<inter> S = {}" for A B S and x :: uint32 by blast
    show "distinct (start_ids (gnss_queue a))" "distinct (start_ids [m])" by (rule old, rule m(3))
    show "set (start_ids (gnss_queue a)) \<inter> set (start_ids [m]) = {}" using m(2) new(1) by blast
    show "(set (start_ids (gnss_queue a)) \<union> set (start_ids [m])) \<inter> session_ids a = {}"
      by (rule gen [OF old2 m(2) new(2)])
    show "unat i \<le> n + 1 + 1" if "i \<in> set (start_ids (gnss_queue a)) \<union> set (start_ids [m]) \<union> session_ids a" for i
    proof (cases "i = ?i")
      case True
      then show ?thesis using g by simp
    next
      case False
      then have "i \<in> set (start_ids (gnss_queue a)) \<union> session_ids a" using that m(2) by blast
      then have "unat i \<le> n + 1" using ids unfolding ids_ok_def by blast
      then show ?thesis by simp
    qed
  qed (use g n in \<open>simp_all add: post_def\<close>)
  then show ?thesis using inv m(1) by (auto simp: gnss_inv_def post_def track_ok_def power_ok_def odcpi_ok_def)
qed

end
