(* ===== verification/GnssAdapterHistories.thy ===== *)
theory GnssAdapterHistories
  imports GnssAdapterSafety
begin

text \<open>
  What the adapter of the GNSS engine guarantees over its histories, and where it does not do what
  its comments say.
\<close>

section \<open>The invariant over histories\<close>

lemma gnss_act_inv:
  assumes inv: "gnss_inv D Z n a" and n: "n + 2 < 0xFFFFFFFF" and z: "Z \<longrightarrow> x \<noteq> G_disable 0" and d: "D \<longrightarrow> \<not> direct_act x"
  shows "\<exists>a' n'. gnss_act env x a = Some a' \<and> n' \<le> n + 1 \<and> gnss_inv D Z n' a'"
proof -
  have ids: "ids_ok n a" using inv by (simp add: gnss_inv_def)
  note gen = generate_eq [OF ids n]
  have i0: "mSessionIdCounter a + 1 \<noteq> 0"
  proof
    assume "mSessionIdCounter a + 1 = 0"
    then have "unat (0 :: uint32) = n + 2" using gen(2) by (simp only:)
    then show False by simp
  qed
  have bump: "gnss_inv D Z (n + 1) (a\<lparr>mSessionIdCounter := mSessionIdCounter a + 1\<rparr>)"
    using generate_inv [OF inv n, of MsgOdcpiTimerExpire] by (auto simp: gnss_inv_def allowed_def post_def
        track_ok_def power_ok_def odcpi_ok_def ids_ok_def)
  have post: "\<exists>a' n'. Some (post m a) = Some a' \<and> n' \<le> n + 1 \<and> gnss_inv D Z n' a'"
    if "allowed D Z m" "start_ids [m] = []" for m
    using post_inv [OF inv that] by (intro exI [of _ "post m a"] exI [of _ n]) simp
  show ?thesis
  proof (cases x)
    case (G_startTracking c opts)
    have "gnss_inv D Z (n + 1) (snd (startTrackingCommand c opts a))"
      using generate_inv [OF inv n, of "MsgStartTracking c (mSessionIdCounter a + 1) opts"]
      by (simp add: startTrackingCommand_def gen(1) allowed_def)
    then show ?thesis using G_startTracking by (auto simp: gnss_act_def)
  next
    case (G_enable g)
    have "gnss_inv D Z (n + 1) (snd (enableCommand env g a))"
      using generate_inv [OF inv n, of "MsgEnableGnss (mSessionIdCounter a + 1) g"] bump i0
      by (simp add: enableCommand_def gen(1) allowed_def)
    then show ?thesis using G_enable by (auto simp: gnss_act_def)
  next
    case G_task
    then show ?thesis using gnss_run_inv [OF inv, of env] by (auto simp: gnss_act_def intro!: exI [of _ n])
  next
    case (G_disable i)
    have "allowed D Z (MsgDisableGnss i)" using z G_disable by (auto simp: allowed_def)
    then show ?thesis using G_disable post [of "MsgDisableGnss i"] inv
      by (auto simp: gnss_act_def disableCommand_def intro!: exI [of _ n])
  next
    case (G_reportPosition p status tech fromUlp)
    then show ?thesis using post [of "MsgReportPosition p status tech"] inv
      by (auto simp: gnss_act_def reportPositionEvent_def allowed_def intro!: exI [of _ n])
  qed (use post d in \<open>simp_all add: gnss_act_def allowed_def direct_act_def addClientCommand_def removeClientCommand_def
      requestCapabilitiesCommand_def updateTrackingOptionsCommand_def stopTrackingCommand_def setPositionModeCommand_def
      reportOdcpiRequestEvent_def initOdcpiCommand_def odcpiTimerExpireEvent_def ulp_startTrackingCommand_def
      ulp_stopTrackingCommand_def handleEngineUpEvent_def\<close>)
qed

lemma gnss_history_inv:
  "gnss_inv D Z n a \<Longrightarrow> n + length xs + 1 < 0xFFFFFFFF \<Longrightarrow> (Z \<longrightarrow> disables_ok xs) \<Longrightarrow>
     (D \<longrightarrow> \<not> list_ex direct_act xs) \<Longrightarrow> \<exists>a' n'. gnss_history env xs a = Some a' \<and> gnss_inv D Z n' a'"
proof (induction xs arbitrary: a n)
  case Nil
  then show ?case by auto
next
  case (Cons x xs)
  have z: "Z \<longrightarrow> x \<noteq> G_disable 0" "Z \<longrightarrow> disables_ok xs" using Cons.prems(3) by (auto simp: disables_ok_def)
  have d: "D \<longrightarrow> \<not> direct_act x" "D \<longrightarrow> \<not> list_ex direct_act xs" using Cons.prems(4) by simp_all
  obtain a1 n1 where s: "gnss_act env x a = Some a1" "n1 \<le> n + 1" "gnss_inv D Z n1 a1"
    using gnss_act_inv [OF Cons.prems(1) _ z(1) d(1)] Cons.prems(2) by fastforce
  have "n1 + length xs + 1 < 0xFFFFFFFF" using s(2) Cons.prems(2) by simp
  from Cons.IH [OF s(3) this z(2) d(2)] show ?case using s(1) by simp
qed

lemma GnssAdapter_inv: "gnss_inv D Z 0 GnssAdapter"
  by (simp add: gnss_inv_def GnssAdapter_def track_ok_def sess_ok_def follows_def power_ok_def alternating_def
      odcpi_ok_def ids_ok_def)

lemma GnssAdapter_history:
  assumes "length xs < 0xFFFFFFFE" "Z \<longrightarrow> disables_ok xs" "D \<longrightarrow> \<not> list_ex direct_act xs"
  shows "\<exists>a n. gnss_history env xs GnssAdapter = Some a \<and> gnss_inv D Z n a"
  using gnss_history_inv [OF GnssAdapter_inv, of xs Z D env] assms by auto

section \<open>Guarantees\<close>

text \<open>C8: Whatever the clients, the user-location proxy and the engine do (commands, answers that refuse,
  the proxy's own starts and stops, restarts of the engine), and however the message task interleaves
  with them: nothing faults, and the start or stop in force for the clients' sessions, the last one the
  adapter made for them that the proxy or the engine accepted, is a start exactly when a client has a
  tracking session, and then for the smallest interval of all the sessions. As long as neither the
  proxy gives commands of its own, which go to the engine as they are, nor the engine restarts, that is
  what the engine, or the proxy for it, is doing. (Session identifiers repeat after about 4 billion;
  histories are shorter than that.)\<close>

theorem gnss_engine_follows_sessions:
  assumes "length xs < 0xFFFFFFFE"
  shows "\<exists>a. gnss_history env xs GnssAdapter = Some a \<and> follows (mTrackingSessions a) (session_fix (gnss_log a)) \<and>
    (\<not> list_ex direct_act xs \<longrightarrow> follows (mTrackingSessions a) (engine_fix (gnss_log a)))"
proof -
  obtain a where a: "gnss_history env xs GnssAdapter = Some a" "follows (mTrackingSessions a) (session_fix (gnss_log a))"
    using GnssAdapter_history [OF assms, of False False env] gnss_invD(2) by blast
  moreover have "follows (mTrackingSessions a) (engine_fix (gnss_log a))" if "\<not> list_ex direct_act xs"
    using GnssAdapter_history [OF assms, of False True env] that a(1) gnss_invD(2) by fastforce
  ultimately show ?thesis by blast
qed

text \<open>A restarted engine that takes the start runs again at the smallest interval of the sessions.\<close>

lemma gnss_restart_resumes:
  assumes "gnss_inv False Z n a" "mTrackingSessions a \<noteq> []" "api_start_ok env (now a)"
  shows "follows (mTrackingSessions (restartSessions env a)) (engine_fix (gnss_log (restartSessions env a)))"
proof -
  let ?m = "mTrackingSessions a" and ?best = "smallest (\<lambda>k. True) (mTrackingSessions a) zero_options"
  have sz: "\<forall>e \<in> set ?m. opt_size (snd e) \<noteq> 0" using gnss_invD(1) [OF assms(1)] by (simp add: sess_ok_def)
  have "\<exists>e \<in> set ?m. True" using assms(2) by (cases ?m) auto
  from smallest_found [OF sz, of "\<lambda>k. True", OF this] obtain k where best: "(k, ?best) \<in> set ?m"
    "\<forall>e \<in> set ?m. minInterval ?best \<le> minInterval (snd e)" by blast
  then have "follows ?m (Some (fix_mode ?best))" by (intro followsI [of "(k, ?best)"]) auto
  moreover have "engine_fix (gnss_log a @ [Api_startFix (fix_mode ?best) True]) = Some (fix_mode ?best)"
    by (cases "foldl (engine_step True) (None, False, None) (gnss_log a)") (simp add: engine_def)
  ultimately show ?thesis using assms(2,3) by (simp add: restartSessions_def Let_def)
qed

definition example_env :: gnss_env where
  "example_env = \<lparr>ulp_takes_start = (\<lambda>n. False), ulp_takes_stop = (\<lambda>n. False), api_start_ok = (\<lambda>n. True),
     api_stop_ok = (\<lambda>n. True), ulp_takes_position = (\<lambda>p. False), has_context = True, nmea_mask = True,
     external_dr = False, agps_status_cb = False, carrier_caps = 0, api_supports = (\<lambda>n. True),
     gnss_constellation = True, debug_nmea = False, conf_gps_lock = 1, accepts_intermediate = True, accuracy_thres = 0,
     accuracy_gt = (\<lambda>x y. False), nmea_provider_ap = False, has_system_status = True\<rparr>"

definition some_callbacks :: LocationCallbacks where
  "some_callbacks = no_callbacks\<lparr>trackingCb := True, responseCb := True\<rparr>"

definition every_second :: LocationOptions where
  "every_second = \<lparr>opt_size = 16, minInterval = 1000, opt_mode = GNSS_SUPL_MODE_MSB\<rparr>"

theorem gnss_engine_follows_sessions_witness:
  "\<exists>a. gnss_history example_env [G_addClient 1 some_callbacks, G_startTracking 1 every_second, G_task, G_task]
     GnssAdapter = Some a \<and> follows (mTrackingSessions a) (engine_fix (gnss_log a))"
  using gnss_engine_follows_sessions [of "[G_addClient 1 some_callbacks, G_startTracking 1 every_second, G_task, G_task]" example_env]
  by (auto simp: direct_act_def)

text \<open>The votes for the modem's power alternate, beginning with one for it, and one stands
  exactly while the engine is enabled, as long as nobody disables with identifier 0.\<close>

theorem gnss_power_votes_alternate:
  assumes "length xs < 0xFFFFFFFE" "disables_ok xs"
  shows "\<exists>a. gnss_history env xs GnssAdapter = Some a \<and> alternating (votes a) (mPowerVoteId a \<noteq> 0)"
  using GnssAdapter_history [OF assms(1), of True False env] assms(2) by (auto simp: gnss_inv_def power_ok_def)

theorem gnss_power_votes_alternate_witness:
  "\<exists>a. gnss_history example_env [G_enable True, G_enable True, G_task, G_task, G_disable 2, G_task] GnssAdapter = Some a \<and>
     alternating (votes a) (mPowerVoteId a \<noteq> 0)"
  by (rule gnss_power_votes_alternate) (simp_all add: disables_ok_def)

text \<open>After any history, a request to start on-demand positions is active afterwards with its
  timer running, so that the expiry asks again; the framework is called at once if no request is
  active and no timer runs, or to replace a request that was not an emergency by one that is, and
  otherwise not.\<close>

theorem gnss_odcpi_request_held:
  assumes "gnss_history env xs GnssAdapter = Some a" "length xs < 0xFFFFFFFE"
    and "mOdcpiRequestCb a" "od_type req = ODCPI_REQUEST_TYPE_START"
  shows "let a' = reportOdcpiRequest req a in
    mOdcpiRequestActive a' \<and> mOdcpiTimer_active a' \<and> mOdcpiRequest a' = req \<and>
    (Cb_odcpi req \<in> set (drop (now a) (gnss_log a')) \<longleftrightarrow>
       \<not> mOdcpiRequestActive a \<and> \<not> mOdcpiTimer_active a \<or> \<not> isEmergencyMode (mOdcpiRequest a) \<and> isEmergencyMode req)"
proof -
  have "odcpi_ok a"
    using GnssAdapter_history [OF assms(2), of False False env] assms(1) by (auto simp: gnss_inv_def)
  then have "mOdcpiRequestActive (reportOdcpiRequest req a) \<and> mOdcpiTimer_active (reportOdcpiRequest req a) \<and>
      mOdcpiRequest (reportOdcpiRequest req a) = req"
    using assms(3,4) by (auto simp: odcpi_ok_def odcpi_defs Let_def)
  then show ?thesis
    using reportOdcpi_log [of req a] assms(3,4) by (simp add: Let_def odcpi_asks_def)
qed

definition emergency :: OdcpiRequestInfo where
  "emergency = \<lparr>od_type = ODCPI_REQUEST_TYPE_START, tbfMillis = 1000, isEmergencyMode = True\<rparr>"

theorem gnss_odcpi_request_held_witness:
  "let a = initOdcpi True GnssAdapter; a' = reportOdcpiRequest emergency a in
    mOdcpiRequestActive a' \<and> mOdcpiTimer_active a' \<and> mOdcpiRequest a' = emergency \<and>
    (Cb_odcpi emergency \<in> set (drop (now a) (gnss_log a')) \<longleftrightarrow>
       \<not> mOdcpiRequestActive a \<and> \<not> mOdcpiTimer_active a \<or> \<not> isEmergencyMode (mOdcpiRequest a) \<and> isEmergencyMode emergency)"
proof -
  have "gnss_history example_env [G_initOdcpi, G_task] GnssAdapter = Some (initOdcpi True GnssAdapter)"
    by (simp add: gnss_act_def initOdcpiCommand_def post_def GnssAdapter_def gnss_run_def gnss_proc_def)
  from gnss_odcpi_request_held [OF this, of emergency] show ?thesis
    by (simp add: Let_def emergency_def initOdcpi_def)
qed

section \<open>The event mask\<close>

lemma client_mask_or: "client_mask env cb w = w OR client_mask env cb 0"
  by (simp add: client_mask_def Let_def or.assoc)

lemma bit_fold_mask:
  "bit (fold (\<lambda>e. client_mask env (snd e)) m w) k \<longleftrightarrow> bit w k \<or> (\<exists>e \<in> set m. bit (client_mask env (snd e) 0) k)"
proof (induction m arbitrary: w)
  case (Cons e m)
  have "bit (client_mask env (snd e) w) k \<longleftrightarrow> bit w k \<or> bit (client_mask env (snd e) 0) k"
    using client_mask_or [of env "snd e" w] by (metis bit_or_iff)
  then show ?case using Cons [of "client_mask env (snd e) w"] by auto
qed simp

lemma event_bits_exp:
  "LOC_API_ADAPTER_BIT_PARSED_POSITION_REPORT = 2 ^ 0" "LOC_API_ADAPTER_BIT_SATELLITE_REPORT = 2 ^ 1"
  "LOC_API_ADAPTER_BIT_NMEA_1HZ_REPORT = 2 ^ 2" "LOC_API_ADAPTER_BIT_NI_NOTIFY_VERIFY_REQUEST = 2 ^ 4"
  "LOC_API_ADAPTER_BIT_LOCATION_SERVER_REQUEST = 2 ^ 6" "LOC_API_ADAPTER_BIT_REQUEST_WIFI = 2 ^ 9"
  "LOC_API_ADAPTER_BIT_GNSS_SV_POLYNOMIAL_REPORT = 2 ^ 23" "LOC_API_ADAPTER_BIT_GNSS_MEASUREMENT = 2 ^ 26"
  by (simp_all add: event_bits)

lemma wants_bit: "(w :: 64 word) AND 2 ^ k \<noteq> 0 \<longleftrightarrow> bit w k"
  using and_exp_eq_0_iff_not_bit [of w k] by blast

lemma bit_exp64: "bit ((2 :: 64 word) ^ j) k \<longleftrightarrow> j = k \<and> k < 64"
  by (auto simp: bit_exp_iff)

lemma bit_if_or: "bit (if P then w OR x else (w :: 64 word)) k \<longleftrightarrow> bit w k \<or> P \<and> bit x k"
  by (simp add: bit_or_iff)

text \<open>After a client was added, replaced or removed, the adapter is registered with the engine for
  positions, network-initiated requests, satellite reports, NMEA and measurements exactly when some
  client has the callback for them (and NMEA is configured, or external dead reckoning needs the
  measurements).\<close>

theorem gnss_event_mask_exact:
  assumes "a' = saveClient env c cb a \<or> a' = eraseClient env c a"
  shows "(mEvtMask a' AND LOC_API_ADAPTER_BIT_PARSED_POSITION_REPORT \<noteq> 0 \<longleftrightarrow> (\<exists>e \<in> set (mClientData a'). trackingCb (snd e))) \<and>
    (mEvtMask a' AND LOC_API_ADAPTER_BIT_NI_NOTIFY_VERIFY_REQUEST \<noteq> 0 \<longleftrightarrow> (\<exists>e \<in> set (mClientData a'). gnssNiCb (snd e))) \<and>
    (mEvtMask a' AND LOC_API_ADAPTER_BIT_SATELLITE_REPORT \<noteq> 0 \<longleftrightarrow> (\<exists>e \<in> set (mClientData a'). gnssSvCb (snd e))) \<and>
    (mEvtMask a' AND LOC_API_ADAPTER_BIT_NMEA_1HZ_REPORT \<noteq> 0 \<longleftrightarrow>
       nmea_mask env \<and> (\<exists>e \<in> set (mClientData a'). gnssNmeaCb (snd e))) \<and>
    (mEvtMask a' AND LOC_API_ADAPTER_BIT_GNSS_MEASUREMENT \<noteq> 0 \<longleftrightarrow>
       external_dr env \<or> (\<exists>e \<in> set (mClientData a'). gnssMeasurementsCb (snd e)))"
proof -
  obtain b where b: "a' = updateClientsEventMask env b"
    using assms by (auto simp: saveClient_def eraseClient_def)
  have data: "mClientData a' = mClientData b" by (simp add: b updateClientsEventMask_def updateEvtMask_def Let_def)
  have cm: "bit (client_mask env (snd e) 0) k \<longleftrightarrow> k = 0 \<and> trackingCb (snd e) \<or> k = 4 \<and> gnssNiCb (snd e) \<or>
      k = 1 \<and> gnssSvCb (snd e) \<or> k = 2 \<and> gnssNmeaCb (snd e) \<and> nmea_mask env \<or> k = 26 \<and> gnssMeasurementsCb (snd e)"
    for e :: "client \<times> LocationCallbacks" and k
    unfolding client_mask_def event_bits_exp Let_def bit_if_or bit_exp64 by (auto simp: bit_0_eq)
  have "bit (mEvtMask a') k \<longleftrightarrow> (\<exists>e \<in> set (mClientData a'). bit (client_mask env (snd e) 0) k) \<or>
      external_dr env \<and> (k = 26 \<or> k = 23) \<or> agps_status_cb env \<and> k = 6 \<or> mOdcpiRequestCb b \<and> k = 9" for k
  proof -
    have m: "mEvtMask a' = (let bits = fold (\<lambda>e. client_mask env (snd e)) (mClientData b) 0;
          bits = (if external_dr env then bits OR (2 ^ 26 OR 2 ^ 23) else bits);
          bits = (if agps_status_cb env then bits OR 2 ^ 6 else bits) in
        if mOdcpiRequestCb b then bits OR 2 ^ 9 else bits)"
      by (simp only: b updateClientsEventMask_def updateEvtMask_def Let_def event_bits_exp out_simps or.assoc) simp
    show ?thesis unfolding m data Let_def bit_if_or bit_fold_mask bit_or_iff bit_exp64 by (auto simp: bit_0_eq)
  qed
  then show ?thesis unfolding event_bits_exp wants_bit cm by auto
qed

theorem gnss_event_mask_exact_witness:
  "let a' = saveClient example_env 1 some_callbacks GnssAdapter in
    (mEvtMask a' AND LOC_API_ADAPTER_BIT_PARSED_POSITION_REPORT \<noteq> 0 \<longleftrightarrow> (\<exists>e \<in> set (mClientData a'). trackingCb (snd e)))"
  unfolding Let_def using gnss_event_mask_exact [OF disjI1 [OF refl], of example_env 1 some_callbacks GnssAdapter] by blast

section \<open>Session identifiers\<close>

fun gen_ids :: "nat \<Rightarrow> gnss_adapter \<Rightarrow> uint32 list" where
  "gen_ids 0 a = []"
| "gen_ids (Suc n) a = (let (i, a) = generateSessionId a in i # gen_ids n a)"

lemma generate_mod:
  assumes "unat (mSessionIdCounter a) = x + 1" "x < 0xFFFFFFFE"
  shows "generateSessionId a = (fst (generateSessionId a), a\<lparr>mSessionIdCounter := fst (generateSessionId a)\<rparr>) \<and>
    unat (fst (generateSessionId a)) = (x + 1) mod 0xFFFFFFFE + 1"
proof -
  let ?c = "mSessionIdCounter a"
  have small: "unat ?c + 1 < 2 ^ 32" using assms by simp
  have u: "unat (?c + 1) = x + 2"
    using small assms(1) by (simp add: unat_word_ariths)
  show ?thesis
  proof (cases "x + 2 = 0xFFFFFFFF")
    case True
    have "?c + 1 = 0xFFFFFFFF" by (rule word_unat_eq_iff [THEN iffD2]) (use u True in simp)
    then show ?thesis using True by (simp add: generateSessionId_def Let_def)
  next
    case False
    have "?c + 1 \<noteq> 0xFFFFFFFF"
    proof
      assume "?c + 1 = 0xFFFFFFFF"
      then have "unat (0xFFFFFFFF :: uint32) = x + 2" using u by (simp only:)
      then show False using False by simp
    qed
    moreover have "(x + 1) mod 0xFFFFFFFE = x + 1" using assms(2) False by simp
    ultimately show ?thesis using u by (simp add: generateSessionId_def Let_def)
  qed
qed

lemma gen_ids_mod:
  "unat (mSessionIdCounter a) = x + 1 \<Longrightarrow> x < 0xFFFFFFFE \<Longrightarrow>
     map unat (gen_ids n a) = map (\<lambda>j. (x + 1 + j) mod 0xFFFFFFFE + 1) [0..<n]"
proof (induction n arbitrary: a x)
  case (Suc n)
  let ?i = "fst (generateSessionId a)" and ?x = "(x + 1) mod 0xFFFFFFFE"
  note g = generate_mod [OF Suc.prems]
  have "map unat (gen_ids n (a\<lparr>mSessionIdCounter := ?i\<rparr>)) = map (\<lambda>j. (?x + 1 + j) mod 0xFFFFFFFE + 1) [0..<n]"
    by (rule Suc.IH) (use g in simp_all)
  also have "\<dots> = map (\<lambda>j. (x + 1 + Suc j) mod 0xFFFFFFFE + 1) [0..<n]"
  proof -
    have "(?x + (1 + j)) mod 0xFFFFFFFE = (x + 1 + (1 + j)) mod 0xFFFFFFFE" for j by (rule mod_add_left_eq)
    then have "(?x + 1 + j) mod 0xFFFFFFFE = (x + 1 + Suc j) mod 0xFFFFFFFE" for j by (simp only: add.assoc Suc_eq_plus1_left)
    then show ?thesis by (simp only:)
  qed
  finally have rest: "map unat (gen_ids n (a\<lparr>mSessionIdCounter := ?i\<rparr>)) = map (\<lambda>j. (x + 1 + Suc j) mod 0xFFFFFFFE + 1) [0..<n]" .
  have "gen_ids (Suc n) a = ?i # gen_ids n (a\<lparr>mSessionIdCounter := ?i\<rparr>)"
    using g by (metis (no_types, lifting) case_prod_conv gen_ids.simps(2))
  moreover have "[0..<Suc n] = 0 # map Suc [0..<n]" by (simp only: map_Suc_upt upt_conv_Cons zero_less_Suc)
  ultimately show ?case using g rest by (simp only: list.map map_map comp_def add_0_right)
qed simp

lemma mod_shift_inj:
  fixes j k N :: nat
  assumes "(x + j) mod N = (x + k) mod N" "j < N" "k < N"
  shows "j = k"
proof -
  have le: "k = j" if "(x + j) mod N = (x + k) mod N" "j \<le> k" "k < N" for j k
  proof -
    have "N dvd (x + k) - (x + j)" using mod_eq_dvd_iff_nat [of "x + j" "x + k" N] that by auto
    then have "N dvd k - j" by simp
    then show ?thesis using that dvd_imp_le [of N "k - j"] by (cases "k - j = 0") auto
  qed
  show ?thesis
  proof (cases "j \<le> k")
    case True
    from le [OF assms(1) this assms(3)] show ?thesis by (rule sym)
  next
    case False
    then have "k \<le> j" by simp
    from le [OF assms(1) [symmetric] this assms(2)] show ?thesis .
  qed
qed

text \<open>Any 4294967294 consecutive session identifiers are different, and none of them is 0 or
  0xFFFFFFFF, the values with a special meaning.\<close>

theorem gnss_session_ids_distinct:
  assumes "0 < mSessionIdCounter a" "mSessionIdCounter a < 0xFFFFFFFF" "n \<le> 0xFFFFFFFE"
  shows "distinct (gen_ids n a) \<and> 0 \<notin> set (gen_ids n a) \<and> 0xFFFFFFFF \<notin> set (gen_ids n a)"
proof -
  obtain x where x: "unat (mSessionIdCounter a) = x + 1" "x < 0xFFFFFFFE"
  proof -
    have "0 < unat (mSessionIdCounter a)" using assms(1) by (simp add: word_less_nat_alt)
    moreover have "unat (mSessionIdCounter a) < 0xFFFFFFFF" using assms(2) by (simp add: word_less_nat_alt)
    ultimately show ?thesis using that [of "unat (mSessionIdCounter a) - 1"] by simp
  qed
  note ids = gen_ids_mod [OF x, of n]
  have "inj_on (\<lambda>j. (x + 1 + j) mod 0xFFFFFFFE + 1) {0..<n}"
  proof (rule inj_onI)
    fix j k
    assume jk: "j \<in> {0..<n}" "k \<in> {0..<n}" "(x + 1 + j) mod 0xFFFFFFFE + 1 = (x + 1 + k) mod 0xFFFFFFFE + 1"
    then have "(x + 1 + j) mod 0xFFFFFFFE = (x + 1 + k) mod 0xFFFFFFFE" by simp
    moreover have "j < 0xFFFFFFFE" "k < 0xFFFFFFFE" using jk(1,2) assms(3) by auto
    ultimately show "j = k" by (rule mod_shift_inj)
  qed
  then have "distinct (map unat (gen_ids n a))" unfolding ids by (simp add: distinct_map)
  then have "distinct (gen_ids n a)" by (simp add: distinct_map)
  moreover have "0 < unat i \<and> unat i < 0xFFFFFFFF" if "i \<in> set (gen_ids n a)" for i
  proof -
    have "unat i \<in> set (map unat (gen_ids n a))" using that by simp
    then obtain j where "unat i = (x + 1 + j) mod 0xFFFFFFFE + 1" unfolding ids by auto
    moreover have "(x + 1 + j) mod 0xFFFFFFFE < 0xFFFFFFFE" by simp
    ultimately show ?thesis by linarith
  qed
  then have "0 \<notin> set (gen_ids n a) \<and> 0xFFFFFFFF \<notin> set (gen_ids n a)" by force
  ultimately show ?thesis by simp
qed

theorem gnss_session_ids_distinct_witness:
  "distinct (gen_ids 5 GnssAdapter) \<and> 0 \<notin> set (gen_ids 5 GnssAdapter) \<and> 0xFFFFFFFF \<notin> set (gen_ids 5 GnssAdapter)"
  by (rule gnss_session_ids_distinct) (simp_all add: GnssAdapter_def)

section \<open>What the multiplexer does not keep\<close>

text \<open>The positioning mode is not multiplexed: of two sessions with the same interval, when the one
  the engine was started for stops, the engine goes on in its mode, although the only session left
  asks for another.\<close>

theorem gnss_stop_leaves_stale_mode:
  assumes "mTrackingSessions a = [((i1, c1), o1), ((i2, c2), o2)]" "(i1, c1) \<noteq> (i2, c2)"
    and "minInterval o1 = minInterval o2" "opt_mode o1 \<noteq> opt_mode o2" "opt_size o2 \<noteq> 0"
    and "engine D (gnss_log a) = Some (fix_mode o1)"
  shows "let a' = proc_StopTracking env c1 i1 a in
    mTrackingSessions a' = [((i2, c2), o2)] \<and> engine D (gnss_log a') = Some (fix_mode o1) \<and> fix_mode o1 \<noteq> fix_mode o2"
proof -
  let ?b = "eraseTrackingSession c1 i1 a"
  have "stopTrackingMultiplex env c1 i1 a = (LOCATION_ERROR_SUCCESS, a)"
    using assms(1-3,5) by (auto simp: stopTrackingMultiplex_def zero_options_def Let_def)
  then have run: "proc_StopTracking env c1 i1 a = reportResponse c1 LOCATION_ERROR_SUCCESS i1 ?b"
    using assms(1) by (simp add: proc_StopTracking_def isTrackingSession_def)
  have "mTrackingSessions ?b = [((i2, c2), o2)]" "gnss_log ?b = gnss_log a"
    using assms(1) by (simp_all add: eraseTrackingSession_def)
  moreover have "fix_mode o1 \<noteq> fix_mode o2"
  proof -
    have "pos_mode (fix_mode o1) \<noteq> pos_mode (fix_mode o2)"
      using assms(4) by (cases "opt_mode o1"; cases "opt_mode o2") (simp_all add: convertOptions_def)
    then show ?thesis by auto
  qed
  ultimately show ?thesis
    using quiet_fields [OF quiet_response(1) [of ?b c1 LOCATION_ERROR_SUCCESS i1]] assms(6) by (simp add: run Let_def)
qed

definition two_modes :: gnss_adapter where
  "two_modes = GnssAdapter\<lparr>mTrackingSessions := [((2, 1), every_second),
       ((3, 1), every_second\<lparr>opt_mode := GNSS_SUPL_MODE_MSA\<rparr>)], gnss_log := [Api_startFix (fix_mode every_second) True]\<rparr>"

theorem gnss_stop_leaves_stale_mode_witness:
  "let a' = proc_StopTracking example_env 1 2 two_modes in
    mTrackingSessions a' = [((3, 1), every_second\<lparr>opt_mode := GNSS_SUPL_MODE_MSA\<rparr>)] \<and>
    engine_fix (gnss_log a') = Some (fix_mode every_second) \<and>
    fix_mode every_second \<noteq> fix_mode (every_second\<lparr>opt_mode := GNSS_SUPL_MODE_MSA\<rparr>)"
  by (rule gnss_stop_leaves_stale_mode) (simp_all add: two_modes_def every_second_def engine_def)

text \<open>A client whose stop the engine refuses is removed all the same: its session stays, and the engine
  goes on for a client that no longer exists.\<close>

lemma gnss_refused_stop_outlives_client:
  assumes "mTrackingSessions a = [((i, c), opts)]" "sm_ok (mClientData a)"
    and "\<And>n. \<not> ulp_takes_stop env n" "\<And>n. \<not> api_stop_ok env n"
  shows "\<exists>a'. gnss_proc env (MsgRemoveClient c) a = Some a' \<and> sm_find (mClientData a') c = None \<and>
    mTrackingSessions a' = [((i, c), opts)] \<and> engine D (gnss_log a') = engine D (gnss_log a)"
proof -
  obtain err b where b: "stopTracking env a = (err, b)" by fastforce
  have err: "err \<noteq> LOCATION_ERROR_SUCCESS" using b assms(3,4) by (auto simp: stopTracking_eq Let_def)
  have S: "mTrackingSessions b = mTrackingSessions a" "mClientData b = mClientData a" "engine D (gnss_log b) = engine D (gnss_log a)"
    using stopTracking_ok [OF b] only_log_fields err by auto
  have "stopClientSessions env c a = b"
    using assms(1) b err by (simp add: stopClientSessions_def stopTrackingMultiplex_def)
  moreover have "mTrackingSessions (eraseClient env c b) = mTrackingSessions b"
    "sm_find (mClientData (eraseClient env c b)) c = None"
    "engine D (gnss_log (eraseClient env c b)) = engine D (gnss_log b)"
    using sm_find_erase [OF assms(2), of c] S(2) engine_silent [of Api_updateEvtMask D "gnss_log b"]
    by (simp_all add: eraseClient_def updateClientsEventMask_def updateEvtMask_def Let_def silent_def)
  ultimately show ?thesis using S assms(1) by (simp add: gnss_proc_def)
qed

end
