(* ===== verification/GnssNi.thy ===== *)
theory GnssNi
  imports LocClient
begin

text \<open>
  Network-initiated location requests in \<open>gps/gnss/GnssAdapter.cpp\<close>: the modem asks for a
  position on behalf of the network, a client shows the request to the user, and a thread of its
  own waits for the answer or its absence. There are two sessions, one of them for emergencies.
  The message task and the waiting threads share the sessions. The threads hold the session's lock
  from their wake-up to the point where they have taken the request; the task looks at
  \<open>reqID\<close> and \<open>rawRequest\<close> without the lock and takes it only to write the answer. So the steps
  of the model are: one message up to its first lock, each locked region, and the two stretches of
  the thread after it has unlocked. Creating a thread succeeds; a wait may time out at any moment.
  A raw request is memory that is passed on by address; what is freed is listed in \<open>ni_freed\<close>.
\<close>

section \<open>Data\<close>

text \<open>The first constructor is the value 0 of a session that was never answered.\<close>

datatype GnssNiResponse =
    GNSS_NI_RESPONSE_ZERO
  | GNSS_NI_RESPONSE_ACCEPT
  | GNSS_NI_RESPONSE_DENY
  | GNSS_NI_RESPONSE_NO_RESPONSE
  | GNSS_NI_RESPONSE_IGNORE

record NiSession =
  respTimeLeft :: uint32
  respRecvd :: bool
  rawRequest :: ptr
  reqID :: uint32
  ni_resp :: GnssNiResponse

definition new_NiSession :: NiSession where
  "new_NiSession = \<lparr>respTimeLeft = 0, respRecvd = False, rawRequest = NULL, reqID = 0, ni_resp = GNSS_NI_RESPONSE_ZERO\<rparr>"

text \<open>A request for the modem to be told: response and raw request, if one is to be sent.\<close>

datatype ni_pc =
    NiStarted
  | NiWaiting
  | NiUnlocked "(GnssNiResponse \<times> ptr) option"
  | NiCleared "(GnssNiResponse \<times> ptr) option"
  | NiDone

datatype ni_msg =
    MsgReportNiNotify bool uint32 ptr
  | MsgGnssNiUserResponse ptr uint32 GnssNiResponse
  | MsgGnssNiResponse GnssNiResponse ptr

datatype ni_task_pc =
    TaskIdle
  | TaskIgnore ptr uint32 GnssNiResponse
  | TaskRespond bool ptr uint32 GnssNiResponse

text \<open>\<open>True\<close> selects the emergency session. \<open>ni_given\<close> lists all requests of the modem.\<close>

record ni_world =
  ni_session :: NiSession
  ni_sessionEs :: NiSession
  reqIDCounter :: uint32
  ni_clients :: "ptr list"
  ni_threads :: "(bool \<times> ni_pc) list"
  ni_queue :: "ni_msg list"
  ni_task :: ni_task_pc
  ni_notified :: "uint32 list"
  ni_answers :: "(ptr \<times> LocationError \<times> uint32) list"
  ni_informed :: "(GnssNiResponse \<times> ptr) list"
  ni_given :: "ptr list"
  ni_freed :: "ptr list"
  ni_lost :: "ptr list"

definition new_ni :: "ptr list \<Rightarrow> ni_world" where
  "new_ni clients = \<lparr>ni_session = new_NiSession, ni_sessionEs = new_NiSession, reqIDCounter = 0, ni_clients = clients,
     ni_threads = [], ni_queue = [], ni_task = TaskIdle, ni_notified = [], ni_answers = [], ni_informed = [],
     ni_given = [], ni_freed = [], ni_lost = []\<rparr>"

definition get_session :: "bool \<Rightarrow> ni_world \<Rightarrow> NiSession" where
  "get_session es w = (if es then ni_sessionEs w else ni_session w)"

definition put_session :: "bool \<Rightarrow> NiSession \<Rightarrow> ni_world \<Rightarrow> ni_world" where
  "put_session es s w = (if es then w\<lparr>ni_sessionEs := s\<rparr> else w\<lparr>ni_session := s\<rparr>)"

text \<open>\<open>free\<close> does nothing for NULL.\<close>

definition ni_free :: "ptr \<Rightarrow> ni_world \<Rightarrow> ni_world" where
  "ni_free p w = (if p = NULL then w else w\<lparr>ni_freed := ni_freed w @ [p]\<rparr>)"

definition ni_post :: "ni_msg \<Rightarrow> ni_world \<Rightarrow> ni_world" where
  "ni_post m w = w\<lparr>ni_queue := ni_queue w @ [m]\<rparr>"

definition ni_report :: "ptr \<Rightarrow> LocationError \<Rightarrow> uint32 \<Rightarrow> ni_world \<Rightarrow> ni_world" where
  "ni_report c err i w = w\<lparr>ni_answers := ni_answers w @ [(c, err, i)]\<rparr>"

section \<open>The message task\<close>

text \<open>A request is refused while one of its kind, or any emergency request, is being decided.\<close>

definition ni_busy :: "bool \<Rightarrow> ni_world \<Rightarrow> bool" where
  "ni_busy es w \<longleftrightarrow> (if es then rawRequest (ni_sessionEs w) \<noteq> NULL
     else rawRequest (ni_session w) \<noteq> NULL \<or> rawRequest (ni_sessionEs w) \<noteq> NULL)"

text \<open>\<open>LOC_NI_NO_RESPONSE_TIME\<close> is 20 seconds.\<close>

definition requestNiNotify :: "bool \<Rightarrow> uint32 \<Rightarrow> ptr \<Rightarrow> ni_world \<Rightarrow> ni_world" where
  "requestNiNotify es timeout raw w =
     (if ni_clients w = [] then w\<lparr>ni_lost := ni_lost w @ [raw]\<rparr>
      else if ni_busy es w then ni_free raw w
      else (let i = reqIDCounter w + 1;
                s = (get_session es w)\<lparr>rawRequest := raw, reqID := i,
                      respTimeLeft := 5 + (if timeout \<noteq> 0 then timeout else 20)\<rparr>;
                w = put_session es s (w\<lparr>reqIDCounter := i\<rparr>) in
            w\<lparr>ni_threads := ni_threads w @ [(es, NiStarted)], ni_notified := ni_notified w @ [i]\<rparr>))"

definition hasNiNotifyCallback :: "ptr \<Rightarrow> ni_world \<Rightarrow> bool" where
  "hasNiNotifyCallback c w \<longleftrightarrow> c \<in> set (ni_clients w)"

text \<open>The user's response up to the first lock.\<close>

definition user_response :: "ptr \<Rightarrow> uint32 \<Rightarrow> GnssNiResponse \<Rightarrow> ni_world \<Rightarrow> ni_world" where
  "user_response c i r w =
     (if \<not> hasNiNotifyCallback c w then ni_report c LOCATION_ERROR_ID_UNKNOWN i w
      else if i = reqID (ni_sessionEs w) \<and> rawRequest (ni_sessionEs w) \<noteq> NULL then
        (if r = GNSS_NI_RESPONSE_ACCEPT \<and> rawRequest (ni_session w) \<noteq> NULL
         then w\<lparr>ni_task := TaskIgnore c i r\<rparr> else w\<lparr>ni_task := TaskRespond True c i r\<rparr>)
      else if i = reqID (ni_session w) \<and> rawRequest (ni_session w) \<noteq> NULL then w\<lparr>ni_task := TaskRespond False c i r\<rparr>
      else ni_report c LOCATION_ERROR_ID_UNKNOWN i w)"

text \<open>The locked regions of the response.\<close>

definition write_response :: "bool \<Rightarrow> GnssNiResponse \<Rightarrow> ni_world \<Rightarrow> ni_world" where
  "write_response es r w = put_session es ((get_session es w)\<lparr>ni_resp := r, respRecvd := True\<rparr>) w"

definition ni_task_step :: "ni_world \<Rightarrow> ni_world" where
  "ni_task_step w =
     (case ni_task w of
        TaskIdle \<Rightarrow>
          (case ni_queue w of
             [] \<Rightarrow> w
           | m # ms \<Rightarrow>
               (let w = w\<lparr>ni_queue := ms\<rparr> in
                case m of
                  MsgReportNiNotify es timeout raw \<Rightarrow> requestNiNotify es timeout raw w
                | MsgGnssNiUserResponse c i r \<Rightarrow> user_response c i r w
                | MsgGnssNiResponse r raw \<Rightarrow> ni_free raw (w\<lparr>ni_informed := ni_informed w @ [(r, raw)]\<rparr>)))
      | TaskIgnore c i r \<Rightarrow> (write_response False GNSS_NI_RESPONSE_IGNORE w)\<lparr>ni_task := TaskRespond True c i r\<rparr>
      | TaskRespond es c i r \<Rightarrow> ni_report c LOCATION_ERROR_SUCCESS i ((write_response es r w)\<lparr>ni_task := TaskIdle\<rparr>))"

section \<open>The waiting thread\<close>

definition set_pc :: "nat \<Rightarrow> ni_pc \<Rightarrow> ni_world \<Rightarrow> ni_world" where
  "set_pc k pc w = w\<lparr>ni_threads := (ni_threads w)[k := (fst (ni_threads w ! k), pc)]\<rparr>"

text \<open>From the end of the wait to the unlock.\<close>

definition ni_take :: "nat \<Rightarrow> bool \<Rightarrow> ni_world \<Rightarrow> ni_world" where
  "ni_take k es w =
     (let s = (get_session es w)\<lparr>respRecvd := False\<rparr> in
      if rawRequest s \<noteq> NULL then
        (if ni_resp s \<noteq> GNSS_NI_RESPONSE_IGNORE then
           set_pc k (NiUnlocked (Some (ni_resp s, rawRequest s))) (put_session es (s\<lparr>rawRequest := NULL\<rparr>) w)
         else set_pc k (NiUnlocked None) (ni_free (rawRequest s) (put_session es (s\<lparr>rawRequest := NULL\<rparr>) w)))
      else set_pc k (NiUnlocked None) (put_session es s w))"

text \<open>One step of thread \<open>k\<close>; \<open>timed_out\<close> is the result of the wait.\<close>

definition niThreadProc :: "nat \<Rightarrow> bool \<Rightarrow> ni_world \<Rightarrow> ni_world" where
  "niThreadProc k timed_out w =
     (if k < length (ni_threads w) then
        (case ni_threads w ! k of (es, pc) \<Rightarrow>
          (case pc of
             NiStarted \<Rightarrow> if respRecvd (get_session es w) then ni_take k es w else set_pc k NiWaiting w
           | NiWaiting \<Rightarrow>
               if timed_out then
                 ni_take k es (put_session es ((get_session es w)\<lparr>ni_resp := GNSS_NI_RESPONSE_NO_RESPONSE\<rparr>) w)
               else if respRecvd (get_session es w) then ni_take k es w else w
           | NiUnlocked send \<Rightarrow>
               set_pc k (NiCleared send) (put_session es ((get_session es w)\<lparr>respTimeLeft := 0, reqID := 0\<rparr>) w)
           | NiCleared send \<Rightarrow>
               set_pc k NiDone (case send of None \<Rightarrow> w | Some (r, raw) \<Rightarrow> ni_post (MsgGnssNiResponse r raw) w)
           | NiDone \<Rightarrow> w))
      else w)"

section \<open>Histories\<close>

text \<open>\<open>N_clients\<close>: clients with a callback for network requests come and go.\<close>

datatype ni_act =
    N_request bool uint32 ptr
  | N_respond ptr uint32 GnssNiResponse
  | N_task
  | N_thread nat bool
  | N_clients "ptr list"

definition requestNiNotifyEvent :: "bool \<Rightarrow> uint32 \<Rightarrow> ptr \<Rightarrow> ni_world \<Rightarrow> ni_world" where
  "requestNiNotifyEvent es timeout raw w = ni_post (MsgReportNiNotify es timeout raw) (w\<lparr>ni_given := ni_given w @ [raw]\<rparr>)"

definition gnssNiResponseCommand :: "ptr \<Rightarrow> uint32 \<Rightarrow> GnssNiResponse \<Rightarrow> ni_world \<Rightarrow> ni_world" where
  "gnssNiResponseCommand c i r w = ni_post (MsgGnssNiUserResponse c i r) w"

fun ni_do :: "ni_act \<Rightarrow> ni_world \<Rightarrow> ni_world" where
  "ni_do (N_request es timeout raw) w = requestNiNotifyEvent es timeout raw w"
| "ni_do (N_respond c i r) w = gnssNiResponseCommand c i r w"
| "ni_do N_task w = ni_task_step w"
| "ni_do (N_thread k timed_out) w = niThreadProc k timed_out w"
| "ni_do (N_clients cs) w = w\<lparr>ni_clients := cs\<rparr>"

definition ni_run :: "ni_act list \<Rightarrow> ni_world \<Rightarrow> ni_world" where
  "ni_run xs w = fold ni_do xs w"

section \<open>Where every request is\<close>

abbreviation opt_raw :: "ptr \<Rightarrow> ptr list" where
  "opt_raw p \<equiv> (if p = NULL then [] else [p])"

fun pc_raw :: "ni_pc \<Rightarrow> ptr list" where
  "pc_raw (NiUnlocked (Some (r, raw))) = opt_raw raw"
| "pc_raw (NiCleared (Some (r, raw))) = opt_raw raw"
| "pc_raw _ = []"

fun msg_raw :: "ni_msg \<Rightarrow> ptr list" where
  "msg_raw (MsgReportNiNotify es timeout raw) = opt_raw raw"
| "msg_raw (MsgGnssNiUserResponse c i r) = []"
| "msg_raw (MsgGnssNiResponse r raw) = opt_raw raw"

text \<open>The requests in a session, in a thread's hands, in a message, freed, or lost.\<close>

definition held :: "ni_world \<Rightarrow> ptr multiset" where
  "held w = mset (opt_raw (rawRequest (ni_session w))) + mset (opt_raw (rawRequest (ni_sessionEs w))) +
     mset (concat (map (pc_raw \<circ> snd) (ni_threads w))) + mset (concat (map msg_raw (ni_queue w)))"

definition accounted :: "ni_world \<Rightarrow> bool" where
  "accounted w \<longleftrightarrow> mset (filter (\<lambda>p. p \<noteq> NULL) (ni_given w)) =
     held w + mset (ni_freed w) + mset (filter (\<lambda>p. p \<noteq> NULL) (ni_lost w))"

lemma concat_update:
  assumes "k < length xs"
  shows "mset (concat (map f (xs[k := y]))) + mset (f (xs ! k)) = mset (concat (map f xs)) + mset (f y)"
proof -
  have xs: "xs = take k xs @ xs ! k # drop (Suc k) xs" using assms by (rule id_take_nth_drop)
  have "xs[k := y] = take k xs @ y # drop (Suc k) xs" using assms by (rule upd_conv_take_nth_drop)
  then have "mset (concat (map f (xs[k := y]))) = mset (concat (map f (take k xs))) + mset (f y) + mset (concat (map f (drop (Suc k) xs)))"
    by simp
  moreover have "mset (concat (map f xs)) = mset (concat (map f (take k xs))) + mset (f (xs ! k)) + mset (concat (map f (drop (Suc k) xs)))"
    by (subst (1) xs) simp
  ultimately show ?thesis by simp
qed

definition raws :: "ni_world \<Rightarrow> ptr multiset" where
  "raws w = mset (concat (map (pc_raw \<circ> snd) (ni_threads w)))"

lemma raws_set_pc:
  assumes "k < length (ni_threads w)"
  shows "raws (set_pc k pc w) + mset (pc_raw (snd (ni_threads w ! k))) = raws w + mset (pc_raw pc)"
  using concat_update [OF assms, of "pc_raw \<circ> snd" "(fst (ni_threads w ! k), pc)"] by (simp add: raws_def set_pc_def)

lemma set_pc_fields [simp]:
  "ni_session (set_pc k pc w) = ni_session w" "ni_sessionEs (set_pc k pc w) = ni_sessionEs w"
  "ni_queue (set_pc k pc w) = ni_queue w" "ni_given (set_pc k pc w) = ni_given w"
  "ni_freed (set_pc k pc w) = ni_freed w" "ni_lost (set_pc k pc w) = ni_lost w"
  "length (ni_threads (set_pc k pc w)) = length (ni_threads w)"
  by (simp_all add: set_pc_def)

lemma session_fields [simp]:
  "ni_threads (put_session es s w) = ni_threads w" "ni_queue (put_session es s w) = ni_queue w"
  "ni_given (put_session es s w) = ni_given w" "ni_freed (put_session es s w) = ni_freed w"
  "ni_lost (put_session es s w) = ni_lost w" "get_session es (put_session es s w) = s"
  "ni_threads (ni_free p w) = ni_threads w" "ni_queue (ni_free p w) = ni_queue w" "ni_given (ni_free p w) = ni_given w"
  "ni_lost (ni_free p w) = ni_lost w" "ni_session (ni_free p w) = ni_session w" "ni_sessionEs (ni_free p w) = ni_sessionEs w"
  "mset (ni_freed (ni_free p w)) = mset (ni_freed w) + mset (opt_raw p)"
  by (simp_all add: put_session_def get_session_def ni_free_def)

lemma raws_cong [simp]: "raws (put_session es s w) = raws w" "raws (ni_free p w) = raws w"
  by (simp_all add: raws_def)

definition in_sessions :: "ni_world \<Rightarrow> ptr multiset" where
  "in_sessions w = mset (opt_raw (rawRequest (ni_session w))) + mset (opt_raw (rawRequest (ni_sessionEs w)))"

lemma in_sessions_put:
  "in_sessions (put_session es s w) + mset (opt_raw (rawRequest (get_session es w))) = in_sessions w + mset (opt_raw (rawRequest s))"
  by (simp add: in_sessions_def put_session_def get_session_def)

lemma in_sessions_same: "rawRequest s = rawRequest (get_session es w) \<Longrightarrow> in_sessions (put_session es s w) = in_sessions w"
  by (auto simp: in_sessions_def put_session_def get_session_def)

lemma in_sessions_cong [simp]: "in_sessions (set_pc k pc w) = in_sessions w" "in_sessions (ni_free p w) = in_sessions w"
  by (simp_all add: in_sessions_def)

lemma held_eq: "held w = in_sessions w + raws w + mset (concat (map msg_raw (ni_queue w)))"
  by (simp add: held_def in_sessions_def raws_def)

text \<open>Everything that exists, in one multiset.\<close>

definition total :: "ni_world \<Rightarrow> ptr multiset" where
  "total w = in_sessions w + raws w + mset (concat (map msg_raw (ni_queue w))) + mset (ni_freed w) +
     mset (filter (\<lambda>p. p \<noteq> NULL) (ni_lost w))"

lemma accounted_iff: "accounted w \<longleftrightarrow> mset (filter (\<lambda>p. p \<noteq> NULL) (ni_given w)) = total w"
  by (simp add: accounted_def total_def held_eq)

lemma take_total:
  assumes "k < length (ni_threads w)" "pc_raw (snd (ni_threads w ! k)) = []"
  shows "total (ni_take k es w) = total w \<and> ni_given (ni_take k es w) = ni_given w"
proof -
  let ?s = "(get_session es w)\<lparr>respRecvd := False\<rparr>"
  let ?w0 = "put_session es (?s\<lparr>rawRequest := NULL\<rparr>) w"
  have out: "in_sessions ?w0 + mset (opt_raw (rawRequest (get_session es w))) = in_sessions w"
    using in_sessions_put [of es "?s\<lparr>rawRequest := NULL\<rparr>" w] by simp
  have same: "in_sessions (put_session es ?s w) = in_sessions w" by (rule in_sessions_same) simp
  have pc: "raws (set_pc k pc v) = raws w + mset (pc_raw pc)"
    if "ni_threads v = ni_threads w" for pc v
    using raws_set_pc [of k v pc] assms that by (simp add: raws_def)
  show ?thesis
    by (cases "rawRequest (get_session es w) = NULL") (use out same in \<open>auto simp: ni_take_def Let_def total_def pc\<close>)
qed

lemma thread_total: "total (niThreadProc k timed_out w) = total w \<and> ni_given (niThreadProc k timed_out w) = ni_given w"
proof (cases "k < length (ni_threads w)")
  case k: True
  obtain es pc where th: "ni_threads w ! k = (es, pc)" by fastforce
  have keep: "total (put_session es s w) = total w" if "rawRequest s = rawRequest (get_session es w)" for s
    using in_sessions_same [OF that] by (simp add: total_def)
  have step: "total (set_pc k pc' v) + mset (pc_raw pc) = total v + mset (pc_raw pc')"
    if "ni_threads v ! k = (es, pc)" "k < length (ni_threads v)" for pc' v
    using raws_set_pc [OF that(2), of pc'] that(1) by (simp add: total_def add.assoc add.left_commute add.commute)
  show ?thesis
  proof (cases pc)
    case NiStarted
    then show ?thesis using take_total [OF k, of es] step [of w NiWaiting] th k
      by (simp add: niThreadProc_def)
  next
    case NiWaiting
    let ?v = "put_session es ((get_session es w)\<lparr>ni_resp := GNSS_NI_RESPONSE_NO_RESPONSE\<rparr>) w"
    have "total (ni_take k es ?v) = total ?v \<and> ni_given (ni_take k es ?v) = ni_given ?v"
      using take_total [of k ?v es] k th NiWaiting by simp
    then show ?thesis using take_total [OF k, of es] keep [of "(get_session es w)\<lparr>ni_resp := GNSS_NI_RESPONSE_NO_RESPONSE\<rparr>"] th k NiWaiting
      by (simp add: niThreadProc_def)
  next
    case (NiUnlocked send)
    let ?v = "put_session es ((get_session es w)\<lparr>respTimeLeft := 0, reqID := 0\<rparr>) w"
    have eq: "pc_raw (NiCleared send) = pc_raw (NiUnlocked send)" by (cases send) auto
    have "total (set_pc k (NiCleared send) ?v) = total ?v"
      using step [of ?v "NiCleared send"] th k NiUnlocked eq by simp
    then show ?thesis using keep [of "(get_session es w)\<lparr>respTimeLeft := 0, reqID := 0\<rparr>"] th k NiUnlocked
      by (simp add: niThreadProc_def)
  next
    case (NiCleared send)
    show ?thesis
    proof (cases send)
      case None
      then show ?thesis using step [of w NiDone] th k NiCleared by (simp add: niThreadProc_def)
    next
      case (Some rp)
      obtain r raw where rp: "rp = (r, raw)" by fastforce
      have "total (ni_post (MsgGnssNiResponse r raw) w) = total w + mset (opt_raw raw)"
        by (simp add: total_def ni_post_def in_sessions_def raws_def)
      then have "total (set_pc k NiDone (ni_post (MsgGnssNiResponse r raw) w)) = total w"
        using step [of "ni_post (MsgGnssNiResponse r raw) w" NiDone] th k NiCleared Some rp by (simp add: ni_post_def)
      then show ?thesis using th k NiCleared Some rp by (simp add: niThreadProc_def) (simp add: ni_post_def)
    qed
  qed (use th k in \<open>simp add: niThreadProc_def\<close>)
qed (simp add: niThreadProc_def)

lemma total_cong:
  "ni_session w' = ni_session w \<Longrightarrow> ni_sessionEs w' = ni_sessionEs w \<Longrightarrow> ni_threads w' = ni_threads w \<Longrightarrow>
     ni_queue w' = ni_queue w \<Longrightarrow> ni_freed w' = ni_freed w \<Longrightarrow> ni_lost w' = ni_lost w \<Longrightarrow> total w' = total w"
  by (simp add: total_def in_sessions_def raws_def)

lemma total_task [simp]: "total (w\<lparr>ni_task := t\<rparr>) = total w" "total (ni_report c err i w) = total w"
  by (rule total_cong; simp add: ni_report_def)+

lemma write_response_total: "total (write_response es r w) = total w"
  by (simp add: write_response_def total_def in_sessions_same)

lemma total_start:
  "total (w\<lparr>ni_threads := ni_threads w @ [(es, NiStarted)], ni_notified := ns\<rparr>) = total w"
  by (simp add: total_def in_sessions_def raws_def)

lemma request_total:
  "total (requestNiNotify es timeout raw w) = total w + mset (opt_raw raw) \<and> ni_given (requestNiNotify es timeout raw w) = ni_given w"
proof -
  let ?i = "reqIDCounter w + 1" and ?w1 = "w\<lparr>reqIDCounter := reqIDCounter w + 1\<rparr>"
  let ?s = "(get_session es w)\<lparr>rawRequest := raw, reqID := ?i, respTimeLeft := 5 + (if timeout \<noteq> 0 then timeout else 20)\<rparr>"
  consider "ni_clients w = []" | "ni_clients w \<noteq> []" "ni_busy es w" | "ni_clients w \<noteq> []" "\<not> ni_busy es w" by blast
  then show ?thesis
  proof cases
    case 1
    then show ?thesis by (simp add: requestNiNotify_def total_def in_sessions_def raws_def)
  next
    case 2
    have "requestNiNotify es timeout raw w = ni_free raw w"
      unfolding requestNiNotify_def by (simp only: 2 if_False if_True)
    then show ?thesis by (simp add: total_def)
  next
    case 3
    have empty: "rawRequest (get_session es w) = NULL" using 3(2) by (cases es) (simp_all add: get_session_def ni_busy_def)
    have put: "total (put_session es ?s ?w1) = total w + mset (opt_raw raw)"
    proof -
      have "in_sessions ?w1 = in_sessions w" "rawRequest (get_session es ?w1) = NULL"
        using empty by (cases es; simp add: in_sessions_def get_session_def)+
      then have "in_sessions (put_session es ?s ?w1) = in_sessions w + mset (opt_raw raw)"
        using in_sessions_put [of es ?s ?w1] by simp
      moreover have "raws ?w1 = raws w" by (simp add: raws_def)
      ultimately show ?thesis by (simp add: total_def)
    qed
    define v where "v = put_session es ?s ?w1"
    have "requestNiNotify es timeout raw w = v\<lparr>ni_threads := ni_threads v @ [(es, NiStarted)], ni_notified := ni_notified v @ [?i]\<rparr>"
      unfolding requestNiNotify_def Let_def v_def by (simp only: 3 if_False if_True)
    moreover have "ni_given v = ni_given w" by (simp add: v_def)
    moreover have "total v = total w + mset (opt_raw raw)" unfolding v_def by (rule put)
    ultimately show ?thesis using total_start [where w = v and es = es] by simp
  qed
qed

lemma task_total: "total (ni_task_step w) = total w \<and> ni_given (ni_task_step w) = ni_given w"
proof (cases "ni_task w")
  case TaskIdle
  show ?thesis
  proof (cases "ni_queue w")
    case Nil
    then show ?thesis using TaskIdle by (simp add: ni_task_step_def)
  next
    case (Cons m ms)
    let ?w = "w\<lparr>ni_queue := ms\<rparr>"
    have pop: "total w = total ?w + mset (msg_raw m)" using Cons by (simp add: total_def in_sessions_def raws_def)
    show ?thesis
    proof (cases m)
      case (MsgReportNiNotify es timeout raw)
      then show ?thesis using request_total [of es timeout raw ?w] TaskIdle Cons pop by (simp add: ni_task_step_def)
    next
      case (MsgGnssNiUserResponse c i r)
      have "total (user_response c i r ?w) = total ?w \<and> ni_given (user_response c i r ?w) = ni_given ?w"
        by (auto simp: user_response_def ni_report_def total_def in_sessions_def raws_def)
      then show ?thesis using MsgGnssNiUserResponse TaskIdle Cons pop by (simp add: ni_task_step_def)
    next
      case (MsgGnssNiResponse r raw)
      have "total (ni_free raw (?w\<lparr>ni_informed := ni_informed w @ [(r, raw)]\<rparr>)) = total ?w + mset (opt_raw raw)"
        by (simp add: total_def in_sessions_def raws_def)
      then show ?thesis using MsgGnssNiResponse TaskIdle Cons pop by (simp add: ni_task_step_def)
    qed
  qed
next
  case (TaskIgnore c i r)
  then show ?thesis by (simp add: ni_task_step_def write_response_total) (simp add: write_response_def)
next
  case (TaskRespond es c i r)
  then show ?thesis by (simp add: ni_task_step_def write_response_total) (simp add: write_response_def ni_report_def)
qed

lemma do_accounted: "accounted w \<Longrightarrow> accounted (ni_do x w)"
proof (cases x)
  case (N_request es timeout raw)
  assume "accounted w"
  then show ?thesis using N_request
    by (simp add: accounted_iff requestNiNotifyEvent_def ni_post_def total_def in_sessions_def raws_def)
next
  case (N_respond c i r)
  assume "accounted w"
  then show ?thesis using N_respond
    by (simp add: accounted_iff gnssNiResponseCommand_def ni_post_def total_def in_sessions_def raws_def)
next
  case (N_clients cs)
  assume "accounted w"
  then show ?thesis using N_clients by (simp add: accounted_iff total_def in_sessions_def raws_def)
qed (simp_all add: accounted_iff task_total thread_total)

lemma run_accounted: "accounted w \<Longrightarrow> accounted (ni_run xs w)"
  by (induction xs arbitrary: w) (simp_all add: ni_run_def do_accounted)

text \<open>With a client that shows requests, none is lost.\<close>

lemma clients_fields [simp]:
  "ni_clients (set_pc k pc w) = ni_clients w" "ni_clients (put_session es s w) = ni_clients w"
  "ni_clients (ni_free p w) = ni_clients w" "ni_clients (ni_report c err i w) = ni_clients w"
  "ni_clients (ni_post m w) = ni_clients w" "ni_lost (ni_report c err i w) = ni_lost w" "ni_lost (ni_post m w) = ni_lost w"
  by (simp_all add: set_pc_def put_session_def ni_free_def ni_report_def ni_post_def)

lemma take_kept: "ni_clients (ni_take k es w) = ni_clients w \<and> ni_lost (ni_take k es w) = ni_lost w"
  by (simp add: ni_take_def Let_def)

lemma thread_kept: "ni_clients (niThreadProc k t w) = ni_clients w \<and> ni_lost (niThreadProc k t w) = ni_lost w"
  by (simp add: niThreadProc_def take_kept split: prod.split ni_pc.split option.split)

lemma request_kept:
  "ni_clients w \<noteq> [] \<Longrightarrow> ni_clients (requestNiNotify es t raw w) = ni_clients w \<and> ni_lost (requestNiNotify es t raw w) = ni_lost w"
  by (simp add: requestNiNotify_def Let_def)

lemma task_kept:
  assumes "ni_clients w \<noteq> []"
  shows "ni_clients (ni_task_step w) = ni_clients w \<and> ni_lost (ni_task_step w) = ni_lost w"
  using assms by (simp add: ni_task_step_def Let_def request_kept user_response_def write_response_def
      split: ni_task_pc.split list.split ni_msg.split)

lemma do_kept:
  assumes "ni_clients w \<noteq> []" "x \<noteq> N_clients []"
  shows "ni_clients (ni_do x w) \<noteq> [] \<and> ni_lost (ni_do x w) = ni_lost w"
  using assms by (cases x) (simp_all add: task_kept thread_kept requestNiNotifyEvent_def gnssNiResponseCommand_def)

lemma run_kept: "ni_clients w \<noteq> [] \<Longrightarrow> N_clients [] \<notin> set xs \<Longrightarrow> ni_lost (ni_run xs w) = ni_lost w"
proof (induction xs arbitrary: w)
  case (Cons x xs)
  have "ni_clients (ni_do x w) \<noteq> []" "ni_lost (ni_do x w) = ni_lost w" using do_kept [of w x] Cons.prems by auto
  then show ?case using Cons.IH [of "ni_do x w"] Cons.prems(2) by (simp add: ni_run_def)
qed (simp add: ni_run_def)

lemma distinct_parts:
  assumes "mset xs = M + mset ys" "distinct xs"
  shows "distinct ys \<and> (\<forall>y. y \<in> set ys \<longrightarrow> y \<notin># M)"
proof -
  obtain zs where zs: "M = mset zs" using ex_mset by metis
  then have "mset xs = mset (zs @ ys)" using assms(1) by simp
  then have "distinct (zs @ ys)" using assms(2) mset_eq_imp_distinct_iff by metis
  then show ?thesis using zs by auto
qed

section \<open>Properties\<close>

text \<open>
  C11: Whatever the modem, the user, the clients, the message task and the waiting threads do, and
  however their steps interleave, every network request is in exactly one place: a session, a thread's
  hands, a message, freed, or lost. If the modem hands out different addresses, nothing is freed twice
  and nothing freed or lost is still held. What is lost is memory that is neither passed on nor
  freed; nothing is lost if there is a client that shows requests at all times.\<close>

theorem ni_requests_accounted:
  assumes "distinct (filter (\<lambda>p. p \<noteq> NULL) (ni_given (ni_run xs (new_ni clients))))"
  shows "let w = ni_run xs (new_ni clients); lost = filter (\<lambda>p. p \<noteq> NULL) (ni_lost w) in
     mset (filter (\<lambda>p. p \<noteq> NULL) (ni_given w)) = held w + mset (ni_freed w) + mset lost
     \<and> distinct (ni_freed w @ lost) \<and> (\<forall>p. p \<in> set (ni_freed w @ lost) \<longrightarrow> p \<notin># held w)
     \<and> (clients \<noteq> [] \<and> N_clients [] \<notin> set xs \<longrightarrow> lost = [])"
proof -
  let ?w = "ni_run xs (new_ni clients)"
  let ?lost = "filter (\<lambda>p. p \<noteq> NULL) (ni_lost ?w)"
  have "accounted (new_ni clients)"
    by (simp add: accounted_def held_def new_ni_def new_NiSession_def)
  then have "accounted ?w" by (rule run_accounted)
  then have eq: "mset (filter (\<lambda>p. p \<noteq> NULL) (ni_given ?w)) = held ?w + mset (ni_freed ?w @ ?lost)"
    by (simp add: accounted_def)
  have "?lost = []" if "clients \<noteq> []" "N_clients [] \<notin> set xs"
    using run_kept [of "new_ni clients" xs] that by (simp add: new_ni_def)
  then show ?thesis using distinct_parts [OF eq assms] eq by (simp add: Let_def)
qed

lemma ni_requests_accounted_witness:
  "ni_freed (ni_run [N_request True 0 100, N_request False 0 200, N_task, N_task, N_respond 7 1 GNSS_NI_RESPONSE_ACCEPT,
      N_task, N_task, N_thread 0 False, N_thread 0 False, N_thread 0 False, N_task] (new_ni [7])) = [200, 100]
   \<and> distinct (ni_freed (ni_run [N_request True 0 100, N_request False 0 200, N_task, N_task, N_respond 7 1 GNSS_NI_RESPONSE_ACCEPT,
      N_task, N_task, N_thread 0 False, N_thread 0 False, N_thread 0 False, N_task] (new_ni [7])))"
  using ni_requests_accounted [of "[N_request True 0 100, N_request False 0 200, N_task, N_task,
      N_respond 7 1 GNSS_NI_RESPONSE_ACCEPT, N_task, N_task, N_thread 0 False, N_thread 0 False, N_thread 0 False, N_task]" "[7]"]
  by (intro conjI) (simp_all add: ni_run_def new_ni_def requestNiNotifyEvent_def gnssNiResponseCommand_def ni_post_def
      ni_task_step_def requestNiNotify_def ni_busy_def new_NiSession_def ni_free_def get_session_def put_session_def Let_def
      user_response_def hasNiNotifyCallback_def write_response_def ni_report_def niThreadProc_def ni_take_def set_pc_def)

text \<open>
  The message task looks at a session without its lock. If the waiting thread gives up and
  takes the request in between, the user's late answer \<open>r\<close> stays in the session, and the next
  request of the network is answered with it by its thread's first step: no user has seen it.\<close>

theorem ni_late_answer_decides_next_request:
  assumes "ni_task w = TaskRespond False c i r" "rawRequest (ni_session w) = NULL" "rawRequest (ni_sessionEs w) = NULL"
    and "ni_queue w = []" "ni_clients w \<noteq> []" "r \<noteq> GNSS_NI_RESPONSE_IGNORE" "raw \<noteq> NULL"
  shows "ni_threads (ni_run [N_task, N_request False t raw, N_task, N_thread (length (ni_threads w)) False] w) =
     ni_threads w @ [(False, NiUnlocked (Some (r, raw)))]"
  using assms by (simp add: ni_run_def ni_task_step_def write_response_def ni_report_def put_session_def get_session_def
      requestNiNotifyEvent_def ni_post_def requestNiNotify_def ni_busy_def Let_def niThreadProc_def ni_take_def set_pc_def)

lemma ni_late_answer_decides_next_request_witness:
  "ni_threads (ni_run [N_task, N_request False 0 200, N_task, N_thread 1 False]
      (ni_run [N_request False 0 100, N_task, N_thread 0 False, N_respond 7 1 GNSS_NI_RESPONSE_ACCEPT, N_task, N_thread 0 True] (new_ni [7]))) =
     [(False, NiUnlocked (Some (GNSS_NI_RESPONSE_NO_RESPONSE, 100))), (False, NiUnlocked (Some (GNSS_NI_RESPONSE_ACCEPT, 200)))]"
proof -
  define w where "w = ni_run [N_request False 0 100, N_task, N_thread 0 False, N_respond 7 1 GNSS_NI_RESPONSE_ACCEPT,
      N_task, N_thread 0 True] (new_ni [7])"
  have "w = \<lparr>ni_session = \<lparr>respTimeLeft = 25, respRecvd = False, rawRequest = NULL, reqID = 1, ni_resp = GNSS_NI_RESPONSE_NO_RESPONSE\<rparr>,
      ni_sessionEs = new_NiSession, reqIDCounter = 1, ni_clients = [7],
      ni_threads = [(False, NiUnlocked (Some (GNSS_NI_RESPONSE_NO_RESPONSE, 100)))], ni_queue = [],
      ni_task = TaskRespond False 7 1 GNSS_NI_RESPONSE_ACCEPT, ni_notified = [1], ni_answers = [], ni_informed = [],
      ni_given = [100], ni_freed = [], ni_lost = []\<rparr>"
    by (simp add: w_def ni_run_def new_ni_def requestNiNotifyEvent_def gnssNiResponseCommand_def ni_post_def
      ni_task_step_def requestNiNotify_def ni_busy_def new_NiSession_def get_session_def put_session_def Let_def
      user_response_def hasNiNotifyCallback_def niThreadProc_def ni_take_def set_pc_def)
  moreover from this have "ni_threads (ni_run [N_task, N_request False 0 200, N_task, N_thread (length (ni_threads w)) False] w) =
      ni_threads w @ [(False, NiUnlocked (Some (GNSS_NI_RESPONSE_ACCEPT, 200)))]"
    by (intro ni_late_answer_decides_next_request) (simp_all add: new_NiSession_def)
  ultimately show ?thesis by (simp add: w_def [symmetric])
qed

end
