(* ===== verification/MiscUtils.thy ===== *)
theory MiscUtils
  imports Prelude
begin

text \<open>
  \<open>gps/utils/loc_misc_utils.cpp\<close>: the two string functions of the configuration reader, which
  work in place on a character buffer. The buffer is a list of characters; reading beyond its end
  is a fault (\<open>None\<close>), a pointer into it is an index. A NULL buffer is \<open>None\<close> as an argument. The
  characters of \<open>isspace\<close> are those of the C locale.
\<close>

section \<open>C strings\<close>

abbreviation NUL :: char where
  "NUL \<equiv> CHR 0x00"

definition c_isspace :: "char \<Rightarrow> bool" where
  "c_isspace c \<longleftrightarrow> of_char c \<in> {0x20, 0x09, 0x0A, 0x0B, 0x0C, 0x0D :: nat}"

text \<open>The string a pointer stands for.\<close>

definition c_string :: "char list \<Rightarrow> string" where
  "c_string buf = takeWhile (\<lambda>c. c \<noteq> NUL) buf"

fun strlen :: "char list \<Rightarrow> nat option" where
  "strlen [] = None"
| "strlen (c # cs) = (if c = NUL then Some 0 else map_option Suc (strlen cs))"

section \<open>Splitting\<close>

text \<open>The loop, with the pointers set so far, the last of them that of the current substring.\<close>

function split_loop :: "nat \<Rightarrow> int \<Rightarrow> char \<Rightarrow> nat \<Rightarrow> char list \<Rightarrow> nat list \<Rightarrow> nat \<Rightarrow> nat \<times> char list \<times> nat list" where
  "split_loop len max_num delimiter i buf ptrs num =
     (if i < len then
        (let end_string = (buf ! i = NUL) in
         if buf ! i = delimiter \<or> end_string then
           (let buf = buf[i := NUL]; num = num + 1 in
            if i + 1 < len \<and> int num < max_num then
              (if end_string then (num, buf, ptrs @ [i + 1])
               else split_loop len max_num delimiter (i + 1) buf (ptrs @ [i + 1]) num)
            else (num, buf, ptrs))
         else split_loop len max_num delimiter (i + 1) buf ptrs num)
      else (num, buf, ptrs))"
  by pat_completeness auto
termination by (relation "measure (\<lambda>(len, _, _, i, _). len - i)") auto

declare split_loop.simps [simp del]

text \<open>The result is the return value, the buffer and the pointers. A NULL argument returns -1.\<close>

definition loc_util_split_string ::
  "char list option \<Rightarrow> bool \<Rightarrow> int \<Rightarrow> char \<Rightarrow> (int \<times> char list option \<times> nat list) option" where
  "loc_util_split_string raw_string have_ptrs max_num_substrings delimiter =
     (case raw_string of
        None \<Rightarrow> Some (-1, None, [])
      | Some buf \<Rightarrow>
          if \<not> have_ptrs then Some (-1, Some buf, [])
          else do {
            n \<leftarrow> strlen buf;
            let (num, buf, ptrs) = split_loop (n + 1) max_num_substrings delimiter 0 buf [0] 0;
            Some (int num, Some buf, ptrs)
          })"

section \<open>Trimming\<close>

text \<open>The scan; \<open>w\<close> is the write pointer, \<open>last\<close> the position after the last non-space written.\<close>

function trim_loop :: "nat \<Rightarrow> nat \<Rightarrow> bool \<Rightarrow> nat option \<Rightarrow> char list \<Rightarrow> (nat option \<times> char list) option" where
  "trim_loop i w first last_ns buf =
     (if i < length buf then
        (if buf ! i = NUL then Some (last_ns, buf)
         else
           (let c = buf ! i; first = (first \<or> \<not> c_isspace c) in
            if first then trim_loop (i + 1) (w + 1) first (if \<not> c_isspace c then Some (w + 1) else last_ns) (buf[w := c])
            else trim_loop (i + 1) w first last_ns buf))
      else None)"
  by pat_completeness auto
termination by (relation "measure (\<lambda>(i, _, _, _, buf). length buf - i)") auto

declare trim_loop.simps [simp del]

definition loc_util_trim_space :: "char list option \<Rightarrow> char list option option" where
  "loc_util_trim_space org_string =
     (case org_string of
        None \<Rightarrow> Some None
      | Some buf \<Rightarrow> do {
          (last_ns, buf) \<leftarrow> trim_loop 0 0 False None buf;
          Some (Some (case last_ns of None \<Rightarrow> buf | Some l \<Rightarrow> buf[l := NUL]))
        })"

section \<open>What they compute\<close>

fun split_on :: "char \<Rightarrow> string \<Rightarrow> string list" where
  "split_on d [] = [[]]"
| "split_on d (c # cs) = (if c = d then [] # split_on d cs else (c # hd (split_on d cs)) # tl (split_on d cs))"

definition trim_spaces :: "string \<Rightarrow> string" where
  "trim_spaces s = rev (dropWhile c_isspace (rev (dropWhile c_isspace s)))"

lemma split_on_ne [simp]: "split_on d s \<noteq> []"
  by (cases s) simp_all

lemma c_string_append: "NUL \<notin> set s \<Longrightarrow> c_string (s @ NUL # r) = s"
  by (induction s) (auto simp: c_string_def)

lemma strlen_append: "NUL \<notin> set s \<Longrightarrow> strlen (s @ NUL # r) = Some (length s)"
  by (induction s) auto

text \<open>The loop inside a substring \<open>w\<close>, with \<open>t\<close> still to come.\<close>

lemma split_loop_ok:
  assumes "NUL \<notin> set t" "NUL \<notin> set w"
  shows "\<exists>buf' qs. split_loop (length pre + length w + length t + 1) n d (length pre + length w)
      (pre @ w @ t @ NUL # r) (ps @ [length pre]) (length ps) = (length ps + length qs, buf', ps @ qs) \<and>
    map (\<lambda>p. c_string (drop p buf')) qs = take (max 1 (nat (n - int (length ps)))) ((w @ hd (split_on d t)) # tl (split_on d t)) \<and>
    take (length pre) buf' = pre \<and> drop (length pre + length w + length t) buf' = NUL # r"
  using assms
proof (induction t arbitrary: w pre ps)
  case Nil
  have idx: "(pre @ w @ [] @ NUL # r) ! (length pre + length w) = NUL" by (simp add: nth_append)
  have upd: "(pre @ w @ [] @ NUL # r)[length pre + length w := NUL] = pre @ w @ NUL # r" by (simp add: list_update_append)
  have "c_string (drop (length pre) (pre @ w @ NUL # r)) = w" using Nil c_string_append by simp
  then show ?case
    using idx upd by (intro exI [of _ "pre @ w @ NUL # r"] exI [of _ "[length pre]"]) (simp add: split_loop.simps)
next
  case (Cons c t)
  let ?buf = "pre @ w @ (c # t) @ NUL # r" and ?i = "length pre + length w"
  have idx: "?buf ! ?i = c" by (simp add: nth_append)
  have c: "c \<noteq> NUL" "NUL \<notin> set t" using Cons.prems by auto
  show ?case
  proof (cases "c = d")
    case False
    have step: "split_loop (length pre + length w + length (c # t) + 1) n d ?i ?buf (ps @ [length pre]) (length ps) =
        split_loop (length pre + length (w @ [c]) + length t + 1) n d (length pre + length (w @ [c]))
          (pre @ (w @ [c]) @ t @ NUL # r) (ps @ [length pre]) (length ps)"
      using idx c False by (subst split_loop.simps) (simp add: Let_def)
    have "NUL \<notin> set (w @ [c])" using c Cons.prems by auto
    from Cons.IH [OF c(2) this, of pre ps] show ?thesis unfolding step using False by simp
  next
    case True
    let ?buf1 = "pre @ w @ NUL # t @ NUL # r"
    have upd: "?buf[?i := NUL] = ?buf1" by (simp add: list_update_append)
    have w: "c_string (w @ NUL # t @ NUL # r) = w" using Cons.prems c_string_append by simp
    show ?thesis
    proof (cases "int (length ps + 1) < n")
      case stop: False
      have "split_loop (length pre + length w + length (c # t) + 1) n d ?i ?buf (ps @ [length pre]) (length ps) =
          (length ps + 1, ?buf1, ps @ [length pre])"
        using idx c True stop upd by (subst split_loop.simps) (simp add: Let_def)
      moreover have "max 1 (nat (n - int (length ps))) = 1" using stop by simp
      ultimately show ?thesis using True w
        by (intro exI [of _ ?buf1] exI [of _ "[length pre]"]) simp
    next
      case go: True
      let ?pre = "pre @ w @ [NUL]" and ?ps = "ps @ [length pre]"
      have step: "split_loop (length pre + length w + length (c # t) + 1) n d ?i ?buf (ps @ [length pre]) (length ps) =
          split_loop (length ?pre + length ([] :: string) + length t + 1) n d (length ?pre + length ([] :: string))
            (?pre @ [] @ t @ NUL # r) (?ps @ [length ?pre]) (length ?ps)"
        using idx c True go upd by (subst split_loop.simps) (simp add: Let_def)
      obtain buf' qs where IH: "split_loop (length ?pre + length ([] :: string) + length t + 1) n d (length ?pre + length ([] :: string))
            (?pre @ [] @ t @ NUL # r) (?ps @ [length ?pre]) (length ?ps) = (length ?ps + length qs, buf', ?ps @ qs)"
        "map (\<lambda>p. c_string (drop p buf')) qs = take (max 1 (nat (n - int (length ?ps)))) (([] @ hd (split_on d t)) # tl (split_on d t))"
        "take (length ?pre) buf' = ?pre" "drop (length ?pre + length ([] :: string) + length t) buf' = NUL # r"
        using Cons.IH [OF c(2), of "[]" ?pre ?ps] by auto
      have buf': "buf' = pre @ w @ NUL # drop (length ?pre) buf'"
      proof -
        have "buf' = ?pre @ drop (length ?pre) buf'" using append_take_drop_id [of "length ?pre" buf'] IH(3) by (simp only:)
        then show ?thesis by simp
      qed
      have "drop (length pre) buf' = w @ NUL # drop (length ?pre) buf'"
        by (subst buf') simp
      then have first: "c_string (drop (length pre) buf') = w" using Cons.prems c_string_append by simp
      have k: "max 1 (nat (n - int (length ps))) = Suc (max 1 (nat (n - int (length ?ps))))" using go by auto
      have "map (\<lambda>p. c_string (drop p buf')) (length pre # qs) =
          take (max 1 (nat (n - int (length ps)))) ((w @ hd (split_on d (c # t))) # tl (split_on d (c # t)))"
        unfolding k using True first IH(2) by simp
      moreover have "take (length pre) buf' = pre" by (subst buf') simp
      moreover have "drop (length pre + length w + length (c # t)) buf' = NUL # r" using IH(4) by (simp add: add.assoc)
      ultimately show ?thesis unfolding step IH(1)
        by (intro exI [of _ buf'] exI [of _ "length pre # qs"]) simp
    qed
  qed
qed

text \<open>C31: Splitting a string in place gives the same substrings as splitting it by recursion on the
  string, up to the requested number of them (and one at least); what follows the string in the
  buffer is left alone.\<close>

theorem split_string_equivalent:
  assumes "NUL \<notin> set s"
  shows "\<exists>buf ptrs. loc_util_split_string (Some (s @ NUL # r)) True n d = Some (int (length ptrs), Some buf, ptrs) \<and>
    map (\<lambda>p. c_string (drop p buf)) ptrs = take (max 1 (nat n)) (split_on d s) \<and> drop (length s) buf = NUL # r"
proof -
  obtain buf qs where "split_loop (length s + 1) n d 0 (s @ NUL # r) [0] 0 = (length qs, buf, qs)"
    "map (\<lambda>p. c_string (drop p buf)) qs = take (max 1 (nat n)) (hd (split_on d s) # tl (split_on d s))"
    "drop (length s) buf = NUL # r"
    using split_loop_ok [OF assms, of "[]" "[]" n d r "[]"] by auto
  then show ?thesis using strlen_append [OF assms, of r]
    by (simp add: loc_util_split_string_def)
qed

theorem split_string_equivalent_witness:
  "\<exists>buf ptrs. loc_util_split_string (Some (''a,b,c'' @ NUL # [])) True 2 CHR '','' = Some (int (length ptrs), Some buf, ptrs) \<and>
    map (\<lambda>p. c_string (drop p buf)) ptrs = take (max 1 (nat 2)) (split_on CHR '','' ''a,b,c'') \<and>
    drop (length ''a,b,c'') buf = NUL # []"
  by (rule split_string_equivalent) simp

text \<open>
  The scan after \<open>p\<close>: nothing is written before the first non-space; from then on \<open>written\<close> is at
  the front of the buffer, and the rest of the string is still in its place.
\<close>

lemma trim_before:
  "NUL \<notin> set s \<Longrightarrow> buf = p @ s @ NUL # r \<Longrightarrow> \<forall>c \<in> set s. c_isspace c \<Longrightarrow>
     trim_loop (length p) 0 False None buf = Some (None, buf)"
proof (induction s arbitrary: p)
  case Nil
  then show ?case by (subst trim_loop.simps) simp
next
  case (Cons c s)
  have "trim_loop (length p) 0 False None buf = trim_loop (length (p @ [c])) 0 False None buf"
    using Cons.prems by (subst trim_loop.simps) (auto simp: Let_def)
  moreover have "trim_loop (length (p @ [c])) 0 False None buf = Some (None, buf)" by (rule Cons.IH) (use Cons.prems in auto)
  ultimately show ?case by simp
qed

definition last_ns_of :: "string \<Rightarrow> nat" where
  "last_ns_of w = length (rev (dropWhile c_isspace (rev w)))"

lemma last_ns_snoc: "last_ns_of (w @ [c]) = (if c_isspace c then last_ns_of w else Suc (length w))"
  by (simp add: last_ns_of_def)

lemma trim_after:
  "NUL \<notin> set s \<Longrightarrow> length written \<le> i \<Longrightarrow> take (length written) buf = written \<Longrightarrow> drop i buf = s @ NUL # r \<Longrightarrow>
     \<exists>buf'. trim_loop i (length written) True (Some (last_ns_of written)) buf = Some (Some (last_ns_of (written @ s)), buf') \<and>
       take (length (written @ s)) buf' = written @ s \<and> length buf' = length buf"
proof (induction s arbitrary: i written buf)
  case Nil
  have "i < length buf" "buf ! i = NUL" using Nil.prems(4) by (metis append_Nil drop_eq_Nil list.distinct(1) not_le)
      (metis Nil.prems(4) append_Nil drop_eq_Nil hd_drop_conv_nth list.distinct(1) list.sel(1) not_le)
  then show ?case using Nil.prems by (subst trim_loop.simps) simp
next
  case (Cons c s)
  have i: "i < length buf" using Cons.prems(4) by (metis append_Cons drop_eq_Nil list.distinct(1) not_le)
  have bi: "buf ! i = c" using Cons.prems(4) i by (metis append_Cons hd_drop_conv_nth list.sel(1))
  have c: "c \<noteq> NUL" "NUL \<notin> set s" using Cons.prems(1) by auto
  let ?w = "length written" and ?buf = "buf[length written := c]"
  have step: "trim_loop i ?w True (Some (last_ns_of written)) buf =
      trim_loop (i + 1) (length (written @ [c])) True (Some (last_ns_of (written @ [c]))) ?buf"
    using i bi c by (subst trim_loop.simps) (simp add: Let_def last_ns_snoc)
  have "take (length (written @ [c])) ?buf = written @ [c]"
    using Cons.prems(2,3) i by (simp add: take_Suc_conv_app_nth)
  moreover have "drop (i + 1) ?buf = s @ NUL # r"
  proof -
    have "drop (i + 1) ?buf = drop (i + 1) buf" using Cons.prems(2) by simp
    moreover have "drop (i + 1) buf = s @ NUL # r" using Cons.prems(4) by (metis Suc_eq_plus1 append_Cons drop_Suc list.sel(3) tl_drop)
    ultimately show ?thesis by simp
  qed
  ultimately obtain buf' where "trim_loop (i + 1) (length (written @ [c])) True (Some (last_ns_of (written @ [c]))) ?buf =
      Some (Some (last_ns_of ((written @ [c]) @ s)), buf')" "take (length ((written @ [c]) @ s)) buf' = (written @ [c]) @ s"
    "length buf' = length ?buf"
    using Cons.IH [OF c(2), of "written @ [c]" "i + 1" ?buf] Cons.prems(2) by auto
  then show ?case unfolding step by simp
qed

text \<open>Trimming a string in place gives the string without the spaces at its two ends, except that
  a string of nothing but spaces is left as it is.\<close>

theorem trim_space_equivalent:
  assumes "NUL \<notin> set s"
  shows "\<exists>buf. loc_util_trim_space (Some (s @ NUL # r)) = Some (Some buf) \<and> length buf = length (s @ NUL # r) \<and>
    c_string buf = (if \<forall>c \<in> set s. c_isspace c then s else trim_spaces s)"
proof (cases "\<forall>c \<in> set s. c_isspace c")
  case True
  then show ?thesis using trim_before [OF assms, of "s @ NUL # r" "[]" r] c_string_append [OF assms]
    by (simp add: loc_util_trim_space_def)
next
  case False
  obtain sp c t where s: "s = sp @ c # t" "\<forall>x \<in> set sp. c_isspace x" "\<not> c_isspace c"
    using False split_list_first_prop [of s "\<lambda>c. \<not> c_isspace c"] by blast
  let ?buf = "(s @ NUL # r)[0 := c]"
  have skip: "\<forall>x \<in> set q. c_isspace x \<Longrightarrow> NUL \<notin> set q \<Longrightarrow> s @ NUL # r = p @ q @ rest \<Longrightarrow>
      trim_loop (length p) 0 False None (s @ NUL # r) = trim_loop (length (p @ q)) 0 False None (s @ NUL # r)" for p q rest
  proof (induction q arbitrary: p)
    case (Cons x q)
    have "trim_loop (length p) 0 False None (s @ NUL # r) = trim_loop (length (p @ [x])) 0 False None (s @ NUL # r)"
      using Cons.prems by (subst trim_loop.simps) (auto simp: Let_def)
    also have "\<dots> = trim_loop (length ((p @ [x]) @ q)) 0 False None (s @ NUL # r)"
      by (rule Cons.IH) (use Cons.prems in auto)
    finally show ?case by simp
  qed simp
  have nul: "NUL \<notin> set sp" "c \<noteq> NUL" "NUL \<notin> set t" using assms s(1) by auto
  have "trim_loop 0 0 False None (s @ NUL # r) = trim_loop (length sp) 0 False None (s @ NUL # r)"
    using skip [OF s(2) nul(1), of "[]" "c # t @ NUL # r"] s(1) by simp
  also have "\<dots> = trim_loop (length sp + 1) (length [c]) True (Some (last_ns_of [c])) ?buf"
    using s nul by (subst trim_loop.simps) (simp add: Let_def last_ns_of_def nth_append)
  finally have start: "trim_loop 0 0 False None (s @ NUL # r) =
      trim_loop (length sp + 1) (length [c]) True (Some (last_ns_of [c])) ?buf" .
  have "take (length [c]) ?buf = [c]" using s(1) by (cases sp) simp_all
  moreover have "drop (length sp + 1) ?buf = t @ NUL # r" using s(1) by (cases sp) simp_all
  ultimately obtain buf' where run: "trim_loop 0 0 False None (s @ NUL # r) = Some (Some (last_ns_of (c # t)), buf')"
    "take (length (c # t)) buf' = c # t" "length buf' = length (s @ NUL # r)"
    using trim_after [OF nul(3), of "[c]" "length sp + 1" ?buf r] unfolding start by auto
  let ?l = "last_ns_of (c # t)"
  have drop_s: "dropWhile c_isspace s = c # t" using s by (simp add: dropWhile_append2)
  have le: "?l \<le> length (c # t)" by (simp add: last_ns_of_def) (metis length_Cons length_append_singleton length_dropWhile_le length_rev)
  have "take ?l buf' = take ?l (c # t)" using run(2) le by (metis min.absorb1 take_take)
  also have "\<dots> = trim_spaces s"
  proof -
    have "c # t = rev (dropWhile c_isspace (rev (c # t))) @ rev (takeWhile c_isspace (rev (c # t)))"
      by (metis rev_append rev_rev_ident takeWhile_dropWhile_id)
    then have "take ?l (c # t) = rev (dropWhile c_isspace (rev (c # t)))"
      unfolding last_ns_of_def by (metis append_eq_conv_conj)
    then show ?thesis by (simp add: trim_spaces_def drop_s)
  qed
  finally have l: "take ?l buf' = trim_spaces s" .
  have "?l < length buf'" using le run(3) s(1) by simp
  then have b: "buf'[?l := NUL] = trim_spaces s @ NUL # drop (Suc ?l) buf'" using l by (simp add: upd_conv_take_nth_drop)
  have "set (trim_spaces s) \<subseteq> set s"
  proof
    fix x
    assume "x \<in> set (trim_spaces s)"
    then have "x \<in> set (dropWhile c_isspace (rev (dropWhile c_isspace s)))" by (simp add: trim_spaces_def)
    then have "x \<in> set (dropWhile c_isspace s)" using set_dropWhileD by fastforce
    then show "x \<in> set s" using set_dropWhileD by fastforce
  qed
  then have "NUL \<notin> set (trim_spaces s)" using assms by blast
  then have "c_string (buf'[?l := NUL]) = trim_spaces s" unfolding b by (rule c_string_append)
  moreover have "(if \<forall>c \<in> set s. c_isspace c then s else trim_spaces s) = trim_spaces s" by (rule if_not_P [OF False])
  ultimately show ?thesis using run by (simp add: loc_util_trim_space_def del: if_cancel)
qed

theorem trim_space_equivalent_witness:
  "\<exists>buf. loc_util_trim_space (Some ('' ab '' @ NUL # [])) = Some (Some buf) \<and> length buf = length ('' ab '' @ NUL # []) \<and>
    c_string buf = (if \<forall>c \<in> set '' ab ''. c_isspace c then '' ab '' else trim_spaces '' ab '')"
  by (rule trim_space_equivalent) simp

end
