(* ===== verification/LocCfg.thy ===== *)
theory LocCfg
  imports MiscUtils
begin

text \<open>
  \<open>gps/utils/loc_cfg.cpp\<close>, first part: reading configuration files into the variables of a table.
  The variables are bytes of memory, because the reader writes strings without knowing how long the
  variable is; an \<open>int\<close> is four bytes, the least significant first. A file is the list of the
  characters that are still to be read. The width of \<open>long\<close> is an argument, and so are the bytes of
  the \<open>double\<close> that \<open>atof\<close> gives.
\<close>

unbundle bit_operations_syntax

section \<open>Memory\<close>

type_synonym memory = "nat \<Rightarrow> char"

definition poke :: "nat \<Rightarrow> char list \<Rightarrow> memory \<Rightarrow> memory" where
  "poke a cs mem = (\<lambda>x. if a \<le> x \<and> x < a + length cs then cs ! (x - a) else mem x)"

definition peek :: "nat \<Rightarrow> nat \<Rightarrow> memory \<Rightarrow> char list" where
  "peek a n mem = map mem [a..<a + n]"

text \<open>The C string at an address, in at most \<open>n\<close> bytes.\<close>

definition str_at :: "nat \<Rightarrow> nat \<Rightarrow> memory \<Rightarrow> string" where
  "str_at a n mem = c_string (peek a n mem)"

definition strlcpy :: "nat \<Rightarrow> string \<Rightarrow> nat \<Rightarrow> memory \<Rightarrow> memory" where
  "strlcpy dst src room mem = poke dst (take (room - 1) src @ [NUL]) mem"

definition int_bytes :: "32 word \<Rightarrow> char list" where
  "int_bytes w = map (\<lambda>i. char_of (uint (drop_bit (8 * i) w))) [0..<4]"

definition int_at :: "nat \<Rightarrow> memory \<Rightarrow> 32 word" where
  "int_at a mem = fold (\<lambda>i w. w OR push_bit (8 * i) (word_of_int (of_char (mem (a + i))))) [0..<4] 0"

section \<open>The standard library\<close>

definition strtok :: "char \<Rightarrow> string \<Rightarrow> (string \<times> string) option" where
  "strtok d s =
     (let s = dropWhile (\<lambda>c. c = d) s; t = takeWhile (\<lambda>c. c \<noteq> d) s in
      if s = [] then None else Some (t, drop (length t + 1) s))"

text \<open>The value of a digit in bases up to 36.\<close>

definition digit_value :: "char \<Rightarrow> nat" where
  "digit_value c =
     (let n = of_char c in
      if 0x30 \<le> n \<and> n \<le> 0x39 then n - 0x30
      else if 0x61 \<le> n \<and> n \<le> 0x7A then n - 0x61 + 10
      else if 0x41 \<le> n \<and> n \<le> 0x5A then n - 0x41 + 10 else 99)"

definition strtol :: "nat \<Rightarrow> string \<Rightarrow> nat \<Rightarrow> int" where
  "strtol bits s base =
     (let s = dropWhile c_isspace s;
          neg = (s \<noteq> [] \<and> hd s = CHR ''-'');
          s = (if s \<noteq> [] \<and> hd s \<in> {CHR ''-'', CHR ''+''} then tl s else s);
          s = (if base = 16 \<and> take 2 s \<in> {''0x'', ''0X''} \<and> length s > 2 \<and> digit_value (s ! 2) < 16 then drop 2 s else s);
          v = foldl (\<lambda>v c. int base * v + int (digit_value c)) 0 (takeWhile (\<lambda>c. digit_value c < base) s);
          v = (if neg then - v else v) in
      max (- (2 ^ (bits - 1))) (min (2 ^ (bits - 1) - 1) v))"

definition atoi :: "nat \<Rightarrow> string \<Rightarrow> 32 word" where
  "atoi bits s = word_of_int (strtol bits s 10)"

text \<open>\<open>fgets\<close> with a buffer of 160 bytes: a line with its newline, or its first 159 characters.\<close>

definition LOC_MAX_PARAM_STRING :: nat where "LOC_MAX_PARAM_STRING = 80"
definition LOC_MAX_PARAM_LINE :: nat where "LOC_MAX_PARAM_LINE = 160"

definition fgets :: "string \<Rightarrow> (string \<times> string) option" where
  "fgets file =
     (if file = [] then None
      else (let l = takeWhile (\<lambda>c. c \<noteq> CHR 0x0A) file; line = take (LOC_MAX_PARAM_LINE - 1) (l @ take 1 (drop (length l) file)) in
            Some (line, drop (length line) file)))"

section \<open>The table\<close>

record loc_param_s_type =
  param_name :: string
  param_ptr :: nat
  param_set :: nat
  param_type :: char

record loc_param_v_type =
  v_name :: string
  v_str_value :: string
  v_int_value :: "32 word"
  v_double_value :: "char list"

definition mark_set :: "loc_param_s_type \<Rightarrow> memory \<Rightarrow> memory" where
  "mark_set e mem = (if param_set e \<noteq> 0 then poke (param_set e) [CHR 0x01] mem else mem)"

text \<open>Whether the entry took the value, and the memory.\<close>

definition loc_set_config_entry :: "loc_param_s_type \<Rightarrow> loc_param_v_type \<Rightarrow> memory \<Rightarrow> bool \<times> memory" where
  "loc_set_config_entry e v mem =
     (if param_name e = v_name v \<and> param_ptr e \<noteq> 0 then
        (if param_type e = CHR ''s'' then
           (let mem = (if v_str_value v = ''NULL'' then poke (param_ptr e) [NUL] mem
                       else strlcpy (param_ptr e) (v_str_value v) (LOC_MAX_PARAM_STRING + 1) mem) in
            (True, mark_set e mem))
         else if param_type e = CHR ''n'' then (True, mark_set e (poke (param_ptr e) (int_bytes (v_int_value v)) mem))
         else if param_type e = CHR ''f'' then (True, mark_set e (poke (param_ptr e) (v_double_value v) mem))
         else (False, mem))
      else (False, mem))"

fun set_entries :: "loc_param_s_type list \<Rightarrow> loc_param_v_type \<Rightarrow> nat \<times> memory \<Rightarrow> nat \<times> memory" where
  "set_entries [] v (n, mem) = (n, mem)"
| "set_entries (e # es) v (n, mem) =
     (let (ok, mem) = loc_set_config_entry e v mem in set_entries es v (if ok then n + 1 else n, mem))"

text \<open>The trimmed token, which the tokenizer has ended with a NUL.\<close>

definition trimmed :: "string \<Rightarrow> string" where
  "trimmed t = (case loc_util_trim_space (Some (t @ [NUL])) of Some (Some buf) \<Rightarrow> c_string buf | _ \<Rightarrow> t)"

definition parse_value :: "nat \<Rightarrow> (string \<Rightarrow> char list) \<Rightarrow> string \<Rightarrow> string \<Rightarrow> loc_param_v_type" where
  "parse_value bits atof nm s =
     (if length s \<ge> 3 \<and> s ! 0 = CHR ''0'' \<and> s ! 1 \<in> {CHR ''x'', CHR ''X''} then
        \<lparr>v_name = nm, v_str_value = s, v_int_value = word_of_int (strtol bits (drop 2 s) 16), v_double_value = replicate 8 NUL\<rparr>
      else \<lparr>v_name = nm, v_str_value = s, v_int_value = atoi bits s, v_double_value = atof s\<rparr>)"

text \<open>The number of entries that took the value of the line.\<close>

definition loc_fill_conf_item :: "nat \<Rightarrow> (string \<Rightarrow> char list) \<Rightarrow> string \<Rightarrow> loc_param_s_type list \<Rightarrow> memory \<Rightarrow> nat \<times> memory" where
  "loc_fill_conf_item bits atof line tab mem =
     (case strtok CHR ''='' line of
        None \<Rightarrow> (0, mem)
      | Some (nm, rest) \<Rightarrow>
          (case strtok CHR ''='' rest of
             None \<Rightarrow> (0, mem)
           | Some (s, rest) \<Rightarrow> set_entries tab (parse_value bits atof (trimmed nm) (trimmed s)) (0, mem)))"

section \<open>Reading\<close>

definition clear_sets :: "loc_param_s_type list \<Rightarrow> memory \<Rightarrow> memory" where
  "clear_sets tab mem = fold (\<lambda>e mem. if param_set e \<noteq> 0 then poke (param_set e) [NUL] mem else mem) tab mem"

lemma fgets_less: "fgets file = Some (line, rest) \<Longrightarrow> length rest < length file"
  by (auto simp: fgets_def Let_def LOC_MAX_PARAM_LINE_def split: if_splits)

text \<open>\<open>num\<close> counts down from the number of entries, as an \<open>unsigned int\<close>.\<close>

function read_loop ::
  "nat \<Rightarrow> (string \<Rightarrow> char list) \<Rightarrow> loc_param_s_type list \<Rightarrow> 32 word \<Rightarrow> string \<Rightarrow> memory \<Rightarrow> string \<times> memory" where
  "read_loop bits atof tab num file mem =
     (if num = 0 then (file, mem)
      else (case fgets file of
              None \<Rightarrow> (file, mem)
            | Some (line, file) \<Rightarrow>
                (let (n, mem) = loc_fill_conf_item bits atof (c_string line) tab mem in
                 read_loop bits atof tab (num - word_of_nat n) file mem)))"
  by pat_completeness auto
termination by (relation "measure (\<lambda>(_, _, _, _, file, _). length file)") (auto dest: fgets_less)

declare read_loop.simps [simp del]

definition loc_read_conf_r ::
  "nat \<Rightarrow> (string \<Rightarrow> char list) \<Rightarrow> string option \<Rightarrow> loc_param_s_type list \<Rightarrow> memory \<Rightarrow> int \<times> string \<times> memory" where
  "loc_read_conf_r bits atof conf_fp tab mem =
     (case conf_fp of
        None \<Rightarrow> (-1, [], mem)
      | Some file \<Rightarrow> (0, read_loop bits atof tab (word_of_nat (length tab)) file (clear_sets tab mem)))"

lemma strtok_less: "strtok d s = Some (t, rest) \<Longrightarrow> length rest < length s"
proof -
  assume a: "strtok d s = Some (t, rest)"
  let ?s = "dropWhile (\<lambda>c. c = d) s"
  have "?s \<noteq> []" "rest = drop (length t + 1) ?s" using a by (auto simp: strtok_def Let_def split: if_splits)
  then have "length rest < length ?s" by simp
  then show ?thesis using length_dropWhile_le [of "\<lambda>c. c = d" s] by simp
qed

function update_loop ::
  "nat \<Rightarrow> (string \<Rightarrow> char list) \<Rightarrow> loc_param_s_type list \<Rightarrow> 32 word \<Rightarrow> int \<Rightarrow> string \<Rightarrow> memory \<Rightarrow> int \<times> memory" where
  "update_loop bits atof tab num ret s mem =
     (if num = 0 then (ret, mem)
      else (case strtok CHR 0x0A s of
              None \<Rightarrow> (ret, mem)
            | Some (line, s) \<Rightarrow>
                (let (n, mem) = loc_fill_conf_item bits atof line tab mem in
                 update_loop bits atof tab (num - word_of_nat n) (ret + 1) s mem)))"
  by pat_completeness auto
termination by (relation "measure (\<lambda>(_, _, _, _, _, s, _). length s)") (auto dest: strtok_less)

declare update_loop.simps [simp del]

text \<open>\<open>alloc\<close>: whether there is memory for the copy; copying beyond the data is a fault.\<close>

definition loc_update_conf ::
  "nat \<Rightarrow> (string \<Rightarrow> char list) \<Rightarrow> char list option \<Rightarrow> nat \<Rightarrow> bool \<Rightarrow> loc_param_s_type list \<Rightarrow> memory \<Rightarrow> (int \<times> memory) option" where
  "loc_update_conf bits atof conf_data len alloc tab mem =
     (case conf_data of
        None \<Rightarrow> Some (-1, mem)
      | Some data \<Rightarrow>
          if len \<noteq> 0 \<and> tab \<noteq> [] then
            (if \<not> alloc then Some (-1, mem)
             else if len > length data then None
             else Some (update_loop bits atof tab (word_of_nat (length tab) - 1) 0 (c_string (take len data @ [NUL])) mem))
          else Some (-1, mem))"

text \<open>The variables of the file itself, at the given address.\<close>

definition loc_param_table :: "nat \<Rightarrow> loc_param_s_type list" where
  "loc_param_table a =
     [\<lparr>param_name = ''DEBUG_LEVEL'', param_ptr = a, param_set = 0, param_type = CHR ''n''\<rparr>,
      \<lparr>param_name = ''TIMESTAMP'', param_ptr = a + 4, param_set = 0, param_type = CHR ''n''\<rparr>,
      \<lparr>param_name = ''LOC_MODEM_EMULATOR'', param_ptr = a + 8, param_set = 0, param_type = CHR ''n''\<rparr>]"

definition loc_modem_emulator_enabled :: "nat \<Rightarrow> memory \<Rightarrow> 32 word" where
  "loc_modem_emulator_enabled a mem = int_at (a + 8) mem"

text \<open>\<open>file\<close>: the contents, if the file can be opened; the second pass starts at its beginning again.\<close>

definition loc_read_conf ::
  "nat \<Rightarrow> (string \<Rightarrow> char list) \<Rightarrow> nat \<Rightarrow> string option \<Rightarrow> loc_param_s_type list \<Rightarrow> memory \<Rightarrow> memory" where
  "loc_read_conf bits atof a file tab mem =
     (case file of
        None \<Rightarrow> mem
      | Some f \<Rightarrow>
          (let mem = (if tab \<noteq> [] then snd (snd (loc_read_conf_r bits atof (Some f) tab mem)) else mem) in
           snd (snd (loc_read_conf_r bits atof (Some f) (loc_param_table a) mem))))"

end
