(* ===== verification/LocProcConf.thy ===== *)
theory LocProcConf
  imports LocCfg
begin

text \<open>
  \<open>gps/utils/loc_cfg.cpp\<close>, second part: which of the processes of a configuration file are launched,
  with which groups and arguments. The structure \<open>conf\<close>, which the tables write into, is 1292 bytes of
  memory at an address \<open>C\<close>; the strings that are split are split in this memory. The names of the
  platform, the group numbers and the contents of the files are the environment.
\<close>

section \<open>The structure and its tables\<close>

definition off_proc_name :: nat where "off_proc_name = 0"
definition off_proc_argument :: nat where "off_proc_argument = 80"
definition off_proc_status :: nat where "off_proc_status = 160"
definition off_group_list :: nat where "off_group_list = 240"
definition off_premium_feature :: nat where "off_premium_feature = 320"
definition off_loc_feature_mask :: nat where "off_loc_feature_mask = 324"
definition off_platform_list :: nat where "off_platform_list = 328"
definition off_baseband :: nat where "off_baseband = 408"
definition off_sglte_target :: nat where "off_sglte_target = 488"
definition off_gtp_cell_proc :: nat where "off_gtp_cell_proc = 492"
definition off_gtp_waa :: nat where "off_gtp_waa = 572"
definition off_gtp_cell :: nat where "off_gtp_cell = 652"
definition off_gtp_wifi :: nat where "off_gtp_wifi = 732"
definition off_sap :: nat where "off_sap = 812"
definition off_odcpi :: nat where "off_odcpi = 892"
definition off_free_wifi_scan_inject :: nat where "off_free_wifi_scan_inject = 972"
definition off_supl_wifi :: nat where "off_supl_wifi = 1052"
definition off_wifi_supplicant_info :: nat where "off_wifi_supplicant_info = 1132"
definition off_auto_platform :: nat where "off_auto_platform = 1212"
definition conf_bytes :: nat where "conf_bytes = 1292"

lemmas offsets = off_proc_name_def off_proc_argument_def off_proc_status_def off_group_list_def off_premium_feature_def
  off_loc_feature_mask_def off_platform_list_def off_baseband_def off_sglte_target_def off_gtp_cell_proc_def off_gtp_waa_def
  off_gtp_cell_def off_gtp_wifi_def off_sap_def off_odcpi_def off_free_wifi_scan_inject_def off_supl_wifi_def
  off_wifi_supplicant_info_def off_auto_platform_def conf_bytes_def

definition param :: "string \<Rightarrow> nat \<Rightarrow> char \<Rightarrow> loc_param_s_type" where
  "param n a ty = \<lparr>param_name = n, param_ptr = a, param_set = 0, param_type = ty\<rparr>"

definition gps_conf_parameter_table :: "nat \<Rightarrow> loc_param_s_type list" where
  "gps_conf_parameter_table C = [param ''SGLTE_TARGET'' (C + off_sglte_target) CHR ''n'']"

definition loc_feature_conf_table :: "nat \<Rightarrow> loc_param_s_type list" where
  "loc_feature_conf_table C =
     [param ''GTP_CELL_PROC'' (C + off_gtp_cell_proc) CHR ''s'',
      param ''GTP_CELL'' (C + off_gtp_cell) CHR ''s'',
      param ''GTP_WIFI'' (C + off_gtp_wifi) CHR ''s'',
      param ''GTP_WAA'' (C + off_gtp_waa) CHR ''s'',
      param ''SAP'' (C + off_sap) CHR ''s'',
      param ''ODCPI'' (C + off_odcpi) CHR ''s'',
      param ''FREE_WIFI_SCAN_INJECT'' (C + off_free_wifi_scan_inject) CHR ''s'',
      param ''SUPL_WIFI'' (C + off_supl_wifi) CHR ''s'',
      param ''WIFI_SUPPLICANT_INFO'' (C + off_wifi_supplicant_info) CHR ''s'']"

definition loc_process_conf_parameter_table :: "nat \<Rightarrow> loc_param_s_type list" where
  "loc_process_conf_parameter_table C =
     [param ''PROCESS_NAME'' (C + off_proc_name) CHR ''s'',
      param ''PROCESS_ARGUMENT'' (C + off_proc_argument) CHR ''s'',
      param ''PROCESS_STATE'' (C + off_proc_status) CHR ''s'',
      param ''PROCESS_GROUPS'' (C + off_group_list) CHR ''s'',
      param ''PREMIUM_FEATURE'' (C + off_premium_feature) CHR ''n'',
      param ''IZAT_FEATURE_MASK'' (C + off_loc_feature_mask) CHR ''n'',
      param ''PLATFORMS'' (C + off_platform_list) CHR ''s'',
      param ''BASEBAND'' (C + off_baseband) CHR ''s'',
      param ''HARDWARE_TYPE'' (C + off_auto_platform) CHR ''s'']"

text \<open>The string a field holds: it may run on into the fields behind.\<close>

definition conf_str :: "nat \<Rightarrow> nat \<Rightarrow> memory \<Rightarrow> string" where
  "conf_str C off mem = str_at (C + off) (conf_bytes - off) mem"

section \<open>The features\<close>

definition MASK_GTP_WIFI_BASIC :: "32 word" where "MASK_GTP_WIFI_BASIC = 0x01"
definition MASK_GTP_WIFI_PREMIUM :: "32 word" where "MASK_GTP_WIFI_PREMIUM = 0x02"
definition MASK_GTP_CELL_BASIC :: "32 word" where "MASK_GTP_CELL_BASIC = 0x04"
definition MASK_GTP_CELL_PREMIUM :: "32 word" where "MASK_GTP_CELL_PREMIUM = 0x08"
definition MASK_SAP_BASIC :: "32 word" where "MASK_SAP_BASIC = 0x40"
definition MASK_SAP_PREMIUM :: "32 word" where "MASK_SAP_PREMIUM = 0x80"
definition MASK_GTP_WAA_BASIC :: "32 word" where "MASK_GTP_WAA_BASIC = 0x100"
definition MASK_GTP_WAA_PREMIUM :: "32 word" where "MASK_GTP_WAA_PREMIUM = 0x200"
definition MASK_GTP_MODEM_CELL_BASIC :: "32 word" where "MASK_GTP_MODEM_CELL_BASIC = 0x400"
definition MASK_GTP_MODEM_CELL_PREMIUM :: "32 word" where "MASK_GTP_MODEM_CELL_PREMIUM = 0x800"
definition MASK_ODCPI :: "32 word" where "MASK_ODCPI = 0x1000"
definition MASK_FREE_WIFI_SCAN_INJECT :: "32 word" where "MASK_FREE_WIFI_SCAN_INJECT = 0x2000"
definition MASK_SUPL_WIFI :: "32 word" where "MASK_SUPL_WIFI = 0x4000"
definition MASK_WIFI_SUPPLICANT_INFO :: "32 word" where "MASK_WIFI_SUPPLICANT_INFO = 0x8000"

lemmas feature_masks = MASK_GTP_WIFI_BASIC_def MASK_GTP_WIFI_PREMIUM_def MASK_GTP_CELL_BASIC_def MASK_GTP_CELL_PREMIUM_def
  MASK_SAP_BASIC_def MASK_SAP_PREMIUM_def MASK_GTP_WAA_BASIC_def MASK_GTP_WAA_PREMIUM_def MASK_GTP_MODEM_CELL_BASIC_def
  MASK_GTP_MODEM_CELL_PREMIUM_def MASK_ODCPI_def MASK_FREE_WIFI_SCAN_INJECT_def MASK_SUPL_WIFI_def MASK_WIFI_SUPPLICANT_INFO_def

text \<open>The features that only can be on or off.\<close>

definition basic_feature :: "string \<Rightarrow> 32 word \<Rightarrow> 32 word \<Rightarrow> 32 word" where
  "basic_feature s bits m =
     (if s = ''BASIC'' then m OR bits else if s = ''DISABLED'' then m else if s = ''PREMIUM'' then m OR bits else m)"

definition service_mask :: "(nat \<Rightarrow> string) \<Rightarrow> 32 word" where
  "service_mask f =
     (let m = 0;
          m = (if f off_gtp_wifi = ''DISABLED'' then m
               else if f off_gtp_wifi = ''BASIC'' then m OR MASK_GTP_WIFI_BASIC
               else m OR MASK_GTP_WIFI_BASIC);
          ap = (f off_gtp_cell_proc = ''AP'');
          cell = (if ap then MASK_GTP_CELL_BASIC else MASK_GTP_MODEM_CELL_BASIC);
          m = (if f off_gtp_cell = ''PREMIUM'' then m OR cell
               else if f off_gtp_cell = ''BASIC'' then m OR cell
               else if f off_gtp_cell = ''DISABLED'' then m
               else m OR cell);
          m = (if f off_gtp_waa = ''PREMIUM'' then m OR MASK_GTP_WAA_BASIC
               else if f off_gtp_waa = ''BASIC'' then m OR MASK_GTP_WAA_BASIC
               else m);
          m = (if f off_sap = ''PREMIUM'' then m OR MASK_SAP_PREMIUM
               else if f off_sap = ''BASIC'' then m OR MASK_SAP_BASIC
               else if f off_sap = ''DISABLED'' then m
               else m OR MASK_SAP_BASIC);
          m = basic_feature (f off_odcpi) MASK_ODCPI m;
          m = basic_feature (f off_free_wifi_scan_inject) MASK_FREE_WIFI_SCAN_INJECT m;
          m = basic_feature (f off_supl_wifi) MASK_SUPL_WIFI m in
      basic_feature (f off_wifi_supplicant_info) MASK_WIFI_SUPPLICANT_INFO m)"

section \<open>Processes\<close>

datatype proc_state = ENABLED | RUNNING | DISABLED | DISABLED_FROM_CONF

record proc_info =
  proc_status :: proc_state
  proc_name :: string
  group_list :: "nat list"
  num_groups :: "8 word"
  args :: "string list"
  argumentString :: string

definition MAX_NUM_STRINGS :: nat where "MAX_NUM_STRINGS = 20"
definition LOC_PROCESS_MAX_NUM_GROUPS :: nat where "LOC_PROCESS_MAX_NUM_GROUPS = 20"
definition LOC_PROCESS_MAX_NUM_ARGS :: nat where "LOC_PROCESS_MAX_NUM_ARGS = 25"
definition LOC_PROCESS_MAX_ARG_STR_LENGTH :: nat where "LOC_PROCESS_MAX_ARG_STR_LENGTH = 32"

definition zero_proc :: proc_info where
  "zero_proc = \<lparr>proc_status = ENABLED, proc_name = [], group_list = replicate LOC_PROCESS_MAX_NUM_GROUPS 0, num_groups = 0,
     args = replicate LOC_PROCESS_MAX_NUM_ARGS [], argumentString = []\<rparr>"

record proc_env =
  long_bits :: nat
  atof_bytes :: "string \<Rightarrow> char list"
  conf_addr :: nat
  log_addr :: nat
  gps_conf :: "string option"
  conf_file :: "string option"
  platform_name :: string
  baseband_name :: string
  autoplatform_name :: string
  user_gid :: "string \<Rightarrow> nat option"
  have_memory :: bool

text \<open>\<open>loc_util_split_string\<close> on a field of the structure: the words, and the memory with the words ended.\<close>

definition split_field :: "nat \<Rightarrow> nat \<Rightarrow> memory \<Rightarrow> (string list \<times> memory) option" where
  "split_field C off mem = do {
     (n, buf, ptrs) \<leftarrow> loc_util_split_string (Some (peek (C + off) (conf_bytes - off) mem)) True (int MAX_NUM_STRINGS) CHR '' '';
     b \<leftarrow> buf;
     Some (map (\<lambda>p. c_string (drop p b)) ptrs, poke (C + off) b mem)
   }"

text \<open>
  The group of each word that names a user; the number counts the names that were found. A write behind
  the end of an array is a fault.
\<close>

fun fill_groups :: "(string \<Rightarrow> nat option) \<Rightarrow> nat \<Rightarrow> string list \<Rightarrow> proc_info \<Rightarrow> proc_info option" where
  "fill_groups gid i [] p = Some p"
| "fill_groups gid i (g # gs) p =
     (case gid g of
        None \<Rightarrow> fill_groups gid (i + 1) gs p
      | Some n \<Rightarrow>
          if i < length (group_list p) then
            fill_groups gid (i + 1) gs (p\<lparr>group_list := (group_list p)[i := n], num_groups := num_groups p + 1\<rparr>)
          else None)"

section \<open>Platforms\<close>

definition TARGET_ALL :: "8 word" where "TARGET_ALL = 0x01"
definition TARGET_FOUND :: "8 word" where "TARGET_FOUND = 0x02"
definition BASEBAND_ALL :: "8 word" where "BASEBAND_ALL = 0x04"
definition BASEBAND_FOUND :: "8 word" where "BASEBAND_FOUND = 0x08"
definition AUTOPLATFORM_ALL :: "8 word" where "AUTOPLATFORM_ALL = 0x10"
definition AUTOPLATFORM_FOUND :: "8 word" where "AUTOPLATFORM_FOUND = 0x20"

lemmas config_masks = TARGET_ALL_def TARGET_FOUND_def BASEBAND_ALL_def BASEBAND_FOUND_def AUTOPLATFORM_ALL_def AUTOPLATFORM_FOUND_def

text \<open>The words of the platforms and of the basebands; \<open>extra\<close> are further words that match.\<close>

definition match_words :: "string \<Rightarrow> (string \<Rightarrow> bool) \<Rightarrow> 8 word \<Rightarrow> 8 word \<Rightarrow> string list \<Rightarrow> 8 word \<Rightarrow> 8 word" where
  "match_words nm extra all_bit found_bit ws m =
     (if take 1 ws = [''all''] then
        (if length ws = 1 \<or> length ws = 2 \<and> ws ! 1 = ''exclude'' then m OR all_bit
         else if length ws > 2 \<and> ws ! 1 = ''exclude'' then
           (let m = m OR found_bit in if nm \<in> set (drop 2 ws) then m AND NOT found_bit else m)
         else m)
      else if \<exists>x \<in> set ws. nm = x \<or> extra x then m OR found_bit else m)"

definition match_auto :: "string \<Rightarrow> string list \<Rightarrow> 8 word \<Rightarrow> 8 word" where
  "match_auto nm ws m =
     (if take 1 ws = [''all''] then m OR AUTOPLATFORM_ALL else if nm \<in> set ws then m OR AUTOPLATFORM_FOUND else m)"

section \<open>Arguments\<close>

definition set_arg :: "nat \<Rightarrow> string \<Rightarrow> proc_info \<Rightarrow> proc_info option" where
  "set_arg i s p =
     (if i < length (args p) then Some (p\<lparr>args := (args p)[i := take (LOC_PROCESS_MAX_ARG_STR_LENGTH - 1) s]\<rparr>) else None)"

fun push_args :: "string list \<Rightarrow> nat \<times> proc_info \<Rightarrow> (nat \<times> proc_info) option" where
  "push_args [] (i, p) = Some (i, p)"
| "push_args (s # ss) (i, p) = (case set_arg i s p of None \<Rightarrow> None | Some p \<Rightarrow> push_args ss (i + 1, p))"

definition basename :: "string \<Rightarrow> string" where
  "basename s = (if s \<noteq> [] \<and> s ! 0 = CHR ''/'' then rev (takeWhile (\<lambda>c. c \<noteq> CHR ''/'') (rev s)) else s)"

text \<open>The arguments for the features a process asks for, by the features that are on.\<close>

definition feature_args :: "32 word \<Rightarrow> 32 word \<Rightarrow> string list" where
  "feature_args fm sm =
     (if fm AND (MASK_GTP_WIFI_BASIC OR MASK_GTP_WIFI_PREMIUM) \<noteq> 0 then
        [''--gtp-wifi'', if sm AND MASK_GTP_WIFI_BASIC \<noteq> 0 then ''BASIC''
           else if sm AND MASK_GTP_WIFI_PREMIUM \<noteq> 0 then ''PREMIUM'' else ''DISABLED'']
      else []) @
     (if fm AND (MASK_GTP_CELL_BASIC OR MASK_GTP_CELL_PREMIUM) \<noteq> 0 then
        (if sm AND MASK_GTP_CELL_BASIC \<noteq> 0 then [''--gtp-ap-cell'', ''BASIC'', ''--gtp-modem-cell'', ''DISABLED'']
         else if sm AND MASK_GTP_CELL_PREMIUM \<noteq> 0 then [''--gtp-ap-cell'', ''PREMIUM'', ''--gtp-modem-cell'', ''DISABLED'']
         else if sm AND MASK_GTP_MODEM_CELL_BASIC \<noteq> 0 then [''--gtp-modem-cell'', ''BASIC'', ''--gtp-ap-cell'', ''DISABLED'']
         else if sm AND MASK_GTP_MODEM_CELL_PREMIUM \<noteq> 0 then [''--gtp-modem-cell'', ''PREMIUM'', ''--gtp-ap-cell'', ''DISABLED'']
         else [''--gtp-ap-cell'', ''DISABLED'', ''--gtp-modem-cell'', ''DISABLED''])
      else []) @
     (if fm AND (MASK_GTP_WAA_BASIC OR MASK_GTP_WAA_PREMIUM) \<noteq> 0 then
        [''--gtp-waa'', if sm AND MASK_GTP_WAA_BASIC \<noteq> 0 then ''BASIC''
           else if sm AND MASK_GTP_WAA_PREMIUM \<noteq> 0 then ''PREMIUM'' else ''DISABLED'']
      else []) @
     (if fm AND (MASK_SAP_BASIC OR MASK_SAP_PREMIUM) \<noteq> 0 then
        [''--sap'', if sm AND MASK_SAP_BASIC \<noteq> 0 then ''BASIC''
           else if sm AND MASK_SAP_PREMIUM \<noteq> 0 then ''PREMIUM'' else ''DISABLED'']
      else [])"

text \<open>The arguments of the file: a copy of the string is split.\<close>

definition file_args :: "string \<Rightarrow> nat \<Rightarrow> proc_info \<Rightarrow> proc_info option" where
  "file_args s i p =
     (if s \<noteq> [] then do {
        let copy = take (LOC_MAX_PARAM_STRING - 1) s;
        (n, buf, ptrs) \<leftarrow> loc_util_split_string (Some (copy @ [NUL])) True (int LOC_PROCESS_MAX_NUM_ARGS - int i) CHR '' '';
        b \<leftarrow> buf;
        (_, p) \<leftarrow> push_args (map (\<lambda>q. c_string (drop q b)) ptrs) (i, p\<lparr>argumentString := c_string b\<rparr>);
        Some p
      }
      else Some p)"

section \<open>One process\<close>

definition launch :: "32 word \<Rightarrow> 32 word \<Rightarrow> 32 word \<Rightarrow> string \<Rightarrow> proc_info \<Rightarrow> proc_info option" where
  "launch premium fm sm arguments p = do {
     (i, p) \<leftarrow> push_args [basename (proc_name p)] (0, p);
     (i, p) \<leftarrow>
       (if premium \<noteq> 0 then
          (if fm AND sm \<noteq> 0 then push_args (feature_args fm sm) (i, p\<lparr>proc_status := ENABLED\<rparr>) else Some (i, p))
        else Some (i, p\<lparr>proc_status := ENABLED\<rparr>));
     file_args arguments i p
   }"

definition config_mask :: "proc_env \<Rightarrow> bool \<Rightarrow> string list \<Rightarrow> string list \<Rightarrow> string list \<Rightarrow> 8 word" where
  "config_mask env sglte platforms basebands autos =
     match_auto (autoplatform_name env) autos
       (match_words (baseband_name env) (\<lambda>x. x = ''sglte'' \<and> sglte) BASEBAND_ALL BASEBAND_FOUND basebands
         (match_words (platform_name env) (\<lambda>x. False) TARGET_ALL TARGET_FOUND platforms 0))"

definition selected :: "8 word \<Rightarrow> bool" where
  "selected m \<longleftrightarrow> m AND (TARGET_ALL OR TARGET_FOUND) \<noteq> 0 \<and> m AND (BASEBAND_ALL OR BASEBAND_FOUND) \<noteq> 0 \<and>
     m AND (AUTOPLATFORM_ALL OR AUTOPLATFORM_FOUND) \<noteq> 0"

text \<open>The body of the loop over the processes, after the parameters were read.\<close>

definition fill_process :: "proc_env \<Rightarrow> 32 word \<Rightarrow> memory \<Rightarrow> (proc_info \<times> memory) option" where
  "fill_process env sm mem =
     (let C = conf_addr env; str = (\<lambda>off. conf_str C off mem);
          p = zero_proc\<lparr>proc_status := DISABLED\<rparr> in
      if \<exists>off \<in> {off_proc_name, off_group_list, off_platform_list, off_baseband, off_proc_status, off_auto_platform}. str off = []
      then Some (p, mem)
      else if str off_proc_status = ''DISABLED'' then Some (p\<lparr>proc_status := DISABLED_FROM_CONF\<rparr>, mem)
      else if length (str off_proc_name) + 1 > LOC_MAX_PARAM_STRING then Some (p, mem)
      else do {
        let p = p\<lparr>proc_name := str off_proc_name, num_groups := 0\<rparr>;
        (groups, mem) \<leftarrow> split_field C off_group_list mem;
        p \<leftarrow> fill_groups (user_gid env) 0 groups p;
        (platforms, mem) \<leftarrow> split_field C off_platform_list mem;
        (basebands, mem) \<leftarrow> split_field C off_baseband mem;
        let sglte = (int_at (C + off_sglte_target) mem \<noteq> 0);
        (autos, mem) \<leftarrow> split_field C off_auto_platform mem;
        if selected (config_mask env sglte platforms basebands autos) \<and> proc_status p \<noteq> DISABLED_FROM_CONF then do {
          p \<leftarrow> launch (int_at (C + off_premium_feature) mem) (int_at (C + off_loc_feature_mask) mem) sm (conf_str C off_proc_argument mem) p;
          Some (p, mem)
        }
        else Some (p, mem)
      })"

section \<open>All processes\<close>

definition read_params :: "proc_env \<Rightarrow> loc_param_s_type list \<Rightarrow> string \<Rightarrow> memory \<Rightarrow> string \<times> memory" where
  "read_params env tab file mem = snd (loc_read_conf_r (long_bits env) (atof_bytes env) (Some file) tab mem)"

text \<open>One round of the count: the next name in the file.\<close>

definition next_name :: "proc_env \<Rightarrow> string \<Rightarrow> memory \<Rightarrow> string \<times> memory" where
  "next_name env file mem =
     read_params env (take 1 (loc_process_conf_parameter_table (conf_addr env))) file
       (poke (conf_addr env + off_proc_name) [NUL] mem)"

lemma conf_str_start: "conf_str C 0 (poke C [NUL] mem) = []"
proof -
  have "[C..<C + (conf_bytes - 0)] = C # [Suc C..<C + (conf_bytes - 0)]"
    by (rule upt_conv_Cons) (simp add: conf_bytes_def)
  then have "peek C (conf_bytes - 0) (poke C [NUL] mem) = NUL # map (poke C [NUL] mem) [Suc C..<C + (conf_bytes - 0)]"
    by (simp only: peek_def list.map) (simp add: poke_def)
  then show ?thesis by (simp add: conf_str_def str_at_def c_string_def)
qed

lemma read_loop_rest: "read_loop bits atof tab num file mem = (rest, mem') \<Longrightarrow> length rest \<le> length file"
proof (induction bits atof tab num "file" mem arbitrary: rest mem' rule: read_loop.induct)
  case (1 bits atof tab num file' mem)
  show ?case
  proof (cases "num = 0 \<or> fgets file' = None")
    case True
    then show ?thesis using "1.prems" by (subst (asm) read_loop.simps) (auto split: if_splits)
  next
    case False
    then obtain line r where f: "fgets file' = Some (line, r)" by auto
    obtain n m where fill: "loc_fill_conf_item bits atof (c_string line) tab mem = (n, m)" by fastforce
    have "read_loop bits atof tab (num - word_of_nat n) r m = (rest, mem')"
      using "1.prems" False f fill by (subst (asm) read_loop.simps) simp
    then have "length rest \<le> length r" using "1.IH" False f fill by (metis prod.inject)
    then show ?thesis using fgets_less [OF f] by simp
  qed
qed

lemma next_name_less:
  assumes "next_name env s mem = (rest, mem')" "conf_str (conf_addr env) off_proc_name mem' \<noteq> []"
  shows "length rest < length s"
proof -
  let ?t = "take 1 (loc_process_conf_parameter_table (conf_addr env))"
    and ?m = "poke (conf_addr env + off_proc_name) [NUL] mem"
  have tab: "length ?t = 1" "clear_sets ?t ?m = ?m"
    by (simp_all add: loc_process_conf_parameter_table_def clear_sets_def param_def)
  have rd: "read_loop (long_bits env) (atof_bytes env) ?t 1 s ?m = (rest, mem')"
    using assms(1) tab by (simp add: next_name_def read_params_def loc_read_conf_r_def)
  show ?thesis
  proof (cases "fgets s")
    case None
    then have "mem' = ?m" using rd by (subst (asm) read_loop.simps) simp
    then have "conf_str (conf_addr env) off_proc_name mem' = []"
      by (simp add: conf_str_start off_proc_name_def)
    then show ?thesis using assms(2) by simp
  next
    case (Some x)
    then obtain line r where f: "fgets s = Some (line, r)" by (cases x) auto
    obtain n m where fill: "loc_fill_conf_item (long_bits env) (atof_bytes env) (c_string line) ?t ?m = (n, m)" by fastforce
    have "read_loop (long_bits env) (atof_bytes env) ?t (1 - word_of_nat n) r m = (rest, mem')"
      using rd f fill by (subst (asm) read_loop.simps) simp
    then have "length rest \<le> length r" by (rule read_loop_rest)
    then show ?thesis using fgets_less [OF f] by simp
  qed
qed

text \<open>The number of processes is an \<open>unsigned char\<close>.\<close>

function count_processes :: "proc_env \<Rightarrow> string \<Rightarrow> memory \<Rightarrow> 8 word \<Rightarrow> 8 word \<times> memory" where
  "count_processes env s mem n =
     (let (rest, mem) = next_name env s mem in
      if conf_str (conf_addr env) off_proc_name mem = [] then (n, mem) else count_processes env rest mem (n + 1))"
  by pat_completeness auto
termination by (relation "measure (\<lambda>(_, s, _, _). length s)") (auto dest: next_name_less [OF sym])

declare count_processes.simps [simp del]

fun fill_processes :: "proc_env \<Rightarrow> 32 word \<Rightarrow> nat \<Rightarrow> string \<Rightarrow> memory \<Rightarrow> (proc_info list \<times> memory) option" where
  "fill_processes env sm 0 s mem = Some ([], mem)"
| "fill_processes env sm (Suc n) s mem = do {
     let (s, mem) = read_params env (loc_process_conf_parameter_table (conf_addr env)) s mem;
     (p, mem) \<leftarrow> fill_process env sm mem;
     (ps, mem) \<leftarrow> fill_processes env sm n s mem;
     Some (p # ps, mem)
   }"

text \<open>
  The return value, the table of processes with its length, and the memory. \<open>have_ptrs\<close>: neither of the
  result pointers is NULL.
\<close>

definition loc_read_process_conf :: "proc_env \<Rightarrow> bool \<Rightarrow> memory \<Rightarrow> (int \<times> proc_info list \<times> memory) option" where
  "loc_read_process_conf env have_ptrs mem =
     (if \<not> have_ptrs then Some (-1, [], mem)
      else
        (let C = conf_addr env;
             mem = loc_read_conf (long_bits env) (atof_bytes env) (log_addr env) (gps_conf env) (gps_conf_parameter_table C) mem;
             mem = loc_read_conf (long_bits env) (atof_bytes env) (log_addr env) (conf_file env) (loc_feature_conf_table C) mem;
             sm = service_mask (\<lambda>off. conf_str C off mem) in
         case conf_file env of
           None \<Rightarrow> Some (-1, [], mem)
         | Some s \<Rightarrow>
             (let (n, mem) = count_processes env s mem 0 in
              if \<not> have_memory env then Some (-1, [], mem)
              else do {
                (ps, mem) \<leftarrow> fill_processes env sm (unat n) s mem;
                Some (0, ps, mem)
              })))"

end
