(* ===== verification/LocCfgProofs.thy ===== *)
theory LocCfgProofs
  imports LocCfg
begin

text \<open>
  Configuration files that are written one setting to a line are read back into the table's variables;
  and what the reader does with settings that come twice, values that are too long, the last parameter
  of a table and large hexadecimal numbers.
\<close>

unbundle bit_operations_syntax

section \<open>Memory\<close>

lemma poke_out: "x < a \<or> a + length cs \<le> x \<Longrightarrow> poke a cs mem x = mem x"
  by (auto simp: poke_def)

lemma poke_in: "i < length cs \<Longrightarrow> poke a cs mem (a + i) = cs ! i"
  by (simp add: poke_def)

lemma peek_poke_same: "length cs \<le> n \<Longrightarrow> peek a n (poke a cs mem) = cs @ peek (a + length cs) (n - length cs) mem"
  by (rule nth_equalityI) (auto simp: peek_def poke_def nth_append)

lemma peek_poke_other: "{a..<a + n} \<inter> {b..<b + length cs} = {} \<Longrightarrow> peek a n (poke b cs mem) = peek a n mem"
  by (auto simp: peek_def poke_def disjoint_iff)

lemma int_bytes_length [simp]: "length (int_bytes w) = 4"
  by (simp add: int_bytes_def)

lemma byte_back: "(word_of_int (of_char (char_of (uint (drop_bit k w)))) :: 32 word) = take_bit 8 (drop_bit k w)"
  for w :: "32 word"
proof -
  have "(of_char (char_of (uint (drop_bit k w))) :: int) = uint (drop_bit k w) mod 256" by (simp add: of_char_of)
  also have "\<dots> = take_bit 8 (uint (drop_bit k w))" by (simp add: take_bit_eq_mod)
  finally have eq: "(of_char (char_of (uint (drop_bit k w))) :: int) = take_bit 8 (uint (drop_bit k w))" .
  show ?thesis unfolding eq by (rule bit_word_eqI) (auto simp: bit_simps)
qed

lemma int_at_poke [simp]: "int_at a (poke a (int_bytes w) mem) = w"
proof -
  have b: "(word_of_int (of_char (poke a (int_bytes w) mem (a + i))) :: 32 word) = take_bit 8 (drop_bit (8 * i) w)" if "i < 4" for i
  proof -
    have "poke a (int_bytes w) mem (a + i) = char_of (uint (drop_bit (8 * i) w))"
      using that poke_in [of i "int_bytes w" a mem] by (simp add: int_bytes_def)
    then show ?thesis using byte_back [of "8 * i" w] by (simp only:)
  qed
  have four: "[0..<4] = [0, 1, 2, 3 :: nat]" by (simp add: upt_rec)
  have "int_at a (poke a (int_bytes w) mem) = fold (\<lambda>i x. x OR push_bit (8 * i) (take_bit 8 (drop_bit (8 * i) w))) [0..<4] 0"
    unfolding int_at_def by (rule fold_cong) (simp_all only: b atLeast0LessThan set_upt lessThan_iff)
  also have "\<dots> = ((take_bit 8 (drop_bit 0 w) OR push_bit 8 (take_bit 8 (drop_bit 8 w))) OR push_bit 16 (take_bit 8 (drop_bit 16 w)))
        OR push_bit 24 (take_bit 8 (drop_bit 24 w))"
    unfolding four by simp
  also have "\<dots> = w"
  proof (rule bit_eqI)
    fix n
    assume n: "possible_bit TYPE(32 word) n"
    then have "n < 32" by simp
    then consider "n < 8" | "8 \<le> n" "n < 16" | "16 \<le> n" "n < 24" | "24 \<le> n" "n < 32" by linarith
    then show "bit (((take_bit 8 (drop_bit 0 w) OR push_bit 8 (take_bit 8 (drop_bit 8 w))) OR push_bit 16 (take_bit 8 (drop_bit 16 w)))
        OR push_bit 24 (take_bit 8 (drop_bit 24 w))) n = bit w n"
      by cases (auto simp: bit_simps)
  qed
  finally show ?thesis .
qed

section \<open>Lines\<close>

abbreviation NL :: char where "NL \<equiv> CHR 0x0A"

text \<open>A name or value that survives the tokenizer and the trimming.\<close>

definition good_text :: "string \<Rightarrow> bool" where
  "good_text s \<longleftrightarrow> s \<noteq> [] \<and> \<not> c_isspace (hd s) \<and> \<not> c_isspace (last s) \<and> set s \<inter> {NUL, CHR ''='', NL} = {}"

definition setting_line :: "string \<times> string \<Rightarrow> string" where
  "setting_line s = fst s @ '' = '' @ snd s @ [NL]"

definition print_conf :: "(string \<times> string) list \<Rightarrow> string" where
  "print_conf ss = concat (map setting_line ss)"

definition good_setting :: "string \<times> string \<Rightarrow> bool" where
  "good_setting s \<longleftrightarrow> good_text (fst s) \<and> good_text (snd s) \<and> length (fst s) + length (snd s) + 4 < LOC_MAX_PARAM_LINE"

lemma takeWhile_stop: "\<forall>x \<in> set xs. P x \<Longrightarrow> \<not> P y \<Longrightarrow> takeWhile P (xs @ y # ys) = xs"
  by (simp add: takeWhile_append2)

lemma fgets_short:
  assumes "NL \<notin> set l" "length l + 1 < LOC_MAX_PARAM_LINE"
  shows "fgets (l @ NL # rest) = Some (l @ [NL], rest)"
proof -
  have no: "\<forall>c \<in> set l. c \<noteq> NL" using assms(1) by auto
  have tw: "takeWhile (\<lambda>c. c \<noteq> NL) (l @ NL # rest) = l" by (rule takeWhile_stop [OF no]) simp
  show ?thesis using assms(2) unfolding fgets_def Let_def tw by (simp add: LOC_MAX_PARAM_LINE_def)
qed

lemma fgets_line:
  assumes "good_setting s"
  shows "fgets (setting_line s @ rest) = Some (setting_line s, rest)"
  using fgets_short [of "fst s @ '' = '' @ snd s" rest] assms
  by (auto simp: good_setting_def good_text_def setting_line_def)

lemma trim_spaces_around:
  assumes "good_text t" "\<forall>c \<in> set a. c_isspace c" "\<forall>c \<in> set b. c_isspace c"
  shows "trim_spaces (a @ t @ b) = t"
proof -
  obtain h r where hr: "t = h # r" "\<not> c_isspace h" using assms(1) by (cases t) (auto simp: good_text_def)
  obtain q l where ql: "t = q @ [l]" "\<not> c_isspace l" using assms(1) by (cases t rule: rev_cases) (auto simp: good_text_def)
  have "dropWhile c_isspace (a @ t @ b) = t @ b" using assms(2) hr by (simp add: dropWhile_append2)
  moreover have "dropWhile c_isspace (rev b @ rev t) = dropWhile c_isspace (rev t)"
    by (rule dropWhile_append2) (use assms(3) in simp)
  then have "dropWhile c_isspace (rev (t @ b)) = rev t" using ql by simp
  ultimately show ?thesis by (simp add: trim_spaces_def)
qed

lemma trimmed_around:
  assumes "good_text t" "\<forall>c \<in> set a. c_isspace c \<and> c \<noteq> NUL" "\<forall>c \<in> set b. c_isspace c \<and> c \<noteq> NUL"
  shows "trimmed (a @ t @ b) = t"
proof -
  have nul: "NUL \<notin> set (a @ t @ b)" using assms by (auto simp: good_text_def)
  have some: "\<not> (\<forall>c \<in> set (a @ t @ b). c_isspace c)" using assms(1) by (auto simp: good_text_def)
  obtain buf where "loc_util_trim_space (Some ((a @ t @ b) @ NUL # [])) = Some (Some buf)" "c_string buf = trim_spaces (a @ t @ b)"
    using trim_space_equivalent [OF nul, of "[]"] unfolding if_not_P [OF some] by blast
  then show ?thesis using trim_spaces_around [of t a b] assms by (simp add: trimmed_def)
qed

lemma strtok_simple:
  assumes "s \<noteq> []" "d \<notin> set s"
  shows "strtok d (s @ d # rest) = Some (s, rest)" "strtok d s = Some (s, [])"
proof -
  have "hd s \<noteq> d" using assms by (metis hd_in_set)
  then have "dropWhile (\<lambda>c. c = d) (s @ r) = s @ r" for r using assms(1) by (cases s) simp_all
  from this [of "d # rest"] this [of "[]"] have drops: "dropWhile (\<lambda>c. c = d) (s @ d # rest) = s @ d # rest" "dropWhile (\<lambda>c. c = d) s = s" by simp_all
  have no: "\<forall>c \<in> set s. c \<noteq> d" using assms(2) by auto
  have whole: "takeWhile (\<lambda>c. c \<noteq> d) s = s" using no by (simp add: takeWhile_eq_all_conv)
  have "takeWhile (\<lambda>c. c \<noteq> d) (s @ d # rest) = s" using takeWhile_stop [OF no, of d rest] by simp
  then show "strtok d (s @ d # rest) = Some (s, rest)" using assms(1) unfolding strtok_def Let_def drops by simp
  show "strtok d s = Some (s, [])" using assms(1) unfolding strtok_def Let_def drops whole by simp
qed

lemma fill_line:
  assumes "good_setting s"
  shows "loc_fill_conf_item bits atof (c_string (setting_line s)) tab mem = set_entries tab (parse_value bits atof (fst s) (snd s)) (0, mem)"
proof -
  have good: "good_text (fst s)" "good_text (snd s)" using assms by (simp_all add: good_setting_def)
  have "NUL \<notin> set (setting_line s)" using good by (auto simp: good_text_def setting_line_def)
  then have line: "c_string (setting_line s) = (fst s @ '' '') @ CHR ''='' # ('' '' @ snd s @ [NL])"
    using takeWhile_eq_all_conv [of "\<lambda>c. c \<noteq> NUL" "setting_line s"] by (auto simp: c_string_def setting_line_def)
  have 1: "strtok CHR ''='' (c_string (setting_line s)) = Some (fst s @ '' '', '' '' @ snd s @ [NL])"
    unfolding line by (rule strtok_simple(1)) (use good in \<open>auto simp: good_text_def\<close>)
  have 2: "strtok CHR ''='' ('' '' @ snd s @ [NL]) = Some ('' '' @ snd s @ [NL], [])"
    by (rule strtok_simple(2)) (use good in \<open>auto simp: good_text_def\<close>)
  have 3: "trimmed (fst s @ '' '') = fst s" using trimmed_around [OF good(1), of "[]" "'' ''"] by (simp add: c_isspace_def)
  have 4: "trimmed ('' '' @ snd s @ [NL]) = snd s" using trimmed_around [OF good(2), of "'' ''" "[NL]"] by (simp add: c_isspace_def)
  show ?thesis unfolding loc_fill_conf_item_def 1 using 2 3 4 by simp
qed

section \<open>Tables\<close>

text \<open>The bytes of a variable, and the byte that says it was set.\<close>

definition width :: "loc_param_s_type \<Rightarrow> nat" where
  "width e = (if param_type e = CHR ''s'' then LOC_MAX_PARAM_STRING else 4)"

definition region :: "loc_param_s_type \<Rightarrow> nat set" where
  "region e = {param_ptr e..<param_ptr e + width e} \<union> (if param_set e = 0 then {} else {param_set e})"

definition table_ok :: "loc_param_s_type list \<Rightarrow> bool" where
  "table_ok tab \<longleftrightarrow> distinct (map param_name tab) \<and> length tab < 2 ^ 32 \<and>
     (\<forall>e \<in> set tab. param_ptr e \<noteq> 0 \<and> param_type e \<in> {CHR ''s'', CHR ''n''} \<and>
        param_set e \<notin> {param_ptr e..<param_ptr e + width e}) \<and>
     (\<forall>e \<in> set tab. \<forall>f \<in> set tab. e \<noteq> f \<longrightarrow> region e \<inter> region f = {})"

definition setting_ok :: "string \<times> string \<Rightarrow> bool" where
  "setting_ok s \<longleftrightarrow> good_setting s \<and> length (snd s) < LOC_MAX_PARAM_STRING \<and> snd s \<noteq> ''NULL''"

definition number_of :: "nat \<Rightarrow> string \<Rightarrow> 32 word" where
  "number_of bits v =
     (if length v \<ge> 3 \<and> v ! 0 = CHR ''0'' \<and> v ! 1 \<in> {CHR ''x'', CHR ''X''} then word_of_int (strtol bits (drop 2 v) 16) else atoi bits v)"

text \<open>What a variable holds after it was given a value: the string, or its number.\<close>

definition holds :: "nat \<Rightarrow> loc_param_s_type \<Rightarrow> string \<Rightarrow> memory \<Rightarrow> bool" where
  "holds bits e v mem \<longleftrightarrow>
     (if param_type e = CHR ''s'' then str_at (param_ptr e) LOC_MAX_PARAM_STRING mem = v
      else int_at (param_ptr e) mem = number_of bits v)"

definition value_bytes :: "nat \<Rightarrow> loc_param_s_type \<Rightarrow> string \<Rightarrow> char list" where
  "value_bytes bits e v = (if param_type e = CHR ''s'' then v @ [NUL] else int_bytes (number_of bits v))"

definition store_value :: "nat \<Rightarrow> loc_param_s_type \<Rightarrow> string \<Rightarrow> memory \<Rightarrow> memory" where
  "store_value bits e v mem = mark_set e (poke (param_ptr e) (value_bytes bits e v) mem)"

lemma parse_simps [simp]:
  "v_name (parse_value bits atof n v) = n" "v_str_value (parse_value bits atof n v) = v"
  "v_int_value (parse_value bits atof n v) = number_of bits v"
  by (auto simp: parse_value_def number_of_def)

lemma set_entry:
  assumes "table_ok tab" "e \<in> set tab" "setting_ok s" "param_name e = fst s"
  shows "loc_set_config_entry e (parse_value bits atof (fst s) (snd s)) mem = (True, store_value bits e (snd s) mem)"
proof -
  have e: "param_ptr e \<noteq> 0" "param_type e = CHR ''s'' \<or> param_type e = CHR ''n''" using assms(1,2) by (auto simp: table_ok_def)
  show ?thesis using e assms(3,4)
    by (auto simp: loc_set_config_entry_def store_value_def value_bytes_def setting_ok_def strlcpy_def LOC_MAX_PARAM_STRING_def)
qed

lemma other_entry: "param_name e \<noteq> v_name v \<Longrightarrow> loc_set_config_entry e v mem = (False, mem)"
  by (simp add: loc_set_config_entry_def)

lemma entries_absent: "v_name v \<notin> param_name ` set es \<Longrightarrow> set_entries es v (n, mem) = (n, mem)"
  by (induction es arbitrary: n mem) (auto simp: other_entry)

lemma entries_append: "set_entries (es @ fs) v (n, mem) = set_entries fs v (set_entries es v (n, mem))"
  by (induction es arbitrary: n mem) (auto split: prod.splits)

lemma entries_found:
  assumes "table_ok tab" "e \<in> set tab" "setting_ok s" "param_name e = fst s"
  shows "set_entries tab (parse_value bits atof (fst s) (snd s)) (0, mem) = (1, store_value bits e (snd s) mem)"
proof -
  obtain us vs where tab: "tab = us @ e # vs" using assms(2) by (meson split_list)
  have "distinct (map param_name tab)" using assms(1) by (simp add: table_ok_def)
  then have "fst s \<notin> param_name ` set us" "fst s \<notin> param_name ` set vs" using assms(4) unfolding tab by auto
  then show ?thesis unfolding tab entries_append using set_entry [OF assms(1,2,3,4)] by (simp add: entries_absent)
qed

section \<open>Reading what was printed\<close>

definition entry_named :: "loc_param_s_type list \<Rightarrow> string \<Rightarrow> loc_param_s_type option" where
  "entry_named tab n = find (\<lambda>e. param_name e = n) tab"

definition give :: "nat \<Rightarrow> loc_param_s_type list \<Rightarrow> string \<times> string \<Rightarrow> memory \<Rightarrow> memory" where
  "give bits tab s mem = (case entry_named tab (fst s) of None \<Rightarrow> mem | Some e \<Rightarrow> store_value bits e (snd s) mem)"

lemma entry_named_Some: "entry_named tab n = Some e \<Longrightarrow> e \<in> set tab \<and> param_name e = n"
  by (auto simp: entry_named_def find_Some_iff)

lemma entry_named_None: "entry_named tab n = None \<Longrightarrow> n \<notin> param_name ` set tab"
  by (auto simp: entry_named_def find_None_iff)

lemma entry_named_self: "table_ok tab \<Longrightarrow> e \<in> set tab \<Longrightarrow> entry_named tab (param_name e) = Some e"
proof -
  assume tab: "table_ok tab" "e \<in> set tab"
  then obtain f where f: "entry_named tab (param_name e) = Some f"
    using entry_named_None [of tab "param_name e"] by (cases "entry_named tab (param_name e)") auto
  have "f \<in> set tab" "param_name f = param_name e" using entry_named_Some [OF f] by simp_all
  then have "f = e" using tab by (auto simp: table_ok_def distinct_map inj_on_def)
  then show ?thesis using f by simp
qed

definition known :: "loc_param_s_type list \<Rightarrow> (string \<times> string) list \<Rightarrow> nat" where
  "known tab ss = length (filter (\<lambda>s. fst s \<in> param_name ` set tab) ss)"

lemma known_le:
  assumes "distinct (map fst ss)"
  shows "known tab ss \<le> length tab"
proof -
  let ?fs = "filter (\<lambda>s. fst s \<in> param_name ` set tab) ss"
  have "distinct (map fst ?fs)" using assms by (rule distinct_map_filter)
  then have "card (set (map fst ?fs)) = length (map fst ?fs)" by (rule distinct_card)
  then have "known tab ss = card (fst ` set ?fs)" by (simp add: known_def)
  also have "\<dots> \<le> card (param_name ` set tab)" by (rule card_mono) auto
  also have "\<dots> \<le> length tab" by (metis card_image_le card_length le_trans List.finite_set)
  finally show ?thesis .
qed

lemma read_printed:
  assumes tab: "table_ok tab"
  shows "\<forall>s \<in> set ss. setting_ok s \<Longrightarrow> known tab ss \<le> k \<Longrightarrow> k < 2 ^ 32 \<Longrightarrow>
     \<exists>rest. read_loop bits atof tab (word_of_nat k) (print_conf ss) mem = (rest, fold (give bits tab) ss mem)"
proof (induction ss arbitrary: k mem)
  case Nil
  then show ?case by (subst read_loop.simps) (simp add: print_conf_def fgets_def)
next
  case (Cons s ss)
  have s: "setting_ok s" "good_setting s" using Cons.prems(1) by (simp_all add: setting_ok_def)
  show ?case
  proof (cases "k = 0")
    case True
    then have none: "\<forall>s \<in> set (s # ss). fst s \<notin> param_name ` set tab"
      using Cons.prems(2) by (simp only: True le_zero_eq known_def length_0_conv filter_empty_conv not_False_eq_True) 
    have "fold (give bits tab) ts m = m" if "\<forall>s \<in> set ts. fst s \<notin> param_name ` set tab" for ts m
      using that
    proof (induction ts arbitrary: m)
      case (Cons t ts)
      have "fst t \<notin> param_name ` set tab" using Cons.prems by simp
      then have "entry_named tab (fst t) = None" using entry_named_Some by (metis imageI option.exhaust)
      then show ?case using Cons by (simp add: give_def)
    qed simp
    from this [OF none] show ?thesis using True by (subst read_loop.simps) simp
  next
    case False
    have nz: "(word_of_nat k :: 32 word) \<noteq> 0" using False Cons.prems(3)
      by (auto simp: word_of_nat_eq_0_iff dest: dvd_imp_le)
    have whole: "print_conf (s # ss) = setting_line s @ print_conf ss" by (simp add: print_conf_def)
    obtain n where n: "loc_fill_conf_item bits atof (c_string (setting_line s)) tab mem = (n, give bits tab s mem)"
      "n = (if fst s \<in> param_name ` set tab then 1 else 0)"
    proof (cases "entry_named tab (fst s)")
      case None
      then show ?thesis using entries_absent [of "parse_value bits atof (fst s) (snd s)" tab] entry_named_None [OF None] that
        unfolding fill_line [OF s(2)] by (simp add: give_def)
    next
      case (Some e)
      then have e: "e \<in> set tab" "param_name e = fst s" using entry_named_Some by auto
      then have "fst s \<in> param_name ` set tab" by force
      then show ?thesis using entries_found [OF tab e(1) s(1) e(2)] Some that
        unfolding fill_line [OF s(2)] by (simp add: give_def)
    qed
    have k: "(word_of_nat k :: 32 word) - word_of_nat n = word_of_nat (k - n)" "known tab ss \<le> k - n" "k - n < 2 ^ 32"
      using n(2) False Cons.prems(2,3) by (auto simp: known_def of_nat_diff)
    have rd: "read_loop bits atof tab (word_of_nat k) (print_conf (s # ss)) mem =
        read_loop bits atof tab (word_of_nat (k - n)) (print_conf ss) (give bits tab s mem)"
      using nz by (subst read_loop.simps) (simp add: whole fgets_line [OF s(2)] n(1) k(1))
    show ?thesis unfolding rd using Cons.IH [OF _ k(2,3), of "give bits tab s mem"] Cons.prems(1) by simp
  qed
qed

section \<open>What the variables hold\<close>

lemma region_finite: "{param_ptr e..<param_ptr e + width e} \<subseteq> region e"
  by (simp add: region_def)

lemma holds_cong:
  assumes "\<And>x. x \<in> region e \<Longrightarrow> m x = m' x"
  shows "holds bits e v m = holds bits e v m'"
proof -
  have same: "m x = m' x" if "param_ptr e \<le> x" "x < param_ptr e + width e" for x
    using assms that by (auto simp: region_def)
  show ?thesis
  proof (cases "param_type e = CHR ''s''")
    case True
    then have "peek (param_ptr e) LOC_MAX_PARAM_STRING m = peek (param_ptr e) LOC_MAX_PARAM_STRING m'"
      using same by (auto simp: peek_def width_def)
    then show ?thesis using True by (simp add: holds_def str_at_def)
  next
    case False
    have "int_at (param_ptr e) m = int_at (param_ptr e) m'"
      unfolding int_at_def by (rule fold_cong) (use same False in \<open>auto simp: width_def\<close>)
    then show ?thesis using False by (simp add: holds_def)
  qed
qed

lemma value_bytes_width: "length v < LOC_MAX_PARAM_STRING \<Longrightarrow> length (value_bytes bits e v) \<le> width e"
  by (auto simp: value_bytes_def width_def LOC_MAX_PARAM_STRING_def)

lemma store_out:
  assumes "length v < LOC_MAX_PARAM_STRING" "x \<notin> region f"
  shows "store_value bits f v m x = m x"
proof -
  have "x < param_ptr f \<or> param_ptr f + length (value_bytes bits f v) \<le> x"
    using assms value_bytes_width [OF assms(1), of bits f] by (auto simp: region_def)
  then have "poke (param_ptr f) (value_bytes bits f v) m x = m x" by (rule poke_out)
  moreover have "param_set f = 0 \<or> x < param_set f \<or> param_set f + length [CHR 0x01] \<le> x"
    using assms(2) by (auto simp: region_def split: if_splits)
  ultimately show ?thesis unfolding store_value_def mark_set_def using poke_out [of x "param_set f" "[CHR 0x01]"] by auto
qed

lemma store_holds:
  assumes v: "length v < LOC_MAX_PARAM_STRING" "NUL \<notin> set v" and e: "param_set e \<notin> {param_ptr e..<param_ptr e + width e}"
  shows "holds bits e v (store_value bits e v m)" "param_set e \<noteq> 0 \<Longrightarrow> store_value bits e v m (param_set e) = CHR 0x01"
proof -
  show "param_set e \<noteq> 0 \<Longrightarrow> store_value bits e v m (param_set e) = CHR 0x01"
    by (simp add: store_value_def mark_set_def poke_def)
  let ?m = "poke (param_ptr e) (value_bytes bits e v) m"
  have same: "store_value bits e v m x = ?m x" if "x \<in> {param_ptr e..<param_ptr e + width e}" for x
    using that e by (auto simp: store_value_def mark_set_def poke_def)
  show "holds bits e v (store_value bits e v m)"
  proof (cases "param_type e = CHR ''s''")
    case True
    have "peek (param_ptr e) LOC_MAX_PARAM_STRING (store_value bits e v m) = peek (param_ptr e) LOC_MAX_PARAM_STRING ?m"
      using same True by (auto simp: peek_def width_def)
    also have "\<dots> = v @ NUL # peek (param_ptr e + length (v @ [NUL])) (LOC_MAX_PARAM_STRING - length (v @ [NUL])) m"
      using True v(1) peek_poke_same [of "v @ [NUL]" LOC_MAX_PARAM_STRING "param_ptr e" m] by (simp add: value_bytes_def)
    finally show ?thesis using True c_string_append [OF v(2)] by (simp add: holds_def str_at_def)
  next
    case False
    have "int_at (param_ptr e) (store_value bits e v m) = int_at (param_ptr e) ?m"
      unfolding int_at_def by (rule fold_cong) (use same False in \<open>auto simp: width_def\<close>)
    then show ?thesis using False by (simp add: holds_def value_bytes_def)
  qed
qed

lemma give_out:
  assumes "table_ok tab" "e \<in> set tab" "x \<in> region e" "param_name e \<noteq> fst s" "setting_ok s"
  shows "give bits tab s m x = m x"
proof (cases "entry_named tab (fst s)")
  case (Some f)
  then have f: "f \<in> set tab" "param_name f = fst s" using entry_named_Some by auto
  then have "f \<noteq> e" using assms(4) by auto
  then have "x \<notin> region f" using assms(1-3) f(1) by (auto simp: table_ok_def)
  then show ?thesis using Some store_out assms(5) by (simp add: give_def setting_ok_def)
qed (simp add: give_def)

lemma gives_out:
  assumes "table_ok tab" "e \<in> set tab" "x \<in> region e"
  shows "param_name e \<notin> fst ` set ss \<Longrightarrow> \<forall>s \<in> set ss. setting_ok s \<Longrightarrow> fold (give bits tab) ss m x = m x"
proof (induction ss arbitrary: m)
  case (Cons s ss)
  then show ?case using give_out [OF assms, of s bits m] by auto
qed simp

lemma gives_in:
  assumes tab: "table_ok tab" "e \<in> set tab" and ss: "distinct (map fst ss)" "\<forall>s \<in> set ss. setting_ok s"
    and v: "(param_name e, v) \<in> set ss"
  shows "holds bits e v (fold (give bits tab) ss m)" "param_set e \<noteq> 0 \<Longrightarrow> fold (give bits tab) ss m (param_set e) = CHR 0x01"
proof -
  obtain us vs where split: "ss = us @ (param_name e, v) # vs" using v by (meson split_list)
  have out: "param_name e \<notin> fst ` set vs" using ss(1) unfolding split by auto
  define m1 where "m1 = store_value bits e v (fold (give bits tab) us m)"
  have eq: "fold (give bits tab) ss m = fold (give bits tab) vs m1"
    unfolding split m1_def using entry_named_self [OF tab] by (simp add: give_def)
  have same: "fold (give bits tab) vs m1 x = m1 x" if "x \<in> region e" for x
    by (rule gives_out [OF tab that out]) (use ss(2) split in auto)
  have ok: "setting_ok (param_name e, v)" using ss(2) v by auto
  have len: "length v < LOC_MAX_PARAM_STRING" "NUL \<notin> set v" using ok by (auto simp: setting_ok_def good_setting_def good_text_def)
  have set: "param_set e \<notin> {param_ptr e..<param_ptr e + width e}" using tab by (auto simp: table_ok_def)
  show "holds bits e v (fold (give bits tab) ss m)"
    unfolding eq using holds_cong [OF same] store_holds(1) [OF len set] by (simp add: m1_def)
  show "fold (give bits tab) ss m (param_set e) = CHR 0x01" if s: "param_set e \<noteq> 0"
  proof -
    have "param_set e \<in> region e" using s by (simp add: region_def)
    from same [OF this] show ?thesis unfolding eq using store_holds(2) [OF len set s] by (simp add: m1_def)
  qed
qed

lemma clear_out: "\<forall>e \<in> set es. param_set e \<noteq> x \<or> x = 0 \<Longrightarrow> clear_sets es m x = m x"
  unfolding clear_sets_def by (induction es arbitrary: m) (auto simp: poke_def)

lemma clear_in: "e \<in> set es \<Longrightarrow> param_set e \<noteq> 0 \<Longrightarrow> clear_sets es m (param_set e) = NUL"
proof (induction es rule: rev_induct)
  case (snoc f es)
  have "clear_sets (es @ [f]) m = (if param_set f \<noteq> 0 then poke (param_set f) [NUL] (clear_sets es m) else clear_sets es m)"
    by (simp add: clear_sets_def)
  then show ?case using snoc by (auto simp: poke_def)
qed simp

lemma clear_region:
  assumes "table_ok tab" "e \<in> set tab" "x \<in> {param_ptr e..<param_ptr e + width e}"
  shows "clear_sets tab m x = m x"
proof (rule clear_out, intro ballI)
  fix f
  assume f: "f \<in> set tab"
  show "param_set f \<noteq> x \<or> x = 0"
  proof (cases "f = e")
    case True
    then show ?thesis using assms by (auto simp: table_ok_def)
  next
    case False
    then have "region e \<inter> region f = {}" using assms f by (auto simp: table_ok_def)
    then show ?thesis using assms(3) by (auto simp: region_def split: if_splits)
  qed
qed

section \<open>Printing and reading\<close>

text \<open>
  C17: A configuration that is written one setting to a line, \<open>name = value\<close>, with names that are all
  different, is read back. Every variable of the table whose name is among the settings holds its value
  afterwards (a string as it is, a number as decimal or hexadecimal) and is marked as set; every other
  variable keeps its bytes and is marked as not set. (Values fit into the variables and lines into the line
  buffer; the variables do not overlap.)
\<close>

theorem conf_roundtrip:
  assumes tab: "table_ok tab" and ss: "\<forall>s \<in> set ss. setting_ok s" "distinct (map fst ss)"
  shows "\<exists>rest mem'. loc_read_conf_r bits atof (Some (print_conf ss)) tab mem = (0, rest, mem') \<and>
     (\<forall>e \<in> set tab. (case map_of ss (param_name e) of
        Some v \<Rightarrow> holds bits e v mem'
      | None \<Rightarrow> peek (param_ptr e) (width e) mem' = peek (param_ptr e) (width e) mem) \<and>
      (if param_set e = 0 then True
       else mem' (param_set e) = (if map_of ss (param_name e) = None then NUL else CHR 0x01)))"
proof -
  have len: "length tab < 2 ^ 32" using tab by (simp add: table_ok_def)
  let ?m = "clear_sets tab mem" let ?m' = "fold (give bits tab) ss (clear_sets tab mem)"
  obtain rest where rd: "read_loop bits atof tab (word_of_nat (length tab)) (print_conf ss) ?m = (rest, ?m')"
    using read_printed [OF tab ss(1) known_le [OF ss(2)] len] by blast
  have "(case map_of ss (param_name e) of Some v \<Rightarrow> holds bits e v ?m'
      | None \<Rightarrow> peek (param_ptr e) (width e) ?m' = peek (param_ptr e) (width e) mem) \<and>
      (if param_set e = 0 then True else ?m' (param_set e) = (if map_of ss (param_name e) = None then NUL else CHR 0x01))"
    if e: "e \<in> set tab" for e
  proof (cases "map_of ss (param_name e)")
    case (Some v)
    then have "(param_name e, v) \<in> set ss" by (rule map_of_SomeD)
    from gives_in [OF tab e ss(2,1) this] show ?thesis using Some by simp
  next
    case None
    then have out: "param_name e \<notin> fst ` set ss" by (simp add: map_of_eq_None_iff)
    have same: "?m' x = ?m x" if "x \<in> region e" for x by (rule gives_out [OF tab e that out ss(1)])
    have "?m' x = mem x" if "x \<in> {param_ptr e..<param_ptr e + width e}" for x
      using same [OF subsetD [OF region_finite that]] clear_region [OF tab e that] by (rule trans)
    then have "peek (param_ptr e) (width e) ?m' = peek (param_ptr e) (width e) mem" by (simp add: peek_def)
    moreover have "?m' (param_set e) = NUL" if "param_set e \<noteq> 0"
      using same [of "param_set e"] clear_in [OF e that] that by (simp add: region_def)
    ultimately show ?thesis using None by simp
  qed
  note all = this
  have eq: "loc_read_conf_r bits atof (Some (print_conf ss)) tab mem = (0, rest, ?m')" by (simp add: loc_read_conf_r_def rd)
  show ?thesis by (rule exI [of _ rest], rule exI [of _ ?m'], rule conjI, rule eq, rule ballI, rule all)
qed

definition example_table :: "loc_param_s_type list" where
  "example_table =
     [\<lparr>param_name = ''NTP'', param_ptr = 1000, param_set = 10, param_type = CHR ''s''\<rparr>,
      \<lparr>param_name = ''LEVEL'', param_ptr = 2000, param_set = 0, param_type = CHR ''n''\<rparr>,
      \<lparr>param_name = ''MASK'', param_ptr = 3000, param_set = 11, param_type = CHR ''n''\<rparr>]"

definition example_settings :: "(string \<times> string) list" where
  "example_settings = [(''#OLD'', ''x''), (''NTP'', ''time host''), (''MASK'', ''0x1F'')]"

lemma example_table_ok: "table_ok example_table"
  by (simp add: table_ok_def example_table_def region_def width_def LOC_MAX_PARAM_STRING_def)

lemma example_settings_ok: "\<forall>s \<in> set example_settings. setting_ok s"
  by (simp add: example_settings_def setting_ok_def good_setting_def good_text_def c_isspace_def LOC_MAX_PARAM_STRING_def
      LOC_MAX_PARAM_LINE_def)

theorem conf_roundtrip_witness:
  "\<exists>rest mem'. loc_read_conf_r 64 (\<lambda>s. replicate 8 NUL) (Some (print_conf example_settings)) example_table (\<lambda>a. NUL) = (0, rest, mem') \<and>
     (\<forall>e \<in> set example_table. (case map_of example_settings (param_name e) of
        Some v \<Rightarrow> holds 64 e v mem'
      | None \<Rightarrow> peek (param_ptr e) (width e) mem' = peek (param_ptr e) (width e) (\<lambda>a. NUL)) \<and>
      (if param_set e = 0 then True
       else mem' (param_set e) = (if map_of example_settings (param_name e) = None then NUL else CHR 0x01)))"
  by (rule conf_roundtrip [OF example_table_ok example_settings_ok]) (simp add: example_settings_def)

section \<open>Where the reader surprises\<close>

text \<open>
  A parameter that comes twice hides the rest of the file. Lines are read until as many values were
  taken as the table has entries; when the first of two parameters comes twice, the second one is never
  read, and keeps its bytes.
\<close>

theorem conf_repeated_hides:
  assumes "table_ok [e, f]" "param_type e = CHR ''s''" "setting_ok (param_name e, v1)" "setting_ok (param_name e, v2)"
    "setting_ok (param_name f, w)"
  shows "\<exists>mem'. loc_read_conf_r bits atof (Some (print_conf [(param_name e, v1), (param_name e, v2), (param_name f, w)])) [e, f] mem =
       (0, setting_line (param_name f, w), mem') \<and>
     holds bits e v2 mem' \<and> peek (param_ptr f) (width f) mem' = peek (param_ptr f) (width f) mem"
proof -
  let ?s1 = "(param_name e, v1)" and ?s2 = "(param_name e, v2)" and ?m = "clear_sets [e, f] mem"
  define m' where "m' = store_value bits e v2 (store_value bits e v1 ?m)"
  have good: "good_setting ?s1" "good_setting ?s2" using assms(3,4) by (simp_all add: setting_ok_def)
  have fill: "loc_fill_conf_item bits atof (c_string (setting_line (param_name e, v))) [e, f] m = (1, store_value bits e v m)"
    if "setting_ok (param_name e, v)" for v m
    using fill_line [of "(param_name e, v)"] entries_found [OF assms(1), of e "(param_name e, v)"] that by (simp add: setting_ok_def)
  have rd: "read_loop bits atof [e, f] 2 (setting_line ?s1 @ setting_line ?s2 @ setting_line (param_name f, w)) ?m =
      (setting_line (param_name f, w), m')"
    by (subst read_loop.simps) (simp add: fgets_line [OF good(1)] fill [OF assms(3)], subst read_loop.simps,
        simp add: fgets_line [OF good(2)] fill [OF assms(4)], subst read_loop.simps, simp add: m'_def)
  have len: "length v1 < LOC_MAX_PARAM_STRING" "length v2 < LOC_MAX_PARAM_STRING" "NUL \<notin> set v2"
    using assms(3,4) by (auto simp: setting_ok_def good_setting_def good_text_def)
  have "param_name e \<noteq> param_name f" using assms(1) by (simp add: table_ok_def)
  then have "e \<noteq> f" by auto
  then have dis: "region e \<inter> region f = {}" using assms(1) by (auto simp: table_ok_def)
  have "m' x = mem x" if x: "x \<in> {param_ptr f..<param_ptr f + width f}" for x
  proof -
    have "x \<notin> region e" using x dis subsetD [OF region_finite x] by auto
    then show ?thesis using store_out len(1,2) clear_region [OF assms(1) _ x, of mem] by (simp add: m'_def)
  qed
  then have "peek (param_ptr f) (width f) m' = peek (param_ptr f) (width f) mem" by (simp add: peek_def)
  moreover have "holds bits e v2 m'"
    unfolding m'_def by (rule store_holds(1) [OF len(2,3)]) (use assms(1) in \<open>simp add: table_ok_def\<close>)
  moreover have "loc_read_conf_r bits atof (Some (print_conf [?s1, ?s2, (param_name f, w)])) [e, f] mem = (0, setting_line (param_name f, w), m')"
    using rd by (simp add: loc_read_conf_r_def print_conf_def)
  ultimately show ?thesis by blast
qed

theorem conf_repeated_hides_witness:
  "\<exists>mem'. loc_read_conf_r 64 (\<lambda>s. replicate 8 NUL) (Some (print_conf [(''NTP'', ''a''), (''NTP'', ''b''), (''LEVEL'', ''3'')]))
       [example_table ! 0, example_table ! 1] (\<lambda>a. NUL) = (0, setting_line (''LEVEL'', ''3''), mem') \<and>
     holds 64 (example_table ! 0) ''b'' mem' \<and>
     peek 2000 (width (example_table ! 1)) mem' = peek 2000 (width (example_table ! 1)) (\<lambda>a. NUL)"
  using conf_repeated_hides [of "example_table ! 0" "example_table ! 1" "''a''" "''b''" "''3''" 64 "\<lambda>s. replicate 8 NUL" "\<lambda>a. NUL"]
  by (simp add: example_table_def table_ok_def region_def width_def setting_ok_def good_setting_def good_text_def c_isspace_def
      LOC_MAX_PARAM_STRING_def LOC_MAX_PARAM_LINE_def)

text \<open>
  A value that fills its variable writes beyond it. The reader copies up to 81 bytes into a variable
  of 80, so a string of 80 characters or more clears the first byte of whatever lies behind.
\<close>

theorem conf_long_value_overflows:
  assumes "param_name e = v_name v" "param_ptr e \<noteq> 0" "param_type e = CHR ''s''" "LOC_MAX_PARAM_STRING \<le> length (v_str_value v)"
    "param_set e \<noteq> param_ptr e + LOC_MAX_PARAM_STRING"
  shows "fst (loc_set_config_entry e v mem) \<and>
     snd (loc_set_config_entry e v mem) (param_ptr e + LOC_MAX_PARAM_STRING) = NUL"
proof -
  have "v_str_value v \<noteq> ''NULL''" using assms(4) by (auto simp: LOC_MAX_PARAM_STRING_def)
  then show ?thesis using assms
    by (simp add: loc_set_config_entry_def strlcpy_def mark_set_def poke_def nth_append LOC_MAX_PARAM_STRING_def Let_def)
qed

theorem conf_long_value_overflows_witness:
  "let v = parse_value 64 (\<lambda>s. replicate 8 NUL) ''NTP'' (replicate 90 CHR ''a'') in
   fst (loc_set_config_entry (example_table ! 0) v (\<lambda>a. CHR ''z'')) \<and>
     snd (loc_set_config_entry (example_table ! 0) v (\<lambda>a. CHR ''z'')) 1080 = NUL"
  using conf_long_value_overflows [of "example_table ! 0" "parse_value 64 (\<lambda>s. replicate 8 NUL) ''NTP'' (replicate 90 CHR ''a'')" "\<lambda>a. CHR ''z''"]
  by (simp add: example_table_def LOC_MAX_PARAM_STRING_def Let_def)

text \<open>
  \<open>loc_update_conf\<close> starts \<open>one record off\<close>: with a table of one entry no line is looked at.
\<close>

lemma update_conf_skips_only:
  "len \<noteq> 0 \<Longrightarrow> len \<le> length d \<Longrightarrow> loc_update_conf bits atof (Some d) len True [e] mem = Some (0, mem)"
  by (simp add: loc_update_conf_def) (simp add: update_loop.simps)

text \<open>With a \<open>long\<close> of 32 bits, hexadecimal numbers with the highest bit set lose their value.\<close>

lemma hex_clamped:
  "number_of 64 ''0xFFFFFFFE'' = 0xFFFFFFFE" "number_of 32 ''0xFFFFFFFE'' = 0x7FFFFFFF"
  by (simp_all add: number_of_def strtol_def digit_value_def c_isspace_def)

end
