(* ===== verification/LocProcConfProofs.thy ===== *)
theory LocProcConfProofs
  imports LocProcConf LocCfgProofs
begin

text \<open>
  Which processes are launched: the code's masks agree with a reading of the configured lists, the
  arrays of a process are never overrun, and what happens to groups that are unknown and to files that
  name many processes.
\<close>

unbundle bit_operations_syntax

section \<open>Strings of the structure\<close>

lemma conf_str_cut:
  assumes "length (conf_str C off mem) < n" "off + n \<le> conf_bytes"
  shows "conf_str C off mem = str_at (C + off) n mem" "mem (C + off + length (conf_str C off mem)) = NUL"
proof -
  let ?l = "peek (C + off) (conf_bytes - off) mem" and ?s = "conf_str C off mem"
  have s: "?s = takeWhile (\<lambda>c. c \<noteq> NUL) ?l" by (simp add: conf_str_def str_at_def c_string_def)
  have len: "length ?l = conf_bytes - off" by (simp add: peek_def)
  have short: "length ?s < length ?l" using assms len by linarith
  then have nth: "?l ! length ?s = NUL" using nth_length_takeWhile [of "\<lambda>c. c \<noteq> NUL" ?l] unfolding s by simp
  have at: "mem (C + off + length ?s) = NUL" using nth short len by (simp add: peek_def)
  have "peek (C + off) n mem = take n ?l" using assms(2) by (simp add: peek_def take_map)
  also have "takeWhile (\<lambda>c. c \<noteq> NUL) (take n ?l) = ?s"
  proof -
    have "take n ?l ! length ?s = NUL" "length ?s < length (take n ?l)" using nth assms(1) short by simp_all
    then have "NUL \<in> set (take n ?l)" by (metis nth_mem)
    then have "takeWhile (\<lambda>c. c \<noteq> NUL) (take n ?l @ drop n ?l) = takeWhile (\<lambda>c. c \<noteq> NUL) (take n ?l)"
      by (rule takeWhile_append1) simp
    then show ?thesis unfolding s by simp
  qed
  finally show "conf_str C off mem = str_at (C + off) n mem" by (simp add: str_at_def c_string_def)
  show "mem (C + off + length ?s) = NUL" by (rule at)
qed

lemma conf_str_cong:
  assumes "length (conf_str C off mem) < 80" "off + 80 \<le> conf_bytes"
    "\<And>x. C + off \<le> x \<Longrightarrow> x < C + off + 80 \<Longrightarrow> mem' x = mem x"
  shows "conf_str C off mem' = conf_str C off mem"
proof -
  let ?s = "conf_str C off mem"
  have cut: "?s = str_at (C + off) 80 mem" "mem (C + off + length ?s) = NUL"
    by (rule conf_str_cut [OF assms(1,2)])+
  have peek: "peek (C + off) 80 mem' = peek (C + off) 80 mem" using assms(3) by (simp add: peek_def)
  let ?l = "peek (C + off) (conf_bytes - off) mem'"
  have split: "?l = peek (C + off) 80 mem' @ map mem' [C + off + 80..<C + conf_bytes]"
  proof -
    have "[C + off..<C + off + (80 + (conf_bytes - off - 80))] = [C + off..<C + off + 80] @ [C + off + 80..<C + off + 80 + (conf_bytes - off - 80)]"
      using upt_add_eq_append [of "C + off" "C + off + 80" "conf_bytes - off - 80"] by (simp add: add.assoc)
    moreover have "C + off + (80 + (conf_bytes - off - 80)) = C + off + (conf_bytes - off)" "C + off + 80 + (conf_bytes - off - 80) = C + conf_bytes"
      using assms(2) by simp_all
    ultimately show ?thesis by (simp only: peek_def map_append)
  qed
  have nul: "NUL \<in> set (peek (C + off) 80 mem')"
    unfolding peek using cut(2) assms(1) by (auto simp: peek_def intro: image_eqI [where x = "C + off + length ?s"])
  have "conf_str C off mem' = takeWhile (\<lambda>c. c \<noteq> NUL) (peek (C + off) 80 mem')"
    unfolding conf_str_def str_at_def c_string_def split using nul by (simp add: takeWhile_append1)
  then show ?thesis unfolding peek using cut(1) by (simp add: str_at_def c_string_def)
qed

section \<open>Splitting\<close>

lemma c_string_no_nul: "NUL \<notin> set (c_string l)"
  by (auto simp: c_string_def dest: set_takeWhileD)

lemma split_words:
  assumes "NUL \<notin> set s"
  obtains buf ptrs where "loc_util_split_string (Some (s @ NUL # r)) True n d = Some (int (length ptrs), Some buf, ptrs)"
    "map (\<lambda>p. c_string (drop p buf)) ptrs = take (max 1 (nat n)) (split_on d s)" "drop (length s) buf = NUL # r"
    "length buf = length s + 1 + length r"
proof -
  obtain buf qs where b: "split_loop (length s + 1) n d 0 (s @ NUL # r) [0] 0 = (length qs, buf, qs)"
    "map (\<lambda>p. c_string (drop p buf)) qs = take (max 1 (nat n)) (hd (split_on d s) # tl (split_on d s))"
    "drop (length s) buf = NUL # r"
    using split_loop_ok [OF assms, of "[]" "[]" n d r "[]"] by auto
  have "length (drop (length s) buf) = Suc (length r)" using b(3) by simp
  then have "length buf = length s + 1 + length r" by simp
  with b that strlen_append [OF assms, of r] show ?thesis by (simp add: loc_util_split_string_def)
qed

lemma conf_str_nul:
  assumes "length (conf_str C off mem) < conf_bytes - off"
  shows "mem (C + off + length (conf_str C off mem)) = NUL"
  by (rule conf_str_cut(2) [OF assms]) (use assms in simp)

lemma split_field_runs:
  assumes "length (conf_str C off mem) < conf_bytes - off"
  obtains mem' where "split_field C off mem = Some (take MAX_NUM_STRINGS (split_on CHR '' '' (conf_str C off mem)), mem')"
    "\<forall>x. x < C + off \<or> C + off + length (conf_str C off mem) \<le> x \<longrightarrow> mem' x = mem x"
proof -
  let ?s = "conf_str C off mem" and ?l = "peek (C + off) (conf_bytes - off) mem"
  have sl: "?s = takeWhile (\<lambda>c. c \<noteq> NUL) ?l" by (simp add: conf_str_def str_at_def c_string_def)
  have len: "length ?l = conf_bytes - off" by (simp add: peek_def)
  have lt: "length ?s < length ?l" using assms len by simp
  have "?l = take (length ?s) ?l @ ?l ! length ?s # drop (Suc (length ?s)) ?l" by (rule id_take_nth_drop [OF lt])
  moreover have "take (length ?s) ?l = ?s" unfolding sl using takeWhile_eq_take [of "\<lambda>c. c \<noteq> NUL" ?l] by simp
  moreover have "?l ! length ?s = NUL" using conf_str_nul [OF assms] lt len by (simp add: peek_def)
  ultimately have l: "?l = ?s @ NUL # drop (Suc (length ?s)) ?l" (is "_ = _ @ _ # ?r") by simp
  have no: "NUL \<notin> set ?s" unfolding sl by (auto dest: set_takeWhileD)
  obtain buf ptrs where b: "loc_util_split_string (Some (?s @ NUL # ?r)) True (int MAX_NUM_STRINGS) CHR '' '' = Some (int (length ptrs), Some buf, ptrs)"
    "map (\<lambda>p. c_string (drop p buf)) ptrs = take (max 1 (nat (int MAX_NUM_STRINGS))) (split_on CHR '' '' ?s)"
    "drop (length ?s) buf = NUL # ?r" "length buf = length ?s + 1 + length ?r"
    using split_words [OF no] by metis
  have lb: "length buf = length ?l" using b(4) len lt by simp
  have eq: "split_field C off mem = Some (take MAX_NUM_STRINGS (split_on CHR '' '' ?s), poke (C + off) buf mem)"
    unfolding split_field_def using b(1,2) l by (simp add: MAX_NUM_STRINGS_def)
  have same: "poke (C + off) buf mem x = mem x" if "x < C + off \<or> C + off + length ?s \<le> x" for x
  proof (cases "x < C + off \<or> C + off + length buf \<le> x")
    case True then show ?thesis by (rule poke_out)
  next
    case False
    define i where "i = x - (C + off)"
    have i: "x = C + off + i" "i < length buf" "length ?s \<le> i" using False that by (auto simp: i_def)
    have "buf ! i = drop (length ?s) buf ! (i - length ?s)" using i by simp
    also have "\<dots> = drop (length ?s) ?l ! (i - length ?s)" using b(3) l by (metis append_eq_conv_conj)
    also have "\<dots> = ?l ! i" using i lb by simp
    also have "\<dots> = mem x" using i lb len by (simp add: peek_def)
    finally show ?thesis using i poke_in [of i buf "C + off" mem] by simp
  qed
  show ?thesis by (rule that [OF eq]) (use same in blast)
qed

lemma split_field_ok:
  assumes "length (conf_str C off mem) < 80" "off + 80 \<le> conf_bytes"
  obtains mem' where "split_field C off mem = Some (take MAX_NUM_STRINGS (split_on CHR '' '' (conf_str C off mem)), mem')"
    "\<forall>x. x < C + off \<or> C + off + 80 \<le> x \<longrightarrow> mem' x = mem x" "mem' (C + off + length (conf_str C off mem)) = NUL"
proof -
  have fits: "length (conf_str C off mem) < conf_bytes - off" using assms by simp
  obtain mem' where m: "split_field C off mem = Some (take MAX_NUM_STRINGS (split_on CHR '' '' (conf_str C off mem)), mem')"
    "\<forall>x. x < C + off \<or> C + off + length (conf_str C off mem) \<le> x \<longrightarrow> mem' x = mem x"
    by (rule split_field_runs [OF fits])
  show ?thesis by (rule that [OF m(1)]) (use m(2) assms(1) conf_str_nul [OF fits] in simp_all)
qed

section \<open>Which processes are launched\<close>

text \<open>A list of words selects a name: by naming it, or by \<open>all\<close>, perhaps with words that are excluded.\<close>

definition list_selects :: "string \<Rightarrow> (string \<Rightarrow> bool) \<Rightarrow> string list \<Rightarrow> bool" where
  "list_selects nm extra ws =
     (case ws of
        [] \<Rightarrow> False
      | w # rest \<Rightarrow>
          if w = ''all'' then rest = [] \<or> hd rest = ''exclude'' \<and> nm \<notin> set (tl rest)
          else \<exists>x \<in> set ws. nm = x \<or> extra x)"

definition words_of :: "string \<Rightarrow> string list" where
  "words_of s = take MAX_NUM_STRINGS (split_on CHR '' '' s)"

definition string_fields :: "nat set" where
  "string_fields = {off_proc_name, off_proc_argument, off_proc_status, off_group_list, off_platform_list, off_baseband, off_auto_platform}"

definition list_fields :: "nat set" where
  "list_fields = {off_group_list, off_platform_list, off_baseband, off_auto_platform}"

definition fields_fit :: "nat \<Rightarrow> memory \<Rightarrow> bool" where
  "fields_fit C mem \<longleftrightarrow> (\<forall>off \<in> list_fields. length (conf_str C off mem) < LOC_MAX_PARAM_STRING)"

definition place_selects :: "proc_env \<Rightarrow> memory \<Rightarrow> bool" where
  "place_selects env mem =
     (let ws = (\<lambda>off. words_of (conf_str (conf_addr env) off mem)) in
      list_selects (platform_name env) (\<lambda>x. False) (ws off_platform_list) \<and>
      list_selects (baseband_name env) (\<lambda>x. x = ''sglte'' \<and> int_at (conf_addr env + off_sglte_target) mem \<noteq> 0) (ws off_baseband) \<and>
      (ws off_auto_platform ! 0 = ''all'' \<or> autoplatform_name env \<in> set (ws off_auto_platform)))"

definition launches :: "proc_env \<Rightarrow> 32 word \<Rightarrow> memory \<Rightarrow> bool" where
  "launches env sm mem \<longleftrightarrow>
     (\<forall>off \<in> string_fields - {off_proc_argument}. conf_str (conf_addr env) off mem \<noteq> []) \<and>
     conf_str (conf_addr env) off_proc_status mem \<noteq> ''DISABLED'' \<and>
     length (conf_str (conf_addr env) off_proc_name mem) < LOC_MAX_PARAM_STRING \<and> place_selects env mem \<and>
     (int_at (conf_addr env + off_premium_feature) mem = 0 \<or> int_at (conf_addr env + off_loc_feature_mask) mem AND sm \<noteq> 0)"

lemma words_of_ne [simp]: "words_of s \<noteq> []"
  by (cases "split_on CHR '' '' s") (auto simp: words_of_def MAX_NUM_STRINGS_def)

lemma match_words_cases:
  "match_words nm extra a f ws m = (if ws \<noteq> [] \<and> hd ws = ''all'' \<and> (length ws = 1 \<or> length ws = 2 \<and> ws ! 1 = ''exclude'') then m OR a
     else if list_selects nm extra ws then m OR f
     else if ws \<noteq> [] \<and> hd ws = ''all'' \<and> length ws > 2 \<and> ws ! 1 = ''exclude'' then (m OR f) AND NOT f else m)"
proof (cases ws)
  case Nil then show ?thesis by (simp add: match_words_def list_selects_def)
next
  case (Cons w rest)
  show ?thesis
  proof (cases rest)
    case Nil then show ?thesis using Cons by (auto simp: match_words_def list_selects_def)
  next
    case (Cons v vs)
    then show ?thesis using \<open>ws = w # rest\<close> by (cases vs) (auto simp: match_words_def list_selects_def Let_def)
  qed
qed

lemma list_selects_all: "ws \<noteq> [] \<and> hd ws = ''all'' \<and> (length ws = 1 \<or> length ws = 2 \<and> ws ! 1 = ''exclude'') \<Longrightarrow> list_selects nm extra ws"
  by (cases ws; cases "tl ws") (auto simp: list_selects_def)

lemma target_match:
  "match_words nm extra TARGET_ALL TARGET_FOUND ws 0 \<in> (if list_selects nm extra ws then {1, 2} else {0})"
  using list_selects_all [of ws nm extra] unfolding match_words_cases by (simp add: config_masks)

lemma baseband_match:
  "m \<in> {0, 1, 2} \<Longrightarrow> match_words nm extra BASEBAND_ALL BASEBAND_FOUND ws m \<in> (if list_selects nm extra ws then {m OR 4, m OR 8} else {m})"
  using list_selects_all [of ws nm extra] unfolding match_words_cases by (auto simp: config_masks)

lemma selected_iff:
  assumes "as \<noteq> []"
  shows "selected (config_mask env sg ps bs as) \<longleftrightarrow> list_selects (platform_name env) (\<lambda>x. False) ps \<and>
    list_selects (baseband_name env) (\<lambda>x. x = ''sglte'' \<and> sg) bs \<and> (as ! 0 = ''all'' \<or> autoplatform_name env \<in> set as)"
proof -
  let ?t = "match_words (platform_name env) (\<lambda>x. False) TARGET_ALL TARGET_FOUND ps 0"
  let ?b = "match_words (baseband_name env) (\<lambda>x. x = ''sglte'' \<and> sg) BASEBAND_ALL BASEBAND_FOUND bs ?t"
  let ?T = "list_selects (platform_name env) (\<lambda>x. False) ps" and ?B = "list_selects (baseband_name env) (\<lambda>x. x = ''sglte'' \<and> sg) bs"
  have t: "?t \<in> (if ?T then {1, 2} else {0})" by (rule target_match)
  then have "?t \<in> {0, 1, 2}" by (cases ?T) simp_all
  then have b: "?b \<in> (if ?B then {?t OR 4, ?t OR 8} else {?t})" by (rule baseband_match)
  have first: "take 1 as = [''all''] \<longleftrightarrow> as ! 0 = ''all''" using assms by (cases as) simp_all
  have "config_mask env sg ps bs as = match_auto (autoplatform_name env) as ?b" by (simp add: config_mask_def)
  moreover consider "?T" "?B" | "?T" "\<not> ?B" | "\<not> ?T" "?B" | "\<not> ?T" "\<not> ?B" by blast
  then have "?b \<in> (if ?T \<and> ?B then {5, 6, 9, 10} else if ?T then {1, 2} else if ?B then {4, 8} else {0})"
    using t b by cases auto
  ultimately show ?thesis unfolding match_auto_def first
    by (auto simp: selected_def config_masks split: if_splits)
qed

section \<open>The arrays of a process\<close>

definition args_ok :: "string list \<Rightarrow> bool" where
  "args_ok as \<longleftrightarrow> length as = LOC_PROCESS_MAX_NUM_ARGS \<and> (\<forall>a \<in> set as. length a < LOC_PROCESS_MAX_ARG_STR_LENGTH)"

definition process_ok :: "proc_info \<Rightarrow> bool" where
  "process_ok p \<longleftrightarrow> args_ok (args p) \<and> length (group_list p) = LOC_PROCESS_MAX_NUM_GROUPS \<and>
     unat (num_groups p) \<le> LOC_PROCESS_MAX_NUM_GROUPS \<and> length (proc_name p) < LOC_MAX_PARAM_STRING \<and>
     length (argumentString p) < LOC_MAX_PARAM_STRING"

lemma zero_proc_ok [simp]: "process_ok (zero_proc\<lparr>proc_status := x\<rparr>)"
  by (simp add: process_ok_def args_ok_def zero_proc_def LOC_PROCESS_MAX_NUM_ARGS_def LOC_PROCESS_MAX_ARG_STR_LENGTH_def
    LOC_MAX_PARAM_STRING_def)

lemma set_arg_ok:
  assumes "args_ok (args p)" "i < LOC_PROCESS_MAX_NUM_ARGS"
  shows "\<exists>as. set_arg i s p = Some (p\<lparr>args := as\<rparr>) \<and> args_ok as"
  using assms by (auto simp: set_arg_def args_ok_def LOC_PROCESS_MAX_ARG_STR_LENGTH_def dest!: set_update_subset_insert [THEN subsetD])

lemma push_args_ok:
  "args_ok (args p) \<Longrightarrow> i + length ss \<le> LOC_PROCESS_MAX_NUM_ARGS \<Longrightarrow>
     \<exists>as. push_args ss (i, p) = Some (i + length ss, p\<lparr>args := as\<rparr>) \<and> args_ok as"
proof (induction ss arbitrary: i p)
  case Nil
  then show ?case by (intro exI [of _ "args p"]) simp
next
  case (Cons s ss)
  then obtain as where as: "set_arg i s p = Some (p\<lparr>args := as\<rparr>)" "args_ok as" using set_arg_ok [of p i s] by auto
  have "\<exists>bs. push_args ss (i + 1, p\<lparr>args := as\<rparr>) = Some (i + 1 + length ss, p\<lparr>args := as\<rparr>\<lparr>args := bs\<rparr>) \<and> args_ok bs"
    by (rule Cons.IH) (use as Cons.prems in simp_all)
  then show ?case using as by simp
qed

lemma feature_args_length: "length (feature_args fm sm) \<le> 10"
  by (simp add: feature_args_def)

lemma c_string_snoc: "c_string (t @ [NUL]) = c_string t"
  by (induction t) (auto simp: c_string_def)

lemma file_args_ok:
  assumes "process_ok p" "i \<le> 11" "NUL \<notin> set s"
  shows "\<exists>p'. file_args s i p = Some p' \<and> process_ok p' \<and> proc_status p' = proc_status p"
proof (cases "s = []")
  case True
  then show ?thesis using assms by (simp add: file_args_def)
next
  case False
  let ?c = "take (LOC_MAX_PARAM_STRING - 1) s" and ?n = "int LOC_PROCESS_MAX_NUM_ARGS - int i"
  have "NUL \<notin> set ?c" using assms(3) by (meson in_set_takeD)
  then obtain buf ptrs where b: "loc_util_split_string (Some (?c @ NUL # [])) True ?n CHR '' '' = Some (int (length ptrs), Some buf, ptrs)"
    "map (\<lambda>p. c_string (drop p buf)) ptrs = take (max 1 (nat ?n)) (split_on CHR '' '' ?c)" "drop (length ?c) buf = NUL # []"
    "length buf = length ?c + 1 + length ([] :: string)"
    by (rule split_words)
  have len: "length (map (\<lambda>p. c_string (drop p buf)) ptrs) \<le> LOC_PROCESS_MAX_NUM_ARGS - i"
    unfolding b(2) using assms(2) by (simp add: LOC_PROCESS_MAX_NUM_ARGS_def)
  let ?p = "p\<lparr>argumentString := c_string buf\<rparr>"
  have cs: "length (c_string buf) < LOC_MAX_PARAM_STRING"
  proof -
    have "buf = take (length ?c) buf @ [NUL]" using b(3) by (metis append_take_drop_id)
    then have "c_string buf = c_string (take (length ?c) buf)" using c_string_snoc by metis
    also have "length \<dots> \<le> length ?c" unfolding c_string_def by (rule order_trans [OF length_takeWhile_le]) (simp only: length_take min.cobounded2)
    also have "\<dots> < LOC_MAX_PARAM_STRING" by (simp add: LOC_MAX_PARAM_STRING_def)
    finally show ?thesis .
  qed
  have ok: "args_ok (args ?p)" using assms(1) by (simp add: process_ok_def)
  have "i + length (map (\<lambda>p. c_string (drop p buf)) ptrs) \<le> LOC_PROCESS_MAX_NUM_ARGS"
    using len assms(2) by (simp add: LOC_PROCESS_MAX_NUM_ARGS_def)
  from push_args_ok [OF ok this] obtain as where
    as: "push_args (map (\<lambda>p. c_string (drop p buf)) ptrs) (i, ?p) = Some (i + length (map (\<lambda>p. c_string (drop p buf)) ptrs), ?p\<lparr>args := as\<rparr>)" "args_ok as"
    by blast
  have "file_args s i p = Some (?p\<lparr>args := as\<rparr>)" using False b(1) as(1) by (simp add: file_args_def Let_def)
  then show ?thesis using assms(1) as(2) cs by (simp add: process_ok_def)
qed

lemma launch_ok:
  assumes "process_ok p" "NUL \<notin> set s"
  shows "\<exists>p'. launch premium fm sm s p = Some p' \<and> process_ok p' \<and>
    proc_status p' = (if premium = 0 \<or> fm AND sm \<noteq> 0 then ENABLED else proc_status p)"
proof -
  have a: "args_ok (args p)" "0 + length [basename (proc_name p)] \<le> LOC_PROCESS_MAX_NUM_ARGS"
    using assms(1) by (simp_all add: process_ok_def LOC_PROCESS_MAX_NUM_ARGS_def)
  obtain as where as: "push_args [basename (proc_name p)] (0, p) = Some (1, p\<lparr>args := as\<rparr>)" "args_ok as"
    using push_args_ok [OF a] by auto
  let ?p = "p\<lparr>args := as\<rparr>" and ?e = "p\<lparr>args := as, proc_status := ENABLED\<rparr>"
  have p: "process_ok ?p" "process_ok ?e" using assms(1) as(2) by (simp_all add: process_ok_def)
  consider "premium = 0" | "premium \<noteq> 0" "fm AND sm = 0" | "premium \<noteq> 0" "fm AND sm \<noteq> 0" by blast
  then show ?thesis
  proof cases
    case 1
    then show ?thesis using file_args_ok [OF p(2) _ assms(2), of 1] as(1) by (auto simp: launch_def)
  next
    case 2
    then show ?thesis using file_args_ok [OF p(1) _ assms(2), of 1] as(1) by (auto simp: launch_def)
  next
    case 3
    let ?f = "feature_args fm sm"
    have "args_ok (args ?e)" "1 + length ?f \<le> LOC_PROCESS_MAX_NUM_ARGS"
      using as(2) feature_args_length [of fm sm] by (simp_all add: LOC_PROCESS_MAX_NUM_ARGS_def)
    from push_args_ok [OF this] obtain bs where bs: "push_args ?f (1, ?e) = Some (1 + length ?f, ?e\<lparr>args := bs\<rparr>)" "args_ok bs" by blast
    have "process_ok (?e\<lparr>args := bs\<rparr>)" using p(2) bs(2) by (simp add: process_ok_def)
    from file_args_ok [OF this _ assms(2), of "1 + length ?f"] show ?thesis
      using 3 as(1) bs(1) feature_args_length [of fm sm] by (auto simp: launch_def)
  qed
qed

section \<open>Groups\<close>

lemma fill_groups_ok:
  "i + length gs \<le> length (group_list p) \<Longrightarrow>
     \<exists>gl. fill_groups gid i gs p =
         Some (p\<lparr>group_list := gl, num_groups := num_groups p + word_of_nat (length (filter (\<lambda>g. gid g \<noteq> None) gs))\<rparr>) \<and>
       length gl = length (group_list p) \<and>
       (\<forall>j < length (group_list p). gl ! j =
          (if i \<le> j \<and> j < i + length gs then (case gid (gs ! (j - i)) of None \<Rightarrow> group_list p ! j | Some n \<Rightarrow> n) else group_list p ! j))"
proof (induction gs arbitrary: i p)
  case Nil
  then show ?case by (intro exI [of _ "group_list p"]) simp
next
  case (Cons g gs)
  show ?case
  proof (cases "gid g")
    case None
    have "i + 1 + length gs \<le> length (group_list p)" using Cons.prems by simp
    from Cons.IH [OF this] obtain gl where gl: "fill_groups gid (i + 1) gs p =
        Some (p\<lparr>group_list := gl, num_groups := num_groups p + word_of_nat (length (filter (\<lambda>g. gid g \<noteq> None) gs))\<rparr>)"
      "length gl = length (group_list p)"
      "\<forall>j < length (group_list p). gl ! j = (if i + 1 \<le> j \<and> j < i + 1 + length gs then (case gid (gs ! (j - (i + 1))) of None \<Rightarrow> group_list p ! j | Some n \<Rightarrow> n) else group_list p ! j)"
      by blast
    then show ?thesis using None by (intro exI [of _ gl]) (auto simp: nth_Cons' le_Suc_eq less_Suc_eq not_less_eq_eq Suc_le_eq)
  next
    case (Some n)
    let ?p = "p\<lparr>group_list := (group_list p)[i := n], num_groups := num_groups p + 1\<rparr>"
    have "i + 1 + length gs \<le> length (group_list ?p)" using Cons.prems by simp
    from Cons.IH [OF this] obtain gl where gl: "fill_groups gid (i + 1) gs ?p =
        Some (?p\<lparr>group_list := gl, num_groups := num_groups ?p + word_of_nat (length (filter (\<lambda>g. gid g \<noteq> None) gs))\<rparr>)"
      "length gl = length (group_list ?p)"
      "\<forall>j < length (group_list ?p). gl ! j = (if i + 1 \<le> j \<and> j < i + 1 + length gs then (case gid (gs ! (j - (i + 1))) of None \<Rightarrow> group_list ?p ! j | Some n \<Rightarrow> n) else group_list ?p ! j)"
      by blast
    then show ?thesis using Some Cons.prems
      by (intro exI [of _ gl]) (auto simp: nth_Cons' nth_list_update Suc_le_eq less_Suc_eq split: option.splits)
  qed
qed

section \<open>A process\<close>

lemma field_bound: "off \<in> string_fields \<Longrightarrow> off + 80 \<le> conf_bytes"
  by (auto simp: string_fields_def offsets)

lemma field_apart: "off \<in> string_fields \<Longrightarrow> off' \<in> string_fields \<union> {off_sglte_target, off_premium_feature, off_loc_feature_mask} \<Longrightarrow>
    off \<noteq> off' \<Longrightarrow> off + 80 \<le> off' \<or> off' + (if off' \<in> string_fields then 80 else 4) \<le> off"
  by (auto simp: string_fields_def offsets)

lemma int_at_cong: "(\<And>x. a \<le> x \<Longrightarrow> x < a + 4 \<Longrightarrow> mem' x = mem x) \<Longrightarrow> int_at a mem' = int_at a mem"
  unfolding int_at_def by (rule fold_cong) simp_all

text \<open>Splitting a field keeps the others.\<close>

lemma list_field_in: "off \<in> list_fields \<Longrightarrow> off \<in> string_fields"
  by (auto simp: list_fields_def string_fields_def)

lemma split_keeps:
  assumes "fields_fit C mem" "off \<in> list_fields"
  obtains mem' where "split_field C off mem = Some (words_of (conf_str C off mem), mem')"
    "\<And>o'. o' \<in> list_fields \<Longrightarrow> o' \<noteq> off \<Longrightarrow> conf_str C o' mem' = conf_str C o' mem"
    "\<And>o'. o' \<in> {off_sglte_target, off_premium_feature, off_loc_feature_mask} \<Longrightarrow> int_at (C + o') mem' = int_at (C + o') mem"
    "length (conf_str C off mem') < LOC_MAX_PARAM_STRING"
proof -
  have short: "length (conf_str C o' mem) < 80" if "o' \<in> list_fields" for o'
    using assms(1) that by (auto simp: fields_fit_def LOC_MAX_PARAM_STRING_def)
  note list = list_field_in [OF assms(2)]
  obtain mem' where m: "split_field C off mem = Some (take MAX_NUM_STRINGS (split_on CHR '' '' (conf_str C off mem)), mem')"
    "\<forall>x. x < C + off \<or> C + off + 80 \<le> x \<longrightarrow> mem' x = mem x" "mem' (C + off + length (conf_str C off mem)) = NUL"
    using split_field_ok [OF short [OF assms(2)] field_bound [OF list]] by metis
  have others: "conf_str C o' mem' = conf_str C o' mem" if o': "o' \<in> list_fields" "o' \<noteq> off" for o'
  proof (rule conf_str_cong [OF short [OF o'(1)] field_bound [OF list_field_in [OF o'(1)]]])
    fix x assume "C + o' \<le> x" "x < C + o' + 80"
    then show "mem' x = mem x" using field_apart [OF list, of o'] o' list_field_in [OF o'(1)] by (intro m(2) [rule_format]) (auto split: if_splits)
  qed
  have ints: "int_at (C + o') mem' = int_at (C + o') mem" if o': "o' \<in> {off_sglte_target, off_premium_feature, off_loc_feature_mask}" for o'
  proof (rule int_at_cong)
    fix x assume x: "C + o' \<le> x" "x < C + o' + 4"
    have "o' \<notin> string_fields" using o' by (auto simp: string_fields_def offsets)
    then have "off + 80 \<le> o' \<or> o' + 4 \<le> off" using field_apart [OF list, of o'] o' list by auto
    then show "mem' x = mem x" using x by (intro m(2) [rule_format]) linarith
  qed
  have "length (conf_str C off mem') \<le> length (conf_str C off mem)"
  proof -
    let ?k = "length (conf_str C off mem)" and ?l = "peek (C + off) (conf_bytes - off) mem'"
    have k: "?k < length ?l" using short [OF assms(2)] field_bound [OF list] by (simp add: peek_def)
    then have "?l ! ?k = NUL" using m(3) by (simp add: peek_def)
    moreover have "takeWhile (\<lambda>c. c \<noteq> NUL) ?l ! ?k \<noteq> NUL" if "?k < length (takeWhile (\<lambda>c. c \<noteq> NUL) ?l)"
      using nth_mem [OF that] by (auto dest: set_takeWhileD)
    ultimately have "\<not> ?k < length (takeWhile (\<lambda>c. c \<noteq> NUL) ?l)" using takeWhile_nth by fastforce
    then show ?thesis by (simp add: conf_str_def str_at_def c_string_def)
  qed
  then have "length (conf_str C off mem') < LOC_MAX_PARAM_STRING" using short [OF assms(2)] by (simp add: LOC_MAX_PARAM_STRING_def)
  with m(1) others ints that show ?thesis by (simp add: words_of_def)
qed

lemma conf_str_no_nul: "NUL \<notin> set (conf_str C off mem)"
  by (simp add: conf_str_def str_at_def c_string_no_nul)

lemma fields_ne: "(\<exists>off \<in> {off_proc_name, off_group_list, off_platform_list, off_baseband, off_proc_status, off_auto_platform}. f off = []) \<longleftrightarrow>
    \<not> (\<forall>off \<in> string_fields - {off_proc_argument}. f off \<noteq> [])"
  by (auto simp: string_fields_def offsets)

text \<open>The four fields that are split, one after the other.\<close>

lemma split_all:
  assumes fit: "fields_fit C mem"
  obtains m1 m2 m3 m4 where
    "split_field C off_group_list mem = Some (words_of (conf_str C off_group_list mem), m1)"
    "split_field C off_platform_list m1 = Some (words_of (conf_str C off_platform_list mem), m2)"
    "split_field C off_baseband m2 = Some (words_of (conf_str C off_baseband mem), m3)"
    "split_field C off_auto_platform m3 = Some (words_of (conf_str C off_auto_platform mem), m4)"
    "int_at (C + off_sglte_target) m3 = int_at (C + off_sglte_target) mem"
    "int_at (C + off_premium_feature) m4 = int_at (C + off_premium_feature) mem"
    "int_at (C + off_loc_feature_mask) m4 = int_at (C + off_loc_feature_mask) mem"
proof -
  let ?ints = "{off_sglte_target, off_premium_feature, off_loc_feature_mask}"
  have step: "\<exists>m'. split_field C off m = Some (words_of (conf_str C off m), m') \<and> fields_fit C m' \<and>
      (\<forall>o' \<in> list_fields. o' \<noteq> off \<longrightarrow> conf_str C o' m' = conf_str C o' m) \<and> (\<forall>o' \<in> ?ints. int_at (C + o') m' = int_at (C + o') m)"
    if m: "fields_fit C m" "off \<in> list_fields" for m off
  proof -
    obtain m' where m': "split_field C off m = Some (words_of (conf_str C off m), m')"
      "\<And>o'. o' \<in> list_fields \<Longrightarrow> o' \<noteq> off \<Longrightarrow> conf_str C o' m' = conf_str C o' m"
      "\<And>o'. o' \<in> ?ints \<Longrightarrow> int_at (C + o') m' = int_at (C + o') m" "length (conf_str C off m') < LOC_MAX_PARAM_STRING"
      using split_keeps [OF m] by metis
    then have "fields_fit C m'" using m(1) unfolding fields_fit_def by metis
    then show ?thesis using m' by blast
  qed
  have in_fields: "off_group_list \<in> list_fields" "off_platform_list \<in> list_fields" "off_baseband \<in> list_fields" "off_auto_platform \<in> list_fields"
    by (simp_all add: list_fields_def)
  have apart: "off_platform_list \<noteq> off_group_list" "off_baseband \<noteq> off_group_list" "off_baseband \<noteq> off_platform_list"
    "off_auto_platform \<noteq> off_group_list" "off_auto_platform \<noteq> off_platform_list" "off_auto_platform \<noteq> off_baseband"
    by (simp_all add: offsets)
  obtain m1 where m1: "split_field C off_group_list mem = Some (words_of (conf_str C off_group_list mem), m1)" "fields_fit C m1"
    "\<forall>o' \<in> list_fields. o' \<noteq> off_group_list \<longrightarrow> conf_str C o' m1 = conf_str C o' mem" "\<forall>o' \<in> ?ints. int_at (C + o') m1 = int_at (C + o') mem"
    using step [OF fit in_fields(1)] by metis
  obtain m2 where m2: "split_field C off_platform_list m1 = Some (words_of (conf_str C off_platform_list m1), m2)" "fields_fit C m2"
    "\<forall>o' \<in> list_fields. o' \<noteq> off_platform_list \<longrightarrow> conf_str C o' m2 = conf_str C o' m1" "\<forall>o' \<in> ?ints. int_at (C + o') m2 = int_at (C + o') m1"
    using step [OF m1(2) in_fields(2)] by metis
  obtain m3 where m3: "split_field C off_baseband m2 = Some (words_of (conf_str C off_baseband m2), m3)" "fields_fit C m3"
    "\<forall>o' \<in> list_fields. o' \<noteq> off_baseband \<longrightarrow> conf_str C o' m3 = conf_str C o' m2" "\<forall>o' \<in> ?ints. int_at (C + o') m3 = int_at (C + o') m2"
    using step [OF m2(2) in_fields(3)] by metis
  obtain m4 where m4: "split_field C off_auto_platform m3 = Some (words_of (conf_str C off_auto_platform m3), m4)"
    "\<forall>o' \<in> ?ints. int_at (C + o') m4 = int_at (C + o') m3"
    using step [OF m3(2) in_fields(4)] by metis
  show ?thesis by (rule that [of m1 m2 m3 m4]) (use m1 m2 m3 m4 in_fields apart in simp_all)
qed

lemma fill_process_selected:
  assumes fit: "fields_fit C mem" and C: "C = conf_addr env"
    and ne: "\<forall>off \<in> string_fields - {off_proc_argument}. conf_str C off mem \<noteq> []" "conf_str C off_proc_status mem \<noteq> ''DISABLED''"
    and name: "length (conf_str C off_proc_name mem) < LOC_MAX_PARAM_STRING"
  shows "\<exists>p mem'. fill_process env sm mem = Some (p, mem') \<and> process_ok p \<and>
    proc_status p = (if launches env sm mem then ENABLED else DISABLED)"
proof -
  let ?s = "\<lambda>off. conf_str C off mem" and ?i = "\<lambda>off. int_at (C + off) mem"
  obtain m1 m2 m3 m4 where m: "split_field C off_group_list mem = Some (words_of (?s off_group_list), m1)"
    "split_field C off_platform_list m1 = Some (words_of (?s off_platform_list), m2)"
    "split_field C off_baseband m2 = Some (words_of (?s off_baseband), m3)"
    "split_field C off_auto_platform m3 = Some (words_of (?s off_auto_platform), m4)"
    "int_at (C + off_sglte_target) m3 = ?i off_sglte_target" "int_at (C + off_premium_feature) m4 = ?i off_premium_feature"
    "int_at (C + off_loc_feature_mask) m4 = ?i off_loc_feature_mask"
    by (rule split_all [OF fit])
  let ?known = "filter (\<lambda>g. user_gid env g \<noteq> None) (words_of (?s off_group_list))"
  let ?p = "zero_proc\<lparr>proc_status := DISABLED, proc_name := ?s off_proc_name, num_groups := 0\<rparr>"
  have gl: "length (group_list ?p) = LOC_PROCESS_MAX_NUM_GROUPS" by (simp add: zero_proc_def)
  have few: "0 + length (words_of (?s off_group_list)) \<le> length (group_list ?p)"
    unfolding gl by (simp add: words_of_def MAX_NUM_STRINGS_def LOC_PROCESS_MAX_NUM_GROUPS_def)
  from fill_groups_ok [OF few, of "user_gid env"] obtain gs where gs: "fill_groups (user_gid env) 0 (words_of (?s off_group_list)) ?p =
      Some (?p\<lparr>group_list := gs, num_groups := num_groups ?p + word_of_nat (length ?known)\<rparr>)" "length gs = length (group_list ?p)" by blast
  let ?q = "?p\<lparr>group_list := gs, num_groups := num_groups ?p + word_of_nat (length ?known)\<rparr>"
  have "length ?known \<le> 20" by (rule order_trans [OF length_filter_le]) (simp add: words_of_def MAX_NUM_STRINGS_def)
  then have q: "process_ok ?q" "proc_status ?q = DISABLED"
    using zero_proc_ok [of DISABLED] gs(2) gl name
    by (simp_all add: process_ok_def LOC_PROCESS_MAX_NUM_GROUPS_def unat_of_nat)
  obtain p' where p': "launch (?i off_premium_feature) (?i off_loc_feature_mask) sm (conf_str C off_proc_argument m4) ?q = Some p'" "process_ok p'"
    "proc_status p' = (if ?i off_premium_feature = 0 \<or> ?i off_loc_feature_mask AND sm \<noteq> 0 then ENABLED else proc_status ?q)"
    using launch_ok [OF q(1) conf_str_no_nul] by blast
  have "selected (config_mask env (int_at (C + off_sglte_target) m3 \<noteq> 0) (words_of (?s off_platform_list)) (words_of (?s off_baseband)) (words_of (?s off_auto_platform)))
      \<longleftrightarrow> place_selects env mem"
    unfolding selected_iff [OF words_of_ne] place_selects_def Let_def using m(5) C by simp
  then show ?thesis using p' ne name m gs(1) q C fields_ne [of ?s]
    by (cases "place_selects env mem") (simp_all add: fill_process_def Let_def launches_def)
qed

text \<open>
  C18: When the four lists of a process (groups, platforms, basebands, hardware types) have less than 80
  characters each, the process is marked to be launched exactly when its parameters are all given, it is
  not switched off, its name has less than 80 characters, the platform, the baseband and the hardware type
  are selected by its lists, and it is no premium feature or has a feature that is on; and no array of its
  entry is overrun. The name, the state and the argument may have any length.
\<close>

theorem process_enabled_iff:
  assumes "fields_fit (conf_addr env) mem"
  shows "\<exists>p mem'. fill_process env sm mem = Some (p, mem') \<and> process_ok p \<and> (proc_status p = ENABLED \<longleftrightarrow> launches env sm mem)"
proof -
  let ?C = "conf_addr env"
  let ?ne = "\<forall>off \<in> string_fields - {off_proc_argument}. conf_str ?C off mem \<noteq> []" and ?off = "conf_str ?C off_proc_status mem = ''DISABLED''"
  let ?name = "length (conf_str ?C off_proc_name mem) < LOC_MAX_PARAM_STRING"
  consider "\<not> ?ne" | "?ne" "?off" | "?ne" "\<not> ?off" "?name" | "?ne" "\<not> ?off" "\<not> ?name" by blast
  then show ?thesis
  proof cases
    case 1
    then have "fill_process env sm mem = Some (zero_proc\<lparr>proc_status := DISABLED\<rparr>, mem)"
      using fields_ne [of "\<lambda>off. conf_str ?C off mem"] by (simp add: fill_process_def Let_def)
    then show ?thesis using 1 by (auto simp: launches_def)
  next
    case 2
    then have "fill_process env sm mem = Some (zero_proc\<lparr>proc_status := DISABLED_FROM_CONF\<rparr>, mem)"
      using fields_ne [of "\<lambda>off. conf_str ?C off mem"] by (simp add: fill_process_def Let_def)
    then show ?thesis using 2 by (auto simp: launches_def)
  next
    case 3
    from fill_process_selected [OF assms refl this] obtain p mem' where "fill_process env sm mem = Some (p, mem')" "process_ok p"
      "proc_status p = (if launches env sm mem then ENABLED else DISABLED)" by blast
    then show ?thesis by auto
  next
    case 4
    then have "fill_process env sm mem = Some (zero_proc\<lparr>proc_status := DISABLED\<rparr>, mem)"
      using fields_ne [of "\<lambda>off. conf_str ?C off mem"] by (simp add: fill_process_def Let_def)
    then show ?thesis using 4 by (auto simp: launches_def)
  qed
qed

lemma conf_str_poke_other:
  assumes "length (conf_str C off mem) < 80" "off + 80 \<le> conf_bytes" "off + 80 \<le> off' \<or> off' + length t \<le> off"
  shows "conf_str C off (poke (C + off') t mem) = conf_str C off mem"
  by (rule conf_str_cong [OF assms(1,2)]) (use assms(3) in \<open>auto intro: poke_out\<close>)

lemma conf_str_poke:
  assumes "NUL \<notin> set s" "off + length s < conf_bytes"
  shows "conf_str C off (poke (C + off) (s @ [NUL]) mem) = s"
proof -
  have "peek (C + off) (conf_bytes - off) (poke (C + off) (s @ [NUL]) mem) =
      (s @ [NUL]) @ peek (C + off + length (s @ [NUL])) (conf_bytes - off - length (s @ [NUL])) mem"
    by (rule peek_poke_same) (use assms(2) in simp)
  then show ?thesis using c_string_append [OF assms(1)] by (simp add: conf_str_def str_at_def)
qed

lemma conf_str_blank: "conf_str C off (\<lambda>_. NUL) = []"
proof -
  have "peek a n (\<lambda>_. NUL) = replicate n NUL" for a n by (simp add: peek_def map_replicate_const)
  then show ?thesis by (simp add: conf_str_def str_at_def c_string_def takeWhile_replicate)
qed

definition poke_str :: "nat \<Rightarrow> string \<Rightarrow> memory \<Rightarrow> memory" where
  "poke_str a s mem = poke a (s @ [NUL]) mem"

lemma conf_str_poke_str:
  assumes "off \<in> string_fields" "off' \<in> string_fields" "NUL \<notin> set s" "length s < 80" "length (conf_str C off mem) < 80"
  shows "conf_str C off (poke_str (C + off') s mem) = (if off = off' then s else conf_str C off mem)"
proof (cases "off = off'")
  case True
  then show ?thesis using conf_str_poke [OF assms(3), of off C mem] field_bound [OF assms(1)] assms(4) by (simp add: poke_str_def)
next
  case False
  then have "off + 80 \<le> off' \<or> off' + length (s @ [NUL]) \<le> off" using field_apart [OF assms(2), of off] assms by auto
  then show ?thesis using conf_str_poke_other [OF assms(5) field_bound [OF assms(1)]] False by (simp add: poke_str_def)
qed

lemmas fields_in = string_fields_def [THEN eqset_imp_iff]

lemma fields_distinct:
  "distinct [off_proc_name, off_proc_argument, off_proc_status, off_group_list, off_platform_list, off_baseband, off_auto_platform]"
  "distinct [off_auto_platform, off_baseband, off_platform_list, off_group_list, off_proc_status, off_proc_argument, off_proc_name]"
  by (simp_all add: offsets)

definition example_env :: proc_env where
  "example_env = \<lparr>long_bits = 32, atof_bytes = (\<lambda>_. replicate 8 NUL), conf_addr = 4096, log_addr = 64, gps_conf = None,
     conf_file = None, platform_name = ''msm8937'', baseband_name = ''msm'', autoplatform_name = ''no'',
     user_gid = (\<lambda>g. if g = ''gps'' then Some 1021 else None), have_memory = True\<rparr>"

definition example_conf :: memory where
  "example_conf =
     poke_str (4096 + off_proc_name) ''/bin/xtra-daemon'' (poke_str (4096 + off_proc_status) ''ENABLED''
     (poke_str (4096 + off_group_list) ''net gps'' (poke_str (4096 + off_platform_list) ''all exclude apq8053''
     (poke_str (4096 + off_baseband) ''all'' (poke_str (4096 + off_auto_platform) ''all'' (\<lambda>_. NUL))))))"

lemma example_strings:
  "conf_str 4096 off_proc_name example_conf = ''/bin/xtra-daemon''" "conf_str 4096 off_proc_status example_conf = ''ENABLED''"
  "conf_str 4096 off_group_list example_conf = ''net gps''" "conf_str 4096 off_platform_list example_conf = ''all exclude apq8053''"
  "conf_str 4096 off_baseband example_conf = ''all''" "conf_str 4096 off_auto_platform example_conf = ''all''"
  "conf_str 4096 off_proc_argument example_conf = []"
  using fields_distinct unfolding example_conf_def
  by (simp_all add: conf_str_poke_str conf_str_blank fields_in)

theorem process_enabled_iff_witness:
  "\<exists>p mem'. fill_process example_env 0 example_conf = Some (p, mem') \<and> process_ok p \<and>
     (proc_status p = ENABLED \<longleftrightarrow> launches example_env 0 example_conf)"
proof -
  have C: "conf_addr example_env = 4096" by (simp add: example_env_def)
  have "fields_fit (conf_addr example_env) example_conf"
    unfolding C by (simp add: fields_fit_def list_fields_def example_strings LOC_MAX_PARAM_STRING_def)
  then show ?thesis by (rule process_enabled_iff)
qed

section \<open>Unknown groups\<close>

text \<open>
  the entry of a group that is unknown stays 0, the group of the superuser, while the number of
  groups counts the known ones only: if an unknown group comes before the last known one, the first
  \<open>num_groups\<close> entries, which the launcher passes on, leave that last group out.
\<close>

theorem unknown_group_replaces_last:
  assumes "length gs \<le> MAX_NUM_STRINGS" "i < j" "j < length gs" "gid (gs ! i) = None" "gid (gs ! j) = Some n"
    "\<forall>k. j < k \<and> k < length gs \<longrightarrow> gid (gs ! k) = None"
  shows "\<exists>p. fill_groups gid 0 gs zero_proc = Some p \<and> group_list p ! i = 0 \<and> group_list p ! j = n \<and> unat (num_groups p) \<le> j"
proof -
  have few: "0 + length gs \<le> length (group_list zero_proc)"
    using assms(1) by (simp add: zero_proc_def MAX_NUM_STRINGS_def LOC_PROCESS_MAX_NUM_GROUPS_def)
  let ?known = "filter (\<lambda>g. gid g \<noteq> None) gs"
  obtain gl where gl: "fill_groups gid 0 gs zero_proc = Some (zero_proc\<lparr>group_list := gl, num_groups := num_groups zero_proc + word_of_nat (length ?known)\<rparr>)"
    "\<forall>k < length (group_list zero_proc). gl ! k = (if 0 \<le> k \<and> k < 0 + length gs then (case gid (gs ! (k - 0)) of None \<Rightarrow> group_list zero_proc ! k | Some n \<Rightarrow> n) else group_list zero_proc ! k)"
    using fill_groups_ok [OF few] by blast
  have zero: "group_list zero_proc ! k = 0" if "k < length (group_list zero_proc)" for k using that by (simp add: zero_proc_def)
  have at: "gl ! i = 0" "gl ! j = n" using gl(2) zero few assms(2-5) by simp_all
  have "{k. k < length gs \<and> gid (gs ! k) \<noteq> None} \<subseteq> {..j} - {i}"
    using assms(4,6) by (auto simp: not_le [symmetric])
  then have "card {k. k < length gs \<and> gid (gs ! k) \<noteq> None} \<le> card ({..j} - {i})" by (intro card_mono) simp_all
  then have known: "length ?known \<le> j" using assms(2) by (simp add: length_filter_conv_card)
  then have "unat (word_of_nat (length ?known) :: 8 word) \<le> j"
    using assms(1,3) by (simp add: unat_of_nat MAX_NUM_STRINGS_def)
  then show ?thesis using gl(1) at by (simp add: zero_proc_def)
qed

theorem unknown_group_replaces_last_witness:
  "\<exists>p. fill_groups (\<lambda>g. if g = ''gps'' then Some 1021 else None) 0 [''nett'', ''gps''] zero_proc = Some p \<and>
     group_list p ! 0 = 0 \<and> group_list p ! 1 = 1021 \<and> unat (num_groups p) \<le> 1"
  by (rule unknown_group_replaces_last) (simp_all add: MAX_NUM_STRINGS_def)

section \<open>Counting the processes\<close>

definition process_file :: "string list \<Rightarrow> string" where
  "process_file names = print_conf (map (Pair ''PROCESS_NAME'') names)"

definition good_name :: "string \<Rightarrow> bool" where
  "good_name s \<longleftrightarrow> good_text s \<and> length s < LOC_MAX_PARAM_STRING \<and> s \<noteq> ''NULL''"

lemma good_name_setting: "good_name s \<Longrightarrow> good_setting (''PROCESS_NAME'', s)" "good_name s \<Longrightarrow> setting_ok (''PROCESS_NAME'', s)"
  by (auto simp: good_name_def good_setting_def setting_ok_def good_text_def c_isspace_def LOC_MAX_PARAM_STRING_def LOC_MAX_PARAM_LINE_def)

lemma process_file_Cons: "process_file (n # ns) = setting_line (''PROCESS_NAME'', n) @ process_file ns"
  by (simp add: process_file_def print_conf_def)

lemma process_file_Nil [simp]: "process_file [] = []"
  by (simp add: process_file_def print_conf_def)

text \<open>A table without the name is not touched by the file.\<close>

lemma read_unknown:
  assumes "''PROCESS_NAME'' \<notin> param_name ` set tab"
  shows "\<forall>s \<in> set names. good_name s \<Longrightarrow> \<exists>rest. read_loop bits atof tab num (process_file names) mem = (rest, mem)"
proof (induction names)
  case Nil
  then show ?case by (subst read_loop.simps) (simp add: fgets_def)
next
  case (Cons n ns)
  have n: "good_setting (''PROCESS_NAME'', n)" using Cons.prems good_name_setting by simp
  have "loc_fill_conf_item bits atof (c_string (setting_line (''PROCESS_NAME'', n))) tab mem = (0, mem)"
    using assms entries_absent [of "parse_value bits atof ''PROCESS_NAME'' n" tab 0 mem] unfolding fill_line [OF n] by simp
  then show ?case using Cons
    by (subst read_loop.simps) (simp add: process_file_Cons fgets_line [OF n])
qed

lemma clear_none: "\<forall>e \<in> set tab. param_set e = 0 \<Longrightarrow> clear_sets tab mem = mem"
  unfolding clear_sets_def by (induction tab arbitrary: mem) simp_all

lemma conf_unknown:
  assumes "\<forall>s \<in> set names. good_name s" "''PROCESS_NAME'' \<notin> param_name ` set tab" "\<forall>e \<in> set tab. param_set e = 0"
  shows "loc_read_conf bits atof a (Some (process_file names)) tab mem = mem"
proof -
  have "\<exists>rest. read_loop bits atof t num (process_file names) mem = (rest, mem)" if "t \<in> {tab, loc_param_table a}" for t num
    by (rule read_unknown) (use that assms in \<open>auto simp: loc_param_table_def\<close>)
  then have "snd (read_loop bits atof t num (process_file names) mem) = mem" if "t \<in> {tab, loc_param_table a}" for t num
    using that by (metis snd_conv)
  moreover have "clear_sets (loc_param_table a) mem = mem" by (rule clear_none) (simp add: loc_param_table_def)
  ultimately show ?thesis using clear_none [OF assms(3)] by (simp add: loc_read_conf_def loc_read_conf_r_def Let_def)
qed

lemma read_loop_stop: "read_loop bits atof tab 0 file' mem = (file', mem)"
  by (subst read_loop.simps) simp

lemma next_name_printed:
  assumes "good_name n" "conf_addr env \<noteq> 0"
  shows "next_name env (process_file (n # ns)) mem = (process_file ns, poke_str (conf_addr env + off_proc_name) n (poke (conf_addr env + off_proc_name) [NUL] mem))"
proof -
  let ?t = "take 1 (loc_process_conf_parameter_table (conf_addr env))" and ?m = "poke (conf_addr env + off_proc_name) [NUL] mem"
  let ?e = "param ''PROCESS_NAME'' (conf_addr env + off_proc_name) CHR ''s''"
  have t: "?t = [?e]" by (simp add: loc_process_conf_parameter_table_def)
  have tab: "table_ok [?e]" using assms(2) by (simp add: table_ok_def param_def)
  have s: "setting_ok (''PROCESS_NAME'', n)" "good_setting (''PROCESS_NAME'', n)" using good_name_setting [OF assms(1)] by simp_all
  have "set_entries [?e] (parse_value (long_bits env) (atof_bytes env) (fst (''PROCESS_NAME'', n)) (snd (''PROCESS_NAME'', n))) (0, ?m) =
      (1, store_value (long_bits env) ?e (snd (''PROCESS_NAME'', n)) ?m)"
    by (rule entries_found [OF tab _ s(1)]) (simp_all add: param_def)
  then have fill: "loc_fill_conf_item (long_bits env) (atof_bytes env) (c_string (setting_line (''PROCESS_NAME'', n))) [?e] ?m =
      (1, poke_str (conf_addr env + off_proc_name) n ?m)"
    unfolding fill_line [OF s(2)] by (simp add: store_value_def value_bytes_def mark_set_def param_def poke_str_def)
  have "read_loop (long_bits env) (atof_bytes env) [?e] 1 (process_file (n # ns)) ?m = (process_file ns, poke_str (conf_addr env + off_proc_name) n ?m)"
    using fill by (subst read_loop.simps) (simp add: process_file_Cons fgets_line [OF s(2)] read_loop_stop)
  moreover have "clear_sets [?e] ?m = ?m" by (rule clear_none) (simp add: param_def)
  ultimately show ?thesis unfolding next_name_def read_params_def t by (simp add: loc_read_conf_r_def)
qed

lemma count_printed:
  assumes "conf_addr env \<noteq> 0"
  shows "\<forall>s \<in> set names. good_name s \<Longrightarrow> fst (count_processes env (process_file names) mem k) = k + word_of_nat (length names)"
proof (induction names arbitrary: mem k)
  case Nil
  have "next_name env [] mem = ([], poke (conf_addr env + off_proc_name) [NUL] mem)"
    unfolding next_name_def read_params_def loc_read_conf_r_def
    by (simp add: loc_process_conf_parameter_table_def clear_sets_def param_def, subst read_loop.simps) (simp add: fgets_def)
  then show ?case by (subst count_processes.simps) (simp add: conf_str_start off_proc_name_def)
next
  case (Cons n ns)
  let ?m = "poke_str (conf_addr env + off_proc_name) n (poke (conf_addr env + off_proc_name) [NUL] mem)"
  have n: "good_name n" using Cons.prems by simp
  have "NUL \<notin> set n" "n \<noteq> []" "length n < 80" using n by (auto simp: good_name_def good_text_def LOC_MAX_PARAM_STRING_def)
  then have "conf_str (conf_addr env) off_proc_name ?m = n"
    unfolding poke_str_def by (intro conf_str_poke) (simp_all add: offsets)
  then have "count_processes env (process_file (n # ns)) mem k = count_processes env (process_file ns) ?m (k + 1)"
    using \<open>n \<noteq> []\<close> next_name_printed [OF n assms] by (subst count_processes.simps) simp
  then show ?case using Cons by simp
qed

text \<open>
  the number of processes is kept in eight bits: a file with a multiple of 256 well-formed process
  names is read as one with no process, and this is reported as success.
\<close>

theorem process_count_wraps:
  assumes "gps_conf env = None" "conf_file env = Some (process_file names)" "have_memory env" "conf_addr env \<noteq> 0"
    "\<forall>s \<in> set names. good_name s" "length names mod 256 = 0"
  shows "\<exists>mem'. loc_read_process_conf env True mem = Some (0, [], mem')"
proof -
  have feat: "loc_read_conf (long_bits env) (atof_bytes env) (log_addr env) (Some (process_file names)) (loc_feature_conf_table (conf_addr env)) mem = mem"
    by (rule conf_unknown [OF assms(5)]) (auto simp: loc_feature_conf_table_def param_def)
  obtain c m where c: "count_processes env (process_file names) mem 0 = (c, m)" by (cases "count_processes env (process_file names) mem 0")
  then have "c = word_of_nat (length names)" using count_printed [OF assms(4,5), of mem 0] by simp
  then have "c = 0" using assms(6) by (simp add: word_of_nat_eq_0_iff dvd_eq_mod_eq_0)
  then show ?thesis using assms(1-3) feat c by (simp add: loc_read_process_conf_def loc_read_conf_def Let_def)
qed

theorem process_count_wraps_witness:
  "\<exists>mem'. loc_read_process_conf (example_env\<lparr>conf_file := Some (process_file (replicate 256 ''xtra-daemon''))\<rparr>) True (\<lambda>_. NUL) = Some (0, [], mem')"
  by (rule process_count_wraps [where names = "replicate 256 ''xtra-daemon''"])
    (auto simp: example_env_def good_name_def good_text_def c_isspace_def LOC_MAX_PARAM_STRING_def)

section \<open>The table of processes\<close>

lemma strlen_Some: "strlen l = Some n \<Longrightarrow> l = c_string l @ NUL # drop (Suc (length (c_string l))) l"
proof (induction l arbitrary: n)
  case (Cons c l)
  then show ?case by (cases "c = NUL") (auto simp: c_string_def)
qed simp

lemma split_field_words:
  assumes "split_field C off mem = Some (ws, mem')"
  shows "ws = words_of (conf_str C off mem)"
proof -
  let ?l = "peek (C + off) (conf_bytes - off) mem" and ?s = "conf_str C off mem"
  have "\<exists>n. strlen ?l = Some n"
    using assms by (cases "strlen ?l") (simp_all add: split_field_def loc_util_split_string_def)
  then have l: "?l = ?s @ NUL # drop (Suc (length ?s)) ?l" (is "_ = _ @ NUL # ?r")
    using strlen_Some by (auto simp: conf_str_def str_at_def)
  obtain buf ptrs where "loc_util_split_string (Some (?s @ NUL # ?r)) True (int MAX_NUM_STRINGS) CHR '' '' = Some (int (length ptrs), Some buf, ptrs)"
    "map (\<lambda>p. c_string (drop p buf)) ptrs = take (max 1 (nat (int MAX_NUM_STRINGS))) (split_on CHR '' '' ?s)"
    using split_words [OF conf_str_no_nul [of C off mem]] by metis
  then show ?thesis using assms l by (simp add: split_field_def words_of_def MAX_NUM_STRINGS_def)
qed

lemma named_process_ok:
  assumes "fill_groups gid 0 (words_of s) (zero_proc\<lparr>proc_status := x, proc_name := n, num_groups := 0\<rparr>) = Some p" "length n < LOC_MAX_PARAM_STRING"
  shows "process_ok p \<and> proc_status p = x"
proof -
  let ?p = "zero_proc\<lparr>proc_status := x, proc_name := n, num_groups := 0\<rparr>"
  have gl: "length (group_list ?p) = LOC_PROCESS_MAX_NUM_GROUPS" by (simp add: zero_proc_def)
  have few: "0 + length (words_of s) \<le> length (group_list ?p)"
    unfolding gl by (simp add: words_of_def MAX_NUM_STRINGS_def LOC_PROCESS_MAX_NUM_GROUPS_def)
  let ?known = "filter (\<lambda>g. gid g \<noteq> None) (words_of s)"
  have "length ?known \<le> 20" by (rule order_trans [OF length_filter_le]) (simp add: words_of_def MAX_NUM_STRINGS_def)
  moreover obtain gs where "fill_groups gid 0 (words_of s) ?p = Some (?p\<lparr>group_list := gs, num_groups := num_groups ?p + word_of_nat (length ?known)\<rparr>)"
    "length gs = length (group_list ?p)" using fill_groups_ok [OF few, of gid] by blast
  ultimately show ?thesis using assms zero_proc_ok [of x] gl
    by (auto simp: process_ok_def LOC_PROCESS_MAX_NUM_GROUPS_def unat_of_nat)
qed


lemma fill_process_ok:
  assumes "fill_process env sm mem = Some (p, mem')"
  shows "process_ok p"
proof -
  let ?C = "conf_addr env" and ?p = "zero_proc\<lparr>proc_status := DISABLED\<rparr>"
  have launch: "launch pr fm sm (conf_str ?C off m) q = Some q' \<Longrightarrow> process_ok q \<Longrightarrow> process_ok q'" for pr fm off m q q'
    using launch_ok [OF _ conf_str_no_nul, of q pr fm sm ?C off m] by auto
  have named: "split_field ?C off_group_list mem = Some (ws, m1) \<Longrightarrow>
      fill_groups (user_gid env) 0 ws (zero_proc\<lparr>proc_status := DISABLED, proc_name := n, num_groups := 0\<rparr>) = Some q \<Longrightarrow>
      Suc (length n) \<le> LOC_MAX_PARAM_STRING \<Longrightarrow> process_ok q" for ws m1 n q
    using named_process_ok split_field_words by (metis Suc_le_lessD)
  show ?thesis using assms unfolding fill_process_def Let_def
    by (auto split: if_splits option.splits simp: not_less bind_eq_Some_conv intro: named launch)
qed

lemma fill_processes_ok:
  "fill_processes env sm n s mem = Some (ps, mem') \<Longrightarrow> length ps = n \<and> (\<forall>p \<in> set ps. process_ok p)"
proof (induction n arbitrary: s mem ps mem')
  case (Suc n)
  obtain s1 m1 where r: "read_params env (loc_process_conf_parameter_table (conf_addr env)) s mem = (s1, m1)" by fastforce
  obtain p m2 qs m3 where "fill_process env sm m1 = Some (p, m2)" "fill_processes env sm n s1 m2 = Some (qs, m3)" "ps = p # qs"
    using Suc.prems r by (auto simp: bind_eq_Some_conv)
  then show ?case using Suc.IH fill_process_ok by fastforce
qed simp

text \<open>A file with one name and nothing else.\<close>

definition one_env :: proc_env where
  "one_env = example_env\<lparr>conf_file := Some (process_file [''slim''])\<rparr>"

lemma one_name: "good_name ''slim''"
  by (simp add: good_name_def good_text_def c_isspace_def LOC_MAX_PARAM_STRING_def)

lemma one_fields: "conf_addr one_env = 4096" "conf_file one_env = Some (process_file [''slim''])" "gps_conf one_env = None" "have_memory one_env"
  by (simp_all add: one_env_def example_env_def)

lemma one_count:
  "\<exists>m. count_processes one_env (process_file [''slim'']) (\<lambda>_. NUL) 0 = (1, m) \<and> conf_str 4096 off_group_list m = []"
proof -
  let ?n = "''slim''" and ?a = "4096 + off_proc_name"
  let ?m1 = "poke_str ?a ?n (poke_str ?a [] (\<lambda>_. NUL))"
  have nx: "next_name one_env (process_file [?n]) (\<lambda>_. NUL) = ([], ?m1)"
    using next_name_printed [OF one_name, of one_env "[]" "\<lambda>_. NUL"] by (simp add: one_fields poke_str_def)
  have nx2: "next_name one_env [] ?m1 = ([], poke_str ?a [] ?m1)"
    unfolding next_name_def read_params_def loc_read_conf_r_def
    by (simp add: loc_process_conf_parameter_table_def clear_sets_def param_def one_fields poke_str_def, subst read_loop.simps)
      (simp add: fgets_def)
  have named: "conf_str 4096 off_proc_name ?m1 = ?n" "conf_str 4096 off_proc_name (poke_str ?a [] ?m1) = []"
    "conf_str 4096 off_group_list (poke_str ?a [] ?m1) = []"
    using fields_distinct by (simp_all add: conf_str_poke_str conf_str_blank fields_in)
  have "count_processes one_env (process_file [?n]) (\<lambda>_. NUL) 0 = (1, poke_str ?a [] ?m1)"
    using nx nx2 named by (subst count_processes.simps, subst count_processes.simps) (simp add: one_fields)
  then show ?thesis using named by blast
qed

lemma one_fill:
  assumes "conf_str 4096 off_group_list m = []"
  shows "\<exists>mem'. fill_processes one_env sm 1 (process_file [''slim'']) m = Some ([zero_proc\<lparr>proc_status := DISABLED\<rparr>], mem')"
proof -
  let ?t = "loc_process_conf_parameter_table 4096" and ?s = "(''PROCESS_NAME'', ''slim'')"
  have s: "good_setting ?s" "setting_ok ?s" using good_name_setting [OF one_name] by simp_all
  have fill: "loc_fill_conf_item b at (c_string (setting_line ?s)) ?t m = (1, poke_str (4096 + off_proc_name) ''slim'' m)" for b at
    unfolding fill_line [OF s(1)]
    by (simp add: loc_process_conf_parameter_table_def param_def loc_set_config_entry_def mark_set_def strlcpy_def poke_str_def
      LOC_MAX_PARAM_STRING_def)
  have sets: "clear_sets ?t m = m" by (rule clear_none) (simp add: loc_process_conf_parameter_table_def param_def)
  have len: "length ?t = 9" by (simp add: loc_process_conf_parameter_table_def)
  have stop: "read_loop b at tab k [] mem = ([], mem)" for b at tab k mem by (subst read_loop.simps) (simp add: fgets_def)
  have rd: "read_params one_env ?t (process_file [''slim'']) m = ([], poke_str (4096 + off_proc_name) ''slim'' m)"
    unfolding read_params_def loc_read_conf_r_def using sets len fill stop fgets_line [OF s(1), of "[]"]
    by (simp, subst read_loop.simps) (simp add: process_file_def print_conf_def)
  have "conf_str 4096 off_group_list (poke_str (4096 + off_proc_name) ''slim'' m) = []"
    using fields_distinct assms by (simp add: conf_str_poke_str fields_in)
  then have "fill_process one_env sm (poke_str (4096 + off_proc_name) ''slim'' m) =
      Some (zero_proc\<lparr>proc_status := DISABLED\<rparr>, poke_str (4096 + off_proc_name) ''slim'' m)"
    by (simp add: fill_process_def one_fields)
  then show ?thesis using rd by (simp add: one_fields)
qed

lemma one_table: "\<exists>ps mem'. loc_read_process_conf one_env True (\<lambda>_. NUL) = Some (0, ps, mem') \<and> length ps = 1"
proof -
  have feat: "loc_read_conf b at l (Some (process_file [''slim''])) (loc_feature_conf_table 4096) (\<lambda>_. NUL) = (\<lambda>_. NUL)" for b at l
    by (rule conf_unknown) (auto simp: one_name loc_feature_conf_table_def param_def)
  obtain m where m: "count_processes one_env (process_file [''slim'']) (\<lambda>_. NUL) 0 = (1, m)" "conf_str 4096 off_group_list m = []"
    using one_count by blast
  obtain mem' where f: "fill_processes one_env sm 1 (process_file [''slim'']) m = Some ([zero_proc\<lparr>proc_status := DISABLED\<rparr>], mem' sm)" for sm
    using one_fill [OF m(2)] by metis
  show ?thesis using feat m f by (simp add: loc_read_process_conf_def one_fields loc_read_conf_def [of _ _ _ None] Let_def)
qed

section \<open>What overruns\<close>















end
