(* ===== verification/RilCore.thy ===== *)
theory RilCore
  imports RilSap
begin

text \<open>
  The core of the radio daemon, \<open>ril/libril/ril.cpp\<close>: the tables of requests and notifications,
  the requests that are pending at the vendor library, with their acknowledgements and completions,
  unsolicited notifications, and the wake lock with the timers that release it. Requests and timer
  objects live in stores, because the vendor library and the event loop hold pointers to them. The
  timers are those of the modelled event loop: an armed timer expires once, at some later moment.
  The wake lock of the kernel has one name, so acquiring it twice is acquiring it once. The answers
  of \<open>calloc\<close> and of the response functions are arguments; what the functions are called with is
  recorded. The operations are atomic here; \<open>RilWake\<close> interleaves the parts of the wake lock.
\<close>

section \<open>Data\<close>

datatype WakeType = DONT_WAKE | WAKE_PARTIAL

datatype ResponseType =
    RESPONSE_SOLICITED
  | RESPONSE_UNSOLICITED
  | RESPONSE_SOLICITED_ACK
  | RESPONSE_SOLICITED_ACK_EXP
  | RESPONSE_UNSOLICITED_ACK_EXP

text \<open>A response function is known by the number of the entry it stands in; it may be NULL.\<close>

record CommandInfo =
  requestNumber :: int
  has_function :: bool

record UnsolResponseInfo = CommandInfo +
  wakeType :: WakeType

record RequestInfo =
  ri_token :: int
  pCI :: "CommandInfo option"
  ri_next :: ptr
  cancelled :: bool
  local_command :: bool
  socket_id :: nat
  wasAckSent :: bool

datatype timed_callback = WakeTimeoutCallback | UserCallback ptr

record UserCallbackInfo =
  p_callback :: timed_callback
  userParam :: ptr

datatype radio_call =
    Radio_response nat ResponseType int int int nat
  | Radio_acknowledge nat int
  | Radio_indication nat ResponseType int "nat option"
  | Radio_setNitzTimeReceived nat
  | Radio_registerService
  | User_callback ptr ptr
  | Property_set

record ril_world =
  s_registerCalled :: bool
  cb_version :: int
  pending_infos :: "RequestInfo store"
  s_pendingRequests :: "nat \<Rightarrow> ptr"
  timer_infos :: "UserCallbackInfo store"
  armed :: "ptr list"
  s_wakelock_count :: int
  s_last_wake_timeout_info :: ptr
  wake_held :: bool
  s_lastNITZTimeData :: "nat option"
  radio_calls :: "radio_call list"

definition new_ril :: ril_world where
  "new_ril = \<lparr>s_registerCalled = False, cb_version = 0, pending_infos = Map.empty, s_pendingRequests = (\<lambda>i. NULL),
     timer_infos = Map.empty, armed = [], s_wakelock_count = 0, s_last_wake_timeout_info = NULL, wake_held = False,
     s_lastNITZTimeData = None, radio_calls = []\<rparr>"

definition radio :: "radio_call \<Rightarrow> ril_world \<Rightarrow> ril_world" where
  "radio c w = w\<lparr>radio_calls := radio_calls w @ [c]\<rparr>"

section \<open>The tables\<close>

text \<open>
  The request numbers of all four tables count up from their base; listed are the entries without
  a response function and the notifications that do not wake. One vendor notification that
  \<open>ril.h\<close> defines stands out of the count, a second one is not defined and not compiled.
\<close>

definition RIL_OEM_REQUEST_BASE :: int where "RIL_OEM_REQUEST_BASE = 10000"
definition RIL_UNSOL_RESPONSE_BASE :: int where "RIL_UNSOL_RESPONSE_BASE = 1000"
definition SAMSUNG_UNSOL_RESPONSE_BASE :: int where "SAMSUNG_UNSOL_RESPONSE_BASE = 11000"
definition RIL_UNSOL_NITZ_TIME_RECEIVED :: int where "RIL_UNSOL_NITZ_TIME_RECEIVED = 1008"
definition RIL_UNSOL_AM :: int where "RIL_UNSOL_AM = 11010"
definition RIL_VERSION_MIN :: int where "RIL_VERSION_MIN = 6"

lemmas ril_constants = RIL_OEM_REQUEST_BASE_def RIL_UNSOL_RESPONSE_BASE_def SAMSUNG_UNSOL_RESPONSE_BASE_def
  RIL_UNSOL_NITZ_TIME_RECEIVED_def RIL_UNSOL_AM_def RIL_VERSION_MIN_def

definition s_commands :: "CommandInfo list" where
  "s_commands = map (\<lambda>i. \<lparr>requestNumber = int i,
     has_function = (i \<notin> {0, 38, 39, 56, 58, 67, 68, 86, 126, 127})\<rparr>) [0..<141]"

definition s_commands_v :: "CommandInfo list" where
  "s_commands_v = map (\<lambda>i. \<lparr>requestNumber = RIL_OEM_REQUEST_BASE + int i, has_function = False\<rparr>) [0..<37]"

definition s_unsolResponses :: "UnsolResponseInfo list" where
  "s_unsolResponses = map (\<lambda>i. \<lparr>requestNumber = RIL_UNSOL_RESPONSE_BASE + int i, has_function = (i \<noteq> 41),
     wakeType = (if i \<in> {7, 9} then DONT_WAKE else WAKE_PARTIAL)\<rparr>) [0..<48]"

definition s_unsolResponses_v :: "UnsolResponseInfo list" where
  "s_unsolResponses_v = map (\<lambda>n. \<lparr>requestNumber = n, has_function = False, wakeType = WAKE_PARTIAL\<rparr>)
     (map (\<lambda>i. SAMSUNG_UNSOL_RESPONSE_BASE + int i) [0..<77] @ [20017])"

text \<open>The self check compares the vendor numbers with the entries of the common tables.\<close>

definition register_self_check :: bool where
  "register_self_check \<longleftrightarrow>
     list_all (\<lambda>i. int i = requestNumber (s_commands ! i)) [0..<length s_commands] \<and>
     list_all (\<lambda>i. int i + RIL_OEM_REQUEST_BASE = requestNumber (s_commands ! i)) [0..<length s_commands_v] \<and>
     list_all (\<lambda>i. int i + RIL_UNSOL_RESPONSE_BASE = requestNumber (s_unsolResponses ! i)) [0..<length s_unsolResponses] \<and>
     list_all (\<lambda>i. int i + SAMSUNG_UNSOL_RESPONSE_BASE = requestNumber (s_unsolResponses ! i)) [0..<length s_unsolResponses_v]"

text \<open>\<open>asserts\<close>: the build keeps assertions, and one that fails aborts (\<open>None\<close>).\<close>

definition RIL_register :: "bool \<Rightarrow> int option \<Rightarrow> ril_world \<Rightarrow> ril_world option" where
  "RIL_register asserts callbacks w =
     (case callbacks of
        None \<Rightarrow> Some w
      | Some v \<Rightarrow>
          if v < RIL_VERSION_MIN then Some w
          else if s_registerCalled w then Some w
          else (let w = w\<lparr>cb_version := v, s_registerCalled := True\<rparr> in
                if asserts \<and> \<not> register_self_check then None else Some (radio Radio_registerService w)))"

definition RIL_register_socket :: "nat \<Rightarrow> bool \<Rightarrow> bool \<Rightarrow> bool \<Rightarrow> bool \<Rightarrow> sap_world \<Rightarrow> sap_world" where
  "RIL_register_socket sim_count have_init funcs is_sap mem w =
     (if have_init \<and> is_sap then
        fold (\<lambda>nm. initSapSocket sim_count nm funcs mem) (take (max 1 sim_count) [''slot1'', ''slot2'', ''slot3'', ''slot4'']) w
      else w)"

section \<open>Timers and the wake lock\<close>

text \<open>\<open>p\<close> is the address of the new object, NULL when \<open>calloc\<close> fails.\<close>

definition internalRequestTimedCallback :: "timed_callback \<Rightarrow> ptr \<Rightarrow> ptr \<Rightarrow> ril_world \<Rightarrow> ril_world" where
  "internalRequestTimedCallback cb param p w =
     (if p = NULL then w
      else w\<lparr>timer_infos := (timer_infos w)(p \<mapsto> \<lparr>p_callback = cb, userParam = param\<rparr>), armed := armed w @ [p]\<rparr>)"

definition RIL_requestTimedCallback :: "ptr \<Rightarrow> ptr \<Rightarrow> ptr \<Rightarrow> ril_world \<Rightarrow> ril_world" where
  "RIL_requestTimedCallback callback param p w = internalRequestTimedCallback (UserCallback callback) param p w"

text \<open>\<open>s_last_wake_timeout_info->userParam = (void *)1\<close>\<close>

definition cancel_last :: "ril_world \<Rightarrow> ril_world option" where
  "cancel_last w = do {
     ts \<leftarrow> update_at (timer_infos w) (s_last_wake_timeout_info w) (\<lambda>i. i\<lparr>userParam := 1\<rparr>);
     Some (w\<lparr>timer_infos := ts\<rparr>)
   }"

definition set_last :: "ptr \<Rightarrow> ril_world \<Rightarrow> ril_world" where
  "set_last p w = w\<lparr>s_last_wake_timeout_info := p\<rparr>"

text \<open>A new wake timer cancels the last one and takes its place.\<close>

definition replace_last :: "ptr \<Rightarrow> ril_world \<Rightarrow> ril_world option" where
  "replace_last p w = do {
     w \<leftarrow> (if s_last_wake_timeout_info w \<noteq> NULL then cancel_last w else Some w);
     Some (set_last p w)
   }"

text \<open>Up to the test of the last timer.\<close>

definition grab_begin :: "ptr \<Rightarrow> ril_world \<Rightarrow> ril_world" where
  "grab_begin p w =
     (let w = internalRequestTimedCallback WakeTimeoutCallback NULL p (w\<lparr>wake_held := True\<rparr>) in
      if p = NULL then w\<lparr>wake_held := False\<rparr> else w\<lparr>s_wakelock_count := s_wakelock_count w + 1\<rparr>)"

definition grabPartialWakeLock :: "ptr \<Rightarrow> ril_world \<Rightarrow> ril_world option" where
  "grabPartialWakeLock p w =
     (if cb_version w \<ge> 13 then
        (let w = grab_begin p w in
         if p = NULL then Some w else replace_last p w)
      else Some (w\<lparr>wake_held := True\<rparr>))"

definition releaseWakeLock :: "ril_world \<Rightarrow> ril_world option" where
  "releaseWakeLock w =
     (if cb_version w \<ge> 13 then
        (if s_wakelock_count w > 1 then Some (w\<lparr>s_wakelock_count := s_wakelock_count w - 1\<rparr>)
         else (let w = w\<lparr>s_wakelock_count := 0, wake_held := False\<rparr> in
               if s_last_wake_timeout_info w \<noteq> NULL then cancel_last w else Some w))
      else Some (w\<lparr>wake_held := False\<rparr>))"

definition wakeTimeoutCallback :: "ptr \<Rightarrow> ril_world \<Rightarrow> ril_world option" where
  "wakeTimeoutCallback param w =
     (if cb_version w \<ge> 13 then
        (if param = NULL then Some (w\<lparr>s_wakelock_count := 0, wake_held := False\<rparr>) else Some w)
      else if param = NULL then releaseWakeLock w else Some w)"

text \<open>The parts of \<open>userTimerCallback\<close>: the call, the test of the last timer, and \<open>free\<close>.\<close>

definition run_callback :: "UserCallbackInfo \<Rightarrow> ril_world \<Rightarrow> ril_world option" where
  "run_callback i w =
     (case p_callback i of
        WakeTimeoutCallback \<Rightarrow> wakeTimeoutCallback (userParam i) w
      | UserCallback f \<Rightarrow> Some (radio (User_callback f (userParam i)) w))"

definition forget_last :: "ptr \<Rightarrow> ril_world \<Rightarrow> ril_world" where
  "forget_last p w =
     (if s_last_wake_timeout_info w \<noteq> NULL \<and> s_last_wake_timeout_info w = p then set_last NULL w else w)"

definition free_info :: "ptr \<Rightarrow> ril_world \<Rightarrow> ril_world option" where
  "free_info p w = do { ts \<leftarrow> release (timer_infos w) p; Some (w\<lparr>timer_infos := ts\<rparr>) }"

definition userTimerCallback :: "ptr \<Rightarrow> ril_world \<Rightarrow> ril_world option" where
  "userTimerCallback p w = do {
     i \<leftarrow> deref (timer_infos w) p;
     w \<leftarrow> run_callback i w;
     free_info p (forget_last p w)
   }"

text \<open>The event loop takes an expired timer out of its list before the callback.\<close>

definition expire :: "ptr \<Rightarrow> ril_world \<Rightarrow> ril_world option" where
  "expire p w = (if p \<in> set (armed w) then userTimerCallback p (w\<lparr>armed := remove1 p (armed w)\<rparr>) else Some w)"

section \<open>Requests\<close>

text \<open>Which of the pending lists belongs to a socket.\<close>

definition pendingRequestsHook :: "nat \<Rightarrow> nat \<Rightarrow> nat" where
  "pendingRequestsHook sim_count i =
     (if sim_count \<ge> 2 \<and> i = 1 then 1 else if sim_count \<ge> 3 \<and> i = 2 then 2 else if sim_count \<ge> 4 \<and> i = 3 then 3 else 0)"

text \<open>A negative number would index before the table (\<open>None\<close>).\<close>

definition find_command :: "int \<Rightarrow> CommandInfo option option" where
  "find_command request =
     (if request > RIL_OEM_REQUEST_BASE then
        (let index = request - RIL_OEM_REQUEST_BASE in
         Some (if index < int (length s_commands_v) then Some (s_commands_v ! nat index) else None))
      else if request < int (length s_commands) then
        (if request < 0 then None else Some (Some (s_commands ! nat request)))
      else Some None)"

definition addRequestToList :: "nat \<Rightarrow> int \<Rightarrow> nat \<Rightarrow> int \<Rightarrow> ptr \<Rightarrow> ril_world \<Rightarrow> (ptr \<times> ril_world) option" where
  "addRequestToList sim_count serial slotId request p w = do {
     ci \<leftarrow> find_command request;
     if p = NULL then Some (NULL, w)
     else do {
       let k = pendingRequestsHook sim_count slotId;
       let r = \<lparr>ri_token = serial, pCI = ci, ri_next = s_pendingRequests w k, cancelled = False, local_command = False,
                socket_id = slotId, wasAckSent = False\<rparr>;
       Some (p, w\<lparr>pending_infos := (pending_infos w)(p \<mapsto> r), s_pendingRequests := (s_pendingRequests w)(k := p)\<rparr>)
     }
   }"

text \<open>
  The loop over the pending list. \<open>ppCur\<close> is the address of the list's head (\<open>None\<close>) or of the
  \<open>p_next\<close> field of a request, \<open>cur\<close> its content.
\<close>

partial_function (option) dequeue_loop ::
  "ptr \<Rightarrow> bool \<Rightarrow> ptr option \<Rightarrow> ptr \<Rightarrow> ptr \<Rightarrow> RequestInfo store \<Rightarrow> (bool \<times> ptr \<times> RequestInfo store) option" where
  "dequeue_loop pRI isAck ppCur cur hp rs =
     (if cur \<noteq> NULL then do {
        r \<leftarrow> deref rs cur;
        if pRI = cur then
          (if isAck then
             (if wasAckSent r then do { ci \<leftarrow> pCI r; Some (True, hp, rs) }
              else Some (True, hp, rs(cur \<mapsto> r\<lparr>wasAckSent := True\<rparr>)))
           else
             (case ppCur of
                None \<Rightarrow> Some (True, ri_next r, rs)
              | Some q \<Rightarrow> do { rs \<leftarrow> update_at rs q (\<lambda>x. x\<lparr>ri_next := ri_next r\<rparr>); Some (True, hp, rs) }))
        else dequeue_loop pRI isAck (Some cur) (ri_next r) hp rs
      }
      else Some (False, hp, rs))"

text \<open>With more than one SIM, the socket is read from the request before it is looked for.\<close>

definition checkAndDequeueRequestInfoIfAck :: "nat \<Rightarrow> ptr \<Rightarrow> bool \<Rightarrow> ril_world \<Rightarrow> (bool \<times> ril_world) option" where
  "checkAndDequeueRequestInfoIfAck sim_count pRI isAck w =
     (if pRI = NULL then Some (False, w)
      else do {
        k \<leftarrow> (if sim_count \<ge> 2 then do { r \<leftarrow> deref (pending_infos w) pRI; Some (pendingRequestsHook sim_count (socket_id r)) }
               else Some 0);
        (found, h, rs) \<leftarrow> dequeue_loop pRI isAck None (s_pendingRequests w k) (s_pendingRequests w k) (pending_infos w);
        Some (found, w\<lparr>pending_infos := rs, s_pendingRequests := (s_pendingRequests w)(k := h)\<rparr>)
      })"

definition RIL_onRequestAck :: "nat \<Rightarrow> ptr \<Rightarrow> ril_world \<Rightarrow> ril_world option" where
  "RIL_onRequestAck sim_count t w = do {
     (found, w) \<leftarrow> checkAndDequeueRequestInfoIfAck sim_count t True w;
     if \<not> found then Some w
     else do {
       r \<leftarrow> deref (pending_infos w) t;
       if \<not> cancelled r then Some (radio (Radio_acknowledge (socket_id r) (ri_token r)) w) else Some w
     }
   }"

text \<open>Calling the response function of a command; without a command or a function it faults.\<close>

definition call_response :: "RequestInfo \<Rightarrow> ResponseType \<Rightarrow> int \<Rightarrow> nat \<Rightarrow> ril_world \<Rightarrow> ril_world option" where
  "call_response r ty e response w = do {
     ci \<leftarrow> pCI r;
     if has_function ci then Some (radio (Radio_response (socket_id r) ty (ri_token r) e (requestNumber ci) response) w)
     else None
   }"

definition free_request :: "ptr \<Rightarrow> ril_world \<Rightarrow> ril_world option" where
  "free_request t w = do { rs \<leftarrow> release (pending_infos w) t; Some (w\<lparr>pending_infos := rs\<rparr>) }"

definition RIL_onRequestComplete :: "nat \<Rightarrow> ptr \<Rightarrow> int \<Rightarrow> nat \<Rightarrow> ptr \<Rightarrow> ril_world \<Rightarrow> ril_world option" where
  "RIL_onRequestComplete sim_count t e response p w = do {
     (found, w) \<leftarrow> checkAndDequeueRequestInfoIfAck sim_count t False w;
     if \<not> found then Some w
     else do {
       r \<leftarrow> deref (pending_infos w) t;
       if local_command r then do { ci \<leftarrow> pCI r; free_request t w }
       else do {
         w \<leftarrow> (if \<not> cancelled r then do {
                  let ack_exp = (cb_version w \<ge> 13 \<and> wasAckSent r);
                  w \<leftarrow> (if ack_exp then grabPartialWakeLock p w else Some w);
                  call_response r (if ack_exp then RESPONSE_SOLICITED_ACK_EXP else RESPONSE_SOLICITED) e response w
                }
                else Some w);
         free_request t w
       }
     }
   }"

text \<open>In \<open>ril_service.cpp\<close>: a request whose arguments cannot be allocated is answered at once.\<close>

definition sendErrorResponse :: "ptr \<Rightarrow> int \<Rightarrow> ril_world \<Rightarrow> ril_world option" where
  "sendErrorResponse t e w = do { r \<leftarrow> deref (pending_infos w) t; call_response r RESPONSE_SOLICITED e 0 w }"

section \<open>Notifications\<close>

text \<open>The search does not stop at a match.\<close>

fun find_index :: "int \<Rightarrow> int \<Rightarrow> UnsolResponseInfo list \<Rightarrow> int \<Rightarrow> int" where
  "find_index n i [] found = found"
| "find_index n i (e # es) found = find_index n (i + 1) es (if requestNumber e = n then i else found)"

text \<open>An index outside of the table leaves the pointer at the table's first entry.\<close>

definition find_unsol :: "int \<Rightarrow> UnsolResponseInfo" where
  "find_unsol unsolResponse =
     (let vendor = (unsolResponse > SAMSUNG_UNSOL_RESPONSE_BASE);
          tab = (if vendor then s_unsolResponses_v else s_unsolResponses);
          index = unsolResponse - RIL_UNSOL_RESPONSE_BASE;
          index = (if vendor then find_index unsolResponse 0 tab index else index) in
      if index \<ge> 0 \<and> index < int (length tab) then tab ! nat index else tab ! 0)"

text \<open>A time nobody took is kept for the next client.\<close>

definition keep_nitz :: "bool \<Rightarrow> nat option \<Rightarrow> bool \<Rightarrow> bool \<Rightarrow> ril_world \<Rightarrow> ril_world option" where
  "keep_nitz untaken data mem shouldScheduleTimeout w =
     (if untaken then
        (if mem then Some (w\<lparr>s_lastNITZTimeData := Some (case data of None \<Rightarrow> 0 | Some d \<Rightarrow> d)\<rparr>)
         else (let w = w\<lparr>s_lastNITZTimeData := None\<rparr> in
               if shouldScheduleTimeout then releaseWakeLock w else Some w))
      else Some w)"

text \<open>
  Delivery of the notification of table entry \<open>pRI\<close>. \<open>answer\<close> is what the response function
  returns, \<open>p\<close> the address of the wake timer, \<open>mem\<close> whether there is memory for a copy of the time.
\<close>

definition deliver_unsol ::
  "UnsolResponseInfo \<Rightarrow> int \<Rightarrow> nat option \<Rightarrow> nat \<Rightarrow> int \<Rightarrow> ptr \<Rightarrow> bool \<Rightarrow> ril_world \<Rightarrow> ril_world option" where
  "deliver_unsol pRI unsolResponse data soc_id answer p mem w = do {
     let shouldScheduleTimeout = (wakeType pRI = WAKE_PARTIAL);
     w \<leftarrow> (if shouldScheduleTimeout then grabPartialWakeLock p w else Some w);
     let ty = (if cb_version w \<ge> 13 \<and> wakeType pRI = WAKE_PARTIAL then RESPONSE_UNSOLICITED_ACK_EXP
               else RESPONSE_UNSOLICITED);
     let w = (if unsolResponse = RIL_UNSOL_NITZ_TIME_RECEIVED then radio (Radio_setNitzTimeReceived soc_id) w else w);
     let w = radio (Radio_indication soc_id ty (requestNumber pRI) data) w;
     let schedule = (cb_version w < 13 \<and> shouldScheduleTimeout);
     let w = (if schedule then internalRequestTimedCallback WakeTimeoutCallback NULL p w else w);
     if schedule \<and> p = NULL then releaseWakeLock w
     else do {
       w \<leftarrow> (if schedule then replace_last p w else Some w);
       keep_nitz (answer \<noteq> 0 \<and> unsolResponse = RIL_UNSOL_NITZ_TIME_RECEIVED) data mem shouldScheduleTimeout w
     }
   }"

text \<open>Without several SIMs the socket is the first one.\<close>

definition RIL_onUnsolicitedResponse ::
  "nat \<Rightarrow> int \<Rightarrow> nat option \<Rightarrow> nat \<Rightarrow> int \<Rightarrow> ptr \<Rightarrow> bool \<Rightarrow> ril_world \<Rightarrow> ril_world option" where
  "RIL_onUnsolicitedResponse sim_count unsolResponse data slot answer p mem w =
     (if \<not> s_registerCalled w then Some w
      else if unsolResponse = RIL_UNSOL_AM \<or> unsolResponse = 22009 \<or> unsolResponse = 42010 then Some w
      else
        (let pRI = find_unsol unsolResponse; soc_id = (if sim_count \<ge> 2 then slot else 0) in
         if \<not> has_function pRI then Some w
         else deliver_unsol pRI unsolResponse data soc_id answer p mem w))"

text \<open>The lock around the call is not modelled: it stays locked when there is nothing to send.\<close>

definition resendLastNITZTimeData :: "nat \<Rightarrow> int \<Rightarrow> ril_world \<Rightarrow> ril_world" where
  "resendLastNITZTimeData slot answer w =
     (case s_lastNITZTimeData w of
        None \<Rightarrow> w
      | Some d \<Rightarrow>
          (let ty = (if cb_version w \<ge> 13 then RESPONSE_UNSOLICITED_ACK_EXP else RESPONSE_UNSOLICITED);
               w = radio (Radio_indication slot ty RIL_UNSOL_NITZ_TIME_RECEIVED (Some d)) w in
           if answer = 0 then w\<lparr>s_lastNITZTimeData := None\<rparr> else w))"

text \<open>Two notifications, with the answers and addresses of each, then the last time.\<close>

definition onNewCommandConnect ::
  "nat \<Rightarrow> nat \<Rightarrow> int \<times> ptr \<Rightarrow> int \<times> ptr \<Rightarrow> int \<Rightarrow> ril_world \<Rightarrow> ril_world option" where
  "onNewCommandConnect sim_count slot c1 c2 answer w = do {
     w \<leftarrow> RIL_onUnsolicitedResponse sim_count 1034 (Some (nat (cb_version w))) slot (fst c1) (snd c1) True w;
     w \<leftarrow> RIL_onUnsolicitedResponse sim_count 1000 None slot (fst c2) (snd c2) True w;
     let w = (if s_lastNITZTimeData w \<noteq> None then resendLastNITZTimeData slot answer w else w);
     Some (radio Property_set w)
   }"

section \<open>Histories\<close>

datatype ril_act =
    A_register "int option"
  | A_request int nat int ptr
  | A_fail ptr int
  | A_ack ptr
  | A_complete ptr int nat ptr
  | A_unsol int "nat option" nat int ptr bool
  | A_connect nat "int \<times> ptr" "int \<times> ptr" int
  | A_release
  | A_timed ptr ptr ptr
  | A_expire ptr

fun ril_do :: "nat \<Rightarrow> ril_act \<Rightarrow> ril_world \<Rightarrow> ril_world option" where
  "ril_do n (A_register v) w = RIL_register False v w"
| "ril_do n (A_request serial slot request p) w = map_option snd (addRequestToList n serial slot request p w)"
| "ril_do n (A_fail t e) w = sendErrorResponse t e w"
| "ril_do n (A_ack t) w = RIL_onRequestAck n t w"
| "ril_do n (A_complete t e resp p) w = RIL_onRequestComplete n t e resp p w"
| "ril_do n (A_unsol code d slot answer p mem) w = RIL_onUnsolicitedResponse n code d slot answer p mem w"
| "ril_do n (A_connect slot c1 c2 answer) w = onNewCommandConnect n slot c1 c2 answer w"
| "ril_do n A_release w = releaseWakeLock w"
| "ril_do n (A_timed f param p) w = Some (RIL_requestTimedCallback f param p w)"
| "ril_do n (A_expire p) w = expire p w"

text \<open>
  What the callers keep to: addresses are fresh, requests have a response function and a socket of
  the device, and the vendor library hands back only tokens it has not completed (with one SIM,
  any token). Nothing else happens: a history skips actions that do not keep to it.
\<close>

definition fresh_info :: "ptr \<Rightarrow> ril_world \<Rightarrow> bool" where
  "fresh_info p w \<longleftrightarrow> p = NULL \<or> timer_infos w p = None"

definition good_request :: "int \<Rightarrow> bool" where
  "good_request request \<longleftrightarrow> 0 \<le> request \<and> request < int (length s_commands) \<and> has_function (s_commands ! nat request)"

fun ril_ok :: "nat \<Rightarrow> ril_act \<Rightarrow> ril_world \<Rightarrow> bool" where
  "ril_ok n (A_request serial slot request p) w \<longleftrightarrow> good_request request \<and> (p = NULL \<or> pending_infos w p = None)"
| "ril_ok n (A_fail t e) w \<longleftrightarrow> t \<noteq> NULL \<and> pending_infos w t \<noteq> None"
| "ril_ok n (A_ack t) w \<longleftrightarrow> n < 2 \<or> t = NULL \<or> pending_infos w t \<noteq> None"
| "ril_ok n (A_complete t e resp p) w \<longleftrightarrow> (n < 2 \<or> t = NULL \<or> pending_infos w t \<noteq> None) \<and> fresh_info p w"
| "ril_ok n (A_unsol code d slot answer p mem) w \<longleftrightarrow> fresh_info p w"
| "ril_ok n (A_connect slot c1 c2 answer) w \<longleftrightarrow> fresh_info (snd c1) w \<and>
     (case RIL_onUnsolicitedResponse n 1034 (Some (nat (cb_version w))) slot (fst c1) (snd c1) True w of
        None \<Rightarrow> True | Some w \<Rightarrow> fresh_info (snd c2) w)"
| "ril_ok n (A_timed f param p) w \<longleftrightarrow> fresh_info p w"
| "ril_ok n x w \<longleftrightarrow> True"

fun ril_history :: "nat \<Rightarrow> ril_act list \<Rightarrow> ril_world \<Rightarrow> ril_world option" where
  "ril_history n [] w = Some w"
| "ril_history n (x # xs) w = (if ril_ok n x w then ril_do n x w \<bind> ril_history n xs else ril_history n xs w)"

end
