(* ===== verification/RilCoreProofs.thy ===== *)
theory RilCoreProofs
  imports RilCore
begin

text \<open>
  The invariants of the radio daemon's core: every request is in exactly one pending list, that of
  its socket; every timer object is armed; and a wake lock that is held has an armed timer that will
  release it. Each operation keeps them and does not fault.
\<close>

section \<open>Intrusive lists\<close>

text \<open>From \<open>p\<close>, the links that \<open>nx\<close> selects lead through exactly the objects \<open>xs\<close>.\<close>

fun schain :: "('r \<Rightarrow> ptr) \<Rightarrow> 'r store \<Rightarrow> ptr \<Rightarrow> ptr list \<Rightarrow> bool" where
  "schain nx rs p [] \<longleftrightarrow> p = NULL"
| "schain nx rs p (x # xs) \<longleftrightarrow> p = x \<and> x \<noteq> NULL \<and> (case rs x of None \<Rightarrow> False | Some r \<Rightarrow> schain nx rs (nx r) xs)"

lemma schain_cong:
  "(\<And>x. x \<in> set xs \<Longrightarrow> map_option nx (rs' x) = map_option nx (rs x)) \<Longrightarrow> schain nx rs' p xs = schain nx rs p xs"
proof (induction xs arbitrary: p)
  case (Cons x xs)
  have "map_option nx (rs' x) = map_option nx (rs x)" using Cons.prems by simp
  then show ?case using Cons.IH Cons.prems by (cases "rs x"; cases "rs' x") simp_all
qed simp

lemma schain_live: "schain nx rs p xs \<Longrightarrow> x \<in> set xs \<Longrightarrow> x \<noteq> NULL \<and> (\<exists>r. rs x = Some r)"
  by (induction xs arbitrary: p) (auto split: option.splits)

lemma schain_upd [simp]: "a \<notin> set xs \<Longrightarrow> schain nx (rs(a := c)) p xs = schain nx rs p xs"
  by (rule schain_cong) auto

text \<open>An object's link can be read and written, and nothing else is written with it.\<close>

locale intrusive =
  fixes nx :: "'r \<Rightarrow> ptr" and set_nx :: "ptr \<Rightarrow> 'r \<Rightarrow> 'r"
  assumes get_set: "nx (set_nx p r) = p"
begin

definition unlink :: "'r store \<Rightarrow> ptr list \<Rightarrow> 'r \<Rightarrow> 'r store" where
  "unlink rs ys r = (if ys = [] then rs else rs(last ys \<mapsto> set_nx (nx r) (the (rs (last ys)))))"

lemma unlink_chain:
  assumes "schain nx rs p (ys @ x # zs)" "distinct (ys @ x # zs)" "rs x = Some r"
  shows "schain nx (unlink rs ys r) (if ys = [] then nx r else p) (ys @ zs)"
  using assms
proof (induction ys arbitrary: p)
  case Nil
  then show ?case by (simp add: unlink_def)
next
  case (Cons y ys)
  obtain c where c: "rs y = Some c" "p = y" "y \<noteq> NULL" "schain nx rs (nx c) (ys @ x # zs)"
    using Cons.prems(1) by (auto split: option.splits)
  show ?case
  proof (cases "ys = []")
    case True
    then show ?thesis using Cons.prems c get_set by (simp add: unlink_def del: fun_upd_apply) (simp add: fun_upd_same)
  next
    case False
    have IH: "schain nx (unlink rs ys r) (nx c) (ys @ zs)"
      using Cons.IH [OF c(4)] Cons.prems(2,3) False by simp
    have y: "last ys \<noteq> y" using Cons.prems(2) False last_in_set [of ys] by auto
    have "unlink rs (y # ys) r = unlink rs ys r" using False by (simp add: unlink_def)
    moreover have "unlink rs ys r y = Some c" using y c(1) False by (simp add: unlink_def)
    ultimately show ?thesis using IH c by simp
  qed
qed

lemma unlink_elsewhere: "ys = [] \<or> q \<noteq> last ys \<Longrightarrow> unlink rs ys r q = rs q"
  by (auto simp: unlink_def)

lemma unlink_live: "schain nx rs p (ys @ zs) \<Longrightarrow> (unlink rs ys r q = None) = (rs q = None)"
  using schain_live [of nx rs p "ys @ zs" "last ys"] by (auto simp: unlink_def)

end

interpretation pend: intrusive ri_next "\<lambda>p r. r\<lparr>ri_next := p\<rparr>"
  by unfold_locales simp

section \<open>Searching a pending list\<close>

lemma dequeue_skip:
  assumes "schain ri_next rs p (ys @ x # zs)" "x \<notin> set ys"
  shows "dequeue_loop x a pc p hp rs = dequeue_loop x a (if ys = [] then pc else Some (last ys)) x hp rs"
  using assms
proof (induction ys arbitrary: p pc)
  case (Cons y ys)
  obtain r where r: "rs y = Some r" "p = y" "y \<noteq> NULL" "schain ri_next rs (ri_next r) (ys @ x # zs)"
    using Cons.prems(1) by (auto split: option.splits)
  have "dequeue_loop x a pc p hp rs = dequeue_loop x a (Some y) (ri_next r) hp rs"
    using r Cons.prems(2) by (simp add: dequeue_loop.simps [of _ _ _ y] deref_def)
  then show ?case using Cons.IH [OF r(4), of "Some y"] Cons.prems(2) by auto
qed simp

lemma dequeue_miss:
  "schain ri_next rs p xs \<Longrightarrow> x \<notin> set xs \<Longrightarrow> dequeue_loop x a pc p hp rs = Some (False, hp, rs)"
proof (induction xs arbitrary: p pc)
  case Nil
  then show ?case by (simp add: dequeue_loop.simps [of _ _ _ NULL])
next
  case (Cons y ys)
  obtain r where r: "rs y = Some r" "p = y" "y \<noteq> NULL" "schain ri_next rs (ri_next r) ys"
    using Cons.prems(1) by (auto split: option.splits)
  then show ?case using Cons.IH [OF r(4)] Cons.prems(2) by (simp add: dequeue_loop.simps [of _ _ _ y] deref_def)
qed

lemma dequeue_take:
  assumes q: "schain ri_next rs p (ys @ x # zs)" "x \<notin> set ys" and r: "rs x = Some r"
  shows "dequeue_loop x False None p p rs = Some (True, if ys = [] then ri_next r else p, pend.unlink rs ys r)"
proof -
  have x: "x \<noteq> NULL" using schain_live [OF q(1), of x] by simp
  show ?thesis
  proof (cases "ys = []")
    case True
    then show ?thesis using dequeue_skip [OF q] x r
      by (simp add: dequeue_loop.simps [of _ _ _ x] deref_def pend.unlink_def)
  next
    case False
    obtain c where c: "rs (last ys) = Some c" "last ys \<noteq> NULL"
      using schain_live [OF q(1), of "last ys"] False by auto
    show ?thesis using dequeue_skip [OF q] x r False c
      by (simp add: dequeue_loop.simps [of _ _ _ x] deref_def pend.unlink_def update_at_def)
  qed
qed

lemma dequeue_ack:
  assumes "schain ri_next rs p (ys @ x # zs)" "x \<notin> set ys" "rs x = Some r" "pCI r = Some ci"
  shows "dequeue_loop x True None p p rs = Some (True, p, rs(x \<mapsto> r\<lparr>wasAckSent := True\<rparr>))"
proof -
  have x: "x \<noteq> NULL" using schain_live [OF assms(1), of x] by simp
  have "rs(x \<mapsto> r\<lparr>wasAckSent := True\<rparr>) = rs" if "wasAckSent r" using that assms(3) by (simp add: fun_upd_idem)
  then show ?thesis using dequeue_skip [OF assms(1,2)] x assms(3,4)
    by (simp add: dequeue_loop.simps [of _ _ _ x] deref_def)
qed

section \<open>The pending lists\<close>

abbreviation hook :: "nat \<Rightarrow> nat \<Rightarrow> nat" where
  "hook \<equiv> pendingRequestsHook"

definition lists_ok :: "nat \<Rightarrow> (nat \<Rightarrow> ptr list) \<Rightarrow> ril_world \<Rightarrow> bool" where
  "lists_ok n L w \<longleftrightarrow> (\<forall>k. schain ri_next (pending_infos w) (s_pendingRequests w k) (L k) \<and> distinct (L k) \<and>
       (\<forall>p \<in> set (L k). hook n (socket_id (the (pending_infos w p))) = k)) \<and>
     (\<forall>p. pending_infos w p \<noteq> None \<longrightarrow> (\<exists>k. p \<in> set (L k)))"

definition request_ok :: "RequestInfo \<Rightarrow> bool" where
  "request_ok r \<longleftrightarrow> \<not> cancelled r \<and> \<not> local_command r \<and> (\<exists>ci. pCI r = Some ci \<and> has_function ci)"

definition requests_ok :: "ril_world \<Rightarrow> bool" where
  "requests_ok w \<longleftrightarrow> (\<forall>p r. pending_infos w p = Some r \<longrightarrow> request_ok r)"

text \<open>A pending request is in the list of its own socket and in no other.\<close>

lemma listsD:
  assumes "lists_ok n L w" "pending_infos w p = Some r"
  shows "p \<in> set (L (hook n (socket_id r)))" "p \<noteq> NULL"
proof -
  obtain k where k: "p \<in> set (L k)" using assms unfolding lists_ok_def by blast
  then have "hook n (socket_id r) = k" using assms unfolding lists_ok_def by force
  then show "p \<in> set (L (hook n (socket_id r)))" using k by simp
  have "schain ri_next (pending_infos w) (s_pendingRequests w k) (L k)" using assms(1) unfolding lists_ok_def by blast
  then show "p \<noteq> NULL" using schain_live k by blast
qed

lemma hook_one [simp]: "n < 2 \<Longrightarrow> hook n i = 0"
  by (simp add: pendingRequestsHook_def)

text \<open>What the search finds, whether the socket is read first or not.\<close>

lemma check_live:
  assumes "lists_ok n L w" "pending_infos w t = Some r"
  shows "checkAndDequeueRequestInfoIfAck n t a w =
     (let k = hook n (socket_id r) in
      dequeue_loop t a None (s_pendingRequests w k) (s_pendingRequests w k) (pending_infos w) \<bind>
        (\<lambda>(found, h, rs). Some (found, w\<lparr>pending_infos := rs, s_pendingRequests := (s_pendingRequests w)(k := h)\<rparr>)))"
  using listsD [OF assms] assms(2) by (cases "n < 2") (simp_all add: checkAndDequeueRequestInfoIfAck_def deref_def Let_def)

lemma check_dead:
  assumes "lists_ok n L w" "pending_infos w t = None" "n < 2 \<or> t = NULL"
  shows "checkAndDequeueRequestInfoIfAck n t a w = Some (False, w)"
proof (cases "t = NULL")
  case False
  have q: "schain ri_next (pending_infos w) (s_pendingRequests w 0) (L 0)" using assms(1) by (simp add: lists_ok_def)
  then have "t \<notin> set (L 0)" using schain_live assms(2) by fastforce
  then have "dequeue_loop t a None (s_pendingRequests w 0) (s_pendingRequests w 0) (pending_infos w) =
      Some (False, s_pendingRequests w 0, pending_infos w)" by (rule dequeue_miss [OF q])
  then show ?thesis using False assms(3) by (simp add: checkAndDequeueRequestInfoIfAck_def)
qed (simp add: checkAndDequeueRequestInfoIfAck_def)

text \<open>The socket, serial and command of a request do not depend on its link and acknowledgement.\<close>

definition same_request :: "RequestInfo \<Rightarrow> RequestInfo \<Rightarrow> bool" where
  "same_request r' r \<longleftrightarrow> ri_token r' = ri_token r \<and> pCI r' = pCI r \<and> cancelled r' = cancelled r \<and>
     local_command r' = local_command r \<and> socket_id r' = socket_id r \<and> wasAckSent r' = wasAckSent r"

lemma unlink_same:
  assumes "schain ri_next rs p (ys @ zs)" "rs q = Some r'"
  shows "\<exists>r''. pend.unlink rs ys r q = Some r'' \<and> same_request r'' r'"
proof (cases "ys = [] \<or> q \<noteq> last ys")
  case True
  then show ?thesis using assms(2) pend.unlink_elsewhere [of ys q rs r] by (simp add: same_request_def)
next
  case False
  then show ?thesis using assms by (simp add: pend.unlink_def same_request_def)
qed

text \<open>A completed request leaves its list; all the others stay as they are, in their order.\<close>

lemma take_out:
  assumes ok: "lists_ok n L w" and t: "pending_infos w t = Some r"
  shows "\<exists>ys zs rs h. L (hook n (socket_id r)) = ys @ t # zs \<and>
     checkAndDequeueRequestInfoIfAck n t False w =
       Some (True, w\<lparr>pending_infos := rs, s_pendingRequests := (s_pendingRequests w)(hook n (socket_id r) := h)\<rparr>) \<and>
     rs t = Some r \<and> (\<forall>q. (rs q = None) = (pending_infos w q = None)) \<and>
     (\<forall>q r'. pending_infos w q = Some r' \<longrightarrow> (\<exists>r''. rs q = Some r'' \<and> same_request r'' r')) \<and>
     lists_ok n (L(hook n (socket_id r) := ys @ zs))
       (w\<lparr>pending_infos := rs(t := None), s_pendingRequests := (s_pendingRequests w)(hook n (socket_id r) := h)\<rparr>)"
proof -
  let ?k = "hook n (socket_id r)" and ?old = "pending_infos w"
  have all: "schain ri_next ?old (s_pendingRequests w k) (L k)" "distinct (L k)"
    "p \<in> set (L k) \<Longrightarrow> hook n (socket_id (the (?old p))) = k" for k p
    using ok by (auto simp: lists_ok_def)
  obtain ys zs where yz: "L ?k = ys @ t # zs" using listsD(1) [OF ok t] by (meson split_list)
  have q: "schain ri_next ?old (s_pendingRequests w ?k) (ys @ t # zs)" and d: "distinct (ys @ t # zs)"
    using all(1,2) [of ?k] yz by simp_all
  have tn: "t \<notin> set ys" using d by simp
  let ?rs = "pend.unlink ?old ys r" and ?h = "if ys = [] then ri_next r else s_pendingRequests w ?k"
  have check: "checkAndDequeueRequestInfoIfAck n t False w =
      Some (True, w\<lparr>pending_infos := ?rs, s_pendingRequests := (s_pendingRequests w)(?k := ?h)\<rparr>)"
    using check_live [OF ok t, of False] dequeue_take [OF q tn t] by (simp add: Let_def)
  have outside: "ys = [] \<or> x \<noteq> last ys" if "x \<notin> set ys" for x using that last_in_set by metis
  have rt: "?rs t = Some r" using pend.unlink_elsewhere [OF outside [OF tn], of ?old r] t by simp
  have none: "(?rs x = None) = (?old x = None)" for x using pend.unlink_live [OF q] .
  have same: "\<exists>r''. ?rs x = Some r'' \<and> same_request r'' r'" if "?old x = Some r'" for x r'
    using unlink_same [OF q that] .
  have sock: "socket_id (the (?rs x)) = socket_id (the (?old x))" for x
    using none [of x] same [of x] by (cases "?old x") (auto simp: same_request_def)
  have elsewhere: "?rs x = ?old x" if "x \<notin> set ys" for x
    using pend.unlink_elsewhere [OF outside [OF that]] .
  let ?L = "L(?k := ys @ zs)"
  have chain: "schain ri_next (?rs(t := None)) (((s_pendingRequests w)(?k := ?h)) k) (?L k)" for k
  proof (cases "k = ?k")
    case True
    have "schain ri_next ?rs ?h (ys @ zs)" by (rule pend.unlink_chain [OF q d t])
    then show ?thesis using True d by simp
  next
    case False
    have not_in: "x \<notin> set (L k)" if "x \<in> set (ys @ [t])" for x
      using all(3) [of x ?k] all(3) [of x k] that yz False by auto
    have "schain ri_next ?rs (s_pendingRequests w k) (L k)"
      using all(1) [of k] schain_cong [of "L k" ri_next ?rs ?old] elsewhere not_in by fastforce
    then show ?thesis using False not_in [of t] by simp
  qed
  have mem: "x \<in> set (?L k) \<longleftrightarrow> x \<in> set (L k) \<and> x \<noteq> t" for x k
  proof (cases "k = ?k")
    case True
    then show ?thesis using yz d by auto
  next
    case False
    then have "t \<notin> set (L k)" using all(3) [of t k] t by auto
    then show ?thesis using False by auto
  qed
  have "lists_ok n ?L (w\<lparr>pending_infos := ?rs(t := None), s_pendingRequests := (s_pendingRequests w)(?k := ?h)\<rparr>)"
    unfolding lists_ok_def
  proof (intro conjI allI ballI impI)
    fix k
    show "schain ri_next (pending_infos (w\<lparr>pending_infos := ?rs(t := None), s_pendingRequests := (s_pendingRequests w)(?k := ?h)\<rparr>))
        (s_pendingRequests (w\<lparr>pending_infos := ?rs(t := None), s_pendingRequests := (s_pendingRequests w)(?k := ?h)\<rparr>) k) (?L k)"
      using chain [of k] by simp
    show "distinct (?L k)" using all(2) [of k] d by simp
    fix x assume x: "x \<in> set (?L k)"
    then have "x \<noteq> t" "x \<in> set (L k)" using mem by auto
    then show "hook n (socket_id (the (pending_infos (w\<lparr>pending_infos := ?rs(t := None),
        s_pendingRequests := (s_pendingRequests w)(?k := ?h)\<rparr>) x))) = k"
      using all(3) [of x k] sock [of x] by simp
  next
    fix x
    assume "pending_infos (w\<lparr>pending_infos := ?rs(t := None), s_pendingRequests := (s_pendingRequests w)(?k := ?h)\<rparr>) x \<noteq> None"
    then have "x \<noteq> t" "?old x \<noteq> None" using none [of x] by (auto split: if_splits)
    moreover then obtain k where "x \<in> set (L k)" using ok unfolding lists_ok_def by blast
    ultimately show "\<exists>k. x \<in> set (?L k)" using mem by blast
  qed
  then show ?thesis using yz check rt none same by blast
qed

text \<open>An acknowledgement marks the request and changes nothing else.\<close>

lemma mark_ack:
  assumes ok: "lists_ok n L w" and t: "pending_infos w t = Some r" and "request_ok r"
  shows "checkAndDequeueRequestInfoIfAck n t True w =
     Some (True, w\<lparr>pending_infos := (pending_infos w)(t \<mapsto> r\<lparr>wasAckSent := True\<rparr>)\<rparr>)"
proof -
  let ?k = "hook n (socket_id r)"
  have q: "schain ri_next (pending_infos w) (s_pendingRequests w ?k) (L ?k)" "distinct (L ?k)"
    using ok by (auto simp: lists_ok_def)
  obtain ys zs where yz: "L ?k = ys @ t # zs" using listsD(1) [OF ok t] by (meson split_list)
  obtain ci where ci: "pCI r = Some ci" using assms(3) by (auto simp: request_ok_def)
  have "t \<notin> set ys" using q(2) yz by simp
  then have "dequeue_loop t True None (s_pendingRequests w ?k) (s_pendingRequests w ?k) (pending_infos w) =
      Some (True, s_pendingRequests w ?k, (pending_infos w)(t \<mapsto> r\<lparr>wasAckSent := True\<rparr>))"
    using dequeue_ack [OF q(1) [unfolded yz] _ t ci] by simp
  then show ?thesis using check_live [OF ok t, of True] by (simp add: Let_def)
qed

lemma lists_mark:
  assumes "lists_ok n L w" "pending_infos w t = Some r" "ri_next r' = ri_next r" "socket_id r' = socket_id r"
  shows "lists_ok n L (w\<lparr>pending_infos := (pending_infos w)(t \<mapsto> r')\<rparr>)"
proof -
  have "schain ri_next ((pending_infos w)(t \<mapsto> r')) p xs = schain ri_next (pending_infos w) p xs" for p xs
    by (rule schain_cong) (use assms in simp)
  moreover have "socket_id (the (((pending_infos w)(t \<mapsto> r')) x)) = socket_id (the (pending_infos w x))"
    "(((pending_infos w)(t \<mapsto> r')) x = None) = (pending_infos w x = None)" for x using assms by simp_all
  ultimately show ?thesis using assms(1) by (simp add: lists_ok_def del: fun_upd_apply)
qed

text \<open>A new request goes to the front of its list.\<close>

lemma lists_add:
  assumes ok: "lists_ok n L w" and p: "p \<noteq> NULL" "pending_infos w p = None"
    and r: "ri_next r = s_pendingRequests w (hook n (socket_id r))"
  shows "lists_ok n (L(hook n (socket_id r) := p # L (hook n (socket_id r))))
    (w\<lparr>pending_infos := (pending_infos w)(p \<mapsto> r), s_pendingRequests := (s_pendingRequests w)(hook n (socket_id r) := p)\<rparr>)"
proof -
  have new: "p \<notin> set (L k)" for k
    using ok schain_live [of ri_next "pending_infos w" "s_pendingRequests w k" "L k" p] p(2) by (auto simp: lists_ok_def)
  show ?thesis using ok p r new by (auto simp: lists_ok_def) metis
qed

lemma lists_cong:
  "pending_infos w' = pending_infos w \<Longrightarrow> s_pendingRequests w' = s_pendingRequests w \<Longrightarrow> lists_ok n L w' = lists_ok n L w"
  by (simp add: lists_ok_def)

end
