(* ===== verification/RilCoreSafety.thy ===== *)
theory RilCoreSafety
  imports RilCoreProofs
begin

text \<open>
  The wake lock's invariant, the preservation of all invariants by every operation, and what they
  give over whole histories.
\<close>

section \<open>The wake lock\<close>

abbreviation last_wake :: "ril_world \<Rightarrow> ptr" where
  "last_wake \<equiv> s_last_wake_timeout_info"

definition wake_rest :: "ril_world \<Rightarrow> bool" where
  "wake_rest w \<longleftrightarrow> distinct (armed w) \<and> NULL \<notin> set (armed w) \<and> (\<forall>p. timer_infos w p \<noteq> None \<longleftrightarrow> p \<in> set (armed w)) \<and>
     (last_wake w \<noteq> NULL \<longrightarrow> last_wake w \<in> set (armed w) \<and> p_callback (the (timer_infos w (last_wake w))) = WakeTimeoutCallback)"

text \<open>A held lock has an armed timer that is not cancelled.\<close>

definition wake_ok :: "ril_world \<Rightarrow> bool" where
  "wake_ok w \<longleftrightarrow> wake_rest w \<and>
     (wake_held w \<longrightarrow> last_wake w \<noteq> NULL \<and> userParam (the (timer_infos w (last_wake w))) = NULL)"

lemma held_timer:
  assumes "wake_ok w" "wake_held w"
  shows "last_wake w \<noteq> NULL \<and> last_wake w \<in> set (armed w) \<and>
    timer_infos w (last_wake w) = Some \<lparr>p_callback = WakeTimeoutCallback, userParam = NULL\<rparr>"
proof -
  have facts: "last_wake w \<noteq> NULL" "last_wake w \<in> set (armed w)" "p_callback (the (timer_infos w (last_wake w))) = WakeTimeoutCallback"
    "userParam (the (timer_infos w (last_wake w))) = NULL" "timer_infos w (last_wake w) \<noteq> None"
    using assms by (auto simp: wake_ok_def wake_rest_def)
  then obtain i where "timer_infos w (last_wake w) = Some i" by blast
  then show ?thesis using facts by (cases i) simp
qed

definition same_core :: "ril_world \<Rightarrow> ril_world \<Rightarrow> bool" where
  "same_core w' w \<longleftrightarrow> pending_infos w' = pending_infos w \<and> s_pendingRequests w' = s_pendingRequests w \<and>
     radio_calls w' = radio_calls w \<and> cb_version w' = cb_version w \<and> s_registerCalled w' = s_registerCalled w \<and>
     s_lastNITZTimeData w' = s_lastNITZTimeData w"

lemma same_core_trans: "same_core w2 w1 \<Longrightarrow> same_core w1 w \<Longrightarrow> same_core w2 w"
  by (simp add: same_core_def)

lemma cancel_last_eq:
  assumes "wake_rest w" "last_wake w \<noteq> NULL"
  shows "cancel_last w = Some (w\<lparr>timer_infos := (timer_infos w)(last_wake w \<mapsto> (the (timer_infos w (last_wake w)))\<lparr>userParam := 1\<rparr>)\<rparr>)"
proof -
  obtain i where "timer_infos w (last_wake w) = Some i" using assms unfolding wake_rest_def by fastforce
  then show ?thesis using assms(2) by (simp add: cancel_last_def update_at_def deref_def)
qed

lemma cancel_rest:
  assumes "wake_rest w" "last_wake w \<noteq> NULL" "cancel_last w = Some w'"
  shows "wake_rest w' \<and> same_core w' w \<and> last_wake w' = last_wake w \<and> wake_held w' = wake_held w \<and> armed w' = armed w \<and>
    (\<forall>p. p \<noteq> last_wake w \<longrightarrow> timer_infos w' p = timer_infos w p)"
proof -
  have w': "w' = w\<lparr>timer_infos := (timer_infos w)(last_wake w \<mapsto> (the (timer_infos w (last_wake w)))\<lparr>userParam := 1\<rparr>)\<rparr>"
    using cancel_last_eq [OF assms(1,2)] assms(3) by simp
  show ?thesis using assms(1,2) unfolding w' by (simp add: wake_rest_def same_core_def) 
qed

text \<open>A new wake timer \<open>p\<close> replaces the last one.\<close>

lemma replace_last_ok:
  assumes rest: "wake_rest w" and p: "p \<in> set (armed w)" "p \<noteq> last_wake w"
    and i: "timer_infos w p = Some \<lparr>p_callback = WakeTimeoutCallback, userParam = NULL\<rparr>"
  shows "\<exists>w'. replace_last p w = Some w' \<and> wake_ok w' \<and> same_core w' w \<and> armed w' = armed w"
proof -
  obtain w1 where w1: "(if last_wake w \<noteq> NULL then cancel_last w else Some w) = Some w1" "wake_rest w1" "same_core w1 w"
    "armed w1 = armed w" "timer_infos w1 p = timer_infos w p"
  proof (cases "last_wake w = NULL")
    case True
    show ?thesis by (rule that [of w]) (simp_all add: True rest same_core_def)
  next
    case False
    obtain w1 where w1: "cancel_last w = Some w1" using cancel_last_eq [OF rest False] by simp
    have facts: "wake_rest w1 \<and> same_core w1 w \<and> last_wake w1 = last_wake w \<and> wake_held w1 = wake_held w \<and> armed w1 = armed w \<and>
        (\<forall>p. p \<noteq> last_wake w \<longrightarrow> timer_infos w1 p = timer_infos w p)"
      by (rule cancel_rest [OF rest False w1])
    show ?thesis by (rule that [of w1]) (use facts w1 False p in simp_all)
  qed
  have "p \<noteq> NULL" using rest p(1) unfolding wake_rest_def by metis
  then have "wake_ok (set_last p w1)" using w1 p i by (simp add: wake_ok_def wake_rest_def set_last_def)
  moreover have "replace_last p w = Some (set_last p w1)" using w1(1) by (simp add: replace_last_def)
  ultimately show ?thesis using w1(3,4) by (simp add: same_core_def set_last_def)
qed

lemma arm_ok:
  assumes "wake_rest w" "p \<noteq> NULL" "timer_infos w p = None"
  shows "wake_rest (internalRequestTimedCallback cb q p w) \<and> same_core (internalRequestTimedCallback cb q p w) w \<and>
    last_wake (internalRequestTimedCallback cb q p w) = last_wake w \<and> wake_held (internalRequestTimedCallback cb q p w) = wake_held w \<and>
    p \<in> set (armed (internalRequestTimedCallback cb q p w)) \<and> p \<noteq> last_wake w \<and>
    timer_infos (internalRequestTimedCallback cb q p w) p = Some \<lparr>p_callback = cb, userParam = q\<rparr> \<and>
    (\<forall>x. x \<noteq> p \<longrightarrow> timer_infos (internalRequestTimedCallback cb q p w) x = timer_infos w x)"
proof -
  have "p \<notin> set (armed w)" using assms unfolding wake_rest_def by metis
  moreover from this have "p \<noteq> last_wake w" using assms unfolding wake_rest_def by metis
  ultimately show ?thesis using assms by (auto simp: wake_rest_def internalRequestTimedCallback_def same_core_def)
qed

lemma wake_rest_fields:
  "wake_rest (w\<lparr>wake_held := b\<rparr>) = wake_rest w" "wake_rest (w\<lparr>s_wakelock_count := c\<rparr>) = wake_rest w"
  by (simp_all add: wake_rest_def)

lemma grab_ok:
  assumes ok: "wake_ok w" and p: "fresh_info p w"
  shows "\<exists>w'. grabPartialWakeLock p w = Some w' \<and> wake_rest w' \<and> (cb_version w \<ge> 13 \<longrightarrow> wake_ok w') \<and> same_core w' w \<and>
    (cb_version w < 13 \<longrightarrow> timer_infos w' = timer_infos w)"
proof (cases "cb_version w \<ge> 13")
  case False
  then show ?thesis using ok by (simp add: grabPartialWakeLock_def wake_ok_def wake_rest_fields same_core_def)
next
  case True
  have rest: "wake_rest (w\<lparr>wake_held := True\<rparr>)" using ok by (simp add: wake_ok_def wake_rest_fields)
  show ?thesis
  proof (cases "p = NULL")
    case True
    then show ?thesis using ok \<open>cb_version w \<ge> 13\<close>
      by (simp add: grabPartialWakeLock_def grab_begin_def internalRequestTimedCallback_def wake_ok_def wake_rest_fields same_core_def)
  next
    case False
    define w0 where "w0 = w\<lparr>wake_held := True\<rparr>"
    define w1 where "w1 = internalRequestTimedCallback WakeTimeoutCallback NULL p w0"
    define w2 where "w2 = w1\<lparr>s_wakelock_count := s_wakelock_count w1 + 1\<rparr>"
    have new: "timer_infos w0 p = None" using p False by (simp add: fresh_info_def w0_def)
    have a: "wake_rest w1 \<and> same_core w1 w0 \<and> last_wake w1 = last_wake w0 \<and> wake_held w1 = wake_held w0 \<and>
        p \<in> set (armed w1) \<and> p \<noteq> last_wake w0 \<and> timer_infos w1 p = Some \<lparr>p_callback = WakeTimeoutCallback, userParam = NULL\<rparr> \<and>
        (\<forall>x. x \<noteq> p \<longrightarrow> timer_infos w1 x = timer_infos w0 x)"
      unfolding w1_def by (rule arm_ok) (use rest False new in \<open>simp_all add: w0_def\<close>)
    have b: "wake_rest w2" "same_core w2 w" "p \<in> set (armed w2)" "p \<noteq> last_wake w2"
      "timer_infos w2 p = Some \<lparr>p_callback = WakeTimeoutCallback, userParam = NULL\<rparr>"
      using a by (simp_all add: w2_def w0_def wake_rest_fields same_core_def)
    obtain w' where w': "replace_last p w2 = Some w'" "wake_ok w'" "same_core w' w2"
      using replace_last_ok [OF b(1,3,4,5)] by blast
    have start: "grab_begin p w = w2" using False by (simp add: grab_begin_def w2_def w1_def w0_def Let_def)
    have "grabPartialWakeLock p w = Some w'"
      using \<open>cb_version w \<ge> 13\<close> False w'(1) by (simp add: grabPartialWakeLock_def start)
    moreover have "same_core w' w" by (rule same_core_trans [OF w'(3) b(2)])
    ultimately show ?thesis using w'(2) \<open>cb_version w \<ge> 13\<close> by (simp add: wake_ok_def)
  qed
qed

lemma release_ok:
  assumes rest: "wake_rest w" and ok: "cb_version w \<ge> 13 \<longrightarrow> wake_ok w"
  shows "\<exists>w'. releaseWakeLock w = Some w' \<and> wake_ok w' \<and> same_core w' w"
proof -
  consider "cb_version w < 13" | "cb_version w \<ge> 13" "s_wakelock_count w > 1"
    | "cb_version w \<ge> 13" "\<not> s_wakelock_count w > 1" by linarith
  then show ?thesis
  proof cases
    case 1
    then show ?thesis using rest by (simp add: releaseWakeLock_def wake_ok_def wake_rest_fields same_core_def)
  next
    case 2
    then show ?thesis using ok by (simp add: releaseWakeLock_def wake_ok_def wake_rest_fields same_core_def)
  next
    case 3
    define v where "v = w\<lparr>s_wakelock_count := 0, wake_held := False\<rparr>"
    have v: "wake_rest v" "same_core v w" "\<not> wake_held v" using rest by (simp_all add: v_def wake_rest_fields same_core_def)
    have eq: "releaseWakeLock w = (if last_wake v \<noteq> NULL then cancel_last v else Some v)"
      using 3 by (simp add: releaseWakeLock_def v_def)
    show ?thesis
    proof (cases "last_wake v = NULL")
      case True
      then show ?thesis using eq v by (simp add: wake_ok_def)
    next
      case False
      obtain w1 where w1: "cancel_last v = Some w1" using cancel_last_eq [OF v(1) False] by simp
      have facts: "wake_rest w1 \<and> same_core w1 v \<and> last_wake w1 = last_wake v \<and> wake_held w1 = wake_held v \<and> armed w1 = armed v \<and>
          (\<forall>p. p \<noteq> last_wake v \<longrightarrow> timer_infos w1 p = timer_infos v p)"
        by (rule cancel_rest [OF v(1) False w1])
      then have "same_core w1 w" using same_core_trans v(2) by blast
      then show ?thesis using eq False w1 facts v(3) by (simp add: wake_ok_def)
    qed
  qed
qed

text \<open>An expiry frees its object; if it was the last wake timer, the lock is not held afterwards.\<close>

definition timers_only :: "ril_world \<Rightarrow> ril_world \<Rightarrow> bool" where
  "timers_only w' w \<longleftrightarrow> pending_infos w' = pending_infos w \<and> s_pendingRequests w' = s_pendingRequests w \<and>
     cb_version w' = cb_version w \<and> s_registerCalled w' = s_registerCalled w \<and> s_lastNITZTimeData w' = s_lastNITZTimeData w"

lemma run_callback_ok:
  "\<exists>w'. run_callback i w = Some w' \<and> timers_only w' w \<and> timer_infos w' = timer_infos w \<and> armed w' = armed w \<and>
     last_wake w' = last_wake w \<and> (wake_held w' \<longrightarrow> wake_held w) \<and>
     (p_callback i = WakeTimeoutCallback \<and> userParam i = NULL \<longrightarrow> \<not> wake_held w')"
  by (cases "p_callback i")
     (auto simp: run_callback_def wakeTimeoutCallback_def releaseWakeLock_def timers_only_def radio_def)

lemma expire_ok:
  assumes ok: "wake_ok w"
  shows "\<exists>w'. expire p w = Some w' \<and> wake_ok w' \<and> timers_only w' w \<and> armed w' = remove1 p (armed w) \<and>
    (wake_held w' \<longrightarrow> wake_held w)"
proof (cases "p \<in> set (armed w)")
  case False
  then show ?thesis using ok by (simp add: expire_def timers_only_def remove1_idem)
next
  case True
  define v where "v = w\<lparr>armed := remove1 p (armed w)\<rparr>"
  have rest: "distinct (armed w)" "NULL \<notin> set (armed w)" "\<And>q. timer_infos w q \<noteq> None \<longleftrightarrow> q \<in> set (armed w)"
    "last_wake w \<noteq> NULL \<Longrightarrow> last_wake w \<in> set (armed w) \<and> p_callback (the (timer_infos w (last_wake w))) = WakeTimeoutCallback"
    using ok by (simp_all add: wake_ok_def wake_rest_def)
  obtain i where i: "timer_infos w p = Some i" using rest(3) [of p] True by blast
  have p: "p \<noteq> NULL" using True rest(2) by metis
  obtain w1 where w1: "run_callback i v = Some w1" "timers_only w1 v" "timer_infos w1 = timer_infos v" "armed w1 = armed v"
    "last_wake w1 = last_wake v" "wake_held w1 \<longrightarrow> wake_held v"
    "p_callback i = WakeTimeoutCallback \<and> userParam i = NULL \<longrightarrow> \<not> wake_held w1"
    using run_callback_ok [of i v] by blast
  define w2 where "w2 = (forget_last p w1)\<lparr>timer_infos := (timer_infos w)(p := None)\<rparr>"
  have t: "timer_infos (forget_last p w1) = timer_infos w" using w1(3) by (simp add: forget_last_def set_last_def v_def)
  have "expire p w = Some w2"
    using True i p w1(1) t by (simp add: expire_def userTimerCallback_def v_def [symmetric] deref_def free_info_def release_def w2_def)
       (simp add: v_def)
  moreover have held: "wake_held w2 = wake_held w1" "armed w2 = remove1 p (armed w)" "timers_only w2 w"
    using w1(2,4) by (auto simp: w2_def forget_last_def set_last_def v_def timers_only_def)
  moreover have last: "last_wake w2 = (if last_wake w = p then NULL else last_wake w)"
    using w1(5) p by (simp add: w2_def forget_last_def set_last_def v_def)
  have "wake_ok w2"
  proof -
    have dom: "timer_infos w2 q \<noteq> None \<longleftrightarrow> q \<in> set (armed w2)" for q
      using rest(1,3) held(2) by (simp add: w2_def)
    have keep: "timer_infos w2 q = timer_infos w q" if "q \<noteq> p" for q using that by (simp add: w2_def)
    have other: "wake_held w2 \<longrightarrow> last_wake w \<noteq> p"
    proof (intro impI notI)
      assume that: "wake_held w2"
      assume lp: "last_wake w = p"
      have "wake_held w" using that held(1) w1(6) by (simp add: v_def)
      then have "userParam i = NULL" using ok lp i by (simp add: wake_ok_def)
      moreover have "p_callback i = WakeTimeoutCallback" using rest(4) lp p i by simp
      ultimately show False using w1(7) that held(1) by simp
    qed
    have before: "wake_held w2 \<longrightarrow> wake_held w" using held(1) w1(6) by (simp add: v_def)
    show ?thesis
    proof (cases "last_wake w = p")
      case True
      then have "\<not> wake_held w2" using other by blast
      then show ?thesis using True rest(1,2) dom last held(2) by (simp add: wake_ok_def wake_rest_def)
    next
      case False
      then show ?thesis using ok before rest(1,2) dom keep last held(2) by (auto simp: wake_ok_def wake_rest_def)
    qed
  qed
  moreover have "wake_held w2 \<longrightarrow> wake_held w" using held(1) w1(6) by (simp add: v_def)
  ultimately show ?thesis by blast
qed

section \<open>Operations\<close>

definition ril_inv :: "nat \<Rightarrow> ril_world \<Rightarrow> bool" where
  "ril_inv n w \<longleftrightarrow> wake_ok w \<and> requests_ok w \<and> (\<exists>L. lists_ok n L w)"

lemma wake_ok_cong:
  "armed w' = armed w \<Longrightarrow> timer_infos w' = timer_infos w \<Longrightarrow> last_wake w' = last_wake w \<Longrightarrow> wake_held w' = wake_held w \<Longrightarrow>
     wake_ok w' = wake_ok w"
  by (simp add: wake_ok_def wake_rest_def)

lemma wake_rest_cong:
  "armed w' = armed w \<Longrightarrow> timer_infos w' = timer_infos w \<Longrightarrow> last_wake w' = last_wake w \<Longrightarrow> wake_rest w' = wake_rest w"
  by (simp add: wake_rest_def)

lemma inv_cong:
  assumes "ril_inv n w" "wake_ok w'" "pending_infos w' = pending_infos w" "s_pendingRequests w' = s_pendingRequests w"
  shows "ril_inv n w'"
  using assms lists_cong [OF assms(3,4)] by (simp add: ril_inv_def requests_ok_def)

lemma radio_fields [simp]:
  "armed (radio c w) = armed w" "timer_infos (radio c w) = timer_infos w" "last_wake (radio c w) = last_wake w"
  "wake_held (radio c w) = wake_held w" "pending_infos (radio c w) = pending_infos w"
  "s_pendingRequests (radio c w) = s_pendingRequests w" "cb_version (radio c w) = cb_version w"
  "s_registerCalled (radio c w) = s_registerCalled w" "s_lastNITZTimeData (radio c w) = s_lastNITZTimeData w"
  "radio_calls (radio c w) = radio_calls w @ [c]"
  by (simp_all add: radio_def)

lemma wake_ok_radio [simp]: "wake_ok (radio c w) = wake_ok w"
  by (rule wake_ok_cong) simp_all

lemma find_good:
  "good_request request \<Longrightarrow> find_command request = Some (Some (s_commands ! nat request))"
  by (auto simp: good_request_def find_command_def s_commands_def ril_constants)

lemma request_inv:
  assumes inv: "ril_inv n w" and good: "good_request request" and p: "p = NULL \<or> pending_infos w p = None"
  shows "\<exists>w'. addRequestToList n serial slot request p w = Some (p, w') \<and> ril_inv n w'"
proof (cases "p = NULL")
  case True
  then show ?thesis using inv find_good [OF good] by (simp add: addRequestToList_def)
next
  case False
  define r where "r = \<lparr>ri_token = serial, pCI = Some (s_commands ! nat request), ri_next = s_pendingRequests w (hook n slot),
    cancelled = False, local_command = False, socket_id = slot, wasAckSent = False\<rparr>"
  let ?w = "w\<lparr>pending_infos := (pending_infos w)(p \<mapsto> r), s_pendingRequests := (s_pendingRequests w)(hook n slot := p)\<rparr>"
  obtain L where L: "lists_ok n L w" using inv by (auto simp: ril_inv_def)
  have "lists_ok n (L(hook n slot := p # L (hook n slot))) ?w"
    using lists_add [OF L False, of r] p False by (simp add: r_def)
  moreover have "request_ok r" using good by (simp add: request_ok_def r_def good_request_def)
  then have "requests_ok ?w" using inv by (simp add: requests_ok_def ril_inv_def)
  moreover have "wake_ok ?w" using inv wake_ok_cong [of ?w w] by (simp add: ril_inv_def)
  ultimately have "ril_inv n ?w" unfolding ril_inv_def by blast
  moreover have "addRequestToList n serial slot request p w = Some (p, ?w)"
    using False by (simp add: addRequestToList_def find_good [OF good] r_def Let_def)
  ultimately show ?thesis by blast
qed

lemma requestD:
  assumes "requests_ok w" "pending_infos w t = Some r"
  obtains ci where "pCI r = Some ci" "has_function ci" "\<not> cancelled r" "\<not> local_command r"
  using assms by (auto simp: requests_ok_def request_ok_def)

lemma fail_inv:
  assumes inv: "ril_inv n w" and t: "t \<noteq> NULL" "pending_infos w t \<noteq> None"
  shows "\<exists>w'. sendErrorResponse t e w = Some w' \<and> ril_inv n w'"
proof -
  obtain r where r: "pending_infos w t = Some r" using t(2) by blast
  have ok: "requests_ok w" using inv by (simp add: ril_inv_def)
  obtain ci where ci: "pCI r = Some ci" "has_function ci" "\<not> cancelled r" "\<not> local_command r" by (rule requestD [OF ok r])
  let ?w = "radio (Radio_response (socket_id r) RESPONSE_SOLICITED (ri_token r) e (requestNumber ci) 0) w"
  have "ril_inv n ?w" using inv by (rule inv_cong) (use inv in \<open>simp_all add: ril_inv_def\<close>)
  then show ?thesis using t(1) r ci by (simp add: sendErrorResponse_def call_response_def deref_def)
qed

lemma ack_ok:
  assumes L: "lists_ok n L w" and ok: "requests_ok w" and t: "pending_infos w t = Some r"
  shows "RIL_onRequestAck n t w = Some (radio (Radio_acknowledge (socket_id r) (ri_token r))
     (w\<lparr>pending_infos := (pending_infos w)(t \<mapsto> r\<lparr>wasAckSent := True\<rparr>)\<rparr>))"
proof -
  have "request_ok r" using ok t by (simp add: requests_ok_def)
  then have "checkAndDequeueRequestInfoIfAck n t True w = Some (True, w\<lparr>pending_infos := (pending_infos w)(t \<mapsto> r\<lparr>wasAckSent := True\<rparr>)\<rparr>)"
    by (rule mark_ack [OF L t])
  moreover have "t \<noteq> NULL" by (rule listsD(2) [OF L t])
  ultimately show ?thesis using \<open>request_ok r\<close> by (simp add: RIL_onRequestAck_def deref_def request_ok_def)
qed

lemma ack_inv:
  assumes inv: "ril_inv n w" and t: "n < 2 \<or> t = NULL \<or> pending_infos w t \<noteq> None"
  shows "\<exists>w'. RIL_onRequestAck n t w = Some w' \<and> ril_inv n w'"
proof -
  obtain L where L: "lists_ok n L w" and ok: "requests_ok w" and wk: "wake_ok w" using inv by (auto simp: ril_inv_def)
  show ?thesis
  proof (cases "pending_infos w t")
    case None
    then have "checkAndDequeueRequestInfoIfAck n t True w = Some (False, w)" by (intro check_dead [OF L None]) (use t in auto)
    then show ?thesis using inv by (simp add: RIL_onRequestAck_def)
  next
    case (Some r)
    let ?v = "w\<lparr>pending_infos := (pending_infos w)(t \<mapsto> r\<lparr>wasAckSent := True\<rparr>)\<rparr>"
    have "lists_ok n L ?v" by (rule lists_mark [OF L Some]) simp_all
    moreover have "requests_ok ?v" using ok Some by (simp add: requests_ok_def request_ok_def)
    moreover have "wake_ok ?v" using wk wake_ok_cong [of ?v w] by simp
    ultimately have "ril_inv n ?v" unfolding ril_inv_def by blast
    then have "ril_inv n (radio (Radio_acknowledge (socket_id r) (ri_token r)) ?v)"
      by (rule inv_cong) (use \<open>wake_ok ?v\<close> in simp_all)
    then show ?thesis using ack_ok [OF L ok Some] by simp
  qed
qed

lemma request_ok_same: "same_request r' r \<Longrightarrow> request_ok r' = request_ok r"
  by (simp add: same_request_def request_ok_def)

text \<open>Completion in full: the answer, the lists, and what happens to the other requests.\<close>

lemma complete_ok:
  assumes L: "lists_ok n L w" and ok: "requests_ok w" and wk: "wake_ok w" and t: "pending_infos w t = Some r"
    and p: "fresh_info p w"
  shows "\<exists>w' ys zs. RIL_onRequestComplete n t e resp p w = Some w' \<and> wake_ok w' \<and> requests_ok w' \<and>
     L (hook n (socket_id r)) = ys @ t # zs \<and> lists_ok n (L(hook n (socket_id r) := ys @ zs)) w' \<and>
     pending_infos w' t = None \<and> (\<forall>q r'. q \<noteq> t \<longrightarrow> pending_infos w q = Some r' \<longrightarrow> (\<exists>r''. pending_infos w' q = Some r'' \<and> same_request r'' r')) \<and>
     radio_calls w' = radio_calls w @ [Radio_response (socket_id r)
       (if cb_version w \<ge> 13 \<and> wasAckSent r then RESPONSE_SOLICITED_ACK_EXP else RESPONSE_SOLICITED)
       (ri_token r) e (requestNumber (the (pCI r))) resp]"
proof -
  let ?k = "hook n (socket_id r)"
  obtain ys zs rs h where out: "L ?k = ys @ t # zs"
    "checkAndDequeueRequestInfoIfAck n t False w = Some (True, w\<lparr>pending_infos := rs, s_pendingRequests := (s_pendingRequests w)(?k := h)\<rparr>)"
    "rs t = Some r" "\<forall>q. (rs q = None) = (pending_infos w q = None)"
    "\<forall>q r'. pending_infos w q = Some r' \<longrightarrow> (\<exists>r''. rs q = Some r'' \<and> same_request r'' r')"
    "lists_ok n (L(?k := ys @ zs)) (w\<lparr>pending_infos := rs(t := None), s_pendingRequests := (s_pendingRequests w)(?k := h)\<rparr>)"
    using take_out [OF L t] by blast
  obtain ci where ci: "pCI r = Some ci" "has_function ci" "\<not> cancelled r" "\<not> local_command r" by (rule requestD [OF ok t])
  have tn: "t \<noteq> NULL" by (rule listsD(2) [OF L t])
  define v where "v = w\<lparr>pending_infos := rs, s_pendingRequests := (s_pendingRequests w)(?k := h)\<rparr>"
  have v: "wake_ok v" "fresh_info p v" "cb_version v = cb_version w" "radio_calls v = radio_calls w" "pending_infos v = rs"
    "s_pendingRequests v = (s_pendingRequests w)(?k := h)"
    using wk p wake_ok_cong [of v w] by (simp_all add: v_def fresh_info_def)
  let ?exp = "cb_version w \<ge> 13 \<and> wasAckSent r"
  obtain u where u: "(if ?exp then grabPartialWakeLock p v else Some v) = Some u" "wake_ok u" "same_core u v"
  proof (cases ?exp)
    case True
    obtain u where "grabPartialWakeLock p v = Some u" "cb_version v \<ge> 13 \<longrightarrow> wake_ok u" "same_core u v"
      using grab_ok [OF v(1,2)] by blast
    then show ?thesis using that True v(3) by simp
  next
    case False
    show ?thesis by (rule that [of v]) (use False v(1) in \<open>auto simp: same_core_def\<close>)
  qed
  have core: "pending_infos u = rs" "s_pendingRequests u = (s_pendingRequests w)(?k := h)" "radio_calls u = radio_calls w"
    using u(3) v by (simp_all add: same_core_def)
  define x where "x = radio (Radio_response (socket_id r) (if ?exp then RESPONSE_SOLICITED_ACK_EXP else RESPONSE_SOLICITED)
      (ri_token r) e (requestNumber ci) resp) u"
  define w' where "w' = x\<lparr>pending_infos := rs(t := None)\<rparr>"
  have free: "free_request t x = Some w'"
    using out(3) tn core by (simp add: free_request_def release_def x_def w'_def)
  have "RIL_onRequestComplete n t e resp p w = Some w'"
    using out(2,3) tn ci u(1) free
    by (simp add: RIL_onRequestComplete_def v_def [symmetric] v deref_def call_response_def x_def Let_def)
  moreover have "wake_ok w'" using u(2) wake_ok_cong [of w' u] by (simp add: w'_def x_def)
  moreover have "requests_ok w'"
  proof (unfold requests_ok_def, intro allI impI)
    fix q r'' assume q: "pending_infos w' q = Some r''"
    then have "q \<noteq> t" "rs q = Some r''" by (auto simp: w'_def split: if_splits)
    then have "pending_infos w q \<noteq> None" using out(4) by (metis option.distinct(1))
    then obtain r' where r': "pending_infos w q = Some r'" by blast
    then have "same_request r'' r'" using out(5) \<open>rs q = Some r''\<close> by (metis option.inject)
    note \<open>pending_infos w q = Some r'\<close> \<open>same_request r'' r'\<close>
    then show "request_ok r''" using ok request_ok_same by (auto simp: requests_ok_def)
  qed
  moreover have "lists_ok n (L(?k := ys @ zs)) w'"
    using out(6) by (rule lists_cong [THEN iffD2, rotated 2]) (simp_all add: w'_def x_def core)
  moreover have "radio_calls w' = radio_calls w @ [Radio_response (socket_id r)
       (if ?exp then RESPONSE_SOLICITED_ACK_EXP else RESPONSE_SOLICITED) (ri_token r) e (requestNumber (the (pCI r))) resp]"
    using core ci by (simp add: w'_def x_def)
  ultimately show ?thesis using out(1,5) by (fastforce simp: w'_def)
qed

lemma complete_inv:
  assumes inv: "ril_inv n w" and t: "n < 2 \<or> t = NULL \<or> pending_infos w t \<noteq> None" and p: "fresh_info p w"
  shows "\<exists>w'. RIL_onRequestComplete n t e resp p w = Some w' \<and> ril_inv n w'"
proof -
  obtain L where L: "lists_ok n L w" and ok: "requests_ok w" and wk: "wake_ok w" using inv by (auto simp: ril_inv_def)
  show ?thesis
  proof (cases "pending_infos w t")
    case None
    then have "checkAndDequeueRequestInfoIfAck n t False w = Some (False, w)" by (intro check_dead [OF L None]) (use t in auto)
    then show ?thesis using inv by (simp add: RIL_onRequestComplete_def)
  next
    case (Some r)
    from complete_ok [OF L ok wk Some p, of e resp] show ?thesis unfolding ril_inv_def by blast
  qed
qed

text \<open>Notifications.\<close>

lemma fresh_cong: "timer_infos w' = timer_infos w \<Longrightarrow> fresh_info p w' = fresh_info p w"
  by (simp add: fresh_info_def)

lemma inv_core:
  assumes "ril_inv n w" "wake_ok w'" "same_core w' w"
  shows "ril_inv n w'"
  by (rule inv_cong [OF assms(1,2)]) (use assms(3) in \<open>simp_all add: same_core_def\<close>)

lemma keep_nitz_inv:
  assumes "ril_inv n w"
  shows "\<exists>w'. keep_nitz b d mem s w = Some w' \<and> ril_inv n w' \<and> pending_infos w' = pending_infos w"
proof -
  have wk: "wake_ok w" using assms by (simp add: ril_inv_def)
  have set: "ril_inv n (w\<lparr>s_lastNITZTimeData := d'\<rparr>)" for d'
    using assms wk wake_ok_cong [of "w\<lparr>s_lastNITZTimeData := d'\<rparr>" w] by (intro inv_cong [OF assms]) simp_all
  obtain v where v: "releaseWakeLock (w\<lparr>s_lastNITZTimeData := None\<rparr>) = Some v" "wake_ok v" "same_core v (w\<lparr>s_lastNITZTimeData := None\<rparr>)"
    using release_ok [of "w\<lparr>s_lastNITZTimeData := None\<rparr>"] set [of None] by (auto simp: ril_inv_def wake_ok_def)
  have "ril_inv n v" by (rule inv_core [OF set v(2,3)])
  then show ?thesis using assms set v(1,3) by (simp add: keep_nitz_def Let_def same_core_def)
qed

text \<open>The part after the wake lock was taken, with the lock's invariant or before its timer is armed.\<close>

lemma unsol_rest:
  assumes inv: "ril_inv n w0" and rest: "wake_rest w" and core: "pending_infos w = pending_infos w0" "s_pendingRequests w = s_pendingRequests w0"
    and ok: "\<not> schedule \<Longrightarrow> wake_ok w" and old: "schedule \<Longrightarrow> cb_version w < 13 \<and> fresh_info p w"
  shows "\<exists>w'. (let w = (if schedule then internalRequestTimedCallback WakeTimeoutCallback NULL p w else w) in
      if schedule \<and> p = NULL then releaseWakeLock w
      else do { w \<leftarrow> (if schedule then replace_last p w else Some w); keep_nitz b d mem s w }) = Some w' \<and> ril_inv n w' \<and> pending_infos w' = pending_infos w0"
proof (cases schedule)
  case False
  have "ril_inv n w" by (rule inv_cong [OF inv ok [OF False] core])
  from keep_nitz_inv [OF this, of b d mem s] show ?thesis using False core by simp
next
  case True
  show ?thesis
  proof (cases "p = NULL")
    case null: True
    obtain w' where w': "releaseWakeLock w = Some w'" "wake_ok w'" "same_core w' w"
      using release_ok [OF rest] old [OF True] by auto
    have "ril_inv n w'" by (rule inv_cong [OF inv w'(2)]) (use w'(3) core in \<open>simp_all add: same_core_def\<close>)
    then show ?thesis using True null w'(1,3) core by (simp add: internalRequestTimedCallback_def same_core_def)
  next
    case False
    define v where "v = internalRequestTimedCallback WakeTimeoutCallback NULL p w"
    have new: "timer_infos w p = None" using old [OF True] False by (simp add: fresh_info_def)
    have a: "wake_rest v" "same_core v w" "p \<in> set (armed v)" "p \<noteq> last_wake v"
      "timer_infos v p = Some \<lparr>p_callback = WakeTimeoutCallback, userParam = NULL\<rparr>"
      using arm_ok [OF rest False new, of WakeTimeoutCallback NULL] unfolding v_def by auto
    obtain u where u: "replace_last p v = Some u" "wake_ok u" "same_core u v"
      using replace_last_ok [OF a(1,3,4,5)] by blast
    have "ril_inv n u" by (rule inv_cong [OF inv u(2)]) (use u(3) a(2) core in \<open>simp_all add: same_core_def\<close>)
    moreover have "pending_infos u = pending_infos w0" using u(3) a(2) core by (simp add: same_core_def)
    ultimately show ?thesis using keep_nitz_inv [of n u b d mem s] True False u(1) by (simp add: v_def [symmetric])
  qed
qed

lemma deliver_inv:
  assumes inv: "ril_inv n w" and p: "fresh_info p w"
  shows "\<exists>w'. deliver_unsol e code d soc answer p mem w = Some w' \<and> ril_inv n w' \<and> pending_infos w' = pending_infos w"
proof -
  have wk: "wake_ok w" using inv by (simp add: ril_inv_def)
  define b where "b = (wakeType e = WAKE_PARTIAL)"
  obtain v where v: "(if b then grabPartialWakeLock p w else Some w) = Some v" "wake_rest v"
    "\<not> (cb_version w < 13 \<and> b) \<longrightarrow> wake_ok v" "same_core v w" "cb_version w < 13 \<longrightarrow> timer_infos v = timer_infos w"
  proof (cases b)
    case True
    then show ?thesis using that grab_ok [OF wk p] by auto
  next
    case False
    show ?thesis by (rule that [of w]) (use False wk in \<open>auto simp: wake_ok_def same_core_def\<close>)
  qed
  define u where "u = radio (Radio_indication soc (if cb_version v \<ge> 13 \<and> b then RESPONSE_UNSOLICITED_ACK_EXP
      else RESPONSE_UNSOLICITED) (requestNumber e) d)
     (if code = RIL_UNSOL_NITZ_TIME_RECEIVED then radio (Radio_setNitzTimeReceived soc) v else v)"
  have fields: "armed u = armed v" "timer_infos u = timer_infos v" "last_wake u = last_wake v" "wake_held u = wake_held v"
    "pending_infos u = pending_infos v" "s_pendingRequests u = s_pendingRequests v" "cb_version u = cb_version v"
    by (simp_all add: u_def)
  have "\<exists>w'. (let x = (if cb_version u < 13 \<and> b then internalRequestTimedCallback WakeTimeoutCallback NULL p u else u) in
      if (cb_version u < 13 \<and> b) \<and> p = NULL then releaseWakeLock x
      else do { x \<leftarrow> (if cb_version u < 13 \<and> b then replace_last p x else Some x);
        keep_nitz (answer \<noteq> 0 \<and> code = RIL_UNSOL_NITZ_TIME_RECEIVED) d mem b x }) = Some w' \<and> ril_inv n w' \<and> pending_infos w' = pending_infos w"
  proof (rule unsol_rest [OF inv])
    show "wake_rest u" using v(2) wake_rest_cong [of u v] fields by simp
    show "pending_infos u = pending_infos w" "s_pendingRequests u = s_pendingRequests w"
      using fields v(4) by (simp_all add: same_core_def)
    show "wake_ok u" if "\<not> (cb_version u < 13 \<and> b)"
      using that v(3,4) wake_ok_cong [of u v] fields by (simp add: same_core_def)
    show "cb_version u < 13 \<and> fresh_info p u" if "cb_version u < 13 \<and> b"
      using that v(4,5) fields p fresh_cong [of u w p] by (simp add: same_core_def)
  qed
  then show ?thesis unfolding deliver_unsol_def b_def [symmetric] v(1) Let_def Option.bind_lunit u_def [symmetric] .
qed

lemma unsol_inv:
  assumes "ril_inv n w" "fresh_info p w"
  shows "\<exists>w'. RIL_onUnsolicitedResponse n code d slot answer p mem w = Some w' \<and> ril_inv n w' \<and> pending_infos w' = pending_infos w"
  using assms deliver_inv [OF assms] by (simp add: RIL_onUnsolicitedResponse_def Let_def)

lemma connect_inv:
  assumes inv: "ril_inv n w" and ok: "ril_ok n (A_connect slot c1 c2 answer) w"
  shows "\<exists>w'. onNewCommandConnect n slot c1 c2 answer w = Some w' \<and> ril_inv n w' \<and> pending_infos w' = pending_infos w"
proof -
  obtain w1 where w1: "RIL_onUnsolicitedResponse n 1034 (Some (nat (cb_version w))) slot (fst c1) (snd c1) True w = Some w1"
    "ril_inv n w1" "pending_infos w1 = pending_infos w"
    using unsol_inv [OF inv, of "snd c1" 1034 "Some (nat (cb_version w))" slot "fst c1" True] ok by auto
  obtain w2 where w2: "RIL_onUnsolicitedResponse n 1000 None slot (fst c2) (snd c2) True w1 = Some w2" "ril_inv n w2"
    "pending_infos w2 = pending_infos w1"
    using unsol_inv [OF w1(2), of "snd c2" 1000 None slot "fst c2" True] ok w1(1) by auto
  define w3 where "w3 = (if s_lastNITZTimeData w2 \<noteq> None then resendLastNITZTimeData slot answer w2 else w2)"
  have same: "armed w3 = armed w2" "timer_infos w3 = timer_infos w2" "last_wake w3 = last_wake w2" "wake_held w3 = wake_held w2"
    "pending_infos w3 = pending_infos w2" "s_pendingRequests w3 = s_pendingRequests w2"
    by (cases "s_lastNITZTimeData w2"; simp add: w3_def resendLastNITZTimeData_def Let_def)+
  have "wake_ok w3" using w2(2) wake_ok_cong [OF same(1-4)] by (simp add: ril_inv_def)
  then have "wake_ok (radio Property_set w3)" by simp
  then have "ril_inv n (radio Property_set w3)" by (rule inv_cong [OF w2(2)]) (simp_all add: same)
  moreover have "onNewCommandConnect n slot c1 c2 answer w = Some (radio Property_set w3)"
    unfolding onNewCommandConnect_def w1(1) Option.bind_lunit w2(1) Let_def w3_def [symmetric] ..
  ultimately show ?thesis using same(5) w1(3) w2(3) by simp
qed

lemma register_inv:
  assumes inv: "ril_inv n w"
  shows "\<exists>w'. RIL_register False v w = Some w' \<and> ril_inv n w' \<and> pending_infos w' = pending_infos w"
proof (cases v)
  case None
  then show ?thesis using inv by (simp add: RIL_register_def)
next
  case (Some i)
  let ?w = "radio Radio_registerService (w\<lparr>cb_version := i, s_registerCalled := True\<rparr>)"
  have "wake_ok ?w" using inv wake_ok_cong [of "w\<lparr>cb_version := i, s_registerCalled := True\<rparr>" w] by (simp add: ril_inv_def)
  then have "ril_inv n ?w" by (rule inv_cong [OF inv]) simp_all
  then show ?thesis using inv Some by (simp add: RIL_register_def Let_def)
qed

lemma timed_inv:
  assumes inv: "ril_inv n w" and p: "fresh_info p w"
  shows "ril_inv n (RIL_requestTimedCallback f q p w) \<and> pending_infos (RIL_requestTimedCallback f q p w) = pending_infos w"
proof (cases "p = NULL")
  case True
  then show ?thesis using inv by (simp add: RIL_requestTimedCallback_def internalRequestTimedCallback_def)
next
  case False
  have wk: "wake_ok w" using inv by (simp add: ril_inv_def)
  let ?w = "internalRequestTimedCallback (UserCallback f) q p w"
  have a: "wake_rest ?w" "same_core ?w w" "last_wake ?w = last_wake w" "wake_held ?w = wake_held w" "p \<noteq> last_wake w"
    "\<forall>x. x \<noteq> p \<longrightarrow> timer_infos ?w x = timer_infos w x"
    using arm_ok [of w p "UserCallback f" q] wk p False by (simp_all add: wake_ok_def fresh_info_def)
  have "wake_ok ?w" using a wk by (simp add: wake_ok_def)
  then have "ril_inv n ?w" by (rule inv_core [OF inv]) (rule a(2))
  then show ?thesis using a(2) by (simp add: RIL_requestTimedCallback_def same_core_def)
qed

section \<open>Histories\<close>

text \<open>What identifies a request, whether it was acknowledged or not.\<close>

definition same_id :: "RequestInfo \<Rightarrow> RequestInfo \<Rightarrow> bool" where
  "same_id r' r \<longleftrightarrow> ri_token r' = ri_token r \<and> pCI r' = pCI r \<and> socket_id r' = socket_id r"

lemma same_id_refl [simp]: "same_id r r"
  by (simp add: same_id_def)

fun completes :: "ptr \<Rightarrow> ril_act \<Rightarrow> bool" where
  "completes t (A_complete t' e resp p) \<longleftrightarrow> t' = t"
| "completes t x \<longleftrightarrow> False"

definition request_stays :: "ptr \<Rightarrow> ril_world \<Rightarrow> ril_world \<Rightarrow> bool" where
  "request_stays t w' w \<longleftrightarrow> (\<forall>r. pending_infos w t = Some r \<longrightarrow> (\<exists>r'. pending_infos w' t = Some r' \<and> same_id r' r))"

lemma request_stays_same [simp]: "pending_infos w' = pending_infos w \<Longrightarrow> request_stays t w' w"
  by (simp add: request_stays_def)

lemma ril_do_inv:
  assumes inv: "ril_inv n w" and ok: "ril_ok n x w"
  shows "\<exists>w'. ril_do n x w = Some w' \<and> ril_inv n w' \<and> (\<forall>t. \<not> completes t x \<longrightarrow> request_stays t w' w)"
proof (cases x)
  case (A_register v)
  from register_inv [OF inv, of v] show ?thesis unfolding A_register by auto
next
  case (A_request serial slot request p)
  obtain w' where w': "addRequestToList n serial slot request p w = Some (p, w')" "ril_inv n w'"
    using request_inv [OF inv, of request p serial slot] ok A_request by auto
  have "pending_infos w' t = pending_infos w t" if "pending_infos w t \<noteq> None" for t
  proof (cases "p = NULL")
    case True
    then show ?thesis using w'(1) find_good [of request] ok A_request by (auto simp: addRequestToList_def)
  next
    case False
    then have "t \<noteq> p" using that ok A_request by auto
    then show ?thesis using w'(1) False find_good [of request] ok A_request by (auto simp: addRequestToList_def Let_def)
  qed
  then have "request_stays t w' w" for t by (fastforce simp: request_stays_def)
  then show ?thesis using w' A_request by simp
next
  case (A_fail t e)
  have p: "t \<noteq> NULL" "pending_infos w t \<noteq> None" using ok A_fail by auto
  obtain w' where w': "sendErrorResponse t e w = Some w'" "ril_inv n w'" using fail_inv [OF inv p] by blast
  then have "pending_infos w' = pending_infos w"
    by (auto simp: sendErrorResponse_def call_response_def split: Option.bind_splits if_splits)
  then show ?thesis using w' A_fail by simp
next
  case (A_ack t)
  obtain w' where w': "RIL_onRequestAck n t w = Some w'" "ril_inv n w'" using ack_inv [OF inv] ok A_ack by auto
  obtain L where L: "lists_ok n L w" and rq: "requests_ok w" using inv by (auto simp: ril_inv_def)
  have "request_stays t' w' w" for t'
  proof (cases "pending_infos w t")
    case None
    have "checkAndDequeueRequestInfoIfAck n t True w = Some (False, w)" by (rule check_dead [OF L None]) (use ok A_ack None in auto)
    then show ?thesis using w'(1) by (simp add: RIL_onRequestAck_def)
  next
    case (Some r)
    then show ?thesis using ack_ok [OF L rq Some] w'(1) by (auto simp: request_stays_def same_id_def)
  qed
  then show ?thesis using w' A_ack by simp
next
  case (A_complete t e resp p)
  obtain L where L: "lists_ok n L w" and rq: "requests_ok w" and wk: "wake_ok w" using inv by (auto simp: ril_inv_def)
  have p: "fresh_info p w" and t: "n < 2 \<or> t = NULL \<or> pending_infos w t \<noteq> None" using ok A_complete by auto
  obtain w' where w': "RIL_onRequestComplete n t e resp p w = Some w'" "ril_inv n w'" using complete_inv [OF inv t p] by blast
  have "request_stays t' w' w" if "t' \<noteq> t" for t'
  proof (cases "pending_infos w t")
    case None
    have "checkAndDequeueRequestInfoIfAck n t False w = Some (False, w)" by (rule check_dead [OF L None]) (use t None in auto)
    then show ?thesis using w'(1) by (simp add: RIL_onRequestComplete_def)
  next
    case (Some r)
    from complete_ok [OF L rq wk Some p, of e resp] w'(1) that show ?thesis
      by (fastforce simp: request_stays_def same_id_def same_request_def)
  qed
  then show ?thesis using w' A_complete by auto
next
  case (A_unsol code d slot answer p mem)
  have "fresh_info p w" using ok A_unsol by simp
  from unsol_inv [OF inv this, of code d slot answer mem] show ?thesis unfolding A_unsol by auto
next
  case (A_connect slot c1 c2 answer)
  from connect_inv [OF inv ok [unfolded A_connect]] show ?thesis unfolding A_connect by auto
next
  case A_release
  have "wake_ok w" using inv by (simp add: ril_inv_def)
  then obtain w' where w': "releaseWakeLock w = Some w'" "wake_ok w'" "same_core w' w"
    using release_ok [of w] by (auto simp: wake_ok_def)
  have "ril_inv n w'" by (rule inv_core [OF inv w'(2,3)])
  then show ?thesis using w' A_release by (simp add: same_core_def)
next
  case (A_timed f q p)
  have "fresh_info p w" using ok A_timed by simp
  from timed_inv [OF inv this] show ?thesis using A_timed by simp
next
  case (A_expire p)
  have "wake_ok w" using inv by (simp add: ril_inv_def)
  then obtain w' where w': "expire p w = Some w'" "wake_ok w'" "timers_only w' w" using expire_ok by blast
  have "ril_inv n w'" by (rule inv_cong [OF inv w'(2)]) (use w'(3) in \<open>simp_all add: timers_only_def\<close>)
  then show ?thesis using w' A_expire by (simp add: timers_only_def)
qed

end
