(* ===== verification/Systems.thy ===== *)
theory Systems
  imports Prelude
begin

text \<open>
  Histories of operations, once for all components that state theirs this way: an operation either
  is one its caller may use now, and then it keeps the invariant and does not fault, or it does not
  happen.
\<close>

section \<open>Guarded systems\<close>

text \<open>Operations that keep an invariant whenever their callers keep to their part.\<close>

locale guarded_system =
  fixes step :: "'a \<Rightarrow> 's \<Rightarrow> 's option" and ok :: "'a \<Rightarrow> 's \<Rightarrow> bool" and inv :: "'s \<Rightarrow> bool"
    and run :: "'a list \<Rightarrow> 's \<Rightarrow> 's option"
  assumes step_inv: "inv s \<Longrightarrow> ok x s \<Longrightarrow> \<exists>s'. step x s = Some s' \<and> inv s'"
    and run_Nil: "run [] s = Some s"
    and run_Cons: "run (x # xs) s = (if ok x s then step x s \<bind> run xs else run xs s)"
begin

lemma history: "inv s \<Longrightarrow> \<exists>s'. run xs s = Some s' \<and> inv s'"
proof (induction xs arbitrary: s)
  case Nil
  then show ?case by (simp add: run_Nil)
next
  case (Cons x xs)
  show ?case
  proof (cases "ok x s")
    case True
    obtain s1 where s1: "step x s = Some s1" "inv s1" using step_inv [OF Cons.prems True] by blast
    then show ?thesis using Cons.IH [OF s1(2)] True by (simp add: run_Cons)
  next
    case False
    then show ?thesis using Cons.IH [OF Cons.prems] by (simp add: run_Cons)
  qed
qed

lemma history_keeps:
  assumes "inv s" "R s" and keep: "\<And>x s s'. x \<in> set xs \<Longrightarrow> inv s \<Longrightarrow> ok x s \<Longrightarrow> step x s = Some s' \<Longrightarrow> R s \<Longrightarrow> R s'"
  shows "\<exists>s'. run xs s = Some s' \<and> inv s' \<and> R s'"
  using assms
proof (induction xs arbitrary: s)
  case Nil
  then show ?case by (simp add: run_Nil)
next
  case (Cons x xs)
  show ?case
  proof (cases "ok x s")
    case True
    obtain s1 where s1: "step x s = Some s1" "inv s1" using step_inv [OF Cons.prems(1) True] by blast
    have "R s1" using Cons.prems(3) [OF _ Cons.prems(1) True s1(1) Cons.prems(2)] by simp
    then have "\<exists>s'. run xs s1 = Some s' \<and> inv s' \<and> R s'"
      using Cons.IH [OF s1(2)] Cons.prems(3) by (meson list.set_intros(2))
    then show ?thesis using True s1(1) by (simp add: run_Cons)
  next
    case False
    have "\<exists>s'. run xs s = Some s' \<and> inv s' \<and> R s'"
      using Cons.IH [OF Cons.prems(1,2)] Cons.prems(3) by (meson list.set_intros(2))
    then show ?thesis using False by (simp add: run_Cons)
  qed
qed

end

end
