(* ===== verification/RilCoreHistories.thy ===== *)
theory RilCoreHistories
  imports RilCoreSafety Systems
begin

text \<open>
  The properties of the radio daemon's core over histories, what happens to tokens that are
  completed twice and to notifications outside of the tables, and the parts of the wake lock's
  operations interleaved with those of an expiring timer.
\<close>

section \<open>Histories\<close>

interpretation ril: guarded_system "ril_do n" "ril_ok n" "ril_inv n" "ril_history n" for n
proof unfold_locales
  show "\<exists>s'. ril_do n x s = Some s' \<and> ril_inv n s'" if "ril_inv n s" "ril_ok n x s" for x s
    using ril_do_inv [OF that] by blast
qed simp_all

lemma new_ril_inv: "ril_inv n new_ril"
proof -
  have "lists_ok n (\<lambda>k. []) new_ril" by (simp add: lists_ok_def new_ril_def)
  then show ?thesis by (auto simp: ril_inv_def requests_ok_def wake_ok_def wake_rest_def new_ril_def)
qed

lemma history_append:
  "ril_history n (xs @ ys) w = (case ril_history n xs w of None \<Rightarrow> None | Some v \<Rightarrow> ril_history n ys v)"
  by (induction xs arbitrary: w) (auto split: option.splits Option.bind_splits)

lemma good_number:
  assumes "good_request request"
  shows "requestNumber (s_commands ! nat request) = request"
proof -
  have "0 \<le> request" "nat request < 141" using assms by (auto simp: good_request_def s_commands_def)
  then show ?thesis by (simp add: s_commands_def)
qed

section \<open>Properties\<close>

text \<open>
  C3: In every history of registrations, requests, acknowledgements, completions, notifications,
  connections, releases and expiring timers in which the callers keep to their part (\<open>ril_ok\<close>: the
  allocator gives fresh addresses or none; a request has an entry with a function in the command table;
  with several SIMs an acknowledgement or a completion names a request that is still pending), nothing
  faults; the live requests are exactly those in the pending lists, each in one list once; the live timer
  objects are exactly the armed ones; and while a wake lock is held the last wake timer is armed and
  will release it.\<close>

theorem ril_core_never_faults:
  "\<exists>w L. ril_history n xs new_ril = Some w \<and> lists_ok n L w \<and> (\<forall>p. timer_infos w p \<noteq> None \<longleftrightarrow> p \<in> set (armed w)) \<and>
     (wake_held w \<longrightarrow> s_last_wake_timeout_info w \<in> set (armed w) \<and>
        timer_infos w (s_last_wake_timeout_info w) = Some \<lparr>p_callback = WakeTimeoutCallback, userParam = NULL\<rparr>)"
proof -
  obtain w where w: "ril_history n xs new_ril = Some w" "ril_inv n w" using ril.history [OF new_ril_inv] by blast
  obtain L where L: "lists_ok n L w" using w(2) by (auto simp: ril_inv_def)
  have wk: "wake_ok w" using w(2) by (simp add: ril_inv_def)
  have dom: "\<forall>p. timer_infos w p \<noteq> None \<longleftrightarrow> p \<in> set (armed w)" using wk by (simp add: wake_ok_def wake_rest_def)
  have held: "wake_held w \<longrightarrow> last_wake w \<in> set (armed w) \<and>
      timer_infos w (last_wake w) = Some \<lparr>p_callback = WakeTimeoutCallback, userParam = NULL\<rparr>"
    using held_timer [OF wk] by (intro impI) (simp only: simp_thms)
  show ?thesis by (intro exI conjI) (rule w(1), rule L, rule dom, rule held)
qed

text \<open>The steps of the witnesses: register, a request, its acknowledgement, a wake-up and a completion.\<close>

definition example_history :: "ril_act list" where
  "example_history = [A_register (Some 15), A_request 7 0 1 100, A_ack 100, A_unsol 1001 None 0 0 200 True]"

lemma example_history_eq:
  "ril_history 1 example_history new_ril = Some \<lparr>s_registerCalled = True, cb_version = 15,
     pending_infos = [100 \<mapsto> \<lparr>ri_token = 7, pCI = Some \<lparr>requestNumber = 1, has_function = True\<rparr>, ri_next = NULL,
        cancelled = False, local_command = False, socket_id = 0, wasAckSent = True\<rparr>],
     s_pendingRequests = (\<lambda>i. NULL)(0 := 100), timer_infos = [200 \<mapsto> \<lparr>p_callback = WakeTimeoutCallback, userParam = NULL\<rparr>],
     armed = [200], s_wakelock_count = 1, s_last_wake_timeout_info = 200, wake_held = True, s_lastNITZTimeData = None,
     radio_calls = [Radio_registerService, Radio_acknowledge 0 7, Radio_indication 0 RESPONSE_UNSOLICITED_ACK_EXP 1001 None]\<rparr>"
proof -
  have cmd: "s_commands ! 1 = \<lparr>requestNumber = 1, has_function = True\<rparr>" by (simp add: s_commands_def)
  have unsol: "find_unsol 1001 = \<lparr>requestNumber = 1001, has_function = True, wakeType = WAKE_PARTIAL\<rparr>"
    by (simp add: find_unsol_def ril_constants s_unsolResponses_def)
  show ?thesis
    by (simp add: example_history_def RIL_register_def ril_constants new_ril_def radio_def good_request_def cmd s_commands_def
        addRequestToList_def find_command_def pendingRequestsHook_def RIL_onRequestAck_def checkAndDequeueRequestInfoIfAck_def
        dequeue_loop.simps deref_def RIL_onUnsolicitedResponse_def unsol deliver_unsol_def Let_def grabPartialWakeLock_def
        grab_begin_def internalRequestTimedCallback_def replace_last_def set_last_def keep_nitz_def fresh_info_def fun_eq_iff)
qed

theorem ril_core_never_faults_witness:
  "\<exists>w L. ril_history 1 example_history new_ril = Some w \<and> lists_ok 1 L w \<and> wake_held w \<and> s_last_wake_timeout_info w \<in> set (armed w)"
  using ril_core_never_faults [of 1 example_history] unfolding example_history_eq by auto

text \<open>
  C32: A request that was dispatched and whatever happened since, short of its completion, is
  answered on completion with its own serial number, on its own socket, through its own command's
  response function, and is gone.\<close>

theorem ril_completion_answers_request:
  assumes "p \<noteq> NULL" "good_request request" "ril_history n xs new_ril = Some w0" "pending_infos w0 p = None"
    and "\<forall>y \<in> set ys. \<not> completes p y" "ril_history n (xs @ A_request serial slot request p # ys) new_ril = Some w"
    and "fresh_info q w"
  shows "\<exists>w' ty. RIL_onRequestComplete n p e resp q w = Some w' \<and> pending_infos w' p = None \<and>
     radio_calls w' = radio_calls w @ [Radio_response slot ty serial e request resp]"
proof -
  have inv0: "ril_inv n w0" using ril.history [OF new_ril_inv, of n xs] assms(3) by auto
  let ?R = "\<lambda>w. \<exists>r. pending_infos w p = Some r \<and> ri_token r = serial \<and> socket_id r = slot \<and> pCI r = Some (s_commands ! nat request)"
  obtain w1 where w1: "addRequestToList n serial slot request p w0 = Some (p, w1)" "ril_inv n w1"
    using request_inv [OF inv0 assms(2)] assms(4) by blast
  have R1: "?R w1" using w1(1) assms(1) find_good [OF assms(2)] by (auto simp: addRequestToList_def Let_def)
  have "\<exists>w'. ril_history n ys w1 = Some w' \<and> ril_inv n w' \<and> ?R w'"
  proof (rule ril.history_keeps [where R = ?R, OF w1(2) R1])
    fix x s s' assume x: "x \<in> set ys" "ril_inv n s" "ril_ok n x s" "ril_do n x s = Some s'" "?R s"
    then have "request_stays p s' s" using ril_do_inv [OF x(2,3)] assms(5) by auto
    then show "?R s'" using x(5) by (auto simp: request_stays_def same_id_def)
  qed
  moreover have "ril_history n (xs @ A_request serial slot request p # ys) new_ril = ril_history n ys w1"
    using w1(1) assms(2-4) by (simp add: history_append)
  ultimately have w: "ril_inv n w" "?R w" using assms(6) by auto
  then obtain L r where L: "lists_ok n L w" "requests_ok w" "wake_ok w" and r: "pending_infos w p = Some r" "ri_token r = serial"
    "socket_id r = slot" "pCI r = Some (s_commands ! nat request)" by (auto simp: ril_inv_def)
  have "requestNumber (s_commands ! nat request) = request" by (rule good_number [OF assms(2)])
  with complete_ok [OF L r(1) assms(7), of e resp] r show ?thesis by auto
qed

theorem ril_completion_answers_request_witness:
  "\<exists>w w' ty. ril_history 1 example_history new_ril = Some w \<and> RIL_onRequestComplete 1 100 0 5 300 w = Some w' \<and>
     pending_infos w' 100 = None \<and> radio_calls w' = radio_calls w @ [Radio_response 0 ty 7 0 1 5]"
proof -
  obtain w where w: "ril_history 1 example_history new_ril = Some w" and q: "fresh_info 300 w"
    unfolding example_history_eq by (simp add: fresh_info_def)
  obtain w0 where w0: "ril_history 1 [A_register (Some 15)] new_ril = Some w0" "pending_infos w0 100 = None"
    by (simp add: RIL_register_def ril_constants new_ril_def radio_def)
  have good: "good_request 1" by (simp add: good_request_def s_commands_def)
  have "\<exists>w' ty. RIL_onRequestComplete 1 100 0 5 300 w = Some w' \<and> pending_infos w' 100 = None \<and>
      radio_calls w' = radio_calls w @ [Radio_response 0 ty 7 0 1 5]"
  proof (rule ril_completion_answers_request [OF _ good w0 _ _ q])
    show "\<forall>y \<in> set [A_ack 100, A_unsol 1001 None 0 0 200 True]. \<not> completes 100 y" by simp
    show "ril_history 1 ([A_register (Some 15)] @ A_request 7 0 1 100 # [A_ack 100, A_unsol 1001 None 0 0 200 True]) new_ril = Some w"
      using w by (simp only: example_history_def append.simps)
  qed simp
  then show ?thesis using w by blast
qed

text \<open>All timers that are armed expire, in some order.\<close>

fun expire_all :: "ptr list \<Rightarrow> ril_world \<Rightarrow> ril_world option" where
  "expire_all [] w = Some w"
| "expire_all (p # ps) w = expire p w \<bind> expire_all ps"

lemma expire_all_ok:
  "wake_ok w \<Longrightarrow> \<exists>w'. expire_all ps w = Some w' \<and> wake_ok w' \<and> set (armed w') = set (armed w) - set ps"
proof (induction ps arbitrary: w)
  case Nil
  then show ?case by simp
next
  case (Cons p ps)
  obtain w1 where w1: "expire p w = Some w1" "wake_ok w1" "armed w1 = remove1 p (armed w)" using expire_ok [OF Cons.prems] by blast
  have "distinct (armed w)" using Cons.prems by (simp add: wake_ok_def wake_rest_def)
  then have "set (armed w1) - set ps = set (armed w) - set (p # ps)" using w1(3) by auto
  then show ?case using Cons.IH [OF w1(2)] w1(1) by simp
qed

text \<open>
  C33: The daemon never keeps the device awake for good: after any history, once the armed timers
  have expired, in any order, the wake lock is released and no timer object is left.\<close>

theorem ril_wake_lock_released:
  assumes "ril_history n xs new_ril = Some w" "set (armed w) \<subseteq> set ps"
  shows "\<exists>w'. expire_all ps w = Some w' \<and> \<not> wake_held w' \<and> armed w' = [] \<and> timer_infos w' = Map.empty"
proof -
  have "wake_ok w" using ril.history [OF new_ril_inv, of n xs] assms(1) by (auto simp: ril_inv_def)
  then obtain w' where w': "expire_all ps w = Some w'" "wake_ok w'" "set (armed w') = set (armed w) - set ps"
    using expire_all_ok by blast
  have "set (armed w') = {}" unfolding w'(3) Diff_eq_empty_iff by (rule assms(2))
  then have "armed w' = []" by simp
  moreover from this have "timer_infos w' = Map.empty" "\<not> wake_held w'"
    using w'(2) by (auto simp: wake_ok_def wake_rest_def fun_eq_iff)
  ultimately show ?thesis using w'(1) by blast
qed

theorem ril_wake_lock_released_witness:
  "\<exists>w w'. ril_history 1 example_history new_ril = Some w \<and> wake_held w \<and> expire_all [200] w = Some w' \<and> \<not> wake_held w'"
proof -
  obtain w where w: "ril_history 1 example_history new_ril = Some w" "wake_held w" "armed w = [200]"
    unfolding example_history_eq by simp
  from ril_wake_lock_released [OF w(1), of "[200]"] w show ?thesis by auto
qed

text \<open>
  A token that is completed a second time is refused on a device with one SIM, and nothing
  changes; with several SIMs the daemon reads the socket out of the request it has freed.\<close>

theorem ril_double_completion:
  assumes "ril_history n xs new_ril = Some w" "t \<noteq> NULL" "pending_infos w t = None"
  shows "RIL_onRequestComplete n t e resp p w = (if n < 2 then Some w else None)
     \<and> RIL_onRequestAck n t w = (if n < 2 then Some w else None)"
proof -
  obtain L where L: "lists_ok n L w" using ril.history [OF new_ril_inv, of n xs] assms(1) by (auto simp: ril_inv_def)
  have "checkAndDequeueRequestInfoIfAck n t a w = (if n < 2 then Some (False, w) else None)" for a
    using check_dead [OF L assms(3)] assms(2,3) by (simp add: checkAndDequeueRequestInfoIfAck_def deref_def)
  then show ?thesis by (simp add: RIL_onRequestComplete_def RIL_onRequestAck_def)
qed

theorem ril_double_completion_witness:
  "\<exists>w. ril_history 2 [A_register (Some 15)] new_ril = Some w \<and> RIL_onRequestComplete 2 100 0 5 NULL w = None"
proof -
  obtain w where w: "ril_history 2 [A_register (Some 15)] new_ril = Some w" "pending_infos w 100 = None"
    by (simp add: RIL_register_def ril_constants new_ril_def radio_def)
  from ril_double_completion [OF w(1) _ w(2), of 0 5 NULL] w(1) show ?thesis by auto
qed

lemma deliver_plain:
  assumes "code \<noteq> RIL_UNSOL_NITZ_TIME_RECEIVED" "code' \<noteq> RIL_UNSOL_NITZ_TIME_RECEIVED"
  shows "deliver_unsol e code d soc answer p mem w = deliver_unsol e code' d soc answer p mem w"
  unfolding deliver_unsol_def by (simp only: assms if_False simp_thms)

text \<open>
  A notification that is in neither table is not refused as the log line says: its pointer still
  stands at the first entry of the common table, and it is delivered as a change of the radio state,
  exactly as notification 1000 is.\<close>

theorem ril_unknown_is_radio_state:
  assumes "code < 1000 \<or> 1048 \<le> code \<and> code \<le> 11000"
  shows "RIL_onUnsolicitedResponse n code d slot answer p mem w = RIL_onUnsolicitedResponse n 1000 d slot answer p mem w"
proof -
  have len: "length s_unsolResponses = 48" by (simp add: s_unsolResponses_def)
  have "find_unsol code = s_unsolResponses ! 0" "find_unsol 1000 = s_unsolResponses ! 0"
    using assms by (auto simp: find_unsol_def ril_constants len Let_def)
  moreover have n: "code \<noteq> RIL_UNSOL_NITZ_TIME_RECEIVED" "1000 \<noteq> RIL_UNSOL_NITZ_TIME_RECEIVED"
    using assms by (auto simp: ril_constants)
  moreover have "\<not> (code = RIL_UNSOL_AM \<or> code = 22009 \<or> code = 42010)" "\<not> (1000 = RIL_UNSOL_AM \<or> 1000 = (22009::int) \<or> 1000 = (42010::int))"
    using assms by (auto simp: ril_constants)
  ultimately show ?thesis using deliver_plain [OF n]
    unfolding RIL_onUnsolicitedResponse_def Let_def by (simp only: if_False)
qed

theorem ril_unknown_is_radio_state_witness:
  "\<exists>w w'. ril_history 1 [A_register (Some 6)] new_ril = Some w \<and> RIL_onUnsolicitedResponse 1 1048 (Some 3) 0 0 100 True w = Some w' \<and>
     radio_calls w' = [Radio_registerService, Radio_indication 0 RESPONSE_UNSOLICITED 1000 (Some 3)]"
proof -
  have "find_unsol 1000 = \<lparr>requestNumber = 1000, has_function = True, wakeType = WAKE_PARTIAL\<rparr>"
    by (simp add: find_unsol_def ril_constants s_unsolResponses_def)
  then have "\<exists>w w'. ril_history 1 [A_register (Some 6)] new_ril = Some w \<and> RIL_onUnsolicitedResponse 1 1000 (Some 3) 0 0 100 True w = Some w' \<and>
     radio_calls w' = [Radio_registerService, Radio_indication 0 RESPONSE_UNSOLICITED 1000 (Some 3)]"
    by (simp add: RIL_register_def ril_constants new_ril_def radio_def RIL_onUnsolicitedResponse_def deliver_unsol_def
        grabPartialWakeLock_def internalRequestTimedCallback_def replace_last_def set_last_def keep_nitz_def)
  then show ?thesis using ril_unknown_is_radio_state [of 1048 1 "Some 3" 0 0 100 True] by simp
qed

text \<open>With assertions in the build, no vendor library could ever register.\<close>

lemma register_self_check_fails: "\<not> register_self_check"
proof -
  have "length s_commands_v = 37" "requestNumber (s_commands ! 0) = 0" by (simp_all add: s_commands_v_def s_commands_def)
  then have "\<not> list_all (\<lambda>i. int i + RIL_OEM_REQUEST_BASE = requestNumber (s_commands ! i)) [0..<length s_commands_v]"
    by (simp add: upt_rec [of 0] ril_constants)
  then show ?thesis by (simp add: register_self_check_def)
qed

lemma register_aborts:
  assumes "RIL_VERSION_MIN \<le> v" "\<not> s_registerCalled w"
  shows "RIL_register True (Some v) w = None"
  using assms register_self_check_fails by (simp add: RIL_register_def)

end
