(* ===== verification/RilWake.thy ===== *)
theory RilWake
  imports RilCoreHistories
begin

text \<open>
  The wake lock of \<open>ril/libril/ril.cpp\<close> under threads (versions from 13). Grabbing and releasing hold
  \<open>s_wakeLockCountMutex\<close>, but an expiring timer reads its parameter before it locks, and tests and
  clears \<open>s_last_wake_timeout_info\<close> and frees its object without the lock. The steps are the parts of
  the operations of \<open>RilCore\<close>: of a thread in the lock up to the test of the last timer, the write to
  it and the replacement; of the event loop up to the call, the call, the test and \<open>free\<close>.
\<close>

section \<open>Steps\<close>

text \<open>Who is inside the lock: after the test of the last timer, with the new timer if one is being set.\<close>

datatype lock_pc = L_free | L_cancel "ptr option" | L_set ptr

datatype event_pc = E_idle | E_call ptr UserCallbackInfo | E_forget ptr | E_free ptr

record wake_race =
  daemon :: ril_world
  lock_pc :: lock_pc
  event_pc :: event_pc

datatype wake_act = W_grab ptr | W_release | W_lock | W_expire ptr | W_event

definition enter :: "ptr option \<Rightarrow> ril_world \<Rightarrow> lock_pc" where
  "enter new w = (if s_last_wake_timeout_info w \<noteq> NULL then L_cancel new else (case new of None \<Rightarrow> L_free | Some p \<Rightarrow> L_set p))"

fun wake_step :: "wake_act \<Rightarrow> wake_race \<Rightarrow> wake_race option" where
  "wake_step (W_grab p) s =
     (if lock_pc s = L_free then
        (let w = grab_begin p (daemon s) in
         Some (s\<lparr>daemon := w, lock_pc := (if p = NULL then L_free else enter (Some p) w)\<rparr>))
      else Some s)"
| "wake_step W_release s =
     (if lock_pc s = L_free then
        (let w = daemon s in
         if s_wakelock_count w > 1 then Some (s\<lparr>daemon := w\<lparr>s_wakelock_count := s_wakelock_count w - 1\<rparr>\<rparr>)
         else Some (s\<lparr>daemon := w\<lparr>s_wakelock_count := 0, wake_held := False\<rparr>, lock_pc := enter None w\<rparr>))
      else Some s)"
| "wake_step W_lock s =
     (case lock_pc s of
        L_free \<Rightarrow> Some s
      | L_cancel new \<Rightarrow> do {
          w \<leftarrow> cancel_last (daemon s);
          Some (s\<lparr>daemon := w, lock_pc := (case new of None \<Rightarrow> L_free | Some p \<Rightarrow> L_set p)\<rparr>)
        }
      | L_set p \<Rightarrow> Some (s\<lparr>daemon := set_last p (daemon s), lock_pc := L_free\<rparr>))"
| "wake_step (W_expire p) s =
     (if event_pc s = E_idle \<and> p \<in> set (armed (daemon s)) then do {
        i \<leftarrow> deref (timer_infos (daemon s)) p;
        Some (s\<lparr>daemon := (daemon s)\<lparr>armed := remove1 p (armed (daemon s))\<rparr>, event_pc := E_call p i\<rparr>)
      }
      else Some s)"
| "wake_step W_event s =
     (case event_pc s of
        E_idle \<Rightarrow> Some s
      | E_call p i \<Rightarrow>
          if lock_pc s \<noteq> L_free \<and> p_callback i = WakeTimeoutCallback \<and> userParam i = NULL then Some s
          else do { w \<leftarrow> run_callback i (daemon s); Some (s\<lparr>daemon := w, event_pc := E_forget p\<rparr>) }
      | E_forget p \<Rightarrow> Some (s\<lparr>daemon := forget_last p (daemon s), event_pc := E_free p\<rparr>)
      | E_free p \<Rightarrow> do { w \<leftarrow> free_info p (daemon s); Some (s\<lparr>daemon := w, event_pc := E_idle\<rparr>) })"

fun wake_run :: "wake_act list \<Rightarrow> wake_race \<Rightarrow> wake_race option" where
  "wake_run [] s = Some s"
| "wake_run (x # xs) s = wake_step x s \<bind> wake_run xs"

definition quiet :: "ril_world \<Rightarrow> wake_race" where
  "quiet w = \<lparr>daemon = w, lock_pc = L_free, event_pc = E_idle\<rparr>"

text \<open>Without interleaving, the steps make up the operations.\<close>

lemma grab_steps:
  assumes "cb_version w \<ge> 13"
  shows "wake_run [W_grab p, W_lock, W_lock] (quiet w) = map_option quiet (grabPartialWakeLock p w)"
proof -
  let ?v = "grab_begin p w"
  show ?thesis
  proof (cases "p = NULL")
    case True
    then show ?thesis using assms by (simp add: quiet_def grabPartialWakeLock_def)
  next
    case False
    then show ?thesis using assms
      by (cases "cancel_last ?v"; cases "s_last_wake_timeout_info ?v = NULL")
         (simp_all add: quiet_def grabPartialWakeLock_def replace_last_def enter_def)
  qed
qed

lemma expire_steps: "wake_run [W_expire p, W_event, W_event, W_event] (quiet w) = map_option quiet (expire p w)"
proof (cases "p \<in> set (armed w)")
  case False
  then show ?thesis by (simp add: quiet_def expire_def)
next
  case True
  let ?v = "w\<lparr>armed := remove1 p (armed w)\<rparr>"
  show ?thesis
  proof (cases "deref (timer_infos w) p")
    case None
    then show ?thesis using True by (simp add: quiet_def expire_def userTimerCallback_def)
  next
    case (Some i)
    show ?thesis
    proof (cases "run_callback i ?v")
      case None
      then show ?thesis using True Some by (simp add: quiet_def expire_def userTimerCallback_def)
    next
      case run: (Some u)
      then show ?thesis using True Some
        by (cases "free_info p (forget_last p u)") (simp_all add: quiet_def expire_def userTimerCallback_def)
    qed
  qed
qed

section \<open>Races\<close>

text \<open>
  C34: The timer of a held wake lock that has expired and already read its parameter can no longer be
  cancelled: a thread that grabs the lock meanwhile believes to hold it, with a new timer armed, and
  loses it at once, so the device may sleep before its message is delivered.\<close>

theorem ril_expiry_drops_new_wake_lock:
  assumes "ril_history n xs new_ril = Some w" "cb_version w \<ge> 13" "wake_held w" "p \<noteq> NULL" "timer_infos w p = None"
  shows "\<exists>s. wake_run [W_expire (s_last_wake_timeout_info w), W_grab p, W_lock, W_lock, W_event] (quiet w) = Some s
    \<and> \<not> wake_held (daemon s) \<and> s_wakelock_count (daemon s) = 0
    \<and> s_last_wake_timeout_info (daemon s) = p \<and> p \<in> set (armed (daemon s))
    \<and> timer_infos (daemon s) p = Some \<lparr>p_callback = WakeTimeoutCallback, userParam = NULL\<rparr>"
proof -
  let ?q = "s_last_wake_timeout_info w"
  have wk: "wake_ok w" using ril.history [OF new_ril_inv, of n xs] assms(1) by (auto simp: ril_inv_def)
  have i: "timer_infos w ?q = Some \<lparr>p_callback = WakeTimeoutCallback, userParam = NULL\<rparr>" "?q \<in> set (armed w)" "?q \<noteq> NULL"
    using held_timer [OF wk assms(3)] by auto
  have pq: "p \<noteq> ?q" using i(1) assms(5) by (metis option.distinct(1))
  show ?thesis using i pq assms(2,4)
    by (simp add: quiet_def deref_def grab_begin_def internalRequestTimedCallback_def Let_def enter_def cancel_last_def update_at_def
        set_last_def run_callback_def wakeTimeoutCallback_def)
qed

text \<open>A daemon that has just delivered a notification and holds the lock.\<close>

lemma held_history:
  "\<exists>w. ril_history 1 example_history new_ril = Some w \<and> cb_version w \<ge> 13 \<and> wake_held w \<and> timer_infos w 300 = None \<and>
     s_last_wake_timeout_info w = 200"
  unfolding example_history_eq by simp

theorem ril_expiry_drops_new_wake_lock_witness:
  "\<exists>w s. ril_history 1 example_history new_ril = Some w \<and>
     wake_run [W_expire 200, W_grab 300, W_lock, W_lock, W_event] (quiet w) = Some s \<and> \<not> wake_held (daemon s)"
proof -
  obtain w where w: "ril_history 1 example_history new_ril = Some w" "cb_version w \<ge> 13" "wake_held w" "timer_infos w 300 = None"
    "s_last_wake_timeout_info w = 200" using held_history by blast
  from ril_expiry_drops_new_wake_lock [OF w(1-3) _ w(4)] show ?thesis using w(1,5) by auto
qed

text \<open>
  A thread that grabs the wake lock tests the last timer inside its lock, but the event loop
  forgets and frees that timer outside of it: in between, the thread writes through a NULL pointer.\<close>

theorem ril_grab_races_with_free:
  assumes "ril_history n xs new_ril = Some w" "cb_version w \<ge> 13" "wake_held w" "p \<noteq> NULL" "timer_infos w p = None"
  shows "wake_run [W_expire (s_last_wake_timeout_info w), W_event, W_grab p, W_event, W_lock] (quiet w) = None"
proof -
  let ?q = "s_last_wake_timeout_info w"
  have wk: "wake_ok w" using ril.history [OF new_ril_inv, of n xs] assms(1) by (auto simp: ril_inv_def)
  have i: "timer_infos w ?q = Some \<lparr>p_callback = WakeTimeoutCallback, userParam = NULL\<rparr>" "?q \<in> set (armed w)" "?q \<noteq> NULL"
    using held_timer [OF wk assms(3)] by auto
  show ?thesis using i assms(2,4)
    by (simp add: quiet_def deref_def grab_begin_def internalRequestTimedCallback_def Let_def enter_def cancel_last_def update_at_def
        set_last_def run_callback_def wakeTimeoutCallback_def forget_last_def)
qed

theorem ril_grab_races_with_free_witness:
  "\<exists>w. ril_history 1 example_history new_ril = Some w \<and>
     wake_run [W_expire 200, W_event, W_grab 300, W_event, W_lock] (quiet w) = None"
proof -
  obtain w where w: "ril_history 1 example_history new_ril = Some w" "cb_version w \<ge> 13" "wake_held w" "timer_infos w 300 = None"
    "s_last_wake_timeout_info w = 200" using held_history by blast
  from ril_grab_races_with_free [OF w(1-3) _ w(4)] show ?thesis using w(1,5) by auto
qed

end
