(* ===== verification/LocApi.thy ===== *)
theory LocApi
  imports Prelude
begin

unbundle bit_operations_syntax

text \<open>
  \<open>gps/core/LocApiBase.cpp\<close>: the layer between the modem and the adapters. It keeps the adapters in
  an array of ten pointers without holes, hands each event of the modem to all of them or to the first
  that takes it, and opens the modem's interface with the union of the adapters' event masks. An
  adapter that is added or removed only posts a message; the message task opens later. What the
  modem's library does when it is opened or closed is not in the repository; the calls are recorded.
\<close>

section \<open>Data\<close>

type_synonym event_mask = "64 word"

definition MAX_ADAPTERS :: nat where "MAX_ADAPTERS = 10"

text \<open>Events from the modem; their contents are not looked at here.\<close>

datatype modem_event =
    Ev_handleEngineUp | Ev_handleEngineDown
  | Ev_reportPosition nat | Ev_reportSv nat | Ev_reportSvMeasurement nat | Ev_reportSvPolynomial nat
  | Ev_reportStatus nat | Ev_reportNmea nat | Ev_reportGnssMeasurementData nat
  | Ev_reportWwanZppFix nat | Ev_reportOdcpiRequest nat | Ev_reportXtraServer nat
  | Ev_requestXtraData | Ev_requestTime | Ev_requestLocation
  | Ev_requestATL nat | Ev_releaseATL nat | Ev_requestSuplES nat
  | Ev_reportDataCallOpened | Ev_reportDataCallClosed | Ev_requestNiNotify nat

datatype api_msg = LocOpenMsg | LocSsrMsg

datatype api_call = Api_open event_mask | Api_close | Deliver ptr modem_event | Inject_feature_config

record loc_api =
  mLocAdapters :: "ptr list"
  adapter_mask :: "ptr \<Rightarrow> event_mask"
  mFeaturesSupported :: "8 word list"
  api_queue :: "api_msg list"
  api_calls :: "api_call list"

definition LocApiBase :: loc_api where
  "LocApiBase = \<lparr>mLocAdapters = replicate MAX_ADAPTERS NULL, adapter_mask = (\<lambda>a. 0), mFeaturesSupported = replicate 100 0,
     api_queue = [], api_calls = []\<rparr>"

definition api_call :: "api_call \<Rightarrow> loc_api \<Rightarrow> loc_api" where
  "api_call c w = w\<lparr>api_calls := api_calls w @ [c]\<rparr>"

definition api_post :: "api_msg \<Rightarrow> loc_api \<Rightarrow> loc_api" where
  "api_post m w = w\<lparr>api_queue := api_queue w @ [m]\<rparr>"

section \<open>The array of adapters\<close>

function add_loop :: "nat \<Rightarrow> ptr \<Rightarrow> loc_api \<Rightarrow> loc_api" where
  "add_loop i adapter w =
     (if i < MAX_ADAPTERS \<and> mLocAdapters w ! i \<noteq> adapter then
        (if mLocAdapters w ! i = NULL then api_post LocOpenMsg (w\<lparr>mLocAdapters := (mLocAdapters w)[i := adapter]\<rparr>)
         else add_loop (i + 1) adapter w)
      else w)"
  by pat_completeness auto
termination by (relation "measure (\<lambda>(i, _, _). MAX_ADAPTERS - i)") auto

definition addAdapter :: "ptr \<Rightarrow> loc_api \<Rightarrow> loc_api" where
  "addAdapter adapter w = add_loop 0 adapter w"

text \<open>\<open>while (++i < MAX_ADAPTERS && mLocAdapters[i] != NULL);\<close>\<close>

function scan_used :: "nat \<Rightarrow> ptr list \<Rightarrow> nat" where
  "scan_used i as = (if i + 1 < MAX_ADAPTERS \<and> as ! (i + 1) \<noteq> NULL then scan_used (i + 1) as else i + 1)"
  by pat_completeness auto
termination by (relation "measure (\<lambda>(i, _). MAX_ADAPTERS - i)") auto

declare add_loop.simps [simp del] scan_used.simps [simp del]

lemma scan_used_gt: "i < scan_used i as"
proof (induction i as rule: scan_used.induct)
  case (1 i as)
  then show ?case by (subst scan_used.simps) (auto simp: Suc_lessD)
qed

function remove_loop :: "nat \<Rightarrow> ptr \<Rightarrow> loc_api \<Rightarrow> loc_api" where
  "remove_loop i adapter w =
     (if i < MAX_ADAPTERS \<and> mLocAdapters w ! i \<noteq> NULL then
        (if mLocAdapters w ! i = adapter then
           (let as = (mLocAdapters w)[i := NULL];
                j = i;
                k = scan_used i as - 1;
                as = as[j := as ! k];
                as = as[k := NULL];
                w = w\<lparr>mLocAdapters := as\<rparr>;
                w = (if k = 0 then api_call Api_close w else api_post LocOpenMsg w) in
            remove_loop (k + 1) adapter w)
         else remove_loop (i + 1) adapter w)
      else w)"
  by pat_completeness auto
termination
proof (relation "measure (\<lambda>(i, _, _). MAX_ADAPTERS - i)", goal_cases)
  case (2 i adapter w as j k)
  then show ?case using scan_used_gt [of i as] by auto
qed auto

declare remove_loop.simps [simp del]

definition removeAdapter :: "ptr \<Rightarrow> loc_api \<Rightarrow> loc_api" where
  "removeAdapter adapter w = remove_loop 0 adapter w"

section \<open>Broadcasts\<close>

text \<open>\<open>TO_ALL_ADAPTERS\<close> and \<open>TO_1ST_HANDLING_ADAPTER\<close>: the adapters that are called, in order.\<close>

function to_all :: "nat \<Rightarrow> ptr list \<Rightarrow> ptr list" where
  "to_all i as = (if i < MAX_ADAPTERS \<and> as ! i \<noteq> NULL then as ! i # to_all (i + 1) as else [])"
  by pat_completeness auto
termination by (relation "measure (\<lambda>(i, _). MAX_ADAPTERS - i)") auto

function to_1st_handling :: "(ptr \<Rightarrow> bool) \<Rightarrow> nat \<Rightarrow> ptr list \<Rightarrow> ptr list" where
  "to_1st_handling handles i as =
     (if i < MAX_ADAPTERS \<and> as ! i \<noteq> NULL then
        as ! i # (if handles (as ! i) then [] else to_1st_handling handles (i + 1) as)
      else [])"
  by pat_completeness auto
termination by (relation "measure (\<lambda>(_, i, _). MAX_ADAPTERS - i)") auto

declare to_all.simps [simp del] to_1st_handling.simps [simp del]

fun first_only :: "modem_event \<Rightarrow> bool" where
  "first_only (Ev_reportWwanZppFix n) = True"
| "first_only (Ev_reportOdcpiRequest n) = True"
| "first_only (Ev_reportXtraServer n) = True"
| "first_only Ev_requestXtraData = True"
| "first_only Ev_requestTime = True"
| "first_only Ev_requestLocation = True"
| "first_only (Ev_requestATL n) = True"
| "first_only (Ev_releaseATL n) = True"
| "first_only (Ev_requestSuplES n) = True"
| "first_only Ev_reportDataCallOpened = True"
| "first_only Ev_reportDataCallClosed = True"
| "first_only (Ev_requestNiNotify n) = True"
| "first_only _ = False"

definition getEvtMask :: "event_mask \<Rightarrow> loc_api \<Rightarrow> event_mask" where
  "getEvtMask excluded w = fold (\<lambda>a m. m OR adapter_mask w a) (to_all 0 (mLocAdapters w)) 0 AND NOT excluded"

definition api_isInSession :: "(ptr \<Rightarrow> bool) \<Rightarrow> loc_api \<Rightarrow> bool" where
  "api_isInSession in_session w \<longleftrightarrow>
     (case to_1st_handling in_session 0 (mLocAdapters w) of [] \<Rightarrow> False | as \<Rightarrow> in_session (last as))"

text \<open>\<open>handles\<close>: which adapters take the event.\<close>

definition broadcast :: "(ptr \<Rightarrow> bool) \<Rightarrow> modem_event \<Rightarrow> loc_api \<Rightarrow> loc_api" where
  "broadcast handles ev w =
     (let called = (if first_only ev then to_1st_handling handles 0 (mLocAdapters w) else to_all 0 (mLocAdapters w)) in
      fold (\<lambda>a. api_call (Deliver a ev)) called w)"

definition api_handleEngineUpEvent :: "(ptr \<Rightarrow> bool) \<Rightarrow> loc_api \<Rightarrow> loc_api" where
  "api_handleEngineUpEvent handles w =
     broadcast handles Ev_handleEngineUp (api_call Inject_feature_config (api_post LocSsrMsg w))"

section \<open>Masks and messages\<close>

definition api_updateEvtMask :: "event_mask \<Rightarrow> loc_api \<Rightarrow> loc_api" where
  "api_updateEvtMask excluded w = api_call (Api_open (getEvtMask excluded w)) w"

definition api_proc :: "event_mask \<Rightarrow> api_msg \<Rightarrow> loc_api \<Rightarrow> loc_api" where
  "api_proc excluded m w =
     (case m of
        LocOpenMsg \<Rightarrow> api_call (Api_open (getEvtMask excluded w)) w
      | LocSsrMsg \<Rightarrow> (let w = api_call Api_close w in api_call (Api_open (getEvtMask excluded w)) w))"

definition api_run :: "event_mask \<Rightarrow> loc_api \<Rightarrow> loc_api" where
  "api_run excluded w = (case api_queue w of [] \<Rightarrow> w | m # ms \<Rightarrow> api_proc excluded m (w\<lparr>api_queue := ms\<rparr>))"

text \<open>The constructor of an adapter sets its mask before it is added.\<close>

definition new_adapter :: "ptr \<Rightarrow> event_mask \<Rightarrow> loc_api \<Rightarrow> loc_api" where
  "new_adapter a m w = addAdapter a (w\<lparr>adapter_mask := (adapter_mask w)(a := m)\<rparr>)"

definition set_adapter_mask :: "event_mask \<Rightarrow> ptr \<Rightarrow> event_mask \<Rightarrow> loc_api \<Rightarrow> loc_api" where
  "set_adapter_mask excluded a m w = api_updateEvtMask excluded (w\<lparr>adapter_mask := (adapter_mask w)(a := m)\<rparr>)"

section \<open>Features and addresses\<close>

definition saveSupportedFeatureList :: "8 word list \<Rightarrow> loc_api \<Rightarrow> loc_api" where
  "saveSupportedFeatureList fs w = w\<lparr>mFeaturesSupported := take 100 fs\<rparr>"

definition isFeatureSupported :: "8 word \<Rightarrow> loc_api \<Rightarrow> bool" where
  "isFeatureSupported featureVal w =
     (let arrayIndex = unat (drop_bit 3 featureVal); bitPos = unat (featureVal AND 7) in
      if arrayIndex \<ge> 100 then False else bit (drop_bit bitPos (mFeaturesSupported w ! arrayIndex)) 0)"

text \<open>
  A telephone number in swapped digits after the prefix 0x91. \<open>room\<close> is \<open>string_size - 1\<close> less the
  characters written; the result is the text before the final NUL.
\<close>

fun decode_digits :: "8 word list \<Rightarrow> nat \<Rightarrow> nat list" where
  "decode_digits [] room = []"
| "decode_digits (ch # cs) room =
     (let low = unat (ch AND 0x0F); hi = unat (drop_bit 4 ch);
          d1 = (if low \<le> 9 \<and> room > 0 then [low] else []);
          room = room - length d1;
          d2 = (if hi \<le> 9 \<and> room > 0 then [hi] else []) in
      d1 @ d2 @ decode_digits cs (room - length d2))"

definition decodeAddress :: "nat \<Rightarrow> 8 word list \<Rightarrow> nat list" where
  "decodeAddress string_size data =
     (case data of [] \<Rightarrow> [] | p # cs \<Rightarrow> if p \<noteq> 0x91 then [] else decode_digits cs (string_size - 1))"

section \<open>The array as a list\<close>

text \<open>The adapters fill the array from the front, without repetition.\<close>

definition adapters :: "loc_api \<Rightarrow> ptr list \<Rightarrow> bool" where
  "adapters w xs \<longleftrightarrow> mLocAdapters w = xs @ replicate (MAX_ADAPTERS - length xs) NULL \<and> length xs \<le> MAX_ADAPTERS \<and>
     distinct xs \<and> NULL \<notin> set xs"

lemma to_all_eq:
  "as = xs @ ys @ replicate n NULL \<Longrightarrow> length as = MAX_ADAPTERS \<Longrightarrow> NULL \<notin> set ys \<Longrightarrow> to_all (length xs) as = ys"
proof (induction ys arbitrary: xs)
  case Nil
  then show ?case by (subst to_all.simps) (auto simp: nth_append)
next
  case (Cons y ys)
  have "to_all (length (xs @ [y])) as = ys" by (rule Cons.IH) (use Cons.prems in auto)
  moreover have "as ! length xs = y" "length xs < MAX_ADAPTERS" using Cons.prems by (auto simp: nth_append)
  ultimately show ?case using Cons.prems by (subst to_all.simps) auto
qed

lemma adapters_length: "adapters w xs \<Longrightarrow> length (mLocAdapters w) = MAX_ADAPTERS"
  by (auto simp: adapters_def)

lemma to_all_adapters: "adapters w xs \<Longrightarrow> to_all 0 (mLocAdapters w) = xs"
  using to_all_eq [of "mLocAdapters w" "[]" xs "MAX_ADAPTERS - length xs"] adapters_length [of w xs]
  by (simp add: adapters_def)

text \<open>Up to the first adapter that takes the event.\<close>

fun until :: "('x \<Rightarrow> bool) \<Rightarrow> 'x list \<Rightarrow> 'x list" where
  "until P [] = []"
| "until P (x # xs) = x # (if P x then [] else until P xs)"

lemma to_1st_eq:
  "as = xs @ ys @ replicate n NULL \<Longrightarrow> length as = MAX_ADAPTERS \<Longrightarrow> NULL \<notin> set ys \<Longrightarrow>
     to_1st_handling P (length xs) as = until P ys"
proof (induction ys arbitrary: xs)
  case Nil
  then show ?case by (subst to_1st_handling.simps) (auto simp: nth_append)
next
  case (Cons y ys)
  have "to_1st_handling P (length (xs @ [y])) as = until P ys" by (rule Cons.IH) (use Cons.prems in auto)
  moreover have "as ! length xs = y" "length xs < MAX_ADAPTERS" using Cons.prems by (auto simp: nth_append)
  ultimately show ?case using Cons.prems by (subst to_1st_handling.simps) auto
qed

lemma to_1st_adapters: "adapters w xs \<Longrightarrow> to_1st_handling P 0 (mLocAdapters w) = until P xs"
  using to_1st_eq [of "mLocAdapters w" "[]" xs "MAX_ADAPTERS - length xs"] adapters_length [of w xs]
  by (simp add: adapters_def)

text \<open>Adding.\<close>

lemma add_loop_eq:
  assumes "mLocAdapters w = xs @ ys @ replicate n NULL" "length (mLocAdapters w) = MAX_ADAPTERS" "NULL \<notin> set ys" "a \<noteq> NULL"
  shows "add_loop (length xs) a w =
     (if a \<in> set ys \<or> n = 0 then w
      else api_post LocOpenMsg (w\<lparr>mLocAdapters := xs @ ys @ a # replicate (n - 1) NULL\<rparr>))"
  using assms
proof (induction ys arbitrary: xs)
  case Nil
  show ?case
  proof (cases n)
    case 0
    then show ?thesis using Nil by (subst add_loop.simps) auto
  next
    case (Suc m)
    have "(mLocAdapters w)[length xs := a] = xs @ a # replicate m NULL" using Nil Suc by simp
    moreover have "mLocAdapters w ! length xs = NULL" "length xs < MAX_ADAPTERS" using Nil Suc by (auto simp: nth_append)
    ultimately show ?thesis using Nil Suc by (subst add_loop.simps) simp
  qed
next
  case (Cons y ys)
  have "mLocAdapters w ! length xs = y" "length xs < MAX_ADAPTERS" "y \<noteq> NULL" using Cons.prems by (auto simp: nth_append)
  moreover have "add_loop (length (xs @ [y])) a w =
     (if a \<in> set ys \<or> n = 0 then w
      else api_post LocOpenMsg (w\<lparr>mLocAdapters := (xs @ [y]) @ ys @ a # replicate (n - 1) NULL\<rparr>))"
    by (rule Cons.IH) (use Cons.prems in auto)
  ultimately show ?case by (subst add_loop.simps) auto
qed

lemma addAdapter_eq:
  assumes "adapters w xs" "a \<noteq> NULL"
  shows "addAdapter a w = (if a \<in> set xs \<or> length xs = MAX_ADAPTERS then w
      else api_post LocOpenMsg (w\<lparr>mLocAdapters := (xs @ [a]) @ replicate (MAX_ADAPTERS - length (xs @ [a])) NULL\<rparr>))"
  using add_loop_eq [of w "[]" xs "MAX_ADAPTERS - length xs" a] assms adapters_length [OF assms(1)]
  by (auto simp: addAdapter_def adapters_def)

end
