(* ===== verification/LocApiProofs.thy ===== *)
theory LocApiProofs
  imports LocApi Systems
begin

text \<open>
  The array of adapters behaves like a list without repetition; every event of the modem reaches the
  adapters that are registered; and once the message task has caught up, the modem's interface is open
  with exactly the events the registered adapters want.
\<close>

section \<open>Removing\<close>

lemma scan_used_eq:
  "as = xs @ ys @ replicate n NULL \<Longrightarrow> xs \<noteq> [] \<Longrightarrow> length as = MAX_ADAPTERS \<Longrightarrow> NULL \<notin> set ys \<Longrightarrow>
     scan_used (length xs - 1) as = length xs + length ys"
proof (induction ys arbitrary: xs)
  case Nil
  then show ?case by (subst scan_used.simps) (auto simp: nth_append)
next
  case (Cons y ys)
  have "scan_used (length (xs @ [y]) - 1) as = length (xs @ [y]) + length ys" by (rule Cons.IH) (use Cons.prems in auto)
  moreover have "as ! length xs = y" "length xs < MAX_ADAPTERS" "length xs > 0" using Cons.prems by (auto simp: nth_append)
  ultimately show ?case using Cons.prems by (subst scan_used.simps) auto
qed

text \<open>The last adapter takes the place of the removed one.\<close>

definition close_gap :: "ptr list \<Rightarrow> ptr list" where
  "close_gap vs = (if vs = [] then [] else last vs # butlast vs)"

lemma close_gap_set [simp]: "set (close_gap vs) = set vs" "length (close_gap vs) = length vs" "distinct (close_gap vs) = distinct vs"
  by (cases vs rule: rev_cases; auto simp: close_gap_def)+

lemma remove_skip:
  assumes "mLocAdapters w = xs @ us @ ys @ replicate n NULL" "length (mLocAdapters w) = MAX_ADAPTERS" "NULL \<notin> set us" "a \<notin> set us"
  shows "remove_loop (length xs) a w = remove_loop (length (xs @ us)) a w"
  using assms
proof (induction us arbitrary: xs)
  case (Cons u us)
  have "mLocAdapters w ! length xs = u" "length xs < MAX_ADAPTERS" "u \<noteq> NULL" "u \<noteq> a" using Cons.prems by (auto simp: nth_append)
  then have "remove_loop (length xs) a w = remove_loop (length (xs @ [u])) a w" by (subst remove_loop.simps) simp
  also have "\<dots> = remove_loop (length ((xs @ [u]) @ us)) a w" by (rule Cons.IH) (use Cons.prems in auto)
  finally show ?case by simp
qed simp

lemma remove_end:
  assumes "mLocAdapters w = xs @ replicate n NULL" "length (mLocAdapters w) = MAX_ADAPTERS"
  shows "remove_loop (length xs) a w = w"
  using assms by (subst remove_loop.simps) (auto simp: nth_append)

lemma removeAdapter_absent:
  assumes "adapters w xs" "a \<notin> set xs"
  shows "removeAdapter a w = w"
  using remove_skip [of w "[]" xs "[]" "MAX_ADAPTERS - length xs" a] remove_end [of w xs "MAX_ADAPTERS - length xs" a]
    assms adapters_length [OF assms(1)] by (simp add: removeAdapter_def adapters_def)

lemma removeAdapter_eq:
  assumes ad: "adapters w (us @ a # vs)"
  shows "removeAdapter a w =
     (let w' = w\<lparr>mLocAdapters := (us @ close_gap vs) @ replicate (MAX_ADAPTERS - length (us @ vs)) NULL\<rparr> in
      if us @ vs = [] then api_call Api_close w' else api_post LocOpenMsg w')"
proof -
  define n where "n = MAX_ADAPTERS - length (us @ a # vs)"
  have len: "length (mLocAdapters w) = MAX_ADAPTERS" by (rule adapters_length [OF ad])
  have arr: "mLocAdapters w = us @ a # vs @ replicate n NULL" and small: "length (us @ a # vs) \<le> MAX_ADAPTERS"
    and nn: "NULL \<notin> set us" "a \<noteq> NULL" "NULL \<notin> set vs" "a \<notin> set us"
    using ad by (auto simp: adapters_def n_def)
  have room: "MAX_ADAPTERS - length (us @ vs) = Suc n" using small by (simp add: n_def)
  have skip: "remove_loop 0 a w = remove_loop (length us) a w"
    using remove_skip [of w "[]" us "a # vs" n a] arr len nn by simp
  define as1 where "as1 = (mLocAdapters w)[length us := NULL]"
  have as1: "as1 = (us @ [NULL]) @ vs @ replicate n NULL" unfolding as1_def arr by simp
  have scan: "scan_used (length us) as1 = Suc (length us + length vs)"
    using scan_used_eq [OF as1 _ _ nn(3)] len by (simp add: as1_def)
  let ?k = "length us + length vs"
  have as2: "(as1[length us := as1 ! ?k])[?k := NULL] = (us @ close_gap vs) @ replicate (Suc n) NULL"
  proof (cases vs rule: rev_cases)
    case Nil
    then show ?thesis unfolding as1 by (simp add: close_gap_def nth_append)
  next
    case (snoc ws z)
    have "as1 ! ?k = z" unfolding as1 snoc by (simp add: nth_append)
    then show ?thesis unfolding as1 snoc by (simp add: close_gap_def list_update_append)
  qed
  define w1 where "w1 = w\<lparr>mLocAdapters := (us @ close_gap vs) @ replicate (Suc n) NULL\<rparr>"
  define w2 where "w2 = (if ?k = 0 then api_call Api_close w1 else api_post LocOpenMsg w1)"
  have at: "length us < MAX_ADAPTERS" "mLocAdapters w ! length us = a" using small arr by (auto simp: nth_append)
  have k: "scan_used (length us) as1 - 1 = ?k" using scan by simp
  have "remove_loop (length us) a w = remove_loop (?k + 1) a w2"
    unfolding remove_loop.simps [of "length us" a w] Let_def at(2) as1_def [symmetric] k as2 w1_def [symmetric] w2_def [symmetric]
    using at(1) nn(2) by simp
  also have "\<dots> = w2"
  proof -
    have fields: "mLocAdapters w2 = mLocAdapters w1" by (simp add: w2_def api_call_def api_post_def)
    have arr2: "mLocAdapters w2 = (us @ close_gap vs @ [NULL]) @ replicate n NULL" unfolding fields by (simp add: w1_def)
    have "length (mLocAdapters w2) = length (us @ a # vs) + n" unfolding arr2 by simp
    then have len2: "length (mLocAdapters w2) = MAX_ADAPTERS" using small unfolding n_def by (simp only: le_add_diff_inverse)
    have "length (us @ close_gap vs @ [NULL]) = ?k + 1" by simp
    then show ?thesis using remove_end [OF arr2 len2, of a] by (simp only:)
  qed
  finally have res: "removeAdapter a w = w2" unfolding removeAdapter_def skip .
  show ?thesis unfolding res Let_def w2_def w1_def room by simp
qed

section \<open>Histories\<close>

text \<open>
  Adapters are created and destroyed, change their masks, events come in and the message task runs.
  An adapter is created at an address where none is registered.
\<close>

datatype api_act =
    Ad_new ptr event_mask
  | Ad_delete ptr
  | Ad_mask ptr event_mask
  | Ad_event "ptr \<Rightarrow> bool" modem_event
  | Ad_engineUp "ptr \<Rightarrow> bool"
  | Ad_task

fun api_do :: "event_mask \<Rightarrow> api_act \<Rightarrow> loc_api \<Rightarrow> loc_api option" where
  "api_do ex (Ad_new a m) w = Some (new_adapter a m w)"
| "api_do ex (Ad_delete a) w = Some (removeAdapter a w)"
| "api_do ex (Ad_mask a m) w = Some (set_adapter_mask ex a m w)"
| "api_do ex (Ad_event handles ev) w = Some (broadcast handles ev w)"
| "api_do ex (Ad_engineUp handles) w = Some (api_handleEngineUpEvent handles w)"
| "api_do ex Ad_task w = Some (api_run ex w)"

fun api_ok :: "api_act \<Rightarrow> loc_api \<Rightarrow> bool" where
  "api_ok (Ad_new a m) w \<longleftrightarrow> a \<noteq> NULL \<and> a \<notin> set (mLocAdapters w)"
| "api_ok x w \<longleftrightarrow> True"

fun api_history :: "event_mask \<Rightarrow> api_act list \<Rightarrow> loc_api \<Rightarrow> loc_api option" where
  "api_history ex [] w = Some w"
| "api_history ex (x # xs) w = (if api_ok x w then api_do ex x w \<bind> api_history ex xs else api_history ex xs w)"

text \<open>The adapters that are registered: at most ten.\<close>

fun registered_step :: "api_act \<Rightarrow> ptr set \<Rightarrow> ptr set" where
  "registered_step (Ad_new a m) S = (if a = NULL \<or> card S = MAX_ADAPTERS then S else insert a S)"
| "registered_step (Ad_delete a) S = S - {a}"
| "registered_step x S = S"

definition registered :: "api_act list \<Rightarrow> ptr set" where
  "registered xs = fold registered_step xs {}"

section \<open>The invariant\<close>

text \<open>What the modem's interface was last told.\<close>

fun engine_call :: "api_call \<Rightarrow> bool" where
  "engine_call (Api_open m) = True"
| "engine_call Api_close = True"
| "engine_call c = False"

definition last_engine_call :: "loc_api \<Rightarrow> api_call option" where
  "last_engine_call w =
     (let cs = filter engine_call (api_calls w) in if cs = [] then None else Some (last cs))"

lemma last_engine_append:
  "last_engine_call (api_call c w) = (if engine_call c then Some c else last_engine_call w)"
  by (simp add: last_engine_call_def api_call_def Let_def)

definition api_inv :: "event_mask \<Rightarrow> ptr set \<Rightarrow> loc_api \<Rightarrow> bool" where
  "api_inv ex S w \<longleftrightarrow> (\<exists>as. adapters w as \<and> set as = S) \<and>
     (api_queue w = [] \<and> S \<noteq> {} \<longrightarrow> last_engine_call w = Some (Api_open (getEvtMask ex w)))"

lemma fold_deliver:
  "fold (\<lambda>a. api_call (Deliver a ev)) as w = w\<lparr>api_calls := api_calls w @ map (\<lambda>a. Deliver a ev) as\<rparr>"
  by (induction as arbitrary: w) (simp_all add: api_call_def)

lemma broadcast_eq:
  assumes "adapters w as"
  shows "broadcast handles ev w = w\<lparr>api_calls := api_calls w @ map (\<lambda>a. Deliver a ev) (if first_only ev then until handles as else as)\<rparr>"
  using to_all_adapters [OF assms] to_1st_adapters [OF assms, of handles] by (simp add: broadcast_def fold_deliver Let_def)

lemma no_engine_calls: "filter engine_call (map (\<lambda>a. Deliver a ev) as) = []"
  by (induction as) simp_all

lemma mask_bits:
  "bit (fold (\<lambda>a m. m OR f a) as m0) i \<longleftrightarrow> bit m0 i \<or> (\<exists>a \<in> set as. bit (f a) i)"
  by (induction as arbitrary: m0) (auto simp: bit_or_iff)

lemma getEvtMask_bits:
  fixes ex :: event_mask
  assumes "adapters w as" "i < 64"
  shows "bit (getEvtMask ex w) i \<longleftrightarrow> (\<exists>a \<in> set as. bit (adapter_mask w a) i) \<and> \<not> bit ex i"
  using assms by (simp add: getEvtMask_def to_all_adapters mask_bits bit_and_iff bit_not_iff)

lemma getEvtMask_cong:
  assumes "adapters w as" "mLocAdapters w' = mLocAdapters w" "\<And>a. a \<in> set as \<Longrightarrow> adapter_mask w' a = adapter_mask w a"
  shows "getEvtMask ex w' = getEvtMask ex w"
proof -
  have "fold (\<lambda>a m. m OR adapter_mask w' a) as 0 = fold (\<lambda>a m. m OR adapter_mask w a) as 0"
    by (rule fold_cong) (use assms(3) in auto)
  then show ?thesis unfolding getEvtMask_def assms(2) to_all_adapters [OF assms(1)] by simp
qed

lemma adapters_cong: "mLocAdapters w' = mLocAdapters w \<Longrightarrow> adapters w' as = adapters w as"
  by (simp add: adapters_def)

lemma api_inv_same:
  "api_inv ex S w \<Longrightarrow> mLocAdapters v = mLocAdapters w \<Longrightarrow> api_queue v = api_queue w \<Longrightarrow>
     last_engine_call v = last_engine_call w \<Longrightarrow> getEvtMask ex v = getEvtMask ex w \<Longrightarrow> api_inv ex S v"
  by (simp add: api_inv_def adapters_def)

lemma api_inv_intro:
  "adapters v as \<Longrightarrow> set as = S \<Longrightarrow>
     api_queue v \<noteq> [] \<or> S = {} \<or> last_engine_call v = Some (Api_open (getEvtMask ex v)) \<Longrightarrow> api_inv ex S v"
  unfolding api_inv_def by auto

lemma new_adapter_inv:
  assumes inv: "api_inv ex S w" and a: "a \<noteq> NULL" "a \<notin> set (mLocAdapters w)"
  shows "api_inv ex (registered_step (Ad_new a m) S) (new_adapter a m w)"
proof -
  obtain as where as: "adapters w as" "set as = S" using inv by (auto simp: api_inv_def)
  have card: "card S = length as" "finite S" using as by (auto simp: adapters_def distinct_card)
  let ?w = "w\<lparr>adapter_mask := (adapter_mask w)(a := m)\<rparr>"
  have out: "a \<notin> set as" using a as by (auto simp: adapters_def)
  have ad: "adapters ?w as" using as(1) adapters_cong [of ?w w] by simp
  show ?thesis
  proof (cases "length as = MAX_ADAPTERS")
    case True
    have "api_inv ex S ?w"
    proof (rule api_inv_same [OF inv])
      show "getEvtMask ex ?w = getEvtMask ex w" by (rule getEvtMask_cong [OF as(1)]) (use out in auto)
    qed (simp_all add: last_engine_call_def)
    moreover have "new_adapter a m w = ?w" using True addAdapter_eq [OF ad a(1)] by (simp add: new_adapter_def)
    ultimately show ?thesis using True card by simp
  next
    case False
    let ?v = "api_post LocOpenMsg (?w\<lparr>mLocAdapters := (as @ [a]) @ replicate (MAX_ADAPTERS - length (as @ [a])) NULL\<rparr>)"
    have eq: "new_adapter a m w = ?v" using False out addAdapter_eq [OF ad a(1)] by (simp add: new_adapter_def)
    have "length as < MAX_ADAPTERS" using False as(1) by (simp add: adapters_def)
    then have "adapters ?v (as @ [a])" using as(1) a out by (simp add: adapters_def api_post_def)
    then have "api_inv ex (insert a S) ?v" by (rule api_inv_intro) (use as in \<open>simp_all add: api_post_def\<close>)
    then show ?thesis using eq False card a by simp
  qed
qed

lemma remove_adapter_inv:
  assumes inv: "api_inv ex S w"
  shows "api_inv ex (S - {a}) (removeAdapter a w)"
proof -
  obtain as where as: "adapters w as" "set as = S" using inv by (auto simp: api_inv_def)
  show ?thesis
  proof (cases "a \<in> set as")
    case False
    then show ?thesis using removeAdapter_absent [OF as(1)] inv as by simp
  next
    case True
    then obtain us vs where uv: "as = us @ a # vs" by (meson split_list)
    define w1 where "w1 = w\<lparr>mLocAdapters := (us @ close_gap vs) @ replicate (MAX_ADAPTERS - length (us @ vs)) NULL\<rparr>"
    have rm: "removeAdapter a w = (if us @ vs = [] then api_call Api_close w1 else api_post LocOpenMsg w1)"
      using removeAdapter_eq [OF as(1) [unfolded uv]] by (simp add: w1_def Let_def)
    have "adapters w1 (us @ close_gap vs)" using as(1) by (simp add: adapters_def uv w1_def)
    moreover have "mLocAdapters (removeAdapter a w) = mLocAdapters w1" using rm by (simp add: api_call_def api_post_def)
    ultimately have ad: "adapters (removeAdapter a w) (us @ close_gap vs)" using adapters_cong by blast
    have "a \<notin> set us \<union> set vs" using as(1) uv by (simp add: adapters_def)
    then have set_eq: "set (us @ close_gap vs) = S - {a}" using as(2) uv by auto
    have "api_queue (removeAdapter a w) \<noteq> [] \<or> set (us @ close_gap vs) = {}"
    proof (cases "us @ vs = []")
      case False
      then have "removeAdapter a w = api_post LocOpenMsg w1" using rm by (simp only: if_False)
      then show ?thesis by (simp add: api_post_def)
    qed (simp add: close_gap_def)
    then show ?thesis unfolding set_eq by (intro api_inv_intro [OF ad set_eq]) (elim disjE; simp)
  qed
qed

lemma mask_inv:
  assumes inv: "api_inv ex S w"
  shows "api_inv ex S (set_adapter_mask ex a m w)"
proof -
  obtain as where as: "adapters w as" "set as = S" using inv by (auto simp: api_inv_def)
  let ?w = "w\<lparr>adapter_mask := (adapter_mask w)(a := m)\<rparr>"
  have eq: "set_adapter_mask ex a m w = api_call (Api_open (getEvtMask ex ?w)) ?w" by (simp add: set_adapter_mask_def api_updateEvtMask_def)
  have ad: "adapters (api_call c ?w) as" for c using as(1) adapters_cong [of "api_call c ?w" w] by (simp add: api_call_def)
  have "getEvtMask ex (api_call c ?w) = getEvtMask ex ?w" for c by (simp add: getEvtMask_def api_call_def)
  then show ?thesis unfolding eq by (intro api_inv_intro [OF ad as(2)] disjI2) (simp add: last_engine_append)
qed

lemma event_inv:
  assumes inv: "api_inv ex S w"
  shows "api_inv ex S (broadcast handles ev w)"
proof -
  obtain as where as: "adapters w as" using inv by (auto simp: api_inv_def)
  define cs where "cs = map (\<lambda>a. Deliver a ev) (if first_only ev then until handles as else as)"
  have eq: "broadcast handles ev w = w\<lparr>api_calls := api_calls w @ cs\<rparr>" unfolding cs_def by (rule broadcast_eq [OF as])
  have "filter engine_call cs = []" unfolding cs_def by (rule no_engine_calls)
  then show ?thesis unfolding eq by (intro api_inv_same [OF inv]) (simp_all add: last_engine_call_def getEvtMask_def)
qed

lemma engine_up_inv:
  assumes inv: "api_inv ex S w"
  shows "api_inv ex S (api_handleEngineUpEvent handles w)"
proof -
  obtain as where as: "adapters w as" "set as = S" using inv by (auto simp: api_inv_def)
  define v where "v = api_call Inject_feature_config (api_post LocSsrMsg w)"
  have v: "adapters v as" using as(1) adapters_cong [of v w] by (simp add: v_def api_call_def api_post_def)
  have eq: "api_handleEngineUpEvent handles w =
      v\<lparr>api_calls := api_calls v @ map (\<lambda>a. Deliver a Ev_handleEngineUp) (if first_only Ev_handleEngineUp then until handles as else as)\<rparr>"
    unfolding api_handleEngineUpEvent_def v_def [symmetric] by (rule broadcast_eq [OF v])
  have "adapters (v\<lparr>api_calls := cs\<rparr>) as" for cs using v adapters_cong [of "v\<lparr>api_calls := cs\<rparr>" v] by simp
  then show ?thesis unfolding eq by (rule api_inv_intro) (simp_all add: as v_def api_call_def api_post_def)
qed

lemma task_inv:
  assumes inv: "api_inv ex S w"
  shows "api_inv ex S (api_run ex w)"
proof (cases "api_queue w")
  case Nil
  then show ?thesis using inv by (simp add: api_run_def)
next
  case (Cons msg ms)
  obtain as where as: "adapters w as" "set as = S" using inv by (auto simp: api_inv_def)
  define v where "v = api_run ex w"
  have same: "mLocAdapters v = mLocAdapters w" "adapter_mask v = adapter_mask w"
    using Cons by (cases msg; simp add: v_def api_run_def api_proc_def api_call_def Let_def)+
  have mask: "getEvtMask ex (w\<lparr>api_queue := ms\<rparr>) = getEvtMask ex w" "getEvtMask ex (api_call c u) = getEvtMask ex u"
    "getEvtMask ex v = getEvtMask ex w" for c u
    using same by (simp_all add: getEvtMask_def api_call_def)
  have "last_engine_call v = Some (Api_open (getEvtMask ex w))"
    using Cons by (cases msg) (simp_all add: v_def api_run_def api_proc_def last_engine_append mask Let_def)
  moreover have "adapters v as" using as(1) adapters_cong [OF same(1)] by blast
  ultimately show ?thesis unfolding v_def [symmetric] by (intro api_inv_intro [OF _ as(2)]) (simp_all add: mask)
qed

lemma api_do_inv:
  assumes "api_inv ex S w" "api_ok x w"
  shows "\<exists>w'. api_do ex x w = Some w' \<and> api_inv ex (registered_step x S) w'"
  using assms new_adapter_inv remove_adapter_inv mask_inv event_inv engine_up_inv task_inv by (cases x) simp_all

section \<open>What every history guarantees\<close>

lemma new_api_inv: "api_inv ex {} LocApiBase"
  unfolding api_inv_def adapters_def LocApiBase_def by auto

text \<open>One instance of the histories for each excluded mask: some set of adapters is registered.\<close>

interpretation loc_api: guarded_system "api_do ex" api_ok "\<lambda>w. \<exists>S. api_inv ex S w" "api_history ex" for ex
proof unfold_locales
  fix x w
  assume "\<exists>S. api_inv ex S w" "api_ok x w"
  then show "\<exists>w'. api_do ex x w = Some w' \<and> (\<exists>S. api_inv ex S w')" using api_do_inv by blast
qed simp_all

lemma skipped_step: "api_inv ex S w \<Longrightarrow> \<not> api_ok x w \<Longrightarrow> registered_step x S = S"
  by (cases x) (auto simp: api_inv_def adapters_def split: if_splits)

lemma api_history_inv:
  "api_inv ex S w \<Longrightarrow> \<exists>w'. api_history ex xs w = Some w' \<and> api_inv ex (fold registered_step xs S) w'"
proof (induction xs arbitrary: S w)
  case (Cons x xs)
  show ?case
  proof (cases "api_ok x w")
    case True
    obtain w1 where w1: "api_do ex x w = Some w1" "api_inv ex (registered_step x S) w1"
      using api_do_inv [OF Cons.prems True] by blast
    then show ?thesis using Cons.IH [OF w1(2)] True by simp
  next
    case False
    then show ?thesis using Cons.IH [OF Cons.prems] skipped_step [OF Cons.prems False] by simp
  qed
qed simp

lemma api_history_adapters:
  obtains w as where "api_history ex xs LocApiBase = Some w" "adapters w as" "set as = registered xs"
    "api_inv ex (registered xs) w"
  using api_history_inv [OF new_api_inv, of ex xs] unfolding registered_def [symmetric] by (auto simp: api_inv_def)

text \<open>
  C35: Events reach the adapters. After every history of adapters coming and going, the registered
  adapters stand in some order without repetition, and an event of the modem is delivered once to each
  of them, or, for the events that one adapter answers, to each of them up to the first that takes it.
\<close>

theorem api_events_reach_adapters:
  "\<exists>w as. api_history ex xs LocApiBase = Some w \<and> distinct as \<and> set as = registered xs \<and> length as \<le> MAX_ADAPTERS \<and>
     broadcast handles ev w =
       w\<lparr>api_calls := api_calls w @ map (\<lambda>a. Deliver a ev) (if first_only ev then until handles as else as)\<rparr>"
proof -
  obtain w as where w: "api_history ex xs LocApiBase = Some w" "adapters w as" "set as = registered xs"
    by (rule api_history_adapters)
  then show ?thesis using broadcast_eq [OF w(2)] by (auto simp: adapters_def)
qed

text \<open>
  C36: The modem's event mask is current. After every history in which the message task has caught up
  and an adapter is registered, the last thing the modem's interface was told is to open with a mask,
  and an event's bit is set in it if and only if some registered adapter wants the event and the
  target does not exclude it.
\<close>

theorem api_mask_current:
  assumes "api_history ex xs LocApiBase = Some w" "api_queue w = []" "registered xs \<noteq> {}"
  shows "\<exists>m. last_engine_call w = Some (Api_open m) \<and>
     (\<forall>i \<in> {..<64}. bit m i = ((\<exists>a \<in> registered xs. bit (adapter_mask w a) i) \<and> \<not> bit ex i))"
proof -
  obtain as where as: "adapters w as" "set as = registered xs" "api_inv ex (registered xs) w"
    using api_history_adapters [of ex xs] assms(1) by (metis option.inject)
  then have "last_engine_call w = Some (Api_open (getEvtMask ex w))" using assms by (simp add: api_inv_def)
  then show ?thesis using getEvtMask_bits [OF as(1)] as(2) by auto
qed

definition example_adapters :: "api_act list" where
  "example_adapters = [Ad_new 1 3, Ad_new 2 12, Ad_task, Ad_delete 1, Ad_mask 2 10, Ad_task, Ad_task]"

theorem api_mask_current_witness:
  "\<exists>m. last_engine_call (the (api_history 2 example_adapters LocApiBase)) = Some (Api_open m) \<and>
     (\<forall>i \<in> {..<64}. bit m i = ((\<exists>a \<in> registered example_adapters. bit (adapter_mask (the (api_history 2 example_adapters LocApiBase)) a) i) \<and> \<not> bit (2 :: 64 word) i))"
proof (rule api_mask_current)
  show "api_history 2 example_adapters LocApiBase = Some (the (api_history 2 example_adapters LocApiBase))"
    using api_history_inv [OF new_api_inv, of 2 example_adapters] by auto
  show "api_queue (the (api_history 2 example_adapters LocApiBase)) = []" by code_simp
  show "registered example_adapters \<noteq> {}" by code_simp
qed

section \<open>What callers do not expect\<close>

text \<open>
  The last adapter closes the interface at once, but the message that its creation posted is still in
  the queue and opens the interface again, with no event wanted; it stays open.
\<close>

lemma api_reopened_after_close:
  "map_option api_calls (api_history ex [Ad_new 1 m, Ad_delete 1, Ad_task, Ad_task] LocApiBase) =
     Some [Api_close, Api_open 0]"
  by (simp add: LocApiBase_def new_adapter_def addAdapter_def removeAdapter_def add_loop.simps remove_loop.simps scan_used.simps
      api_run_def api_proc_def api_post_def api_call_def getEvtMask_def to_all.simps MAX_ADAPTERS_def eval_nat_numeral)

text \<open>An eleventh adapter gets no events and is not asked for its mask; nobody is told.\<close>

lemma api_full_ignores:
  assumes "adapters w as" "length as = MAX_ADAPTERS" "a \<noteq> NULL"
  shows "addAdapter a w = w"
  using addAdapter_eq [OF assms(1,3)] assms(2) by simp

end
