(* ===== verification/LocDispatch.thy ===== *)
theory LocDispatch
  imports StdMap
begin

text \<open>
  \<open>gps/location/LocationAPI.cpp\<close>: the entry points of the location API. It loads the three providers
  (satellites, fused, geofences) when a client first needs them, tells each which clients it has, and
  hands every request on to a provider. Everything happens under one mutex, so each entry point is one
  step. What \<open>dlopen\<close> finds is an argument; the providers' functions are recorded when they are called,
  and what they return is an argument too.
\<close>

section \<open>Data\<close>

text \<open>A \<open>std::function\<close> is empty or some function.\<close>

type_synonym callback = "nat option"

record api_callbacks =
  capabilitiesCb :: callback
  responseCb :: callback
  collectiveResponseCb :: callback
  trackingCb :: callback
  batchingCb :: callback
  geofenceBreachCb :: callback
  geofenceStatusCb :: callback
  gnssLocationInfoCb :: callback
  gnssNiCb :: callback
  gnssSvCb :: callback
  gnssNmeaCb :: callback
  gnssMeasurementsCb :: callback
  batchingStatusCb :: callback

record LocationControlCallbacks =
  ctl_responseCb :: callback
  ctl_collectiveResponseCb :: callback

record tracking_options =
  trk_size :: nat
  trk_minInterval :: "32 word"
  trk_minDistance :: "32 word"
  trk_mode :: nat

datatype iface = Gnss | Flp | Geofence

datatype iface_call =
    I_initialize
  | I_addClient ptr api_callbacks
  | I_removeClient ptr
  | I_requestCapabilities ptr
  | I_startTracking ptr tracking_options
  | I_stopTracking ptr "32 word"
  | I_updateTrackingOptions ptr "32 word" tracking_options
  | I_startBatching ptr tracking_options nat
  | I_stopBatching ptr "32 word"
  | I_updateBatchingOptions ptr "32 word" tracking_options nat
  | I_getBatchedLocations ptr "32 word" nat
  | I_addGeofences ptr nat ptr ptr
  | I_removeGeofences ptr nat ptr
  | I_modifyGeofences ptr nat ptr ptr
  | I_pauseGeofences ptr nat ptr
  | I_resumeGeofences ptr nat ptr
  | I_gnssNiResponse ptr "32 word" nat
  | I_setControlCallbacks LocationControlCallbacks
  | I_enable nat
  | I_disable "32 word"
  | I_gnssUpdateConfig nat
  | I_gnssDeleteAidingData nat

text \<open>
  \<open>gData\<close> and the flags of failed loads, which \<open>interfaces\<close> and \<open>load_failed\<close> hold per provider; the
  live objects; and the calls of providers.
\<close>

record LocationAPIData =
  clientData :: "(ptr, api_callbacks) std_map"
  controlAPI :: ptr
  controlCallbacks :: LocationControlCallbacks
  interfaces :: "iface \<Rightarrow> ptr"
  load_failed :: "iface \<Rightarrow> bool"
  live_apis :: "ptr set"
  live_controls :: "ptr set"
  iface_log :: "(iface \<times> iface_call) list"

definition gData :: LocationAPIData where
  "gData = \<lparr>clientData = [], controlAPI = NULL, controlCallbacks = \<lparr>ctl_responseCb = None, ctl_collectiveResponseCb = None\<rparr>,
     interfaces = (\<lambda>k. NULL), load_failed = (\<lambda>k. False), live_apis = {}, live_controls = {}, iface_log = []\<rparr>"

definition call_iface :: "iface \<Rightarrow> iface_call \<Rightarrow> LocationAPIData \<Rightarrow> LocationAPIData" where
  "call_iface k c w = w\<lparr>iface_log := iface_log w @ [(k, c)]\<rparr>"

section \<open>Which providers a client needs\<close>

definition needsGnssTrackingInfo :: "api_callbacks \<Rightarrow> bool" where
  "needsGnssTrackingInfo c \<longleftrightarrow>
     gnssLocationInfoCb c \<noteq> None \<or> gnssSvCb c \<noteq> None \<or> gnssNmeaCb c \<noteq> None \<or> gnssMeasurementsCb c \<noteq> None"

definition isGnssClient :: "api_callbacks \<Rightarrow> bool" where
  "isGnssClient c \<longleftrightarrow> gnssNiCb c \<noteq> None \<or> trackingCb c \<noteq> None \<or> gnssMeasurementsCb c \<noteq> None"

definition isFlpClient :: "api_callbacks \<Rightarrow> bool" where
  "isFlpClient c \<longleftrightarrow> trackingCb c \<noteq> None \<or> batchingCb c \<noteq> None"

definition isGeofenceClient :: "api_callbacks \<Rightarrow> bool" where
  "isGeofenceClient c \<longleftrightarrow> geofenceBreachCb c \<noteq> None \<or> geofenceStatusCb c \<noteq> None"

fun is_client :: "iface \<Rightarrow> api_callbacks \<Rightarrow> bool" where
  "is_client Gnss c = isGnssClient c"
| "is_client Flp c = isFlpClient c"
| "is_client Geofence c = isGeofenceClient c"

definition mandatory :: "api_callbacks \<Rightarrow> bool" where
  "mandatory c \<longleftrightarrow> capabilitiesCb c \<noteq> None \<and> responseCb c \<noteq> None \<and> collectiveResponseCb c \<noteq> None"

section \<open>Loading\<close>

text \<open>What the dynamic linker answers at this moment.\<close>

record dl_env =
  dl_open :: "string \<Rightarrow> ptr"
  dl_open_error :: "string \<Rightarrow> bool"
  dl_sym :: "string \<Rightarrow> string \<Rightarrow> ptr"
  dl_sym_error :: "string \<Rightarrow> string \<Rightarrow> bool"
  dl_get :: "ptr \<Rightarrow> ptr"

definition loadLocationInterface :: "dl_env \<Rightarrow> string \<Rightarrow> string \<Rightarrow> ptr" where
  "loadLocationInterface env library name =
     (let handle = dl_open env library;
          getter = (if handle = NULL \<or> dl_open_error env library then NULL
                    else if dl_sym_error env library name then NULL else dl_sym env library name) in
      if getter = NULL then NULL else dl_get env getter)"

fun iface_library :: "iface \<Rightarrow> string \<times> string" where
  "iface_library Gnss = (''libgnss.so'', ''getGnssInterface'')"
| "iface_library Flp = (''libflp.so'', ''getFlpInterface'')"
| "iface_library Geofence = (''libgeofence.so'', ''getGeofenceInterface'')"

definition ensure_loaded :: "dl_env \<Rightarrow> iface \<Rightarrow> LocationAPIData \<Rightarrow> LocationAPIData" where
  "ensure_loaded env k w =
     (if interfaces w k = NULL \<and> \<not> load_failed w k then
        (let p = loadLocationInterface env (fst (iface_library k)) (snd (iface_library k));
             w = w\<lparr>interfaces := (interfaces w)(k := p)\<rparr> in
         if p = NULL then w\<lparr>load_failed := (load_failed w)(k := True)\<rparr> else call_iface k I_initialize w)
      else w)"

section \<open>Clients\<close>

text \<open>One of the three blocks of \<open>createInstance\<close>; the flag is \<open>requestedCapabilities\<close>.\<close>

definition create_block :: "dl_env \<Rightarrow> ptr \<Rightarrow> api_callbacks \<Rightarrow> iface \<Rightarrow> bool \<times> LocationAPIData \<Rightarrow> bool \<times> LocationAPIData" where
  "create_block env this c k = (\<lambda>(requested, w).
     if is_client k c then
       (let w = ensure_loaded env k w in
        if interfaces w k \<noteq> NULL then
          (let w = call_iface k (I_addClient this c) w in
           if \<not> requested then (True, call_iface k (I_requestCapabilities this) w) else (requested, w))
        else (requested, w))
     else (requested, w))"

text \<open>\<open>p\<close> is the address that \<open>new LocationAPI()\<close> gives.\<close>

definition api_createInstance :: "dl_env \<Rightarrow> ptr \<Rightarrow> api_callbacks \<Rightarrow> LocationAPIData \<Rightarrow> ptr \<times> LocationAPIData" where
  "api_createInstance env p c w =
     (if \<not> mandatory c then (NULL, w)
      else
        (let w = w\<lparr>live_apis := insert p (live_apis w)\<rparr>;
             (requested, w) = create_block env p c Geofence (create_block env p c Flp (create_block env p c Gnss (False, w))) in
         (p, w\<lparr>clientData := sm_put p c (clientData w)\<rparr>)))"

definition remove_block :: "ptr \<Rightarrow> api_callbacks \<Rightarrow> iface \<Rightarrow> LocationAPIData \<Rightarrow> LocationAPIData" where
  "remove_block this c k w =
     (if is_client k c \<and> interfaces w k \<noteq> NULL then call_iface k (I_removeClient this) w else w)"

text \<open>\<open>delete this\<close>: the destructor, then the memory.\<close>

definition api_destroy :: "ptr \<Rightarrow> LocationAPIData \<Rightarrow> LocationAPIData option" where
  "api_destroy this w =
     (if this \<notin> live_apis w then None
      else
        (let w = (case sm_find (clientData w) this of
                    Some c \<Rightarrow>
                      (let w = remove_block this c Geofence (remove_block this c Flp (remove_block this c Gnss w)) in
                       w\<lparr>clientData := sm_erase this (clientData w)\<rparr>)
                  | None \<Rightarrow> w) in
         Some (w\<lparr>live_apis := live_apis w - {this}\<rparr>)))"

definition update_block :: "dl_env \<Rightarrow> ptr \<Rightarrow> api_callbacks \<Rightarrow> iface \<Rightarrow> LocationAPIData \<Rightarrow> LocationAPIData" where
  "update_block env this c k w =
     (if is_client k c then
        (let w = ensure_loaded env k w in
         if interfaces w k \<noteq> NULL then call_iface k (I_addClient this c) w else w)
      else w)"

definition api_updateCallbacks :: "dl_env \<Rightarrow> ptr \<Rightarrow> api_callbacks \<Rightarrow> LocationAPIData \<Rightarrow> LocationAPIData" where
  "api_updateCallbacks env this c w =
     (if \<not> mandatory c then w
      else
        (let w = update_block env this c Geofence (update_block env this c Flp (update_block env this c Gnss w)) in
         w\<lparr>clientData := sm_put this c (clientData w)\<rparr>))"

section \<open>Tracking\<close>

text \<open>Where \<open>startTracking\<close> sends the request.\<close>

definition tracking_target :: "api_callbacks \<Rightarrow> tracking_options \<Rightarrow> LocationAPIData \<Rightarrow> iface option" where
  "tracking_target c opts w =
     (if interfaces w Flp \<noteq> NULL \<and> trk_minDistance opts > 0 then Some Flp
      else if interfaces w Gnss \<noteq> NULL \<and> needsGnssTrackingInfo c then Some Gnss
      else if interfaces w Flp \<noteq> NULL then Some Flp
      else if interfaces w Gnss \<noteq> NULL then Some Gnss
      else None)"

text \<open>\<open>answer\<close>: the session's id from the provider.\<close>

definition api_startTracking :: "32 word \<Rightarrow> ptr \<Rightarrow> tracking_options \<Rightarrow> LocationAPIData \<Rightarrow> 32 word \<times> LocationAPIData" where
  "api_startTracking answer this opts w =
     (case sm_find (clientData w) this of
        Some c \<Rightarrow>
          (case tracking_target c opts w of
             Some k \<Rightarrow> (answer, call_iface k (I_startTracking this opts) w)
           | None \<Rightarrow> (0, w))
      | None \<Rightarrow> (0, w))"

definition if_loaded :: "iface \<Rightarrow> iface_call \<Rightarrow> LocationAPIData \<Rightarrow> LocationAPIData" where
  "if_loaded k c w = (if interfaces w k \<noteq> NULL then call_iface k c w else w)"

definition api_stopTracking :: "ptr \<Rightarrow> 32 word \<Rightarrow> LocationAPIData \<Rightarrow> LocationAPIData" where
  "api_stopTracking this sid w =
     (case sm_find (clientData w) this of
        Some c \<Rightarrow> if_loaded Flp (I_stopTracking this sid) (if_loaded Gnss (I_stopTracking this sid) w)
      | None \<Rightarrow> w)"

definition api_updateTrackingOptions :: "ptr \<Rightarrow> 32 word \<Rightarrow> tracking_options \<Rightarrow> LocationAPIData \<Rightarrow> LocationAPIData" where
  "api_updateTrackingOptions this sid opts w =
     (case sm_find (clientData w) this of
        Some c \<Rightarrow> if_loaded Flp (I_updateTrackingOptions this sid opts) (if_loaded Gnss (I_updateTrackingOptions this sid opts) w)
      | None \<Rightarrow> w)"

section \<open>Requests with one possible provider\<close>

text \<open>\<open>id\<close> and \<open>ids\<close> are 0 and NULL without the provider.\<close>

definition ask :: "iface \<Rightarrow> iface_call \<Rightarrow> 'r \<Rightarrow> 'r \<Rightarrow> LocationAPIData \<Rightarrow> 'r \<times> LocationAPIData" where
  "ask k c answer none w = (if interfaces w k \<noteq> NULL then (answer, call_iface k c w) else (none, w))"

definition api_startBatching :: "32 word \<Rightarrow> ptr \<Rightarrow> tracking_options \<Rightarrow> nat \<Rightarrow> LocationAPIData \<Rightarrow> 32 word \<times> LocationAPIData" where
  "api_startBatching answer this opts batching w = ask Flp (I_startBatching this opts batching) answer 0 w"

definition api_stopBatching :: "ptr \<Rightarrow> 32 word \<Rightarrow> LocationAPIData \<Rightarrow> LocationAPIData" where
  "api_stopBatching this sid w = if_loaded Flp (I_stopBatching this sid) w"

definition api_updateBatchingOptions :: "ptr \<Rightarrow> 32 word \<Rightarrow> tracking_options \<Rightarrow> nat \<Rightarrow> LocationAPIData \<Rightarrow> LocationAPIData" where
  "api_updateBatchingOptions this sid opts batching w = if_loaded Flp (I_updateBatchingOptions this sid opts batching) w"

definition api_getBatchedLocations :: "ptr \<Rightarrow> 32 word \<Rightarrow> nat \<Rightarrow> LocationAPIData \<Rightarrow> LocationAPIData" where
  "api_getBatchedLocations this sid n w = if_loaded Flp (I_getBatchedLocations this sid n) w"

definition api_addGeofences :: "ptr \<Rightarrow> ptr \<Rightarrow> nat \<Rightarrow> ptr \<Rightarrow> ptr \<Rightarrow> LocationAPIData \<Rightarrow> ptr \<times> LocationAPIData" where
  "api_addGeofences answer this n options info w = ask Geofence (I_addGeofences this n options info) answer NULL w"

definition api_removeGeofences :: "ptr \<Rightarrow> nat \<Rightarrow> ptr \<Rightarrow> LocationAPIData \<Rightarrow> LocationAPIData" where
  "api_removeGeofences this n ids w = if_loaded Geofence (I_removeGeofences this n ids) w"

definition api_modifyGeofences :: "ptr \<Rightarrow> nat \<Rightarrow> ptr \<Rightarrow> ptr \<Rightarrow> LocationAPIData \<Rightarrow> LocationAPIData" where
  "api_modifyGeofences this n ids options w = if_loaded Geofence (I_modifyGeofences this n ids options) w"

definition api_pauseGeofences :: "ptr \<Rightarrow> nat \<Rightarrow> ptr \<Rightarrow> LocationAPIData \<Rightarrow> LocationAPIData" where
  "api_pauseGeofences this n ids w = if_loaded Geofence (I_pauseGeofences this n ids) w"

definition api_resumeGeofences :: "ptr \<Rightarrow> nat \<Rightarrow> ptr \<Rightarrow> LocationAPIData \<Rightarrow> LocationAPIData" where
  "api_resumeGeofences this n ids w = if_loaded Geofence (I_resumeGeofences this n ids) w"

definition api_gnssNiResponse :: "ptr \<Rightarrow> 32 word \<Rightarrow> nat \<Rightarrow> LocationAPIData \<Rightarrow> LocationAPIData" where
  "api_gnssNiResponse this sid response w = if_loaded Gnss (I_gnssNiResponse this sid response) w"

section \<open>The control object\<close>

definition control_createInstance :: "dl_env \<Rightarrow> ptr \<Rightarrow> LocationControlCallbacks \<Rightarrow> LocationAPIData \<Rightarrow> ptr \<times> LocationAPIData" where
  "control_createInstance env p c w =
     (if ctl_responseCb c \<noteq> None \<and> controlAPI w = NULL then
        (let w = ensure_loaded env Gnss w in
         if interfaces w Gnss \<noteq> NULL then
           (let w = w\<lparr>controlAPI := p, controlCallbacks := c, live_controls := insert p (live_controls w)\<rparr>;
                w = call_iface Gnss (I_setControlCallbacks c) w in
            (controlAPI w, w))
         else (NULL, w))
      else (NULL, w))"

definition control_destroy :: "ptr \<Rightarrow> LocationAPIData \<Rightarrow> LocationAPIData option" where
  "control_destroy this w =
     (if this \<notin> live_controls w then None
      else Some (w\<lparr>controlAPI := NULL, live_controls := live_controls w - {this}\<rparr>))"

definition control_enable :: "32 word \<Rightarrow> nat \<Rightarrow> LocationAPIData \<Rightarrow> 32 word \<times> LocationAPIData" where
  "control_enable answer techType w = ask Gnss (I_enable techType) answer 0 w"

definition control_disable :: "32 word \<Rightarrow> LocationAPIData \<Rightarrow> LocationAPIData" where
  "control_disable sid w = if_loaded Gnss (I_disable sid) w"

definition control_gnssUpdateConfig :: "ptr \<Rightarrow> nat \<Rightarrow> LocationAPIData \<Rightarrow> ptr \<times> LocationAPIData" where
  "control_gnssUpdateConfig answer config w = ask Gnss (I_gnssUpdateConfig config) answer NULL w"

definition control_gnssDeleteAidingData :: "32 word \<Rightarrow> nat \<Rightarrow> LocationAPIData \<Rightarrow> 32 word \<times> LocationAPIData" where
  "control_gnssDeleteAidingData answer data w = ask Gnss (I_gnssDeleteAidingData data) answer 0 w"

end
