(* ===== verification/LocDispatchProofs.thy ===== *)
theory LocDispatchProofs
  imports LocDispatch Systems
begin

text \<open>
  What the providers know of the clients. Over every history of entry points a provider's functions
  are called only after it has been initialised, once; a provider that is loaded stays; and each
  provider has as clients the live objects that need it, with their latest callbacks, and the objects
  that gave up the kind of callback it provides: those are never taken away from it.
\<close>

section \<open>Histories\<close>

datatype disp_act =
    D_create dl_env ptr api_callbacks
  | D_destroy ptr
  | D_update dl_env ptr api_callbacks
  | D_startTracking "32 word" ptr tracking_options
  | D_stopTracking ptr "32 word"
  | D_updateTracking ptr "32 word" tracking_options
  | D_startBatching "32 word" ptr tracking_options nat
  | D_stopBatching ptr "32 word"
  | D_updateBatching ptr "32 word" tracking_options nat
  | D_getBatched ptr "32 word" nat
  | D_addGeofences ptr ptr nat ptr ptr
  | D_removeGeofences ptr nat ptr
  | D_modifyGeofences ptr nat ptr ptr
  | D_pauseGeofences ptr nat ptr
  | D_resumeGeofences ptr nat ptr
  | D_niResponse ptr "32 word" nat
  | D_control_create dl_env ptr LocationControlCallbacks
  | D_control_destroy ptr
  | D_enable "32 word" nat
  | D_disable "32 word"
  | D_updateConfig ptr nat
  | D_deleteAidingData "32 word" nat

fun disp_do :: "disp_act \<Rightarrow> LocationAPIData \<Rightarrow> LocationAPIData option" where
  "disp_do (D_create env p c) w = Some (snd (api_createInstance env p c w))"
| "disp_do (D_destroy a) w = api_destroy a w"
| "disp_do (D_update env a c) w = Some (api_updateCallbacks env a c w)"
| "disp_do (D_startTracking r a opts) w = Some (snd (api_startTracking r a opts w))"
| "disp_do (D_stopTracking a i) w = Some (api_stopTracking a i w)"
| "disp_do (D_updateTracking a i opts) w = Some (api_updateTrackingOptions a i opts w)"
| "disp_do (D_startBatching r a opts b) w = Some (snd (api_startBatching r a opts b w))"
| "disp_do (D_stopBatching a i) w = Some (api_stopBatching a i w)"
| "disp_do (D_updateBatching a i opts b) w = Some (api_updateBatchingOptions a i opts b w)"
| "disp_do (D_getBatched a i n) w = Some (api_getBatchedLocations a i n w)"
| "disp_do (D_addGeofences r a n opts info) w = Some (snd (api_addGeofences r a n opts info w))"
| "disp_do (D_removeGeofences a n ids) w = Some (api_removeGeofences a n ids w)"
| "disp_do (D_modifyGeofences a n ids opts) w = Some (api_modifyGeofences a n ids opts w)"
| "disp_do (D_pauseGeofences a n ids) w = Some (api_pauseGeofences a n ids w)"
| "disp_do (D_resumeGeofences a n ids) w = Some (api_resumeGeofences a n ids w)"
| "disp_do (D_niResponse a i r) w = Some (api_gnssNiResponse a i r w)"
| "disp_do (D_control_create env p c) w = Some (snd (control_createInstance env p c w))"
| "disp_do (D_control_destroy a) w = control_destroy a w"
| "disp_do (D_enable r t) w = Some (snd (control_enable r t w))"
| "disp_do (D_disable i) w = Some (control_disable i w)"
| "disp_do (D_updateConfig r c) w = Some (snd (control_gnssUpdateConfig r c w))"
| "disp_do (D_deleteAidingData r d) w = Some (snd (control_gnssDeleteAidingData r d w))"

text \<open>The callers' part: new objects have addresses of their own, and only live objects are used.\<close>

fun disp_ok :: "disp_act \<Rightarrow> LocationAPIData \<Rightarrow> bool" where
  "disp_ok (D_create env p c) w \<longleftrightarrow> p \<noteq> NULL \<and> p \<notin> live_apis w"
| "disp_ok (D_destroy a) w \<longleftrightarrow> a \<in> live_apis w"
| "disp_ok (D_update env a c) w \<longleftrightarrow> a \<in> live_apis w"
| "disp_ok (D_control_create env p c) w \<longleftrightarrow> p \<noteq> NULL \<and> p \<notin> live_controls w"
| "disp_ok (D_control_destroy a) w \<longleftrightarrow> a \<in> live_controls w"
| "disp_ok x w \<longleftrightarrow> True"

fun disp_history :: "disp_act list \<Rightarrow> LocationAPIData \<Rightarrow> LocationAPIData option" where
  "disp_history [] w = Some w"
| "disp_history (x # xs) w =
     (if disp_ok x w then disp_do x w \<bind> disp_history xs else disp_history xs w)"

section \<open>What a provider was told\<close>

definition calls_to :: "iface \<Rightarrow> LocationAPIData \<Rightarrow> iface_call list" where
  "calls_to k w = map snd (filter (\<lambda>e. fst e = k) (iface_log w))"

fun client_effect :: "iface_call \<Rightarrow> (ptr \<rightharpoonup> api_callbacks) \<Rightarrow> (ptr \<rightharpoonup> api_callbacks)" where
  "client_effect (I_addClient a c) m = m(a \<mapsto> c)"
| "client_effect (I_removeClient a) m = m(a := None)"
| "client_effect x m = m"

text \<open>The clients a provider has been given and not been told to remove.\<close>

definition iface_clients :: "iface \<Rightarrow> LocationAPIData \<Rightarrow> ptr \<rightharpoonup> api_callbacks" where
  "iface_clients k w = fold client_effect (calls_to k w) Map.empty"

lemma calls_to_call [simp]: "calls_to k (call_iface j c w) = (if j = k then calls_to k w @ [c] else calls_to k w)"
  by (simp add: calls_to_def call_iface_def)

lemma call_iface_fields [simp]:
  "clientData (call_iface k c w) = clientData w" "controlAPI (call_iface k c w) = controlAPI w"
  "interfaces (call_iface k c w) = interfaces w" "load_failed (call_iface k c w) = load_failed w"
  "live_apis (call_iface k c w) = live_apis w" "live_controls (call_iface k c w) = live_controls w"
  by (simp_all add: call_iface_def)

definition started :: "iface \<Rightarrow> LocationAPIData \<Rightarrow> bool" where
  "started k w \<longleftrightarrow>
     (if interfaces w k = NULL then calls_to k w = []
      else \<exists>cs. calls_to k w = I_initialize # cs \<and> I_initialize \<notin> set cs)"

text \<open>The live objects that need a provider, with their latest callbacks.\<close>

definition needed :: "iface \<Rightarrow> LocationAPIData \<Rightarrow> ptr \<rightharpoonup> api_callbacks" where
  "needed k w = (\<lambda>a. case sm_find (clientData w) a of Some c \<Rightarrow> if is_client k c then Some c else None | None \<Rightarrow> None)"

text \<open>
  The objects that gave up a kind of callback while its provider was loaded, with the callbacks they
  had. An object leaves them again when it is destroyed at a time it needs the provider.
\<close>

type_synonym dangling_clients = "iface \<Rightarrow> ptr \<rightharpoonup> api_callbacks"

fun dangle :: "disp_act \<Rightarrow> LocationAPIData \<Rightarrow> dangling_clients \<Rightarrow> dangling_clients" where
  "dangle (D_update env a c) w G =
     (\<lambda>k. if mandatory c \<and> \<not> is_client k c \<and> interfaces w k \<noteq> NULL \<and> needed k w a \<noteq> None
          then (G k)(a := needed k w a) else G k)"
| "dangle (D_destroy a) w G = (\<lambda>k. if needed k w a \<noteq> None then (G k)(a := None) else G k)"
| "dangle x w G = G"

fun dangling :: "disp_act list \<Rightarrow> LocationAPIData \<Rightarrow> dangling_clients \<Rightarrow> dangling_clients" where
  "dangling [] w G = G"
| "dangling (x # xs) w G =
     (if disp_ok x w then (case disp_do x w of Some v \<Rightarrow> dangling xs v (dangle x w G) | None \<Rightarrow> G) else dangling xs w G)"

definition knows :: "dangling_clients \<Rightarrow> iface \<Rightarrow> LocationAPIData \<Rightarrow> bool" where
  "knows G k w \<longleftrightarrow>
     (if interfaces w k = NULL then G k = Map.empty \<and> (needed k w = Map.empty \<or> load_failed w k)
      else iface_clients k w = G k ++ needed k w)"

definition disp_inv :: "dangling_clients \<Rightarrow> LocationAPIData \<Rightarrow> bool" where
  "disp_inv G w \<longleftrightarrow> sm_ok (clientData w) \<and> dom (sm_find (clientData w)) = live_apis w \<and> NULL \<notin> live_apis w \<and>
     live_controls w = (if controlAPI w = NULL then {} else {controlAPI w}) \<and>
     (\<forall>k. load_failed w k \<longrightarrow> interfaces w k = NULL) \<and> (\<forall>k. started k w) \<and> (\<forall>k. knows G k w)"

definition disp_good :: "LocationAPIData \<Rightarrow> bool" where
  "disp_good w \<longleftrightarrow> (\<exists>G. disp_inv G w)"

section \<open>Requests\<close>

text \<open>Requests only add calls, of loaded providers, that are not about clients.\<close>

fun is_request :: "iface_call \<Rightarrow> bool" where
  "is_request I_initialize = False"
| "is_request (I_addClient a c) = False"
| "is_request (I_removeClient a) = False"
| "is_request c = True"

definition requested :: "LocationAPIData \<Rightarrow> LocationAPIData \<Rightarrow> bool" where
  "requested w v \<longleftrightarrow> (\<exists>cs. v = w\<lparr>iface_log := iface_log w @ cs\<rparr> \<and> (\<forall>e \<in> set cs. interfaces w (fst e) \<noteq> NULL \<and> is_request (snd e)))"

lemma requested_refl: "requested w w"
  unfolding requested_def by (rule exI [of _ "[]"]) simp

lemma requested_trans: "requested w v \<Longrightarrow> requested v u \<Longrightarrow> requested w u"
proof -
  assume "requested w v" "requested v u"
  then obtain cs ds where "v = w\<lparr>iface_log := iface_log w @ cs\<rparr>" "u = v\<lparr>iface_log := iface_log v @ ds\<rparr>"
    "\<forall>e \<in> set cs. interfaces w (fst e) \<noteq> NULL \<and> is_request (snd e)" "\<forall>e \<in> set ds. interfaces v (fst e) \<noteq> NULL \<and> is_request (snd e)"
    by (auto simp: requested_def)
  then show ?thesis unfolding requested_def by (intro exI [of _ "cs @ ds"]) auto
qed

lemma requested_call: "interfaces w k \<noteq> NULL \<Longrightarrow> is_request c \<Longrightarrow> requested w (call_iface k c w)"
  unfolding requested_def call_iface_def by (rule exI [of _ "[(k, c)]"]) simp

lemma requested_if_loaded: "is_request c \<Longrightarrow> requested w (if_loaded k c w)"
  by (simp add: if_loaded_def requested_call requested_refl)

lemma requested_ask: "is_request c \<Longrightarrow> requested w (snd (ask k c r none w))"
  by (simp add: ask_def requested_call requested_refl)

lemma requested_start: "requested w (snd (api_startTracking r a opts w))"
  by (auto simp: api_startTracking_def tracking_target_def requested_refl requested_call split: option.splits)

lemmas request_ops = api_startBatching_def api_stopBatching_def api_updateBatchingOptions_def api_getBatchedLocations_def
  api_addGeofences_def api_removeGeofences_def api_modifyGeofences_def api_pauseGeofences_def api_resumeGeofences_def
  api_gnssNiResponse_def control_enable_def control_disable_def control_gnssUpdateConfig_def control_gnssDeleteAidingData_def

fun is_request_act :: "disp_act \<Rightarrow> bool" where
  "is_request_act (D_create env p c) = False"
| "is_request_act (D_destroy a) = False"
| "is_request_act (D_update env a c) = False"
| "is_request_act (D_control_create env p c) = False"
| "is_request_act (D_control_destroy a) = False"
| "is_request_act x = True"

lemma request_step: "is_request_act x \<Longrightarrow> \<exists>v. disp_do x w = Some v \<and> requested w v"
proof (cases x)
  case (D_stopTracking a i)
  then show ?thesis using requested_trans [OF requested_if_loaded requested_if_loaded]
    by (auto simp: api_stopTracking_def requested_refl split: option.splits)
next
  case (D_updateTracking a i opts)
  then show ?thesis using requested_trans [OF requested_if_loaded requested_if_loaded]
    by (auto simp: api_updateTrackingOptions_def requested_refl split: option.splits)
qed (simp_all add: request_ops requested_if_loaded requested_ask requested_start)

lemma request_effect: "is_request c \<Longrightarrow> client_effect c m = m"
  by (cases c) simp_all

lemma requests_effect: "\<forall>c \<in> set cs. is_request c \<Longrightarrow> fold client_effect cs m = m"
  by (induction cs arbitrary: m) (simp_all add: request_effect)

lemma requested_inv:
  assumes "disp_inv G w" "requested w v"
  shows "disp_inv G v"
proof -
  obtain cs where v: "v = w\<lparr>iface_log := iface_log w @ cs\<rparr>" "\<forall>e \<in> set cs. interfaces w (fst e) \<noteq> NULL \<and> is_request (snd e)"
    using assms(2) by (auto simp: requested_def)
  define ds where "ds k = map snd (filter (\<lambda>e. fst e = k) cs)" for k
  have calls: "calls_to k v = calls_to k w @ ds k" for k by (simp add: v calls_to_def ds_def)
  have reqs: "\<forall>c \<in> set (ds k). is_request c" for k using v(2) by (auto simp: ds_def)
  have none: "ds k = []" if "interfaces w k = NULL" for k using v(2) that by (auto simp: ds_def filter_empty_conv)
  have clients: "iface_clients k v = iface_clients k w" for k
    using requests_effect [OF reqs] by (simp add: iface_clients_def calls)
  have "I_initialize \<notin> set (ds k)" for k using reqs by force
  moreover have "interfaces v k = interfaces w k" for k using v(1) by simp
  ultimately have st: "started k v" if "started k w" for k using that none [of k] by (auto simp: started_def calls)
  have "clientData v = clientData w" "interfaces v = interfaces w" "load_failed v = load_failed w" using v(1) by simp_all
  moreover from this have "needed k v = needed k w" for k by (simp add: needed_def)
  ultimately have "knows G k v" if "knows G k w" for k using that by (simp add: knows_def clients)
  then show ?thesis using assms(1) st by (simp add: disp_inv_def v(1))
qed

section \<open>Adding a client to the providers it needs\<close>

text \<open>What one provider sees of the loading and adding.\<close>

definition touched :: "iface \<Rightarrow> ptr \<Rightarrow> api_callbacks \<Rightarrow> LocationAPIData \<Rightarrow> LocationAPIData \<Rightarrow> bool" where
  "touched k a c w v \<longleftrightarrow>
     (if interfaces v k = NULL then load_failed v k \<and> interfaces w k = NULL \<and> calls_to k v = calls_to k w
      else load_failed v k = load_failed w k \<and> (interfaces w k \<noteq> NULL \<longrightarrow> interfaces v k = interfaces w k) \<and>
        (load_failed w k \<longrightarrow> interfaces w k \<noteq> NULL) \<and>
        (\<exists>r \<in> {[], [I_requestCapabilities a]}.
           calls_to k v = calls_to k w @ (if interfaces w k = NULL then [I_initialize] else []) @ [I_addClient a c] @ r))"

definition untouched :: "iface \<Rightarrow> LocationAPIData \<Rightarrow> LocationAPIData \<Rightarrow> bool" where
  "untouched k w v \<longleftrightarrow> interfaces v k = interfaces w k \<and> load_failed v k = load_failed w k \<and> calls_to k v = calls_to k w"

definition same_data :: "LocationAPIData \<Rightarrow> LocationAPIData \<Rightarrow> bool" where
  "same_data w v \<longleftrightarrow> clientData v = clientData w \<and> controlAPI v = controlAPI w \<and> controlCallbacks v = controlCallbacks w \<and>
     live_apis v = live_apis w \<and> live_controls v = live_controls w"

definition added_on :: "iface set \<Rightarrow> ptr \<Rightarrow> api_callbacks \<Rightarrow> LocationAPIData \<Rightarrow> LocationAPIData \<Rightarrow> bool" where
  "added_on K a c w v \<longleftrightarrow> same_data w v \<and>
     (\<forall>k. if k \<in> K \<and> is_client k c then touched k a c w v else untouched k w v)"

lemma ensure_loaded_cases:
  obtains (same) "ensure_loaded env k w = w" "interfaces w k \<noteq> NULL \<or> load_failed w k"
  | (failed) "interfaces w k = NULL" "\<not> load_failed w k" "ensure_loaded env k w = w\<lparr>interfaces := (interfaces w)(k := NULL), load_failed := (load_failed w)(k := True)\<rparr>"
  | (loaded) p where "interfaces w k = NULL" "\<not> load_failed w k" "p \<noteq> NULL"
      "ensure_loaded env k w = call_iface k I_initialize (w\<lparr>interfaces := (interfaces w)(k := p)\<rparr>)"
proof -
  define p where "p = loadLocationInterface env (fst (iface_library k)) (snd (iface_library k))"
  show ?thesis
  proof (cases "interfaces w k = NULL \<and> \<not> load_failed w k")
    case False
    then show ?thesis by (intro same) (auto simp: ensure_loaded_def)
  next
    case True
    show ?thesis
    proof (cases "p = NULL")
      case True
      then show ?thesis using \<open>interfaces w k = NULL \<and> \<not> load_failed w k\<close>
        by (intro failed) (simp_all add: ensure_loaded_def p_def [symmetric])
    next
      case False
      then show ?thesis using True by (intro loaded [of p]) (simp_all add: ensure_loaded_def p_def [symmetric])
    qed
  qed
qed

lemma calls_to_data [simp]:
  "calls_to k (w\<lparr>interfaces := i\<rparr>) = calls_to k w" "calls_to k (w\<lparr>load_failed := l\<rparr>) = calls_to k w"
  "calls_to k (w\<lparr>clientData := m\<rparr>) = calls_to k w" "calls_to k (w\<lparr>live_apis := s\<rparr>) = calls_to k w"
  "calls_to k (w\<lparr>controlAPI := p\<rparr>) = calls_to k w" "calls_to k (w\<lparr>controlCallbacks := cc\<rparr>) = calls_to k w"
  "calls_to k (w\<lparr>live_controls := s\<rparr>) = calls_to k w"
  by (simp_all add: calls_to_def)

lemma update_block_added:
  assumes "load_failed w k \<longrightarrow> interfaces w k = NULL"
  shows "added_on {k} a c w (update_block env a c k w)"
proof (cases "is_client k c")
  case False
  then show ?thesis by (simp add: added_on_def update_block_def same_data_def untouched_def)
next
  case True
  show ?thesis
    by (rule ensure_loaded_cases [of env k w])
      (use True assms in \<open>auto simp: added_on_def update_block_def same_data_def untouched_def touched_def call_iface_def calls_to_def\<close>)
qed

lemma create_block_added:
  assumes "load_failed w k \<longrightarrow> interfaces w k = NULL"
  shows "added_on {k} a c w (snd (create_block env a c k (r, w)))"
proof (cases "is_client k c")
  case False
  then show ?thesis by (simp add: added_on_def create_block_def same_data_def untouched_def)
next
  case True
  show ?thesis
    by (rule ensure_loaded_cases [of env k w]; cases r)
      (use True assms in \<open>auto simp: added_on_def create_block_def same_data_def untouched_def touched_def call_iface_def calls_to_def Let_def\<close>)
qed

lemma added_trans:
  assumes "added_on K a c w v" "added_on {k} a c v u" "k \<notin> K"
  shows "added_on (insert k K) a c w u"
proof -
  have "if j \<in> insert k K \<and> is_client j c then touched j a c w u else untouched j w u" for j
  proof (cases "j = k")
    case True
    then have "untouched j w v" "if is_client j c then touched j a c v u else untouched j v u"
      using assms by (auto simp: added_on_def split: if_splits)
    then show ?thesis using True by (auto simp: touched_def untouched_def split: if_splits)
  next
    case False
    then have "untouched j v u" "if j \<in> K \<and> is_client j c then touched j a c w v else untouched j w v"
      using assms by (auto simp: added_on_def split: if_splits)
    then show ?thesis using False by (auto simp: touched_def untouched_def split: if_splits)
  qed
  moreover have "same_data w u" using assms by (simp add: added_on_def same_data_def)
  ultimately show ?thesis by (simp add: added_on_def)
qed

lemma added_failed:
  "added_on K a c w v \<Longrightarrow> (\<forall>k. load_failed w k \<longrightarrow> interfaces w k = NULL) \<Longrightarrow> load_failed v k \<longrightarrow> interfaces v k = NULL"
  unfolding added_on_def by (cases "k \<in> K \<and> is_client k c") (auto simp: touched_def untouched_def split: if_splits)

lemma iface_all: "k \<in> {Geofence, Flp, Gnss}" by (cases k) simp_all

lemma update_blocks_added:
  assumes failed: "\<forall>k. load_failed w k \<longrightarrow> interfaces w k = NULL"
  shows "added_on {Geofence, Flp, Gnss} a c w (update_block env a c Geofence (update_block env a c Flp (update_block env a c Gnss w)))"
proof -
  define w1 w2 w3 where "w1 = update_block env a c Gnss w" and "w2 = update_block env a c Flp w1"
    and "w3 = update_block env a c Geofence w2"
  have 1: "added_on {Gnss} a c w w1" unfolding w1_def by (rule update_block_added) (use failed in simp)
  have "added_on {Flp} a c w1 w2" unfolding w2_def by (rule update_block_added, rule added_failed [OF 1 failed])
  then have 2: "added_on {Flp, Gnss} a c w w2" by (rule added_trans [OF 1]) simp
  have "added_on {Geofence} a c w2 w3" unfolding w3_def by (rule update_block_added, rule added_failed [OF 2 failed])
  then show ?thesis unfolding w1_def [symmetric] w2_def [symmetric] w3_def [symmetric] by (rule added_trans [OF 2]) simp
qed

lemma create_blocks_added:
  assumes failed: "\<forall>k. load_failed w k \<longrightarrow> interfaces w k = NULL"
  shows "added_on {Geofence, Flp, Gnss} a c w
     (snd (create_block env a c Geofence (create_block env a c Flp (create_block env a c Gnss (r, w)))))"
proof -
  define x1 x2 x3 where "x1 = create_block env a c Gnss (r, w)" and "x2 = create_block env a c Flp x1"
    and "x3 = create_block env a c Geofence x2"
  have 1: "added_on {Gnss} a c w (snd x1)" unfolding x1_def by (rule create_block_added) (use failed in simp)
  have "added_on {Flp} a c (snd x1) (snd x2)" unfolding x2_def
    using create_block_added [of "snd x1" Flp a c env "fst x1"] added_failed [OF 1 failed] by simp
  then have 2: "added_on {Flp, Gnss} a c w (snd x2)" by (rule added_trans [OF 1]) simp
  have "added_on {Geofence} a c (snd x2) (snd x3)" unfolding x3_def
    using create_block_added [of "snd x2" Geofence a c env "fst x2"] added_failed [OF 2 failed] by simp
  then show ?thesis unfolding x1_def [symmetric] x2_def [symmetric] x3_def [symmetric] by (rule added_trans [OF 2]) simp
qed

section \<open>The invariant\<close>

lemma touched_started: "touched k a c w v \<Longrightarrow> started k w \<Longrightarrow> started k v"
  by (auto simp: touched_def started_def split: if_splits)

lemma touched_clients: "touched k a c w v \<Longrightarrow> interfaces v k \<noteq> NULL \<Longrightarrow> iface_clients k v = (iface_clients k w)(a \<mapsto> c)"
  by (auto simp: touched_def iface_clients_def split: if_splits)

lemma touched_none: "touched k a c w v \<Longrightarrow> interfaces v k = NULL \<Longrightarrow> iface_clients k v = iface_clients k w \<and> load_failed v k"
  by (auto simp: touched_def iface_clients_def split: if_splits)

lemma untouched_clients: "untouched k w v \<Longrightarrow> iface_clients k v = iface_clients k w"
  by (simp add: untouched_def iface_clients_def)

lemma not_loaded_clients: "started k w \<Longrightarrow> interfaces w k = NULL \<Longrightarrow> iface_clients k w a = None"
  by (simp add: started_def iface_clients_def)

text \<open>A client gets the callbacks \<open>c\<close>, and the providers hear of it.\<close>

lemma put_knows:
  assumes old: "knows G k w" and st: "started k w"
    and data: "needed k v = (needed k w)(a := if is_client k c then Some c else None)"
    and eff: "if is_client k c then touched k a c w v else untouched k w v"
    and more: "H k = (if \<not> is_client k c \<and> interfaces w k \<noteq> NULL \<and> needed k w a \<noteq> None then (G k)(a := needed k w a) else G k)"
  shows "knows H k v"
proof (cases "is_client k c")
  case True
  then have t: "touched k a c w v" using eff by simp
  have H: "H k = G k" using more True by simp
  show ?thesis
  proof (cases "interfaces v k = NULL")
    case False
    have loaded: "interfaces w k = NULL \<Longrightarrow> \<not> load_failed w k" using t False by (auto simp: touched_def)
    have "iface_clients k w = G k ++ needed k w"
    proof (cases "interfaces w k = NULL")
      case True
      then have "G k = Map.empty" "needed k w = Map.empty" using old loaded by (auto simp: knows_def)
      moreover have "iface_clients k w = Map.empty" using not_loaded_clients [OF st True] by (simp add: fun_eq_iff)
      ultimately show ?thesis by simp
    qed (use old in \<open>simp add: knows_def\<close>)
    then show ?thesis using False True H unfolding knows_def data touched_clients [OF t False] by simp
  next
    case none: True
    have wn: "interfaces w k = NULL" using t none by (simp add: touched_def)
    then have "G k = Map.empty" using old by (simp add: knows_def)
    then show ?thesis using touched_none [OF t none] none H unfolding knows_def by simp
  qed
next
  case False
  then have u: "untouched k w v" using eff by simp
  have i: "interfaces v k = interfaces w k" "load_failed v k = load_failed w k" using u by (simp_all add: untouched_def)
  have gone: "needed k v = (needed k w)(a := None)" using data False by simp
  show ?thesis
  proof (cases "interfaces w k = NULL")
    case True
    then have "H k = Map.empty" using old more by (simp add: knows_def)
    moreover have "needed k w = Map.empty \<Longrightarrow> needed k v = Map.empty" using gone by simp
    ultimately show ?thesis using True old i unfolding knows_def by auto
  next
    case loaded: False
    have "G k ++ needed k w = H k ++ needed k v"
      using more False loaded gone by (auto simp: fun_eq_iff map_add_def split: option.splits)
    then show ?thesis using old loaded unfolding knows_def untouched_clients [OF u] i by simp
  qed
qed

lemma put_inv:
  assumes inv: "disp_inv G w" and a: "a \<noteq> NULL"
    and add: "\<And>k. if is_client k c then touched k a c w v else untouched k w v"
    and more: "\<And>k. H k = (if \<not> is_client k c \<and> interfaces w k \<noteq> NULL \<and> needed k w a \<noteq> None then (G k)(a := needed k w a) else G k)"
    and data: "clientData v = sm_put a c (clientData w)" "live_apis v = insert a (live_apis w)"
      "controlAPI v = controlAPI w" "live_controls v = live_controls w"
  shows "disp_inv H v"
proof -
  have w: "sm_ok (clientData w)" "dom (sm_find (clientData w)) = live_apis w" "NULL \<notin> live_apis w"
    "live_controls w = (if controlAPI w = NULL then {} else {controlAPI w})"
    "\<And>k. load_failed w k \<longrightarrow> interfaces w k = NULL" "\<And>k. started k w" "\<And>k. knows G k w"
    using inv by (simp_all add: disp_inv_def)
  have "load_failed v k \<longrightarrow> interfaces v k = NULL" for k
    using add [of k] w(5) [of k] by (auto simp: touched_def untouched_def split: if_splits)
  moreover have "started k v" for k
  proof (cases "is_client k c")
    case True
    then show ?thesis using touched_started [OF _ w(6)] add [of k] by simp
  next
    case False
    then show ?thesis using w(6) [of k] add [of k] by (simp add: untouched_def started_def)
  qed
  moreover have "knows H k v" for k by (rule put_knows [OF w(7,6) _ add more]) (auto simp: data needed_def fun_eq_iff)
  ultimately show ?thesis using w(1-4) a by (auto simp: disp_inv_def data smi.ok_put)
qed

lemma create_inv:
  assumes "disp_inv G w" "p \<noteq> NULL" "p \<notin> live_apis w"
  shows "disp_inv G (snd (api_createInstance env p c w))"
proof (cases "mandatory c")
  case True
  define w0 where "w0 = w\<lparr>live_apis := insert p (live_apis w)\<rparr>"
  define v where "v = snd (create_block env p c Geofence (create_block env p c Flp (create_block env p c Gnss (False, w0))))"
  have eq: "snd (api_createInstance env p c w) = v\<lparr>clientData := sm_put p c (clientData v)\<rparr>"
    using True by (simp add: api_createInstance_def v_def w0_def Let_def split: prod.splits)
  have "added_on {Geofence, Flp, Gnss} p c w0 v"
    unfolding v_def by (rule create_blocks_added) (use assms(1) in \<open>simp add: disp_inv_def w0_def\<close>)
  then have add: "if is_client k c then touched k p c w0 v else untouched k w0 v" and sd: "same_data w0 v" for k
    using iface_all [of k] by (simp_all add: added_on_def split: if_splits)
  have "p \<notin> dom (sm_find (clientData w))" using assms by (simp add: disp_inv_def)
  then have fresh: "sm_find (clientData w) p = None" by auto
  show ?thesis unfolding eq
  proof (rule put_inv [OF assms(1,2), where c = c])
    show "G k = (if \<not> is_client k c \<and> interfaces w k \<noteq> NULL \<and> needed k w p \<noteq> None then (G k)(p := needed k w p) else G k)" for k
      using fresh by (simp add: needed_def)
    show "if is_client k c then touched k p c w (v\<lparr>clientData := sm_put p c (clientData v)\<rparr>)
          else untouched k w (v\<lparr>clientData := sm_put p c (clientData v)\<rparr>)" for k
      using add [of k] by (simp add: touched_def untouched_def w0_def cong: if_cong)
  qed (use sd fresh in \<open>simp_all add: same_data_def w0_def\<close>)
qed (simp add: api_createInstance_def assms)

lemma update_inv:
  assumes "disp_inv G w" "a \<in> live_apis w"
  shows "disp_inv (dangle (D_update env a c) w G) (api_updateCallbacks env a c w)"
proof (cases "mandatory c")
  case True
  define v where "v = update_block env a c Geofence (update_block env a c Flp (update_block env a c Gnss w))"
  have eq: "api_updateCallbacks env a c w = v\<lparr>clientData := sm_put a c (clientData v)\<rparr>"
    using True by (simp add: api_updateCallbacks_def v_def Let_def)
  have "added_on {Geofence, Flp, Gnss} a c w v"
    unfolding v_def by (rule update_blocks_added) (use assms(1) in \<open>simp add: disp_inv_def\<close>)
  then have add: "if is_client k c then touched k a c w v else untouched k w v" and sd: "same_data w v" for k
    using iface_all [of k] by (simp_all add: added_on_def split: if_splits)
  have a: "a \<noteq> NULL" using assms by (auto simp: disp_inv_def)
  show ?thesis unfolding eq
  proof (rule put_inv [OF assms(1) a, where c = c])
    show "if is_client k c then touched k a c w (v\<lparr>clientData := sm_put a c (clientData v)\<rparr>)
          else untouched k w (v\<lparr>clientData := sm_put a c (clientData v)\<rparr>)" for k
      using add [of k] by (simp add: touched_def untouched_def cong: if_cong)
    show "dangle (D_update env a c) w G k =
        (if \<not> is_client k c \<and> interfaces w k \<noteq> NULL \<and> needed k w a \<noteq> None then (G k)(a := needed k w a) else G k)" for k
      using True by simp
  qed (use sd assms(2) in \<open>auto simp: same_data_def\<close>)
qed (simp add: api_updateCallbacks_def assms)

text \<open>Destroying.\<close>

lemma remove_block_calls:
  "calls_to j (remove_block a c k w) = calls_to j w @ (if j = k \<and> is_client k c \<and> interfaces w k \<noteq> NULL then [I_removeClient a] else [])"
  by (simp add: remove_block_def)

lemma remove_block_fields [simp]:
  "clientData (remove_block a c k w) = clientData w" "interfaces (remove_block a c k w) = interfaces w"
  "load_failed (remove_block a c k w) = load_failed w" "live_apis (remove_block a c k w) = live_apis w"
  "live_controls (remove_block a c k w) = live_controls w" "controlAPI (remove_block a c k w) = controlAPI w"
  by (simp_all add: remove_block_def)

lemma destroy_effect:
  assumes "disp_inv G w" "a \<in> live_apis w"
  obtains c v where "sm_find (clientData w) a = Some c" "api_destroy a w = Some v"
    "clientData v = sm_erase a (clientData w)" "live_apis v = live_apis w - {a}" "interfaces v = interfaces w"
    "load_failed v = load_failed w" "live_controls v = live_controls w" "controlAPI v = controlAPI w"
    "\<And>k. calls_to k v = calls_to k w @ (if is_client k c \<and> interfaces w k \<noteq> NULL then [I_removeClient a] else [])"
proof -
  have "a \<in> dom (sm_find (clientData w))" using assms by (simp add: disp_inv_def)
  then obtain c where c: "sm_find (clientData w) a = Some c" by auto
  define u where "u = remove_block a c Geofence (remove_block a c Flp (remove_block a c Gnss w))"
  define v where "v = u\<lparr>clientData := sm_erase a (clientData u), live_apis := live_apis u - {a}\<rparr>"
  have eq: "api_destroy a w = Some v" using assms(2) c by (simp add: api_destroy_def v_def u_def Let_def)
  have "calls_to k u = calls_to k w @ (if is_client k c \<and> interfaces w k \<noteq> NULL then [I_removeClient a] else [])" for k
    using iface_all [of k] by (auto simp: u_def remove_block_calls)
  then show ?thesis by (intro that [OF c eq]) (simp_all add: v_def u_def)
qed

lemma destroy_inv:
  assumes inv: "disp_inv G w" and a: "a \<in> live_apis w"
  shows "\<exists>v. api_destroy a w = Some v \<and> disp_inv (dangle (D_destroy a) w G) v"
proof -
  have w: "sm_ok (clientData w)" "dom (sm_find (clientData w)) = live_apis w" "NULL \<notin> live_apis w"
    "live_controls w = (if controlAPI w = NULL then {} else {controlAPI w})"
    "\<And>k. load_failed w k \<longrightarrow> interfaces w k = NULL" "\<And>k. started k w" "\<And>k. knows G k w"
    using inv by (simp_all add: disp_inv_def)
  obtain c v where v: "sm_find (clientData w) a = Some c" "api_destroy a w = Some v"
    "clientData v = sm_erase a (clientData w)" "live_apis v = live_apis w - {a}" "interfaces v = interfaces w"
    "load_failed v = load_failed w" "live_controls v = live_controls w" "controlAPI v = controlAPI w"
    "\<And>k. calls_to k v = calls_to k w @ (if is_client k c \<and> interfaces w k \<noteq> NULL then [I_removeClient a] else [])"
    using destroy_effect [OF inv a] by blast
  have find: "sm_find (clientData v) = (sm_find (clientData w))(a := None)" by (simp add: v(3) sm_find_erase [OF w(1)])
  have clients: "iface_clients k v = (if is_client k c \<and> interfaces w k \<noteq> NULL then (iface_clients k w)(a := None) else iface_clients k w)" for k
    by (simp add: iface_clients_def v(9))
  have "started k v" for k using w(6) [of k] by (auto simp: started_def v(5,9))
  moreover have "knows (dangle (D_destroy a) w G) k v" for k
  proof -
    have gone: "needed k v = (needed k w)(a := None)" by (simp add: needed_def find fun_eq_iff)
    have now: "needed k w a \<noteq> None \<longleftrightarrow> is_client k c" by (simp add: needed_def v(1))
    show ?thesis
    proof (cases "interfaces w k = NULL")
      case True
      then show ?thesis using w(7) [of k] gone by (auto simp: knows_def v(5,6))
    next
      case False
      then have "iface_clients k w = G k ++ needed k w" using w(7) [of k] by (simp add: knows_def)
      moreover have "(G k ++ needed k w)(a := None) = (G k)(a := None) ++ (needed k w)(a := None)"
        by (auto simp: fun_eq_iff map_add_def split: option.splits)
      moreover have "(needed k w)(a := None) = needed k w" if "needed k w a = None" using that by (simp add: fun_eq_iff)
      ultimately show ?thesis using False now gone unfolding knows_def v(5) clients by auto
    qed
  qed
  ultimately show ?thesis using w v(2-8) find by (auto simp: disp_inv_def smi.ok_erase)
qed

text \<open>The control object.\<close>

lemma ensure_loaded_calls:
  "calls_to j (ensure_loaded env k w) =
     calls_to j w @ (if j = k \<and> interfaces w k = NULL \<and> interfaces (ensure_loaded env k w) k \<noteq> NULL then [I_initialize] else [])"
  by (rule ensure_loaded_cases [of env k w]) auto

lemma ensure_loaded_inv:
  assumes "disp_inv G w"
  shows "disp_inv G (ensure_loaded env k w)"
proof (rule ensure_loaded_cases [of env k w])
  assume "ensure_loaded env k w = w"
  then show ?thesis using assms by simp
next
  assume e: "interfaces w k = NULL" "\<not> load_failed w k"
    "ensure_loaded env k w = w\<lparr>interfaces := (interfaces w)(k := NULL), load_failed := (load_failed w)(k := True)\<rparr>"
  define v where "v = w\<lparr>interfaces := (interfaces w)(k := NULL), load_failed := (load_failed w)(k := True)\<rparr>"
  have st: "started j w" and kn: "knows G j w" for j using assms by (simp_all add: disp_inv_def)
  have same: "interfaces v = interfaces w" using e(1) by (auto simp: v_def)
  have clients: "iface_clients j v = iface_clients j w" for j by (simp add: v_def iface_clients_def)
  have "started j v" for j using st [of j] by (simp add: started_def same) (simp add: v_def)
  moreover have "knows G j v" for j
    using kn [of j] unfolding knows_def clients same by (auto simp: v_def needed_def)
  ultimately show ?thesis using assms same e(1) unfolding e(3) v_def [symmetric] by (auto simp: disp_inv_def v_def)
next
  fix p
  assume e: "interfaces w k = NULL" "\<not> load_failed w k" "p \<noteq> NULL"
    "ensure_loaded env k w = call_iface k I_initialize (w\<lparr>interfaces := (interfaces w)(k := p)\<rparr>)"
  define v where "v = call_iface k I_initialize (w\<lparr>interfaces := (interfaces w)(k := p)\<rparr>)"
  have st: "started j w" and kn: "knows G j w" for j using assms by (simp_all add: disp_inv_def)
  have clients: "iface_clients j v = iface_clients j w" for j by (simp add: v_def iface_clients_def)
  have "started j v" for j using st [of j] e by (auto simp: started_def v_def)
  moreover have "knows G j v" for j
  proof -
    have n: "needed j v = needed j w" by (simp add: v_def needed_def)
    show ?thesis
    proof (cases "j = k")
      case True
      have "iface_clients k w = Map.empty" using not_loaded_clients [OF st e(1)] by (simp add: fun_eq_iff)
      then show ?thesis using kn [of k] e(1,2) True n unfolding knows_def clients by (simp add: v_def e(3))
    next
      case False
      then show ?thesis using kn [of j] n unfolding knows_def clients by (simp add: v_def)
    qed
  qed
  ultimately show ?thesis using assms e(1,2) unfolding e(4) v_def [symmetric] by (auto simp: disp_inv_def v_def)
qed

lemma control_create_inv:
  assumes inv: "disp_inv G w" and p: "p \<noteq> NULL"
  shows "disp_inv G (snd (control_createInstance env p c w))"
proof -
  define v where "v = ensure_loaded env Gnss w"
  have v: "disp_inv G v" unfolding v_def by (rule ensure_loaded_inv [OF inv])
  have same: "controlAPI v = controlAPI w"
    unfolding v_def by (rule ensure_loaded_cases [of env Gnss w]) auto
  show ?thesis
  proof (cases "ctl_responseCb c \<noteq> None \<and> controlAPI w = NULL")
    case False
    then have "snd (control_createInstance env p c w) = w" unfolding control_createInstance_def by (simp only: if_False snd_conv)
    then show ?thesis using inv by simp
  next
    case True
    show ?thesis
    proof (cases "interfaces v Gnss = NULL")
      case none: True
      have "snd (control_createInstance env p c w) = v" using True none by (simp add: control_createInstance_def v_def Let_def)
      then show ?thesis using v by simp
    next
      case False
      define u where "u = v\<lparr>controlAPI := p, controlCallbacks := c, live_controls := insert p (live_controls v)\<rparr>"
      have "snd (control_createInstance env p c w) = call_iface Gnss (I_setControlCallbacks c) u"
        using True False by (simp add: control_createInstance_def v_def u_def Let_def)
      moreover have "disp_inv G u"
      proof -
        have "started k u = started k v" "knows G k u = knows G k v" for k
          by (simp_all add: started_def knows_def needed_def iface_clients_def u_def)
        then show ?thesis using v True same p by (simp add: disp_inv_def u_def)
      qed
      moreover have "requested u (call_iface Gnss (I_setControlCallbacks c) u)"
        by (rule requested_call) (use False in \<open>simp_all add: u_def\<close>)
      ultimately show ?thesis using requested_inv by simp
    qed
  qed
qed

lemma control_destroy_inv:
  assumes inv: "disp_inv G w" and a: "a \<in> live_controls w"
  shows "\<exists>v. control_destroy a w = Some v \<and> disp_inv G v"
proof -
  let ?v = "w\<lparr>controlAPI := NULL, live_controls := live_controls w - {a}\<rparr>"
  have "started k ?v = started k w" "knows G k ?v = knows G k w" for k
    by (simp_all add: started_def knows_def needed_def iface_clients_def)
  then have "disp_inv G ?v" using inv a by (auto simp: disp_inv_def split: if_splits)
  then show ?thesis using a by (simp add: control_destroy_def)
qed

lemma disp_do_inv:
  assumes inv: "disp_inv G w" and ok: "disp_ok x w"
  shows "\<exists>v. disp_do x w = Some v \<and> disp_inv (dangle x w G) v"
proof (cases "is_request_act x")
  case True
  then have "dangle x w G = G" by (cases x) simp_all
  then show ?thesis using request_step [OF True] requested_inv [OF inv] by metis
next
  case False
  then show ?thesis using ok create_inv [OF inv] update_inv [OF inv] destroy_inv [OF inv] control_create_inv [OF inv]
      control_destroy_inv [OF inv] by (cases x) (simp_all del: dangle.simps(1,2))
qed

lemma gData_inv: "disp_inv (\<lambda>k. Map.empty) gData"
  by (simp add: disp_inv_def gData_def started_def knows_def needed_def iface_clients_def calls_to_def fun_eq_iff)

lemma gData_good: "disp_good gData"
  using gData_inv by (auto simp: disp_good_def)

interpretation disp: guarded_system disp_do disp_ok disp_good disp_history
proof
  show "disp_good w \<Longrightarrow> disp_ok x w \<Longrightarrow> \<exists>v. disp_do x w = Some v \<and> disp_good v" for w x
    unfolding disp_good_def using disp_do_inv by metis
qed simp_all

lemma disp_history_inv:
  "disp_inv G w \<Longrightarrow> \<exists>v. disp_history xs w = Some v \<and> disp_inv (dangling xs w G) v"
proof (induction xs arbitrary: w G)
  case (Cons x xs)
  show ?case
  proof (cases "disp_ok x w")
    case True
    obtain v where v: "disp_do x w = Some v" "disp_inv (dangle x w G) v" using disp_do_inv [OF Cons.prems True] by blast
    then show ?thesis using Cons.IH [OF v(2)] True by simp
  qed (use Cons in simp)
qed simp

section \<open>A provider that is loaded stays\<close>

lemma added_stays:
  "added_on K a c w v \<Longrightarrow> interfaces w k \<noteq> NULL \<Longrightarrow> interfaces v k = interfaces w k"
  by (cases "k \<in> K \<and> is_client k c") (auto simp: added_on_def touched_def untouched_def split: if_splits)

lemma ensure_stays: "interfaces w k \<noteq> NULL \<Longrightarrow> interfaces (ensure_loaded env j w) k = interfaces w k"
  by (rule ensure_loaded_cases [of env j w]) auto

lemma create_stays:
  assumes "\<forall>k. load_failed w k \<longrightarrow> interfaces w k = NULL" "interfaces w k \<noteq> NULL"
  shows "interfaces (snd (api_createInstance env p c w)) k = interfaces w k"
proof -
  define w0 where "w0 = w\<lparr>live_apis := insert p (live_apis w)\<rparr>"
  have "added_on {Geofence, Flp, Gnss} p c w0
      (snd (create_block env p c Geofence (create_block env p c Flp (create_block env p c Gnss (False, w0)))))"
    by (rule create_blocks_added) (use assms in \<open>simp add: w0_def\<close>)
  then have "interfaces (snd (create_block env p c Geofence (create_block env p c Flp (create_block env p c Gnss (False, w0))))) k = interfaces w0 k"
    by (rule added_stays) (use assms in \<open>simp add: w0_def\<close>)
  then show ?thesis by (auto simp: api_createInstance_def w0_def Let_def split: prod.splits)
qed

lemma update_stays:
  assumes "\<forall>k. load_failed w k \<longrightarrow> interfaces w k = NULL" "interfaces w k \<noteq> NULL"
  shows "interfaces (api_updateCallbacks env a c w) k = interfaces w k"
  using added_stays [OF update_blocks_added [OF assms(1)] assms(2)] by (simp add: api_updateCallbacks_def Let_def)

lemma step_stays:
  assumes inv: "disp_inv G w" and ok: "disp_ok x w" and step: "disp_do x w = Some v" and k: "interfaces w k \<noteq> NULL"
  shows "interfaces v k = interfaces w k"
proof (cases "is_request_act x")
  case True
  then show ?thesis using request_step [OF True, of w] step by (auto simp: requested_def)
next
  case False
  have failed: "\<forall>k. load_failed w k \<longrightarrow> interfaces w k = NULL" using inv by (simp add: disp_inv_def)
  show ?thesis
  proof (cases x)
    case (D_create env p c)
    then show ?thesis using create_stays [OF failed k] step by auto
  next
    case (D_destroy a)
    then show ?thesis using destroy_effect [OF inv, of a] ok step by (metis disp_do.simps(2) disp_ok.simps(2) option.inject)
  next
    case (D_update env a c)
    then show ?thesis using update_stays [OF failed k] step by auto
  next
    case (D_control_create env p c)
    then have v: "v = snd (control_createInstance env p c w)" using step by simp
    show ?thesis unfolding v using ensure_stays [OF k, of env Gnss] by (simp add: control_createInstance_def Let_def)
  next
    case (D_control_destroy a)
    then show ?thesis using step by (auto simp: control_destroy_def split: if_splits)
  qed (use False in simp_all)
qed

lemma history_stays:
  assumes "disp_good w" "interfaces w k \<noteq> NULL" "disp_history xs w = Some v"
  shows "interfaces v k = interfaces w k \<and> disp_good v"
proof -
  have "\<exists>v. disp_history xs w = Some v \<and> disp_good v \<and> interfaces v k = interfaces w k"
    by (rule disp.history_keeps [OF assms(1), where R = "\<lambda>v. interfaces v k = interfaces w k"])
      (use step_stays assms(2) in \<open>auto simp: disp_good_def\<close>)
  then show ?thesis using assms(3) by auto
qed

lemma good_dom: "disp_good w \<Longrightarrow> dom (sm_find (clientData w)) = live_apis w"
  by (auto simp: disp_good_def disp_inv_def)

section \<open>What every history guarantees\<close>

text \<open>
  C5: The providers' clients. Over every history of entry points on live objects, updates of any
  callbacks included, no entry point faults; a provider that could not be loaded is never called; and
  the clients of a loaded provider are exactly the live objects that need it, each with its latest
  callbacks, and the dangling ones: the objects that gave up the provider's kind of callback in an
  update, each with the callbacks it had then, until it is destroyed at a time it needs the provider
  again.
\<close>

theorem providers_know_live_clients:
  "\<exists>w. disp_history xs gData = Some w \<and> dom (sm_find (clientData w)) = live_apis w \<and>
     (\<forall>k. if interfaces w k = NULL then calls_to k w = []
          else iface_clients k w = dangling xs gData (\<lambda>k. Map.empty) k ++
            (\<lambda>a. case sm_find (clientData w) a of Some c \<Rightarrow> if is_client k c then Some c else None | None \<Rightarrow> None))"
proof -
  obtain w where w: "disp_history xs gData = Some w" "disp_inv (dangling xs gData (\<lambda>k. Map.empty)) w"
    using disp_history_inv [OF gData_inv] by blast
  then have "if interfaces w k = NULL then calls_to k w = []
      else iface_clients k w = dangling xs gData (\<lambda>k. Map.empty) k ++ needed k w" for k
    by (auto simp: disp_inv_def started_def knows_def split: if_splits)
  then show ?thesis using w unfolding needed_def by (intro exI [of _ w]) (auto simp: disp_inv_def)
qed

text \<open>
  Stopping reaches the session. Whatever happened before, \<open>startTracking\<close> on a live client asks
  one provider, or none and then returns 0; and after any further history in which the client is still
  alive, \<open>stopTracking\<close> calls the provider that was asked.
\<close>

theorem tracking_stop_reaches_start:
  assumes "disp_history xs gData = Some w" "a \<in> live_apis w" "api_startTracking answer a opts w = (sid, w1)"
    "disp_history ys w1 = Some w2" "a \<in> live_apis w2"
  shows "(interfaces w Flp = NULL \<and> interfaces w Gnss = NULL \<and> sid = 0 \<and> w1 = w) \<or>
     (\<exists>k. sid = answer \<and> w1 = call_iface k (I_startTracking a opts) w \<and>
        (\<exists>cs. iface_log (api_stopTracking a sid w2) = iface_log w2 @ cs \<and> (k, I_stopTracking a sid) \<in> set cs))"
proof -
  have good: "disp_good w" using disp.history [OF gData_good, of xs] assms(1) by auto
  then obtain G where inv: "disp_inv G w" by (auto simp: disp_good_def)
  have "a \<in> dom (sm_find (clientData w))" using assms(2) good_dom [OF good] by simp
  then obtain c where c: "sm_find (clientData w) a = Some c" by auto
  have inv1: "disp_good w1" using requested_inv [OF inv requested_start, of answer a opts] assms(3) by (auto simp: disp_good_def)
  show ?thesis
  proof (cases "tracking_target c opts w")
    case None
    then show ?thesis using assms(3) c by (auto simp: api_startTracking_def tracking_target_def split: if_splits)
  next
    case (Some k)
    then have start: "sid = answer" "w1 = call_iface k (I_startTracking a opts) w" using assms(3) c by (simp_all add: api_startTracking_def)
    have k: "interfaces w k \<noteq> NULL" "k = Gnss \<or> k = Flp" using Some by (auto simp: tracking_target_def split: if_splits)
    have w2: "interfaces w2 k \<noteq> NULL" "disp_good w2"
      using history_stays [OF inv1 _ assms(4), of k] k(1) start(2) by simp_all
    then have "a \<in> dom (sm_find (clientData w2))" using assms(5) good_dom by simp
    then obtain c2 where "sm_find (clientData w2) a = Some c2" by auto
    then have "\<exists>cs. iface_log (api_stopTracking a sid w2) = iface_log w2 @ cs \<and> (k, I_stopTracking a sid) \<in> set cs"
      using w2(1) k(2) by (auto simp: api_stopTracking_def if_loaded_def call_iface_def)
    then show ?thesis using start by blast
  qed
qed

text \<open>
  A client that gives up a kind of callback stays with the provider. When a live client that a
  provider knows is updated to callbacks that do not need this provider, the provider keeps the old
  callbacks; and when the client is then destroyed, the provider is not told and keeps the object that
  no longer exists.
\<close>

theorem dropped_callbacks_dangle:
  assumes "disp_history xs gData = Some w" "sm_find (clientData w) a = Some old" "interfaces w k \<noteq> NULL"
    "is_client k old" "mandatory new" "\<not> is_client k new"
  shows "\<exists>v. api_destroy a (api_updateCallbacks env a new w) = Some v \<and> a \<notin> live_apis v \<and>
     sm_find (clientData v) a = None \<and> iface_clients k v a = Some old"
proof -
  obtain G where inv: "disp_inv G w" using disp.history [OF gData_good, of xs] assms(1) by (auto simp: disp_good_def)
  then have a: "a \<in> live_apis w" using assms(2) by (auto simp: disp_inv_def)
  have known: "iface_clients k w a = Some old" using inv assms(2-4) by (simp add: disp_inv_def knows_def needed_def map_add_def)
  define v where "v = update_block env a new Geofence (update_block env a new Flp (update_block env a new Gnss w))"
  define u where "u = api_updateCallbacks env a new w"
  have u: "u = v\<lparr>clientData := sm_put a new (clientData v)\<rparr>"
    using assms(5) by (simp add: u_def api_updateCallbacks_def v_def Let_def)
  have "added_on {Geofence, Flp, Gnss} a new w v" unfolding v_def by (rule update_blocks_added) (use inv in \<open>simp add: disp_inv_def\<close>)
  then have "untouched k w v" "same_data w v" using assms(6) by (auto simp: added_on_def split: if_splits)
  then have uk: "iface_clients k u a = Some old" and live: "a \<in> live_apis u"
    using known a by (simp_all add: untouched_def iface_clients_def u same_data_def)
  have iu: "disp_inv (dangle (D_update env a new) w G) u" unfolding u_def by (rule update_inv [OF inv a])
  obtain c t where t: "sm_find (clientData u) a = Some c" "api_destroy a u = Some t" "clientData t = sm_erase a (clientData u)"
    "live_apis t = live_apis u - {a}" "interfaces t = interfaces u"
    "load_failed t = load_failed u" "live_controls t = live_controls u" "controlAPI t = controlAPI u"
    "\<And>k. calls_to k t = calls_to k u @ (if is_client k c \<and> interfaces u k \<noteq> NULL then [I_removeClient a] else [])"
    using destroy_effect [OF iu live] by blast
  have "c = new" using t(1) by (simp add: u)
  then have "iface_clients k t a = Some old" using uk assms(6) by (simp add: iface_clients_def t(9))
  moreover have "sm_find (clientData t) a = None" using iu by (simp add: t(3) sm_find_erase disp_inv_def)
  ultimately show ?thesis using t(2,4) unfolding u_def by auto
qed

definition example_env :: dl_env where
  "example_env = \<lparr>dl_open = (\<lambda>l. if l = ''libflp.so'' then NULL else 7), dl_open_error = (\<lambda>l. False),
     dl_sym = (\<lambda>l n. 8), dl_sym_error = (\<lambda>l n. False), dl_get = (\<lambda>p. 9)\<rparr>"

definition mandatory_only :: api_callbacks where
  "mandatory_only = \<lparr>capabilitiesCb = Some 1, responseCb = Some 2, collectiveResponseCb = Some 3, trackingCb = None, batchingCb = None,
     geofenceBreachCb = None, geofenceStatusCb = None, gnssLocationInfoCb = None, gnssNiCb = None, gnssSvCb = None, gnssNmeaCb = None,
     gnssMeasurementsCb = None, batchingStatusCb = None\<rparr>"

definition with_geofences :: api_callbacks where
  "with_geofences = mandatory_only\<lparr>trackingCb := Some 4, geofenceBreachCb := Some 5\<rparr>"

lemmas example_simps = example_env_def mandatory_only_def with_geofences_def api_createInstance_def create_block_def
  ensure_loaded_def loadLocationInterface_def call_iface_def gData_def mandatory_def isGnssClient_def isFlpClient_def
  isGeofenceClient_def

definition example_state :: LocationAPIData where
  "example_state = the (disp_history [D_create example_env 2 with_geofences] gData)"

lemma example_state:
  "disp_history [D_create example_env 2 with_geofences] gData = Some example_state"
  "sm_find (clientData example_state) 2 = Some with_geofences" "live_apis example_state = {2}"
  "interfaces example_state Geofence = 9" "interfaces example_state Gnss = 9" "interfaces example_state Flp = NULL"
  by (simp_all add: example_state_def example_simps)

theorem dropped_callbacks_dangle_witness:
  "\<exists>v. api_destroy 2 (api_updateCallbacks example_env 2 (mandatory_only\<lparr>trackingCb := Some 4\<rparr>) example_state) = Some v \<and> 2 \<notin> live_apis v \<and>
     sm_find (clientData v) 2 = None \<and> iface_clients Geofence v 2 = Some with_geofences"
  by (rule dropped_callbacks_dangle [OF example_state(1,2)])
    (simp_all add: example_state with_geofences_def mandatory_only_def isGeofenceClient_def mandatory_def)

theorem tracking_stop_reaches_start_witness:
  "(interfaces example_state Flp = NULL \<and> interfaces example_state Gnss = NULL \<and> (5 :: 32 word) = 0 \<and>
      call_iface Gnss (I_startTracking 2 \<lparr>trk_size = 16, trk_minInterval = 1000, trk_minDistance = 0, trk_mode = 0\<rparr>) example_state = example_state) \<or>
     (\<exists>k. (5 :: 32 word) = 5 \<and> call_iface Gnss (I_startTracking 2 \<lparr>trk_size = 16, trk_minInterval = 1000, trk_minDistance = 0, trk_mode = 0\<rparr>) example_state
          = call_iface k (I_startTracking 2 \<lparr>trk_size = 16, trk_minInterval = 1000, trk_minDistance = 0, trk_mode = 0\<rparr>) example_state \<and>
        (\<exists>cs. iface_log (api_stopTracking 2 5 (api_stopTracking 2 4 (call_iface Gnss (I_startTracking 2 \<lparr>trk_size = 16, trk_minInterval = 1000, trk_minDistance = 0, trk_mode = 0\<rparr>) example_state)))
              = iface_log (api_stopTracking 2 4 (call_iface Gnss (I_startTracking 2 \<lparr>trk_size = 16, trk_minInterval = 1000, trk_minDistance = 0, trk_mode = 0\<rparr>) example_state)) @ cs \<and>
           (k, I_stopTracking 2 5) \<in> set cs))"
proof (rule tracking_stop_reaches_start [OF example_state(1)])
  show "api_startTracking 5 2 \<lparr>trk_size = 16, trk_minInterval = 1000, trk_minDistance = 0, trk_mode = 0\<rparr> example_state =
      (5, call_iface Gnss (I_startTracking 2 \<lparr>trk_size = 16, trk_minInterval = 1000, trk_minDistance = 0, trk_mode = 0\<rparr>) example_state)"
    by (simp add: api_startTracking_def tracking_target_def example_state with_geofences_def mandatory_only_def)
  show "disp_history [D_stopTracking 2 4] (call_iface Gnss (I_startTracking 2 \<lparr>trk_size = 16, trk_minInterval = 1000, trk_minDistance = 0, trk_mode = 0\<rparr>) example_state)
      = Some (api_stopTracking 2 4 (call_iface Gnss (I_startTracking 2 \<lparr>trk_size = 16, trk_minInterval = 1000, trk_minDistance = 0, trk_mode = 0\<rparr>) example_state))"
    by simp
qed (simp_all add: example_state api_stopTracking_def if_loaded_def)

text \<open>
  A client with only a satellite callback wants tracking through the GNSS provider, and is sent there,
  but it is no client of that provider: it is never added, and nothing is loaded for it.
\<close>

lemma satellite_only_not_a_client:
  "needsGnssTrackingInfo (mandatory_only\<lparr>gnssSvCb := Some 6\<rparr>) \<and> (\<forall>k. \<not> is_client k (mandatory_only\<lparr>gnssSvCb := Some 6\<rparr>))"
proof -
  have "\<not> is_client k (mandatory_only\<lparr>gnssSvCb := Some 6\<rparr>)" for k
    by (cases k) (simp_all add: isGnssClient_def isFlpClient_def isGeofenceClient_def mandatory_only_def)
  then show ?thesis by (simp add: needsGnssTrackingInfo_def)
qed

end
