(* ===== verification/LocStack.thy ===== *)
theory LocStack
  imports LocDispatchProofs GnssAdapterHistories
begin

text \<open>
  The dispatcher of the location API and the GNSS adapter put together, through the glue of
  \<open>gps/gnss/location_gnss.cpp\<close>. The dispatcher's calls become commands of the adapter, which posts
  messages to itself; the message task and the engine's events interleave with the entry points.
\<close>

section \<open>The glue\<close>

text \<open>\<open>gGnssAdapter\<close> is there after \<open>initialize\<close>.\<close>

type_synonym gnss_glue = "gnss_adapter option"

definition glue_initialize :: "gnss_glue \<Rightarrow> gnss_glue" where
  "glue_initialize g = (case g of None \<Rightarrow> Some GnssAdapter | Some a \<Rightarrow> g)"

definition glue_addClient :: "client \<Rightarrow> LocationCallbacks \<Rightarrow> gnss_glue \<Rightarrow> gnss_glue" where
  "glue_addClient c cb g = (case g of None \<Rightarrow> None | Some a \<Rightarrow> Some (addClientCommand c cb a))"

definition glue_removeClient :: "client \<Rightarrow> gnss_glue \<Rightarrow> gnss_glue" where
  "glue_removeClient c g = (case g of None \<Rightarrow> None | Some a \<Rightarrow> Some (removeClientCommand c a))"

definition glue_requestCapabilities :: "client \<Rightarrow> gnss_glue \<Rightarrow> gnss_glue" where
  "glue_requestCapabilities c g = (case g of None \<Rightarrow> None | Some a \<Rightarrow> Some (requestCapabilitiesCommand c a))"

definition glue_startTracking :: "client \<Rightarrow> LocationOptions \<Rightarrow> gnss_glue \<Rightarrow> uint32 \<times> gnss_glue" where
  "glue_startTracking c opts g =
     (case g of None \<Rightarrow> (0, None) | Some a \<Rightarrow> (let (i, a) = startTrackingCommand c opts a in (i, Some a)))"

definition glue_updateTrackingOptions :: "client \<Rightarrow> uint32 \<Rightarrow> LocationOptions \<Rightarrow> gnss_glue \<Rightarrow> gnss_glue" where
  "glue_updateTrackingOptions c i opts g = (case g of None \<Rightarrow> None | Some a \<Rightarrow> Some (updateTrackingOptionsCommand c i opts a))"

definition glue_stopTracking :: "client \<Rightarrow> uint32 \<Rightarrow> gnss_glue \<Rightarrow> gnss_glue" where
  "glue_stopTracking c i g = (case g of None \<Rightarrow> None | Some a \<Rightarrow> Some (stopTrackingCommand c i a))"

definition glue_enable :: "gnss_env \<Rightarrow> bool \<Rightarrow> gnss_glue \<Rightarrow> uint32 \<times> gnss_glue" where
  "glue_enable env is_gnss g =
     (case g of None \<Rightarrow> (0, None) | Some a \<Rightarrow> (let (i, a) = enableCommand env is_gnss a in (i, Some a)))"

definition glue_disable :: "gnss_env \<Rightarrow> uint32 \<Rightarrow> gnss_glue \<Rightarrow> gnss_glue" where
  "glue_disable env i g = (case g of None \<Rightarrow> None | Some a \<Rightarrow> Some (disableCommand env i a))"

section \<open>From calls to commands\<close>

text \<open>What the adapter looks at in the callbacks and options.\<close>

definition gnss_callbacks :: "api_callbacks \<Rightarrow> LocationCallbacks" where
  "gnss_callbacks c = \<lparr>trackingCb = api_callbacks.trackingCb c \<noteq> None, gnssLocationInfoCb = api_callbacks.gnssLocationInfoCb c \<noteq> None,
     gnssNiCb = api_callbacks.gnssNiCb c \<noteq> None, gnssSvCb = api_callbacks.gnssSvCb c \<noteq> None,
     gnssNmeaCb = api_callbacks.gnssNmeaCb c \<noteq> None, gnssMeasurementsCb = api_callbacks.gnssMeasurementsCb c \<noteq> None,
     responseCb = api_callbacks.responseCb c \<noteq> None, capabilitiesCb = api_callbacks.capabilitiesCb c \<noteq> None\<rparr>"

definition gnss_options :: "tracking_options \<Rightarrow> LocationOptions" where
  "gnss_options opts = \<lparr>opt_size = trk_size opts, minInterval = trk_minInterval opts,
     opt_mode = (if trk_mode opts = 1 then GNSS_SUPL_MODE_MSB else if trk_mode opts = 2 then GNSS_SUPL_MODE_MSA
       else GNSS_SUPL_MODE_STANDALONE)\<rparr>"

text \<open>
  The other calls (answers to network requests, the configuration, aiding data, the control callbacks)
  post messages that the model of the adapter does not have, or, for the answers, has on its own in
  \<open>GnssNi\<close>; technology 0 is \<open>LOCATION_TECHNOLOGY_TYPE_GNSS\<close>.
\<close>

definition gnss_entry :: "gnss_env \<Rightarrow> iface_call \<Rightarrow> gnss_glue \<Rightarrow> gnss_glue" where
  "gnss_entry env c g = (case c of
     I_initialize \<Rightarrow> glue_initialize g
   | I_addClient p cb \<Rightarrow> glue_addClient p (gnss_callbacks cb) g
   | I_removeClient p \<Rightarrow> glue_removeClient p g
   | I_requestCapabilities p \<Rightarrow> glue_requestCapabilities p g
   | I_startTracking p opts \<Rightarrow> snd (glue_startTracking p (gnss_options opts) g)
   | I_updateTrackingOptions p i opts \<Rightarrow> glue_updateTrackingOptions p i (gnss_options opts) g
   | I_stopTracking p i \<Rightarrow> glue_stopTracking p i g
   | I_enable t \<Rightarrow> snd (glue_enable env (t = 0) g)
   | I_disable i \<Rightarrow> glue_disable env i g
   | _ \<Rightarrow> g)"

section \<open>Histories of the whole\<close>

record loc_stack =
  st_data :: LocationAPIData
  st_gnss :: gnss_glue

definition new_stack :: loc_stack where
  "new_stack = \<lparr>st_data = gData, st_gnss = None\<rparr>"

datatype stack_act = S_api disp_act | S_engine gnss_act

text \<open>The calls an entry point makes to the GNSS provider.\<close>

definition new_calls :: "LocationAPIData \<Rightarrow> LocationAPIData \<Rightarrow> iface_call list" where
  "new_calls w v = drop (length (calls_to Gnss w)) (calls_to Gnss v)"

fun stack_do :: "gnss_env \<Rightarrow> stack_act \<Rightarrow> loc_stack \<Rightarrow> loc_stack option" where
  "stack_do env (S_api x) s = do {
     v \<leftarrow> disp_do x (st_data s);
     Some \<lparr>st_data = v, st_gnss = fold (gnss_entry env) (new_calls (st_data s) v) (st_gnss s)\<rparr>
   }"
| "stack_do env (S_engine x) s =
     (case st_gnss s of None \<Rightarrow> Some s | Some a \<Rightarrow> do { a \<leftarrow> gnss_act env x a; Some (s\<lparr>st_gnss := Some a\<rparr>) })"

text \<open>What comes from the engine and the platform, not from clients.\<close>

fun engine_act :: "gnss_act \<Rightarrow> bool" where
  "engine_act (G_addClient c cb) = False"
| "engine_act (G_removeClient c) = False"
| "engine_act x = True"

fun stack_ok :: "stack_act \<Rightarrow> loc_stack \<Rightarrow> bool" where
  "stack_ok (S_api x) s \<longleftrightarrow> disp_ok x (st_data s)"
| "stack_ok (S_engine x) s \<longleftrightarrow> engine_act x"

fun stack_history :: "gnss_env \<Rightarrow> stack_act list \<Rightarrow> loc_stack \<Rightarrow> loc_stack option" where
  "stack_history env [] s = Some s"
| "stack_history env (x # xs) s =
     (if stack_ok x s then stack_do env x s \<bind> stack_history env xs else stack_history env xs s)"

text \<open>
  The entry points of a history; and the proxy for user locations or a restart, after which the engine
  does what no session asked for.
\<close>

fun api_acts :: "stack_act list \<Rightarrow> disp_act list" where
  "api_acts [] = []"
| "api_acts (S_api x # xs) = x # api_acts xs"
| "api_acts (S_engine x # xs) = api_acts xs"

fun bypasses :: "stack_act \<Rightarrow> bool" where
  "bypasses (S_api x) = False"
| "bypasses (S_engine x) = direct_act x"

section \<open>The adapter's clients\<close>

fun msg_client :: "gnss_msg \<Rightarrow> (client \<rightharpoonup> LocationCallbacks) \<Rightarrow> (client \<rightharpoonup> LocationCallbacks)" where
  "msg_client (MsgAddClient c cb) m = m(c \<mapsto> cb)"
| "msg_client (MsgRemoveClient c) m = m(c := None)"
| "msg_client x m = m"

text \<open>The clients the adapter will have when it has handled its messages.\<close>

definition due_clients :: "gnss_adapter \<Rightarrow> client \<rightharpoonup> LocationCallbacks" where
  "due_clients a = fold msg_client (gnss_queue a) (sm_find (mClientData a))"

definition same_clients :: "gnss_adapter \<Rightarrow> gnss_adapter \<Rightarrow> bool" where
  "same_clients a b \<longleftrightarrow> mClientData b = mClientData a \<and> gnss_queue b = gnss_queue a"

lemma same_refl [simp]: "same_clients a a" by (simp add: same_clients_def)

lemma same_trans: "same_clients a b \<Longrightarrow> same_clients b c \<Longrightarrow> same_clients a c" by (simp add: same_clients_def)

lemma same_out [simp]: "same_clients a (out x b) = same_clients a b" by (simp add: same_clients_def)

lemma same_fields [simp]:
  "same_clients a (b\<lparr>mTrackingSessions := m\<rparr>) = same_clients a b" "same_clients a (b\<lparr>mUlpPositionMode := u\<rparr>) = same_clients a b"
  "same_clients a (b\<lparr>mPowerVoteId := v\<rparr>) = same_clients a b" "same_clients a (b\<lparr>mGnssSvIdUsedInPosAvail := x\<rparr>) = same_clients a b"
  "same_clients a (b\<lparr>mOdcpiRequestActive := x\<rparr>) = same_clients a b" "same_clients a (b\<lparr>mOdcpiTimer_active := x\<rparr>) = same_clients a b"
  "same_clients a (b\<lparr>mOdcpiRequest := r\<rparr>) = same_clients a b" "same_clients a (b\<lparr>mOdcpiRequestCb := x\<rparr>) = same_clients a b"
  "same_clients a (b\<lparr>mEvtMask := k\<rparr>) = same_clients a b"
  by (simp_all add: same_clients_def)

lemma same_left [simp]: "same_clients (a\<lparr>mTrackingSessions := m\<rparr>) b = same_clients a b"
  by (simp add: same_clients_def)

lemma same_response [simp]:
  "same_clients a (reportResponse c e i b) = same_clients a b" "same_clients a (control_reportResponse e i b) = same_clients a b"
  by (simp_all add: reportResponse_def control_reportResponse_def split: option.splits)

lemma same_start: "same_clients a (snd (startTracking env opts a))"
  by (simp add: startTracking_def Let_def)

lemma same_stop: "same_clients a (snd (stopTracking env a))"
  by (simp add: stopTracking_def Let_def)

lemma same_multiplex:
  "same_clients a (snd (startTrackingMultiplex env opts a))" "same_clients a (snd (updateTrackingMultiplex env c i opts a))"
  "same_clients a (snd (stopTrackingMultiplex env c i a))"
  by (auto simp: startTrackingMultiplex_def updateTrackingMultiplex_def stopTrackingMultiplex_def same_start same_stop Let_def
      split: option.splits)

lemma same_stop_loop: "same_clients a (stop_loop env c ks a)"
proof (induction env c ks a rule: stop_loop.induct)
  case (2 env c k ks a)
  have "same_clients a (snd (stopTrackingMultiplex env (snd k) (fst k) a))" by (rule same_multiplex)
  then show ?case using 2 by (auto simp: eraseTrackingSession_def split: prod.splits intro: same_trans)
qed simp

lemma same_report: "same_clients a (report_clients p m b) = same_clients a b"
  by (induction p m b rule: report_clients.induct) (simp_all add: Let_def)

lemma same_procs:
  "same_clients a (proc_StartTracking env c i opts a)" "same_clients a (proc_UpdateTracking env c i opts a)"
  "same_clients a (proc_StopTracking env c i a)" "same_clients a (restartSessions env a)"
  "same_clients a (proc_SetPositionMode mode a)" "same_clients a (proc_UlpStartTracking env a)"
  "same_clients a (proc_UlpStopTracking env a)" "same_clients a (proc_EnableGnss i g a)"
  "same_clients a (proc_DisableGnss env i a)" "same_clients a (proc_ReportPosition env p status tech a)"
  "same_clients a (proc_RequestCapabilities env c a)" "same_clients a (reportOdcpiRequest req a)"
  "same_clients a (initOdcpi cb a)"
proof -
  show "same_clients a (proc_StartTracking env c i opts a)" using same_multiplex(1) [of a env opts]
    by (auto simp: proc_StartTracking_def saveTrackingSession_def split: prod.splits)
  show "same_clients a (proc_UpdateTracking env c i opts a)" using same_multiplex(2) [of a env c i opts]
    by (auto simp: proc_UpdateTracking_def saveTrackingSession_def split: prod.splits)
  show "same_clients a (proc_StopTracking env c i a)" using same_multiplex(3) [of a env c i]
    by (auto simp: proc_StopTracking_def eraseTrackingSession_def split: prod.splits)
qed (simp_all add: restartSessions_def proc_SetPositionMode_def setUlpPositionMode_def proc_UlpStartTracking_def proc_UlpStopTracking_def
    proc_EnableGnss_def proc_DisableGnss_def proc_ReportPosition_def reportPosition_def proc_RequestCapabilities_def same_report
    reportOdcpiRequest_def initOdcpi_def OdcpiTimer_restart_def OdcpiTimer_start_def OdcpiTimer_stop_def Let_def)

lemma same_expire: "odcpiTimerExpire a = Some b \<Longrightarrow> same_clients a b"
  by (auto simp: odcpiTimerExpire_def OdcpiTimer_restart_def OdcpiTimer_start_def OdcpiTimer_stop_def split: if_splits)

lemma mask_clients: "same_clients a (updateClientsEventMask env b) = same_clients a b"
  by (simp add: updateClientsEventMask_def updateEvtMask_def Let_def)

lemma proc_clients:
  assumes "gnss_proc env m a = Some b" "sm_ok (mClientData a)"
  shows "sm_ok (mClientData b) \<and> sm_find (mClientData b) = msg_client m (sm_find (mClientData a)) \<and> gnss_queue b = gnss_queue a"
proof (cases m)
  case (MsgAddClient c cb)
  have "same_clients (a\<lparr>mClientData := sm_put c cb (mClientData a)\<rparr>) b"
    using assms MsgAddClient mask_clients by (auto simp: gnss_proc_def saveClient_def)
  then show ?thesis using MsgAddClient assms by (simp add: same_clients_def sm_ok_put)
next
  case (MsgRemoveClient c)
  let ?a = "stopClientSessions env c a"
  have a: "same_clients a ?a" unfolding stopClientSessions_def by (rule same_stop_loop)
  have "same_clients (?a\<lparr>mClientData := sm_erase c (mClientData ?a)\<rparr>) b"
    using assms MsgRemoveClient mask_clients by (auto simp: gnss_proc_def eraseClient_def)
  then show ?thesis using MsgRemoveClient assms a by (simp add: same_clients_def sm_ok_erase sm_find_erase)
next
  case MsgOdcpiTimerExpire
  then show ?thesis using assms same_expire [of a b] by (simp add: gnss_proc_def same_clients_def)
qed (use assms same_procs in \<open>auto simp: gnss_proc_def same_clients_def\<close>)

fun act_client :: "gnss_act \<Rightarrow> (client \<rightharpoonup> LocationCallbacks) \<Rightarrow> (client \<rightharpoonup> LocationCallbacks)" where
  "act_client (G_addClient c cb) m = m(c \<mapsto> cb)"
| "act_client (G_removeClient c) m = m(c := None)"
| "act_client x m = m"

lemma due_post: "due_clients (post m a) = msg_client m (due_clients a)" "mClientData (post m a) = mClientData a"
  by (simp_all add: due_clients_def post_def)

lemma due_counter: "due_clients (a\<lparr>mSessionIdCounter := c\<rparr>) = due_clients a"
  by (simp add: due_clients_def)

lemmas command_defs = gnss_act_def addClientCommand_def removeClientCommand_def requestCapabilitiesCommand_def
  startTrackingCommand_def updateTrackingOptionsCommand_def stopTrackingCommand_def setPositionModeCommand_def
  enableCommand_def disableCommand_def reportPositionEvent_def reportOdcpiRequestEvent_def initOdcpiCommand_def
  odcpiTimerExpireEvent_def ulp_startTrackingCommand_def ulp_stopTrackingCommand_def handleEngineUpEvent_def
  generateSessionId_def Let_def due_post due_counter

lemma run_clients:
  assumes "gnss_run env a = Some b" "sm_ok (mClientData a)"
  shows "sm_ok (mClientData b) \<and> due_clients b = due_clients a"
proof (cases "gnss_queue a")
  case Nil
  then show ?thesis using assms by (simp add: gnss_run_def)
next
  case (Cons m ms)
  then have "gnss_proc env m (a\<lparr>gnss_queue := ms\<rparr>) = Some b" using assms(1) by (simp add: gnss_run_def)
  from proc_clients [OF this] show ?thesis using assms(2) Cons by (simp add: due_clients_def)
qed

lemma act_clients:
  assumes "gnss_act env x a = Some b" "sm_ok (mClientData a)"
  shows "sm_ok (mClientData b) \<and> due_clients b = act_client x (due_clients a)"
proof (cases x)
  case G_task
  then show ?thesis using assms run_clients by (simp add: gnss_act_def)
qed (use assms in \<open>auto simp: command_defs split: if_splits\<close>)

section \<open>The invariant of the whole\<close>

definition gnss_clients :: "LocationAPIData \<Rightarrow> client \<rightharpoonup> LocationCallbacks" where
  "gnss_clients w = map_option gnss_callbacks \<circ> iface_clients Gnss w"

definition glue_ok :: "bool \<Rightarrow> nat \<Rightarrow> (client \<rightharpoonup> LocationCallbacks) \<Rightarrow> gnss_glue \<Rightarrow> bool" where
  "glue_ok D N m g \<longleftrightarrow> (\<exists>a n. g = Some a \<and> n \<le> N \<and> gnss_inv D False n a \<and> sm_ok (mClientData a) \<and> due_clients a = m)"

fun call_client :: "iface_call \<Rightarrow> (client \<rightharpoonup> LocationCallbacks) \<Rightarrow> (client \<rightharpoonup> LocationCallbacks)" where
  "call_client (I_addClient p cb) m = m(p \<mapsto> gnss_callbacks cb)"
| "call_client (I_removeClient p) m = m(p := None)"
| "call_client x m = m"

lemma call_client_map: "call_client c (map_option gnss_callbacks \<circ> m) = map_option gnss_callbacks \<circ> client_effect c m"
  by (cases c) (auto simp: fun_eq_iff)

lemma glue_act:
  assumes "glue_ok D N m g" "N + 2 < 0xFFFFFFFF" "D \<longrightarrow> \<not> direct_act x"
  obtains b where "gnss_act env x (the g) = Some b" "glue_ok D (N + 1) (act_client x m) (Some b)"
proof -
  obtain a n where a: "g = Some a" "n \<le> N" "gnss_inv D False n a" "sm_ok (mClientData a)" "due_clients a = m"
    using assms(1) by (auto simp: glue_ok_def)
  obtain b n' where b: "gnss_act env x a = Some b" "n' \<le> n + 1" "gnss_inv D False n' b"
    using gnss_act_inv [OF a(3), of x env] a(2) assms(2,3) by fastforce
  show ?thesis
  proof (rule that)
    show "gnss_act env x (the g) = Some b" using a(1) b(1) by simp
    show "glue_ok D (N + 1) (act_client x m) (Some b)"
      unfolding glue_ok_def
      by (rule exI [of _ b], rule exI [of _ n']) (use act_clients [OF b(1) a(4)] a(2,5) b(2,3) in simp)
  qed
qed

text \<open>Which command a call of the provider is.\<close>

fun call_act :: "iface_call \<Rightarrow> gnss_act option" where
  "call_act (I_addClient p cb) = Some (G_addClient p (gnss_callbacks cb))"
| "call_act (I_removeClient p) = Some (G_removeClient p)"
| "call_act (I_requestCapabilities p) = Some (G_requestCapabilities p)"
| "call_act (I_startTracking p opts) = Some (G_startTracking p (gnss_options opts))"
| "call_act (I_updateTrackingOptions p i opts) = Some (G_updateTrackingOptions p i (gnss_options opts))"
| "call_act (I_stopTracking p i) = Some (G_stopTracking p i)"
| "call_act (I_enable t) = Some (G_enable (t = 0))"
| "call_act (I_disable i) = Some (G_disable i)"
| "call_act x = None"

lemma entry_act:
  assumes "call_act c = Some x" "gnss_act env x a = Some b"
  shows "gnss_entry env c (Some a) = Some b"
  using assms by (cases c) (auto simp: gnss_entry_def glue_addClient_def glue_removeClient_def glue_requestCapabilities_def
      glue_startTracking_def glue_updateTrackingOptions_def glue_stopTracking_def glue_enable_def glue_disable_def gnss_act_def
      split: prod.splits)

lemma call_act_client: "call_act c = Some x \<Longrightarrow> act_client x m = call_client c m" "call_act c = None \<Longrightarrow> call_client c m = m"
  by (cases c; auto)+

lemma glue_mono: "glue_ok D N m g \<Longrightarrow> N \<le> M \<Longrightarrow> glue_ok D M m g"
  unfolding glue_ok_def using le_trans by blast

lemma entry_ok:
  assumes "glue_ok D N m g" "N + 2 < 0xFFFFFFFF"
  shows "glue_ok D (N + 1) (call_client c m) (gnss_entry env c g)"
proof (cases "call_act c")
  case None
  have "g \<noteq> None" using assms(1) by (auto simp: glue_ok_def)
  then have "gnss_entry env c g = g" using None by (cases c) (auto simp: gnss_entry_def glue_initialize_def)
  then show ?thesis using call_act_client(2) [OF None] glue_mono [OF assms(1), of "N + 1"] by simp
next
  case (Some x)
  have direct: "D \<longrightarrow> \<not> direct_act x" using Some by (cases c) (auto simp: direct_act_def)
  obtain b where b: "gnss_act env x (the g) = Some b" "glue_ok D (N + 1) (act_client x m) (Some b)"
    by (rule glue_act [OF assms direct])
  obtain a where "g = Some a" using assms(1) by (auto simp: glue_ok_def)
  then show ?thesis using entry_act [OF Some, of env a b] b call_act_client(1) [OF Some] by simp
qed

lemma entries_ok:
  "glue_ok D N m g \<Longrightarrow> N + length cs + 1 < 0xFFFFFFFF \<Longrightarrow>
     glue_ok D (N + length cs) (fold call_client cs m) (fold (gnss_entry env) cs g)"
proof (induction cs arbitrary: N m g)
  case (Cons c cs)
  have "glue_ok D (N + 1) (call_client c m) (gnss_entry env c g)" by (rule entry_ok) (use Cons.prems in simp_all)
  from Cons.IH [OF this] show ?case using Cons.prems(2) by simp
qed simp

lemma fold_clients:
  "fold call_client cs (map_option gnss_callbacks \<circ> m) = map_option gnss_callbacks \<circ> fold client_effect cs m"
  by (induction cs arbitrary: m) (simp_all add: call_client_map)

section \<open>The calls of one entry point\<close>

definition extends :: "LocationAPIData \<Rightarrow> LocationAPIData \<Rightarrow> bool" where
  "extends w v \<longleftrightarrow> (\<exists>cs. calls_to Gnss v = calls_to Gnss w @ cs \<and> length cs \<le> 3)"

lemma extends_intro: "calls_to Gnss v = calls_to Gnss w @ cs \<Longrightarrow> length cs \<le> 3 \<Longrightarrow> extends w v"
  unfolding extends_def by blast

lemma if_loaded_calls: "calls_to k (if_loaded j c w) = calls_to k w @ (if j = k \<and> interfaces w j \<noteq> NULL then [c] else [])"
  by (simp add: if_loaded_def)

lemma ask_calls: "calls_to k (snd (ask j c r none w)) = calls_to k w @ (if j = k \<and> interfaces w j \<noteq> NULL then [c] else [])"
  by (simp add: ask_def)

lemma request_extends:
  assumes "disp_do x w = Some v" "is_request_act x"
  shows "extends w v"
  using assms
proof (cases x)
  case (D_startTracking r a opts)
  then show ?thesis using assms by (auto simp: api_startTracking_def extends_def split: option.splits)
next
  case (D_stopTracking a i)
  then show ?thesis using assms by (auto simp: api_stopTracking_def extends_def if_loaded_calls split: option.splits)
next
  case (D_updateTracking a i opts)
  then show ?thesis using assms by (auto simp: api_updateTrackingOptions_def extends_def if_loaded_calls split: option.splits)
qed (auto simp: request_ops extends_def if_loaded_calls ask_calls)

lemma touched_extends: "if is_client Gnss c then touched Gnss a c w v else untouched Gnss w v \<Longrightarrow> extends w v"
proof -
  assume eff: "if is_client Gnss c then touched Gnss a c w v else untouched Gnss w v"
  show "extends w v"
  proof (cases "is_client Gnss c \<and> interfaces v Gnss \<noteq> NULL")
    case False
    then have "calls_to Gnss v = calls_to Gnss w @ []" using eff by (auto simp: touched_def untouched_def split: if_splits)
    then show ?thesis by (rule extends_intro) simp
  next
    case True
    then obtain r where r: "r \<in> {[], [I_requestCapabilities a]}"
      "calls_to Gnss v = calls_to Gnss w @ (if interfaces w Gnss = NULL then [I_initialize] else []) @ [I_addClient a c] @ r"
      using eff by (auto simp: touched_def)
    show ?thesis by (rule extends_intro [OF r(2)]) (use r(1) in auto)
  qed
qed

lemma create_extends:
  assumes "\<forall>k. load_failed w k \<longrightarrow> interfaces w k = NULL"
  shows "extends w (snd (api_createInstance env p c w))"
proof (cases "mandatory c")
  case True
  define w0 where "w0 = w\<lparr>live_apis := insert p (live_apis w)\<rparr>"
  define v where "v = snd (create_block env p c Geofence (create_block env p c Flp (create_block env p c Gnss (False, w0))))"
  have eq: "snd (api_createInstance env p c w) = v\<lparr>clientData := sm_put p c (clientData v)\<rparr>"
    using True by (simp add: api_createInstance_def v_def w0_def Let_def split: prod.splits)
  have "added_on {Geofence, Flp, Gnss} p c w0 v" unfolding v_def by (rule create_blocks_added) (use assms in \<open>simp add: w0_def\<close>)
  then have "if is_client Gnss c then touched Gnss p c w0 v else untouched Gnss w0 v" unfolding added_on_def by auto
  then have "extends w0 v" by (rule touched_extends)
  then show ?thesis unfolding eq by (simp add: extends_def w0_def)
qed (simp add: api_createInstance_def extends_def)

lemma update_extends:
  assumes "\<forall>k. load_failed w k \<longrightarrow> interfaces w k = NULL"
  shows "extends w (api_updateCallbacks env a c w)"
proof (cases "mandatory c")
  case True
  define v where "v = update_block env a c Geofence (update_block env a c Flp (update_block env a c Gnss w))"
  have eq: "api_updateCallbacks env a c w = v\<lparr>clientData := sm_put a c (clientData v)\<rparr>"
    using True by (simp add: api_updateCallbacks_def v_def Let_def)
  have "added_on {Geofence, Flp, Gnss} a c w v" unfolding v_def by (rule update_blocks_added [OF assms])
  then have "if is_client Gnss c then touched Gnss a c w v else untouched Gnss w v" unfolding added_on_def by auto
  then have "extends w v" by (rule touched_extends)
  then show ?thesis unfolding eq by (simp add: extends_def)
qed (simp add: api_updateCallbacks_def extends_def)

lemma step_extends:
  assumes inv: "disp_inv G w" and ok: "disp_ok x w" and step: "disp_do x w = Some v"
  shows "extends w v"
proof (cases "is_request_act x")
  case True
  then show ?thesis using request_extends step by blast
next
  case False
  have failed: "\<forall>k. load_failed w k \<longrightarrow> interfaces w k = NULL" using inv by (simp add: disp_inv_def)
  show ?thesis
  proof (cases x)
    case (D_create env p c)
    then show ?thesis using create_extends [OF failed] step by auto
  next
    case (D_update env a c)
    then show ?thesis using update_extends [OF failed] step by auto
  next
    case (D_destroy a)
    then have a: "a \<in> live_apis w" "api_destroy a w = Some v" using ok step by simp_all
    show ?thesis
    proof (rule destroy_effect [OF inv a(1)])
      fix c u
      assume "api_destroy a w = Some u"
        and calls: "\<And>k. calls_to k u = calls_to k w @ (if is_client k c \<and> interfaces w k \<noteq> NULL then [I_removeClient a] else [])"
      then have "u = v" using a(2) by simp
      then show ?thesis using calls [of Gnss] extends_intro by fastforce
    qed
  next
    case (D_control_create env p c)
    then have v: "v = snd (control_createInstance env p c w)" using step by simp
    show ?thesis unfolding v control_createInstance_def by (auto simp: Let_def extends_def ensure_loaded_calls)
  next
    case (D_control_destroy a)
    then show ?thesis using step by (auto simp: control_destroy_def extends_def split: if_splits)
  qed (use False in simp_all)
qed

section \<open>Every history of the whole\<close>

definition stack_inv :: "bool \<Rightarrow> nat \<Rightarrow> dangling_clients \<Rightarrow> loc_stack \<Rightarrow> bool" where
  "stack_inv D N G s \<longleftrightarrow> disp_inv G (st_data s) \<and>
     (if interfaces (st_data s) Gnss = NULL then st_gnss s = None else glue_ok D N (gnss_clients (st_data s)) (st_gnss s))"

lemma new_adapter_ok: "glue_ok D 0 Map.empty (Some GnssAdapter)"
  unfolding glue_ok_def
  by (rule exI [of _ GnssAdapter], rule exI [of _ 0]) (simp add: GnssAdapter_inv, simp add: GnssAdapter_def due_clients_def)

lemma api_step_inv:
  assumes inv: "stack_inv D N G s" and ok: "disp_ok x (st_data s)" and N: "N + 4 < 0xFFFFFFFF"
  shows "\<exists>t. stack_do env (S_api x) s = Some t \<and> stack_inv D (N + 3) (dangle x (st_data s) G) t"
proof -
  define w where "w = st_data s"
  have w: "disp_inv G w" using inv by (simp add: stack_inv_def w_def)
  obtain v where v: "disp_do x w = Some v" "disp_inv (dangle x w G) v" using disp_do_inv [OF w] ok by (auto simp: w_def)
  obtain cs where cs: "calls_to Gnss v = calls_to Gnss w @ cs" "length cs \<le> 3"
    using step_extends [OF w _ v(1)] ok by (auto simp: extends_def w_def)
  have new: "new_calls w v = cs" by (simp add: new_calls_def cs(1))
  define g where "g = fold (gnss_entry env) cs (st_gnss s)"
  have step: "stack_do env (S_api x) s = Some \<lparr>st_data = v, st_gnss = g\<rparr>"
    using v(1) new by (simp add: w_def [symmetric] g_def)
  have sw: "started Gnss w" and sv: "started Gnss v" using w v(2) by (simp_all add: disp_inv_def)
  have clients: "gnss_clients v = fold call_client cs (gnss_clients w)"
    unfolding gnss_clients_def fold_clients by (simp add: iface_clients_def cs(1))
  have "if interfaces v Gnss = NULL then g = None else glue_ok D (N + 3) (gnss_clients v) g"
  proof (cases "interfaces w Gnss = NULL")
    case True
    then have none: "calls_to Gnss w = []" "st_gnss s = None" using sw inv by (simp_all add: started_def stack_inv_def w_def)
    show ?thesis
    proof (cases "interfaces v Gnss = NULL")
      case True
      then have "cs = []" using sv cs(1) by (simp add: started_def)
      then show ?thesis using True none by (simp add: g_def)
    next
      case False
      then obtain ds where ds: "cs = I_initialize # ds" using sv cs(1) none(1) by (auto simp: started_def)
      have "glue_ok D (0 + length ds) (fold call_client ds Map.empty) (fold (gnss_entry env) ds (Some GnssAdapter))"
        by (rule entries_ok [OF new_adapter_ok]) (use cs(2) ds in simp)
      moreover have "gnss_clients w = Map.empty" by (simp add: gnss_clients_def iface_clients_def none(1))
      ultimately have "glue_ok D (length ds) (gnss_clients v) g"
        unfolding clients g_def ds none(2) by (simp add: gnss_entry_def glue_initialize_def)
      then show ?thesis using False glue_mono [of D "length ds"] cs(2) ds by simp
    qed
  next
    case False
    have loaded: "interfaces v Gnss \<noteq> NULL" using step_stays [OF w _ v(1) False] ok False by (simp add: w_def)
    have "glue_ok D (N + length cs) (fold call_client cs (gnss_clients w)) (fold (gnss_entry env) cs (st_gnss s))"
      by (rule entries_ok) (use inv False N cs(2) in \<open>simp_all add: stack_inv_def w_def\<close>)
    then have "glue_ok D (N + length cs) (gnss_clients v) g" unfolding clients g_def .
    then show ?thesis using loaded glue_mono [of D "N + length cs" "gnss_clients v" g "N + 3"] cs(2) by simp
  qed
  then have "stack_inv D (N + 3) (dangle x (st_data s) G) \<lparr>st_data = v, st_gnss = g\<rparr>" using v(2) by (simp add: stack_inv_def w_def)
  then show ?thesis using step by blast
qed

lemma engine_step_inv:
  assumes inv: "stack_inv D N G s" and ok: "engine_act x" "D \<longrightarrow> \<not> direct_act x" and N: "N + 4 < 0xFFFFFFFF"
  shows "\<exists>t. stack_do env (S_engine x) s = Some t \<and> stack_inv D (N + 3) G t"
proof (cases "interfaces (st_data s) Gnss = NULL")
  case True
  then show ?thesis using inv by (simp add: stack_inv_def)
next
  case False
  then have g: "glue_ok D N (gnss_clients (st_data s)) (st_gnss s)" using inv by (simp add: stack_inv_def)
  obtain b where b: "gnss_act env x (the (st_gnss s)) = Some b" "glue_ok D (N + 1) (act_client x (gnss_clients (st_data s))) (Some b)"
    by (rule glue_act [OF g _ ok(2)]) (use N in simp)
  obtain a where a: "st_gnss s = Some a" using g by (auto simp: glue_ok_def)
  have "act_client x m = m" for m using ok(1) by (cases x) simp_all
  then have "glue_ok D (N + 3) (gnss_clients (st_data s)) (Some b)" using b(2) glue_mono by fastforce
  then have "stack_inv D (N + 3) G (s\<lparr>st_gnss := Some b\<rparr>)" using inv False by (simp add: stack_inv_def)
  then show ?thesis using a b(1) by simp
qed

fun stack_dangle :: "stack_act \<Rightarrow> loc_stack \<Rightarrow> dangling_clients \<Rightarrow> dangling_clients" where
  "stack_dangle (S_api x) s G = dangle x (st_data s) G"
| "stack_dangle (S_engine x) s G = G"

lemma stack_step_inv:
  assumes "stack_inv D N G s" "stack_ok x s" "N + 4 < 0xFFFFFFFF" "D \<longrightarrow> \<not> bypasses x"
  shows "\<exists>t. stack_do env x s = Some t \<and> stack_inv D (N + 3) (stack_dangle x s G) t"
proof (cases x)
  case (S_api y)
  then show ?thesis using api_step_inv [OF assms(1) _ assms(3), of y env] assms(2) by simp
next
  case (S_engine y)
  then show ?thesis using engine_step_inv [OF assms(1) _ _ assms(3), of y env] assms(2,4) by simp
qed

lemma api_acts_dangling:
  assumes "stack_do env x s = Some t" "stack_ok x s"
  shows "dangling (api_acts (x # xs)) (st_data s) G = dangling (api_acts xs) (st_data t) (stack_dangle x s G)"
  using assms by (cases x) (auto split: option.splits bind_splits)

lemma stack_history_inv:
  "stack_inv D N G s \<Longrightarrow> N + 3 * length xs + 1 < 0xFFFFFFFF \<Longrightarrow> D \<longrightarrow> \<not> list_ex bypasses xs \<Longrightarrow>
     \<exists>t. stack_history env xs s = Some t \<and> stack_inv D (N + 3 * length xs) (dangling (api_acts xs) (st_data s) G) t"
proof (induction xs arbitrary: N s G)
  case (Cons x xs)
  have N: "N + 4 < 0xFFFFFFFF" and d: "D \<longrightarrow> \<not> bypasses x" "D \<longrightarrow> \<not> list_ex bypasses xs" using Cons.prems by auto
  show ?case
  proof (cases "stack_ok x s")
    case True
    obtain t where t: "stack_do env x s = Some t" "stack_inv D (N + 3) (stack_dangle x s G) t"
      using stack_step_inv [OF Cons.prems(1) True N d(1)] by blast
    from Cons.IH [OF t(2) _ d(2)] show ?thesis
      using Cons.prems(2) True t(1) api_acts_dangling [OF t(1) True] by (simp add: add.assoc)
  next
    case False
    have "glue_ok D N m g \<Longrightarrow> glue_ok D (N + 3) m g" for m g using glue_mono [of D N m g "N + 3"] by simp
    then have "stack_inv D (N + 3) G s" using Cons.prems(1) by (simp add: stack_inv_def split: if_splits)
    moreover have "dangling (api_acts (x # xs)) (st_data s) G = dangling (api_acts xs) (st_data s) G"
      using False by (cases x) simp_all
    ultimately show ?thesis using Cons.IH [of "N + 3" G s] Cons.prems(2) d(2) False by (simp add: add.assoc)
  qed
qed simp

lemma new_stack_inv: "stack_inv D 0 (\<lambda>k. Map.empty) new_stack"
  using gData_inv by (simp add: stack_inv_def new_stack_def) (simp add: gData_def)

text \<open>
  C4: From the entry points to the engine. Over every interleaving of the location API's entry points
  on live objects (updates of any callbacks included) with the message task, position reports, the
  commands of the user-location proxy and the engine's restarts (a history is shorter than a third of
  the session identifiers), nothing faults; the adapter exists exactly when the provider is loaded; its
  clients, when it has handled the messages that are queued, are the live objects that need it, each
  with its latest callbacks, and the dangling ones, that gave up its callbacks in an update; the fix
  last asked of the engine for the sessions is on exactly when there are tracking sessions, at the
  smallest interval of any; and so does the engine, unless the proxy started or stopped it itself or it
  was restarted.
\<close>

theorem stack_adapter_follows_clients:
  assumes "3 * length xs + 1 < 0xFFFFFFFF"
  shows "\<exists>s. stack_history env xs new_stack = Some s \<and>
     (case st_gnss s of
        None \<Rightarrow> interfaces (st_data s) Gnss = NULL
      | Some a \<Rightarrow> interfaces (st_data s) Gnss \<noteq> NULL \<and> follows (mTrackingSessions a) (session_fix (gnss_log a)) \<and>
          (\<not> list_ex bypasses xs \<longrightarrow> follows (mTrackingSessions a) (engine_fix (gnss_log a))) \<and>
          fold msg_client (gnss_queue a) (sm_find (mClientData a)) =
            map_option gnss_callbacks \<circ> (dangling (api_acts xs) gData (\<lambda>k. Map.empty) Gnss ++
              (\<lambda>p. case sm_find (clientData (st_data s)) p of
                 Some c \<Rightarrow> if isGnssClient c then Some c else None | None \<Rightarrow> None)))"
proof -
  let ?G = "dangling (api_acts xs) gData (\<lambda>k. Map.empty)"
  have data: "st_data new_stack = gData" by (simp add: new_stack_def)
  obtain s where s: "stack_history env xs new_stack = Some s" "stack_inv False (3 * length xs) ?G s"
    using stack_history_inv [OF new_stack_inv, of xs False env] assms by (auto simp: data)
  have e: "stack_inv True (3 * length xs) ?G s" if "\<not> list_ex bypasses xs"
    using stack_history_inv [OF new_stack_inv, of xs True env] assms that s(1) by (auto simp: data)
  show ?thesis
  proof (cases "interfaces (st_data s) Gnss = NULL")
    case True
    then show ?thesis using s by (simp add: stack_inv_def)
  next
    case False
    then obtain a n where a: "st_gnss s = Some a" "gnss_inv False False n a" "due_clients a = gnss_clients (st_data s)"
      using s(2) by (auto simp: stack_inv_def glue_ok_def)
    have en: "follows (mTrackingSessions a) (engine_fix (gnss_log a))" if "\<not> list_ex bypasses xs"
      using e [OF that] False a(1) gnss_invD(2) by (auto simp: stack_inv_def glue_ok_def)
    have "iface_clients Gnss (st_data s) = ?G Gnss ++ needed Gnss (st_data s)"
      using s(2) False by (simp add: stack_inv_def disp_inv_def knows_def)
    then have "gnss_clients (st_data s) = map_option gnss_callbacks \<circ> (?G Gnss ++ (\<lambda>p. case sm_find (clientData (st_data s)) p of
        Some c \<Rightarrow> if isGnssClient c then Some c else None | None \<Rightarrow> None))"
      unfolding gnss_clients_def by (simp add: needed_def cong: option.case_cong)
    then show ?thesis using s(1) a(1) False en gnss_invD(2) [OF a(2)] a(3) [unfolded due_clients_def] by simp
  qed
qed

definition example_client :: api_callbacks where
  "example_client = LocDispatchProofs.mandatory_only\<lparr>api_callbacks.trackingCb := Some 4\<rparr>"

definition example_stack :: "stack_act list" where
  "example_stack = [S_api (D_create LocDispatchProofs.example_env 2 example_client), S_engine G_task,
     S_api (D_startTracking 2 2 \<lparr>trk_size = 16, trk_minInterval = 1000, trk_minDistance = 0, trk_mode = 1\<rparr>), S_engine G_task,
     S_engine G_task, S_api (D_destroy 2)]"

theorem stack_adapter_follows_clients_witness:
  "\<exists>s. stack_history GnssAdapterHistories.example_env example_stack new_stack = Some s \<and>
     (case st_gnss s of
        None \<Rightarrow> interfaces (st_data s) Gnss = NULL
      | Some a \<Rightarrow> interfaces (st_data s) Gnss \<noteq> NULL \<and> follows (mTrackingSessions a) (session_fix (gnss_log a)) \<and>
          (\<not> list_ex bypasses example_stack \<longrightarrow> follows (mTrackingSessions a) (engine_fix (gnss_log a))) \<and>
          fold msg_client (gnss_queue a) (sm_find (mClientData a)) =
            map_option gnss_callbacks \<circ> (dangling (api_acts example_stack) gData (\<lambda>k. Map.empty) Gnss ++
              (\<lambda>p. case sm_find (clientData (st_data s)) p of
                 Some c \<Rightarrow> if isGnssClient c then Some c else None | None \<Rightarrow> None)))"
  by (rule stack_adapter_follows_clients) (simp add: example_stack_def)

end
