(* ===== verification/NmeaDebug.thy ===== *)
theory NmeaDebug
  imports LocCfg
begin

text \<open>
  \<open>gps/core/SystemStatus.cpp\<close>, first part: the parsers of the debug sentences in which the modem reports
  its state. A sentence is a C string, so it has no NUL; its length is given separately. Floating-point
  numbers are their bits; what \<open>atof\<close> and the conversions between number types give, and how wide a
  \<open>long\<close> is, are arguments. A parser whose sentence is too short returns what its memory held before.
\<close>

section \<open>Sentences\<close>

definition DEBUG_NMEA_MINSIZE :: int where "DEBUG_NMEA_MINSIZE = 6"
definition DEBUG_NMEA_MAXSIZE :: int where "DEBUG_NMEA_MAXSIZE = 4096"

definition loc_nmea_is_debug :: "string option \<Rightarrow> int \<Rightarrow> bool" where
  "loc_nmea_is_debug nmea len =
     (case nmea of
        None \<Rightarrow> False
      | Some s \<Rightarrow> len \<ge> DEBUG_NMEA_MINSIZE \<and> len \<le> DEBUG_NMEA_MAXSIZE \<and> take 4 s = ''$PQW'')"

text \<open>The words before each comma; what follows the last comma is not a word.\<close>

function nmea_tokens :: "string \<Rightarrow> string list" where
  "nmea_tokens s =
     (if CHR '','' \<in> set s then
        (let w = takeWhile (\<lambda>c. c \<noteq> CHR '','') s in w # nmea_tokens (drop (length w + 1) s))
      else [])"
  by pat_completeness auto
termination
proof (relation "measure length")
  show "wf (measure (length :: string \<Rightarrow> nat))" by simp
next
  fix s w
  assume "CHR '','' \<in> set s" "w = takeWhile (\<lambda>c. c \<noteq> CHR '','') s"
  then show "(drop (length w + 1) s, s) \<in> measure length" by (cases s) auto
qed

declare nmea_tokens.simps [simp del]

text \<open>The fields: the first asterisk, before the checksum, ends the last one.\<close>

definition nmea_fields :: "string \<Rightarrow> int \<Rightarrow> string list" where
  "nmea_fields str len =
     (if \<not> loc_nmea_is_debug (Some str) len then []
      else
        (let i = length (takeWhile (\<lambda>c. c \<noteq> CHR ''*'') str) in
         if i = length str then [] else nmea_tokens (str[i := CHR '',''])))"

record nmea_env =
  n_long_bits :: nat
  n_atof :: "string \<Rightarrow> 64 word"
  n_float :: "64 word \<Rightarrow> 32 word"
  n_int_float :: "32 word \<Rightarrow> 32 word"

text \<open>A field in hexadecimal, stored in an unsigned variable of any width.\<close>

definition hex_field :: "nmea_env \<Rightarrow> string list \<Rightarrow> nat \<Rightarrow> 'a::len word" where
  "hex_field env f i = word_of_int (strtol (n_long_bits env) (f ! i) 16)"

section \<open>The sentences of the measurement engine\<close>

record SystemStatusPQWM1 =
  mGpsWeek :: "16 word"
  mGpsTowMs :: "32 word"
  mTimeValid :: "8 word"
  mTimeSource :: "8 word"
  mTimeUnc :: "32 word"
  mClockFreqBias :: "32 word"
  mClockFreqBiasUnc :: "32 word"
  mXoState :: "8 word"
  mPgaGain :: "32 word"
  mGpsBpAmpI :: "32 word"
  mGpsBpAmpQ :: "32 word"
  mAdcI :: "32 word"
  mAdcQ :: "32 word"
  mJammerGps :: "32 word"
  mJammerGlo :: "32 word"
  mJammerBds :: "32 word"
  mJammerGal :: "32 word"
  mRecErrorRecovery :: "32 word"
  mAgcGps :: "64 word"
  mAgcGlo :: "64 word"
  mAgcBds :: "64 word"
  mAgcGal :: "64 word"
  mLeapSeconds :: "32 word"
  mLeapSecUnc :: "32 word"
  mGloBpAmpI :: "32 word"
  mGloBpAmpQ :: "32 word"
  mBdsBpAmpI :: "32 word"
  mBdsBpAmpQ :: "32 word"
  mGalBpAmpI :: "32 word"
  mGalBpAmpQ :: "32 word"

definition zero_PQWM1 :: SystemStatusPQWM1 where
  "zero_PQWM1 =
     \<lparr>mGpsWeek = 0, mGpsTowMs = 0, mTimeValid = 0, mTimeSource = 0, mTimeUnc = 0, mClockFreqBias = 0,
      mClockFreqBiasUnc = 0, mXoState = 0, mPgaGain = 0, mGpsBpAmpI = 0, mGpsBpAmpQ = 0, mAdcI = 0,
      mAdcQ = 0, mJammerGps = 0, mJammerGlo = 0, mJammerBds = 0, mJammerGal = 0, mRecErrorRecovery = 0,
      mAgcGps = 0, mAgcGlo = 0, mAgcBds = 0, mAgcGal = 0, mLeapSeconds = 0, mLeapSecUnc = 0,
      mGloBpAmpI = 0, mGloBpAmpQ = 0, mBdsBpAmpI = 0, mBdsBpAmpQ = 0, mGalBpAmpI = 0, mGalBpAmpQ = 0\<rparr>"

definition eMax0_M1 :: nat where "eMax0_M1 = 22"

definition SystemStatusPQWM1parser :: "nmea_env \<Rightarrow> string \<Rightarrow> int \<Rightarrow> SystemStatusPQWM1" where
  "SystemStatusPQWM1parser env str len =
     (let f = nmea_fields str len; n = (\<lambda>i. atoi (n_long_bits env) (f ! i)); d = (\<lambda>i. n_atof env (f ! i)) in
      if length f \<le> eMax0_M1 then zero_PQWM1
      else
        (let m = zero_PQWM1\<lparr>mGpsWeek := ucast (n 1), mGpsTowMs := n 2, mTimeValid := ucast (n 3), mTimeSource := ucast (n 4), mTimeUnc := n 5,
            mClockFreqBias := n 6, mClockFreqBiasUnc := n 7, mXoState := ucast (n 8), mPgaGain := n 9, mGpsBpAmpI := n 10,
            mGpsBpAmpQ := n 11, mAdcI := n 12, mAdcQ := n 13, mJammerGps := n 14, mJammerGlo := n 15,
            mJammerBds := n 16, mJammerGal := n 17, mRecErrorRecovery := n 18, mAgcGps := d 19, mAgcGlo := d 20,
            mAgcBds := d 21, mAgcGal := d 22\<rparr>;
             m = (if length f > 24 then m\<lparr>mLeapSeconds := n 23, mLeapSecUnc := n 24\<rparr> else m) in
         if length f > 30 then m\<lparr>mGloBpAmpI := n 25, mGloBpAmpQ := n 26, mBdsBpAmpI := n 27, mBdsBpAmpQ := n 28, mGalBpAmpI := n 29,
            mGalBpAmpQ := n 30\<rparr> else m))"

section \<open>The sentences of the position engine\<close>

record SystemStatusPQWP1 =
  mEpiValidity :: "8 word"
  mEpiLat :: "32 word"
  mEpiLon :: "32 word"
  mEpiAlt :: "32 word"
  mEpiHepe :: "32 word"
  mEpiAltUnc :: "32 word"
  mEpiSrc :: "8 word"

definition eMax_P1 :: nat where "eMax_P1 = 9"

definition SystemStatusPQWP1parser :: "nmea_env \<Rightarrow> SystemStatusPQWP1 \<Rightarrow> string \<Rightarrow> int \<Rightarrow> SystemStatusPQWP1" where
  "SystemStatusPQWP1parser env junk str len =
     (let f = nmea_fields str len; n = (\<lambda>i. atoi (n_long_bits env) (f ! i)); d = (\<lambda>i. n_atof env (f ! i)) in
      if length f < eMax_P1 then junk
      else
        \<lparr>mEpiValidity = hex_field env f 2, mEpiLat = n_float env (d 3), mEpiLon = n_float env (d 4),
         mEpiAlt = n_float env (d 5), mEpiHepe = n_int_float env (n 6), mEpiAltUnc = n_float env (d 7),
         mEpiSrc = ucast (n 8)\<rparr>)"

record SystemStatusPQWP2 =
  mBestLat :: "32 word"
  mBestLon :: "32 word"
  mBestAlt :: "32 word"
  mBestHepe :: "32 word"
  mBestAltUnc :: "32 word"

definition eMax_P2 :: nat where "eMax_P2 = 7"

definition SystemStatusPQWP2parser :: "nmea_env \<Rightarrow> SystemStatusPQWP2 \<Rightarrow> string \<Rightarrow> int \<Rightarrow> SystemStatusPQWP2" where
  "SystemStatusPQWP2parser env junk str len =
     (let f = nmea_fields str len; d = (\<lambda>i. n_atof env (f ! i)) in
      if length f < eMax_P2 then junk
      else
        \<lparr>mBestLat = n_float env (d 2), mBestLon = n_float env (d 3), mBestAlt = n_float env (d 4),
         mBestHepe = n_float env (d 5), mBestAltUnc = n_float env (d 6)\<rparr>)"

record SystemStatusPQWP3 =
  mXtraValidMask :: "8 word"
  mGpsXtraAge :: "32 word"
  mGloXtraAge :: "32 word"
  mBdsXtraAge :: "32 word"
  mGalXtraAge :: "32 word"
  mQzssXtraAge :: "32 word"
  mGpsXtraValid :: "32 word"
  mGloXtraValid :: "32 word"
  mBdsXtraValid :: "64 word"
  mGalXtraValid :: "64 word"
  mQzssXtraValid :: "8 word"

definition eMax_P3 :: nat where "eMax_P3 = 13"

definition SystemStatusPQWP3parser :: "nmea_env \<Rightarrow> SystemStatusPQWP3 \<Rightarrow> string \<Rightarrow> int \<Rightarrow> SystemStatusPQWP3" where
  "SystemStatusPQWP3parser env junk str len =
     (let f = nmea_fields str len; n = (\<lambda>i. atoi (n_long_bits env) (f ! i)) in
      if length f < eMax_P3 then junk
      else
        \<lparr>mXtraValidMask = hex_field env f 2, mGpsXtraAge = n 3, mGloXtraAge = n 4,
         mBdsXtraAge = n 5, mGalXtraAge = n 6, mQzssXtraAge = n 7,
         mGpsXtraValid = hex_field env f 8, mGloXtraValid = hex_field env f 9, mBdsXtraValid = hex_field env f 10,
         mGalXtraValid = hex_field env f 11, mQzssXtraValid = hex_field env f 12\<rparr>)"

record SystemStatusPQWP4 =
  mGpsEpheValid :: "32 word"
  mGloEpheValid :: "32 word"
  mBdsEpheValid :: "64 word"
  mGalEpheValid :: "64 word"
  mQzssEpheValid :: "8 word"

definition eMax_P4 :: nat where "eMax_P4 = 7"

definition SystemStatusPQWP4parser :: "nmea_env \<Rightarrow> SystemStatusPQWP4 \<Rightarrow> string \<Rightarrow> int \<Rightarrow> SystemStatusPQWP4" where
  "SystemStatusPQWP4parser env junk str len =
     (let f = nmea_fields str len in
      if length f < eMax_P4 then junk
      else
        \<lparr>mGpsEpheValid = hex_field env f 2, mGloEpheValid = hex_field env f 3, mBdsEpheValid = hex_field env f 4,
         mGalEpheValid = hex_field env f 5, mQzssEpheValid = hex_field env f 6\<rparr>)"

record SystemStatusPQWP5 =
  mGpsUnknownMask :: "32 word"
  mGloUnknownMask :: "32 word"
  mBdsUnknownMask :: "64 word"
  mGalUnknownMask :: "64 word"
  mQzssUnknownMask :: "8 word"
  mGpsGoodMask :: "32 word"
  mGloGoodMask :: "32 word"
  mBdsGoodMask :: "64 word"
  mGalGoodMask :: "64 word"
  mQzssGoodMask :: "8 word"
  mGpsBadMask :: "32 word"
  mGloBadMask :: "32 word"
  mBdsBadMask :: "64 word"
  mGalBadMask :: "64 word"
  mQzssBadMask :: "8 word"

definition eMax_P5 :: nat where "eMax_P5 = 17"

definition SystemStatusPQWP5parser :: "nmea_env \<Rightarrow> SystemStatusPQWP5 \<Rightarrow> string \<Rightarrow> int \<Rightarrow> SystemStatusPQWP5" where
  "SystemStatusPQWP5parser env junk str len =
     (let f = nmea_fields str len in
      if length f < eMax_P5 then junk
      else
        \<lparr>mGpsUnknownMask = hex_field env f 2, mGloUnknownMask = hex_field env f 3, mBdsUnknownMask = hex_field env f 4,
         mGalUnknownMask = hex_field env f 5, mQzssUnknownMask = hex_field env f 6, mGpsGoodMask = hex_field env f 7,
         mGloGoodMask = hex_field env f 8, mBdsGoodMask = hex_field env f 9, mGalGoodMask = hex_field env f 10,
         mQzssGoodMask = hex_field env f 11, mGpsBadMask = hex_field env f 12, mGloBadMask = hex_field env f 13,
         mBdsBadMask = hex_field env f 14, mGalBadMask = hex_field env f 15, mQzssBadMask = hex_field env f 16\<rparr>)"

record SystemStatusPQWP6 =
  mFixInfoMask :: "32 word"

definition eMax_P6 :: nat where "eMax_P6 = 3"

definition SystemStatusPQWP6parser :: "nmea_env \<Rightarrow> SystemStatusPQWP6 \<Rightarrow> string \<Rightarrow> int \<Rightarrow> SystemStatusPQWP6" where
  "SystemStatusPQWP6parser env junk str len =
     (let f = nmea_fields str len in
      if length f < eMax_P6 then junk
      else
        \<lparr>mFixInfoMask = hex_field env f 2\<rparr>)"

record SystemStatusNav =
  mType :: "32 word"
  mSource :: "32 word"
  mAgeSec :: "32 word"

record SystemStatusPQWP7 =
  mNav :: "SystemStatusNav list"

definition SV_ALL_NUM :: nat where "SV_ALL_NUM = 32 + 24 + 5 + 37 + 36"

definition eMax_P7 :: nat where "eMax_P7 = 2 + SV_ALL_NUM * 3"

definition SystemStatusPQWP7parser :: "nmea_env \<Rightarrow> SystemStatusPQWP7 \<Rightarrow> string \<Rightarrow> int \<Rightarrow> SystemStatusPQWP7" where
  "SystemStatusPQWP7parser env junk str len =
     (let f = nmea_fields str len; n = (\<lambda>i. atoi (n_long_bits env) (f ! i)) in
      if length f < eMax_P7 then junk
      else \<lparr>mNav = map (\<lambda>i. \<lparr>mType = n (i * 3 + 2), mSource = n (i * 3 + 3), mAgeSec = n (i * 3 + 4)\<rparr>) [0..<SV_ALL_NUM]\<rparr>)"

section \<open>The sentence of the session manager\<close>

record SystemStatusPQWS1 =
  mFixInfoMask :: "32 word"
  mHepeLimit :: "32 word"

definition eMax_S1 :: nat where "eMax_S1 = 4"

definition SystemStatusPQWS1parser :: "nmea_env \<Rightarrow> SystemStatusPQWS1 \<Rightarrow> string \<Rightarrow> int \<Rightarrow> SystemStatusPQWS1" where
  "SystemStatusPQWS1parser env junk str len =
     (let f = nmea_fields str len; n = (\<lambda>i. atoi (n_long_bits env) (f ! i)) in
      if length f < eMax_S1 then junk
      else
        \<lparr>mFixInfoMask = n 2, mHepeLimit = n 3\<rparr>)"

end
