(* ===== verification/StatusItems.thy ===== *)
theory StatusItems
  imports NmeaDebug
begin

text \<open>
  \<open>gps/core/SystemStatus.{h,cpp}\<close> and \<open>gps/core/data-items/DataItemConcreteTypesBase.h\<close>: the items of the
  system status. Every item extends the base with its two times; a constructor reads the clock, whose
  answer is an argument. \<open>equals\<close> compares what the class's own method compares. Floating-point numbers
  are their bits and are compared as such numbers are.
\<close>

unbundle bit_operations_syntax

section \<open>Floating-point numbers\<close>

definition float_nan :: "32 word \<Rightarrow> bool" where
  "float_nan w \<longleftrightarrow> w AND 0x7F800000 = 0x7F800000 \<and> w AND 0x007FFFFF \<noteq> 0"

definition float_eq :: "32 word \<Rightarrow> 32 word \<Rightarrow> bool" where
  "float_eq a b \<longleftrightarrow> \<not> float_nan a \<and> \<not> float_nan b \<and> (a = b \<or> (a OR b) AND 0x7FFFFFFF = 0)"

definition double_nan :: "64 word \<Rightarrow> bool" where
  "double_nan w \<longleftrightarrow> w AND 0x7FF0000000000000 = 0x7FF0000000000000 \<and> w AND 0x000FFFFFFFFFFFFF \<noteq> 0"

definition double_eq :: "64 word \<Rightarrow> 64 word \<Rightarrow> bool" where
  "double_eq a b \<longleftrightarrow> \<not> double_nan a \<and> \<not> double_nan b \<and> (a = b \<or> (a OR b) AND 0x7FFFFFFFFFFFFFFF = 0)"

section \<open>Items from debug sentences\<close>

type_synonym timespec = "int \<times> int"

record SystemStatusItemBase =
  mUtcTime :: timespec
  mUtcReported :: timespec

definition maxItem :: nat where "maxItem = 5"

record SystemStatusTimeAndClock = SystemStatusItemBase +
  mGpsWeek :: "16 word"
  mGpsTowMs :: "32 word"
  mTimeValid :: "8 word"
  mTimeSource :: "8 word"
  mTimeUnc :: "32 word"
  mClockFreqBias :: "32 word"
  mClockFreqBiasUnc :: "32 word"
  mLeapSeconds :: "32 word"
  mLeapSecUnc :: "32 word"

definition TimeAndClock_of :: "timespec \<Rightarrow> SystemStatusPQWM1 \<Rightarrow> SystemStatusTimeAndClock" where
  "TimeAndClock_of t nmea =
     \<lparr>mUtcTime = t, mUtcReported = t,
      mGpsWeek = SystemStatusPQWM1.mGpsWeek nmea, mGpsTowMs = SystemStatusPQWM1.mGpsTowMs nmea, mTimeValid = SystemStatusPQWM1.mTimeValid nmea,
      mTimeSource = SystemStatusPQWM1.mTimeSource nmea, mTimeUnc = SystemStatusPQWM1.mTimeUnc nmea, mClockFreqBias = SystemStatusPQWM1.mClockFreqBias nmea,
      mClockFreqBiasUnc = SystemStatusPQWM1.mClockFreqBiasUnc nmea, mLeapSeconds = SystemStatusPQWM1.mLeapSeconds nmea, mLeapSecUnc = SystemStatusPQWM1.mLeapSecUnc nmea\<rparr>"

definition TimeAndClock_default :: "timespec \<Rightarrow> SystemStatusTimeAndClock" where
  "TimeAndClock_default t =
     \<lparr>mUtcTime = t, mUtcReported = t,
      mGpsWeek = 0, mGpsTowMs = 0, mTimeValid = 0, mTimeSource = 0, mTimeUnc = 0, mClockFreqBias = 0,
      mClockFreqBiasUnc = 0, mLeapSeconds = 0, mLeapSecUnc = 0\<rparr>"

definition TimeAndClock_equals :: "SystemStatusTimeAndClock \<Rightarrow> SystemStatusTimeAndClock \<Rightarrow> bool" where
  "TimeAndClock_equals a b \<longleftrightarrow>
     mGpsWeek a = mGpsWeek b \<and> mGpsTowMs a = mGpsTowMs b \<and> mTimeValid a = mTimeValid b \<and>
     mTimeSource a = mTimeSource b \<and> mTimeUnc a = mTimeUnc b \<and> mClockFreqBias a = mClockFreqBias b \<and>
     mClockFreqBiasUnc a = mClockFreqBiasUnc b \<and> mLeapSeconds a = mLeapSeconds b \<and> mLeapSecUnc a = mLeapSecUnc b"

record SystemStatusXoState = SystemStatusItemBase +
  mXoState :: "8 word"

definition XoState_of :: "timespec \<Rightarrow> SystemStatusPQWM1 \<Rightarrow> SystemStatusXoState" where
  "XoState_of t nmea =
     \<lparr>mUtcTime = t, mUtcReported = t,
      mXoState = SystemStatusPQWM1.mXoState nmea\<rparr>"

definition XoState_default :: "timespec \<Rightarrow> SystemStatusXoState" where
  "XoState_default t =
     \<lparr>mUtcTime = t, mUtcReported = t,
      mXoState = 0\<rparr>"

definition XoState_equals :: "SystemStatusXoState \<Rightarrow> SystemStatusXoState \<Rightarrow> bool" where
  "XoState_equals a b \<longleftrightarrow>
     mXoState a = mXoState b"

record SystemStatusRfAndParams = SystemStatusItemBase +
  mPgaGain :: "32 word"
  mGpsBpAmpI :: "32 word"
  mGpsBpAmpQ :: "32 word"
  mAdcI :: "32 word"
  mAdcQ :: "32 word"
  mJammerGps :: "32 word"
  mJammerGlo :: "32 word"
  mJammerBds :: "32 word"
  mJammerGal :: "32 word"
  mAgcGps :: "64 word"
  mAgcGlo :: "64 word"
  mAgcBds :: "64 word"
  mAgcGal :: "64 word"
  mGloBpAmpI :: "32 word"
  mGloBpAmpQ :: "32 word"
  mBdsBpAmpI :: "32 word"
  mBdsBpAmpQ :: "32 word"
  mGalBpAmpI :: "32 word"
  mGalBpAmpQ :: "32 word"

definition RfAndParams_of :: "timespec \<Rightarrow> SystemStatusPQWM1 \<Rightarrow> SystemStatusRfAndParams" where
  "RfAndParams_of t nmea =
     \<lparr>mUtcTime = t, mUtcReported = t,
      mPgaGain = SystemStatusPQWM1.mPgaGain nmea, mGpsBpAmpI = SystemStatusPQWM1.mGpsBpAmpI nmea, mGpsBpAmpQ = SystemStatusPQWM1.mGpsBpAmpQ nmea,
      mAdcI = SystemStatusPQWM1.mAdcI nmea, mAdcQ = SystemStatusPQWM1.mAdcQ nmea, mJammerGps = SystemStatusPQWM1.mJammerGps nmea,
      mJammerGlo = SystemStatusPQWM1.mJammerGlo nmea, mJammerBds = SystemStatusPQWM1.mJammerBds nmea, mJammerGal = SystemStatusPQWM1.mJammerGal nmea,
      mAgcGps = SystemStatusPQWM1.mAgcGps nmea, mAgcGlo = SystemStatusPQWM1.mAgcGlo nmea, mAgcBds = SystemStatusPQWM1.mAgcBds nmea,
      mAgcGal = SystemStatusPQWM1.mAgcGal nmea, mGloBpAmpI = SystemStatusPQWM1.mGloBpAmpI nmea, mGloBpAmpQ = SystemStatusPQWM1.mGloBpAmpQ nmea,
      mBdsBpAmpI = SystemStatusPQWM1.mBdsBpAmpI nmea, mBdsBpAmpQ = SystemStatusPQWM1.mBdsBpAmpQ nmea, mGalBpAmpI = SystemStatusPQWM1.mGalBpAmpI nmea,
      mGalBpAmpQ = SystemStatusPQWM1.mGalBpAmpQ nmea\<rparr>"

definition RfAndParams_default :: "timespec \<Rightarrow> SystemStatusRfAndParams" where
  "RfAndParams_default t =
     \<lparr>mUtcTime = t, mUtcReported = t,
      mPgaGain = 0, mGpsBpAmpI = 0, mGpsBpAmpQ = 0, mAdcI = 0, mAdcQ = 0, mJammerGps = 0,
      mJammerGlo = 0, mJammerBds = 0, mJammerGal = 0, mAgcGps = 0, mAgcGlo = 0, mAgcBds = 0,
      mAgcGal = 0, mGloBpAmpI = 0, mGloBpAmpQ = 0, mBdsBpAmpI = 0, mBdsBpAmpQ = 0, mGalBpAmpI = 0,
      mGalBpAmpQ = 0\<rparr>"

definition RfAndParams_equals :: "SystemStatusRfAndParams \<Rightarrow> SystemStatusRfAndParams \<Rightarrow> bool" where
  "RfAndParams_equals a b \<longleftrightarrow>
     mPgaGain a = mPgaGain b \<and> mGpsBpAmpI a = mGpsBpAmpI b \<and> mGpsBpAmpQ a = mGpsBpAmpQ b \<and>
     mAdcI a = mAdcI b \<and> mAdcQ a = mAdcQ b \<and> mJammerGps a = mJammerGps b \<and>
     mJammerGlo a = mJammerGlo b \<and> mJammerBds a = mJammerBds b \<and> mJammerGal a = mJammerGal b \<and>
     double_eq (mAgcGps a) (mAgcGps b) \<and> double_eq (mAgcGlo a) (mAgcGlo b) \<and> double_eq (mAgcBds a) (mAgcBds b) \<and>
     double_eq (mAgcGal a) (mAgcGal b) \<and> mGloBpAmpI a = mGloBpAmpI b \<and> mGloBpAmpQ a = mGloBpAmpQ b \<and>
     mBdsBpAmpI a = mBdsBpAmpI b \<and> mBdsBpAmpQ a = mBdsBpAmpQ b \<and> mGalBpAmpI a = mGalBpAmpI b \<and>
     mGalBpAmpQ a = mGalBpAmpQ b"

record SystemStatusErrRecovery = SystemStatusItemBase +
  mRecErrorRecovery :: "32 word"

definition ErrRecovery_of :: "timespec \<Rightarrow> SystemStatusPQWM1 \<Rightarrow> SystemStatusErrRecovery" where
  "ErrRecovery_of t nmea =
     \<lparr>mUtcTime = t, mUtcReported = t,
      mRecErrorRecovery = SystemStatusPQWM1.mRecErrorRecovery nmea\<rparr>"

definition ErrRecovery_default :: "timespec \<Rightarrow> SystemStatusErrRecovery" where
  "ErrRecovery_default t =
     \<lparr>mUtcTime = t, mUtcReported = t,
      mRecErrorRecovery = 0\<rparr>"

definition ErrRecovery_equals :: "SystemStatusErrRecovery \<Rightarrow> SystemStatusErrRecovery \<Rightarrow> bool" where
  "ErrRecovery_equals a b \<longleftrightarrow>
     mRecErrorRecovery a = mRecErrorRecovery b"

record SystemStatusInjectedPosition = SystemStatusItemBase +
  mEpiValidity :: "8 word"
  mEpiLat :: "32 word"
  mEpiLon :: "32 word"
  mEpiAlt :: "32 word"
  mEpiHepe :: "32 word"
  mEpiAltUnc :: "32 word"
  mEpiSrc :: "8 word"

definition InjectedPosition_of :: "timespec \<Rightarrow> SystemStatusPQWP1 \<Rightarrow> SystemStatusInjectedPosition" where
  "InjectedPosition_of t nmea =
     \<lparr>mUtcTime = t, mUtcReported = t,
      mEpiValidity = SystemStatusPQWP1.mEpiValidity nmea, mEpiLat = SystemStatusPQWP1.mEpiLat nmea, mEpiLon = SystemStatusPQWP1.mEpiLon nmea,
      mEpiAlt = SystemStatusPQWP1.mEpiAlt nmea, mEpiHepe = SystemStatusPQWP1.mEpiHepe nmea, mEpiAltUnc = SystemStatusPQWP1.mEpiAltUnc nmea,
      mEpiSrc = SystemStatusPQWP1.mEpiSrc nmea\<rparr>"

definition InjectedPosition_default :: "timespec \<Rightarrow> SystemStatusInjectedPosition" where
  "InjectedPosition_default t =
     \<lparr>mUtcTime = t, mUtcReported = t,
      mEpiValidity = 0, mEpiLat = 0, mEpiLon = 0, mEpiAlt = 0, mEpiHepe = 0, mEpiAltUnc = 0,
      mEpiSrc = 0\<rparr>"

definition InjectedPosition_equals :: "SystemStatusInjectedPosition \<Rightarrow> SystemStatusInjectedPosition \<Rightarrow> bool" where
  "InjectedPosition_equals a b \<longleftrightarrow>
     mEpiValidity a = mEpiValidity b \<and> float_eq (mEpiLat a) (mEpiLat b) \<and> float_eq (mEpiLon a) (mEpiLon b) \<and>
     float_eq (mEpiAlt a) (mEpiAlt b) \<and> float_eq (mEpiHepe a) (mEpiHepe b) \<and> float_eq (mEpiAltUnc a) (mEpiAltUnc b) \<and>
     mEpiSrc a = mEpiSrc b"

record SystemStatusBestPosition = SystemStatusItemBase +
  mValid :: "bool"
  mBestLat :: "32 word"
  mBestLon :: "32 word"
  mBestAlt :: "32 word"
  mBestHepe :: "32 word"
  mBestAltUnc :: "32 word"

definition BestPosition_of :: "timespec \<Rightarrow> SystemStatusPQWP2 \<Rightarrow> SystemStatusBestPosition" where
  "BestPosition_of t nmea =
     \<lparr>mUtcTime = t, mUtcReported = t,
      mValid = True, mBestLat = SystemStatusPQWP2.mBestLat nmea, mBestLon = SystemStatusPQWP2.mBestLon nmea,
      mBestAlt = SystemStatusPQWP2.mBestAlt nmea, mBestHepe = SystemStatusPQWP2.mBestHepe nmea, mBestAltUnc = SystemStatusPQWP2.mBestAltUnc nmea\<rparr>"

definition BestPosition_default :: "timespec \<Rightarrow> SystemStatusBestPosition" where
  "BestPosition_default t =
     \<lparr>mUtcTime = t, mUtcReported = t,
      mValid = False, mBestLat = 0, mBestLon = 0, mBestAlt = 0, mBestHepe = 0, mBestAltUnc = 0\<rparr>"

definition BestPosition_equals :: "SystemStatusBestPosition \<Rightarrow> SystemStatusBestPosition \<Rightarrow> bool" where
  "BestPosition_equals a b \<longleftrightarrow>
     float_eq (mBestLat a) (mBestLat b) \<and> float_eq (mBestLon a) (mBestLon b) \<and> float_eq (mBestAlt a) (mBestAlt b) \<and>
     float_eq (mBestHepe a) (mBestHepe b) \<and> float_eq (mBestAltUnc a) (mBestAltUnc b)"

record SystemStatusXtra = SystemStatusItemBase +
  mXtraValidMask :: "8 word"
  mGpsXtraAge :: "32 word"
  mGloXtraAge :: "32 word"
  mBdsXtraAge :: "32 word"
  mGalXtraAge :: "32 word"
  mQzssXtraAge :: "32 word"
  mGpsXtraValid :: "32 word"
  mGloXtraValid :: "32 word"
  mBdsXtraValid :: "64 word"
  mGalXtraValid :: "64 word"
  mQzssXtraValid :: "8 word"

definition Xtra_of :: "timespec \<Rightarrow> SystemStatusPQWP3 \<Rightarrow> SystemStatusXtra" where
  "Xtra_of t nmea =
     \<lparr>mUtcTime = t, mUtcReported = t,
      mXtraValidMask = SystemStatusPQWP3.mXtraValidMask nmea, mGpsXtraAge = SystemStatusPQWP3.mGpsXtraAge nmea, mGloXtraAge = SystemStatusPQWP3.mGloXtraAge nmea,
      mBdsXtraAge = SystemStatusPQWP3.mBdsXtraAge nmea, mGalXtraAge = SystemStatusPQWP3.mGalXtraAge nmea, mQzssXtraAge = SystemStatusPQWP3.mQzssXtraAge nmea,
      mGpsXtraValid = SystemStatusPQWP3.mGpsXtraValid nmea, mGloXtraValid = SystemStatusPQWP3.mGloXtraValid nmea, mBdsXtraValid = SystemStatusPQWP3.mBdsXtraValid nmea,
      mGalXtraValid = SystemStatusPQWP3.mGalXtraValid nmea, mQzssXtraValid = SystemStatusPQWP3.mQzssXtraValid nmea\<rparr>"

definition Xtra_default :: "timespec \<Rightarrow> SystemStatusXtra" where
  "Xtra_default t =
     \<lparr>mUtcTime = t, mUtcReported = t,
      mXtraValidMask = 0, mGpsXtraAge = 0, mGloXtraAge = 0, mBdsXtraAge = 0, mGalXtraAge = 0, mQzssXtraAge = 0,
      mGpsXtraValid = 0, mGloXtraValid = 0, mBdsXtraValid = 0, mGalXtraValid = 0, mQzssXtraValid = 0\<rparr>"

definition Xtra_equals :: "SystemStatusXtra \<Rightarrow> SystemStatusXtra \<Rightarrow> bool" where
  "Xtra_equals a b \<longleftrightarrow>
     mXtraValidMask a = mXtraValidMask b \<and> mGpsXtraAge a = mGpsXtraAge b \<and> mGloXtraAge a = mGloXtraAge b \<and>
     mBdsXtraAge a = mBdsXtraAge b \<and> mGalXtraAge a = mGalXtraAge b \<and> mQzssXtraAge a = mQzssXtraAge b \<and>
     mGpsXtraValid a = mGpsXtraValid b \<and> mGloXtraValid a = mGloXtraValid b \<and> mBdsXtraValid a = mBdsXtraValid b \<and>
     mGalXtraValid a = mGalXtraValid b \<and> mQzssXtraValid a = mQzssXtraValid b"

record SystemStatusEphemeris = SystemStatusItemBase +
  mGpsEpheValid :: "32 word"
  mGloEpheValid :: "32 word"
  mBdsEpheValid :: "64 word"
  mGalEpheValid :: "64 word"
  mQzssEpheValid :: "8 word"

definition Ephemeris_of :: "timespec \<Rightarrow> SystemStatusPQWP4 \<Rightarrow> SystemStatusEphemeris" where
  "Ephemeris_of t nmea =
     \<lparr>mUtcTime = t, mUtcReported = t,
      mGpsEpheValid = SystemStatusPQWP4.mGpsEpheValid nmea, mGloEpheValid = SystemStatusPQWP4.mGloEpheValid nmea, mBdsEpheValid = SystemStatusPQWP4.mBdsEpheValid nmea,
      mGalEpheValid = SystemStatusPQWP4.mGalEpheValid nmea, mQzssEpheValid = SystemStatusPQWP4.mQzssEpheValid nmea\<rparr>"

definition Ephemeris_default :: "timespec \<Rightarrow> SystemStatusEphemeris" where
  "Ephemeris_default t =
     \<lparr>mUtcTime = t, mUtcReported = t,
      mGpsEpheValid = 0, mGloEpheValid = 0, mBdsEpheValid = 0, mGalEpheValid = 0, mQzssEpheValid = 0\<rparr>"

definition Ephemeris_equals :: "SystemStatusEphemeris \<Rightarrow> SystemStatusEphemeris \<Rightarrow> bool" where
  "Ephemeris_equals a b \<longleftrightarrow>
     mGpsEpheValid a = mGpsEpheValid b \<and> mGloEpheValid a = mGloEpheValid b \<and> mBdsEpheValid a = mBdsEpheValid b \<and>
     mGalEpheValid a = mGalEpheValid b \<and> mQzssEpheValid a = mQzssEpheValid b"

record SystemStatusSvHealth = SystemStatusItemBase +
  mGpsUnknownMask :: "32 word"
  mGloUnknownMask :: "32 word"
  mBdsUnknownMask :: "64 word"
  mGalUnknownMask :: "64 word"
  mQzssUnknownMask :: "8 word"
  mGpsGoodMask :: "32 word"
  mGloGoodMask :: "32 word"
  mBdsGoodMask :: "64 word"
  mGalGoodMask :: "64 word"
  mQzssGoodMask :: "8 word"
  mGpsBadMask :: "32 word"
  mGloBadMask :: "32 word"
  mBdsBadMask :: "64 word"
  mGalBadMask :: "64 word"
  mQzssBadMask :: "8 word"

definition SvHealth_of :: "timespec \<Rightarrow> SystemStatusPQWP5 \<Rightarrow> SystemStatusSvHealth" where
  "SvHealth_of t nmea =
     \<lparr>mUtcTime = t, mUtcReported = t,
      mGpsUnknownMask = SystemStatusPQWP5.mGpsUnknownMask nmea, mGloUnknownMask = SystemStatusPQWP5.mGloUnknownMask nmea, mBdsUnknownMask = SystemStatusPQWP5.mBdsUnknownMask nmea,
      mGalUnknownMask = SystemStatusPQWP5.mGalUnknownMask nmea, mQzssUnknownMask = SystemStatusPQWP5.mQzssUnknownMask nmea, mGpsGoodMask = SystemStatusPQWP5.mGpsGoodMask nmea,
      mGloGoodMask = SystemStatusPQWP5.mGloGoodMask nmea, mBdsGoodMask = SystemStatusPQWP5.mBdsGoodMask nmea, mGalGoodMask = SystemStatusPQWP5.mGalGoodMask nmea,
      mQzssGoodMask = SystemStatusPQWP5.mQzssGoodMask nmea, mGpsBadMask = SystemStatusPQWP5.mGpsBadMask nmea, mGloBadMask = SystemStatusPQWP5.mGloBadMask nmea,
      mBdsBadMask = SystemStatusPQWP5.mBdsBadMask nmea, mGalBadMask = SystemStatusPQWP5.mGalBadMask nmea, mQzssBadMask = SystemStatusPQWP5.mQzssBadMask nmea\<rparr>"

definition SvHealth_default :: "timespec \<Rightarrow> SystemStatusSvHealth" where
  "SvHealth_default t =
     \<lparr>mUtcTime = t, mUtcReported = t,
      mGpsUnknownMask = 0, mGloUnknownMask = 0, mBdsUnknownMask = 0, mGalUnknownMask = 0, mQzssUnknownMask = 0, mGpsGoodMask = 0,
      mGloGoodMask = 0, mBdsGoodMask = 0, mGalGoodMask = 0, mQzssGoodMask = 0, mGpsBadMask = 0, mGloBadMask = 0,
      mBdsBadMask = 0, mGalBadMask = 0, mQzssBadMask = 0\<rparr>"

definition SvHealth_equals :: "SystemStatusSvHealth \<Rightarrow> SystemStatusSvHealth \<Rightarrow> bool" where
  "SvHealth_equals a b \<longleftrightarrow>
     mGpsUnknownMask a = mGpsUnknownMask b \<and> mGloUnknownMask a = mGloUnknownMask b \<and> mBdsUnknownMask a = mBdsUnknownMask b \<and>
     mGalUnknownMask a = mGalUnknownMask b \<and> mQzssUnknownMask a = mQzssUnknownMask b \<and> mGpsGoodMask a = mGpsGoodMask b \<and>
     mGloGoodMask a = mGloGoodMask b \<and> mBdsGoodMask a = mBdsGoodMask b \<and> mGalGoodMask a = mGalGoodMask b \<and>
     mQzssGoodMask a = mQzssGoodMask b \<and> mGpsBadMask a = mGpsBadMask b \<and> mGloBadMask a = mGloBadMask b \<and>
     mBdsBadMask a = mBdsBadMask b \<and> mGalBadMask a = mGalBadMask b \<and> mQzssBadMask a = mQzssBadMask b"

record SystemStatusPdr = SystemStatusItemBase +
  mFixInfoMask :: "32 word"

definition Pdr_of :: "timespec \<Rightarrow> SystemStatusPQWP6 \<Rightarrow> SystemStatusPdr" where
  "Pdr_of t nmea =
     \<lparr>mUtcTime = t, mUtcReported = t,
      mFixInfoMask = SystemStatusPQWP6.mFixInfoMask nmea\<rparr>"

definition Pdr_default :: "timespec \<Rightarrow> SystemStatusPdr" where
  "Pdr_default t =
     \<lparr>mUtcTime = t, mUtcReported = t,
      mFixInfoMask = 0\<rparr>"

definition Pdr_equals :: "SystemStatusPdr \<Rightarrow> SystemStatusPdr \<Rightarrow> bool" where
  "Pdr_equals a b \<longleftrightarrow>
     mFixInfoMask a = mFixInfoMask b"

record SystemStatusPositionFailure = SystemStatusItemBase +
  mFixInfoMask :: "32 word"
  mHepeLimit :: "32 word"

definition PositionFailure_of :: "timespec \<Rightarrow> SystemStatusPQWS1 \<Rightarrow> SystemStatusPositionFailure" where
  "PositionFailure_of t nmea =
     \<lparr>mUtcTime = t, mUtcReported = t,
      mFixInfoMask = SystemStatusPQWS1.mFixInfoMask nmea, mHepeLimit = SystemStatusPQWS1.mHepeLimit nmea\<rparr>"

definition PositionFailure_default :: "timespec \<Rightarrow> SystemStatusPositionFailure" where
  "PositionFailure_default t =
     \<lparr>mUtcTime = t, mUtcReported = t,
      mFixInfoMask = 0, mHepeLimit = 0\<rparr>"

definition PositionFailure_equals :: "SystemStatusPositionFailure \<Rightarrow> SystemStatusPositionFailure \<Rightarrow> bool" where
  "PositionFailure_equals a b \<longleftrightarrow>
     mFixInfoMask a = mFixInfoMask b \<and> mHepeLimit a = mHepeLimit b"

record SystemStatusNavData = SystemStatusItemBase +
  mNav :: "SystemStatusNav list"

definition NavData_of :: "timespec \<Rightarrow> SystemStatusPQWP7 \<Rightarrow> SystemStatusNavData" where
  "NavData_of t nmea = \<lparr>mUtcTime = t, mUtcReported = t, mNav = map (\<lambda>i. SystemStatusPQWP7.mNav nmea ! i) [0..<SV_ALL_NUM]\<rparr>"

definition NavData_default :: "timespec \<Rightarrow> SystemStatusNavData" where
  "NavData_default t =
     \<lparr>mUtcTime = t, mUtcReported = t, mNav = replicate SV_ALL_NUM \<lparr>mType = 0, mSource = 0, mAgeSec = 0\<rparr>\<rparr>"

definition NavData_equals :: "SystemStatusNavData \<Rightarrow> SystemStatusNavData \<Rightarrow> bool" where
  "NavData_equals a b \<longleftrightarrow>
     list_all (\<lambda>i. mType (mNav a ! i) = mType (mNav b ! i) \<and> mSource (mNav a ! i) = mSource (mNav b ! i) \<and>
       mAgeSec (mNav a ! i) = mAgeSec (mNav b ! i)) [0..<SV_ALL_NUM]"

section \<open>Positions\<close>

text \<open>What is looked at in a position; the rest of the two structures is only copied.\<close>

record UlpLocation =
  latitude :: "64 word"
  longitude :: "64 word"
  altitude :: "64 word"
  ulp_rest :: nat

type_synonym GpsLocationExtended = nat

record SystemStatusLocation = SystemStatusItemBase +
  mValid :: bool
  mLocation :: UlpLocation
  mLocationEx :: GpsLocationExtended

definition Location_of :: "timespec \<Rightarrow> UlpLocation \<Rightarrow> GpsLocationExtended \<Rightarrow> SystemStatusLocation" where
  "Location_of t location locationEx =
     \<lparr>mUtcTime = t, mUtcReported = t, mValid = True, mLocation = location, mLocationEx = locationEx\<rparr>"

text \<open>The constructor leaves the position as it finds it.\<close>

definition Location_default :: "timespec \<Rightarrow> UlpLocation \<Rightarrow> GpsLocationExtended \<Rightarrow> SystemStatusLocation" where
  "Location_default t junk junkEx =
     \<lparr>mUtcTime = t, mUtcReported = t, mValid = False, mLocation = junk, mLocationEx = junkEx\<rparr>"

definition Location_equals :: "SystemStatusLocation \<Rightarrow> SystemStatusLocation \<Rightarrow> bool" where
  "Location_equals a b \<longleftrightarrow>
     double_eq (latitude (mLocation a)) (latitude (mLocation b)) \<and> double_eq (longitude (mLocation a)) (longitude (mLocation b)) \<and>
     double_eq (altitude (mLocation a)) (altitude (mLocation b))"

section \<open>Data items\<close>

record AirplaneModeDataItemBase =
  mMode :: bool

record ENHDataItemBase =
  mEnabled :: bool

record GPSStateDataItemBase =
  mEnabled :: bool

record NLPStatusDataItemBase =
  mEnabled :: bool

record WifiHardwareStateDataItemBase =
  mEnabled :: bool

record ScreenStateDataItemBase =
  mState :: bool

record PowerConnectStateDataItemBase =
  mState :: bool

record TimeZoneChangeDataItemBase =
  mCurrTimeMillis :: "64 word"
  mRawOffsetTZ :: "32 word"
  mDstOffsetTZ :: "32 word"

record TimeChangeDataItemBase =
  mCurrTimeMillis :: "64 word"
  mRawOffsetTZ :: "32 word"
  mDstOffsetTZ :: "32 word"

record ShutdownStateDataItemBase =
  mState :: bool

record AssistedGpsDataItemBase =
  mEnabled :: bool

record NetworkInfoDataItemBase =
  mAllTypes :: "64 word"
  mNetType :: "32 word"
  mTypeName :: string
  mSubTypeName :: string
  mAvailable :: bool
  mConnected :: bool
  mRoaming :: bool

record ServiceStatusDataItemBase =
  mServiceState :: "32 word"

record ModelDataItemBase =
  mModel :: string

record ManufacturerDataItemBase =
  mManufacturer :: string

text \<open>
  \<open>mData\<close> is memory that \<open>setPeerData\<close> of a derived class gives to a copy; the base class gives none, so
  it is NULL in everything that is copied from an item of the status.
\<close>

record RilServiceInfoDataItemBase =
  mData :: ptr

record RilCellInfoDataItemBase =
  mData :: ptr

record WifiSupplicantStatusDataItemBase =
  mSuppState :: "32 word"
  mApMacAddressValid :: bool
  mApMacAddress :: "8 word list"
  mWifiApSsidValid :: bool
  mWifiApSsid :: string

record TacDataItemBase =
  mValue :: string

record MccmncDataItemBase =
  mValue :: string

record SrnDeviceScanDetailsDataItemBase =
  mValidSrnData :: bool
  mApSrnRssi :: "32 word"
  mApSrnMacAddress :: "8 word list"
  mApSrnTimestamp :: "64 word"
  mRequestTimestamp :: "64 word"
  mReceiveTimestamp :: "64 word"
  mErrorCause :: "32 word"

text \<open>The item of the status for a data item: the base with its times, and a copy of the data item.\<close>

record 'b data_status = SystemStatusItemBase +
  itemBase :: 'b

definition status_of :: "timespec \<Rightarrow> 'b \<Rightarrow> 'b data_status" where
  "status_of t b = \<lparr>mUtcTime = t, mUtcReported = t, itemBase = b\<rparr>"

type_synonym SystemStatusAirplaneMode = "AirplaneModeDataItemBase data_status"
type_synonym SystemStatusENH = "ENHDataItemBase data_status"
type_synonym SystemStatusGpsState = "GPSStateDataItemBase data_status"
type_synonym SystemStatusNLPStatus = "NLPStatusDataItemBase data_status"
type_synonym SystemStatusWifiHardwareState = "WifiHardwareStateDataItemBase data_status"
type_synonym SystemStatusServiceInfo = "RilServiceInfoDataItemBase data_status"
type_synonym SystemStatusRilCellInfo = "RilCellInfoDataItemBase data_status"
type_synonym SystemStatusServiceStatus = "ServiceStatusDataItemBase data_status"
type_synonym SystemStatusModel = "ModelDataItemBase data_status"
type_synonym SystemStatusManufacturer = "ManufacturerDataItemBase data_status"
type_synonym SystemStatusAssistedGps = "AssistedGpsDataItemBase data_status"
type_synonym SystemStatusScreenState = "ScreenStateDataItemBase data_status"
type_synonym SystemStatusPowerConnectState = "PowerConnectStateDataItemBase data_status"
type_synonym SystemStatusTimeZoneChange = "TimeZoneChangeDataItemBase data_status"
type_synonym SystemStatusTimeChange = "TimeChangeDataItemBase data_status"
type_synonym SystemStatusWifiSupplicantStatus = "WifiSupplicantStatusDataItemBase data_status"
type_synonym SystemStatusShutdownState = "ShutdownStateDataItemBase data_status"
type_synonym SystemStatusTac = "TacDataItemBase data_status"
type_synonym SystemStatusMccMnc = "MccmncDataItemBase data_status"
type_synonym SystemStatusBtDeviceScanDetail = "SrnDeviceScanDetailsDataItemBase data_status"
type_synonym SystemStatusBtleDeviceScanDetail = "SrnDeviceScanDetailsDataItemBase data_status"

definition AirplaneMode_equals :: "SystemStatusAirplaneMode \<Rightarrow> SystemStatusAirplaneMode \<Rightarrow> bool" where
  "AirplaneMode_equals a b \<longleftrightarrow> AirplaneModeDataItemBase.mMode (itemBase a) = AirplaneModeDataItemBase.mMode (itemBase b)"

definition ENH_equals :: "SystemStatusENH \<Rightarrow> SystemStatusENH \<Rightarrow> bool" where
  "ENH_equals a b \<longleftrightarrow> ENHDataItemBase.mEnabled (itemBase a) = ENHDataItemBase.mEnabled (itemBase b)"

definition GpsState_equals :: "SystemStatusGpsState \<Rightarrow> SystemStatusGpsState \<Rightarrow> bool" where
  "GpsState_equals a b \<longleftrightarrow> GPSStateDataItemBase.mEnabled (itemBase a) = GPSStateDataItemBase.mEnabled (itemBase b)"

definition NLPStatus_equals :: "SystemStatusNLPStatus \<Rightarrow> SystemStatusNLPStatus \<Rightarrow> bool" where
  "NLPStatus_equals a b \<longleftrightarrow> NLPStatusDataItemBase.mEnabled (itemBase a) = NLPStatusDataItemBase.mEnabled (itemBase b)"

definition WifiHardwareState_equals :: "SystemStatusWifiHardwareState \<Rightarrow> SystemStatusWifiHardwareState \<Rightarrow> bool" where
  "WifiHardwareState_equals a b \<longleftrightarrow> WifiHardwareStateDataItemBase.mEnabled (itemBase a) = WifiHardwareStateDataItemBase.mEnabled (itemBase b)"

definition ServiceInfo_equals :: "SystemStatusServiceInfo \<Rightarrow> SystemStatusServiceInfo \<Rightarrow> bool" where
  "ServiceInfo_equals a b \<longleftrightarrow> RilServiceInfoDataItemBase.mData (itemBase a) = RilServiceInfoDataItemBase.mData (itemBase b)"

definition RilCellInfo_equals :: "SystemStatusRilCellInfo \<Rightarrow> SystemStatusRilCellInfo \<Rightarrow> bool" where
  "RilCellInfo_equals a b \<longleftrightarrow> RilCellInfoDataItemBase.mData (itemBase a) = RilCellInfoDataItemBase.mData (itemBase b)"

definition ServiceStatus_equals :: "SystemStatusServiceStatus \<Rightarrow> SystemStatusServiceStatus \<Rightarrow> bool" where
  "ServiceStatus_equals a b \<longleftrightarrow> ServiceStatusDataItemBase.mServiceState (itemBase a) = ServiceStatusDataItemBase.mServiceState (itemBase b)"

definition Model_equals :: "SystemStatusModel \<Rightarrow> SystemStatusModel \<Rightarrow> bool" where
  "Model_equals a b \<longleftrightarrow> ModelDataItemBase.mModel (itemBase a) = ModelDataItemBase.mModel (itemBase b)"

definition Manufacturer_equals :: "SystemStatusManufacturer \<Rightarrow> SystemStatusManufacturer \<Rightarrow> bool" where
  "Manufacturer_equals a b \<longleftrightarrow> ManufacturerDataItemBase.mManufacturer (itemBase a) = ManufacturerDataItemBase.mManufacturer (itemBase b)"

definition AssistedGps_equals :: "SystemStatusAssistedGps \<Rightarrow> SystemStatusAssistedGps \<Rightarrow> bool" where
  "AssistedGps_equals a b \<longleftrightarrow> AssistedGpsDataItemBase.mEnabled (itemBase a) = AssistedGpsDataItemBase.mEnabled (itemBase b)"

definition ScreenState_equals :: "SystemStatusScreenState \<Rightarrow> SystemStatusScreenState \<Rightarrow> bool" where
  "ScreenState_equals a b \<longleftrightarrow> ScreenStateDataItemBase.mState (itemBase a) = ScreenStateDataItemBase.mState (itemBase b)"

definition PowerConnectState_equals :: "SystemStatusPowerConnectState \<Rightarrow> SystemStatusPowerConnectState \<Rightarrow> bool" where
  "PowerConnectState_equals a b \<longleftrightarrow> PowerConnectStateDataItemBase.mState (itemBase a) = PowerConnectStateDataItemBase.mState (itemBase b)"

definition TimeZoneChange_equals :: "SystemStatusTimeZoneChange \<Rightarrow> SystemStatusTimeZoneChange \<Rightarrow> bool" where
  "TimeZoneChange_equals a b \<longleftrightarrow> TimeZoneChangeDataItemBase.mCurrTimeMillis (itemBase a) = TimeZoneChangeDataItemBase.mCurrTimeMillis (itemBase b) \<and>
     TimeZoneChangeDataItemBase.mRawOffsetTZ (itemBase a) = TimeZoneChangeDataItemBase.mRawOffsetTZ (itemBase b) \<and>
     TimeZoneChangeDataItemBase.mDstOffsetTZ (itemBase a) = TimeZoneChangeDataItemBase.mDstOffsetTZ (itemBase b)"

definition TimeChange_equals :: "SystemStatusTimeChange \<Rightarrow> SystemStatusTimeChange \<Rightarrow> bool" where
  "TimeChange_equals a b \<longleftrightarrow> TimeChangeDataItemBase.mCurrTimeMillis (itemBase a) = TimeChangeDataItemBase.mCurrTimeMillis (itemBase b) \<and>
     TimeChangeDataItemBase.mRawOffsetTZ (itemBase a) = TimeChangeDataItemBase.mRawOffsetTZ (itemBase b) \<and>
     TimeChangeDataItemBase.mDstOffsetTZ (itemBase a) = TimeChangeDataItemBase.mDstOffsetTZ (itemBase b)"

definition WifiSupplicantStatus_equals :: "SystemStatusWifiSupplicantStatus \<Rightarrow> SystemStatusWifiSupplicantStatus \<Rightarrow> bool" where
  "WifiSupplicantStatus_equals a b \<longleftrightarrow> WifiSupplicantStatusDataItemBase.mSuppState (itemBase a) = WifiSupplicantStatusDataItemBase.mSuppState (itemBase b) \<and>
     WifiSupplicantStatusDataItemBase.mApMacAddressValid (itemBase a) = WifiSupplicantStatusDataItemBase.mApMacAddressValid (itemBase b) \<and>
     WifiSupplicantStatusDataItemBase.mWifiApSsidValid (itemBase a) = WifiSupplicantStatusDataItemBase.mWifiApSsidValid (itemBase b) \<and>
     WifiSupplicantStatusDataItemBase.mWifiApSsid (itemBase a) = WifiSupplicantStatusDataItemBase.mWifiApSsid (itemBase b)"

definition ShutdownState_equals :: "SystemStatusShutdownState \<Rightarrow> SystemStatusShutdownState \<Rightarrow> bool" where
  "ShutdownState_equals a b \<longleftrightarrow> ShutdownStateDataItemBase.mState (itemBase a) = ShutdownStateDataItemBase.mState (itemBase b)"

definition Tac_equals :: "SystemStatusTac \<Rightarrow> SystemStatusTac \<Rightarrow> bool" where
  "Tac_equals a b \<longleftrightarrow> TacDataItemBase.mValue (itemBase a) = TacDataItemBase.mValue (itemBase b)"

definition MccMnc_equals :: "SystemStatusMccMnc \<Rightarrow> SystemStatusMccMnc \<Rightarrow> bool" where
  "MccMnc_equals a b \<longleftrightarrow> MccmncDataItemBase.mValue (itemBase a) = MccmncDataItemBase.mValue (itemBase b)"

definition BtDeviceScanDetail_equals :: "SystemStatusBtDeviceScanDetail \<Rightarrow> SystemStatusBtDeviceScanDetail \<Rightarrow> bool" where
  "BtDeviceScanDetail_equals a b \<longleftrightarrow> True"

definition BtleDeviceScanDetail_equals :: "SystemStatusBtleDeviceScanDetail \<Rightarrow> SystemStatusBtleDeviceScanDetail \<Rightarrow> bool" where
  "BtleDeviceScanDetail_equals a b \<longleftrightarrow> True"

section \<open>Networks\<close>

text \<open>\<open>mSrcObjPtr\<close>: whether the item remembers the data item it was made from.\<close>

record SystemStatusNetworkInfo = SystemStatusItemBase +
  netBase :: NetworkInfoDataItemBase
  mSrcObjPtr :: bool

definition TYPE_UNKNOWN :: int where "TYPE_UNKNOWN = 9"

definition typeToAllTypes :: "int \<Rightarrow> 64 word" where
  "typeToAllTypes type = (if type \<ge> TYPE_UNKNOWN \<or> type < 0 then 0 else push_bit (nat type) 1)"

definition NetworkInfo_of :: "timespec \<Rightarrow> NetworkInfoDataItemBase \<Rightarrow> SystemStatusNetworkInfo" where
  "NetworkInfo_of t b = \<lparr>mUtcTime = t, mUtcReported = t, netBase = b, mSrcObjPtr = True\<rparr>"

definition NetworkInfo_new :: "timespec \<Rightarrow> 32 word \<Rightarrow> string \<Rightarrow> string \<Rightarrow> bool \<Rightarrow> bool \<Rightarrow> SystemStatusNetworkInfo" where
  "NetworkInfo_new t type typeName subTypeName connected roaming =
     \<lparr>mUtcTime = t, mUtcReported = t,
      netBase = \<lparr>mAllTypes = typeToAllTypes (sint type), mNetType = type, mTypeName = typeName, mSubTypeName = subTypeName,
        mAvailable = connected \<and> \<not> roaming, mConnected = connected, mRoaming = roaming\<rparr>,
      mSrcObjPtr = False\<rparr>"

definition NetworkInfo_equals :: "SystemStatusNetworkInfo \<Rightarrow> SystemStatusNetworkInfo \<Rightarrow> bool" where
  "NetworkInfo_equals a b \<longleftrightarrow> mAllTypes (netBase a) = mAllTypes (netBase b)"

text \<open>The types of all networks that are connected, from those of the last report and this change.\<close>

definition NetworkInfo_collate :: "SystemStatusNetworkInfo \<Rightarrow> SystemStatusNetworkInfo \<Rightarrow> SystemStatusNetworkInfo" where
  "NetworkInfo_collate s curInfo =
     (let allTypes = mAllTypes (netBase curInfo); b = netBase s in
      s\<lparr>netBase := b\<lparr>mAllTypes :=
        (if mConnected b then mAllTypes b OR allTypes
         else if mAllTypes b \<noteq> 0 then allTypes AND NOT (mAllTypes b)
         else mAllTypes b)\<rparr>\<rparr>)"

end
