(* ===== verification/SystemStatus.thy ===== *)
theory SystemStatus
  imports StatusItems
begin

text \<open>
  \<open>gps/core/SystemStatus.{h,cpp}\<close>: the cache of the last reports of every kind and its operations. Every
  operation runs under the one mutex, so it is one step. The clock is read by the constructors of the
  items; \<open>tm k\<close> is what it gives to the \<open>k\<close>-th item made in an operation. \<open>status_junk\<close> is what the memory
  of objects that are not initialised holds.
\<close>

section \<open>The cache\<close>

record SystemStatusReports =
  mLocation :: "SystemStatusLocation list"
  mTimeAndClock :: "SystemStatusTimeAndClock list"
  mXoState :: "SystemStatusXoState list"
  mRfAndParams :: "SystemStatusRfAndParams list"
  mErrRecovery :: "SystemStatusErrRecovery list"
  mInjectedPosition :: "SystemStatusInjectedPosition list"
  mBestPosition :: "SystemStatusBestPosition list"
  mXtra :: "SystemStatusXtra list"
  mEphemeris :: "SystemStatusEphemeris list"
  mSvHealth :: "SystemStatusSvHealth list"
  mPdr :: "SystemStatusPdr list"
  mNavData :: "SystemStatusNavData list"
  mPositionFailure :: "SystemStatusPositionFailure list"
  mAirplaneMode :: "SystemStatusAirplaneMode list"
  mENH :: "SystemStatusENH list"
  mGPSState :: "SystemStatusGpsState list"
  mNLPStatus :: "SystemStatusNLPStatus list"
  mWifiHardwareState :: "SystemStatusWifiHardwareState list"
  mNetworkInfo :: "SystemStatusNetworkInfo list"
  mRilServiceInfo :: "SystemStatusServiceInfo list"
  mRilCellInfo :: "SystemStatusRilCellInfo list"
  mServiceStatus :: "SystemStatusServiceStatus list"
  mModel :: "SystemStatusModel list"
  mManufacturer :: "SystemStatusManufacturer list"
  mAssistedGps :: "SystemStatusAssistedGps list"
  mScreenState :: "SystemStatusScreenState list"
  mPowerConnectState :: "SystemStatusPowerConnectState list"
  mTimeZoneChange :: "SystemStatusTimeZoneChange list"
  mTimeChange :: "SystemStatusTimeChange list"
  mWifiSupplicantStatus :: "SystemStatusWifiSupplicantStatus list"
  mShutdownState :: "SystemStatusShutdownState list"
  mTac :: "SystemStatusTac list"
  mMccMnc :: "SystemStatusMccMnc list"
  mBtDeviceScanDetail :: "SystemStatusBtDeviceScanDetail list"
  mBtLeDeviceScanDetail :: "SystemStatusBtleDeviceScanDetail list"

definition empty_reports :: SystemStatusReports where
  "empty_reports =
     \<lparr>mLocation = [], mTimeAndClock = [], mXoState = [], mRfAndParams = [], mErrRecovery = [],
      mInjectedPosition = [], mBestPosition = [], mXtra = [], mEphemeris = [], mSvHealth = [],
      mPdr = [], mNavData = [], mPositionFailure = [], mAirplaneMode = [], mENH = [],
      mGPSState = [], mNLPStatus = [], mWifiHardwareState = [], mNetworkInfo = [], mRilServiceInfo = [],
      mRilCellInfo = [], mServiceStatus = [], mModel = [], mManufacturer = [], mAssistedGps = [],
      mScreenState = [], mPowerConnectState = [], mTimeZoneChange = [], mTimeChange = [], mWifiSupplicantStatus = [],
      mShutdownState = [], mTac = [], mMccMnc = [], mBtDeviceScanDetail = [], mBtLeDeviceScanDetail = []\<rparr>"

text \<open>What the template takes from the class of the items.\<close>

record 'i item_class =
  collate :: "'i \<Rightarrow> 'i \<Rightarrow> 'i"
  equal_items :: "'i \<Rightarrow> 'i \<Rightarrow> bool"

abbreviation plain :: "('i \<Rightarrow> 'i \<Rightarrow> bool) \<Rightarrow> 'i item_class" where
  "plain eq \<equiv> \<lparr>collate = (\<lambda>s _. s), equal_items = eq\<rparr>"

text \<open>Whether there is something new, the report, and the item after it was collated.\<close>

definition setIteminReport ::
  "'a SystemStatusItemBase_scheme item_class \<Rightarrow> 'a SystemStatusItemBase_scheme list \<Rightarrow> 'a SystemStatusItemBase_scheme \<Rightarrow>
     bool \<times> 'a SystemStatusItemBase_scheme list \<times> 'a SystemStatusItemBase_scheme" where
  "setIteminReport c report s =
     (let s = (if report \<noteq> [] then collate c s (last report) else s) in
      if report \<noteq> [] \<and> equal_items c (last report) s then
        (False, butlast report @ [last report\<lparr>mUtcReported := mUtcReported s\<rparr>], s)
      else
        (let report = report @ [s] in (True, if length report > maxItem then tl report else report, s)))"

definition setDefaultIteminReport :: "'i list \<Rightarrow> 'i \<Rightarrow> 'i list" where
  "setDefaultIteminReport report s = (let report = report @ [s] in if length report > maxItem then tl report else report)"

definition getIteminReport :: "'i list \<Rightarrow> 'i list" where
  "getIteminReport c = (if length c \<ge> 1 then [last c] else [])"

abbreviation set_item where
  "set_item eq report s \<equiv> fst (snd (setIteminReport (plain eq) report s))"

section \<open>Debug sentences\<close>

record status_junk =
  junk_P1 :: SystemStatusPQWP1
  junk_P2 :: SystemStatusPQWP2
  junk_P3 :: SystemStatusPQWP3
  junk_P4 :: SystemStatusPQWP4
  junk_P5 :: SystemStatusPQWP5
  junk_P6 :: SystemStatusPQWP6
  junk_P7 :: SystemStatusPQWP7
  junk_S1 :: SystemStatusPQWS1
  junk_location :: UlpLocation
  junk_locationEx :: GpsLocationExtended

definition setNmeaString ::
  "nmea_env \<Rightarrow> status_junk \<Rightarrow> (nat \<Rightarrow> timespec) \<Rightarrow> string option \<Rightarrow> int \<Rightarrow> SystemStatusReports \<Rightarrow> bool \<times> SystemStatusReports" where
  "setNmeaString env junk tm data len r =
     (if \<not> loc_nmea_is_debug data len then (False, r)
      else
        (let buf = take (nat DEBUG_NMEA_MAXSIZE) (the data); is = (\<lambda>t. take 6 (the data) = t) in
         (True,
          if is ''$PQWM1'' then
            (let s = SystemStatusPQWM1parser env buf len in
             r\<lparr>mTimeAndClock := set_item TimeAndClock_equals (mTimeAndClock r) (TimeAndClock_of (tm 0) s),
               mXoState := set_item XoState_equals (mXoState r) (XoState_of (tm 1) s),
               mRfAndParams := set_item RfAndParams_equals (mRfAndParams r) (RfAndParams_of (tm 2) s),
               mErrRecovery := set_item ErrRecovery_equals (mErrRecovery r) (ErrRecovery_of (tm 3) s)\<rparr>)
          else if is ''$PQWP1'' then
            r\<lparr>mInjectedPosition := set_item InjectedPosition_equals (mInjectedPosition r) (InjectedPosition_of (tm 0) (SystemStatusPQWP1parser env (junk_P1 junk) buf len))\<rparr>
          else if is ''$PQWP2'' then
            r\<lparr>mBestPosition := set_item BestPosition_equals (mBestPosition r) (BestPosition_of (tm 0) (SystemStatusPQWP2parser env (junk_P2 junk) buf len))\<rparr>
          else if is ''$PQWP3'' then
            r\<lparr>mXtra := set_item Xtra_equals (mXtra r) (Xtra_of (tm 0) (SystemStatusPQWP3parser env (junk_P3 junk) buf len))\<rparr>
          else if is ''$PQWP4'' then
            r\<lparr>mEphemeris := set_item Ephemeris_equals (mEphemeris r) (Ephemeris_of (tm 0) (SystemStatusPQWP4parser env (junk_P4 junk) buf len))\<rparr>
          else if is ''$PQWP5'' then
            r\<lparr>mSvHealth := set_item SvHealth_equals (mSvHealth r) (SvHealth_of (tm 0) (SystemStatusPQWP5parser env (junk_P5 junk) buf len))\<rparr>
          else if is ''$PQWP6'' then
            r\<lparr>mPdr := set_item Pdr_equals (mPdr r) (Pdr_of (tm 0) (SystemStatusPQWP6parser env (junk_P6 junk) buf len))\<rparr>
          else if is ''$PQWP7'' then
            r\<lparr>mNavData := set_item NavData_equals (mNavData r) (NavData_of (tm 0) (SystemStatusPQWP7parser env (junk_P7 junk) buf len))\<rparr>
          else if is ''$PQWS1'' then
            r\<lparr>mPositionFailure := set_item PositionFailure_equals (mPositionFailure r) (PositionFailure_of (tm 0) (SystemStatusPQWS1parser env (junk_S1 junk) buf len))\<rparr>
          else r)))"

definition eventPosition ::
  "(nat \<Rightarrow> timespec) \<Rightarrow> UlpLocation \<Rightarrow> GpsLocationExtended \<Rightarrow> SystemStatusReports \<Rightarrow> bool \<times> SystemStatusReports" where
  "eventPosition tm location locationEx r =
     (let (ret, l, _) = setIteminReport (plain Location_equals) (mLocation r) (Location_of (tm 0) location locationEx) in
      (ret, r\<lparr>mLocation := l\<rparr>))"

section \<open>Data items\<close>

text \<open>A data item of the library; its class tells its identifier.\<close>

datatype data_item =
    AirplaneModeDataItem AirplaneModeDataItemBase
  | ENHDataItem ENHDataItemBase
  | GPSStateDataItem GPSStateDataItemBase
  | NLPStatusDataItem NLPStatusDataItemBase
  | WifiHardwareStateDataItem WifiHardwareStateDataItemBase
  | NetworkInfoDataItem NetworkInfoDataItemBase
  | RilServiceInfoDataItem RilServiceInfoDataItemBase
  | RilCellInfoDataItem RilCellInfoDataItemBase
  | ServiceStatusDataItem ServiceStatusDataItemBase
  | ModelDataItem ModelDataItemBase
  | ManufacturerDataItem ManufacturerDataItemBase
  | AssistedGpsDataItem AssistedGpsDataItemBase
  | ScreenStateDataItem ScreenStateDataItemBase
  | PowerConnectStateDataItem PowerConnectStateDataItemBase
  | TimeZoneChangeDataItem TimeZoneChangeDataItemBase
  | TimeChangeDataItem TimeChangeDataItemBase
  | WifiSupplicantStatusDataItem WifiSupplicantStatusDataItemBase
  | ShutdownStateDataItem ShutdownStateDataItemBase
  | TacDataItem TacDataItemBase
  | MccmncDataItem MccmncDataItemBase
  | BtLeDeviceScanDetailsDataItem SrnDeviceScanDetailsDataItemBase
  | BtDeviceScanDetailsDataItem SrnDeviceScanDetailsDataItemBase
  | OtherDataItem int

abbreviation network_class :: "SystemStatusNetworkInfo item_class" where
  "network_class \<equiv> \<lparr>collate = NetworkInfo_collate, equal_items = NetworkInfo_equals\<rparr>"

text \<open>Items with \<open>mData\<close> are copied into the report by the base class, which gives the copy none.\<close>

definition stored_service :: "SystemStatusServiceInfo \<Rightarrow> SystemStatusServiceInfo" where
  "stored_service s = s\<lparr>itemBase := \<lparr>RilServiceInfoDataItemBase.mData = NULL\<rparr>\<rparr>"

definition stored_cell :: "SystemStatusRilCellInfo \<Rightarrow> SystemStatusRilCellInfo" where
  "stored_cell s = s\<lparr>itemBase := \<lparr>RilCellInfoDataItemBase.mData = NULL\<rparr>\<rparr>"

text \<open>
  Whether there is something new, the cache, and the data item, whose network types are collated too. A
  Bluetooth item is kept in the report of the other kind.
\<close>

definition eventDataItemNotify :: "timespec \<Rightarrow> data_item \<Rightarrow> SystemStatusReports \<Rightarrow> bool \<times> SystemStatusReports \<times> data_item" where
  "eventDataItemNotify t dataitem r =
     (case dataitem of
       AirplaneModeDataItem b \<Rightarrow>
          (let (ret, l, _) = setIteminReport (plain AirplaneMode_equals) (mAirplaneMode r) (status_of t b) in (ret, r\<lparr>mAirplaneMode := l\<rparr>, dataitem))
     | ENHDataItem b \<Rightarrow>
          (let (ret, l, _) = setIteminReport (plain ENH_equals) (mENH r) (status_of t b) in (ret, r\<lparr>mENH := l\<rparr>, dataitem))
     | GPSStateDataItem b \<Rightarrow>
          (let (ret, l, _) = setIteminReport (plain GpsState_equals) (mGPSState r) (status_of t b) in (ret, r\<lparr>mGPSState := l\<rparr>, dataitem))
     | NLPStatusDataItem b \<Rightarrow>
          (let (ret, l, _) = setIteminReport (plain NLPStatus_equals) (mNLPStatus r) (status_of t b) in (ret, r\<lparr>mNLPStatus := l\<rparr>, dataitem))
     | WifiHardwareStateDataItem b \<Rightarrow>
          (let (ret, l, _) = setIteminReport (plain WifiHardwareState_equals) (mWifiHardwareState r) (status_of t b) in (ret, r\<lparr>mWifiHardwareState := l\<rparr>, dataitem))
     | NetworkInfoDataItem b \<Rightarrow>
          (let (ret, l, s) = setIteminReport network_class (mNetworkInfo r) (NetworkInfo_of t b) in
           (ret, r\<lparr>mNetworkInfo := l\<rparr>, NetworkInfoDataItem (b\<lparr>mAllTypes := mAllTypes (netBase s)\<rparr>)))
     | RilServiceInfoDataItem b \<Rightarrow>
          (let (ret, l, _) = setIteminReport (plain ServiceInfo_equals) (mRilServiceInfo r) (status_of t b) in (ret, r\<lparr>mRilServiceInfo := map stored_service l\<rparr>, dataitem))
     | RilCellInfoDataItem b \<Rightarrow>
          (let (ret, l, _) = setIteminReport (plain RilCellInfo_equals) (mRilCellInfo r) (status_of t b) in (ret, r\<lparr>mRilCellInfo := map stored_cell l\<rparr>, dataitem))
     | ServiceStatusDataItem b \<Rightarrow>
          (let (ret, l, _) = setIteminReport (plain ServiceStatus_equals) (mServiceStatus r) (status_of t b) in (ret, r\<lparr>mServiceStatus := l\<rparr>, dataitem))
     | ModelDataItem b \<Rightarrow>
          (let (ret, l, _) = setIteminReport (plain Model_equals) (mModel r) (status_of t b) in (ret, r\<lparr>mModel := l\<rparr>, dataitem))
     | ManufacturerDataItem b \<Rightarrow>
          (let (ret, l, _) = setIteminReport (plain Manufacturer_equals) (mManufacturer r) (status_of t b) in (ret, r\<lparr>mManufacturer := l\<rparr>, dataitem))
     | AssistedGpsDataItem b \<Rightarrow>
          (let (ret, l, _) = setIteminReport (plain AssistedGps_equals) (mAssistedGps r) (status_of t b) in (ret, r\<lparr>mAssistedGps := l\<rparr>, dataitem))
     | ScreenStateDataItem b \<Rightarrow>
          (let (ret, l, _) = setIteminReport (plain ScreenState_equals) (mScreenState r) (status_of t b) in (ret, r\<lparr>mScreenState := l\<rparr>, dataitem))
     | PowerConnectStateDataItem b \<Rightarrow>
          (let (ret, l, _) = setIteminReport (plain PowerConnectState_equals) (mPowerConnectState r) (status_of t b) in (ret, r\<lparr>mPowerConnectState := l\<rparr>, dataitem))
     | TimeZoneChangeDataItem b \<Rightarrow>
          (let (ret, l, _) = setIteminReport (plain TimeZoneChange_equals) (mTimeZoneChange r) (status_of t b) in (ret, r\<lparr>mTimeZoneChange := l\<rparr>, dataitem))
     | TimeChangeDataItem b \<Rightarrow>
          (let (ret, l, _) = setIteminReport (plain TimeChange_equals) (mTimeChange r) (status_of t b) in (ret, r\<lparr>mTimeChange := l\<rparr>, dataitem))
     | WifiSupplicantStatusDataItem b \<Rightarrow>
          (let (ret, l, _) = setIteminReport (plain WifiSupplicantStatus_equals) (mWifiSupplicantStatus r) (status_of t b) in (ret, r\<lparr>mWifiSupplicantStatus := l\<rparr>, dataitem))
     | ShutdownStateDataItem b \<Rightarrow>
          (let (ret, l, _) = setIteminReport (plain ShutdownState_equals) (mShutdownState r) (status_of t b) in (ret, r\<lparr>mShutdownState := l\<rparr>, dataitem))
     | TacDataItem b \<Rightarrow>
          (let (ret, l, _) = setIteminReport (plain Tac_equals) (mTac r) (status_of t b) in (ret, r\<lparr>mTac := l\<rparr>, dataitem))
     | MccmncDataItem b \<Rightarrow>
          (let (ret, l, _) = setIteminReport (plain MccMnc_equals) (mMccMnc r) (status_of t b) in (ret, r\<lparr>mMccMnc := l\<rparr>, dataitem))
     | BtLeDeviceScanDetailsDataItem b \<Rightarrow>
          (let (ret, l, _) = setIteminReport (plain BtDeviceScanDetail_equals) (mBtDeviceScanDetail r) (status_of t b) in (ret, r\<lparr>mBtDeviceScanDetail := l\<rparr>, dataitem))
     | BtDeviceScanDetailsDataItem b \<Rightarrow>
          (let (ret, l, _) = setIteminReport (plain BtleDeviceScanDetail_equals) (mBtLeDeviceScanDetail r) (status_of t b) in (ret, r\<lparr>mBtLeDeviceScanDetail := l\<rparr>, dataitem))
     | OtherDataItem k \<Rightarrow> (False, r, dataitem))"

section \<open>Reading and resetting\<close>

definition getReport :: "bool \<Rightarrow> SystemStatusReports \<Rightarrow> SystemStatusReports" where
  "getReport isLatestOnly mCache =
     (if isLatestOnly then
        \<lparr>mLocation = getIteminReport (mLocation mCache), mTimeAndClock = getIteminReport (mTimeAndClock mCache),
         mXoState = getIteminReport (mXoState mCache), mRfAndParams = getIteminReport (mRfAndParams mCache),
         mErrRecovery = getIteminReport (mErrRecovery mCache), mInjectedPosition = getIteminReport (mInjectedPosition mCache),
         mBestPosition = getIteminReport (mBestPosition mCache), mXtra = getIteminReport (mXtra mCache),
         mEphemeris = getIteminReport (mEphemeris mCache), mSvHealth = getIteminReport (mSvHealth mCache),
         mPdr = getIteminReport (mPdr mCache), mNavData = getIteminReport (mNavData mCache),
         mPositionFailure = getIteminReport (mPositionFailure mCache), mAirplaneMode = getIteminReport (mAirplaneMode mCache),
         mENH = getIteminReport (mENH mCache), mGPSState = getIteminReport (mGPSState mCache),
         mNLPStatus = getIteminReport (mNLPStatus mCache), mWifiHardwareState = getIteminReport (mWifiHardwareState mCache),
         mNetworkInfo = getIteminReport (mNetworkInfo mCache), mRilServiceInfo = getIteminReport (mRilServiceInfo mCache),
         mRilCellInfo = getIteminReport (mRilCellInfo mCache), mServiceStatus = getIteminReport (mServiceStatus mCache),
         mModel = getIteminReport (mModel mCache), mManufacturer = getIteminReport (mManufacturer mCache),
         mAssistedGps = getIteminReport (mAssistedGps mCache), mScreenState = getIteminReport (mScreenState mCache),
         mPowerConnectState = getIteminReport (mPowerConnectState mCache), mTimeZoneChange = getIteminReport (mTimeZoneChange mCache),
         mTimeChange = getIteminReport (mTimeChange mCache), mWifiSupplicantStatus = getIteminReport (mWifiSupplicantStatus mCache),
         mShutdownState = getIteminReport (mShutdownState mCache), mTac = getIteminReport (mTac mCache),
         mMccMnc = getIteminReport (mMccMnc mCache), mBtDeviceScanDetail = getIteminReport (mBtDeviceScanDetail mCache),
         mBtLeDeviceScanDetail = getIteminReport (mBtLeDeviceScanDetail mCache)\<rparr>
      else mCache)"

definition setDefaultGnssEngineStates :: "status_junk \<Rightarrow> (nat \<Rightarrow> timespec) \<Rightarrow> SystemStatusReports \<Rightarrow> bool \<times> SystemStatusReports" where
  "setDefaultGnssEngineStates junk tm r =
     (True,
      r\<lparr>mLocation := setDefaultIteminReport (mLocation r) (Location_default (tm 0) (junk_location junk) (junk_locationEx junk)),
        mTimeAndClock := setDefaultIteminReport (mTimeAndClock r) (TimeAndClock_default (tm 1)),
        mXoState := setDefaultIteminReport (mXoState r) (XoState_default (tm 2)),
        mRfAndParams := setDefaultIteminReport (mRfAndParams r) (RfAndParams_default (tm 3)),
        mErrRecovery := setDefaultIteminReport (mErrRecovery r) (ErrRecovery_default (tm 4)),
        mInjectedPosition := setDefaultIteminReport (mInjectedPosition r) (InjectedPosition_default (tm 5)),
        mBestPosition := setDefaultIteminReport (mBestPosition r) (BestPosition_default (tm 6)),
        mXtra := setDefaultIteminReport (mXtra r) (Xtra_default (tm 7)),
        mEphemeris := setDefaultIteminReport (mEphemeris r) (Ephemeris_default (tm 8)),
        mSvHealth := setDefaultIteminReport (mSvHealth r) (SvHealth_default (tm 9)),
        mPdr := setDefaultIteminReport (mPdr r) (Pdr_default (tm 10)),
        mNavData := setDefaultIteminReport (mNavData r) (NavData_default (tm 11)),
        mPositionFailure := setDefaultIteminReport (mPositionFailure r) (PositionFailure_default (tm 12))\<rparr>)"

text \<open>The status of a connection, from the radio: the data items that are given to the observer.\<close>

definition eventConnectionStatus :: "timespec \<Rightarrow> bool \<Rightarrow> 8 word \<Rightarrow> bool \<times> data_item list" where
  "eventConnectionStatus t connected type =
     (True, [NetworkInfoDataItem (netBase (NetworkInfo_new t (scast type) [] [] connected False))])"

section \<open>The instance\<close>

text \<open>\<open>None\<close>: there is no instance. A task is given, and whether there is memory.\<close>

definition SystemStatus_getInstance :: "bool \<Rightarrow> bool \<Rightarrow> SystemStatusReports option \<Rightarrow> SystemStatusReports option" where
  "SystemStatus_getInstance msgTask memory_left mInstance =
     (if mInstance = None then (if \<not> msgTask then None else if memory_left then Some empty_reports else None) else mInstance)"

definition SystemStatus_destroyInstance :: "SystemStatusReports option \<Rightarrow> SystemStatusReports option" where
  "SystemStatus_destroyInstance mInstance = None"

end
