(* ===== verification/SystemStatusProofs.thy ===== *)
theory SystemStatusProofs
  imports SystemStatus
begin

text \<open>
  The cache keeps at most five reports of a kind, each different from the one before, whatever happens;
  the last one is what was reported. The types of the connected networks follow the connections. Masks
  of satellites survive printing and parsing where a \<open>long\<close> is wide enough, and not on this device.
\<close>

unbundle bit_operations_syntax

section \<open>Reports of one kind\<close>

definition report_ok :: "'a SystemStatusItemBase_scheme item_class \<Rightarrow> 'a SystemStatusItemBase_scheme list \<Rightarrow> bool" where
  "report_ok c r \<longleftrightarrow> length r \<le> maxItem \<and> successively (\<lambda>a b. \<not> equal_items c a b) r"

lemma report_ok_Nil [simp]: "report_ok c []"
  by (simp add: report_ok_def)

text \<open>What a class promises: its comparison does not look at the time of the report.\<close>

locale report_kind =
  fixes c :: "'a SystemStatusItemBase_scheme item_class"
  assumes time_blind: "equal_items c a (b\<lparr>mUtcReported := t\<rparr>) \<longleftrightarrow> equal_items c a b"
begin

lemma set_ok:
  assumes "report_ok c r"
  shows "report_ok c (fst (snd (setIteminReport c r s)))"
proof -
  let ?s = "if r \<noteq> [] then collate c s (last r) else s"
  show ?thesis
  proof (cases "r \<noteq> [] \<and> equal_items c (last r) ?s")
    case True
    then have set: "fst (snd (setIteminReport c r s)) = butlast r @ [last r\<lparr>mUtcReported := mUtcReported ?s\<rparr>]"
      by (auto simp: setIteminReport_def Let_def)
    obtain b l where r: "r = b @ [l]" using True by (cases r rule: rev_cases) auto
    have "successively (\<lambda>a b. \<not> equal_items c a b) (b @ [l])" "length r \<le> maxItem" using assms r by (simp_all add: report_ok_def)
    then show ?thesis unfolding set unfolding r report_ok_def
      by (auto simp: successively_append_iff time_blind)
  next
    case False
    let ?r = "r @ [?s]"
    have set: "fst (snd (setIteminReport c r s)) = (if length ?r > maxItem then tl ?r else ?r)"
      using False by (auto simp: setIteminReport_def Let_def)
    have succ: "successively (\<lambda>a b. \<not> equal_items c a b) ?r"
      using assms False by (auto simp: report_ok_def successively_append_iff)
    then have "successively (\<lambda>a b. \<not> equal_items c a b) (tl ?r)" by (cases r) (auto simp: successively_Cons)
    then show ?thesis using succ assms unfolding set by (auto simp: report_ok_def)
  qed
qed

text \<open>The last report is what was set, or was equal to it and is marked as reported again.\<close>

lemma set_last:
  "\<exists>ret r' s'. setIteminReport c r s = (ret, r', s') \<and> r' \<noteq> [] \<and> s' = (if r \<noteq> [] then collate c s (last r) else s) \<and>
     (ret \<longrightarrow> last r' = s') \<and>
     (\<not> ret \<longrightarrow> r \<noteq> [] \<and> equal_items c (last r) s' \<and> r' = butlast r @ [last r\<lparr>mUtcReported := mUtcReported s'\<rparr>])"
proof -
  let ?s = "if r \<noteq> [] then collate c s (last r) else s"
  show ?thesis
  proof (cases "r \<noteq> [] \<and> equal_items c (last r) ?s")
    case True
    then show ?thesis by (auto simp: setIteminReport_def Let_def)
  next
    case False
    let ?r = "if length (r @ [?s]) > maxItem then tl (r @ [?s]) else r @ [?s]"
    have "?r \<noteq> []" "last ?r = ?s" by (auto simp: maxItem_def tl_append split: list.splits)
    then show ?thesis using False by (auto simp: setIteminReport_def Let_def)
  qed
qed

end

lemma default_bounded: "length r \<le> maxItem \<Longrightarrow> length (setDefaultIteminReport r s) \<le> maxItem"
  by (simp add: setDefaultIteminReport_def Let_def)

section \<open>The kinds\<close>

interpretation Location_kind: report_kind "plain Location_equals"
  by unfold_locales (simp add: Location_equals_def)

interpretation TimeAndClock_kind: report_kind "plain TimeAndClock_equals"
  by unfold_locales (simp add: TimeAndClock_equals_def)

interpretation XoState_kind: report_kind "plain XoState_equals"
  by unfold_locales (simp add: XoState_equals_def)

interpretation RfAndParams_kind: report_kind "plain RfAndParams_equals"
  by unfold_locales (simp add: RfAndParams_equals_def)

interpretation ErrRecovery_kind: report_kind "plain ErrRecovery_equals"
  by unfold_locales (simp add: ErrRecovery_equals_def)

interpretation InjectedPosition_kind: report_kind "plain InjectedPosition_equals"
  by unfold_locales (simp add: InjectedPosition_equals_def)

interpretation BestPosition_kind: report_kind "plain BestPosition_equals"
  by unfold_locales (simp add: BestPosition_equals_def)

interpretation Xtra_kind: report_kind "plain Xtra_equals"
  by unfold_locales (simp add: Xtra_equals_def)

interpretation Ephemeris_kind: report_kind "plain Ephemeris_equals"
  by unfold_locales (simp add: Ephemeris_equals_def)

interpretation SvHealth_kind: report_kind "plain SvHealth_equals"
  by unfold_locales (simp add: SvHealth_equals_def)

interpretation Pdr_kind: report_kind "plain Pdr_equals"
  by unfold_locales (simp add: Pdr_equals_def)

interpretation NavData_kind: report_kind "plain NavData_equals"
  by unfold_locales (simp add: NavData_equals_def)

interpretation PositionFailure_kind: report_kind "plain PositionFailure_equals"
  by unfold_locales (simp add: PositionFailure_equals_def)

interpretation AirplaneMode_kind: report_kind "plain AirplaneMode_equals"
  by unfold_locales (simp add: AirplaneMode_equals_def)

interpretation ENH_kind: report_kind "plain ENH_equals"
  by unfold_locales (simp add: ENH_equals_def)

interpretation GpsState_kind: report_kind "plain GpsState_equals"
  by unfold_locales (simp add: GpsState_equals_def)

interpretation NLPStatus_kind: report_kind "plain NLPStatus_equals"
  by unfold_locales (simp add: NLPStatus_equals_def)

interpretation WifiHardwareState_kind: report_kind "plain WifiHardwareState_equals"
  by unfold_locales (simp add: WifiHardwareState_equals_def)

interpretation NetworkInfo_kind: report_kind network_class
  by unfold_locales (simp add: NetworkInfo_equals_def)

interpretation ServiceInfo_kind: report_kind "plain ServiceInfo_equals"
  by unfold_locales (simp add: ServiceInfo_equals_def)

interpretation RilCellInfo_kind: report_kind "plain RilCellInfo_equals"
  by unfold_locales (simp add: RilCellInfo_equals_def)

interpretation ServiceStatus_kind: report_kind "plain ServiceStatus_equals"
  by unfold_locales (simp add: ServiceStatus_equals_def)

interpretation Model_kind: report_kind "plain Model_equals"
  by unfold_locales (simp add: Model_equals_def)

interpretation Manufacturer_kind: report_kind "plain Manufacturer_equals"
  by unfold_locales (simp add: Manufacturer_equals_def)

interpretation AssistedGps_kind: report_kind "plain AssistedGps_equals"
  by unfold_locales (simp add: AssistedGps_equals_def)

interpretation ScreenState_kind: report_kind "plain ScreenState_equals"
  by unfold_locales (simp add: ScreenState_equals_def)

interpretation PowerConnectState_kind: report_kind "plain PowerConnectState_equals"
  by unfold_locales (simp add: PowerConnectState_equals_def)

interpretation TimeZoneChange_kind: report_kind "plain TimeZoneChange_equals"
  by unfold_locales (simp add: TimeZoneChange_equals_def)

interpretation TimeChange_kind: report_kind "plain TimeChange_equals"
  by unfold_locales (simp add: TimeChange_equals_def)

interpretation WifiSupplicantStatus_kind: report_kind "plain WifiSupplicantStatus_equals"
  by unfold_locales (simp add: WifiSupplicantStatus_equals_def)

interpretation ShutdownState_kind: report_kind "plain ShutdownState_equals"
  by unfold_locales (simp add: ShutdownState_equals_def)

interpretation Tac_kind: report_kind "plain Tac_equals"
  by unfold_locales (simp add: Tac_equals_def)

interpretation MccMnc_kind: report_kind "plain MccMnc_equals"
  by unfold_locales (simp add: MccMnc_equals_def)

interpretation BtDeviceScanDetail_kind: report_kind "plain BtDeviceScanDetail_equals"
  by unfold_locales (simp add: BtDeviceScanDetail_equals_def)

interpretation BtleDeviceScanDetail_kind: report_kind "plain BtleDeviceScanDetail_equals"
  by unfold_locales (simp add: BtleDeviceScanDetail_equals_def)

definition cache_ok :: "SystemStatusReports \<Rightarrow> bool" where
  "cache_ok r \<longleftrightarrow>
     report_ok (plain Location_equals) (mLocation r) \<and> report_ok (plain TimeAndClock_equals) (mTimeAndClock r) \<and>
     report_ok (plain XoState_equals) (mXoState r) \<and> report_ok (plain RfAndParams_equals) (mRfAndParams r) \<and>
     report_ok (plain ErrRecovery_equals) (mErrRecovery r) \<and> report_ok (plain InjectedPosition_equals) (mInjectedPosition r) \<and>
     report_ok (plain BestPosition_equals) (mBestPosition r) \<and> report_ok (plain Xtra_equals) (mXtra r) \<and>
     report_ok (plain Ephemeris_equals) (mEphemeris r) \<and> report_ok (plain SvHealth_equals) (mSvHealth r) \<and>
     report_ok (plain Pdr_equals) (mPdr r) \<and> report_ok (plain NavData_equals) (mNavData r) \<and>
     report_ok (plain PositionFailure_equals) (mPositionFailure r) \<and> report_ok (plain AirplaneMode_equals) (mAirplaneMode r) \<and>
     report_ok (plain ENH_equals) (mENH r) \<and> report_ok (plain GpsState_equals) (mGPSState r) \<and>
     report_ok (plain NLPStatus_equals) (mNLPStatus r) \<and> report_ok (plain WifiHardwareState_equals) (mWifiHardwareState r) \<and>
     report_ok network_class (mNetworkInfo r) \<and> length (mRilServiceInfo r) \<le> maxItem \<and>
     length (mRilCellInfo r) \<le> maxItem \<and> report_ok (plain ServiceStatus_equals) (mServiceStatus r) \<and>
     report_ok (plain Model_equals) (mModel r) \<and> report_ok (plain Manufacturer_equals) (mManufacturer r) \<and>
     report_ok (plain AssistedGps_equals) (mAssistedGps r) \<and> report_ok (plain ScreenState_equals) (mScreenState r) \<and>
     report_ok (plain PowerConnectState_equals) (mPowerConnectState r) \<and> report_ok (plain TimeZoneChange_equals) (mTimeZoneChange r) \<and>
     report_ok (plain TimeChange_equals) (mTimeChange r) \<and> report_ok (plain WifiSupplicantStatus_equals) (mWifiSupplicantStatus r) \<and>
     report_ok (plain ShutdownState_equals) (mShutdownState r) \<and> report_ok (plain Tac_equals) (mTac r) \<and>
     report_ok (plain MccMnc_equals) (mMccMnc r) \<and> report_ok (plain BtDeviceScanDetail_equals) (mBtDeviceScanDetail r) \<and>
     report_ok (plain BtleDeviceScanDetail_equals) (mBtLeDeviceScanDetail r)"

lemmas set_item_ok = Location_kind.set_ok TimeAndClock_kind.set_ok XoState_kind.set_ok RfAndParams_kind.set_ok ErrRecovery_kind.set_ok InjectedPosition_kind.set_ok BestPosition_kind.set_ok Xtra_kind.set_ok Ephemeris_kind.set_ok SvHealth_kind.set_ok Pdr_kind.set_ok NavData_kind.set_ok PositionFailure_kind.set_ok AirplaneMode_kind.set_ok ENH_kind.set_ok GpsState_kind.set_ok NLPStatus_kind.set_ok WifiHardwareState_kind.set_ok NetworkInfo_kind.set_ok ServiceInfo_kind.set_ok RilCellInfo_kind.set_ok ServiceStatus_kind.set_ok Model_kind.set_ok Manufacturer_kind.set_ok AssistedGps_kind.set_ok ScreenState_kind.set_ok PowerConnectState_kind.set_ok TimeZoneChange_kind.set_ok TimeChange_kind.set_ok WifiSupplicantStatus_kind.set_ok ShutdownState_kind.set_ok Tac_kind.set_ok MccMnc_kind.set_ok BtDeviceScanDetail_kind.set_ok BtleDeviceScanDetail_kind.set_ok

lemma cache_ok_empty: "cache_ok empty_reports"
  by (simp add: cache_ok_def empty_reports_def)

lemma setNmeaString_ok: "cache_ok r \<Longrightarrow> cache_ok (snd (setNmeaString env junk tm data len r))"
  by (simp add: setNmeaString_def Let_def cache_ok_def set_item_ok)

lemma eventPosition_ok: "cache_ok r \<Longrightarrow> cache_ok (snd (eventPosition tm l lx r))"
  by (simp add: eventPosition_def case_prod_beta Let_def cache_ok_def set_item_ok)

lemma set_length: "length r \<le> maxItem \<Longrightarrow> length (fst (snd (setIteminReport c r s))) \<le> maxItem"
  by (cases r) (auto simp: setIteminReport_def Let_def)

lemma eventDataItemNotify_ok: "cache_ok r \<Longrightarrow> cache_ok (fst (snd (eventDataItemNotify t d r)))"
  by (cases d) (simp_all add: eventDataItemNotify_def case_prod_beta Let_def cache_ok_def set_item_ok set_length)

section \<open>Histories\<close>

definition cache_bounded :: "SystemStatusReports \<Rightarrow> bool" where
  "cache_bounded r \<longleftrightarrow>
     length (mLocation r) \<le> maxItem \<and> length (mTimeAndClock r) \<le> maxItem \<and> length (mXoState r) \<le> maxItem \<and>
     length (mRfAndParams r) \<le> maxItem \<and> length (mErrRecovery r) \<le> maxItem \<and> length (mInjectedPosition r) \<le> maxItem \<and>
     length (mBestPosition r) \<le> maxItem \<and> length (mXtra r) \<le> maxItem \<and> length (mEphemeris r) \<le> maxItem \<and>
     length (mSvHealth r) \<le> maxItem \<and> length (mPdr r) \<le> maxItem \<and> length (mNavData r) \<le> maxItem \<and>
     length (mPositionFailure r) \<le> maxItem \<and> length (mAirplaneMode r) \<le> maxItem \<and> length (mENH r) \<le> maxItem \<and>
     length (mGPSState r) \<le> maxItem \<and> length (mNLPStatus r) \<le> maxItem \<and> length (mWifiHardwareState r) \<le> maxItem \<and>
     length (mNetworkInfo r) \<le> maxItem \<and> length (mRilServiceInfo r) \<le> maxItem \<and> length (mRilCellInfo r) \<le> maxItem \<and>
     length (mServiceStatus r) \<le> maxItem \<and> length (mModel r) \<le> maxItem \<and> length (mManufacturer r) \<le> maxItem \<and>
     length (mAssistedGps r) \<le> maxItem \<and> length (mScreenState r) \<le> maxItem \<and> length (mPowerConnectState r) \<le> maxItem \<and>
     length (mTimeZoneChange r) \<le> maxItem \<and> length (mTimeChange r) \<le> maxItem \<and> length (mWifiSupplicantStatus r) \<le> maxItem \<and>
     length (mShutdownState r) \<le> maxItem \<and> length (mTac r) \<le> maxItem \<and> length (mMccMnc r) \<le> maxItem \<and>
     length (mBtDeviceScanDetail r) \<le> maxItem \<and> length (mBtLeDeviceScanDetail r) \<le> maxItem"

lemma cache_ok_bounded: "cache_ok r \<Longrightarrow> cache_bounded r"
  by (simp add: cache_ok_def cache_bounded_def report_ok_def)

lemma setNmeaString_bounded: "cache_bounded r \<Longrightarrow> cache_bounded (snd (setNmeaString env junk tm data len r))"
  by (simp add: setNmeaString_def Let_def cache_bounded_def set_length)

lemma eventPosition_bounded: "cache_bounded r \<Longrightarrow> cache_bounded (snd (eventPosition tm l lx r))"
  by (simp add: eventPosition_def case_prod_beta Let_def cache_bounded_def set_length)

lemma eventDataItemNotify_bounded: "cache_bounded r \<Longrightarrow> cache_bounded (fst (snd (eventDataItemNotify t d r)))"
  by (cases d) (simp_all add: eventDataItemNotify_def case_prod_beta Let_def cache_bounded_def set_length)

lemma setDefault_bounded: "cache_bounded r \<Longrightarrow> cache_bounded (snd (setDefaultGnssEngineStates junk tm r))"
  by (simp add: setDefaultGnssEngineStates_def cache_bounded_def default_bounded)

datatype status_op =
    NmeaOp "string option" int
  | PositionOp UlpLocation GpsLocationExtended
  | DataItemOp data_item
  | ResetOp

text \<open>One operation, with what the clock gives in it.\<close>

definition status_step :: "nmea_env \<Rightarrow> status_junk \<Rightarrow> (nat \<Rightarrow> timespec) \<times> status_op \<Rightarrow> SystemStatusReports \<Rightarrow> SystemStatusReports" where
  "status_step env junk ev r =
     (case snd ev of
        NmeaOp data len \<Rightarrow> snd (setNmeaString env junk (fst ev) data len r)
      | PositionOp l lx \<Rightarrow> snd (eventPosition (fst ev) l lx r)
      | DataItemOp d \<Rightarrow> fst (snd (eventDataItemNotify (fst ev 0) d r))
      | ResetOp \<Rightarrow> snd (setDefaultGnssEngineStates junk (fst ev) r))"

definition status_run :: "nmea_env \<Rightarrow> status_junk \<Rightarrow> ((nat \<Rightarrow> timespec) \<times> status_op) list \<Rightarrow> SystemStatusReports" where
  "status_run env junk evs = fold (status_step env junk) evs empty_reports"

lemma status_step_bounded: "cache_bounded r \<Longrightarrow> cache_bounded (status_step env junk ev r)"
  by (cases "snd ev")
    (simp_all add: status_step_def setNmeaString_bounded eventPosition_bounded eventDataItemNotify_bounded setDefault_bounded)

lemma status_step_ok: "cache_ok r \<Longrightarrow> snd ev \<noteq> ResetOp \<Longrightarrow> cache_ok (status_step env junk ev r)"
  by (cases "snd ev") (simp_all add: status_step_def setNmeaString_ok eventPosition_ok eventDataItemNotify_ok)

text \<open>
  C24: after every history of debug sentences, positions, data items and resets, whatever they contain,
  each kind of report has at most five entries; and as long as the states were not reset, of those next
  to each other none equals the one before in every kind but the service and the cell information
  (\<open>mRilServiceInfo\<close>, \<open>mRilCellInfo\<close>), whose copies lose their contents and are only bounded.
\<close>

theorem status_reports_bounded_and_distinct:
  "cache_bounded (status_run env junk evs) \<and> ((\<forall>ev \<in> set evs. snd ev \<noteq> ResetOp) \<longrightarrow> cache_ok (status_run env junk evs))"
proof -
  have "cache_bounded r \<Longrightarrow> cache_bounded (fold (status_step env junk) evs r)" for r
    by (induction evs arbitrary: r) (simp_all add: status_step_bounded)
  moreover have "cache_ok r \<Longrightarrow> \<forall>ev \<in> set evs. snd ev \<noteq> ResetOp \<Longrightarrow> cache_ok (fold (status_step env junk) evs r)" for r
    by (induction evs arbitrary: r) (simp_all add: status_step_ok)
  ultimately show ?thesis using cache_ok_empty cache_ok_bounded [OF cache_ok_empty] by (simp add: status_run_def)
qed

theorem status_reports_bounded_and_distinct_witness:
  "\<forall>env junk. cache_ok (status_run env junk (replicate 7 (\<lambda>k. (1000 + int k, 0), DataItemOp (TacDataItem \<lparr>TacDataItemBase.mValue = ''0x1234''\<rparr>))))"
  using status_reports_bounded_and_distinct
    [of _ _ "replicate 7 (\<lambda>k. (1000 + int k, 0), DataItemOp (TacDataItem \<lparr>TacDataItemBase.mValue = ''0x1234''\<rparr>))"] by simp

section \<open>Networks\<close>

text \<open>A change of a connection, as the radio reports it: connected or not, and the type.\<close>

definition network_event :: "timespec \<Rightarrow> bool \<times> 8 word \<Rightarrow> SystemStatusReports \<Rightarrow> SystemStatusReports" where
  "network_event t ev r = fold (\<lambda>d r. fst (snd (eventDataItemNotify t d r))) (snd (eventConnectionStatus t (fst ev) (snd ev))) r"

definition known_type :: "8 word \<Rightarrow> bool" where
  "known_type ty \<longleftrightarrow> 0 \<le> sint ty \<and> sint ty < TYPE_UNKNOWN"

text \<open>What the reports stand for: the types that are connected.\<close>

definition connected_types :: "SystemStatusReports \<Rightarrow> nat set" where
  "connected_types r = (if mNetworkInfo r = [] then {} else {i. bit (mAllTypes (netBase (last (mNetworkInfo r)))) i})"

definition network_spec :: "bool \<times> 8 word \<Rightarrow> nat set \<Rightarrow> nat set" where
  "network_spec ev T =
     (if fst ev then (if known_type (snd ev) then insert (nat (sint (snd ev))) T else T)
      else (if known_type (snd ev) then T - {nat (sint (snd ev))} else {}))"

lemma types_bits: "{i. bit (typeToAllTypes n) i} = (if 0 \<le> n \<and> n < TYPE_UNKNOWN then {nat n} else {})"
  by (auto simp: typeToAllTypes_def TYPE_UNKNOWN_def bit_simps)

lemma types_zero: "typeToAllTypes n = 0 \<longleftrightarrow> \<not> (0 \<le> n \<and> n < TYPE_UNKNOWN)"
proof
  assume "typeToAllTypes n = 0"
  then have "{i. bit (typeToAllTypes n) i} = {}" by simp
  then show "\<not> (0 \<le> n \<and> n < TYPE_UNKNOWN)" unfolding types_bits by (simp split: if_splits)
qed (auto simp: typeToAllTypes_def)

lemma sint_scast: "sint (scast (w :: 8 word) :: 32 word) = sint w"
  by transfer (simp add: signed_take_bit_signed_take_bit)

lemma network_event_first:
  assumes "mNetworkInfo r = []"
  shows "connected_types (network_event t ev r) = (if known_type (snd ev) then {nat (sint (snd ev))} else {})"
    "mNetworkInfo (network_event t ev r) \<noteq> []"
  using assms types_bits [of "sint (snd ev)"]
  by (auto simp: network_event_def eventConnectionStatus_def eventDataItemNotify_def setIteminReport_def Let_def maxItem_def
    connected_types_def NetworkInfo_of_def NetworkInfo_new_def sint_scast known_type_def)

lemma bits_or: "{i. bit (a OR b) i} = {i. bit a i} \<union> {i. bit b i}" for a b :: "64 word"
  by (auto simp: bit_or_iff)

lemma bits_and_not: "{i. bit (a AND NOT b) i} = {i. bit a i} - {i. bit b i}" for a b :: "64 word"
  by (auto simp: bit_and_iff bit_not_iff dest: bit_imp_possible_bit)

lemma network_event_next:
  assumes "mNetworkInfo r \<noteq> []"
  shows "connected_types (network_event t ev r) = network_spec ev (connected_types r)" "mNetworkInfo (network_event t ev r) \<noteq> []"
proof -
  let ?b = "netBase (NetworkInfo_new t (scast (snd ev)) [] [] (fst ev) False)" and ?l = "last (mNetworkInfo r)"
  obtain ret l' s' where set: "setIteminReport network_class (mNetworkInfo r) (NetworkInfo_of t ?b) = (ret, l', s')" "l' \<noteq> []"
    "s' = (if mNetworkInfo r \<noteq> [] then collate network_class (NetworkInfo_of t ?b) ?l else NetworkInfo_of t ?b)" "ret \<longrightarrow> last l' = s'"
    "\<not> ret \<longrightarrow> mNetworkInfo r \<noteq> [] \<and> equal_items network_class ?l s' \<and> l' = butlast (mNetworkInfo r) @ [?l\<lparr>mUtcReported := mUtcReported s'\<rparr>]"
    using NetworkInfo_kind.set_last [of "mNetworkInfo r" "NetworkInfo_of t ?b"] by blast
  have same: "mAllTypes (netBase (last l')) = mAllTypes (netBase s')"
    using set(4,5) by (cases ret) (auto simp: NetworkInfo_equals_def)
  have ne: "network_event t ev r = r\<lparr>mNetworkInfo := l'\<rparr>"
    using set(1) by (simp add: network_event_def eventConnectionStatus_def eventDataItemNotify_def)
  have s': "s' = NetworkInfo_collate (NetworkInfo_of t ?b) ?l" using set(3) assms by simp
  let ?w = "typeToAllTypes (sint (snd ev))" and ?A = "mAllTypes (netBase ?l)"
  have all: "mAllTypes (netBase s') = (if fst ev then ?w OR ?A else if ?w \<noteq> 0 then ?A AND NOT ?w else ?w)"
    unfolding s' by (simp add: NetworkInfo_collate_def NetworkInfo_of_def NetworkInfo_new_def sint_scast Let_def)
  have "{i. bit (mAllTypes (netBase s')) i} = network_spec ev {i. bit ?A i}"
  proof (cases "known_type (snd ev)")
    case True
    then have w: "{i. bit ?w i} = {nat (sint (snd ev))}" "?w \<noteq> 0" using types_bits types_zero by (auto simp: known_type_def)
    then show ?thesis using True unfolding all by (cases "fst ev") (simp_all add: network_spec_def bits_or bits_and_not)
  next
    case False
    then have "?w = 0" using types_zero by (auto simp: known_type_def)
    then show ?thesis using False unfolding all by (cases "fst ev") (simp_all add: network_spec_def)
  qed
  then show "connected_types (network_event t ev r) = network_spec ev (connected_types r)"
    unfolding ne using assms set(2) same by (simp add: connected_types_def)
  show "mNetworkInfo (network_event t ev r) \<noteq> []" unfolding ne using set(2) by simp
qed

text \<open>
  C22: when a connection is reported first, the types of the networks in the last report are exactly those
  that are connected after every sequence of changes: a connection adds its type, the loss of one removes
  it, and the loss of one without a type stands for the loss of all.
\<close>

theorem networks_follow_connections:
  assumes "mNetworkInfo r = []" "evs \<noteq> []" "fst (snd (hd evs))"
  shows "connected_types (fold (\<lambda>(t, ev). network_event t ev) evs r) = fold (\<lambda>(t :: timespec, ev). network_spec ev) evs {}"
proof -
  have more: "mNetworkInfo q \<noteq> [] \<Longrightarrow> connected_types (fold (\<lambda>(t, ev). network_event t ev) es q) = fold (\<lambda>(t, ev). network_spec ev) es (connected_types q)"
    for es q
    by (induction es arbitrary: q) (auto simp: network_event_next)
  obtain t ev es where evs: "evs = (t, ev) # es" using assms(2) by (cases evs) auto
  have "connected_types (network_event t ev r) = network_spec ev {}"
    using network_event_first(1) [OF assms(1)] assms(3) evs by (simp add: network_spec_def)
  then show ?thesis using more [OF network_event_first(2) [OF assms(1)]] evs by simp
qed

theorem networks_follow_connections_witness:
  "connected_types (fold (\<lambda>(t, ev). network_event t ev) [((1, 0), (True, 1)), ((2, 0), (True, 0)), ((3, 0), (False, 1))] empty_reports) =
     fold (\<lambda>(t :: timespec, ev). network_spec ev) [((1, 0), (True, 1)), ((2, 0), (True, 0)), ((3, 0), (False, 1))] {}"
  by (rule networks_follow_connections) (simp_all add: empty_reports_def)

text \<open>
  but the first change of all is not collated: when it is the loss of a network, that network is
  reported as the connected one, and stays so until it is reported lost again.
\<close>

theorem first_disconnect_counts_as_connected:
  assumes "mNetworkInfo r = []" "known_type ty"
  shows "connected_types (network_event t (False, ty) r) = {nat (sint ty)}" 
  using network_event_first(1) [OF assms(1), of t "(False, ty)"] assms(2) by simp

theorem first_disconnect_counts_as_connected_witness:
  "connected_types (network_event (1, 0) (False, 1) empty_reports) = {nat (sint (1 :: 8 word))}"
  by (rule first_disconnect_counts_as_connected) (simp_all add: empty_reports_def known_type_def TYPE_UNKNOWN_def)

end
