(* ===== verification/Numerals.thy ===== *)
theory Numerals
  imports LocCfg
begin

text \<open>
  Numbers as text, as the C++ library and other programs print them, in bases up to 16, and what
  reading their digits gives.
\<close>

definition digit_char :: "nat \<Rightarrow> char" where
  "digit_char n = ''0123456789abcdef'' ! n"

function base_string :: "nat \<Rightarrow> nat \<Rightarrow> string" where
  "base_string b n = (if b < 2 \<or> n < b then [digit_char n] else base_string b (n div b) @ [digit_char (n mod b)])"
  by pat_completeness auto
termination by (relation "measure snd") auto

declare base_string.simps [simp del]

abbreviation hex_string :: "nat \<Rightarrow> string" where
  "hex_string \<equiv> base_string 16"

text \<open>\<open>std::to_string\<close> of an unsigned number.\<close>

abbreviation dec_string :: "nat \<Rightarrow> string" where
  "dec_string \<equiv> base_string 10"

lemma digit_char_facts:
  assumes "n < 16"
  shows "digit_value (digit_char n) = n \<and> \<not> c_isspace (digit_char n) \<and>
    digit_char n \<notin> {CHR ''-'', CHR ''+'', CHR ''x'', CHR ''X'', CHR '','', CHR ''*'', NUL}"
proof -
  let ?ok = "\<lambda>n c. digit_value c = n \<and> \<not> c_isspace c \<and> c \<notin> {CHR ''-'', CHR ''+'', CHR ''x'', CHR ''X'', CHR '','', CHR ''*'', NUL}"
  have "list_all (\<lambda>(n, c). ?ok n c) (List.enumerate 0 ''0123456789abcdef'')"
    by (simp add: digit_value_def c_isspace_def)
  moreover have "(n, digit_char n) \<in> set (List.enumerate 0 ''0123456789abcdef'')"
    unfolding digit_char_def in_set_enumerate_eq using assms by simp
  ultimately show ?thesis by (auto simp only: list_all_iff split_paired_all prod.case)
qed

lemmas digit_char_value = digit_char_facts [THEN conjunct1]
lemmas digit_char_text = digit_char_facts [THEN conjunct2, THEN conjunct1] digit_char_facts [THEN conjunct2, THEN conjunct2]

lemma base_string_digits:
  assumes "2 \<le> b"
  shows "\<exists>ds. base_string b n = map digit_char ds \<and> ds \<noteq> [] \<and> (\<forall>d \<in> set ds. d < b) \<and> foldl (\<lambda>v d. b * v + d) 0 ds = n"
proof (induction n rule: less_induct)
  case (less n)
  show ?case
  proof (cases "n < b")
    case True
    then show ?thesis by (intro exI [of _ "[n]"]) (subst base_string.simps, simp)
  next
    case False
    have "n div b < n" using False assms by simp
    then obtain ds where ds: "base_string b (n div b) = map digit_char ds" "ds \<noteq> []" "\<forall>d \<in> set ds. d < b" "foldl (\<lambda>v d. b * v + d) 0 ds = n div b"
      using less by blast
    then show ?thesis using False assms by (intro exI [of _ "ds @ [n mod b]"]) (subst base_string.simps, simp)
  qed
qed

lemma foldl_digits: "\<forall>d \<in> set ds. d < 16 \<Longrightarrow>
    foldl (\<lambda>v c. int b * v + int (digit_value c)) (int a) (map digit_char ds) = int (foldl (\<lambda>v d. b * v + d) a ds)"
proof (induction ds arbitrary: a)
  case (Cons d ds)
  have "int b * int a + int (digit_value (digit_char d)) = int (b * a + d)" using Cons.prems digit_char_value by simp
  then show ?case using Cons.IH [of "b * a + d"] Cons.prems by simp
qed simp

lemma base_string_length: "2 \<le> b \<Longrightarrow> n < b ^ Suc k \<Longrightarrow> length (base_string b n) \<le> Suc k"
proof (induction k arbitrary: n)
  case 0
  then show ?case by (subst base_string.simps) simp
next
  case (Suc k)
  have "n div b < b ^ Suc k" using Suc.prems by (simp add: less_mult_imp_div_less mult.commute)
  then show ?case using Suc by (subst base_string.simps) simp
qed

end
