(* ===== verification/NmeaRoundtrip.thy ===== *)
theory NmeaRoundtrip
  imports SystemStatusProofs Numerals
begin

text \<open>
  Debug sentences that are printed from fields are split into these fields again; numbers printed in
  hexadecimal are read back as long as a \<open>long\<close> holds them, and otherwise as the greatest \<open>long\<close>. So the
  masks of satellites, which have up to 37 bits, survive where a \<open>long\<close> has 64 bits, but not where it has
  32, as on this device.
\<close>

section \<open>Fields\<close>

definition print_sentence :: "string \<Rightarrow> string list \<Rightarrow> string \<Rightarrow> string" where
  "print_sentence h fs ck = h @ concat (map (\<lambda>f. CHR '','' # f) fs) @ CHR ''*'' # ck"

definition field_ok :: "string \<Rightarrow> bool" where
  "field_ok f \<longleftrightarrow> CHR '','' \<notin> set f \<and> CHR ''*'' \<notin> set f"

lemma tokens_none: "CHR '','' \<notin> set s \<Longrightarrow> nmea_tokens s = []"
  by (subst nmea_tokens.simps) simp

lemma tokens_word: "CHR '','' \<notin> set w \<Longrightarrow> nmea_tokens (w @ CHR '','' # s) = w # nmea_tokens s"
  by (subst nmea_tokens.simps) (simp add: takeWhile_append)

lemma tokens_join:
  "\<forall>f \<in> set fs. CHR '','' \<notin> set f \<Longrightarrow> CHR '','' \<notin> set h \<Longrightarrow> CHR '','' \<notin> set ck \<Longrightarrow>
     nmea_tokens (h @ concat (map (\<lambda>f. CHR '','' # f) fs) @ CHR '','' # ck) = h # fs"
proof (induction fs arbitrary: h)
  case Nil
  then show ?case by (simp add: tokens_word tokens_none)
next
  case (Cons f fs)
  then show ?case using tokens_word [of h "f @ concat (map (\<lambda>f. CHR '','' # f) fs) @ CHR '','' # ck"] by simp
qed

lemma fields_printed:
  assumes "\<forall>f \<in> set (h # fs). field_ok f" "CHR '','' \<notin> set ck" "loc_nmea_is_debug (Some (print_sentence h fs ck)) len"
  shows "nmea_fields (print_sentence h fs ck) len = h # fs"
proof -
  let ?b = "h @ concat (map (\<lambda>f. CHR '','' # f) fs)"
  have no: "\<forall>c \<in> set ?b. c \<noteq> CHR ''*''" using assms(1) by (auto simp: field_ok_def)
  have p: "print_sentence h fs ck = ?b @ CHR ''*'' # ck" by (simp add: print_sentence_def)
  have i: "takeWhile (\<lambda>c. c \<noteq> CHR ''*'') (print_sentence h fs ck) = ?b"
    unfolding p by (subst takeWhile_append2) (use no in auto)
  have upd: "(print_sentence h fs ck)[length ?b := CHR '',''] = ?b @ CHR '','' # ck" unfolding p by (simp only: list_update_length)
  have "length ?b \<noteq> length (print_sentence h fs ck)" unfolding p by simp
  then have "nmea_fields (print_sentence h fs ck) len = nmea_tokens (?b @ CHR '','' # ck)"
    using assms(3) unfolding nmea_fields_def i Let_def by (simp only: upd if_False not_True_eq_False simp_thms)
  also have "\<dots> = h # fs" using tokens_join [of fs h ck] assms(1,2) by (simp add: field_ok_def)
  finally show ?thesis .
qed

section \<open>Hexadecimal numbers\<close>

text \<open>The greatest number that can be read.\<close>

lemma strtol_hex: "strtol bits (hex_string n) 16 = min (2 ^ (bits - 1) - 1) (int n)"
proof -
  obtain ds where ds: "hex_string n = map digit_char ds" "ds \<noteq> []" "\<forall>d \<in> set ds. d < 16" "foldl (\<lambda>v d. 16 * v + d) 0 ds = n"
    using base_string_digits [of 16 n] by auto
  let ?s = "map digit_char ds"
  obtain d es where d: "ds = d # es" "d < 16" using ds(2,3) by (cases ds) auto
  have space: "dropWhile c_isspace ?s = ?s" using digit_char_text(1) [OF d(2)] d(1) by simp
  have sign: "hd ?s \<noteq> CHR ''-''" "hd ?s \<noteq> CHR ''+''" using digit_char_text(2) [OF d(2)] d(1) by auto
  have pre: "take 2 ?s \<notin> {''0x'', ''0X''}"
  proof (cases es)
    case (Cons e fs)
    then show ?thesis using digit_char_text(2) [of e] ds(3) d(1) by auto
  qed (use d in simp)
  have whole: "takeWhile (\<lambda>c. digit_value c < 16) ?s = ?s" using ds(3) by (simp add: digit_char_value)
  have val: "foldl (\<lambda>v c. int 16 * v + int (digit_value c)) 0 ?s = int n" using foldl_digits [OF ds(3), of 16 0] ds(4) by simp
  have "strtol bits ?s 16 = max (- (2 ^ (bits - 1))) (min (2 ^ (bits - 1) - 1) (int n))"
    using sign pre unfolding strtol_def space Let_def by (simp add: whole val [simplified] ds(2))
  moreover have "- (2 ^ (bits - 1)) \<le> min (2 ^ (bits - 1) - 1) (int n)"
    by (meson le_minus_iff min.boundedI of_nat_0_le_iff order_trans zero_le_numeral zero_le_power
      neg_le_0_iff_le diff_ge_0_iff_ge one_le_power one_le_numeral)
  ultimately show ?thesis using ds(1) by simp
qed

section \<open>The health of satellites\<close>

definition health_fields :: "SystemStatusPQWP5 \<Rightarrow> string list" where
  "health_fields m =
     map hex_string
       [unat (SystemStatusPQWP5.mGpsUnknownMask m), unat (SystemStatusPQWP5.mGloUnknownMask m), unat (SystemStatusPQWP5.mBdsUnknownMask m),
        unat (SystemStatusPQWP5.mGalUnknownMask m), unat (SystemStatusPQWP5.mQzssUnknownMask m), unat (SystemStatusPQWP5.mGpsGoodMask m),
        unat (SystemStatusPQWP5.mGloGoodMask m), unat (SystemStatusPQWP5.mBdsGoodMask m), unat (SystemStatusPQWP5.mGalGoodMask m),
        unat (SystemStatusPQWP5.mQzssGoodMask m), unat (SystemStatusPQWP5.mGpsBadMask m), unat (SystemStatusPQWP5.mGloBadMask m),
        unat (SystemStatusPQWP5.mBdsBadMask m), unat (SystemStatusPQWP5.mGalBadMask m), unat (SystemStatusPQWP5.mQzssBadMask m)]"

definition health_sentence :: "string \<Rightarrow> SystemStatusPQWP5 \<Rightarrow> string \<Rightarrow> string" where
  "health_sentence utc m ck = print_sentence ''$PQWP5'' (utc # health_fields m) ck"

text \<open>A mask as a \<open>long\<close> of so many bits can hold it.\<close>

definition clamp :: "nat \<Rightarrow> 'a::len word \<Rightarrow> 'a word" where
  "clamp bits w = word_of_int (min (2 ^ (bits - 1) - 1) (uint w))"

definition clamp_health :: "nat \<Rightarrow> SystemStatusPQWP5 \<Rightarrow> SystemStatusPQWP5" where
  "clamp_health bits m =
     \<lparr>SystemStatusPQWP5.mGpsUnknownMask = clamp bits (SystemStatusPQWP5.mGpsUnknownMask m), SystemStatusPQWP5.mGloUnknownMask = clamp bits (SystemStatusPQWP5.mGloUnknownMask m),
      SystemStatusPQWP5.mBdsUnknownMask = clamp bits (SystemStatusPQWP5.mBdsUnknownMask m), SystemStatusPQWP5.mGalUnknownMask = clamp bits (SystemStatusPQWP5.mGalUnknownMask m),
      SystemStatusPQWP5.mQzssUnknownMask = clamp bits (SystemStatusPQWP5.mQzssUnknownMask m), SystemStatusPQWP5.mGpsGoodMask = clamp bits (SystemStatusPQWP5.mGpsGoodMask m),
      SystemStatusPQWP5.mGloGoodMask = clamp bits (SystemStatusPQWP5.mGloGoodMask m), SystemStatusPQWP5.mBdsGoodMask = clamp bits (SystemStatusPQWP5.mBdsGoodMask m),
      SystemStatusPQWP5.mGalGoodMask = clamp bits (SystemStatusPQWP5.mGalGoodMask m), SystemStatusPQWP5.mQzssGoodMask = clamp bits (SystemStatusPQWP5.mQzssGoodMask m),
      SystemStatusPQWP5.mGpsBadMask = clamp bits (SystemStatusPQWP5.mGpsBadMask m), SystemStatusPQWP5.mGloBadMask = clamp bits (SystemStatusPQWP5.mGloBadMask m),
      SystemStatusPQWP5.mBdsBadMask = clamp bits (SystemStatusPQWP5.mBdsBadMask m), SystemStatusPQWP5.mGalBadMask = clamp bits (SystemStatusPQWP5.mGalBadMask m),
      SystemStatusPQWP5.mQzssBadMask = clamp bits (SystemStatusPQWP5.mQzssBadMask m)\<rparr>"

lemma hex_string_ok: "field_ok (hex_string n)"
proof -
  obtain ds where "hex_string n = map digit_char ds" "\<forall>d \<in> set ds. d < 16" using base_string_digits [of 16 n] by auto
  then show ?thesis using digit_char_text(2) by (fastforce simp: field_ok_def)
qed

lemma hex_field_clamps: "f ! i = hex_string (unat w) \<Longrightarrow> hex_field env f i = clamp (n_long_bits env) w" for w :: "'a::len word"
  by (simp add: hex_field_def strtol_hex clamp_def)

lemma parse_health:
  assumes "field_ok utc" "CHR '','' \<notin> set ck" "loc_nmea_is_debug (Some (health_sentence utc m ck)) len"
  shows "SystemStatusPQWP5parser env junk (health_sentence utc m ck) len = clamp_health (n_long_bits env) m"
proof -
  have "\<forall>f \<in> set (''$PQWP5'' # utc # health_fields m). field_ok f"
    using assms(1) hex_string_ok by (auto simp: health_fields_def field_ok_def)
  then have f: "nmea_fields (health_sentence utc m ck) len = ''$PQWP5'' # utc # health_fields m"
    using fields_printed [OF _ assms(2)] assms(3) unfolding health_sentence_def by blast
  show ?thesis unfolding SystemStatusPQWP5parser_def f Let_def
    by (simp add: health_fields_def eMax_P5_def clamp_health_def hex_field_clamps)
qed

lemma set_health:
  assumes "field_ok utc" "CHR '','' \<notin> set ck" "len = int (length (health_sentence utc m ck))" "len \<le> DEBUG_NMEA_MAXSIZE"
  shows "setNmeaString env junk tm (Some (health_sentence utc m ck)) len r =
    (True, r\<lparr>mSvHealth := set_item SvHealth_equals (mSvHealth r) (SvHealth_of (tm 0) (clamp_health (n_long_bits env) m))\<rparr>)"
proof -
  let ?s = "health_sentence utc m ck"
  have head: "take 4 ?s = ''$PQW''" "take 6 ?s = ''$PQWP5''" by (simp_all add: health_sentence_def print_sentence_def)
  have "6 \<le> length ?s" by (simp add: health_sentence_def print_sentence_def)
  then have dbg: "loc_nmea_is_debug (Some ?s) len" using assms(3,4) head by (simp add: loc_nmea_is_debug_def DEBUG_NMEA_MINSIZE_def)
  have buf: "take (nat DEBUG_NMEA_MAXSIZE) ?s = ?s" using assms(3,4) by simp
  show ?thesis using dbg head(2) unfolding setNmeaString_def option.sel buf
    by (simp add: Let_def parse_health [OF assms(1,2) dbg])
qed

lemma last_health:
  assumes "l = set_item SvHealth_equals r (SvHealth_of t m)"
  shows "l \<noteq> [] \<and> SvHealth_equals (last l) (SvHealth_of t m) \<and> mUtcReported (last l) = t"
proof -
  obtain ret r' s' where s: "setIteminReport (plain SvHealth_equals) r (SvHealth_of t m) = (ret, r', s')" "r' \<noteq> []"
    "s' = (if r \<noteq> [] then collate (plain SvHealth_equals) (SvHealth_of t m) (last r) else SvHealth_of t m)" "ret \<longrightarrow> last r' = s'"
    "\<not> ret \<longrightarrow> r \<noteq> [] \<and> equal_items (plain SvHealth_equals) (last r) s' \<and> r' = butlast r @ [last r\<lparr>mUtcReported := mUtcReported s'\<rparr>]"
    using SvHealth_kind.set_last [of r "SvHealth_of t m"] by blast
  have "s' = SvHealth_of t m" "l = r'" using s(1,3) assms by simp_all
  then show ?thesis using s(2,4,5) by (cases ret) (auto simp: SvHealth_equals_def SvHealth_of_def)
qed

definition masks_below :: "nat \<Rightarrow> SystemStatusPQWP5 \<Rightarrow> bool" where
  "masks_below k m \<longleftrightarrow> list_all (\<lambda>w. w < 2 ^ k)
     [unat (SystemStatusPQWP5.mGpsUnknownMask m), unat (SystemStatusPQWP5.mGloUnknownMask m), unat (SystemStatusPQWP5.mBdsUnknownMask m),
      unat (SystemStatusPQWP5.mGalUnknownMask m), unat (SystemStatusPQWP5.mQzssUnknownMask m), unat (SystemStatusPQWP5.mGpsGoodMask m),
      unat (SystemStatusPQWP5.mGloGoodMask m), unat (SystemStatusPQWP5.mBdsGoodMask m), unat (SystemStatusPQWP5.mGalGoodMask m),
      unat (SystemStatusPQWP5.mQzssGoodMask m), unat (SystemStatusPQWP5.mGpsBadMask m), unat (SystemStatusPQWP5.mGloBadMask m),
      unat (SystemStatusPQWP5.mBdsBadMask m), unat (SystemStatusPQWP5.mGalBadMask m), unat (SystemStatusPQWP5.mQzssBadMask m)]"

lemma clamp_id: "unat w < 2 ^ (bits - 1) \<Longrightarrow> clamp bits w = w" for w :: "'a::len word"
proof -
  assume "unat w < 2 ^ (bits - 1)"
  then have "int (unat w) < int (2 ^ (bits - 1))" by (simp only: of_nat_less_iff)
  then have "uint w < 2 ^ (bits - 1)" by simp
  then have "min (2 ^ (bits - 1) - 1) (uint w) = uint w" by simp
  then show ?thesis by (simp add: clamp_def)
qed

lemma clamp_health_id: "masks_below (bits - 1) m \<Longrightarrow> clamp_health bits m = m"
  by (cases m) (simp add: masks_below_def clamp_health_def clamp_id)

text \<open>
  C23: a sentence about the health of the satellites whose masks are printed in hexadecimal puts exactly
  these masks into the last report of the cache and leaves every other kind of report alone, provided
  that every mask fits into a \<open>long\<close>, that is, is below \<open>2 ^ (n_long_bits - 1)\<close>. With 64 bits all masks of
  the constellations are; with the 32 bits of a 32-bit build only the satellites up to the 31st fit, and
  \<open>clamp_health\<close> says what becomes of the others.
\<close>

theorem health_sentence_roundtrip:
  assumes "field_ok utc" "CHR '','' \<notin> set ck" "length (health_sentence utc m ck) \<le> 4096" "masks_below (n_long_bits env - 1) m"
  shows "\<exists>l. setNmeaString env junk tm (Some (health_sentence utc m ck)) (int (length (health_sentence utc m ck))) r = (True, r\<lparr>mSvHealth := l\<rparr>) \<and>
    l \<noteq> [] \<and> SvHealth_equals (last l) (SvHealth_of (tm 0) m) \<and> mUtcReported (last l) = tm 0"
proof -
  have len: "int (length (health_sentence utc m ck)) \<le> DEBUG_NMEA_MAXSIZE" using assms(3) by (simp add: DEBUG_NMEA_MAXSIZE_def)
  show ?thesis unfolding set_health [OF assms(1,2) refl len] clamp_health_id [OF assms(4)]
    using last_health [OF refl, of "mSvHealth r" "tm 0" m] by blast
qed

definition example_nmea :: "nat \<Rightarrow> nmea_env" where
  "example_nmea bits = \<lparr>n_long_bits = bits, n_atof = (\<lambda>_. 0), n_float = ucast, n_int_float = id\<rparr>"

definition example_health :: SystemStatusPQWP5 where
  "example_health =
     \<lparr>SystemStatusPQWP5.mGpsUnknownMask = 0, mGloUnknownMask = 0, mBdsUnknownMask = 0, mGalUnknownMask = 0, mQzssUnknownMask = 0,
      mGpsGoodMask = 0xFFFFFFFF, mGloGoodMask = 0xFFFFFF, mBdsGoodMask = 0x1800000001, mGalGoodMask = 0, mQzssGoodMask = 0x1F,
      mGpsBadMask = 0, mGloBadMask = 0, mBdsBadMask = 0, mGalBadMask = 0, mQzssBadMask = 0\<rparr>"

lemma example_length: "length (health_sentence ''120000.00'' example_health ''7A'') \<le> 4096"
proof -
  have h: "length (hex_string (unat w)) \<le> 16" for w :: "64 word"
    using base_string_length [of 16 "unat w" 15] unsigned_less [where 'a = nat, of w] by simp
  have g: "length (hex_string (unat w)) \<le> 8" for w :: "32 word"
    using base_string_length [of 16 "unat w" 7] unsigned_less [where 'a = nat, of w] by simp
  have q: "length (hex_string (unat w)) \<le> 2" for w :: "8 word"
    using base_string_length [of 16 "unat w" 1] unsigned_less [where 'a = nat, of w] by (simp add: eval_nat_numeral)
  show ?thesis
    using h [of "SystemStatusPQWP5.mBdsUnknownMask example_health"] h [of "SystemStatusPQWP5.mGalUnknownMask example_health"]
      h [of "SystemStatusPQWP5.mBdsGoodMask example_health"] h [of "SystemStatusPQWP5.mGalGoodMask example_health"]
      h [of "SystemStatusPQWP5.mBdsBadMask example_health"] h [of "SystemStatusPQWP5.mGalBadMask example_health"]
      g [of "SystemStatusPQWP5.mGpsUnknownMask example_health"] g [of "SystemStatusPQWP5.mGloUnknownMask example_health"]
      g [of "SystemStatusPQWP5.mGpsGoodMask example_health"] g [of "SystemStatusPQWP5.mGloGoodMask example_health"]
      g [of "SystemStatusPQWP5.mGpsBadMask example_health"] g [of "SystemStatusPQWP5.mGloBadMask example_health"]
      q [of "SystemStatusPQWP5.mQzssUnknownMask example_health"] q [of "SystemStatusPQWP5.mQzssGoodMask example_health"]
      q [of "SystemStatusPQWP5.mQzssBadMask example_health"]
    by (simp add: health_sentence_def print_sentence_def health_fields_def)
qed

theorem health_sentence_roundtrip_witness:
  "\<forall>junk tm. \<exists>l. setNmeaString (example_nmea 64) junk tm (Some (health_sentence ''120000.00'' example_health ''7A''))
      (int (length (health_sentence ''120000.00'' example_health ''7A''))) empty_reports = (True, empty_reports\<lparr>mSvHealth := l\<rparr>) \<and>
    l \<noteq> [] \<and> SvHealth_equals (last l) (SvHealth_of (tm 0) example_health) \<and> mUtcReported (last l) = tm 0"
  by (intro allI, rule health_sentence_roundtrip [OF _ _ example_length])
    (simp_all add: field_ok_def masks_below_def example_health_def example_nmea_def)

text \<open>
  C37: where a \<open>long\<close> has 32 bits, as on this device, a mask in which the 32nd or a later satellite is set
  is read as the mask of the first 31 satellites: whatever the modem says of Beidou and Galileo satellites
  from number 32 on, and of GPS satellite 32, is lost, and the first 31 satellites are all reported.
\<close>

theorem health_masks_saturate:
  assumes "field_ok utc" "CHR '','' \<notin> set ck" "length (health_sentence utc m ck) \<le> 4096" "n_long_bits env = 32"
    "2 ^ 31 \<le> unat (SystemStatusPQWP5.mBdsGoodMask m)" "2 ^ 31 \<le> unat (SystemStatusPQWP5.mGpsGoodMask m)"
  shows "\<exists>l. setNmeaString env junk tm (Some (health_sentence utc m ck)) (int (length (health_sentence utc m ck))) r = (True, r\<lparr>mSvHealth := l\<rparr>) \<and>
    l \<noteq> [] \<and> mBdsGoodMask (last l) = 0x7FFFFFFF \<and> mGpsGoodMask (last l) = 0x7FFFFFFF"
proof -
  have len: "int (length (health_sentence utc m ck)) \<le> DEBUG_NMEA_MAXSIZE" using assms(3) by (simp add: DEBUG_NMEA_MAXSIZE_def)
  have big: "clamp 32 w = 0x7FFFFFFF" if "2 ^ 31 \<le> unat w" for w :: "'a::len word"
  proof -
    have "int (2 ^ 31) \<le> int (unat w)" using that by (simp only: of_nat_le_iff)
    then show ?thesis by (simp add: clamp_def min_def)
  qed
  show ?thesis unfolding set_health [OF assms(1,2) refl len] assms(4)
    using last_health [OF refl, of "mSvHealth r" "tm 0" "clamp_health 32 m"] big [OF assms(5)] big [OF assms(6)]
    by (auto simp: SvHealth_equals_def SvHealth_of_def clamp_health_def)
qed

theorem health_masks_saturate_witness:
  "\<forall>junk tm. \<exists>l. setNmeaString (example_nmea 32) junk tm (Some (health_sentence ''120000.00'' example_health ''7A''))
      (int (length (health_sentence ''120000.00'' example_health ''7A''))) empty_reports = (True, empty_reports\<lparr>mSvHealth := l\<rparr>) \<and>
    l \<noteq> [] \<and> mBdsGoodMask (last l) = 0x7FFFFFFF \<and> mGpsGoodMask (last l) = 0x7FFFFFFF"
  by (intro allI, rule health_masks_saturate [OF _ _ example_length]) (simp_all add: field_ok_def example_health_def example_nmea_def)

section \<open>Short sentences\<close>

text \<open>
  a sentence that announces the health of the satellites but has too few fields is not rejected: the
  contents of memory that was never written go into the last report, and the sentence counts as consumed.
\<close>

theorem short_sentence_stores_uninitialised:
  assumes "loc_nmea_is_debug (Some data) len" "take 6 data = ''$PQWP5''" "length (nmea_fields (take 4096 data) len) < eMax_P5"
  shows "\<exists>l. setNmeaString env junk tm (Some data) len r = (True, r\<lparr>mSvHealth := l\<rparr>) \<and> l \<noteq> [] \<and>
    SvHealth_equals (last l) (SvHealth_of (tm 0) (junk_P5 junk))"
proof -
  have "SystemStatusPQWP5parser env (junk_P5 junk) (take 4096 data) len = junk_P5 junk"
    using assms(3) by (simp add: SystemStatusPQWP5parser_def Let_def)
  then have "setNmeaString env junk tm (Some data) len r = (True, r\<lparr>mSvHealth := set_item SvHealth_equals (mSvHealth r) (SvHealth_of (tm 0) (junk_P5 junk))\<rparr>)"
    using assms(1,2) by (simp add: setNmeaString_def Let_def DEBUG_NMEA_MAXSIZE_def)
  then show ?thesis using last_health [OF refl, of "mSvHealth r" "tm 0" "junk_P5 junk"] by blast
qed

theorem short_sentence_stores_uninitialised_witness:
  "\<forall>env junk tm. \<exists>l. setNmeaString env junk tm (Some ''$PQWP5,120000.00,0*7A'') 21 empty_reports = (True, empty_reports\<lparr>mSvHealth := l\<rparr>) \<and> l \<noteq> [] \<and>
    SvHealth_equals (last l) (SvHealth_of (tm 0) (junk_P5 junk))"
proof -
  have p: "take 4096 ''$PQWP5,120000.00,0*7A'' = print_sentence ''$PQWP5'' [''120000.00'', ''0''] ''7A''" by (simp add: print_sentence_def)
  have dbg: "loc_nmea_is_debug (Some ''$PQWP5,120000.00,0*7A'') 21" by (simp add: loc_nmea_is_debug_def DEBUG_NMEA_MINSIZE_def DEBUG_NMEA_MAXSIZE_def)
  then have "nmea_fields (take 4096 ''$PQWP5,120000.00,0*7A'') 21 = [''$PQWP5'', ''120000.00'', ''0'']"
    unfolding p by (intro fields_printed) (simp_all add: field_ok_def print_sentence_def)
  then show ?thesis by (intro allI short_sentence_stores_uninitialised [OF dbg]) (simp_all add: eMax_P5_def)
qed

section \<open>Bluetooth scans\<close>

text \<open>
  the details of Bluetooth scans never change after the first: any two are equal for the cache, so
  later ones only mark the first as reported again; and the details of each kind of scan are kept in the
  report of the other kind.
\<close>

theorem bluetooth_details_frozen:
  assumes "mBtDeviceScanDetail r \<noteq> []"
  shows "\<exists>r'. eventDataItemNotify t (BtLeDeviceScanDetailsDataItem b) r = (False, r', BtLeDeviceScanDetailsDataItem b) \<and>
    map itemBase (mBtDeviceScanDetail r') = map itemBase (mBtDeviceScanDetail r) \<and> mBtLeDeviceScanDetail r' = mBtLeDeviceScanDetail r"
proof -
  obtain l x where l: "mBtDeviceScanDetail r = l @ [x]" using assms by (cases "mBtDeviceScanDetail r" rule: rev_cases) auto
  show ?thesis using l
    by (simp add: eventDataItemNotify_def setIteminReport_def BtDeviceScanDetail_equals_def Let_def)
qed

definition example_scan :: SrnDeviceScanDetailsDataItemBase where
  "example_scan = \<lparr>mValidSrnData = True, mApSrnRssi = - 60, mApSrnMacAddress = [1, 2, 3, 4, 5, 6], mApSrnTimestamp = 1,
     mRequestTimestamp = 1, mReceiveTimestamp = 2, mErrorCause = 0\<rparr>"

theorem bluetooth_details_frozen_witness:
  "\<exists>r'. eventDataItemNotify (2, 0) (BtLeDeviceScanDetailsDataItem (example_scan\<lparr>mApSrnRssi := - 20\<rparr>))
      (empty_reports\<lparr>mBtDeviceScanDetail := [status_of (1, 0) example_scan]\<rparr>) =
      (False, r', BtLeDeviceScanDetailsDataItem (example_scan\<lparr>mApSrnRssi := - 20\<rparr>)) \<and>
    map itemBase (mBtDeviceScanDetail r') = map itemBase (mBtDeviceScanDetail (empty_reports\<lparr>mBtDeviceScanDetail := [status_of (1, 0) example_scan]\<rparr>)) \<and>
    mBtLeDeviceScanDetail r' = mBtLeDeviceScanDetail (empty_reports\<lparr>mBtDeviceScanDetail := [status_of (1, 0) example_scan]\<rparr>)"
  by (rule bluetooth_details_frozen) simp

text \<open>
  A data item that gives its copies memory of their own counts as changed every time, and what is kept of
  it is nothing.
\<close>

lemma service_info_lost:
  assumes "d \<noteq> NULL" "\<forall>s \<in> set (mRilServiceInfo r). RilServiceInfoDataItemBase.mData (itemBase s) = NULL"
  shows "\<exists>r'. eventDataItemNotify t (RilServiceInfoDataItem \<lparr>RilServiceInfoDataItemBase.mData = d\<rparr>) r =
      (True, r', RilServiceInfoDataItem \<lparr>RilServiceInfoDataItemBase.mData = d\<rparr>) \<and>
    (\<forall>s \<in> set (mRilServiceInfo r'). RilServiceInfoDataItemBase.mData (itemBase s) = NULL)"
proof -
  let ?s = "status_of t \<lparr>RilServiceInfoDataItemBase.mData = d\<rparr>"
  obtain ret l s' where set: "setIteminReport (plain ServiceInfo_equals) (mRilServiceInfo r) ?s = (ret, l, s')" by (cases "setIteminReport (plain ServiceInfo_equals) (mRilServiceInfo r) ?s")
  have "mRilServiceInfo r \<noteq> [] \<Longrightarrow> \<not> ServiceInfo_equals (last (mRilServiceInfo r)) ?s"
    using assms by (simp add: ServiceInfo_equals_def status_of_def)
  then have "ret" using set by (auto simp: setIteminReport_def Let_def split: if_splits)
  then show ?thesis using set by (simp add: eventDataItemNotify_def stored_service_def)
qed

end
