(* ===== verification/LocThread.thy ===== *)
theory LocThread
  imports Systems
begin

text \<open>
  \<open>gps/utils/LocThread.{h,cpp}\<close>: a thread that runs an object until it is stopped. A \<open>LocThread\<close> holds a
  delegate, which the spawned thread holds too and which counts its two holders. The client's thread
  and every spawned thread are interleaved: each read or write of the delegate is a step of its own, and
  the decrement under the mutex is one. \<open>run\<close> may return anything, at any time.
\<close>

section \<open>Data\<close>

record LocThreadDelegate =
  mRunnable :: ptr
  mJoinable :: bool
  mThandle :: nat
  mRefCount :: int

text \<open>Who calls \<open>destroy\<close> of the delegate: \<open>create\<close>, \<open>LocThread::stop\<close> or the destructor of the \<open>LocThread\<close>.\<close>

datatype destroyer = By_create | By_stop | By_destructor

text \<open>Where the client is, inside the calls.\<close>

datatype client_pc =
    C_idle
  | C_created ptr
  | C_bye ptr
  | C_stop ptr destroyer
  | C_stopped ptr destroyer
  | C_join ptr nat destroyer
  | C_destroy ptr destroyer
  | C_locked ptr destroyer
  | C_delete ptr bool destroyer
  | C_gone

text \<open>Where a spawned thread is in \<open>threadMain\<close>, with its delegate and the object it runs.\<close>

datatype thread_pc =
    T_main ptr
  | T_prerun ptr ptr
  | T_loop ptr ptr
  | T_run ptr ptr
  | T_postrun ptr ptr
  | T_clear ptr ptr
  | T_free ptr ptr
  | T_destroy ptr
  | T_locked ptr
  | T_delete ptr bool
  | T_exited

text \<open>\<open>results\<close>: what the calls of \<open>start\<close> returned, the last one first.\<close>

record thread_world =
  delegates :: "LocThreadDelegate store"
  runnables :: "ptr set"
  threads :: "nat \<rightharpoonup> thread_pc"
  mThread :: ptr
  client :: client_pc
  results :: "bool list"

definition thread_init :: "ptr set \<Rightarrow> thread_world" where
  "thread_init rs = \<lparr>delegates = Map.empty, runnables = rs, threads = Map.empty, mThread = NULL, client = C_idle, results = []\<rparr>"

section \<open>The delegate\<close>

text \<open>The part of \<open>destroy\<close> under the mutex: the new count, and whether this was the last holder.\<close>

definition drop_ref :: "ptr \<Rightarrow> LocThreadDelegate store \<Rightarrow> (bool \<times> LocThreadDelegate store) option" where
  "drop_ref p ds = do {
     d \<leftarrow> deref ds p;
     Some (mRefCount d = 1, ds(p \<mapsto> d\<lparr>mRefCount := mRefCount d - 1\<rparr>)) }"

text \<open>
  \<open>LocThread::start\<close> until \<open>create\<close> has the delegate: \<open>p\<close> is its memory, \<open>h\<close> the handle of the thread that
  was spawned, 0 when none could be.
\<close>

definition loc_thread_start :: "ptr \<Rightarrow> bool \<Rightarrow> ptr \<Rightarrow> nat \<Rightarrow> thread_world \<Rightarrow> thread_world" where
  "loc_thread_start runnable joinable p h w =
     (if mThread w \<noteq> NULL \<or> runnable = NULL then w\<lparr>results := False # results w\<rparr>
      else if h \<noteq> 0 then
        w\<lparr>delegates := (delegates w)(p \<mapsto> \<lparr>mRunnable = runnable, mJoinable = joinable, mThandle = h, mRefCount = 2\<rparr>),
          threads := (threads w)(h \<mapsto> T_main p), client := C_created p\<rparr>
      else
        w\<lparr>delegates := (delegates w)(p \<mapsto> \<lparr>mRunnable = NULL, mJoinable = False, mThandle = 0, mRefCount = 1\<rparr>),
          client := C_created p\<rparr>)"

definition loc_thread_stop :: "thread_world \<Rightarrow> thread_world" where
  "loc_thread_stop w = (if mThread w \<noteq> NULL then w\<lparr>client := C_stop (mThread w) By_stop\<rparr> else w)"

definition loc_thread_destructor :: "thread_world \<Rightarrow> thread_world" where
  "loc_thread_destructor w = (if mThread w \<noteq> NULL then w\<lparr>client := C_bye (mThread w)\<rparr> else w\<lparr>client := C_gone\<rparr>)"

text \<open>After \<open>destroy\<close>: what its caller does.\<close>

definition destroyed :: "destroyer \<Rightarrow> thread_world \<Rightarrow> thread_world" where
  "destroyed k w =
     (case k of
        By_create \<Rightarrow> w\<lparr>mThread := NULL, results := False # results w, client := C_idle\<rparr>
      | By_stop \<Rightarrow> w\<lparr>mThread := NULL, client := C_idle\<rparr>
      | By_destructor \<Rightarrow> w\<lparr>mThread := NULL, client := C_gone\<rparr>)"

text \<open>The next step of the client inside a call.\<close>

definition client_step :: "thread_world \<Rightarrow> thread_world option" where
  "client_step w =
     (case client w of
        C_created p \<Rightarrow> do {
          d \<leftarrow> deref (delegates w) p;
          Some (if mRunnable d = NULL then w\<lparr>client := C_destroy p By_create\<rparr>
                else w\<lparr>mThread := p, results := True # results w, client := C_idle\<rparr>) }
      | C_bye p \<Rightarrow> do {
          d \<leftarrow> deref (delegates w) p;
          Some (w\<lparr>client := if mJoinable d then C_stop p By_destructor else C_destroy p By_destructor\<rparr>) }
      | C_stop p k \<Rightarrow> do {
          ds \<leftarrow> update_at (delegates w) p (\<lambda>d. d\<lparr>mRunnable := NULL\<rparr>);
          Some (w\<lparr>delegates := ds, client := C_stopped p k\<rparr>) }
      | C_stopped p k \<Rightarrow> do {
          d \<leftarrow> deref (delegates w) p;
          Some (if mJoinable d then w\<lparr>delegates := (delegates w)(p \<mapsto> d\<lparr>mJoinable := False\<rparr>), client := C_join p (mThandle d) k\<rparr>
                else w\<lparr>client := C_destroy p k\<rparr>) }
      | C_join p h k \<Rightarrow> Some (if threads w h = Some T_exited then w\<lparr>client := C_destroy p k\<rparr> else w)
      | C_destroy p k \<Rightarrow> do {
          d \<leftarrow> deref (delegates w) p;
          Some (if mRefCount d > 0 then w\<lparr>client := C_locked p k\<rparr> else destroyed k w) }
      | C_locked p k \<Rightarrow> do {
          (callDelete, ds) \<leftarrow> drop_ref p (delegates w);
          Some (w\<lparr>delegates := ds, client := C_delete p callDelete k\<rparr>) }
      | C_delete p callDelete k \<Rightarrow>
          if callDelete then do {
            ds \<leftarrow> release (delegates w) p;
            Some (destroyed k (w\<lparr>delegates := ds\<rparr>)) }
          else Some (destroyed k w)
      | _ \<Rightarrow> Some w)"

text \<open>A call of a method of the object that is run, which must not have been deleted.\<close>

definition run_object :: "ptr \<Rightarrow> thread_world \<Rightarrow> thread_world option" where
  "run_object r w = (if r \<in> runnables w then Some w else None)"

definition set_thread :: "nat \<Rightarrow> thread_pc \<Rightarrow> thread_world \<Rightarrow> thread_world" where
  "set_thread h t w = w\<lparr>threads := (threads w)(h \<mapsto> t)\<rparr>"

text \<open>The next step of the thread \<open>h\<close> in \<open>threadMain\<close>; \<open>again\<close> is what \<open>run\<close> returns.\<close>

definition threadMain :: "nat \<Rightarrow> bool \<Rightarrow> thread_world \<Rightarrow> thread_world option" where
  "threadMain h again w =
     (case threads w h of
        Some (T_main p) \<Rightarrow> do {
          d \<leftarrow> deref (delegates w) p;
          Some (set_thread h (if mRunnable d \<noteq> NULL then T_prerun p (mRunnable d) else T_destroy p) w) }
      | Some (T_prerun p r) \<Rightarrow> do {
          d \<leftarrow> deref (delegates w) p;
          w \<leftarrow> (if mRunnable d \<noteq> NULL then run_object r w else Some w);
          Some (set_thread h (T_loop p r) w) }
      | Some (T_loop p r) \<Rightarrow> do {
          d \<leftarrow> deref (delegates w) p;
          Some (set_thread h (if mRunnable d \<noteq> NULL then T_run p r else T_postrun p r) w) }
      | Some (T_run p r) \<Rightarrow> do {
          w \<leftarrow> run_object r w;
          Some (set_thread h (if again then T_loop p r else T_postrun p r) w) }
      | Some (T_postrun p r) \<Rightarrow> do {
          d \<leftarrow> deref (delegates w) p;
          w \<leftarrow> (if mRunnable d \<noteq> NULL then run_object r w else Some w);
          Some (set_thread h (T_clear p r) w) }
      | Some (T_clear p r) \<Rightarrow> do {
          ds \<leftarrow> update_at (delegates w) p (\<lambda>d. d\<lparr>mRunnable := NULL\<rparr>);
          Some (set_thread h (T_free p r) (w\<lparr>delegates := ds\<rparr>)) }
      | Some (T_free p r) \<Rightarrow> do {
          w \<leftarrow> run_object r w;
          Some (set_thread h (T_destroy p) (w\<lparr>runnables := runnables w - {r}\<rparr>)) }
      | Some (T_destroy p) \<Rightarrow> do {
          d \<leftarrow> deref (delegates w) p;
          Some (set_thread h (if mRefCount d > 0 then T_locked p else T_exited) w) }
      | Some (T_locked p) \<Rightarrow> do {
          (callDelete, ds) \<leftarrow> drop_ref p (delegates w);
          Some (set_thread h (T_delete p callDelete) (w\<lparr>delegates := ds\<rparr>)) }
      | Some (T_delete p callDelete) \<Rightarrow>
          if callDelete then do {
            ds \<leftarrow> release (delegates w) p;
            Some (set_thread h T_exited (w\<lparr>delegates := ds\<rparr>)) }
          else Some (set_thread h T_exited w)
      | _ \<Rightarrow> Some w)"

end
