(* ===== verification/LocThreadProofs.thy ===== *)
theory LocThreadProofs
  imports LocThread
begin

text \<open>
  The life time of delegates and of the objects that threads run, for one \<open>LocThread\<close> that is started and
  stopped any number of times, under every interleaving of its client and the spawned threads; and the
  two histories in which an object is leaked or deleted twice.
\<close>

section \<open>Holders\<close>

text \<open>The delegate that the client still counts on, and the one it is about to delete.\<close>

fun pc_ref :: "ptr \<Rightarrow> client_pc \<Rightarrow> ptr" where
  "pc_ref t C_idle = t"
| "pc_ref t (C_created p) = p"
| "pc_ref t (C_bye p) = p"
| "pc_ref t (C_stop p k) = p"
| "pc_ref t (C_stopped p k) = p"
| "pc_ref t (C_join p h k) = p"
| "pc_ref t (C_destroy p k) = p"
| "pc_ref t (C_locked p k) = p"
| "pc_ref t (C_delete p b k) = NULL"
| "pc_ref t C_gone = NULL"

fun pc_del :: "client_pc \<Rightarrow> ptr" where
  "pc_del (C_delete p True k) = p"
| "pc_del _ = NULL"

text \<open>The same for a spawned thread, and the object it will delete.\<close>

fun thread_ref :: "thread_pc \<Rightarrow> ptr" where
  "thread_ref (T_main p) = p"
| "thread_ref (T_prerun p r) = p"
| "thread_ref (T_loop p r) = p"
| "thread_ref (T_run p r) = p"
| "thread_ref (T_postrun p r) = p"
| "thread_ref (T_clear p r) = p"
| "thread_ref (T_free p r) = p"
| "thread_ref (T_destroy p) = p"
| "thread_ref (T_locked p) = p"
| "thread_ref (T_delete p b) = NULL"
| "thread_ref T_exited = NULL"

fun thread_del :: "thread_pc \<Rightarrow> ptr" where
  "thread_del (T_delete p True) = p"
| "thread_del _ = NULL"

fun thread_run :: "LocThreadDelegate store \<Rightarrow> thread_pc \<Rightarrow> ptr" where
  "thread_run ds (T_main p) = (case ds p of None \<Rightarrow> NULL | Some d \<Rightarrow> mRunnable d)"
| "thread_run ds (T_prerun p r) = r"
| "thread_run ds (T_loop p r) = r"
| "thread_run ds (T_run p r) = r"
| "thread_run ds (T_postrun p r) = r"
| "thread_run ds (T_clear p r) = r"
| "thread_run ds (T_free p r) = r"
| "thread_run ds _ = NULL"

definition refs_of :: "(nat \<rightharpoonup> thread_pc) \<Rightarrow> nat \<Rightarrow> ptr" where
  "refs_of ts h = (case ts h of None \<Rightarrow> NULL | Some t \<Rightarrow> thread_ref t)"

definition dels_of :: "(nat \<rightharpoonup> thread_pc) \<Rightarrow> nat \<Rightarrow> ptr" where
  "dels_of ts h = (case ts h of None \<Rightarrow> NULL | Some t \<Rightarrow> thread_del t)"

definition runs_of :: "LocThreadDelegate store \<Rightarrow> (nat \<rightharpoonup> thread_pc) \<Rightarrow> nat \<Rightarrow> ptr" where
  "runs_of ds ts h = (case ts h of None \<Rightarrow> NULL | Some t \<Rightarrow> thread_run ds t)"

lemma refs_of_upd [simp]: "refs_of (ts(h \<mapsto> t)) = (refs_of ts)(h := thread_ref t)"
  by (simp add: refs_of_def fun_eq_iff)

lemma dels_of_upd [simp]: "dels_of (ts(h \<mapsto> t)) = (dels_of ts)(h := thread_del t)"
  by (simp add: dels_of_def fun_eq_iff)

lemma runs_of_upd [simp]: "runs_of ds (ts(h \<mapsto> t)) = (runs_of ds ts)(h := thread_run ds t)"
  by (simp add: runs_of_def fun_eq_iff)

text \<open>
  Each live delegate is counted by its holders, who are the client and the thread it spawned.
\<close>

definition counted :: "LocThreadDelegate store \<Rightarrow> ptr \<Rightarrow> (nat \<Rightarrow> ptr) \<Rightarrow> bool" where
  "counted ds c tr \<longleftrightarrow>
     (\<forall>p d. ds p = Some d \<longrightarrow> p \<noteq> NULL \<and> mRefCount d = of_bool (c = p) + of_bool (tr (mThandle d) = p)) \<and>
     (c \<noteq> NULL \<longrightarrow> ds c \<noteq> None) \<and>
     (\<forall>h. tr h \<noteq> NULL \<longrightarrow> (\<exists>d. ds (tr h) = Some d \<and> mThandle d = h))"

text \<open>The one who brought the count to zero, and nobody else, is about to delete it.\<close>

definition dying :: "LocThreadDelegate store \<Rightarrow> ptr set" where
  "dying ds = {p. \<exists>d. ds p = Some d \<and> mRefCount d = 0}"

definition deleters :: "LocThreadDelegate store \<Rightarrow> ptr \<Rightarrow> (nat \<Rightarrow> ptr) \<Rightarrow> bool" where
  "deleters ds x tx \<longleftrightarrow> dying ds = (insert x (range tx)) - {NULL} \<and> (x \<noteq> NULL \<longrightarrow> (\<forall>h. tx h \<noteq> x)) \<and>
     (\<forall>g h. tx h \<noteq> NULL \<longrightarrow> tx g = tx h \<longrightarrow> g = h)"

lemma counted_client: "counted ds c tr \<Longrightarrow> c \<noteq> NULL \<Longrightarrow> \<exists>d. ds c = Some d \<and> mRefCount d > 0"
  unfolding counted_def by (cases "ds c") auto

lemma counted_thread: "counted ds c tr \<Longrightarrow> tr h \<noteq> NULL \<Longrightarrow> \<exists>d. ds (tr h) = Some d \<and> mThandle d = h \<and> mRefCount d > 0"
proof -
  assume c: "counted ds c tr" and n: "tr h \<noteq> NULL"
  obtain d where d: "ds (tr h) = Some d" "mThandle d = h" using c n unfolding counted_def by blast
  have "mRefCount d = of_bool (c = tr h) + of_bool (tr (mThandle d) = tr h)" using c d(1) unfolding counted_def by blast
  then show ?thesis using d by simp
qed

lemma counted_handle: "counted ds c tr \<Longrightarrow> tr h \<noteq> NULL \<Longrightarrow> ds (tr h) = Some d \<Longrightarrow> mThandle d = h"
  using counted_thread [of ds c tr h] by auto

lemma counted_same:
  assumes "counted ds c tr" "ds p = Some d" "mRefCount d' = mRefCount d" "mThandle d' = mThandle d"
  shows "counted (ds(p \<mapsto> d')) c tr"
proof -
  have "\<exists>e. (ds(p \<mapsto> d')) q = Some e \<and> mThandle e = h" if "\<exists>e. ds q = Some e \<and> mThandle e = h" for q h using that assms by auto
  then show ?thesis using assms unfolding counted_def by (auto split: if_splits)
qed

lemma dying_same: "ds p = Some d \<Longrightarrow> mRefCount d' = mRefCount d \<Longrightarrow> dying (ds(p \<mapsto> d')) = dying ds"
  by (auto simp: dying_def)

lemma counted_client_drop:
  assumes "counted ds p tr" "ds p = Some d" "p \<noteq> NULL"
  shows "counted (ds(p \<mapsto> d\<lparr>mRefCount := mRefCount d - 1\<rparr>)) NULL tr"
proof -
  have "mRefCount d = 1 + of_bool (tr (mThandle d) = p)" using assms by (simp add: counted_def)
  moreover have "mThandle d = h" if "tr h = p" for h using counted_handle [OF assms(1), of h] assms(2,3) that by simp
  ultimately show ?thesis using assms unfolding counted_def by simp
qed

lemma dying_drop:
  "ds p = Some d \<Longrightarrow> mRefCount d > 0 \<Longrightarrow>
     dying (ds(p \<mapsto> d\<lparr>mRefCount := mRefCount d - 1\<rparr>)) = (if mRefCount d = 1 then insert p (dying ds) else dying ds)"
  by (auto simp: dying_def split: if_splits)

lemma dying_delete: "dying (ds(p := None)) = dying ds - {p}"
  by (auto simp: dying_def split: if_splits)

lemma deleters_client_drop:
  assumes "deleters ds NULL tx" "ds p = Some d" "mRefCount d > 0" "p \<noteq> NULL"
  shows "deleters (ds(p \<mapsto> d\<lparr>mRefCount := mRefCount d - 1\<rparr>)) (if mRefCount d = 1 then p else NULL) tx"
proof -
  have "p \<notin> dying ds" using assms(2,3) by (simp add: dying_def)
  then show ?thesis using assms(1,4) unfolding deleters_def dying_drop [where ds = ds, OF assms(2,3)] by auto
qed

lemma deleters_client_delete:
  assumes "deleters ds p tx" "p \<noteq> NULL"
  shows "deleters (ds(p := None)) NULL tx"
  using assms unfolding deleters_def dying_delete by auto

lemma deleters_thread_drop:
  assumes "deleters ds x tx" "ds p = Some d" "mRefCount d > 0" "p \<noteq> NULL" "tx h = NULL"
  shows "deleters (ds(p \<mapsto> d\<lparr>mRefCount := mRefCount d - 1\<rparr>)) x (tx(h := (if mRefCount d = 1 then p else NULL)))"
proof -
  have p: "p \<notin> dying ds" using assms(2,3) by (simp add: dying_def)
  then have q: "x \<noteq> p" "p \<notin> range tx" using assms(1,4) by (auto simp: deleters_def)
  have "range (tx(h := v)) - {NULL} = (range tx \<union> {v}) - {NULL}" for v using assms(5) by (auto simp: fun_upd_def)
  then have r: "insert x (range (tx(h := v))) - {NULL} = (insert x (range tx) \<union> {v}) - {NULL}" for v by blast
  have d: "dying ds = insert x (range tx) - {NULL}" using assms(1) by (simp add: deleters_def)
  let ?v = "if mRefCount d = 1 then p else NULL"
  have "dying (ds(p \<mapsto> d\<lparr>mRefCount := mRefCount d - 1\<rparr>)) = insert x (range (tx(h := ?v))) - {NULL}"
    unfolding dying_drop [where ds = ds, OF assms(2,3)] r d using assms(4) by (cases "mRefCount d = 1") auto
  moreover have "x \<noteq> NULL \<longrightarrow> (\<forall>g. (tx(h := ?v)) g \<noteq> x)" using assms(1) q(1) unfolding deleters_def by simp
  moreover have "(tx(h := ?v)) i \<noteq> NULL \<longrightarrow> (tx(h := ?v)) g = (tx(h := ?v)) i \<longrightarrow> g = i" for g i
  proof -
    have "tx g \<noteq> p" "tx i \<noteq> p" using q(2) by (metis rangeI)+
    then show ?thesis using assms(1) unfolding deleters_def by simp
  qed
  ultimately show ?thesis unfolding deleters_def by blast
qed

lemma deleters_thread_delete:
  assumes "deleters ds x tx" "tx h = p" "p \<noteq> NULL"
  shows "deleters (ds(p := None)) x (tx(h := NULL))"
proof -
  have one: "tx g = p \<longleftrightarrow> g = h" for g using assms unfolding deleters_def by metis
  have x: "x \<noteq> p" using assms unfolding deleters_def by auto
  have "(insert x (range (tx(h := NULL))) - {NULL}) = (insert x (range tx) - {NULL}) - {p}"
  proof (rule set_eqI)
    show "q \<in> insert x (range (tx(h := NULL))) - {NULL} \<longleftrightarrow> q \<in> insert x (range tx) - {NULL} - {p}" for q
      using one x by (auto simp: image_iff)
  qed
  then have "dying (ds(p := None)) = insert x (range (tx(h := NULL))) - {NULL}" using assms(1) unfolding deleters_def dying_delete by simp
  then show ?thesis using assms(1) unfolding deleters_def by simp
qed

lemma counted_thread_drop:
  assumes "counted ds c tr" "tr h = p" "ds p = Some d" "p \<noteq> NULL"
  shows "counted (ds(p \<mapsto> d\<lparr>mRefCount := mRefCount d - 1\<rparr>)) c (tr(h := NULL))"
proof -
  have h: "mThandle d = h" using counted_handle [OF assms(1), of h] assms by simp
  have one: "g = h" if "tr g = p" for g using counted_handle [OF assms(1), of g] assms h that by simp
  have "mRefCount d = of_bool (c = p) + 1" using assms h by (simp add: counted_def)
  moreover have "ds q = Some e \<Longrightarrow> q \<noteq> p \<Longrightarrow> (tr(h := NULL)) (mThandle e) = q \<longleftrightarrow> tr (mThandle e) = q" for q e
    using assms by (auto simp: counted_def)
  moreover have "g \<noteq> h \<Longrightarrow> tr g \<noteq> p" for g using one by auto
  ultimately show ?thesis using assms(1,3,4) unfolding counted_def by (simp add: h)
qed

lemma counted_delete:
  assumes "counted ds c tr" "p \<in> dying ds"
  shows "counted (ds(p := None)) c tr"
proof -
  obtain d where d: "ds p = Some d" "mRefCount d = 0" using assms(2) by (auto simp: dying_def)
  then have "of_bool (c = p) + of_bool (tr (mThandle d) = p) = (0 :: int)" using assms(1) by (simp add: counted_def)
  then have "c \<noteq> p" "tr (mThandle d) \<noteq> p" by (cases "c = p"; cases "tr (mThandle d) = p"; simp)+
  moreover have "p \<noteq> NULL" using assms(1) d(1) by (auto simp: counted_def)
  then have "tr h = p \<Longrightarrow> h = mThandle d" for h using counted_handle [OF assms(1), of h] d(1) by simp
  ultimately have "tr h \<noteq> p" for h by auto
  then show ?thesis using assms(1) \<open>c \<noteq> p\<close> unfolding counted_def by auto
qed

section \<open>The invariant\<close>

text \<open>No two threads have the same object, and each object they have is alive.\<close>

definition runs_ok :: "ptr set \<Rightarrow> (nat \<Rightarrow> ptr) \<Rightarrow> bool" where
  "runs_ok rs own \<longleftrightarrow> (\<forall>h. own h \<noteq> NULL \<longrightarrow> own h \<in> rs \<and> (\<forall>g. own g = own h \<longrightarrow> g = h))"

lemma runs_ok_less: "runs_ok rs own \<Longrightarrow> \<forall>h. own' h = own h \<or> own' h = NULL \<Longrightarrow> runs_ok rs own'"
  unfolding runs_ok_def by metis

lemma runs_ok_upd: "runs_ok rs own \<Longrightarrow> r = own h \<or> r = NULL \<Longrightarrow> runs_ok rs (own(h := r))"
  by (erule runs_ok_less) auto

lemma runs_ok_free: "runs_ok rs own \<Longrightarrow> runs_ok (rs - {own h}) (own(h := NULL))"
  unfolding runs_ok_def by auto

text \<open>Changes of a delegate that give it no new object.\<close>

definition shrinks :: "LocThreadDelegate store \<Rightarrow> LocThreadDelegate store \<Rightarrow> bool" where
  "shrinks ds ds' \<longleftrightarrow> (\<forall>p d'. ds' p = Some d' \<longrightarrow> (\<exists>d. ds p = Some d \<and> mRunnable d' \<in> {mRunnable d, NULL}))"

lemma shrinks_intros:
  "shrinks ds ds" "ds p = Some d \<Longrightarrow> mRunnable d' \<in> {mRunnable d, NULL} \<Longrightarrow> shrinks ds (ds(p \<mapsto> d'))" "shrinks ds (ds(p := None))"
  by (auto simp: shrinks_def)

lemma runs_shrink: "shrinks ds ds' \<Longrightarrow> thread_run ds' t = thread_run ds t \<or> thread_run ds' t = NULL"
  by (cases t) (fastforce simp: shrinks_def split: option.splits)+

lemma runs_ok_shrink: "runs_ok rs (runs_of ds ts) \<Longrightarrow> shrinks ds ds' \<Longrightarrow> runs_ok rs (runs_of ds' ts)"
  by (erule runs_ok_less) (use runs_shrink in \<open>auto simp: runs_of_def split: option.splits\<close>)

fun client_wf :: "client_pc \<Rightarrow> bool" where
  "client_wf C_idle = True"
| "client_wf C_gone = True"
| "client_wf (C_delete p b k) = (p \<noteq> NULL)"
| "client_wf c = (pc_ref NULL c \<noteq> NULL)"

fun thread_wf :: "thread_pc \<Rightarrow> bool" where
  "thread_wf T_exited = True"
| "thread_wf (T_delete p b) = (p \<noteq> NULL)"
| "thread_wf (T_main p) = (p \<noteq> NULL)"
| "thread_wf (T_destroy p) = (p \<noteq> NULL)"
| "thread_wf (T_locked p) = (p \<noteq> NULL)"
| "thread_wf t = (thread_ref t \<noteq> NULL \<and> thread_run Map.empty t \<noteq> NULL)"

definition thread_inv :: "thread_world \<Rightarrow> bool" where
  "thread_inv w \<longleftrightarrow>
     counted (delegates w) (pc_ref (mThread w) (client w)) (refs_of (threads w)) \<and>
     deleters (delegates w) (pc_del (client w)) (dels_of (threads w)) \<and>
     runs_ok (runnables w) (runs_of (delegates w) (threads w)) \<and>
     threads w 0 = None \<and> client_wf (client w) \<and> (\<forall>t \<in> ran (threads w). thread_wf t)"

lemma thread_init_inv: "thread_inv (thread_init rs)"
  by (simp add: thread_inv_def thread_init_def counted_def deleters_def dying_def runs_ok_def refs_of_def dels_of_def runs_of_def)

text \<open>A step of the client that leaves the count of its delegate and what it runs alone.\<close>

lemma client_moves:
  assumes "thread_inv w" "ds = delegates w \<or> (\<exists>p d d'. delegates w p = Some d \<and> ds = (delegates w)(p \<mapsto> d') \<and>
      mRefCount d' = mRefCount d \<and> mThandle d' = mThandle d \<and> mRunnable d' \<in> {mRunnable d, NULL})"
    "pc_ref t c = pc_ref (mThread w) (client w)" "pc_del c = pc_del (client w)" "client_wf c"
  shows "thread_inv (w\<lparr>delegates := ds, mThread := t, client := c\<rparr>)"
proof -
  have "counted ds (pc_ref (mThread w) (client w)) (refs_of (threads w))" "dying ds = dying (delegates w)" "shrinks (delegates w) ds"
    using assms(1,2) counted_same dying_same shrinks_intros(1,2) unfolding thread_inv_def by metis+
  then show ?thesis using assms runs_ok_shrink unfolding thread_inv_def deleters_def by auto
qed

lemma thread_inv_results [simp]:
  "thread_inv (w\<lparr>results := bs\<rparr>) = thread_inv w"
  "thread_inv (w\<lparr>mThread := p, results := bs, client := c\<rparr>) = thread_inv (w\<lparr>mThread := p, client := c\<rparr>)"
  by (simp_all add: thread_inv_def)

lemma destroyed_inv:
  assumes "thread_inv w" "pc_ref (mThread w) (client w) = NULL" "pc_del (client w) = NULL"
  shows "thread_inv (destroyed k w)"
proof -
  have "thread_inv (w\<lparr>delegates := delegates w, mThread := NULL, client := c\<rparr>)" if "c = C_idle \<or> c = C_gone" for c
    by (rule client_moves [OF assms(1)]) (use assms that in auto)
  from this [of C_idle] this [of C_gone] show ?thesis by (cases k) (simp_all add: destroyed_def)
qed

lemma client_keeps:
  assumes "thread_inv w" "pc_ref (mThread w) c = pc_ref (mThread w) (client w)" "pc_del c = pc_del (client w)" "client_wf c"
  shows "thread_inv (w\<lparr>client := c\<rparr>)"
  using client_moves [OF assms(1) _ assms(2-4), of "delegates w"] by simp

lemma client_delegate:
  assumes "thread_inv w" "pc_ref (mThread w) (client w) \<noteq> NULL"
  obtains d where "delegates w (pc_ref (mThread w) (client w)) = Some d" "mRefCount d > 0"
  using assms counted_client unfolding thread_inv_def by metis

lemma client_writes:
  assumes "thread_inv w" "delegates w p = Some d" "mRefCount d' = mRefCount d" "mThandle d' = mThandle d" "mRunnable d' \<in> {mRunnable d, NULL}"
    "pc_ref (mThread w) c = pc_ref (mThread w) (client w)" "pc_del c = pc_del (client w)" "client_wf c"
  shows "thread_inv (w\<lparr>delegates := (delegates w)(p \<mapsto> d'), client := c\<rparr>)"
  using client_moves [OF assms(1) _ assms(6-8), of "(delegates w)(p \<mapsto> d')"] assms(2-5) by auto

lemma client_drops:
  assumes "thread_inv w" "client w = C_locked p k" "delegates w p = Some d" "mRefCount d > 0"
  shows "thread_inv (w\<lparr>delegates := (delegates w)(p \<mapsto> d\<lparr>mRefCount := mRefCount d - 1\<rparr>), client := C_delete p (mRefCount d = 1) k\<rparr>)"
proof -
  have p: "p \<noteq> NULL" using assms(1,2) by (auto simp: thread_inv_def)
  have "shrinks (delegates w) ((delegates w)(p \<mapsto> d\<lparr>mRefCount := mRefCount d - 1\<rparr>))" using shrinks_intros(2) assms(3) by simp
  then show ?thesis
    using assms p counted_client_drop [where ds = "delegates w", OF _ assms(3) p] deleters_client_drop [where ds = "delegates w", OF _ assms(3,4) p] runs_ok_shrink
    unfolding thread_inv_def by (cases "mRefCount d = 1") auto
qed

lemma client_deletes:
  assumes "thread_inv w" "client w = C_delete p True k"
  shows "\<exists>d. delegates w p = Some d" "thread_inv (destroyed k (w\<lparr>delegates := (delegates w)(p := None)\<rparr>))"
proof -
  have p: "p \<noteq> NULL" "p \<in> dying (delegates w)" using assms by (auto simp: thread_inv_def deleters_def)
  then show "\<exists>d. delegates w p = Some d" by (auto simp: dying_def)
  have "thread_inv (w\<lparr>delegates := (delegates w)(p := None), client := C_delete p False k\<rparr>)"
    using assms p counted_delete [OF _ p(2)] deleters_client_delete [OF _ p(1)] runs_ok_shrink [OF _ shrinks_intros(3)]
    unfolding thread_inv_def by auto
  then have "thread_inv (destroyed k (w\<lparr>delegates := (delegates w)(p := None), client := C_delete p False k\<rparr>))"
    by (rule destroyed_inv) simp_all
  then show "thread_inv (destroyed k (w\<lparr>delegates := (delegates w)(p := None)\<rparr>))" by (cases k) (simp_all add: destroyed_def)
qed

lemma client_inv:
  assumes "thread_inv w"
  shows "\<exists>w'. client_step w = Some w' \<and> thread_inv w'"
proof (cases "pc_ref (mThread w) (client w) = NULL \<or> client w = C_idle")
  case True
  then have "client w = C_idle \<or> client w = C_gone \<or> (\<exists>p b k. client w = C_delete p b k)"
    using assms by (cases "client w") (auto simp: thread_inv_def)
  moreover have "\<exists>w'. client_step w = Some w' \<and> thread_inv w'" if c: "client w = C_delete p b k" for p b k
  proof (cases b)
    case True
    have "p \<noteq> NULL" using assms c by (auto simp: thread_inv_def)
    then show ?thesis using client_deletes [of w p k] assms c True by (auto simp: client_step_def store_simps)
  next
    case False
    then show ?thesis using destroyed_inv [OF assms, of k] c by (simp add: client_step_def)
  qed
  ultimately show ?thesis using assms by (auto simp: client_step_def)
next
  case False
  then obtain d where d: "delegates w (pc_ref (mThread w) (client w)) = Some d" "mRefCount d > 0" using client_delegate assms by metis
  have wf: "client_wf (client w)" using assms by (simp add: thread_inv_def)
  show ?thesis
  proof (cases "client w")
    case (C_created p)
    have "thread_inv (w\<lparr>delegates := delegates w, mThread := p, client := C_idle\<rparr>)"
      by (rule client_moves [OF assms]) (simp_all add: C_created)
    then have "thread_inv (w\<lparr>mThread := p, client := C_idle, results := True # results w\<rparr>)"
      by simp
    then show ?thesis using C_created d wf client_keeps [OF assms, of "C_destroy p By_create"] by (simp add: client_step_def store_simps)
  next
    case (C_bye p)
    then show ?thesis using d wf client_keeps [OF assms, of "C_stop p By_destructor"] client_keeps [OF assms, of "C_destroy p By_destructor"]
      by (simp add: client_step_def store_simps)
  next
    case (C_stop p k)
    then show ?thesis using d wf client_writes [OF assms, of p d "d\<lparr>mRunnable := NULL\<rparr>" "C_stopped p k"]
      by (simp add: client_step_def store_simps)
  next
    case (C_stopped p k)
    then show ?thesis using d wf client_keeps [OF assms, of "C_destroy p k"]
        client_writes [OF assms, of p d "d\<lparr>mJoinable := False\<rparr>" "C_join p (mThandle d) k"]
      by (simp add: client_step_def store_simps)
  next
    case (C_join p h k)
    then show ?thesis using d wf client_keeps [OF assms, of "C_destroy p k"] assms by (simp add: client_step_def)
  next
    case (C_destroy p k)
    then show ?thesis using d wf client_keeps [OF assms, of "C_locked p k"] by (simp add: client_step_def store_simps)
  next
    case (C_locked p k)
    then show ?thesis using d wf client_drops [OF assms C_locked] by (simp add: client_step_def drop_ref_def store_simps)
  qed (use False in auto)
qed

lemma thread_handle: "thread_inv w \<Longrightarrow> threads w h = Some t \<Longrightarrow> h \<noteq> 0 \<and> thread_wf t"
  unfolding thread_inv_def by (metis option.distinct(1) ranI)

text \<open>A step of a thread that keeps its hold of the delegate and the object, or gives the object up.\<close>

lemma thread_moves:
  assumes "thread_inv w" "threads w h = Some t" "thread_ref t' = thread_ref t" "thread_del t' = thread_del t" "thread_wf t'"
    "thread_run (delegates w) t' \<in> {thread_run (delegates w) t, NULL}"
  shows "thread_inv (set_thread h t' w)"
proof -
  have h: "h \<noteq> 0" using thread_handle [OF assms(1,2)] by simp
  have "refs_of (threads w) h = thread_ref t" "dels_of (threads w) h = thread_del t" "runs_of (delegates w) (threads w) h = thread_run (delegates w) t"
    using assms(2) by (simp_all add: refs_of_def dels_of_def runs_of_def)
  then have "(refs_of (threads w))(h := thread_ref t') = refs_of (threads w)" "(dels_of (threads w))(h := thread_del t') = dels_of (threads w)"
    "runs_ok (runnables w) ((runs_of (delegates w) (threads w))(h := thread_run (delegates w) t'))"
    using assms runs_ok_upd by (auto simp: thread_inv_def)
  moreover have "\<forall>t \<in> ran ((threads w)(h \<mapsto> t')). thread_wf t" using assms(1,5) by (auto simp: thread_inv_def ran_def)
  ultimately show ?thesis using assms(1) h by (simp add: thread_inv_def set_thread_def)
qed

lemma thread_delegate:
  assumes "thread_inv w" "threads w h = Some t" "thread_ref t \<noteq> NULL"
  shows "\<exists>d. delegates w (thread_ref t) = Some d \<and> mRefCount d > 0"
proof -
  have "refs_of (threads w) h = thread_ref t" using assms(2) by (simp add: refs_of_def)
  then show ?thesis using assms(1,3) counted_thread unfolding thread_inv_def by metis
qed

lemma thread_object:
  assumes "thread_inv w" "threads w h = Some t" "thread_run (delegates w) t \<noteq> NULL"
  shows "thread_run (delegates w) t \<in> runnables w"
proof -
  have "runs_of (delegates w) (threads w) h = thread_run (delegates w) t" using assms(2) by (simp add: runs_of_def)
  then show ?thesis using assms(1,3) unfolding thread_inv_def runs_ok_def by metis
qed

lemma thread_clears:
  assumes "thread_inv w" "delegates w p = Some d"
  shows "thread_inv (w\<lparr>delegates := (delegates w)(p \<mapsto> d\<lparr>mRunnable := NULL\<rparr>)\<rparr>)"
  using client_writes [OF assms, of "d\<lparr>mRunnable := NULL\<rparr>" "client w"] assms(1) by (simp add: thread_inv_def)

lemma thread_frees:
  assumes "thread_inv w" "threads w h = Some (T_free p r)"
  shows "thread_inv (set_thread h (T_destroy p) (w\<lparr>runnables := runnables w - {r}\<rparr>))"
proof -
  have r: "runs_of (delegates w) (threads w) h = r" "refs_of (threads w) h = p" "dels_of (threads w) h = NULL"
    using assms(2) by (simp_all add: runs_of_def refs_of_def dels_of_def)
  have h: "h \<noteq> 0" "p \<noteq> NULL" using thread_handle [OF assms(1,2)] by simp_all
  have "runs_ok (runnables w - {r}) ((runs_of (delegates w) (threads w))(h := NULL))"
    using assms(1) runs_ok_free [of "runnables w" "runs_of (delegates w) (threads w)" h] r(1) by (simp add: thread_inv_def)
  moreover have "(refs_of (threads w))(h := p) = refs_of (threads w)" "(dels_of (threads w))(h := NULL) = dels_of (threads w)" using r by auto
  moreover have "\<forall>t \<in> ran ((threads w)(h \<mapsto> T_destroy p)). thread_wf t" using assms(1) h by (auto simp: thread_inv_def ran_def)
  ultimately show ?thesis using assms(1) h by (simp add: thread_inv_def set_thread_def)
qed

lemma thread_drops:
  assumes "thread_inv w" "threads w h = Some (T_locked p)" "delegates w p = Some d" "mRefCount d > 0"
  shows "thread_inv (set_thread h (T_delete p (mRefCount d = 1)) (w\<lparr>delegates := (delegates w)(p \<mapsto> d\<lparr>mRefCount := mRefCount d - 1\<rparr>)\<rparr>))"
proof -
  let ?ds = "(delegates w)(p \<mapsto> d\<lparr>mRefCount := mRefCount d - 1\<rparr>)"
  have h: "h \<noteq> 0" "p \<noteq> NULL" using thread_handle [OF assms(1,2)] by simp_all
  have r: "refs_of (threads w) h = p" "dels_of (threads w) h = NULL" using assms(2) by (simp_all add: refs_of_def dels_of_def)
  have "counted ?ds (pc_ref (mThread w) (client w)) ((refs_of (threads w))(h := NULL))"
    using counted_thread_drop [where ds = "delegates w" and tr = "refs_of (threads w)", OF _ r(1) assms(3) h(2)] assms(1) by (simp add: thread_inv_def)
  moreover have "deleters ?ds (pc_del (client w)) ((dels_of (threads w))(h := (if mRefCount d = 1 then p else NULL)))"
    using deleters_thread_drop [where ds = "delegates w" and tx = "dels_of (threads w)", OF _ assms(3,4) h(2) r(2)] assms(1) by (simp add: thread_inv_def)
  moreover have "thread_del (T_delete p (mRefCount d = 1)) = (if mRefCount d = 1 then p else NULL)" by (cases "mRefCount d = 1") auto
  moreover have "runs_ok (runnables w) ((runs_of ?ds (threads w))(h := NULL))"
    using assms(1) runs_ok_shrink [OF _ shrinks_intros(2) [where ds = "delegates w", OF assms(3)]] runs_ok_upd by (simp add: thread_inv_def)
  moreover have "\<forall>t \<in> ran ((threads w)(h \<mapsto> T_delete p (mRefCount d = 1))). thread_wf t" using assms(1) h by (auto simp: thread_inv_def ran_def)
  ultimately show ?thesis using assms(1) h by (simp add: thread_inv_def set_thread_def)
qed

lemma thread_deletes:
  assumes "thread_inv w" "threads w h = Some (T_delete p True)"
  shows "\<exists>d. delegates w p = Some d" "thread_inv (set_thread h T_exited (w\<lparr>delegates := (delegates w)(p := None)\<rparr>))"
proof -
  have h: "h \<noteq> 0" "p \<noteq> NULL" using thread_handle [OF assms(1,2)] by simp_all
  have r: "refs_of (threads w) h = NULL" "dels_of (threads w) h = p" "runs_of (delegates w) (threads w) h = NULL"
    using assms(2) by (simp_all add: refs_of_def dels_of_def runs_of_def)
  have p: "p \<in> dying (delegates w)" using assms(1) r(2) h(2) unfolding thread_inv_def deleters_def by (metis Diff_iff insertCI rangeI singletonD)
  then show "\<exists>d. delegates w p = Some d" by (auto simp: dying_def)
  have "counted ((delegates w)(p := None)) (pc_ref (mThread w) (client w)) ((refs_of (threads w))(h := NULL))"
    using counted_delete [OF _ p] assms(1) r(1) by (simp add: thread_inv_def fun_upd_idem)
  moreover have "deleters ((delegates w)(p := None)) (pc_del (client w)) ((dels_of (threads w))(h := NULL))"
    using deleters_thread_delete [where ds = "delegates w" and tx = "dels_of (threads w)", OF _ r(2) h(2)] assms(1) by (simp add: thread_inv_def)
  moreover have "runs_ok (runnables w) ((runs_of ((delegates w)(p := None)) (threads w))(h := NULL))"
    using assms(1) runs_ok_shrink [OF _ shrinks_intros(3)] runs_ok_upd by (simp add: thread_inv_def)
  moreover have "\<forall>t \<in> ran ((threads w)(h \<mapsto> T_exited)). thread_wf t" using assms(1) by (auto simp: thread_inv_def ran_def)
  ultimately show "thread_inv (set_thread h T_exited (w\<lparr>delegates := (delegates w)(p := None)\<rparr>))"
    using assms(1) h by (simp add: thread_inv_def set_thread_def)
qed

lemma threadMain_inv:
  assumes "thread_inv w"
  shows "\<exists>w'. threadMain h again w = Some w' \<and> thread_inv w'"
proof (cases "threads w h")
  case None
  then show ?thesis using assms by (simp add: threadMain_def)
next
  case t: (Some t)
  have wf: "thread_wf t" using thread_handle [OF assms t] by simp
  note moves = thread_moves [OF assms t]
  show ?thesis
  proof (cases "thread_ref t = NULL")
    case True
    then consider "t = T_exited" | p where "t = T_delete p False" | p where "t = T_delete p True" using wf
      by (cases t rule: thread_del.cases) auto
    then show ?thesis
    proof cases
      case 3
      then show ?thesis using thread_deletes [OF assms, of h p] t wf by (auto simp: threadMain_def store_simps)
    qed (use assms moves [of T_exited] t in \<open>simp_all add: threadMain_def\<close>)
  next
    case False
    then obtain d where d: "delegates w (thread_ref t) = Some d" "mRefCount d > 0" using thread_delegate [OF assms t] by blast
    show ?thesis
    proof (cases t)
      case (T_main p)
      then show ?thesis using d wf t moves [of "T_prerun p (mRunnable d)"] moves [of "T_destroy p"] by (simp add: threadMain_def store_simps)
    next
      case (T_prerun p r)
      then show ?thesis using d wf t moves [of "T_loop p r"] thread_object [OF assms t] by (simp add: threadMain_def run_object_def store_simps)
    next
      case (T_loop p r)
      then show ?thesis using d wf t moves [of "T_run p r"] moves [of "T_postrun p r"] by (simp add: threadMain_def store_simps)
    next
      case (T_run p r)
      then show ?thesis using d wf t moves [of "T_loop p r"] moves [of "T_postrun p r"] thread_object [OF assms t]
        by (simp add: threadMain_def run_object_def)
    next
      case (T_postrun p r)
      then show ?thesis using d wf t moves [of "T_clear p r"] thread_object [OF assms t] by (simp add: threadMain_def run_object_def store_simps)
    next
      case (T_clear p r)
      then show ?thesis
        using d wf t thread_moves [OF thread_clears [OF assms, of p d], of h t "T_free p r"] by (simp add: threadMain_def store_simps)
    next
      case (T_free p r)
      then show ?thesis using wf t thread_object [OF assms t] thread_frees [OF assms, of h p r] by (simp add: threadMain_def run_object_def)
    next
      case (T_destroy p)
      then show ?thesis using d wf t moves [of "T_locked p"] by (simp add: threadMain_def store_simps)
    next
      case (T_locked p)
      then show ?thesis using d wf t thread_drops [OF assms, of h p d] by (simp add: threadMain_def drop_ref_def store_simps)
    qed (use False in auto)
  qed
qed

section \<open>Histories\<close>

text \<open>Calls of the client, and steps of it and of the threads inside the calls.\<close>

datatype thread_op = Start ptr bool ptr nat | Stop | Destruct | Client_on | Thread_on nat bool

definition thread_do :: "thread_op \<Rightarrow> thread_world \<Rightarrow> thread_world option" where
  "thread_do x w =
     (case x of
        Start r joinable p h \<Rightarrow> Some (loc_thread_start r joinable p h w)
      | Stop \<Rightarrow> Some (loc_thread_stop w)
      | Destruct \<Rightarrow> Some (loc_thread_destructor w)
      | Client_on \<Rightarrow> client_step w
      | Thread_on h again \<Rightarrow> threadMain h again w)"

text \<open>
  The client calls one method after another; what it gives to \<open>start\<close> is nothing, or a live object that no
  thread has. Memory and handles of threads are new.
\<close>

definition thread_may :: "thread_op \<Rightarrow> thread_world \<Rightarrow> bool" where
  "thread_may x w =
     (case x of
        Start r joinable p h \<Rightarrow> client w = C_idle \<and> p \<noteq> NULL \<and> delegates w p = None \<and> threads w h = None \<and>
          (r = NULL \<or> r \<in> runnables w \<and> (\<forall>g. runs_of (delegates w) (threads w) g \<noteq> r))
      | Stop \<Rightarrow> client w = C_idle
      | Destruct \<Rightarrow> client w = C_idle
      | _ \<Rightarrow> True)"

fun thread_history :: "thread_op list \<Rightarrow> thread_world \<Rightarrow> thread_world option" where
  "thread_history [] w = Some w"
| "thread_history (x # xs) w = (if thread_may x w then thread_do x w \<bind> thread_history xs else thread_history xs w)"

lemma runs_of_unused:
  assumes "counted ds c (refs_of ts)" "ds p = None" "p \<noteq> NULL"
  shows "runs_of (ds(p \<mapsto> d)) ts = runs_of ds ts"
proof
  show "runs_of (ds(p \<mapsto> d)) ts h = runs_of ds ts h" for h
  proof (cases "ts h")
    case (Some t)
    have "thread_ref t \<noteq> p" using assms Some unfolding counted_def refs_of_def by (metis option.distinct(1) option.simps(5))
    then show ?thesis using Some by (cases t) (simp_all add: runs_of_def)
  qed (simp add: runs_of_def)
qed

lemma dying_new: "ds p = None \<Longrightarrow> mRefCount d \<noteq> 0 \<Longrightarrow> dying (ds(p \<mapsto> d)) = dying ds"
  by (auto simp: dying_def)

lemma start_inv:
  assumes "thread_inv w" "thread_may (Start r joinable p h) w"
  shows "thread_inv (loc_thread_start r joinable p h w)"
proof (cases "mThread w \<noteq> NULL \<or> r = NULL")
  case True
  then show ?thesis using assms(1) by (simp add: loc_thread_start_def)
next
  case False
  have may: "client w = C_idle" "p \<noteq> NULL" "delegates w p = None" "threads w h = None" "r \<in> runnables w"
    "\<forall>g. runs_of (delegates w) (threads w) g \<noteq> r" using assms(2) False by (auto simp: thread_may_def)
  have c: "counted (delegates w) NULL (refs_of (threads w))" "deleters (delegates w) NULL (dels_of (threads w))"
    "runs_ok (runnables w) (runs_of (delegates w) (threads w))" "threads w 0 = None"
    using assms(1) False may(1) by (simp_all add: thread_inv_def)
  have t: "refs_of (threads w) h = NULL" "dels_of (threads w) h = NULL" "refs_of (threads w) 0 = NULL"
    using may(4) c(4) by (simp_all add: refs_of_def dels_of_def)
  have nop: "refs_of (threads w) g \<noteq> p" for g using c(1) may(2,3) unfolding counted_def by (metis option.distinct(1))
  note unused = runs_of_unused [OF c(1) may(3,2)]
  show ?thesis
  proof (cases "h = 0")
    case True
    have "counted ((delegates w)(p \<mapsto> \<lparr>mRunnable = NULL, mJoinable = False, mThandle = 0, mRefCount = 1\<rparr>)) p (refs_of (threads w))"
      using c(1) may(2,3) t(3) nop unfolding counted_def by auto
    then show ?thesis using assms(1) False True may c unused by (simp add: loc_thread_start_def thread_inv_def deleters_def dying_new)
  next
    case h: False
    let ?ds = "(delegates w)(p \<mapsto> \<lparr>mRunnable = r, mJoinable = joinable, mThandle = h, mRefCount = 2\<rparr>)"
    have same: "((refs_of (threads w))(h := p)) g = q \<longleftrightarrow> refs_of (threads w) g = q" if "(delegates w) q = Some e" "mThandle e = g" for g q e
    proof (cases "g = h")
      case True
      then show ?thesis using that may(3) t(1) c(1) by (auto simp: counted_def)
    qed simp
    have "counted ?ds p ((refs_of (threads w))(h := p))"
      using c(1) may(2,3) same nop unfolding counted_def by (auto simp: fun_upd_apply)
    moreover have "(dels_of (threads w))(h := NULL) = dels_of (threads w)" using t(2) by auto
    moreover have "runs_ok (runnables w) ((runs_of ?ds (threads w))(h := r))"
      using c(3) may(5,6) unfolding runs_ok_def unused by auto
    moreover have "\<forall>t \<in> ran ((threads w)(h \<mapsto> T_main p)). thread_wf t" using assms(1) may(2) by (auto simp: thread_inv_def ran_def)
    ultimately show ?thesis using assms(1) False h may c by (simp add: loc_thread_start_def thread_inv_def deleters_def dying_new)
  qed
qed

lemma thread_do_inv:
  assumes "thread_inv w" "thread_may x w"
  shows "\<exists>w'. thread_do x w = Some w' \<and> thread_inv w'"
proof (cases x)
  case Start
  then show ?thesis using start_inv assms by (simp add: thread_do_def)
next
  case Stop
  then show ?thesis using assms client_keeps [OF assms(1), of "C_stop (mThread w) By_stop"]
    by (simp add: thread_do_def thread_may_def loc_thread_stop_def)
next
  case Destruct
  then show ?thesis using assms client_keeps [OF assms(1), of "C_bye (mThread w)"] client_keeps [OF assms(1), of C_gone]
    by (simp add: thread_do_def thread_may_def loc_thread_destructor_def)
qed (use client_inv [OF assms(1)] threadMain_inv [OF assms(1)] in \<open>simp_all add: thread_do_def\<close>)

interpretation loc_threads: guarded_system thread_do thread_may thread_inv thread_history
  by unfold_locales (use thread_do_inv in auto)

text \<open>
  C20: under every interleaving of a client that starts, stops and destroys its thread at will and of the
  threads it spawned, neither the client's calls nor the threads use a delegate or an object after it was
  deleted or delete one twice, a delegate that is alive is counted by exactly its holders, and when no
  thread is left and the client holds none, every delegate has been deleted. Nothing is said of the objects at the
  end: \<open>stop_leaks_object\<close> below shows one that is left. The client of these histories leaves its
  object to the thread and does not delete it itself, not even after a start that failed.
\<close>

theorem loc_threads_never_fault:
  "\<exists>w. thread_history ops (thread_init rs) = Some w \<and> counted (delegates w) (pc_ref (mThread w) (client w)) (refs_of (threads w)) \<and>
    (mThread w = NULL \<and> client w \<in> {C_idle, C_gone} \<and> ran (threads w) \<subseteq> {T_exited} \<longrightarrow> delegates w = Map.empty)"
proof -
  obtain w where w: "thread_history ops (thread_init rs) = Some w" "thread_inv w"
    using loc_threads.history [OF thread_init_inv] by blast
  have "delegates w = Map.empty" if rest: "mThread w = NULL" "client w \<in> {C_idle, C_gone}" "ran (threads w) \<subseteq> {T_exited}"
  proof (rule ccontr)
    assume "delegates w \<noteq> Map.empty"
    then obtain p d where d: "delegates w p = Some d" by (metis not_None_eq)
    have ex: "threads w h = None \<or> threads w h = Some T_exited" for h using rest(3) by (cases "threads w h") (auto simp: ran_def)
    have none: "refs_of (threads w) h = NULL" "dels_of (threads w) h = NULL" for h using ex [of h] by (auto simp: refs_of_def dels_of_def)
    have "p \<noteq> NULL" "mRefCount d = 0" using w(2) d rest(1,2) none by (auto simp: thread_inv_def counted_def)
    then have "p \<in> dying (delegates w)" using d by (simp add: dying_def)
    then show False using w(2) rest(2) none by (auto simp: thread_inv_def deleters_def)
  qed
  moreover have "counted (delegates w) (pc_ref (mThread w) (client w)) (refs_of (threads w))" using w(2) by (simp add: thread_inv_def)
  ultimately show ?thesis using w(1) by (intro exI [of _ w]) simp
qed

theorem loc_threads_never_fault_witness:
  "\<exists>w. thread_history [Start 1 True 10 7, Client_on, Thread_on 7 False, Stop, Client_on] (thread_init {1}) = Some w \<and>
    (mThread w = NULL \<and> client w \<in> {C_idle, C_gone} \<and> ran (threads w) \<subseteq> {T_exited} \<longrightarrow> delegates w = Map.empty)"
  using loc_threads_never_fault [of "[Start 1 True 10 7, Client_on, Thread_on 7 False, Stop, Client_on]" "{1}"] by blast

section \<open>Objects\<close>

text \<open>
  a thread that is stopped before it has looked at its object neither runs nor deletes it: \<open>start\<close>
  returned true, everything is over, and the object, which nobody owns now, is still there.
\<close>

theorem stop_leaks_object:
  assumes "r \<noteq> NULL" "p \<noteq> NULL" "h \<noteq> 0"
  shows "\<exists>w. thread_history ([Start r True p h, Client_on, Stop, Client_on, Client_on] @ replicate 4 (Thread_on h again) @ replicate 4 Client_on)
      (thread_init {r}) = Some w \<and>
    results w = [True] \<and> client w = C_idle \<and> mThread w = NULL \<and> threads w = [h \<mapsto> T_exited] \<and> delegates w = Map.empty \<and> runnables w = {r}"
  using assms
  by (simp add: eval_nat_numeral thread_may_def thread_do_def thread_init_def loc_thread_start_def loc_thread_stop_def client_step_def
      threadMain_def set_thread_def drop_ref_def destroyed_def runs_of_def deref_live release_live update_at_live)

theorem stop_leaks_object_witness:
  "\<exists>w. thread_history ([Start 1 True 10 7, Client_on, Stop, Client_on, Client_on] @ replicate 4 (Thread_on 7 True) @ replicate 4 Client_on)
      (thread_init {1}) = Some w \<and>
    results w = [True] \<and> client w = C_idle \<and> mThread w = NULL \<and> threads w = [7 \<mapsto> T_exited] \<and> delegates w = Map.empty \<and> runnables w = {1}"
  by (rule stop_leaks_object) simp_all

text \<open>
  C38: a thread whose object has run before \<open>start\<close> looks at the delegate again makes \<open>start\<close> return false,
  although the object has run and was deleted: a client that deletes it, as it should when \<open>start\<close> fails,
  deletes it twice.
\<close>

theorem start_fails_after_run:
  assumes "r \<noteq> NULL" "p \<noteq> NULL" "h \<noteq> 0"
  shows "\<exists>w. thread_history (Start r joinable p h # replicate 7 (Thread_on h False) @ replicate 4 Client_on) (thread_init {r}) = Some w \<and>
    results w = [False] \<and> client w = C_idle \<and> mThread w = NULL \<and> threads w = [h \<mapsto> T_destroy p] \<and> r \<notin> runnables w"
  using assms
  by (simp add: eval_nat_numeral thread_may_def thread_do_def thread_init_def loc_thread_start_def client_step_def
      threadMain_def set_thread_def run_object_def drop_ref_def destroyed_def runs_of_def deref_live release_live update_at_live)

theorem start_fails_after_run_witness:
  "\<exists>w. thread_history (Start 1 True 10 7 # replicate 7 (Thread_on 7 False) @ replicate 4 Client_on) (thread_init {1}) = Some w \<and>
    results w = [False] \<and> client w = C_idle \<and> mThread w = NULL \<and> threads w = [7 \<mapsto> T_destroy 10] \<and> 1 \<notin> runnables w"
  by (rule start_fails_after_run) simp_all

end
