(* ===== verification/LocIpc.thy ===== *)
theory LocIpc
  imports Numerals
begin

text \<open>
  \<open>gps/utils/LocIpc.{h,cpp}\<close>: messages between processes over a datagram socket. A message that does not
  fit into one datagram is announced by a head with its length and follows in parts. The kernel keeps
  datagrams whole and in order: a \<open>sendto\<close> is refused or takes the whole datagram, and a \<open>recvfrom\<close>
  gives the first bytes of the next one, as many as the caller has room for.
\<close>

section \<open>Sending\<close>

definition LOC_MSG_BUF_LEN :: nat where "LOC_MSG_BUF_LEN = 8192"
definition LOC_MSG_HEAD :: string where "LOC_MSG_HEAD = ''$MSGLEN$''"
definition LOC_MSG_ABORT :: string where "LOC_MSG_ABORT = ''LocIpcMsg::ABORT''"

text \<open>The parts of a long message; \<open>accept k\<close> is whether the kernel takes the \<open>k\<close>-th datagram.\<close>

function send_parts :: "(nat \<Rightarrow> bool) \<Rightarrow> nat \<Rightarrow> string \<Rightarrow> bool \<times> string list" where
  "send_parts accept k data =
     (if data = [] then (True, [])
      else if accept k then
        (let (result, ds) = send_parts accept (k + 1) (drop LOC_MSG_BUF_LEN data) in (result, take LOC_MSG_BUF_LEN data # ds))
      else (False, []))"
  by pat_completeness auto
termination by (relation "measure (\<lambda>(accept, k, data). length data)") (auto simp: LOC_MSG_BUF_LEN_def)

declare send_parts.simps [simp del]

text \<open>The result, and the datagrams that the receiver's socket gets.\<close>

definition sendData :: "(nat \<Rightarrow> bool) \<Rightarrow> string \<Rightarrow> bool \<times> string list" where
  "sendData accept data =
     (if length data \<le> LOC_MSG_BUF_LEN then (if accept 0 then (True, [data]) else (False, []))
      else if accept 0 then
        (let (result, ds) = send_parts accept 1 data in (result, (LOC_MSG_HEAD @ dec_string (length data)) # ds))
      else (False, []))"

text \<open>\<open>send\<close> with a socket of its own; the length is passed on in 32 bits.\<close>

definition LocIpc_send :: "bool \<Rightarrow> (nat \<Rightarrow> bool) \<Rightarrow> string \<Rightarrow> bool \<times> string list" where
  "LocIpc_send socket_ok accept data =
     (if socket_ok then sendData accept (take (length data mod 2 ^ 32) data) else (False, []))"

section \<open>Receiving\<close>

datatype received = R_failed | R_bytes string

text \<open>\<open>std::string::resize\<close>.\<close>

definition resize :: "nat \<Rightarrow> string \<Rightarrow> string" where
  "resize n s = take n s @ replicate (n - length s) NUL"

text \<open>What \<open>recvfrom\<close> leaves in a buffer: the datagram, and behind it what was there.\<close>

definition overlay :: "string \<Rightarrow> string \<Rightarrow> string" where
  "overlay d msg = d @ drop (length d) msg"

record ipc_env =
  size_bits :: nat
  max_string :: nat

text \<open>
  The number that \<open>sscanf\<close> reads with \<open>%zu\<close>, and 0 where there is none. A number beyond what \<open>size_t\<close>
  holds has no defined meaning; like any beyond \<open>max_string\<close>, it ends the process.
\<close>

definition scan_length :: "ipc_env \<Rightarrow> string \<Rightarrow> nat" where
  "scan_length env s =
     (let s = dropWhile c_isspace s; neg = (s \<noteq> [] \<and> hd s = CHR ''-'');
          s = (if s \<noteq> [] \<and> hd s \<in> {CHR ''-'', CHR ''+''} then tl s else s);
          v = nat (foldl (\<lambda>v c. int 10 * v + int (digit_value c)) 0 (takeWhile (\<lambda>c. digit_value c < 10) s)) in
      if neg \<and> v \<noteq> 0 then 2 ^ size_bits env - v else v)"

datatype parts =
    P_waiting
  | P_failed
  | P_done string "received list"

text \<open>The loop that receives the parts into \<open>msg\<close>, of which \<open>got\<close> bytes are there.\<close>

fun read_parts :: "string \<Rightarrow> nat \<Rightarrow> received list \<Rightarrow> parts" where
  "read_parts msg got [] = (if got < length msg then P_waiting else P_done msg [])"
| "read_parts msg got (e # es) =
     (if \<not> got < length msg then P_done msg (e # es)
      else
        (case e of
           R_failed \<Rightarrow> P_failed
         | R_bytes d \<Rightarrow>
             (let d = take (length msg - got) d in
              if d = [] then P_failed else read_parts (take got msg @ d @ drop (got + length d) msg) (got + length d) es)))"

lemma read_parts_less: "read_parts msg got es = P_done m rest \<Longrightarrow> length rest \<le> length es"
proof (induction msg got es rule: read_parts.induct)
  case (2 msg got e es)
  then show ?case by (auto simp: Let_def split: if_splits received.splits) (metis le_SucI)
qed (auto split: if_splits)

datatype listening =
    L_waiting
  | L_stopped
  | L_terminated

text \<open>
  The loop of the listener: the messages it gives to \<open>onReceive\<close>, and how it is left. \<open>msg\<close> is its buffer,
  \<open>es\<close> what \<open>recvfrom\<close> gives; when that is used up, the listener waits.
\<close>

function listen :: "ipc_env \<Rightarrow> string \<Rightarrow> received list \<Rightarrow> string list \<times> listening" where
  "listen env msg [] = ([], L_waiting)"
| "listen env msg (e # es) =
     (case e of
        R_failed \<Rightarrow> ([], L_stopped)
      | R_bytes d \<Rightarrow>
          (let d = take LOC_MSG_BUF_LEN d; msg = overlay d (resize LOC_MSG_BUF_LEN msg) in
           if d = [] then listen env msg es
           else if take (length LOC_MSG_ABORT) msg = LOC_MSG_ABORT then ([], L_stopped)
           else if take (length LOC_MSG_HEAD) msg \<noteq> LOC_MSG_HEAD then
             (let msg = resize (length d) msg; (ms, out) = listen env msg es in (msg # ms, out))
           else
             (let msgLen = scan_length env (drop (length LOC_MSG_HEAD) msg) in
              if msgLen > max_string env then ([], L_terminated)
              else
                (case read_parts (resize msgLen msg) 0 es of
                   P_waiting \<Rightarrow> ([], L_waiting)
                 | P_failed \<Rightarrow> ([], L_stopped)
                 | P_done msg rest \<Rightarrow> (let (ms, out) = listen env msg rest in (msg # ms, out))))))"
  by pat_completeness auto
termination
  by (relation "measure (\<lambda>(env, msg, es). length es)") (auto dest: read_parts_less simp: less_Suc_eq_le)

declare listen.simps(2) [simp del]

section \<open>Starting and stopping\<close>

text \<open>\<open>closed\<close>: the descriptors that were closed; \<open>mRunnable\<close>: the name the spawned listener listens to.\<close>

record loc_ipc =
  mIpcFd :: int
  mStopRequested :: bool
  ipc_runnable :: "string option"
  closed :: "int list"
  unlinked :: "string list"

definition new_ipc :: loc_ipc where
  "new_ipc = \<lparr>mIpcFd = - 1, mStopRequested = False, ipc_runnable = None, closed = [], unlinked = []\<rparr>"

text \<open>Until the socket is bound: \<open>fd\<close> is what \<open>socket\<close> gives. Then \<open>onListenerReady\<close> and the loop follow.\<close>

definition startListening_bind :: "int \<Rightarrow> bool \<Rightarrow> string \<Rightarrow> loc_ipc \<Rightarrow> bool \<times> loc_ipc" where
  "startListening_bind fd bind_ok name s =
     (if fd < 0 then (False, s)
      else
        (let s = s\<lparr>unlinked := name # unlinked s\<rparr> in
         if \<not> bind_ok then (False, s\<lparr>closed := fd # closed s\<rparr>) else (True, s\<lparr>mIpcFd := fd\<rparr>)))"

text \<open>The listener in a thread of its own; whether the thread was started is the \<open>LocThread\<close>'s answer.\<close>

definition startListeningNonBlocking :: "string \<Rightarrow> bool \<Rightarrow> loc_ipc \<Rightarrow> bool \<times> loc_ipc" where
  "startListeningNonBlocking name started s = (started, s\<lparr>ipc_runnable := Some name\<rparr>)"

text \<open>When the loop was left: the result and the descriptor.\<close>

definition startListening_end :: "loc_ipc \<Rightarrow> bool \<times> loc_ipc" where
  "startListening_end s =
     (if mStopRequested s then (True, s\<lparr>mStopRequested := False\<rparr>)
      else (False, s\<lparr>closed := mIpcFd s # closed s, mIpcFd := - 1\<rparr>))"

text \<open>The name of the socket that is sent the abort message, and the state.\<close>

definition stopListening :: "loc_ipc \<Rightarrow> string option \<times> loc_ipc" where
  "stopListening s =
     (let name = ipc_runnable s; s = s\<lparr>mStopRequested := True, ipc_runnable := None\<rparr>;
          s = (if mIpcFd s \<ge> 0 then s\<lparr>closed := mIpcFd s # closed s, mIpcFd := - 1\<rparr> else s) in
      (name, (case name of None \<Rightarrow> s | Some n \<Rightarrow> s\<lparr>unlinked := n # unlinked s\<rparr>)))"

end
