(* ===== verification/LocIpcProofs.thy ===== *)
theory LocIpcProofs
  imports LocIpc
begin

text \<open>
  Messages that are sent come out of the listener's loop as they were, whatever their length, as long as
  the bytes that an earlier message left in the buffer do not get into the way; and what happens when
  they do.
\<close>

section \<open>Lengths\<close>

abbreviation is_digit :: "char \<Rightarrow> bool" where
  "is_digit c \<equiv> digit_value c < 10"

lemma scan_digits:
  "scan_length env (dec_string n @ s) = nat (foldl (\<lambda>v c. 10 * v + int (digit_value c)) (int n) (takeWhile is_digit s))"
proof -
  obtain ds where ds: "dec_string n = map digit_char ds" "ds \<noteq> []" "\<forall>d \<in> set ds. d < 10" "foldl (\<lambda>v d. 10 * v + d) 0 ds = n"
    using base_string_digits [of 10 n] by auto
  then obtain d es where d: "ds = d # es" "d < 16" by (cases ds) auto
  have sixteen: "\<forall>d \<in> set ds. d < 16" using ds(3) by auto
  have plain_char: "\<not> c_isspace (digit_char d)" "digit_char d \<noteq> CHR ''-''" "digit_char d \<noteq> CHR ''+''" using digit_char_text [OF d(2)] by auto
  have "takeWhile is_digit (map digit_char ds @ s) = map digit_char ds @ takeWhile is_digit s"
    using ds(3) sixteen by (auto simp: takeWhile_append digit_char_value)
  moreover have "foldl (\<lambda>v c. int 10 * v + int (digit_value c)) 0 (map digit_char ds) = int n"
    using foldl_digits [OF sixteen, of 10 0] ds(4) by simp
  ultimately have "foldl (\<lambda>v c. int 10 * v + int (digit_value c)) 0 (takeWhile is_digit (map digit_char ds @ s)) =
      foldl (\<lambda>v c. int 10 * v + int (digit_value c)) (int n) (takeWhile is_digit s)"
    by (simp only: foldl_append)
  then show ?thesis unfolding scan_length_def ds(1) using plain_char d(1) by (simp add: Let_def)
qed

lemma scan_printed: "s = [] \<or> \<not> is_digit (hd s) \<Longrightarrow> scan_length env (dec_string n @ s) = n"
  unfolding scan_digits by (cases s) auto

lemma foldl_grows: "0 \<le> a \<Longrightarrow> a \<le> foldl (\<lambda>v c. 10 * v + int (digit_value c)) a t"
proof (induction t arbitrary: a)
  case (Cons c t)
  have "10 * a + int (digit_value c) \<le> foldl (\<lambda>v c. 10 * v + int (digit_value c)) (10 * a + int (digit_value c)) t"
    using Cons.prems by (intro Cons.IH) simp
  then show ?case using Cons.prems by simp
qed simp

lemma scan_misread:
  assumes "s \<noteq> []" "is_digit (hd s)"
  shows "10 * n \<le> scan_length env (dec_string n @ s)"
proof -
  obtain c t where c: "s = c # t" "is_digit c" using assms by (cases s) auto
  have "int (10 * n) \<le> foldl (\<lambda>v c. 10 * v + int (digit_value c)) (10 * int n + int (digit_value c)) (takeWhile is_digit t)"
    by (rule order_trans [OF _ foldl_grows]) simp_all
  then show ?thesis unfolding scan_digits using c by simp
qed

section \<open>Long messages\<close>

abbreviation all_accepted :: "nat \<Rightarrow> bool" where
  "all_accepted \<equiv> (\<lambda>_. True)"

abbreviation datagrams :: "string \<Rightarrow> received list" where
  "datagrams m \<equiv> map R_bytes (snd (sendData all_accepted m))"

lemma read_parts_sent:
  assumes "length msg = length m" "got \<le> length m" "take got msg = take got m"
  shows "read_parts msg got (map R_bytes (snd (send_parts all_accepted k (drop got m))) @ rest) = P_done m rest"
  using assms
proof (induction "length m - got" arbitrary: msg got k rule: less_induct)
  case less
  show ?case
  proof (cases "got = length m")
    case True
    then have "msg = m" using less.prems by simp
    then show ?thesis using True by (cases rest) (simp_all add: send_parts.simps)
  next
    case False
    let ?d = "take LOC_MSG_BUF_LEN (drop got m)"
    have got: "got < length m" using False less.prems by simp
    have d: "?d \<noteq> []" "take (length msg - got) ?d = ?d" using got less.prems by (simp_all add: LOC_MSG_BUF_LEN_def min_def)
    have sent: "snd (send_parts all_accepted k (drop got m)) = ?d # snd (send_parts all_accepted (k + 1) (drop (got + length ?d) m))"
      using got by (subst send_parts.simps) (auto simp: case_prod_beta drop_drop add.commute min_def)
    let ?msg = "take got msg @ ?d @ drop (got + length ?d) msg"
    have "length ?msg = length m" using less.prems got by simp
    moreover have "take (got + length ?d) ?msg = take (got + length ?d) m"
      using less.prems got by (simp add: take_add min_def)
    moreover have "length m - (got + length ?d) < length m - got" "got + length ?d \<le> length m" using d(1) got by (auto simp: min_def LOC_MSG_BUF_LEN_def)
    ultimately have "read_parts ?msg (got + length ?d) (map R_bytes (snd (send_parts all_accepted (k + 1) (drop (got + length ?d) m))) @ rest) = P_done m rest"
      using less.hyps by blast
    then show ?thesis unfolding sent using d got less.prems(1) by (simp add: Let_def)
  qed
qed

lemma read_parts_short:
  assumes "got + length data < length msg"
  shows "read_parts msg got (map R_bytes (snd (send_parts all_accepted k data))) = P_waiting"
  using assms
proof (induction "length data" arbitrary: msg got data k rule: less_induct)
  case less
  show ?case
  proof (cases "data = []")
    case True
    then show ?thesis using less.prems by (simp add: send_parts.simps)
  next
    case False
    let ?d = "take LOC_MSG_BUF_LEN data"
    have d: "?d \<noteq> []" "take (length msg - got) ?d = ?d" using False less.prems by (simp_all add: LOC_MSG_BUF_LEN_def min_def)
    have sent: "snd (send_parts all_accepted k data) = ?d # snd (send_parts all_accepted (k + 1) (drop LOC_MSG_BUF_LEN data))"
      using False by (subst send_parts.simps) (simp add: case_prod_beta)
    have "read_parts (take got msg @ ?d @ drop (got + length ?d) msg) (got + length ?d)
        (map R_bytes (snd (send_parts all_accepted (k + 1) (drop LOC_MSG_BUF_LEN data)))) = P_waiting"
      by (rule less.hyps) (use False less.prems in \<open>auto simp: LOC_MSG_BUF_LEN_def min_def\<close>)
    then show ?thesis unfolding sent using d less.prems by (simp add: Let_def)
  qed
qed

section \<open>The listener\<close>

text \<open>The head of a long message.\<close>

definition msg_head :: "string \<Rightarrow> string" where
  "msg_head m = LOC_MSG_HEAD @ dec_string (length m)"

text \<open>What the listener sees when a datagram comes after the message \<open>stale\<close>.\<close>

definition seen :: "string \<Rightarrow> string \<Rightarrow> string" where
  "seen d stale = overlay d (resize LOC_MSG_BUF_LEN stale)"

text \<open>
  A message that is understood after \<open>stale\<close>: if it is short, it is not empty and does not look like a head or
  the abort message; if it is long, it fits into memory, and the byte that is left behind its head is not a digit.
\<close>

definition receivable :: "ipc_env \<Rightarrow> string \<Rightarrow> string \<Rightarrow> bool" where
  "receivable env stale m \<longleftrightarrow>
     (if length m \<le> LOC_MSG_BUF_LEN then
        m \<noteq> [] \<and> take (length LOC_MSG_ABORT) (seen m stale) \<noteq> LOC_MSG_ABORT \<and> take (length LOC_MSG_HEAD) (seen m stale) \<noteq> LOC_MSG_HEAD
      else length m < 2 ^ 32 \<and> length m \<le> max_string env \<and> \<not> is_digit (seen (msg_head m) stale ! length (msg_head m)))"

fun receivable_all :: "ipc_env \<Rightarrow> string \<Rightarrow> string list \<Rightarrow> bool" where
  "receivable_all env stale [] = True"
| "receivable_all env stale (m # ms) = (receivable env stale m \<and> receivable_all env m ms)"

lemma resize_same: "length d \<le> n \<Longrightarrow> resize (length d) (overlay d msg) = d"
  by (simp add: resize_def overlay_def)

lemma listen_short:
  assumes "length m \<le> LOC_MSG_BUF_LEN" "receivable env stale m"
  shows "listen env stale (datagrams m @ es) = (m # fst (listen env m es), snd (listen env m es))"
proof -
  have m: "m \<noteq> []" "take (length LOC_MSG_ABORT) (seen m stale) \<noteq> LOC_MSG_ABORT" "take (length LOC_MSG_HEAD) (seen m stale) \<noteq> LOC_MSG_HEAD"
    using assms by (simp_all add: receivable_def)
  have "take LOC_MSG_BUF_LEN m = m" using assms(1) by simp
  then show ?thesis using m assms(1)
    by (simp add: sendData_def listen.simps(2) Let_def seen_def [symmetric] case_prod_beta resize_same seen_def overlay_def resize_def)
qed

lemma msg_head_length: "length m < 2 ^ 32 \<Longrightarrow> length (msg_head m) \<le> 18"
  using base_string_length [of 10 "length m" 9] by (simp add: msg_head_def LOC_MSG_HEAD_def)

text \<open>The listener reads a head: what it takes for the length, and the parts.\<close>

lemma listen_head:
  assumes "length m < 2 ^ 32" "LOC_MSG_BUF_LEN < length m"
  shows "listen env stale (datagrams m @ es) =
    (let msg = seen (msg_head m) stale; n = scan_length env (drop (length LOC_MSG_HEAD) msg) in
     if n > max_string env then ([], L_terminated)
     else
       (case read_parts (resize n msg) 0 (map R_bytes (snd (send_parts all_accepted 1 m)) @ es) of
          P_waiting \<Rightarrow> ([], L_waiting)
        | P_failed \<Rightarrow> ([], L_stopped)
        | P_done msg rest \<Rightarrow> (msg # fst (listen env msg rest), snd (listen env msg rest))))"
proof -
  have h: "take LOC_MSG_BUF_LEN (msg_head m) = msg_head m" "msg_head m \<noteq> []"
    using msg_head_length [OF assms(1)] by (simp_all add: LOC_MSG_BUF_LEN_def msg_head_def LOC_MSG_HEAD_def)
  have "take (length LOC_MSG_HEAD) (seen (msg_head m) stale) = LOC_MSG_HEAD" by (simp add: seen_def overlay_def msg_head_def)
  moreover have "take (length LOC_MSG_ABORT) (seen (msg_head m) stale) \<noteq> LOC_MSG_ABORT"
    by (simp add: seen_def overlay_def msg_head_def LOC_MSG_HEAD_def LOC_MSG_ABORT_def)
  moreover have "datagrams m = R_bytes (msg_head m) # map R_bytes (snd (send_parts all_accepted 1 m))"
    using assms(2) by (simp add: sendData_def msg_head_def case_prod_beta)
  ultimately show ?thesis using h
    by (simp only: append_Cons list.map listen.simps(2) received.case Let_def seen_def [symmetric] if_False if_True refl not_True_eq_False case_prod_beta)
qed

lemma head_rest:
  assumes "length m < 2 ^ 32"
  shows "drop (length LOC_MSG_HEAD) (seen (msg_head m) stale) = dec_string (length m) @ drop (length (msg_head m)) (resize LOC_MSG_BUF_LEN stale)"
    "drop (length (msg_head m)) (resize LOC_MSG_BUF_LEN stale) \<noteq> []"
    "hd (drop (length (msg_head m)) (resize LOC_MSG_BUF_LEN stale)) = seen (msg_head m) stale ! length (msg_head m)"
proof -
  show "drop (length LOC_MSG_HEAD) (seen (msg_head m) stale) = dec_string (length m) @ drop (length (msg_head m)) (resize LOC_MSG_BUF_LEN stale)"
    by (simp add: seen_def overlay_def msg_head_def)
  have "length (msg_head m) < length (resize LOC_MSG_BUF_LEN stale)"
    using msg_head_length [OF assms] by (simp add: resize_def LOC_MSG_BUF_LEN_def min_def)
  then show "drop (length (msg_head m)) (resize LOC_MSG_BUF_LEN stale) \<noteq> []"
    "hd (drop (length (msg_head m)) (resize LOC_MSG_BUF_LEN stale)) = seen (msg_head m) stale ! length (msg_head m)"
    by (simp_all add: seen_def overlay_def hd_drop_conv_nth nth_append)
qed

lemma listen_long:
  assumes "LOC_MSG_BUF_LEN < length m" "receivable env stale m"
  shows "listen env stale (datagrams m @ es) = (m # fst (listen env m es), snd (listen env m es))"
proof -
  have m: "length m < 2 ^ 32" "length m \<le> max_string env" "\<not> is_digit (seen (msg_head m) stale ! length (msg_head m))"
    using assms by (simp_all add: receivable_def)
  have "scan_length env (drop (length LOC_MSG_HEAD) (seen (msg_head m) stale)) = length m"
    unfolding head_rest(1) [OF m(1)] using m(3) head_rest(2,3) [OF m(1), of stale] by (intro scan_printed) simp
  moreover have "read_parts (resize (length m) (seen (msg_head m) stale)) 0 (map R_bytes (snd (send_parts all_accepted 1 (drop 0 m))) @ es) = P_done m es"
    by (rule read_parts_sent) (simp_all add: resize_def)
  ultimately show ?thesis using m(2) unfolding listen_head [OF m(1) assms(1)] by (simp add: Let_def)
qed

lemma ipc_messages_understood:
  "receivable_all env stale ms \<Longrightarrow> listen env stale (concat (map datagrams ms)) = (ms, L_waiting)"
proof (induction ms arbitrary: stale)
  case (Cons m ms)
  then show ?case using listen_short [of m env stale "concat (map datagrams ms)"] listen_long [of m env stale "concat (map datagrams ms)"]
    by (cases "length m \<le> LOC_MSG_BUF_LEN") auto
qed simp

text \<open>
  C21: every sequence of messages, short and long, that are sent one after the other is handed to the
  receiver exactly as it was sent, one call for each, and the listener waits for more, provided that each is
  receivable: a short message (up to the buffer's length) is not empty and does not look like a head or the abort
  message; a long one fits into memory, and what the message before it left in the buffer does not put
  a digit behind its head.
\<close>

theorem ipc_messages_roundtrip:
  assumes "receivable_all env [] ms"
  shows "listen env [] (concat (map datagrams ms)) = (ms, L_waiting)"
  by (rule ipc_messages_understood [OF assms])

lemma seen_behind_head:
  assumes "length m < 2 ^ 32"
  shows "seen (msg_head m) stale ! length (msg_head m) = (if length (msg_head m) < length stale then stale ! length (msg_head m) else NUL)"
  using msg_head_length [OF assms] by (auto simp: seen_def overlay_def resize_def nth_append LOC_MSG_BUF_LEN_def)

definition example_ipc :: ipc_env where
  "example_ipc = \<lparr>size_bits = 32, max_string = 2 ^ 30\<rparr>"

lemma example_head: "length (msg_head (replicate 9000 c)) = 12"
  by (simp add: msg_head_def LOC_MSG_HEAD_def base_string.simps)

lemma example_long: "receivable example_ipc stale (replicate 9000 c)" if "length stale \<le> 12 \<or> \<not> is_digit (stale ! 12)"
proof -
  have "seen (msg_head (replicate 9000 c)) stale ! 12 = (if 12 < length stale then stale ! 12 else NUL)"
    using seen_behind_head [of "replicate 9000 c" stale] unfolding example_head by simp
  then show ?thesis unfolding receivable_def example_head using that
    by (auto simp: LOC_MSG_BUF_LEN_def example_ipc_def digit_value_def)
qed

theorem ipc_messages_roundtrip_witness:
  "listen example_ipc [] (concat (map datagrams [''ping'', replicate 9000 CHR ''a'', replicate 9000 CHR ''b'', ''requestStatus 0''])) =
     ([''ping'', replicate 9000 CHR ''a'', replicate 9000 CHR ''b'', ''requestStatus 0''], L_waiting)"
proof (rule ipc_messages_roundtrip)
  have "receivable example_ipc stale ''ping''" "receivable example_ipc stale ''requestStatus 0''" for stale
    by (simp_all add: receivable_def LOC_MSG_BUF_LEN_def seen_def overlay_def LOC_MSG_ABORT_def LOC_MSG_HEAD_def)
  then show "receivable_all example_ipc [] [''ping'', replicate 9000 CHR ''a'', replicate 9000 CHR ''b'', ''requestStatus 0'']"
    by (simp add: example_long digit_value_def)
qed

text \<open>
  C39: but the bytes of a long message stay in the buffer, and the head of another long message that follows is
  read together with them: when the byte behind it is a digit, the length is taken to be ten times what it is
  or more, so the second message is never delivered, and the listener waits for bytes that nobody sends
  (or ends the process, if there is no room for so many).
\<close>

theorem stale_digits_swallow_message:
  assumes "receivable env [] m1" "LOC_MSG_BUF_LEN < length m1" "length m2 < 2 ^ 32" "LOC_MSG_BUF_LEN < length m2"
    "is_digit (m1 ! length (msg_head m2))"
  shows "fst (listen env [] (datagrams m1 @ datagrams m2)) = [m1] \<and> snd (listen env [] (datagrams m1 @ datagrams m2)) \<in> {L_waiting, L_terminated}"
proof -
  let ?s = "drop (length (msg_head m2)) (resize LOC_MSG_BUF_LEN m1)"
  let ?n = "scan_length env (drop (length LOC_MSG_HEAD) (seen (msg_head m2) m1))"
  have k: "length (msg_head m2) < LOC_MSG_BUF_LEN" using msg_head_length [OF assms(3)] by (simp add: LOC_MSG_BUF_LEN_def)
  then have "seen (msg_head m2) m1 ! length (msg_head m2) = m1 ! length (msg_head m2)"
    using assms(2) by (simp add: seen_def overlay_def resize_def nth_append)
  then have "10 * length m2 \<le> ?n"
    unfolding head_rest(1) [OF assms(3)] using assms(5) head_rest(2,3) [OF assms(3), of m1] by (intro scan_misread) simp_all
  then have n: "length m2 < ?n" using assms(4) by simp
  have "read_parts (resize ?n (seen (msg_head m2) m1)) 0 (map R_bytes (snd (send_parts all_accepted 1 m2))) = P_waiting"
    by (rule read_parts_short) (use n in \<open>simp add: resize_def\<close>)
  then have "fst (listen env m1 (datagrams m2)) = [] \<and> snd (listen env m1 (datagrams m2)) \<in> {L_waiting, L_terminated}"
    using listen_head [OF assms(3,4), of env m1 "[]"] by (auto simp: Let_def)
  then show ?thesis using listen_long [OF assms(2,1), of "datagrams m2"] by simp
qed

theorem stale_digits_swallow_message_witness:
  "fst (listen example_ipc [] (datagrams (replicate 9000 CHR ''7'') @ datagrams (replicate 9000 CHR ''a''))) = [replicate 9000 CHR ''7''] \<and>
   snd (listen example_ipc [] (datagrams (replicate 9000 CHR ''7'') @ datagrams (replicate 9000 CHR ''a''))) \<in> {L_waiting, L_terminated}"
proof (rule stale_digits_swallow_message)
  show "is_digit (replicate 9000 CHR ''7'' ! length (msg_head (replicate 9000 CHR ''a'')))" unfolding example_head by (simp add: digit_value_def)
qed (simp_all add: example_long LOC_MSG_BUF_LEN_def)

end
