(* ===== verification/XtraObserver.thy ===== *)
theory XtraObserver
  imports LocIpcProofs SystemStatus
begin

text \<open>
  \<open>gps/gnss/XtraSystemStatusObserver.{h,cpp}\<close>: what the daemon for XTRA assistance data is told of the state
  of the device. The observer lives on the message task; its socket has a thread of its own, which only
  puts messages onto the task. Nothing but \<open>halinit\<close> is said before the daemon has asked for the status.
\<close>

section \<open>Messages\<close>

text \<open>The messages to the daemon, and their text.\<close>

datatype xtra_message =
    X_halinit
  | X_gpslock "32 word"
  | X_connection "64 word"
  | X_tac string
  | X_mncmcc string
  | X_xtrathrottle bool
  | X_respondStatus "32 word" "64 word" string string bool

definition c_str :: "string \<Rightarrow> string" where
  "c_str s = takeWhile (\<lambda>c. c \<noteq> NUL) s"

definition int_string :: "int \<Rightarrow> string" where
  "int_string n = (if n < 0 then ''-'' @ dec_string (nat (- n)) else dec_string (nat n))"

definition xtra_text :: "xtra_message \<Rightarrow> string" where
  "xtra_text m =
     (case m of
        X_halinit \<Rightarrow> ''halinit''
      | X_gpslock lock \<Rightarrow> ''gpslock '' @ dec_string (unat lock)
      | X_connection connections \<Rightarrow> ''connection '' @ dec_string (unat connections)
      | X_tac tac \<Rightarrow> ''tac '' @ c_str tac
      | X_mncmcc mccmnc \<Rightarrow> ''mncmcc '' @ c_str mccmnc
      | X_xtrathrottle enabled \<Rightarrow> ''xtrathrottle '' @ (if enabled then ''1'' else ''0'')
      | X_respondStatus lock connections tac mccmnc known \<Rightarrow>
          ''respondStatus'' @ [CHR 0x0A] @ (if lock = - 1 then [] else int_string (sint lock)) @ [CHR 0x0A] @ dec_string (unat connections) @ [CHR 0x0A] @
          tac @ [CHR 0x0A] @ mccmnc @ [CHR 0x0A] @ (if known then ''1'' else ''0''))"

section \<open>State\<close>

text \<open>\<open>sent\<close>: what the socket took.\<close>

record xtra_observer =
  mGpsLock :: "32 word"
  mConnections :: "64 word"
  mTacValue :: string
  mMccmncValue :: string
  mXtraThrottle :: bool
  mReqStatusReceived :: bool
  mIsConnectivityStatusKnown :: bool
  sent :: "xtra_message list"

definition new_xtra :: xtra_observer where
  "new_xtra = \<lparr>mGpsLock = - 1, mConnections = 0, mTacValue = [], mMccmncValue = [], mXtraThrottle = True, mReqStatusReceived = False,
     mIsConnectivityStatusKnown = False, sent = []\<rparr>"

text \<open>\<open>send\<close>; \<open>ok\<close> is whether the socket takes the message.\<close>

definition xtra_send :: "bool \<Rightarrow> xtra_message \<Rightarrow> xtra_observer \<Rightarrow> bool \<times> xtra_observer" where
  "xtra_send ok m s = (ok, if ok then s\<lparr>sent := sent s @ [m]\<rparr> else s)"

section \<open>Operations\<close>

definition updateLockStatus :: "bool \<Rightarrow> 32 word \<Rightarrow> xtra_observer \<Rightarrow> bool \<times> xtra_observer" where
  "updateLockStatus ok lock s =
     (let s = s\<lparr>mGpsLock := lock\<rparr> in if \<not> mReqStatusReceived s then (True, s) else xtra_send ok (X_gpslock lock) s)"

definition updateConnections :: "bool \<Rightarrow> 64 word \<Rightarrow> xtra_observer \<Rightarrow> bool \<times> xtra_observer" where
  "updateConnections ok allConnections s =
     (let s = s\<lparr>mIsConnectivityStatusKnown := True, mConnections := allConnections\<rparr> in
      if \<not> mReqStatusReceived s then (True, s) else xtra_send ok (X_connection (mConnections s)) s)"

definition updateTac :: "bool \<Rightarrow> string \<Rightarrow> xtra_observer \<Rightarrow> bool \<times> xtra_observer" where
  "updateTac ok tac s =
     (let s = s\<lparr>mTacValue := tac\<rparr> in if \<not> mReqStatusReceived s then (True, s) else xtra_send ok (X_tac tac) s)"

definition updateMccMnc :: "bool \<Rightarrow> string \<Rightarrow> xtra_observer \<Rightarrow> bool \<times> xtra_observer" where
  "updateMccMnc ok mccmnc s =
     (let s = s\<lparr>mMccmncValue := mccmnc\<rparr> in if \<not> mReqStatusReceived s then (True, s) else xtra_send ok (X_mncmcc mccmnc) s)"

definition updateXtraThrottle :: "bool \<Rightarrow> bool \<Rightarrow> xtra_observer \<Rightarrow> bool \<times> xtra_observer" where
  "updateXtraThrottle ok enabled s =
     (let s = s\<lparr>mXtraThrottle := enabled\<rparr> in if \<not> mReqStatusReceived s then (True, s) else xtra_send ok (X_xtrathrottle enabled) s)"

definition onStatusRequested :: "bool \<Rightarrow> 32 word \<Rightarrow> xtra_observer \<Rightarrow> bool \<times> xtra_observer" where
  "onStatusRequested ok xtraStatusUpdated s =
     (let s = s\<lparr>mReqStatusReceived := True\<rparr> in
      if xtraStatusUpdated \<noteq> 0 then (True, s)
      else xtra_send ok (X_respondStatus (mGpsLock s) (mConnections s) (mTacValue s) (mMccmncValue s) (mIsConnectivityStatusKnown s)) s)"

text \<open>The number behind the first word, as \<open>sscanf\<close> reads it with \<open>%*s %d\<close>; 0 where there is none.\<close>

definition status_number :: "string \<Rightarrow> 32 word" where
  "status_number data =
     (let s = dropWhile (\<lambda>c. \<not> c_isspace c) (dropWhile c_isspace (c_str data)) in atoi 32 s)"

text \<open>A message of the daemon: the number of the status request that is put onto the task.\<close>

definition xtra_onReceive :: "string \<Rightarrow> 32 word option" where
  "xtra_onReceive data =
     (if take 4 (c_str data) = ''ping'' then None
      else if take 13 (c_str data) = ''requestStatus'' then Some (status_number data) else None)"

text \<open>
  The data items that \<open>notify\<close> copies for the task, until the library cannot make one, and what the task
  does with them.
\<close>

definition xtra_notify :: "(data_item \<Rightarrow> bool) \<Rightarrow> data_item list \<Rightarrow> data_item list" where
  "xtra_notify can_create dlist = takeWhile can_create dlist"

definition update_item :: "bool \<Rightarrow> data_item \<Rightarrow> xtra_observer \<Rightarrow> xtra_observer" where
  "update_item ok each s =
     (case each of
        NetworkInfoDataItem networkInfo \<Rightarrow> snd (updateConnections ok (mAllTypes networkInfo) s)
      | TacDataItem tac \<Rightarrow> snd (updateTac ok (TacDataItemBase.mValue tac) s)
      | MccmncDataItem mccmnc \<Rightarrow> snd (updateMccMnc ok (MccmncDataItemBase.mValue mccmnc) s)
      | _ \<Rightarrow> s)"

text \<open>The items that are subscribed to, and those that are only requested.\<close>

definition subscribed_items :: "data_item \<Rightarrow> bool" where
  "subscribed_items d = (case d of NetworkInfoDataItem _ \<Rightarrow> True | MccmncDataItem _ \<Rightarrow> True | _ \<Rightarrow> False)"

section \<open>Histories\<close>

text \<open>What the task, and the timer that is started with the observer, make the observer do.\<close>

datatype xtra_op =
    X_timer
  | X_lock "32 word"
  | X_throttle bool
  | X_request "32 word"
  | X_items "data_item list"

definition xtra_step :: "bool \<Rightarrow> xtra_op \<Rightarrow> xtra_observer \<Rightarrow> xtra_observer" where
  "xtra_step ok x s =
     (case x of
        X_timer \<Rightarrow> snd (xtra_send ok X_halinit s)
      | X_lock lock \<Rightarrow> snd (updateLockStatus ok lock s)
      | X_throttle enabled \<Rightarrow> snd (updateXtraThrottle ok enabled s)
      | X_request n \<Rightarrow> snd (onStatusRequested ok n s)
      | X_items ds \<Rightarrow> fold (update_item ok) ds s)"

definition xtra_run :: "(bool \<times> xtra_op) list \<Rightarrow> xtra_observer" where
  "xtra_run ops = fold (\<lambda>(ok, x). xtra_step ok x) ops new_xtra"

section \<open>What the daemon knows\<close>

record xtra_view =
  v_lock :: "32 word option"
  v_connections :: "64 word option"
  v_tac :: "string option"
  v_mccmnc :: "string option"

text \<open>The last word on each part of the state, in the messages so far.\<close>

definition xtra_tell :: "xtra_message \<Rightarrow> xtra_view \<Rightarrow> xtra_view" where
  "xtra_tell m v =
     (case m of
        X_gpslock lock \<Rightarrow> v\<lparr>v_lock := Some lock\<rparr>
      | X_connection c \<Rightarrow> v\<lparr>v_connections := Some c\<rparr>
      | X_tac t \<Rightarrow> v\<lparr>v_tac := Some t\<rparr>
      | X_mncmcc n \<Rightarrow> v\<lparr>v_mccmnc := Some n\<rparr>
      | X_respondStatus lock c t n known \<Rightarrow> \<lparr>v_lock = Some lock, v_connections = Some c, v_tac = Some t, v_mccmnc = Some n\<rparr>
      | _ \<Rightarrow> v)"

definition xtra_known :: "xtra_message list \<Rightarrow> xtra_view" where
  "xtra_known ms = fold xtra_tell ms \<lparr>v_lock = None, v_connections = None, v_tac = None, v_mccmnc = None\<rparr>"

definition xtra_state :: "xtra_observer \<Rightarrow> xtra_view" where
  "xtra_state s = \<lparr>v_lock = Some (mGpsLock s), v_connections = Some (mConnections s), v_tac = Some (mTacValue s), v_mccmnc = Some (mMccmncValue s)\<rparr>"

text \<open>Once the daemon has been given the status, it is kept up to date.\<close>

definition up_to_date :: "xtra_observer \<Rightarrow> bool" where
  "up_to_date s \<longleftrightarrow> mReqStatusReceived s \<and> xtra_known (sent s) = xtra_state s"

lemma known_snoc: "xtra_known (ms @ [m]) = xtra_tell m (xtra_known ms)"
  by (simp add: xtra_known_def)

lemma update_item_keeps: "up_to_date s \<Longrightarrow> up_to_date (update_item True d s)"
  by (cases d) (auto simp: up_to_date_def update_item_def updateConnections_def updateTac_def updateMccMnc_def xtra_send_def Let_def
      known_snoc xtra_tell_def xtra_state_def)

lemma xtra_step_keeps:
  assumes "up_to_date s"
  shows "up_to_date (xtra_step True x s)"
proof (cases x)
  case (X_items ds)
  have "up_to_date s \<Longrightarrow> up_to_date (fold (update_item True) ds s)" for s
    by (induction ds arbitrary: s) (auto simp: update_item_keeps)
  then show ?thesis using assms X_items by (simp add: xtra_step_def)
qed (use assms in \<open>auto simp: up_to_date_def xtra_step_def updateLockStatus_def updateXtraThrottle_def onStatusRequested_def
      xtra_send_def Let_def known_snoc xtra_tell_def xtra_state_def\<close>)

lemma xtra_request_answers: "up_to_date (xtra_step True (X_request 0) s)"
  by (simp add: up_to_date_def xtra_step_def onStatusRequested_def xtra_send_def Let_def known_snoc xtra_tell_def xtra_state_def)

section \<open>Over the socket\<close>

text \<open>A short message that begins neither like a head nor like the abort message is always understood.\<close>

lemma receivable_plain:
  assumes "m \<noteq> []" "length m \<le> LOC_MSG_BUF_LEN" "hd m \<noteq> CHR ''L''" "hd m \<noteq> CHR ''$''"
  shows "receivable env stale m"
proof -
  obtain c t where "m = c # t" "c \<noteq> CHR ''L''" "c \<noteq> CHR ''$''" using assms by (cases m) auto
  then show ?thesis using assms(2) by (simp add: receivable_def seen_def overlay_def LOC_MSG_ABORT_def LOC_MSG_HEAD_def)
qed

lemma xtra_text_start: "xtra_text m \<noteq> []" "hd (xtra_text m) \<noteq> CHR ''L''" "hd (xtra_text m) \<noteq> CHR ''$''"
  by (cases m; simp add: xtra_text_def)+

lemma receivable_texts:
  "\<forall>m \<in> set ms. length (xtra_text m) \<le> LOC_MSG_BUF_LEN \<Longrightarrow> receivable_all env stale (map xtra_text ms)"
  by (induction ms arbitrary: stale) (simp_all add: receivable_plain xtra_text_start)

text \<open>
  C40: when the sockets take every message, the daemon has asked for the status (with the number 0) and the
  messages are not too long, then the daemon's listener is handed exactly the messages that were sent, in
  their order, and the last word in them on the lock, the connections, the area code and the network is
  what the observer has now, whatever happened before and after the request. The throttle setting is not
  among them: see \<open>throttle_before_request_untold\<close>.
\<close>

theorem xtra_daemon_up_to_date:
  assumes "\<forall>(ok, x) \<in> set (before @ after). ok" "\<forall>m \<in> set (sent (xtra_run (before @ (True, X_request 0) # after))). length (xtra_text m) \<le> LOC_MSG_BUF_LEN"
  shows "listen env [] (concat (map (datagrams \<circ> xtra_text) (sent (xtra_run (before @ (True, X_request 0) # after))))) =
      (map xtra_text (sent (xtra_run (before @ (True, X_request 0) # after))), L_waiting) \<and>
    xtra_known (sent (xtra_run (before @ (True, X_request 0) # after))) = xtra_state (xtra_run (before @ (True, X_request 0) # after))"
proof -
  let ?s = "xtra_run (before @ (True, X_request 0) # after)"
  have "\<forall>(ok, x) \<in> set ops. ok \<Longrightarrow> up_to_date s \<Longrightarrow> up_to_date (fold (\<lambda>(ok, x). xtra_step ok x) ops s)" for ops s
    by (induction ops arbitrary: s) (auto simp: xtra_step_keeps)
  then have "up_to_date ?s" using assms(1) xtra_request_answers by (simp add: xtra_run_def)
  moreover have "listen env [] (concat (map datagrams (map xtra_text (sent ?s)))) = (map xtra_text (sent ?s), L_waiting)"
    by (rule ipc_messages_understood) (rule receivable_texts [OF assms(2)])
  ultimately show ?thesis by (simp add: up_to_date_def)
qed

theorem xtra_daemon_up_to_date_witness:
  "listen example_ipc [] (concat (map (datagrams \<circ> xtra_text) (sent (xtra_run ([(True, X_timer), (True, X_lock 2)] @ (True, X_request 0) # [(True, X_throttle False)]))))) =
      (map xtra_text (sent (xtra_run ([(True, X_timer), (True, X_lock 2)] @ (True, X_request 0) # [(True, X_throttle False)]))), L_waiting) \<and>
   xtra_known (sent (xtra_run ([(True, X_timer), (True, X_lock 2)] @ (True, X_request 0) # [(True, X_throttle False)]))) =
      xtra_state (xtra_run ([(True, X_timer), (True, X_lock 2)] @ (True, X_request 0) # [(True, X_throttle False)]))"
proof (rule xtra_daemon_up_to_date)
  show "\<forall>m \<in> set (sent (xtra_run ([(True, X_timer), (True, X_lock 2)] @ (True, X_request 0) # [(True, X_throttle False)]))). length (xtra_text m) \<le> LOC_MSG_BUF_LEN"
    by (simp add: xtra_run_def new_xtra_def xtra_step_def xtra_send_def updateLockStatus_def onStatusRequested_def updateXtraThrottle_def
        Let_def xtra_text_def int_string_def LOC_MSG_BUF_LEN_def base_string.simps)
qed auto

section \<open>What the daemon is not told\<close>

text \<open>The throttle setting is neither in the status nor repeated: what it was before the request is never told.\<close>

definition same_but_throttle :: "xtra_observer \<Rightarrow> xtra_observer \<Rightarrow> bool" where
  "same_but_throttle s t \<longleftrightarrow> s\<lparr>mXtraThrottle := mXtraThrottle t\<rparr> = t \<and> \<not> mReqStatusReceived s"

lemma same_step:
  assumes "same_but_throttle s t" "\<forall>n. x \<noteq> X_request n"
  shows "same_but_throttle (xtra_step ok x s) (if \<exists>b. x = X_throttle b then t else xtra_step ok x t)"
proof (cases x)
  case (X_items ds)
  have item: "same_but_throttle s t \<Longrightarrow> same_but_throttle (update_item ok d s) (update_item ok d t)" for d s t
    by (cases s; cases t; cases d)
      (auto simp: same_but_throttle_def update_item_def updateConnections_def updateTac_def updateMccMnc_def Let_def)
  have "same_but_throttle s t \<Longrightarrow> same_but_throttle (fold (update_item ok) ds s) (fold (update_item ok) ds t)" for s t
    by (induction ds arbitrary: s t) (auto simp: item)
  then show ?thesis using assms(1) X_items by (simp add: xtra_step_def)
qed (cases s; cases t; use assms in \<open>auto simp: same_but_throttle_def xtra_step_def updateLockStatus_def updateXtraThrottle_def xtra_send_def Let_def\<close>)+

lemma throttle_before_request_untold:
  assumes "\<forall>(ok, x) \<in> set before. \<forall>n. x \<noteq> X_request n"
  shows "sent (xtra_run (before @ [(True, X_request 0)])) =
    sent (xtra_run (filter (\<lambda>(ok, x). \<not> (\<exists>b. x = X_throttle b)) before @ [(True, X_request 0)]))"
proof -
  have "same_but_throttle s t \<Longrightarrow> \<forall>(ok, x) \<in> set ops. \<forall>n. x \<noteq> X_request n \<Longrightarrow>
      same_but_throttle (fold (\<lambda>(ok, x). xtra_step ok x) ops s)
        (fold (\<lambda>(ok, x). xtra_step ok x) (filter (\<lambda>(ok, x). \<not> (\<exists>b. x = X_throttle b)) ops) t)" for ops s t
  proof (induction ops arbitrary: s t)
    case (Cons e ops)
    obtain ok x where e: "e = (ok, x)" by force
    have step: "same_but_throttle (xtra_step ok x s) (if \<exists>b. x = X_throttle b then t else xtra_step ok x t)"
      using same_step Cons.prems e by simp
    show ?case
      using Cons.IH [OF step] Cons.prems(2) e by (cases "\<exists>b. x = X_throttle b") auto
  qed simp
  moreover have "same_but_throttle new_xtra new_xtra" by (simp add: same_but_throttle_def new_xtra_def)
  ultimately have "same_but_throttle (xtra_run before) (xtra_run (filter (\<lambda>(ok, x). \<not> (\<exists>b. x = X_throttle b)) before))"
    using assms by (simp add: xtra_run_def)
  then show ?thesis
    by (cases "xtra_run before"; cases "xtra_run (filter (\<lambda>(ok, x). \<not> (\<exists>b. x = X_throttle b)) before)")
      (auto simp: same_but_throttle_def xtra_run_def xtra_step_def onStatusRequested_def xtra_send_def Let_def)
qed

end
