(* ===== verification/Spec2Isabelle.thy ===== *)
theory Spec2Isabelle
  imports MsgQueue AgpsSafety TimersSafety RilEventSafety RilSap LocClientProofs OsObserverProofs GnssAdapterHistories GnssNi MiscUtils LocProcConfProofs RilWake LocApiProofs LocStack NmeaRoundtrip LocThreadProofs XtraObserver
begin

text \<open>
  The native services of an Android device tree: the location (GNSS) stack under \<open>src/gps\<close> and the
  radio interface daemon under \<open>src/ril\<close>.

  How the program is put together. Applications reach the location stack through the client base
  class of the location API (\<open>gps/location\<close>), which turns the identifiers of a client into API
  sessions, and the dispatcher (\<open>LocationAPI.cpp\<close>), which loads the providers and tells them of
  the clients. Below it, adapters run on a message task: a thread that takes messages from a blocking
  queue (\<open>gps/utils/msg_q.c\<close>, on the list of \<open>gps/utils/linked_list.c\<close>) and runs their
  \<open>proc\<close>. On that task live the assisted-GPS connection manager (\<open>gps/gnss/Agps.cpp\<close>), which
  opens data connections for the modem, and the observer of operating-system data items
  (\<open>gps/core/SystemStatusOsObserver.cpp\<close>), and the GNSS adapter itself (\<open>gps/gnss/GnssAdapter.cpp\<close>),
  which puts the sessions of all clients onto the one session of the engine. They may arm timers (\<open>gps/utils/LocTimer.cpp\<close>), which
  wait in a heap (\<open>gps/utils/LocHeap.cpp\<close>) and expire through the message task again. The modem's
  events come up through \<open>gps/core/LocApiBase.cpp\<close>, which hands them to the adapters. The radio
  daemon (\<open>ril/libril/ril.cpp\<close>) keeps the requests that are pending at the vendor library and the wake
  lock; it is a loop over timers and file descriptors (\<open>ril/libril/ril_event.cpp\<close>); its SIM access
  profile sockets (\<open>ril/libril/RilSapSocket.cpp\<close>) keep requests in a queue until the vendor
  library completes them.

  Conventions. A C++ object that is shared by pointer lives in a store from addresses to records
  (\<open>Prelude\<close>); the use of a NULL, freed or never allocated object is the value \<open>None\<close> of the
  operation, so "never faults" is a theorem about \<open>Some\<close>. A return code is a value. What code
  outside the repository answers (the kernel, the framework, the modem, vendor libraries) is an
  argument of the operation that asks, and what is said to it is recorded in the state. Every
  stretch of code under one lock, and every message handled by a task, is one step; histories are
  lists of steps or inductive reachability relations over them, so that all interleavings are
  covered. C integers that can wrap are words or are normalised by hand.

  The theories, in the order of the layers:
    \<^item> \<open>Prelude\<close>: pointers, stores, doubly linked chains, fixed-width integers, rule collections.
    \<^item> \<open>LinkedList\<close> (\<open>linked_list.{c,h}\<close>): the pointer surgery on list cells, its refinement of
      a list of entries without touching other lists, and that destruction ends and frees all.
    \<^item> \<open>MsgQueue\<close> (\<open>msg_q.{c,h}\<close>): the queue's critical sections, first-in first-out order (through
      the locale \<open>fifo\<close>), and that no wake-up is lost under any interleaving of threads.
    \<^item> \<open>LocHeap\<close> (\<open>LocHeap.{h,cpp}\<close>): the balanced heap as a tree value; locales \<open>rankable\<close> (a
      ranking of the elements) and \<open>rank_queue\<close> (the multiset behind a priority queue).
    \<^item> \<open>Agps\<close>, \<open>AgpsProofs\<close>, \<open>AgpsSafety\<close> (\<open>Agps.{h,cpp}\<close>): subscribers, the state machines with
      their virtual methods, and the manager; a refinement of an abstract machine, proved once in
      the locale \<open>agps_class\<close> and interpreted for both classes; exactly which operations fault;
      invariants and memory over histories of manager operations, modem restarts included.
    \<^item> \<open>Timers\<close>, \<open>TimersProofs\<close>, \<open>TimersSafety\<close> (\<open>LocTimer.{h,cpp}\<close>, \<open>LocSharedLock.h\<close>): timers,
      delegates, containers, the polling thread and the message task; exactly which actions use a
      deleted object when the clients keep to no discipline, and, when they do (\<open>disciplined\<close>), no
      lost timer and the order of expiries under every interleaving.
    \<^item> \<open>SetMap\<close> (\<open>LocUnorderedSetMap.h\<close>): maps to sets without empty entries, with the locales
      \<open>set_map\<close> and \<open>two_way\<close> (one relation kept as two maps).
    \<^item> \<open>OsObserver\<close>, \<open>OsObserverProofs\<close> (\<open>SystemStatusOsObserver.{h,cpp}\<close>): subscriptions of clients
      to data items, as a relation between the two; the framework's subscriptions follow it. Some
      messages read a node of a hash table they have just erased, which is undefined: the flag
      \<open>stale_ok\<close> of the environment says whether that memory still reads as before, and without it
      such a message has no result. \<open>updateSubscription\<close>, which makes the two maps inconsistent, is modelled
      but is in none of the histories.
    \<^item> \<open>LocClient\<close>, \<open>LocClientProofs\<close> (\<open>LocationAPIClientBase.{h,cpp}\<close>): the two-way dictionary of
      sessions, the request queues and every operation and callback of the client base class; the
      reachable clients (\<open>lc_reach\<close>) get session identifiers from the API that are not in use, or 0.
    \<^item> \<open>RilEvent\<close>, \<open>RilEventProofs\<close>, \<open>RilEventSafety\<close> (\<open>ril_event.{h,cpp}\<close>): the rings of events
      threaded through the events, the table of descriptors and the event loop with callbacks that
      obey a contract; what a round fires, and that no history faults or hangs.
    \<^item> \<open>RilSap\<close> (\<open>rilSocketQueue.h\<close>, \<open>RilSapSocket.{h,cpp}\<close>): the intrusive queue, dispatch and
      completion of requests with the life time of their memory.
    \<^item> \<open>StdMap\<close>: \<open>std::map\<close> as an ordered association list, with the locale \<open>iter_map\<close>.
    \<^item> \<open>GnssAdapter\<close>, \<open>GnssAdapterProofs\<close>, \<open>GnssAdapterSafety\<close>, \<open>GnssAdapterHistories\<close>
      (\<open>GnssAdapter.{h,cpp}\<close>, \<open>LocAdapterBase.{h,cpp}\<close>): clients, the multiplexer of tracking sessions,
      event mask, power vote, position reports and on-demand positions; what was last asked of the
      engine for the sessions, and what the engine is doing, after every history of commands of clients
      and of the user-location proxy, answers, engine restarts and message interleavings.
    \<^item> \<open>GnssNi\<close> (\<open>GnssAdapter.cpp\<close>): network-initiated requests, shared by the message task and
      waiting threads; where every request's memory is, under every interleaving, while clients come
      and go.
    \<^item> \<open>MiscUtils\<close> (\<open>loc_misc_utils.cpp\<close>): splitting and trimming in place, equal to reference
      functions on strings.
    \<^item> \<open>LocCfg\<close>, \<open>LocCfgProofs\<close>, \<open>LocProcConf\<close>, \<open>LocProcConfProofs\<close> (\<open>loc_cfg.{h,cpp}\<close>): the reader of
      configuration files, which writes into memory by address, and the selection of the processes to
      launch; files that are printed are read back, the masks agree with a reading of the lists, and
      the entry of a process is overrun exactly when the last list fills its 80 bytes.
    \<^item> \<open>NmeaDebug\<close>, \<open>StatusItems\<close>, \<open>SystemStatus\<close>, \<open>SystemStatusProofs\<close>, \<open>NmeaRoundtrip\<close>
      (\<open>SystemStatus.{h,cpp}\<close>, \<open>DataItemConcreteTypesBase.h\<close>): the parsers of the modem's debug sentences,
      the items of the system status with their comparisons, and the cache of the last reports; what the
      reports hold after every history (through the locale \<open>report_kind\<close>, interpreted for each of the 35
      kinds), that the collated network types are the connected ones, and that a printed sentence is
      read back.
    \<^item> \<open>LocThread\<close>, \<open>LocThreadProofs\<close> (\<open>LocThread.{h,cpp}\<close>): the delegate that a client and its thread
      share and count, under every interleaving of the two. Objects are left to the thread: a client
      that deletes its object after a failed start is not modelled.
    \<^item> \<open>Numerals\<close>, \<open>LocIpc\<close>, \<open>LocIpcProofs\<close> (\<open>LocIpc.{h,cpp}\<close>): numbers as text, and messages over a
      datagram socket; what is sent is delivered, unless bytes of an earlier message get into the way.
    \<^item> \<open>XtraObserver\<close> (\<open>XtraSystemStatusObserver.{h,cpp}\<close>): what the daemon for assistance data is told,
      composed with the socket.
    \<^item> \<open>Systems\<close>: histories of guarded operations, in the locale \<open>guarded_system\<close>, which the radio
      core, the modem interface and the dispatcher interpret.
    \<^item> \<open>LocApi\<close>, \<open>LocApiProofs\<close> (\<open>LocApiBase.{h,cpp}\<close>): the array of adapters, broadcasts, event masks
      and the messages that open the modem's interface.
    \<^item> \<open>LocDispatch\<close>, \<open>LocDispatchProofs\<close> (\<open>LocationAPI.cpp\<close>): the entry points of the location API;
      what each provider knows of the clients after every history: the live objects that need it, and
      the ones an update has left dangling (\<open>dangling\<close>).
    \<^item> \<open>LocStack\<close> (\<open>location_gnss.cpp\<close>): the dispatcher composed with the GNSS adapter; the adapter's
      clients and the fix asked for their sessions follow the live clients under every interleaving.
    \<^item> \<open>RilCore\<close>, \<open>RilCoreProofs\<close>, \<open>RilCoreSafety\<close>, \<open>RilCoreHistories\<close> (\<open>ril.cpp\<close> and the tables it
      includes): registration, pending requests, notifications, the wake lock and its timers; the
      locale \<open>intrusive\<close> for lists threaded through their elements.
    \<^item> \<open>RilWake\<close>: the wake lock again, with the parts of taking and expiring it interleaved.

  Groups of lemmas: representation invariants and their preservation; what each operation
  computes on every branch; refinements of the abstract machines and containers; safety over all
  histories; and, where the code does not do what its comments or callers expect, theorems that
  state exactly what it does instead (use of deleted objects in \<open>releaseATL\<close>, \<open>loc_timer_stop\<close>,
  \<open>LocTimerDelegate::expire\<close> and \<open>onRequestComplete\<close>, erased nodes read by the set maps, inconsistent maps after
  \<open>updateSubscription\<close>, \<open>turnOn\<close> that never reaches the framework, the stale mode of the
  multiplexer, a late answer that decides the next network request, unknown notifications that
  arrive as changes of the radio state, wake locks lost to an expiry on its way, clients that a
  provider keeps after they are destroyed, health masks that saturate, short sentences that store
  memory that was never written, threads that run although they could not be started, long messages
  that are never delivered).

  Loops and bounds. Loops over pointer structures that may not end are
  \<open>partial_function (option)\<close>, so that not returning is \<open>None\<close> as well; the theorems that the
  operations return cover them (list, queue and ring walks end because the chains are finite and
  intact). The pops of one expiry have fuel equal to the number of timers in the heap. Times are
  integers; the hypotheses of the timers' theorems keep the clock 50 days away from the end of a
  32-bit \<open>time_t\<close>, which is what a 32-bit count of milliseconds can add to it.

  Not modelled. Of the GNSS adapter: the configuration commands, satellite, NMEA and
  measurement reports and the conversions of floating-point positions. Of the data
  items, their conversion to text, which a proprietary library does. Of the radio core, the
  start of the event loop's thread, the read-write locks of the services and the tables of names. The HIDL services of both stacks convert structures field by field and forward
  calls; \<open>sap_service.cpp\<close> converts to generated code that is not in the repository; the NMEA
  generator formats floating-point positions with \<open>snprintf\<close>; the message task, logging, device
  initialisation and pulse-per-second are input and output; the large headers declare constants.
\<close>

end
